(* ===== verification/Rust_Prelude.thy ===== *)
theory Rust_Prelude
  imports Main "HOL-Library.Word" "HOL-Library.Char_ord" "HOL-Library.List_Lexorder"
    "HOL-Library.Product_Lexorder"
begin

text \<open>
  The vocabulary the component theories share: fallible computations as sums, the string and
  slice functions of the Rust standard library that the sources call, \<open>BTreeMap\<close> as a key-sorted
  association list, socket addresses, and the generic lemmas on them.

  A Rust \<open>str\<close> is a \<open>string\<close>, that is, its UTF-8 bytes: \<open>len\<close> is \<^const>\<open>length\<close> and slicing is by
  byte index. Where the code iterates over \<open>chars()\<close> the model iterates over \<open>chars s\<close>, which cuts
  the bytes at the character boundaries, so a Rust \<open>char\<close> is the string of its UTF-8 bytes.
\<close>

named_theorems result_simps \<open>inversion of successful fallible computations\<close>
named_theorems btree_simps \<open>lookups in BTreeMap models after each operation\<close>

section \<open>Fallible computations\<close>

text \<open>\<open>Result<T>\<close> with \<open>?\<close>, \<open>ensure!\<close> and \<open>bail!\<close>: \<open>Inl\<close> is the error.\<close>

type_synonym ('e, 'a) result = "'e + 'a"

definition bindR :: "('e, 'a) result \<Rightarrow> ('a \<Rightarrow> ('e, 'b) result) \<Rightarrow> ('e, 'b) result" where
  "bindR r f = (case r of Inl e \<Rightarrow> Inl e | Inr x \<Rightarrow> f x)"

definition ensure :: "bool \<Rightarrow> 'e \<Rightarrow> ('e, unit) result" where
  "ensure b e = (if b then Inr () else Inl e)"

definition ok_or :: "'a option \<Rightarrow> 'e \<Rightarrow> ('e, 'a) result" where
  "ok_or x e = (case x of None \<Rightarrow> Inl e | Some a \<Rightarrow> Inr a)"

fun for_each :: "('a \<Rightarrow> ('e, unit) result) \<Rightarrow> 'a list \<Rightarrow> ('e, unit) result" where
  "for_each f [] = Inr ()"
| "for_each f (x # xs) = bindR (f x) (\<lambda>_. for_each f xs)"

fun collect_result :: "('a \<Rightarrow> ('e, 'b) result) \<Rightarrow> 'a list \<Rightarrow> ('e, 'b list) result" where
  "collect_result f [] = Inr []"
| "collect_result f (x # xs) =
     bindR (f x) (\<lambda>y. bindR (collect_result f xs) (\<lambda>ys. Inr (y # ys)))"

fun is_ok :: "('e, 'a) result \<Rightarrow> bool" where
  "is_ok (Inl _) = False"
| "is_ok (Inr _) = True"

lemma bindR_simps [simp]:
  "bindR (Inl e) f = Inl e"
  "bindR (Inr x) f = f x"
  by (simp_all add: bindR_def)

lemma bindR_assoc [simp]: "bindR (bindR r f) g = bindR r (\<lambda>x. bindR (f x) g)"
  by (cases r) simp_all

lemma bindR_Inr_iff [result_simps]: "bindR r f = Inr y \<longleftrightarrow> (\<exists>x. r = Inr x \<and> f x = Inr y)"
  by (cases r) simp_all

lemma bindR_Inl_iff: "bindR r f = Inl e \<longleftrightarrow> r = Inl e \<or> (\<exists>x. r = Inr x \<and> f x = Inl e)"
  by (cases r) simp_all

lemma ensure_Inr_iff [result_simps]: "ensure b e = Inr u \<longleftrightarrow> b"
  by (simp add: ensure_def)

lemma ensure_True [simp]: "ensure True e = Inr ()"
  by (simp add: ensure_def)

lemma ensure_False [simp]: "ensure False e = Inl e"
  by (simp add: ensure_def)

lemma ok_or_simps [simp]: "ok_or None e = Inl e" "ok_or (Some a) e = Inr a"
  by (simp_all add: ok_or_def)

lemma ok_or_Inr_iff [result_simps]: "ok_or x e = Inr a \<longleftrightarrow> x = Some a"
  by (cases x) simp_all

lemma for_each_Inr_iff [result_simps]:
  "for_each f xs = Inr u \<longleftrightarrow> (\<forall>x\<in>set xs. f x = Inr ())"
  by (induction xs) (auto simp: result_simps)

lemma is_ok_iff: "is_ok r \<longleftrightarrow> (\<exists>x. r = Inr x)"
  by (cases r) simp_all

section \<open>Lists and options\<close>

fun find_map :: "('a \<Rightarrow> 'b option) \<Rightarrow> 'a list \<Rightarrow> 'b option" where
  "find_map f [] = None"
| "find_map f (x # xs) = (case f x of None \<Rightarrow> find_map f xs | Some y \<Rightarrow> Some y)"

definition or_else :: "'a option \<Rightarrow> 'a option \<Rightarrow> 'a option" where
  "or_else a b = (case a of None \<Rightarrow> b | Some x \<Rightarrow> Some x)"

lemma or_else_simps [simp]:
  "or_else None b = b" "or_else (Some x) b = Some x" "or_else a None = a"
  by (simp_all add: or_else_def split: option.split)

lemma or_else_assoc [simp]: "or_else (or_else a b) c = or_else a (or_else b c)"
  by (cases a) simp_all

lemma or_else_eq_None_iff [simp]: "or_else a b = None \<longleftrightarrow> a = None \<and> b = None"
  by (cases a) simp_all

lemma find_map_append [simp]: "find_map f (xs @ ys) = or_else (find_map f xs) (find_map f ys)"
  by (induction xs) (auto split: option.split)

lemma find_map_None_iff: "find_map f xs = None \<longleftrightarrow> (\<forall>x\<in>set xs. f x = None)"
  by (induction xs) (auto split: option.split)

lemma find_map_SomeD: "find_map f xs = Some y \<Longrightarrow> \<exists>x\<in>set xs. f x = Some y"
  by (induction xs) (auto split: option.splits)

lemma find_map_cong:
  "(\<And>x. x \<in> set xs \<Longrightarrow> f x = g x) \<Longrightarrow> find_map f xs = find_map g xs"
  by (induction xs) (auto split: option.split)

lemma find_map_map [simp]: "find_map f (map g xs) = find_map (f \<circ> g) xs"
  by (induction xs) (auto split: option.split)

lemma find_map_find:
  "find_map (\<lambda>x. if P x then Some (f x) else None) xs = map_option f (find P xs)"
  by (induction xs) auto

lemma find_map_filter_None:
  "(\<And>x. x \<in> set xs \<Longrightarrow> \<not> P x \<Longrightarrow> f x = None) \<Longrightarrow> find_map f (filter P xs) = find_map f xs"
  by (induction xs) (auto split: option.split)

lemma find_filter: "find P (filter Q xs) = find (\<lambda>x. Q x \<and> P x) xs"
  by (induction xs) auto

lemma find_cong_list: "(\<And>x. x \<in> set xs \<Longrightarrow> P x = Q x) \<Longrightarrow> find P xs = find Q xs"
  by (induction xs) auto

text \<open>\<open>Option::is_some_and\<close>, \<open>is_none_or\<close>, and \<open>slice::get\<close>.\<close>

definition is_some_and :: "'a option \<Rightarrow> ('a \<Rightarrow> bool) \<Rightarrow> bool" where
  "is_some_and x P = (case x of None \<Rightarrow> False | Some a \<Rightarrow> P a)"

definition is_none_or :: "'a option \<Rightarrow> ('a \<Rightarrow> bool) \<Rightarrow> bool" where
  "is_none_or x P = (case x of None \<Rightarrow> True | Some a \<Rightarrow> P a)"

definition slice_get :: "'a list \<Rightarrow> nat \<Rightarrow> 'a option" where
  "slice_get xs i = (if i < length xs then Some (xs ! i) else None)"

lemma is_some_and_simps [simp]: "\<not> is_some_and None P" "is_some_and (Some a) P = P a"
  by (simp_all add: is_some_and_def)

lemma is_none_or_simps [simp]: "is_none_or None P" "is_none_or (Some a) P = P a"
  by (simp_all add: is_none_or_def)

lemma is_some_and_iff: "is_some_and x P \<longleftrightarrow> (\<exists>a. x = Some a \<and> P a)"
  by (cases x) simp_all

lemma is_none_or_iff: "is_none_or x P \<longleftrightarrow> (\<forall>a. x = Some a \<longrightarrow> P a)"
  by (cases x) simp_all

lemma slice_get_Some_iff: "slice_get xs i = Some x \<longleftrightarrow> i < length xs \<and> xs ! i = x"
  by (auto simp: slice_get_def)

lemma slice_get_simps [simp]:
  "i < length xs \<Longrightarrow> slice_get xs i = Some (xs ! i)" "length xs \<le> i \<Longrightarrow> slice_get xs i = None"
  by (simp_all add: slice_get_def)

text \<open>\<open>Iterator::position\<close>: the index of the first element that satisfies the test.\<close>

fun position :: "('a \<Rightarrow> bool) \<Rightarrow> 'a list \<Rightarrow> nat option" where
  "position P [] = None"
| "position P (x # xs) = (if P x then Some 0 else map_option Suc (position P xs))"

lemma position_Some_iff:
  "position P xs = Some i \<longleftrightarrow> i < length xs \<and> P (xs ! i) \<and> (\<forall>j<i. \<not> P (xs ! j))"
proof (induction xs arbitrary: i)
  case (Cons x xs)
  show ?case
    by (cases i) (auto simp: Cons.IH nth_Cons' less_Suc_eq_0_disj)
qed simp

lemma position_None_iff: "position P xs = None \<longleftrightarrow> (\<forall>x\<in>set xs. \<not> P x)"
  by (induction xs) auto

lemma position_cong: "(\<And>x. x \<in> set xs \<Longrightarrow> P x = Q x) \<Longrightarrow> position P xs = position Q xs"
  by (induction xs) auto

section \<open>Strings\<close>

definition starts_with :: "'a list \<Rightarrow> 'a list \<Rightarrow> bool" where
  "starts_with s p \<longleftrightarrow> take (length p) s = p"

definition strip_prefix :: "'a list \<Rightarrow> 'a list \<Rightarrow> 'a list option" where
  "strip_prefix p s = (if starts_with s p then Some (drop (length p) s) else None)"

definition strip_suffix :: "'a list \<Rightarrow> 'a list \<Rightarrow> 'a list option" where
  "strip_suffix p s = map_option rev (strip_prefix (rev p) (rev s))"

definition ends_with :: "'a list \<Rightarrow> 'a list \<Rightarrow> bool" where
  "ends_with s p \<longleftrightarrow> starts_with (rev s) (rev p)"

definition trim_start_matches :: "'a \<Rightarrow> 'a list \<Rightarrow> 'a list" where
  "trim_start_matches c s = dropWhile (\<lambda>x. x = c) s"

definition trim_end_matches :: "'a \<Rightarrow> 'a list \<Rightarrow> 'a list" where
  "trim_end_matches c s = rev (dropWhile (\<lambda>x. x = c) (rev s))"

definition trim_where :: "('a \<Rightarrow> bool) \<Rightarrow> 'a list \<Rightarrow> 'a list" where
  "trim_where P s = rev (dropWhile P (rev (dropWhile P s)))"

fun split_once :: "'a \<Rightarrow> 'a list \<Rightarrow> ('a list \<times> 'a list) option" where
  "split_once c [] = None"
| "split_once c (x # xs) =
     (if x = c then Some ([], xs)
      else map_option (\<lambda>(a, b). (x # a, b)) (split_once c xs))"

fun split_on :: "'a \<Rightarrow> 'a list \<Rightarrow> 'a list list" where
  "split_on c [] = [[]]"
| "split_on c (x # xs) =
     (if x = c then [] # split_on c xs
      else (case split_on c xs of [] \<Rightarrow> [[x]] | y # ys \<Rightarrow> (x # y) # ys))"

fun join :: "'a list \<Rightarrow> 'a list list \<Rightarrow> 'a list" where
  "join sep [] = []"
| "join sep [x] = x"
| "join sep (x # y # ys) = x @ sep @ join sep (y # ys)"

text \<open>\<open>match_indices\<close> for a one-byte pattern: the positions, ascending.\<close>

definition match_indices :: "'a list \<Rightarrow> 'a \<Rightarrow> nat list" where
  "match_indices s c = filter (\<lambda>i. s ! i = c) [0..<length s]"

definition is_ascii_lowercase :: "char \<Rightarrow> bool" where
  "is_ascii_lowercase c \<longleftrightarrow> CHR ''a'' \<le> c \<and> c \<le> CHR ''z''"

definition is_ascii_uppercase :: "char \<Rightarrow> bool" where
  "is_ascii_uppercase c \<longleftrightarrow> CHR ''A'' \<le> c \<and> c \<le> CHR ''Z''"

definition is_ascii_digit :: "char \<Rightarrow> bool" where
  "is_ascii_digit c \<longleftrightarrow> CHR ''0'' \<le> c \<and> c \<le> CHR ''9''"

definition is_ascii_alphabetic :: "char \<Rightarrow> bool" where
  "is_ascii_alphabetic c \<longleftrightarrow> is_ascii_lowercase c \<or> is_ascii_uppercase c"

definition is_ascii_alphanumeric :: "char \<Rightarrow> bool" where
  "is_ascii_alphanumeric c \<longleftrightarrow> is_ascii_alphabetic c \<or> is_ascii_digit c"

definition to_ascii_lowercase_char :: "char \<Rightarrow> char" where
  "to_ascii_lowercase_char c = (if is_ascii_uppercase c then char_of (of_char c + 32 :: nat) else c)"

definition to_ascii_lowercase :: "string \<Rightarrow> string" where
  "to_ascii_lowercase = map to_ascii_lowercase_char"

lemma starts_with_iff: "starts_with s p \<longleftrightarrow> (\<exists>r. s = p @ r)"
  by (metis starts_with_def append_eq_conv_conj append_take_drop_id)

lemma starts_with_append [simp]: "starts_with (p @ r) p"
  by (simp add: starts_with_def)

lemma starts_with_Nil [simp]: "starts_with s []"
  by (simp add: starts_with_def)

lemma starts_with_length: "starts_with s p \<Longrightarrow> length p \<le> length s"
  by (auto simp: starts_with_iff)

lemma strip_prefix_Some_iff [simp]: "strip_prefix p s = Some r \<longleftrightarrow> s = p @ r"
  by (auto simp: strip_prefix_def starts_with_iff)

lemma strip_prefix_None_iff: "strip_prefix p s = None \<longleftrightarrow> \<not> starts_with s p"
  by (auto simp: strip_prefix_def)

lemma strip_suffix_Some_iff [simp]: "strip_suffix p s = Some r \<longleftrightarrow> s = r @ p"
proof
  assume "strip_suffix p s = Some r"
  then obtain t where "rev s = rev p @ t" "r = rev t"
    by (auto simp: strip_suffix_def)
  then have "rev (rev s) = rev (rev p @ t)" "r = rev t" by simp_all
  then show "s = r @ p" by simp
qed (simp add: strip_suffix_def)

lemma strip_suffix_None_iff: "strip_suffix p s = None \<longleftrightarrow> (\<nexists>r. s = r @ p)"
  using strip_suffix_Some_iff [of p s] by (cases "strip_suffix p s") auto

lemma trim_end_matches_decomp:
  "\<exists>n. s = trim_end_matches c s @ replicate n c"
proof -
  have "\<exists>n. takeWhile (\<lambda>x. x = c) (rev s) = replicate n c"
    by (intro exI [of _ "length (takeWhile (\<lambda>x. x = c) (rev s))"] replicate_eqI)
      (auto dest: set_takeWhileD)
  then obtain n where n: "takeWhile (\<lambda>x. x = c) (rev s) = replicate n c" ..
  have "rev s = takeWhile (\<lambda>x. x = c) (rev s) @ dropWhile (\<lambda>x. x = c) (rev s)" by simp
  then have "s = rev (dropWhile (\<lambda>x. x = c) (rev s)) @ rev (takeWhile (\<lambda>x. x = c) (rev s))"
    by (metis rev_append rev_rev_ident)
  then show ?thesis
    by (metis n rev_replicate trim_end_matches_def)
qed

lemma trim_end_matches_last: "trim_end_matches c s \<noteq> [] \<Longrightarrow> last (trim_end_matches c s) \<noteq> c"
  using hd_dropWhile [of "\<lambda>x. x = c" "rev s"]
  by (auto simp: trim_end_matches_def last_rev)

lemma split_once_Some_iff:
  "split_once c s = Some (a, b) \<longleftrightarrow> s = a @ c # b \<and> c \<notin> set a"
proof (induction s arbitrary: a)
  case (Cons x xs)
  then show ?case by (cases a) auto
qed simp

lemma split_once_None_iff: "split_once c s = None \<longleftrightarrow> c \<notin> set s"
  by (induction s) auto

lemma split_on_nonempty [simp]: "split_on c s \<noteq> []"
  by (induction s) (auto split: list.split)

lemma join_split_on: "join [c] (split_on c s) = s"
proof (induction s)
  case (Cons x xs)
  obtain y ys where "split_on c xs = y # ys" by (cases "split_on c xs") simp_all
  with Cons show ?case by (cases ys) auto
qed simp

lemma split_on_no_sep: "p \<in> set (split_on c s) \<Longrightarrow> c \<notin> set p"
  by (induction s arbitrary: p) (auto split: list.splits if_splits)

lemma split_on_not_in: "c \<notin> set s \<Longrightarrow> split_on c s = [s]"
  by (induction s) auto

lemma split_on_append_sep: "c \<notin> set a \<Longrightarrow> split_on c (a @ c # b) = a # split_on c b"
  by (induction a) auto

lemma split_on_join:
  "xs \<noteq> [] \<Longrightarrow> \<forall>x\<in>set xs. c \<notin> set x \<Longrightarrow> split_on c (join [c] xs) = xs"
  by (induction "[c]" xs rule: join.induct)
    (auto simp: split_on_not_in split_on_append_sep)

lemma match_indices_iff: "i \<in> set (match_indices s c) \<longleftrightarrow> i < length s \<and> s ! i = c"
  by (auto simp: match_indices_def)

lemma match_indices_Nil [simp]: "match_indices [] c = []"
  by (simp add: match_indices_def)

lemma match_indices_Cons:
  "match_indices (x # s) c = (if x = c then [0] else []) @ map Suc (match_indices s c)"
proof -
  have "[0..<length (x # s)] = 0 # map Suc [0..<length s]"
    by (simp add: map_Suc_upt upt_conv_Cons del: upt_Suc)
  then have "match_indices (x # s) c = filter (\<lambda>i. (x # s) ! i = c) (0 # map Suc [0..<length s])"
    by (simp only: match_indices_def)
  then show ?thesis by (simp add: filter_map comp_def match_indices_def)
qed

lemma length_to_ascii_lowercase [simp]: "length (to_ascii_lowercase s) = length s"
  by (simp add: to_ascii_lowercase_def)

lemma to_ascii_lowercase_id: "\<forall>c\<in>set s. \<not> is_ascii_uppercase c \<Longrightarrow> to_ascii_lowercase s = s"
  by (simp add: to_ascii_lowercase_def to_ascii_lowercase_char_def map_idI)

section \<open>UTF-8\<close>

text \<open>
  \<open>is_cont\<close> is the test \<open>str::is_char_boundary\<close> makes on a byte. A Rust \<open>str\<close> is always well-formed
  UTF-8; \<open>utf8_shaped\<close> is the part of that which the code relies on (a lead byte is followed by the
  number of continuation bytes it announces), so it holds of every \<open>str\<close>.
\<close>

definition is_cont :: "char \<Rightarrow> bool" where
  "is_cont c \<longleftrightarrow> CHR 0x80 \<le> c \<and> c < CHR 0xC0"

definition utf8_width :: "char \<Rightarrow> nat" where
  "utf8_width c =
     (if c < CHR 0x80 then 1 else if c < CHR 0xC0 then 0 else if c < CHR 0xE0 then 2
      else if c < CHR 0xF0 then 3 else 4)"

function utf8_shaped :: "string \<Rightarrow> bool" where
  "utf8_shaped [] = True"
| "utf8_shaped (c # s) =
     (0 < utf8_width c \<and> utf8_width c - 1 \<le> length s
      \<and> list_all is_cont (take (utf8_width c - 1) s) \<and> utf8_shaped (drop (utf8_width c - 1) s))"
  by pat_completeness auto
termination
  by (relation "measure length") auto

definition is_char_boundary :: "string \<Rightarrow> nat \<Rightarrow> bool" where
  "is_char_boundary s n \<longleftrightarrow> n = 0 \<or> n = length s \<or> n < length s \<and> \<not> is_cont (s ! n)"

text \<open>\<open>chars\<close> cuts a string before every byte that is not a continuation byte.\<close>

fun chars :: "string \<Rightarrow> string list" where
  "chars [] = []"
| "chars (c # s) =
     (case chars s of
        [] \<Rightarrow> [[c]]
      | d # ds \<Rightarrow> (if is_cont (hd d) then (c # d) # ds else [c] # d # ds))"

text \<open>\<open>char::is_whitespace\<close>: the code points with the Unicode property White\_Space, in UTF-8.\<close>

definition whitespace_chars :: "string list" where
  "whitespace_chars =
     [[CHR 0x09], [CHR 0x0A], [CHR 0x0B], [CHR 0x0C], [CHR 0x0D], [CHR 0x20],
      [CHR 0xC2, CHR 0x85], [CHR 0xC2, CHR 0xA0], [CHR 0xE1, CHR 0x9A, CHR 0x80],
      [CHR 0xE2, CHR 0x80, CHR 0x80], [CHR 0xE2, CHR 0x80, CHR 0x81], [CHR 0xE2, CHR 0x80, CHR 0x82],
      [CHR 0xE2, CHR 0x80, CHR 0x83], [CHR 0xE2, CHR 0x80, CHR 0x84], [CHR 0xE2, CHR 0x80, CHR 0x85],
      [CHR 0xE2, CHR 0x80, CHR 0x86], [CHR 0xE2, CHR 0x80, CHR 0x87], [CHR 0xE2, CHR 0x80, CHR 0x88],
      [CHR 0xE2, CHR 0x80, CHR 0x89], [CHR 0xE2, CHR 0x80, CHR 0x8A], [CHR 0xE2, CHR 0x80, CHR 0xA8],
      [CHR 0xE2, CHR 0x80, CHR 0xA9], [CHR 0xE2, CHR 0x80, CHR 0xAF], [CHR 0xE2, CHR 0x81, CHR 0x9F],
      [CHR 0xE3, CHR 0x80, CHR 0x80]]"

definition is_whitespace :: "string \<Rightarrow> bool" where
  "is_whitespace c \<longleftrightarrow> c \<in> set whitespace_chars"

definition trim :: "string \<Rightarrow> string" where
  "trim s = concat (trim_where is_whitespace (chars s))"

lemma utf8_width_pos: "\<not> is_cont c \<longleftrightarrow> 0 < utf8_width c"
  by (auto simp: is_cont_def utf8_width_def)

lemma utf8_shaped_hd: "utf8_shaped (c # s) \<Longrightarrow> \<not> is_cont c"
  by (simp add: utf8_width_pos)

lemma utf8_shaped_appendD: "utf8_shaped (a @ b) \<Longrightarrow> utf8_shaped a \<Longrightarrow> utf8_shaped b"
proof (induction a rule: utf8_shaped.induct)
  case (2 c s)
  then have "utf8_shaped (drop (utf8_width c - 1) (s @ b))"
    and "utf8_width c - 1 \<le> length s" and "utf8_shaped (drop (utf8_width c - 1) s)"
    by simp_all
  with 2(1) show ?case by simp
qed simp

lemma utf8_prefix_boundary:
  assumes "utf8_shaped p" and "utf8_shaped s" and "starts_with s p"
  shows "is_char_boundary s (length p)"
proof -
  from assms(3) obtain r where r: "s = p @ r" by (auto simp: starts_with_iff)
  with assms have "utf8_shaped r" using utf8_shaped_appendD by blast
  then show ?thesis
    using r utf8_shaped_hd by (cases r) (auto simp: is_char_boundary_def nth_append)
qed

lemma chars_concat [simp]: "concat (chars s) = s"
  by (induction s rule: chars.induct) (auto split: list.splits)

lemma chars_nonempty: "c \<in> set (chars s) \<Longrightarrow> c \<noteq> []"
  by (induction s arbitrary: c rule: chars.induct) (auto split: list.splits if_splits)

lemma chars_ascii: "\<forall>c\<in>set s. \<not> is_cont c \<Longrightarrow> chars s = map (\<lambda>c. [c]) s"
proof (induction s)
  case (Cons c s)
  then show ?case by (cases s) (auto split: list.split)
qed simp

section \<open>Bounded integers, substrings and UTF-8 validity\<close>

definition usize_max :: nat where
  "usize_max = 2 ^ 64 - 1"

definition checked_add :: "nat \<Rightarrow> nat \<Rightarrow> nat option" where
  "checked_add a b = (if a + b \<le> usize_max then Some (a + b) else None)"

text \<open>\<open>TryFrom<i64>\<close> for an unsigned type with the given maximum.\<close>

definition try_from_i64 :: "nat \<Rightarrow> 64 word \<Rightarrow> nat option" where
  "try_from_i64 m x = (if 0 \<le> sint x \<and> sint x \<le> int m then Some (nat (sint x)) else None)"

text \<open>\<open>str::get(a..b)\<close> and \<open>str::contains\<close>.\<close>

definition str_get :: "string \<Rightarrow> nat \<Rightarrow> nat \<Rightarrow> string option" where
  "str_get s a b =
     (if a \<le> b \<and> b \<le> length s \<and> is_char_boundary s a \<and> is_char_boundary s b
      then Some (take (b - a) (drop a s)) else None)"

fun contains_str :: "string \<Rightarrow> string \<Rightarrow> bool" where
  "contains_str [] needle = (needle = [])"
| "contains_str (c # s) needle = (starts_with (c # s) needle \<or> contains_str s needle)"

text \<open>\<open>std::str::from_utf8\<close> accepts exactly the well-formed byte sequences of the Unicode standard.\<close>

definition byte_in :: "char \<Rightarrow> nat \<Rightarrow> nat \<Rightarrow> bool" where
  "byte_in c lo hi \<longleftrightarrow> lo \<le> of_char c \<and> of_char c \<le> (hi :: nat)"

fun utf8_valid :: "string \<Rightarrow> bool" where
  "utf8_valid [] = True"
| "utf8_valid (a # s) =
     (if byte_in a 0x00 0x7F then utf8_valid s
      else case s of
        [] \<Rightarrow> False
      | b # s1 \<Rightarrow>
          if byte_in a 0xC2 0xDF then is_cont b \<and> utf8_valid s1
          else case s1 of
            [] \<Rightarrow> False
          | c # s2 \<Rightarrow>
              if byte_in a 0xE0 0xEF
              then (if byte_in a 0xE0 0xE0 then byte_in b 0xA0 0xBF
                    else if byte_in a 0xED 0xED then byte_in b 0x80 0x9F else is_cont b)
                   \<and> is_cont c \<and> utf8_valid s2
              else case s2 of
                [] \<Rightarrow> False
              | d # s3 \<Rightarrow>
                  byte_in a 0xF0 0xF4
                  \<and> (if byte_in a 0xF0 0xF0 then byte_in b 0x90 0xBF
                     else if byte_in a 0xF4 0xF4 then byte_in b 0x80 0x8F else is_cont b)
                  \<and> is_cont c \<and> is_cont d \<and> utf8_valid s3)"

definition from_utf8 :: "string \<Rightarrow> string option" where
  "from_utf8 bs = (if utf8_valid bs then Some bs else None)"

lemma contains_str_iff: "contains_str s needle \<longleftrightarrow> (\<exists>a b. s = a @ needle @ b)"
proof (induction s)
  case (Cons c s)
  have "(\<exists>a b. c # s = a @ needle @ b) \<longleftrightarrow> (\<exists>b. c # s = needle @ b) \<or> (\<exists>a b. s = a @ needle @ b)"
    (is "?l \<longleftrightarrow> ?r")
  proof
    assume ?l
    then obtain a b where "c # s = a @ needle @ b" by blast
    then show ?r by (cases a) auto
  next
    assume ?r
    then show ?l
    proof
      assume "\<exists>b. c # s = needle @ b"
      then obtain b where "c # s = [] @ needle @ b" by auto
      then show ?l by blast
    next
      assume "\<exists>a b. s = a @ needle @ b"
      then obtain a b where "c # s = (c # a) @ needle @ b" by auto
      then show ?l by blast
    qed
  qed
  with Cons.IH show ?case by (simp add: starts_with_iff)
qed auto

section \<open>Digests and byte order\<close>

text \<open>\<open>u64::from_be_bytes\<close> and \<open>u16::from_be_bytes\<close>, and lower-case hexadecimal formatting.\<close>

definition from_be_bytes :: "string \<Rightarrow> nat" where
  "from_be_bytes bs = foldl (\<lambda>n b. n * 256 + of_char b) 0 bs"

text \<open>
  Decimal digits, and \<open>str::parse\<close> for \<open>i64\<close>: an optional sign and at least one digit, within the range.
\<close>

definition digits_value :: "string \<Rightarrow> nat" where
  "digits_value s = foldl (\<lambda>n c. n * 10 + (of_char c - 48)) 0 s"

definition parse_i64 :: "string \<Rightarrow> 64 word option" where
  "parse_i64 s =
     (let neg = starts_with s ''-''; ds = (if neg \<or> starts_with s ''+'' then tl s else s); v = digits_value ds
      in if ds = [] \<or> \<not> list_all is_ascii_digit ds \<or> (if neg then 2 ^ 63 < v else 2 ^ 63 \<le> v) then None
         else Some (if neg then - of_nat v else of_nat v))"

text \<open>\<open>Display\<close> of an unsigned integer.\<close>

function to_decimal :: "nat \<Rightarrow> string" where
  "to_decimal n = (if n < 10 then [char_of (48 + n)] else to_decimal (n div 10) @ [char_of (48 + n mod 10)])"
  by pat_completeness auto

termination
  by (relation "measure (\<lambda>n. n)") auto

declare to_decimal.simps [simp del]

definition hex_digit :: "nat \<Rightarrow> char" where
  "hex_digit n = (if n < 10 then char_of (48 + n) else char_of (87 + n))"

definition hex_lower :: "string \<Rightarrow> string" where
  "hex_lower bs = concat (map (\<lambda>b. [hex_digit (of_char b div 16), hex_digit (of_char b mod 16)]) bs)"

lemma digits_value_snoc: "digits_value (s @ [c]) = digits_value s * 10 + (of_char c - 48)"
  by (simp add: digits_value_def)

lemma digit_char: "k < 10 \<Longrightarrow> of_char (char_of (48 + k) :: char) = (48 + k :: nat)"
  by (simp add: of_char_of take_bit_nat_eq_self)

lemma is_ascii_digit_digit: "k < 10 \<Longrightarrow> is_ascii_digit (char_of (48 + k :: nat))"
  by (simp add: is_ascii_digit_def less_eq_char_def digit_char)

lemma to_decimal_value [simp]: "digits_value (to_decimal n) = n"
proof (induction n rule: to_decimal.induct)
  case (1 n)
  show ?case
  proof (cases "n < 10")
    case True
    then show ?thesis by (subst to_decimal.simps) (simp add: digits_value_def digit_char)
  next
    case False
    then show ?thesis using 1
      by (subst to_decimal.simps) (simp add: digits_value_snoc digit_char div_mult_mod_eq)
  qed
qed

lemma to_decimal_digits [simp]: "list_all is_ascii_digit (to_decimal n)"
proof (induction n rule: to_decimal.induct)
  case (1 n)
  then show ?case by (subst to_decimal.simps) (auto simp: is_ascii_digit_digit)
qed

lemma to_decimal_nonempty [simp]: "to_decimal n \<noteq> []"
  by (subst to_decimal.simps) simp

lemma from_be_bytes_snoc: "from_be_bytes (bs @ [b]) = from_be_bytes bs * 256 + of_char b"
  by (simp add: from_be_bytes_def)

lemma from_be_bytes_bound: "from_be_bytes bs < 256 ^ length bs"
proof (induction bs rule: rev_induct)
  case (snoc b bs)
  have "of_char b < (256::nat)" by (rule nat_of_char_less_256)
  with snoc have "from_be_bytes bs * 256 + of_char b < (from_be_bytes bs + 1) * 256" by simp
  also have "\<dots> \<le> 256 ^ length bs * 256" using snoc by (intro mult_right_mono) simp_all
  finally show ?case by (simp add: from_be_bytes_snoc mult.commute)
qed (simp add: from_be_bytes_def)

text \<open>The \<open>k\<close> bytes of a number in network byte order.\<close>

fun to_be_bytes :: "nat \<Rightarrow> nat \<Rightarrow> string" where
  "to_be_bytes 0 n = []"
| "to_be_bytes (Suc k) n = to_be_bytes k (n div 256) @ [char_of n]"

lemma to_be_bytes_length [simp]: "length (to_be_bytes k n) = k"
  by (induction k arbitrary: n) simp_all

lemma from_be_bytes_to_be_bytes: "n < 256 ^ k \<Longrightarrow> from_be_bytes (to_be_bytes k n) = n"
proof (induction k arbitrary: n)
  case (Suc k)
  then have "n div 256 < 256 ^ k" by (simp add: less_mult_imp_div_less mult.commute)
  with Suc.IH show ?case by (simp add: from_be_bytes_snoc of_char_of take_bit_eq_mod)
qed (simp add: from_be_bytes_def)

section \<open>Time\<close>

text \<open>
  An \<open>Instant\<close> is a number of nanoseconds on the monotonic clock and a \<open>Duration\<close> a number of
  nanoseconds; \<open>duration_since\<close> saturates at zero. Definitions that read the clock take the reading
  as an argument \<open>now\<close>.
\<close>

type_synonym instant = nat
type_synonym duration = nat

definition from_secs :: "nat \<Rightarrow> duration" where
  "from_secs n = n * 1000000000"

definition as_secs :: "duration \<Rightarrow> nat" where
  "as_secs d = d div 1000000000"

definition as_millis :: "duration \<Rightarrow> nat" where
  "as_millis d = d div 1000000"

definition duration_since :: "instant \<Rightarrow> instant \<Rightarrow> duration" where
  "duration_since now earlier = now - earlier"

section \<open>BTreeMap\<close>

text \<open>
  A \<open>BTreeMap\<close> is the list of its entries in key order, which is the order it iterates in.
  \<open>bt_or_insert\<close> is \<open>entry(k).or_insert(v)\<close>: an existing entry stays.
\<close>

type_synonym ('k, 'v) btree = "('k \<times> 'v) list"

abbreviation bt_get :: "('k, 'v) btree \<Rightarrow> 'k \<Rightarrow> 'v option" where
  "bt_get \<equiv> map_of"

definition bt_keys :: "('k, 'v) btree \<Rightarrow> 'k list" where
  "bt_keys m = map fst m"

definition bt_values :: "('k, 'v) btree \<Rightarrow> 'v list" where
  "bt_values m = map snd m"

fun bt_insert :: "'k::linorder \<Rightarrow> 'v \<Rightarrow> ('k, 'v) btree \<Rightarrow> ('k, 'v) btree" where
  "bt_insert k v [] = [(k, v)]"
| "bt_insert k v (e # m) =
     (if k < fst e then (k, v) # e # m
      else if k = fst e then (k, v) # m
      else e # bt_insert k v m)"

definition bt_remove :: "'k \<Rightarrow> ('k, 'v) btree \<Rightarrow> ('k, 'v) btree" where
  "bt_remove k m = filter (\<lambda>e. fst e \<noteq> k) m"

definition bt_or_insert :: "'k::linorder \<Rightarrow> 'v \<Rightarrow> ('k, 'v) btree \<Rightarrow> ('k, 'v) btree" where
  "bt_or_insert k v m = (case bt_get m k of None \<Rightarrow> bt_insert k v m | Some _ \<Rightarrow> m)"

definition bt_collect :: "('k::linorder \<times> 'v) list \<Rightarrow> ('k, 'v) btree" where
  "bt_collect es = fold (\<lambda>(k, v). bt_insert k v) es []"

definition bt_sorted :: "('k::linorder, 'v) btree \<Rightarrow> bool" where
  "bt_sorted m \<longleftrightarrow> sorted_wrt (<) (bt_keys m)"

lemma bt_get_insert [simp, btree_simps]: "bt_get (bt_insert k v m) = (bt_get m)(k \<mapsto> v)"
  by (induction m) (auto simp: fun_eq_iff)

lemma bt_get_remove [simp, btree_simps]: "bt_get (bt_remove k m) = (bt_get m)(k := None)"
  by (induction m) (auto simp: bt_remove_def fun_eq_iff)

lemma bt_get_or_insert [btree_simps]:
  "bt_get (bt_or_insert k v m) x = (if x = k then or_else (bt_get m k) (Some v) else bt_get m x)"
  by (auto simp: bt_or_insert_def split: option.split)

lemma set_bt_keys: "set (bt_keys m) = dom (bt_get m)"
  by (simp add: bt_keys_def dom_map_of_conv_image_fst)

lemma bt_keys_insert: "set (bt_keys (bt_insert k v m)) = insert k (set (bt_keys m))"
  by (simp add: set_bt_keys)

lemma bt_sorted_Nil [simp]: "bt_sorted []"
  by (simp add: bt_sorted_def bt_keys_def)

lemma bt_sorted_insert: "bt_sorted m \<Longrightarrow> bt_sorted (bt_insert k v m)"
proof (induction m)
  case (Cons e m)
  then have IH: "bt_sorted (bt_insert k v m)" by (simp add: bt_sorted_def bt_keys_def)
  have "set (bt_keys (bt_insert k v m)) = insert k (set (bt_keys m))" by (rule bt_keys_insert)
  with Cons.prems IH show ?case by (auto simp: bt_sorted_def bt_keys_def)
qed (simp add: bt_sorted_def bt_keys_def)

lemma bt_sorted_remove: "bt_sorted m \<Longrightarrow> bt_sorted (bt_remove k m)"
  by (simp add: bt_sorted_def bt_keys_def bt_remove_def sorted_wrt_map sorted_wrt_filter)

lemma bt_sorted_or_insert: "bt_sorted m \<Longrightarrow> bt_sorted (bt_or_insert k v m)"
  by (auto simp: bt_or_insert_def bt_sorted_insert split: option.split)

lemma bt_sorted_distinct: "bt_sorted m \<Longrightarrow> distinct (bt_keys m)"
  by (auto simp: bt_sorted_def strict_sorted_iff)

lemma bt_collect_snoc: "bt_collect (es @ [(k, v)]) = bt_insert k v (bt_collect es)"
  by (simp add: bt_collect_def)

lemma bt_get_collect: "bt_get (bt_collect es) k = map_of (rev es) k"
  by (induction es rule: rev_induct) (auto simp: bt_collect_snoc bt_collect_def)

end
