(* ===== verification/Http_Model.thy ===== *)
theory Http_Model
  imports Rust_Prelude
begin

text \<open>
  The configuration data of \<open>src/src/model.rs\<close> that request routing reads: listener addresses,
  path matchers, routes, virtual hosts and TLS hosts, with the matching and ranking functions on
  them. Fields of \<open>Route\<close> and \<open>VirtualHost\<close> that routing never reads (settings, metrics, the
  compiled script, tenant and rollout handles) are left out of the records.
\<close>

section \<open>Socket addresses\<close>

text \<open>
  \<open>std::net::SocketAddr\<close>: IPv4 with port, or IPv6 with port, flow information and scope. The
  derived order of the standard library puts IPv4 first and then compares the fields in order.
\<close>

datatype socket_addr =
    SockV4 "32 word" "16 word"
  | SockV6 "128 word" "16 word" "32 word" "32 word"

fun socket_addr_key :: "socket_addr \<Rightarrow> int \<times> int \<times> int \<times> int \<times> int" where
  "socket_addr_key (SockV4 ip p) = (0, uint ip, uint p, 0, 0)"
| "socket_addr_key (SockV6 ip p f s) = (1, uint ip, uint p, uint f, uint s)"

lemma socket_addr_key_inj: "socket_addr_key a = socket_addr_key b \<Longrightarrow> a = b"
  by (cases a; cases b) (simp_all add: word_uint_eq_iff)

instantiation socket_addr :: linorder
begin

definition less_eq_socket_addr :: "socket_addr \<Rightarrow> socket_addr \<Rightarrow> bool" where
  "less_eq_socket_addr a b \<longleftrightarrow> socket_addr_key a \<le> socket_addr_key b"

definition less_socket_addr :: "socket_addr \<Rightarrow> socket_addr \<Rightarrow> bool" where
  "less_socket_addr a b \<longleftrightarrow> socket_addr_key a < socket_addr_key b"

instance
  by standard
    (auto simp: less_eq_socket_addr_def less_socket_addr_def less_le_not_le
      intro: socket_addr_key_inj antisym)

end

section \<open>Path matchers\<close>

datatype path_match =
    Exact string
  | NginxPrefix string
  | IngressPrefix string
  | IngressDefault

fun path_match_path :: "path_match \<Rightarrow> string" where
  "path_match_path (Exact p) = p"
| "path_match_path (NginxPrefix p) = p"
| "path_match_path (IngressPrefix p) = p"
| "path_match_path IngressDefault = ''/''"

fun path_match_matches :: "path_match \<Rightarrow> string \<Rightarrow> bool" where
  "path_match_matches (Exact p) path = (path = p)"
| "path_match_matches (NginxPrefix p) path = starts_with path p"
| "path_match_matches (IngressPrefix p) path =
     (let q = trim_end_matches CHR ''/'' p in
      q = [] \<or> path = q
      \<or> (case strip_prefix q path of None \<Rightarrow> False | Some s \<Rightarrow> starts_with s ''/''))"
| "path_match_matches IngressDefault path = True"

fun path_match_rank :: "path_match \<Rightarrow> nat \<times> bool" where
  "path_match_rank IngressDefault = (0, False)"
| "path_match_rank (Exact p) = (length p, True)"
| "path_match_rank (NginxPrefix p) = (length p, False)"
| "path_match_rank (IngressPrefix p) = (length p, False)"

section \<open>Routes and virtual hosts\<close>

datatype action =
    Proxy string "string option"
  | Static
  | Return "16 word" string
  | Unavailable

record route =
  route_id :: string
  route_matcher :: path_match
  route_action :: action

record virtual_host =
  vh_listener :: socket_addr
  vh_names :: "string list"
  vh_default :: bool
  vh_ingress :: bool
  vh_routes :: "route list"

section \<open>TLS hosts\<close>

text \<open>\<open>'c\<close> stands for \<open>Arc<Certificate>\<close> (OpenSSL values), which selection never inspects.\<close>

record 'c tls_host =
  tls_listener :: socket_addr
  tls_name :: string
  tls_ingress :: bool
  tls_default :: bool
  tls_certificate :: "'c option"

definition host_rank :: "string \<Rightarrow> string \<Rightarrow> bool \<Rightarrow> nat option" where
  "host_rank pattern host ingress =
     (if pattern = host then Some usize_max
      else if pattern = [] \<and> ingress then Some 0
      else case strip_prefix ''*.'' pattern of
             None \<Rightarrow> None
           | Some suffix \<Rightarrow>
               (case strip_suffix suffix host of
                  None \<Rightarrow> None
                | Some rest \<Rightarrow>
                    (case strip_suffix ''.'' rest of
                       None \<Rightarrow> None
                     | Some pre \<Rightarrow>
                         (if pre = [] \<or> ingress \<and> CHR ''.'' \<in> set pre then None
                          else Some (length suffix + 1)))))"

text \<open>\<open>max_by_key\<close> returns the last of several maximal elements.\<close>

fun max_by_key :: "('a \<Rightarrow> nat) \<Rightarrow> 'a list \<Rightarrow> 'a option" where
  "max_by_key f [] = None"
| "max_by_key f (x # xs) =
     (case max_by_key f xs of
        None \<Rightarrow> Some x
      | Some y \<Rightarrow> (if f x \<le> f y then Some y else Some x))"

definition tls_host_rank :: "string \<Rightarrow> 'c tls_host \<Rightarrow> nat option" where
  "tls_host_rank host c =
     or_else (host_rank (tls_name c) (to_ascii_lowercase host) (tls_ingress c))
             (if tls_default c then Some 0 else None)"

definition ranked_tls_hosts ::
  "'c tls_host list \<Rightarrow> socket_addr \<Rightarrow> string \<Rightarrow> (nat \<times> 'c tls_host) list" where
  "ranked_tls_hosts certificates listener host =
     List.map_filter (\<lambda>c. map_option (\<lambda>rank. (rank, c)) (tls_host_rank host c))
       (filter (\<lambda>c. tls_listener c = listener) (rev certificates))"

definition select_tls_host :: "'c tls_host list \<Rightarrow> socket_addr \<Rightarrow> string \<Rightarrow> 'c tls_host option" where
  "select_tls_host certificates listener host =
     map_option snd (max_by_key fst (ranked_tls_hosts certificates listener host))"

definition certificate :: "'c tls_host list \<Rightarrow> socket_addr \<Rightarrow> string \<Rightarrow> 'c option" where
  "certificate certificates listener host =
     Option.bind (select_tls_host certificates listener host) tls_certificate"

section \<open>Lemmas\<close>

lemma path_match_ingress_prefix:
  "path_match_matches (IngressPrefix p) path \<longleftrightarrow>
     (let q = trim_end_matches CHR ''/'' p in
      q = [] \<or> path = q \<or> starts_with path (q @ ''/''))"
  by (auto simp: Let_def strip_prefix_def starts_with_iff split: option.splits)

lemma max_by_key_None_iff [simp]: "max_by_key f xs = None \<longleftrightarrow> xs = []"
  by (cases xs) (auto split: option.splits)

lemma max_by_key_snoc:
  "max_by_key f (xs @ [x]) =
     (case max_by_key f xs of None \<Rightarrow> Some x | Some y \<Rightarrow> if f y \<le> f x then Some x else Some y)"
  by (induction xs) (auto split: option.splits)

lemma ranked_tls_hosts_Cons:
  "ranked_tls_hosts (c # cs) listener host =
     ranked_tls_hosts cs listener host @
       (if tls_listener c = listener
        then (case tls_host_rank host c of None \<Rightarrow> [] | Some r \<Rightarrow> [(r, c)]) else [])"
  by (simp add: ranked_tls_hosts_def List.map_filter_def split: option.split)

text \<open>\<open>first_best pre c post r\<close>: \<open>c\<close> has rank \<open>r\<close>, above every earlier host and not below any later one.\<close>

definition first_best ::
  "socket_addr \<Rightarrow> string \<Rightarrow> 'c tls_host list \<Rightarrow> 'c tls_host \<Rightarrow> 'c tls_host list \<Rightarrow> nat \<Rightarrow> bool" where
  "first_best listener host pre c post r \<longleftrightarrow>
     tls_listener c = listener \<and> tls_host_rank host c = Some r
     \<and> (\<forall>d\<in>set pre. tls_listener d = listener \<longrightarrow> (\<forall>r'. tls_host_rank host d = Some r' \<longrightarrow> r' < r))
     \<and> (\<forall>d\<in>set post. tls_listener d = listener \<longrightarrow> (\<forall>r'. tls_host_rank host d = Some r' \<longrightarrow> r' \<le> r))"

lemma ranked_first_best:
  "case max_by_key fst (ranked_tls_hosts cs listener host) of
     None \<Rightarrow> \<forall>c\<in>set cs. tls_listener c = listener \<longrightarrow> tls_host_rank host c = None
   | Some (r, c) \<Rightarrow> \<exists>pre post. cs = pre @ c # post \<and> first_best listener host pre c post r"
proof (induction cs)
  case Nil
  show ?case by (simp add: ranked_tls_hosts_def List.map_filter_def)
next
  case (Cons d cs)
  let ?best = "max_by_key fst (ranked_tls_hosts cs listener host)"
  have found: ?case
    if "max_by_key fst (ranked_tls_hosts (d # cs) listener host) = Some (r, c)"
      and "d # cs = pre @ c # post" and "first_best listener host pre c post r" for r c pre post
    using that(2,3) unfolding that(1) option.case prod.case by blast
  show ?case
  proof (cases "tls_listener d = listener \<and> tls_host_rank host d \<noteq> None")
    case False
    then have eq: "ranked_tls_hosts (d # cs) listener host = ranked_tls_hosts cs listener host"
      by (auto simp: ranked_tls_hosts_Cons)
    show ?thesis
    proof (cases ?best)
      case None
      with Cons False show ?thesis by (auto simp: eq simp del: max_by_key_None_iff)
    next
      case (Some rc)
      with Cons obtain r c pre post where rc: "rc = (r, c)"
        and best: "cs = pre @ c # post" "first_best listener host pre c post r" by (cases rc) auto
      with False have "first_best listener host (d # pre) c post r" by (auto simp: first_best_def)
      moreover have "max_by_key fst (ranked_tls_hosts (d # cs) listener host) = Some (r, c)"
        using Some rc by (simp only: eq)
      ultimately show ?thesis using best(1) by (intro found [of r c "d # pre" post]) simp_all
    qed
  next
    case True
    then obtain r where r: "tls_host_rank host d = Some r" and l: "tls_listener d = listener" by auto
    then have eq: "ranked_tls_hosts (d # cs) listener host = ranked_tls_hosts cs listener host @ [(r, d)]"
      by (simp add: ranked_tls_hosts_Cons)
    have self: "first_best listener host [] d cs r"
      if "\<forall>c\<in>set cs. tls_listener c = listener \<longrightarrow> (\<forall>r'. tls_host_rank host c = Some r' \<longrightarrow> r' \<le> r)"
      using that r l by (simp add: first_best_def)
    show ?thesis
    proof (cases ?best)
      case None
      with Cons have "first_best listener host [] d cs r"
        by (intro self) (auto simp del: max_by_key_None_iff)
      with None show ?thesis by (intro found [of r d "[]" cs]) (simp_all add: eq max_by_key_snoc)
    next
      case (Some rc)
      with Cons obtain r' c pre post where rc: "rc = (r', c)"
        and best: "cs = pre @ c # post" "first_best listener host pre c post r'" by (cases rc) auto
      show ?thesis
      proof (cases "r' \<le> r")
        case True
        with best have "first_best listener host [] d cs r"
          by (intro self) (force simp: first_best_def)
        with True Some rc show ?thesis
          by (intro found [of r d "[]" cs]) (simp_all add: eq max_by_key_snoc)
      next
        case False
        with best r l have "first_best listener host (d # pre) c post r'"
          by (auto simp: first_best_def)
        moreover have "max_by_key fst (ranked_tls_hosts (d # cs) listener host) = Some (r', c)"
          using False Some rc by (simp add: eq max_by_key_snoc)
        ultimately show ?thesis using best(1) by (intro found [of r' c "d # pre" post]) simp_all
      qed
    qed
  qed
qed

text \<open>
  SNI selection: the TLS host chosen for a name serves the listener, has the highest rank for
  the name, and is the first such host in declaration order; nothing is chosen only when no host
  of the listener ranks the name at all. A host whose certificate is unavailable takes part in
  the choice like any other.
\<close>

lemma tls_host_first_best:
  "case select_tls_host certificates listener host of
     None \<Rightarrow> \<forall>c\<in>set certificates. tls_listener c = listener \<longrightarrow> tls_host_rank host c = None
   | Some c \<Rightarrow> \<exists>pre post r. certificates = pre @ c # post \<and> first_best listener host pre c post r"
  using ranked_first_best [of certificates listener host]
  by (auto simp: select_tls_host_def split: option.splits prod.splits)

end
