(* ===== verification/Routing.thy ===== *)
theory Routing
  imports Http_Model
begin

text \<open>
  The routing index of \<open>src/src/routing.rs\<close>: \<open>Index::build\<close> turns the virtual hosts of a snapshot
  into per-listener host tables and per-host path tables, and \<open>Index::route\<close> looks a request up in
  them. The reference definitions at the end scan the configuration itself; the lemmas show that
  the index computes the same answer.
\<close>

section \<open>The index\<close>

record hosts =
  h_exact :: "(string, nat) btree"
  h_wildcard :: "(string, nat) btree"
  h_default :: "nat option"

definition empty_hosts :: hosts where
  "empty_hosts = \<lparr>h_exact = [], h_wildcard = [], h_default = None\<rparr>"

record paths =
  p_exact :: "(string, nat) btree"
  p_nginx :: "(string, nat) btree"
  p_ingress :: "(string, nat) btree"
  p_fallback :: "nat option"
  p_prefix_lengths :: "nat list"

definition empty_paths :: paths where
  "empty_paths = \<lparr>p_exact = [], p_nginx = [], p_ingress = [], p_fallback = None,
     p_prefix_lengths = []\<rparr>"

record index =
  ix_listeners :: "(socket_addr, hosts) btree"
  ix_paths :: "paths list"

definition empty_index :: index where
  "empty_index = \<lparr>ix_listeners = [], ix_paths = []\<rparr>"

section \<open>\<open>Index::build\<close>\<close>

text \<open>One iteration of the loop over \<open>host.names\<close>.\<close>

definition add_name :: "virtual_host \<Rightarrow> nat \<Rightarrow> string \<Rightarrow> hosts \<Rightarrow> hosts" where
  "add_name host vid name hs =
     (if name = [] \<and> vh_ingress host then
        hs\<lparr>h_default := or_else (h_default hs) (Some vid)\<rparr>
      else case strip_prefix ''*.'' name of
             Some suffix \<Rightarrow> hs\<lparr>h_wildcard := bt_or_insert suffix vid (h_wildcard hs)\<rparr>
           | None \<Rightarrow> hs\<lparr>h_exact := bt_or_insert name vid (h_exact hs)\<rparr>)"

definition add_names :: "virtual_host \<Rightarrow> nat \<Rightarrow> hosts \<Rightarrow> hosts" where
  "add_names host vid hs =
     fold (add_name host vid) (vh_names host)
       (if vh_default host \<and> h_default hs = None then hs\<lparr>h_default := Some vid\<rparr> else hs)"

text \<open>One iteration of the loop over \<open>host.routes\<close>.\<close>

fun add_route :: "nat \<times> path_match \<Rightarrow> paths \<Rightarrow> paths" where
  "add_route (i, Exact path) ps = ps\<lparr>p_exact := bt_or_insert path i (p_exact ps)\<rparr>"
| "add_route (i, NginxPrefix path) ps = ps\<lparr>p_nginx := bt_or_insert path i (p_nginx ps)\<rparr>"
| "add_route (i, IngressPrefix path) ps =
     ps\<lparr>p_ingress := bt_or_insert (trim_end_matches CHR ''/'' path) i (p_ingress ps)\<rparr>"
| "add_route (i, IngressDefault) ps = ps\<lparr>p_fallback := or_else (p_fallback ps) (Some i)\<rparr>"

definition prefix_lengths_of :: "paths \<Rightarrow> nat list" where
  "prefix_lengths_of ps =
     rev (sort (remdups (map length (bt_keys (p_nginx ps) @ bt_keys (p_ingress ps)))))"

definition build_paths :: "path_match list \<Rightarrow> paths" where
  "build_paths ms =
     (let ps = fold add_route (enumerate 0 ms) empty_paths
      in ps\<lparr>p_prefix_lengths := prefix_lengths_of ps\<rparr>)"

definition add_virtual_host :: "nat \<times> virtual_host \<Rightarrow> index \<Rightarrow> index" where
  "add_virtual_host idh ix =
     (let (vid, host) = idh;
          names = (case bt_get (ix_listeners ix) (vh_listener host) of
                     None \<Rightarrow> empty_hosts | Some hs \<Rightarrow> hs)
      in \<lparr>ix_listeners = bt_insert (vh_listener host) (add_names host vid names) (ix_listeners ix),
          ix_paths = ix_paths ix @ [build_paths (map route_matcher (vh_routes host))]\<rparr>)"

definition build :: "virtual_host list \<Rightarrow> index" where
  "build vhs = fold add_virtual_host (enumerate 0 vhs) empty_index"

section \<open>\<open>Paths::route\<close>\<close>

definition char_starts :: "string \<Rightarrow> nat list" where
  "char_starts path = filter (\<lambda>i. \<not> is_cont (path ! i)) [0..<length path]"

definition route_ends :: "paths \<Rightarrow> string \<Rightarrow> nat list" where
  "route_ends ps path =
     (let configured = length (p_prefix_lengths ps) \<le> length path;
          lengths = (if configured
            then filter (\<lambda>e. e \<le> length path \<and> is_char_boundary path e) (p_prefix_lengths ps)
            else []);
          characters = (if configured then [] else length path # rev (char_starts path))
      in lengths @ characters)"

definition route_at :: "paths \<Rightarrow> string \<Rightarrow> nat \<Rightarrow> nat option" where
  "route_at ps path e =
     or_else (bt_get (p_nginx ps) (take e path))
       (if e = length path \<or> starts_with (drop e path) ''/''
        then bt_get (p_ingress ps) (take e path) else None)"

definition paths_route :: "paths \<Rightarrow> string \<Rightarrow> nat option" where
  "paths_route ps path =
     (case bt_get (p_exact ps) path of
        Some i \<Rightarrow> Some i
      | None \<Rightarrow> or_else (find_map (route_at ps path) (route_ends ps path)) (p_fallback ps))"

section \<open>\<open>Index::route\<close> and \<open>Index::hostless_server_name\<close>\<close>

definition normalize_host :: "string \<Rightarrow> string" where
  "normalize_host host =
     (let h = trim_end_matches CHR ''.'' host
      in if list_ex is_ascii_uppercase h then to_ascii_lowercase h else h)"

definition wildcard_at :: "virtual_host list \<Rightarrow> hosts \<Rightarrow> string \<Rightarrow> nat \<Rightarrow> nat option" where
  "wildcard_at vhs names host dot =
     (case bt_get (h_wildcard names) (drop (dot + 1) host) of
        None \<Rightarrow> None
      | Some vid \<Rightarrow>
          (if 0 < dot \<and> (\<not> vh_ingress (vhs ! vid) \<or> CHR ''.'' \<notin> set (take dot host))
           then Some vid else None))"

definition select_host :: "virtual_host list \<Rightarrow> hosts \<Rightarrow> string \<Rightarrow> nat option" where
  "select_host vhs names host =
     or_else (bt_get (h_exact names) host)
       (or_else (find_map (wildcard_at vhs names host) (match_indices host CHR ''.''))
         (h_default names))"

definition index_route ::
  "index \<Rightarrow> virtual_host list \<Rightarrow> socket_addr \<Rightarrow> string \<Rightarrow> string \<Rightarrow> (nat \<times> nat) option" where
  "index_route ix vhs listener host path =
     (case bt_get (ix_listeners ix) listener of
        None \<Rightarrow> None
      | Some names \<Rightarrow>
          (case select_host vhs names (normalize_host host) of
             None \<Rightarrow> None
           | Some selected \<Rightarrow>
               or_else
                 (map_option (\<lambda>r. (selected, r)) (paths_route (ix_paths ix ! selected) path))
                 (if vh_ingress (vhs ! selected) then
                    Option.bind (h_default names)
                      (\<lambda>vid. map_option (\<lambda>r. (vid, r)) (paths_route (ix_paths ix ! vid) path))
                  else None)))"

definition hostless_server_name ::
  "index \<Rightarrow> virtual_host list \<Rightarrow> socket_addr \<Rightarrow> string option" where
  "hostless_server_name ix vhs listener =
     Option.bind (bt_get (ix_listeners ix) listener) (\<lambda>names.
       Option.bind (or_else (bt_get (h_exact names) []) (h_default names)) (\<lambda>selected.
         (case vh_names (vhs ! selected) of [] \<Rightarrow> None | n # _ \<Rightarrow> Some n)))"

section \<open>Reference definitions\<close>

text \<open>
  What the index stands for, read off the configuration: the first route in declaration order
  for each key, and the first virtual host in declaration order for each name.
\<close>

definition ingress_key :: "path_match \<Rightarrow> string option" where
  "ingress_key m = (case m of IngressPrefix p \<Rightarrow> Some (trim_end_matches CHR ''/'' p) | _ \<Rightarrow> None)"

definition ref_route_at :: "path_match list \<Rightarrow> string \<Rightarrow> nat \<Rightarrow> nat option" where
  "ref_route_at ms path e =
     or_else (position (\<lambda>m. m = NginxPrefix (take e path)) ms)
       (if e = length path \<or> starts_with (drop e path) ''/''
        then position (\<lambda>m. ingress_key m = Some (take e path)) ms else None)"

text \<open>Try every prefix of the path, longest first.\<close>

definition ref_paths_route :: "path_match list \<Rightarrow> string \<Rightarrow> nat option" where
  "ref_paths_route ms path =
     or_else (position (\<lambda>m. m = Exact path) ms)
       (or_else (find_map (ref_route_at ms path) (rev [0..<Suc (length path)]))
         (position (\<lambda>m. m = IngressDefault) ms))"

definition serves :: "socket_addr \<Rightarrow> string \<Rightarrow> virtual_host \<Rightarrow> bool" where
  "serves listener name vh \<longleftrightarrow> vh_listener vh = listener \<and> name \<in> set (vh_names vh)"

definition serves_exact :: "socket_addr \<Rightarrow> string \<Rightarrow> virtual_host \<Rightarrow> bool" where
  "serves_exact listener name vh \<longleftrightarrow>
     serves listener name vh \<and> \<not> starts_with name ''*.'' \<and> \<not> (name = [] \<and> vh_ingress vh)"

definition serves_default :: "socket_addr \<Rightarrow> virtual_host \<Rightarrow> bool" where
  "serves_default listener vh \<longleftrightarrow>
     vh_listener vh = listener \<and> (vh_default vh \<or> vh_ingress vh \<and> [] \<in> set (vh_names vh))"

definition ref_wildcard_at :: "virtual_host list \<Rightarrow> socket_addr \<Rightarrow> string \<Rightarrow> nat \<Rightarrow> nat option" where
  "ref_wildcard_at vhs listener host dot =
     Option.bind (position (serves listener (''*.'' @ drop (dot + 1) host)) vhs)
       (\<lambda>vid. if 0 < dot \<and> (\<not> vh_ingress (vhs ! vid) \<or> CHR ''.'' \<notin> set (take dot host))
             then Some vid else None)"

definition ref_select_host :: "virtual_host list \<Rightarrow> socket_addr \<Rightarrow> string \<Rightarrow> nat option" where
  "ref_select_host vhs listener host =
     or_else (position (serves_exact listener host) vhs)
       (or_else (find_map (ref_wildcard_at vhs listener host) (match_indices host CHR ''.''))
         (position (serves_default listener) vhs))"

definition ref_route ::
  "virtual_host list \<Rightarrow> socket_addr \<Rightarrow> string \<Rightarrow> string \<Rightarrow> (nat \<times> nat) option" where
  "ref_route vhs listener host path =
     (let in_host = (\<lambda>vid. map_option (\<lambda>r. (vid, r))
            (ref_paths_route (map route_matcher (vh_routes (vhs ! vid))) path))
      in Option.bind (ref_select_host vhs listener (normalize_host host)) (\<lambda>selected.
           or_else (in_host selected)
             (if vh_ingress (vhs ! selected)
              then Option.bind (position (serves_default listener) vhs) in_host else None)))"

section \<open>What the tables hold\<close>

lemma map_option_add_0 [simp]: "map_option ((+) (0::nat)) x = x"
  by (cases x) simp_all

lemma map_option_add_Suc [simp]:
  "map_option ((+) n) (map_option Suc x) = map_option (\<lambda>a. Suc (n + a)) x"
  by (cases x) simp_all

lemma fold_add_route:
  "bt_get (p_exact (fold add_route (enumerate n ms) ps)) k =
     or_else (bt_get (p_exact ps) k) (map_option ((+) n) (position (\<lambda>m. m = Exact k) ms))"
  "bt_get (p_nginx (fold add_route (enumerate n ms) ps)) k =
     or_else (bt_get (p_nginx ps) k) (map_option ((+) n) (position (\<lambda>m. m = NginxPrefix k) ms))"
  "bt_get (p_ingress (fold add_route (enumerate n ms) ps)) k =
     or_else (bt_get (p_ingress ps) k)
       (map_option ((+) n) (position (\<lambda>m. ingress_key m = Some k) ms))"
  "p_fallback (fold add_route (enumerate n ms) ps) =
     or_else (p_fallback ps) (map_option ((+) n) (position (\<lambda>m. m = IngressDefault) ms))"
proof (induction ms arbitrary: n ps)
  case (Cons m ms)
  {
    case 1 show ?case by (cases m) (simp_all add: Cons.IH(1) bt_get_or_insert)
  next
    case 2 show ?case by (cases m) (simp_all add: Cons.IH(2) bt_get_or_insert)
  next
    case 3 show ?case
      by (cases m) (simp_all add: Cons.IH(3) bt_get_or_insert ingress_key_def)
  next
    case 4 show ?case by (cases m) (simp_all add: Cons.IH(4))
  }
qed simp_all

lemma build_paths_get:
  "bt_get (p_exact (build_paths ms)) k = position (\<lambda>m. m = Exact k) ms"
  "bt_get (p_nginx (build_paths ms)) k = position (\<lambda>m. m = NginxPrefix k) ms"
  "bt_get (p_ingress (build_paths ms)) k = position (\<lambda>m. ingress_key m = Some k) ms"
  "p_fallback (build_paths ms) = position (\<lambda>m. m = IngressDefault) ms"
  by (simp_all add: build_paths_def Let_def fold_add_route empty_paths_def)

lemma route_at_build: "route_at (build_paths ms) path e = ref_route_at ms path e"
  by (simp add: route_at_def ref_route_at_def build_paths_get)

text \<open>The keys of the two prefix tables are the prefixes the configuration declares.\<close>

definition prefix_key :: "path_match \<Rightarrow> string option" where
  "prefix_key m = (case m of NginxPrefix p \<Rightarrow> Some p | _ \<Rightarrow> ingress_key m)"

lemma prefix_key_simps [simp]:
  "prefix_key (NginxPrefix p) = Some p"
  "prefix_key (IngressPrefix p) = Some (trim_end_matches CHR ''/'' p)"
  "prefix_key (Exact p) = None"
  "prefix_key IngressDefault = None"
  by (simp_all add: prefix_key_def ingress_key_def)

lemma prefix_key_ingress: "ingress_key m = Some k \<Longrightarrow> prefix_key m = Some k"
  by (cases m) (auto simp: prefix_key_def ingress_key_def)

lemma prefix_keys_build:
  "set (bt_keys (p_nginx (build_paths ms))) \<union> set (bt_keys (p_ingress (build_paths ms))) =
     {k. \<exists>m\<in>set ms. prefix_key m = Some k}"
proof -
  have "(\<exists>m\<in>set ms. m = NginxPrefix k) \<or> (\<exists>m\<in>set ms. ingress_key m = Some k) \<longleftrightarrow>
      (\<exists>m\<in>set ms. prefix_key m = Some k)" for k
    by (auto simp: prefix_key_def ingress_key_def split: path_match.splits)
  then show ?thesis
    by (auto simp: set_bt_keys dom_def build_paths_get position_None_iff
        simp flip: not_None_eq)
qed

lemma prefix_lengths_build:
  "p_prefix_lengths (build_paths ms) = rev (sort (remdups (map length
     (bt_keys (p_nginx (build_paths ms)) @ bt_keys (p_ingress (build_paths ms))))))"
  by (simp add: build_paths_def Let_def prefix_lengths_of_def)

section \<open>Both ways of enumerating prefixes find the longest one\<close>

lemma ref_route_at_None:
  assumes "\<And>m k. m \<in> set ms \<Longrightarrow> prefix_key m = Some k \<Longrightarrow> take e path \<noteq> k"
  shows "ref_route_at ms path e = None"
proof -
  have "\<forall>m\<in>set ms. m \<noteq> NginxPrefix (take e path)" using assms by fastforce
  moreover have "\<forall>m\<in>set ms. ingress_key m \<noteq> Some (take e path)"
    using assms prefix_key_ingress by blast
  ultimately show ?thesis by (simp add: ref_route_at_def position_None_iff)
qed

lemma char_starts_boundaries:
  assumes "utf8_shaped path"
  shows "length path # rev (char_starts path) =
    filter (is_char_boundary path) (rev [0..<Suc (length path)])"
proof -
  have "path \<noteq> [] \<Longrightarrow> \<not> is_cont (path ! 0)" using assms utf8_shaped_hd by (cases path) auto
  then have "filter (is_char_boundary path) [0..<length path] = char_starts path"
    unfolding char_starts_def by (intro filter_cong) (auto simp: is_char_boundary_def)
  then have "rev (char_starts path) = filter (is_char_boundary path) (rev [0..<length path])"
    by (simp flip: rev_filter)
  then show ?thesis by (simp add: is_char_boundary_def)
qed

lemma configured_lengths:
  fixes ls :: "nat list"
  shows "filter (\<lambda>e. e \<le> n \<and> P e) (rev (sort (remdups ls))) =
    filter (\<lambda>e. e \<in> set ls \<and> P e) (rev [0..<Suc n])"
proof -
  have "filter (\<lambda>e. e \<le> n \<and> P e) (sort (remdups ls)) =
      filter (\<lambda>e. e \<in> set ls \<and> P e) [0..<Suc n]"
    by (rule sorted_distinct_set_unique)
      (auto simp: sorted_wrt_filter less_Suc_eq_le simp del: upt_Suc)
  then show ?thesis by (simp only: rev_filter [symmetric])
qed

lemma find_ends_build:
  assumes path: "utf8_shaped path"
    and keys: "\<And>m k. m \<in> set ms \<Longrightarrow> prefix_key m = Some k \<Longrightarrow> utf8_shaped k"
  shows "find_map (route_at (build_paths ms) path) (route_ends (build_paths ms) path) =
    find_map (ref_route_at ms path) (rev [0..<Suc (length path)])"
proof -
  let ?ls = "map length
     (bt_keys (p_nginx (build_paths ms)) @ bt_keys (p_ingress (build_paths ms)))"
  have boundary: "ref_route_at ms path e = None"
    if "e \<le> length path" and "\<not> is_char_boundary path e" for e
  proof (rule ref_route_at_None)
    fix m k assume m: "m \<in> set ms" "prefix_key m = Some k"
    show "take e path \<noteq> k"
    proof
      assume k: "take e path = k"
      then have "starts_with path k" by (metis append_take_drop_id starts_with_append)
      with utf8_prefix_boundary keys m path have "is_char_boundary path (length k)" by blast
      with that k show False by auto
    qed
  qed
  have lengths: "set ?ls = {length k |k. \<exists>m\<in>set ms. prefix_key m = Some k}"
    using prefix_keys_build [of ms] by (simp flip: image_Un) auto
  have unknown: "ref_route_at ms path e = None" if "e \<le> length path" and "e \<notin> set ?ls" for e
    by (rule ref_route_at_None) (use that lengths in fastforce)
  have "find_map (ref_route_at ms path) (route_ends (build_paths ms) path) =
      find_map (ref_route_at ms path) (rev [0..<Suc (length path)])"
  proof (cases "length (p_prefix_lengths (build_paths ms)) \<le> length path")
    case True
    then have "route_ends (build_paths ms) path =
        filter (\<lambda>e. e \<in> set ?ls \<and> is_char_boundary path e) (rev [0..<Suc (length path)])"
      unfolding route_ends_def Let_def prefix_lengths_build configured_lengths [symmetric]
      by simp
    moreover have "find_map (ref_route_at ms path) \<dots> =
        find_map (ref_route_at ms path) (rev [0..<Suc (length path)])"
    proof (rule find_map_filter_None)
      fix e assume "e \<in> set (rev [0..<Suc (length path)])"
      then have "e \<le> length path" by (simp add: less_Suc_eq_le del: upt_Suc)
      then show "\<not> (e \<in> set ?ls \<and> is_char_boundary path e) \<Longrightarrow> ref_route_at ms path e = None"
        using boundary unknown by blast
    qed
    ultimately show ?thesis by simp
  next
    case False
    then have "route_ends (build_paths ms) path =
        filter (is_char_boundary path) (rev [0..<Suc (length path)])"
      by (simp add: route_ends_def char_starts_boundaries [OF path] del: upt_Suc)
    then show ?thesis
      using boundary by (auto intro!: find_map_filter_None simp: less_Suc_eq_le simp del: upt_Suc)
  qed
  then show ?thesis by (simp add: route_at_build cong: find_map_cong)
qed

lemma paths_route_build:
  assumes "utf8_shaped path"
    and "\<And>m k. m \<in> set ms \<Longrightarrow> prefix_key m = Some k \<Longrightarrow> utf8_shaped k"
  shows "paths_route (build_paths ms) path = ref_paths_route ms path"
  using find_ends_build [OF assms]
  by (auto simp: paths_route_def ref_paths_route_def build_paths_get split: option.split)

section \<open>What the host tables hold\<close>

lemma add_name_get:
  "bt_get (h_exact (add_name h i n hs)) k =
     or_else (bt_get (h_exact hs) k)
       (if n = k \<and> \<not> starts_with k ''*.'' \<and> \<not> (k = [] \<and> vh_ingress h) then Some i else None)"
  "bt_get (h_wildcard (add_name h i n hs)) k =
     or_else (bt_get (h_wildcard hs) k) (if n = ''*.'' @ k then Some i else None)"
  "h_default (add_name h i n hs) =
     or_else (h_default hs) (if n = [] \<and> vh_ingress h then Some i else None)"
proof -
  have "strip_prefix ''*.'' n = None \<longleftrightarrow> \<not> starts_with n ''*.''"
    by (rule strip_prefix_None_iff)
  moreover have "\<not> starts_with [] ''*.''" by (simp add: starts_with_def)
  ultimately show
    "bt_get (h_exact (add_name h i n hs)) k =
       or_else (bt_get (h_exact hs) k)
         (if n = k \<and> \<not> starts_with k ''*.'' \<and> \<not> (k = [] \<and> vh_ingress h) then Some i else None)"
    "bt_get (h_wildcard (add_name h i n hs)) k =
       or_else (bt_get (h_wildcard hs) k) (if n = ''*.'' @ k then Some i else None)"
    "h_default (add_name h i n hs) =
       or_else (h_default hs) (if n = [] \<and> vh_ingress h then Some i else None)"
    by (auto simp: add_name_def bt_get_or_insert starts_with_iff split: option.splits)
qed

lemma fold_add_name:
  "bt_get (h_exact (fold (add_name h i) ns hs)) k =
     or_else (bt_get (h_exact hs) k)
       (if k \<in> set ns \<and> \<not> starts_with k ''*.'' \<and> \<not> (k = [] \<and> vh_ingress h) then Some i else None)"
  "bt_get (h_wildcard (fold (add_name h i) ns hs)) k =
     or_else (bt_get (h_wildcard hs) k) (if ''*.'' @ k \<in> set ns then Some i else None)"
  "h_default (fold (add_name h i) ns hs) =
     or_else (h_default hs) (if [] \<in> set ns \<and> vh_ingress h then Some i else None)"
  by (induction ns arbitrary: hs) (auto simp: add_name_get)

lemma add_names_get:
  "bt_get (h_exact (add_names h i hs)) k =
     or_else (bt_get (h_exact hs) k) (if serves_exact (vh_listener h) k h then Some i else None)"
  "bt_get (h_wildcard (add_names h i hs)) k =
     or_else (bt_get (h_wildcard hs) k)
       (if serves (vh_listener h) (''*.'' @ k) h then Some i else None)"
  "h_default (add_names h i hs) =
     or_else (h_default hs) (if serves_default (vh_listener h) h then Some i else None)"
  by (auto simp: add_names_def fold_add_name serves_exact_def serves_def serves_default_def)

text \<open>The table of a listener, empty where the index has no entry.\<close>

definition hosts_of :: "index \<Rightarrow> socket_addr \<Rightarrow> hosts" where
  "hosts_of ix l = (case bt_get (ix_listeners ix) l of None \<Rightarrow> empty_hosts | Some hs \<Rightarrow> hs)"

lemma hosts_of_add_virtual_host:
  "hosts_of (add_virtual_host (i, h) ix) l =
     (if l = vh_listener h then add_names h i (hosts_of ix l) else hosts_of ix l)"
  by (simp add: hosts_of_def add_virtual_host_def Let_def)

lemma fold_add_virtual_host:
  "bt_get (h_exact (hosts_of (fold add_virtual_host (enumerate n vhs) ix) l)) k =
     or_else (bt_get (h_exact (hosts_of ix l)) k)
       (map_option ((+) n) (position (serves_exact l k) vhs))"
  "bt_get (h_wildcard (hosts_of (fold add_virtual_host (enumerate n vhs) ix) l)) k =
     or_else (bt_get (h_wildcard (hosts_of ix l)) k)
       (map_option ((+) n) (position (serves l (''*.'' @ k)) vhs))"
  "h_default (hosts_of (fold add_virtual_host (enumerate n vhs) ix) l) =
     or_else (h_default (hosts_of ix l)) (map_option ((+) n) (position (serves_default l) vhs))"
  "ix_paths (fold add_virtual_host (enumerate n vhs) ix) =
     ix_paths ix @ map (\<lambda>h. build_paths (map route_matcher (vh_routes h))) vhs"
proof (induction vhs arbitrary: n ix)
  case (Cons h vhs)
  have other: "l \<noteq> vh_listener h \<Longrightarrow>
      \<not> serves l name h \<and> \<not> serves_exact l name h \<and> \<not> serves_default l h" for name
    by (auto simp: serves_def serves_exact_def serves_default_def)
  {
    case 1 show ?case
      using other [of k] by (auto simp: Cons.IH(1) hosts_of_add_virtual_host add_names_get)
  next
    case 2 show ?case
      using other [of "''*.'' @ k"]
      by (auto simp: Cons.IH(2) hosts_of_add_virtual_host add_names_get)
  next
    case 3 show ?case
      using other by (auto simp: Cons.IH(3) hosts_of_add_virtual_host add_names_get)
  next
    case 4
    have "ix_paths (add_virtual_host (n, h) ix) =
        ix_paths ix @ [build_paths (map route_matcher (vh_routes h))]"
      by (simp add: add_virtual_host_def Let_def)
    then show ?case by (simp add: Cons.IH(4))
  }
qed simp_all

lemma hosts_of_empty [simp]: "hosts_of empty_index l = empty_hosts"
  by (simp add: hosts_of_def empty_index_def)

lemma build_get:
  "bt_get (h_exact (hosts_of (build vhs) l)) k = position (serves_exact l k) vhs"
  "bt_get (h_wildcard (hosts_of (build vhs) l)) k = position (serves l (''*.'' @ k)) vhs"
  "h_default (hosts_of (build vhs) l) = position (serves_default l) vhs"
  "ix_paths (build vhs) = map (\<lambda>h. build_paths (map route_matcher (vh_routes h))) vhs"
  unfolding build_def fold_add_virtual_host
  by (simp_all add: empty_hosts_def) (simp add: empty_index_def)

lemma select_host_build:
  "select_host vhs (hosts_of (build vhs) l) host = ref_select_host vhs l host"
proof -
  have "wildcard_at vhs (hosts_of (build vhs) l) host = ref_wildcard_at vhs l host"
    by (auto simp: fun_eq_iff wildcard_at_def ref_wildcard_at_def build_get split: option.split)
  then show ?thesis by (simp add: select_host_def ref_select_host_def build_get)
qed

lemma ref_select_host_range: "ref_select_host vhs l host = Some i \<Longrightarrow> i < length vhs"
  by (auto simp: ref_select_host_def or_else_def ref_wildcard_at_def position_Some_iff bind_eq_Some_conv
      dest!: find_map_SomeD split: option.splits if_splits)

lemma unknown_listener_no_host:
  "bt_get (ix_listeners (build vhs)) l = None \<Longrightarrow> ref_select_host vhs l host = None"
  by (simp flip: select_host_build)
    (auto simp: hosts_of_def empty_hosts_def select_host_def wildcard_at_def find_map_None_iff)

section \<open>Properties\<close>

text \<open>
  All path keys of a configuration are UTF-8 strings: \<open>String\<close> guarantees it, so this holds of
  every value the program can build.
\<close>

definition utf8_keys :: "path_match list \<Rightarrow> bool" where
  "utf8_keys ms \<longleftrightarrow> (\<forall>m\<in>set ms. case prefix_key m of None \<Rightarrow> True | Some k \<Rightarrow> utf8_shaped k)"

lemma utf8_keysD: "utf8_keys ms \<Longrightarrow> m \<in> set ms \<Longrightarrow> prefix_key m = Some k \<Longrightarrow> utf8_shaped k"
  by (auto simp: utf8_keys_def split: option.splits)

lemma index_route_build:
  assumes path: "utf8_shaped path"
    and vhs: "\<forall>h\<in>set vhs. utf8_keys (map route_matcher (vh_routes h))"
  shows "index_route (build vhs) vhs l host path = ref_route vhs l host path"
proof -
  let ?in_host = "\<lambda>i. map_option (\<lambda>r. (i, r))
      (ref_paths_route (map route_matcher (vh_routes (vhs ! i))) path)"
  have in_host: "map_option (\<lambda>r. (i, r)) (paths_route (ix_paths (build vhs) ! i) path) = ?in_host i"
    if "i < length vhs" for i
  proof -
    have "utf8_keys (map route_matcher (vh_routes (vhs ! i)))" using that vhs by simp
    then have "paths_route (build_paths (map route_matcher (vh_routes (vhs ! i)))) path =
        ref_paths_route (map route_matcher (vh_routes (vhs ! i))) path"
      using path utf8_keysD by (intro paths_route_build)
    with that show ?thesis by (simp add: build_get)
  qed
  have default: "Option.bind (position (serves_default l) vhs)
      (\<lambda>i. map_option (\<lambda>r. (i, r)) (paths_route (ix_paths (build vhs) ! i) path)) =
      Option.bind (position (serves_default l) vhs) ?in_host"
  proof (cases "position (serves_default l) vhs")
    case (Some a)
    then have "a < length vhs" by (simp add: position_Some_iff)
    with Some in_host show ?thesis by simp
  qed simp
  show ?thesis
  proof (cases "bt_get (ix_listeners (build vhs)) l")
    case None
    then show ?thesis by (simp add: index_route_def ref_route_def unknown_listener_no_host)
  next
    case (Some names)
    then have names: "names = hosts_of (build vhs) l" by (simp add: hosts_of_def)
    show ?thesis
    proof (cases "ref_select_host vhs l (normalize_host host)")
      case None
      with Some names show ?thesis by (simp add: index_route_def ref_route_def select_host_build)
    next
      case (Some i)
      with \<open>bt_get (ix_listeners (build vhs)) l = Some names\<close> names show ?thesis
        using in_host [OF ref_select_host_range [OF Some]] default
        by (simp add: index_route_def ref_route_def select_host_build build_get)
    qed
  qed
qed

text \<open>How specific a matcher is on a path it matches: an exact matcher comes before every prefix, a
  longer prefix before a shorter one, the Ingress default last.\<close>

fun specificity :: "path_match \<Rightarrow> nat" where
  "specificity (Exact p) = length p + 2"
| "specificity (NginxPrefix p) = length p + 1"
| "specificity (IngressPrefix p) = length (trim_end_matches CHR ''/'' p) + 1"
| "specificity IngressDefault = 0"

lemma find_map_rev_upt:
  assumes "find_map f (rev [0..<Suc n]) = Some y"
  shows "\<exists>e\<le>n. f e = Some y \<and> (\<forall>e'\<le>n. e < e' \<longrightarrow> f e' = None)"
  using assms
proof (induction n)
  case (Suc n)
  show ?case
  proof (cases "f (Suc n)")
    case None
    with Suc.prems have "find_map f (rev [0..<Suc n]) = Some y" by simp
    with Suc.IH None show ?thesis by (metis le_Suc_eq)
  next
    case (Some z)
    with Suc.prems show ?thesis by auto
  qed
qed (auto split: option.splits)

lemma ref_route_at_SomeD:
  assumes "ref_route_at ms path e = Some i" and "e \<le> length path"
  shows "i < length ms" and "path_match_matches (ms ! i) path" and "specificity (ms ! i) = e + 1"
proof -
  have start: "starts_with path (take e path)" by (metis append_take_drop_id starts_with_append)
  consider "position (\<lambda>m. m = NginxPrefix (take e path)) ms = Some i"
    | "position (\<lambda>m. ingress_key m = Some (take e path)) ms = Some i"
      "e = length path \<or> starts_with (drop e path) ''/''"
    using assms(1) by (auto simp: ref_route_at_def or_else_def split: option.splits if_splits)
  then have "i < length ms \<and> path_match_matches (ms ! i) path \<and> specificity (ms ! i) = e + 1"
  proof cases
    case 1
    with start assms(2) show ?thesis by (auto simp: position_Some_iff)
  next
    case 2
    then obtain p where i: "i < length ms" "ms ! i = IngressPrefix p"
      and p: "trim_end_matches CHR ''/'' p = take e path"
      by (auto simp: position_Some_iff ingress_key_def split: path_match.splits)
    have "path = take e path \<or> starts_with path (take e path @ ''/'')"
      using 2(2) append_take_drop_id [of e path] by (metis append.assoc starts_with_iff take_all_iff order_refl)
    then have "path_match_matches (IngressPrefix p) path"
      by (simp only: path_match_ingress_prefix p Let_def) blast
    with i p assms(2) show ?thesis by simp
  qed
  then show "i < length ms" "path_match_matches (ms ! i) path" "specificity (ms ! i) = e + 1"
    by simp_all
qed

lemma ref_route_at_found:
  assumes "m \<in> set ms" and "prefix_key m = Some k" and "path_match_matches m path"
    and "starts_with path ''/''"
  shows "length k \<le> length path" and "ref_route_at ms path (length k) \<noteq> None"
    and "specificity m = length k + 1"
proof -
  obtain r where r: "path = k @ r" and slash: "(\<exists>p. m = IngressPrefix p) \<longrightarrow> r = [] \<or> starts_with r ''/''"
    using assms(2,3,4) by (cases m) (auto simp: Let_def starts_with_iff split: option.splits)
  then show "length k \<le> length path" by simp
  show "specificity m = length k + 1" using assms(2) by (cases m) auto
  have "m = NginxPrefix k \<or> ingress_key m = Some k" using assms(2)
    by (cases m) (auto simp: prefix_key_def)
  with assms(1) r slash show "ref_route_at ms path (length k) \<noteq> None"
    by (auto simp: ref_route_at_def position_None_iff ingress_key_def split: path_match.splits)
qed

text \<open>
  C1. The index built from a configuration routes every request exactly as a scan of the
  configuration does: same listener, same virtual host (first exact name, then the longest
  wildcard suffix whose host accepts it, then the listener's default), same route in that host,
  and for an Ingress host without a matching path the same fallback to the default host. The
  hypotheses say that the strings are UTF-8, which \<open>str\<close> guarantees.
\<close>

theorem index_route_equals_scan:
  assumes "utf8_shaped path"
    and "\<forall>h\<in>set vhs. utf8_keys (map route_matcher (vh_routes h))"
  shows "index_route (build vhs) vhs listener host path = ref_route vhs listener host path"
  using assms by (rule index_route_build)

text \<open>
  On a path that starts with a slash the path tables return a matching route of the greatest
  specificity (exact, then longest prefix, then default) and return nothing only when no route of
  the host matches.
\<close>

lemma paths_route_longest_match:
  assumes "utf8_shaped path" and "starts_with path ''/''" and "utf8_keys ms"
  shows "case paths_route (build_paths ms) path of
      None \<Rightarrow> \<forall>m\<in>set ms. \<not> path_match_matches m path
    | Some i \<Rightarrow> i < length ms \<and> path_match_matches (ms ! i) path
        \<and> (\<forall>m\<in>set ms. path_match_matches m path \<longrightarrow> specificity m \<le> specificity (ms ! i))"
proof -
  have eq: "paths_route (build_paths ms) path = ref_paths_route ms path"
    using assms utf8_keysD by (intro paths_route_build)
  let ?scan = "find_map (ref_route_at ms path) (rev [0..<Suc (length path)])"
  have none: "?scan = None \<Longrightarrow> m \<in> set ms \<Longrightarrow> path_match_matches m path \<Longrightarrow> prefix_key m = None"
    for m using ref_route_at_found [OF _ _ _ assms(2), of m ms]
    by (cases "prefix_key m") (auto simp: find_map_None_iff less_Suc_eq_le simp del: upt_Suc)
  have exact: "path_match_matches m path \<Longrightarrow> prefix_key m = None \<Longrightarrow> m = Exact path \<or> m = IngressDefault"
    for m by (cases m) auto
  have small: "path_match_matches m path \<Longrightarrow> specificity m \<le> length path + 2" for m
    using ref_route_at_found [OF _ _ _ assms(2), of m "[m]"] by (cases "prefix_key m") (auto dest: exact)
  show ?thesis
  proof (cases "position (\<lambda>m. m = Exact path) ms")
    case (Some i)
    then have "i < length ms" "ms ! i = Exact path" by (simp_all add: position_Some_iff)
    with Some small show ?thesis by (simp add: eq ref_paths_route_def)
  next
    case no_exact: None
    show ?thesis
    proof (cases ?scan)
      case None
      have only: "m = IngressDefault" if m: "m \<in> set ms" "path_match_matches m path" for m
      proof -
        have "m \<noteq> Exact path" using no_exact m(1) by (auto simp: position_None_iff)
        with exact [OF m(2) none [OF None m]] show ?thesis by simp
      qed
      then have zero: "\<forall>m\<in>set ms. path_match_matches m path \<longrightarrow> specificity m = 0"
        using specificity.simps(4) by blast
      have "ref_paths_route ms path = position (\<lambda>m. m = IngressDefault) ms"
        by (simp only: ref_paths_route_def no_exact None or_else_simps)
      then have route: "paths_route (build_paths ms) path = position (\<lambda>m. m = IngressDefault) ms"
        by (simp only: eq)
      show ?thesis
      proof (cases "position (\<lambda>m. m = IngressDefault) ms")
        case None
        then have "IngressDefault \<notin> set ms" by (auto simp: position_None_iff)
        with only None route show ?thesis by auto
      next
        case (Some i)
        then have "i < length ms" "ms ! i = IngressDefault" by (simp_all add: position_Some_iff)
        with zero Some route show ?thesis by simp
      qed
    next
      case (Some i)
      from find_map_rev_upt [OF Some] obtain e where
        e: "e \<le> length path" "ref_route_at ms path e = Some i"
        and above: "\<And>e'. e' \<le> length path \<Longrightarrow> e < e' \<Longrightarrow> ref_route_at ms path e' = None"
        by blast
      have "specificity m \<le> e + 1" if m: "m \<in> set ms" "path_match_matches m path" for m
      proof (cases "prefix_key m")
        case None
        have "m \<noteq> Exact path" using no_exact m(1) by (auto simp: position_None_iff)
        with exact [OF m(2) None] show ?thesis by auto
      next
        case (Some k)
        with ref_route_at_found [OF m(1) Some m(2) assms(2)] above show ?thesis
          by (metis add_le_cancel_right not_le)
      qed
      with ref_route_at_SomeD [OF e(2,1)] Some no_exact show ?thesis
        by (simp add: eq ref_paths_route_def del: upt_Suc)
    qed
  qed
qed

section \<open>What a lookup points at\<close>

lemma paths_route_range:
  assumes "paths_route (build_paths ms) path = Some j"
  shows "j < length ms"
proof -
  have at: "ref_route_at ms path n = Some i \<Longrightarrow> i < length ms" for n i
    by (auto simp: ref_route_at_def or_else_def position_Some_iff split: option.splits if_splits)
  show ?thesis
    using assms at by (auto simp: paths_route_def build_paths_get route_at_build or_else_def position_Some_iff
        dest!: find_map_SomeD split: option.splits)
qed

lemma index_route_range:
  assumes "index_route (build vhs) vhs a host path = Some (i, j)"
  shows "i < length vhs \<and> j < length (vh_routes (vhs ! i))"
proof -
  have paths: "paths_route (ix_paths (build vhs) ! i) path = Some j \<Longrightarrow> i < length vhs \<Longrightarrow> j < length (vh_routes (vhs ! i))" for i j
    using paths_route_range [of "map route_matcher (vh_routes (vhs ! i))" path j] by (simp add: build_get)
  from assms obtain names selected where names: "bt_get (ix_listeners (build vhs)) a = Some names"
    and sel: "select_host vhs names (normalize_host host) = Some selected"
    and found: "or_else (map_option (\<lambda>r. (selected, r)) (paths_route (ix_paths (build vhs) ! selected) path))
        (if vh_ingress (vhs ! selected)
         then Option.bind (h_default names) (\<lambda>vid. map_option (\<lambda>r. (vid, r)) (paths_route (ix_paths (build vhs) ! vid) path))
         else None) = Some (i, j)"
    by (auto simp: index_route_def split: option.splits)
  have hosts: "names = hosts_of (build vhs) a" using names by (simp add: hosts_of_def)
  have "selected < length vhs" using sel by (auto simp: hosts select_host_build dest: ref_select_host_range)
  moreover have "vid < length vhs" if "h_default names = Some vid" for vid
    using that by (simp add: hosts build_get position_Some_iff)
  ultimately show ?thesis
    using found paths by (auto simp: or_else_def bind_eq_Some_conv split: option.splits if_splits)
qed

text \<open>The virtual host of an answer of Ingress hosts has a name that ranks the host asked for.\<close>

lemma host_rank_wildcard:
  assumes "pre \<noteq> []" "CHR ''.'' \<notin> set pre"
  shows "host_rank (''*.'' @ suffix) (pre @ ''.'' @ suffix) True \<noteq> None"
proof -
  have parts: "strip_suffix suffix (pre @ ''.'' @ suffix) = Some (pre @ ''.'')" "strip_suffix ''.'' (pre @ ''.'') = Some pre"
    "strip_prefix ''*.'' (''*.'' @ suffix) = Some suffix" by simp_all
  show ?thesis unfolding host_rank_def parts option.case using assms by simp
qed

lemma ingress_host_ranked:
  assumes "ref_select_host vhs l h = Some i"
    and "\<forall>vh\<in>set vhs. vh_ingress vh \<and> (vh_default vh \<longrightarrow> [] \<in> set (vh_names vh))"
  shows "i < length vhs" and "\<exists>name\<in>set (vh_names (vhs ! i)). host_rank name h True \<noteq> None"
proof -
  show i: "i < length vhs" using assms(1) by (rule ref_select_host_range)
  have empty: "host_rank [] h True \<noteq> None" by (simp add: host_rank_def)
  have exact: "host_rank h h True \<noteq> None" by (simp add: host_rank_def)
  from assms(1) consider "position (serves_exact l h) vhs = Some i"
    | "find_map (ref_wildcard_at vhs l h) (match_indices h CHR ''.'') = Some i" | "position (serves_default l) vhs = Some i"
    by (auto simp: ref_select_host_def or_else_def split: option.splits)
  then show "\<exists>name\<in>set (vh_names (vhs ! i)). host_rank name h True \<noteq> None"
  proof cases
    case 1
    with exact show ?thesis by (auto simp: position_Some_iff serves_exact_def serves_def)
  next
    case 2
    then obtain d where "d \<in> set (match_indices h CHR ''.'')" "ref_wildcard_at vhs l h d = Some i"
      using find_map_SomeD by metis
    then have d: "serves l (''*.'' @ drop (d + 1) h) (vhs ! i)" "d < length h" "h ! d = CHR ''.''" "0 < d" "CHR ''.'' \<notin> set (take d h)"
      using assms(2) i by (auto simp: ref_wildcard_at_def position_Some_iff match_indices_iff bind_eq_Some_conv split: if_splits)
    then have "h = take d h @ ''.'' @ drop (d + 1) h" using id_take_nth_drop [of d h] by simp
    moreover have "take d h \<noteq> []" using d by auto
    ultimately have "host_rank (''*.'' @ drop (d + 1) h) h True \<noteq> None" using host_rank_wildcard d(5) by metis
    with d(1) show ?thesis unfolding serves_def by blast
  next
    case 3
    then have "[] \<in> set (vh_names (vhs ! i))" using assms(2) i by (auto simp: position_Some_iff serves_default_def)
    with empty show ?thesis by blast
  qed
qed

lemma index_route_ranked:
  assumes "index_route (build vhs) vhs l host path = Some (i, j)"
    and "\<forall>vh\<in>set vhs. vh_ingress vh \<and> (vh_default vh \<longrightarrow> [] \<in> set (vh_names vh))"
  shows "\<exists>name\<in>set (vh_names (vhs ! i)). host_rank name (normalize_host host) True \<noteq> None"
proof -
  from assms(1) obtain names selected where sel: "select_host vhs names (normalize_host host) = Some selected"
    "bt_get (ix_listeners (build vhs)) l = Some names" and "i = selected \<or> h_default names = Some i"
    by (auto simp: index_route_def or_else_def bind_eq_Some_conv split: option.splits if_splits)
  moreover have hosts: "names = hosts_of (build vhs) l" using sel by (simp add: hosts_of_def)
  ultimately consider "ref_select_host vhs l (normalize_host host) = Some i" | "position (serves_default l) vhs = Some i"
    by (auto simp: select_host_build build_get)
  then show ?thesis
  proof cases
    case 2
    then have "[] \<in> set (vh_names (vhs ! i))" using assms(2) by (auto simp: position_Some_iff serves_default_def)
    then show ?thesis by (intro bexI [of _ "[]"]) (simp_all add: host_rank_def)
  qed (rule ingress_host_ranked(2) [OF _ assms(2)])
qed

section \<open>Example configuration\<close>

definition example_listener :: socket_addr where
  "example_listener = SockV4 0x7F000001 8080"

definition example_route :: "string \<Rightarrow> path_match \<Rightarrow> route" where
  "example_route name m = \<lparr>route_id = name, route_matcher = m, route_action = Return 200 name\<rparr>"

definition example_hosts :: "virtual_host list" where
  "example_hosts =
     [\<lparr>vh_listener = example_listener, vh_names = [''test''], vh_default = True, vh_ingress = False,
       vh_routes =
         [example_route ''root'' (NginxPrefix ''/''), example_route ''exact'' (Exact ''/a''),
          example_route ''prefix'' (NginxPrefix ''/a''),
          example_route ''segment'' (IngressPrefix ''/api'')]\<rparr>,
      \<lparr>vh_listener = example_listener, vh_names = [''*.example.org''], vh_default = False,
       vh_ingress = True, vh_routes = [example_route ''wild'' (IngressPrefix ''/w/'')]\<rparr>]"

theorem index_route_equals_scan_witness:
  "utf8_shaped ''/api/v1'' \<and> list_all (\<lambda>h. utf8_keys (map route_matcher (vh_routes h))) example_hosts
   \<and> index_route (build example_hosts) example_hosts example_listener ''TEST.'' ''/api/v1'' =
       ref_route example_hosts example_listener ''TEST.'' ''/api/v1''
   \<and> index_route (build example_hosts) example_hosts example_listener ''TEST.'' ''/api/v1'' = Some (0, 3)"
proof -
  have path: "utf8_shaped ''/api/v1''" by code_simp
  have keys: "\<forall>h\<in>set example_hosts. utf8_keys (map route_matcher (vh_routes h))" by code_simp
  have "index_route (build example_hosts) example_hosts example_listener ''TEST.'' ''/api/v1'' = Some (0, 3)"
    by code_simp
  with path keys index_route_equals_scan [OF path keys] show ?thesis by (simp add: list_all_iff)
qed

end
