(* ===== verification/Request_Data.thy ===== *)
theory Request_Data
  imports Rust_Prelude
begin

text \<open>
  The request view that policies and scripts read, \<open>RequestData\<close> of \<open>src/src/script/mod.rs\<close> with
  the body view of \<open>src/src/body.rs\<close>, and the header map behind it, \<open>src/src/script/headers.rs\<close>.
  The fields \<open>rd_header\<close> and \<open>rd_header_bytes\<close> are \<open>RequestHeaders::get\<close> and
  \<open>RequestHeaders::host_bytes\<close> on the request's headers.
\<close>

record body_view =
  bv_bytes :: string
  bv_complete :: bool

record request_data =
  rd_claims :: "(string, string) btree"
  rd_method :: string
  rd_path :: string
  rd_query :: string
  rd_host :: string
  rd_remote_addr :: string
  rd_header :: "string \<Rightarrow> string option"
  rd_header_bytes :: nat
  rd_body :: "body_view option"

definition empty_request :: request_data where
  "empty_request = \<lparr>rd_claims = [], rd_method = [], rd_path = [], rd_query = [], rd_host = [],
     rd_remote_addr = [], rd_header = (\<lambda>_. None), rd_header_bytes = 0, rd_body = None\<rparr>"

text \<open>The first cookie of the given name in a \<open>Cookie\<close> header value.\<close>

definition cookie_value :: "string \<Rightarrow> string \<Rightarrow> string option" where
  "cookie_value name v =
     map_option snd
       (find (\<lambda>kv. fst kv = name)
         (List.map_filter (\<lambda>p. split_once CHR ''='' (trim p)) (split_on CHR '';'' v)))"

section \<open>Request headers\<close>

text \<open>
  \<open>source\<close> is an \<open>http::HeaderMap\<close>: the list of its fields, in iteration order, with lower-case names;
  \<open>get_all\<close> selects the values of a name. \<open>to_str\<close> is \<open>HeaderValue::to_str\<close>, which fails on values
  that are not visible ASCII.
\<close>

record request_headers =
  rh_source :: "(string \<times> string) list option"
  rh_values :: "(string, string) btree"

definition get_all :: "(string \<times> string) list \<Rightarrow> string \<Rightarrow> string list" where
  "get_all headers name = map snd (filter (\<lambda>f. fst f = to_ascii_lowercase name) headers)"

definition headers_from_http :: "(string \<times> string) list \<Rightarrow> request_headers" where
  "headers_from_http headers = \<lparr>rh_source = Some headers, rh_values = []\<rparr>"

definition headers_from_selected :: "(string \<times> string) list \<Rightarrow> string list \<Rightarrow> request_headers" where
  "headers_from_selected headers names =
     \<lparr>rh_source = Some (concat (map (\<lambda>n. map (\<lambda>v. (n, v)) (get_all headers n)) names)), rh_values = []\<rparr>"

definition headers_get :: "(string \<Rightarrow> string option) \<Rightarrow> request_headers \<Rightarrow> string \<Rightarrow> string option" where
  "headers_get to_str h name =
     (case rh_source h of
        Some headers \<Rightarrow>
          (case List.map_filter to_str (get_all headers name) of [] \<Rightarrow> None | vs \<Rightarrow> Some (last vs))
      | None \<Rightarrow> bt_get (rh_values h) name)"

definition headers_contains_key :: "(string \<Rightarrow> string option) \<Rightarrow> request_headers \<Rightarrow> string \<Rightarrow> bool" where
  "headers_contains_key to_str h name = (headers_get to_str h name \<noteq> None)"

definition headers_iter :: "(string \<Rightarrow> string option) \<Rightarrow> request_headers \<Rightarrow> (string \<times> string) list" where
  "headers_iter to_str h =
     rh_values h @
     (case rh_source h of
        None \<Rightarrow> []
      | Some headers \<Rightarrow>
          List.map_filter (\<lambda>name. map_option (\<lambda>v. (name, v)) (headers_get to_str h name))
            (remdups (map fst headers)))"

definition headers_to_map :: "(string \<Rightarrow> string option) \<Rightarrow> request_headers \<Rightarrow> (string, string) btree" where
  "headers_to_map to_str h = bt_collect (headers_iter to_str h)"

definition headers_host_bytes :: "request_headers \<Rightarrow> nat" where
  "headers_host_bytes h =
     sum_list (map (\<lambda>(k, v). length k + length v + 64)
       (case rh_source h of Some headers \<Rightarrow> headers | None \<Rightarrow> rh_values h))"

definition headers_materialize :: "(string \<Rightarrow> string option) \<Rightarrow> request_headers \<Rightarrow> request_headers" where
  "headers_materialize to_str h =
     (if rh_source h \<noteq> None then \<lparr>rh_source = None, rh_values = headers_to_map to_str h\<rparr> else h)"

definition headers_insert ::
  "(string \<Rightarrow> string option) \<Rightarrow> string \<Rightarrow> string \<Rightarrow> request_headers \<Rightarrow> request_headers" where
  "headers_insert to_str name v h =
     (let h' = headers_materialize to_str h in h'\<lparr>rh_values := bt_insert name v (rh_values h')\<rparr>)"

definition headers_remove :: "(string \<Rightarrow> string option) \<Rightarrow> string \<Rightarrow> request_headers \<Rightarrow> request_headers" where
  "headers_remove to_str name h =
     (let h' = headers_materialize to_str h in h'\<lparr>rh_values := bt_remove name (rh_values h')\<rparr>)"

definition headers_extend ::
  "(string \<Rightarrow> string option) \<Rightarrow> (string \<times> string) list \<Rightarrow> request_headers \<Rightarrow> request_headers" where
  "headers_extend to_str es h =
     (let h' = headers_materialize to_str h
      in h'\<lparr>rh_values := fold (\<lambda>(k, v). bt_insert k v) es (rh_values h')\<rparr>)"

definition headers_from_iter :: "(string \<times> string) list \<Rightarrow> request_headers" where
  "headers_from_iter es = \<lparr>rh_source = None, rh_values = bt_collect es\<rparr>"

definition headers_ok :: "request_headers \<Rightarrow> bool" where
  "headers_ok h \<longleftrightarrow>
     bt_sorted (rh_values h) \<and>
     (\<forall>hs. rh_source h = Some hs \<longrightarrow> (\<forall>f\<in>set hs. to_ascii_lowercase (fst f) = fst f) \<and> rh_values h = [])"

lemma rev_map_filter: "rev (List.map_filter f xs) = List.map_filter f (rev xs)"
  by (simp add: List.map_filter_def rev_map rev_filter)

lemma map_of_map_filter:
  "map_of (List.map_filter (\<lambda>n. map_option (\<lambda>v. (n, v)) (g n)) ns) k = (if k \<in> set ns then g k else None)"
  by (induction ns) (auto split: option.split)

lemma headers_materialize_get:
  assumes "headers_ok h" and "to_ascii_lowercase name = name"
  shows "headers_get to_str (headers_materialize to_str h) name = headers_get to_str h name"
proof (cases "rh_source h")
  case (Some hs)
  with assms(1) have ok: "\<forall>f\<in>set hs. to_ascii_lowercase (fst f) = fst f" "rh_values h = []"
    by (auto simp: headers_ok_def)
  let ?g = "headers_get to_str h"
  have absent: "?g name = None" if "name \<notin> fst ` set hs"
  proof -
    have "get_all hs name = []" using that assms(2) by (force simp: get_all_def filter_empty_conv)
    then show ?thesis by (simp add: headers_get_def Some List.map_filter_simps)
  qed
  have "headers_get to_str (headers_materialize to_str h) name =
      map_of (rev (List.map_filter (\<lambda>n. map_option (\<lambda>v. (n, v)) (?g n)) (remdups (map fst hs)))) name"
    unfolding headers_get_def [of _ "headers_materialize to_str h"]
    by (simp add: headers_materialize_def Some headers_to_map_def bt_get_collect headers_iter_def ok(2))
  also have "\<dots> = (if name \<in> set (remdups (map fst hs)) then ?g name else None)"
    unfolding rev_map_filter map_of_map_filter by simp
  finally show ?thesis using absent by auto
qed (simp add: headers_materialize_def)

text \<open>A lookup sees the last insertion or removal of the name, and otherwise the original field.\<close>

lemma headers_update_get:
  assumes "headers_ok h" and "to_ascii_lowercase name = name"
  shows "headers_get to_str (headers_insert to_str key v h) name =
      (if name = key then Some v else headers_get to_str h name)"
    and "headers_get to_str (headers_remove to_str key h) name =
      (if name = key then None else headers_get to_str h name)"
proof -
  let ?h = "headers_materialize to_str h"
  have none: "rh_source ?h = None" by (simp add: headers_materialize_def)
  then have get: "headers_get to_str (?h\<lparr>rh_values := m\<rparr>) name = bt_get m name" for m
    by (simp add: headers_get_def)
  have old: "bt_get (rh_values ?h) name = headers_get to_str h name"
    using headers_materialize_get [OF assms, of to_str] none by (simp add: headers_get_def [of _ ?h])
  show "headers_get to_str (headers_insert to_str key v h) name =
      (if name = key then Some v else headers_get to_str h name)"
    and "headers_get to_str (headers_remove to_str key h) name =
      (if name = key then None else headers_get to_str h name)"
    by (simp_all add: headers_insert_def headers_remove_def Let_def get old)
qed

lemma map_of_rev_distinct: "distinct (map fst m) \<Longrightarrow> map_of (rev m) k = map_of m k"
proof (induction m)
  case (Cons e m)
  then have "k = fst e \<Longrightarrow> map_of m k = None" by (simp add: map_of_eq_None_iff)
  with Cons show ?case by (cases e) (auto simp: map_add_def split: option.split)
qed simp

text \<open>
  A header view keeps its contents when it turns from a view of the HTTP fields into a map of
  its own: after inserting or removing one name, every other name reads as before, from the last
  readable field of that name, and the changed name reads as the change says.
\<close>

lemma request_headers_view:
  assumes "headers_ok h" and "to_ascii_lowercase name = name"
  shows "headers_get to_str (headers_materialize to_str h) name = headers_get to_str h name
    \<and> headers_get to_str (headers_insert to_str key v h) name = (if name = key then Some v else headers_get to_str h name)
    \<and> headers_get to_str (headers_remove to_str key h) name = (if name = key then None else headers_get to_str h name)
    \<and> (headers_contains_key to_str h name \<longleftrightarrow> bt_get (headers_to_map to_str h) name \<noteq> None)"
proof -
  have "bt_get (headers_to_map to_str h) name = headers_get to_str h name"
  proof (cases "rh_source h")
    case None
    moreover have "distinct (map fst (rh_values h))"
      using assms(1) bt_sorted_distinct by (auto simp: headers_ok_def bt_keys_def)
    ultimately show ?thesis
      by (simp add: headers_to_map_def headers_iter_def headers_get_def bt_get_collect map_of_rev_distinct)
  next
    case (Some hs)
    then show ?thesis
      using headers_materialize_get [OF assms, of to_str]
      by (simp add: headers_materialize_def headers_get_def [of _ "\<lparr>rh_source = None, rh_values = _\<rparr>"])
  qed
  then show ?thesis
    using headers_materialize_get [OF assms] headers_update_get [OF assms] by (simp add: headers_contains_key_def)
qed

end
