(* ===== verification/Leases.thy ===== *)
theory Leases
  imports Rust_Prelude "HOL-Library.Multiset"
begin

text \<open>
  The contract of a component that hands out leases and counts them: rate limiter permits
  (\<open>traffic.rs\<close>) and backend leases (\<open>backend.rs\<close>) both keep an \<open>active\<close> counter that an
  acquisition increments and the \<open>Drop\<close> of the lease decrements. A lease is counted in its slot: the
  bucket of a permit, the endpoint state or the whole backend of a backend lease. The locales state
  what the components promise; their client lemmas say that the counters agree with the leases that are
  outstanding, over every interleaving of acquisitions and releases.
\<close>

datatype ('a, 'r, 'k) lease_event = Acquire 'a | Release 'r 'k

text \<open>
  One event against a component state and the multiset of outstanding leases. A lease that is not
  outstanding cannot be dropped.
\<close>

fun lease_step ::
  "('a \<Rightarrow> 's \<Rightarrow> 'k option \<times> 's) \<Rightarrow> ('r \<Rightarrow> 'k \<Rightarrow> 's \<Rightarrow> 's) \<Rightarrow> ('a, 'r, 'k) lease_event
     \<Rightarrow> 's \<times> 'k multiset \<Rightarrow> 's \<times> 'k multiset" where
  "lease_step acquire release (Acquire a) (s, held) =
     (case acquire a s of
        (None, s') \<Rightarrow> (s', held)
      | (Some k, s') \<Rightarrow> (s', add_mset k held))"
| "lease_step acquire release (Release r k) (s, held) =
     (if k \<in># held then (release r k s, held - {#k#}) else (s, held))"

definition lease_run ::
  "('a \<Rightarrow> 's \<Rightarrow> 'k option \<times> 's) \<Rightarrow> ('r \<Rightarrow> 'k \<Rightarrow> 's \<Rightarrow> 's) \<Rightarrow> ('a, 'r, 'k) lease_event list
     \<Rightarrow> 's \<times> 'k multiset \<Rightarrow> 's \<times> 'k multiset" where
  "lease_run acquire release es c = fold (lease_step acquire release) es c"

fun acquire_args :: "('a, 'r, 'k) lease_event list \<Rightarrow> 'a list" where
  "acquire_args [] = []"
| "acquire_args (Acquire a # es) = a # acquire_args es"
| "acquire_args (Release r k # es) = acquire_args es"

text \<open>A property of the component state that both operations keep holds after every run.\<close>

lemma lease_run_keeps:
  assumes "\<And>a s res s'. P s \<Longrightarrow> acquire a s = (res, s') \<Longrightarrow> P s'"
    and "\<And>r k s. P s \<Longrightarrow> P (release r k s)"
    and "P (fst c)"
  shows "P (fst (lease_run acquire release es c))"
  using assms(3)
proof (induction es arbitrary: c)
  case (Cons e es)
  obtain s held where c: "c = (s, held)" by fastforce
  have "P (fst (lease_step acquire release e (s, held)))"
    using Cons.prems c assms(1,2) by (cases e) (auto split: prod.splits option.splits)
  with Cons.IH show ?case by (simp add: lease_run_def c)
qed (simp add: lease_run_def)

locale lease_accounting =
  fixes invar :: "'s \<Rightarrow> bool"
    and slot :: "'k \<Rightarrow> 'c"
    and active :: "'s \<Rightarrow> 'c \<Rightarrow> nat"
    and acquire :: "'a \<Rightarrow> 's \<Rightarrow> 'k option \<times> 's"
    and release :: "'r \<Rightarrow> 'k \<Rightarrow> 's \<Rightarrow> 's"
  assumes acquire_invar: "invar s \<Longrightarrow> acquire a s = (res, s') \<Longrightarrow> invar s'"
    and release_invar: "invar s \<Longrightarrow> invar (release r k s)"
    and acquire_refused: "invar s \<Longrightarrow> acquire a s = (None, s') \<Longrightarrow> active s' = active s"
    and acquire_granted:
      "invar s \<Longrightarrow> acquire a s = (Some k, s') \<Longrightarrow> active s' = (active s)(slot k := active s (slot k) + 1)"
    and release_active: "invar s \<Longrightarrow> active (release r k s) = (active s)(slot k := active s (slot k) - 1)"
begin

lemma step_accounts:
  assumes "invar s" and "active s = count (image_mset slot held)"
    and "lease_step acquire release e (s, held) = (s', held')"
  shows "invar s'" and "active s' = count (image_mset slot held')"
proof -
  have "invar s' \<and> active s' = count (image_mset slot held')"
  proof (cases e)
    case (Acquire a)
    obtain res t where res: "acquire a s = (res, t)" by fastforce
    with Acquire assms(3) show ?thesis
      using acquire_invar [OF assms(1) res] acquire_refused [OF assms(1)]
        acquire_granted [OF assms(1)] assms(2)
      by (cases res) (auto simp: fun_eq_iff)
  next
    case (Release r k)
    with assms show ?thesis
      by (auto simp: fun_eq_iff release_active release_invar image_mset_Diff split: if_splits)
  qed
  then show "invar s'" "active s' = count (image_mset slot held')" by simp_all
qed

lemma run_accounts:
  assumes "invar s" and "active s = count (image_mset slot held)"
    and "lease_run acquire release es (s, held) = (s', held')"
  shows "invar s' \<and> active s' = count (image_mset slot held')"
  using assms
proof (induction es arbitrary: s held)
  case (Cons e es)
  obtain t h where t: "lease_step acquire release e (s, held) = (t, h)" by fastforce
  from step_accounts [OF Cons.prems(1,2) t] Cons.prems(3) t show ?case
    by (intro Cons.IH [of t h]) (simp_all add: lease_run_def)
qed (simp add: lease_run_def)

end

text \<open>
  A component that grants a lease only while fewer than a limit are active in its slot. The limit
  is an argument of the acquisition.
\<close>

locale bounded_leases = lease_accounting invar slot active acquire release
  for invar :: "'s \<Rightarrow> bool"
    and slot :: "'k \<Rightarrow> 'c"
    and active :: "'s \<Rightarrow> 'c \<Rightarrow> nat"
    and acquire :: "'a \<Rightarrow> 's \<Rightarrow> 'k option \<times> 's"
    and release :: "'r \<Rightarrow> 'k \<Rightarrow> 's \<Rightarrow> 's" +
  fixes limit :: "'a \<Rightarrow> nat"
  assumes acquire_below: "invar s \<Longrightarrow> acquire a s = (Some k, s') \<Longrightarrow> active s (slot k) < limit a"
begin

lemma run_bounded:
  assumes "invar s" and "active s = count (image_mset slot held)" and "\<forall>c. count (image_mset slot held) c \<le> L"
    and "\<forall>a\<in>set (acquire_args es). limit a \<le> L"
    and "lease_run acquire release es (s, held) = (s', held')"
  shows "count (image_mset slot held') c \<le> L"
  using assms
proof (induction es arbitrary: s held)
  case (Cons e es)
  obtain t h where t: "lease_step acquire release e (s, held) = (t, h)" by fastforce
  have bound: "\<forall>c. count (image_mset slot h) c \<le> L"
  proof (cases e)
    case (Acquire a)
    with Cons.prems(2-4) t show ?thesis
      by (auto dest!: acquire_below [OF Cons.prems(1)] split: prod.splits option.splits)
  next
    case (Release r j)
    with Cons.prems(3) t show ?thesis by (auto simp: image_mset_Diff split: if_splits) (meson diff_le_self le_trans)
  qed
  have "set (acquire_args es) \<subseteq> set (acquire_args (e # es))" by (cases e) auto
  with Cons.prems(4,5) t bound step_accounts [OF Cons.prems(1,2) t] show ?case
    by (intro Cons.IH [of t h]) (auto simp: lease_run_def)
qed (simp add: lease_run_def)

end

end
