(* ===== verification/Traffic.thy ===== *)
theory Traffic
  imports Request_Data Leases Complex_Main
begin

text \<open>
  Request rate and concurrency limits, \<open>src/src/traffic.rs\<close>: the limit keys, the policies and the
  \<open>Limiter\<close> with its token buckets.

  Parameters stand for code of other crates: \<open>header_name_ok\<close> for \<open>http::HeaderName::from_bytes\<close>,
  \<open>sha256\<close> for the digest, \<open>policy_json\<close> for \<open>serde_json::to_string\<close> and \<open>rnd\<close> for the rounding of
  an exact result to the nearest \<open>f64\<close>, so a floating-point operation is the exact operation on
  rationals followed by \<open>rnd\<close>. Conversions of a \<open>u32\<close> to \<open>f64\<close> are exact.
\<close>

section \<open>Limit keys\<close>

datatype key = Route | Ip | Header string | Cookie string | Claim string

datatype traffic_error =
    KeyExpected
  | InvalidKeyName
  | InvalidHeaderName string
  | UnsupportedKeyKind string
  | RateOutOfRange
  | ConcurrencyOutOfRange

definition key_parse :: "(string \<Rightarrow> bool) \<Rightarrow> string \<Rightarrow> (traffic_error, key) result" where
  "key_parse header_name_ok value =
     (if value = ''route'' then Inr Route
      else if value = ''ip'' then Inr Ip
      else bindR (ok_or (split_once CHR '':'' value) KeyExpected) (\<lambda>(kind, v).
           bindR (ensure (v \<noteq> [] \<and> length v \<le> 128) InvalidKeyName) (\<lambda>_.
             if kind = ''header'' then
               bindR (ensure (header_name_ok v) (InvalidHeaderName v)) (\<lambda>_.
                 Inr (Header (to_ascii_lowercase v)))
             else if kind = ''cookie'' then Inr (Cookie v)
             else if kind = ''jwt'' then Inr (Claim v)
             else Inl (UnsupportedKeyKind kind))))"

fun key_value :: "key \<Rightarrow> request_data \<Rightarrow> (string, string) btree \<Rightarrow> string" where
  "key_value Route request claims = []"
| "key_value Ip request claims = rd_remote_addr request"
| "key_value (Header name) request claims =
     (case rd_header request name of None \<Rightarrow> [] | Some v \<Rightarrow> v)"
| "key_value (Claim name) request claims =
     (case bt_get claims name of None \<Rightarrow> [] | Some v \<Rightarrow> v)"
| "key_value (Cookie name) request claims =
     (case Option.bind (rd_header request ''cookie'') (cookie_value name) of
        None \<Rightarrow> [] | Some v \<Rightarrow> v)"

section \<open>Policies\<close>

record rate =
  per_second :: nat
  burst :: nat
  rate_key :: key

record concurrency =
  conc_limit :: nat
  conc_key :: key

record policy =
  pol_rate :: "rate option"
  pol_concurrency :: "concurrency option"

definition before_auth_key :: "key \<Rightarrow> bool" where
  "before_auth_key k \<longleftrightarrow> k = Ip \<or> k = Route"

definition filter_option :: "('a \<Rightarrow> bool) \<Rightarrow> 'a option \<Rightarrow> 'a option" where
  "filter_option P x = (case x of None \<Rightarrow> None | Some a \<Rightarrow> if P a then Some a else None)"

definition policy_phase :: "policy \<Rightarrow> bool \<Rightarrow> policy" where
  "policy_phase p before_auth =
     \<lparr>pol_rate = filter_option (\<lambda>r. before_auth_key (rate_key r) = before_auth) (pol_rate p),
      pol_concurrency =
        filter_option (\<lambda>c. before_auth_key (conc_key c) = before_auth) (pol_concurrency p)\<rparr>"

definition policy_validate :: "policy \<Rightarrow> (traffic_error, unit) result" where
  "policy_validate p =
     bindR (case pol_rate p of
              None \<Rightarrow> Inr ()
            | Some r \<Rightarrow> ensure (1 \<le> per_second r \<and> per_second r \<le> 1000000
                               \<and> 1 \<le> burst r \<and> burst r \<le> 1000000) RateOutOfRange) (\<lambda>_.
     case pol_concurrency p of
       None \<Rightarrow> Inr ()
     | Some c \<Rightarrow> ensure (1 \<le> conc_limit c \<and> conc_limit c \<le> 1000000) ConcurrencyOutOfRange)"

section \<open>The limiter\<close>

record bucket =
  tokens :: rat
  bk_active :: nat
  touched :: instant

record limiter =
  capacity :: nat
  buckets :: "(string, bucket) btree"

definition default_limiter :: limiter where
  "default_limiter = \<lparr>capacity = 16384, buckets = []\<rparr>"

definition observation :: "limiter \<Rightarrow> nat \<times> nat" where
  "observation l = (length (buckets l), capacity l)"

definition set_capacity :: "limiter \<Rightarrow> nat \<Rightarrow> limiter" where
  "set_capacity l value = l\<lparr>capacity := value\<rparr>"

definition permit_drop :: "instant \<Rightarrow> string \<Rightarrow> limiter \<Rightarrow> limiter" where
  "permit_drop now key l =
     (case bt_get (buckets l) key of
        None \<Rightarrow> l
      | Some b \<Rightarrow> l\<lparr>buckets := bt_insert key (b\<lparr>bk_active := bk_active b - 1, touched := now\<rparr>)
          (buckets l)\<rparr>)"

definition bucket_key ::
  "(string \<Rightarrow> string) \<Rightarrow> (policy \<Rightarrow> string) \<Rightarrow> string \<Rightarrow> policy \<Rightarrow> request_data
     \<Rightarrow> (string, string) btree \<Rightarrow> string \<Rightarrow> key \<Rightarrow> string" where
  "bucket_key sha256 policy_json route p request claims kind selector =
     sha256 (route @ [CHR 0x00] @ kind @ [CHR 0x00] @ policy_json p @ [CHR 0x00]
       @ key_value selector request claims)"

text \<open>\<open>Duration::as_secs_f64\<close>\<close>

definition as_secs_f64 :: "(rat \<Rightarrow> rat) \<Rightarrow> duration \<Rightarrow> rat" where
  "as_secs_f64 rnd d =
     rnd (rnd (of_nat (d div 1000000000)) + rnd (of_nat (d mod 1000000000) / 1000000000))"

definition refill :: "(rat \<Rightarrow> rat) \<Rightarrow> rate \<Rightarrow> instant \<Rightarrow> bucket \<Rightarrow> bucket" where
  "refill rnd r now b =
     b\<lparr>tokens := min (rnd (tokens b
          + rnd (as_secs_f64 rnd (duration_since now (touched b)) * of_nat (per_second r))))
          (of_nat (burst r)),
       touched := now\<rparr>"

definition sweep :: "instant \<Rightarrow> nat \<Rightarrow> (string, bucket) btree \<Rightarrow> (string, bucket) btree" where
  "sweep now cap bs =
     (if cap \<le> length bs
      then filter (\<lambda>kb. 0 < bk_active (snd kb)
             \<or> duration_since now (touched (snd kb)) < from_secs 60) bs
      else bs)"

text \<open>
  The concurrency half of \<open>acquire\<close>: the bucket table it leaves and the key of the permit, or the
  refusal. A refused request leaves the bucket it looked up in the table.
\<close>

definition check_concurrency ::
  "instant \<Rightarrow> nat \<Rightarrow> concurrency option \<Rightarrow> (concurrency \<Rightarrow> string) \<Rightarrow> (string, bucket) btree
     \<Rightarrow> (nat, string option) result \<times> (string, bucket) btree" where
  "check_concurrency now cap conc key bs =
     (case conc of
        None \<Rightarrow> (Inr None, bs)
      | Some c \<Rightarrow>
          (let cid = key c in
           if bt_get bs cid = None \<and> cap \<le> length bs then (Inl 503, bs)
           else
             let bs' = bt_or_insert cid \<lparr>tokens = 0, bk_active = 0, touched = now\<rparr> bs in
             if conc_limit c \<le> bk_active (the (bt_get bs' cid)) then (Inl 503, bs')
             else (Inr (Some cid), bs')))"

text \<open>The rate half: refill the bucket, then take a token or refuse with 429.\<close>

definition check_rate ::
  "(rat \<Rightarrow> rat) \<Rightarrow> instant \<Rightarrow> nat \<Rightarrow> rate option \<Rightarrow> (rate \<Rightarrow> string) \<Rightarrow> (string, bucket) btree
     \<Rightarrow> (nat, unit) result \<times> (string, bucket) btree" where
  "check_rate rnd now cap rate key bs =
     (case rate of
        None \<Rightarrow> (Inr (), bs)
      | Some r \<Rightarrow>
          (let rid = key r in
           if bt_get bs rid = None \<and> cap \<le> length bs then (Inl 503, bs)
           else
             let bs' = bt_or_insert rid \<lparr>tokens = of_nat (burst r), bk_active = 0, touched = now\<rparr> bs;
                 b = refill rnd r now (the (bt_get bs' rid)) in
             if tokens b < 1 then (Inl 429, bt_insert rid b bs')
             else (Inr (), bt_insert rid (b\<lparr>tokens := rnd (tokens b - 1)\<rparr>) bs')))"

definition grant :: "instant \<Rightarrow> string option \<Rightarrow> (string, bucket) btree \<Rightarrow> (string, bucket) btree" where
  "grant now permit_key bs =
     (case permit_key of
        None \<Rightarrow> bs
      | Some k \<Rightarrow>
          (let b = the (bt_get bs k)
           in bt_insert k (b\<lparr>bk_active := bk_active b + 1, touched := now\<rparr>) bs))"

definition acquire ::
  "(string \<Rightarrow> string) \<Rightarrow> (policy \<Rightarrow> string) \<Rightarrow> (rat \<Rightarrow> rat) \<Rightarrow> instant \<Rightarrow> string \<Rightarrow> policy
     \<Rightarrow> request_data \<Rightarrow> (string, string) btree \<Rightarrow> limiter
     \<Rightarrow> (nat, string option) result \<times> limiter" where
  "acquire sha256 policy_json rnd now route p request claims l =
     (if pol_rate p = None \<and> pol_concurrency p = None then (Inr None, l)
      else
        let cap = capacity l;
            key = bucket_key sha256 policy_json route p request claims;
            bs0 = sweep now cap (buckets l);
            (conc, bs1) = check_concurrency now cap (pol_concurrency p)
              (\<lambda>c. key ''concurrency'' (conc_key c)) bs0 in
        case conc of
          Inl code \<Rightarrow> (Inl code, l\<lparr>buckets := bs1\<rparr>)
        | Inr permit_key \<Rightarrow>
            (let (rate, bs2) = check_rate rnd now cap (pol_rate p)
               (\<lambda>r. key ''rate'' (rate_key r)) bs1 in
             case rate of
               Inl code \<Rightarrow> (Inl code, l\<lparr>buckets := bs2\<rparr>)
             | Inr _ \<Rightarrow> (Inr permit_key, l\<lparr>buckets := grant now permit_key bs2\<rparr>)))"

section \<open>What each half of an acquisition does to the counters\<close>

definition active_of :: "(string, bucket) btree \<Rightarrow> string \<Rightarrow> nat" where
  "active_of bs k = (case bt_get bs k of None \<Rightarrow> 0 | Some b \<Rightarrow> bk_active b)"

lemma map_of_filter_distinct:
  "distinct (map fst m) \<Longrightarrow>
   map_of (filter P m) k = (case map_of m k of None \<Rightarrow> None | Some v \<Rightarrow> if P (k, v) then Some v else None)"
  by (induction m) (auto simp: map_of_eq_None_iff split: option.splits)

lemma sweep_sorted: "bt_sorted bs \<Longrightarrow> bt_sorted (sweep now cap bs)"
  by (simp add: sweep_def bt_sorted_def bt_keys_def sorted_wrt_map sorted_wrt_filter)

lemma sweep_active: "bt_sorted bs \<Longrightarrow> active_of (sweep now cap bs) = active_of bs"
  using bt_sorted_distinct [of bs]
  by (auto simp: fun_eq_iff active_of_def sweep_def map_of_filter_distinct bt_keys_def
      split: option.splits)

lemma sweep_length: "length (sweep now cap bs) \<le> length bs"
  by (simp add: sweep_def)

lemma length_bt_insert: "bt_sorted m \<Longrightarrow>
    length (bt_insert k v m) = (if bt_get m k = None then Suc (length m) else length m)"
proof (induction m)
  case (Cons e m)
  then have sorted: "bt_sorted m" and above: "\<forall>x\<in>fst ` set m. fst e < x"
    by (auto simp: bt_sorted_def bt_keys_def)
  have "k < fst e \<Longrightarrow> map_of m k = None"
    using above by (fastforce simp: map_of_eq_None_iff)
  with Cons.IH [OF sorted] show ?case by auto
qed simp

lemma active_of_insert: "active_of (bt_insert k b bs) = (active_of bs)(k := bk_active b)"
  by (auto simp: fun_eq_iff active_of_def)

lemma active_of_or_insert:
  "bk_active b = 0 \<Longrightarrow> active_of (bt_or_insert k b bs) = active_of bs"
  by (auto simp: fun_eq_iff active_of_def bt_get_or_insert or_else_def split: option.splits)

lemma active_of_the: "bt_get bs k \<noteq> None \<Longrightarrow> bk_active (the (bt_get bs k)) = active_of bs k"
  by (auto simp: active_of_def)

lemma length_bt_or_insert: "bt_sorted m \<Longrightarrow>
    length (bt_or_insert k v m) = (if bt_get m k = None then Suc (length m) else length m)"
  by (auto simp: bt_or_insert_def length_bt_insert split: option.split)

text \<open>Looking a bucket up with \<open>entry().or_insert\<close> and writing it back with its counter unchanged.\<close>

lemma rebucket:
  assumes "bt_sorted bs" and "bk_active new = 0"
    and "bk_active b = bk_active (the (bt_get (bt_or_insert k new bs) k))"
  shows "bt_sorted (bt_insert k b (bt_or_insert k new bs))"
    and "active_of (bt_insert k b (bt_or_insert k new bs)) = active_of bs"
    and "length (bt_insert k b (bt_or_insert k new bs)) = length (bt_or_insert k new bs)"
proof -
  have get: "bt_get (bt_or_insert k new bs) k \<noteq> None" by (auto simp: bt_get_or_insert)
  from assms show "bt_sorted (bt_insert k b (bt_or_insert k new bs))"
    by (simp add: bt_sorted_insert bt_sorted_or_insert)
  from assms active_of_the [OF get]
  show "active_of (bt_insert k b (bt_or_insert k new bs)) = active_of bs"
    by (simp add: active_of_insert active_of_or_insert)
  from assms get show "length (bt_insert k b (bt_or_insert k new bs)) = length (bt_or_insert k new bs)"
    by (simp add: length_bt_insert bt_sorted_or_insert)
qed

lemma check_concurrency_effect:
  assumes "check_concurrency now cap conc key bs = (res, bs')" and "bt_sorted bs"
  shows "bt_sorted bs'" and "active_of bs' = active_of bs"
    and "length bs \<le> cap \<Longrightarrow> length bs' \<le> cap"
    and "res = Inr (Some k) \<Longrightarrow>
      \<exists>c. conc = Some c \<and> k = key c \<and> bt_get bs' k \<noteq> None \<and> active_of bs k < conc_limit c"
proof -
  let ?b = "\<lparr>tokens = 0, bk_active = 0, touched = now\<rparr>"
  have get: "bt_get (bt_or_insert k ?b bs) k \<noteq> None" for k
    by (auto simp: bt_get_or_insert)
  have active: "bk_active (the (bt_get (bt_or_insert k ?b bs) k)) = active_of bs k" for k
    using active_of_the [OF get] by (simp add: active_of_or_insert)
  have "bt_sorted bs' \<and> active_of bs' = active_of bs \<and> (length bs \<le> cap \<longrightarrow> length bs' \<le> cap)
    \<and> (res = Inr (Some k) \<longrightarrow>
         (\<exists>c. conc = Some c \<and> k = key c \<and> bt_get bs' k \<noteq> None \<and> active_of bs k < conc_limit c))"
  proof (cases conc)
    case None
    with assms show ?thesis by (auto simp: check_concurrency_def)
  next
    case (Some c)
    with assms get [of "key c"] active [of "key c"] show ?thesis
      by (auto simp: check_concurrency_def Let_def active_of_or_insert bt_sorted_or_insert
          length_bt_or_insert split: if_splits)
  qed
  then show "bt_sorted bs'" "active_of bs' = active_of bs" "length bs \<le> cap \<Longrightarrow> length bs' \<le> cap"
    "res = Inr (Some k) \<Longrightarrow>
      \<exists>c. conc = Some c \<and> k = key c \<and> bt_get bs' k \<noteq> None \<and> active_of bs k < conc_limit c"
    by blast+
qed

lemma check_rate_effect:
  assumes "check_rate rnd now cap rate key bs = (res, bs')" and "bt_sorted bs"
  shows "bt_sorted bs'" and "active_of bs' = active_of bs"
    and "length bs \<le> cap \<Longrightarrow> length bs' \<le> cap"
    and "bt_get bs k \<noteq> None \<Longrightarrow> bt_get bs' k \<noteq> None"
proof -
  have "bt_sorted bs' \<and> active_of bs' = active_of bs \<and> (length bs \<le> cap \<longrightarrow> length bs' \<le> cap)
    \<and> (bt_get bs k \<noteq> None \<longrightarrow> bt_get bs' k \<noteq> None)"
  proof (cases "rate = None \<or> (bt_get bs (key (the rate)) = None \<and> cap \<le> length bs)")
    case True
    with assms show ?thesis by (cases rate) (auto simp: check_rate_def Let_def)
  next
    case False
    then obtain r where r: "rate = Some r" by auto
    let ?new = "\<lparr>tokens = of_nat (burst r), bk_active = 0, touched = now\<rparr> :: bucket"
    let ?bs1 = "bt_or_insert (key r) ?new bs"
    let ?b = "refill rnd r now (the (bt_get ?bs1 (key r)))"
    have "bs' = bt_insert (key r) ?b ?bs1 \<or>
        bs' = bt_insert (key r) (?b\<lparr>tokens := rnd (tokens ?b - 1)\<rparr>) ?bs1"
      using False assms(1) by (auto simp: r check_rate_def Let_def split: if_splits)
    then obtain b where b: "bs' = bt_insert (key r) b ?bs1"
      and "bk_active b = bk_active (the (bt_get ?bs1 (key r)))"
      by (auto simp: refill_def)
    with rebucket [OF assms(2), of ?new b "key r"]
    have "bt_sorted bs'" "active_of bs' = active_of bs" "length bs' = length ?bs1" by simp_all
    with False r assms(2) b show ?thesis
      by (auto simp: length_bt_or_insert bt_get_or_insert)
  qed
  then show "bt_sorted bs'" "active_of bs' = active_of bs" "length bs \<le> cap \<Longrightarrow> length bs' \<le> cap"
    "bt_get bs k \<noteq> None \<Longrightarrow> bt_get bs' k \<noteq> None"
    by blast+
qed

section \<open>Permits are accounted for\<close>

definition lim_active :: "limiter \<Rightarrow> string \<Rightarrow> nat" where
  "lim_active l = active_of (buckets l)"

definition lim_invar :: "limiter \<Rightarrow> bool" where
  "lim_invar l \<longleftrightarrow> bt_sorted (buckets l)"

type_synonym acquire_arg = "instant \<times> string \<times> policy \<times> request_data \<times> (string, string) btree"

definition lim_acquire ::
  "(string \<Rightarrow> string) \<Rightarrow> (policy \<Rightarrow> string) \<Rightarrow> (rat \<Rightarrow> rat) \<Rightarrow> acquire_arg \<Rightarrow> limiter
     \<Rightarrow> string option \<times> limiter" where
  "lim_acquire sha256 policy_json rnd a l =
     (case a of (now, route, p, request, claims) \<Rightarrow>
        (case acquire sha256 policy_json rnd now route p request claims l of
           (Inl _, l') \<Rightarrow> (None, l')
         | (Inr k, l') \<Rightarrow> (k, l')))"

fun lim_limit :: "acquire_arg \<Rightarrow> nat" where
  "lim_limit (now, route, p, request, claims) =
     (case pol_concurrency p of None \<Rightarrow> 0 | Some c \<Rightarrow> conc_limit c)"

lemma grant_effect:
  assumes "bt_sorted bs" and "\<And>j. k = Some j \<Longrightarrow> bt_get bs j \<noteq> None"
  shows "bt_sorted (grant now k bs)"
    and "active_of (grant now k bs) =
      (case k of None \<Rightarrow> active_of bs | Some j \<Rightarrow> (active_of bs)(j := active_of bs j + 1))"
    and "length (grant now k bs) = length bs"
  using assms
  by (auto simp: grant_def Let_def bt_sorted_insert active_of_insert active_of_the length_bt_insert
      split: option.split)

lemma acquire_effect:
  assumes acq: "acquire sha256 policy_json rnd now route p request claims l = (res, l')"
    and inv: "bt_sorted (buckets l)"
  shows "bt_sorted (buckets l')" and "capacity l' = capacity l"
    and "length (buckets l) \<le> capacity l \<Longrightarrow> length (buckets l') \<le> capacity l"
    and "res = Inr (Some k) \<Longrightarrow> active_of (buckets l') = (active_of (buckets l))(k := active_of (buckets l) k + 1)
      \<and> (\<exists>c. pol_concurrency p = Some c \<and> active_of (buckets l) k < conc_limit c)"
    and "(\<nexists>k. res = Inr (Some k)) \<Longrightarrow> active_of (buckets l') = active_of (buckets l)"
proof -
  let ?key = "bucket_key sha256 policy_json route p request claims"
  let ?cap = "capacity l"
  define bs0 where "bs0 = sweep now ?cap (buckets l)"
  obtain conc bs1 where c: "check_concurrency now ?cap (pol_concurrency p)
      (\<lambda>c. ?key ''concurrency'' (conc_key c)) bs0 = (conc, bs1)" by fastforce
  obtain rate bs2 where r: "check_rate rnd now ?cap (pol_rate p)
      (\<lambda>r. ?key ''rate'' (rate_key r)) bs1 = (rate, bs2)" by fastforce
  have s0: "bt_sorted bs0" "active_of bs0 = active_of (buckets l)" "length bs0 \<le> length (buckets l)"
    using inv by (simp_all add: bs0_def sweep_sorted sweep_active sweep_length)
  note s1 = check_concurrency_effect [OF c s0(1)]
  note s2 = check_rate_effect [OF r s1(1)]
  have s3: "bt_sorted (grant now pk bs2) \<and> length (grant now pk bs2) = length bs2
      \<and> active_of (grant now pk bs2) = (case pk of None \<Rightarrow> active_of (buckets l)
          | Some j \<Rightarrow> (active_of (buckets l))(j := active_of (buckets l) j + 1))"
    if "conc = Inr pk" for pk
  proof -
    have "pk = Some j \<Longrightarrow> bt_get bs2 j \<noteq> None" for j
      using s1(4) [of j] s2(4) [of j] that by blast
    with grant_effect [OF s2(1), of pk now] s2(2) s1(2) s0(2) show ?thesis
      by (cases pk) simp_all
  qed
  consider (none) "pol_rate p = None" "pol_concurrency p = None" "res = Inr None" "l' = l"
    | (conc) code where "conc = Inl code" "res = Inl code" "l' = l\<lparr>buckets := bs1\<rparr>"
    | (rate) code pk where "conc = Inr pk" "res = Inl code" "l' = l\<lparr>buckets := bs2\<rparr>"
    | (ok) pk where "conc = Inr pk" "res = Inr pk" "l' = l\<lparr>buckets := grant now pk bs2\<rparr>"
    using acq by (auto simp: acquire_def Let_def bs0_def [symmetric] c r split: if_splits sum.splits)
  then have "bt_sorted (buckets l') \<and> capacity l' = capacity l
    \<and> (length (buckets l) \<le> capacity l \<longrightarrow> length (buckets l') \<le> capacity l)
    \<and> (res = Inr (Some k) \<longrightarrow>
        active_of (buckets l') = (active_of (buckets l))(k := active_of (buckets l) k + 1)
        \<and> (\<exists>c. pol_concurrency p = Some c \<and> active_of (buckets l) k < conc_limit c))
    \<and> ((\<nexists>k. res = Inr (Some k)) \<longrightarrow> active_of (buckets l') = active_of (buckets l))"
  proof cases
    case ok
    with s3 [OF ok(1)] s0 s1 s2 show ?thesis by (cases pk) auto
  qed (use inv s0 s1 s2 in auto)
  then show "bt_sorted (buckets l')" "capacity l' = capacity l"
    "length (buckets l) \<le> capacity l \<Longrightarrow> length (buckets l') \<le> capacity l"
    "res = Inr (Some k) \<Longrightarrow> active_of (buckets l') = (active_of (buckets l))(k := active_of (buckets l) k + 1)
      \<and> (\<exists>c. pol_concurrency p = Some c \<and> active_of (buckets l) k < conc_limit c)"
    "(\<nexists>k. res = Inr (Some k)) \<Longrightarrow> active_of (buckets l') = active_of (buckets l)"
    by blast+
qed

lemma permit_drop_effect:
  assumes "bt_sorted (buckets l)"
  shows "bt_sorted (buckets (permit_drop now k l))"
    and "active_of (buckets (permit_drop now k l)) = (active_of (buckets l))(k := active_of (buckets l) k - 1)"
  using assms
  by (auto simp: permit_drop_def bt_sorted_insert active_of_insert fun_eq_iff
      split: option.split) (auto simp: active_of_def)

interpretation lim: bounded_leases lim_invar "\<lambda>k. k" lim_active "lim_acquire sha256 policy_json rnd"
    permit_drop lim_limit for sha256 policy_json rnd
proof unfold_locales
  fix s :: limiter and a res s'
  assume inv: "lim_invar s" and acq: "lim_acquire sha256 policy_json rnd a s = (res, s')"
  obtain now route p request claims where a: "a = (now, route, p, request, claims)" by (cases a)
  obtain r where r: "acquire sha256 policy_json rnd now route p request claims s = (r, s')"
    and res: "res = (case r of Inl _ \<Rightarrow> None | Inr k \<Rightarrow> k)"
    using acq by (auto simp: lim_acquire_def a split: prod.splits sum.splits)
  note eff = acquire_effect [OF r inv [unfolded lim_invar_def]]
  show "lim_invar s'" using eff(1) by (simp add: lim_invar_def)
qed (auto simp: lim_invar_def lim_active_def lim_acquire_def permit_drop_effect
    dest: acquire_effect split: prod.splits sum.splits option.splits)

section \<open>Token buckets\<close>

text \<open>
  What the theorems need of IEEE 754 rounding to nearest: it is monotone, exact on small integers, and off by at most half a unit in
  the last place, relative for normal numbers and absolute for subnormal ones.
\<close>

definition f64_rounding :: "(rat \<Rightarrow> rat) \<Rightarrow> bool" where
  "f64_rounding rnd \<longleftrightarrow> (\<forall>x y. x \<le> y \<longrightarrow> rnd x \<le> rnd y) \<and> (\<forall>n\<le>2 ^ 53. rnd (of_nat n) = of_nat n)
     \<and> (\<forall>x. 0 \<le> x \<and> x \<le> 2 ^ 1023 \<longrightarrow> \<bar>rnd x - x\<bar> \<le> x / 2 ^ 53 + 1 / 2 ^ 1075)"

lemma f64_rounding_nonneg: "f64_rounding rnd \<Longrightarrow> 0 \<le> x \<Longrightarrow> 0 \<le> rnd x"
proof -
  assume "f64_rounding rnd" and "0 \<le> x"
  then have "rnd 0 \<le> rnd x" and "rnd (of_nat 0) = of_nat 0"
    unfolding f64_rounding_def by (blast, blast intro: le0)
  then show "0 \<le> rnd x" by simp
qed

lemma as_secs_f64_nonneg: "f64_rounding rnd \<Longrightarrow> 0 \<le> as_secs_f64 rnd d"
  by (simp add: as_secs_f64_def f64_rounding_nonneg)

lemma refill_bounds:
  assumes "f64_rounding rnd" and "0 \<le> tokens b"
  shows "0 \<le> tokens (refill rnd r now b)" and "tokens (refill rnd r now b) \<le> of_nat (burst r)"
  using assms by (simp_all add: refill_def f64_rounding_nonneg as_secs_f64_nonneg)

definition tokens_nonneg :: "(string, bucket) btree \<Rightarrow> bool" where
  "tokens_nonneg bs \<longleftrightarrow> (\<forall>b\<in>set (bt_values bs). 0 \<le> tokens b)"

lemma set_bt_insert: "set (bt_insert k v m) \<subseteq> insert (k, v) (set m)"
  by (induction m) auto

lemma tokens_nonneg_insert: "tokens_nonneg bs \<Longrightarrow> 0 \<le> tokens b \<Longrightarrow> tokens_nonneg (bt_insert k b bs)"
  using set_bt_insert [of k b bs] by (fastforce simp: tokens_nonneg_def bt_values_def)

lemma tokens_nonneg_or_insert:
  "tokens_nonneg bs \<Longrightarrow> 0 \<le> tokens b \<Longrightarrow> tokens_nonneg (bt_or_insert k b bs)"
  by (simp add: bt_or_insert_def tokens_nonneg_insert split: option.split)

lemma tokens_nonneg_get: "tokens_nonneg bs \<Longrightarrow> bt_get bs k = Some b \<Longrightarrow> 0 \<le> tokens b"
  by (force simp: tokens_nonneg_def bt_values_def dest: map_of_SomeD)

lemma tokens_nonneg_sweep: "tokens_nonneg bs \<Longrightarrow> tokens_nonneg (sweep now cap bs)"
  by (auto simp: tokens_nonneg_def bt_values_def sweep_def)

lemma tokens_nonneg_concurrency:
  "tokens_nonneg bs \<Longrightarrow> check_concurrency now cap conc key bs = (res, bs') \<Longrightarrow> tokens_nonneg bs'"
  by (auto simp: check_concurrency_def Let_def tokens_nonneg_or_insert split: option.splits if_splits)

lemma tokens_nonneg_rate:
  assumes "f64_rounding rnd" and nonneg: "tokens_nonneg bs"
    and "check_rate rnd now cap rate key bs = (res, bs')"
    and u32: "\<And>q. rate = Some q \<Longrightarrow> burst q < 2 ^ 32"
  shows "tokens_nonneg bs'"
    and "res \<noteq> Inl 503 \<Longrightarrow> rate = Some r \<Longrightarrow> \<exists>b. bt_get bs' (key r) = Some b \<and> 0 \<le> tokens b
      \<and> tokens b \<le> of_nat (burst r) \<and> (res = Inl 429 \<longrightarrow> tokens b < 1)"
proof -
  have "tokens_nonneg bs' \<and> (res \<noteq> Inl 503 \<longrightarrow> rate = Some r \<longrightarrow>
      (\<exists>b. bt_get bs' (key r) = Some b \<and> 0 \<le> tokens b \<and> tokens b \<le> of_nat (burst r)
        \<and> (res = Inl 429 \<longrightarrow> tokens b < 1)))"
  proof (cases rate)
    case None
    with assms(2,3) show ?thesis by (auto simp: check_rate_def)
  next
    case (Some q)
    let ?new = "\<lparr>tokens = of_nat (burst q), bk_active = 0, touched = now\<rparr> :: bucket"
    let ?bs1 = "bt_or_insert (key q) ?new bs"
    let ?b = "refill rnd q now (the (bt_get ?bs1 (key q)))"
    have bs1: "tokens_nonneg ?bs1" using nonneg by (simp add: tokens_nonneg_or_insert)
    have "0 \<le> tokens (the (bt_get ?bs1 (key q)))"
      using tokens_nonneg_get [OF nonneg, of "key q"]
      by (auto simp: bt_get_or_insert or_else_def split: option.split)
    note b = refill_bounds [OF assms(1) this, of q now]
    have minus: "0 \<le> rnd (tokens ?b - 1)" "rnd (tokens ?b - 1) \<le> of_nat (burst q)"
      if "\<not> tokens ?b < 1"
    proof -
      show "0 \<le> rnd (tokens ?b - 1)" using that assms(1) by (simp add: f64_rounding_nonneg)
      show "rnd (tokens ?b - 1) \<le> of_nat (burst q)"
      proof -
        have "rnd (tokens ?b - 1) \<le> rnd (of_nat (burst q))"
          using b(2) assms(1) by (simp add: f64_rounding_def)
        also have "\<dots> = of_nat (burst q)"
        proof -
          have "burst q \<le> 2 ^ 53" using u32 [OF Some] by simp
          with assms(1) show ?thesis by (simp only: f64_rounding_def)
        qed
        finally show ?thesis .
      qed
    qed
    show ?thesis
      using assms(3) Some b bs1 minus nonneg
      by (auto simp: check_rate_def Let_def tokens_nonneg_insert split: if_splits)
  qed
  then show "tokens_nonneg bs'"
    and "res \<noteq> Inl 503 \<Longrightarrow> rate = Some r \<Longrightarrow> \<exists>b. bt_get bs' (key r) = Some b \<and> 0 \<le> tokens b
      \<and> tokens b \<le> of_nat (burst r) \<and> (res = Inl 429 \<longrightarrow> tokens b < 1)"
    by blast+
qed

lemma acquire_tokens:
  assumes "f64_rounding rnd" and "tokens_nonneg (buckets l)"
    and u32: "\<And>r. pol_rate p = Some r \<Longrightarrow> burst r < 2 ^ 32"
    and sorted: "bt_sorted (buckets l)"
    and acq: "acquire sha256 policy_json rnd now route p request claims l = (res, l')"
  shows "tokens_nonneg (buckets l')"
    and "res = Inl 429 \<Longrightarrow> \<exists>r b. pol_rate p = Some r
      \<and> bt_get (buckets l') (bucket_key sha256 policy_json route p request claims ''rate'' (rate_key r)) = Some b
      \<and> 0 \<le> tokens b \<and> tokens b < 1"
proof -
  let ?key = "bucket_key sha256 policy_json route p request claims"
  define bs0 where "bs0 = sweep now (capacity l) (buckets l)"
  obtain conc bs1 where c: "check_concurrency now (capacity l) (pol_concurrency p)
      (\<lambda>c. ?key ''concurrency'' (conc_key c)) bs0 = (conc, bs1)" by fastforce
  obtain rate bs2 where r: "check_rate rnd now (capacity l) (pol_rate p)
      (\<lambda>r. ?key ''rate'' (rate_key r)) bs1 = (rate, bs2)" by fastforce
  have n0: "tokens_nonneg bs0" using assms(2) by (simp add: bs0_def tokens_nonneg_sweep)
  have n1: "tokens_nonneg bs1" using tokens_nonneg_concurrency [OF n0 c] .
  note n2 = tokens_nonneg_rate [OF assms(1) n1 r u32]
  have conc_codes: "conc = Inl code \<Longrightarrow> code = 503" for code
    using c by (auto simp: check_concurrency_def Let_def split: option.splits if_splits)
  have rate_codes: "rate = Inl code \<Longrightarrow> pol_rate p \<noteq> None" for code
    using r by (auto simp: check_rate_def split: option.splits)
  have grant: "tokens_nonneg (grant now pk bs2)" if "conc = Inr pk" for pk
  proof (cases pk)
    case (Some k)
    have "bt_sorted bs0" using sorted by (simp add: bs0_def sweep_sorted)
    with check_concurrency_effect [OF c this] check_rate_effect(4) [OF r] that Some
    have "bt_get bs2 k \<noteq> None" by blast
    then show ?thesis
      using n2(1) Some tokens_nonneg_get by (fastforce simp: grant_def Let_def intro!: tokens_nonneg_insert)
  qed (simp add: grant_def n2)
  show "tokens_nonneg (buckets l')"
    using acq assms(2) n1 n2(1) grant
    by (auto simp: acquire_def Let_def bs0_def [symmetric] c r split: if_splits sum.splits)
  show "res = Inl 429 \<Longrightarrow> \<exists>r b. pol_rate p = Some r
      \<and> bt_get (buckets l') (?key ''rate'' (rate_key r)) = Some b \<and> 0 \<le> tokens b \<and> tokens b < 1"
    using acq conc_codes rate_codes n2(2)
    by (fastforce simp: acquire_def Let_def bs0_def [symmetric] c r split: if_splits sum.splits)
qed

section \<open>Rate conformance\<close>

text \<open>Requests under one policy of one route at the given times, each with its claims: how many are admitted.\<close>

type_synonym arrival = "instant \<times> request_data \<times> (string, string) btree"

fun admitted ::
  "(string \<Rightarrow> string) \<Rightarrow> (policy \<Rightarrow> string) \<Rightarrow> (rat \<Rightarrow> rat) \<Rightarrow> string \<Rightarrow> policy \<Rightarrow> arrival list \<Rightarrow> limiter \<Rightarrow> nat" where
  "admitted sha256 policy_json rnd route p [] l = 0"
| "admitted sha256 policy_json rnd route p ((t, request, claims) # as) l =
     (case acquire sha256 policy_json rnd t route p request claims l of (res, l') \<Rightarrow>
        (if is_ok res then 1 else 0) + admitted sha256 policy_json rnd route p as l')"

definition rate_bucket ::
  "(string \<Rightarrow> string) \<Rightarrow> (policy \<Rightarrow> string) \<Rightarrow> string \<Rightarrow> policy \<Rightarrow> request_data
     \<Rightarrow> (string, string) btree \<Rightarrow> rate \<Rightarrow> string" where
  "rate_bucket sha256 policy_json route p request claims r =
     bucket_key sha256 policy_json route p request claims ''rate'' (rate_key r)"

text \<open>The table has room: no bucket is evicted to make place while the requests arrive.\<close>

definition roomy :: "limiter \<Rightarrow> string \<Rightarrow> bool" where
  "roomy l k \<longleftrightarrow> (if bt_get (buckets l) k = None then length (buckets l) + 1 < capacity l
     else length (buckets l) < capacity l)"

lemma acquire_rate_only:
  assumes p: "pol_rate p = Some r" "pol_concurrency p = None" and room: "roomy l k"
    and k: "k = rate_bucket sha256 policy_json route p request claims r"
    and old: "old = (case bt_get (buckets l) k of
        None \<Rightarrow> \<lparr>tokens = of_nat (burst r), bk_active = 0, touched = t\<rparr> | Some b \<Rightarrow> b)"
    and b: "b = refill rnd r t old"
  shows "\<exists>bs. acquire sha256 policy_json rnd t route p request claims l =
      (if tokens b < 1 then (Inl 429, l\<lparr>buckets := bt_insert k b bs\<rparr>)
       else (Inr None, l\<lparr>buckets := bt_insert k (b\<lparr>tokens := rnd (tokens b - 1)\<rparr>) bs\<rparr>))
     \<and> bs = bt_or_insert k \<lparr>tokens = of_nat (burst r), bk_active = 0, touched = t\<rparr> (buckets l)"
proof -
  have "length (buckets l) < capacity l" using room by (auto simp: roomy_def split: if_splits)
  moreover have "the (bt_get (bt_or_insert k \<lparr>tokens = of_nat (burst r), bk_active = 0, touched = t\<rparr>
      (buckets l)) k) = old"
    by (auto simp: old bt_get_or_insert or_else_def split: option.split)
  ultimately show ?thesis
    using p b by (simp add: acquire_def sweep_def check_concurrency_def check_rate_def Let_def grant_def
        k [unfolded rate_bucket_def, symmetric])
qed

lemma roomy_after:
  assumes "roomy l k" and "bt_sorted (buckets l)"
    and "l' = l\<lparr>buckets := bt_insert k b (bt_or_insert k new (buckets l))\<rparr>"
  shows "roomy l' k" and "bt_sorted (buckets l')" and "bt_get (buckets l') k = Some b"
  using assms
  by (auto simp: roomy_def length_bt_insert bt_sorted_insert bt_sorted_or_insert bt_get_or_insert
      length_bt_or_insert split: if_splits)

text \<open>
  One rounded operation: \<open>u\<close> is the relative and \<open>v\<close> the absolute error. The elapsed time in seconds and the tokens it is worth are
  computed with four roundings.
\<close>

definition rel_error :: rat where "rel_error = 1 / 2 ^ 53"

definition abs_error :: rat where "abs_error = 1 / 2 ^ 1075"

lemma error_small: "0 \<le> rel_error" "rel_error \<le> 1 / 8" "0 \<le> abs_error" "abs_error \<le> 1 / 2 ^ 100"
proof -
  have "(2 :: rat) ^ 100 \<le> 2 ^ 1075" by (rule power_increasing) simp_all
  then show "abs_error \<le> 1 / 2 ^ 100" unfolding abs_error_def by (intro divide_left_mono) simp_all
qed (simp_all add: rel_error_def abs_error_def)

lemma rounded_le:
  assumes "f64_rounding rnd" "0 \<le> x" "x \<le> y" "y \<le> 2 ^ 200"
  shows "rnd x \<le> y * (1 + rel_error) + abs_error"
proof -
  have "x \<le> 2 ^ 1023" using assms(3,4) power_increasing [of 200 1023 "2 :: rat"] by linarith
  with assms(1,2) have "\<bar>rnd x - x\<bar> \<le> x / 2 ^ 53 + 1 / 2 ^ 1075" unfolding f64_rounding_def by blast
  then have "\<bar>rnd x - x\<bar> \<le> x * rel_error + abs_error" by (simp add: rel_error_def abs_error_def)
  moreover have "x * rel_error \<le> y * rel_error" using assms(3) error_small(1) by (rule mult_right_mono)
  ultimately show ?thesis using assms(3) by (simp add: algebra_simps)
qed

lemma three_roundings:
  fixes u v e n :: rat
  assumes "0 \<le> u" "u \<le> 1 / 8" "0 \<le> v" "v \<le> 1 / 2 ^ 100" "0 \<le> e" "0 \<le> n" "n \<le> 1000000"
  shows "((e * (1 + u) + 2 * v) * (1 + u) + v) * n * (1 + u) + v \<le> n * e * (1 + 4 * u) + 1 / 2 ^ 60"
proof -
  have "u * u \<le> u * (1 / 8)" using assms by (intro mult_left_mono) simp_all
  then have sq: "u * u \<le> u / 8" by simp
  then have "u * u * u \<le> u / 8 * (1 / 8)" using assms by (intro mult_mono) simp_all
  with sq assms(1) have "u * u * u + 3 * (u * u) \<le> u" by linarith
  moreover have "(1 + u) * (1 + u) * (1 + u) = 1 + 3 * u + (u * u * u + 3 * (u * u))" by (simp add: algebra_simps)
  ultimately have cube: "(1 + u) * (1 + u) * (1 + u) \<le> 1 + 4 * u" by linarith
  have "n * e * ((1 + u) * (1 + u) * (1 + u)) \<le> n * e * (1 + 4 * u)"
    using cube assms by (intro mult_left_mono) simp_all
  moreover have "(2 * v * (1 + u) + v) * n * (1 + u) \<le> (4 * v) * 1000000 * 2"
  proof (intro mult_mono)
    have "v * u \<le> v * (1 / 8)" using assms by (intro mult_left_mono) simp_all
    then show "2 * v * (1 + u) + v \<le> 4 * v" using assms by (simp add: algebra_simps)
  qed (use assms in simp_all)
  moreover have "(4 * v) * 1000000 * 2 + v \<le> 1 / 2 ^ 60" using assms(4) by simp
  ultimately show ?thesis by (simp add: algebra_simps)
qed

lemma earned_le:
  assumes rnd: "f64_rounding rnd" and d: "d < 2 ^ 64 * 1000000000" and r: "per_second r \<le> 1000000"
  shows "rnd (as_secs_f64 rnd d * of_nat (per_second r))
    \<le> of_nat (per_second r) * (of_nat d / 1000000000) * (1 + 4 * rel_error) + 1 / 2 ^ 60"
proof -
  let ?u = rel_error and ?v = abs_error
  define q f e n :: rat where "q = of_nat (d div 1000000000)" and "f = of_nat (d mod 1000000000) / 1000000000"
    and "e = of_nat d / 1000000000" and "n = of_nat (per_second r)"
  have "(of_nat d :: rat) = of_nat (1000000000 * (d div 1000000000) + d mod 1000000000)" by simp
  also have "\<dots> = 1000000000 * of_nat (d div 1000000000) + of_nat (d mod 1000000000)"
    by (simp only: of_nat_add of_nat_mult of_nat_numeral)
  finally have e: "e = q + f" by (simp add: q_def f_def e_def field_simps)
  have "(of_nat d :: rat) \<le> of_nat (2 ^ 64 * 1000000000)" using d by (intro of_nat_mono) simp
  then have small: "0 \<le> q" "0 \<le> f" "e \<le> 2 ^ 64" "0 \<le> n" "n \<le> 1000000"
    using r of_nat_mono [of "per_second r" 1000000, where ?'a = rat] by (simp_all add: q_def f_def e_def n_def)
  have up: "y * (1 + ?u) \<le> 2 * y" if "0 \<le> y" for y
  proof -
    have "y * (1 + ?u) \<le> y * 2" using error_small that by (intro mult_left_mono) simp_all
    then show ?thesis by simp
  qed
  have "rnd q \<le> q * (1 + ?u) + ?v" "rnd f \<le> f * (1 + ?u) + ?v"
    using small e by (auto intro!: rounded_le [OF rnd])
  then have sum: "rnd q + rnd f \<le> e * (1 + ?u) + 2 * ?v" by (simp add: e algebra_simps)
  have nonneg: "0 \<le> rnd q" "0 \<le> rnd f" using rnd small by (simp_all add: f64_rounding_nonneg)
  let ?y1 = "e * (1 + ?u) + 2 * ?v"
  have y1: "?y1 \<le> 2 ^ 66" "0 \<le> ?y1" using up [of e] small e error_small sum nonneg by simp_all
  then have secs: "rnd (rnd q + rnd f) \<le> ?y1 * (1 + ?u) + ?v"
    using sum nonneg by (intro rounded_le [OF rnd]) simp_all
  let ?y2 = "?y1 * (1 + ?u) + ?v"
  have y2: "?y2 \<le> 2 ^ 68" using up [OF y1(2)] y1(1) error_small(4) by simp
  have pos: "0 \<le> rnd (rnd q + rnd f)" using rnd nonneg by (simp add: f64_rounding_nonneg)
  have "?y2 * n \<le> 2 ^ 68 * 1000000" using y2 small secs pos by (intro mult_mono) simp_all
  then have "rnd (rnd (rnd q + rnd f) * n) \<le> ?y2 * n * (1 + ?u) + ?v"
    using pos small(4) by (intro rounded_le [OF rnd _ mult_right_mono [OF secs small(4)]]) simp_all
  also have "\<dots> \<le> n * e * (1 + 4 * ?u) + 1 / 2 ^ 60"
    using error_small small e by (intro three_roundings) simp_all
  finally show ?thesis by (simp add: as_secs_f64_def q_def f_def e_def n_def)
qed

text \<open>Tokens in the bucket plus tokens spent grow at most at the configured rate, up to the rounding of each request.\<close>

lemma refill_le:
  assumes rnd: "f64_rounding rnd" and "t - touched b < 2 ^ 64 * 1000000000" and r: "per_second r \<le> 1000000" "1 \<le> burst r" "burst r \<le> 1000000"
    and b: "0 \<le> tokens b"
  shows "tokens (refill rnd r t b) \<le> tokens b + of_nat (per_second r) * (of_nat (t - touched b) / 1000000000) * (1 + 4 * rel_error)
    + of_nat (burst r) * rel_error + 1 / 2 ^ 59"
    and "0 \<le> tokens (refill rnd r t b)" and "tokens (refill rnd r t b) \<le> of_nat (burst r)"
    and "1 \<le> tokens (refill rnd r t b) \<Longrightarrow>
      rnd (tokens (refill rnd r t b) - 1) \<le> tokens (refill rnd r t b) - 1 + of_nat (burst r) * rel_error + 1 / 2 ^ 59
      \<and> 0 \<le> rnd (tokens (refill rnd r t b) - 1)"
proof -
  define B where "B = (of_nat (burst r) :: rat)"
  have B: "1 \<le> B" "B \<le> 1000000"
    using r(2,3) of_nat_mono [of 1 "burst r", where ?'a = rat] of_nat_mono [of "burst r" 1000000, where ?'a = rat]
    by (simp_all add: B_def)
  define g where "g = rnd (as_secs_f64 rnd (t - touched b) * of_nat (per_second r))"
  have g: "g \<le> of_nat (per_second r) * (of_nat (t - touched b) / 1000000000) * (1 + 4 * rel_error) + 1 / 2 ^ 60" "0 \<le> g"
    using earned_le [OF rnd assms(2) r(1)] rnd by (simp_all add: g_def f64_rounding_nonneg as_secs_f64_nonneg)
  have tok: "tokens (refill rnd r t b) = min (rnd (tokens b + g)) B"
    by (simp add: refill_def duration_since_def g_def B_def)
  have tiny: "abs_error \<le> 1 / 2 ^ 60" using error_small(4) by simp
  show bounds: "0 \<le> tokens (refill rnd r t b)" "tokens (refill rnd r t b) \<le> of_nat (burst r)"
    using refill_bounds [OF rnd b] by simp_all
  have round: "rnd x \<le> x + B * rel_error + abs_error" if "0 \<le> x" "x \<le> B" for x
  proof -
    have "rnd x \<le> x * (1 + rel_error) + abs_error" using that B by (intro rounded_le [OF rnd]) simp_all
    moreover have "x * rel_error \<le> B * rel_error" using that error_small by (intro mult_right_mono)
    ultimately show ?thesis by (simp add: algebra_simps)
  qed
  have "min (rnd (tokens b + g)) B \<le> tokens b + g + B * rel_error + abs_error"
  proof (cases "tokens b + g \<le> B")
    case True
    with round [of "tokens b + g"] b g(2) show ?thesis by simp
  next
    case False
    moreover have "0 \<le> B * rel_error" using B error_small by simp
    ultimately show ?thesis using error_small by simp
  qed
  with g(1) tiny show "tokens (refill rnd r t b) \<le> tokens b + of_nat (per_second r) * (of_nat (t - touched b) / 1000000000)
      * (1 + 4 * rel_error) + of_nat (burst r) * rel_error + 1 / 2 ^ 59"
    unfolding tok B_def by simp
  show "rnd (tokens (refill rnd r t b) - 1) \<le> tokens (refill rnd r t b) - 1 + of_nat (burst r) * rel_error + 1 / 2 ^ 59
      \<and> 0 \<le> rnd (tokens (refill rnd r t b) - 1)" if "1 \<le> tokens (refill rnd r t b)"
    using round [of "tokens (refill rnd r t b) - 1"] that bounds tiny rnd by (simp add: B_def f64_rounding_nonneg)
qed

text \<open>What one request costs in rounding: its refill and its deduction are each off by the last place of a number up to the burst.\<close>

definition rounding_slack :: "rate \<Rightarrow> rat" where
  "rounding_slack r = 3 * of_nat (burst r) / 2 ^ 53"

lemma slack_enough: "1 \<le> burst r \<Longrightarrow> 2 * (of_nat (burst r) * rel_error + 1 / 2 ^ 59) \<le> rounding_slack r"
  using of_nat_mono [of 1 "burst r", where ?'a = rat] by (simp add: rounding_slack_def rel_error_def)

definition same_bucket ::
  "(string \<Rightarrow> string) \<Rightarrow> (policy \<Rightarrow> string) \<Rightarrow> string \<Rightarrow> policy \<Rightarrow> rate \<Rightarrow> string \<Rightarrow> arrival \<Rightarrow> bool" where
  "same_bucket sha256 policy_json route p r k = (\<lambda>(t, request, claims). rate_bucket sha256 policy_json route p request claims r = k)"

lemma admitted_le:
  assumes rnd: "f64_rounding rnd" and p: "pol_rate p = Some r" "pol_concurrency p = None"
    and r: "per_second r \<le> 1000000" "1 \<le> burst r" "burst r \<le> 1000000"
    and "list_all (same_bucket sha256 policy_json route p r k) as"
    and "roomy l k" and "bt_sorted (buckets l)"
    and "bt_get (buckets l) k = Some b" and "0 \<le> tokens b" and "sorted (touched b # map fst as)"
    and "last (touched b # map fst as) - touched b < 2 ^ 64 * 1000000000"
  shows "of_nat (admitted sha256 policy_json rnd route p as l)
    \<le> tokens b + of_nat (per_second r) * (of_nat (last (touched b # map fst as) - touched b) / 1000000000) * (1 + 4 * rel_error)
      + of_nat (length as) * rounding_slack r"
  using assms(7-)
proof (induction as arbitrary: l b)
  case (Cons a as)
  obtain t request claims where a: "a = (t, request, claims)" by (cases a)
  let ?b = "refill rnd r t b"
  let ?c = "if tokens ?b < 1 then ?b else ?b\<lparr>tokens := rnd (tokens ?b - 1)\<rparr>"
  obtain res l' where acq: "acquire sha256 policy_json rnd t route p request claims l = (res, l')"
    by fastforce
  have k: "k = rate_bucket sha256 policy_json route p request claims r" using Cons.prems(1) by (simp add: a same_bucket_def)
  have c: "touched ?c = t" "tokens ?c = (if tokens ?b < 1 then tokens ?b else rnd (tokens ?b - 1))" "is_ok res = (\<not> tokens ?b < 1)"
    and l': "\<exists>new. l' = l\<lparr>buckets := bt_insert k ?c (bt_or_insert k new (buckets l))\<rparr>"
    using acquire_rate_only [OF p Cons.prems(2) k refl refl, of rnd t] acq Cons.prems(4)
    by (auto simp: refill_def split: if_splits)
  have le: "touched b \<le> t" "t \<le> last (t # map fst as)" using Cons.prems(6) by (auto simp: a sorted_wrt_append last_map)
  have near: "t - touched b < 2 ^ 64 * 1000000000" "last (t # map fst as) - t < 2 ^ 64 * 1000000000"
    using Cons.prems(7) le by (auto simp: a split: if_splits)
  note b = refill_le [OF rnd near(1) r Cons.prems(5)]
  from l' roomy_after [OF Cons.prems(2,3)]
  have room: "roomy l' k" "bt_sorted (buckets l')" "bt_get (buckets l') k = Some ?c" by blast+
  have "0 \<le> tokens ?c" using c(2) b(2,4) by simp
  with Cons.IH [OF _ room] c(1) Cons.prems(1,6) near(2)
  have IH: "of_nat (admitted sha256 policy_json rnd route p as l')
    \<le> tokens ?c + of_nat (per_second r) * (of_nat (last (t # map fst as) - t) / 1000000000) * (1 + 4 * rel_error)
      + of_nat (length as) * rounding_slack r" by (simp add: a)
  define x y :: rat where "x = of_nat (last (t # map fst as) - t) / 1000000000" and "y = of_nat (t - touched b) / 1000000000"
  have sum: "of_nat (last (touched b # map fst (a # as)) - touched b) / 1000000000 = x + y"
    using le by (simp add: x_def y_def a field_simps flip: of_nat_add)
  have "tokens ?c + (if is_ok res then 1 else 0)
      \<le> tokens b + of_nat (per_second r) * y * (1 + 4 * rel_error) + rounding_slack r"
  proof (cases "tokens ?b < 1")
    case True
    have "0 \<le> of_nat (burst r) * rel_error" using error_small(1) by simp
    with True b(1) c(2,3) slack_enough [OF r(2)] show ?thesis unfolding y_def by simp
  next
    case False
    with b(1,4) c(2,3) slack_enough [OF r(2)] show ?thesis unfolding y_def by simp
  qed
  with IH show ?case
    unfolding sum x_def [symmetric] by (simp add: a acq algebra_simps split: if_splits)
qed simp

section \<open>Properties\<close>

text \<open>
  C4. Over every sequence of acquisitions and permit drops, in any order and whatever policies,
  routes and clock readings they carry, the active counter of each bucket is the number of
  permits outstanding for it (an eviction never loses a counted permit), and no key ever has more
  permits outstanding than the largest concurrency limit used.
\<close>

theorem limiter_permits_accounted:
  assumes "lease_run (lim_acquire sha256 policy_json rnd) permit_drop es (default_limiter, {#}) = (l, held)"
    and "\<forall>a\<in>set (acquire_args es). lim_limit a \<le> L"
  shows "lim_active l = count held \<and> (\<forall>k. count held k \<le> L)"
proof -
  have start: "lim_invar default_limiter" "lim_active default_limiter = count {#k. k \<in># {#}#}"
    by (auto simp: lim_invar_def lim_active_def default_limiter_def active_of_def fun_eq_iff)
  from lim.run_accounts [OF start assms(1)] lim.run_bounded [OF start _ assms(2,1)] show ?thesis
    by simp
qed

text \<open>
  C5. Rate conformance, in the \<open>f64\<close> arithmetic of the code. Of the requests that share a limit key, arriving at times
  \<open>t \<le> \<dots> \<le> last\<close> while the table has room for new keys, a valid rate policy admits at most
  \<open>burst + per_second * (last - t)\<close>, up to the roundings: the time counts a factor \<open>1 + 4 / 2 ^ 53\<close> and each request adds at most
  \<open>3 * burst / 2 ^ 53\<close>. For a billion requests and the largest burst that is less than one request more, whatever the bucket
  held before.
\<close>

theorem limiter_rate_conformance:
  assumes "f64_rounding rnd" and p: "policy_validate p = Inr u" "pol_rate p = Some r" "pol_concurrency p = None"
    and same: "list_all (same_bucket sha256 policy_json route p r k) (a # as)"
    and room: "roomy l k" and sorted: "bt_sorted (buckets l)"
    and nonneg: "\<And>b. bt_get (buckets l) k = Some b \<Longrightarrow> 0 \<le> tokens b"
    and times: "sorted (map fst (a # as))" "last (map fst (a # as)) < 2 ^ 64 * 1000000000"
      "\<And>b. bt_get (buckets l) k = Some b \<Longrightarrow> touched b \<le> fst a"
  shows "of_nat (admitted sha256 policy_json rnd route p (a # as) l)
    \<le> (of_nat (burst r) + of_nat (per_second r) * (of_nat (last (map fst (a # as)) - fst a) / 1000000000) * (1 + 4 / 2 ^ 53)
       + of_nat (length (a # as)) * (3 * of_nat (burst r) / 2 ^ 53) :: rat)"
proof -
  obtain t request claims where a: "a = (t, request, claims)" by (cases a)
  have r: "per_second r \<le> 1000000" "1 \<le> burst r" "burst r \<le> 1000000"
    using p by (auto simp: policy_validate_def result_simps)
  have k: "k = rate_bucket sha256 policy_json route p request claims r" using same by (simp add: a same_bucket_def)
  define old where "old = (case bt_get (buckets l) k of
      None \<Rightarrow> \<lparr>tokens = of_nat (burst r), bk_active = 0, touched = t\<rparr> | Some b \<Rightarrow> b)"
  let ?b = "refill rnd r t old"
  let ?c = "if tokens ?b < 1 then ?b else ?b\<lparr>tokens := rnd (tokens ?b - 1)\<rparr>"
  obtain res l' where acq: "acquire sha256 policy_json rnd t route p request claims l = (res, l')"
    by fastforce
  have l': "\<exists>new. l' = l\<lparr>buckets := bt_insert k ?c (bt_or_insert k new (buckets l))\<rparr>"
    and ok: "is_ok res = (\<not> tokens ?b < 1)"
    using acquire_rate_only [OF p(2,3) room k old_def refl] acq by (auto split: if_splits)
  have le: "t \<le> last (t # map fst as)" using times(1) by (auto simp: a last_map)
  have old: "0 \<le> tokens old" "t - touched old < 2 ^ 64 * 1000000000"
    using nonneg times(2) le by (auto simp: old_def a split: option.split)
  note b = refill_le [OF assms(1) old(2) r old(1)]
  from l' roomy_after [OF room sorted]
  have after: "roomy l' k" "bt_sorted (buckets l')" "bt_get (buckets l') k = Some ?c" by blast+
  have "touched ?b = t" by (simp add: refill_def)
  then have c: "touched ?c = t" "0 \<le> tokens ?c" using b(2,4) by simp_all
  have "of_nat (admitted sha256 policy_json rnd route p as l')
      \<le> tokens ?c + of_nat (per_second r) * (of_nat (last (t # map fst as) - t) / 1000000000) * (1 + 4 * rel_error)
        + of_nat (length as) * rounding_slack r"
    using admitted_le [OF assms(1) p(2,3) r _ after c(2)] same times c(1) by (simp add: a)
  moreover have "tokens ?c + (if is_ok res then 1 else 0) \<le> of_nat (burst r) + rounding_slack r"
  proof (cases "tokens ?b < 1")
    case True
    have "0 \<le> of_nat (burst r) * rel_error" using error_small(1) by simp
    with True b(3) ok slack_enough [OF r(2)] show ?thesis by simp
  next
    case False
    moreover have "0 \<le> of_nat (burst r) * rel_error" using error_small(1) by simp
    ultimately show ?thesis using b(3,4) ok slack_enough [OF r(2)] by simp
  qed
  ultimately have "of_nat (admitted sha256 policy_json rnd route p (a # as) l)
      \<le> of_nat (burst r) + of_nat (per_second r) * (of_nat (last (t # map fst as) - t) / 1000000000) * (1 + 4 * rel_error)
        + of_nat (length (a # as)) * rounding_slack r"
    by (cases "is_ok res") (simp_all add: a acq algebra_simps)
  then show ?thesis by (simp only: a fst_conv list.map rounding_slack_def rel_error_def) (simp only: times_divide_eq_right mult_1_right)
qed

text \<open>
  Every acquisition keeps the limiter well formed: the table never grows beyond its capacity,
  no bucket goes into debt whatever the floating-point rounding, and a request is refused with 429
  only when its bucket holds less than one token after the refill.
\<close>

lemma limiter_stays_bounded:
  assumes "f64_rounding rnd" and "\<And>r. pol_rate p = Some r \<Longrightarrow> burst r < 2 ^ 32"
    and "bt_sorted (buckets l)" and "tokens_nonneg (buckets l)" and "length (buckets l) \<le> capacity l"
    and "acquire sha256 policy_json rnd now route p request claims l = (res, l')"
  shows "bt_sorted (buckets l') \<and> tokens_nonneg (buckets l') \<and> length (buckets l') \<le> capacity l'
    \<and> (res = Inl 429 \<longrightarrow> (\<exists>r b. pol_rate p = Some r \<and> tokens b < 1 \<and>
         bt_get (buckets l') (rate_bucket sha256 policy_json route p request claims r) = Some b))"
  using acquire_effect(1-3) [OF assms(6,3)] acquire_tokens [OF assms(1,4,2,3,6)] assms(5)
  by (auto simp: rate_bucket_def)

definition example_policy :: policy where
  "example_policy = \<lparr>pol_rate = Some \<lparr>per_second = 1, burst = 2, rate_key = Ip\<rparr>,
     pol_concurrency = Some \<lparr>conc_limit = 1, conc_key = Route\<rparr>\<rparr>"

definition example_rate_policy :: policy where
  "example_rate_policy = example_policy\<lparr>pol_concurrency := None\<rparr>"

definition example_arg :: "instant \<Rightarrow> acquire_arg" where
  "example_arg now = (now, ''r'', example_policy, empty_request, [])"

definition example_permit :: string where
  "example_permit = bucket_key id (\<lambda>_. ''{}'') ''r'' example_policy empty_request [] ''concurrency'' Route"

definition example_events :: "(acquire_arg, instant, string) lease_event list" where
  "example_events = [Acquire (example_arg 0), Acquire (example_arg 0), Release 5 example_permit,
     Acquire (example_arg 5)]"

theorem limiter_permits_accounted_witness:
  "list_all (\<lambda>a. lim_limit a \<le> 1) (acquire_args example_events)
   \<and> count (snd (lease_run (lim_acquire id (\<lambda>_. ''{}'') id) permit_drop example_events
       (default_limiter, {#}))) example_permit \<le> 1"
proof -
  have limits: "\<forall>a\<in>set (acquire_args example_events). lim_limit a \<le> 1"
    by (simp add: example_events_def example_arg_def example_policy_def)
  from limits limiter_permits_accounted [OF prod.collapse [symmetric] limits] show ?thesis
    unfolding list_all_iff by blast
qed

text \<open>
  Four requests of one client on the grid of the subnormal numbers, rounded to the nearest point; the allowance of 3 and a fraction
  means three.
\<close>

definition grid_round :: "rat \<Rightarrow> rat" where
  "grid_round x = of_int \<lfloor>x * 2 ^ 1075 + 1 / 2\<rfloor> / 2 ^ 1075"

lemma grid_rounding: "f64_rounding grid_round"
  unfolding f64_rounding_def
proof (intro conjI allI impI)
  fix x y :: rat
  define g :: rat where "g = 2 ^ 1075"
  have g: "0 < g" by (simp add: g_def)
  show "grid_round x \<le> grid_round y" if "x \<le> y"
    unfolding grid_round_def g_def [symmetric] using that g by (intro divide_right_mono) (auto intro!: floor_mono mult_right_mono)
  have "\<bar>of_int \<lfloor>x * g + 1 / 2\<rfloor> - x * g\<bar> \<le> 1" by linarith
  then have "\<bar>of_int \<lfloor>x * g + 1 / 2\<rfloor> / g - x\<bar> \<le> 1 / g"
    using g by (simp add: field_simps abs_le_iff)
  moreover assume "0 \<le> x \<and> x \<le> 2 ^ 1023"
  then have "0 \<le> x / 2 ^ 53" by simp
  ultimately show "\<bar>grid_round x - x\<bar> \<le> x / 2 ^ 53 + 1 / 2 ^ 1075"
    unfolding grid_round_def g_def [symmetric] by linarith
next
  fix n :: nat
  define m :: nat where "m = 2 ^ 1075"
  have m: "0 < m" by (simp add: m_def)
  have "\<lfloor>(of_nat (n * m) :: rat) + 1 / 2\<rfloor> = int (n * m)" by linarith
  then have "of_int \<lfloor>(of_nat n * of_nat m :: rat) + 1 / 2\<rfloor> = (of_nat n * of_nat m :: rat)" by simp
  moreover have "(2 :: rat) ^ 1075 = of_nat m" by (simp add: m_def)
  ultimately show "grid_round (of_nat n) = of_nat n" using m by (simp only: grid_round_def) simp
qed

theorem limiter_rate_conformance_witness:
  "admitted id (\<lambda>_. ''{}'') grid_round ''r'' example_rate_policy
      (map (\<lambda>t. (t, empty_request, [])) [0, 0, 0, 1000000000]) default_limiter \<le> 3"
proof -
  let ?as = "map (\<lambda>t. (t, empty_request, [])) [0, 0, 1000000000]"
  let ?r = "\<lparr>per_second = 1, burst = 2, rate_key = Ip\<rparr>"
  let ?k = "rate_bucket id (\<lambda>_. ''{}'') ''r'' example_rate_policy empty_request [] ?r"
  have p: "policy_validate example_rate_policy = Inr ()" "pol_rate example_rate_policy = Some ?r" "pol_concurrency example_rate_policy = None"
    by (simp_all add: example_rate_policy_def example_policy_def policy_validate_def)
  have same: "list_all (same_bucket id (\<lambda>_. ''{}'') ''r'' example_rate_policy ?r ?k) ((0, empty_request, []) # ?as)"
    by (simp add: same_bucket_def)
  have room: "roomy default_limiter ?k" "bt_sorted (buckets default_limiter)" "bt_get (buckets default_limiter) ?k = None"
    by (simp_all add: roomy_def default_limiter_def)
  define n where "n = admitted id (\<lambda>_. ''{}'') grid_round ''r'' example_rate_policy ((0, empty_request, []) # ?as) default_limiter"
  have "of_nat n \<le> (2 + 1 * (of_nat (1000000000 - 0) / 1000000000) * (1 + 4 / 2 ^ 53) + of_nat 4 * (3 * of_nat 2 / 2 ^ 53) :: rat)"
    unfolding n_def using limiter_rate_conformance [OF grid_rounding p same room(1,2)] room(3) by (simp del: admitted.simps)
  also have "\<dots> < of_nat 4" by simp
  finally have "n < 4" by (simp only: of_nat_less_iff)
  then show ?thesis by (simp add: n_def del: admitted.simps)
qed

end
