(* ===== verification/Weighted_Choice.thy ===== *)
theory Weighted_Choice
  imports Rust_Prelude
begin

text \<open>
  Three places of the program pick one of several weighted targets by a draw below the total
  weight: rollout stages (\<open>rollout.rs\<close>, subtracting weights), Gateway backends
  (\<open>gateway/routes.rs\<close>, the same loop) and backend endpoints (\<open>backend/selection.rs\<close>, a binary
  search in the cumulative weights). The locale states what they have in common, that the draw
  falls into the chosen target's interval of the cumulative weights; its lemmas give each target
  its exact share of the draws, and of any run of consecutive round-robin cursors.
\<close>

abbreviation total_weight :: "('a \<times> nat) list \<Rightarrow> nat" where
  "total_weight ts \<equiv> sum_list (map snd ts)"

definition share :: "'a \<Rightarrow> ('a \<times> nat) list \<Rightarrow> nat" where
  "share a ts = total_weight (filter (\<lambda>t. fst t = a) ts)"

lemma share_simps [simp]:
  "share a [] = 0"
  "share a (t # ts) = (if fst t = a then snd t else 0) + share a ts"
  by (simp_all add: share_def)

lemma share_pos_iff: "0 < share a ts \<longleftrightarrow> (\<exists>w>0. (a, w) \<in> set ts)"
proof (induction ts)
  case (Cons t ts)
  show ?case by (cases t) (auto simp: Cons.IH)
qed simp

text \<open>The reference walk: the target whose interval of cumulative weights holds the draw.\<close>

fun interval_owner :: "('a \<times> nat) list \<Rightarrow> nat \<Rightarrow> 'a option" where
  "interval_owner [] n = None"
| "interval_owner ((a, w) # ts) n = (if n < w then Some a else interval_owner ts (n - w))"

lemma interval_owner_share:
  "card {n. n < total_weight ts \<and> interval_owner ts n = Some a} = share a ts"
proof (induction ts)
  case (Cons t ts)
  obtain b w where t: "t = (b, w)" by fastforce
  let ?S = "{n. n < total_weight ts \<and> interval_owner ts n = Some a}"
  let ?A = "if b = a then {0..<w} else {}"
  have "{n. n < total_weight (t # ts) \<and> interval_owner (t # ts) n = Some a} = ?A \<union> (\<lambda>n. n + w) ` ?S"
    (is "?L = _")
  proof (intro set_eqI iffI)
    fix n assume n: "n \<in> ?L"
    show "n \<in> ?A \<union> (\<lambda>n. n + w) ` ?S"
    proof (cases "n < w")
      case True
      with n t show ?thesis by auto
    next
      case False
      with n t have "n - w \<in> ?S" by auto
      then have "(n - w) + w \<in> (\<lambda>n. n + w) ` ?S" by blast
      with False show ?thesis by simp
    qed
  qed (auto simp: t split: if_splits)
  moreover have "card (?A \<union> (\<lambda>n. n + w) ` ?S) = card ?A + card ((\<lambda>n. n + w) ` ?S)"
    by (rule card_Un_disjoint) auto
  moreover have "card ((\<lambda>n. n + w) ` ?S) = card ?S" by (rule card_image) simp
  ultimately show ?case using Cons.IH t by simp
qed simp

lemma interval_owner_interval:
  "n < total_weight ts \<Longrightarrow> \<exists>i<length ts. interval_owner ts n = Some (fst (ts ! i))
     \<and> total_weight (take i ts) \<le> n \<and> n < total_weight (take (Suc i) ts)"
proof (induction ts n rule: interval_owner.induct)
  case (2 a w ts n)
  show ?case
  proof (cases "n < w")
    case True
    then show ?thesis by (intro exI [of _ 0]) simp
  next
    case False
    with 2 obtain i where "i < length ts" "interval_owner ts (n - w) = Some (fst (ts ! i))"
      "total_weight (take i ts) \<le> n - w" "n - w < total_weight (take (Suc i) ts)"
      by (metis (no_types, lifting) add_diff_inverse_nat list.simps(9) nat_add_left_cancel_less
          snd_conv sum_list.Cons)
    with False show ?thesis by (intro exI [of _ "Suc i"]) auto
  qed
qed simp

lemma interval_owner_map:
  "map_option f (interval_owner ts n) = interval_owner (map (\<lambda>(a, w). (f a, w)) ts) n"
  by (induction ts n rule: interval_owner.induct) auto

lemma bij_betw_mod_interval:
  assumes "0 < (m::nat)"
  shows "bij_betw (\<lambda>c. c mod m) {k..<k + m} {0..<m}"
proof -
  have wlog: "a = b" if "a \<le> b" "b - a < m" "a mod m = b mod m" for a b :: nat
  proof -
    have "m dvd b - a" using mod_eq_dvd_iff_nat [of a b m] that by simp
    with that show ?thesis by (auto dest: dvd_imp_le)
  qed
  have inj: "inj_on (\<lambda>c. c mod m) {k..<k + m}"
  proof (rule inj_onI)
    fix x y assume x: "x \<in> {k..<k + m}" and y: "y \<in> {k..<k + m}" and eq: "x mod m = y mod m"
    show "x = y"
    proof (cases "x \<le> y")
      case True
      moreover have "y - x < m" using x y by simp arith
      ultimately show ?thesis using wlog eq by blast
    next
      case False
      moreover have "x - y < m" using x y by simp arith
      ultimately show ?thesis using wlog [of y x] eq by simp
    qed
  qed
  moreover have sub: "(\<lambda>c. c mod m) ` {k..<k + m} \<subseteq> {0..<m}" using assms by auto
  moreover have "card ((\<lambda>c. c mod m) ` {k..<k + m}) = card {0..<m}"
    using card_image [OF inj] by simp
  ultimately show ?thesis
    using card_subset_eq [OF finite_atLeastLessThan sub] by (simp add: bij_betw_def)
qed

lemma count_list_map_upt: "count_list (map f [k..<k + m]) x = card {c. k \<le> c \<and> c < k + m \<and> f c = x}"
proof -
  have "card {c. k \<le> c \<and> c < k + m \<and> f c = x} = card (set (filter (\<lambda>c. x = f c) [k..<k + m]))"
    by (rule arg_cong [where f = card]) auto
  also have "card (set (filter (\<lambda>c. x = f c) [k..<k + m])) = length (filter (\<lambda>c. x = f c) [k..<k + m])"
    by (rule distinct_card) simp
  finally show ?thesis by (simp add: count_list_eq_length_filter filter_map comp_def)
qed

locale weighted_choice =
  fixes pick :: "('a \<times> nat) list \<Rightarrow> nat \<Rightarrow> 'a option"
  assumes pick_interval:
    "n < total_weight ts \<Longrightarrow> \<exists>i<length ts. pick ts n = Some (fst (ts ! i))
       \<and> total_weight (take i ts) \<le> n \<and> n < total_weight (take (Suc i) ts)"
begin

lemma pick_owner: "n < total_weight ts \<Longrightarrow> pick ts n = interval_owner ts n"
proof -
  have "interval_owner ts n = Some (fst (ts ! i))"
    if "i < length ts" "total_weight (take i ts) \<le> n" "n < total_weight (take (Suc i) ts)" for i
    using that
  proof (induction ts arbitrary: i n)
    case (Cons t ts)
    then show ?case by (cases t; cases i) auto
  qed simp
  moreover assume "n < total_weight ts"
  ultimately show ?thesis using pick_interval by metis
qed

lemma pick_some: "n < total_weight ts \<Longrightarrow> \<exists>a w. pick ts n = Some a \<and> (a, w) \<in> set ts \<and> 0 < w"
proof -
  assume "n < total_weight ts"
  then obtain i where i: "i < length ts" "pick ts n = Some (fst (ts ! i))"
    "total_weight (take i ts) \<le> n" "n < total_weight (take (Suc i) ts)"
    using pick_interval by blast
  then have "0 < snd (ts ! i)" by (simp add: take_Suc_conv_app_nth)
  moreover have "(fst (ts ! i), snd (ts ! i)) \<in> set ts" using i by simp
  ultimately show ?thesis using i by blast
qed

lemma pick_share: "card {n. n < total_weight ts \<and> pick ts n = Some a} = share a ts"
proof -
  have "{n. n < total_weight ts \<and> pick ts n = Some a} =
      {n. n < total_weight ts \<and> interval_owner ts n = Some a}"
    using pick_owner by auto
  then show ?thesis by (simp add: interval_owner_share)
qed

lemma round_robin_share:
  assumes "0 < total_weight ts"
  shows "card {c. k \<le> c \<and> c < k + total_weight ts \<and> pick ts (c mod total_weight ts) = Some a} = share a ts"
proof -
  let ?m = "total_weight ts"
  let ?S = "{c. k \<le> c \<and> c < k + ?m \<and> pick ts (c mod ?m) = Some a}"
  let ?T = "{n. n < ?m \<and> pick ts n = Some a}"
  have bij: "bij_betw (\<lambda>c. c mod ?m) {k..<k + ?m} {0..<?m}" using bij_betw_mod_interval assms .
  have "(\<lambda>c. c mod ?m) ` ?S = ?T"
  proof (intro set_eqI iffI)
    fix n assume n: "n \<in> ?T"
    then have "n \<in> (\<lambda>c. c mod ?m) ` {k..<k + ?m}" using bij by (simp add: bij_betw_def)
    with n show "n \<in> (\<lambda>c. c mod ?m) ` ?S" by auto
  qed (use assms in auto)
  moreover have "inj_on (\<lambda>c. c mod ?m) ?S"
    by (rule inj_on_subset [of _ "{k..<k + ?m}"]) (use bij in \<open>auto simp: bij_betw_def\<close>)
  ultimately have "card ?S = card ?T" using card_image by fastforce
  then show ?thesis by (simp add: pick_share)
qed

end

end
