(* ===== verification/Rollout.thy ===== *)
theory Rollout
  imports Traffic Weighted_Choice
begin

text \<open>
  Progressive delivery, \<open>src/src/rollout.rs\<close> with \<open>rollout/progress.rs\<close> and \<open>rollout/metrics.rs\<close>:
  the policy and its checks, weighted selection, the sliding window that triggers a rollback, the
  stages a rollout advances through and the rollback by external metrics.

  Parameters stand for code of other crates: \<open>from_str\<close> and \<open>progress_from_str\<close> for
  \<open>serde_json::from_str\<close>, \<open>to_vec\<close> for \<open>serde_json::to_vec\<close>, \<open>sha256\<close> for the digest and
  \<open>header_name_ok\<close> as in \<open>Traffic\<close>. A missing key of a \<open>BTreeMap\<close> index, \<open>unwrap\<close> on an
  error, a remainder by zero and \<open>unreachable!\<close> panic; the operations that contain one return an
  option whose \<open>None\<close> is the panic. Counters are natural numbers: the checks of \<open>Policy::parse\<close>
  and the window bound keep every sum and product below the width of its type.
\<close>

section \<open>Policies\<close>

record target =
  tg_service :: string
  tg_weight :: nat

record mirror =
  mr_service :: string
  mr_percent :: nat
  mr_max_body_bytes :: nat
  mr_timeout_ms :: nat

record rollback =
  rb_fallback :: string
  rb_min_requests :: nat
  rb_error_percent :: nat
  rb_window_seconds :: nat
  rb_max_p95_ms :: "nat option"

datatype unavailable = Unavailable_Pause | Unavailable_Rollback

record metric_rollback =
  consecutive_failures :: nat
  failure_seconds :: nat
  on_unavailable :: unavailable

record step =
  st_weights :: "(string, nat) btree"
  st_duration_seconds :: nat
  st_min_requests :: nat
  st_approval :: bool

record rollout_policy =
  rp_revision :: string
  rp_backends :: "target list"
  rp_mirror :: "mirror option"
  rp_rollback :: "rollback option"
  rp_steps :: "step list"
  rp_cohort :: "string option"
  rp_metric_gates :: "string list"
  rp_metric_rollback :: "metric_rollback option"

datatype rollout_error =
    InvalidJson
  | RevisionLength
  | BackendWeights
  | DuplicateBackend
  | InvalidMirror
  | InvalidRollback
  | CohortKey traffic_error
  | CohortNotClientSpecific
  | TooManyStages
  | GatesWithoutSteps
  | MetricRollbackNeedsGates
  | MetricRollbackRange
  | StagesNeedRollback
  | StageBudget
  | StageWeights
  | InvalidProgress

definition metric_rollback_validate :: "metric_rollback \<Rightarrow> (rollout_error, unit) result" where
  "metric_rollback_validate r =
     ensure (1 \<le> consecutive_failures r \<and> consecutive_failures r \<le> 120 \<and> failure_seconds r \<le> 3600)
       MetricRollbackRange"

definition step_check :: "rollout_policy \<Rightarrow> step \<Rightarrow> (rollout_error, unit) result" where
  "step_check p s =
     (let unique = map tg_service (rp_backends p) in
      bindR (ensure (rp_rollback p \<noteq> None) StagesNeedRollback) (\<lambda>_.
      bindR (ensure (st_duration_seconds s \<le> 86400 \<and> st_min_requests s \<le> 10000) StageBudget) (\<lambda>_.
      ensure (length (st_weights s) = length unique
        \<and> (\<forall>(k, v)\<in>set (st_weights s). k \<in> set unique \<and> v \<le> 10000)
        \<and> 0 < sum_list (bt_values (st_weights s))) StageWeights)))"

definition policy_check :: "(string \<Rightarrow> bool) \<Rightarrow> rollout_policy \<Rightarrow> (rollout_error, unit) result" where
  "policy_check header_name_ok p =
     bindR (ensure (rp_revision p \<noteq> [] \<and> length (rp_revision p) \<le> 64) RevisionLength) (\<lambda>_.
     bindR (ensure (1 \<le> length (rp_backends p) \<and> length (rp_backends p) \<le> 8
        \<and> (\<forall>b\<in>set (rp_backends p). tg_weight b \<le> 10000)
        \<and> 0 < sum_list (map tg_weight (rp_backends p))) BackendWeights) (\<lambda>_.
     bindR (ensure (distinct (map tg_service (rp_backends p))) DuplicateBackend) (\<lambda>_.
     bindR (case rp_mirror p of None \<Rightarrow> Inr () | Some m \<Rightarrow>
        ensure (mr_percent m \<le> 100 \<and> mr_max_body_bytes m \<le> 1024 * 1024
          \<and> 1 \<le> mr_timeout_ms m \<and> mr_timeout_ms m \<le> 10000) InvalidMirror) (\<lambda>_.
     bindR (case rp_rollback p of None \<Rightarrow> Inr () | Some r \<Rightarrow>
        ensure (rb_fallback r \<in> set (map tg_service (rp_backends p))
          \<and> 1 \<le> rb_min_requests r \<and> rb_min_requests r \<le> 10000
          \<and> 1 \<le> rb_error_percent r \<and> rb_error_percent r \<le> 100
          \<and> 1 \<le> rb_window_seconds r \<and> rb_window_seconds r \<le> 3600
          \<and> is_none_or (rb_max_p95_ms r) (\<lambda>v. 1 \<le> v \<and> v \<le> 3600000)) InvalidRollback) (\<lambda>_.
     bindR (case rp_cohort p of None \<Rightarrow> Inr () | Some key \<Rightarrow>
        (case key_parse header_name_ok key of
           Inl e \<Rightarrow> Inl (CohortKey e)
         | Inr k \<Rightarrow> ensure (k \<noteq> Route) CohortNotClientSpecific)) (\<lambda>_.
     bindR (ensure (length (rp_steps p) \<le> 16 \<and> length (rp_metric_gates p) \<le> 8) TooManyStages) (\<lambda>_.
     bindR (ensure (rp_metric_gates p = [] \<or> rp_steps p \<noteq> [] \<or> rp_metric_rollback p \<noteq> None)
        GatesWithoutSteps) (\<lambda>_.
     bindR (case rp_metric_rollback p of None \<Rightarrow> Inr () | Some rule \<Rightarrow>
        bindR (ensure (rp_rollback p \<noteq> None \<and> rp_metric_gates p \<noteq> []) MetricRollbackNeedsGates) (\<lambda>_.
        metric_rollback_validate rule)) (\<lambda>_.
     for_each (step_check p) (rp_steps p))))))))))"

definition rollout_policy_parse ::
  "(string \<Rightarrow> rollout_policy option) \<Rightarrow> (string \<Rightarrow> bool) \<Rightarrow> string
     \<Rightarrow> (rollout_error, rollout_policy) result" where
  "rollout_policy_parse from_str header_name_ok value =
     bindR (ok_or (from_str value) InvalidJson) (\<lambda>p.
     bindR (policy_check header_name_ok p) (\<lambda>_. Inr p))"

definition services :: "rollout_policy \<Rightarrow> string list" where
  "services p = map tg_service (rp_backends p)
     @ (case rp_mirror p of None \<Rightarrow> [] | Some m \<Rightarrow> [mr_service m])"

section \<open>State\<close>

record samples =
  sm_count :: nat
  sm_errors :: nat
  sm_slow :: nat

definition default_samples :: samples where
  "default_samples = \<lparr>sm_count = 0, sm_errors = 0, sm_slow = 0\<rparr>"

type_synonym sample = "instant \<times> bool \<times> nat"

record window =
  w_samples :: "sample list"
  w_totals :: samples
  w_rolled_back :: bool
  w_reason :: string

definition default_window :: window where
  "default_window = \<lparr>w_samples = [], w_totals = default_samples, w_rolled_back = False, w_reason = []\<rparr>"

record progress =
  pg_revision :: string
  pg_policy_hash :: string
  pg_stage :: nat
  pg_started_at :: int
  pg_paused :: bool
  pg_approved_stage :: "nat option"
  pg_promoted :: bool

definition default_progress :: progress where
  "default_progress = \<lparr>pg_revision = [], pg_policy_hash = [], pg_stage = 0, pg_started_at = 0,
     pg_paused = False, pg_approved_stage = None, pg_promoted = False\<rparr>"

record failures =
  f_digest :: string
  f_stage :: nat
  f_gates :: "(string, instant \<times> instant \<times> nat) btree"

definition default_failures :: failures where
  "default_failures = \<lparr>f_digest = [], f_stage = 0, f_gates = []\<rparr>"

record state =
  s_policy :: rollout_policy
  s_kind :: string
  s_owner :: string
  s_uid :: string
  s_backends :: "(string, string) btree"
  s_cursor :: "64 word"
  s_window :: window
  s_progress :: progress
  s_metric_failures :: failures

text \<open>
  The registry. \<open>in_use key\<close> says whether the state under that key has a holder besides the map
  (\<open>Arc::strong_count > 1\<close>); since a state that is held stays in the map, the key identifies it.
\<close>

type_synonym rollouts = "(string, state) btree"

definition active :: "rollouts \<Rightarrow> state list" where
  "active r = bt_values r"

definition new_state :: "string \<Rightarrow> string \<Rightarrow> string \<Rightarrow> rollout_policy \<Rightarrow> (string, string) btree \<Rightarrow> state" where
  "new_state kind owner uid p backends =
     \<lparr>s_policy = p, s_kind = kind, s_owner = owner, s_uid = uid, s_backends = backends, s_cursor = 0,
      s_window = default_window, s_progress = default_progress, s_metric_failures = default_failures\<rparr>"

definition state_key ::
  "(string \<Rightarrow> string) \<Rightarrow> (rollout_policy \<Rightarrow> (string, string) btree \<Rightarrow> string) \<Rightarrow> string \<Rightarrow> string \<Rightarrow> string
     \<Rightarrow> rollout_policy \<Rightarrow> (string, string) btree \<Rightarrow> string" where
  "state_key sha256 to_vec kind owner uid p backends =
     kind @ '':'' @ owner @ '':'' @ uid @ '':'' @ hex_lower (sha256 (to_vec p backends))"

definition get_for ::
  "(string \<Rightarrow> string) \<Rightarrow> (rollout_policy \<Rightarrow> (string, string) btree \<Rightarrow> string) \<Rightarrow> (string \<Rightarrow> bool)
     \<Rightarrow> string \<Rightarrow> string \<Rightarrow> string \<Rightarrow> rollout_policy \<Rightarrow> (string, string) btree \<Rightarrow> rollouts
     \<Rightarrow> string \<times> rollouts" where
  "get_for sha256 to_vec in_use kind owner uid p backends r =
     (let key = state_key sha256 to_vec kind owner uid p backends;
          kept = filter (\<lambda>e. fst e = key \<or> in_use (fst e)) r
      in (key, bt_or_insert key (new_state kind owner uid p backends) kept))"

definition get_ingress ::
  "(string \<Rightarrow> string) \<Rightarrow> (rollout_policy \<Rightarrow> (string, string) btree \<Rightarrow> string) \<Rightarrow> (string \<Rightarrow> bool)
     \<Rightarrow> string \<Rightarrow> string \<Rightarrow> rollout_policy \<Rightarrow> (string, string) btree \<Rightarrow> rollouts
     \<Rightarrow> string \<times> rollouts" where
  "get_ingress sha256 to_vec in_use owner uid p backends r =
     get_for sha256 to_vec in_use ''Ingress'' owner uid p backends r"

section \<open>Selection\<close>

definition rolled_back :: "state \<Rightarrow> bool" where
  "rolled_back s = w_rolled_back (s_window s)"

definition fallback_backend :: "state \<Rightarrow> string option" where
  "fallback_backend s =
     Option.bind (rp_rollback (s_policy s)) (\<lambda>r. bt_get (s_backends s) (rb_fallback r))"

definition enforce :: "state \<Rightarrow> string \<Rightarrow> string option" where
  "enforce s backend = (if w_rolled_back (s_window s) then fallback_backend s else Some backend)"

definition force_rollback :: "state \<Rightarrow> state" where
  "force_rollback s =
     (if rp_rollback (s_policy s) \<noteq> None
      then s\<lparr>s_window := (s_window s)\<lparr>w_rolled_back := True, w_reason := ''persisted rollback''\<rparr>\<rparr>
      else s)"

definition stage :: "state \<Rightarrow> nat" where
  "stage s = pg_stage (s_progress s)"

definition stage_weights :: "state \<Rightarrow> target list option" where
  "stage_weights s =
     (let weights = map_option st_weights (slice_get (rp_steps (s_policy s)) (stage s)) in
      those (map (\<lambda>t. map_option (\<lambda>w. \<lparr>tg_service = tg_service t, tg_weight = w\<rparr>)
          (case weights of None \<Rightarrow> Some (tg_weight t) | Some ws \<Rightarrow> bt_get ws (tg_service t)))
        (rp_backends (s_policy s))))"

fun select_loop :: "target list \<Rightarrow> nat \<Rightarrow> string option" where
  "select_loop [] n = None"
| "select_loop (t # ts) n =
     (if n < tg_weight t then Some (tg_service t) else select_loop ts (n - tg_weight t))"

definition cohort_draw ::
  "(string \<Rightarrow> bool) \<Rightarrow> (string \<Rightarrow> string) \<Rightarrow> state \<Rightarrow> request_data \<Rightarrow> nat \<Rightarrow> string \<Rightarrow> nat option" where
  "cohort_draw header_name_ok sha256 s request weight_sum key =
     (case key_parse header_name_ok key of
        Inl _ \<Rightarrow> None
      | Inr k \<Rightarrow>
          (let value = key_value k request (rd_claims request);
               value = (if value = [] then rd_remote_addr request else value);
               hash = sha256 (rp_revision (s_policy s) @ [CHR 0x00] @ value)
           in Some (from_be_bytes (take 8 hash) mod 10000 * weight_sum div 10000)))"

definition draw ::
  "(string \<Rightarrow> bool) \<Rightarrow> (string \<Rightarrow> string) \<Rightarrow> state \<Rightarrow> request_data \<Rightarrow> 64 word \<Rightarrow> nat \<Rightarrow> nat option" where
  "draw header_name_ok sha256 s request cursor weight_sum =
     (case rp_cohort (s_policy s) of
        Some key \<Rightarrow> cohort_draw header_name_ok sha256 s request weight_sum key
      | None \<Rightarrow> if weight_sum = 0 then None else Some (unat cursor mod weight_sum))"

definition select_at ::
  "(string \<Rightarrow> bool) \<Rightarrow> (string \<Rightarrow> string) \<Rightarrow> state \<Rightarrow> request_data \<Rightarrow> 64 word \<Rightarrow> string option" where
  "select_at header_name_ok sha256 s request cursor =
     (if w_rolled_back (s_window s) then fallback_backend s
      else Option.bind (stage_weights s) (\<lambda>weights.
        Option.bind (draw header_name_ok sha256 s request cursor (sum_list (map tg_weight weights))) (\<lambda>n.
        Option.bind (select_loop weights n) (bt_get (s_backends s)))))"

definition select ::
  "(string \<Rightarrow> bool) \<Rightarrow> (string \<Rightarrow> string) \<Rightarrow> request_data \<Rightarrow> state \<Rightarrow> string option \<times> state" where
  "select header_name_ok sha256 request s =
     (select_at header_name_ok sha256 s request (s_cursor s), s\<lparr>s_cursor := s_cursor s + 1\<rparr>)"

section \<open>The sample window\<close>

definition is_slow :: "rollback \<Rightarrow> nat \<Rightarrow> bool" where
  "is_slow rule elapsed = is_some_and (rb_max_p95_ms rule) (\<lambda>limit. limit < elapsed)"

fun prune_samples :: "instant \<Rightarrow> rollback \<Rightarrow> sample list \<Rightarrow> samples \<Rightarrow> sample list \<times> samples" where
  "prune_samples now rule [] t = ([], t)"
| "prune_samples now rule ((pushed, failed, elapsed) # xs) t =
     (if rb_window_seconds rule < as_secs (duration_since now pushed) \<or> 10000 < length ((pushed, failed, elapsed) # xs)
      then prune_samples now rule xs
        \<lparr>sm_count = sm_count t - 1,
         sm_errors = sm_errors t - (if failed then 1 else 0),
         sm_slow = sm_slow t - (if is_slow rule elapsed then 1 else 0)\<rparr>
      else ((pushed, failed, elapsed) # xs, t))"

definition prune :: "instant \<Rightarrow> rollback \<Rightarrow> window \<Rightarrow> window" where
  "prune now rule w =
     (case prune_samples now rule (w_samples w) (w_totals w) of
        (xs, t) \<Rightarrow> w\<lparr>w_samples := xs, w_totals := t\<rparr>)"

definition push_sample :: "instant \<Rightarrow> bool \<Rightarrow> nat \<Rightarrow> rollback \<Rightarrow> window \<Rightarrow> window" where
  "push_sample now failed elapsed rule w =
     w\<lparr>w_samples := w_samples w @ [(now, failed, elapsed)],
       w_totals := \<lparr>sm_count = sm_count (w_totals w) + 1,
         sm_errors = sm_errors (w_totals w) + (if failed then 1 else 0),
         sm_slow = sm_slow (w_totals w) + (if is_slow rule elapsed then 1 else 0)\<rparr>\<rparr>"

definition error_limit :: "rollback \<Rightarrow> samples \<Rightarrow> bool" where
  "error_limit rule t \<longleftrightarrow> sm_count t * rb_error_percent rule \<le> sm_errors t * 100"

definition latency_limit :: "rollback \<Rightarrow> samples \<Rightarrow> bool" where
  "latency_limit rule t \<longleftrightarrow> rb_max_p95_ms rule \<noteq> None \<and> sm_count t div 20 < sm_slow t"

definition judge :: "rollback \<Rightarrow> window \<Rightarrow> bool \<times> window" where
  "judge rule w =
     (let t = w_totals w in
      if sm_count t < rb_min_requests rule then (False, w)
      else if error_limit rule t \<or> latency_limit rule t
      then (True, w\<lparr>w_rolled_back := True,
              w_reason := if error_limit rule t then ''error threshold'' else ''p95 threshold''\<rparr>)
      else (False, w))"

text \<open>Whether some declared target is served by the backend; an unmapped target panics.\<close>

fun any_target :: "(string, string) btree \<Rightarrow> string \<Rightarrow> target list \<Rightarrow> bool option" where
  "any_target m backend [] = Some False"
| "any_target m backend (t # ts) =
     (case bt_get m (tg_service t) of
        None \<Rightarrow> None
      | Some b \<Rightarrow> if b = backend then Some True else any_target m backend ts)"

definition u64_max :: nat where
  "u64_max = 18446744073709551615"

definition completed ::
  "instant \<Rightarrow> string \<Rightarrow> bool \<Rightarrow> duration \<Rightarrow> nat \<Rightarrow> state \<Rightarrow> (bool \<times> state) option" where
  "completed now backend failed elapsed at_stage s =
     (if at_stage \<noteq> pg_stage (s_progress s) then Some (False, s)
      else case rp_rollback (s_policy s) of
        None \<Rightarrow> Some (False, s)
      | Some rule \<Rightarrow>
          Option.bind (bt_get (s_backends s) (rb_fallback rule)) (\<lambda>fallback.
          if fallback = backend then Some (False, s)
          else Option.bind (any_target (s_backends s) backend (rp_backends (s_policy s))) (\<lambda>known.
          if \<not> known then Some (False, s)
          else if w_rolled_back (s_window s) then Some (False, s)
          else
            let ms = min (as_millis elapsed) u64_max;
                w = prune now rule (push_sample now failed ms rule (s_window s));
                (tripped, w') = judge rule w
            in Some (tripped, s\<lparr>s_window := w'\<rparr>))))"

section \<open>Stages\<close>

definition policy_hash :: "(string \<Rightarrow> string) \<Rightarrow> (rollout_policy \<Rightarrow> string) \<Rightarrow> state \<Rightarrow> string" where
  "policy_hash sha256 to_vec s = hex_lower (sha256 (to_vec (s_policy s)))"

text \<open>\<open>key_vec\<close> serialises the tuple the sample key is the digest of.\<close>

type_synonym key_vec = "string \<Rightarrow> string \<Rightarrow> string \<Rightarrow> string \<Rightarrow> nat \<Rightarrow> int \<Rightarrow> string"

definition sample_key_at ::
  "(string \<Rightarrow> string) \<Rightarrow> (rollout_policy \<Rightarrow> string) \<Rightarrow> key_vec \<Rightarrow> state \<Rightarrow> progress \<Rightarrow> string" where
  "sample_key_at sha256 to_vec key_vec s p =
     hex_lower (sha256 (key_vec (s_kind s) (s_owner s) (s_uid s) (policy_hash sha256 to_vec s)
       (pg_stage p) (pg_started_at p)))"

definition sample_key :: "(string \<Rightarrow> string) \<Rightarrow> (rollout_policy \<Rightarrow> string) \<Rightarrow> key_vec \<Rightarrow> state \<Rightarrow> string" where
  "sample_key sha256 to_vec key_vec s = sample_key_at sha256 to_vec key_vec s (s_progress s)"

definition sample_report ::
  "(string \<Rightarrow> string) \<Rightarrow> (rollout_policy \<Rightarrow> string) \<Rightarrow> key_vec \<Rightarrow> instant \<Rightarrow> state
     \<Rightarrow> (string \<times> samples) \<times> state" where
  "sample_report sha256 to_vec key_vec now s =
     (let key = sample_key_at sha256 to_vec key_vec s (s_progress s) in
      case rp_rollback (s_policy s) of
        None \<Rightarrow> ((key, default_samples), s)
      | Some rule \<Rightarrow>
          (let w = prune now rule (s_window s) in ((key, w_totals w), s\<lparr>s_window := w\<rparr>)))"

definition stage_bound :: "rollout_policy \<Rightarrow> nat" where
  "stage_bound p = max (length (rp_steps p)) 1"

definition install_progress :: "progress \<Rightarrow> state \<Rightarrow> state" where
  "install_progress p s =
     (let changed = pg_stage (s_progress s) \<noteq> pg_stage p
             \<or> pg_started_at (s_progress s) \<noteq> pg_started_at p;
          s' = s\<lparr>s_progress := p\<rparr>
      in if changed
         then s'\<lparr>s_window := (s_window s)\<lparr>w_samples := [], w_totals := default_samples\<rparr>\<rparr>
         else s')"

definition sync_progress ::
  "(string \<Rightarrow> string) \<Rightarrow> (rollout_policy \<Rightarrow> string) \<Rightarrow> (string \<Rightarrow> progress option) \<Rightarrow> string option
     \<Rightarrow> state \<Rightarrow> (rollout_error, unit) result \<times> state" where
  "sync_progress sha256 to_vec progress_from_str value s =
     (case value of
        None \<Rightarrow> (Inr (), install_progress default_progress s)
      | Some v \<Rightarrow>
          (case progress_from_str v of
             None \<Rightarrow> (Inl InvalidJson, s)
           | Some p \<Rightarrow>
               if pg_revision p \<noteq> rp_revision (s_policy s)
                 \<or> pg_policy_hash p \<noteq> policy_hash sha256 to_vec s
               then (Inr (), s)
               else if pg_stage p < stage_bound (s_policy s) \<and> 0 \<le> pg_started_at p
                 \<and> is_none_or (pg_approved_stage p) (\<lambda>k. k < stage_bound (s_policy s))
               then (Inr (), install_progress p s)
               else (Inl InvalidProgress, s)))"

text \<open>The stage is an index of \<open>policy.steps\<close>; an index out of range panics.\<close>

definition next_progress ::
  "(string \<Rightarrow> string) \<Rightarrow> (rollout_policy \<Rightarrow> string) \<Rightarrow> int \<Rightarrow> bool \<Rightarrow> samples option \<Rightarrow> state
     \<Rightarrow> progress option option" where
  "next_progress sha256 to_vec now gates_pass reported s =
     (if rp_steps (s_policy s) = [] then Some None
      else let p = s_progress s in
      if pg_started_at p = 0
      then Some (Some (default_progress\<lparr>pg_revision := rp_revision (s_policy s),
             pg_policy_hash := policy_hash sha256 to_vec s, pg_started_at := now\<rparr>))
      else case slice_get (rp_steps (s_policy s)) (pg_stage p) of
        None \<Rightarrow> None
      | Some step \<Rightarrow> Some (
          if pg_paused p \<or> pg_promoted p \<or> \<not> gates_pass
            \<or> now - pg_started_at p < int (st_duration_seconds step)
            \<or> (st_approval step \<and> pg_approved_stage p \<noteq> Some (pg_stage p))
          then None
          else if rolled_back s then None
          else case reported of
            None \<Rightarrow> None
          | Some t \<Rightarrow>
              if sm_count t < st_min_requests step then None
              else if 0 < sm_count t
                \<and> is_some_and (rp_rollback (s_policy s)) (\<lambda>rule. error_limit rule t \<or> latency_limit rule t)
              then None
              else if pg_stage p + 1 = length (rp_steps (s_policy s))
              then Some (p\<lparr>pg_promoted := True\<rparr>)
              else Some (p\<lparr>pg_stage := pg_stage p + 1, pg_started_at := now,
                     pg_approved_stage := None\<rparr>)))"

section \<open>Rollback by external metrics\<close>

record metric_observation =
  mo_digest :: string
  mo_passed :: "bool option"
  mo_checked :: instant

definition fresh :: "instant \<Rightarrow> string \<Rightarrow> metric_observation \<Rightarrow> bool" where
  "fresh now digest r \<longleftrightarrow> mo_digest r = digest \<and> as_secs (duration_since now (mo_checked r)) \<le> 60"

definition passed :: "instant \<Rightarrow> string \<Rightarrow> metric_observation \<Rightarrow> bool" where
  "passed now digest r \<longleftrightarrow> fresh now digest r \<and> mo_passed r = Some True"

definition failing :: "metric_rollback \<Rightarrow> metric_observation \<Rightarrow> bool" where
  "failing rule r \<longleftrightarrow> mo_passed r = Some False
     \<or> (mo_passed r = None \<and> on_unavailable rule = Unavailable_Rollback)"

definition u32_max :: nat where
  "u32_max = 4294967295"

definition streak_entry :: "instant \<Rightarrow> instant \<times> instant \<times> nat \<Rightarrow> instant \<times> instant \<times> nat" where
  "streak_entry checked e =
     (case e of (earliest, latest, n) \<Rightarrow>
        if latest < checked
        then if 60 < as_secs (duration_since checked latest) then (checked, checked, 1)
             else (earliest, checked, min (n + 1) u32_max)
        else (earliest, latest, n))"

definition metric_reason :: "string \<Rightarrow> metric_observation \<Rightarrow> string" where
  "metric_reason name r = ''external metric '' @ name @ '' ''
     @ (if mo_passed r = None then ''unavailable'' else ''threshold'')"

fun metric_loop ::
  "instant \<Rightarrow> string \<Rightarrow> metric_rollback \<Rightarrow> (string, metric_observation) btree \<Rightarrow> string list
     \<Rightarrow> (string, instant \<times> instant \<times> nat) btree \<Rightarrow> window
     \<Rightarrow> bool \<times> (string, instant \<times> instant \<times> nat) btree \<times> window" where
  "metric_loop now digest rule results [] gates w = (False, gates, w)"
| "metric_loop now digest rule results (name # names) gates w =
     (case filter_option (fresh now digest) (bt_get results name) of
        None \<Rightarrow> metric_loop now digest rule results names (bt_remove name gates) w
      | Some r \<Rightarrow>
          if \<not> failing rule r then metric_loop now digest rule results names (bt_remove name gates) w
          else
            let e = (case bt_get gates name of
                       None \<Rightarrow> (mo_checked r, mo_checked r, 1) | Some e \<Rightarrow> e);
                (earliest, latest, n) = streak_entry (mo_checked r) e;
                gates' = bt_insert name (earliest, latest, n) gates
            in if consecutive_failures rule \<le> n \<and> failure_seconds rule \<le> as_secs (duration_since latest earliest)
                 \<and> \<not> w_rolled_back w
               then (True, gates', w\<lparr>w_rolled_back := True, w_reason := metric_reason name r\<rparr>)
               else metric_loop now digest rule results names gates' w)"

definition evaluate_metrics ::
  "instant \<Rightarrow> string \<Rightarrow> (string, metric_observation) btree \<Rightarrow> state \<Rightarrow> bool \<times> state" where
  "evaluate_metrics now digest results s =
     (case rp_metric_rollback (s_policy s) of
        None \<Rightarrow> (False, s)
      | Some rule \<Rightarrow>
          (let f = s_metric_failures s;
               f = (if f_digest f \<noteq> digest \<or> f_stage f \<noteq> stage s
                    then default_failures\<lparr>f_digest := digest, f_stage := stage s\<rparr> else f);
               (tripped, gates, w) = metric_loop now digest rule results (rp_metric_gates (s_policy s))
                 (f_gates f) (s_window s)
           in (tripped, s\<lparr>s_metric_failures := f\<lparr>f_gates := gates\<rparr>, s_window := w\<rparr>)))"

section \<open>Well-formed states\<close>

text \<open>
  A state is well formed when its policy passed the checks, every declared target has a backend,
  the stage is one the policy declares and the window totals are those of the samples it holds.
\<close>

definition tally :: "rollback \<Rightarrow> sample list \<Rightarrow> samples" where
  "tally rule xs =
     \<lparr>sm_count = length xs,
      sm_errors = length (filter (\<lambda>x. fst (snd x)) xs),
      sm_slow = length (filter (\<lambda>x. is_slow rule (snd (snd x))) xs)\<rparr>"

definition window_ok :: "rollback option \<Rightarrow> window \<Rightarrow> bool" where
  "window_ok rb w \<longleftrightarrow> length (w_samples w) \<le> 10000 \<and> sorted (map fst (w_samples w))
     \<and> (case rb of
          None \<Rightarrow> w_samples w = [] \<and> w_totals w = default_samples \<and> \<not> w_rolled_back w
        | Some rule \<Rightarrow> w_totals w = tally rule (w_samples w))"

definition state_ok :: "(string \<Rightarrow> bool) \<Rightarrow> state \<Rightarrow> bool" where
  "state_ok header_name_ok s \<longleftrightarrow>
     is_ok (policy_check header_name_ok (s_policy s))
     \<and> (\<forall>st\<in>set (rp_steps (s_policy s)). bt_sorted (st_weights st))
     \<and> (\<forall>t\<in>set (rp_backends (s_policy s)). bt_get (s_backends s) (tg_service t) \<noteq> None)
     \<and> stage s < stage_bound (s_policy s)
     \<and> window_ok (rp_rollback (s_policy s)) (s_window s)"

lemma policy_check_facts:
  assumes "is_ok (policy_check header_name_ok p)"
  shows "0 < sum_list (map tg_weight (rp_backends p))"
    and "distinct (map tg_service (rp_backends p))"
    and "rp_rollback p = Some r \<Longrightarrow> rb_fallback r \<in> tg_service ` set (rp_backends p)"
    and "rp_rollback p = Some r \<Longrightarrow> 1 \<le> rb_min_requests r \<and> 1 \<le> rb_error_percent r"
    and "rp_cohort p = Some key \<Longrightarrow> \<exists>k. key_parse header_name_ok key = Inr k"
    and "st \<in> set (rp_steps p) \<Longrightarrow> step_check p st = Inr ()"
    and "rp_metric_rollback p = Some m \<Longrightarrow> rp_rollback p \<noteq> None"
    and "rp_metric_rollback p = Some m \<Longrightarrow> 1 \<le> consecutive_failures m \<and> consecutive_failures m \<le> 120"
  using assms
  by (auto simp: is_ok_iff policy_check_def metric_rollback_validate_def result_simps
      split: option.splits sum.splits)

lemma those_map: "(\<And>x. x \<in> set xs \<Longrightarrow> f x = Some (g x)) \<Longrightarrow> those (map f xs) = Some (map g xs)"
  by (induction xs) auto

lemma sum_list_pos_iff: "0 < sum_list (xs :: nat list) \<longleftrightarrow> (\<exists>x\<in>set xs. 0 < x)"
  by (induction xs) auto

lemma step_weights_cover:
  assumes "step_check p st = Inr ()" and "bt_sorted (st_weights st)"
    and "distinct (map tg_service (rp_backends p))"
  shows "set (bt_keys (st_weights st)) = tg_service ` set (rp_backends p)"
proof (rule card_subset_eq)
  from assms(1) show "set (bt_keys (st_weights st)) \<subseteq> tg_service ` set (rp_backends p)"
    by (auto simp: step_check_def Let_def result_simps bt_keys_def)
  have "card (set (bt_keys (st_weights st))) = length (st_weights st)"
    using bt_sorted_distinct [OF assms(2)] distinct_card by (fastforce simp: bt_keys_def)
  also have "\<dots> = card (tg_service ` set (rp_backends p))"
    using assms(1) distinct_card [OF assms(3)] by (simp add: step_check_def Let_def result_simps)
  finally show "card (set (bt_keys (st_weights st))) = card (tg_service ` set (rp_backends p))" .
qed simp

definition current_weight :: "state \<Rightarrow> target \<Rightarrow> nat" where
  "current_weight s t =
     (case slice_get (rp_steps (s_policy s)) (stage s) of
        None \<Rightarrow> tg_weight t
      | Some st \<Rightarrow> the (bt_get (st_weights st) (tg_service t)))"

text \<open>The weights in force: those of the current stage, or the declared ones.\<close>

lemma stage_weights_current:
  assumes "state_ok header_name_ok s"
  shows "stage_weights s = Some (map (\<lambda>t. \<lparr>tg_service = tg_service t, tg_weight = current_weight s t\<rparr>)
      (rp_backends (s_policy s)))" (is ?eq)
    and "0 < sum_list (map (current_weight s) (rp_backends (s_policy s)))" (is ?pos)
proof -
  let ?p = "s_policy s"
  from assms have pol: "is_ok (policy_check header_name_ok ?p)" by (simp add: state_ok_def)
  note facts = policy_check_facts [OF pol]
  have "?eq \<and> ?pos"
  proof (cases "slice_get (rp_steps ?p) (stage s)")
    case None
    then have "current_weight s = tg_weight" by (simp add: current_weight_def fun_eq_iff)
    with None facts(1) show ?thesis by (auto simp: stage_weights_def intro!: those_map)
  next
    case (Some st)
    then have st: "st \<in> set (rp_steps ?p)" by (auto simp: slice_get_Some_iff)
    with assms have sorted: "bt_sorted (st_weights st)" by (simp add: state_ok_def)
    note cover = step_weights_cover [OF facts(6) [OF st] sorted facts(2)]
    have get: "bt_get (st_weights st) (tg_service t) \<noteq> None" if "t \<in> set (rp_backends ?p)" for t
      using cover that by (auto simp: set_bt_keys dom_def)
    from facts(6) [OF st] obtain k v where kv: "(k, v) \<in> set (st_weights st)" "0 < v"
      by (auto simp: step_check_def Let_def result_simps bt_values_def sum_list_pos_iff)
    moreover from kv have "k \<in> tg_service ` set (rp_backends ?p)"
      using cover by (force simp: bt_keys_def)
    moreover from kv sorted have "bt_get (st_weights st) k = Some v"
      using bt_sorted_distinct by (fastforce simp: bt_keys_def)
    ultimately have "\<exists>t\<in>set (rp_backends ?p). 0 < current_weight s t"
      using Some by (auto simp: current_weight_def intro!: bexI)
    moreover have "stage_weights s = Some (map (\<lambda>t. \<lparr>tg_service = tg_service t,
        tg_weight = current_weight s t\<rparr>) (rp_backends ?p))"
      using Some get by (auto simp: stage_weights_def current_weight_def intro!: those_map)
    ultimately show ?thesis by (simp add: sum_list_pos_iff)
  qed
  then show ?eq ?pos by simp_all
qed

section \<open>Selection\<close>

abbreviation as_target :: "string \<times> nat \<Rightarrow> target" where
  "as_target \<equiv> \<lambda>(a, w). \<lparr>tg_service = a, tg_weight = w\<rparr>"

lemma select_loop_owner: "select_loop ts n = interval_owner (map (\<lambda>t. (tg_service t, tg_weight t)) ts) n"
  by (induction ts n rule: select_loop.induct) auto

interpretation rollout_draw: weighted_choice "\<lambda>ts. select_loop (map as_target ts)"
proof
  fix n and ts :: "(string \<times> nat) list"
  assume "n < total_weight ts"
  moreover have "select_loop (map as_target ts) n = interval_owner ts n"
    by (simp add: select_loop_owner comp_def case_prod_beta)
  ultimately show "\<exists>i<length ts. select_loop (map as_target ts) n = Some (fst (ts ! i))
      \<and> total_weight (take i ts) \<le> n \<and> n < total_weight (take (Suc i) ts)"
    using interval_owner_interval by auto
qed

text \<open>The backends in force with their weights, in the order the policy declares them.\<close>

definition weighted_backends :: "state \<Rightarrow> (string \<times> nat) list" where
  "weighted_backends s =
     map (\<lambda>t. (the (bt_get (s_backends s) (tg_service t)), current_weight s t)) (rp_backends (s_policy s))"

lemma total_weighted_backends:
  "total_weight (weighted_backends s) = sum_list (map (current_weight s) (rp_backends (s_policy s)))"
  by (simp add: weighted_backends_def comp_def)

lemma total_weighted_backends_pos: "state_ok header_name_ok s \<Longrightarrow> 0 < total_weight (weighted_backends s)"
  using stage_weights_current(2) by (simp add: total_weighted_backends)

text \<open>A draw below the total picks the backend whose interval it falls into.\<close>

lemma select_loop_backend:
  assumes ok: "state_ok header_name_ok s" and n: "n < total_weight (weighted_backends s)"
    and ws: "stage_weights s = Some ws"
  shows "Option.bind (select_loop ws n) (bt_get (s_backends s)) = interval_owner (weighted_backends s) n"
proof -
  let ?f = "\<lambda>a. the (bt_get (s_backends s) a)"
  let ?ts = "map (\<lambda>t. (tg_service t, current_weight s t)) (rp_backends (s_policy s))"
  have loop: "select_loop ws n = interval_owner ?ts n"
    using ws stage_weights_current(1) [OF ok] by (auto simp: select_loop_owner comp_def)
  have "n < total_weight ?ts" using n by (simp add: total_weighted_backends comp_def)
  then obtain i where i: "i < length ?ts" "interval_owner ?ts n = Some (fst (?ts ! i))"
    using interval_owner_interval by blast
  then have "bt_get (s_backends s) (tg_service (rp_backends (s_policy s) ! i)) \<noteq> None"
    using ok by (simp add: state_ok_def)
  then have "Option.bind (interval_owner ?ts n) (bt_get (s_backends s)) =
      map_option ?f (interval_owner ?ts n)"
    using i by auto
  then show ?thesis
    by (simp only: loop interval_owner_map) (simp add: weighted_backends_def comp_def)
qed

lemma cohort_draw_below:
  assumes "cohort_draw header_name_ok sha256 s request m key = Some n" and "0 < m"
  shows "n < m"
proof -
  from assms(1) obtain h where n: "n = h mod 10000 * m div 10000"
    by (auto simp: cohort_draw_def Let_def split: sum.splits)
  have "h mod 10000 * m < 10000 * m" using assms(2) by simp
  then show ?thesis by (simp add: n less_mult_imp_div_less mult.commute)
qed

lemma draw_below:
  assumes "is_ok (policy_check header_name_ok (s_policy s))" and "0 < m"
  shows "\<exists>n<m. draw header_name_ok sha256 s request cursor m = Some n
    \<and> (rp_cohort (s_policy s) = None \<longrightarrow> n = unat cursor mod m)"
proof (cases "rp_cohort (s_policy s)")
  case None
  with assms(2) show ?thesis by (simp add: draw_def)
next
  case (Some key)
  obtain k where "key_parse header_name_ok key = Inr k"
    using policy_check_facts(5) [OF assms(1) Some] by blast
  then obtain n where "cohort_draw header_name_ok sha256 s request m key = Some n"
    by (simp add: cohort_draw_def Let_def)
  with cohort_draw_below [OF this assms(2)] Some show ?thesis by (simp add: draw_def)
qed

text \<open>
  Every request of a well-formed rollout is answered by its fallback, once rolled back, and
  otherwise by the backend whose interval a draw below the total weight falls into.
\<close>

lemma select_at_rolled_back:
  "rolled_back s \<Longrightarrow> select_at header_name_ok sha256 s request cursor = fallback_backend s"
  by (simp add: rolled_back_def select_at_def)

lemma select_at_drawn:
  assumes ok: "state_ok header_name_ok s" and "\<not> rolled_back s"
  obtains n where "n < total_weight (weighted_backends s)"
    and "select_at header_name_ok sha256 s request cursor = interval_owner (weighted_backends s) n"
    and "rp_cohort (s_policy s) = None \<longrightarrow> n = unat cursor mod total_weight (weighted_backends s)"
proof -
  obtain ws where ws: "stage_weights s = Some ws" using stage_weights_current(1) [OF ok] by blast
  let ?m = "sum_list (map tg_weight ws)"
  have sum: "?m = total_weight (weighted_backends s)"
    using ws stage_weights_current(1) [OF ok] by (auto simp: total_weighted_backends comp_def)
  have pol: "is_ok (policy_check header_name_ok (s_policy s))" using ok by (simp add: state_ok_def)
  obtain n where n: "n < ?m" "draw header_name_ok sha256 s request cursor ?m = Some n"
    "rp_cohort (s_policy s) = None \<longrightarrow> n = unat cursor mod ?m"
    using draw_below [OF pol] total_weighted_backends_pos [OF ok] sum by metis
  then have "select_at header_name_ok sha256 s request cursor = interval_owner (weighted_backends s) n"
    using assms(2) ws select_loop_backend [OF ok _ ws] sum by (simp add: select_at_def rolled_back_def)
  with n that show thesis by (simp only: sum)
qed

lemma fallback_backend_some:
  assumes ok: "state_ok header_name_ok s" and "rolled_back s"
  shows "\<exists>b. fallback_backend s = Some b"
proof -
  obtain r where r: "rp_rollback (s_policy s) = Some r"
    using assms by (auto simp: state_ok_def window_ok_def rolled_back_def split: option.splits)
  moreover have "is_ok (policy_check header_name_ok (s_policy s))" using ok by (simp add: state_ok_def)
  ultimately obtain t where t: "t \<in> set (rp_backends (s_policy s))" "rb_fallback r = tg_service t"
    using policy_check_facts(3) by blast
  then have "bt_get (s_backends s) (tg_service t) \<noteq> None" using ok by (simp add: state_ok_def)
  with r t show ?thesis by (auto simp: fallback_backend_def)
qed

definition selectable :: "state \<Rightarrow> string set" where
  "selectable s =
     (if rolled_back s then set_option (fallback_backend s)
      else fst ` {bw \<in> set (weighted_backends s). 0 < snd bw})"

text \<open>
  C7. Selection never panics and never routes to a target of weight zero: in a well-formed state
  \<open>select_at\<close> returns a backend, the fallback once the rollout is rolled back and otherwise the
  backend of a target whose current weight is positive, whatever the cursor, the request and the
  digest function.
\<close>

theorem rollout_select_total:
  assumes "state_ok header_name_ok s"
  shows "\<exists>b. select_at header_name_ok sha256 s request cursor = Some b \<and> b \<in> selectable s"
proof (cases "rolled_back s")
  case True
  with select_at_rolled_back [OF True] fallback_backend_some [OF assms True]
  show ?thesis by (simp add: selectable_def)
next
  case False
  obtain n where n: "n < total_weight (weighted_backends s)"
      "select_at header_name_ok sha256 s request cursor = interval_owner (weighted_backends s) n"
    using select_at_drawn [OF assms False] by metis
  obtain b w where "select_loop (map as_target (weighted_backends s)) n = Some b"
      "(b, w) \<in> set (weighted_backends s)" "0 < w"
    using rollout_draw.pick_some [OF n(1)] by blast
  with n rollout_draw.pick_owner [OF n(1)] False show ?thesis
    by (force simp: selectable_def)
qed

definition demo_rollback :: rollback where
  "demo_rollback = \<lparr>rb_fallback = ''stable'', rb_min_requests = 2, rb_error_percent = 50,
     rb_window_seconds = 60, rb_max_p95_ms = Some 100\<rparr>"

definition demo_policy :: rollout_policy where
  "demo_policy = \<lparr>rp_revision = ''r1'',
     rp_backends = [\<lparr>tg_service = ''stable'', tg_weight = 1\<rparr>, \<lparr>tg_service = ''canary'', tg_weight = 0\<rparr>],
     rp_mirror = None, rp_rollback = Some demo_rollback,
     rp_steps = [\<lparr>st_weights = [(''canary'', 1), (''stable'', 3)], st_duration_seconds = 60,
         st_min_requests = 1, st_approval = False\<rparr>,
       \<lparr>st_weights = [(''canary'', 1), (''stable'', 0)], st_duration_seconds = 60,
         st_min_requests = 1, st_approval = True\<rparr>],
     rp_cohort = None, rp_metric_gates = [''orders''],
     rp_metric_rollback = Some \<lparr>consecutive_failures = 2, failure_seconds = 2,
       on_unavailable = Unavailable_Pause\<rparr>\<rparr>"

definition demo_state :: state where
  "demo_state = new_state ''Ingress'' ''ns/app'' ''uid'' demo_policy
     [(''canary'', ''c''), (''stable'', ''s'')]"

lemma demo_state_ok: "state_ok (\<lambda>_. True) demo_state"
  by (simp add: state_ok_def demo_state_def new_state_def demo_policy_def demo_rollback_def
      policy_check_def step_check_def metric_rollback_validate_def bt_values_def bt_sorted_def
      bt_keys_def stage_def stage_bound_def default_progress_def window_ok_def default_window_def
      tally_def default_samples_def)

theorem rollout_select_total_witness:
  "\<exists>b. select_at (\<lambda>_. True) id demo_state empty_request 3 = Some b \<and> b \<in> selectable demo_state"
  by (rule rollout_select_total [OF demo_state_ok])

text \<open>A run of requests, one after the other, as the atomic cursor serialises them.\<close>

fun select_many ::
  "(string \<Rightarrow> bool) \<Rightarrow> (string \<Rightarrow> string) \<Rightarrow> request_data list \<Rightarrow> state \<Rightarrow> string option list" where
  "select_many header_name_ok sha256 [] s = []"
| "select_many header_name_ok sha256 (r # rs) s =
     (case select header_name_ok sha256 r s of
        (b, s') \<Rightarrow> b # select_many header_name_ok sha256 rs s')"

lemma select_at_cursor [simp]:
  "select_at header_name_ok sha256 (s\<lparr>s_cursor := c\<rparr>) = select_at header_name_ok sha256 s"
proof -
  have "cohort_draw header_name_ok sha256 (s\<lparr>s_cursor := c\<rparr>) = cohort_draw header_name_ok sha256 s"
    by (simp add: fun_eq_iff cohort_draw_def split: sum.split)
  then have "draw header_name_ok sha256 (s\<lparr>s_cursor := c\<rparr>) = draw header_name_ok sha256 s"
    by (simp add: fun_eq_iff draw_def split: option.split)
  moreover have "fallback_backend (s\<lparr>s_cursor := c\<rparr>) = fallback_backend s"
    by (simp add: fallback_backend_def)
  moreover have "stage_weights (s\<lparr>s_cursor := c\<rparr>) = stage_weights s"
    by (simp add: stage_weights_def stage_def)
  ultimately show ?thesis by (simp add: fun_eq_iff select_at_def)
qed

lemma select_many_cursors:
  "select_many header_name_ok sha256 rs s =
     map (\<lambda>(i, r). select_at header_name_ok sha256 s r (s_cursor s + of_nat i)) (zip [0..<length rs] rs)"
proof (induction rs arbitrary: s)
  case (Cons r rs)
  have "zip [0..<length (r # rs)] (r # rs) = (0, r) # map (\<lambda>(i, r). (Suc i, r)) (zip [0..<length rs] rs)"
    by (simp add: upt_conv_Cons zip_map1 map_Suc_upt [symmetric] del: upt_Suc map_Suc_upt)
  then show ?case
    by (simp add: Cons.IH select_def case_prod_beta comp_def add.assoc)
qed simp

text \<open>
  C8. Without a cohort key the weights are met exactly: of any \<open>total weight\<close> consecutive requests
  to a rollout that is not rolled back, each backend answers as many as the current stage's
  weights give it, unless the 64-bit cursor wraps in between.
\<close>

theorem rollout_select_share:
  assumes ok: "state_ok header_name_ok s" and "\<not> rolled_back s" and "rp_cohort (s_policy s) = None"
    and len: "length rs = total_weight (weighted_backends s)"
    and wrap: "unat (s_cursor s) + length rs \<le> 2 ^ 64"
  shows "count_list (select_many header_name_ok sha256 rs s) (Some b) = share b (weighted_backends s)"
proof -
  let ?ts = "weighted_backends s" and ?k = "unat (s_cursor s)"
  let ?pick = "\<lambda>c. select_loop (map as_target ?ts) (c mod total_weight ?ts)"
  note pos = total_weighted_backends_pos [OF ok]
  have at: "select_at header_name_ok sha256 s r (s_cursor s + of_nat i) = ?pick (?k + i)"
    if "i < length rs" for i r
  proof -
    have "unat (s_cursor s + of_nat i) = ?k + i"
      using that wrap by (simp add: unat_word_ariths unat_of_nat)
    then show ?thesis
      using select_at_drawn [OF ok assms(2), of sha256 r "s_cursor s + of_nat i"] assms(3)
        rollout_draw.pick_owner [of _ ?ts] by metis
  qed
  have "select_many header_name_ok sha256 rs s = map (\<lambda>i. ?pick (?k + i)) [0..<length rs]"
    unfolding select_many_cursors by (rule nth_equalityI) (simp_all add: at)
  also have "\<dots> = map ?pick [?k..<?k + length rs]"
    by (rule nth_equalityI) simp_all
  finally show ?thesis
    using rollout_draw.round_robin_share [OF pos, of ?k b] by (simp add: count_list_map_upt len)
qed

theorem rollout_select_share_witness:
  "count_list (select_many (\<lambda>_. True) id (replicate 4 empty_request) demo_state) (Some ''s'') =
     share ''s'' (weighted_backends demo_state)"
proof (rule rollout_select_share [OF demo_state_ok])
  show "\<not> rolled_back demo_state" by code_simp
  show "rp_cohort (s_policy demo_state) = None" by code_simp
  show "length (replicate 4 empty_request) = total_weight (weighted_backends demo_state)" by code_simp
  show "unat (s_cursor demo_state) + length (replicate 4 empty_request) \<le> 2 ^ 64"
    by (simp add: demo_state_def new_state_def)
qed

section \<open>The window\<close>

text \<open>
  What the loop of \<open>Window::prune\<close> computes on samples in time order: the samples that have not
  expired, and of these the newest ten thousand. The running totals stay those of the samples.
\<close>

definition expired :: "instant \<Rightarrow> rollback \<Rightarrow> sample \<Rightarrow> bool" where
  "expired now rule x \<longleftrightarrow> rb_window_seconds rule < as_secs (duration_since now (fst x))"

definition retained :: "instant \<Rightarrow> rollback \<Rightarrow> sample list \<Rightarrow> sample list" where
  "retained now rule xs =
     (let ys = filter (\<lambda>x. \<not> expired now rule x) xs in drop (length ys - 10000) ys)"

lemma expired_antimono: "expired now rule y \<Longrightarrow> fst x \<le> fst y \<Longrightarrow> expired now rule x"
proof -
  assume "expired now rule y" and "fst x \<le> fst y"
  moreover from this have "as_secs (duration_since now (fst y)) \<le> as_secs (duration_since now (fst x))"
    unfolding as_secs_def duration_since_def by (intro div_le_mono diff_le_mono2)
  ultimately show ?thesis by (simp add: expired_def)
qed

lemma tally_Nil [simp]: "tally rule [] = default_samples"
  by (simp add: tally_def default_samples_def)

lemma prune_samples_retained:
  assumes "sorted (map fst xs)"
  shows "prune_samples now rule xs (tally rule xs) =
    (retained now rule xs, tally rule (retained now rule xs))"
  using assms
proof (induction xs)
  case (Cons x xs)
  obtain pushed failed elapsed where x: "x = (pushed, failed, elapsed)" by (cases x) auto
  have pop: "\<lparr>sm_count = sm_count (tally rule (x # xs)) - 1,
      sm_errors = sm_errors (tally rule (x # xs)) - (if failed then 1 else 0),
      sm_slow = sm_slow (tally rule (x # xs)) - (if is_slow rule elapsed then 1 else 0)\<rparr> = tally rule xs"
    by (simp add: tally_def x)
  show ?case
  proof (cases "expired now rule x")
    case True
    moreover from this have "retained now rule (x # xs) = retained now rule xs"
      by (simp add: retained_def)
    ultimately show ?thesis
      using Cons pop by (simp add: x expired_def)
  next
    case False
    have "\<not> expired now rule y" if "y \<in> set xs" for y
      using False that Cons.prems expired_antimono by fastforce
    then have all: "filter (\<lambda>x. \<not> expired now rule x) xs = xs" by simp
    show ?thesis
    proof (cases "10000 < length (x # xs)")
      case True
      then have "length (x # xs) - 10000 = Suc (length xs - 10000)" by simp
      then have "retained now rule (x # xs) = retained now rule xs"
        using False all by (simp add: retained_def)
      with True Cons pop show ?thesis by (simp add: x)
    next
      case False2: False
      with False all have "retained now rule (x # xs) = x # xs" by (simp add: retained_def)
      with False False2 show ?thesis by (simp add: x expired_def)
    qed
  qed
qed (simp add: retained_def)

lemma retained_bounded: "length (retained now rule xs) \<le> 10000"
  by (simp add: retained_def Let_def)

lemma retained_sorted: "sorted (map fst xs) \<Longrightarrow> sorted (map fst (retained now rule xs))"
  by (simp add: retained_def Let_def drop_map [symmetric] sorted_wrt_drop sorted_filter)

lemma push_sample_tally:
  "w_totals w = tally rule (w_samples w) \<Longrightarrow>
   w_totals (push_sample now failed elapsed rule w) = tally rule (w_samples w @ [(now, failed, elapsed)])"
  by (simp add: push_sample_def tally_def)

lemma prune_window:
  assumes "sorted (map fst (w_samples w))" and "w_totals w = tally rule (w_samples w)"
  shows "prune now rule w = w\<lparr>w_samples := retained now rule (w_samples w),
    w_totals := tally rule (retained now rule (w_samples w))\<rparr>"
  using prune_samples_retained [OF assms(1)] assms(2) by (simp add: prune_def)

lemma judge_window: "judge rule w = (tripped, w') \<Longrightarrow> w_samples w' = w_samples w \<and> w_totals w' = w_totals w"
  by (auto simp: judge_def Let_def split: if_splits)

lemma judge_rolled_back: "judge rule w = (tripped, w') \<Longrightarrow> w_rolled_back w' = (tripped \<or> w_rolled_back w)"
  by (auto simp: judge_def Let_def split: if_splits)

lemma prune_rolled_back [simp]: "w_rolled_back (prune now rule w) = w_rolled_back w"
  by (simp add: prune_def split: prod.split)

lemma push_sample_rolled_back [simp]:
  "w_rolled_back (push_sample now failed elapsed rule w) = w_rolled_back w"
  by (simp add: push_sample_def)

lemma any_target_some:
  "\<forall>t\<in>set ts. bt_get m (tg_service t) \<noteq> None \<Longrightarrow>
   any_target m b ts = Some (\<exists>t\<in>set ts. bt_get m (tg_service t) = Some b)"
  by (induction ts) auto

text \<open>
  A completion counts when it belongs to the current stage of a policy with a rollback rule that
  has not fired, and its backend is one of the targets other than the fallback.
\<close>

definition counts :: "string \<Rightarrow> nat \<Rightarrow> state \<Rightarrow> bool" where
  "counts backend at_stage s \<longleftrightarrow>
     at_stage = stage s \<and> rp_rollback (s_policy s) \<noteq> None \<and> \<not> rolled_back s
     \<and> fallback_backend s \<noteq> Some backend
     \<and> (\<exists>t\<in>set (rp_backends (s_policy s)). bt_get (s_backends s) (tg_service t) = Some backend)"

lemma completed_cases:
  assumes ok: "state_ok header_name_ok s"
  shows "completed now backend failed elapsed at_stage s =
    (case rp_rollback (s_policy s) of
       Some rule \<Rightarrow>
         if counts backend at_stage s
         then let (tripped, w) = judge rule (prune now rule
                (push_sample now failed (min (as_millis elapsed) u64_max) rule (s_window s)))
              in Some (tripped, s\<lparr>s_window := w\<rparr>)
         else Some (False, s)
     | None \<Rightarrow> Some (False, s))"
proof (cases "rp_rollback (s_policy s)")
  case None
  then show ?thesis by (simp add: completed_def)
next
  case (Some rule)
  have pol: "is_ok (policy_check header_name_ok (s_policy s))" using ok by (simp add: state_ok_def)
  obtain t where t: "t \<in> set (rp_backends (s_policy s))" "rb_fallback rule = tg_service t"
    using policy_check_facts(3) [OF pol Some] by blast
  then obtain fb where fb: "bt_get (s_backends s) (rb_fallback rule) = Some fb"
    using ok by (auto simp: state_ok_def)
  have "any_target (s_backends s) backend (rp_backends (s_policy s)) =
      Some (\<exists>t\<in>set (rp_backends (s_policy s)). bt_get (s_backends s) (tg_service t) = Some backend)"
    using ok by (intro any_target_some) (simp add: state_ok_def)
  then show ?thesis
    using Some fb
    by (simp add: completed_def counts_def stage_def fallback_backend_def rolled_back_def Let_def)
qed

section \<open>The rollback decision\<close>

text \<open>The nearest-rank 95th percentile: the element of rank \<open>ceil (0.95 n)\<close> of the sorted values.\<close>

definition p95 :: "nat list \<Rightarrow> nat" where
  "p95 xs = sort xs ! ((95 * length xs + 99) div 100 - 1)"

lemma sorted_nth_above:
  assumes "sorted xs" and "i < length xs"
  shows "L < xs ! i \<longleftrightarrow> length xs - i \<le> length (filter (\<lambda>x. L < x) (xs :: nat list))"
  using assms
proof (induction xs arbitrary: i)
  case (Cons x xs)
  have all: "L < x \<Longrightarrow> filter (\<lambda>x. L < x) xs = xs" using Cons.prems(1) by (auto simp: filter_id_conv)
  show ?case
  proof (cases i)
    case 0
    then show ?thesis
      using all length_filter_le [of "(<) L" xs] 
      by (cases "L < x") (simp_all add: not_le less_Suc_eq_le)
  next
    case (Suc j)
    with Cons all show ?thesis by auto
  qed
qed simp

text \<open>
  The comparison the code makes instead of sorting: the percentile exceeds the limit exactly when
  more than a twentieth of the values, rounded down, do.
\<close>

lemma p95_exceeds_iff:
  assumes "xs \<noteq> []"
  shows "L < p95 xs \<longleftrightarrow> length xs div 20 < length (filter (\<lambda>x. L < x) xs)"
proof -
  let ?n = "length xs" and ?i = "(95 * length xs + 99) div 100 - 1"
  have n: "0 < ?n" using assms by simp
  have i: "?i < ?n" using n by linarith
  have "L < p95 xs \<longleftrightarrow> ?n - ?i \<le> length (filter (\<lambda>x. L < x) (sort xs))"
    unfolding p95_def using sorted_nth_above [of "sort xs" ?i L] i by simp
  also have "length (filter (\<lambda>x. L < x) (sort xs)) = length (filter (\<lambda>x. L < x) xs)"
    by (simp add: filter_sort)
  also have "?n - ?i = Suc (?n div 20)" using n by linarith
  finally show ?thesis by (simp add: Suc_le_eq)
qed

abbreviation elapsed_of :: "sample \<Rightarrow> nat" where
  "elapsed_of x \<equiv> snd (snd x)"

definition unhealthy :: "rollback \<Rightarrow> sample list \<Rightarrow> bool" where
  "unhealthy rule xs \<longleftrightarrow>
     rb_min_requests rule \<le> length xs
     \<and> (length xs * rb_error_percent rule \<le> 100 * length (filter (\<lambda>x. fst (snd x)) xs)
        \<or> (\<exists>limit. rb_max_p95_ms rule = Some limit \<and> limit < p95 (map elapsed_of xs)))"

lemma judge_unhealthy:
  assumes "w_totals w = tally rule (w_samples w)" and "1 \<le> rb_min_requests rule"
  shows "fst (judge rule w) \<longleftrightarrow> unhealthy rule (w_samples w)"
proof (cases "w_samples w = []")
  case True
  with assms show ?thesis
    by (simp add: judge_def unhealthy_def default_samples_def Let_def)
next
  case False
  have err: "error_limit rule (w_totals w) \<longleftrightarrow>
      length (w_samples w) * rb_error_percent rule \<le> 100 * length (filter (\<lambda>x. fst (snd x)) (w_samples w))"
    by (simp add: error_limit_def assms(1) tally_def case_prod_beta mult.commute)
  have lat: "latency_limit rule (w_totals w) \<longleftrightarrow>
      (\<exists>limit. rb_max_p95_ms rule = Some limit \<and> limit < p95 (map elapsed_of (w_samples w)))"
  proof (cases "rb_max_p95_ms rule")
    case (Some limit)
    have "latency_limit rule (w_totals w) \<longleftrightarrow>
        length (w_samples w) div 20 < length (filter (\<lambda>x. limit < elapsed_of x) (w_samples w))"
      by (simp add: latency_limit_def assms(1) tally_def is_slow_def Some case_prod_beta)
    with Some False p95_exceeds_iff [of "map elapsed_of (w_samples w)" limit] show ?thesis
      by (simp add: filter_map comp_def)
  qed (simp add: latency_limit_def)
  have "sm_count (w_totals w) = length (w_samples w)" by (simp add: assms(1) tally_def)
  with err lat show ?thesis by (auto simp: judge_def unhealthy_def Let_def)
qed

text \<open>
  C9. The rollback decision is the documented one: a completion that counts is added to the
  window, samples older than the window or beyond the newest ten thousand are dropped, and the
  rollout is rolled back exactly when the samples left are at least \<open>min_requests\<close> and their error
  rate reaches \<open>error_percent\<close> or their nearest-rank 95th percentile latency exceeds
  \<open>max_p95_ms\<close>, although the code keeps three counters and never sorts; a completion that does
  not count changes nothing.
\<close>

theorem rollout_completed_decides:
  assumes ok: "state_ok header_name_ok s" and rule: "rp_rollback (s_policy s) = Some rule"
    and clock: "\<forall>x\<in>set (w_samples (s_window s)). fst x \<le> now"
  shows "\<exists>tripped s'. completed now backend failed elapsed at_stage s = Some (tripped, s')
    \<and> (if counts backend at_stage s then
         w_samples (s_window s') = retained now rule
             (w_samples (s_window s) @ [(now, failed, min (as_millis elapsed) u64_max)])
         \<and> tripped = unhealthy rule (w_samples (s_window s'))
         \<and> rolled_back s' = tripped
       else \<not> tripped \<and> s' = s)"
proof (cases "counts backend at_stage s")
  case True
  let ?w = "push_sample now failed (min (as_millis elapsed) u64_max) rule (s_window s)"
  let ?p = "prune now rule ?w"
  have wok: "window_ok (Some rule) (s_window s)" using ok rule by (simp add: state_ok_def)
  have samples: "w_samples ?w = w_samples (s_window s) @ [(now, failed, min (as_millis elapsed) u64_max)]"
    by (simp add: push_sample_def)
  have sorted: "sorted (map fst (w_samples ?w))"
    using wok clock by (auto simp: samples window_ok_def sorted_append)
  have tally: "w_totals ?w = tally rule (w_samples ?w)"
    using wok push_sample_tally by (simp add: samples window_ok_def)
  note p = prune_window [OF sorted tally, of now]
  have "is_ok (policy_check header_name_ok (s_policy s))" using ok by (simp add: state_ok_def)
  then have "fst (judge rule ?p) = unhealthy rule (w_samples ?p)"
    using judge_unhealthy [of ?p rule] policy_check_facts(4) rule p by simp
  moreover obtain tripped w' where j: "judge rule ?p = (tripped, w')" by fastforce
  moreover have "w_rolled_back w' = tripped"
    using judge_rolled_back [OF j] True by (simp add: counts_def rolled_back_def)
  ultimately show ?thesis
    using True rule judge_window [OF j] completed_cases [OF ok] p samples by (simp add: rolled_back_def)
next
  case False
  with rule completed_cases [OF ok] show ?thesis by (auto intro: exI [of _ False])
qed

theorem rollout_completed_decides_witness:
  "\<exists>tripped s'. completed 5 ''c'' True 0 0 demo_state = Some (tripped, s')
    \<and> (if counts ''c'' 0 demo_state then
         w_samples (s_window s') = retained 5 demo_rollback
             (w_samples (s_window demo_state) @ [(5, True, min (as_millis 0) u64_max)])
         \<and> tripped = unhealthy demo_rollback (w_samples (s_window s'))
         \<and> rolled_back s' = tripped
       else \<not> tripped \<and> s' = demo_state)"
  by (rule rollout_completed_decides [OF demo_state_ok])
     (simp_all add: demo_state_def new_state_def demo_policy_def default_window_def)

section \<open>Runs of a rollout\<close>

text \<open>
  The operations other components call on a shared state, in any order. Completions read the clock
  under the window lock, so the reading is not before any sample of the window.
\<close>

inductive rollout_step ::
  "(string \<Rightarrow> bool) \<Rightarrow> (string \<Rightarrow> string) \<Rightarrow> (rollout_policy \<Rightarrow> string) \<Rightarrow> key_vec \<Rightarrow> (string \<Rightarrow> progress option)
     \<Rightarrow> state \<Rightarrow> state \<Rightarrow> bool"
  for header_name_ok sha256 to_vec key_vec progress_from_str where
  Select: "select header_name_ok sha256 request s = (b, s') \<Longrightarrow>
    rollout_step header_name_ok sha256 to_vec key_vec progress_from_str s s'"
| Completed: "completed now backend failed elapsed at_stage s = Some (tripped, s') \<Longrightarrow>
    \<forall>x\<in>set (w_samples (s_window s)). fst x \<le> now \<Longrightarrow>
    rollout_step header_name_ok sha256 to_vec key_vec progress_from_str s s'"
| Force: "rollout_step header_name_ok sha256 to_vec key_vec progress_from_str s (force_rollback s)"
| Report: "sample_report sha256 to_vec key_vec now s = (report, s') \<Longrightarrow>
    rollout_step header_name_ok sha256 to_vec key_vec progress_from_str s s'"
| Sync: "sync_progress sha256 to_vec progress_from_str value s = (res, s') \<Longrightarrow>
    rollout_step header_name_ok sha256 to_vec key_vec progress_from_str s s'"
| Metrics: "evaluate_metrics now digest results s = (tripped, s') \<Longrightarrow>
    rollout_step header_name_ok sha256 to_vec key_vec progress_from_str s s'"

text \<open>What every operation keeps: the policy, the backends and a rollback that has happened.\<close>

definition same_rollout :: "state \<Rightarrow> state \<Rightarrow> bool" where
  "same_rollout s s' \<longleftrightarrow> s_policy s' = s_policy s \<and> s_backends s' = s_backends s
     \<and> (rolled_back s \<longrightarrow> rolled_back s')"

lemma metric_loop_window:
  "metric_loop now digest rule results names gates w = (tripped, gates', w') \<Longrightarrow>
     w_samples w' = w_samples w \<and> w_totals w' = w_totals w
     \<and> w_rolled_back w' = (tripped \<or> w_rolled_back w)"
  by (induction names arbitrary: gates)
     (auto simp: Let_def split: option.splits if_splits prod.splits)

lemma evaluate_metrics_effect:
  assumes "evaluate_metrics now digest results s = (tripped, s')"
  shows "same_rollout s s'" and "s_progress s' = s_progress s"
    and "w_samples (s_window s') = w_samples (s_window s)"
    and "w_totals (s_window s') = w_totals (s_window s)"
    and "rolled_back s' = (tripped \<or> rolled_back s)"
    and "rp_metric_rollback (s_policy s) = None \<Longrightarrow> s' = s"
  using assms
  by (auto simp: evaluate_metrics_def same_rollout_def rolled_back_def Let_def
      dest!: metric_loop_window split: option.splits prod.splits)

lemma rollout_step_same:
  assumes "rollout_step header_name_ok sha256 to_vec key_vec progress_from_str s s'"
    and "state_ok header_name_ok s"
  shows "same_rollout s s'"
  using assms
proof (cases rule: rollout_step.cases)
  case (Completed now backend failed elapsed at_stage tripped)
  with completed_cases [OF assms(2), of now backend failed elapsed at_stage] show ?thesis
    by (auto simp: same_rollout_def rolled_back_def Let_def
        dest!: judge_rolled_back split: option.splits if_splits prod.splits)
qed (auto simp: same_rollout_def rolled_back_def select_def force_rollback_def sample_report_def
    sync_progress_def install_progress_def Let_def dest: evaluate_metrics_effect(1)
    split: option.splits if_splits)

lemma window_ok_prune:
  assumes "window_ok (Some rule) w"
  shows "window_ok (Some rule) (prune now rule w)"
proof -
  have sorted: "sorted (map fst (w_samples w))" and tally: "w_totals w = tally rule (w_samples w)"
    using assms by (simp_all add: window_ok_def)
  show ?thesis
    unfolding prune_window [OF sorted tally] by (simp add: window_ok_def retained_bounded retained_sorted sorted)
qed

lemma completed_window_ok:
  assumes ok: "state_ok header_name_ok s"
    and step: "completed now backend failed elapsed at_stage s = Some (tripped, s')"
    and clock: "\<forall>x\<in>set (w_samples (s_window s)). fst x \<le> now"
  shows "window_ok (rp_rollback (s_policy s)) (s_window s') \<and> s_progress s' = s_progress s"
proof (cases "rp_rollback (s_policy s) \<noteq> None \<and> counts backend at_stage s")
  case True
  then obtain rule where rule: "rp_rollback (s_policy s) = Some rule" by blast
  let ?w = "push_sample now failed (min (as_millis elapsed) u64_max) rule (s_window s)"
  obtain w where j: "judge rule (prune now rule ?w) = (tripped, w)" and s': "s' = s\<lparr>s_window := w\<rparr>"
    using step True rule completed_cases [OF ok] by (auto simp: Let_def split: prod.splits)
  have wok: "window_ok (Some rule) (s_window s)" using ok rule by (simp add: state_ok_def)
  then have "sorted (map fst (w_samples ?w))"
    using clock by (auto simp: push_sample_def window_ok_def sorted_append)
  moreover have "w_totals ?w = tally rule (w_samples ?w)"
    using wok push_sample_tally by (simp add: push_sample_def window_ok_def)
  ultimately have "window_ok (Some rule) (prune now rule ?w)"
    by (subst prune_window) (simp_all add: window_ok_def retained_bounded retained_sorted)
  with judge_window [OF j] rule s' show ?thesis by (simp add: window_ok_def)
next
  case False
  with ok step completed_cases [OF ok] have "s' = s" by (auto split: option.splits)
  with ok show ?thesis by (simp add: state_ok_def)
qed

lemma stage_bound_pos: "0 < stage_bound p"
  by (simp add: stage_bound_def)

lemma rollout_step_ok:
  assumes step: "rollout_step header_name_ok sha256 to_vec key_vec progress_from_str s s'"
    and ok: "state_ok header_name_ok s"
  shows "state_ok header_name_ok s'"
proof -
  have same: "same_rollout s s'" by (rule rollout_step_same [OF step ok])
  have wok: "window_ok (rp_rollback (s_policy s)) (s_window s)"
    and st: "stage s < stage_bound (s_policy s)"
    using ok by (simp_all add: state_ok_def)
  from step have "window_ok (rp_rollback (s_policy s)) (s_window s') \<and> stage s' < stage_bound (s_policy s)"
  proof (cases rule: rollout_step.cases)
    case (Completed now backend failed elapsed at_stage tripped)
    with completed_window_ok [OF ok] st show ?thesis by (simp add: stage_def)
  next
    case (Metrics now digest results tripped)
    have "rolled_back s' \<longrightarrow> rp_rollback (s_policy s) \<noteq> None"
    proof (cases "rp_metric_rollback (s_policy s)")
      case None
      then have "s' = s" using evaluate_metrics_effect(6) [OF Metrics] by blast
      with wok show ?thesis by (auto simp: window_ok_def rolled_back_def split: option.splits)
    next
      case (Some m)
      with ok policy_check_facts(7) show ?thesis by (auto simp: state_ok_def)
    qed
    with evaluate_metrics_effect [OF Metrics] wok st show ?thesis
      by (auto simp: window_ok_def stage_def rolled_back_def split: option.splits)
  next
    case (Report now report)
    with wok st show ?thesis
      by (auto simp: sample_report_def stage_def Let_def window_ok_prune split: option.splits)
  next
    case (Sync v res)
    with wok st show ?thesis
      by (auto simp: sync_progress_def install_progress_def stage_def window_ok_def Let_def
          default_progress_def stage_bound_pos split: option.splits if_splits)
  qed (use wok st in \<open>auto simp: select_def force_rollback_def stage_def window_ok_def
      split: option.splits\<close>)
  with same ok show ?thesis by (simp add: state_ok_def same_rollout_def)
qed

lemma rollout_run_keeps:
  assumes "(rollout_step header_name_ok sha256 to_vec key_vec progress_from_str)\<^sup>*\<^sup>* s s'"
    and "state_ok header_name_ok s"
  shows "state_ok header_name_ok s' \<and> same_rollout s s'"
  using assms
proof (induction rule: rtranclp_induct)
  case (step t u)
  then have "state_ok header_name_ok u" "same_rollout t u"
    using rollout_step_ok rollout_step_same by blast+
  with step show ?case by (simp add: same_rollout_def)
qed (simp add: same_rollout_def)

text \<open>
  C10. A rollback is final and takes effect everywhere: once a well-formed rollout is rolled back,
  after any sequence of completions, selections, progress updates, metric evaluations and reports
  every selection and every enforced backend is the fallback backend the policy names.
\<close>

theorem rollout_rollback_final:
  assumes ok: "state_ok header_name_ok s" and "rolled_back s"
    and run: "(rollout_step header_name_ok sha256 to_vec key_vec progress_from_str)\<^sup>*\<^sup>* s s'"
  shows "\<exists>fb. fallback_backend s = Some fb
    \<and> select_at header_name_ok sha256 s' request cursor = Some fb \<and> enforce s' backend = Some fb"
proof -
  have same: "same_rollout s s'" and "rolled_back s'"
    using rollout_run_keeps [OF run ok] assms(2) by (simp_all add: same_rollout_def)
  moreover have "fallback_backend s' = fallback_backend s"
    using same by (simp add: fallback_backend_def same_rollout_def)
  ultimately show ?thesis
    using fallback_backend_some [OF ok assms(2)] select_at_rolled_back [of s']
    by (auto simp: enforce_def rolled_back_def)
qed

theorem rollout_rollback_final_witness:
  "\<exists>fb. fallback_backend (force_rollback demo_state) = Some fb
    \<and> select_at (\<lambda>_. True) id (snd (select (\<lambda>_. True) id empty_request (force_rollback demo_state)))
        empty_request 7 = Some fb
    \<and> enforce (snd (select (\<lambda>_. True) id empty_request (force_rollback demo_state))) ''c'' = Some fb"
proof (rule rollout_rollback_final [where to_vec = rp_revision and key_vec = "\<lambda>k ow u h n i. k"
      and progress_from_str = "\<lambda>_. None"])
  show "state_ok (\<lambda>_. True) (force_rollback demo_state)"
    by (rule rollout_step_ok [OF rollout_step.Force demo_state_ok])
  show "rolled_back (force_rollback demo_state)"
    by (simp add: rolled_back_def force_rollback_def demo_state_def new_state_def demo_policy_def)
  show "(rollout_step (\<lambda>_. True) id rp_revision (\<lambda>k ow u h n i. k) (\<lambda>_. None))\<^sup>*\<^sup>*
      (force_rollback demo_state) (snd (select (\<lambda>_. True) id empty_request (force_rollback demo_state)))"
    by (intro r_into_rtranclp rollout_step.Select) (rule surjective_pairing)
qed

section \<open>Promotion\<close>

text \<open>The condition under which the current stage may be left.\<close>

definition stage_done :: "int \<Rightarrow> samples \<Rightarrow> step \<Rightarrow> state \<Rightarrow> bool" where
  "stage_done now t st s \<longleftrightarrow>
     \<not> pg_paused (s_progress s) \<and> \<not> pg_promoted (s_progress s) \<and> \<not> rolled_back s
     \<and> int (st_duration_seconds st) \<le> now - pg_started_at (s_progress s)
     \<and> (st_approval st \<longrightarrow> pg_approved_stage (s_progress s) = Some (stage s))
     \<and> st_min_requests st \<le> sm_count t
     \<and> (0 < sm_count t \<longrightarrow> is_none_or (rp_rollback (s_policy s)) (\<lambda>rule.
          sm_errors t * 100 < sm_count t * rb_error_percent rule
          \<and> (rb_max_p95_ms rule \<noteq> None \<longrightarrow> sm_slow t \<le> sm_count t div 20)))"

definition advanced :: "int \<Rightarrow> progress \<Rightarrow> progress \<Rightarrow> nat \<Rightarrow> bool" where
  "advanced now p q n \<longleftrightarrow>
     (if pg_stage p + 1 = n then q = p\<lparr>pg_promoted := True\<rparr>
      else q = p\<lparr>pg_stage := pg_stage p + 1, pg_started_at := now, pg_approved_stage := None\<rparr>)"

text \<open>
  C11. Stages advance one at a time and only on evidence: for a well-formed rollout with steps,
  \<open>next_progress\<close> never panics; before the first stage has started it starts it; otherwise it
  proposes to leave the stage exactly when the gates pass, samples were reported and the stage is
  done (time elapsed, approval given, enough requests, no error or latency limit reached), and what
  it proposes is the next stage started now or, on the last stage, promotion.
\<close>

theorem rollout_promotion_on_evidence:
  assumes ok: "state_ok header_name_ok s" and steps: "rp_steps (s_policy s) \<noteq> []"
  shows "\<exists>proposal. next_progress sha256 to_vec now gates_pass reported s = Some proposal
    \<and> (if pg_started_at (s_progress s) = 0
        then proposal = Some (default_progress\<lparr>pg_revision := rp_revision (s_policy s),
               pg_policy_hash := policy_hash sha256 to_vec s, pg_started_at := now\<rparr>)
        else (\<exists>q. proposal = Some q) =
               (gates_pass \<and> (\<exists>t. reported = Some t \<and> stage_done now t (rp_steps (s_policy s) ! stage s) s))
             \<and> (\<forall>q. proposal = Some q \<longrightarrow> advanced now (s_progress s) q (length (rp_steps (s_policy s)))))"
proof (cases "pg_started_at (s_progress s) = 0")
  case True
  with steps show ?thesis by (simp add: next_progress_def Let_def)
next
  case False
  let ?p = "s_progress s" and ?n = "length (rp_steps (s_policy s))"
  have "stage s < ?n"
    using ok steps by (simp add: state_ok_def stage_bound_def max_def split: if_splits)
  then have st: "slice_get (rp_steps (s_policy s)) (pg_stage ?p) = Some (rp_steps (s_policy s) ! stage s)"
    by (simp add: stage_def)
  have limits: "is_some_and rb (\<lambda>rule. error_limit rule t \<or> latency_limit rule t) =
      (\<not> is_none_or rb (\<lambda>rule. sm_errors t * 100 < sm_count t * rb_error_percent rule
          \<and> (rb_max_p95_ms rule \<noteq> None \<longrightarrow> sm_slow t \<le> sm_count t div 20)))" for rb t
    by (cases rb) (auto simp: error_limit_def latency_limit_def)
  show ?thesis
  proof (cases reported)
    case None
    with False steps st show ?thesis by (simp add: next_progress_def Let_def)
  next
    case (Some t)
    with False steps st show ?thesis
      by (simp add: next_progress_def Let_def limits stage_done_def advanced_def stage_def) force
  qed
qed

theorem rollout_promotion_on_evidence_witness:
  "\<exists>proposal. next_progress id rp_revision 100 True (Some default_samples) demo_state = Some proposal
    \<and> (if pg_started_at (s_progress demo_state) = 0
        then proposal = Some (default_progress\<lparr>pg_revision := rp_revision (s_policy demo_state),
               pg_policy_hash := policy_hash id rp_revision demo_state, pg_started_at := 100\<rparr>)
        else (\<exists>q. proposal = Some q) =
               (True \<and> (\<exists>t. Some default_samples = Some t
                  \<and> stage_done 100 t (rp_steps (s_policy demo_state) ! stage demo_state) demo_state))
             \<and> (\<forall>q. proposal = Some q \<longrightarrow>
                  advanced 100 (s_progress demo_state) q (length (rp_steps (s_policy demo_state)))))"
  by (rule rollout_promotion_on_evidence [OF demo_state_ok])
     (simp add: demo_state_def new_state_def demo_policy_def)

text \<open>Progress that a replica holds was read for its own policy.\<close>

definition progress_ok :: "(string \<Rightarrow> string) \<Rightarrow> (rollout_policy \<Rightarrow> string) \<Rightarrow> state \<Rightarrow> bool" where
  "progress_ok sha256 to_vec s \<longleftrightarrow>
     0 \<le> pg_started_at (s_progress s)
     \<and> (pg_started_at (s_progress s) \<noteq> 0 \<longrightarrow>
          pg_revision (s_progress s) = rp_revision (s_policy s)
          \<and> pg_policy_hash (s_progress s) = policy_hash sha256 to_vec s
          \<and> is_none_or (pg_approved_stage (s_progress s)) (\<lambda>k. k < stage_bound (s_policy s)))"

lemma progress_ok_step:
  assumes step: "rollout_step header_name_ok sha256 to_vec key_vec progress_from_str s s'"
    and ok: "state_ok header_name_ok s" and "progress_ok sha256 to_vec s"
  shows "progress_ok sha256 to_vec s'"
proof -
  have pol: "s_policy s' = s_policy s"
    using rollout_step_same [OF step ok] by (simp add: same_rollout_def)
  from step have "s_progress s' = s_progress s \<or> s_progress s' = default_progress
      \<or> pg_revision (s_progress s') = rp_revision (s_policy s)
        \<and> pg_policy_hash (s_progress s') = policy_hash sha256 to_vec s
        \<and> 0 \<le> pg_started_at (s_progress s')
        \<and> is_none_or (pg_approved_stage (s_progress s')) (\<lambda>k. k < stage_bound (s_policy s))"
  proof (cases rule: rollout_step.cases)
    case (Completed now backend failed elapsed at_stage tripped)
    with completed_window_ok [OF ok] show ?thesis by blast
  next
    case (Metrics now digest results tripped)
    with evaluate_metrics_effect(2) show ?thesis by blast
  qed (auto simp: select_def force_rollback_def sample_report_def sync_progress_def
      install_progress_def Let_def split: option.splits if_splits)
  with assms(3) pol show ?thesis
    by (auto simp: progress_ok_def policy_hash_def default_progress_def)
qed

text \<open>
  C12. What one replica proposes every replica accepts: the progress \<open>next_progress\<close> proposes,
  written out and read back by any replica of the same policy, is installed there, and a change of
  stage starts with an empty window. The hypothesis on the clock is that the Unix time is not
  negative, the one on the reader that it reads back the written text.
\<close>

theorem rollout_progress_accepted:
  assumes "state_ok header_name_ok s" and "next_progress sha256 to_vec now gates_pass reported s = Some (Some q)"
    and "progress_ok sha256 to_vec s" and "0 \<le> now" and "s_policy r = s_policy s" and "progress_from_str text = Some q"
  shows "\<exists>r'. sync_progress sha256 to_vec progress_from_str (Some text) r = (Inr (), r')
    \<and> s_progress r' = q
    \<and> (stage r' \<noteq> stage r \<longrightarrow> w_samples (s_window r') = [] \<and> w_totals (s_window r') = default_samples)"
proof -
  let ?b = "stage_bound (s_policy s)"
  have hash: "policy_hash sha256 to_vec r = policy_hash sha256 to_vec s"
    using assms(5) by (simp add: policy_hash_def)
  have st: "stage s < ?b" using assms(1) by (simp add: state_ok_def)
  have "pg_revision q = rp_revision (s_policy s) \<and> pg_policy_hash q = policy_hash sha256 to_vec s
      \<and> pg_stage q < ?b \<and> 0 \<le> pg_started_at q \<and> is_none_or (pg_approved_stage q) (\<lambda>k. k < ?b)"
  proof (cases "pg_started_at (s_progress s) = 0")
    case True
    with assms(2,4) show ?thesis
      by (auto simp: next_progress_def default_progress_def stage_bound_pos split: if_splits)
  next
    case False
    then have "advanced now (s_progress s) q (length (rp_steps (s_policy s)))"
      using assms(2) by (auto simp: next_progress_def Let_def advanced_def split: option.splits if_splits)
    moreover have "rp_steps (s_policy s) \<noteq> []" using assms(2) by (auto simp: next_progress_def)
    then have "?b = length (rp_steps (s_policy s))" by (simp add: stage_bound_def Suc_le_eq)
    ultimately show ?thesis
      using False assms(3,4) st by (auto simp: advanced_def stage_def progress_ok_def split: if_splits)
  qed
  then show ?thesis
    using assms(5,6) hash
    by (auto simp: sync_progress_def install_progress_def stage_def Let_def)
qed

theorem rollout_progress_accepted_witness:
  "\<exists>r'. sync_progress id rp_revision (\<lambda>_. Some (default_progress\<lparr>pg_revision := ''r1'',
        pg_policy_hash := policy_hash id rp_revision demo_state, pg_started_at := 100\<rparr>)) (Some ''text'')
      demo_state = (Inr (), r')
    \<and> s_progress r' = default_progress\<lparr>pg_revision := ''r1'',
        pg_policy_hash := policy_hash id rp_revision demo_state, pg_started_at := 100\<rparr>
    \<and> (stage r' \<noteq> stage demo_state \<longrightarrow>
         w_samples (s_window r') = [] \<and> w_totals (s_window r') = default_samples)"
  by (rule rollout_progress_accepted [OF demo_state_ok, of _ _ 100 True None])
     (simp_all add: demo_state_def new_state_def demo_policy_def next_progress_def progress_ok_def
       default_progress_def policy_hash_def)

section \<open>The registry\<close>

text \<open>
  Reconfiguration does not lose a rollout: asking again for the same kind, owner, uid, policy
  and backends returns the state that is there, with its rollback, window and stage; every state
  somebody else holds stays; a new key gets a fresh state.
\<close>

lemma rollout_registry_keeps_state:
  assumes "bt_sorted r" and "get_for sha256 to_vec in_use kind owner uid p backends r = (key, r')"
  shows "key = state_key sha256 to_vec kind owner uid p backends \<and> bt_sorted r'
    \<and> bt_get r' key = Some (case bt_get r key of Some s \<Rightarrow> s | None \<Rightarrow> new_state kind owner uid p backends)
    \<and> (\<forall>k. k \<noteq> key \<longrightarrow> bt_get r' k = (if in_use k then bt_get r k else None))"
proof -
  let ?P = "\<lambda>e. fst e = key \<or> in_use (fst e)"
  have key: "key = state_key sha256 to_vec kind owner uid p backends"
    and r': "r' = bt_or_insert key (new_state kind owner uid p backends) (filter ?P r)"
    using assms(2) by (auto simp: get_for_def Let_def)
  have "distinct (map fst r)" using bt_sorted_distinct [OF assms(1)] by (simp add: bt_keys_def)
  then have get: "bt_get (filter ?P r) k = (if k = key \<or> in_use k then bt_get r k else None)" for k
    by (auto simp: map_of_filter_distinct split: option.splits)
  have "bt_sorted (filter ?P r)"
    using assms(1) by (simp add: bt_sorted_def bt_keys_def sorted_wrt_map sorted_wrt_filter)
  with key get show ?thesis
    by (auto simp: r' bt_sorted_or_insert bt_get_or_insert or_else_def split: option.splits)
qed

section \<open>Sustained metric failures\<close>

text \<open>The check time of a fresh failing observation of a gate, if there is one.\<close>

definition bad :: "instant \<Rightarrow> string \<Rightarrow> metric_rollback \<Rightarrow> (string, metric_observation) btree \<Rightarrow> string
    \<Rightarrow> instant option" where
  "bad now digest rule results name =
     (case filter_option (fresh now digest) (bt_get results name) of
        None \<Rightarrow> None
      | Some r \<Rightarrow> if failing rule r then Some (mo_checked r) else None)"

text \<open>What one evaluation does to the entry of a gate.\<close>

definition streak_step :: "instant option \<Rightarrow> (instant \<times> instant \<times> nat) option \<Rightarrow> (instant \<times> instant \<times> nat) option" where
  "streak_step ob e =
     map_option (\<lambda>checked. streak_entry checked (case e of None \<Rightarrow> (checked, checked, 1) | Some e \<Rightarrow> e)) ob"

lemma streak_step_idem [simp]: "streak_step ob (streak_step ob e) = streak_step ob e"
  by (cases ob; cases e) (auto simp: streak_step_def streak_entry_def split: if_splits)

lemma metric_loop_streaks:
  assumes "metric_loop now digest rule results names gates w = (False, gates', w')"
  shows "bt_get gates' name =
    (if name \<in> set names then streak_step (bad now digest rule results name) (bt_get gates name)
     else bt_get gates name)"
  using assms
proof (induction names arbitrary: gates)
  case (Cons n names)
  let ?g = "case bad now digest rule results n of None \<Rightarrow> bt_remove n gates
    | Some c \<Rightarrow> bt_insert n (streak_entry c (case bt_get gates n of None \<Rightarrow> (c, c, 1) | Some e \<Rightarrow> e)) gates"
  have rest: "metric_loop now digest rule results names ?g w = (False, gates', w')"
    using Cons.prems by (auto simp: bad_def Let_def split: option.splits if_splits prod.splits)
  have "bt_get ?g name = (if name = n then streak_step (bad now digest rule results n) (bt_get gates n)
      else bt_get gates name)"
    by (auto simp: streak_step_def split: option.split)
  with Cons.IH [OF rest] show ?case by auto
qed simp

lemma metric_loop_trips:
  assumes "metric_loop now digest rule results names gates w = (True, gates', w')"
  shows "\<exists>name\<in>set names. \<exists>e l n. streak_step (bad now digest rule results name) (bt_get gates name) = Some (e, l, n)
    \<and> consecutive_failures rule \<le> n \<and> failure_seconds rule \<le> as_secs (duration_since l e)"
  using assms
proof (induction names arbitrary: gates)
  case (Cons n names)
  let ?e = "streak_step (bad now digest rule results n) (bt_get gates n)"
  let ?g = "case ?e of None \<Rightarrow> bt_remove n gates | Some e \<Rightarrow> bt_insert n e gates"
  have g: "streak_step (bad now digest rule results m) (bt_get ?g m) =
      streak_step (bad now digest rule results m) (bt_get gates m)" for m
  proof (cases "m = n")
    case True
    then have "bt_get ?g m = ?e" by (simp split: option.split)
    with True show ?thesis by simp
  qed (simp split: option.split)
  have "(\<exists>e l k. ?e = Some (e, l, k) \<and> consecutive_failures rule \<le> k
        \<and> failure_seconds rule \<le> as_secs (duration_since l e))
      \<or> metric_loop now digest rule results names ?g w = (True, gates', w')"
    using Cons.prems
    by (auto simp: bad_def streak_step_def Let_def split: option.splits if_splits prod.splits)
  then show ?case
  proof
    assume "metric_loop now digest rule results names ?g w = (True, gates', w')"
    from Cons.IH [OF this] show ?thesis by (auto simp: g)
  qed auto
qed simp

text \<open>
  A streak entry stands for check times in increasing order without gaps of more than a minute, all
  from the evaluations since the last one that did not report a failure.
\<close>

definition streak_of :: "instant option list \<Rightarrow> instant list \<Rightarrow> bool" where
  "streak_of obs ts \<longleftrightarrow>
     (\<exists>k<length obs. None \<notin> set (drop k obs) \<and> set ts \<subseteq> the ` set (drop k obs))
     \<and> ts \<noteq> [] \<and> successively (\<lambda>a b. a < b \<and> as_secs (duration_since b a) \<le> 60) ts"

lemma streak_of_snoc:
  assumes "streak_of obs ts" 
  shows "streak_of (obs @ [Some c]) ts"
    and "last ts < c \<Longrightarrow> as_secs (duration_since c (last ts)) \<le> 60 \<Longrightarrow> streak_of (obs @ [Some c]) (ts @ [c])"
proof -
  from assms obtain k where k: "k < length obs" "None \<notin> set (drop k obs)" "set ts \<subseteq> the ` set (drop k obs)"
    by (auto simp: streak_of_def)
  then have "k < length (obs @ [Some c])" "None \<notin> set (drop k (obs @ [Some c]))"
    "set ts \<subseteq> the ` set (drop k (obs @ [Some c]))" "set (ts @ [c]) \<subseteq> the ` set (drop k (obs @ [Some c]))"
    by auto
  moreover have "ts \<noteq> [] \<and> successively (\<lambda>a b. a < b \<and> as_secs (duration_since b a) \<le> 60) ts"
    using assms by (simp add: streak_of_def)
  ultimately show "streak_of (obs @ [Some c]) ts"
    and "last ts < c \<Longrightarrow> as_secs (duration_since c (last ts)) \<le> 60 \<Longrightarrow> streak_of (obs @ [Some c]) (ts @ [c])"
    unfolding streak_of_def by (blast, simp only: successively_append_iff) (auto intro!: exI [of _ k])
qed

lemma streak_of_singleton: "streak_of (obs @ [Some c]) [c]"
  by (auto simp: streak_of_def intro!: exI [of _ "length obs"])

lemma fold_streak:
  assumes "fold streak_step obs None = Some (e, l, n)"
  shows "\<exists>ts. streak_of obs ts \<and> hd ts = e \<and> last ts = l \<and> n \<le> length ts"
  using assms
proof (induction obs arbitrary: e l n rule: rev_induct)
  case (snoc ob obs)
  then obtain c where c: "ob = Some c" by (cases ob) (auto simp: streak_step_def)
  show ?case
  proof (cases "fold streak_step obs None")
    case None
    with snoc.prems c have "streak_step (Some c) None = Some (e, l, n)" by simp
    then have "e = c \<and> l = c \<and> n = 1" by (simp add: streak_step_def streak_entry_def)
    with streak_of_singleton show ?thesis by (auto simp: c intro!: exI [of _ "[c]"])
  next
    case (Some old)
    obtain e' l' n' where old: "old = (e', l', n')" by (cases old) auto
    with Some snoc.IH obtain ts where ts: "streak_of obs ts" "hd ts = e'" "last ts = l'" "n' \<le> length ts"
      by blast
    then have "ts \<noteq> []" by (simp add: streak_of_def)
    have new: "streak_entry c (e', l', n') = (e, l, n)"
      using snoc.prems Some old c by (simp add: streak_step_def [of "Some c"])
    consider "\<not> l' < c" "(e, l, n) = (e', l', n')"
      | "l' < c" "60 < as_secs (duration_since c l')" "(e, l, n) = (c, c, 1)"
      | "l' < c" "as_secs (duration_since c l') \<le> 60" "(e, l, n) = (e', c, min (n' + 1) u32_max)"
      using new by (auto simp: streak_entry_def not_less split: if_splits)
    then show ?thesis
    proof cases
      case 1
      with ts streak_of_snoc(1) [OF ts(1)] show ?thesis by (auto simp: c)
    next
      case 2
      with streak_of_singleton show ?thesis by (auto simp: c intro!: exI [of _ "[c]"])
    next
      case 3
      with ts streak_of_snoc(2) [OF ts(1), of c] \<open>ts \<noteq> []\<close> show ?thesis
        by (auto simp: c intro!: exI [of _ "ts @ [c]"])
    qed
  qed
qed simp

type_synonym evaluation = "instant \<times> (string, metric_observation) btree"

definition evaluate_run :: "string \<Rightarrow> evaluation list \<Rightarrow> state \<Rightarrow> state" where
  "evaluate_run digest es s = fold (\<lambda>(now, results) s. snd (evaluate_metrics now digest results s)) es s"

definition bad_checks :: "string \<Rightarrow> metric_rollback \<Rightarrow> evaluation list \<Rightarrow> string \<Rightarrow> instant option list" where
  "bad_checks digest rule es name = map (\<lambda>(now, results). bad now digest rule results name) es"

text \<open>The gates an evaluation works on, after the reset on a new digest or stage.\<close>

definition current_gates :: "string \<Rightarrow> state \<Rightarrow> (string, instant \<times> instant \<times> nat) btree" where
  "current_gates digest s =
     (let f = s_metric_failures s in
      if f_digest f \<noteq> digest \<or> f_stage f \<noteq> stage s then [] else f_gates f)"

lemma evaluate_metrics_gates:
  assumes "rp_metric_rollback (s_policy s) = Some rule"
    and "evaluate_metrics now digest results s = (tripped, s')"
  shows "metric_loop now digest rule results (rp_metric_gates (s_policy s)) (current_gates digest s)
      (s_window s) = (tripped, current_gates digest s', s_window s')"
  using assms
  by (auto simp: evaluate_metrics_def current_gates_def default_failures_def stage_def Let_def
      split: prod.splits if_splits)

lemma evaluate_run_snoc:
  "evaluate_run digest (es @ [(now, results)]) s =
     snd (evaluate_metrics now digest results (evaluate_run digest es s))"
  by (simp add: evaluate_run_def)

lemma evaluate_run_streaks:
  assumes rule: "rp_metric_rollback (s_policy s) = Some rule"
    and fresh: "f_gates (s_metric_failures s) = []" and "\<not> rolled_back (evaluate_run digest es s)"
  shows "s_policy (evaluate_run digest es s) = s_policy s
    \<and> (\<forall>name\<in>set (rp_metric_gates (s_policy s)).
         bt_get (current_gates digest (evaluate_run digest es s)) name =
           fold streak_step (bad_checks digest rule es name) None)"
  using assms(3)
proof (induction es rule: rev_induct)
  case Nil
  with fresh show ?case by (simp add: evaluate_run_def current_gates_def bad_checks_def Let_def)
next
  case (snoc x es)
  obtain now results where x: "x = (now, results)" by fastforce
  let ?s = "evaluate_run digest es s"
  obtain tripped s' where ev: "evaluate_metrics now digest results ?s = (tripped, s')" by fastforce
  then have s': "evaluate_run digest (es @ [(now, results)]) s = s'" by (simp add: evaluate_run_snoc)
  with snoc.prems x evaluate_metrics_effect(5) [OF ev] have calm: "\<not> tripped" "\<not> rolled_back ?s" by auto
  note IH = snoc.IH [OF calm(2)]
  then have "rp_metric_rollback (s_policy ?s) = Some rule" using rule by simp
  from evaluate_metrics_gates [OF this ev] calm
  have "metric_loop now digest rule results (rp_metric_gates (s_policy ?s)) (current_gates digest ?s)
      (s_window ?s) = (False, current_gates digest s', s_window s')" by simp
  from metric_loop_streaks [OF this] IH show ?case
    using evaluate_metrics_effect(1) [OF ev]
    by (auto simp: s' x bad_checks_def same_rollout_def)
qed

text \<open>
  C14. External metrics roll a rollout back only on sustained failure: if an evaluation triggers
  the rollback after a series of evaluations that started without recorded failures, then for one
  of the policy's gates there are at least \<open>consecutive_failures\<close> distinct check times, in
  increasing order with gaps of at most a minute and spanning at least \<open>failure_seconds\<close>, each
  reported as a fresh failure, and no evaluation from the first of them on reported otherwise.
\<close>

theorem rollout_metric_rollback_sustained:
  assumes "rp_metric_rollback (s_policy s) = Some rule" and "f_gates (s_metric_failures s) = []"
    and "fst (evaluate_metrics now digest results (evaluate_run digest es s))"
  shows "\<exists>name\<in>set (rp_metric_gates (s_policy s)). \<exists>ts.
    streak_of (bad_checks digest rule (es @ [(now, results)]) name) ts
    \<and> consecutive_failures rule \<le> length ts
    \<and> failure_seconds rule \<le> as_secs (duration_since (last ts) (hd ts))"
proof -
  let ?s = "evaluate_run digest es s"
  obtain s' where ev: "evaluate_metrics now digest results ?s = (True, s')"
    using assms(3) by (metis (full_types) prod.collapse)
  have calm: "\<not> rolled_back ?s"
  proof
    assume "rolled_back ?s"
    moreover have "\<not> fst (metric_loop now digest r results names gates w)" if "w_rolled_back w" for r names gates w
      using that by (induction names arbitrary: gates) (auto simp: Let_def split: option.split prod.split)
    ultimately show False
      using assms(3)
      by (auto simp: evaluate_metrics_def Let_def rolled_back_def split: option.splits prod.splits)
        (metis fst_conv)
  qed
  note streaks = evaluate_run_streaks [OF assms(1,2) calm]
  then have "rp_metric_rollback (s_policy ?s) = Some rule" using assms(1) by simp
  from metric_loop_trips [OF evaluate_metrics_gates [OF this ev]] streaks
  obtain name e l n where name: "name \<in> set (rp_metric_gates (s_policy s))"
    and step: "streak_step (bad now digest rule results name)
        (fold streak_step (bad_checks digest rule es name) None) = Some (e, l, n)"
    and n: "consecutive_failures rule \<le> n" "failure_seconds rule \<le> as_secs (duration_since l e)"
    by auto
  have "fold streak_step (bad_checks digest rule (es @ [(now, results)]) name) None = Some (e, l, n)"
    using step by (simp add: bad_checks_def)
  from fold_streak [OF this] name n show ?thesis by (blast intro: order_trans)
qed

definition demo_failure :: "instant \<Rightarrow> (string, metric_observation) btree" where
  "demo_failure t = [(''orders'', \<lparr>mo_digest = ''d'', mo_passed = Some False, mo_checked = t\<rparr>)]"

theorem rollout_metric_rollback_sustained_witness:
  "\<exists>name\<in>set [''orders'']. \<exists>ts.
    streak_of (bad_checks ''d'' \<lparr>consecutive_failures = 2, failure_seconds = 2,
       on_unavailable = Unavailable_Pause\<rparr> ([(0, demo_failure 0)] @ [(3000000000, demo_failure 2500000000)]) name) ts
    \<and> 2 \<le> length ts \<and> 2 \<le> as_secs (duration_since (last ts) (hd ts))"
  using rollout_metric_rollback_sustained [of demo_state
      "\<lparr>consecutive_failures = 2, failure_seconds = 2, on_unavailable = Unavailable_Pause\<rparr>"
      3000000000 "''d''" "demo_failure 2500000000" "[(0, demo_failure 0)]"]
  by (simp add: demo_state_def new_state_def demo_policy_def default_failures_def evaluate_run_def
      evaluate_metrics_def demo_failure_def filter_option_def fresh_def as_secs_def duration_since_def
      failing_def streak_entry_def u32_max_def default_window_def stage_def default_progress_def Let_def)

end
