(* ===== verification/Net_Addr.thy ===== *)
theory Net_Addr
  imports Http_Model
begin

text \<open>
  The parts of the standard library that read numbers and network addresses: \<open>str::parse\<close> for unsigned integers,
  \<open>IpAddr\<close> and \<open>SocketAddr\<close>. The address parser of \<open>std::net\<close> is a set of functions that take the input and return a
  value with the input that is left, or nothing.
\<close>

section \<open>Addresses\<close>

datatype ip = IpV4 "32 word" | IpV6 "128 word"

fun socket_addr_new :: "ip \<Rightarrow> 16 word \<Rightarrow> socket_addr" where
  "socket_addr_new (IpV4 a) port = SockV4 a port"
| "socket_addr_new (IpV6 a) port = SockV6 a port 0 0"

fun socket_addr_ip :: "socket_addr \<Rightarrow> ip" where
  "socket_addr_ip (SockV4 a _) = IpV4 a"
| "socket_addr_ip (SockV6 a _ _ _) = IpV6 a"

fun is_ipv4 :: "ip \<Rightarrow> bool" where
  "is_ipv4 (IpV4 _) = True"
| "is_ipv4 (IpV6 _) = False"

lemma socket_addr_ip_new [simp]: "socket_addr_ip (socket_addr_new a port) = a"
  by (cases a) simp_all

section \<open>Unsigned integers\<close>

text \<open>An optional plus sign and at least one decimal digit, below \<open>2 ^ bits\<close>.\<close>

definition parse_uint :: "nat \<Rightarrow> string \<Rightarrow> nat option" where
  "parse_uint bits s =
     (let ds = (if starts_with s ''+'' then tl s else s)
      in if ds = [] \<or> \<not> list_all is_ascii_digit ds \<or> 2 ^ bits \<le> digits_value ds then None else Some (digits_value ds))"

lemma parse_uint_bound: "parse_uint bits s = Some n \<Longrightarrow> n < 2 ^ bits"
  by (auto simp: parse_uint_def Let_def split: if_splits)

lemma parse_uint_decimal: "n < 2 ^ bits \<Longrightarrow> parse_uint bits (to_decimal n) = Some n"
proof -
  have "\<not> starts_with (to_decimal n) ''+''"
    using to_decimal_digits [of n] by (cases "to_decimal n") (auto simp: starts_with_def is_ascii_digit_def)
  then show "n < 2 ^ bits \<Longrightarrow> parse_uint bits (to_decimal n) = Some n" by (simp add: parse_uint_def)
qed

section \<open>The address parser\<close>

type_synonym 'a reader = "string \<Rightarrow> ('a \<times> string) option"

definition read_char :: "char \<Rightarrow> unit reader" where
  "read_char c s = (case s of [] \<Rightarrow> None | d # s' \<Rightarrow> if d = c then Some ((), s') else None)"

definition to_digit :: "int \<Rightarrow> char \<Rightarrow> int option" where
  "to_digit radix c =
     (let n = (if is_ascii_digit c then of_char c - 48
               else if CHR ''a'' \<le> c \<and> c \<le> CHR ''z'' then of_char c - 87
               else if CHR ''A'' \<le> c \<and> c \<le> CHR ''Z'' then of_char c - 55
               else radix)
      in if n < radix then Some n else None)"

text \<open>\<open>bits\<close> is the width of the number read; \<open>max_digits\<close> and \<open>zero_prefix\<close> as in \<open>read_number\<close>.\<close>

definition read_number :: "nat \<Rightarrow> int \<Rightarrow> nat option \<Rightarrow> bool \<Rightarrow> int reader" where
  "read_number bits radix max_digits zero_prefix s =
     (let ds = takeWhile (\<lambda>c. to_digit radix c \<noteq> None) s;
          v = foldl (\<lambda>n c. n * radix + the (to_digit radix c)) 0 ds
      in if ds = [] \<or> is_some_and max_digits (\<lambda>m. m < length ds)
            \<or> \<not> zero_prefix \<and> hd ds = CHR ''0'' \<and> 1 < length ds \<or> 2 ^ bits \<le> v
         then None else Some (v, drop (length ds) s))"

definition read_separator :: "char \<Rightarrow> nat \<Rightarrow> 'a reader \<Rightarrow> 'a reader" where
  "read_separator sep i inner s =
     (if i = 0 then inner s else Option.bind (read_char sep s) (\<lambda>(_, s'). inner s'))"

fun read_octets :: "nat \<Rightarrow> nat \<Rightarrow> int list reader" where
  "read_octets 0 i s = Some ([], s)"
| "read_octets (Suc k) i s =
     Option.bind (read_separator CHR ''.'' i (read_number 8 10 (Some 3) False) s) (\<lambda>(n, s').
     Option.bind (read_octets k (Suc i) s') (\<lambda>(ns, s''). Some (n # ns, s'')))"

definition from_digits :: "int \<Rightarrow> int list \<Rightarrow> int" where
  "from_digits base ns = foldl (\<lambda>v n. v * base + n) 0 ns"

definition read_ipv4 :: "32 word reader" where
  "read_ipv4 s = map_option (\<lambda>(ns, s'). (word_of_int (from_digits 256 ns), s')) (read_octets 4 0 s)"

text \<open>
  The groups of an IPv6 address, at most \<open>limit\<close> of them from index \<open>i\<close> on, with an embedded IPv4 address where two
  groups are left; the flag says whether one was read.
\<close>

function read_groups :: "nat \<Rightarrow> nat \<Rightarrow> string \<Rightarrow> int list \<times> bool \<times> string" where
  "read_groups limit i s =
     (if limit \<le> i then ([], False, s)
      else
        case (if i + 1 < limit then read_separator CHR '':'' i (read_octets 4 0) s else None) of
          Some (ns, s') \<Rightarrow> ([from_digits 256 (take 2 ns), from_digits 256 (drop 2 ns)], True, s')
        | None \<Rightarrow>
            (case read_separator CHR '':'' i (read_number 16 16 (Some 4) True) s of
               None \<Rightarrow> ([], False, s)
             | Some (g, s') \<Rightarrow> (let (gs, v4, s'') = read_groups limit (Suc i) s' in (g # gs, v4, s''))))"
  by pat_completeness auto

termination
  by (relation "measure (\<lambda>(limit, i, _). limit - i)") auto

declare read_groups.simps [simp del]

definition read_ipv6 :: "128 word reader" where
  "read_ipv6 s =
     (let (front, front_v4, s1) = read_groups 8 0 s in
      if length front = 8 then Some (word_of_int (from_digits 65536 front), s1)
      else if front_v4 then None
      else
        Option.bind (read_char CHR '':'' s1) (\<lambda>(_, s2).
        Option.bind (read_char CHR '':'' s2) (\<lambda>(_, s3).
          let (gs, _, s4) = read_groups (8 - (length front + 1)) 0 s3
          in Some (word_of_int (from_digits 65536 (front @ replicate (8 - length front - length gs) 0 @ gs)), s4))))"

definition read_ip :: "ip reader" where
  "read_ip s =
     or_else (map_option (\<lambda>(a, s'). (IpV4 a, s')) (read_ipv4 s)) (map_option (\<lambda>(a, s'). (IpV6 a, s')) (read_ipv6 s))"

definition read_port :: "int reader" where
  "read_port s = Option.bind (read_char CHR '':'' s) (\<lambda>(_, s'). read_number 16 10 None True s')"

definition read_scope_id :: "int reader" where
  "read_scope_id s = Option.bind (read_char CHR ''%'' s) (\<lambda>(_, s'). read_number 32 10 None True s')"

definition read_socket_v4 :: "socket_addr reader" where
  "read_socket_v4 s =
     Option.bind (read_ipv4 s) (\<lambda>(a, s').
     Option.bind (read_port s') (\<lambda>(p, s''). Some (SockV4 a (word_of_int p), s'')))"

definition read_socket_v6 :: "socket_addr reader" where
  "read_socket_v6 s =
     Option.bind (read_char CHR ''['' s) (\<lambda>(_, s1).
     Option.bind (read_ipv6 s1) (\<lambda>(a, s2).
     let (scope, s3) = (case read_scope_id s2 of None \<Rightarrow> (0, s2) | Some (n, s') \<Rightarrow> (n, s')) in
     Option.bind (read_char CHR '']'' s3) (\<lambda>(_, s4).
     Option.bind (read_port s4) (\<lambda>(p, s5). Some (SockV6 a (word_of_int p) 0 (word_of_int scope), s5)))))"

text \<open>\<open>parse_with\<close>: the whole input has to be read.\<close>

definition parse_all :: "'a reader \<Rightarrow> string \<Rightarrow> 'a option" where
  "parse_all rd s = Option.bind (rd s) (\<lambda>(x, rest). if rest = [] then Some x else None)"

definition parse_ip_addr :: "string \<Rightarrow> ip option" where
  "parse_ip_addr = parse_all read_ip"

definition parse_socket_addr :: "string \<Rightarrow> socket_addr option" where
  "parse_socket_addr = parse_all (\<lambda>s. or_else (read_socket_v4 s) (read_socket_v6 s))"

section \<open>The characters of an address\<close>

definition address_char :: "char \<Rightarrow> bool" where
  "address_char c \<longleftrightarrow> is_ascii_alphanumeric c \<or> c = CHR ''.'' \<or> c = CHR '':''"

definition plain_reader :: "'a reader \<Rightarrow> bool" where
  "plain_reader rd \<longleftrightarrow> (\<forall>s x s'. rd s = Some (x, s') \<longrightarrow> (\<exists>used. s = used @ s' \<and> list_all address_char used))"

lemma plain_readerD: "plain_reader rd \<Longrightarrow> rd s = Some (x, s') \<Longrightarrow> \<exists>used. s = used @ s' \<and> list_all address_char used"
  unfolding plain_reader_def by blast

lemma plain_read_char: "address_char c \<Longrightarrow> plain_reader (read_char c)"
  unfolding plain_reader_def by (auto simp: read_char_def intro: exI [of _ "[c]"] split: list.splits if_splits)

lemma to_digit_char: "to_digit radix c \<noteq> None \<Longrightarrow> address_char c"
  by (auto simp: to_digit_def address_char_def is_ascii_alphanumeric_def is_ascii_alphabetic_def is_ascii_lowercase_def
      is_ascii_uppercase_def Let_def split: if_splits)

lemma plain_read_number: "plain_reader (read_number bits radix max_digits zero_prefix)"
  unfolding plain_reader_def
proof (intro allI impI)
  fix s x s'
  let ?ds = "takeWhile (\<lambda>c. to_digit radix c \<noteq> None) s"
  assume "read_number bits radix max_digits zero_prefix s = Some (x, s')"
  then have "s' = drop (length ?ds) s" by (auto simp: read_number_def Let_def split: if_splits)
  moreover have "s = ?ds @ drop (length ?ds) s" by (metis takeWhile_dropWhile_id dropWhile_eq_drop)
  moreover have "list_all address_char ?ds"
    unfolding list_all_iff by (blast dest: set_takeWhileD intro: to_digit_char [of radix])
  ultimately show "\<exists>used. s = used @ s' \<and> list_all address_char used" by metis
qed

lemma plain_bind:
  assumes "rd s = Some (x, s1)" "plain_reader rd" "rd' s1 = Some (y, s2)" "plain_reader rd'"
  shows "\<exists>used. s = used @ s2 \<and> list_all address_char used"
proof -
  obtain u v where "s = u @ s1" "list_all address_char u" "s1 = v @ s2" "list_all address_char v"
    using plain_readerD [OF assms(2,1)] plain_readerD [OF assms(4,3)] by blast
  then show ?thesis by (intro exI [of _ "u @ v"]) simp
qed

lemma plain_read_separator: "address_char sep \<Longrightarrow> plain_reader inner \<Longrightarrow> plain_reader (read_separator sep i inner)"
  unfolding plain_reader_def [of "read_separator sep i inner"]
  by (auto simp: read_separator_def bind_eq_Some_conv split: if_splits dest: plain_readerD
      intro: plain_bind [OF _ plain_read_char])

lemma plain_read_octets: "plain_reader (read_octets k i)"
proof (induction k arbitrary: i)
  case (Suc k)
  have dot: "address_char CHR ''.''" by (simp add: address_char_def)
  show ?case unfolding plain_reader_def
    by (auto simp: bind_eq_Some_conv intro: plain_bind [OF _ plain_read_separator [OF dot plain_read_number] _ Suc.IH])
qed (simp add: plain_reader_def)

lemma plain_read_groups:
  "read_groups limit i s = (gs, v4, s') \<Longrightarrow> \<exists>used. s = used @ s' \<and> list_all address_char used"
proof (induction limit i s arbitrary: gs v4 s' rule: read_groups.induct)
  case (1 limit i s)
  have colon: "address_char CHR '':''" by (simp add: address_char_def)
  note octets = plain_readerD [OF plain_read_separator [OF colon plain_read_octets]]
  note group = plain_readerD [OF plain_read_separator [OF colon plain_read_number]]
  let ?v4 = "if i + 1 < limit then read_separator CHR '':'' i (read_octets 4 0) s else None"
  let ?g = "read_separator CHR '':'' i (read_number 16 16 (Some 4) True) s"
  show ?case
  proof (cases "limit \<le> i")
    case True
    then show ?thesis using 1(2) by (simp add: read_groups.simps [of limit i])
  next
    case False
    show ?thesis
    proof (cases ?v4)
      case (Some x)
      obtain ns t where x: "x = (ns, t)" by fastforce
      then have "s' = t" using 1(2) False Some by (subst (asm) read_groups.simps) auto
      then show ?thesis using Some x octets by (auto split: if_splits)
    next
      case None
      note v4 = None
      show ?thesis
      proof (cases ?g)
        case None
        then show ?thesis using 1(2) False v4 by (subst (asm) read_groups.simps) auto
      next
        case (Some y)
        obtain g t where y: "y = (g, t)" by fastforce
        obtain hs w u where more: "read_groups limit (Suc i) t = (hs, w, u)" by (metis prod.exhaust)
        then have "s' = u" using 1(2) False v4 Some y by (subst (asm) read_groups.simps) auto
        with 1(1) [OF False v4 Some y [symmetric] more] group [OF Some [unfolded y]] show ?thesis
          by (metis append.assoc list_all_append)
      qed
    qed
  qed
qed

lemma plain_read_ip: "plain_reader read_ip"
  unfolding plain_reader_def
proof (intro allI impI)
  fix s x s'
  have colon: "plain_reader (read_char CHR '':'')" by (rule plain_read_char) (simp add: address_char_def)
  assume "read_ip s = Some (x, s')"
  then consider (v4) a where "read_octets 4 0 s = Some (a, s')" | (v6) a where "read_ipv6 s = Some (a, s')"
    by (auto simp: read_ip_def read_ipv4_def or_else_def split: option.splits)
  then show "\<exists>used. s = used @ s' \<and> list_all address_char used"
  proof cases
    case v4
    then show ?thesis by (rule plain_readerD [OF plain_read_octets])
  next
    case v6
    obtain gs w s1 where gs: "read_groups 8 0 s = (gs, w, s1)" by (metis prod.exhaust)
    obtain u where u: "s = u @ s1" "list_all address_char u" using plain_read_groups [OF gs] by blast
    show ?thesis
    proof (cases "length gs = 8")
      case True
      then show ?thesis using v6 gs u by (auto simp: read_ipv6_def)
    next
      case False
      with v6 gs obtain x2 x3 s2 s3 where s2: "read_char CHR '':'' s1 = Some (x2, s2)" "read_char CHR '':'' s2 = Some (x3, s3)"
          "snd (snd (read_groups (8 - (length gs + 1)) 0 s3)) = s'"
        by (auto simp: read_ipv6_def bind_eq_Some_conv Let_def case_prod_beta split: if_splits)
      then obtain hs w' where s3: "read_char CHR '':'' s1 = Some (x2, s2)" "read_char CHR '':'' s2 = Some (x3, s3)"
          "read_groups (8 - (length gs + 1)) 0 s3 = (hs, w', s')"
        by (metis prod.collapse)
      from plain_bind [OF s3(1) colon s3(2) colon] plain_read_groups [OF s3(3)] u show ?thesis
        by (metis append.assoc list_all_append)
    qed
  qed
qed

lemma parse_ip_addr_chars: "parse_ip_addr s = Some a \<Longrightarrow> list_all address_char s"
  by (auto simp: parse_ip_addr_def parse_all_def bind_eq_Some_conv split: if_splits dest!: plain_readerD [OF plain_read_ip])

end
