(* ===== verification/Backend.thy ===== *)
theory Backend
  imports Net_Addr Traffic Weighted_Choice
begin

text \<open>
  Backend pools, \<open>src/src/backend.rs\<close> with \<open>backend/selection.rs\<close>: endpoint health (passive
  ejection and active checks), the cached selection snapshot, the balancing strategies, leases and
  the DNS refresh.

  The \<open>Arc<State>\<close> of an endpoint is shared by the pool, by snapshots and by leases, so states live
  in a store \<open>bk_states\<close> and are named by their index. An operation that reads the clock takes one
  reading \<open>now\<close>. Counters and revisions are natural numbers; that the subtraction in \<open>Lease::drop\<close>
  never goes below zero is part of what is proved. The TLS profile of a backend (\<open>upstream.rs\<close>) and
  its HTTP probe client are values of other crates and are left out.

  Parameters: \<open>is_ip\<close> for \<open>str::parse::<IpAddr>\<close> succeeding, \<open>parse_ip\<close> for its value, \<open>show_addr\<close> for
  \<open>SocketAddr::to_string\<close>, \<open>lookup\<close> for the resolver, \<open>sha256\<close>, and \<open>f64_ln\<close> with \<open>rnd\<close> for the
  floating-point logarithm and rounding.
\<close>

section \<open>Configuration\<close>

record endpoint =
  ep_address :: socket_addr
  ep_weight :: nat

datatype balance = RoundRobin | LeastConnections | Hash key | Sticky string

record health_check =
  hc_path :: string
  hc_interval :: duration
  hc_timeout :: duration
  hc_status :: nat

record options =
  op_balance :: balance
  op_max_inflight :: nat
  op_health :: "health_check option"

definition default_options :: options where
  "default_options = \<lparr>op_balance = RoundRobin, op_max_inflight = 0, op_health = None\<rparr>"

datatype backend_error = ConcurrencyRange | HealthPath | HealthInterval | HealthStatus

definition options_validate :: "options \<Rightarrow> (backend_error, unit) result" where
  "options_validate o' =
     bindR (ensure (op_max_inflight o' \<le> 1000000) ConcurrencyRange) (\<lambda>_.
     case op_health o' of
       None \<Rightarrow> Inr ()
     | Some h \<Rightarrow>
         bindR (ensure (starts_with (hc_path h) ''/'' \<and> length (hc_path h) \<le> 1024
           \<and> \<not> starts_with (hc_path h) ''//''
           \<and> \<not> list_ex (\<lambda>c. c \<in> {CHR 0x0D, CHR 0x0A, CHR ''#''}) (hc_path h)) HealthPath) (\<lambda>_.
         bindR (ensure (1 \<le> as_secs (hc_interval h) \<and> as_secs (hc_interval h) \<le> 3600
           \<and> hc_timeout h \<noteq> 0 \<and> hc_timeout h \<le> from_secs 30) HealthInterval) (\<lambda>_.
         ensure (200 \<le> hc_status h \<and> hc_status h \<le> 399) HealthStatus)))"

record origin =
  or_host :: string
  or_port :: "16 word"
  or_weight :: nat

section \<open>State\<close>

record ep_state =
  es_hash_address :: string
  es_active :: nat
  es_has_failures :: bool
  es_failures :: nat
  es_blocked_until :: "instant option"
  es_active_ok :: "bool option"

definition new_ep_state :: "(socket_addr \<Rightarrow> string) \<Rightarrow> socket_addr \<Rightarrow> ep_state" where
  "new_ep_state show_addr a =
     \<lparr>es_hash_address = show_addr a, es_active = 0, es_has_failures = False, es_failures = 0,
      es_blocked_until = None, es_active_ok = None\<rparr>"

type_synonym entry = "endpoint \<times> nat"

record selection =
  sel_endpoints :: "entry list"
  sel_cumulative :: "nat list"
  sel_revision :: nat
  sel_expires :: "instant option"

record pool =
  pl_endpoints :: "entry list"
  pl_selection :: "selection option"
  pl_next_dns :: instant
  pl_dns_success :: instant
  pl_next_health :: instant

record backend =
  bk_endpoints :: "endpoint list"
  bk_tls :: bool
  bk_hostname :: string
  bk_host_header :: string
  bk_ca_pem :: "string option"
  bk_options :: options
  bk_origins :: "origin list"
  bk_cursor :: "64 word"
  bk_active_leases :: nat
  bk_health_revision :: nat
  bk_pool :: pool
  bk_fixed :: "entry option option"
  bk_states :: "ep_state list"

definition new_backend ::
  "(socket_addr \<Rightarrow> string) \<Rightarrow> instant \<Rightarrow> endpoint list \<Rightarrow> bool \<Rightarrow> string \<Rightarrow> string \<Rightarrow> backend" where
  "new_backend show_addr now endpoints tls hostname host_header =
     \<lparr>bk_endpoints = endpoints, bk_tls = tls, bk_hostname = hostname, bk_host_header = host_header,
      bk_ca_pem = None, bk_options = default_options, bk_origins = [], bk_cursor = 0,
      bk_active_leases = 0, bk_health_revision = 0,
      bk_pool = \<lparr>pl_endpoints = zip endpoints [0..<length endpoints], pl_selection = None,
        pl_next_dns = now, pl_dns_success = now, pl_next_health = now\<rparr>,
      bk_fixed = None,
      bk_states = map (\<lambda>e. new_ep_state show_addr (ep_address e)) endpoints\<rparr>"

definition transport ::
  "(socket_addr \<Rightarrow> string) \<Rightarrow> instant \<Rightarrow> backend \<Rightarrow> bool \<Rightarrow> string \<Rightarrow> string \<Rightarrow> backend" where
  "transport show_addr now b tls hostname host_header =
     (new_backend show_addr now (bk_endpoints b) tls hostname host_header)
       \<lparr>bk_options := bk_options b, bk_origins := bk_origins b, bk_ca_pem := bk_ca_pem b\<rparr>"

definition set_state :: "nat \<Rightarrow> ep_state \<Rightarrow> backend \<Rightarrow> backend" where
  "set_state i st b = b\<lparr>bk_states := (bk_states b)[i := st]\<rparr>"

section \<open>Health\<close>

text \<open>
  The three results of \<open>State::record_result\<close>: the state, whether the health revision is bumped, and
  whether the endpoint was ejected now.
\<close>

definition state_record_result ::
  "instant \<Rightarrow> bool \<Rightarrow> nat \<Rightarrow> duration \<Rightarrow> ep_state \<Rightarrow> ep_state \<times> bool \<times> bool" where
  "state_record_result now failed max_fails cooldown st =
     (if (\<not> failed \<and> \<not> es_has_failures st) \<or> (failed \<and> max_fails = 0) then (st, False, False)
      else if \<not> failed
      then (st\<lparr>es_failures := 0, es_blocked_until := None, es_has_failures := False\<rparr>,
            es_blocked_until st \<noteq> None, False)
      else
        let st' = st\<lparr>es_failures := min (es_failures st + 1) usize_max, es_has_failures := True\<rparr> in
        if max_fails \<le> es_failures st' \<and> es_blocked_until st' = None
        then (st'\<lparr>es_blocked_until := Some (now + cooldown)\<rparr>, True, True)
        else (st', False, False))"

definition state_set_active_health :: "bool \<Rightarrow> ep_state \<Rightarrow> ep_state \<times> bool" where
  "state_set_active_health ok st =
     (if es_active_ok st \<noteq> Some ok then (st\<lparr>es_active_ok := Some ok\<rparr>, True) else (st, False))"

definition bump :: "bool \<Rightarrow> backend \<Rightarrow> backend" where
  "bump changed b =
     (if changed then b\<lparr>bk_health_revision := bk_health_revision b + 1\<rparr> else b)"

text \<open>\<open>Lease::record_result\<close>, on the state the lease holds.\<close>

definition lease_record_result ::
  "instant \<Rightarrow> nat \<Rightarrow> bool \<Rightarrow> nat \<Rightarrow> duration \<Rightarrow> backend \<Rightarrow> bool \<times> backend" where
  "lease_record_result now i failed max_fails cooldown b =
     (case state_record_result now failed max_fails cooldown (bk_states b ! i) of
        (st, changed, ejected) \<Rightarrow> (ejected, bump changed (set_state i st b)))"

definition backend_record_result ::
  "instant \<Rightarrow> socket_addr \<Rightarrow> bool \<Rightarrow> nat \<Rightarrow> duration \<Rightarrow> backend \<Rightarrow> bool \<times> backend" where
  "backend_record_result now address failed max_fails cooldown b =
     (case find (\<lambda>e. ep_address (fst e) = address) (pl_endpoints (bk_pool b)) of
        None \<Rightarrow> (False, b)
      | Some e \<Rightarrow> lease_record_result now (snd e) failed max_fails cooldown b)"

definition set_active_health :: "nat \<Rightarrow> bool \<Rightarrow> backend \<Rightarrow> backend" where
  "set_active_health i ok b =
     (case state_set_active_health ok (bk_states b ! i) of
        (st, changed) \<Rightarrow> bump changed (set_state i st b))"

text \<open>\<open>Backend::ready\<close>: readiness, the state with an elapsed cooldown cleared, and the expiry.\<close>

definition ready ::
  "options \<Rightarrow> instant \<Rightarrow> endpoint \<Rightarrow> ep_state \<Rightarrow> instant option \<Rightarrow> bool \<times> ep_state \<times> instant option" where
  "ready opts now e st expires =
     (if ep_weight e = 0 then (False, st, expires)
      else if op_health opts = None \<and> \<not> es_has_failures st then (True, st, expires)
      else
        let (st', expires') =
          (case es_blocked_until st of
             None \<Rightarrow> (st, expires)
           | Some until \<Rightarrow>
               if until \<le> now
               then (st\<lparr>es_blocked_until := None, es_failures := 0, es_has_failures := False\<rparr>, expires)
               else (st, Some (case expires of None \<Rightarrow> until | Some current \<Rightarrow> min current until)))
        in (es_blocked_until st' = None \<and> (op_health opts = None \<or> es_active_ok st' = Some True),
            st', expires'))"

definition backend_ready :: "instant \<Rightarrow> entry \<Rightarrow> backend \<Rightarrow> bool \<times> backend" where
  "backend_ready now e b =
     (case ready (bk_options b) now (fst e) (bk_states b ! snd e) None of
        (ok, st, _) \<Rightarrow> (ok, set_state (snd e) st b))"

section \<open>The selection snapshot\<close>

fun selection_scan ::
  "options \<Rightarrow> instant \<Rightarrow> entry list \<Rightarrow> nat \<Rightarrow> selection \<Rightarrow> ep_state list \<Rightarrow> selection \<times> ep_state list" where
  "selection_scan opts now [] acc sel sts = (sel, sts)"
| "selection_scan opts now (e # es) acc sel sts =
     (case ready opts now (fst e) (sts ! snd e) (sel_expires sel) of
        (ok, st, expires) \<Rightarrow>
          let sts' = sts[snd e := st];
              sel' = sel\<lparr>sel_expires := expires\<rparr>
          in if ok
             then selection_scan opts now es (acc + ep_weight (fst e))
               (sel'\<lparr>sel_cumulative := sel_cumulative sel @ [acc + ep_weight (fst e)],
                     sel_endpoints := sel_endpoints sel @ [e]\<rparr>) sts'
             else selection_scan opts now es acc sel' sts')"

definition empty_selection :: "nat \<Rightarrow> selection" where
  "empty_selection revision =
     \<lparr>sel_endpoints = [], sel_cumulative = [], sel_revision = revision, sel_expires = None\<rparr>"

definition selection_new :: "instant \<Rightarrow> nat \<Rightarrow> backend \<Rightarrow> selection \<times> backend" where
  "selection_new now revision b =
     (case selection_scan (bk_options b) now (pl_endpoints (bk_pool b)) 0 (empty_selection revision)
             (bk_states b) of
        (sel, sts) \<Rightarrow> (sel, b\<lparr>bk_states := sts\<rparr>))"

definition selection_stale :: "instant \<Rightarrow> backend \<Rightarrow> bool" where
  "selection_stale now b =
     is_none_or (pl_selection (bk_pool b)) (\<lambda>sel.
       sel_revision sel \<noteq> bk_health_revision b
       \<or> is_some_and (sel_expires sel) (\<lambda>until. until \<le> now))"

section \<open>Balancing\<close>

text \<open>\<open>slice::partition_point\<close> on a slice that is partitioned by the test.\<close>

definition partition_point :: "('a \<Rightarrow> bool) \<Rightarrow> 'a list \<Rightarrow> nat" where
  "partition_point P xs = length (takeWhile P xs)"

text \<open>\<open>Iterator::min_by\<close> keeps the first of several minimal elements; \<open>gt a b\<close> is \<open>Greater\<close>.\<close>

definition min_by :: "('a \<Rightarrow> 'a \<Rightarrow> bool) \<Rightarrow> 'a list \<Rightarrow> 'a option" where
  "min_by gt xs =
     (case xs of [] \<Rightarrow> None | x # ys \<Rightarrow> Some (foldl (\<lambda>a b. if gt a b then b else a) x ys))"

definition hash_score ::
  "(string \<Rightarrow> string) \<Rightarrow> (rat \<Rightarrow> rat) \<Rightarrow> (rat \<Rightarrow> rat) \<Rightarrow> string \<Rightarrow> endpoint \<Rightarrow> ep_state \<Rightarrow> rat" where
  "hash_score sha256 f64_ln rnd key e st =
     (let bytes = sha256 (key @ [CHR 0x00] @ es_hash_address st);
          v = from_be_bytes (take 8 bytes);
          uniform = rnd (rnd (rnd (of_nat v) + 1) / rnd (rnd (of_nat usize_max) + 2))
      in rnd (- f64_ln uniform / of_nat (ep_weight e)))"

definition round_robin :: "64 word \<Rightarrow> selection \<Rightarrow> entry option" where
  "round_robin cursor sel =
     (if sel_cumulative sel = [] then None
      else
        let n = unat cursor mod last (sel_cumulative sel)
        in slice_get (sel_endpoints sel) (partition_point (\<lambda>end. end \<le> n) (sel_cumulative sel)))"

definition more_loaded :: "ep_state list \<Rightarrow> entry \<Rightarrow> entry \<Rightarrow> bool" where
  "more_loaded sts a b \<longleftrightarrow>
     es_active (sts ! snd b) * ep_weight (fst a) < es_active (sts ! snd a) * ep_weight (fst b)"

definition least_connections :: "64 word \<Rightarrow> ep_state list \<Rightarrow> entry list \<Rightarrow> entry option" where
  "least_connections cursor sts eligible =
     (let offset = unat cursor mod length eligible
      in min_by (more_loaded sts)
           (map (\<lambda>i. eligible ! ((i + offset) mod length eligible)) [0..<length eligible]))"

definition hash_choice ::
  "(string \<Rightarrow> string) \<Rightarrow> (rat \<Rightarrow> rat) \<Rightarrow> (rat \<Rightarrow> rat) \<Rightarrow> string \<Rightarrow> ep_state list \<Rightarrow> entry list \<Rightarrow> entry option" where
  "hash_choice sha256 f64_ln rnd key sts eligible =
     map_option fst (min_by (\<lambda>a b. snd b < snd a)
       (map (\<lambda>e. (e, hash_score sha256 f64_ln rnd key (fst e) (sts ! snd e))) eligible))"

section \<open>Leases\<close>

record lease =
  le_address :: socket_addr
  le_state :: nat

definition backend_lease :: "entry \<Rightarrow> backend \<Rightarrow> lease option \<times> backend" where
  "backend_lease e b =
     (if op_max_inflight (bk_options b) \<noteq> 0 \<and> op_max_inflight (bk_options b) \<le> bk_active_leases b
      then (None, b)
      else
        let st = bk_states b ! snd e
        in (Some \<lparr>le_address = ep_address (fst e), le_state = snd e\<rparr>,
            set_state (snd e) (st\<lparr>es_active := es_active st + 1\<rparr>)
              (b\<lparr>bk_active_leases := bk_active_leases b + 1\<rparr>)))"

definition lease_drop :: "lease \<Rightarrow> backend \<Rightarrow> backend" where
  "lease_drop l b =
     (let st = bk_states b ! le_state l
      in set_state (le_state l) (st\<lparr>es_active := es_active st - 1\<rparr>)
           (b\<lparr>bk_active_leases := bk_active_leases b - 1\<rparr>))"

definition select_from ::
  "(string \<Rightarrow> string) \<Rightarrow> (rat \<Rightarrow> rat) \<Rightarrow> (rat \<Rightarrow> rat) \<Rightarrow> selection \<Rightarrow> string \<Rightarrow> backend
     \<Rightarrow> lease option \<times> backend" where
  "select_from sha256 f64_ln rnd sel key b =
     (if sel_cumulative sel = [] then (None, b)
      else
        let (chosen, b') =
          (case op_balance (bk_options b) of
             RoundRobin \<Rightarrow> (round_robin (bk_cursor b) sel, b\<lparr>bk_cursor := bk_cursor b + 1\<rparr>)
           | LeastConnections \<Rightarrow>
               (least_connections (bk_cursor b) (bk_states b) (sel_endpoints sel),
                b\<lparr>bk_cursor := bk_cursor b + 1\<rparr>)
           | Hash _ \<Rightarrow> (hash_choice sha256 f64_ln rnd key (bk_states b) (sel_endpoints sel), b)
           | Sticky _ \<Rightarrow> (hash_choice sha256 f64_ln rnd key (bk_states b) (sel_endpoints sel), b))
        in case chosen of None \<Rightarrow> (None, b') | Some e \<Rightarrow> backend_lease e b')"

definition fixed_entry :: "(string \<Rightarrow> bool) \<Rightarrow> backend \<Rightarrow> entry option" where
  "fixed_entry is_ip b =
     (if length (bk_endpoints b) \<noteq> 1 \<or> (\<exists>o'\<in>set (bk_origins b). \<not> is_ip (or_host o')) then None
      else slice_get (pl_endpoints (bk_pool b)) 0)"

definition select_entry :: "instant \<Rightarrow> entry \<Rightarrow> backend \<Rightarrow> lease option \<times> backend" where
  "select_entry now e b =
     (case backend_ready now e b of (ok, b') \<Rightarrow> if ok then backend_lease e b' else (None, b'))"

definition refresh_selection :: "instant \<Rightarrow> backend \<Rightarrow> backend" where
  "refresh_selection now b =
     (if selection_stale now b
      then case selection_new now (bk_health_revision b) b of
             (sel, b') \<Rightarrow> b'\<lparr>bk_pool := (bk_pool b')\<lparr>pl_selection := Some sel\<rparr>\<rparr>
      else b)"

definition select_pool ::
  "(string \<Rightarrow> string) \<Rightarrow> (rat \<Rightarrow> rat) \<Rightarrow> (rat \<Rightarrow> rat) \<Rightarrow> instant \<Rightarrow> string \<Rightarrow> backend
     \<Rightarrow> lease option \<times> backend" where
  "select_pool sha256 f64_ln rnd now key b =
     (if 0 < op_max_inflight (bk_options b) \<and> op_max_inflight (bk_options b) \<le> bk_active_leases b
      then (None, b)
      else case pl_endpoints (bk_pool b) of
        [e] \<Rightarrow> select_entry now e b
      | _ \<Rightarrow>
          (let b' = refresh_selection now b
           in select_from sha256 f64_ln rnd (the (pl_selection (bk_pool b'))) key b'))"

definition backend_select ::
  "(string \<Rightarrow> bool) \<Rightarrow> (string \<Rightarrow> string) \<Rightarrow> (rat \<Rightarrow> rat) \<Rightarrow> (rat \<Rightarrow> rat) \<Rightarrow> instant \<Rightarrow> string \<Rightarrow> backend
     \<Rightarrow> lease option \<times> backend" where
  "backend_select is_ip sha256 f64_ln rnd now key b =
     (let fixed = (case bk_fixed b of None \<Rightarrow> fixed_entry is_ip b | Some x \<Rightarrow> x);
          b' = b\<lparr>bk_fixed := Some fixed\<rparr>
      in case fixed of
           Some e \<Rightarrow> select_entry now e b'
         | None \<Rightarrow> select_pool sha256 f64_ln rnd now key b')"

section \<open>Maintenance\<close>

definition maintain_begin ::
  "(string \<Rightarrow> bool) \<Rightarrow> instant \<Rightarrow> backend \<Rightarrow> (bool \<times> health_check option) \<times> backend" where
  "maintain_begin is_ip now b =
     (let p = bk_pool b;
          dns = (\<exists>o'\<in>set (bk_origins b). \<not> is_ip (or_host o')) \<and> pl_next_dns p \<le> now;
          health = filter_option (\<lambda>_. pl_next_health p \<le> now) (op_health (bk_options b));
          p' = (if dns then p\<lparr>pl_next_dns := now + from_secs 5\<rparr> else p);
          p'' = (case health of None \<Rightarrow> p' | Some h \<Rightarrow> p'\<lparr>pl_next_health := now + hc_interval h\<rparr>)
      in ((dns, health), b\<lparr>bk_pool := p''\<rparr>))"

text \<open>
  The resolution loop: \<open>lookup host\<close> is the validity and the addresses of a successful lookup, or
  \<open>None\<close> when it fails or times out, which ends the loop.
\<close>

fun resolve_origins ::
  "(string \<Rightarrow> ip option) \<Rightarrow> (string \<Rightarrow> (instant \<times> ip list) option) \<Rightarrow> origin list
     \<Rightarrow> (socket_addr, nat) btree \<Rightarrow> instant \<Rightarrow> ((socket_addr, nat) btree \<times> instant) option" where
  "resolve_origins parse_ip lookup [] eps until = Some (eps, until)"
| "resolve_origins parse_ip lookup (o' # os) eps until =
     (case parse_ip (or_host o') of
        Some a \<Rightarrow> resolve_origins parse_ip lookup os
          (bt_insert (socket_addr_new a (or_port o')) (or_weight o') eps) until
      | None \<Rightarrow>
          (case lookup (or_host o') of
             None \<Rightarrow> None
           | Some (valid, ips) \<Rightarrow> resolve_origins parse_ip lookup os
               (fold (\<lambda>a. bt_insert (socket_addr_new a (or_port o')) (or_weight o')) ips eps)
               (min until valid)))"

text \<open>
  The entries for the resolved addresses: an address that was in the pool keeps its state, a new
  one gets a new state at the end of the store.
\<close>

fun pool_entries ::
  "(socket_addr \<Rightarrow> string) \<Rightarrow> (socket_addr, nat) btree \<Rightarrow> (socket_addr \<times> nat) list \<Rightarrow> ep_state list
     \<Rightarrow> entry list \<times> ep_state list" where
  "pool_entries show_addr previous [] sts = ([], sts)"
| "pool_entries show_addr previous ((a, w) # eps) sts =
     (case bt_get previous a of
        Some i \<Rightarrow>
          (case pool_entries show_addr previous eps sts of
             (es, sts') \<Rightarrow> ((\<lparr>ep_address = a, ep_weight = w\<rparr>, i) # es, sts'))
      | None \<Rightarrow>
          (case pool_entries show_addr previous eps (sts @ [new_ep_state show_addr a]) of
             (es, sts') \<Rightarrow> ((\<lparr>ep_address = a, ep_weight = w\<rparr>, length sts) # es, sts')))"

definition install_endpoints ::
  "(socket_addr \<Rightarrow> string) \<Rightarrow> instant \<Rightarrow> ((socket_addr, nat) btree \<times> instant) option \<Rightarrow> backend \<Rightarrow> backend" where
  "install_endpoints show_addr now resolved b =
     (let p = bk_pool b in
      case resolved of
        Some (eps, until) \<Rightarrow>
          (let previous = bt_collect (map (\<lambda>(e, i). (ep_address e, i)) (pl_endpoints p));
               (es, sts) = pool_entries show_addr previous eps (bk_states b)
           in b\<lparr>bk_states := sts,
                bk_pool := p\<lparr>pl_endpoints := es, pl_selection := None,
                  pl_next_dns := max until (now + from_secs 1), pl_dns_success := now\<rparr>\<rparr>)
      | None \<Rightarrow>
          if from_secs 60 < duration_since now (pl_dns_success p)
          then b\<lparr>bk_pool := p\<lparr>pl_endpoints := [], pl_selection := None\<rparr>\<rparr>
          else b)"

definition refresh_dns ::
  "(socket_addr \<Rightarrow> string) \<Rightarrow> (string \<Rightarrow> ip option) \<Rightarrow> (string \<Rightarrow> (instant \<times> ip list) option)
     \<Rightarrow> instant \<Rightarrow> backend \<Rightarrow> backend" where
  "refresh_dns show_addr parse_ip lookup now b =
     install_endpoints show_addr now
       (resolve_origins parse_ip lookup (bk_origins b) [] (now + from_secs 3600)) b"

text \<open>The active checks: each endpoint is probed and its state records the outcome.\<close>

definition run_checks :: "(socket_addr \<Rightarrow> bool) \<Rightarrow> backend \<Rightarrow> backend" where
  "run_checks probe b =
     fold (\<lambda>e. set_active_health (snd e) (probe (ep_address (fst e)))) (pl_endpoints (bk_pool b)) b"

definition maintain ::
  "(socket_addr \<Rightarrow> string) \<Rightarrow> (string \<Rightarrow> ip option) \<Rightarrow> (string \<Rightarrow> (instant \<times> ip list) option) option
     \<Rightarrow> (socket_addr \<Rightarrow> bool) \<Rightarrow> instant \<Rightarrow> backend \<Rightarrow> backend" where
  "maintain show_addr parse_ip resolver probe now b =
     (let ((dns, health), b1) = maintain_begin (\<lambda>h. parse_ip h \<noteq> None) now b;
          b2 = (case resolver of
                  Some lookup \<Rightarrow> if dns then refresh_dns show_addr parse_ip lookup now b1 else b1
                | None \<Rightarrow> b1)
      in case health of None \<Rightarrow> b2 | Some _ \<Rightarrow> run_checks probe b2)"

record pool_observation =
  ob_endpoints :: nat
  ob_eligible :: nat
  ob_ejected :: nat
  ob_unready :: nat
  ob_active :: nat
  ob_dns_age :: "rat option"

definition backend_observation ::
  "(string \<Rightarrow> bool) \<Rightarrow> (rat \<Rightarrow> rat) \<Rightarrow> instant \<Rightarrow> backend \<Rightarrow> pool_observation" where
  "backend_observation is_ip rnd now b =
     (let es = pl_endpoints (bk_pool b);
          ejected = (\<lambda>e. is_some_and (es_blocked_until (bk_states b ! snd e)) (\<lambda>until. now < until));
          unready = (\<lambda>e. op_health (bk_options b) \<noteq> None \<and> es_active_ok (bk_states b ! snd e) \<noteq> Some True)
      in \<lparr>ob_endpoints = length es,
          ob_eligible = length (filter (\<lambda>e. \<not> ejected e \<and> \<not> unready e \<and> 0 < ep_weight (fst e)) es),
          ob_ejected = length (filter ejected es),
          ob_unready = length (filter unready es),
          ob_active = bk_active_leases b,
          ob_dns_age =
            (if \<exists>o'\<in>set (bk_origins b). \<not> is_ip (or_host o')
             then Some (as_secs_f64 rnd (duration_since now (pl_dns_success (bk_pool b)))) else None)\<rparr>)"

section \<open>Readiness\<close>

text \<open>
  The comment on \<open>State.has_failures\<close> as an invariant, and readiness at a time as a pure predicate:
  what \<open>Backend::ready\<close> returns and what it preserves for all later times.
\<close>

definition st_ok :: "ep_state \<Rightarrow> bool" where
  "st_ok st \<longleftrightarrow> (\<not> es_has_failures st \<longrightarrow> es_failures st = 0 \<and> es_blocked_until st = None)"

definition is_ready :: "options \<Rightarrow> instant \<Rightarrow> endpoint \<Rightarrow> ep_state \<Rightarrow> bool" where
  "is_ready opts now e st \<longleftrightarrow>
     0 < ep_weight e \<and> is_none_or (es_blocked_until st) (\<lambda>until. until \<le> now)
     \<and> (op_health opts = None \<or> es_active_ok st = Some True)"

text \<open>States that every later operation sees as the same: counters, hash address and readiness.\<close>

definition alike :: "options \<Rightarrow> instant \<Rightarrow> ep_state \<Rightarrow> ep_state \<Rightarrow> bool" where
  "alike opts now st st' \<longleftrightarrow>
     es_active st' = es_active st \<and> es_hash_address st' = es_hash_address st \<and> (st_ok st \<longrightarrow> st_ok st')
     \<and> (\<forall>t\<ge>now. \<forall>e. is_ready opts t e st' = is_ready opts t e st)"

lemma alike_refl [simp]: "alike opts now st st"
  by (simp add: alike_def)

lemma alike_trans: "alike opts now a b \<Longrightarrow> alike opts now b c \<Longrightarrow> alike opts now a c"
  by (auto simp: alike_def)

lemma alike_later: "alike opts now a b \<Longrightarrow> now \<le> t \<Longrightarrow> alike opts t a b"
  by (auto simp: alike_def)

lemma ready_spec:
  assumes ok: "st_ok st" and r: "ready opts now e st expires = (res, st', expires')"
  shows "res = is_ready opts now e st" and "alike opts now st st'"
  using assms
  by (cases "es_blocked_until st";
      auto simp: ready_def alike_def st_ok_def is_ready_def Let_def split: if_splits)+

definition before :: "instant \<Rightarrow> instant option \<Rightarrow> bool" where
  "before t expires \<longleftrightarrow> is_none_or expires (\<lambda>until. t < until)"

lemma ready_expires:
  assumes ok: "st_ok st" and r: "ready opts now e st expires = (res, st', expires')" and t: "now \<le> t"
    and b: "before t expires'"
  shows "before t expires" and "is_ready opts t e st = is_ready opts now e st"
  using assms
  by (cases "es_blocked_until st"; cases expires;
      auto simp: ready_def st_ok_def is_ready_def before_def Let_def split: if_splits)+

fun cumsum :: "nat \<Rightarrow> nat list \<Rightarrow> nat list" where
  "cumsum acc [] = []"
| "cumsum acc (w # ws) = (acc + w) # cumsum (acc + w) ws"

definition ready_entries :: "options \<Rightarrow> instant \<Rightarrow> ep_state list \<Rightarrow> entry list \<Rightarrow> entry list" where
  "ready_entries opts now sts es = filter (\<lambda>e. is_ready opts now (fst e) (sts ! snd e)) es"

definition all_alike :: "options \<Rightarrow> instant \<Rightarrow> ep_state list \<Rightarrow> ep_state list \<Rightarrow> bool" where
  "all_alike opts now sts sts' \<longleftrightarrow> list_all2 (alike opts now) sts sts'"

lemma all_alike_refl [simp]: "all_alike opts now sts sts"
  by (simp add: all_alike_def list_all2_refl)

lemma all_alike_trans: "all_alike opts now a b \<Longrightarrow> all_alike opts now b c \<Longrightarrow> all_alike opts now a c"
  unfolding all_alike_def by (rule list_all2_trans [of _ _ "alike opts now"]) (auto intro: alike_trans)

lemma all_alike_update:
  "(i < length sts \<Longrightarrow> alike opts now (sts ! i) st) \<Longrightarrow> all_alike opts now sts (sts[i := st])"
  by (cases "i < length sts") (auto simp: all_alike_def list_all2_conv_all_nth nth_list_update list_update_beyond)

lemma all_alike_later: "all_alike opts now a b \<Longrightarrow> now \<le> t \<Longrightarrow> all_alike opts t a b"
  unfolding all_alike_def by (erule list_all2_mono) (rule alike_later)

lemma all_alike_ok: "all_alike opts now sts sts' \<Longrightarrow> \<forall>st\<in>set sts. st_ok st \<Longrightarrow> \<forall>st\<in>set sts'. st_ok st"
  by (fastforce simp: all_alike_def list_all2_conv_all_nth alike_def in_set_conv_nth)

lemma all_alike_ready:
  assumes "all_alike opts now sts sts'" and "\<forall>e\<in>set es. snd e < length sts" and "now \<le> t"
  shows "ready_entries opts t sts' es = ready_entries opts t sts es"
  unfolding ready_entries_def
  using assms by (intro filter_cong) (auto simp: all_alike_def list_all2_conv_all_nth alike_def)

text \<open>The scan collects the ready entries and their running weights.\<close>

lemma selection_scan_spec:
  assumes "selection_scan opts now es acc sel sts = (sel', sts')"
    and "\<forall>st\<in>set sts. st_ok st" and "\<forall>e\<in>set es. snd e < length sts"
  shows "sel_endpoints sel' = sel_endpoints sel @ ready_entries opts now sts es"
    and "sel_cumulative sel' = sel_cumulative sel @
      cumsum acc (map (\<lambda>e. ep_weight (fst e)) (ready_entries opts now sts es))"
    and "sel_revision sel' = sel_revision sel"
    and "all_alike opts now sts sts'"
    and "now \<le> t \<Longrightarrow> before t (sel_expires sel') \<Longrightarrow>
      before t (sel_expires sel) \<and> ready_entries opts t sts es = ready_entries opts now sts es"
proof -
  have "sel_endpoints sel' = sel_endpoints sel @ ready_entries opts now sts es
    \<and> sel_cumulative sel' = sel_cumulative sel @
        cumsum acc (map (\<lambda>e. ep_weight (fst e)) (ready_entries opts now sts es))
    \<and> sel_revision sel' = sel_revision sel \<and> all_alike opts now sts sts'
    \<and> (\<forall>t\<ge>now. before t (sel_expires sel') \<longrightarrow>
        before t (sel_expires sel) \<and> ready_entries opts t sts es = ready_entries opts now sts es)"
    using assms
  proof (induction es arbitrary: acc sel sts)
    case (Cons e es)
    obtain res st x where r: "ready opts now (fst e) (sts ! snd e) (sel_expires sel) = (res, st, x)"
      by (cases "ready opts now (fst e) (sts ! snd e) (sel_expires sel)") auto
    have stok: "st_ok (sts ! snd e)" using Cons.prems by simp
    note spec = ready_spec [OF stok r] and exp = ready_expires [OF stok r]
    let ?sts = "sts[snd e := st]"
    let ?sel = "if res then sel\<lparr>sel_expires := x, sel_cumulative := sel_cumulative sel @ [acc + ep_weight (fst e)],
        sel_endpoints := sel_endpoints sel @ [e]\<rparr> else sel\<lparr>sel_expires := x\<rparr>"
    have alike: "all_alike opts now sts ?sts" using spec(2) by (intro all_alike_update)
    have rest: "selection_scan opts now es (if res then acc + ep_weight (fst e) else acc) ?sel ?sts = (sel', sts')"
      using Cons.prems(1) r by (simp add: Let_def split: if_splits)
    have ok: "\<forall>st\<in>set ?sts. st_ok st" using all_alike_ok [OF alike] Cons.prems(2) by blast
    have ids: "\<forall>e\<in>set es. snd e < length ?sts" "\<forall>e\<in>set es. snd e < length sts"
      using Cons.prems(3) by simp_all
    have same: "ready_entries opts t ?sts es = ready_entries opts t sts es" if "now \<le> t" for t
      using all_alike_ready [OF alike ids(2) that] .
    have head: "ready_entries opts t sts (e # es) =
        (if is_ready opts t (fst e) (sts ! snd e) then [e] else []) @ ready_entries opts t sts es" for t
      by (simp add: ready_entries_def)
    note IH = Cons.IH [OF rest ok ids(1)]
    show ?case
    proof (intro conjI allI impI)
      fix t assume t: "now \<le> t" and b: "before t (sel_expires sel')"
      with IH have "before t (sel_expires ?sel)" by blast
      then have bx: "before t x" by (simp split: if_splits)
      from exp [OF t bx] show "before t (sel_expires sel)" by blast
      show "ready_entries opts t sts (e # es) = ready_entries opts now sts (e # es)"
        using IH t b exp(2) [OF t bx] same by (simp add: head)
    qed (use IH alike spec(1) same in \<open>auto simp: head intro: all_alike_trans\<close>)
  qed (simp add: ready_entries_def)
  then show "sel_endpoints sel' = sel_endpoints sel @ ready_entries opts now sts es"
    and "sel_cumulative sel' = sel_cumulative sel @
      cumsum acc (map (\<lambda>e. ep_weight (fst e)) (ready_entries opts now sts es))"
    and "sel_revision sel' = sel_revision sel" and "all_alike opts now sts sts'"
    and "now \<le> t \<Longrightarrow> before t (sel_expires sel') \<Longrightarrow>
      before t (sel_expires sel) \<and> ready_entries opts t sts es = ready_entries opts now sts es"
    by blast+
qed

section \<open>Interleaved operations\<close>

text \<open>The code of other crates and of the standard library that the operations call.\<close>

record env =
  ev_show :: "socket_addr \<Rightarrow> string"
  ev_parse_ip :: "string \<Rightarrow> ip option"
  ev_sha256 :: "string \<Rightarrow> string"
  ev_ln :: "rat \<Rightarrow> rat"
  ev_rnd :: "rat \<Rightarrow> rat"

abbreviation numeric :: "env \<Rightarrow> backend \<Rightarrow> bool" where
  "numeric env b \<equiv> \<forall>o'\<in>set (bk_origins b). ev_parse_ip env (or_host o') \<noteq> None"

text \<open>
  The operations that other components call, each atomic under the pool or the health lock. The
  DNS refresh happens only for a backend with an origin that is a name, as in \<open>maintain\<close>.
\<close>

datatype backend_op =
    OpSelect instant string
  | OpRecordLease instant nat bool nat duration
  | OpRecordAddress instant socket_addr bool nat duration
  | OpProbe instant nat bool
  | OpTick instant
  | OpDns instant "string \<Rightarrow> (instant \<times> ip list) option"

fun op_time :: "backend_op \<Rightarrow> instant" where
  "op_time (OpSelect now key) = now"
| "op_time (OpRecordLease now i failed max_fails cooldown) = now"
| "op_time (OpRecordAddress now a failed max_fails cooldown) = now"
| "op_time (OpProbe now i ok) = now"
| "op_time (OpTick now) = now"
| "op_time (OpDns now lookup) = now"

fun apply_op :: "env \<Rightarrow> backend_op \<Rightarrow> backend \<Rightarrow> lease option \<times> backend" where
  "apply_op env (OpSelect now key) b =
     backend_select (\<lambda>h. ev_parse_ip env h \<noteq> None) (ev_sha256 env) (ev_ln env) (ev_rnd env) now key b"
| "apply_op env (OpRecordLease now i failed max_fails cooldown) b =
     (None, snd (lease_record_result now i failed max_fails cooldown b))"
| "apply_op env (OpRecordAddress now a failed max_fails cooldown) b =
     (None, snd (backend_record_result now a failed max_fails cooldown b))"
| "apply_op env (OpProbe now i ok) b = (None, set_active_health i ok b)"
| "apply_op env (OpTick now) b =
     (None, snd (maintain_begin (\<lambda>h. ev_parse_ip env h \<noteq> None) now b))"
| "apply_op env (OpDns now lookup) b =
     (None, if numeric env b then b else refresh_dns (ev_show env) (ev_parse_ip env) lookup now b)"

definition snapshot_ok :: "backend \<Rightarrow> selection \<Rightarrow> instant \<Rightarrow> bool" where
  "snapshot_ok b sel now \<longleftrightarrow>
     sel_endpoints sel = ready_entries (bk_options b) now (bk_states b) (pl_endpoints (bk_pool b))
     \<and> sel_cumulative sel = cumsum 0 (map (\<lambda>e. ep_weight (fst e)) (sel_endpoints sel))"

definition coherent :: "instant \<Rightarrow> backend \<Rightarrow> bool" where
  "coherent t b \<longleftrightarrow> (\<forall>sel. pl_selection (bk_pool b) = Some sel \<longrightarrow>
     sel_revision sel \<le> bk_health_revision b
     \<and> (sel_revision sel = bk_health_revision b \<longrightarrow>
          (\<forall>now\<ge>t. before now (sel_expires sel) \<longrightarrow> snapshot_ok b sel now)))"

definition bk_ok :: "env \<Rightarrow> backend \<Rightarrow> bool" where
  "bk_ok env b \<longleftrightarrow>
     (\<forall>e\<in>set (pl_endpoints (bk_pool b)). snd e < length (bk_states b))
     \<and> (\<forall>st\<in>set (bk_states b). st_ok st)
     \<and> (numeric env b \<longrightarrow> map fst (pl_endpoints (bk_pool b)) = bk_endpoints b)
     \<and> (\<forall>e. bk_fixed b = Some (Some e) \<longrightarrow> pl_endpoints (bk_pool b) = [e] \<and> numeric env b)"

text \<open>What operations that leave the pool and the health revision alone may change.\<close>

definition similar :: "options \<Rightarrow> instant \<Rightarrow> ep_state \<Rightarrow> ep_state \<Rightarrow> bool" where
  "similar opts now st st' \<longleftrightarrow>
     es_hash_address st' = es_hash_address st \<and> (st_ok st \<longrightarrow> st_ok st')
     \<and> (\<forall>t\<ge>now. \<forall>e. is_ready opts t e st' = is_ready opts t e st)"

definition quiet :: "instant \<Rightarrow> backend \<Rightarrow> backend \<Rightarrow> bool" where
  "quiet now b b' \<longleftrightarrow>
     bk_endpoints b' = bk_endpoints b \<and> bk_options b' = bk_options b \<and> bk_origins b' = bk_origins b
     \<and> bk_health_revision b' = bk_health_revision b
     \<and> pl_endpoints (bk_pool b') = pl_endpoints (bk_pool b)
     \<and> pl_selection (bk_pool b') = pl_selection (bk_pool b)
     \<and> list_all2 (similar (bk_options b) now) (bk_states b) (bk_states b')"

lemma similar_refl [simp]: "similar opts now st st"
  by (simp add: similar_def)

lemma quiet_refl: "quiet now b b"
  by (simp add: quiet_def list_all2_refl)

lemma quiet_trans:
  assumes "quiet now a b" and "quiet now b c"
  shows "quiet now a c"
proof -
  have "list_all2 (similar (bk_options a) now) (bk_states a) (bk_states c)"
    by (rule list_all2_trans [of "similar (bk_options a) now" "similar (bk_options a) now"])
       (use assms in \<open>auto simp: quiet_def similar_def\<close>)
  with assms show ?thesis by (simp add: quiet_def)
qed

lemma quiet_states:
  "all_alike (bk_options b) now (bk_states b) sts \<Longrightarrow> quiet now b (b\<lparr>bk_states := sts\<rparr>)"
  by (auto simp: quiet_def all_alike_def alike_def similar_def elim: list_all2_mono)

lemma quiet_set_state:
  "(i < length (bk_states b) \<Longrightarrow> similar (bk_options b) now (bk_states b ! i) st) \<Longrightarrow>
   quiet now b (set_state i st b)"
  by (cases "i < length (bk_states b)")
     (auto simp: quiet_def set_state_def list_all2_conv_all_nth nth_list_update list_update_beyond)

lemma quiet_ready:
  assumes "quiet now b b'" and "now \<le> t" and "\<forall>e\<in>set es. snd e < length (bk_states b)"
  shows "ready_entries (bk_options b') t (bk_states b') es = ready_entries (bk_options b) t (bk_states b) es"
  unfolding ready_entries_def
  using assms by (intro filter_cong) (auto simp: quiet_def list_all2_conv_all_nth similar_def)

lemma quiet_ok:
  assumes "quiet now b b'" and "bk_ok env b" and "bk_fixed b' = bk_fixed b"
  shows "bk_ok env b'"
proof -
  have "\<forall>st\<in>set (bk_states b'). st_ok st"
    using assms(1,2) by (fastforce simp: bk_ok_def quiet_def list_all2_conv_all_nth similar_def in_set_conv_nth)
  moreover have "length (bk_states b') = length (bk_states b)"
    using assms(1) by (auto simp: quiet_def dest: list_all2_lengthD)
  ultimately show ?thesis using assms by (simp add: bk_ok_def quiet_def)
qed

lemma quiet_coherent:
  assumes q: "quiet now b b'" and ok: "bk_ok env b" and c: "coherent t b" and t: "t \<le> now"
  shows "coherent now b'"
  unfolding coherent_def
proof (intro allI impI)
  fix sel assume "pl_selection (bk_pool b') = Some sel"
  then have sel: "pl_selection (bk_pool b) = Some sel" using q by (simp add: quiet_def)
  have "snapshot_ok b' sel u" if "snapshot_ok b sel u" "now \<le> u" for u
    using that quiet_ready [OF q that(2), of "pl_endpoints (bk_pool b)"] ok q
    by (simp add: snapshot_ok_def bk_ok_def quiet_def)
  with c sel q t show "sel_revision sel \<le> bk_health_revision b'
      \<and> (sel_revision sel = bk_health_revision b' \<longrightarrow>
          (\<forall>now'\<ge>now. before now' (sel_expires sel) \<longrightarrow> snapshot_ok b' sel now'))"
    by (simp add: coherent_def quiet_def)
qed

text \<open>A health transition bumps the revision, so no snapshot of the old one stays valid.\<close>

lemma state_record_result_spec:
  assumes "state_record_result now failed max_fails cooldown st = (st', changed, ejected)"
  shows "st_ok st \<Longrightarrow> st_ok st'" and "es_active st' = es_active st"
    and "es_hash_address st' = es_hash_address st"
    and "\<not> changed \<Longrightarrow> is_ready opts t e st' = is_ready opts t e st"
    and "ejected \<Longrightarrow> changed \<and> es_blocked_until st' = Some (now + cooldown)"
  using assms
  by (auto simp: state_record_result_def st_ok_def is_ready_def Let_def split: if_splits)

definition noisy :: "backend \<Rightarrow> backend \<Rightarrow> bool" where
  "noisy b b' \<longleftrightarrow> (\<exists>i st. (i < length (bk_states b) \<longrightarrow> st_ok (bk_states b ! i) \<longrightarrow> st_ok st)
     \<and> b' = bump True (set_state i st b))"

lemma noisy_ok: "noisy b b' \<Longrightarrow> bk_ok env b \<Longrightarrow> bk_ok env b'"
proof -
  assume n: "noisy b b'" and ok: "bk_ok env b"
  obtain i st where i: "i < length (bk_states b) \<longrightarrow> st_ok (bk_states b ! i) \<longrightarrow> st_ok st"
    and b': "b' = bump True (set_state i st b)" using n by (auto simp: noisy_def)
  have "\<forall>x\<in>set ((bk_states b)[i := st]). st_ok x"
  proof (cases "i < length (bk_states b)")
    case True
    moreover from this have "bk_states b ! i \<in> set (bk_states b)" by simp
    ultimately show ?thesis
      using i ok set_update_subset_insert [of "bk_states b" i st] unfolding bk_ok_def by blast
  next
    case False
    with ok show ?thesis by (simp add: bk_ok_def list_update_beyond)
  qed
  with ok show "bk_ok env b'" by (simp add: b' bump_def set_state_def bk_ok_def)
qed

lemma noisy_coherent: "noisy b b' \<Longrightarrow> coherent t b \<Longrightarrow> coherent now b'"
proof -
  assume n: "noisy b b'" and c: "coherent t b"
  have same: "bk_pool b' = bk_pool b" and rev: "bk_health_revision b' = Suc (bk_health_revision b)"
    using n by (auto simp: noisy_def bump_def set_state_def)
  show "coherent now b'"
    unfolding coherent_def same rev
  proof (intro allI impI)
    fix sel assume "pl_selection (bk_pool b) = Some sel"
    with c have "sel_revision sel \<le> bk_health_revision b" by (simp add: coherent_def)
    then show "sel_revision sel \<le> Suc (bk_health_revision b)
      \<and> (sel_revision sel = Suc (bk_health_revision b) \<longrightarrow>
          (\<forall>now'\<ge>now. before now' (sel_expires sel) \<longrightarrow> snapshot_ok b' sel now'))" by simp
  qed
qed

lemma lease_record_result_effect:
  "quiet now b (snd (lease_record_result now i failed max_fails cooldown b))
   \<or> noisy b (snd (lease_record_result now i failed max_fails cooldown b))"
proof -
  obtain st changed ejected where r:
    "state_record_result now failed max_fails cooldown (bk_states b ! i) = (st, changed, ejected)"
    by (metis prod_cases3)
  note spec = state_record_result_spec [OF r]
  show ?thesis
  proof (cases changed)
    case True
    then show ?thesis using spec(1) r by (auto simp: lease_record_result_def noisy_def)
  next
    case False
    then have "quiet now b (set_state i st b)"
      using spec by (intro quiet_set_state) (simp add: similar_def)
    with False r show ?thesis by (simp add: lease_record_result_def bump_def)
  qed
qed

lemma set_active_health_effect: "quiet now b (set_active_health i ok b) \<or> noisy b (set_active_health i ok b)"
proof (cases "es_active_ok (bk_states b ! i) = Some ok")
  case True
  then have "set_active_health i ok b = set_state i (bk_states b ! i) b"
    by (simp add: set_active_health_def state_set_active_health_def bump_def)
  then show ?thesis by (simp add: quiet_set_state)
next
  case False
  then have "noisy b (set_active_health i ok b)"
    unfolding noisy_def
    by (intro exI [of _ i] exI [of _ "(bk_states b ! i)\<lparr>es_active_ok := Some ok\<rparr>"])
       (simp add: set_active_health_def state_set_active_health_def st_ok_def)
  then show ?thesis by simp
qed

lemma quiet_active:
  "quiet now b (set_state i ((bk_states b ! i)\<lparr>es_active := n\<rparr>) (b\<lparr>bk_active_leases := m\<rparr>))"
proof -
  have "similar opts now st (st\<lparr>es_active := n\<rparr>)" for opts st
    by (simp add: similar_def st_ok_def is_ready_def)
  then show ?thesis
    by (cases "i < length (bk_states b)")
       (auto simp: set_state_def quiet_def list_all2_conv_all_nth nth_list_update list_update_beyond)
qed

lemma backend_lease_quiet: "backend_lease e b = (res, b') \<Longrightarrow> quiet now b b' \<and> bk_fixed b' = bk_fixed b"
  using quiet_active [of now b "snd e"]
  by (auto simp: backend_lease_def Let_def quiet_refl set_state_def split: if_splits)

lemma lease_drop_quiet: "quiet now b (lease_drop l b) \<and> bk_fixed (lease_drop l b) = bk_fixed b"
  using quiet_active by (simp add: lease_drop_def Let_def set_state_def)

section \<open>Selection against the endpoints that are ready now\<close>

text \<open>The choice a backend makes among the entries that are ready, with no snapshot in between.\<close>

definition snapshot_of :: "entry list \<Rightarrow> selection" where
  "snapshot_of es = \<lparr>sel_endpoints = es, sel_cumulative = cumsum 0 (map (\<lambda>e. ep_weight (fst e)) es),
     sel_revision = 0, sel_expires = None\<rparr>"

definition reference_choice :: "env \<Rightarrow> string \<Rightarrow> backend \<Rightarrow> entry list \<Rightarrow> entry option" where
  "reference_choice env key b es =
     (if es = [] then None
      else case op_balance (bk_options b) of
        RoundRobin \<Rightarrow> round_robin (bk_cursor b) (snapshot_of es)
      | LeastConnections \<Rightarrow> least_connections (bk_cursor b) (bk_states b) es
      | Hash _ \<Rightarrow> hash_choice (ev_sha256 env) (ev_ln env) (ev_rnd env) key (bk_states b) es
      | Sticky _ \<Rightarrow> hash_choice (ev_sha256 env) (ev_ln env) (ev_rnd env) key (bk_states b) es)"

definition at_capacity :: "backend \<Rightarrow> bool" where
  "at_capacity b \<longleftrightarrow> op_max_inflight (bk_options b) \<noteq> 0
     \<and> op_max_inflight (bk_options b) \<le> bk_active_leases b"

abbreviation ready_now :: "instant \<Rightarrow> backend \<Rightarrow> entry list" where
  "ready_now now b \<equiv> ready_entries (bk_options b) now (bk_states b) (pl_endpoints (bk_pool b))"

definition lease_of :: "entry \<Rightarrow> lease" where
  "lease_of e = \<lparr>le_address = ep_address (fst e), le_state = snd e\<rparr>"

definition reference_select :: "env \<Rightarrow> instant \<Rightarrow> string \<Rightarrow> backend \<Rightarrow> lease option" where
  "reference_select env now key b =
     (if at_capacity b then None
      else map_option lease_of (reference_choice env key b (ready_now now b)))"

lemma backend_lease_result:
  "fst (backend_lease e b) = (if at_capacity b then None else Some (lease_of e))"
  by (simp add: backend_lease_def at_capacity_def lease_of_def Let_def)

lemma cumsum_Nil_iff [simp]: "cumsum acc ws = [] \<longleftrightarrow> ws = []"
  by (cases ws) simp_all

lemma min_by_singleton [simp]: "min_by gt [x] = Some x"
  by (simp add: min_by_def)

lemma reference_choice_singleton:
  "0 < ep_weight (fst e) \<Longrightarrow> reference_choice env key b [e] = Some e"
proof -
  assume "0 < ep_weight (fst e)"
  then have "\<not> ep_weight (fst e) \<le> unat (bk_cursor b) mod ep_weight (fst e)" by (simp add: not_le)
  then show ?thesis
    by (cases "op_balance (bk_options b)")
       (simp_all add: reference_choice_def round_robin_def snapshot_of_def partition_point_def
         least_connections_def hash_choice_def Let_def)
qed

lemma select_from_reference:
  assumes "sel_endpoints sel = es"
    and "sel_cumulative sel = cumsum 0 (map (\<lambda>e. ep_weight (fst e)) es)"
  shows "fst (select_from (ev_sha256 env) (ev_ln env) (ev_rnd env) sel key b) =
    (if at_capacity b then None else map_option lease_of (reference_choice env key b es))"
proof -
  have rr: "round_robin (bk_cursor b) sel = round_robin (bk_cursor b) (snapshot_of es)"
    using assms by (simp add: round_robin_def snapshot_of_def)
  have cap: "at_capacity (b\<lparr>bk_cursor := c\<rparr>) = at_capacity b" for c by (simp add: at_capacity_def)
  show ?thesis
    using assms rr
    by (auto simp: select_from_def reference_choice_def Let_def backend_lease_result cap
        split: option.split balance.split)
qed

lemma reference_choice_alike:
  assumes "all_alike opts now (bk_states b) (bk_states b')" and "\<forall>e\<in>set es. snd e < length (bk_states b)"
    and "bk_options b' = bk_options b" and "bk_cursor b' = bk_cursor b"
  shows "reference_choice env key b' es = reference_choice env key b es"
proof -
  have same: "es_active (bk_states b' ! snd e) = es_active (bk_states b ! snd e)"
    "es_hash_address (bk_states b' ! snd e) = es_hash_address (bk_states b ! snd e)" if "e \<in> set es" for e
    using assms(1,2) that by (auto simp: all_alike_def list_all2_conv_all_nth alike_def)
  have hash: "hash_choice sha256 lg rnd key (bk_states b') es = hash_choice sha256 lg rnd key (bk_states b) es"
    for sha256 lg rnd
    using same(2) by (auto simp: hash_choice_def hash_score_def Let_def cong: map_cong)
  have min: "min_by (more_loaded (bk_states b')) xs = min_by (more_loaded (bk_states b)) xs"
    if "set xs \<subseteq> set es" for xs
  proof (cases xs)
    case (Cons x ys)
    have "foldl (\<lambda>a b. if more_loaded (bk_states b') a b then b else a) x ys =
        foldl (\<lambda>a c. if more_loaded (bk_states b) a c then c else a) x ys" if "x \<in> set es" "set ys \<subseteq> set es" for x ys
      using that by (induction ys arbitrary: x) (auto simp: more_loaded_def same(1))
    with that Cons show ?thesis by (simp add: min_by_def)
  qed (simp add: min_by_def)
  have "least_connections c (bk_states b') es = least_connections c (bk_states b) es" if "es \<noteq> []" for c
  proof -
    have "set (map (\<lambda>i. es ! ((i + unat c mod length es) mod length es)) [0..<length es]) \<subseteq> set es"
      using that by auto
    from min [OF this] show ?thesis by (simp add: least_connections_def Let_def)
  qed
  with hash assms(3,4) show ?thesis by (simp add: reference_choice_def split: balance.split)
qed

lemma selection_new_spec:
  assumes ok: "bk_ok env b" and new: "selection_new now revision b = (sel, b')"
  shows "sel_endpoints sel = ready_now now b"
    and "sel_cumulative sel = cumsum 0 (map (\<lambda>e. ep_weight (fst e)) (ready_now now b))"
    and "sel_revision sel = revision"
    and "b' = b\<lparr>bk_states := bk_states b'\<rparr>" and "all_alike (bk_options b) now (bk_states b) (bk_states b')"
    and "now \<le> t \<Longrightarrow> before t (sel_expires sel) \<Longrightarrow> snapshot_ok b' sel t"
proof -
  let ?es = "pl_endpoints (bk_pool b)"
  obtain sts where scan: "selection_scan (bk_options b) now ?es 0 (empty_selection revision) (bk_states b) = (sel, sts)"
    and b': "b' = b\<lparr>bk_states := sts\<rparr>" using new by (auto simp: selection_new_def split: prod.splits)
  have pre: "\<forall>st\<in>set (bk_states b). st_ok st" "\<forall>e\<in>set ?es. snd e < length (bk_states b)"
    using ok by (simp_all add: bk_ok_def)
  note spec = selection_scan_spec [OF scan pre]
  show eps: "sel_endpoints sel = ready_now now b"
    and cum: "sel_cumulative sel = cumsum 0 (map (\<lambda>e. ep_weight (fst e)) (ready_now now b))"
    and "sel_revision sel = revision"
    using spec(1-3) by (simp_all add: empty_selection_def)
  show "b' = b\<lparr>bk_states := bk_states b'\<rparr>" and "all_alike (bk_options b) now (bk_states b) (bk_states b')"
    using b' spec(4) by simp_all
  show "snapshot_ok b' sel t" if "now \<le> t" "before t (sel_expires sel)"
    using spec(5) [OF that] all_alike_ready [OF spec(4) pre(2) that(1)] eps cum
    by (simp add: snapshot_ok_def b')
qed

lemma refresh_selection_spec:
  assumes ok: "bk_ok env b" and c: "coherent t b" "t \<le> now"
  defines "b' \<equiv> refresh_selection now b"
  obtains sel where "pl_selection (bk_pool b') = Some sel"
    and "sel_endpoints sel = ready_now now b"
    and "sel_cumulative sel = cumsum 0 (map (\<lambda>e. ep_weight (fst e)) (ready_now now b))"
    and "coherent now b'"
    and "b' = b\<lparr>bk_states := bk_states b', bk_pool := (bk_pool b)\<lparr>pl_selection := Some sel\<rparr>\<rparr>"
    and "all_alike (bk_options b) now (bk_states b) (bk_states b')"
proof (cases "selection_stale now b")
  case True
  obtain sel b1 where new: "selection_new now (bk_health_revision b) b = (sel, b1)" by fastforce
  note spec = selection_new_spec [OF ok new]
  have b': "b' = b1\<lparr>bk_pool := (bk_pool b1)\<lparr>pl_selection := Some sel\<rparr>\<rparr>"
    using True new by (simp add: b'_def refresh_selection_def)
  have b1: "bk_pool b1 = bk_pool b" "bk_options b1 = bk_options b" "bk_health_revision b1 = bk_health_revision b"
    by (subst spec(4), simp)+
  have "snapshot_ok b' sel u" if "now \<le> u" "before u (sel_expires sel)" for u
    using spec(6) [OF that] by (simp add: b' snapshot_ok_def b1)
  then have coh: "coherent now b'" using spec(3) by (simp add: coherent_def b' b1)
  have eq: "b' = b\<lparr>bk_states := bk_states b', bk_pool := (bk_pool b)\<lparr>pl_selection := Some sel\<rparr>\<rparr>"
    unfolding b' b1 by (subst spec(4)) simp
  show thesis
    by (rule that [of sel]) (use spec coh eq in \<open>simp_all add: b'\<close>)
next
  case False
  then have b': "b' = b" by (simp add: b'_def refresh_selection_def)
  from False obtain sel where sel: "pl_selection (bk_pool b) = Some sel"
    "sel_revision sel = bk_health_revision b" "before now (sel_expires sel)"
    by (auto simp: selection_stale_def is_none_or_iff is_some_and_iff before_def not_le)
  then have snap: "snapshot_ok b sel now" using c by (simp add: coherent_def)
  have "coherent now b" using c by (auto simp: coherent_def)
  then show thesis
    using sel snap by (intro that [of sel]) (simp_all add: b' snapshot_ok_def)
qed

lemma backend_ready_spec:
  assumes ok: "bk_ok env b" and e: "e \<in> set (pl_endpoints (bk_pool b))"
    and r: "backend_ready now e b = (res, b')"
  shows "res = is_ready (bk_options b) now (fst e) (bk_states b ! snd e)"
    and "quiet now b b'" and "bk_fixed b' = bk_fixed b" and "at_capacity b' = at_capacity b"
proof -
  have st: "st_ok (bk_states b ! snd e)" using ok e by (auto simp: bk_ok_def)
  obtain st x where r': "ready (bk_options b) now (fst e) (bk_states b ! snd e) None = (res, st, x)"
    and b': "b' = set_state (snd e) st b" using r by (auto simp: backend_ready_def split: prod.splits)
  note spec = ready_spec [OF st r']
  from spec show "res = is_ready (bk_options b) now (fst e) (bk_states b ! snd e)" by simp
  show "quiet now b b'" unfolding b' using spec(2) by (intro quiet_set_state) (simp add: alike_def similar_def)
  show "bk_fixed b' = bk_fixed b" "at_capacity b' = at_capacity b"
    by (simp_all add: b' set_state_def at_capacity_def)
qed

lemma select_entry_spec:
  assumes ok: "bk_ok env b" and pool: "pl_endpoints (bk_pool b) = [e]"
  shows "fst (select_entry now e b) = reference_select env now key b"
    and "quiet now b (snd (select_entry now e b))"
    and "bk_fixed (snd (select_entry now e b)) = bk_fixed b"
proof -
  obtain res b1 where r: "backend_ready now e b = (res, b1)" by fastforce
  have e: "e \<in> set (pl_endpoints (bk_pool b))" using pool by simp
  note spec = backend_ready_spec [OF ok e r]
  have rd: "ready_now now b = (if res then [e] else [])"
    using spec(1) by (simp add: pool ready_entries_def)
  have "res \<Longrightarrow> 0 < ep_weight (fst e)" using spec(1) by (simp add: is_ready_def)
  then show "fst (select_entry now e b) = reference_select env now key b"
    using spec(4) rd
    by (simp add: select_entry_def r backend_lease_result reference_select_def reference_choice_singleton)
       (simp add: reference_choice_def)
  obtain l b2 where l: "backend_lease e b1 = (l, b2)" by fastforce
  show "quiet now b (snd (select_entry now e b))" "bk_fixed (snd (select_entry now e b)) = bk_fixed b"
    using quiet_trans [OF spec(2)] backend_lease_quiet [OF l] spec(2,3)
    by (simp_all add: select_entry_def r l)
qed

abbreviation select_with :: "env \<Rightarrow> instant \<Rightarrow> string \<Rightarrow> backend \<Rightarrow> lease option \<times> backend" where
  "select_with env now key b \<equiv>
     backend_select (\<lambda>h. ev_parse_ip env h \<noteq> None) (ev_sha256 env) (ev_ln env) (ev_rnd env) now key b"

lemma select_from_quiet:
  "quiet now b (snd (select_from sha256 lg rnd sel key b))
   \<and> bk_fixed (snd (select_from sha256 lg rnd sel key b)) = bk_fixed b"
proof -
  have cur: "quiet now b (b\<lparr>bk_cursor := c\<rparr>)" for c by (simp add: quiet_def list_all2_refl)
  have lease: "quiet now a (snd (backend_lease e a)) \<and> bk_fixed (snd (backend_lease e a)) = bk_fixed a" for a e
    using backend_lease_quiet [of e a] by (metis prod.collapse)
  have both: "quiet now b (snd (backend_lease e (b\<lparr>bk_cursor := c\<rparr>)))" for e c
    using quiet_trans [OF cur] lease by blast
  show ?thesis
    using cur lease both by (auto simp: select_from_def Let_def quiet_refl split: option.split balance.split)
qed

lemma select_pool_spec:
  assumes ok: "bk_ok env b" and c: "coherent t b" "t \<le> now" and many: "length (pl_endpoints (bk_pool b)) \<noteq> 1"
    and cap: "\<not> at_capacity b"
  shows "fst (select_pool (ev_sha256 env) (ev_ln env) (ev_rnd env) now key b) = reference_select env now key b"
    and "bk_ok env (snd (select_pool (ev_sha256 env) (ev_ln env) (ev_rnd env) now key b))"
    and "coherent now (snd (select_pool (ev_sha256 env) (ev_ln env) (ev_rnd env) now key b))"
proof -
  define b' where "b' = refresh_selection now b"
  obtain sel where sel: "pl_selection (bk_pool b') = Some sel" "sel_endpoints sel = ready_now now b"
      "sel_cumulative sel = cumsum 0 (map (\<lambda>e. ep_weight (fst e)) (ready_now now b))"
    and coh: "coherent now b'"
    and eq: "b' = b\<lparr>bk_states := bk_states b', bk_pool := (bk_pool b)\<lparr>pl_selection := Some sel\<rparr>\<rparr>"
    and alike: "all_alike (bk_options b) now (bk_states b) (bk_states b')"
    using refresh_selection_spec [OF ok c] unfolding b'_def by metis
  have same: "bk_options b' = bk_options b" "bk_cursor b' = bk_cursor b" "bk_active_leases b' = bk_active_leases b"
    "pl_endpoints (bk_pool b') = pl_endpoints (bk_pool b)" "bk_fixed b' = bk_fixed b"
    "bk_origins b' = bk_origins b" "bk_endpoints b' = bk_endpoints b"
    by (subst eq, simp)+
  let ?r = "select_from (ev_sha256 env) (ev_ln env) (ev_rnd env) sel key b'"
  have r: "select_pool (ev_sha256 env) (ev_ln env) (ev_rnd env) now key b = ?r"
    using many cap sel(1)
    by (cases "pl_endpoints (bk_pool b)"; cases "tl (pl_endpoints (bk_pool b))")
       (auto simp: select_pool_def at_capacity_def Let_def b'_def)
  have ids: "\<forall>e\<in>set (ready_now now b). snd e < length (bk_states b)"
    using ok by (simp add: bk_ok_def ready_entries_def)
  have "at_capacity b' = at_capacity b" by (simp add: at_capacity_def same)
  then show "fst (select_pool (ev_sha256 env) (ev_ln env) (ev_rnd env) now key b) = reference_select env now key b"
    using select_from_reference [OF sel(2,3)] reference_choice_alike [OF alike ids same(1,2)]
    by (simp add: r reference_select_def)
  have ok': "bk_ok env b'"
    using ok same alike all_alike_ok [OF alike] by (simp add: bk_ok_def all_alike_def list_all2_lengthD)
  from select_from_quiet [of now b'] show "bk_ok env (snd (select_pool (ev_sha256 env) (ev_ln env) (ev_rnd env) now key b))"
    and "coherent now (snd (select_pool (ev_sha256 env) (ev_ln env) (ev_rnd env) now key b))"
    unfolding r using quiet_ok ok' quiet_coherent [OF _ ok' coh order_refl] by blast+
qed

lemma fixed_entry_pool:
  assumes "bk_ok env b" and "fixed_entry (\<lambda>h. ev_parse_ip env h \<noteq> None) b = Some e"
  shows "pl_endpoints (bk_pool b) = [e] \<and> numeric env b"
proof -
  from assms(2) have "length (bk_endpoints b) = 1" and num: "numeric env b"
    and e: "slice_get (pl_endpoints (bk_pool b)) 0 = Some e"
    by (auto simp: fixed_entry_def split: if_splits)
  then have "length (pl_endpoints (bk_pool b)) = 1"
    using assms(1) by (metis bk_ok_def length_map)
  with e num show ?thesis by (cases "pl_endpoints (bk_pool b)") auto
qed

lemma reference_select_fixed: "reference_select env now key (b\<lparr>bk_fixed := x\<rparr>) = reference_select env now key b"
  by (simp add: reference_select_def at_capacity_def reference_choice_def split: balance.split)

lemma backend_select_spec:
  assumes ok: "bk_ok env b" and c: "coherent t b" "t \<le> now"
  shows "fst (select_with env now key b) = reference_select env now key b"
    and "bk_ok env (snd (select_with env now key b))" and "coherent now (snd (select_with env now key b))"
proof -
  let ?fixed = "case bk_fixed b of None \<Rightarrow> fixed_entry (\<lambda>h. ev_parse_ip env h \<noteq> None) b | Some x \<Rightarrow> x"
  let ?b = "b\<lparr>bk_fixed := Some ?fixed\<rparr>"
  have fx: "?fixed = Some e \<Longrightarrow> pl_endpoints (bk_pool b) = [e] \<and> numeric env b" for e
  proof (cases "bk_fixed b")
    case (Some x)
    assume "?fixed = Some e"
    with Some have "bk_fixed b = Some (Some e)" by simp
    with ok show ?thesis unfolding bk_ok_def by blast
  qed (use fixed_entry_pool [OF ok] in simp)
  then have ok': "bk_ok env ?b" using ok by (auto simp: bk_ok_def)
  have c': "coherent t ?b" using c by (simp add: coherent_def snapshot_ok_def)
  have ref: "reference_select env now key ?b = reference_select env now key b"
    by (rule reference_select_fixed)
  have entry: "fst (select_entry now e ?b) = reference_select env now key b
      \<and> bk_ok env (snd (select_entry now e ?b)) \<and> coherent now (snd (select_entry now e ?b))"
    if "pl_endpoints (bk_pool b) = [e]" for e
  proof -
    have "pl_endpoints (bk_pool ?b) = [e]" using that by simp
    note spec = select_entry_spec [OF ok' this, of now]
    show ?thesis
      using spec(1) ref quiet_ok [OF spec(2) ok' spec(3)] quiet_coherent [OF spec(2) ok' c' c(2)] by simp
  qed
  have "fst (select_with env now key b) = reference_select env now key b
      \<and> bk_ok env (snd (select_with env now key b)) \<and> coherent now (snd (select_with env now key b))"
  proof (cases ?fixed)
    case (Some e)
    then have "select_with env now key b = select_entry now e ?b"
      by (simp only: backend_select_def Let_def option.case)
    with entry fx [OF Some] show ?thesis by simp
  next
    case None
    then have eq: "select_with env now key b = select_pool (ev_sha256 env) (ev_ln env) (ev_rnd env) now key ?b"
      by (simp only: backend_select_def Let_def option.case)
    have "coherent now ?b" using c' c(2) by (auto simp: coherent_def)
    then consider "at_capacity ?b" | "\<not> at_capacity ?b" "length (pl_endpoints (bk_pool ?b)) = 1"
      | "\<not> at_capacity ?b" "length (pl_endpoints (bk_pool ?b)) \<noteq> 1" by blast
    then show ?thesis
    proof cases
      case 1
      then have "select_with env now key b = (None, ?b)"
        unfolding eq by (auto simp: select_pool_def at_capacity_def)
      with 1 ref \<open>coherent now ?b\<close> ok' show ?thesis by (simp add: reference_select_def)
    next
      case 2
      then obtain e where e: "pl_endpoints (bk_pool b) = [e]" by (auto simp: length_Suc_conv)
      with 2(1) have "select_with env now key b = select_entry now e ?b"
        unfolding eq by (auto simp: select_pool_def at_capacity_def)
      with entry [OF e] show ?thesis by simp
    next
      case 3
      from select_pool_spec [OF ok' c' c(2) 3(2,1), of key] ref show ?thesis
        unfolding eq by (simp only: simp_thms)
    qed
  qed
  then show "fst (select_with env now key b) = reference_select env now key b"
    "bk_ok env (snd (select_with env now key b))" "coherent now (snd (select_with env now key b))" by blast+
qed

lemma pool_entries_states:
  assumes "pool_entries show_addr previous eps sts = (es, sts')"
    and "\<forall>i\<in>ran (bt_get previous). i < length sts"
  shows "\<exists>new. sts' = sts @ new \<and> (\<forall>st\<in>set new. st_ok st \<and> es_active st = 0)"
    and "\<forall>e\<in>set es. snd e < length sts'"
    and "map (\<lambda>e. (ep_address (fst e), ep_weight (fst e))) es = eps"
    and "\<forall>e\<in>set es. case bt_get previous (ep_address (fst e)) of Some i \<Rightarrow> snd e = i
      | None \<Rightarrow> length sts \<le> snd e \<and> sts' ! snd e = new_ep_state show_addr (ep_address (fst e))"
proof -
  have "(\<exists>new. sts' = sts @ new \<and> (\<forall>st\<in>set new. st_ok st \<and> es_active st = 0))
    \<and> (\<forall>e\<in>set es. snd e < length sts')
    \<and> map (\<lambda>e. (ep_address (fst e), ep_weight (fst e))) es = eps
    \<and> (\<forall>e\<in>set es. case bt_get previous (ep_address (fst e)) of Some i \<Rightarrow> snd e = i
      | None \<Rightarrow> length sts \<le> snd e \<and> sts' ! snd e = new_ep_state show_addr (ep_address (fst e)))"
    using assms
  proof (induction eps arbitrary: sts es)
    case (Cons aw eps)
    obtain a w where aw: "aw = (a, w)" by fastforce
    show ?case
    proof (cases "bt_get previous a")
      case (Some i)
      obtain es' where es': "pool_entries show_addr previous eps sts = (es', sts')"
        and es: "es = (\<lparr>ep_address = a, ep_weight = w\<rparr>, i) # es'"
        using Cons.prems(1) Some by (auto simp: aw split: prod.splits)
      have "i < length sts" using Cons.prems(2) Some by (auto simp: ran_def)
      with Cons.IH [OF es' Cons.prems(2)] Some show ?thesis by (auto simp: es aw)
    next
      case None
      let ?st = "new_ep_state show_addr a"
      obtain es' where es': "pool_entries show_addr previous eps (sts @ [?st]) = (es', sts')"
        and es: "es = (\<lparr>ep_address = a, ep_weight = w\<rparr>, length sts) # es'"
        using Cons.prems(1) None by (auto simp: aw split: prod.splits)
      have "\<forall>i\<in>ran (bt_get previous). i < length (sts @ [?st])" using Cons.prems(2) by auto
      note IH = Cons.IH [OF es' this]
      from IH obtain new where new: "sts' = (sts @ [?st]) @ new" "\<forall>st\<in>set new. st_ok st \<and> es_active st = 0"
        by blast
      then have "sts' = sts @ (?st # new)" "\<forall>st\<in>set (?st # new). st_ok st \<and> es_active st = 0"
        by (auto simp: new_ep_state_def st_ok_def)
      moreover have "sts' ! length sts = ?st" using new(1) by simp
      ultimately show ?thesis using IH None by (fastforce simp: es aw split: option.splits)
    qed
  qed simp
  then show "\<exists>new. sts' = sts @ new \<and> (\<forall>st\<in>set new. st_ok st \<and> es_active st = 0)"
    and "\<forall>e\<in>set es. snd e < length sts'"
    and "map (\<lambda>e. (ep_address (fst e), ep_weight (fst e))) es = eps"
    and "\<forall>e\<in>set es. case bt_get previous (ep_address (fst e)) of Some i \<Rightarrow> snd e = i
      | None \<Rightarrow> length sts \<le> snd e \<and> sts' ! snd e = new_ep_state show_addr (ep_address (fst e))"
    by blast+
qed

lemma ran_bt_collect: "ran (bt_get (bt_collect es)) \<subseteq> snd ` set es"
  by (auto simp: ran_def bt_get_collect dest!: map_of_SomeD) (metis imageI snd_conv)

definition previous_of :: "backend \<Rightarrow> (socket_addr, nat) btree" where
  "previous_of b = bt_collect (map (\<lambda>(e, i). (ep_address e, i)) (pl_endpoints (bk_pool b)))"

lemma previous_of_range: "bk_ok env b \<Longrightarrow> \<forall>i\<in>ran (bt_get (previous_of b)). i < length (bk_states b)"
  using ran_bt_collect [of "map (\<lambda>(e, i). (ep_address e, i)) (pl_endpoints (bk_pool b))"]
  by (fastforce simp: bk_ok_def previous_of_def)

lemma refresh_dns_ok:
  fixes parse_ip lookup
  assumes ok: "bk_ok env b" and names: "\<not> numeric env b" and c: "coherent t b" "t \<le> now"
  defines "b' \<equiv> refresh_dns (ev_show env) parse_ip lookup now b"
  shows "bk_ok env b'" and "coherent now b'"
proof -
  have fixed: "bk_fixed b \<noteq> Some (Some e)" for e using ok names unfolding bk_ok_def by blast
  let ?r = "resolve_origins parse_ip lookup (bk_origins b) [] (now + from_secs 3600)"
  have "bk_ok env b' \<and> coherent now b'"
  proof (cases ?r)
    case None
    moreover have "coherent now b" using c by (auto simp: coherent_def)
    ultimately show ?thesis
      using ok names fixed
      by (auto simp: b'_def refresh_dns_def install_endpoints_def Let_def bk_ok_def coherent_def)
  next
    case (Some r)
    obtain eps until where r: "r = (eps, until)" by fastforce
    obtain es sts where pe: "pool_entries (ev_show env) (previous_of b) eps (bk_states b) = (es, sts)" by fastforce
    note spec = pool_entries_states [OF pe previous_of_range [OF ok]]
    have b': "b' = b\<lparr>bk_states := sts, bk_pool := (bk_pool b)\<lparr>pl_endpoints := es, pl_selection := None,
        pl_next_dns := max until (now + from_secs 1), pl_dns_success := now\<rparr>\<rparr>"
      using Some pe by (simp add: b'_def refresh_dns_def install_endpoints_def Let_def r previous_of_def)
    have "\<forall>st\<in>set sts. st_ok st" using spec(1) ok by (auto simp: bk_ok_def)
    with spec(2) names fixed show ?thesis by (auto simp: b' bk_ok_def coherent_def)
  qed
  then show "bk_ok env b'" "coherent now b'" by simp_all
qed

section \<open>Runs\<close>

lemma apply_op_keeps:
  assumes ok: "bk_ok env b" and c: "coherent t b" "t \<le> op_time op"
  shows "bk_ok env (snd (apply_op env op b)) \<and> coherent (op_time op) (snd (apply_op env op b))"
proof -
  have keep: "bk_ok env b' \<and> coherent now b'"
    if "quiet now b b' \<or> noisy b b'" "bk_fixed b' = bk_fixed b" "t \<le> now" for b' now
    using that quiet_ok ok quiet_coherent [OF _ ok c(1)] noisy_ok noisy_coherent [OF _ c(1)] by blast
  have lease: "bk_ok env (snd (lease_record_result now i failed max_fails cooldown b))
      \<and> coherent now (snd (lease_record_result now i failed max_fails cooldown b))" if "t \<le> now"
    for now i failed max_fails cooldown
    using keep [OF lease_record_result_effect] that
    by (simp add: lease_record_result_def bump_def set_state_def split: prod.split)
  have later: "coherent now b" if "t \<le> now" for now using c(1) that by (auto simp: coherent_def)
  show ?thesis
  proof (cases op)
    case (OpSelect now key)
    with backend_select_spec [OF ok c(1)] c(2) show ?thesis by simp
  next
    case (OpRecordLease now i failed max_fails cooldown)
    with lease c(2) show ?thesis by simp
  next
    case (OpRecordAddress now a failed max_fails cooldown)
    with lease later ok c(2) show ?thesis by (simp add: backend_record_result_def split: option.split)
  next
    case (OpProbe now i h)
    have "bk_fixed (set_active_health i h b) = bk_fixed b"
      by (simp add: set_active_health_def bump_def set_state_def split: prod.split)
    with keep [OF set_active_health_effect] c(2) OpProbe show ?thesis by simp
  next
    case (OpTick now)
    have "quiet now b (snd (apply_op env op b)) \<and> bk_fixed (snd (apply_op env op b)) = bk_fixed b"
      by (simp add: OpTick maintain_begin_def Let_def quiet_def list_all2_refl split: option.split)
    with keep [of now "snd (apply_op env op b)"] c(2) show ?thesis unfolding OpTick by simp
  next
    case (OpDns now lookup)
    with refresh_dns_ok [OF ok _ c(1)] later ok c(2) show ?thesis by simp
  qed
qed

text \<open>A run is timed when no operation reads a clock before an earlier operation's reading.\<close>

abbreviation op_run :: "env \<Rightarrow> (backend_op, unit, lease) lease_event list \<Rightarrow> backend \<Rightarrow> backend \<times> lease multiset" where
  "op_run env evs b \<equiv> lease_run (apply_op env) (\<lambda>_. lease_drop) evs (b, {#})"

lemma run_keeps:
  assumes "lease_run (apply_op env) (\<lambda>_. lease_drop) evs (b, held) = (b', held')"
    and "bk_ok env b" and "coherent t b"
    and "sorted (t # map op_time (acquire_args evs))"
  shows "bk_ok env b' \<and> coherent (last (t # map op_time (acquire_args evs))) b'"
  using assms
proof (induction evs arbitrary: b held t)
  case (Cons ev evs)
  show ?case
  proof (cases ev)
    case (Acquire op)
    obtain b1 h1 where s: "lease_step (apply_op env) (\<lambda>_. lease_drop) ev (b, held) = (b1, h1)" by fastforce
    then have b1: "b1 = snd (apply_op env op b)"
      using Acquire by (auto split: prod.splits option.splits)
    have "t \<le> op_time op" using Cons.prems(4) Acquire by simp
    from apply_op_keeps [OF Cons.prems(2,3) this] b1
    have "bk_ok env b1" "coherent (op_time op) b1" by simp_all
    with Cons.IH [of b1 h1 "op_time op"] Cons.prems(1,4) s Acquire show ?thesis
      by (simp add: lease_run_def)
  next
    case (Release u l)
    obtain b1 h1 where s: "lease_step (apply_op env) (\<lambda>_. lease_drop) ev (b, held) = (b1, h1)" by fastforce
    then have "b1 = lease_drop l b \<or> b1 = b" using Release by (auto split: if_splits)
    then have "bk_ok env b1" "coherent t b1"
      using Cons.prems(2,3) lease_drop_quiet [of t b l] quiet_ok quiet_coherent by blast+
    with Cons.IH [of b1 h1 t] Cons.prems(1,4) s Release show ?thesis
      by (simp add: lease_run_def)
  qed
qed (simp add: lease_run_def)

definition fresh_backend :: "env \<Rightarrow> instant \<Rightarrow> endpoint list \<Rightarrow> options \<Rightarrow> origin list \<Rightarrow> backend" where
  "fresh_backend env t endpoints opts origins =
     (new_backend (ev_show env) t endpoints False [] [])\<lparr>bk_options := opts, bk_origins := origins\<rparr>"

lemma fresh_backend_ok: "bk_ok env (fresh_backend env t endpoints opts origins)"
  by (auto simp: fresh_backend_def new_backend_def bk_ok_def new_ep_state_def st_ok_def dest: set_zip_rightD)

lemma fresh_backend_coherent: "coherent t' (fresh_backend env t endpoints opts origins)"
  by (simp add: fresh_backend_def new_backend_def coherent_def)

text \<open>
  C15. The cached snapshot is invisible: after any timed run of selections, results, probes, DNS
  refreshes and lease drops, a selection answers exactly as one that scans the pool for the
  endpoints that are ready at that moment and applies the balancing strategy to them, and answers
  nothing only at capacity or when none is ready. No stale health is ever used, and no expired
  cooldown keeps an endpoint out.
\<close>

theorem backend_select_refines:
  assumes "op_run env evs (fresh_backend env t endpoints opts origins) = (b, held)"
    and "sorted (t # map op_time (acquire_args evs) @ [now])"
  shows "fst (backend_select (\<lambda>h. ev_parse_ip env h \<noteq> None) (ev_sha256 env) (ev_ln env) (ev_rnd env) now key b) =
    reference_select env now key b"
proof -
  let ?ts = "map op_time (acquire_args evs)"
  have sorted: "sorted (t # ?ts)" and le: "last (t # ?ts) \<le> now"
    using assms(2) by (auto simp: sorted_append last_map)
  from run_keeps [OF assms(1) fresh_backend_ok fresh_backend_coherent sorted]
  have "bk_ok env b" "coherent (last (t # ?ts)) b" by blast+
  from backend_select_spec(1) [OF this le] show ?thesis .
qed

section \<open>Lease accounting\<close>

definition active_in :: "ep_state list \<Rightarrow> nat \<Rightarrow> nat" where
  "active_in sts i = (if i < length sts then es_active (sts ! i) else 0)"

abbreviation ep_active :: "backend \<Rightarrow> nat \<Rightarrow> nat" where
  "ep_active b \<equiv> active_in (bk_states b)"

definition ids_ok :: "backend \<Rightarrow> bool" where
  "ids_ok b \<longleftrightarrow>
     (\<forall>e\<in>set (pl_endpoints (bk_pool b)). snd e < length (bk_states b))
     \<and> (\<forall>sel. pl_selection (bk_pool b) = Some sel \<longrightarrow>
          (\<forall>e\<in>set (sel_endpoints sel). snd e < length (bk_states b)))
     \<and> (\<forall>e. bk_fixed b = Some (Some e) \<longrightarrow> snd e < length (bk_states b))"

text \<open>Operations that grant or drop no lease keep every counter.\<close>

definition tame :: "backend \<Rightarrow> backend \<Rightarrow> bool" where
  "tame b b' \<longleftrightarrow> ids_ok b' \<and> bk_options b' = bk_options b
     \<and> bk_active_leases b' = bk_active_leases b \<and> ep_active b' = ep_active b"

lemma tame_trans: "tame a b \<Longrightarrow> tame b c \<Longrightarrow> tame a c"
  by (simp add: tame_def)

lemma ready_active: "ready opts now e st x = (res, st', x') \<Longrightarrow> es_active st' = es_active st"
  by (auto simp: ready_def Let_def split: if_splits option.splits)

lemma active_in_update:
  "i < length sts \<Longrightarrow> active_in (sts[i := st]) = (active_in sts)(i := es_active st)"
  by (auto simp: active_in_def fun_eq_iff nth_list_update)

lemma active_in_same:
  "es_active st = es_active (sts ! i) \<Longrightarrow> active_in (sts[i := st]) = active_in sts"
  by (cases "i < length sts")
     (auto simp: active_in_update list_update_beyond active_in_def fun_eq_iff)

lemma active_in_map: "map es_active sts = map es_active sts' \<Longrightarrow> active_in sts = active_in sts'"
  by (auto simp: active_in_def fun_eq_iff dest: map_eq_imp_length_eq) (metis length_map nth_map)

lemma tame_set_state:
  "ids_ok b \<Longrightarrow> es_active st = es_active (bk_states b ! i) \<Longrightarrow> tame b (bump changed (set_state i st b))"
  by (simp add: tame_def ids_ok_def set_state_def bump_def active_in_same)

lemma selection_scan_active:
  assumes "selection_scan opts now es acc sel sts = (sel', sts')"
  shows "map es_active sts' = map es_active sts \<and> set (sel_endpoints sel') \<subseteq> set (sel_endpoints sel) \<union> set es"
  using assms
proof (induction es arbitrary: acc sel sts)
  case (Cons e es)
  obtain res st x where r: "ready opts now (fst e) (sts ! snd e) (sel_expires sel) = (res, st, x)"
    by (metis prod_cases3)
  have "map es_active (sts[snd e := st]) = map es_active sts"
    using ready_active [OF r] by (cases "snd e < length sts") (auto simp: map_update list_update_beyond list_update_same_conv)
  with Cons.IH Cons.prems r show ?case by (fastforce simp: Let_def split: if_splits)
qed simp

lemma refresh_selection_tame:
  assumes "ids_ok b"
  shows "tame b (refresh_selection now b)"
proof (cases "selection_stale now b")
  case True
  obtain sel sts where scan: "selection_scan (bk_options b) now (pl_endpoints (bk_pool b)) 0
      (empty_selection (bk_health_revision b)) (bk_states b) = (sel, sts)" by fastforce
  note act = selection_scan_active [OF scan]
  have len: "length sts = length (bk_states b)" using act by (metis length_map)
  have r: "refresh_selection now b = b\<lparr>bk_states := sts, bk_pool := (bk_pool b)\<lparr>pl_selection := Some sel\<rparr>\<rparr>"
    using True scan by (simp add: refresh_selection_def selection_new_def)
  have "set (sel_endpoints sel) \<subseteq> set (pl_endpoints (bk_pool b))" using act by (simp add: empty_selection_def)
  with assms len have "ids_ok (refresh_selection now b)" unfolding r ids_ok_def by auto
  moreover have "ep_active (refresh_selection now b) = ep_active b"
    using active_in_map [OF conjunct1 [OF act]] by (simp add: r)
  ultimately show ?thesis by (simp add: tame_def r)
qed (use assms in \<open>simp add: tame_def refresh_selection_def\<close>)

text \<open>What a selection may do to the counters: nothing, or grant one lease below the limit.\<close>

definition grants :: "backend \<Rightarrow> lease option \<Rightarrow> backend \<Rightarrow> bool" where
  "grants b res b' \<longleftrightarrow> ids_ok b' \<and> bk_options b' = bk_options b \<and>
     (case res of
        None \<Rightarrow> bk_active_leases b' = bk_active_leases b \<and> ep_active b' = ep_active b
      | Some l \<Rightarrow> bk_active_leases b' = bk_active_leases b + 1
          \<and> ep_active b' = (ep_active b)(le_state l := ep_active b (le_state l) + 1)
          \<and> (op_max_inflight (bk_options b) \<noteq> 0 \<longrightarrow> bk_active_leases b < op_max_inflight (bk_options b)))"

lemma grants_tame: "tame b b' \<Longrightarrow> grants b None b'"
  by (simp add: tame_def grants_def)

lemma tame_grants: "tame a b \<Longrightarrow> grants b res c \<Longrightarrow> grants a res c"
  by (simp add: tame_def grants_def split: option.splits)

lemma backend_lease_grants:
  assumes "ids_ok b" and "snd e < length (bk_states b)"
  shows "grants b (fst (backend_lease e b)) (snd (backend_lease e b))"
  using assms
  by (auto simp: backend_lease_def Let_def grants_def ids_ok_def set_state_def active_in_update active_in_def)

lemma select_entry_grants:
  assumes "ids_ok b" and "snd e < length (bk_states b)"
  shows "grants b (fst (select_entry now e b)) (snd (select_entry now e b))"
proof -
  obtain res b1 where r: "backend_ready now e b = (res, b1)" by fastforce
  then obtain st x where rd: "ready (bk_options b) now (fst e) (bk_states b ! snd e) None = (res, st, x)"
    and b1: "b1 = bump False (set_state (snd e) st b)"
    by (auto simp: backend_ready_def bump_def split: prod.splits)
  have tame: "tame b b1" unfolding b1 using ready_active [OF rd] assms(1) by (intro tame_set_state)
  moreover have "snd e < length (bk_states b1)" using assms(2) by (simp add: b1 bump_def set_state_def)
  ultimately have "grants b (fst (backend_lease e b1)) (snd (backend_lease e b1))"
    using backend_lease_grants tame_grants by (simp add: tame_def)
  with tame grants_tame show ?thesis by (simp add: select_entry_def r)
qed

lemma foldl_in: "(\<And>a b. f a b = a \<or> f a b = b) \<Longrightarrow> foldl f x ys \<in> insert x (set ys)"
proof (induction ys arbitrary: x)
  case (Cons y ys)
  from Cons.IH [OF Cons.prems, of "f x y"] Cons.prems [of x y] show ?case by auto
qed simp

lemma min_by_in: "min_by gt xs = Some x \<Longrightarrow> x \<in> set xs"
proof (cases xs)
  case (Cons y ys)
  have "foldl (\<lambda>a b. if gt a b then b else a) y ys \<in> insert y (set ys)" by (rule foldl_in) simp
  moreover assume "min_by gt xs = Some x"
  ultimately show ?thesis using Cons by (auto simp: min_by_def)
qed (simp add: min_by_def)

lemma round_robin_in: "round_robin c sel = Some e \<Longrightarrow> e \<in> set (sel_endpoints sel)"
  by (auto simp: round_robin_def Let_def slice_get_Some_iff split: if_splits)

lemma least_connections_in: "least_connections c sts es = Some e \<Longrightarrow> e \<in> set es"
  by (cases "es = []") (auto simp: least_connections_def Let_def dest!: min_by_in)

lemma hash_choice_in: "hash_choice sha256 lg rnd key sts es = Some e \<Longrightarrow> e \<in> set es"
  by (auto simp: hash_choice_def dest!: min_by_in)

lemmas choice_in = round_robin_in least_connections_in hash_choice_in

lemma select_from_grants:
  assumes ok: "ids_ok b" and ids: "\<forall>e\<in>set (sel_endpoints sel). snd e < length (bk_states b)"
  shows "grants b (fst (select_from sha256 lg rnd sel key b)) (snd (select_from sha256 lg rnd sel key b))"
proof -
  have cur: "tame b (b\<lparr>bk_cursor := c\<rparr>)" for c using ok by (simp add: tame_def ids_ok_def)
  have lease: "grants b (fst (backend_lease e b)) (snd (backend_lease e b))"
    "grants b (fst (backend_lease e (b\<lparr>bk_cursor := c\<rparr>))) (snd (backend_lease e (b\<lparr>bk_cursor := c\<rparr>)))"
    if "e \<in> set (sel_endpoints sel)" for e c
    using backend_lease_grants [OF ok, of e] tame_grants [OF cur backend_lease_grants] cur [of c] ids that
    by (simp_all add: tame_def)
  have none: "grants b None b" "grants b None (b\<lparr>bk_cursor := c\<rparr>)" for c
    using cur grants_tame ok by (auto simp: tame_def)
  show ?thesis
    using lease none
    by (auto simp: select_from_def Let_def dest: choice_in split: option.split balance.split)
qed

lemma refresh_selection_some: "\<exists>sel. pl_selection (bk_pool (refresh_selection now b)) = Some sel"
proof (cases "selection_stale now b")
  case False
  then show ?thesis by (auto simp: refresh_selection_def selection_stale_def is_none_or_iff)
qed (simp add: refresh_selection_def split: prod.split)

lemma backend_select_grants:
  assumes ok: "ids_ok b"
  shows "grants b (fst (select_with env now key b)) (snd (select_with env now key b))"
proof -
  define fixed where "fixed = (case bk_fixed b of None \<Rightarrow> fixed_entry (\<lambda>h. ev_parse_ip env h \<noteq> None) b | Some x \<Rightarrow> x)"
  let ?b = "b\<lparr>bk_fixed := Some fixed\<rparr>"
  have fx: "snd e < length (bk_states b)" if "fixed = Some e" for e
  proof (cases "bk_fixed b")
    case None
    with that have "e \<in> set (pl_endpoints (bk_pool b))"
      by (auto simp: fixed_def fixed_entry_def slice_get_Some_iff split: if_splits)
    with ok show ?thesis by (simp add: ids_ok_def)
  next
    case (Some x)
    with that ok show ?thesis unfolding fixed_def ids_ok_def by simp
  qed
  then have tame: "tame b ?b" using ok by (auto simp: tame_def ids_ok_def)
  then have ok': "ids_ok ?b" by (simp add: tame_def)
  have eq: "select_with env now key b = (case fixed of Some e \<Rightarrow> select_entry now e ?b
      | None \<Rightarrow> select_pool (ev_sha256 env) (ev_ln env) (ev_rnd env) now key ?b)"
    by (simp only: backend_select_def Let_def fixed_def)
  let ?r = "refresh_selection now ?b"
  have "grants ?b (fst (select_pool (ev_sha256 env) (ev_ln env) (ev_rnd env) now key ?b))
      (snd (select_pool (ev_sha256 env) (ev_ln env) (ev_rnd env) now key ?b))"
  proof -
    have rt: "tame ?b ?r" by (rule refresh_selection_tame [OF ok'])
    obtain sel where sel: "pl_selection (bk_pool ?r) = Some sel"
      using refresh_selection_some by blast
    with rt have "\<forall>e\<in>set (sel_endpoints sel). snd e < length (bk_states ?r)"
      unfolding tame_def ids_ok_def by blast
    then have many: "grants ?b (fst (select_from sha256 lg rnd sel key ?r)) (snd (select_from sha256 lg rnd sel key ?r))"
      for sha256 lg rnd
      using select_from_grants tame_grants [OF rt] rt by (simp add: tame_def)
    have one: "grants ?b (fst (select_entry now e ?b)) (snd (select_entry now e ?b))"
      if "e \<in> set (pl_endpoints (bk_pool b))" for e
      using select_entry_grants [OF ok'] ok' that by (simp add: ids_ok_def)
    have "grants ?b None ?b" using grants_tame ok' by (simp add: tame_def)
    with many one sel show ?thesis
      by (auto simp: select_pool_def Let_def split: list.split)
  qed
  note pool = tame_grants [OF tame this]
  show ?thesis
  proof (cases fixed)
    case None
    with pool show ?thesis unfolding eq by simp
  next
    case (Some e)
    from tame_grants [OF tame select_entry_grants [OF ok']] fx [OF Some] show ?thesis
      unfolding eq Some by simp
  qed
qed

lemma apply_op_grants:
  assumes ok: "ids_ok b"
  shows "grants b (fst (apply_op env op b)) (snd (apply_op env op b))"
proof -
  have lease: "tame b (snd (lease_record_result now i failed max_fails cooldown b))"
    for now i failed max_fails cooldown
    using tame_set_state [OF ok state_record_result_spec(2)]
    by (simp add: lease_record_result_def split: prod.split)
  have self: "tame b b" using ok by (simp add: tame_def)
  show ?thesis
  proof (cases op)
    case (OpSelect now key)
    with backend_select_grants [OF ok] show ?thesis by simp
  next
    case (OpProbe now i h)
    have "tame b (set_active_health i h b)"
      by (auto simp: set_active_health_def state_set_active_health_def intro!: tame_set_state [OF ok])
    with OpProbe grants_tame show ?thesis by simp
  next
    case (OpTick now)
    have "tame b (snd (apply_op env op b))"
      using ok by (simp add: OpTick maintain_begin_def Let_def tame_def ids_ok_def split: option.split)
    with OpTick grants_tame show ?thesis by simp
  next
    case (OpDns now lookup)
    have range: "\<forall>i\<in>ran (bt_get (previous_of b)). i < length (bk_states b)"
      using ok ran_bt_collect [of "map (\<lambda>(e, i). (ep_address e, i)) (pl_endpoints (bk_pool b))"]
      by (fastforce simp: ids_ok_def previous_of_def)
    have "tame b (install_endpoints (ev_show env) now r b)" for r
    proof (cases r)
      case None
      with ok show ?thesis by (simp add: install_endpoints_def Let_def tame_def ids_ok_def)
    next
      case (Some eu)
      obtain es sts where pe: "pool_entries (ev_show env) (previous_of b) (fst eu) (bk_states b) = (es, sts)" by fastforce
      note spec = pool_entries_states [OF pe range]
      then obtain new where new: "sts = bk_states b @ new" "\<forall>st\<in>set new. es_active st = 0" by blast
      then have "active_in sts = ep_active b"
        by (auto simp: active_in_def fun_eq_iff nth_append)
      moreover have "ids_ok (b\<lparr>bk_states := sts, bk_pool := (bk_pool b)\<lparr>pl_endpoints := es, pl_selection := None,
          pl_next_dns := x, pl_dns_success := y\<rparr>\<rparr>)" for x y
        using spec(2) ok new(1) by (fastforce simp: ids_ok_def)
      ultimately show ?thesis
        using Some pe by (cases eu) (simp add: install_endpoints_def Let_def tame_def previous_of_def)
    qed
    with OpDns self grants_tame show ?thesis by (simp add: refresh_dns_def)
  qed (use lease self grants_tame in \<open>auto simp: backend_record_result_def split: option.split\<close>)
qed

lemma lease_drop_active:
  "ep_active (lease_drop l b) = (ep_active b)(le_state l := ep_active b (le_state l) - 1)"
  by (cases "le_state l < length (bk_states b)")
     (auto simp: lease_drop_def set_state_def Let_def active_in_update active_in_def fun_eq_iff list_update_beyond)

lemma lease_drop_ids: "ids_ok b \<Longrightarrow> ids_ok (lease_drop l b)"
  by (simp add: ids_ok_def lease_drop_def set_state_def Let_def)

text \<open>
  The lease contract holds twice: with the endpoint state as the slot, and with the whole backend as
  the slot, where the limit is \<open>max_inflight\<close>.
\<close>

interpretation bks: lease_accounting ids_ok le_state ep_active "apply_op env" "\<lambda>_. lease_drop" for env
proof
  fix b :: backend and op res b' and l :: lease and u :: unit
  assume ok: "ids_ok b"
  show "ids_ok (lease_drop l b)" by (rule lease_drop_ids [OF ok])
  show "ep_active (lease_drop l b) = (ep_active b)(le_state l := ep_active b (le_state l) - 1)"
    by (rule lease_drop_active)
  show "ids_ok b'" if "apply_op env op b = (res, b')"
    using apply_op_grants [OF ok, of env op] that by (simp add: grants_def)
  show "ep_active b' = ep_active b" if "apply_op env op b = (None, b')"
    using apply_op_grants [OF ok, of env op] that by (simp add: grants_def)
  show "ep_active b' = (ep_active b)(le_state l := ep_active b (le_state l) + 1)"
    if "apply_op env op b = (Some l, b')"
    using apply_op_grants [OF ok, of env op] that by (simp add: grants_def)
qed

definition limited_to :: "nat \<Rightarrow> backend \<Rightarrow> bool" where
  "limited_to m b \<longleftrightarrow> ids_ok b \<and> m \<noteq> 0 \<and> op_max_inflight (bk_options b) = m"

interpretation bkt: bounded_leases "limited_to m" "\<lambda>_. ()" "\<lambda>b _. bk_active_leases b" "apply_op env"
    "\<lambda>_. lease_drop" "\<lambda>_. m" for env m
proof
  fix b :: backend and op res b' and l :: lease and u :: unit
  assume lim: "limited_to m b"
  then have ok: "ids_ok b" by (simp add: limited_to_def)
  note g = apply_op_grants [OF ok, of env op]
  show "limited_to m (lease_drop l b)"
    using lim lease_drop_ids [OF ok] by (simp add: limited_to_def lease_drop_def set_state_def Let_def)
  show "(\<lambda>_. bk_active_leases (lease_drop l b)) = (\<lambda>_. bk_active_leases b)(() := bk_active_leases b - 1)"
    by (simp add: fun_eq_iff lease_drop_def set_state_def Let_def)
  show "limited_to m b'" if "apply_op env op b = (res, b')"
    using g that lim by (simp add: grants_def limited_to_def)
  show "(\<lambda>_. bk_active_leases b') = (\<lambda>_. bk_active_leases b)" if "apply_op env op b = (None, b')"
    using g that by (simp add: grants_def)
  show "(\<lambda>_. bk_active_leases b') = (\<lambda>_. bk_active_leases b)(() := bk_active_leases b + 1)"
    if "apply_op env op b = (Some l, b')"
    using g that by (simp add: grants_def fun_eq_iff)
  show "bk_active_leases b < m" if "apply_op env op b = (Some l, b')"
    using g that lim by (simp add: grants_def limited_to_def)
qed

lemma fresh_backend_ids: "ids_ok (fresh_backend env t endpoints opts origins)"
  by (auto simp: fresh_backend_def new_backend_def ids_ok_def dest: set_zip_rightD)

lemma fresh_backend_counters:
  "ep_active (fresh_backend env t endpoints opts origins) i = 0"
  "bk_active_leases (fresh_backend env t endpoints opts origins) = 0"
  by (auto simp: fresh_backend_def new_backend_def active_in_def new_ep_state_def)

lemma count_image_filter: "count (image_mset f M) i = size (filter_mset (\<lambda>l. f l = i) M)"
  by (induction M) auto

text \<open>
  C16. Leases are counted exactly: over every interleaving of selections, drops, results, probes and
  DNS refreshes the active counter of each endpoint state is the number of leases outstanding on
  it, also after the endpoint left the pool, and a backend with \<open>max_inflight\<close> set has that counter
  equal to all outstanding leases and never above the limit.
\<close>

theorem backend_leases_accounted:
  assumes "op_run env evs (fresh_backend env t endpoints opts origins) = (b, held)"
  shows "(\<forall>i. ep_active b i = size (filter_mset (\<lambda>l. le_state l = i) held))
    \<and> (op_max_inflight opts = 0 \<or> bk_active_leases b = size held \<and> size held \<le> op_max_inflight opts)"
proof (rule conjI)
  let ?b = "fresh_backend env t endpoints opts origins"
  have "ep_active ?b = count (image_mset le_state {#})" by (simp add: fun_eq_iff fresh_backend_counters)
  from bks.run_accounts [OF fresh_backend_ids this assms]
  show "\<forall>i. ep_active b i = size (filter_mset (\<lambda>l. le_state l = i) held)"
    by (simp add: count_image_filter)
  show "op_max_inflight opts = 0 \<or> bk_active_leases b = size held \<and> size held \<le> op_max_inflight opts"
  proof (cases "op_max_inflight opts = 0")
    case False
    then have lim: "limited_to (op_max_inflight opts) ?b"
      using fresh_backend_ids by (simp add: limited_to_def) (simp add: fresh_backend_def)
    have zero: "(\<lambda>_. bk_active_leases ?b) = count (image_mset (\<lambda>_. ()) {#})"
      by (simp add: fun_eq_iff fresh_backend_counters)
    have units: "count (image_mset (\<lambda>_. ()) M) u = size M" for M :: "lease multiset" and u
      by (simp add: image_mset_const_eq)
    have "bk_active_leases b = size held"
      using bkt.run_accounts [OF lim zero assms] by (simp add: units fun_eq_iff)
    moreover have "size held \<le> op_max_inflight opts"
      using bkt.run_bounded [OF lim zero _ _ assms, of "op_max_inflight opts"] by (simp add: units)
    ultimately show ?thesis by simp
  qed simp
qed

section \<open>The balancing strategies\<close>

lemma cumsum_length [simp]: "length (cumsum acc ws) = length ws"
  by (induction ws arbitrary: acc) simp_all

lemma cumsum_nth: "i < length ws \<Longrightarrow> cumsum acc ws ! i = acc + sum_list (take (Suc i) ws)"
proof (induction ws arbitrary: acc i)
  case (Cons w ws)
  then show ?case by (cases i) simp_all
qed simp

lemma cumsum_last: "ws \<noteq> [] \<Longrightarrow> last (cumsum acc ws) = acc + sum_list ws"
  by (simp add: last_conv_nth cumsum_nth)

lemma takeWhile_cumsum:
  assumes "n < sum_list ws"
  shows "partition_point (\<lambda>end. end \<le> acc + n) (cumsum acc ws) < length ws
    \<and> sum_list (take (partition_point (\<lambda>end. end \<le> acc + n) (cumsum acc ws)) ws) \<le> n
    \<and> n < sum_list (take (Suc (partition_point (\<lambda>end. end \<le> acc + n) (cumsum acc ws))) ws)"
  using assms
proof (induction ws arbitrary: acc n)
  case (Cons w ws)
  show ?case
  proof (cases "w \<le> n")
    case True
    have "n - w < sum_list ws" using Cons.prems True by simp
    from Cons.IH [OF this, of "acc + w"] True show ?thesis by (simp add: partition_point_def) linarith
  qed (simp add: partition_point_def)
qed simp

text \<open>The binary search in the cumulative weights is a weighted choice.\<close>

definition cumulative_pick :: "('a \<times> nat) list \<Rightarrow> nat \<Rightarrow> 'a option" where
  "cumulative_pick ts n =
     map_option fst (slice_get ts (partition_point (\<lambda>end. end \<le> n) (cumsum 0 (map snd ts))))"

interpretation backend_draw: weighted_choice cumulative_pick
proof
  fix n and ts :: "('a \<times> nat) list"
  assume "n < total_weight ts"
  from takeWhile_cumsum [OF this, of 0]
  show "\<exists>i<length ts. cumulative_pick ts n = Some (fst (ts ! i))
      \<and> total_weight (take i ts) \<le> n \<and> n < total_weight (take (Suc i) ts)"
    by (auto simp: cumulative_pick_def take_map
        intro!: exI [of _ "partition_point (\<lambda>end. end \<le> n) (cumsum 0 (map snd ts))"])
qed

abbreviation entry_weights :: "entry list \<Rightarrow> (entry \<times> nat) list" where
  "entry_weights es \<equiv> map (\<lambda>e. (e, ep_weight (fst e))) es"

lemma round_robin_pick:
  assumes "es \<noteq> []"
  shows "round_robin c (snapshot_of es) =
    cumulative_pick (entry_weights es) (unat c mod total_weight (entry_weights es))"
proof -
  have "map_option fst (slice_get (entry_weights es) i) = slice_get es i" for i
    by (auto simp: slice_get_def)
  with assms show ?thesis
    by (simp add: round_robin_def snapshot_of_def cumulative_pick_def cumsum_last comp_def Let_def)
qed

text \<open>
  C17. Round robin is exact: over any run of \<open>total weight\<close> consecutive cursor values each ready entry
  is chosen as many times as its weight says, unless the 64-bit cursor wraps in between.
\<close>

theorem backend_round_robin_share:
  assumes "\<forall>e\<in>set es. 0 < ep_weight (fst e)" and "es \<noteq> []"
    and wrap: "unat c + total_weight (entry_weights es) \<le> 2 ^ 64"
  shows "count_list (map (\<lambda>i. round_robin (c + of_nat i) (snapshot_of es)) [0..<total_weight (entry_weights es)])
      (Some e) = share e (entry_weights es)"
proof -
  let ?ts = "entry_weights es" and ?m = "total_weight (entry_weights es)"
  have pos: "0 < ?m" using assms(1,2) by (cases es) auto
  have "round_robin (c + of_nat i) (snapshot_of es) = cumulative_pick ?ts ((unat c + i) mod ?m)"
    if "i < ?m" for i
  proof -
    have "unat (c + of_nat i) = unat c + i" using that wrap by (simp add: unat_word_ariths unat_of_nat)
    with round_robin_pick [OF assms(2)] show ?thesis by simp
  qed
  then have "map (\<lambda>i. round_robin (c + of_nat i) (snapshot_of es)) [0..<?m] =
      map (\<lambda>k. cumulative_pick ?ts (k mod ?m)) [unat c..<unat c + ?m]"
    by (intro nth_equalityI) simp_all
  then show ?thesis
    using backend_draw.round_robin_share [OF pos, of "unat c" e]
    by (simp add: count_list_map_upt)
qed

text \<open>\<open>min_by\<close> finds the first element with the least key.\<close>

definition first_least :: "('a \<Rightarrow> 'b::linorder) \<Rightarrow> 'a list \<Rightarrow> 'a \<Rightarrow> bool" where
  "first_least f xs x \<longleftrightarrow>
     (\<exists>pre post. xs = pre @ x # post \<and> (\<forall>y\<in>set pre. f x < f y) \<and> (\<forall>y\<in>set post. f x \<le> f y))"

lemma min_by_snoc:
  "min_by gt (xs @ [y]) = Some (case min_by gt xs of None \<Rightarrow> y | Some a \<Rightarrow> if gt a y then y else a)"
  by (cases xs) (simp_all add: min_by_def)

lemma min_by_first_least:
  assumes "\<forall>a\<in>set xs. \<forall>b\<in>set xs. gt a b = (f b < f a)" and "min_by gt xs = Some x"
  shows "first_least f xs x"
  using assms
proof (induction xs arbitrary: x rule: rev_induct)
  case (snoc y xs)
  show ?case
  proof (cases "min_by gt xs")
    case None
    then have "xs = []" by (cases xs) (simp_all add: min_by_def)
    with snoc.prems(2) show ?thesis by (force simp: first_least_def min_by_def)
  next
    case (Some a)
    then have fl: "first_least f xs a" using snoc by simp
    then obtain pre post where xs: "xs = pre @ a # post" "\<forall>y\<in>set pre. f a < f y" "\<forall>y\<in>set post. f a \<le> f y"
      by (auto simp: first_least_def)
    have gt: "gt a y = (f y < f a)" using snoc.prems(1) min_by_in [OF Some] by simp
    show ?thesis
    proof (cases "f y < f a")
      case True
      then have "x = y" using snoc.prems(2) Some gt by (simp add: min_by_snoc)
      moreover have "\<forall>z\<in>set xs. f y < f z" using xs True by auto
      ultimately show ?thesis
        unfolding first_least_def by (intro exI [of _ xs] exI [of _ "[]"]) simp
    next
      case False
      then have "x = a" using snoc.prems(2) Some gt by (simp add: min_by_snoc)
      with xs False show ?thesis
        unfolding first_least_def by (intro exI [of _ pre] exI [of _ "post @ [y]"]) auto
    qed
  qed
qed (simp add: min_by_def)

lemma first_least_least: "first_least f xs x \<Longrightarrow> \<forall>y\<in>set xs. f x \<le> f y"
proof
  fix y assume "first_least f xs x" and y: "y \<in> set xs"
  then obtain pre post where xs: "xs = pre @ x # post" "\<forall>y\<in>set pre. f x < f y" "\<forall>y\<in>set post. f x \<le> f y"
    by (auto simp: first_least_def)
  from y xs(1) consider "y \<in> set pre" | "y = x" | "y \<in> set post" by auto
  then show "f x \<le> f y" using xs(2,3) by cases (auto intro: less_imp_le)
qed

lemma first_least_unique:
  assumes "first_least f xs x" and "first_least f xs y"
  shows "x = y"
proof -
  obtain p q where x: "xs = p @ x # q" "\<forall>z\<in>set p. f x < f z" "\<forall>z\<in>set q. f x \<le> f z"
    using assms(1) by (auto simp: first_least_def)
  obtain r s where y: "xs = r @ y # s" "\<forall>z\<in>set r. f y < f z" "\<forall>z\<in>set s. f y \<le> f z"
    using assms(2) by (auto simp: first_least_def)
  from x(1) y(1) have "p @ x # q = r @ y # s" by simp
  then consider "p = r" "x = y" | us where "r = p @ x # us" | us where "p = r @ y # us"
    by (cases "length p" "length r" rule: linorder_cases)
       (auto simp: append_eq_append_conv2 Cons_eq_append_conv append_eq_Cons_conv)
  then show ?thesis
  proof cases
    case 2
    with y have "f y < f x" by simp
    moreover have "f x \<le> f y" using x(1,3) y(1) 2 by auto
    ultimately show ?thesis by simp
  next
    case 3
    with x have "f x < f y" by simp
    moreover have "f y \<le> f x" using x(1) y(1,3) 3 by auto
    ultimately show ?thesis by simp
  qed simp
qed

lemma first_least_filter: "first_least f xs x \<Longrightarrow> P x \<Longrightarrow> first_least f (filter P xs) x"
proof -
  assume "first_least f xs x" and "P x"
  then obtain pre post where xs: "xs = pre @ x # post" "\<forall>y\<in>set pre. f x < f y" "\<forall>y\<in>set post. f x \<le> f y"
    by (auto simp: first_least_def)
  then have "filter P xs = filter P pre @ x # filter P post" using \<open>P x\<close> by simp
  with xs(2,3) show ?thesis unfolding first_least_def
    by (intro exI [of _ "filter P pre"] exI [of _ "filter P post"]) simp
qed

text \<open>The entries in the order least-connections visits them, starting at the cursor.\<close>

definition rotation :: "64 word \<Rightarrow> entry list \<Rightarrow> entry list" where
  "rotation c es = map (\<lambda>i. es ! ((i + unat c mod length es) mod length es)) [0..<length es]"

definition load :: "ep_state list \<Rightarrow> entry \<Rightarrow> rat" where
  "load sts e = of_nat (es_active (sts ! snd e)) / of_nat (ep_weight (fst e))"

lemma more_loaded_load:
  assumes "0 < ep_weight (fst a)" and "0 < ep_weight (fst b)"
  shows "more_loaded sts a b \<longleftrightarrow> load sts b < load sts a"
proof -
  have "load sts b < load sts a \<longleftrightarrow>
      (of_nat (es_active (sts ! snd b) * ep_weight (fst a)) :: rat)
        < of_nat (es_active (sts ! snd a) * ep_weight (fst b))"
    using assms by (simp add: load_def divide_less_eq less_divide_eq field_simps)
  then show ?thesis by (simp only: more_loaded_def of_nat_less_iff)
qed

lemma rotation_set: "set (rotation c es) = set es"
proof (cases "es = []")
  case False
  let ?n = "length es" and ?o = "unat c mod length es"
  have "es ! j \<in> set (rotation c es)" if "j < ?n" for j
  proof -
    let ?i = "(j + (?n - ?o)) mod ?n"
    have "?o < ?n" using False by simp
    then have "(?i + ?o) mod ?n = (j + ?n) mod ?n" by (simp add: mod_add_left_eq)
    then have "(?i + ?o) mod ?n = j" using that by simp
    moreover have "?i < ?n" using False by simp
    ultimately show ?thesis by (force simp: rotation_def)
  qed
  then show ?thesis using False by (auto simp: rotation_def set_conv_nth [of es])
qed (simp add: rotation_def)

text \<open>
  Least connections picks a least loaded endpoint: the chosen entry has the least number of
  active leases per weight of all eligible entries, although the code compares cross products, and
  of equally loaded entries it is the first one counting from the cursor, so ties rotate.
\<close>

lemma backend_least_connections:
  assumes "\<forall>e\<in>set es. 0 < ep_weight (fst e)" and "es \<noteq> []"
  shows "\<exists>e. least_connections c sts es = Some e \<and> first_least (load sts) (rotation c es) e
    \<and> (\<forall>e'\<in>set es. load sts e \<le> load sts e')"
proof -
  have lc: "least_connections c sts es = min_by (more_loaded sts) (rotation c es)"
    by (simp add: least_connections_def rotation_def Let_def)
  have "rotation c es \<noteq> []" using assms(2) by (simp add: rotation_def)
  then obtain e where e: "min_by (more_loaded sts) (rotation c es) = Some e"
    by (cases "rotation c es") (simp_all add: min_by_def)
  have "\<forall>a\<in>set (rotation c es). \<forall>b\<in>set (rotation c es). more_loaded sts a b = (load sts b < load sts a)"
    using assms(1) more_loaded_load by (simp add: rotation_set)
  from min_by_first_least [OF this e] have fl: "first_least (load sts) (rotation c es) e" .
  then have "\<forall>e'\<in>set (rotation c es). load sts e \<le> load sts e'" by (rule first_least_least)
  with lc e fl show ?thesis by (simp add: rotation_set)
qed

text \<open>
  C19. Hash and sticky balancing move no key without need: when endpoints leave (eject, resolve
  away) or come back, a key's choice among the remaining endpoints is its choice among all of them
  whenever that endpoint is still there.
\<close>

theorem backend_hash_stable:
  assumes "hash_choice sha256 f64_ln rnd key sts es = Some e"
    and "hash_choice sha256 f64_ln rnd key sts (filter P es) = Some e'"
  shows "e = e' \<or> \<not> P e"
proof -
  let ?score = "\<lambda>e. hash_score sha256 f64_ln rnd key (fst e) (sts ! snd e)"
  have fl: "first_least ?score xs x" if "hash_choice sha256 f64_ln rnd key sts xs = Some x" for xs x
  proof -
    from that obtain p where p: "min_by (\<lambda>a b. snd b < snd a) (map (\<lambda>e. (e, ?score e)) xs) = Some p" "fst p = x"
      by (auto simp: hash_choice_def)
    have "first_least snd (map (\<lambda>e. (e, ?score e)) xs) p" by (rule min_by_first_least [OF _ p(1)]) simp
    then obtain pre post where s: "map (\<lambda>e. (e, ?score e)) xs = pre @ p # post"
      "\<forall>y\<in>set pre. snd p < snd y" "\<forall>y\<in>set post. snd p \<le> snd y" by (auto simp: first_least_def)
    from s(1) obtain us vs where "xs = us @ x # vs" "pre = map (\<lambda>e. (e, ?score e)) us"
      "p = (x, ?score x)" "post = map (\<lambda>e. (e, ?score e)) vs"
      using p(2) by (auto simp: map_eq_append_conv map_eq_Cons_conv)
    with s(2,3) show ?thesis by (auto simp: first_least_def)
  qed
  show ?thesis
    using first_least_unique [OF first_least_filter [OF fl [OF assms(1)]] fl [OF assms(2)]] by blast
qed

section \<open>Ejection\<close>

text \<open>A run of failed results at the given times: whether each ejected, and the state after.\<close>

fun fail_run :: "nat \<Rightarrow> duration \<Rightarrow> instant list \<Rightarrow> ep_state \<Rightarrow> bool list \<times> ep_state" where
  "fail_run max_fails cooldown [] st = ([], st)"
| "fail_run max_fails cooldown (t # ts) st =
     (case state_record_result t True max_fails cooldown st of
        (st', _, ejected) \<Rightarrow>
          (case fail_run max_fails cooldown ts st' of (es, st'') \<Rightarrow> (ejected # es, st'')))"

lemma fail_run_snoc:
  "fail_run m d (ts @ [t]) st =
     (case fail_run m d ts st of (es, st') \<Rightarrow>
        case state_record_result t True m d st' of (st'', _, e) \<Rightarrow> (es @ [e], st''))"
  by (induction ts arbitrary: st) (auto split: prod.splits)

lemma fail_run_state:
  assumes "es_failures st = 0" and "es_blocked_until st = None" and "0 < m" and "m \<le> usize_max"
    and "length ts \<le> usize_max"
  shows "fail_run m d ts st =
    (map (\<lambda>i. Suc i = m) [0..<length ts],
     st\<lparr>es_failures := length ts, es_has_failures := (if ts = [] then es_has_failures st else True),
        es_blocked_until := (if m \<le> length ts then Some (ts ! (m - 1) + d) else None)\<rparr>)"
  using assms(5)
proof (induction ts rule: rev_induct)
  case Nil
  with assms show ?case by simp
next
  case (snoc t ts)
  then have "length ts \<le> usize_max" by simp
  note IH = snoc.IH [OF this]
  have cap: "min (Suc (length ts)) usize_max = Suc (length ts)" using snoc.prems by simp
  show ?case
    using assms cap
    by (auto simp: fail_run_snoc IH state_record_result_def Let_def nth_append not_le less_Suc_eq_le
        split: if_splits)
qed

text \<open>
  C20. Passive health: from a clean state, of any run of consecutive failures exactly the
  \<open>max_fails\<close>-th ejects the endpoint, and the endpoint is ready again exactly when the cooldown
  that started then has elapsed; one success at any point restores it at once.
\<close>

theorem backend_ejection:
  assumes clean: "es_failures st = 0" "es_blocked_until st = None"
    and m: "0 < m" "m \<le> usize_max" "length ts \<le> usize_max"
    and e: "0 < ep_weight e" and opts: "op_health opts = None"
    and run: "fail_run m cooldown ts st = (ejected, st')"
  shows "ejected = map (\<lambda>i. Suc i = m) [0..<length ts]
    \<and> (is_ready opts now e st' \<longleftrightarrow> length ts < m \<or> ts ! (m - 1) + cooldown \<le> now)
    \<and> (ts \<noteq> [] \<longrightarrow> is_ready opts now e (fst (state_record_result t False m cooldown st')))"
proof -
  note st' = fail_run_state [OF clean m, of cooldown]
  from run st' have ej: "ejected = map (\<lambda>i. Suc i = m) [0..<length ts]"
    and s: "st' = st\<lparr>es_failures := length ts, es_has_failures := (if ts = [] then es_has_failures st else True),
        es_blocked_until := (if m \<le> length ts then Some (ts ! (m - 1) + cooldown) else None)\<rparr>"
    by simp_all
  have "is_ready opts now e st' \<longleftrightarrow> length ts < m \<or> ts ! (m - 1) + cooldown \<le> now"
    using e opts by (simp add: s is_ready_def not_le)
  moreover have "ts \<noteq> [] \<longrightarrow> is_ready opts now e (fst (state_record_result t False m cooldown st'))"
    using e opts by (simp add: s is_ready_def state_record_result_def)
  ultimately show ?thesis using ej by simp
qed

text \<open>
  C21. A DNS refresh replaces the membership and nothing else: after a successful resolution the
  pool is exactly the resolved addresses with their weights, an address that was there keeps its
  endpoint state (health and outstanding leases), a new one starts clean; a failed resolution keeps
  the pool until a minute has passed since the last success and then empties it.
\<close>

theorem backend_dns_refresh:
  assumes ok: "bk_ok env b"
  shows "case resolve_origins parse_ip lookup (bk_origins b) [] (now + from_secs 3600) of
      Some (eps, until) \<Rightarrow>
        (\<exists>b'. refresh_dns show_addr parse_ip lookup now b = b'
         \<and> map (\<lambda>e. (ep_address (fst e), ep_weight (fst e))) (pl_endpoints (bk_pool b')) = eps
         \<and> pl_next_dns (bk_pool b') = max until (now + from_secs 1)
         \<and> (\<forall>e\<in>set (pl_endpoints (bk_pool b')).
              case bt_get (previous_of b) (ep_address (fst e)) of
                Some i \<Rightarrow> snd e = i \<and> bk_states b' ! i = bk_states b ! i
              | None \<Rightarrow> bk_states b' ! snd e = new_ep_state show_addr (ep_address (fst e))))
    | None \<Rightarrow>
        pl_endpoints (bk_pool (refresh_dns show_addr parse_ip lookup now b)) =
          (if from_secs 60 < duration_since now (pl_dns_success (bk_pool b)) then []
           else pl_endpoints (bk_pool b))"
proof (cases "resolve_origins parse_ip lookup (bk_origins b) [] (now + from_secs 3600)")
  case None
  then show ?thesis by (simp add: refresh_dns_def install_endpoints_def Let_def)
next
  case (Some r)
  obtain eps until where r: "r = (eps, until)" by fastforce
  obtain es sts where pe: "pool_entries show_addr (previous_of b) eps (bk_states b) = (es, sts)" by fastforce
  note range = previous_of_range [OF ok]
  note spec = pool_entries_states [OF pe range]
  have b': "refresh_dns show_addr parse_ip lookup now b = b\<lparr>bk_states := sts,
      bk_pool := (bk_pool b)\<lparr>pl_endpoints := es, pl_selection := None,
        pl_next_dns := max until (now + from_secs 1), pl_dns_success := now\<rparr>\<rparr>"
    using Some pe by (simp add: refresh_dns_def install_endpoints_def Let_def r previous_of_def)
  have kept: "sts ! i = bk_states b ! i" if "bt_get (previous_of b) a = Some i" for a i
    using spec(1) range that by (auto simp: ran_def nth_append)
  have "case bt_get (previous_of b) (ep_address (fst e)) of
        Some i \<Rightarrow> snd e = i \<and> sts ! i = bk_states b ! i
      | None \<Rightarrow> sts ! snd e = new_ep_state show_addr (ep_address (fst e))" if "e \<in> set es" for e
    using spec(4) kept that by (auto split: option.splits)
  with spec(3) show ?thesis by (simp add: Some r b' cong: option.case_cong)
qed

section \<open>Concrete runs\<close>

definition example_env :: env where
  "example_env = \<lparr>ev_show = (\<lambda>_. ''a''), ev_parse_ip = (\<lambda>h. if h = ''::1'' then Some (IpV6 1) else None),
     ev_sha256 = id, ev_ln = id, ev_rnd = id\<rparr>"

definition example_endpoint :: "32 word \<Rightarrow> nat \<Rightarrow> endpoint" where
  "example_endpoint a w = \<lparr>ep_address = SockV4 a 80, ep_weight = w\<rparr>"

definition example_options :: options where
  "example_options = \<lparr>op_balance = RoundRobin, op_max_inflight = 2, op_health = None\<rparr>"

definition example_backend :: backend where
  "example_backend = fresh_backend example_env 0 [example_endpoint 1 1, example_endpoint 2 3] example_options []"

definition example_run :: "(backend_op, unit, lease) lease_event list" where
  "example_run = [Acquire (OpSelect 1 ''k''), Acquire (OpRecordLease 2 0 True 1 100),
     Release () \<lparr>le_address = SockV4 1 80, le_state = 0\<rparr>, Acquire (OpSelect 50 ''k''),
     Acquire (OpSelect 60 ''k''), Acquire (OpSelect 70 ''k'')]"

theorem backend_select_refines_witness:
  "fst (backend_select (\<lambda>h. ev_parse_ip example_env h \<noteq> None) id id id 200 ''k''
      (fst (op_run example_env example_run example_backend))) =
   reference_select example_env 200 ''k'' (fst (op_run example_env example_run example_backend))"
  using backend_select_refines [of example_env example_run 0 _ _ _ _ _ 200 "''k''",
      OF prod.collapse [symmetric]]
  by (simp add: example_backend_def example_run_def) (simp add: example_env_def)

theorem backend_leases_accounted_witness:
  "bk_active_leases (fst (op_run example_env example_run example_backend)) =
     size (snd (op_run example_env example_run example_backend))
   \<and> size (snd (op_run example_env example_run example_backend)) \<le> 2"
  using backend_leases_accounted [of example_env example_run 0 "[example_endpoint 1 1, example_endpoint 2 3]"
      example_options "[]", OF prod.collapse [symmetric]]
  by (simp add: example_backend_def example_options_def)

theorem backend_round_robin_share_witness:
  "count_list (map (\<lambda>i. round_robin (5 + of_nat i) (snapshot_of [(example_endpoint 1 1, 0), (example_endpoint 2 3, 1)]))
       [0..<4]) (Some (example_endpoint 2 3, 1)) = 3"
  using backend_round_robin_share [of "[(example_endpoint 1 1, 0), (example_endpoint 2 3, 1)]" 5
      "(example_endpoint 2 3, 1)"]
  by (simp add: example_endpoint_def)

definition example_states :: "ep_state list" where
  "example_states = [(new_ep_state (\<lambda>_. ''a'') (SockV4 1 80))\<lparr>es_active := 1\<rparr>,
     (new_ep_state (\<lambda>_. ''b'') (SockV4 2 80))\<lparr>es_active := 2\<rparr>]"

theorem backend_hash_stable_witness:
  "hash_choice id (\<lambda>x. x) id ''k'' example_states (filter (\<lambda>e. snd e = 1)
      [(example_endpoint 1 1, 0), (example_endpoint 2 3, 1)]) = Some (example_endpoint 2 3, 1)
   \<and> (\<exists>e. hash_choice id (\<lambda>x. x) id ''k'' example_states
      [(example_endpoint 1 1, 0), (example_endpoint 2 3, 1)] = Some e
      \<and> (e = (example_endpoint 2 3, 1) \<or> snd e = 0))"
proof -
  let ?es = "[(example_endpoint 1 1, 0), (example_endpoint 2 3, 1)]"
  have one: "hash_choice id (\<lambda>x. x) id ''k'' example_states (filter (\<lambda>e. snd e = 1) ?es) = Some (example_endpoint 2 3, 1)"
    by (simp add: hash_choice_def)
  obtain e where e: "hash_choice id (\<lambda>x. x) id ''k'' example_states ?es = Some e"
    by (simp add: hash_choice_def min_by_def)
  then have "e \<in> set ?es" by (rule hash_choice_in)
  with backend_hash_stable [OF e one] one e show ?thesis by auto
qed

theorem backend_ejection_witness:
  "fst (fail_run 2 100 [10, 20, 30] (new_ep_state (\<lambda>_. ''a'') (SockV4 1 80))) = [False, True, False]
   \<and> \<not> is_ready default_options 119 (example_endpoint 1 1)
        (snd (fail_run 2 100 [10, 20, 30] (new_ep_state (\<lambda>_. ''a'') (SockV4 1 80))))
   \<and> is_ready default_options 120 (example_endpoint 1 1)
        (snd (fail_run 2 100 [10, 20, 30] (new_ep_state (\<lambda>_. ''a'') (SockV4 1 80))))"
  using backend_ejection [of "new_ep_state (\<lambda>_. ''a'') (SockV4 1 80)" 2 "[10, 20, 30]" "example_endpoint 1 1"
      default_options 100, OF _ _ _ _ _ _ _ prod.collapse [symmetric]]
  by (simp add: new_ep_state_def usize_max_def example_endpoint_def default_options_def upt_rec)

theorem backend_dns_refresh_witness:
  "map (\<lambda>e. (ep_address (fst e), ep_weight (fst e))) (pl_endpoints (bk_pool
     (refresh_dns (\<lambda>_. ''a'') (\<lambda>_. None) (\<lambda>_. Some (99, [IpV4 7])) 50
        (fresh_backend example_env 0 [] default_options [\<lparr>or_host = ''svc'', or_port = 80, or_weight = 1\<rparr>])))) =
   [(SockV4 7 80, 1)]"
  using backend_dns_refresh [OF fresh_backend_ok [of example_env 0 "[]" default_options
        "[\<lparr>or_host = ''svc'', or_port = 80, or_weight = 1\<rparr>]"],
      where parse_ip = "\<lambda>_. None" and lookup = "\<lambda>_. Some (99, [IpV4 7])" and now = 50 and show_addr = "\<lambda>_. ''a''"]
  by (simp add: fresh_backend_def new_backend_def)

end
