(* ===== verification/Script_Host.thy ===== *)
theory Script_Host
  imports Request_Data
begin

text \<open>
  The host side of the plugin ABI, \<open>src/src/script/mod.rs\<close> (\<open>Host\<close>, \<open>host_call\<close>, \<open>CompiledScript::request\<close>,
  \<open>Execution::response\<close>) with the JSON pointer walk of \<open>script/json.rs\<close>.

  An \<open>i64\<close> that crosses the ABI is a 64-bit word. A host call maps the caller (fuel, exported memory,
  host data) to a result and the caller after it; an error traps the guest and ends the execution,
  so it carries no state. The Wasm guest is an interaction tree: what it returns, traps, the fuel
  its instructions burn, what it leaves in its exported memory and the host calls it makes, each with
  its continuation for the result.

  The record \<open>api\<close> holds the code of other crates: the header name and value checks of \<open>http\<close>, the query
  parser of \<open>url\<close>, \<open>memchr\<close>'s search, SHA-256 and the \<open>serde_json\<close> readers. \<open>js_object\<close> and \<open>js_array\<close>
  list the members of a raw object or array in order.
\<close>

section \<open>Data\<close>

record api =
  header_name_ok :: "string \<Rightarrow> bool"
  header_value_ok :: "string \<Rightarrow> bool"
  form_parse :: "string \<Rightarrow> (string \<times> string) list"
  memmem_find :: "string \<Rightarrow> string \<Rightarrow> nat option"
  api_sha256 :: "string \<Rightarrow> string"
  js_raw :: "string \<Rightarrow> string option"
  js_object :: "string \<Rightarrow> (string \<times> string) list option"
  js_array :: "string \<Rightarrow> string list option"
  js_i64 :: "string \<Rightarrow> 64 word option"
  js_bool :: "string \<Rightarrow> bool option"
  js_string :: "string \<Rightarrow> string option"

definition HOST_LIMIT :: nat where "HOST_LIMIT = 1024 * 1024"
definition FUEL :: nat where "FUEL = 100000"

record edits =
  ed_path :: "string option"
  ed_query :: "string option"
  ed_headers :: "(string, string option) btree"

datatype decision = Pass | Proxy_to string | Reply nat string

record request_outcome =
  oc_edits :: edits
  oc_decision :: decision

definition default_outcome :: request_outcome where
  "default_outcome = \<lparr>oc_edits = \<lparr>ed_path = None, ed_query = None, ed_headers = []\<rparr>, oc_decision = Pass\<rparr>"

record host =
  ho_constants :: string
  ho_request :: request_data
  ho_outcome :: request_outcome
  ho_decision_set :: bool
  ho_response :: bool
  ho_status :: nat
  ho_response_headers :: "(string, string) btree"
  ho_response_edits :: "(string, string option) btree"
  ho_strings :: "string list"
  ho_allocated :: nat

record caller =
  ca_fuel :: nat
  ca_memory :: "string option"
  ca_host :: host

datatype host_error =
    HostFuel | ParseFuel | BodyFuel
  | ArgMissing | IntegerRange
  | NilString | ConstantTooLong | InvalidConstantRange | InvalidConstant | InvalidHandle
  | AllocationOverflow | AllocationLimit
  | RequestPhaseOnly | ResponsePhaseOnly | SecondDecision
  | LiteralTooLong | InvalidLiteralRange | MissingMemory | LiteralOutOfBounds | LiteralNotUtf8
  | PointerTooLong | PatternTooLong | NameTooLong
  | InvalidUri | PathNotAbsolute
  | InvalidHeaderName | TransportHeader string | HeaderValueTooLong | InvalidHeaderValue
  | BackendTooLong | InvalidStatus | ReplyTooLong | StringTooLong
  | UnknownCall string
  | MetadataTooLarge | MissingExportedMemory | GuestTrap | FuelExhausted
  | InvalidAction | ActionMismatch

section \<open>Host operations\<close>

type_synonym 'a hostM = "caller \<Rightarrow> (host_error, 'a \<times> caller) result"

definition returnM :: "'a \<Rightarrow> 'a hostM" where
  "returnM x = (\<lambda>c. Inr (x, c))"

definition bindM :: "'a hostM \<Rightarrow> ('a \<Rightarrow> 'b hostM) \<Rightarrow> 'b hostM" where
  "bindM m f = (\<lambda>c. bindR (m c) (\<lambda>(x, c'). f x c'))"

definition liftM :: "(host_error, 'a) result \<Rightarrow> 'a hostM" where
  "liftM r = (\<lambda>c. bindR r (\<lambda>x. Inr (x, c)))"

definition ensureM :: "bool \<Rightarrow> host_error \<Rightarrow> unit hostM" where
  "ensureM b e = liftM (ensure b e)"

definition gets :: "(host \<Rightarrow> 'a) \<Rightarrow> 'a hostM" where
  "gets f = (\<lambda>c. Inr (f (ca_host c), c))"

definition modify :: "(host \<Rightarrow> host) \<Rightarrow> unit hostM" where
  "modify f = (\<lambda>c. Inr ((), c\<lparr>ca_host := f (ca_host c)\<rparr>))"

definition spend :: "nat \<Rightarrow> host_error \<Rightarrow> unit hostM" where
  "spend cost e = (\<lambda>c. if cost \<le> ca_fuel c then Inr ((), c\<lparr>ca_fuel := ca_fuel c - cost\<rparr>) else Inl e)"

definition arg :: "64 word list \<Rightarrow> nat \<Rightarrow> 64 word hostM" where
  "arg args i = liftM (ok_or (slice_get args i) ArgMissing)"

definition charge :: "nat \<Rightarrow> unit hostM" where
  "charge n = (\<lambda>c.
     case checked_add (ho_allocated (ca_host c)) n of
       None \<Rightarrow> Inl AllocationOverflow
     | Some a \<Rightarrow>
         if a \<le> HOST_LIMIT then Inr ((), c\<lparr>ca_host := (ca_host c)\<lparr>ho_allocated := a\<rparr>\<rparr>)
         else Inl AllocationLimit)"

definition handle_offset :: "64 word \<Rightarrow> nat" where
  "handle_offset h = unat (and (drop_bit 32 h) 0x7fffffff)"

definition handle_length :: "64 word \<Rightarrow> nat" where
  "handle_length h = unat (and h 0xffffffff)"

definition host_string :: "host \<Rightarrow> 64 word \<Rightarrow> (host_error, string) result" where
  "host_string host h =
     (if h = 0 then Inl NilString
      else if sint h < 0 then
        bindR (ensure (handle_length h \<le> 65536) ConstantTooLong) (\<lambda>_.
        bindR (ok_or (checked_add (handle_offset h) (handle_length h)) InvalidConstantRange) (\<lambda>last.
        ok_or (str_get (ho_constants host) (handle_offset h) last) InvalidConstant))
      else ok_or (slice_get (ho_strings host) (nat (sint h - 1))) InvalidHandle)"

definition str_arg :: "64 word list \<Rightarrow> nat \<Rightarrow> string hostM" where
  "str_arg args i = bindM (arg args i) (\<lambda>h c. liftM (host_string (ca_host c) h) c)"

definition put :: "string \<Rightarrow> 64 word hostM" where
  "put s = bindM (charge (length s + 32)) (\<lambda>_.
     bindM (modify (\<lambda>h. h\<lparr>ho_strings := ho_strings h @ [s]\<rparr>)) (\<lambda>_.
     gets (\<lambda>h. of_nat (length (ho_strings h)))))"

definition put_opt :: "string option \<Rightarrow> 64 word hostM" where
  "put_opt v = (case v of None \<Rightarrow> returnM 0 | Some s \<Rightarrow> put s)"

definition request_phase :: "unit hostM" where
  "request_phase = bindM (gets ho_response) (\<lambda>r. ensureM (\<not> r) RequestPhaseOnly)"

definition response_phase :: "unit hostM" where
  "response_phase = bindM (gets ho_response) (\<lambda>r. ensureM r ResponsePhaseOnly)"

fun action_of :: "decision \<Rightarrow> 64 word" where
  "action_of Pass = 0"
| "action_of (Proxy_to b) = 1"
| "action_of (Reply s b) = 2"

definition decide :: "decision \<Rightarrow> 64 word hostM" where
  "decide d =
     bindM request_phase (\<lambda>_.
     bindM (gets ho_decision_set) (\<lambda>already.
     bindM (ensureM (\<not> already) SecondDecision) (\<lambda>_.
     bindM (modify (\<lambda>h. h\<lparr>ho_outcome := (ho_outcome h)\<lparr>oc_decision := d\<rparr>, ho_decision_set := True\<rparr>)) (\<lambda>_.
     returnM (action_of d)))))"

definition from_bool :: "bool \<Rightarrow> 64 word" where
  "from_bool b = (if b then 1 else 0)"

section \<open>JSON pointers\<close>

fun decode_component :: "string \<Rightarrow> string option" where
  "decode_component [] = Some []"
| "decode_component (c # s) =
     (if c = CHR ''~'' then
        (case s of
           [] \<Rightarrow> None
         | d # s' \<Rightarrow>
             if d = CHR ''0'' then map_option (\<lambda>k. CHR ''~'' # k) (decode_component s')
             else if d = CHR ''1'' then map_option (\<lambda>k. CHR ''/'' # k) (decode_component s')
             else None)
      else map_option (\<lambda>k. c # k) (decode_component s))"

text \<open>The last member with the key, as \<open>Member::visit_map\<close> keeps it.\<close>

definition last_member :: "string \<Rightarrow> (string \<times> string) list \<Rightarrow> string option" where
  "last_member key ms = map_of (rev ms) key"

definition json_child :: "api \<Rightarrow> string \<Rightarrow> string \<Rightarrow> string option" where
  "json_child api v key =
     (case v of
        [] \<Rightarrow> None
      | c # _ \<Rightarrow>
          if c = CHR ''{'' then Option.bind (js_object api v) (last_member key)
          else if c = CHR ''['' \<and> (key = ''0'' \<or> (\<not> starts_with key ''0'' \<and> key \<noteq> []))
          then (if list_all is_ascii_digit key \<and> digits_value key \<le> usize_max
                then Option.bind (js_array api v) (\<lambda>vs. slice_get vs (digits_value key))
                else None)
          else None)"

fun json_walk :: "api \<Rightarrow> string list \<Rightarrow> nat \<Rightarrow> string \<Rightarrow> string option" where
  "json_walk api [] n v = Some v"
| "json_walk api (p # ps) n v =
     (if 32 < n + 1 then None
      else Option.bind (decode_component p) (\<lambda>key.
           Option.bind (json_child api v key) (json_walk api ps (n + 1))))"

definition value_at :: "api \<Rightarrow> string \<Rightarrow> string \<Rightarrow> string option" where
  "value_at api bytes pointer =
     (if 1024 < length pointer \<or> (pointer \<noteq> [] \<and> \<not> starts_with pointer ''/'') then None
      else Option.bind (js_raw api bytes) (\<lambda>v.
        if pointer = [] then Some v
        else json_walk api (split_on CHR ''/'' (tl pointer)) 0 v))"

section \<open>Host calls\<close>

text \<open>
  \<open>constant\<close>: the handle of a range of the constant pool. The sign bit marks it, bits 32 to 62 hold the
  offset and the low half holds the length.
\<close>

definition constant_handle :: "nat \<Rightarrow> nat \<Rightarrow> 64 word" where
  "constant_handle offset len = or (or (push_bit 63 1) (push_bit 32 (of_nat offset))) (of_nat len)"

definition call_constant :: "64 word list \<Rightarrow> 64 word hostM" where
  "call_constant args =
     bindM (arg args 0) (\<lambda>a.
     bindM (liftM (ok_or (try_from_i64 (2 ^ 32 - 1) a) IntegerRange)) (\<lambda>offset.
     bindM (arg args 1) (\<lambda>b.
     bindM (liftM (ok_or (try_from_i64 (2 ^ 32 - 1) b) IntegerRange)) (\<lambda>len.
     bindM (ensureM (offset \<le> 2 ^ 31 - 1 \<and> len \<le> 65536) InvalidConstantRange) (\<lambda>_.
     bindM (\<lambda>c. liftM (host_string (ca_host c) (constant_handle offset len)) c) (\<lambda>_.
     bindM (charge (len + 32)) (\<lambda>_.
     returnM (constant_handle offset len))))))))"

definition call_literal :: "64 word list \<Rightarrow> 64 word hostM" where
  "call_literal args =
     bindM (arg args 0) (\<lambda>a.
     bindM (liftM (ok_or (try_from_i64 usize_max a) IntegerRange)) (\<lambda>ptr.
     bindM (arg args 1) (\<lambda>b.
     bindM (liftM (ok_or (try_from_i64 usize_max b) IntegerRange)) (\<lambda>len.
     bindM (ensureM (len \<le> 65536) LiteralTooLong) (\<lambda>_.
     bindM (liftM (ok_or (checked_add ptr len) InvalidLiteralRange)) (\<lambda>last.
     bindM (\<lambda>c. liftM (ok_or (ca_memory c) MissingMemory) c) (\<lambda>memory.
     bindM (liftM (ok_or (if last \<le> length memory then Some (take (last - ptr) (drop ptr memory)) else None)
              LiteralOutOfBounds)) (\<lambda>bytes.
     bindM (liftM (ok_or (from_utf8 bytes) LiteralNotUtf8)) (\<lambda>s.
     put s)))))))))"

definition opt_len :: "string option \<Rightarrow> nat" where
  "opt_len v = (case v of None \<Rightarrow> 0 | Some s \<Rightarrow> length s)"

definition body_bytes :: "host \<Rightarrow> string" where
  "body_bytes h = (case rd_body (ho_request h) of None \<Rightarrow> [] | Some b \<Rightarrow> bv_bytes b)"

definition current_query :: "host \<Rightarrow> string" where
  "current_query h = (case ed_query (oc_edits (ho_outcome h)) of None \<Rightarrow> rd_query (ho_request h) | Some q \<Rightarrow> q)"

definition current_path :: "host \<Rightarrow> string" where
  "current_path h = (case ed_path (oc_edits (ho_outcome h)) of None \<Rightarrow> rd_path (ho_request h) | Some p \<Rightarrow> p)"

abbreviation header_edits :: "host \<Rightarrow> (string, string option) btree" where
  "header_edits h \<equiv> ed_headers (oc_edits (ho_outcome h))"

definition cookie_edit :: "host \<Rightarrow> string option" where
  "cookie_edit h = Option.bind (bt_get (header_edits h) ''cookie'') (\<lambda>v. v)"

text \<open>The fuel that parsing and hashing cost on top of the call itself.\<close>

definition parse_cost :: "string \<Rightarrow> 64 word list \<Rightarrow> unit hostM" where
  "parse_cost name args =
     (if name = ''str.hash'' \<or> name = ''req.arg'' \<or> name = ''req.cookie'' then
        bindM (if name = ''str.hash'' then bindM (str_arg args 0) (\<lambda>s. returnM (length s))
               else if name = ''req.arg'' then gets (\<lambda>h. length (current_query h))
               else gets (\<lambda>h. opt_len (rd_header (ho_request h) ''cookie'') + opt_len (cookie_edit h))) (\<lambda>bytes.
        spend (bytes div 32) ParseFuel)
      else returnM ())"

definition slashes :: "string \<Rightarrow> nat" where
  "slashes s = length (filter (\<lambda>c. c = CHR ''/'') s)"

definition json_calls :: "string list" where
  "json_calls = [''req.json_string'', ''req.json_int'', ''req.json_bool'']"

definition body_cost :: "string \<Rightarrow> 64 word list \<Rightarrow> unit hostM" where
  "body_cost name args =
     (if name = ''req.body'' \<or> name = ''req.body_contains'' \<or> name \<in> set json_calls then
        bindM (gets (\<lambda>h. length (body_bytes h))) (\<lambda>bytes.
        bindM (if name \<in> set json_calls then
                 bindM (str_arg args 0) (\<lambda>pointer.
                 bindM (ensureM (length pointer \<le> 1024 \<and> slashes pointer \<le> 32) PointerTooLong) (\<lambda>_.
                 returnM (1 + slashes pointer)))
               else returnM 1) (\<lambda>passes.
        spend (min (bytes * passes) usize_max div 32) BodyFuel))
      else returnM ())"

definition call_body :: "64 word hostM" where
  "call_body = bindM (gets (\<lambda>h. Option.bind (rd_body (ho_request h)) (\<lambda>b. from_utf8 (bv_bytes b)))) put_opt"

definition call_body_contains :: "api \<Rightarrow> 64 word list \<Rightarrow> 64 word hostM" where
  "call_body_contains api args =
     bindM (str_arg args 0) (\<lambda>needle.
     bindM (ensureM (length needle \<le> 8192) PatternTooLong) (\<lambda>_.
     gets (\<lambda>h. from_bool (is_some_and (rd_body (ho_request h)) (\<lambda>b. memmem_find api (bv_bytes b) needle \<noteq> None)))))"

definition call_json :: "api \<Rightarrow> string \<Rightarrow> 64 word list \<Rightarrow> 64 word hostM" where
  "call_json api name args =
     (let fallback = (case slice_get args 1 of None \<Rightarrow> 0 | Some v \<Rightarrow> v) in
      bindM (gets (\<lambda>h. rd_body (ho_request h))) (\<lambda>body.
      case body of
        None \<Rightarrow> returnM fallback
      | Some b \<Rightarrow>
          if \<not> bv_complete b then returnM fallback
          else
            bindM (charge (length (bv_bytes b) * 2 + 1024)) (\<lambda>_.
            bindM (str_arg args 0) (\<lambda>pointer.
            case value_at api (bv_bytes b) pointer of
              None \<Rightarrow> returnM fallback
            | Some v \<Rightarrow>
                if name = ''req.json_int'' then returnM (case js_i64 api v of None \<Rightarrow> fallback | Some n \<Rightarrow> n)
                else if name = ''req.json_bool''
                then returnM (case js_bool api v of None \<Rightarrow> fallback | Some t \<Rightarrow> from_bool t)
                else put_opt (js_string api v)))))"

definition call_arg :: "api \<Rightarrow> 64 word list \<Rightarrow> 64 word hostM" where
  "call_arg api args =
     bindM (str_arg args 0) (\<lambda>key.
     bindM (ensureM (length key \<le> 256) NameTooLong) (\<lambda>_.
     bindM (gets (\<lambda>h. map_option snd (find (\<lambda>kv. fst kv = key) (form_parse api (current_query h))))) put_opt))"

definition current_cookie :: "host \<Rightarrow> string option" where
  "current_cookie h =
     (case cookie_edit h of
        Some v \<Rightarrow> Some v
      | None \<Rightarrow>
          if bt_get (header_edits h) ''cookie'' \<noteq> None then None
          else rd_header (ho_request h) ''cookie'')"

definition call_cookie :: "64 word list \<Rightarrow> 64 word hostM" where
  "call_cookie args =
     bindM (str_arg args 0) (\<lambda>key.
     bindM (ensureM (length key \<le> 256) NameTooLong) (\<lambda>_.
     bindM (gets (\<lambda>h. Option.bind (current_cookie h) (cookie_value key))) put_opt))"

definition call_hash :: "api \<Rightarrow> 64 word list \<Rightarrow> 64 word hostM" where
  "call_hash api args =
     bindM (str_arg args 0) (\<lambda>v.
     returnM (and (of_nat (from_be_bytes (take 8 (api_sha256 api v)))) 0x7fffffffffffffff))"

definition call_claim :: "64 word list \<Rightarrow> 64 word hostM" where
  "call_claim args =
     bindM (str_arg args 0) (\<lambda>key.
     bindM (gets (\<lambda>h. bt_get (rd_claims (ho_request h)) key)) put_opt)"

definition call_req_header :: "64 word list \<Rightarrow> 64 word hostM" where
  "call_req_header args =
     bindM (str_arg args 0) (\<lambda>k.
     bindM (gets (\<lambda>h. case bt_get (header_edits h) (to_ascii_lowercase k) of
         Some v \<Rightarrow> v
       | None \<Rightarrow> rd_header (ho_request h) (to_ascii_lowercase k))) put_opt)"

definition call_resp_header :: "64 word list \<Rightarrow> 64 word hostM" where
  "call_resp_header args =
     bindM (str_arg args 0) (\<lambda>k.
     bindM response_phase (\<lambda>_.
     bindM (gets (\<lambda>h. case bt_get (ho_response_edits h) (to_ascii_lowercase k) of
         Some v \<Rightarrow> v
       | None \<Rightarrow> bt_get (ho_response_headers h) (to_ascii_lowercase k))) put_opt))"

definition set_edits :: "(edits \<Rightarrow> edits) \<Rightarrow> host \<Rightarrow> host" where
  "set_edits f h = h\<lparr>ho_outcome := (ho_outcome h)\<lparr>oc_edits := f (oc_edits (ho_outcome h))\<rparr>\<rparr>"

definition uri_chars_ok :: "string \<Rightarrow> bool" where
  "uri_chars_ok v \<longleftrightarrow> length v \<le> 8192 \<and> CHR 0x0D \<notin> set v \<and> CHR 0x0A \<notin> set v \<and> CHR ''#'' \<notin> set v"

definition absolute_path :: "string \<Rightarrow> bool" where
  "absolute_path v \<longleftrightarrow> starts_with v ''/'' \<and> CHR ''?'' \<notin> set v"

definition call_set_uri :: "bool \<Rightarrow> 64 word list \<Rightarrow> 64 word hostM" where
  "call_set_uri path args =
     bindM request_phase (\<lambda>_.
     bindM (str_arg args 0) (\<lambda>v.
     bindM (ensureM (uri_chars_ok v) InvalidUri) (\<lambda>_.
     bindM (ensureM (path \<longrightarrow> absolute_path v) PathNotAbsolute) (\<lambda>_.
     bindM (charge (length v)) (\<lambda>_.
     bindM (modify (set_edits (\<lambda>e. if path then e\<lparr>ed_path := Some v\<rparr> else e\<lparr>ed_query := Some v\<rparr>))) (\<lambda>_.
     returnM 0))))))"

definition transport_headers :: "string list" where
  "transport_headers =
     [''connection'', ''transfer-encoding'', ''content-length'', ''upgrade'', ''trailer'', ''te'',
      ''keep-alive'', ''proxy-connection'']"

definition call_edit_header :: "api \<Rightarrow> bool \<Rightarrow> bool \<Rightarrow> 64 word list \<Rightarrow> 64 word hostM" where
  "call_edit_header api response setting args =
     bindM (if response then response_phase else request_phase) (\<lambda>_.
     bindM (str_arg args 0) (\<lambda>k.
     let key = to_ascii_lowercase k in
     bindM (ensureM (header_name_ok api key) InvalidHeaderName) (\<lambda>_.
     bindM (ensureM (key \<notin> set transport_headers) (TransportHeader key)) (\<lambda>_.
     bindM (if setting then
              bindM (str_arg args 1) (\<lambda>v.
              bindM (ensureM (length v \<le> 8192) HeaderValueTooLong) (\<lambda>_.
              bindM (ensureM (header_value_ok api v) InvalidHeaderValue) (\<lambda>_.
              returnM (Some v))))
            else returnM None) (\<lambda>v.
     bindM (charge (length key + opt_len v + 64)) (\<lambda>_.
     bindM (modify (if response then (\<lambda>h. h\<lparr>ho_response_edits := bt_insert key v (ho_response_edits h)\<rparr>)
                    else set_edits (\<lambda>e. e\<lparr>ed_headers := bt_insert key v (ed_headers e)\<rparr>))) (\<lambda>_.
     returnM 0)))))))"

definition call_proxy :: "64 word list \<Rightarrow> 64 word hostM" where
  "call_proxy args =
     bindM request_phase (\<lambda>_.
     bindM (str_arg args 0) (\<lambda>backend.
     bindM (ensureM (length backend \<le> 512) BackendTooLong) (\<lambda>_.
     bindM (charge (length backend)) (\<lambda>_.
     decide (Proxy_to backend)))))"

definition call_reply :: "64 word list \<Rightarrow> 64 word hostM" where
  "call_reply args =
     bindM request_phase (\<lambda>_.
     bindM (arg args 0) (\<lambda>a.
     bindM (liftM (ok_or (try_from_i64 (2 ^ 16 - 1) a) IntegerRange)) (\<lambda>status.
     bindM (ensureM (200 \<le> status \<and> status \<le> 599) InvalidStatus) (\<lambda>_.
     bindM (str_arg args 1) (\<lambda>body.
     bindM (ensureM (length body \<le> 65536) ReplyTooLong) (\<lambda>_.
     bindM (charge (length body)) (\<lambda>_.
     decide (Reply status body))))))))"

definition call_eq :: "64 word list \<Rightarrow> 64 word hostM" where
  "call_eq args =
     bindM (arg args 0) (\<lambda>a.
     bindM (arg args 1) (\<lambda>b.
     if a = 0 \<or> b = 0 then returnM (from_bool (a = b))
     else bindM (str_arg args 0) (\<lambda>s. bindM (str_arg args 1) (\<lambda>t. returnM (from_bool (s = t))))))"

definition call_concat :: "64 word list \<Rightarrow> 64 word hostM" where
  "call_concat args =
     bindM (str_arg args 0) (\<lambda>a.
     bindM (str_arg args 1) (\<lambda>b.
     bindM (ensureM (length a + length b \<le> 65536) StringTooLong) (\<lambda>_.
     put (a @ b))))"

definition call_test :: "(string \<Rightarrow> string \<Rightarrow> bool) \<Rightarrow> 64 word list \<Rightarrow> 64 word hostM" where
  "call_test p args =
     bindM (str_arg args 0) (\<lambda>s. bindM (str_arg args 1) (\<lambda>t. returnM (from_bool (p s t))))"

definition host_dispatch :: "api \<Rightarrow> string \<Rightarrow> 64 word list \<Rightarrow> 64 word hostM" where
  "host_dispatch api name args =
     (if name = ''req.body'' then call_body
      else if name = ''req.body_len'' then gets (\<lambda>h. of_nat (length (body_bytes h)))
      else if name = ''req.body_complete''
        then gets (\<lambda>h. from_bool (is_some_and (rd_body (ho_request h)) bv_complete))
      else if name = ''req.body_truncated''
        then gets (\<lambda>h. from_bool (is_some_and (rd_body (ho_request h)) (\<lambda>b. \<not> bv_complete b)))
      else if name = ''req.body_contains'' then call_body_contains api args
      else if name \<in> set json_calls then call_json api name args
      else if name = ''req.arg'' then call_arg api args
      else if name = ''req.cookie'' then call_cookie args
      else if name = ''str.hash'' then call_hash api args
      else if name = ''req.method'' then bindM (gets (\<lambda>h. rd_method (ho_request h))) put
      else if name = ''req.path'' then bindM (gets current_path) put
      else if name = ''req.query'' then bindM (gets current_query) put
      else if name = ''req.host'' then bindM (gets (\<lambda>h. rd_host (ho_request h))) put
      else if name = ''req.remote_addr'' then bindM (gets (\<lambda>h. rd_remote_addr (ho_request h))) put
      else if name = ''req.claim'' then call_claim args
      else if name = ''req.header'' then call_req_header args
      else if name = ''resp.header'' then call_resp_header args
      else if name = ''req.set_path'' then call_set_uri True args
      else if name = ''req.set_query'' then call_set_uri False args
      else if name = ''req.set_header'' then call_edit_header api False True args
      else if name = ''req.remove_header'' then call_edit_header api False False args
      else if name = ''resp.set_header'' then call_edit_header api True True args
      else if name = ''resp.remove_header'' then call_edit_header api True False args
      else if name = ''resp.status'' then bindM response_phase (\<lambda>_. gets (\<lambda>h. of_nat (ho_status h)))
      else if name = ''route.pass'' then decide Pass
      else if name = ''route.proxy'' then call_proxy args
      else if name = ''resp.reply'' then call_reply args
      else if name = ''str.eq'' then call_eq args
      else if name = ''str.concat'' then call_concat args
      else if name = ''str.starts_with'' then call_test starts_with args
      else if name = ''str.contains'' then call_test contains_str args
      else if name = ''str.len'' then bindM (str_arg args 0) (\<lambda>s. returnM (of_nat (length s)))
      else if name = ''str.lower'' then bindM (str_arg args 0) (\<lambda>s. put (to_ascii_lowercase s))
      else liftM (Inl (UnknownCall name)))"

definition host_call :: "api \<Rightarrow> string \<Rightarrow> 64 word list \<Rightarrow> 64 word hostM" where
  "host_call api name args =
     bindM (spend 100 HostFuel) (\<lambda>_.
     if name = ''constant'' then call_constant args
     else if name = ''literal'' then call_literal args
     else
       bindM (parse_cost name args) (\<lambda>_.
       bindM (body_cost name args) (\<lambda>_.
       host_dispatch api name args)))"

section \<open>Executions\<close>

datatype guest =
    Return "64 word"
  | Trap
  | Burn nat guest
  | Store "string option" guest
  | HostCall string "64 word list" "64 word \<Rightarrow> guest"

primrec run_guest :: "api \<Rightarrow> guest \<Rightarrow> 64 word hostM" where
  "run_guest api (Return v) = returnM v"
| "run_guest api Trap = liftM (Inl GuestTrap)"
| "run_guest api (Burn n g) = bindM (spend n FuelExhausted) (\<lambda>_. run_guest api g)"
| "run_guest api (Store m g) = (\<lambda>c. run_guest api g (c\<lparr>ca_memory := m\<rparr>))"
| "run_guest api (HostCall name args k) =
     (\<lambda>c. bindR (host_call api name args c) (\<lambda>(v, c'). run_guest api (k v) c'))"

record compiled_script =
  cs_constants :: string
  cs_requires_memory :: bool
  cs_memory :: "string option"
  cs_start :: guest
  cs_on_request :: guest
  cs_on_response :: "guest option"

definition initial_bytes :: "request_data \<Rightarrow> nat" where
  "initial_bytes r =
     length (rd_method r) + length (rd_path r) + length (rd_query r) + length (rd_host r)
     + length (rd_remote_addr r)
     + (case rd_body r of None \<Rightarrow> 0 | Some b \<Rightarrow> length (bv_bytes b))
     + sum_list (map (\<lambda>(k, v). length k + length v + 64) (rd_claims r))
     + rd_header_bytes r"

definition instantiate :: "api \<Rightarrow> compiled_script \<Rightarrow> request_data \<Rightarrow> (host_error, caller) result" where
  "instantiate api script r =
     bindR (ensure (initial_bytes r \<le> HOST_LIMIT) MetadataTooLarge) (\<lambda>_.
     let h = \<lparr>ho_constants = cs_constants script, ho_request = r, ho_outcome = default_outcome,
               ho_decision_set = False, ho_response = False, ho_status = 0, ho_response_headers = [],
               ho_response_edits = [], ho_strings = [], ho_allocated = initial_bytes r\<rparr>;
         c = \<lparr>ca_fuel = FUEL, ca_memory = cs_memory script, ca_host = h\<rparr>
     in bindR (run_guest api (cs_start script) c) (\<lambda>(_, c').
        bindR (ensure (\<not> cs_requires_memory script \<or> ca_memory c' \<noteq> None) MissingExportedMemory) (\<lambda>_.
        Inr (c'\<lparr>ca_host := (ca_host c')\<lparr>ho_outcome := default_outcome, ho_decision_set := False\<rparr>\<rparr>))))"

definition request :: "api \<Rightarrow> compiled_script \<Rightarrow> request_data \<Rightarrow> (host_error, caller \<times> request_outcome) result" where
  "request api script r =
     bindR (instantiate api script r) (\<lambda>c.
     bindR (run_guest api (cs_on_request script) (c\<lparr>ca_fuel := FUEL\<rparr>)) (\<lambda>(action, c').
     bindR (ensure (0 \<le> sint action \<and> sint action \<le> 2) InvalidAction) (\<lambda>_.
     let outcome = ho_outcome (ca_host c') in
     bindR (ensure (action = action_of (oc_decision outcome)) ActionMismatch) (\<lambda>_.
     Inr (c', outcome)))))"

definition response ::
  "api \<Rightarrow> compiled_script \<Rightarrow> nat \<Rightarrow> (string, string) btree \<Rightarrow> caller
     \<Rightarrow> (host_error, (string, string option) btree \<times> caller) result" where
  "response api script status headers c =
     (case cs_on_response script of
        None \<Rightarrow> Inr ([], c)
      | Some g \<Rightarrow>
          bindR (charge (sum_list (map (\<lambda>(k, v). length k + length v + 64) headers)) c) (\<lambda>(_, c1).
          let h = (ca_host c1)\<lparr>ho_response := True, ho_status := status, ho_response_headers := headers,
                    ho_response_edits := []\<rparr>
          in bindR (run_guest api g (c1\<lparr>ca_host := h, ca_fuel := FUEL\<rparr>)) (\<lambda>(_, c2).
             Inr (ho_response_edits (ca_host c2),
                  c2\<lparr>ca_host := (ca_host c2)\<lparr>ho_response_edits := []\<rparr>\<rparr>))))"

section \<open>The host as a state machine\<close>

text \<open>
  What a guest can do to its host, step by step and with the guard of each step: burn fuel, write its memory, charge
  allocation, intern a string, edit the request or the response, decide once.
\<close>

definition on_host :: "(host \<Rightarrow> host) \<Rightarrow> caller \<Rightarrow> caller" where
  "on_host f c = c\<lparr>ca_host := f (ca_host c)\<rparr>"

definition editable_header :: "api \<Rightarrow> string \<Rightarrow> string option \<Rightarrow> bool" where
  "editable_header api key v \<longleftrightarrow>
     header_name_ok api key \<and> to_ascii_lowercase key = key \<and> key \<notin> set transport_headers
     \<and> is_none_or v (\<lambda>s. length s \<le> 8192 \<and> header_value_ok api s)"

fun decision_ok :: "decision \<Rightarrow> bool" where
  "decision_ok Pass = True"
| "decision_ok (Proxy_to b) = (length b \<le> 512)"
| "decision_ok (Reply s b) = (200 \<le> s \<and> s \<le> 599 \<and> length b \<le> 65536)"

inductive host_step :: "api \<Rightarrow> caller \<Rightarrow> caller \<Rightarrow> bool" for api where
  step_fuel: "n \<le> ca_fuel c \<Longrightarrow> host_step api c (c\<lparr>ca_fuel := ca_fuel c - n\<rparr>)"
| step_memory: "host_step api c (c\<lparr>ca_memory := m\<rparr>)"
| step_charge:
    "ho_allocated (ca_host c) + n \<le> HOST_LIMIT
     \<Longrightarrow> host_step api c (on_host (\<lambda>h. h\<lparr>ho_allocated := ho_allocated h + n\<rparr>) c)"
| step_put:
    "ho_allocated (ca_host c) + length s + 32 \<le> HOST_LIMIT
     \<Longrightarrow> host_step api c (on_host (\<lambda>h. h\<lparr>ho_allocated := ho_allocated h + length s + 32,
           ho_strings := ho_strings h @ [s]\<rparr>) c)"
| step_path:
    "\<not> ho_response (ca_host c) \<Longrightarrow> uri_chars_ok v \<Longrightarrow> absolute_path v
     \<Longrightarrow> host_step api c (on_host (set_edits (\<lambda>e. e\<lparr>ed_path := Some v\<rparr>)) c)"
| step_query:
    "\<not> ho_response (ca_host c) \<Longrightarrow> uri_chars_ok v
     \<Longrightarrow> host_step api c (on_host (set_edits (\<lambda>e. e\<lparr>ed_query := Some v\<rparr>)) c)"
| step_header:
    "\<not> ho_response (ca_host c) \<Longrightarrow> editable_header api key v
     \<Longrightarrow> host_step api c (on_host (set_edits (\<lambda>e. e\<lparr>ed_headers := bt_insert key v (ed_headers e)\<rparr>)) c)"
| step_response_header:
    "ho_response (ca_host c) \<Longrightarrow> editable_header api key v
     \<Longrightarrow> host_step api c (on_host (\<lambda>h. h\<lparr>ho_response_edits := bt_insert key v (ho_response_edits h)\<rparr>) c)"
| step_decide:
    "\<not> ho_response (ca_host c) \<Longrightarrow> \<not> ho_decision_set (ca_host c) \<Longrightarrow> decision_ok d
     \<Longrightarrow> host_step api c (on_host (\<lambda>h. h\<lparr>ho_outcome := (ho_outcome h)\<lparr>oc_decision := d\<rparr>,
           ho_decision_set := True\<rparr>) c)"

abbreviation host_steps :: "api \<Rightarrow> caller \<Rightarrow> caller \<Rightarrow> bool" where
  "host_steps api \<equiv> (host_step api)\<^sup>*\<^sup>*"

lemma to_ascii_lowercase_idem [simp]: "to_ascii_lowercase (to_ascii_lowercase s) = to_ascii_lowercase s"
proof (rule to_ascii_lowercase_id)
  have "\<not> is_ascii_uppercase (to_ascii_lowercase_char c)" for c
    by (cases "is_ascii_uppercase c")
      (auto simp: to_ascii_lowercase_char_def is_ascii_uppercase_def less_eq_char_def)
  then show "\<forall>c\<in>set (to_ascii_lowercase s). \<not> is_ascii_uppercase c"
    by (auto simp: to_ascii_lowercase_def)
qed

lemma host_step_keeps:
  "host_step api c c' \<Longrightarrow>
     ho_response (ca_host c') = ho_response (ca_host c) \<and> ho_constants (ca_host c') = ho_constants (ca_host c)
     \<and> ho_request (ca_host c') = ho_request (ca_host c) \<and> ca_fuel c' \<le> ca_fuel c"
  by (induction rule: host_step.induct) (auto simp: on_host_def set_edits_def)

lemma host_steps_keep:
  "host_steps api c c' \<Longrightarrow>
     ho_response (ca_host c') = ho_response (ca_host c) \<and> ho_constants (ca_host c') = ho_constants (ca_host c)
     \<and> ho_request (ca_host c') = ho_request (ca_host c) \<and> ca_fuel c' \<le> ca_fuel c"
  by (induction rule: rtranclp_induct) (fastforce dest: host_step_keeps)+

section \<open>Host calls refine the machine\<close>

text \<open>
  \<open>refines api p m\<close>: in a phase that satisfies \<open>p\<close>, whatever the operation \<open>m\<close> does to the caller when it
  succeeds is a sequence of machine steps.
\<close>

definition refines :: "api \<Rightarrow> (bool \<Rightarrow> bool) \<Rightarrow> 'a hostM \<Rightarrow> bool" where
  "refines api p m \<longleftrightarrow> (\<forall>c x c'. p (ho_response (ca_host c)) \<longrightarrow> m c = Inr (x, c') \<longrightarrow> host_steps api c c')"

lemma refinesD: "refines api p m \<Longrightarrow> p (ho_response (ca_host c)) \<Longrightarrow> m c = Inr (x, c') \<Longrightarrow> host_steps api c c'"
  by (auto simp: refines_def)

named_theorems host_refines

lemma refines_returnM [host_refines]: "refines api p (returnM x)"
  by (simp add: refines_def returnM_def)

lemma refines_liftM [host_refines]: "refines api p (liftM r)" "refines api p (\<lambda>c. liftM (g c) c)"
  by (auto simp: refines_def liftM_def result_simps)

lemma refines_ensureM [host_refines]: "refines api p (ensureM b e)"
  by (simp add: ensureM_def refines_liftM)

lemma refines_gets [host_refines]: "refines api p (gets f)"
  by (simp add: refines_def gets_def)

lemma refines_bind_returning:
  assumes m: "refines api p m" and V: "\<And>c x c'. m c = Inr (x, c') \<Longrightarrow> V x"
    and f: "\<And>x. V x \<Longrightarrow> refines api p (f x)"
  shows "refines api p (bindM m f)"
  unfolding refines_def
proof (intro allI impI)
  fix c y c'
  assume p: "p (ho_response (ca_host c))" and "bindM m f c = Inr (y, c')"
  then obtain x c1 where run: "m c = Inr (x, c1)" "f x c1 = Inr (y, c')"
    by (auto simp: bindM_def result_simps)
  have first: "host_steps api c c1" using m p run(1) by (rule refinesD)
  with p have "p (ho_response (ca_host c1))" by (simp add: host_steps_keep)
  with f [OF V [OF run(1)]] run(2) have "host_steps api c1 c'" by (blast dest: refinesD)
  with first show "host_steps api c c'" by (rule rtranclp_trans)
qed

lemma refines_bindM [host_refines]:
  "refines api p m \<Longrightarrow> (\<And>x. refines api p (f x)) \<Longrightarrow> refines api p (bindM m f)"
  by (rule refines_bind_returning [where V = "\<lambda>_. True"]) simp_all

lemma refines_bind_ensureM:
  "(b \<Longrightarrow> refines api p (f ())) \<Longrightarrow> refines api p (bindM (ensureM b e) f)"
  by (auto simp: refines_def bindM_def ensureM_def liftM_def result_simps)

lemma refines_bind_request_phase:
  "refines api (\<lambda>r. \<not> r) (f ()) \<Longrightarrow> refines api p (bindM request_phase f)"
  by (auto simp: refines_def bindM_def request_phase_def gets_def ensureM_def liftM_def result_simps)

lemma refines_bind_response_phase:
  "refines api (\<lambda>r. r) (f ()) \<Longrightarrow> refines api p (bindM response_phase f)"
  by (auto simp: refines_def bindM_def response_phase_def gets_def ensureM_def liftM_def result_simps)

lemma refines_spend [host_refines]: "refines api p (spend n e)"
  by (auto simp: refines_def spend_def intro: host_step.step_fuel r_into_rtranclp)

lemma charge_Inr_iff:
  "charge n c = Inr (u, c') \<longleftrightarrow>
     ho_allocated (ca_host c) + n \<le> HOST_LIMIT
     \<and> c' = on_host (\<lambda>h. h\<lparr>ho_allocated := ho_allocated h + n\<rparr>) c"
  by (auto simp: charge_def checked_add_def on_host_def HOST_LIMIT_def usize_max_def)

lemma refines_charge [host_refines]: "refines api p (charge n)"
  by (auto simp: refines_def charge_Inr_iff intro: host_step.step_charge r_into_rtranclp)

lemma refines_arg [host_refines]: "refines api p (arg args i)"
  by (simp add: arg_def refines_liftM)

lemma refines_str_arg [host_refines]: "refines api p (str_arg args i)"
  unfolding str_arg_def by (intro host_refines)

lemma put_Inr_iff:
  "put s c = Inr (v, c') \<longleftrightarrow>
     ho_allocated (ca_host c) + length s + 32 \<le> HOST_LIMIT
     \<and> c' = on_host (\<lambda>h. h\<lparr>ho_allocated := ho_allocated h + length s + 32, ho_strings := ho_strings h @ [s]\<rparr>) c
     \<and> v = of_nat (length (ho_strings (ca_host c)) + 1)"
  by (auto simp: put_def bindM_def result_simps charge_Inr_iff modify_def gets_def on_host_def algebra_simps)

lemma refines_put [host_refines]: "refines api p (put s)"
  by (auto simp: refines_def put_Inr_iff intro: host_step.step_put r_into_rtranclp)

lemma refines_option [host_refines]:
  "(x = None \<Longrightarrow> refines api p m) \<Longrightarrow> (\<And>a. x = Some a \<Longrightarrow> refines api p (f a))
     \<Longrightarrow> refines api p (case x of None \<Rightarrow> m | Some a \<Rightarrow> f a)"
  by (cases x) auto

lemma refines_if [host_refines]:
  "(b \<Longrightarrow> refines api p m) \<Longrightarrow> (\<not> b \<Longrightarrow> refines api p m') \<Longrightarrow> refines api p (if b then m else m')"
  by simp

lemma refines_put_opt [host_refines]: "refines api p (put_opt v)"
  unfolding put_opt_def by (intro host_refines)

lemma refines_phases [host_refines]: "refines api p request_phase" "refines api p response_phase"
  unfolding request_phase_def response_phase_def by (intro host_refines)+

text \<open>The calls that only read the host, spend fuel or intern strings.\<close>

lemmas host_read_defs = call_constant_def call_literal_def parse_cost_def body_cost_def call_body_def
  call_body_contains_def call_json_def Let_def call_arg_def call_cookie_def call_hash_def call_claim_def
  call_req_header_def call_resp_header_def call_eq_def call_concat_def call_test_def

lemma refines_reads [host_refines]:
  "refines api p (call_constant args)" "refines api p (call_literal args)" "refines api p (parse_cost name args)"
  "refines api p (body_cost name args)" "refines api p call_body" "refines api p (call_body_contains api args)"
  "refines api p (call_json api name args)" "refines api p (call_arg api args)" "refines api p (call_cookie args)"
  "refines api p (call_hash api args)" "refines api p (call_claim args)" "refines api p (call_req_header args)"
  "refines api p (call_resp_header args)" "refines api p (call_eq args)" "refines api p (call_concat args)"
  "refines api p (call_test q args)"
  unfolding host_read_defs by (intro host_refines)+

text \<open>The calls that edit, with the guards their steps need.\<close>

lemma refines_decide: "decision_ok d \<Longrightarrow> refines api p (decide d)"
  unfolding decide_def
  by (auto simp: refines_def bindM_def request_phase_def gets_def ensureM_def liftM_def modify_def returnM_def
      result_simps intro!: r_into_rtranclp host_step.step_decide [unfolded on_host_def])

lemma refines_modify:
  "(\<And>c. p (ho_response (ca_host c)) \<Longrightarrow> host_step api c (on_host f c)) \<Longrightarrow> refines api p (modify f)"
  by (auto simp: refines_def modify_def on_host_def)

lemma refines_set_uri [host_refines]: "refines api p (call_set_uri path args)"
  unfolding call_set_uri_def
  by (intro refines_bind_request_phase refines_bind_ensureM refines_bindM [OF refines_str_arg]
      refines_bindM [OF refines_charge] refines_bindM [OF refines_modify] refines_returnM)
    (cases path; simp add: host_step.step_path host_step.step_query)

lemma refines_edit_header_guarded:
  "editable_header api key v \<Longrightarrow>
     refines api (if resp then (\<lambda>r. r) else (\<lambda>r. \<not> r))
       (modify (if resp then (\<lambda>h. h\<lparr>ho_response_edits := bt_insert key v (ho_response_edits h)\<rparr>)
                else set_edits (\<lambda>e. e\<lparr>ed_headers := bt_insert key v (ed_headers e)\<rparr>)))"
  by (rule refines_modify) (cases resp; simp add: host_step.step_header host_step.step_response_header)

lemma refines_edit_header [host_refines]: "refines api p (call_edit_header api resp setting args)"
proof -
  let ?p = "if resp then (\<lambda>r. r) else (\<lambda>r. \<not> r)"
  let ?edit = "if setting then
              bindM (str_arg args 1) (\<lambda>v.
              bindM (ensureM (length v \<le> 8192) HeaderValueTooLong) (\<lambda>_.
              bindM (ensureM (header_value_ok api v) InvalidHeaderValue) (\<lambda>_.
              returnM (Some v))))
            else returnM None"
  have phase: "refines api p (bindM (if resp then response_phase else request_phase) f)"
    if "refines api ?p (f ())" for f :: "unit \<Rightarrow> 64 word hostM"
    using that by (cases resp) (auto intro: refines_bind_request_phase refines_bind_response_phase)
  have value_refines: "refines api ?p ?edit" by (intro host_refines)
  have value_ok: "is_none_or v (\<lambda>s. length s \<le> 8192 \<and> header_value_ok api s)" if "?edit c = Inr (v, c')" for c v c'
    using that
    by (auto simp: bindM_def ensureM_def liftM_def returnM_def result_simps split: if_splits)
  show ?thesis
    unfolding call_edit_header_def Let_def
    by (intro phase refines_bindM [OF refines_str_arg] refines_bind_ensureM
        refines_bind_returning [OF value_refines value_ok] refines_bindM [OF refines_charge]
        refines_bindM [OF refines_edit_header_guarded] refines_returnM)
      (simp_all add: editable_header_def)
qed

lemma refines_proxy [host_refines]: "refines api p (call_proxy args)"
  unfolding call_proxy_def
  by (intro refines_bind_request_phase refines_bindM [OF refines_str_arg] refines_bind_ensureM
      refines_bindM [OF refines_charge] refines_decide) simp

lemma refines_reply [host_refines]: "refines api p (call_reply args)"
  unfolding call_reply_def
  by (intro refines_bind_request_phase refines_bindM [OF refines_str_arg] refines_bind_ensureM
      refines_bindM [OF refines_charge] refines_bindM [OF refines_arg] refines_bindM [OF refines_liftM(1)]
      refines_decide) simp

lemma refines_dispatch: "refines api p (host_dispatch api name args)"
  unfolding host_dispatch_def by (intro host_refines refines_decide) simp

lemma refines_host_call [host_refines]: "refines api p (host_call api name args)"
  unfolding host_call_def by (intro host_refines refines_dispatch)

lemma refines_run_guest: "refines api p (run_guest api g)"
proof (induction g)
  case (HostCall name args k)
  have "run_guest api (HostCall name args k) = bindM (host_call api name args) (\<lambda>v. run_guest api (k v))"
    by (simp add: bindM_def)
  then show ?case using HostCall by (auto intro: host_refines)
next
  case (Store m g)
  have "host_steps api c c'" if "p (ho_response (ca_host c))" "run_guest api g (c\<lparr>ca_memory := m\<rparr>) = Inr (x, c')" for c x c'
    using refinesD [OF Store _ that(2)] that(1) host_step.step_memory [of api c m]
    by (auto intro: converse_rtranclp_into_rtranclp)
  then show ?case by (simp add: refines_def)
qed (auto intro: host_refines)

lemma run_guest_steps: "run_guest api g c = Inr (v, c') \<Longrightarrow> host_steps api c c'"
  by (rule refinesD [OF refines_run_guest [where p = "\<lambda>_. True"]]) auto

section \<open>Invariants of the machine\<close>

locale host_invariant =
  fixes api :: api and inv :: "caller \<Rightarrow> bool"
  assumes step: "inv c \<Longrightarrow> host_step api c c' \<Longrightarrow> inv c'"
begin

lemma steps: "host_steps api c c' \<Longrightarrow> inv c \<Longrightarrow> inv c'"
  by (induction rule: rtranclp_induct) (auto intro: step)

lemma call: "host_call api name args c = Inr (v, c') \<Longrightarrow> inv c \<Longrightarrow> inv c'"
  using steps refinesD [OF refines_host_call [where p = "\<lambda>_. True"]] by blast

lemma guest: "run_guest api g c = Inr (v, c') \<Longrightarrow> inv c \<Longrightarrow> inv c'"
  using steps run_guest_steps by blast

end

definition edits_ok :: "api \<Rightarrow> edits \<Rightarrow> bool" where
  "edits_ok api e \<longleftrightarrow>
     is_none_or (ed_path e) (\<lambda>p. uri_chars_ok p \<and> absolute_path p) \<and> is_none_or (ed_query e) uri_chars_ok
     \<and> list_all (\<lambda>(k, v). editable_header api k v) (ed_headers e)"

definition interned_bytes :: "host \<Rightarrow> nat" where
  "interned_bytes h = sum_list (map (\<lambda>s. length s + 32) (ho_strings h))"

definition host_safe :: "api \<Rightarrow> caller \<Rightarrow> bool" where
  "host_safe api c \<longleftrightarrow>
     (let h = ca_host c in
      initial_bytes (ho_request h) + interned_bytes h \<le> ho_allocated h \<and> ho_allocated h \<le> HOST_LIMIT
      \<and> edits_ok api (oc_edits (ho_outcome h)) \<and> decision_ok (oc_decision (ho_outcome h))
      \<and> (oc_decision (ho_outcome h) \<noteq> Pass \<longrightarrow> ho_decision_set h)
      \<and> list_all (\<lambda>(k, v). editable_header api k v) (ho_response_edits h))"

lemma list_all_bt_insert: "list_all P m \<Longrightarrow> P (k, v) \<Longrightarrow> list_all P (bt_insert k v m)"
  by (induction m) auto

interpretation safe_host: host_invariant api "host_safe api" for api
proof
  fix c c'
  assume "host_safe api c" and "host_step api c c'"
  from this(2,1) show "host_safe api c'"
    by (cases rule: host_step.cases)
      (auto simp: host_safe_def Let_def on_host_def set_edits_def edits_ok_def interned_bytes_def
        intro: list_all_bt_insert)
qed

interpretation decided: host_invariant api
  "\<lambda>c. ho_decision_set (ca_host c) \<and> oc_decision (ho_outcome (ca_host c)) = d" for api d
proof
  fix c c'
  assume "ho_decision_set (ca_host c) \<and> oc_decision (ho_outcome (ca_host c)) = d" and "host_step api c c'"
  from this(2,1) show "ho_decision_set (ca_host c') \<and> oc_decision (ho_outcome (ca_host c')) = d"
    by (cases rule: host_step.cases) (auto simp: on_host_def set_edits_def)
qed

interpretation answered: host_invariant api
  "\<lambda>c. ho_response (ca_host c) \<and> ho_outcome (ca_host c) = o'" for api o'
proof
  fix c c'
  assume "ho_response (ca_host c) \<and> ho_outcome (ca_host c) = o'" and "host_step api c c'"
  from this(2,1) show "ho_response (ca_host c') \<and> ho_outcome (ca_host c') = o'"
    by (cases rule: host_step.cases) (auto simp: on_host_def)
qed

lemma slice_get_append_Some: "slice_get xs i = Some x \<Longrightarrow> slice_get (xs @ ys) i = Some x"
  by (simp add: slice_get_Some_iff nth_append)

lemma host_string_grow:
  "host_string h w = Inr s \<Longrightarrow> ho_constants h' = ho_constants h \<Longrightarrow> ho_strings h' = ho_strings h @ ss
     \<Longrightarrow> host_string h' w = Inr s"
  by (auto simp: host_string_def result_simps slice_get_append_Some split: if_splits)

interpretation handles: host_invariant api "\<lambda>c. host_string (ca_host c) w = Inr s" for api w s
proof
  fix c c'
  assume "host_string (ca_host c) w = Inr s" and "host_step api c c'"
  from this(2,1) show "host_string (ca_host c') w = Inr s"
    by (cases rule: host_step.cases) (auto simp: on_host_def set_edits_def elim!: host_string_grow)
qed

section \<open>Handles at word level\<close>

lemma bit_word_of_small:
  assumes "m < 2 ^ k" and "k \<le> 64"
  shows "bit (word_of_nat m :: 64 word) n \<longleftrightarrow> n < k \<and> bit m n"
proof -
  have "take_bit k m = m" using assms(1) by (simp add: take_bit_nat_eq_self_iff)
  then have "bit m n \<longleftrightarrow> n < k \<and> bit m n" by (metis bit_take_bit_iff)
  then show ?thesis using assms(2) by (auto simp: bit_simps)
qed

lemma bit_constant_handle:
  assumes "offset < 2 ^ 31" and "len < 2 ^ 32" and "n < 64"
  shows "bit (constant_handle offset len) n \<longleftrightarrow>
    n = 63 \<or> (32 \<le> n \<and> n < 63 \<and> bit offset (n - 32)) \<or> (n < 32 \<and> bit len n)"
  unfolding constant_handle_def bit_or_iff bit_push_bit_iff bit_1_iff
    bit_word_of_small [OF assms(1), simplified] bit_word_of_small [OF assms(2), simplified]
  using assms(3) by (auto simp: possible_bit_word)

lemma constant_handle_parts:
  assumes "offset < 2 ^ 31" and "len < 2 ^ 32"
  shows "and (drop_bit 32 (constant_handle offset len)) 0x7fffffff = of_nat offset"
    and "and (constant_handle offset len) 0xffffffff = of_nat len"
    and "sint (constant_handle offset len) < 0"
proof -
  note bits = bit_constant_handle [OF assms]
    bit_word_of_small [OF assms(1), simplified] bit_word_of_small [OF assms(2), simplified]
  have m: "(0x7fffffff :: 64 word) = mask 31" "(0xffffffff :: 64 word) = mask 32"
    by (simp_all add: mask_eq_exp_minus_1)
  show "and (drop_bit 32 (constant_handle offset len)) 0x7fffffff = of_nat offset"
    unfolding m
    by (rule bit_word_eqI) (auto simp: bit_and_iff bit_drop_bit_eq bit_mask_iff bits)
  show "and (constant_handle offset len) 0xffffffff = of_nat len"
    unfolding m by (rule bit_word_eqI) (auto simp: bit_and_iff bit_mask_iff bits)
  show "sint (constant_handle offset len) < 0"
    using bits(1) [of 63] bit_last_iff [of "constant_handle offset len"] by simp
qed

lemma host_string_constant:
  assumes "offset < 2 ^ 31" and "len \<le> 65536"
  shows "host_string h (constant_handle offset len) = ok_or (str_get (ho_constants h) offset (offset + len)) InvalidConstant"
proof -
  have len: "len < 2 ^ 32" using assms(2) by simp
  note parts = constant_handle_parts [OF assms(1) len]
  have "handle_offset (constant_handle offset len) = offset" "handle_length (constant_handle offset len) = len"
    using assms(1) len by (simp_all add: handle_offset_def handle_length_def parts unat_of_nat)
  moreover have "checked_add offset len = Some (offset + len)"
    using assms by (simp add: checked_add_def usize_max_def)
  moreover have "constant_handle offset len \<noteq> 0" using parts(3) by auto
  ultimately show ?thesis using parts(3) assms(2) by (simp add: host_string_def)
qed

lemma interned_count: "32 * length (ho_strings h) \<le> interned_bytes h"
proof -
  have "32 * length ss \<le> sum_list (map (\<lambda>s. length s + 32) ss)" for ss :: "string list"
    by (induction ss) auto
  then show ?thesis by (simp add: interned_bytes_def)
qed

lemma host_string_put:
  assumes "host_safe api c" and "put s c = Inr (w, c')"
  shows "host_string (ca_host c') w = Inr s" and "sint w = int (length (ho_strings (ca_host c)) + 1)"
proof -
  let ?n = "length (ho_strings (ca_host c))"
  have "32 * ?n \<le> HOST_LIMIT"
    using assms(1) interned_count [of "ca_host c"] by (auto simp: host_safe_def Let_def)
  then have small: "?n + 1 < 2 ^ 63" by (simp add: HOST_LIMIT_def)
  then have "sint (word_of_nat (?n + 1) :: 64 word) = int (?n + 1)"
    unfolding signed_of_nat of_int_eq_id id_apply by (intro signed_take_bit_int_eq_self) simp_all
  moreover have w: "w = of_nat (?n + 1)" and c': "ho_strings (ca_host c') = ho_strings (ca_host c) @ [s]"
    using assms(2) by (auto simp: put_Inr_iff on_host_def)
  ultimately show s: "sint w = int (?n + 1)" by simp
  then have "w \<noteq> 0" by auto
  with s show "host_string (ca_host c') w = Inr s"
    by (simp add: host_string_def c' slice_get_def nth_append)
qed

definition stuck_once_decided :: "api \<Rightarrow> 'a hostM \<Rightarrow> bool" where
  "stuck_once_decided api m \<longleftrightarrow> (\<forall>c :: caller. ho_decision_set (ca_host c) \<longrightarrow> (\<exists>e. m c = Inl e))"

lemma stuck_bindM:
  assumes "refines api (\<lambda>_. True) m" and "\<And>x. stuck_once_decided api (f x)"
  shows "stuck_once_decided api (bindM m f)"
  unfolding stuck_once_decided_def
proof (intro allI impI)
  fix c :: caller
  assume set: "ho_decision_set (ca_host c)"
  show "\<exists>e. bindM m f c = Inl e"
  proof (cases "m c")
    case (Inr r)
    obtain x c1 where r: "r = (x, c1)" by (cases r)
    with Inr assms(1) have "host_steps api c c1" by (auto dest: refinesD)
    then have "ho_decision_set (ca_host c1)" using set by (blast dest: decided.steps)
    with assms(2) [of x] Inr r show ?thesis by (auto simp: stuck_once_decided_def bindM_def)
  qed (simp add: bindM_def)
qed

lemma stuck_if:
  "(b \<Longrightarrow> stuck_once_decided api m) \<Longrightarrow> (\<not> b \<Longrightarrow> stuck_once_decided api m')
     \<Longrightarrow> stuck_once_decided api (if b then m else m')"
  by simp

lemma stuck_decide: "stuck_once_decided api (decide d)"
  by (auto simp: stuck_once_decided_def decide_def bindM_def request_phase_def gets_def ensureM_def liftM_def ensure_def)

lemma stuck_decisions:
  "stuck_once_decided api (decide d)" "stuck_once_decided api (call_proxy args)" "stuck_once_decided api (call_reply args)"
  unfolding call_proxy_def call_reply_def
  by (intro stuck_decide stuck_bindM [OF refines_phases(1)] stuck_bindM [OF refines_str_arg] stuck_bindM [OF refines_arg]
      stuck_bindM [OF refines_liftM(1)] stuck_bindM [OF refines_ensureM] stuck_bindM [OF refines_charge])+

section \<open>JSON pointer syntax\<close>

text \<open>The encoding of a key sequence by RFC 6901, and the member each key selects in turn.\<close>

fun encode_component :: "string \<Rightarrow> string" where
  "encode_component [] = []"
| "encode_component (c # s) =
     (if c = CHR ''~'' then ''~0'' else if c = CHR ''/'' then ''~1'' else [c]) @ encode_component s"

definition json_pointer :: "string list \<Rightarrow> string" where
  "json_pointer ks = concat (map (\<lambda>k. CHR ''/'' # encode_component k) ks)"

fun json_get :: "api \<Rightarrow> string list \<Rightarrow> string \<Rightarrow> string option" where
  "json_get api [] v = Some v"
| "json_get api (k # ks) v = Option.bind (json_child api v k) (json_get api ks)"

lemma decode_encode_component [simp]: "decode_component (encode_component k) = Some k"
  by (induction k) auto

lemma encode_component_no_slash: "CHR ''/'' \<notin> set (encode_component k)"
  by (induction k) auto

lemma json_pointer_split:
  "split_on CHR ''/'' (tl (json_pointer (k # ks))) = map encode_component (k # ks)"
proof (induction ks arbitrary: k)
  case Nil
  show ?case by (simp add: json_pointer_def split_on_not_in encode_component_no_slash)
next
  case (Cons l ks)
  from Cons [of l] show ?case
    by (simp add: json_pointer_def split_on_append_sep encode_component_no_slash)
qed

lemma json_walk_encoded:
  "n + length ks \<le> 32 \<Longrightarrow> json_walk api (map encode_component ks) n v = json_get api ks v"
proof (induction ks arbitrary: n v)
  case (Cons k ks)
  then show ?case by (cases "json_child api v k") auto
qed simp

lemma json_walk_deep: "n \<le> 32 \<Longrightarrow> 32 < n + length ps \<Longrightarrow> json_walk api ps n v = None"
proof (induction ps arbitrary: n v)
  case (Cons p ps)
  show ?case
  proof (cases "n = 32")
    case False
    with Cons have "json_walk api ps (n + 1) v' = None" for v' by simp
    then show ?thesis by (auto split: bind_splits)
  qed simp
qed simp

section \<open>Properties\<close>

primrec calls_made :: "api \<Rightarrow> guest \<Rightarrow> caller \<Rightarrow> nat" where
  "calls_made api (Return v) = (\<lambda>c. 0)"
| "calls_made api Trap = (\<lambda>c. 0)"
| "calls_made api (Burn n g) = (\<lambda>c. if n \<le> ca_fuel c then calls_made api g (c\<lparr>ca_fuel := ca_fuel c - n\<rparr>) else 0)"
| "calls_made api (Store m g) = (\<lambda>c. calls_made api g (c\<lparr>ca_memory := m\<rparr>))"
| "calls_made api (HostCall name args k) =
     (\<lambda>c. case host_call api name args c of Inl e \<Rightarrow> 0 | Inr (v, c') \<Rightarrow> Suc (calls_made api (k v) c'))"

lemma bind_spend_Inr_iff:
  "bindM (spend n e) f c = Inr y \<longleftrightarrow> n \<le> ca_fuel c \<and> f () (c\<lparr>ca_fuel := ca_fuel c - n\<rparr>) = Inr y"
  by (simp add: bindM_def spend_def)

lemma host_call_fuel: "host_call api name args c = Inr (v, c') \<Longrightarrow> ca_fuel c' + 100 \<le> ca_fuel c"
proof -
  assume run: "host_call api name args c = Inr (v, c')"
  let ?body = "if name = ''constant'' then call_constant args
     else if name = ''literal'' then call_literal args
     else bindM (parse_cost name args) (\<lambda>_. bindM (body_cost name args) (\<lambda>_. host_dispatch api name args))"
  from run have fuel: "100 \<le> ca_fuel c" and body: "?body (c\<lparr>ca_fuel := ca_fuel c - 100\<rparr>) = Inr (v, c')"
    by (simp_all add: host_call_def bind_spend_Inr_iff)
  have "refines api (\<lambda>_. True) ?body" by (intro host_refines refines_dispatch)
  then have "host_steps api (c\<lparr>ca_fuel := ca_fuel c - 100\<rparr>) c'" using body by (auto dest: refinesD)
  then have "ca_fuel c' \<le> ca_fuel c - 100" using host_steps_keep by fastforce
  with fuel show ?thesis by simp
qed

lemma instantiate_safe:
  assumes "instantiate api script r = Inr c"
  shows "host_safe api c" and "ho_request (ca_host c) = r"
    and "ho_outcome (ca_host c) = default_outcome \<and> \<not> ho_decision_set (ca_host c) \<and> \<not> ho_response (ca_host c)"
proof -
  define c0 where "c0 = \<lparr>ca_fuel = FUEL, ca_memory = cs_memory script,
    ca_host = \<lparr>ho_constants = cs_constants script, ho_request = r, ho_outcome = default_outcome,
               ho_decision_set = False, ho_response = False, ho_status = 0, ho_response_headers = [],
               ho_response_edits = [], ho_strings = [], ho_allocated = initial_bytes r\<rparr>\<rparr>"
  obtain v c1 where bytes: "initial_bytes r \<le> HOST_LIMIT" and run: "run_guest api (cs_start script) c0 = Inr (v, c1)"
    and c: "c = c1\<lparr>ca_host := (ca_host c1)\<lparr>ho_outcome := default_outcome, ho_decision_set := False\<rparr>\<rparr>"
    using assms by (auto simp: instantiate_def Let_def result_simps c0_def)
  have ok: "edits_ok api (oc_edits default_outcome)" "oc_decision default_outcome = Pass"
    by (simp_all add: default_outcome_def edits_ok_def)
  have "host_safe api c0" using bytes ok by (simp add: host_safe_def c0_def interned_bytes_def)
  then have "host_safe api c1" using safe_host.guest [OF run] by blast
  moreover have keep: "ho_request (ca_host c1) = r" "\<not> ho_response (ca_host c1)"
    using host_steps_keep [OF run_guest_steps [OF run]] by (simp_all add: c0_def)
  ultimately show "host_safe api c"
    using ok by (auto simp: c host_safe_def Let_def interned_bytes_def)
  show "ho_request (ca_host c) = r" "ho_outcome (ca_host c) = default_outcome \<and> \<not> ho_decision_set (ca_host c) \<and> \<not> ho_response (ca_host c)"
    using keep by (simp_all add: c)
qed

lemma host_safe_fuel [simp]: "host_safe api (c\<lparr>ca_fuel := n\<rparr>) = host_safe api c"
  by (simp add: host_safe_def)

text \<open>A concrete instance of the libraries, a script and a request.\<close>

definition sample_api :: api where
  "sample_api = \<lparr>
     header_name_ok = (\<lambda>n. n \<noteq> [] \<and> list_all (\<lambda>c. is_ascii_alphanumeric c \<or> c = CHR ''-'') n),
     header_value_ok = (\<lambda>v. CHR 0x0D \<notin> set v \<and> CHR 0x0A \<notin> set v),
     form_parse = (\<lambda>q. List.map_filter (split_once CHR ''='') (split_on CHR ''&'' q)),
     memmem_find = (\<lambda>h n. if contains_str h n then Some 0 else None),
     api_sha256 = (\<lambda>s. take 32 (s @ replicate 32 CHR 0x00)),
     js_raw = Some,
     js_object = (\<lambda>v. if v = ''{o}'' then Some [(''a/b'', ''1''), (''a/b'', ''[x]'')] else None),
     js_array = (\<lambda>v. if v = ''[x]'' then Some [''7'', ''8''] else None),
     js_i64 = (\<lambda>v. if list_all is_ascii_digit v then Some (of_nat (digits_value v)) else None),
     js_bool = (\<lambda>v. if v = ''true'' then Some True else if v = ''false'' then Some False else None),
     js_string = (\<lambda>v. None)\<rparr>"

definition sample_guest :: guest where
  "sample_guest =
     HostCall ''constant'' [0, 4] (\<lambda>path. HostCall ''req.set_path'' [path] (\<lambda>_.
     HostCall ''constant'' [4, 3] (\<lambda>name. HostCall ''req.set_header'' [name, path] (\<lambda>_.
     Burn 10 (HostCall ''route.proxy'' [name] Return)))))"

definition sample_script :: compiled_script where
  "sample_script = \<lparr>cs_constants = ''/apix-a'', cs_requires_memory = False, cs_memory = None,
     cs_start = Return 0, cs_on_request = sample_guest,
     cs_on_response = Some (HostCall ''constant'' [4, 3] (\<lambda>name. HostCall ''resp.remove_header'' [name] Return))\<rparr>"

definition sample_caller :: caller where
  "sample_caller = \<lparr>ca_fuel = 1000, ca_memory = None, ca_host =
     \<lparr>ho_constants = ''/apix-a'', ho_request = empty_request, ho_outcome = default_outcome,
      ho_decision_set = False, ho_response = False, ho_status = 0, ho_response_headers = [],
      ho_response_edits = [], ho_strings = [], ho_allocated = 0\<rparr>\<rparr>"

lemmas host_eval = bindM_def returnM_def liftM_def ensureM_def gets_def modify_def spend_def arg_def charge_def
  checked_add_def usize_max_def str_arg_def try_from_i64_def Let_def slice_get_def FUEL_def HOST_LIMIT_def
  host_call_def host_dispatch_def parse_cost_def body_cost_def json_calls_def call_constant_def host_string_constant
  str_get_def is_char_boundary_def is_cont_def call_set_uri_def request_phase_def response_phase_def uri_chars_ok_def
  absolute_path_def starts_with_def set_edits_def call_edit_header_def transport_headers_def
  to_ascii_lowercase_def to_ascii_lowercase_char_def is_ascii_uppercase_def is_ascii_lowercase_def
  is_ascii_alphanumeric_def is_ascii_alphabetic_def is_ascii_digit_def opt_len_def call_proxy_def decide_def
  current_path_def put_def

lemmas sample_defs = sample_guest_def sample_script_def sample_caller_def empty_request_def default_outcome_def
  initial_bytes_def

lemma sample_api_simps [simp]:
  "header_name_ok sample_api n \<longleftrightarrow> n \<noteq> [] \<and> list_all (\<lambda>c. is_ascii_alphanumeric c \<or> c = CHR ''-'') n"
  "header_value_ok sample_api v \<longleftrightarrow> CHR 0x0D \<notin> set v \<and> CHR 0x0A \<notin> set v"
  by (simp_all add: sample_api_def)

lemma str_arg_Inr_iff:
  "str_arg args i c = Inr (s, c') \<longleftrightarrow>
     c' = c \<and> (\<exists>w. slice_get args i = Some w \<and> host_string (ca_host c) w = Inr s)"
  by (auto simp: str_arg_def bindM_def arg_def liftM_def result_simps)

lemma request_header_edit_effect:
  assumes "call_edit_header api False setting args c = Inr (u, c')"
  obtains k name v where "slice_get args 0 = Some k" and "host_string (ca_host c) k = Inr name"
    and "header_edits (ca_host c') = bt_insert (to_ascii_lowercase name) v (header_edits (ca_host c))"
    and "if setting then \<exists>x value. slice_get args 1 = Some x \<and> host_string (ca_host c) x = Inr value \<and> v = Some value
         else v = None"
    and "ho_strings (ca_host c') = ho_strings (ca_host c)"
  using assms
  by (cases setting)
    (auto simp: call_edit_header_def bindM_def request_phase_def gets_def ensureM_def liftM_def modify_def returnM_def
        str_arg_Inr_iff charge_Inr_iff result_simps on_host_def set_edits_def Let_def)

lemma host_call_bodies:
  "host_call api name args c = Inr (v, c') \<Longrightarrow> name \<notin> {''constant'', ''literal'', ''str.hash'', ''req.arg'', ''req.cookie''}
     \<Longrightarrow> name \<notin> {''req.body'', ''req.body_contains''} \<union> set json_calls
     \<Longrightarrow> host_dispatch api name args (c\<lparr>ca_fuel := ca_fuel c - 100\<rparr>) = Inr (v, c')"
  by (simp add: host_call_def bind_spend_Inr_iff parse_cost_def body_cost_def json_calls_def)
    (simp add: returnM_def bindM_def)

text \<open>
  C22. Every host call that succeeds costs at least 100 units of fuel, and whatever it does to the
  host is a sequence of guarded steps of the host machine: no call can edit, intern or decide
  outside the guards.
\<close>

theorem host_call_refines:
  assumes "host_call api name args c = Inr (v, c')"
  shows "ca_fuel c' + 100 \<le> ca_fuel c \<and> (host_step api)\<^sup>*\<^sup>* c c'"
  using host_call_fuel [OF assms] refinesD [OF refines_host_call [where p = "\<lambda>_. True"] _ assms] by simp

theorem host_call_refines_witness:
  "\<exists>v c'. host_call sample_api ''route.pass'' [] sample_caller = Inr (v, c')
     \<and> oc_decision (ho_outcome (ca_host c')) = Pass \<and> ho_decision_set (ca_host c')
     \<and> ca_fuel c' + 100 \<le> ca_fuel sample_caller \<and> (host_step sample_api)\<^sup>*\<^sup>* sample_caller c'"
proof -
  obtain v c' where run: "host_call sample_api ''route.pass'' [] sample_caller = Inr (v, c')"
    and d: "oc_decision (ho_outcome (ca_host c')) = Pass" "ho_decision_set (ca_host c')"
    by (simp add: sample_defs host_eval)
  show ?thesis using run d host_call_refines [OF run] by blast
qed

text \<open>
  C23. A request hook that succeeds leaves a lawful outcome, whatever the guest did: a rewritten
  path is absolute and without a query, path and query are at most 8192 bytes without line breaks
  or fragments, every edited header has a valid lower-case name that is not a transport header
  and a valid value of at most 8192 bytes, the decision is within its limits, and the request
  metadata and the interned strings fit the 1 MiB host budget.
\<close>

theorem script_request_safe:
  assumes "request api script r = Inr (c, out)"
  shows "edits_ok api (oc_edits out) \<and> decision_ok (oc_decision out)
    \<and> (oc_decision out \<noteq> Pass \<longrightarrow> ho_decision_set (ca_host c))
    \<and> initial_bytes r + interned_bytes (ca_host c) \<le> HOST_LIMIT \<and> host_safe api c"
proof -
  obtain c0 v where inst: "instantiate api script r = Inr c0"
    and run: "run_guest api (cs_on_request script) (c0\<lparr>ca_fuel := FUEL\<rparr>) = Inr (v, c)"
    and out: "out = ho_outcome (ca_host c)"
    using assms by (auto simp: request_def result_simps Let_def)
  have "host_safe api c" using safe_host.guest [OF run] instantiate_safe(1) [OF inst] by simp
  moreover have "ho_request (ca_host c) = r"
    using host_steps_keep [OF run_guest_steps [OF run]] instantiate_safe(2) [OF inst] by simp
  ultimately show ?thesis unfolding out by (auto simp: host_safe_def Let_def)
qed

theorem script_request_safe_witness:
  "\<exists>c out. request sample_api sample_script empty_request = Inr (c, out)
     \<and> ed_path (oc_edits out) = Some ''/api'' \<and> oc_decision out = Proxy_to ''x-a''
     \<and> edits_ok sample_api (oc_edits out) \<and> host_safe sample_api c"
proof -
  obtain c out where run: "request sample_api sample_script empty_request = Inr (c, out)"
    and o: "ed_path (oc_edits out) = Some ''/api''" "oc_decision out = Proxy_to ''x-a''"
    by (simp add: sample_defs request_def instantiate_def host_eval)
  show ?thesis using run o script_request_safe [OF run] by blast
qed

text \<open>
  C24. A response hook can only edit response headers, lawfully: the request outcome it runs under
  stays as it was, and the host stays within its limits.
\<close>

theorem script_response_frozen:
  assumes "host_safe api c" and "response api script status headers c = Inr (es, c')"
  shows "list_all (\<lambda>(k, v). editable_header api k v) es \<and> ho_outcome (ca_host c') = ho_outcome (ca_host c)
    \<and> host_safe api c'"
proof (cases "cs_on_response script")
  case None
  with assms show ?thesis by (simp add: response_def)
next
  case (Some g)
  let ?n = "sum_list (map (\<lambda>(k, v). length k + length v + 64) headers)"
  obtain u c1 v c2 where charged: "charge ?n c = Inr (u, c1)"
    and run: "run_guest api g (c1\<lparr>ca_host := (ca_host c1)\<lparr>ho_response := True, ho_status := status,
      ho_response_headers := headers, ho_response_edits := []\<rparr>, ca_fuel := FUEL\<rparr>) = Inr (v, c2)"
    and res: "es = ho_response_edits (ca_host c2)" "c' = c2\<lparr>ca_host := (ca_host c2)\<lparr>ho_response_edits := []\<rparr>\<rparr>"
    using assms(2) Some by (auto simp: response_def result_simps Let_def)
  have "host_safe api c2"
    using assms(1) charged
    by (intro safe_host.guest [OF run]) (auto simp: charge_Inr_iff on_host_def host_safe_def Let_def interned_bytes_def)
  moreover have "ho_outcome (ca_host c2) = ho_outcome (ca_host c)"
    using charged answered.guest [OF run, of "ho_outcome (ca_host c)"] by (simp add: charge_Inr_iff on_host_def)
  ultimately show ?thesis unfolding res by (auto simp: host_safe_def Let_def interned_bytes_def)
qed

theorem script_response_frozen_witness:
  "\<exists>es c'. host_safe sample_api sample_caller
     \<and> response sample_api sample_script 200 [(''x-a'', ''1'')] sample_caller = Inr (es, c') \<and> es = [(''x-a'', None)]
     \<and> list_all (\<lambda>(k, v). editable_header sample_api k v) es \<and> ho_outcome (ca_host c') = default_outcome"
proof -
  have safe: "host_safe sample_api sample_caller"
    by (simp add: host_safe_def sample_defs interned_bytes_def edits_ok_def HOST_LIMIT_def)
  obtain es c' where run: "response sample_api sample_script 200 [(''x-a'', ''1'')] sample_caller = Inr (es, c')"
    and es: "es = [(''x-a'', None)]"
    by (simp add: sample_defs response_def host_eval)
  show ?thesis
    using safe run es script_response_frozen [OF safe run] by (simp add: sample_caller_def)
qed

text \<open>
  The fuel of an execution bounds its host calls: a guest that starts with fuel \<open>f\<close> completes at
  most \<open>f / 100\<close> of them, whether it returns, traps or runs out, so at most 1000 per hook.
\<close>

lemma script_calls_bounded:
  "100 * calls_made api g c \<le> ca_fuel c \<and> calls_made api g (c\<lparr>ca_fuel := FUEL\<rparr>) \<le> 1000"
proof -
  have bound: "100 * calls_made api g c \<le> ca_fuel c" for c
  proof (induction g arbitrary: c)
    case (Burn n g)
    then show ?case using Burn [of "c\<lparr>ca_fuel := ca_fuel c - n\<rparr>"] by auto
  next
    case (Store m g)
    then show ?case using Store [of "c\<lparr>ca_memory := m\<rparr>"] by simp
  next
    case (HostCall name args k)
    show ?case
    proof (cases "host_call api name args c")
      case (Inr r)
      obtain v c' where "r = (v, c')" by (cases r)
      with Inr HostCall [of "k v" c'] host_call_fuel [of api name args c v c'] show ?thesis by simp
    qed simp
  qed simp_all
  from bound [of "c\<lparr>ca_fuel := FUEL\<rparr>"] bound [of c] show ?thesis by (simp add: FUEL_def)
qed

text \<open>
  C26. A decision is final: once it is set, nothing the guest does later changes it, and every
  further call that would decide traps.
\<close>

theorem script_decision_final:
  assumes "ho_decision_set (ca_host c)" and "run_guest api g c = Inr (v, c')"
    and "name \<in> {''route.pass'', ''route.proxy'', ''resp.reply''}"
  shows "oc_decision (ho_outcome (ca_host c')) = oc_decision (ho_outcome (ca_host c))
    \<and> (\<exists>e. host_call api name args c' = Inl e)"
proof -
  have keep: "ho_decision_set (ca_host c')" "oc_decision (ho_outcome (ca_host c')) = oc_decision (ho_outcome (ca_host c))"
    using decided.guest [OF assms(2), of "oc_decision (ho_outcome (ca_host c))"] assms(1) by simp_all
  from assms(3) consider "name = ''route.pass''" | "name = ''route.proxy''" | "name = ''resp.reply''" by blast
  then have dispatch: "stuck_once_decided api (host_dispatch api name args)"
    by cases (simp_all add: host_dispatch_def json_calls_def stuck_decisions)
  have name: "name \<noteq> ''constant''" "name \<noteq> ''literal''" using assms(3) by auto
  have "stuck_once_decided api (host_call api name args)"
    unfolding host_call_def if_not_P [OF name(1)] if_not_P [OF name(2)]
    by (intro stuck_bindM [OF refines_spend] stuck_bindM [OF refines_reads(3)] stuck_bindM [OF refines_reads(4)] dispatch)
  with keep show ?thesis by (simp add: stuck_once_decided_def)
qed

theorem script_decision_final_witness:
  "\<exists>c v c' e. ho_decision_set (ca_host c) \<and> run_guest sample_api (Burn 5 (Return 0)) c = Inr (v, c')
     \<and> oc_decision (ho_outcome (ca_host c)) = Reply 403 ''no'' \<and> oc_decision (ho_outcome (ca_host c')) = Reply 403 ''no''
     \<and> host_call sample_api ''route.pass'' [] c' = Inl e"
proof -
  define c where "c = sample_caller\<lparr>ca_host := (ca_host sample_caller)\<lparr>ho_decision_set := True,
    ho_outcome := default_outcome\<lparr>oc_decision := Reply 403 ''no''\<rparr>\<rparr>\<rparr>"
  have c: "ho_decision_set (ca_host c)" "oc_decision (ho_outcome (ca_host c)) = Reply 403 ''no''"
    by (simp_all add: c_def)
  obtain v c' where run: "run_guest sample_api (Burn 5 (Return 0)) c = Inr (v, c')"
    by (simp add: c_def sample_caller_def host_eval)
  have name: "''route.pass'' \<in> {''route.pass'', ''route.proxy'', ''resp.reply''}" by simp
  note final = script_decision_final [OF c(1) run name, of "[]"]
  then obtain e where "host_call sample_api ''route.pass'' [] c' = Inl e" by blast
  moreover have "oc_decision (ho_outcome (ca_host c')) = Reply 403 ''no''" using final c(2) by simp
  ultimately show ?thesis using c run by blast
qed

text \<open>
  C27. String handles are sound: the handle of an interned string resolves to that string for the
  rest of the execution, and every handle that resolved before still resolves to the same string.
\<close>

theorem script_handles_stable:
  assumes "host_safe api c" and "put s c = Inr (w, c1)" and "run_guest api g c1 = Inr (v, c2)"
  shows "host_string (ca_host c2) w = Inr s
    \<and> (\<forall>w' s'. host_string (ca_host c) w' = Inr s' \<longrightarrow> host_string (ca_host c2) w' = Inr s' \<and> w' \<noteq> w)"
proof -
  have old: "host_string (ca_host c2) w' = Inr s'" if "host_string (ca_host c) w' = Inr s'" for w' s'
  proof (rule handles.guest [OF assms(3)])
    show "host_string (ca_host c1) w' = Inr s'"
      using assms(2) that by (auto simp: put_Inr_iff on_host_def elim!: host_string_grow)
  qed
  have "host_string (ca_host c) w \<noteq> Inr s'" for s'
    using host_string_put(2) [OF assms(1,2)] by (auto simp: host_string_def slice_get_def)
  with old handles.guest [OF assms(3) host_string_put(1) [OF assms(1,2)]] show ?thesis by blast
qed

theorem script_handles_stable_witness:
  "\<exists>w c1 v c2. host_safe sample_api sample_caller \<and> put ''one'' sample_caller = Inr (w, c1)
     \<and> run_guest sample_api (HostCall ''req.path'' [] Return) c1 = Inr (v, c2)
     \<and> host_string (ca_host c2) w = Inr ''one''"
proof -
  have safe: "host_safe sample_api sample_caller"
    by (simp add: host_safe_def sample_defs interned_bytes_def edits_ok_def HOST_LIMIT_def)
  obtain w c1 where stored: "put ''one'' sample_caller = Inr (w, c1)" and c1: "c1 = snd (projr (put ''one'' sample_caller))"
    by (simp add: sample_defs host_eval)
  obtain v c2 where run: "run_guest sample_api (HostCall ''req.path'' [] Return) c1 = Inr (v, c2)"
    unfolding c1 by (simp add: sample_defs host_eval)
  from script_handles_stable [OF safe stored run] safe stored run show ?thesis by blast
qed

text \<open>
  A constant handle packs its offset and length without loss: below the limits the compiler
  respects, it resolves to exactly that range of the constant pool, and different ranges have
  different handles, none of which is nil or an interned string's handle.
\<close>

lemma script_constant_handle:
  assumes "offset < 2 ^ 31" and "len \<le> 65536"
  shows "host_string h (constant_handle offset len) =
      (case str_get (ho_constants h) offset (offset + len) of None \<Rightarrow> Inl InvalidConstant | Some s \<Rightarrow> Inr s)
    \<and> sint (constant_handle offset len) < 0
    \<and> (\<forall>offset' len'. offset' < 2 ^ 31 \<longrightarrow> len' \<le> 65536 \<longrightarrow>
         constant_handle offset' len' = constant_handle offset len \<longrightarrow> offset' = offset \<and> len' = len)"
proof (intro conjI allI impI)
  have len: "len < 2 ^ 32" using assms(2) by simp
  show "host_string h (constant_handle offset len) =
      (case str_get (ho_constants h) offset (offset + len) of None \<Rightarrow> Inl InvalidConstant | Some s \<Rightarrow> Inr s)"
    unfolding host_string_constant [OF assms] by (simp split: option.split)
  show "sint (constant_handle offset len) < 0" by (rule constant_handle_parts(3) [OF assms(1) len])
  fix offset' len' :: nat
  assume *: "offset' < 2 ^ 31" "len' \<le> 65536" and eq: "constant_handle offset' len' = constant_handle offset len"
  have len': "len' < 2 ^ 32" using *(2) by simp
  from eq have "word_of_nat offset' = (word_of_nat offset :: 64 word)" "word_of_nat len' = (word_of_nat len :: 64 word)"
    using constant_handle_parts(1,2) [OF assms(1) len] constant_handle_parts(1,2) [OF *(1) len'] by simp_all
  then show "offset' = offset" "len' = len"
    using assms(1) *(1) len len' by (simp_all add: word_of_nat_eq_iff take_bit_nat_eq_self)
qed

text \<open>
  C29. JSON pointers select what they denote: the pointer that encodes a sequence of at most 32
  keys, in at most 1024 bytes, resolves to the value reached by taking those members one after the
  other, whatever characters the keys contain; a longer sequence never resolves.
\<close>

theorem json_pointer_resolves:
  assumes "length (json_pointer ks) \<le> 1024"
  shows "value_at api bytes (json_pointer ks) =
    (if length ks \<le> 32 then Option.bind (js_raw api bytes) (json_get api ks) else None)"
proof (cases ks)
  case Nil
  then show ?thesis by (cases "js_raw api bytes") (simp_all add: value_at_def json_pointer_def)
next
  case (Cons k ks')
  have "json_pointer ks \<noteq> []" "starts_with (json_pointer ks) ''/''"
    by (simp_all add: json_pointer_def Cons starts_with_def)
  with assms have "value_at api bytes (json_pointer ks) =
      Option.bind (js_raw api bytes) (json_walk api (map encode_component ks) 0)"
    by (simp add: value_at_def json_pointer_split [of k ks', folded Cons])
  then show ?thesis
    by (cases "js_raw api bytes") (simp_all add: json_walk_encoded json_walk_deep)
qed

theorem json_pointer_resolves_witness:
  "length (json_pointer [''a/b'', ''1'']) \<le> 1024 \<and> json_pointer [''a/b'', ''1''] = ''/a~1b/1''
     \<and> value_at sample_api ''{o}'' (json_pointer [''a/b'', ''1'']) = Some ''8''"
proof -
  have len: "length (json_pointer [''a/b'', ''1'']) \<le> 1024" by (simp add: json_pointer_def)
  have "json_get sample_api [''a/b'', ''1''] ''{o}'' = Some ''8''"
    by (simp add: json_child_def sample_api_def last_member_def starts_with_def is_ascii_digit_def
        digits_value_def usize_max_def slice_get_def)
  with json_pointer_resolves [OF len, of sample_api "''{o}''"] len show ?thesis
    by (simp add: json_pointer_def sample_api_def)
qed

text \<open>
  Header edits are visible to the script that made them: after a successful set (remove) of a
  request header, reading the same header, in whatever case, yields exactly the value that was set
  (nil), not the client's value.
\<close>

lemma script_header_edit_visible:
  assumes "host_safe api c" and "host_string (ca_host c) k = Inr name" and "host_string (ca_host c) x = Inr value"
    and "host_call api (if setting then ''req.set_header'' else ''req.remove_header'') [k, x] c = Inr (u, c1)"
    and "host_string (ca_host c) k' = Inr name'" and "to_ascii_lowercase name' = to_ascii_lowercase name"
    and "host_call api ''req.header'' [k'] c1 = Inr (w, c2)"
  shows "if setting then host_string (ca_host c2) w = Inr value else w = 0"
proof -
  let ?c = "c\<lparr>ca_fuel := ca_fuel c - 100\<rparr>" and ?c1 = "c1\<lparr>ca_fuel := ca_fuel c1 - 100\<rparr>"
  have "call_edit_header api False setting [k, x] ?c = Inr (u, c1)"
    using host_call_bodies [OF assms(4)] by (cases setting) (simp_all add: host_dispatch_def json_calls_def)
  then obtain v where edit: "header_edits (ca_host c1) = bt_insert (to_ascii_lowercase name) v (header_edits (ca_host c))"
    and v: "v = (if setting then Some value else None)"
    using assms(2,3) by (auto elim!: request_header_edit_effect split: if_splits)
  have safe: "host_safe api ?c1" using safe_host.call [OF assms(4,1)] by simp
  have k': "host_string (ca_host c1) k' = Inr name'" using handles.call [OF assms(4,5)] .
  have "call_req_header [k'] ?c1 = Inr (w, c2)"
    using host_call_bodies [OF assms(7)] by (simp add: host_dispatch_def json_calls_def)
  then have "put_opt v ?c1 = Inr (w, c2)"
    using assms(6) by (auto simp: call_req_header_def bindM_def gets_def result_simps str_arg_Inr_iff k' edit)
  then show ?thesis
    using host_string_put(1) [OF safe] by (simp add: v put_opt_def returnM_def split: if_splits)
qed

end
