(* ===== verification/Result_State.thy ===== *)
theory Result_State
  imports Rust_Prelude
begin

text \<open>
  Methods on \<open>&mut self\<close> that may fail: a state transformer with a result. An error ends the run, so it
  carries no state. \<open>wp\<close> is the weakest precondition of such a method, with a predicate for the errors
  it may end in and one for its results.
\<close>

type_synonym ('s, 'e, 'a) smethod = "'s \<Rightarrow> ('e, 'a \<times> 's) result"

definition returnS :: "'a \<Rightarrow> ('s, 'e, 'a) smethod" where
  "returnS x = (\<lambda>s. Inr (x, s))"

definition failS :: "'e \<Rightarrow> ('s, 'e, 'a) smethod" where
  "failS e = (\<lambda>s. Inl e)"

definition bindS :: "('s, 'e, 'a) smethod \<Rightarrow> ('a \<Rightarrow> ('s, 'e, 'b) smethod) \<Rightarrow> ('s, 'e, 'b) smethod" where
  "bindS m f = (\<lambda>s. bindR (m s) (\<lambda>(x, s'). f x s'))"

definition liftS :: "('e, 'a) result \<Rightarrow> ('s, 'e, 'a) smethod" where
  "liftS r = (\<lambda>s. bindR r (\<lambda>x. Inr (x, s)))"

definition ensureS :: "bool \<Rightarrow> 'e \<Rightarrow> ('s, 'e, unit) smethod" where
  "ensureS b e = (if b then returnS () else failS e)"

definition getS :: "('s \<Rightarrow> 'a) \<Rightarrow> ('s, 'e, 'a) smethod" where
  "getS f = (\<lambda>s. Inr (f s, s))"

definition modifyS :: "('s \<Rightarrow> 's) \<Rightarrow> ('s, 'e, unit) smethod" where
  "modifyS f = (\<lambda>s. Inr ((), f s))"

abbreviation thenS :: "('s, 'e, 'a) smethod \<Rightarrow> ('s, 'e, 'b) smethod \<Rightarrow> ('s, 'e, 'b) smethod" where
  "thenS m k \<equiv> bindS m (\<lambda>_. k)"

lemma bindR_cong [fundef_cong]:
  "r = r' \<Longrightarrow> (\<And>x. r' = Inr x \<Longrightarrow> f x = f' x) \<Longrightarrow> bindR r f = bindR r' f'"
  by (cases r') simp_all

lemma bindS_cong [fundef_cong]:
  "m s = m' s' \<Longrightarrow> (\<And>x t. m' s' = Inr (x, t) \<Longrightarrow> f x t = f' x t) \<Longrightarrow> bindS m f s = bindS m' f' s'"
  by (cases "m' s'") (auto simp: bindS_def)

definition wp :: "('e \<Rightarrow> bool) \<Rightarrow> ('s, 'e, 'a) smethod \<Rightarrow> ('a \<Rightarrow> 's \<Rightarrow> bool) \<Rightarrow> 's \<Rightarrow> bool" where
  "wp E m Q s = (case m s of Inl e \<Rightarrow> E e | Inr (x, s') \<Rightarrow> Q x s')"

lemma wp_return [simp]: "wp E (returnS x) Q s = Q x s"
  by (simp add: wp_def returnS_def)

lemma wp_fail [simp]: "wp E (failS e) Q s = E e"
  by (simp add: wp_def failS_def)

lemma wp_bind [simp]: "wp E (bindS m f) Q s = wp E m (\<lambda>x. wp E (f x) Q) s"
  by (simp add: wp_def bindS_def split: sum.split prod.split)

lemma wp_ensure [simp]: "wp E (ensureS b e) Q s = (if b then Q () s else E e)"
  by (simp add: ensureS_def)

lemma wp_get [simp]: "wp E (getS f) Q s = Q (f s) s"
  by (simp add: wp_def getS_def)

lemma wp_modify [simp]: "wp E (modifyS f) Q s = Q () (f s)"
  by (simp add: wp_def modifyS_def)

lemma wp_lift [simp]: "wp E (liftS r) Q s = (case r of Inl e \<Rightarrow> E e | Inr x \<Rightarrow> Q x s)"
  by (simp add: wp_def liftS_def split: sum.split)

lemma wp_if [simp]: "wp E (if b then m else m') Q s = (if b then wp E m Q s else wp E m' Q s)"
  by simp

lemma wp_consequence:
  "wp E m Q s \<Longrightarrow> (\<And>x t. Q x t \<Longrightarrow> R x t) \<Longrightarrow> wp E m R s"
  by (auto simp: wp_def split: sum.splits)

lemma wpD: "wp E m Q s \<Longrightarrow> m s = Inr (x, t) \<Longrightarrow> Q x t"
  by (simp add: wp_def)

lemma wp_errorD: "wp E m Q s \<Longrightarrow> m s = Inl e \<Longrightarrow> E e"
  by (simp add: wp_def)

lemma bindS_Inr_iff [result_simps]:
  "bindS m f s = Inr y \<longleftrightarrow> (\<exists>x t. m s = Inr (x, t) \<and> f x t = Inr y)"
  by (auto simp: bindS_def result_simps)

lemma bindS_assoc: "bindS (bindS m f) g = bindS m (\<lambda>x. bindS (f x) g)"
  by (auto simp: bindS_def fun_eq_iff intro!: arg_cong [of _ _ "bindR _"])

end
