(* ===== verification/Rgl_Syntax.thy ===== *)
theory Rgl_Syntax
  imports Result_State "HOL-Library.Code_Target_Nat"
begin

text \<open>
  The RGL front end, \<open>src/src/script/syntax.rs\<close>: the lexer and the parser of routing scripts.

  The lexer reads \<open>source.chars()\<close>, a character being the list of its UTF-8 bytes. The parser is a state
  of the tokens from the current position on, the nesting depth and the statement locations;
  reading past the last token is the panic it is in Rust. Its loops take fuel; \<open>parse_located\<close> gives
  eight units per token, and C32 shows that no source runs out of them.
\<close>

section \<open>Syntax trees\<close>

datatype expr =
    EInt "64 word"
  | EStr string
  | EBool bool
  | ENil
  | EVar string
  | ECall string "expr list"
  | EUnary string expr
  | EBinary string expr expr

fun expr_depth :: "expr \<Rightarrow> nat" where
  "expr_depth (EUnary op v) = 1 + expr_depth v"
| "expr_depth (EBinary op l r) = 1 + max (expr_depth l) (expr_depth r)"
| "expr_depth (ECall f es) = 1 + foldr max (map expr_depth es) 0"
| "expr_depth e = 1"

datatype stmt =
    SLocal string expr
  | SAssign string expr
  | SCall expr
  | SReturn "expr option"
  | SIf "(expr \<times> stmt list) list" "stmt list"
  | SWhile expr "stmt list"

record func =
  fn_name :: string
  fn_params :: "string list"
  fn_body :: "stmt list"

record token =
  tk_value :: string
  tk_string :: bool
  tk_line :: nat
  tk_col :: nat

record parsed =
  pd_functions :: "func list"
  pd_locations :: "(nat \<times> nat) list"

datatype rgl_error =
    SourceTooLong | TooManyTokens
  | StringSpansLines nat nat | IncompleteEscape nat nat | UnsupportedEscape nat nat
  | UnterminatedString nat nat | UnexpectedCharacter nat nat string
  | DuplicateFunction string | DuplicateParameter string | MissingEntry string
  | ExpectedToken nat nat string string | ExpectedIdentifier nat nat
  | BlockNesting | IfBranches | AssignTarget | CallStatement
  | ExprNesting | ExprTooDeep nat nat
  | OutOfRange | OutOfFuel

section \<open>Lexer\<close>

definition ascii_char :: "(char \<Rightarrow> bool) \<Rightarrow> string \<Rightarrow> bool" where
  "ascii_char p c = (case c of [x] \<Rightarrow> p x | _ \<Rightarrow> False)"

definition is_word :: "string \<Rightarrow> bool" where
  "is_word c = ascii_char (\<lambda>x. is_ascii_alphanumeric x \<or> x = CHR ''_'') c"

definition newline :: string where "newline = [CHR 0x0A]"

definition unescape :: "string \<Rightarrow> string option" where
  "unescape c =
     (if c = ''n'' then Some newline else if c = ''r'' then Some [CHR 0x0D] else if c = ''t'' then Some [CHR 0x09]
      else if c = [CHR 0x5C] \<or> c = [CHR 0x27] \<or> c = [CHR 0x22] then Some c else None)"

fun skip_comment :: "string list \<Rightarrow> nat \<Rightarrow> string list \<times> nat" where
  "skip_comment [] col = ([], col)"
| "skip_comment (c # cs) col = (if c = newline then (c # cs, col) else skip_comment cs (col + 1))"

text \<open>The rest of a string after its opening quote \<open>q\<close> at \<open>(l0, c0)\<close>: its value, the characters after it and the column.\<close>

fun lex_string ::
  "string \<Rightarrow> nat \<Rightarrow> nat \<Rightarrow> nat \<Rightarrow> string list \<Rightarrow> string \<Rightarrow> nat \<Rightarrow> (rgl_error, string \<times> string list \<times> nat) result" where
  "lex_string q l0 c0 line [] v col = Inl (UnterminatedString l0 c0)"
| "lex_string q l0 c0 line (c # cs) v col =
     (if c = q then Inr (v, cs, col + 1)
      else if c = newline then Inl (StringSpansLines l0 c0)
      else if c = [CHR 0x5C] then
        (case cs of
           [] \<Rightarrow> Inl (IncompleteEscape line (col + 1))
         | e # cs' \<Rightarrow>
             (case unescape e of
                None \<Rightarrow> Inl (UnsupportedEscape line (col + 2))
              | Some u \<Rightarrow> lex_string q l0 c0 line cs' (v @ u) (col + 2)))
      else lex_string q l0 c0 line cs (v @ c) (col + 1))"

fun lex_word :: "string list \<Rightarrow> string \<Rightarrow> nat \<Rightarrow> string \<times> string list \<times> nat" where
  "lex_word [] v col = (v, [], col)"
| "lex_word (c # cs) v col = (if is_word c then lex_word cs (v @ c) (col + 1) else (v, c # cs, col))"

definition operator_chars :: "string list" where
  "operator_chars = map (\<lambda>c. [c]) ''()+-*/%=~<>.,;''"

definition operator_pairs :: "string list" where
  "operator_pairs = [''=='', ''~='', ''<='', ''>='', ''..'']"

text \<open>A token that is not a string, from its first character \<open>c\<close>; \<open>col\<close> is the column after it.\<close>

definition lex_plain ::
  "nat \<Rightarrow> string \<Rightarrow> string list \<Rightarrow> nat \<Rightarrow> (rgl_error, string \<times> string list \<times> nat) result" where
  "lex_plain line c cs col =
     (let (v, cs', col') =
        (if is_word c then lex_word cs c col
         else (case cs of
                 [] \<Rightarrow> (c, [], col)
               | d # ds \<Rightarrow> if c @ d \<in> set operator_pairs then (c @ d, ds, col + 1) else (c, cs, col)))
      in bindR (ensure (is_word c \<or> c \<in> set operator_chars) (UnexpectedCharacter line col' c)) (\<lambda>_.
         Inr (v, cs', col')))"

definition eof_token :: "nat \<Rightarrow> nat \<Rightarrow> token" where
  "eof_token line col = \<lparr>tk_value = ''<eof>'', tk_string = False, tk_line = line, tk_col = col\<rparr>"

lemma skip_comment_length: "length (fst (skip_comment cs col)) \<le> length cs"
  by (induction cs col rule: skip_comment.induct) auto

lemma lex_string_length:
  "lex_string q l0 c0 line cs v col = Inr (v', cs', col') \<Longrightarrow> length cs' < length cs"
  by (induction q l0 c0 line cs v col rule: lex_string.induct)
    (auto split: if_splits list.splits option.splits intro: less_SucI)

lemma lex_word_length: "lex_word cs v col = (v', cs', col') \<Longrightarrow> length cs' \<le> length cs"
  by (induction cs v col rule: lex_word.induct) (auto split: if_splits)

lemma lex_plain_length: "lex_plain line c cs col = Inr (v', cs', col') \<Longrightarrow> length cs' \<le> length cs"
  by (auto simp: lex_plain_def result_simps dest: lex_word_length split: if_splits list.splits prod.splits)

lemma skip_comment_tl: "(cs', col') = skip_comment (tl cs) col \<Longrightarrow> length cs' < Suc (length cs)"
  using skip_comment_length [of "tl cs" col] by (metis fst_conv length_tl diff_le_self le_imp_less_Suc order_trans)

function lex_loop :: "string list \<Rightarrow> nat \<Rightarrow> nat \<Rightarrow> token list \<Rightarrow> (rgl_error, token list) result" where
  "lex_loop [] line col out = Inr (out @ [eof_token line col])"
| "lex_loop (c # cs) line col out =
     (if c = newline then lex_loop cs (line + 1) 1 out
      else if is_whitespace c then lex_loop cs line (col + 1) out
      else if c = ''-'' \<and> cs \<noteq> [] \<and> hd cs = ''-'' then
        (let (cs', col') = skip_comment (tl cs) (col + 2) in lex_loop cs' line col' out)
      else
        let quoted = (c = [CHR 0x27] \<or> c = [CHR 0x22]) in
        bindR (if quoted then lex_string c line col line cs [] (col + 1) else lex_plain line c cs (col + 1))
          (\<lambda>(v, cs', col').
        let out' = out @ [\<lparr>tk_value = v, tk_string = quoted, tk_line = line, tk_col = col\<rparr>] in
        bindR (ensure (length out' \<le> 65536) TooManyTokens) (\<lambda>_.
        lex_loop cs' line col' out')))"
  by pat_completeness auto

termination
  by (relation "measure (\<lambda>(cs, _). length cs)")
    (auto dest!: skip_comment_tl lex_string_length lex_plain_length split: if_splits)

definition lex :: "string \<Rightarrow> (rgl_error, token list) result" where
  "lex source = lex_loop (chars source) 1 1 []"

section \<open>Parser\<close>

record parser =
  ps_rest :: "token list"
  ps_depth :: nat
  ps_locs :: "(nat \<times> nat) list"

type_synonym 'a parserM = "(parser, rgl_error, 'a) smethod"

definition current :: "token parserM" where
  "current = (\<lambda>s. case ps_rest s of [] \<Rightarrow> Inl OutOfRange | t # _ \<Rightarrow> Inr (t, s))"

definition advance :: "unit parserM" where
  "advance = modifyS (\<lambda>s. s\<lparr>ps_rest := tl (ps_rest s)\<rparr>)"

definition is_plain :: "string \<Rightarrow> token \<Rightarrow> bool" where
  "is_plain v t \<longleftrightarrow> \<not> tk_string t \<and> tk_value t = v"

definition peek :: "string \<Rightarrow> bool parserM" where
  "peek v = bindS current (\<lambda>t. returnS (is_plain v t))"

definition eat :: "string \<Rightarrow> bool parserM" where
  "eat v = bindS (peek v) (\<lambda>b. if b then thenS advance (returnS True) else returnS False)"

definition expect :: "string \<Rightarrow> unit parserM" where
  "expect v = bindS (eat v) (\<lambda>b. if b then returnS ()
     else bindS current (\<lambda>t. failS (ExpectedToken (tk_line t) (tk_col t) v (tk_value t))))"

definition reserved_words :: "string list" where
  "reserved_words = [''if'', ''then'', ''else'', ''elseif'', ''end'', ''while'', ''do'', ''return'', ''function'',
     ''local'', ''true'', ''false'', ''nil'', ''and'', ''or'', ''not'']"

definition is_ident :: "token \<Rightarrow> bool" where
  "is_ident t \<longleftrightarrow> \<not> tk_string t
     \<and> (case tk_value t of [] \<Rightarrow> False | c # _ \<Rightarrow> is_ascii_alphabetic c \<or> c = CHR ''_'')
     \<and> tk_value t \<notin> set reserved_words"

definition ident :: "string parserM" where
  "ident =
     bindS current (\<lambda>t.
     thenS (ensureS (is_ident t) (ExpectedIdentifier (tk_line t) (tk_col t)))
     (thenS advance (returnS (tk_value t))))"

definition peek_any :: "string list \<Rightarrow> bool parserM" where
  "peek_any vs = bindS current (\<lambda>t. returnS (\<exists>v\<in>set vs. is_plain v t))"

definition precedence :: "string \<Rightarrow> nat" where
  "precedence op =
     (if op = ''or'' then 1 else if op = ''and'' then 2
      else if op \<in> {''=='', ''~='', ''<'', ''>'', ''<='', ''>=''} then 3
      else if op = ''..'' then 4 else if op \<in> {''+'', ''-''} then 5
      else if op \<in> {''*'', ''/'', ''%''} then 6 else 0)"

definition check_expr_depth :: "expr \<Rightarrow> unit parserM" where
  "check_expr_depth e =
     bindS current (\<lambda>t. ensureS (expr_depth e \<le> 128) (ExprTooDeep (tk_line t) (tk_col t)))"

definition enter :: "nat \<Rightarrow> rgl_error \<Rightarrow> unit parserM" where
  "enter limit e =
     thenS (modifyS (\<lambda>s. s\<lparr>ps_depth := ps_depth s + 1\<rparr>))
     (bindS (getS ps_depth) (\<lambda>d. ensureS (d \<le> limit) e))"

definition leave :: "unit parserM" where
  "leave = modifyS (\<lambda>s. s\<lparr>ps_depth := ps_depth s - 1\<rparr>)"

definition locate :: "unit parserM" where
  "locate = bindS current (\<lambda>t. modifyS (\<lambda>s. s\<lparr>ps_locs := ps_locs s @ [(tk_line t, tk_col t)]\<rparr>))"

text \<open>
  \<open>expr\<close> with its primary and its operator loop, \<open>args\<close> the argument loop of a call, \<open>branches\<close> the loop of
  an \<open>if\<close> that has \<open>k\<close> branches already, \<open>stmts\<close> the loop of a block.
\<close>

fun parse_expr :: "nat \<Rightarrow> nat \<Rightarrow> expr parserM"
  and parse_primary :: "nat \<Rightarrow> expr parserM"
  and parse_args :: "nat \<Rightarrow> expr list parserM"
  and parse_ops :: "nat \<Rightarrow> nat \<Rightarrow> expr \<Rightarrow> expr parserM" where
  "parse_expr 0 bp = failS OutOfFuel"
| "parse_expr (Suc n) bp =
     thenS (enter 128 ExprNesting)
     (bindS (parse_primary n) (\<lambda>left.
     thenS (check_expr_depth left)
     (bindS (parse_ops n bp left) (\<lambda>e.
     thenS leave (returnS e)))))"
| "parse_primary 0 = failS OutOfFuel"
| "parse_primary (Suc n) =
     bindS (eat ''not'') (\<lambda>b. if b then bindS (parse_expr n 7) (\<lambda>e. returnS (EUnary ''not'' e)) else
     bindS (eat ''-'') (\<lambda>b. if b then bindS (parse_expr n 7) (\<lambda>e. returnS (EUnary ''-'' e)) else
     bindS (eat ''('') (\<lambda>b. if b then bindS (parse_expr n 0) (\<lambda>e. thenS (expect '')'') (returnS e)) else
     bindS current (\<lambda>t.
     if tk_string t then thenS advance (returnS (EStr (tk_value t)))
     else case parse_i64 (tk_value t) of
       Some i \<Rightarrow> thenS advance (returnS (EInt i))
     | None \<Rightarrow>
         bindS (eat ''true'') (\<lambda>b. if b then returnS (EBool True) else
         bindS (eat ''false'') (\<lambda>b. if b then returnS (EBool False) else
         bindS (eat ''nil'') (\<lambda>b. if b then returnS ENil else
         bindS ident (\<lambda>x.
         bindS (eat ''.'') (\<lambda>dot.
         bindS (if dot then bindS ident (\<lambda>y. returnS (x @ ''.'' @ y)) else returnS x) (\<lambda>name.
         bindS (eat ''('') (\<lambda>call.
         if call then
           bindS (peek '')'') (\<lambda>empty.
           bindS (if empty then returnS [] else parse_args n) (\<lambda>es.
           thenS (expect '')'') (returnS (ECall name es))))
         else returnS (EVar name))))))))))))"
| "parse_args 0 = failS OutOfFuel"
| "parse_args (Suc n) =
     bindS (parse_expr n 0) (\<lambda>e.
     bindS (eat '','') (\<lambda>more.
     if more then bindS (parse_args n) (\<lambda>es. returnS (e # es)) else returnS [e]))"
| "parse_ops 0 bp left = failS OutOfFuel"
| "parse_ops (Suc n) bp left =
     bindS current (\<lambda>t.
     let p = precedence (tk_value t) in
     if tk_string t \<or> p = 0 \<or> p < bp then returnS left
     else
       thenS advance
       (bindS (parse_expr n (p + 1)) (\<lambda>right.
       thenS (check_expr_depth (EBinary (tk_value t) left right))
       (parse_ops n bp (EBinary (tk_value t) left right)))))"

fun is_call :: "expr \<Rightarrow> bool" where
  "is_call (ECall _ _) = True"
| "is_call _ = False"

definition block_ends :: "string list" where
  "block_ends = [''end'', ''else'', ''elseif'', ''<eof>'']"

definition return_ends :: "string list" where
  "return_ends = [''end'', ''else'', ''elseif'', '';'', ''<eof>'']"

fun parse_block :: "nat \<Rightarrow> stmt list parserM"
  and parse_stmts :: "nat \<Rightarrow> stmt list parserM"
  and parse_statement :: "nat \<Rightarrow> stmt parserM"
  and parse_branches :: "nat \<Rightarrow> nat \<Rightarrow> (expr \<times> stmt list) list parserM" where
  "parse_block 0 = failS OutOfFuel"
| "parse_block (Suc n) =
     thenS (enter 64 BlockNesting)
     (bindS (parse_stmts n) (\<lambda>ss.
     thenS leave (returnS ss)))"
| "parse_stmts 0 = failS OutOfFuel"
| "parse_stmts (Suc n) =
     bindS (peek_any block_ends) (\<lambda>done.
     if done then returnS []
     else bindS (parse_statement n) (\<lambda>st.
          thenS (eat '';'')
          (bindS (parse_stmts n) (\<lambda>ss. returnS (st # ss)))))"
| "parse_statement 0 = failS OutOfFuel"
| "parse_statement (Suc n) =
     thenS locate
     (bindS (eat ''local'') (\<lambda>b. if b then
       bindS ident (\<lambda>x. thenS (expect ''='') (bindS (parse_expr n 0) (\<lambda>e. returnS (SLocal x e)))) else
     bindS (eat ''return'') (\<lambda>b. if b then
       bindS (peek_any return_ends) (\<lambda>empty.
       if empty then returnS (SReturn None) else bindS (parse_expr n 0) (\<lambda>e. returnS (SReturn (Some e)))) else
     bindS (eat ''if'') (\<lambda>b. if b then
       bindS (parse_branches n 0) (\<lambda>bs.
       bindS (eat ''else'') (\<lambda>els.
       bindS (if els then parse_block n else returnS []) (\<lambda>other.
       thenS (expect ''end'') (returnS (SIf bs other))))) else
     bindS (eat ''while'') (\<lambda>b. if b then
       bindS (parse_expr n 0) (\<lambda>e. thenS (expect ''do'') (bindS (parse_block n) (\<lambda>body.
       thenS (expect ''end'') (returnS (SWhile e body))))) else
     bindS (parse_expr n 0) (\<lambda>e.
     bindS (eat ''='') (\<lambda>assign.
     if assign then
       (case e of EVar x \<Rightarrow> bindS (parse_expr n 0) (\<lambda>v. returnS (SAssign x v)) | _ \<Rightarrow> failS AssignTarget)
     else thenS (ensureS (is_call e) CallStatement) (returnS (SCall e)))))))))"
| "parse_branches 0 k = failS OutOfFuel"
| "parse_branches (Suc n) k =
     bindS (parse_expr n 0) (\<lambda>e.
     thenS (expect ''then'')
     (bindS (parse_block n) (\<lambda>body.
     thenS (ensureS (k + 1 \<le> 64) IfBranches)
     (bindS (eat ''elseif'') (\<lambda>more.
     if more then bindS (parse_branches n (k + 1)) (\<lambda>bs. returnS ((e, body) # bs))
     else returnS [(e, body)])))))"

fun parse_params :: "nat \<Rightarrow> string list \<Rightarrow> string list parserM" where
  "parse_params 0 ps = failS OutOfFuel"
| "parse_params (Suc n) ps =
     bindS ident (\<lambda>p.
     thenS (ensureS (p \<notin> set ps) (DuplicateParameter p))
     (bindS (eat '','') (\<lambda>more.
     if more then parse_params n (ps @ [p]) else returnS (ps @ [p]))))"

fun parse_functions :: "nat \<Rightarrow> func list \<Rightarrow> func list parserM" where
  "parse_functions 0 fs = failS OutOfFuel"
| "parse_functions (Suc n) fs =
     bindS (peek ''<eof>'') (\<lambda>done. if done then returnS fs else
     thenS (expect ''function'')
     (bindS ident (\<lambda>name.
     thenS (ensureS (\<forall>f\<in>set fs. fn_name f \<noteq> name) (DuplicateFunction name))
     (thenS (expect ''('')
     (bindS (peek '')'') (\<lambda>empty.
     bindS (if empty then returnS [] else parse_params n []) (\<lambda>ps.
     thenS (expect '')'')
     (bindS (parse_block n) (\<lambda>body.
     thenS (expect ''end'')
     (parse_functions n (fs @ [\<lparr>fn_name = name, fn_params = ps, fn_body = body\<rparr>])))))))))))"

definition parse_fuel :: "token list \<Rightarrow> nat" where
  "parse_fuel ts = 8 * length ts"

definition parse_located :: "string \<Rightarrow> string \<Rightarrow> (rgl_error, parsed) result" where
  "parse_located source entry =
     bindR (ensure (length source \<le> 256 * 1024) SourceTooLong) (\<lambda>_.
     bindR (lex source) (\<lambda>tokens.
     bindR (parse_functions (parse_fuel tokens) [] \<lparr>ps_rest = tokens, ps_depth = 0, ps_locs = []\<rparr>) (\<lambda>(fs, s).
     bindR (ensure (\<exists>f\<in>set fs. fn_name f = entry) (MissingEntry entry)) (\<lambda>_.
     Inr \<lparr>pd_functions = fs, pd_locations = ps_locs s\<rparr>))))"

definition parse_entry :: "string \<Rightarrow> string \<Rightarrow> (rgl_error, func list) result" where
  "parse_entry source entry = bindR (parse_located source entry) (\<lambda>p. Inr (pd_functions p))"

definition parse :: "string \<Rightarrow> (rgl_error, func list) result" where
  "parse source = parse_entry source ''on_request''"

section \<open>Well-formed programs\<close>

text \<open>
  \<open>stmt_levels\<close> counts the blocks nested in a statement, \<open>stmt_count\<close> its statements including itself.
\<close>

fun stmt_ok :: "stmt \<Rightarrow> bool" where
  "stmt_ok (SLocal x e) = (expr_depth e \<le> 128)"
| "stmt_ok (SAssign x e) = (expr_depth e \<le> 128)"
| "stmt_ok (SCall e) = (expr_depth e \<le> 128 \<and> is_call e)"
| "stmt_ok (SReturn e) = is_none_or e (\<lambda>v. expr_depth v \<le> 128)"
| "stmt_ok (SIf bs other) =
     (bs \<noteq> [] \<and> length bs \<le> 64 \<and> (\<forall>b\<in>set bs. expr_depth (fst b) \<le> 128 \<and> (\<forall>s\<in>set (snd b). stmt_ok s))
      \<and> (\<forall>s\<in>set other. stmt_ok s))"
| "stmt_ok (SWhile e body) = (expr_depth e \<le> 128 \<and> (\<forall>s\<in>set body. stmt_ok s))"

fun stmt_count :: "stmt \<Rightarrow> nat" where
  "stmt_count (SIf bs other) =
     1 + sum_list (map (\<lambda>b. sum_list (map stmt_count (snd b))) bs) + sum_list (map stmt_count other)"
| "stmt_count (SWhile e body) = 1 + sum_list (map stmt_count body)"
| "stmt_count _ = 1"

fun stmt_fits :: "nat \<Rightarrow> stmt \<Rightarrow> bool" where
  "stmt_fits d (SIf bs other) =
     ((\<forall>b\<in>set bs. d + 1 \<le> 64 \<and> (\<forall>s\<in>set (snd b). stmt_fits (d + 1) s)) \<and> (\<forall>s\<in>set other. stmt_fits (d + 1) s))"
| "stmt_fits d (SWhile e body) = (d + 1 \<le> 64 \<and> (\<forall>s\<in>set body. stmt_fits (d + 1) s))"
| "stmt_fits d _ = True"

definition count_all :: "stmt list \<Rightarrow> nat" where
  "count_all ss = sum_list (map stmt_count ss)"

lemma count_all_simps [simp]: "count_all [] = 0" "count_all (s # ss) = stmt_count s + count_all ss"
  by (simp_all add: count_all_def)

lemma stmt_count_blocks [simp]:
  "stmt_count (SIf bs other) = 1 + sum_list (map (\<lambda>b. count_all (snd b)) bs) + count_all other"
  "stmt_count (SWhile e body) = 1 + count_all body"
  by (simp_all add: count_all_def)

declare stmt_count.simps(1,2) [simp del]

section \<open>Every parse ends\<close>

definition eof_ok :: "token list \<Rightarrow> bool" where
  "eof_ok ts \<longleftrightarrow> ts \<noteq> [] \<and> is_plain ''<eof>'' (last ts)"

definition todo :: "parser \<Rightarrow> nat" where
  "todo s = length (ps_rest s)"

definition sane :: "rgl_error \<Rightarrow> bool" where
  "sane e \<longleftrightarrow> e \<noteq> OutOfFuel \<and> e \<noteq> OutOfRange"

text \<open>The parser after at least \<open>k\<close> tokens and \<open>l\<close> statements, back at its depth.\<close>

definition consumed :: "nat \<Rightarrow> nat \<Rightarrow> parser \<Rightarrow> parser \<Rightarrow> bool" where
  "consumed k l s t \<longleftrightarrow>
     eof_ok (ps_rest t) \<and> todo t + k \<le> todo s \<and> ps_depth t = ps_depth s
     \<and> length (ps_locs t) = length (ps_locs s) + l"

abbreviation ok :: "'a parserM \<Rightarrow> ('a \<Rightarrow> parser \<Rightarrow> bool) \<Rightarrow> parser \<Rightarrow> bool" where
  "ok \<equiv> wp sane"

lemma eof_ok_tl: "eof_ok (t # ts) \<Longrightarrow> \<not> is_plain ''<eof>'' t \<Longrightarrow> eof_ok ts"
  by (auto simp: eof_ok_def split: if_splits)

lemma sane_simps [simp]:
  "\<not> sane OutOfFuel" "\<not> sane OutOfRange" "sane (ExpectedToken a b c d)" "sane (ExpectedIdentifier a b)"
  "sane BlockNesting" "sane IfBranches" "sane AssignTarget" "sane CallStatement" "sane ExprNesting"
  "sane (ExprTooDeep a b)" "sane (DuplicateFunction x)" "sane (DuplicateParameter x)"
  by (simp_all add: sane_def)

named_theorems ok_rules

lemma ok_current [ok_rules]:
  "eof_ok (ps_rest s) \<Longrightarrow> (\<And>t r. ps_rest s = t # r \<Longrightarrow> Q t s) \<Longrightarrow> ok current Q s"
  by (auto simp: wp_def current_def eof_ok_def split: list.split)

lemma ok_advance:
  "eof_ok (ps_rest s) \<Longrightarrow> ps_rest s = t # r \<Longrightarrow> \<not> is_plain ''<eof>'' t \<Longrightarrow> (\<And>s'. consumed 1 0 s s' \<Longrightarrow> Q () s')
     \<Longrightarrow> ok advance Q s"
  by (auto simp: advance_def consumed_def todo_def dest: eof_ok_tl)

lemma ok_peek [ok_rules]: "eof_ok (ps_rest s) \<Longrightarrow> (\<And>b. Q b s) \<Longrightarrow> ok (peek v) Q s"
  by (auto simp: peek_def intro: ok_current)

lemma ok_peek_any [ok_rules]: "eof_ok (ps_rest s) \<Longrightarrow> (\<And>b. Q b s) \<Longrightarrow> ok (peek_any vs) Q s"
  by (auto simp: peek_any_def intro: ok_current)

lemma is_plain_unique: "is_plain v t \<Longrightarrow> is_plain w t \<Longrightarrow> v = w"
  by (simp add: is_plain_def)

lemma ok_eat [ok_rules]:
  assumes "eof_ok (ps_rest s)" and "v \<noteq> ''<eof>''" and "\<And>t. consumed 1 0 s t \<Longrightarrow> Q True t" and "Q False s"
  shows "ok (eat v) Q s"
  unfolding eat_def peek_def wp_bind wp_return
proof (rule ok_current [OF assms(1)])
  fix t r
  assume rest: "ps_rest s = t # r"
  show "ok (if is_plain v t then thenS advance (returnS True) else returnS False) Q s"
  proof (cases "is_plain v t")
    case True
    with assms(2) have "\<not> is_plain ''<eof>'' t" by (auto dest: is_plain_unique)
    with True assms(1,3) rest show ?thesis by (auto intro!: ok_advance)
  qed (simp add: assms(4))
qed

lemma ok_expect [ok_rules]:
  "eof_ok (ps_rest s) \<Longrightarrow> v \<noteq> ''<eof>'' \<Longrightarrow> (\<And>t. consumed 1 0 s t \<Longrightarrow> Q () t) \<Longrightarrow> ok (expect v) Q s"
  by (auto simp: expect_def intro!: ok_eat ok_current)

lemma ok_ident [ok_rules]:
  assumes "eof_ok (ps_rest s)" and "\<And>x t. consumed 1 0 s t \<Longrightarrow> Q x t"
  shows "ok ident Q s"
  unfolding ident_def wp_bind wp_ensure
proof (rule ok_current [OF assms(1)])
  fix t r
  assume rest: "ps_rest s = t # r"
  have "\<not> is_plain ''<eof>'' t" if "is_ident t"
    using that by (auto simp: is_ident_def is_plain_def is_ascii_alphabetic_def is_ascii_lowercase_def is_ascii_uppercase_def)
  then show "if is_ident t then ok advance (\<lambda>_. ok (returnS (tk_value t)) Q) s
      else sane (ExpectedIdentifier (tk_line t) (tk_col t))"
    using assms rest by (auto intro!: ok_advance)
qed

lemma ok_check_depth [ok_rules]:
  "eof_ok (ps_rest s) \<Longrightarrow> (expr_depth e \<le> 128 \<Longrightarrow> Q () s) \<Longrightarrow> ok (check_expr_depth e) Q s"
  by (auto simp: check_expr_depth_def intro!: ok_current)

lemma eof_not_operand [simp]: "parse_i64 ''<eof>'' = None" "precedence ''<eof>'' = 0"
  by (simp_all add: parse_i64_def Let_def starts_with_def is_ascii_digit_def precedence_def)

text \<open>
  The rules that follow a run from a fixed origin \<open>s\<close>: after each method, the new state has consumed that
  much more since \<open>s\<close>.
\<close>

lemma consumed_refl: "eof_ok (ps_rest s) \<Longrightarrow> consumed 0 0 s s"
  by (simp add: consumed_def)

lemma consumed_trans: "consumed k l s t \<Longrightarrow> consumed k' l' t u \<Longrightarrow> consumed (k + k') (l + l') s u"
  by (auto simp: consumed_def)

lemma consumed_weaken: "consumed k l s t \<Longrightarrow> j \<le> k \<Longrightarrow> i = l \<Longrightarrow> consumed j i s t"
  by (auto simp: consumed_def)

lemma consumed_eof: "consumed k l s t \<Longrightarrow> eof_ok (ps_rest t)"
  by (simp add: consumed_def)

lemma consumed_todo: "consumed k l s t \<Longrightarrow> todo t + k \<le> todo s"
  by (simp add: consumed_def)

lemma run_current: "consumed k l s t \<Longrightarrow> (\<And>x r. consumed k l s t \<Longrightarrow> ps_rest t = x # r \<Longrightarrow> Q x t) \<Longrightarrow> ok current Q t"
  by (blast intro: ok_current consumed_eof)

lemma run_advance:
  "consumed k l s t \<Longrightarrow> \<not> is_plain ''<eof>'' (hd (ps_rest t)) \<Longrightarrow> (\<And>u. consumed (k + 1) (l + 0) s u \<Longrightarrow> Q () u)
     \<Longrightarrow> ok advance Q t"
  by (rule ok_advance [of t "hd (ps_rest t)" "tl (ps_rest t)"])
    (auto simp: eof_ok_def dest: consumed_eof consumed_trans)

lemma run_peek: "consumed k l s t \<Longrightarrow> (\<And>b. consumed k l s t \<Longrightarrow> Q b t) \<Longrightarrow> ok (peek v) Q t"
  by (blast intro: ok_peek consumed_eof)

lemma run_peek_any: "consumed k l s t \<Longrightarrow> (\<And>b. consumed k l s t \<Longrightarrow> Q b t) \<Longrightarrow> ok (peek_any vs) Q t"
  by (blast intro: ok_peek_any consumed_eof)

lemma run_eat:
  "consumed k l s t \<Longrightarrow> v \<noteq> ''<eof>'' \<Longrightarrow> (\<And>u. consumed (k + 1) (l + 0) s u \<Longrightarrow> Q True u)
     \<Longrightarrow> (consumed k l s t \<Longrightarrow> Q False t) \<Longrightarrow> ok (eat v) Q t"
  by (blast intro: ok_eat consumed_eof consumed_trans)

lemma run_expect:
  "consumed k l s t \<Longrightarrow> v \<noteq> ''<eof>'' \<Longrightarrow> (\<And>u. consumed (k + 1) (l + 0) s u \<Longrightarrow> Q () u) \<Longrightarrow> ok (expect v) Q t"
  by (blast intro: ok_expect consumed_eof consumed_trans)

lemma run_ident: "consumed k l s t \<Longrightarrow> (\<And>x u. consumed (k + 1) (l + 0) s u \<Longrightarrow> Q x u) \<Longrightarrow> ok ident Q t"
  by (blast intro: ok_ident consumed_eof consumed_trans)

lemma run_check_depth:
  "consumed k l s t \<Longrightarrow> (consumed k l s t \<Longrightarrow> expr_depth e \<le> 128 \<Longrightarrow> Q () t) \<Longrightarrow> ok (check_expr_depth e) Q t"
  by (blast intro: ok_check_depth consumed_eof)

lemmas run_rules = run_current run_peek run_peek_any run_eat run_expect run_ident run_check_depth

text \<open>What each expression method guarantees with enough fuel.\<close>

definition expr_total :: "nat \<Rightarrow> bool" where
  "expr_total n \<longleftrightarrow>
     (\<forall>s bp. eof_ok (ps_rest s) \<longrightarrow> 4 * todo s + 2 \<le> n \<longrightarrow>
        ok (parse_expr n bp) (\<lambda>e t. consumed 1 0 s t \<and> expr_depth e \<le> 128) s)
   \<and> (\<forall>s. eof_ok (ps_rest s) \<longrightarrow> 4 * todo s + 1 \<le> n \<longrightarrow> ok (parse_primary n) (\<lambda>e t. consumed 1 0 s t) s)
   \<and> (\<forall>s. eof_ok (ps_rest s) \<longrightarrow> 4 * todo s + 3 \<le> n \<longrightarrow> ok (parse_args n) (\<lambda>es t. consumed 1 0 s t) s)
   \<and> (\<forall>s bp left. eof_ok (ps_rest s) \<longrightarrow> 4 * todo s + 1 \<le> n \<longrightarrow> expr_depth left \<le> 128 \<longrightarrow>
        ok (parse_ops n bp left) (\<lambda>e t. consumed 0 0 s t \<and> expr_depth e \<le> 128) s)"

lemma run_expr:
  assumes "expr_total n" and "consumed k l s t" and "4 * todo s + 2 \<le> n + 4 * k"
    and "\<And>e u. consumed (k + 1) (l + 0) s u \<Longrightarrow> expr_depth e \<le> 128 \<Longrightarrow> Q e u"
  shows "ok (parse_expr n bp) Q t"
proof -
  have "4 * todo t + 2 \<le> n" using assms(3) consumed_todo [OF assms(2)] by linarith
  then have "ok (parse_expr n bp) (\<lambda>e u. consumed 1 0 t u \<and> expr_depth e \<le> 128) t"
    using assms(1,2) consumed_eof unfolding expr_total_def by blast
  then show ?thesis by (rule wp_consequence) (blast intro: assms(4) consumed_trans [OF assms(2)])
qed

lemma run_primary:
  assumes "expr_total n" and "consumed k l s t" and "4 * todo s + 1 \<le> n + 4 * k"
    and "\<And>e u. consumed (k + 1) (l + 0) s u \<Longrightarrow> Q e u"
  shows "ok (parse_primary n) Q t"
proof -
  have "4 * todo t + 1 \<le> n" using assms(3) consumed_todo [OF assms(2)] by linarith
  then have "ok (parse_primary n) (\<lambda>e u. consumed 1 0 t u) t"
    using assms(1,2) consumed_eof unfolding expr_total_def by blast
  then show ?thesis by (rule wp_consequence) (blast intro: assms(4) consumed_trans [OF assms(2)])
qed

lemma run_args:
  assumes "expr_total n" and "consumed k l s t" and "4 * todo s + 3 \<le> n + 4 * k"
    and "\<And>e u. consumed (k + 1) (l + 0) s u \<Longrightarrow> Q e u"
  shows "ok (parse_args n) Q t"
proof -
  have "4 * todo t + 3 \<le> n" using assms(3) consumed_todo [OF assms(2)] by linarith
  then have "ok (parse_args n) (\<lambda>e u. consumed 1 0 t u) t"
    using assms(1,2) consumed_eof unfolding expr_total_def by blast
  then show ?thesis by (rule wp_consequence) (blast intro: assms(4) consumed_trans [OF assms(2)])
qed

lemma run_ops:
  assumes "expr_total n" and "consumed k l s t" and "4 * todo s + 1 \<le> n + 4 * k" and "expr_depth left \<le> 128"
    and "\<And>e u. consumed (k + 0) (l + 0) s u \<Longrightarrow> expr_depth e \<le> 128 \<Longrightarrow> Q e u"
  shows "ok (parse_ops n bp left) Q t"
proof -
  have "4 * todo t + 1 \<le> n" using assms(3) consumed_todo [OF assms(2)] by linarith
  then have "ok (parse_ops n bp left) (\<lambda>e u. consumed 0 0 t u \<and> expr_depth e \<le> 128) t"
    using assms(1,2,4) consumed_eof unfolding expr_total_def by blast
  then show ?thesis by (rule wp_consequence) (blast intro: assms(5) consumed_trans [OF assms(2)])
qed

lemmas run_exprs = run_expr run_primary run_args run_ops

lemma primary_total:
  assumes IH: "expr_total n" and "consumed 0 0 s s" "4 * todo s \<le> n"
  shows "ok (parse_primary (Suc n)) (\<lambda>e t. consumed 1 0 s t) s"
  using assms(2,3) unfolding parse_primary.simps
  by (auto elim!: run_rules run_exprs [OF IH] run_advance split: option.split simp: is_plain_def)
    (auto simp: consumed_def)

lemma args_total:
  assumes IH: "expr_total n" and "consumed 0 0 s s" "4 * todo s + 2 \<le> n"
  shows "ok (parse_args (Suc n)) (\<lambda>e t. consumed 1 0 s t) s"
  using assms(2,3) unfolding parse_args.simps
  by (auto elim!: run_rules run_exprs [OF IH]) (auto simp: consumed_def)

lemma ops_total:
  assumes IH: "expr_total n" and "consumed 0 0 s s" "4 * todo s \<le> n" "expr_depth left \<le> 128"
  shows "ok (parse_ops (Suc n) bp left) (\<lambda>e t. consumed 0 0 s t \<and> expr_depth e \<le> 128) s"
  using assms(2-) unfolding parse_ops.simps Let_def
  by (auto elim!: run_rules run_exprs [OF IH] run_advance simp: is_plain_def) (auto simp: consumed_def)

lemma run_enter:
  "consumed k l s t \<Longrightarrow> sane e
     \<Longrightarrow> (Suc (ps_depth s) \<le> limit \<Longrightarrow> consumed k l (s\<lparr>ps_depth := Suc (ps_depth s)\<rparr>) (t\<lparr>ps_depth := Suc (ps_depth s)\<rparr>)
          \<Longrightarrow> Q () (t\<lparr>ps_depth := Suc (ps_depth s)\<rparr>))
     \<Longrightarrow> ok (enter limit e) Q t"
  by (auto simp: enter_def consumed_def todo_def)

lemma run_leave:
  "consumed k l (s\<lparr>ps_depth := Suc (ps_depth s)\<rparr>) t \<Longrightarrow> (\<And>u. consumed k l s u \<Longrightarrow> Q () u) \<Longrightarrow> ok leave Q t"
  by (auto simp: leave_def consumed_def todo_def)

lemma expr_total_Suc:
  assumes IH: "expr_total n" and "consumed 0 0 s s" "4 * todo s + 1 \<le> n"
  shows "ok (parse_expr (Suc n) bp) (\<lambda>e t. consumed 1 0 s t \<and> expr_depth e \<le> 128) s"
  using assms(2,3) unfolding parse_expr.simps
  by (auto elim!: run_enter run_rules run_exprs [OF IH] run_leave simp: todo_def)

lemma expr_total: "expr_total n"
proof (induction n)
  case 0
  show ?case by (auto simp: expr_total_def)
next
  case (Suc n)
  note steps = expr_total_Suc [OF Suc] primary_total [OF Suc] args_total [OF Suc] ops_total [OF Suc]
  show ?case unfolding expr_total_def
    by (intro conjI allI impI; rule steps; simp add: consumed_refl)
qed

text \<open>The same for statements.\<close>

definition block_total :: "nat \<Rightarrow> bool" where
  "block_total n \<longleftrightarrow>
     (\<forall>s. eof_ok (ps_rest s) \<longrightarrow> 4 * todo s + 6 \<le> n \<longrightarrow>
        ok (parse_block n) (\<lambda>ss t. consumed 0 (count_all ss) s t \<and> ps_depth s + 1 \<le> 64
          \<and> (\<forall>st\<in>set ss. stmt_ok st \<and> stmt_fits (ps_depth s + 1) st)) s)
   \<and> (\<forall>s. eof_ok (ps_rest s) \<longrightarrow> 4 * todo s + 5 \<le> n \<longrightarrow>
        ok (parse_stmts n) (\<lambda>ss t. consumed 0 (count_all ss) s t
          \<and> (\<forall>st\<in>set ss. stmt_ok st \<and> stmt_fits (ps_depth s) st)) s)
   \<and> (\<forall>s. eof_ok (ps_rest s) \<longrightarrow> 4 * todo s + 4 \<le> n \<longrightarrow>
        ok (parse_statement n) (\<lambda>st t. consumed 1 (stmt_count st) s t \<and> stmt_ok st \<and> stmt_fits (ps_depth s) st) s)
   \<and> (\<forall>s k. eof_ok (ps_rest s) \<longrightarrow> 4 * todo s + 3 \<le> n \<longrightarrow>
        ok (parse_branches n k) (\<lambda>bs t. consumed 1 (sum_list (map (\<lambda>b. count_all (snd b)) bs)) s t
          \<and> bs \<noteq> [] \<and> length bs + k \<le> 64 \<and> ps_depth s + 1 \<le> 64
          \<and> (\<forall>b\<in>set bs. expr_depth (fst b) \<le> 128
               \<and> (\<forall>st\<in>set (snd b). stmt_ok st \<and> stmt_fits (ps_depth s + 1) st))) s)"

lemma consumed_depth: "consumed k l s t \<Longrightarrow> ps_depth t = ps_depth s"
  by (simp add: consumed_def)

lemma run_block:
  assumes "block_total n" and "consumed k l s t" and "4 * todo s + 6 \<le> n + 4 * k"
    and "\<And>ss u. consumed (k + 0) (l + count_all ss) s u \<Longrightarrow> Suc (ps_depth s) \<le> 64
      \<Longrightarrow> \<forall>st\<in>set ss. stmt_ok st \<and> stmt_fits (Suc (ps_depth s)) st \<Longrightarrow> Q ss u"
  shows "ok (parse_block n) Q t"
proof -
  have "4 * todo t + 6 \<le> n" using assms(3) consumed_todo [OF assms(2)] by linarith
  then have "ok (parse_block n) (\<lambda>ss u. consumed 0 (count_all ss) t u \<and> ps_depth t + 1 \<le> 64
          \<and> (\<forall>st\<in>set ss. stmt_ok st \<and> stmt_fits (ps_depth t + 1) st)) t"
    using assms(1,2) consumed_eof unfolding block_total_def by blast
  then show ?thesis
    by (rule wp_consequence) (use consumed_depth [OF assms(2)] in \<open>auto intro: assms(4) consumed_trans [OF assms(2)]\<close>)
qed

lemma run_stmts:
  assumes "block_total n" and "consumed k l s t" and "4 * todo s + 5 \<le> n + 4 * k"
    and "\<And>ss u. consumed (k + 0) (l + count_all ss) s u
      \<Longrightarrow> \<forall>st\<in>set ss. stmt_ok st \<and> stmt_fits (ps_depth s) st \<Longrightarrow> Q ss u"
  shows "ok (parse_stmts n) Q t"
proof -
  have "4 * todo t + 5 \<le> n" using assms(3) consumed_todo [OF assms(2)] by linarith
  then have "ok (parse_stmts n) (\<lambda>ss u. consumed 0 (count_all ss) t u
          \<and> (\<forall>st\<in>set ss. stmt_ok st \<and> stmt_fits (ps_depth t) st)) t"
    using assms(1,2) consumed_eof unfolding block_total_def by blast
  then show ?thesis
    by (rule wp_consequence) (use consumed_depth [OF assms(2)] in \<open>auto intro: assms(4) consumed_trans [OF assms(2)]\<close>)
qed

lemma run_statement:
  assumes "block_total n" and "consumed k l s t" and "4 * todo s + 4 \<le> n + 4 * k"
    and "\<And>st u. consumed (k + 1) (l + stmt_count st) s u \<Longrightarrow> stmt_ok st \<Longrightarrow> stmt_fits (ps_depth s) st \<Longrightarrow> Q st u"
  shows "ok (parse_statement n) Q t"
proof -
  have "4 * todo t + 4 \<le> n" using assms(3) consumed_todo [OF assms(2)] by linarith
  then have "ok (parse_statement n) (\<lambda>st u. consumed 1 (stmt_count st) t u \<and> stmt_ok st \<and> stmt_fits (ps_depth t) st) t"
    using assms(1,2) consumed_eof unfolding block_total_def by blast
  then show ?thesis
    by (rule wp_consequence)
      (rule assms(4), (use consumed_depth [OF assms(2)] in \<open>auto dest: consumed_trans [OF assms(2)]\<close>)+)
qed

lemma run_branches:
  assumes "block_total n" and "consumed k l s t" and "4 * todo s + 3 \<le> n + 4 * k"
    and "\<And>bs u. consumed (k + 1) (l + sum_list (map (\<lambda>b. count_all (snd b)) bs)) s u \<Longrightarrow> bs \<noteq> []
      \<Longrightarrow> length bs + j \<le> 64 \<Longrightarrow> Suc (ps_depth s) \<le> 64
      \<Longrightarrow> \<forall>b\<in>set bs. expr_depth (fst b) \<le> 128
            \<and> (\<forall>st\<in>set (snd b). stmt_ok st \<and> stmt_fits (Suc (ps_depth s)) st) \<Longrightarrow> Q bs u"
  shows "ok (parse_branches n j) Q t"
proof -
  have "4 * todo t + 3 \<le> n" using assms(3) consumed_todo [OF assms(2)] by linarith
  then have "ok (parse_branches n j) (\<lambda>bs u. consumed 1 (sum_list (map (\<lambda>b. count_all (snd b)) bs)) t u
          \<and> bs \<noteq> [] \<and> length bs + j \<le> 64 \<and> ps_depth t + 1 \<le> 64
          \<and> (\<forall>b\<in>set bs. expr_depth (fst b) \<le> 128
               \<and> (\<forall>st\<in>set (snd b). stmt_ok st \<and> stmt_fits (ps_depth t + 1) st))) t"
    using assms(1,2) consumed_eof unfolding block_total_def by blast
  then show ?thesis
    by (rule wp_consequence)
      (rule assms(4), (use consumed_depth [OF assms(2)] in \<open>auto dest: consumed_trans [OF assms(2)]\<close>)+)
qed

lemmas run_blocks = run_block run_stmts run_statement run_branches

lemma run_locate:
  "consumed k l s t \<Longrightarrow> (\<And>u. consumed k (l + 1) s u \<Longrightarrow> Q () u) \<Longrightarrow> ok locate Q t"
  unfolding locate_def wp_bind wp_modify
  by (erule run_current) (auto simp: consumed_def todo_def)

lemma block_total_Suc:
  assumes IH: "block_total n" and "consumed 0 0 s s" "4 * todo s + 5 \<le> n"
  shows "ok (parse_block (Suc n)) (\<lambda>ss t. consumed 0 (count_all ss) s t \<and> ps_depth s + 1 \<le> 64
          \<and> (\<forall>st\<in>set ss. stmt_ok st \<and> stmt_fits (ps_depth s + 1) st)) s"
  using assms(2,3) unfolding parse_block.simps
  by (auto elim!: run_enter run_blocks [OF IH] run_leave simp: todo_def)

lemma stmts_total_Suc:
  assumes IH: "block_total n" and "consumed 0 0 s s" "4 * todo s + 4 \<le> n"
  shows "ok (parse_stmts (Suc n)) (\<lambda>ss t. consumed 0 (count_all ss) s t
          \<and> (\<forall>st\<in>set ss. stmt_ok st \<and> stmt_fits (ps_depth s) st)) s"
  using assms(2,3) unfolding parse_stmts.simps
  by (auto elim!: run_rules run_blocks [OF IH]) (auto simp: consumed_def)

lemma branches_total_Suc:
  assumes IH: "block_total n" and "consumed 0 0 s s" "4 * todo s + 2 \<le> n"
  shows "ok (parse_branches (Suc n) k) (\<lambda>bs t. consumed 1 (sum_list (map (\<lambda>b. count_all (snd b)) bs)) s t
          \<and> bs \<noteq> [] \<and> length bs + k \<le> 64 \<and> ps_depth s + 1 \<le> 64
          \<and> (\<forall>b\<in>set bs. expr_depth (fst b) \<le> 128
               \<and> (\<forall>st\<in>set (snd b). stmt_ok st \<and> stmt_fits (ps_depth s + 1) st))) s"
  using assms(2,3) unfolding parse_branches.simps
  by (auto elim!: run_rules run_blocks [OF IH] run_exprs [OF expr_total]) (auto simp: consumed_def)

lemma statement_total_Suc:
  assumes IH: "block_total n" and "consumed 0 0 s s" "4 * todo s + 3 \<le> n"
  shows "ok (parse_statement (Suc n)) (\<lambda>st t. consumed 1 (stmt_count st) s t \<and> stmt_ok st \<and> stmt_fits (ps_depth s) st) s"
  using assms(2,3) unfolding parse_statement.simps
  by (auto elim!: run_locate run_rules run_blocks [OF IH] run_exprs [OF expr_total] split: expr.split)
    (auto simp: consumed_def)

lemma block_total: "block_total n"
proof (induction n)
  case 0
  show ?case by (auto simp: block_total_def)
next
  case (Suc n)
  note steps = block_total_Suc [OF Suc] stmts_total_Suc [OF Suc] statement_total_Suc [OF Suc] branches_total_Suc [OF Suc]
  show ?case unfolding block_total_def
    by (intro conjI allI impI; rule steps; simp add: consumed_refl)
qed

lemma run_params:
  assumes "consumed k l s t" and "todo s \<le> n + k" and "distinct ps"
    and "\<And>qs u. consumed (k + 1) (l + 0) s u \<Longrightarrow> distinct qs \<Longrightarrow> Q qs u"
  shows "ok (parse_params n ps) Q t"
  using assms
proof (induction n arbitrary: ps k t)
  case 0
  then have "todo t = 0" using consumed_todo [of k l s t] by simp
  then show ?case using 0 by (auto simp: consumed_def eof_ok_def todo_def)
next
  case (Suc n)
  have step: "ok (parse_params n (ps @ [x])) Q u" if "consumed (Suc (Suc k)) l s u" "x \<notin> set ps" for x u
  proof (rule Suc.IH [OF that(1)])
    show "todo s \<le> n + Suc (Suc k)" "distinct (ps @ [x])" using Suc.prems(2,3) that(2) by auto
    show "Q qs v" if "consumed (Suc (Suc k) + 1) (l + 0) s v" "distinct qs" for qs v
      using that by (intro Suc.prems(4)) (auto elim: consumed_weaken)
  qed
  have stop: "Q (ps @ [x]) u" if "consumed (Suc k) l s u" "x \<notin> set ps" for x u
    using that Suc.prems(3) by (intro Suc.prems(4)) auto
  from Suc.prems(1-3) show ?case unfolding parse_params.simps
    by (auto elim!: run_ident run_eat) (erule (1) step, erule (1) stop)
qed

definition func_ok :: "func \<Rightarrow> bool" where
  "func_ok f \<longleftrightarrow> distinct (fn_params f) \<and> (\<forall>st\<in>set (fn_body f). stmt_ok st \<and> stmt_fits 1 st)"

definition program_count :: "func list \<Rightarrow> nat" where
  "program_count fs = sum_list (map (\<lambda>f. count_all (fn_body f)) fs)"

lemma functions_total:
  assumes "eof_ok (ps_rest s)" and "4 * todo s + 4 \<le> n" and "ps_depth s = 0"
    and "distinct (map fn_name fs)" and "\<forall>f\<in>set fs. func_ok f" and "length (ps_locs s) = program_count fs"
  shows "ok (parse_functions n fs) (\<lambda>gs t. distinct (map fn_name gs) \<and> (\<forall>f\<in>set gs. func_ok f)
    \<and> length (ps_locs t) = program_count gs) s"
  using assms
proof (induction n arbitrary: fs s)
  case (Suc n)
  have start: "consumed 0 0 s s" using Suc.prems(1) by (rule consumed_refl)
  have step: "ok (parse_functions n (fs @ [f])) (\<lambda>gs t. distinct (map fn_name gs) \<and> (\<forall>f\<in>set gs. func_ok f)
      \<and> length (ps_locs t) = program_count gs) u"
    if "consumed (Suc (Suc (Suc 0))) (count_all (fn_body f)) s u" "func_ok f" "\<forall>g\<in>set fs. fn_name g \<noteq> fn_name f" for f u
    using that Suc.prems(2-) by (intro Suc.IH) (auto simp: consumed_def program_count_def)
  show ?case unfolding parse_functions.simps
    using start Suc.prems(2-)
    by (auto elim!: run_rules run_params run_block [OF block_total])
      (intro step; auto simp: func_ok_def elim: consumed_weaken)+
qed simp

lemma sane_lex_simps [simp]:
  "sane (UnterminatedString a b)" "sane (StringSpansLines a b)" "sane (IncompleteEscape a b)"
  "sane (UnsupportedEscape a b)" "sane (UnexpectedCharacter a b c)" "sane TooManyTokens" "sane SourceTooLong"
  "sane (MissingEntry x)"
  by (simp_all add: sane_def)

definition errors_sane :: "(rgl_error, 'a) result \<Rightarrow> bool" where
  "errors_sane r = (case r of Inl e \<Rightarrow> sane e | Inr _ \<Rightarrow> True)"

lemma errors_sane_simps [simp]: "errors_sane (Inl e) = sane e" "errors_sane (Inr x)"
  by (simp_all add: errors_sane_def)

lemma lex_string_sane: "errors_sane (lex_string q l0 c0 line cs v col)"
proof (induction q l0 c0 line cs v col rule: lex_string.induct)
  case (2 q l0 c0 line c cs v col)
  then show ?case by (cases cs) (simp_all split: option.split)
qed simp

lemma lex_plain_sane: "errors_sane (lex_plain line c cs col)"
  by (simp add: lex_plain_def ensure_def split: list.split prod.split)

lemma lex_loop_result:
  "(case lex_loop cs line col out of Inl e \<Rightarrow> sane e | Inr ts \<Rightarrow> eof_ok ts)"
proof (induction cs line col out rule: lex_loop.induct)
  case (1 line col out)
  show ?case by (simp add: eof_ok_def eof_token_def is_plain_def)
next
  case (2 c cs line col out)
  let ?quoted = "c = [CHR 0x27] \<or> c = [CHR 0x22]"
  let ?tok = "if ?quoted then lex_string c line col line cs [] (col + 1) else lex_plain line c cs (col + 1)"
  consider "c = newline" | "c \<noteq> newline" "is_whitespace c"
    | "c \<noteq> newline" "\<not> is_whitespace c" "c = ''-'' \<and> cs \<noteq> [] \<and> hd cs = ''-''"
    | "c \<noteq> newline" "\<not> is_whitespace c" "\<not> (c = ''-'' \<and> cs \<noteq> [] \<and> hd cs = ''-'')" by blast
  then show ?case
  proof cases
    case 1
    then show ?thesis using 2(1) by simp
  next
    case cs: 2
    then show ?thesis using 2(2) by simp
  next
    case cs: 3
    then show ?thesis using 2(3) by (simp add: Let_def split: prod.split)
  next
    case cs: 4
    show ?thesis
    proof (cases ?tok)
      case (Inl e)
      have "errors_sane ?tok" by (simp add: lex_string_sane lex_plain_sane)
      then show ?thesis using cs Inl unfolding lex_loop.simps Let_def by auto
    next
      case (Inr r)
      obtain v cs' col' where r: "r = (v, cs', col')" by (cases r)
      show ?thesis
        using cs Inr 2(4) [OF cs refl Inr [unfolded r]] unfolding lex_loop.simps Let_def r
        by (auto simp: ensure_def)
    qed
  qed
qed

lemma functions_of_tokens:
  assumes "eof_ok ts"
  shows "ok (parse_functions (parse_fuel ts) []) (\<lambda>fs t. distinct (map fn_name fs) \<and> (\<forall>f\<in>set fs. func_ok f)
    \<and> length (ps_locs t) = program_count fs) \<lparr>ps_rest = ts, ps_depth = 0, ps_locs = []\<rparr>"
proof (rule functions_total)
  have "1 \<le> length ts" using assms by (cases ts) (auto simp: eof_ok_def)
  then show "4 * todo \<lparr>ps_rest = ts, ps_depth = 0, ps_locs = []\<rparr> + 4 \<le> parse_fuel ts"
    by (simp add: todo_def parse_fuel_def)
qed (simp_all add: assms program_count_def)

section \<open>Properties\<close>

text \<open>
  C32. Parsing always ends with an answer: for every source the lexer and the parser terminate, the
  loops finish within their fuel, and no token is read past the end, so the result is a program or
  one of the diagnostics, never a panic.
\<close>

theorem rgl_parse_total:
  "parse_located source entry \<noteq> Inl OutOfFuel \<and> parse_located source entry \<noteq> Inl OutOfRange"
proof -
  have "errors_sane (parse_located source entry)"
  proof (cases "lex source")
    case (Inl e)
    then show ?thesis using lex_loop_result [of "chars source" 1 1 "[]"]
      by (simp add: parse_located_def lex_def ensure_def)
  next
    case (Inr ts)
    then have "eof_ok ts" using lex_loop_result [of "chars source" 1 1 "[]"] by (simp add: lex_def)
    note run = functions_of_tokens [OF this]
    show ?thesis
      using wp_errorD [OF run] Inr
      by (cases "parse_functions (parse_fuel ts) [] \<lparr>ps_rest = ts, ps_depth = 0, ps_locs = []\<rparr>")
        (auto simp: parse_located_def ensure_def)
  qed
  then show ?thesis by (auto simp: errors_sane_def sane_def)
qed

text \<open>
  C33. An accepted program is well formed: function names are distinct and the entry point is among
  them, parameters are distinct, every expression tree is at most 128 deep, every \<open>if\<close> has between 1
  and 64 branches, blocks nest at most 64 deep, only calls stand as statements, and the recorded
  locations are one per statement.
\<close>

theorem rgl_parse_wellformed:
  assumes "parse_located source entry = Inr p"
  shows "distinct (map fn_name (pd_functions p)) \<and> entry \<in> fn_name ` set (pd_functions p)
    \<and> (\<forall>f\<in>set (pd_functions p). distinct (fn_params f) \<and> (\<forall>st\<in>set (fn_body f). stmt_ok st \<and> stmt_fits 1 st))
    \<and> length (pd_locations p) = sum_list (map (\<lambda>f. count_all (fn_body f)) (pd_functions p))"
proof -
  obtain ts fs s where ts: "lex source = Inr ts"
    and run: "parse_functions (parse_fuel ts) [] \<lparr>ps_rest = ts, ps_depth = 0, ps_locs = []\<rparr> = Inr (fs, s)"
    and entry: "\<exists>f\<in>set fs. fn_name f = entry" and p: "p = \<lparr>pd_functions = fs, pd_locations = ps_locs s\<rparr>"
    using assms by (auto simp: parse_located_def result_simps)
  have "eof_ok ts" using ts lex_loop_result [of "chars source" 1 1 "[]"] by (simp add: lex_def)
  from wpD [OF functions_of_tokens [OF this] run] entry show ?thesis
    by (auto simp: p func_ok_def program_count_def)
qed

definition sample_source :: string where
  "sample_source = ''function f(a) if a < 1 + 2 then return 1 end g(a) end function g(x) end''"

theorem rgl_parse_wellformed_witness:
  "\<exists>p. parse_located sample_source ''f'' = Inr p \<and> length (pd_locations p) = 3
     \<and> distinct (map fn_name (pd_functions p)) \<and> ''f'' \<in> fn_name ` set (pd_functions p)"
proof -
  have "case parse_located sample_source ''f'' of Inl _ \<Rightarrow> False | Inr p \<Rightarrow> length (pd_locations p) = 3"
    by code_simp
  then obtain p where p: "parse_located sample_source ''f'' = Inr p" "length (pd_locations p) = 3"
    by (auto split: sum.splits)
  from rgl_parse_wellformed [OF p(1)] p show ?thesis by blast
qed

end
