(* ===== verification/Rgl_Codegen.thy ===== *)
theory Rgl_Codegen
  imports Rgl_Syntax
begin

text \<open>
  The RGL compiler, \<open>src/src/script/codegen.rs\<close>: type checking and emission of Wasm instructions, and the
  link step that drops unused imports. The module record is what the compiler hands to the
  \<open>wasm_encoder\<close> crate, which serialises it.

  \<open>Builder::depth\<close> is restored by every call, so it is the argument \<open>n\<close> of the methods, as the levels left:
  \<open>depth = 128 - n\<close>, and \<open>enter\<close> fails when no level is left. \<open>FunctionCompiler\<close> borrows the builder, so
  its state contains the builder's.
\<close>

section \<open>Types and builtins\<close>

datatype ty = TInt | TBool | TString | TNil | TAction | TVoid

record builtin =
  bi_name :: string
  bi_args :: "ty list"
  bi_result :: ty

definition BUILTINS :: "builtin list" where
  "BUILTINS = [
     \<lparr>bi_name = ''literal'', bi_args = [TInt, TInt], bi_result = TString\<rparr>,
     \<lparr>bi_name = ''constant'', bi_args = [TInt, TInt], bi_result = TString\<rparr>,
     \<lparr>bi_name = ''req.method'', bi_args = [], bi_result = TString\<rparr>,
     \<lparr>bi_name = ''req.path'', bi_args = [], bi_result = TString\<rparr>,
     \<lparr>bi_name = ''req.query'', bi_args = [], bi_result = TString\<rparr>,
     \<lparr>bi_name = ''req.host'', bi_args = [], bi_result = TString\<rparr>,
     \<lparr>bi_name = ''req.remote_addr'', bi_args = [], bi_result = TString\<rparr>,
     \<lparr>bi_name = ''req.header'', bi_args = [TString], bi_result = TString\<rparr>,
     \<lparr>bi_name = ''req.set_path'', bi_args = [TString], bi_result = TVoid\<rparr>,
     \<lparr>bi_name = ''req.set_query'', bi_args = [TString], bi_result = TVoid\<rparr>,
     \<lparr>bi_name = ''req.set_header'', bi_args = [TString, TString], bi_result = TVoid\<rparr>,
     \<lparr>bi_name = ''req.remove_header'', bi_args = [TString], bi_result = TVoid\<rparr>,
     \<lparr>bi_name = ''resp.status'', bi_args = [], bi_result = TInt\<rparr>,
     \<lparr>bi_name = ''resp.header'', bi_args = [TString], bi_result = TString\<rparr>,
     \<lparr>bi_name = ''resp.set_header'', bi_args = [TString, TString], bi_result = TVoid\<rparr>,
     \<lparr>bi_name = ''resp.remove_header'', bi_args = [TString], bi_result = TVoid\<rparr>,
     \<lparr>bi_name = ''route.pass'', bi_args = [], bi_result = TAction\<rparr>,
     \<lparr>bi_name = ''route.proxy'', bi_args = [TString], bi_result = TAction\<rparr>,
     \<lparr>bi_name = ''resp.reply'', bi_args = [TInt, TString], bi_result = TAction\<rparr>,
     \<lparr>bi_name = ''str.concat'', bi_args = [TString, TString], bi_result = TString\<rparr>,
     \<lparr>bi_name = ''str.eq'', bi_args = [TString, TString], bi_result = TBool\<rparr>,
     \<lparr>bi_name = ''str.starts_with'', bi_args = [TString, TString], bi_result = TBool\<rparr>,
     \<lparr>bi_name = ''str.contains'', bi_args = [TString, TString], bi_result = TBool\<rparr>,
     \<lparr>bi_name = ''str.len'', bi_args = [TString], bi_result = TInt\<rparr>,
     \<lparr>bi_name = ''str.lower'', bi_args = [TString], bi_result = TString\<rparr>,
     \<lparr>bi_name = ''req.body'', bi_args = [], bi_result = TString\<rparr>,
     \<lparr>bi_name = ''req.body_len'', bi_args = [], bi_result = TInt\<rparr>,
     \<lparr>bi_name = ''req.body_complete'', bi_args = [], bi_result = TBool\<rparr>,
     \<lparr>bi_name = ''req.body_truncated'', bi_args = [], bi_result = TBool\<rparr>,
     \<lparr>bi_name = ''req.body_contains'', bi_args = [TString], bi_result = TBool\<rparr>,
     \<lparr>bi_name = ''req.json_string'', bi_args = [TString], bi_result = TString\<rparr>,
     \<lparr>bi_name = ''req.json_int'', bi_args = [TString, TInt], bi_result = TInt\<rparr>,
     \<lparr>bi_name = ''req.json_bool'', bi_args = [TString, TBool], bi_result = TBool\<rparr>,
     \<lparr>bi_name = ''req.claim'', bi_args = [TString], bi_result = TString\<rparr>,
     \<lparr>bi_name = ''req.arg'', bi_args = [TString], bi_result = TString\<rparr>,
     \<lparr>bi_name = ''req.cookie'', bi_args = [TString], bi_result = TString\<rparr>,
     \<lparr>bi_name = ''str.hash'', bi_args = [TString], bi_result = TInt\<rparr>]"

datatype instr =
    I64Const "64 word" | LocalGet nat | LocalSet nat | CallFn nat | Drop | ReturnI
  | BlockI | LoopI | IfI bool | ElseI | EndI | Br nat | BrIf nat
  | I64Eqz | I32Eqz | I64ExtendI32U
  | I64Add | I64Sub | I64Mul | I64DivS | I64RemS
  | I64Eq | I64Ne | I64LtS | I64GtS | I64LeS | I64GeS

record built =
  bf_params :: nat
  bf_locals :: nat
  bf_code :: "instr list"

record builder =
  bd_ast :: "(string, func) btree"
  bd_functions :: "built option list"
  bd_signatures :: "(string, nat \<times> ty list \<times> ty) btree"
  bd_active :: "string list"
  bd_data :: string

record fcomp =
  fc_builder :: builder
  fc_vars :: "(string, nat \<times> ty) btree"
  fc_next :: nat
  fc_code :: "instr list"
  fc_result :: "ty option"

datatype compile_error =
    Syntax rgl_error
  | XdpEntry | RequestResult | ResponseResult | IncompleteFunction
  | TraversalDepth | RecursiveCall string | InconsistentCall string | UnknownFunction string
  | ArgumentCount string | CallDepth | MissingReturn string
  | LocalType string | UnknownVariable string | AssignType string | ReturnType | WhileCondition | IfCondition
  | MissingBuiltin | LiteralMemory | ReservedLiteral | WrongArguments string
  | NegationType | NotType | LogicalType | ConcatType | CompareType | OperatorType string | UnsupportedOperator string

type_synonym 'a compM = "(fcomp, compile_error, 'a) smethod"

section \<open>Emission\<close>

definition compatible :: "ty \<Rightarrow> ty \<Rightarrow> bool" where
  "compatible expected actual \<longleftrightarrow> expected = actual \<or> expected = TString \<and> actual = TNil"

fun returns :: "stmt list \<Rightarrow> bool"
  and returns_stmt :: "stmt \<Rightarrow> bool" where
  "returns [] = False"
| "returns [s] = returns_stmt s"
| "returns (s # t # ss) = returns (t # ss)"
| "returns_stmt (SReturn _) = True"
| "returns_stmt (SIf bs other) = (returns other \<and> list_all (\<lambda>b. returns (snd b)) bs)"
| "returns_stmt _ = False"

definition emit :: "instr list \<Rightarrow> unit compM" where
  "emit is = modifyS (\<lambda>s. s\<lparr>fc_code := fc_code s @ is\<rparr>)"

definition in_builder :: "(builder, compile_error, 'a) smethod \<Rightarrow> 'a compM" where
  "in_builder m = (\<lambda>s. bindR (m (fc_builder s)) (\<lambda>(x, b). Inr (x, s\<lparr>fc_builder := b\<rparr>)))"

definition call_builtin :: "string \<Rightarrow> ty compM" where
  "call_builtin name =
     (case position (\<lambda>b. bi_name b = name) BUILTINS of
        None \<Rightarrow> failS MissingBuiltin
      | Some i \<Rightarrow> thenS (emit [CallFn i]) (returnS (bi_result (BUILTINS ! i))))"

definition binary_instr :: "string \<Rightarrow> (instr \<times> bool) option" where
  "binary_instr op =
     (if op = ''+'' then Some (I64Add, False) else if op = ''-'' then Some (I64Sub, False)
      else if op = ''*'' then Some (I64Mul, False) else if op = ''/'' then Some (I64DivS, False)
      else if op = ''%'' then Some (I64RemS, False) else if op = ''<'' then Some (I64LtS, True)
      else if op = ''>'' then Some (I64GtS, True) else if op = ''<='' then Some (I64LeS, True)
      else if op = ''>='' then Some (I64GeS, True) else None)"

definition literal_limit :: nat where "literal_limit = 8 * 1024 * 1024"

definition compile_string :: "string \<Rightarrow> ty compM" where
  "compile_string v =
     bindS (getS (\<lambda>s. length (bd_data (fc_builder s)))) (\<lambda>offset.
     thenS (modifyS (\<lambda>s. s\<lparr>fc_builder := (fc_builder s)\<lparr>bd_data := bd_data (fc_builder s) @ v\<rparr>\<rparr>))
     (bindS (getS (\<lambda>s. length (bd_data (fc_builder s)))) (\<lambda>size.
     thenS (ensureS (size \<le> literal_limit) LiteralMemory)
     (thenS (emit [I64Const (of_nat offset), I64Const (of_nat (length v))])
     (call_builtin ''constant'')))))"

definition compile_var :: "string \<Rightarrow> ty compM" where
  "compile_var x =
     bindS (getS (\<lambda>s. bt_get (fc_vars s) x)) (\<lambda>v.
     case v of None \<Rightarrow> failS (UnknownVariable x)
     | Some (i, t) \<Rightarrow> thenS (emit [LocalGet i]) (returnS t))"

text \<open>The instructions of a binary operator other than \<open>and\<close> and \<open>or\<close>, once both operands are on the stack.\<close>

definition compile_operator :: "string \<Rightarrow> ty \<Rightarrow> ty \<Rightarrow> ty compM" where
  "compile_operator op left right =
     (if op = ''..'' then
        thenS (ensureS (left = TString \<and> right = TString) ConcatType) (call_builtin ''str.concat'')
      else if op = ''=='' \<or> op = ''~='' then
        thenS (ensureS (compatible left right \<or> compatible right left) CompareType)
        (thenS
          (if left \<in> {TString, TNil} \<and> right \<in> {TString, TNil} then
             thenS (call_builtin ''str.eq'') (if op = ''~='' then emit [I64Eqz, I64ExtendI32U] else returnS ())
           else emit [if op = ''=='' then I64Eq else I64Ne, I64ExtendI32U])
        (returnS TBool))
      else
        thenS (ensureS (left = TInt \<and> right = TInt) (OperatorType op))
        (case binary_instr op of
           None \<Rightarrow> failS (UnsupportedOperator op)
         | Some (i, comparison) \<Rightarrow>
             thenS (emit [i])
             (thenS (if comparison then emit [I64ExtendI32U] else returnS ())
             (returnS (if comparison then TBool else TInt)))))"

definition set_local :: "string \<Rightarrow> ty \<Rightarrow> unit compM" where
  "set_local x t =
     bindS (getS fc_next) (\<lambda>i.
     thenS (modifyS (\<lambda>s. s\<lparr>fc_next := i + 1, fc_vars := bt_insert x (i, t) (fc_vars s)\<rparr>))
     (emit [LocalSet i]))"

definition set_result :: "ty \<Rightarrow> unit compM" where
  "set_result t =
     bindS (getS fc_result) (\<lambda>r.
     thenS (ensureS (is_none_or r (\<lambda>expected. expected = t)) ReturnType)
     (thenS (modifyS (\<lambda>s. s\<lparr>fc_result := Some t\<rparr>))
     (emit [ReturnI])))"

text \<open>The callee of a call: a builtin that scripts may name, or a function of the program.\<close>

definition find_callee :: "string \<Rightarrow> nat option" where
  "find_callee name = position (\<lambda>b. bi_name b = name \<and> bi_name b \<noteq> ''constant'') BUILTINS"

definition new_fcomp :: "builder \<Rightarrow> string list \<Rightarrow> ty list \<Rightarrow> fcomp" where
  "new_fcomp b ps tys =
     \<lparr>fc_builder = b,
      fc_vars = bt_collect (map (\<lambda>(i, (x, t)). (x, (i, t))) (zip [0..<length ps] (zip ps tys))),
      fc_next = length tys, fc_code = [], fc_result = None\<rparr>"

text \<open>The checks of \<open>function_inner\<close> before the body is compiled: an answer that is known, or the function to compile.\<close>

definition lookup_function ::
  "string \<Rightarrow> ty list \<Rightarrow> builder \<Rightarrow> (compile_error, (nat \<times> ty) + func) result" where
  "lookup_function name tys b =
     bindR (ensure (name \<notin> set (bd_active b)) (RecursiveCall name)) (\<lambda>_.
     case bt_get (bd_signatures b) name of
       Some (i, known, t) \<Rightarrow> bindR (ensure (known = tys) (InconsistentCall name)) (\<lambda>_. Inr (Inl (i, t)))
     | None \<Rightarrow>
         bindR (ok_or (bt_get (bd_ast b) name) (UnknownFunction name)) (\<lambda>f.
         bindR (ensure (length (fn_params f) = length tys) (ArgumentCount name)) (\<lambda>_.
         bindR (ensure (length (bd_active b) < 64) CallDepth) (\<lambda>_.
         Inr (Inr f)))))"

definition begin_function :: "string \<Rightarrow> builder \<Rightarrow> builder" where
  "begin_function name b = b\<lparr>bd_active := name # bd_active b, bd_functions := bd_functions b @ [None]\<rparr>"

definition finish_function ::
  "string \<Rightarrow> ty list \<Rightarrow> nat \<Rightarrow> func \<Rightarrow> fcomp \<Rightarrow> (compile_error, (nat \<times> ty) \<times> builder) result" where
  "finish_function name tys slot f s =
     (let t = (case fc_result s of None \<Rightarrow> TVoid | Some t \<Rightarrow> t); b = fc_builder s; i = length BUILTINS + slot in
      bindR (ensure (name = ''on_request'' \<or> t = TVoid \<or> returns (fn_body f)) (MissingReturn name)) (\<lambda>_.
      Inr ((i, t),
        b\<lparr>bd_functions := (bd_functions b)[slot := Some \<lparr>bf_params = length tys,
              bf_locals = fc_next s - length tys, bf_code = fc_code s @ [I64Const 0, EndI]\<rparr>],
          bd_active := remove1 name (bd_active b),
          bd_signatures := bt_insert name (i, tys, t) (bd_signatures b)\<rparr>)))"

lemma size_list_length_le: "length xs \<le> size_list f xs"
  by (induction xs) auto

function compile_function :: "nat \<Rightarrow> string \<Rightarrow> ty list \<Rightarrow> (builder, compile_error, nat \<times> ty) smethod"
  and compile_block :: "nat \<Rightarrow> stmt list \<Rightarrow> unit compM"
  and compile_stmts :: "nat \<Rightarrow> stmt list \<Rightarrow> unit compM"
  and compile_statement :: "nat \<Rightarrow> stmt \<Rightarrow> unit compM"
  and compile_branch :: "nat \<Rightarrow> (expr \<times> stmt list) list \<Rightarrow> stmt list \<Rightarrow> unit compM"
  and compile_branch_inner :: "nat \<Rightarrow> (expr \<times> stmt list) list \<Rightarrow> stmt list \<Rightarrow> unit compM"
  and compile_expr :: "nat \<Rightarrow> expr \<Rightarrow> ty compM"
  and compile_expr_inner :: "nat \<Rightarrow> expr \<Rightarrow> ty compM"
  and compile_args :: "nat \<Rightarrow> expr list \<Rightarrow> ty list compM" where
  "compile_function 0 name tys = failS TraversalDepth"
| "compile_function (Suc n) name tys = (\<lambda>b.
     bindR (lookup_function name tys b) (\<lambda>found.
     case found of
       Inl known \<Rightarrow> Inr (known, b)
     | Inr f \<Rightarrow>
         bindR (compile_block n (fn_body f) (new_fcomp (begin_function name b) (fn_params f) tys)) (\<lambda>(_, s).
         finish_function name tys (length (bd_functions b)) f s)))"
| "compile_block 0 body = failS TraversalDepth"
| "compile_block (Suc n) body =
     bindS (getS fc_vars) (\<lambda>outer.
     thenS (compile_stmts n body)
     (modifyS (\<lambda>s. s\<lparr>fc_vars := outer\<rparr>)))"
| "compile_stmts n [] = returnS ()"
| "compile_stmts n (s # ss) = thenS (compile_statement n s) (compile_stmts n ss)"
| "compile_statement n (SLocal x e) =
     bindS (compile_expr n e) (\<lambda>t.
     thenS (ensureS (t \<noteq> TVoid \<and> t \<noteq> TNil) (LocalType x))
     (set_local x t))"
| "compile_statement n (SAssign x e) =
     bindS (getS (\<lambda>s. bt_get (fc_vars s) x)) (\<lambda>v.
     case v of
       None \<Rightarrow> failS (UnknownVariable x)
     | Some (i, t) \<Rightarrow>
         bindS (compile_expr n e) (\<lambda>actual.
         thenS (ensureS (compatible t actual) (AssignType x))
         (emit [LocalSet i])))"
| "compile_statement n (SCall e) = thenS (compile_expr n e) (emit [Drop])"
| "compile_statement n (SReturn e) =
     bindS (case e of
              Some v \<Rightarrow> compile_expr n v
            | None \<Rightarrow> thenS (emit [I64Const 0]) (returnS TVoid)) set_result"
| "compile_statement n (SWhile e body) =
     thenS (emit [BlockI, LoopI])
     (bindS (compile_expr n e) (\<lambda>t.
     thenS (ensureS (t = TBool) WhileCondition)
     (thenS (emit [I64Eqz, BrIf 1])
     (thenS (compile_block n body)
     (emit [Br 0, EndI, EndI])))))"
| "compile_statement n (SIf bs other) = compile_branch n bs other"
| "compile_branch 0 bs other = failS TraversalDepth"
| "compile_branch (Suc n) bs other = compile_branch_inner n bs other"
| "compile_branch_inner n [] other = compile_block n other"
| "compile_branch_inner n ((e, body) # bs) other =
     bindS (compile_expr n e) (\<lambda>t.
     thenS (ensureS (t = TBool) IfCondition)
     (thenS (emit [I64Eqz, I32Eqz, IfI False])
     (thenS (compile_block n body)
     (thenS (emit [ElseI])
     (thenS (compile_branch n bs other)
     (emit [EndI]))))))"
| "compile_expr 0 e = failS TraversalDepth"
| "compile_expr (Suc n) e = compile_expr_inner n e"
| "compile_expr_inner n (EInt i) = thenS (emit [I64Const i]) (returnS TInt)"
| "compile_expr_inner n (EBool b) = thenS (emit [I64Const (if b then 1 else 0)]) (returnS TBool)"
| "compile_expr_inner n ENil = thenS (emit [I64Const 0]) (returnS TNil)"
| "compile_expr_inner n (EStr v) = compile_string v"
| "compile_expr_inner n (EVar x) = compile_var x"
| "compile_expr_inner n (ECall name es) =
     thenS (ensureS (name \<noteq> ''literal'') ReservedLiteral)
     (bindS (compile_args n es) (\<lambda>tys.
     case find_callee name of
       Some i \<Rightarrow>
         thenS (ensureS (length (bi_args (BUILTINS ! i)) = length tys
                  \<and> list_all2 compatible (bi_args (BUILTINS ! i)) tys) (WrongArguments name))
         (thenS (emit [CallFn i]) (returnS (bi_result (BUILTINS ! i))))
     | None \<Rightarrow>
         bindS (in_builder (compile_function n name tys)) (\<lambda>(i, t).
         thenS (emit [CallFn i]) (returnS t))))"
| "compile_expr_inner n (EUnary op e) =
     (if op = ''-'' then
        thenS (emit [I64Const 0])
        (bindS (compile_expr n e) (\<lambda>t.
        thenS (ensureS (t = TInt) NegationType)
        (thenS (emit [I64Sub]) (returnS TInt))))
      else
        bindS (compile_expr n e) (\<lambda>t.
        thenS (ensureS (t = TBool) NotType)
        (thenS (emit [I64Eqz, I64ExtendI32U]) (returnS TBool))))"
| "compile_expr_inner n (EBinary op a b) =
     bindS (compile_expr n a) (\<lambda>left.
     if op = ''and'' \<or> op = ''or'' then
       thenS (ensureS (left = TBool) LogicalType)
       (thenS (emit [I64Eqz, I32Eqz, IfI True])
       (thenS (if op = ''and'' then bindS (compile_expr n b) (\<lambda>t. ensureS (t = TBool) LogicalType)
               else emit [I64Const 1])
       (thenS (emit [ElseI])
       (thenS (if op = ''or'' then bindS (compile_expr n b) (\<lambda>t. ensureS (t = TBool) LogicalType)
               else emit [I64Const 0])
       (thenS (emit [EndI]) (returnS TBool))))))
     else bindS (compile_expr n b) (\<lambda>right. compile_operator op left right))"
| "compile_args n [] = returnS []"
| "compile_args n (e # es) =
     bindS (compile_expr n e) (\<lambda>t. bindS (compile_args n es) (\<lambda>ts. returnS (t # ts)))"
  by pat_completeness auto

termination
  by (relation "measures
      [case_sum (case_sum (case_sum (\<lambda>(n, _, _). n) (\<lambda>(n, _). n)) (case_sum (\<lambda>(n, _). n) (\<lambda>(n, _). n)))
         (case_sum (case_sum (\<lambda>(n, _, _). n) (\<lambda>(n, _, _). n)) (case_sum (\<lambda>(n, _). n) (case_sum (\<lambda>(n, _). n) (\<lambda>(n, _). n)))),
       case_sum (case_sum (case_sum (\<lambda>_. 0) (\<lambda>_. 0)) (case_sum (\<lambda>(_, ss). 2 + length ss) (\<lambda>_. 1)))
         (case_sum (case_sum (\<lambda>_. 0) (\<lambda>_. 1)) (case_sum (\<lambda>_. 0) (case_sum (\<lambda>(_, e). 2 + size e) (\<lambda>(_, es). 1 + length es))))]")
    (simp_all add: less_Suc_eq_le size_list_length_le le_SucI)

section \<open>Linking\<close>

text \<open>
  A module as its sections: a type is its number of \<open>i64\<close> parameters (every function returns one \<open>i64\<close>), an import
  and a function carry their type index, an export its function index, a body its number of locals
  and its instructions.
\<close>

record wasm_module =
  md_types :: "nat list"
  md_imports :: "(string \<times> nat) list"
  md_functions :: "nat list"
  md_exports :: "(string \<times> nat) list"
  md_code :: "(nat \<times> instr list) list"
  md_constants :: string

definition used_imports :: "built list \<Rightarrow> bool list" where
  "used_imports fs = map (\<lambda>i. \<exists>f\<in>set fs. CallFn i \<in> set (bf_code f)) [0..<length BUILTINS]"

definition import_count :: "bool list \<Rightarrow> nat" where
  "import_count used = length (filter (\<lambda>u. u) used)"

definition link_indices :: "bool list \<Rightarrow> nat \<Rightarrow> nat list" where
  "link_indices used count =
     map (\<lambda>i. if used ! i then import_count (take i used) else 0) [0..<length BUILTINS]
     @ map (\<lambda>i. import_count used + i) [0..<count]"

fun relocate :: "nat list \<Rightarrow> instr \<Rightarrow> instr" where
  "relocate indices (CallFn i) = CallFn (indices ! i)"
| "relocate indices ins = ins"

definition link_module :: "built list \<Rightarrow> nat \<Rightarrow> nat option \<Rightarrow> string \<Rightarrow> wasm_module" where
  "link_module fs req resp data =
     (let used = used_imports fs;
          indices = link_indices used (length fs);
          imported = filter (\<lambda>i. used ! i) [0..<length BUILTINS]
      in \<lparr>md_types = map (\<lambda>i. length (bi_args (BUILTINS ! i))) imported @ map bf_params fs,
          md_imports = map (\<lambda>i. (bi_name (BUILTINS ! i), indices ! i)) imported,
          md_functions = map (\<lambda>i. import_count used + i) [0..<length fs],
          md_exports = (''on_request'', indices ! req)
            # (case resp of None \<Rightarrow> [] | Some i \<Rightarrow> [(''on_response'', indices ! i)]),
          md_code = map (\<lambda>f. (bf_locals f, map (relocate indices) (bf_code f))) fs,
          md_constants = data\<rparr>)"

fun all_some :: "'a option list \<Rightarrow> 'a list option" where
  "all_some [] = Some []"
| "all_some (None # xs) = None"
| "all_some (Some x # xs) = map_option (\<lambda>ys. x # ys) (all_some xs)"

definition compile_program :: "func list \<Rightarrow> (compile_error, wasm_module) result" where
  "compile_program fs =
     bindR (ensure (\<forall>f\<in>set fs. fn_name f \<noteq> ''on_xdp'') XdpEntry) (\<lambda>_.
     let b0 = \<lparr>bd_ast = bt_collect (map (\<lambda>f. (fn_name f, f)) fs), bd_functions = [], bd_signatures = [],
                bd_active = [], bd_data = []\<rparr>
     in bindR (compile_function 128 ''on_request'' [] b0) (\<lambda>((req, t), b1).
        bindR (ensure (t \<in> {TAction, TVoid}) RequestResult) (\<lambda>_.
        bindR (if bt_get (bd_ast b1) ''on_response'' \<noteq> None then
                 bindR (compile_function 128 ''on_response'' [] b1) (\<lambda>((i, t'), b2).
                 bindR (ensure (t' = TVoid) ResponseResult) (\<lambda>_. Inr (Some i, b2)))
               else Inr (None, b1)) (\<lambda>(resp, b2).
        bindR (ok_or (all_some (bd_functions b2)) IncompleteFunction) (\<lambda>built.
        Inr (link_module built req resp (bd_data b2)))))))"

definition compile_inner :: "string \<Rightarrow> (compile_error, wasm_module) result" where
  "compile_inner source =
     (case parse source of
        Inl e \<Rightarrow> Inl (Syntax e)
      | Inr fs \<Rightarrow> compile_program fs)"

section \<open>Validation\<close>

text \<open>
  Validation of a function body, as the Wasm specification defines it for the instructions the
  compiler emits. A frame keeps what \<open>end\<close> restores: the operands below the block, whether the code
  around it was unreachable, the result type and whether \<open>else\<close> may still come. A branch targets the
  start of a \<open>loop\<close> or the end of the other blocks, which here take no operands, except that the
  outermost frame is the function body.
\<close>

datatype vt = I32 | I64

record frame =
  fr_stack :: "vt list"
  fr_unreachable :: bool
  fr_result :: "vt list"
  fr_else :: bool
  fr_label :: "vt list"

record vstate =
  vs_stack :: "vt list"
  vs_unreachable :: bool
  vs_frames :: "frame list"

record venv =
  ve_arity :: "nat \<Rightarrow> nat option"
  ve_locals :: nat

definition vpop :: "vt \<Rightarrow> vstate \<Rightarrow> vstate option" where
  "vpop t s =
     (case vs_stack s of
        [] \<Rightarrow> if vs_unreachable s then Some s else None
      | u # us \<Rightarrow> if u = t then Some (s\<lparr>vs_stack := us\<rparr>) else None)"

fun vpops :: "vt list \<Rightarrow> vstate \<Rightarrow> vstate option" where
  "vpops [] s = Some s"
| "vpops (t # ts) s = Option.bind (vpop t s) (vpops ts)"

definition vpush :: "vt list \<Rightarrow> vstate \<Rightarrow> vstate" where
  "vpush ts s = s\<lparr>vs_stack := ts @ vs_stack s\<rparr>"

definition vop :: "vt list \<Rightarrow> vt list \<Rightarrow> vstate \<Rightarrow> vstate option" where
  "vop ins outs s = map_option (vpush outs) (vpops ins s)"

definition vdead :: "vstate \<Rightarrow> vstate" where
  "vdead s = s\<lparr>vs_stack := [], vs_unreachable := True\<rparr>"

definition venter :: "vt list \<Rightarrow> vt list \<Rightarrow> bool \<Rightarrow> vstate \<Rightarrow> vstate" where
  "venter label result els s =
     \<lparr>vs_stack = [], vs_unreachable = False,
      vs_frames = \<lparr>fr_stack = vs_stack s, fr_unreachable = vs_unreachable s, fr_result = result,
        fr_else = els, fr_label = label\<rparr> # vs_frames s\<rparr>"

definition vclose :: "vstate \<Rightarrow> vstate option" where
  "vclose s =
     (case vs_frames s of
        [] \<Rightarrow> None
      | f # fs \<Rightarrow> Option.bind (vpops (fr_result f) s) (\<lambda>s'. if vs_stack s' = [] then Some s' else None))"

definition vlabel :: "nat \<Rightarrow> vstate \<Rightarrow> vt list option" where
  "vlabel k s = map_option fr_label (slice_get (vs_frames s) k)"

fun vstep :: "venv \<Rightarrow> instr \<Rightarrow> vstate \<Rightarrow> vstate option" where
  "vstep E (I64Const v) s = vop [] [I64] s"
| "vstep E (LocalGet i) s = (if i < ve_locals E then vop [] [I64] s else None)"
| "vstep E (LocalSet i) s = (if i < ve_locals E then vop [I64] [] s else None)"
| "vstep E (CallFn i) s = Option.bind (ve_arity E i) (\<lambda>n. vop (replicate n I64) [I64] s)"
| "vstep E Drop s =
     (case vs_stack s of [] \<Rightarrow> if vs_unreachable s then Some s else None | _ # us \<Rightarrow> Some (s\<lparr>vs_stack := us\<rparr>))"
| "vstep E ReturnI s = map_option vdead (vpop I64 s)"
| "vstep E BlockI s = Some (venter [] [] False s)"
| "vstep E LoopI s = Some (venter [] [] False s)"
| "vstep E (IfI r) s =
     map_option (venter (if r then [I64] else []) (if r then [I64] else []) True) (vpop I32 s)"
| "vstep E ElseI s =
     Option.bind (vclose s) (\<lambda>s'.
     if fr_else (hd (vs_frames s))
     then Some \<lparr>vs_stack = [], vs_unreachable = False, vs_frames = (hd (vs_frames s))\<lparr>fr_else := False\<rparr> # tl (vs_frames s)\<rparr>
     else None)"
| "vstep E EndI s =
     Option.bind (vclose s) (\<lambda>s'.
     let f = hd (vs_frames s) in
     if fr_else f \<and> fr_result f \<noteq> [] \<or> tl (vs_frames s) = [] then None
     else Some \<lparr>vs_stack = fr_result f @ fr_stack f, vs_unreachable = fr_unreachable f, vs_frames = tl (vs_frames s)\<rparr>)"
| "vstep E (Br k) s = Option.bind (vlabel k s) (\<lambda>ts. map_option vdead (vpops ts s))"
| "vstep E (BrIf k) s =
     Option.bind (vpop I32 s) (\<lambda>s'. Option.bind (vlabel k s') (\<lambda>ts. vop ts ts s'))"
| "vstep E I64Eqz s = vop [I64] [I32] s"
| "vstep E I32Eqz s = vop [I32] [I32] s"
| "vstep E I64ExtendI32U s = vop [I32] [I64] s"
| "vstep E i s = (if i \<in> {I64Add, I64Sub, I64Mul, I64DivS, I64RemS} then vop [I64, I64] [I64] s else vop [I64, I64] [I32] s)"

fun vrun :: "venv \<Rightarrow> instr list \<Rightarrow> vstate \<Rightarrow> vstate option" where
  "vrun E [] s = Some s"
| "vrun E (i # is) s = Option.bind (vstep E i s) (vrun E is)"

text \<open>The last \<open>end\<close> of a body closes the function; the others close a block inside it.\<close>

definition function_start :: vstate where
  "function_start = venter [I64] [I64] False \<lparr>vs_stack = [], vs_unreachable = False, vs_frames = []\<rparr>"

definition validate_body :: "venv \<Rightarrow> instr list \<Rightarrow> bool" where
  "validate_body E code \<longleftrightarrow>
     code \<noteq> [] \<and> last code = EndI
     \<and> is_some_and (vrun E (butlast code) function_start) (\<lambda>s. length (vs_frames s) = 1 \<and> vclose s \<noteq> None)"

lemma vrun_append: "vrun E (is @ js) s = Option.bind (vrun E is s) (vrun E js)"
  by (induction "is" arbitrary: s) (simp_all split: bind_split)

lemma vpops_frames: "vpops ts s = Some s' \<Longrightarrow> vs_frames s' = vs_frames s"
  by (induction ts arbitrary: s) (auto simp: vpop_def bind_eq_Some_conv split: list.splits if_splits)

lemma vop_frames: "vop ins outs s = Some s' \<Longrightarrow> vs_frames s' = vs_frames s"
  by (auto simp: vop_def vpush_def dest: vpops_frames)

lemma vpop_frames: "vpop t s = Some s' \<Longrightarrow> vs_frames s' = vs_frames s"
  using vpops_frames [of "[t]" s s'] by simp

lemma vstep_frames: "vstep E i s = Some s' \<Longrightarrow> vs_frames s \<noteq> [] \<Longrightarrow> vs_frames s' \<noteq> []"
  by (cases i)
    (auto simp: venter_def vdead_def Let_def bind_eq_Some_conv dest!: vop_frames vpop_frames vpops_frames
      split: if_splits list.splits)

lemma vrun_frames: "vrun E is s = Some s' \<Longrightarrow> vs_frames s \<noteq> [] \<Longrightarrow> vs_frames s' \<noteq> []"
  by (induction "is" arbitrary: s) (auto simp: bind_eq_Some_conv dest: vstep_frames)

definition env_le :: "venv \<Rightarrow> venv \<Rightarrow> bool" where
  "env_le E E' \<longleftrightarrow> ve_arity E \<subseteq>\<^sub>m ve_arity E' \<and> ve_locals E \<le> ve_locals E'"

lemma env_le_refl [simp]: "env_le E E"
  by (simp add: env_le_def)

lemma env_le_trans: "env_le E E' \<Longrightarrow> env_le E' E'' \<Longrightarrow> env_le E E''"
  by (auto simp: env_le_def intro: map_le_trans)

definition arity_of :: "builder \<Rightarrow> nat \<Rightarrow> nat option" where
  "arity_of b i =
     (if i < length BUILTINS then Some (length (bi_args (BUILTINS ! i)))
      else Option.bind (slice_get (bd_functions b) (i - length BUILTINS)) (map_option bf_params))"

definition fenv :: "fcomp \<Rightarrow> venv" where
  "fenv s = \<lparr>ve_arity = arity_of (fc_builder s), ve_locals = fc_next s\<rparr>"

definition built_env :: "builder \<Rightarrow> built \<Rightarrow> venv" where
  "built_env b f = \<lparr>ve_arity = arity_of b, ve_locals = bf_params f + bf_locals f\<rparr>"

text \<open>
  \<open>builder_ok\<close>: every finished function validates, and every signature is of a finished function with as
  many parameters. \<open>extends\<close>: functions and literals are only added, and the added functions are finished.
\<close>

definition builder_ok :: "builder \<Rightarrow> bool" where
  "builder_ok b \<longleftrightarrow>
     (\<forall>f. Some f \<in> set (bd_functions b) \<longrightarrow> validate_body (built_env b f) (bf_code f))
     \<and> (\<forall>name i tys t. bt_get (bd_signatures b) name = Some (i, tys, t) \<longrightarrow> arity_of b i = Some (length tys) \<and> length BUILTINS \<le> i)"

definition extends :: "builder \<Rightarrow> builder \<Rightarrow> bool" where
  "extends b b' \<longleftrightarrow>
     bd_ast b' = bd_ast b \<and> (\<exists>fs. bd_functions b' = bd_functions b @ fs \<and> None \<notin> set fs)
     \<and> (\<exists>d. bd_data b' = bd_data b @ d)"

lemma extends_refl [simp]: "extends b b"
  by (simp add: extends_def)

lemma extends_trans: "extends b b' \<Longrightarrow> extends b' b'' \<Longrightarrow> extends b b''"
  by (auto simp: extends_def)

lemma arity_of_extends: "extends b b' \<Longrightarrow> arity_of b \<subseteq>\<^sub>m arity_of b'"
  by (auto simp: extends_def arity_of_def map_le_def slice_get_def nth_append)

definition vars_ok :: "fcomp \<Rightarrow> bool" where
  "vars_ok s \<longleftrightarrow> (\<forall>x i t. bt_get (fc_vars s) x = Some (i, t) \<longrightarrow> i < fc_next s)"

text \<open>
  \<open>typed s0 st0 s st\<close>: from \<open>s0\<close> the compiler has come to \<open>s\<close> and emitted code that takes the validator from
  \<open>st0\<close> to \<open>st\<close>, in every environment that has at least the functions and locals known at \<open>s\<close>.
\<close>

definition typed :: "fcomp \<Rightarrow> vstate \<Rightarrow> fcomp \<Rightarrow> vstate \<Rightarrow> bool" where
  "typed s0 st0 s st \<longleftrightarrow>
     extends (fc_builder s0) (fc_builder s) \<and> builder_ok (fc_builder s) \<and> fc_next s0 \<le> fc_next s \<and> vars_ok s
     \<and> vs_frames st0 \<noteq> [] \<and> (\<exists>c. fc_code s = fc_code s0 @ c \<and> (\<forall>E. env_le (fenv s) E \<longrightarrow> vrun E c st0 = Some st))"

lemma fenv_mono: "extends (fc_builder s) (fc_builder t) \<Longrightarrow> fc_next s \<le> fc_next t \<Longrightarrow> env_le (fenv s) (fenv t)"
  by (simp add: env_le_def fenv_def arity_of_extends)

lemma typed_refl: "builder_ok (fc_builder s) \<Longrightarrow> vars_ok s \<Longrightarrow> vs_frames st \<noteq> [] \<Longrightarrow> typed s st s st"
  by (simp add: typed_def)

lemma typed_frames: "typed s0 st0 s st \<Longrightarrow> vs_frames st \<noteq> []"
  unfolding typed_def using env_le_refl vrun_frames by blast

lemma typed_self: "typed s0 st0 s st \<Longrightarrow> typed s st s st"
  using typed_frames [of s0 st0 s st] by (simp add: typed_def)

lemma typed_trans: "typed s0 st0 s st \<Longrightarrow> typed s st t st' \<Longrightarrow> typed s0 st0 t st'"
proof -
  assume a: "typed s0 st0 s st" and b: "typed s st t st'"
  then have le: "env_le (fenv s) (fenv t)" by (auto simp: typed_def intro: fenv_mono)
  from a obtain c where c: "fc_code s = fc_code s0 @ c" "\<And>E. env_le (fenv s) E \<Longrightarrow> vrun E c st0 = Some st"
    by (auto simp: typed_def)
  from b obtain d where d: "fc_code t = fc_code s @ d" "\<And>E. env_le (fenv t) E \<Longrightarrow> vrun E d st = Some st'"
    by (auto simp: typed_def)
  have "vrun E (c @ d) st0 = Some st'" if "env_le (fenv t) E" for E
    using that c(2) [OF env_le_trans [OF le that]] d(2) by (simp add: vrun_append)
  with a b c(1) d(1) show ?thesis
    unfolding typed_def by (auto intro: extends_trans intro!: exI [of _ "c @ d"])
qed

text \<open>The errors of a compilation are the diagnostics on the program, never an unfinished function.\<close>

definition diagnostic :: "compile_error \<Rightarrow> bool" where
  "diagnostic e \<longleftrightarrow> e \<noteq> IncompleteFunction"

lemma diagnostic_simps [simp]:
  "diagnostic TraversalDepth" "diagnostic (RecursiveCall f)" "diagnostic (InconsistentCall f)" "diagnostic (UnknownFunction f)"
  "diagnostic (ArgumentCount f)" "diagnostic CallDepth" "diagnostic (MissingReturn f)" "diagnostic (LocalType f)"
  "diagnostic (UnknownVariable f)" "diagnostic (AssignType f)" "diagnostic ReturnType" "diagnostic WhileCondition"
  "diagnostic IfCondition" "diagnostic MissingBuiltin" "diagnostic LiteralMemory" "diagnostic ReservedLiteral"
  "diagnostic (WrongArguments f)" "diagnostic NegationType" "diagnostic NotType" "diagnostic LogicalType"
  "diagnostic ConcatType" "diagnostic CompareType" "diagnostic (OperatorType f)" "diagnostic (UnsupportedOperator f)"
  "diagnostic (Syntax e)" "diagnostic XdpEntry" "diagnostic RequestResult" "diagnostic ResponseResult"
  by (simp_all add: diagnostic_def)

abbreviation compiles :: "('s, compile_error, 'a) smethod \<Rightarrow> ('a \<Rightarrow> 's \<Rightarrow> bool) \<Rightarrow> 's \<Rightarrow> bool" where
  "compiles \<equiv> wp diagnostic"

lemma typed_emit:
  assumes "typed s0 st0 s st" and "\<And>E. env_le (fenv s) E \<Longrightarrow> vrun E is st = Some st'"
  shows "typed s0 st0 (s\<lparr>fc_code := fc_code s @ is\<rparr>) st'"
  by (rule typed_trans [OF assms(1)])
    (use assms typed_frames [OF assms(1)] in \<open>auto simp: typed_def vars_ok_def fenv_def\<close>)

lemma run_emit:
  "typed s0 st0 s st \<Longrightarrow> (\<And>E. env_le (fenv s) E \<Longrightarrow> vrun E is st = Some st')
     \<Longrightarrow> (\<And>t. typed s0 st0 t st' \<Longrightarrow> fc_vars t = fc_vars s \<Longrightarrow> Q () t) \<Longrightarrow> compiles (emit is) Q s"
  by (auto simp: emit_def typed_emit)

text \<open>Validator runs of the emitted sequences.\<close>

lemma vpush_simps [simp]:
  "vpush [] st = st" "vs_stack (vpush ts st) = ts @ vs_stack st" "vs_frames (vpush ts st) = vs_frames st"
  "vs_unreachable (vpush ts st) = vs_unreachable st" "vpush ts (vpush us st) = vpush (ts @ us) st"
  "(vpush ts st)\<lparr>vs_stack := vs_stack st\<rparr> = st"
  by (simp_all add: vpush_def)

lemma vpop_vpush [simp]: "vpop t (vpush (u # us) st) = (if u = t then Some (vpush us st) else None)"
  by (simp add: vpop_def vpush_def)

lemma vpops_replicate [simp]: "vpops (replicate n t) (vpush (replicate n t @ us) st) = Some (vpush us st)"
  by (induction n) simp_all

lemma vop_vpush [simp]:
  "vop [] os st = Some (vpush os st)"
  "vop [a] os (vpush (a # us) st) = Some (vpush (os @ us) st)"
  "vop [a, b] os (vpush (a # b # us) st) = Some (vpush (os @ us) st)"
  by (simp_all add: vop_def)

lemma venter_simps [simp]:
  "vs_stack (venter l r e st) = []" "vs_unreachable (venter l r e st) = False" "vs_frames (venter l r e st) \<noteq> []"
  by (simp_all add: venter_def)

lemma vpops_vpush [simp]: "vpops ts (vpush (ts @ us) st) = Some (vpush us st)"
  by (induction ts) simp_all

lemma vpush_eq:
  "\<lparr>vs_stack = r @ vs_stack st, vs_unreachable = vs_unreachable st, vs_frames = vs_frames st\<rparr> = vpush r st"
  by (simp add: vpush_def)

lemma vstep_else:
  "vstep E ElseI (vpush r ((venter l r True st)\<lparr>vs_unreachable := u\<rparr>)) = Some (venter l r False st)"
  "vstep E ElseI (vpush r (venter l r True st)) = Some (venter l r False st)"
  using vpops_vpush [of r "[]"] by (simp_all add: vclose_def venter_def)

lemma vstep_end:
  "vs_frames st \<noteq> [] \<Longrightarrow> vstep E EndI (vpush r ((venter l r False st)\<lparr>vs_unreachable := u\<rparr>)) = Some (vpush r st)"
  "vs_frames st \<noteq> [] \<Longrightarrow> vstep E EndI (vpush r (venter l r False st)) = Some (vpush r st)"
  using vpops_vpush [of r "[]"] by (simp_all add: vclose_def venter_def vpush_eq)

declare vstep.simps(10,11) [simp del]

lemmas vstep_close = vstep_else [where r = "[]", simplified] vstep_end [where r = "[]", simplified]

definition base_typed :: "nat \<Rightarrow> bool" where
  "base_typed n \<longleftrightarrow>
     (\<forall>name tys b. builder_ok b \<longrightarrow>
        compiles (compile_function n name tys)
          (\<lambda>(i, t) b'. extends b b' \<and> builder_ok b' \<and> arity_of b' i = Some (length tys) \<and> length BUILTINS \<le> i) b)
   \<and> (\<forall>ss s st. typed s st s st \<longrightarrow> vs_stack st = [] \<longrightarrow>
        compiles (compile_block n ss) (\<lambda>_ t. fc_vars t = fc_vars s \<and> (\<exists>u. typed s st t (st\<lparr>vs_unreachable := u\<rparr>))) s)
   \<and> (\<forall>bs other s st. typed s st s st \<longrightarrow> vs_stack st = [] \<longrightarrow>
        compiles (compile_branch n bs other) (\<lambda>_ t. fc_vars t = fc_vars s \<and> (\<exists>u. typed s st t (st\<lparr>vs_unreachable := u\<rparr>))) s)
   \<and> (\<forall>e s st. typed s st s st \<longrightarrow>
        compiles (compile_expr n e) (\<lambda>_ t. fc_vars t = fc_vars s \<and> typed s st t (vpush [I64] st)) s)"

lemma run_compile_expr:
  assumes "base_typed n" and "typed s0 st0 s st"
    and "\<And>ty t. typed s0 st0 t (vpush [I64] st) \<Longrightarrow> fc_vars t = fc_vars s \<Longrightarrow> Q ty t"
  shows "compiles (compile_expr n e) Q s"
proof -
  have "compiles (compile_expr n e) (\<lambda>_ t. fc_vars t = fc_vars s \<and> typed s st t (vpush [I64] st)) s"
    using assms(1) typed_self [OF assms(2)] unfolding base_typed_def by blast
  then show ?thesis by (rule wp_consequence) (blast intro: assms(3) typed_trans [OF assms(2)])
qed

lemma run_compile_block:
  assumes "base_typed n" and "typed s0 st0 s st" and "vs_stack st = []"
    and "\<And>u t. typed s0 st0 t (st\<lparr>vs_unreachable := u\<rparr>) \<Longrightarrow> fc_vars t = fc_vars s \<Longrightarrow> Q () t"
  shows "compiles (compile_block n ss) Q s"
proof -
  have "compiles (compile_block n ss) (\<lambda>_ t. fc_vars t = fc_vars s \<and> (\<exists>u. typed s st t (st\<lparr>vs_unreachable := u\<rparr>))) s"
    using assms(1,3) typed_self [OF assms(2)] unfolding base_typed_def by blast
  then show ?thesis by (rule wp_consequence) (auto intro: assms(4) typed_trans [OF assms(2)])
qed

lemma run_compile_branch:
  assumes "base_typed n" and "typed s0 st0 s st" and "vs_stack st = []"
    and "\<And>u t. typed s0 st0 t (st\<lparr>vs_unreachable := u\<rparr>) \<Longrightarrow> fc_vars t = fc_vars s \<Longrightarrow> Q () t"
  shows "compiles (compile_branch n bs other) Q s"
proof -
  have "compiles (compile_branch n bs other) (\<lambda>_ t. fc_vars t = fc_vars s \<and> (\<exists>u. typed s st t (st\<lparr>vs_unreachable := u\<rparr>))) s"
    using assms(1,3) typed_self [OF assms(2)] unfolding base_typed_def by blast
  then show ?thesis by (rule wp_consequence) (auto intro: assms(4) typed_trans [OF assms(2)])
qed

lemma typed_builder:
  assumes "typed s0 st0 s st" and "extends (fc_builder s) b" and "builder_ok b"
  shows "typed s0 st0 (s\<lparr>fc_builder := b\<rparr>) st"
  by (rule typed_trans [OF assms(1)])
    (use assms typed_frames [OF assms(1)] in \<open>auto simp: typed_def vars_ok_def\<close>)

lemma run_compile_function:
  assumes "base_typed n" and "typed s0 st0 s st"
    and "\<And>i ty t. typed s0 st0 t st \<Longrightarrow> fc_vars t = fc_vars s \<Longrightarrow> arity_of (fc_builder t) i = Some (length tys) \<Longrightarrow> Q (i, ty) t"
  shows "compiles (in_builder (compile_function n name tys)) Q s"
proof -
  have "compiles (compile_function n name tys)
          (\<lambda>(i, t) b'. extends (fc_builder s) b' \<and> builder_ok b' \<and> arity_of b' i = Some (length tys) \<and> length BUILTINS \<le> i) (fc_builder s)"
    using assms(1,2) unfolding base_typed_def by (auto simp: typed_def)
  then show ?thesis
    by (auto simp: wp_def in_builder_def bindR_def split: sum.splits prod.splits intro!: assms(3) typed_builder [OF assms(2)])
qed

lemma run_compile_args:
  assumes "base_typed n" and "typed s0 st0 s st"
    and "\<And>tys t. typed s0 st0 t (vpush (replicate (length tys) I64) st) \<Longrightarrow> fc_vars t = fc_vars s \<Longrightarrow> Q tys t"
  shows "compiles (compile_args n es) Q s"
  using assms(2,3)
proof (induction es arbitrary: s st Q)
  case (Cons e es)
  show ?case unfolding compile_args.simps wp_bind wp_return
  proof (rule run_compile_expr [OF assms(1) Cons.prems(1)])
    fix ty t
    assume t: "typed s0 st0 t (vpush [I64] st)" "fc_vars t = fc_vars s"
    show "compiles (compile_args n es) (\<lambda>tys. Q (ty # tys)) t"
      by (rule Cons.IH [OF t(1)]) (use t(2) in \<open>auto intro!: Cons.prems(2) simp: replicate_append_same [symmetric]\<close>)
  qed
qed simp

lemma run_call_builtin:
  assumes "typed s0 st0 s (vpush (replicate k I64 @ us) st)" and "position (\<lambda>b. bi_name b = name) BUILTINS = Some i"
    and "length (bi_args (BUILTINS ! i)) = k"
    and "\<And>ty t. typed s0 st0 t (vpush (I64 # us) st) \<Longrightarrow> fc_vars t = fc_vars s \<Longrightarrow> Q ty t"
  shows "compiles (call_builtin name) Q s"
proof -
  have i: "i < length BUILTINS" using assms(2) by (simp add: position_Some_iff)
  show ?thesis unfolding call_builtin_def assms(2) option.case wp_bind wp_return
  proof (rule run_emit [OF assms(1)])
    fix E
    assume "env_le (fenv s) E"
    then have "ve_arity E i = Some k"
      using i assms(3) by (auto simp: env_le_def fenv_def arity_of_def map_le_def dom_def)
    then show "vrun E [CallFn i] (vpush (replicate k I64 @ us) st) = Some (vpush (I64 # us) st)"
      by (simp add: vop_def)
  qed (rule assms(4))
qed

lemma builtin_positions:
  "position (\<lambda>b. bi_name b = ''constant'') BUILTINS = Some (Suc 0)" "length (bi_args (BUILTINS ! Suc 0)) = 2"
  "position (\<lambda>b. bi_name b = ''str.concat'') BUILTINS = Some 19" "length (bi_args (BUILTINS ! 19)) = 2"
  "position (\<lambda>b. bi_name b = ''str.eq'') BUILTINS = Some 20" "length (bi_args (BUILTINS ! 20)) = 2"
  by (simp_all add: BUILTINS_def)

lemma binary_instr_types:
  "binary_instr op = Some (i, comparison) \<Longrightarrow>
     vstep E i (vpush (I64 # I64 # us) st) = Some (vpush ((if comparison then I32 else I64) # us) st)"
  by (auto simp: binary_instr_def split: if_splits)

lemma replicate_two: "replicate 2 x = [x, x]"
  by (simp add: numeral_2_eq_2)

lemma arity_of_data [simp]: "arity_of (b\<lparr>bd_data := d\<rparr>) = arity_of b"
  by (simp add: arity_of_def fun_eq_iff)

lemma builder_ok_data [simp]: "builder_ok (b\<lparr>bd_data := d\<rparr>) = builder_ok b"
  by (simp add: builder_ok_def built_env_def)

lemma run_string:
  assumes "typed s0 st0 s st" and "\<And>ty t. typed s0 st0 t (vpush [I64] st) \<Longrightarrow> fc_vars t = fc_vars s \<Longrightarrow> Q ty t"
  shows "compiles (compile_string v) Q s"
proof -
  let ?s = "s\<lparr>fc_builder := (fc_builder s)\<lparr>bd_data := bd_data (fc_builder s) @ v\<rparr>\<rparr>"
  have "typed s0 st0 ?s st"
    by (rule typed_builder [OF assms(1)]) (use assms(1) in \<open>auto simp: extends_def typed_def\<close>)
  then show ?thesis
    unfolding compile_string_def
    by (auto elim!: run_emit simp: builtin_positions replicate_two
        intro!: run_call_builtin [where us = "[]" and k = 2 and i = "Suc 0"] assms(2))
qed

lemma typed_local:
  "typed s0 st0 s st \<Longrightarrow> bt_get (fc_vars s) x = Some (i, t) \<Longrightarrow> env_le (fenv s) E \<Longrightarrow> i < ve_locals E"
  by (fastforce simp: typed_def vars_ok_def env_le_def fenv_def)

lemma run_var:
  assumes "typed s0 st0 s st" and "\<And>ty t. typed s0 st0 t (vpush [I64] st) \<Longrightarrow> fc_vars t = fc_vars s \<Longrightarrow> Q ty t"
  shows "compiles (compile_var x) Q s"
  using assms(1) unfolding compile_var_def
  by (auto elim!: run_emit intro: assms(2) dest: typed_local [OF assms(1)] split: option.split)

lemma run_operator:
  assumes "typed s0 st0 s (vpush [I64, I64] st)"
    and "\<And>ty t. typed s0 st0 t (vpush [I64] st) \<Longrightarrow> fc_vars t = fc_vars s \<Longrightarrow> Q ty t"
  shows "compiles (compile_operator op left right) Q s"
proof -
  have two: "typed s0 st0 s (vpush (replicate 2 I64 @ []) st)" using assms(1) by (simp add: replicate_two)
  note calls = run_call_builtin [OF two builtin_positions(3,4)] run_call_builtin [OF two builtin_positions(5,6)]
  have negate: "compiles (if b then emit [I64Eqz, I64ExtendI32U] else returnS ()) (\<lambda>_. Q TBool) t"
    if "typed s0 st0 t (vpush [I64] st)" "fc_vars t = fc_vars s" for b t
    using that by (cases b) (auto elim!: run_emit intro: assms(2))
  have arith: "compiles (thenS (emit [i]) (thenS (if comparison then emit [I64ExtendI32U] else returnS ())
      (returnS (if comparison then TBool else TInt)))) Q s" if "binary_instr op = Some (i, comparison)" for i comparison
    unfolding wp_bind
    by (rule run_emit [OF assms(1), where st' = "vpush [if comparison then I32 else I64] st"])
      (use binary_instr_types [OF that] in \<open>auto elim!: run_emit intro: assms(2)\<close>)
  consider "op = ''..''" | "op = ''=='' \<or> op = ''~=''" | "op \<noteq> ''..''" "\<not> (op = ''=='' \<or> op = ''~='')" by blast
  then show ?thesis
  proof cases
    case 1
    then show ?thesis by (simp add: compile_operator_def calls(1) assms(2))
  next
    case 2
    then have op: "op \<noteq> ''..''" by auto
    have str: "compiles (thenS (call_builtin ''str.eq'') (if op = ''~='' then emit [I64Eqz, I64ExtendI32U] else returnS ()))
        (\<lambda>_. Q TBool) s"
      unfolding wp_bind by (rule calls(2)) (erule (1) negate)
    have num: "compiles (emit [if op = ''=='' then I64Eq else I64Ne, I64ExtendI32U]) (\<lambda>_. Q TBool) s"
      by (rule run_emit [OF assms(1), where st' = "vpush [I64] st"]) (auto intro: assms(2))
    have "compiles (if b then thenS (call_builtin ''str.eq'') (if op = ''~='' then emit [I64Eqz, I64ExtendI32U] else returnS ())
        else emit [if op = ''=='' then I64Eq else I64Ne, I64ExtendI32U]) (\<lambda>_. Q TBool) s" for b
      using str num by (cases b) (simp_all only: if_True if_False)
    then show ?thesis
      unfolding compile_operator_def if_not_P [OF op] if_P [OF 2] wp_bind [of _ "ensureS _ _"] wp_ensure
        wp_bind [of _ "if _ then _ else _"] wp_return by (simp only: if_cancel diagnostic_simps)
  next
    case 3
    have "compiles (case binary_instr op of
           None \<Rightarrow> failS (UnsupportedOperator op)
         | Some (i, comparison) \<Rightarrow>
             thenS (emit [i])
             (thenS (if comparison then emit [I64ExtendI32U] else returnS ())
             (returnS (if comparison then TBool else TInt)))) Q s"
    proof (cases "binary_instr op")
      case (Some p)
      then show ?thesis by (cases p) (simp only: option.case prod.case arith)
    qed simp
    then show ?thesis
      unfolding compile_operator_def if_not_P [OF 3(1)] if_not_P [OF 3(2)] wp_bind [of _ "ensureS _ _"] wp_ensure
      by (simp only: if_cancel diagnostic_simps)
  qed
qed

lemma run_logical:
  assumes "base_typed n" and "typed s0 st0 s (vpush [I64] st)"
    and "\<And>t. typed s0 st0 t (vpush [I64] st) \<Longrightarrow> fc_vars t = fc_vars s \<Longrightarrow> Q TBool t"
  shows "compiles (thenS (emit [I64Eqz, I32Eqz, IfI True])
       (thenS (if c then bindS (compile_expr n b) (\<lambda>t. ensureS (t = TBool) LogicalType) else emit [I64Const 1])
       (thenS (emit [ElseI])
       (thenS (if d then bindS (compile_expr n b) (\<lambda>t. ensureS (t = TBool) LogicalType) else emit [I64Const 0])
       (thenS (emit [EndI]) (returnS TBool)))))) Q s"
proof -
  have frames: "vs_frames st \<noteq> []" using typed_frames [OF assms(2)] by simp
  have arm: "compiles (if x then bindS (compile_expr n b) (\<lambda>t. ensureS (t = TBool) LogicalType) else emit [I64Const v]) R t"
    if "typed s0 st0 t st'" "\<And>u. typed s0 st0 u (vpush [I64] st') \<Longrightarrow> fc_vars u = fc_vars t \<Longrightarrow> R () u" for x v R t st'
    using that by (cases x) (auto elim!: run_emit run_compile_expr [OF assms(1)])
  show ?thesis
    unfolding wp_bind wp_return
    apply (rule run_emit [OF assms(2), where st' = "venter [I64] [I64] True st"], simp)
    apply (rule arm, assumption)
    apply (rule run_emit [where st' = "venter [I64] [I64] False st"], assumption, simp add: vstep_else)
    apply (rule arm, assumption)
    apply (rule run_emit [where st' = "vpush [I64] st"], assumption, simp add: vstep_end frames)
    apply (simp add: assms(3))
    done
qed

lemma run_call:
  assumes "base_typed n" and "typed s0 st0 s st"
    and "\<And>ty t. typed s0 st0 t (vpush [I64] st) \<Longrightarrow> fc_vars t = fc_vars s \<Longrightarrow> Q ty t"
  shows "compiles (bindS (compile_args n es) (\<lambda>tys.
     case find_callee name of
       Some i \<Rightarrow>
         thenS (ensureS (length (bi_args (BUILTINS ! i)) = length tys
                  \<and> list_all2 compatible (bi_args (BUILTINS ! i)) tys) (WrongArguments name))
         (thenS (emit [CallFn i]) (returnS (bi_result (BUILTINS ! i))))
     | None \<Rightarrow>
         bindS (in_builder (compile_function n name tys)) (\<lambda>(i, t).
         thenS (emit [CallFn i]) (returnS t)))) Q s"
  unfolding wp_bind
proof (rule run_compile_args [OF assms(1,2)])
  fix tys :: "ty list" and t
  assume t: "typed s0 st0 t (vpush (replicate (length tys) I64) st)" "fc_vars t = fc_vars s"
  have call: "compiles (thenS (emit [CallFn i]) (returnS ty)) Q u"
    if "typed s0 st0 u (vpush (replicate (length tys) I64) st)" "fc_vars u = fc_vars s"
      "arity_of (fc_builder u) i = Some (length tys)" for i ty u
    unfolding wp_bind wp_return
  proof (rule run_emit [OF that(1)])
    fix E
    assume "env_le (fenv u) E"
    then have "ve_arity E i = Some (length tys)" using that(3) by (auto simp: env_le_def fenv_def map_le_def dom_def)
    then show "vrun E [CallFn i] (vpush (replicate (length tys) I64) st) = Some (vpush [I64] st)"
      using vpops_replicate [of "length tys" I64 "[]" st] by (simp add: vop_def)
  qed (use that(2) in \<open>auto intro: assms(3)\<close>)
  show "compiles (case find_callee name of
       Some i \<Rightarrow>
         thenS (ensureS (length (bi_args (BUILTINS ! i)) = length tys
                  \<and> list_all2 compatible (bi_args (BUILTINS ! i)) tys) (WrongArguments name))
         (thenS (emit [CallFn i]) (returnS (bi_result (BUILTINS ! i))))
     | None \<Rightarrow>
         bindS (in_builder (compile_function n name tys)) (\<lambda>(i, t).
         thenS (emit [CallFn i]) (returnS t))) Q t"
  proof (cases "find_callee name")
    case None
    show ?thesis unfolding None option.case wp_bind [of _ "in_builder _"]
    proof (rule run_compile_function [OF assms(1) t(1)])
      fix i ty u
      assume "typed s0 st0 u (vpush (replicate (length tys) I64) st)" "fc_vars u = fc_vars t"
        "arity_of (fc_builder u) i = Some (length tys)"
      then show "compiles (case (i, ty) of (i, t) \<Rightarrow> thenS (emit [CallFn i]) (returnS t)) Q u"
        unfolding prod.case using t(2) by (intro call) simp_all
    qed
  next
    case (Some i)
    then have "i < length BUILTINS" by (simp add: find_callee_def position_Some_iff)
    then have "length (bi_args (BUILTINS ! i)) = length tys \<Longrightarrow> arity_of (fc_builder t) i = Some (length tys)"
      by (simp add: arity_of_def)
    then show ?thesis
      unfolding Some option.case wp_bind [of _ "ensureS _ _"] wp_ensure
      using call [OF t] by (simp del: wp_bind)
  qed
qed

lemma expr_typed_Suc:
  assumes IH: "base_typed n" and s: "typed s st s st"
  shows "compiles (compile_expr (Suc n) e) (\<lambda>_ t. fc_vars t = fc_vars s \<and> typed s st t (vpush [I64] st)) s"
proof (cases e)
  case (EInt i)
  then show ?thesis using s by (auto elim!: run_emit)
next
  case (EStr v)
  then show ?thesis by (auto intro: run_string [OF s])
next
  case (EBool b)
  then show ?thesis using s by (auto elim!: run_emit)
next
  case ENil
  then show ?thesis using s by (auto elim!: run_emit)
next
  case (EVar x)
  then show ?thesis by (auto intro: run_var [OF s])
next
  case (ECall f es)
  then show ?thesis
    unfolding ECall compile_expr.simps compile_expr_inner.simps wp_bind [of _ "ensureS _ _"] wp_ensure
    by (simp del: wp_bind add: run_call [OF IH s])
next
  case (EUnary op a)
  then show ?thesis using s by (auto elim!: run_emit run_compile_expr [OF IH]) simp
next
  case (EBinary op a b)
  show ?thesis
    unfolding EBinary compile_expr.simps compile_expr_inner.simps wp_bind [of _ "compile_expr _ _"]
  proof (rule run_compile_expr [OF IH s])
    fix left t
    assume t: "typed s st t (vpush [I64] st)" "fc_vars t = fc_vars s"
    let ?Q = "\<lambda>_ u. fc_vars u = fc_vars s \<and> typed s st u (vpush [I64] st)"
    have "compiles (bindS (compile_expr n b) (\<lambda>right. compile_operator op left right)) ?Q t"
      unfolding wp_bind
      by (rule run_compile_expr [OF IH t(1)], rule run_operator) (simp_all add: t(2))
    moreover note run_logical [OF IH t(1), where Q = ?Q and c = "op = ''and''" and d = "op = ''or''" and b = b]
    ultimately show "compiles (if op = ''and'' \<or> op = ''or'' then
         thenS (ensureS (left = TBool) LogicalType)
         (thenS (emit [I64Eqz, I32Eqz, IfI True])
         (thenS (if op = ''and'' then bindS (compile_expr n b) (\<lambda>t. ensureS (t = TBool) LogicalType)
                 else emit [I64Const 1])
         (thenS (emit [ElseI])
         (thenS (if op = ''or'' then bindS (compile_expr n b) (\<lambda>t. ensureS (t = TBool) LogicalType)
                 else emit [I64Const 0])
         (thenS (emit [EndI]) (returnS TBool))))))
       else bindS (compile_expr n b) (\<lambda>right. compile_operator op left right)) ?Q t"
      unfolding wp_if wp_bind [of _ "ensureS _ _"] wp_ensure using t(2) by (simp only: if_cancel diagnostic_simps)
  qed
qed

lemma run_set_local:
  assumes "typed s0 st0 s (vpush [I64] st)" and "\<And>t. typed s0 st0 t st \<Longrightarrow> Q () t"
  shows "compiles (set_local x ty) Q s"
proof -
  let ?s = "s\<lparr>fc_next := fc_next s + 1, fc_vars := bt_insert x (fc_next s, ty) (fc_vars s)\<rparr>"
  have "typed s (vpush [I64] st) ?s (vpush [I64] st)"
    using assms(1) typed_frames [OF assms(1)] by (auto simp: typed_def vars_ok_def less_SucI)
  then have "typed s0 st0 ?s (vpush [I64] st)" by (rule typed_trans [OF assms(1)])
  then show ?thesis
    unfolding set_local_def
    by (auto elim!: run_emit intro: assms(2) simp: env_le_def fenv_def)
qed

lemma run_set_result:
  assumes "typed s0 st0 s (vpush [I64] st)" and "\<And>t. typed s0 st0 t (vdead st) \<Longrightarrow> Q () t"
  shows "compiles (set_result ty) Q s"
proof -
  have "typed s0 st0 (s\<lparr>fc_result := Some ty\<rparr>) (vpush [I64] st)"
    by (rule typed_trans [OF assms(1)])
      (use assms(1) typed_frames [OF assms(1)] in \<open>auto simp: typed_def vars_ok_def fenv_def\<close>)
  then show ?thesis
    unfolding set_result_def by (auto elim!: run_emit intro: assms(2) simp: vdead_def)
qed

lemma vdead_empty: "vs_stack st = [] \<Longrightarrow> vdead st = st\<lparr>vs_unreachable := True\<rparr>"
  by (simp add: vdead_def)

lemma loop_runs:
  "vrun E [BlockI, LoopI] st = Some (venter [] [] False (venter [] [] False st))"
  "vrun E [I64Eqz, BrIf 1] (vpush [I64] (venter [] [] False (venter [] [] False st)))
     = Some (venter [] [] False (venter [] [] False st))"
  "vs_frames st \<noteq> [] \<Longrightarrow>
     vrun E [Br 0, EndI, EndI] ((venter [] [] False (venter [] [] False st))\<lparr>vs_unreachable := u\<rparr>) = Some st"
proof -
  let ?loop = "venter [] [] False (venter [] [] False st)"
  show "vrun E [BlockI, LoopI] st = Some ?loop" by simp
  show "vrun E [I64Eqz, BrIf 1] (vpush [I64] ?loop) = Some ?loop"
    by (simp add: vop_def vlabel_def slice_get_def) (simp add: venter_def)
  have br: "vstep E (Br 0) (?loop\<lparr>vs_unreachable := u\<rparr>) = Some (?loop\<lparr>vs_unreachable := True\<rparr>)"
    by (simp add: vlabel_def slice_get_def venter_def vdead_def)
  show "vrun E [Br 0, EndI, EndI] (?loop\<lparr>vs_unreachable := u\<rparr>) = Some st" if "vs_frames st \<noteq> []"
    using that vstep_close(3) [where st = "venter [] [] False st" and E = E and l = "[]" and u = True]
      vstep_close(4) [where st = st and E = E and l = "[]"]
    by (simp del: vstep.simps add: br)
qed

lemma run_compile_statement:
  assumes IH: "base_typed n" and s: "typed s0 st0 s st" and empty: "vs_stack st = []"
    and Q: "\<And>u t. typed s0 st0 t (st\<lparr>vs_unreachable := u\<rparr>) \<Longrightarrow> Q () t"
  shows "compiles (compile_statement n stm) Q s"
proof -
  have fin: "Q () t" if "typed s0 st0 t st" for t
    using Q [of t "vs_unreachable st"] that by simp
  have dead: "Q () t" if "typed s0 st0 t (vdead st)" for t
    using Q [of t True] that by (simp add: vdead_empty empty)
  show ?thesis
  proof (cases stm)
    case (SLocal x e)
    then show ?thesis
      using s by (auto elim!: run_compile_expr [OF IH] run_set_local intro: fin)
  next
    case (SAssign x e)
    show ?thesis
    proof (cases "bt_get (fc_vars s) x")
      case (Some v)
      obtain i ty where v: "v = (i, ty)" by (cases v)
      have "compiles (emit [LocalSet i]) (\<lambda>_. Q ()) t"
        if "typed s0 st0 t (vpush [I64] st)" "fc_vars t = fc_vars s" for t
        by (rule run_emit [OF that(1), where st' = st])
          (use that Some v typed_local [OF that(1)] in \<open>auto intro: fin\<close>)
      then show ?thesis
        using s by (auto simp: SAssign Some v elim!: run_compile_expr [OF IH])
    qed (simp add: SAssign)
  next
    case (SCall e)
    then show ?thesis
      using s by (auto elim!: run_compile_expr [OF IH] run_emit intro: fin)
  next
    case (SReturn v)
    then show ?thesis
      using s by (cases v) (auto elim!: run_compile_expr [OF IH] run_emit run_set_result intro: dead)
  next
    case (SIf bs other)
    then show ?thesis using run_compile_branch [OF IH s empty] Q by auto
  next
    case (SWhile e body)
    let ?loop = "venter [] [] False (venter [] [] False st)"
    show ?thesis
      unfolding SWhile compile_statement.simps wp_bind wp_ensure
      apply (rule run_emit [OF s loop_runs(1)])
      apply (rule run_compile_expr [OF IH], assumption)
      apply (split if_split, intro conjI impI diagnostic_simps)
      apply (rule run_emit [OF _ loop_runs(2)], assumption)
      apply (rule run_compile_block [OF IH], assumption, simp)
      apply (rule run_emit [OF _ loop_runs(3) [OF typed_frames [OF s]]], assumption)
      apply (erule fin)
      done
  qed
qed

lemma run_compile_stmts:
  assumes IH: "base_typed n" and "typed s0 st0 s st" and "vs_stack st = []"
    and "\<And>u t. typed s0 st0 t (st\<lparr>vs_unreachable := u\<rparr>) \<Longrightarrow> Q () t"
  shows "compiles (compile_stmts n ss) Q s"
  using assms(2-)
proof (induction ss arbitrary: s st)
  case Nil
  from Nil(3) [of s "vs_unreachable st"] Nil(1) show ?case by simp
next
  case (Cons stm ss)
  show ?case unfolding compile_stmts.simps wp_bind
  proof (rule run_compile_statement [OF IH Cons.prems(1,2)])
    fix u t
    assume "typed s0 st0 t (st\<lparr>vs_unreachable := u\<rparr>)"
    then show "compiles (compile_stmts n ss) Q t"
      by (rule Cons.IH) (use Cons.prems(2,3) in simp_all)
  qed
qed

lemma typed_restore:
  "typed s st s st \<Longrightarrow> typed s st t st' \<Longrightarrow> typed s st (t\<lparr>fc_vars := fc_vars s\<rparr>) st'"
  by (fastforce simp: typed_def vars_ok_def fenv_def)

lemma block_typed_Suc:
  assumes IH: "base_typed n" and s: "typed s st s st" and "vs_stack st = []"
  shows "compiles (compile_block (Suc n) ss) (\<lambda>_ t. fc_vars t = fc_vars s \<and> (\<exists>u. typed s st t (st\<lparr>vs_unreachable := u\<rparr>))) s"
  unfolding compile_block.simps wp_bind wp_get wp_modify
  by (rule run_compile_stmts [OF IH s assms(3)]) (auto intro: typed_restore [OF s])

lemma branch_typed_Suc:
  assumes IH: "base_typed n" and s: "typed s st s st" and empty: "vs_stack st = []"
  shows "compiles (compile_branch (Suc n) bs other)
    (\<lambda>_ t. fc_vars t = fc_vars s \<and> (\<exists>u. typed s st t (st\<lparr>vs_unreachable := u\<rparr>))) s"
proof (cases bs)
  case Nil
  then show ?thesis by (auto intro!: run_compile_block [OF IH s empty])
next
  case (Cons b bs')
  obtain e body where b: "b = (e, body)" by (cases b)
  have fin: "\<exists>u. typed s st t (st\<lparr>vs_unreachable := u\<rparr>)" if "typed s st t st" for t
    using that by (intro exI [of _ "vs_unreachable st"]) simp
  show ?thesis
    unfolding Cons b compile_branch.simps compile_branch_inner.simps wp_bind wp_ensure
    apply (rule run_compile_expr [OF IH s])
    apply (split if_split, intro conjI impI diagnostic_simps)
    apply (rule run_emit [where st' = "venter [] [] True st"], assumption, simp)
    apply (rule run_compile_block [OF IH], assumption, simp)
    apply (rule run_emit [where st' = "venter [] [] False st"], assumption, simp add: vstep_close)
    apply (rule run_compile_branch [OF IH], assumption, simp)
    apply (rule run_emit [where st' = st], assumption, simp add: vstep_close typed_frames [OF s])
    apply (simp add: fin)
    done
qed

lemma vrun_env_mono: "env_le E E' \<Longrightarrow> vrun E is st = Some st' \<Longrightarrow> vrun E' is st = Some st'"
proof (induction "is" arbitrary: st)
  case (Cons i "is")
  have step: "vstep E' i st = Some u" if "vstep E i st = Some u" for u
    using that Cons.prems(1)
    by (cases i) (auto simp: vstep.simps(10,11) env_le_def map_le_def dom_def bind_eq_Some_conv split: if_splits)
  from Cons show ?case by (auto simp: bind_eq_Some_conv dest: step)
qed simp

lemma validate_mono: "env_le E E' \<Longrightarrow> validate_body E code \<Longrightarrow> validate_body E' code"
  by (auto simp: validate_body_def is_some_and_iff dest: vrun_env_mono)

lemma function_validates:
  assumes "vrun E c function_start = Some (function_start\<lparr>vs_unreachable := u\<rparr>)"
  shows "validate_body E (c @ [I64Const 0, EndI])"
proof -
  have "vrun E (c @ [I64Const 0]) function_start = Some (vpush [I64] (function_start\<lparr>vs_unreachable := u\<rparr>))"
    using assms by (simp add: vrun_append)
  moreover have "butlast (c @ [I64Const 0, EndI]) = c @ [I64Const 0]" by (simp add: butlast_append)
  ultimately show ?thesis
    by (simp add: validate_body_def function_start_def venter_def vclose_def vpush_def vpop_def)
qed

lemma lookup_function_cases:
  assumes "lookup_function name tys b = Inr found" and "builder_ok b"
  shows "case found of Inl (i, t) \<Rightarrow> arity_of b i = Some (length tys) \<and> length BUILTINS \<le> i
    | Inr f \<Rightarrow> length (fn_params f) = length tys \<and> bt_get (bd_ast b) name = Some f"
  using assms by (fastforce simp: lookup_function_def builder_ok_def result_simps split: option.splits)

lemma bt_collect_vars:
  "bt_get (bt_collect (map (\<lambda>(i, (x, t)). (x, (i, t))) (zip [0..<length ps] (zip ps tys)))) x = Some (i, t)
     \<Longrightarrow> i < length (zip ps tys)"
proof -
  assume "bt_get (bt_collect (map (\<lambda>(i, (x, t)). (x, (i, t))) (zip [0..<length ps] (zip ps tys)))) x = Some (i, t)"
  then have "(x, (i, t)) \<in> set (map (\<lambda>(i, (x, t)). (x, (i, t))) (zip [0..<length ps] (zip ps tys)))"
    by (metis bt_get_collect map_of_SomeD set_rev)
  then show ?thesis by (auto simp: set_zip)
qed

lemma builder_ok_begin:
  assumes "builder_ok b"
  shows "builder_ok (begin_function name b)" and "arity_of (begin_function name b) = arity_of b"
proof -
  show eq: "arity_of (begin_function name b) = arity_of b"
    by (auto simp: arity_of_def begin_function_def slice_get_def nth_append fun_eq_iff less_Suc_eq)
  then show "builder_ok (begin_function name b)"
    using assms by (auto simp: builder_ok_def built_env_def begin_function_def [of name b])
qed

lemma compilesI:
  "(\<And>x s'. m s = Inr (x, s') \<Longrightarrow> Q x s') \<Longrightarrow> (\<And>e. m s = Inl e \<Longrightarrow> diagnostic e) \<Longrightarrow> compiles m Q s"
  by (auto simp: wp_def split: sum.split)

lemma lookup_function_error: "lookup_function name tys b = Inl e \<Longrightarrow> diagnostic e"
  by (auto simp: lookup_function_def bindR_Inl_iff ensure_def ok_or_def split: if_splits option.splits)

lemma finish_function_error: "finish_function name tys slot f s = Inl e \<Longrightarrow> diagnostic e"
  by (auto simp: finish_function_def Let_def bindR_Inl_iff ensure_def split: if_splits)

lemma finish_function_ok:
  assumes grown: "extends (begin_function name b) (fc_builder s)" and ok: "builder_ok (fc_builder s)"
    and nxt: "length tys \<le> fc_next s"
    and run: "vrun (fenv s) (fc_code s) function_start = Some (function_start\<lparr>vs_unreachable := u\<rparr>)"
    and fin: "finish_function name tys (length (bd_functions b)) f s = Inr ((i, t), b')"
  shows "extends b b' \<and> builder_ok b' \<and> arity_of b' i = Some (length tys) \<and> length BUILTINS \<le> i"
proof -
  let ?F = "\<lparr>bf_params = length tys, bf_locals = fc_next s - length tys, bf_code = fc_code s @ [I64Const 0, EndI]\<rparr>"
  let ?n = "length (bd_functions b)"
  obtain fs where fs: "bd_functions (fc_builder s) = bd_functions b @ None # fs" "None \<notin> set fs"
    using grown by (auto simp: extends_def begin_function_def)
  have i: "i = length BUILTINS + ?n"
    and sig: "bd_signatures b' = bt_insert name (i, tys, t) (bd_signatures (fc_builder s))"
    and fns: "bd_functions b' = bd_functions b @ Some ?F # fs"
    using fin by (auto simp: finish_function_def Let_def result_simps fs(1))
  have "extends b b'"
    using grown fin fs(2) fns
    by (auto simp: extends_def begin_function_def finish_function_def Let_def result_simps)
  moreover have arity: "arity_of b' i = Some (length tys)"
    by (simp add: arity_of_def i fns slice_get_def)
  moreover have le: "arity_of (fc_builder s) \<subseteq>\<^sub>m arity_of b'"
    by (auto simp: map_le_def arity_of_def fs(1) fns slice_get_def nth_append nth_Cons split: if_splits nat.splits)
  moreover have "builder_ok b'"
    unfolding builder_ok_def
  proof (intro conjI allI impI)
    fix g
    assume "Some g \<in> set (bd_functions b')"
    then consider "g = ?F" | "Some g \<in> set (bd_functions (fc_builder s))" by (auto simp: fns fs(1))
    then show "validate_body (built_env b' g) (bf_code g)"
    proof cases
      case 1
      have "env_le (fenv s) (built_env b' ?F)" using le nxt by (simp add: env_le_def fenv_def built_env_def)
      with function_validates [OF run] 1 show ?thesis by (simp add: validate_mono)
    next
      case 2
      then have "validate_body (built_env (fc_builder s) g) (bf_code g)" using ok by (simp add: builder_ok_def)
      then show ?thesis by (rule validate_mono [rotated]) (use le in \<open>simp add: env_le_def built_env_def\<close>)
    qed
  next
    fix name' i' tys' t'
    assume "bt_get (bd_signatures b') name' = Some (i', tys', t')"
    then show "arity_of b' i' = Some (length tys')" "length BUILTINS \<le> i'"
      using ok arity i le by (fastforce simp: sig builder_ok_def map_le_def dom_def split: if_splits)+
  qed
  ultimately show ?thesis by (simp add: i)
qed

lemma body_typed:
  assumes IH: "base_typed n" and b: "builder_ok b" and found: "lookup_function name tys b = Inr (Inr f)"
  shows "compiles (compile_block n (fn_body f))
    (\<lambda>_ s. \<exists>u. extends (begin_function name b) (fc_builder s) \<and> builder_ok (fc_builder s) \<and> length tys \<le> fc_next s
      \<and> vrun (fenv s) (fc_code s) function_start = Some (function_start\<lparr>vs_unreachable := u\<rparr>))
    (new_fcomp (begin_function name b) (fn_params f) tys)"
proof -
  let ?s = "new_fcomp (begin_function name b) (fn_params f) tys"
  have len: "length (fn_params f) = length tys" using lookup_function_cases [OF found b] by simp
  have vars: "vars_ok ?s"
    using bt_collect_vars [of "fn_params f" tys] len by (auto simp: vars_ok_def new_fcomp_def)
  have start: "typed ?s function_start ?s function_start"
    by (rule typed_refl) (use vars builder_ok_begin [OF b] in \<open>simp_all add: new_fcomp_def function_start_def\<close>)
  have "vs_stack function_start = []" by (simp add: function_start_def)
  then have "compiles (compile_block n (fn_body f))
      (\<lambda>_ t. fc_vars t = fc_vars ?s \<and> (\<exists>u. typed ?s function_start t (function_start\<lparr>vs_unreachable := u\<rparr>))) ?s"
    using IH start unfolding base_typed_def by blast
  then show ?thesis by (rule wp_consequence) (auto simp: typed_def new_fcomp_def)
qed

lemma function_typed_Suc:
  assumes IH: "base_typed n" and b: "builder_ok b"
  shows "compiles (compile_function (Suc n) name tys)
    (\<lambda>(i, t) b'. extends b b' \<and> builder_ok b' \<and> arity_of b' i = Some (length tys) \<and> length BUILTINS \<le> i) b"
proof (cases "lookup_function name tys b")
  case (Inl e)
  then show ?thesis using lookup_function_error by (simp add: wp_def)
next
  case found: (Inr found)
  show ?thesis
  proof (cases found)
    case (Inl known)
    then show ?thesis
      using lookup_function_cases [OF found b] found b by (auto simp: wp_def split: prod.splits)
  next
    case (Inr f)
    note body = body_typed [OF IH b found [unfolded Inr]]
    let ?run = "compile_block n (fn_body f) (new_fcomp (begin_function name b) (fn_params f) tys)"
    let ?finish = "finish_function name tys (length (bd_functions b)) f"
    have eq: "compile_function (Suc n) name tys b = bindR ?run (\<lambda>(_, s). ?finish s)"
      using found Inr by simp
    show ?thesis
    proof (rule compilesI)
      fix x b'
      assume "compile_function (Suc n) name tys b = Inr (x, b')"
      then obtain s where s: "?run = Inr ((), s)" "?finish s = Inr (x, b')" unfolding eq by (auto simp: result_simps)
      from wpD [OF body s(1)] s(2)
      show "(\<lambda>(i, t) b'. extends b b' \<and> builder_ok b' \<and> arity_of b' i = Some (length tys) \<and> length BUILTINS \<le> i) x b'"
        by (cases x) (auto dest: finish_function_ok)
    next
      fix e
      assume "compile_function (Suc n) name tys b = Inl e"
      then show "diagnostic e"
        unfolding eq using wp_errorD [OF body] finish_function_error by (auto simp: bindR_Inl_iff)
    qed
  qed
qed

lemma base_typed: "base_typed n"
proof (induction n)
  case 0
  show ?case by (simp add: base_typed_def)
next
  case (Suc n)
  note steps = function_typed_Suc [OF Suc] block_typed_Suc [OF Suc] branch_typed_Suc [OF Suc] expr_typed_Suc [OF Suc]
  show ?case unfolding base_typed_def by (intro conjI allI impI; rule steps; assumption)
qed

section \<open>Linking keeps validity\<close>

definition module_arity :: "wasm_module \<Rightarrow> nat \<Rightarrow> nat option" where
  "module_arity m i = Option.bind (slice_get (map snd (md_imports m) @ md_functions m) i) (slice_get (md_types m))"

definition module_valid :: "wasm_module \<Rightarrow> bool" where
  "module_valid m \<longleftrightarrow>
     list_all (\<lambda>(name, t). list_ex (\<lambda>b. bi_name b = name \<and> slice_get (md_types m) t = Some (length (bi_args b))) BUILTINS) (md_imports m)
     \<and> list_all2 (\<lambda>t (locals, code). is_some_and (slice_get (md_types m) t)
          (\<lambda>ps. validate_body \<lparr>ve_arity = module_arity m, ve_locals = ps + locals\<rparr> code)) (md_functions m) (md_code m)
     \<and> list_all (\<lambda>(name, i). module_arity m i = Some 0) (md_exports m) \<and> ''on_request'' \<in> fst ` set (md_exports m)"

lemma filter_upt_nth:
  assumes "i < n" and "P i"
  shows "length (filter P [0..<i]) < length (filter P [0..<n]) \<and> filter P [0..<n] ! length (filter P [0..<i]) = i"
proof -
  obtain k where "n = i + Suc k" using less_imp_Suc_add [OF assms(1)] by auto
  then have "[0..<n] = [0..<i] @ i # [Suc i..<n]" by (simp only: upt_add_eq_append [OF le0]) (simp add: upt_conv_Cons)
  then show ?thesis using assms(2) by (simp add: nth_append)
qed

lemma import_count_take: "i \<le> length used \<Longrightarrow> import_count (take i used) = length (filter (\<lambda>j. used ! j) [0..<i])"
proof (induction i)
  case (Suc i)
  then show ?case by (simp add: import_count_def take_Suc_conv_app_nth)
qed (simp add: import_count_def)

lemma import_count_all: "import_count used = length (filter (\<lambda>j. used ! j) [0..<length used])"
  using import_count_take [of "length used" used] by simp

lemma all_some_iff: "all_some xs = Some ys \<longleftrightarrow> xs = map Some ys"
proof (induction xs arbitrary: ys rule: all_some.induct)
  case (3 x xs)
  then show ?case by (cases ys) auto
qed auto

lemma vstep_relocate:
  assumes "vstep E i s = Some s'" and "ve_locals E \<le> ve_locals E'"
    and "\<And>j k. i = CallFn j \<Longrightarrow> ve_arity E j = Some k \<Longrightarrow> ve_arity E' (ind ! j) = Some k"
  shows "vstep E' (relocate ind i) s = Some s'"
  using assms by (cases i) (auto simp: vstep.simps(10,11) bind_eq_Some_conv split: if_splits)

lemma vrun_relocate:
  assumes "vrun E code s = Some s'" and "ve_locals E \<le> ve_locals E'"
    and "\<And>j k. CallFn j \<in> set code \<Longrightarrow> ve_arity E j = Some k \<Longrightarrow> ve_arity E' (ind ! j) = Some k"
  shows "vrun E' (map (relocate ind) code) s = Some s'"
  using assms
proof (induction code arbitrary: s)
  case (Cons i code)
  from Cons.prems(1) obtain u where u: "vstep E i s = Some u" "vrun E code u = Some s'"
    by (auto simp: bind_eq_Some_conv)
  have "vstep E' (relocate ind i) s = Some u" by (rule vstep_relocate [OF u(1) Cons.prems(2)]) (use Cons.prems(3) in auto)
  with Cons.IH [OF u(2) Cons.prems(2)] Cons.prems(3) show ?case by simp
qed simp

lemma validate_relocate:
  assumes "validate_body E code" and "ve_locals E \<le> ve_locals E'"
    and "\<And>j k. CallFn j \<in> set code \<Longrightarrow> ve_arity E j = Some k \<Longrightarrow> ve_arity E' (ind ! j) = Some k"
  shows "validate_body E' (map (relocate ind) code)"
proof -
  from assms(1) have code: "code \<noteq> []" "last code = EndI" by (auto simp: validate_body_def)
  obtain s where s: "vrun E (butlast code) function_start = Some s" "length (vs_frames s) = 1" "vclose s \<noteq> None"
    using assms(1) by (auto simp: validate_body_def is_some_and_iff)
  have "vrun E' (map (relocate ind) (butlast code)) function_start = Some s"
    by (rule vrun_relocate [OF s(1) assms(2)]) (auto intro: assms(3) dest: in_set_butlastD)
  with code s show ?thesis
    by (auto simp: validate_body_def last_map map_butlast [symmetric])
qed

lemma link_indices_import:
  assumes "length used = length BUILTINS" and "i < length BUILTINS" and "used ! i"
  shows "link_indices used n ! i = length (filter (\<lambda>j. used ! j) [0..<i])"
  using assms by (simp add: link_indices_def nth_append import_count_take)

lemma link_indices_function:
  "i < n \<Longrightarrow> link_indices used n ! (length BUILTINS + i) = import_count used + i"
  by (simp add: link_indices_def nth_append)

text \<open>In the linked module, an index resolves to the function the compiler's index meant.\<close>

lemma link_arity:
  assumes "i < length BUILTINS \<Longrightarrow> used_imports fs ! i"
    and "(if i < length BUILTINS then Some (length (bi_args (BUILTINS ! i)))
          else map_option bf_params (slice_get fs (i - length BUILTINS))) = Some k"
  shows "module_arity (link_module fs req resp data) (link_indices (used_imports fs) (length fs) ! i) = Some k"
    and "slice_get (md_types (link_module fs req resp data)) (link_indices (used_imports fs) (length fs) ! i) = Some k"
proof -
  define used where "used = used_imports fs"
  define imported where "imported = filter (\<lambda>i. used ! i) [0..<length BUILTINS]"
  define c where "c = length imported"
  let ?m = "link_module fs req resp data" and ?ind = "link_indices used (length fs)"
  have len: "length used = length BUILTINS" by (simp add: used_def used_imports_def)
  then have count: "import_count used = c" by (simp add: import_count_all c_def imported_def)
  have imps: "map snd (md_imports ?m) = [0..<c]"
  proof (rule nth_equalityI)
    show "length (map snd (md_imports ?m)) = length [0..<c]"
      by (simp add: link_module_def Let_def c_def imported_def used_def)
    fix j
    assume "j < length (map snd (md_imports ?m))"
    then have j: "j < c" by (simp add: link_module_def Let_def c_def imported_def used_def)
    then have "imported ! j \<in> set imported" by (simp add: c_def)
    then have i: "imported ! j < length BUILTINS" "used ! (imported ! j)" by (auto simp: imported_def)
    have "length (filter (\<lambda>j. used ! j) [0..<imported ! j]) = j"
      using filter_upt_nth [OF i(1), of "\<lambda>j. used ! j", OF i(2)] j
        nth_eq_iff_index_eq [of imported "length (filter (\<lambda>j. used ! j) [0..<imported ! j])" j]
      by (simp add: imported_def c_def)
    then have "?ind ! (imported ! j) = j" using link_indices_import [OF len i] by simp
    then show "map snd (md_imports ?m) ! j = [0..<c] ! j"
      using j by (simp add: link_module_def Let_def used_def [symmetric] imported_def [symmetric] c_def)
  qed
  have fns: "md_functions ?m = [c..<c + length fs]"
    by (rule nth_equalityI) (simp_all add: link_module_def Let_def used_def [symmetric] count)
  have types: "md_types ?m = map (\<lambda>i. length (bi_args (BUILTINS ! i))) imported @ map bf_params fs"
    by (simp add: link_module_def Let_def imported_def used_def)
  have lookup: "module_arity ?m j = slice_get (md_types ?m) j" if "j < c + length fs" for j
    using that by (simp add: module_arity_def imps fns upt_add_eq_append [symmetric] slice_get_def)
  have "?ind ! i < c + length fs \<and> slice_get (md_types ?m) (?ind ! i) = Some k"
  proof (cases "i < length BUILTINS")
    case True
    then have u: "used ! i" using assms(1) by (simp add: used_def)
    let ?j = "length (filter (\<lambda>j. used ! j) [0..<i])"
    have "?j < c" "imported ! ?j = i"
      using filter_upt_nth [OF True, of "\<lambda>j. used ! j", OF u] by (simp_all add: c_def imported_def)
    then show ?thesis
      using assms(2) True link_indices_import [OF len True u, of "length fs"]
      by (simp add: types slice_get_def nth_append c_def)
  next
    case False
    then obtain i' where i': "i = length BUILTINS + i'" by (metis le_Suc_ex linorder_not_less)
    with assms(2) False have "i' < length fs" "bf_params (fs ! i') = k" by (auto simp: slice_get_def split: if_splits)
    then show ?thesis
      using link_indices_function [of i' "length fs" used]
      by (simp add: i' count types slice_get_def nth_append c_def)
  qed
  then show "module_arity ?m (link_indices (used_imports fs) (length fs) ! i) = Some k"
    and "slice_get (md_types ?m) (link_indices (used_imports fs) (length fs) ! i) = Some k"
    using lookup by (simp_all add: used_def)
qed

lemma arity_of_map_Some:
  "bd_functions b = map Some fs \<Longrightarrow> arity_of b i =
     (if i < length BUILTINS then Some (length (bi_args (BUILTINS ! i)))
      else map_option bf_params (slice_get fs (i - length BUILTINS)))"
  by (simp add: arity_of_def slice_get_def)

lemma link_module_valid:
  assumes ok: "builder_ok b" and fs: "bd_functions b = map Some fs"
    and req: "arity_of b req = Some 0" "length BUILTINS \<le> req"
    and resp: "\<And>i. resp = Some i \<Longrightarrow> arity_of b i = Some 0 \<and> length BUILTINS \<le> i"
  shows "module_valid (link_module fs req resp data)"
proof -
  let ?m = "link_module fs req resp data" and ?used = "used_imports fs"
  let ?ind = "link_indices ?used (length fs)"
  note arity = link_arity(1) [of _ fs _ req resp data, folded arity_of_map_Some [OF fs]]
  have used: "?used ! i" if "f \<in> set fs" "CallFn i \<in> set (bf_code f)" "i < length BUILTINS" for i f
    using that by (auto simp: used_imports_def)
  have types: "slice_get (md_types ?m) (import_count ?used + j) = Some (bf_params (fs ! j))" if "j < length fs" for j
    using that by (simp add: link_module_def Let_def slice_get_def nth_append import_count_all used_imports_def)
  have bodies: "validate_body \<lparr>ve_arity = module_arity ?m, ve_locals = bf_params f + bf_locals f\<rparr>
      (map (relocate ?ind) (bf_code f))" if "f \<in> set fs" for f
  proof (rule validate_relocate)
    show "validate_body (built_env b f) (bf_code f)" using ok that by (auto simp: builder_ok_def fs)
    show "ve_locals (built_env b f) \<le> ve_locals \<lparr>ve_arity = module_arity ?m, ve_locals = bf_params f + bf_locals f\<rparr>"
      by (simp add: built_env_def)
    show "ve_arity \<lparr>ve_arity = module_arity ?m, ve_locals = bf_params f + bf_locals f\<rparr> (?ind ! j) = Some k"
      if "CallFn j \<in> set (bf_code f)" "ve_arity (built_env b f) j = Some k" for j k
      using that arity used [OF \<open>f \<in> set fs\<close>] by (simp add: built_env_def)
  qed
  have "list_all (\<lambda>(name, t). list_ex (\<lambda>b. bi_name b = name \<and> slice_get (md_types ?m) t = Some (length (bi_args b))) BUILTINS)
      (md_imports ?m)"
    using link_arity(2) [of _ fs _ req resp data] by (auto simp: list_all_iff list_ex_iff link_module_def Let_def)
  moreover have "list_all2 (\<lambda>t (locals, code). is_some_and (slice_get (md_types ?m) t)
          (\<lambda>ps. validate_body \<lparr>ve_arity = module_arity ?m, ve_locals = ps + locals\<rparr> code)) (md_functions ?m) (md_code ?m)"
    unfolding list_all2_conv_all_nth
    using types bodies by (auto simp: link_module_def Let_def)
  moreover have "list_all (\<lambda>(name, i). module_arity ?m i = Some 0) (md_exports ?m)"
    using req resp arity by (auto simp: link_module_def Let_def split: option.split)
  ultimately show ?thesis
    by (simp add: module_valid_def) (simp add: link_module_def Let_def)
qed

lemma compile_function_ok:
  assumes "compile_function n name tys b = Inr ((i, t), b')" and "builder_ok b"
  shows "extends b b'" and "builder_ok b'" and "arity_of b' i = Some (length tys)" and "length BUILTINS \<le> i"
proof -
  have "compiles (compile_function n name tys)
          (\<lambda>(i, t) b'. extends b b' \<and> builder_ok b' \<and> arity_of b' i = Some (length tys) \<and> length BUILTINS \<le> i) b"
    using base_typed assms(2) unfolding base_typed_def by blast
  from wpD [OF this assms(1)]
  show "extends b b'" "builder_ok b'" "arity_of b' i = Some (length tys)" "length BUILTINS \<le> i" by simp_all
qed

lemma all_some_map: "None \<notin> set xs \<Longrightarrow> \<exists>fs. xs = map Some fs"
proof (induction xs)
  case (Cons a xs)
  then obtain y fs where "a = Some y" "xs = map Some fs" by (cases a) auto
  then show ?case by (intro exI [of _ "y # fs"]) simp
qed simp

lemma extends_all_some:
  "extends b b' \<Longrightarrow> None \<notin> set (bd_functions b) \<Longrightarrow> \<exists>fs. bd_functions b' = map Some fs"
  by (rule all_some_map) (auto simp: extends_def)

lemma arity_extends: "extends b b' \<Longrightarrow> arity_of b i = Some k \<Longrightarrow> arity_of b' i = Some k"
  using arity_of_extends [of b b'] by (metis domI map_le_def)

lemma compile_function_error: "compile_function n name tys b = Inl e \<Longrightarrow> builder_ok b \<Longrightarrow> diagnostic e"
  using base_typed [of n] wp_errorD [where E = diagnostic and m = "compile_function n name tys" and s = b and e = e]
  unfolding base_typed_def by blast

lemma builder_ok_initial:
  "builder_ok \<lparr>bd_ast = ast, bd_functions = [], bd_signatures = [], bd_active = [], bd_data = []\<rparr>"
  by (simp add: builder_ok_def)

text \<open>
  The response entry point is compiled after the request one, or there is none; either way the
  builder only grows and the entry points are functions of the program without parameters.
\<close>

lemma compile_program_ok:
  assumes "compile_program fs = Inr m"
  shows "module_valid m"
proof -
  let ?b0 = "\<lparr>bd_ast = bt_collect (map (\<lambda>f. (fn_name f, f)) fs), bd_functions = [], bd_signatures = [],
               bd_active = [], bd_data = []\<rparr>"
  obtain req t b1 resp b2 built where b1: "compile_function 128 ''on_request'' [] ?b0 = Inr ((req, t), b1)"
    and resp: "(if bt_get (bd_ast b1) ''on_response'' \<noteq> None then
                 bindR (compile_function 128 ''on_response'' [] b1) (\<lambda>((i, t'), b2).
                 bindR (ensure (t' = TVoid) ResponseResult) (\<lambda>_. Inr (Some i, b2)))
               else Inr (None, b1)) = Inr (resp, b2)"
    and built: "all_some (bd_functions b2) = Some built" and m: "m = link_module built req resp (bd_data b2)"
    using assms by (auto simp: compile_program_def Let_def result_simps split: prod.splits)
  note first = compile_function_ok [OF b1 builder_ok_initial]
  have "(resp = None \<and> b2 = b1) \<or> (\<exists>i t'. resp = Some i \<and> compile_function 128 ''on_response'' [] b1 = Inr ((i, t'), b2))"
    using resp by (auto simp: result_simps split: if_splits)
  then have second: "extends b1 b2 \<and> builder_ok b2
      \<and> (\<forall>i. resp = Some i \<longrightarrow> arity_of b2 i = Some 0 \<and> length BUILTINS \<le> i)"
    using compile_function_ok [OF _ first(2)] first(2) by fastforce
  show ?thesis
    unfolding m
  proof (rule link_module_valid)
    show "builder_ok b2" using second by blast
    show "bd_functions b2 = map Some built" using built by (simp add: all_some_iff)
    show "arity_of b2 req = Some 0" using arity_extends [of b1 b2] second first(3) by simp
    show "length BUILTINS \<le> req" by (rule first(4))
    show "arity_of b2 i = Some 0 \<and> length BUILTINS \<le> i" if "resp = Some i" for i using second that by blast
  qed
qed

lemma compile_program_complete: "compile_program fs \<noteq> Inl IncompleteFunction"
proof
  assume *: "compile_program fs = Inl IncompleteFunction"
  let ?b0 = "\<lparr>bd_ast = bt_collect (map (\<lambda>f. (fn_name f, f)) fs), bd_functions = [], bd_signatures = [],
               bd_active = [], bd_data = []\<rparr>"
  have no_diagnostic: "compile_function 128 name [] b \<noteq> Inl IncompleteFunction" if "builder_ok b" for name b
    using compile_function_error [OF _ that] by (auto simp: diagnostic_def)
  have slots: "\<exists>built. all_some (bd_functions b) = Some built" if "extends ?b0 b" for b
    using extends_all_some [OF that] by (auto simp: all_some_iff)
  obtain req t b1 where b1: "compile_function 128 ''on_request'' [] ?b0 = Inr ((req, t), b1)"
    using * no_diagnostic [OF builder_ok_initial]
    by (cases "compile_function 128 ''on_request'' [] ?b0") (auto simp: compile_program_def Let_def ensure_def split: if_splits)
  note first = compile_function_ok [OF b1 builder_ok_initial]
  show False
  proof (cases "bt_get (bd_ast b1) ''on_response'' = None")
    case True
    then show ?thesis using * b1 slots [OF first(1)]
      by (auto simp: compile_program_def Let_def ensure_def split: if_splits)
  next
    case False
    show ?thesis
    proof (cases "compile_function 128 ''on_response'' [] b1")
      case (Inl e)
      then show ?thesis using * b1 False no_diagnostic [OF first(2)]
        by (auto simp: compile_program_def Let_def ensure_def split: if_splits)
    next
      case (Inr r)
      obtain i t' b2 where r: "r = ((i, t'), b2)" by (metis prod.exhaust)
      have "extends ?b0 b2" using extends_trans [OF first(1) compile_function_ok(1) [OF Inr [unfolded r] first(2)]] .
      then obtain built where "all_some (bd_functions b2) = Some built" using slots by blast
      then show ?thesis using * b1 False Inr r
        by (auto simp: compile_program_def Let_def ensure_def split: if_splits)
    qed
  qed
qed

section \<open>Properties\<close>

text \<open>
  C34. The compiler only produces valid modules: every function it began is finished, so the error
  for an incomplete function never occurs, and the linked module passes Wasm validation. Calls refer
  to an import or a function with as many parameters as operands are on the stack, locals are in
  range, branches target enclosing blocks, blocks leave the operands of their type, imports have the
  signature of the builtin they name, and the entry points take no arguments.
\<close>

theorem rgl_compile_valid:
  "compile_inner source \<noteq> Inl IncompleteFunction \<and> (\<forall>m. compile_inner source = Inr m \<longrightarrow> module_valid m)"
  using compile_program_ok compile_program_complete by (auto simp: compile_inner_def split: sum.splits)

definition sample_script :: string where
  "sample_script = ''function p(a) if a < 2 then return req.path() end return req.query() end function on_request() req.set_path(p(1)) end''"

theorem rgl_compile_valid_witness:
  "\<exists>m. compile_inner sample_script = Inr m \<and> length (md_code m) = 2 \<and> length (md_imports m) = 3 \<and> module_valid m"
proof -
  have "case compile_inner sample_script of Inl _ \<Rightarrow> False | Inr m \<Rightarrow> length (md_code m) = 2 \<and> length (md_imports m) = 3"
    by code_simp
  then obtain m where m: "compile_inner sample_script = Inr m" "length (md_code m) = 2 \<and> length (md_imports m) = 3"
    by (auto split: sum.splits)
  have "module_valid m" using rgl_compile_valid [of sample_script] m(1) by blast
  with m show ?thesis by blast
qed

end
