(* ===== verification/Wasm_Exec.thy ===== *)
theory Wasm_Exec
  imports Rgl_Codegen "HOL-Library.Signed_Division"
begin

text \<open>
  What the emitted instructions do, as the Wasm specification defines them, for a module whose imports are
  the host calls. Blocks are found by matching their \<open>end\<close>. The number \<open>k\<close> bounds the iterations of each loop and
  the depth of calls: it is spent when a branch goes back to a \<open>loop\<close> and when a function is entered, and an
  execution that needs more stops with \<open>Diverged\<close>.
\<close>

section \<open>Instructions\<close>

datatype 'e stop = HostError 'e | DivisionTrap | Diverged | Stuck

datatype wval = W32 "32 word" | W64 "64 word"

definition i32_bool :: "bool \<Rightarrow> wval" where
  "i32_bool b = W32 (if b then 1 else 0)"

text \<open>Signed division truncates towards zero and traps on a zero divisor and on overflow; the remainder only on zero.\<close>

definition i64_div :: "64 word \<Rightarrow> 64 word \<Rightarrow> ('e stop, 64 word) result" where
  "i64_div a b =
     (if b = 0 \<or> sint a = - (2 ^ 63) \<and> sint b = -1 then Inl DivisionTrap else Inr (word_of_int (sint a sdiv sint b)))"

definition i64_rem :: "64 word \<Rightarrow> 64 word \<Rightarrow> ('e stop, 64 word) result" where
  "i64_rem a b = (if b = 0 then Inl DivisionTrap else Inr (word_of_int (sint a smod sint b)))"

definition i64_binary :: "instr \<Rightarrow> 64 word \<Rightarrow> 64 word \<Rightarrow> ('e stop, wval) result" where
  "i64_binary i a b =
     (case i of
        I64Add \<Rightarrow> Inr (W64 (a + b))
      | I64Sub \<Rightarrow> Inr (W64 (a - b))
      | I64Mul \<Rightarrow> Inr (W64 (a * b))
      | I64DivS \<Rightarrow> bindR (i64_div a b) (\<lambda>v. Inr (W64 v))
      | I64RemS \<Rightarrow> bindR (i64_rem a b) (\<lambda>v. Inr (W64 v))
      | I64Eq \<Rightarrow> Inr (i32_bool (a = b))
      | I64Ne \<Rightarrow> Inr (i32_bool (a \<noteq> b))
      | I64LtS \<Rightarrow> Inr (i32_bool (sint a < sint b))
      | I64GtS \<Rightarrow> Inr (i32_bool (sint b < sint a))
      | I64LeS \<Rightarrow> Inr (i32_bool (sint a \<le> sint b))
      | I64GeS \<Rightarrow> Inr (i32_bool (sint b \<le> sint a))
      | _ \<Rightarrow> Inl Stuck)"

definition basic_step :: "instr \<Rightarrow> 64 word list \<Rightarrow> wval list \<Rightarrow> ('e stop, 64 word list \<times> wval list) result" where
  "basic_step i L S =
     (case i of
        I64Const w \<Rightarrow> Inr (L, W64 w # S)
      | LocalGet j \<Rightarrow> bindR (ok_or (slice_get L j) Stuck) (\<lambda>w. Inr (L, W64 w # S))
      | LocalSet j \<Rightarrow> (case S of W64 w # S' \<Rightarrow> if j < length L then Inr (L[j := w], S') else Inl Stuck | _ \<Rightarrow> Inl Stuck)
      | Drop \<Rightarrow> (case S of v # S' \<Rightarrow> Inr (L, S') | _ \<Rightarrow> Inl Stuck)
      | I64Eqz \<Rightarrow> (case S of W64 w # S' \<Rightarrow> Inr (L, i32_bool (w = 0) # S') | _ \<Rightarrow> Inl Stuck)
      | I32Eqz \<Rightarrow> (case S of W32 w # S' \<Rightarrow> Inr (L, i32_bool (w = 0) # S') | _ \<Rightarrow> Inl Stuck)
      | I64ExtendI32U \<Rightarrow> (case S of W32 w # S' \<Rightarrow> Inr (L, W64 (ucast w) # S') | _ \<Rightarrow> Inl Stuck)
      | _ \<Rightarrow> (case S of W64 b # W64 a # S' \<Rightarrow> bindR (i64_binary i a b) (\<lambda>v. Inr (L, v # S')) | _ \<Rightarrow> Inl Stuck))"

section \<open>Blocks\<close>

text \<open>The code up to the \<open>else\<close> or \<open>end\<close> that closes the current block, that instruction, and the code after it.\<close>

fun split_at :: "nat \<Rightarrow> instr list \<Rightarrow> (instr list \<times> instr \<times> instr list) option" where
  "split_at d [] = None"
| "split_at d (i # is) =
     (if d = 0 \<and> (i = EndI \<or> i = ElseI) then Some ([], i, is)
      else map_option (\<lambda>(c, j, r). (i # c, j, r))
        (split_at (if i = EndI then d - 1 else if i \<in> {BlockI, LoopI, IfI True, IfI False} then d + 1 else d) is))"

definition split_block :: "instr list \<Rightarrow> (instr list \<times> instr list) option" where
  "split_block is = (case split_at 0 is of Some (body, EndI, after) \<Rightarrow> Some (body, after) | _ \<Rightarrow> None)"

definition split_if :: "instr list \<Rightarrow> (instr list \<times> instr list \<times> instr list) option" where
  "split_if is =
     (case split_at 0 is of
        Some (yes, ElseI, rest) \<Rightarrow> map_option (\<lambda>(no, after). (yes, no, after)) (split_block rest)
      | _ \<Rightarrow> None)"

lemma split_at_length: "split_at d is = Some (c, j, r) \<Longrightarrow> length c + length r < length is"
  by (induction d "is" arbitrary: c rule: split_at.induct) (fastforce split: if_splits)+

lemma split_block_length: "split_block is = Some (c, r) \<Longrightarrow> length c < length is \<and> length r < length is"
  by (auto simp: split_block_def dest!: split_at_length split: option.splits instr.splits)

lemma split_if_length: "split_if is = Some (c, e, r) \<Longrightarrow> length c < length is \<and> length e < length is \<and> length r < length is"
  by (auto simp: split_if_def dest!: split_at_length split_block_length split: option.splits instr.splits)

section \<open>Execution\<close>

datatype 's wout = Fall "64 word list" "wval list" 's | Jump nat "64 word list" "wval list" 's | Done "64 word" 's

datatype callee = Import string nat | Defined nat nat "instr list"

record ('e, 's) wenv =
  wn_host :: "string \<Rightarrow> 64 word list \<Rightarrow> 's \<Rightarrow> ('e, 64 word \<times> 's) result"
  wn_func :: "nat \<Rightarrow> callee option"

fun words_of :: "wval list \<Rightarrow> 64 word list option" where
  "words_of [] = Some []"
| "words_of (W64 w # vs) = map_option (\<lambda>ws. w # ws) (words_of vs)"
| "words_of (W32 _ # _) = None"

text \<open>The arguments of a call, last one on top, and the operands below them.\<close>

definition pop_args :: "nat \<Rightarrow> wval list \<Rightarrow> (64 word list \<times> wval list) option" where
  "pop_args n S = (if n \<le> length S then map_option (\<lambda>ws. (ws, drop n S)) (words_of (rev (take n S))) else None)"

definition host_result :: "('e, 'a) result \<Rightarrow> ('e stop, 'a) result" where
  "host_result r = (case r of Inl e \<Rightarrow> Inl (HostError e) | Inr x \<Rightarrow> Inr x)"

fun function_result :: "'s wout \<Rightarrow> ('e stop, 64 word \<times> 's) result" where
  "function_result (Fall L (W64 w # S) s) = Inr (w, s)"
| "function_result (Done w s) = Inr (w, s)"
| "function_result _ = Inl Stuck"

function exec_code ::
  "('e, 's) wenv \<Rightarrow> nat \<Rightarrow> instr list \<Rightarrow> 64 word list \<Rightarrow> wval list \<Rightarrow> 's \<Rightarrow> ('e stop, 's wout) result" where
  "exec_code W k [] L S s = Inr (Fall L S s)"
| "exec_code W k (i # is) L S s =
     (case i of
        BlockI \<Rightarrow>
          (case split_block is of
             None \<Rightarrow> Inl Stuck
           | Some (body, after) \<Rightarrow>
               bindR (exec_code W k body L [] s) (\<lambda>out.
               case out of
                 Fall L' S' s' \<Rightarrow> exec_code W k after L' (S' @ S) s'
               | Jump 0 L' S' s' \<Rightarrow> exec_code W k after L' S s'
               | Jump (Suc j) L' S' s' \<Rightarrow> Inr (Jump j L' S' s')
               | Done w s' \<Rightarrow> Inr (Done w s')))
      | LoopI \<Rightarrow>
          (case split_block is of
             None \<Rightarrow> Inl Stuck
           | Some (body, after) \<Rightarrow>
               bindR (exec_code W k body L [] s) (\<lambda>out.
               case out of
                 Fall L' S' s' \<Rightarrow> exec_code W k after L' (S' @ S) s'
               | Jump 0 L' S' s' \<Rightarrow> (if k = 0 then Inl Diverged else exec_code W (k - 1) (LoopI # is) L' S s')
               | Jump (Suc j) L' S' s' \<Rightarrow> Inr (Jump j L' S' s')
               | Done w s' \<Rightarrow> Inr (Done w s')))
      | IfI b \<Rightarrow>
          (case S of
             W32 c # S1 \<Rightarrow>
               (case split_if is of
                  None \<Rightarrow> Inl Stuck
                | Some (yes, no, after) \<Rightarrow>
                    bindR (exec_code W k (if c \<noteq> 0 then yes else no) L [] s) (\<lambda>out.
                    case out of
                      Fall L' S' s' \<Rightarrow> exec_code W k after L' (S' @ S1) s'
                    | Jump 0 L' S' s' \<Rightarrow> exec_code W k after L' (take (if b then 1 else 0) S' @ S1) s'
                    | Jump (Suc j) L' S' s' \<Rightarrow> Inr (Jump j L' S' s')
                    | Done w s' \<Rightarrow> Inr (Done w s')))
           | _ \<Rightarrow> Inl Stuck)
      | ElseI \<Rightarrow> Inl Stuck
      | EndI \<Rightarrow> Inr (Fall L S s)
      | Br j \<Rightarrow> Inr (Jump j L S s)
      | BrIf j \<Rightarrow>
          (case S of
             W32 c # S1 \<Rightarrow> (if c \<noteq> 0 then Inr (Jump j L S1 s) else exec_code W k is L S1 s)
           | _ \<Rightarrow> Inl Stuck)
      | ReturnI \<Rightarrow> (case S of W64 w # _ \<Rightarrow> Inr (Done w s) | _ \<Rightarrow> Inl Stuck)
      | CallFn f \<Rightarrow>
          (case wn_func W f of
             None \<Rightarrow> Inl Stuck
           | Some (Import name n) \<Rightarrow>
               (case pop_args n S of
                  None \<Rightarrow> Inl Stuck
                | Some (args, S1) \<Rightarrow>
                    bindR (host_result (wn_host W name args s)) (\<lambda>(w, s').
                    exec_code W k is L (W64 w # S1) s'))
           | Some (Defined n locals code) \<Rightarrow>
               (case pop_args n S of
                  None \<Rightarrow> Inl Stuck
                | Some (args, S1) \<Rightarrow>
                    if k = 0 then Inl Diverged
                    else
                      bindR (exec_code W (k - 1) code (args @ replicate locals 0) [] s) (\<lambda>out.
                      bindR (function_result out) (\<lambda>(w, s').
                      exec_code W k is L (W64 w # S1) s'))))
      | _ \<Rightarrow> bindR (basic_step i L S) (\<lambda>(L', S'). exec_code W k is L' S' s))"
  by pat_completeness auto

termination
  by (relation "measures [\<lambda>(W, k, is, L, S, s). k, \<lambda>(W, k, is, L, S, s). length is]")
    (auto dest!: split_block_length split_if_length)

declare exec_code.simps(2) [simp del]

end
