(* ===== verification/Rgl_Semantics.thy ===== *)
theory Rgl_Semantics
  imports Wasm_Exec
begin

text \<open>
  The meaning of RGL programs as \<open>src/docs/rgl.md\<close> describes it. Values are tagged with their type; strings are handles of the host. The host is an argument, a
  function from the name of a call, its arguments and the host's state.

  The number \<open>k\<close> bounds the iterations of each loop and the depth of calls, as in \<open>Wasm_Exec\<close>.
\<close>

section \<open>Literals\<close>

text \<open>
  A literal denotes the host's handle for its bytes in the constant pool. Each occurrence has a place of its own,
  so the semantics takes the offsets of the literals of an expression or body, in the order of the source.
\<close>

fun literals :: "expr \<Rightarrow> string list" where
  "literals (EStr v) = [v]"
| "literals (ECall f es) = concat (map literals es)"
| "literals (EUnary op e) = literals e"
| "literals (EBinary op a b) = literals a @ literals b"
| "literals _ = []"

fun stmt_literals :: "stmt \<Rightarrow> string list" where
  "stmt_literals (SLocal x e) = literals e"
| "stmt_literals (SAssign x e) = literals e"
| "stmt_literals (SCall e) = literals e"
| "stmt_literals (SReturn e) = (case e of None \<Rightarrow> [] | Some v \<Rightarrow> literals v)"
| "stmt_literals (SIf bs other) =
     concat (map (\<lambda>b. literals (fst b) @ concat (map stmt_literals (snd b))) bs) @ concat (map stmt_literals other)"
| "stmt_literals (SWhile e body) = literals e @ concat (map stmt_literals body)"

definition block_literals :: "stmt list \<Rightarrow> string list" where
  "block_literals ss = concat (map stmt_literals ss)"

definition lits :: "expr \<Rightarrow> nat" where
  "lits e = length (literals e)"

definition stmt_lits :: "stmt \<Rightarrow> nat" where
  "stmt_lits st = length (stmt_literals st)"

definition block_lits :: "stmt list \<Rightarrow> nat" where
  "block_lits ss = length (block_literals ss)"

section \<open>Meaning of programs\<close>

type_synonym tagged = "ty \<times> 64 word"
type_synonym scope = "(string \<times> tagged) list"

datatype outcome = Go scope | Back tagged

record ('e, 's) program =
  pg_host :: "string \<Rightarrow> 64 word list \<Rightarrow> 's \<Rightarrow> ('e, 64 word \<times> 's) result"
  pg_function :: "string \<Rightarrow> func option"
  pg_places :: "string \<Rightarrow> nat list"

definition truth :: "bool \<Rightarrow> 64 word" where
  "truth b = (if b then 1 else 0)"

definition stringy :: "ty \<Rightarrow> bool" where
  "stringy t \<longleftrightarrow> t = TString \<or> t = TNil"

definition ask :: "('e, 's) program \<Rightarrow> string \<Rightarrow> 64 word list \<Rightarrow> ('s, 'e stop, 64 word) smethod" where
  "ask P name args = (\<lambda>s. host_result (pg_host P name args s))"

text \<open>Integers wrap; division truncates towards zero and traps on zero and on overflow.\<close>

definition arithmetic :: "string \<Rightarrow> 64 word \<Rightarrow> 64 word \<Rightarrow> ('e stop, tagged) result" where
  "arithmetic op a b =
     (if op = ''+'' then Inr (TInt, a + b)
      else if op = ''-'' then Inr (TInt, a - b)
      else if op = ''*'' then Inr (TInt, a * b)
      else if op = ''/'' then bindR (i64_div a b) (\<lambda>v. Inr (TInt, v))
      else if op = ''%'' then bindR (i64_rem a b) (\<lambda>v. Inr (TInt, v))
      else if op = ''<'' then Inr (TBool, truth (sint a < sint b))
      else if op = ''>'' then Inr (TBool, truth (sint a > sint b))
      else if op = ''<='' then Inr (TBool, truth (sint a \<le> sint b))
      else if op = ''>='' then Inr (TBool, truth (sint a \<ge> sint b))
      else Inl Stuck)"

text \<open>Strings and nil are compared by the host, other values as they are.\<close>

definition operate :: "('e, 's) program \<Rightarrow> string \<Rightarrow> tagged \<Rightarrow> tagged \<Rightarrow> ('s, 'e stop, tagged) smethod" where
  "operate P op a b =
     (if op = ''..'' then bindS (ask P ''str.concat'' [snd a, snd b]) (\<lambda>w. returnS (TString, w))
      else if op = ''=='' \<or> op = ''~='' then
        (if stringy (fst a) \<and> stringy (fst b) then
           bindS (ask P ''str.eq'' [snd a, snd b]) (\<lambda>w. returnS (TBool, if op = ''=='' then w else truth (w = 0)))
         else returnS (TBool, truth (if op = ''=='' then snd a = snd b else snd a \<noteq> snd b)))
      else liftS (arithmetic op (snd a) (snd b)))"

fun assign :: "string \<Rightarrow> tagged \<Rightarrow> scope \<Rightarrow> scope" where
  "assign x v [] = []"
| "assign x v ((y, u) # vs) = (if x = y then (y, v) # vs else (y, u) # assign x v vs)"

text \<open>What a block declares ends with it; what it assigns to the variables around it stays.\<close>

definition leave_block :: "scope \<Rightarrow> outcome \<Rightarrow> outcome" where
  "leave_block outer out =
     (case out of Go vs \<Rightarrow> Go (drop (length vs - length outer) vs) | Back v \<Rightarrow> Back v)"

function eval_expr :: "('e, 's) program \<Rightarrow> nat \<Rightarrow> expr \<Rightarrow> nat list \<Rightarrow> scope \<Rightarrow> ('s, 'e stop, tagged) smethod"
  and eval_args :: "('e, 's) program \<Rightarrow> nat \<Rightarrow> expr list \<Rightarrow> nat list \<Rightarrow> scope \<Rightarrow> ('s, 'e stop, tagged list) smethod"
  and perform :: "('e, 's) program \<Rightarrow> nat \<Rightarrow> stmt \<Rightarrow> nat list \<Rightarrow> scope \<Rightarrow> ('s, 'e stop, outcome) smethod"
  and perform_all :: "('e, 's) program \<Rightarrow> nat \<Rightarrow> stmt list \<Rightarrow> nat list \<Rightarrow> scope \<Rightarrow> ('s, 'e stop, outcome) smethod"
  and perform_branches ::
    "('e, 's) program \<Rightarrow> nat \<Rightarrow> (expr \<times> stmt list) list \<Rightarrow> stmt list \<Rightarrow> nat list \<Rightarrow> scope \<Rightarrow> ('s, 'e stop, outcome) smethod" where
  "eval_expr P k (EInt i) ls vs = returnS (TInt, i)"
| "eval_expr P k (EBool b) ls vs = returnS (TBool, truth b)"
| "eval_expr P k ENil ls vs = returnS (TNil, 0)"
| "eval_expr P k (EStr v) ls vs =
     (case ls of
        [place] \<Rightarrow> bindS (ask P ''constant'' [of_nat place, of_nat (length v)]) (\<lambda>w. returnS (TString, w))
      | _ \<Rightarrow> failS Stuck)"
| "eval_expr P k (EVar x) ls vs = (case map_of vs x of Some v \<Rightarrow> returnS v | None \<Rightarrow> failS Stuck)"
| "eval_expr P k (ECall f es) ls vs =
     bindS (eval_args P k es ls vs) (\<lambda>args.
     case find_callee f of
       Some i \<Rightarrow> bindS (ask P f (map snd args)) (\<lambda>w. returnS (bi_result (BUILTINS ! i), w))
     | None \<Rightarrow>
         (case pg_function P f of
            None \<Rightarrow> failS Stuck
          | Some fn \<Rightarrow>
              if k = 0 then failS Diverged
              else bindS (perform_all P (k - 1) (fn_body fn) (pg_places P f) (rev (zip (fn_params fn) args))) (\<lambda>out.
                   case out of Go _ \<Rightarrow> returnS (TVoid, 0) | Back v \<Rightarrow> returnS v)))"
| "eval_expr P k (EUnary op e) ls vs =
     bindS (eval_expr P k e ls vs) (\<lambda>v.
     if op = ''-'' then returnS (TInt, - snd v) else returnS (TBool, truth (snd v = 0)))"
| "eval_expr P k (EBinary op a b) ls vs =
     bindS (eval_expr P k a (take (lits a) ls) vs) (\<lambda>v.
     if op = ''and'' then (if snd v \<noteq> 0 then eval_expr P k b (drop (lits a) ls) vs else returnS (TBool, 0))
     else if op = ''or'' then (if snd v \<noteq> 0 then returnS (TBool, 1) else eval_expr P k b (drop (lits a) ls) vs)
     else bindS (eval_expr P k b (drop (lits a) ls) vs) (\<lambda>u. operate P op v u))"
| "eval_args P k [] ls vs = returnS []"
| "eval_args P k (e # es) ls vs =
     bindS (eval_expr P k e (take (lits e) ls) vs) (\<lambda>v. bindS (eval_args P k es (drop (lits e) ls) vs) (\<lambda>us. returnS (v # us)))"
| "perform P k (SLocal x e) ls vs = bindS (eval_expr P k e ls vs) (\<lambda>v. returnS (Go ((x, v) # vs)))"
| "perform P k (SAssign x e) ls vs = bindS (eval_expr P k e ls vs) (\<lambda>v. returnS (Go (assign x v vs)))"
| "perform P k (SCall e) ls vs = bindS (eval_expr P k e ls vs) (\<lambda>_. returnS (Go vs))"
| "perform P k (SReturn e) ls vs =
     (case e of
        None \<Rightarrow> returnS (Back (TVoid, 0))
      | Some a \<Rightarrow> bindS (eval_expr P k a ls vs) (\<lambda>v. returnS (Back v)))"
| "perform P k (SIf bs other) ls vs = perform_branches P k bs other ls vs"
| "perform P k (SWhile e body) ls vs =
     bindS (eval_expr P k e (take (lits e) ls) vs) (\<lambda>v.
     if snd v = 0 then returnS (Go vs)
     else
       bindS (perform_all P k body (drop (lits e) ls) vs) (\<lambda>out.
       case leave_block vs out of
         Back u \<Rightarrow> returnS (Back u)
       | Go vs' \<Rightarrow> if k = 0 then failS Diverged else perform P (k - 1) (SWhile e body) ls vs'))"
| "perform_all P k [] ls vs = returnS (Go vs)"
| "perform_all P k (st # ss) ls vs =
     bindS (perform P k st (take (stmt_lits st) ls) vs) (\<lambda>out.
     case out of Back v \<Rightarrow> returnS (Back v) | Go vs' \<Rightarrow> perform_all P k ss (drop (stmt_lits st) ls) vs')"
| "perform_branches P k [] other ls vs = bindS (perform_all P k other ls vs) (\<lambda>out. returnS (leave_block vs out))"
| "perform_branches P k ((e, body) # bs) other ls vs =
     bindS (eval_expr P k e (take (lits e) ls) vs) (\<lambda>v.
     if snd v \<noteq> 0 then
       bindS (perform_all P k body (take (block_lits body) (drop (lits e) ls)) vs) (\<lambda>out. returnS (leave_block vs out))
     else perform_branches P k bs other (drop (lits e + block_lits body) ls) vs)"
  by pat_completeness auto

termination
  by (relation "measures
      [case_sum (case_sum (\<lambda>(_, k, _). k) (\<lambda>(_, k, _). k))
         (case_sum (\<lambda>(_, k, _). k) (case_sum (\<lambda>(_, k, _). k) (\<lambda>(_, k, _). k))),
       case_sum (case_sum (\<lambda>_. 0) (\<lambda>_. 0))
         (case_sum (\<lambda>(_, _, st, _). 3 * size st + 1)
           (case_sum (\<lambda>(_, _, ss, _). 3 * size_list size ss + 2)
             (\<lambda>(_, _, bs, other, _). 3 * (size_list (size_prod (\<lambda>_. 0) (size_list size)) bs + size_list size other) + 3))),
       case_sum (case_sum (\<lambda>(_, _, e, _). 2 * size e) (\<lambda>(_, _, es, _). 2 * size_list size es + 1)) (\<lambda>_. 0)]")
    simp_all

definition call_function :: "('e, 's) program \<Rightarrow> nat \<Rightarrow> string \<Rightarrow> ('s, 'e stop, 64 word) smethod" where
  "call_function P k f = bindS (eval_expr P k (ECall f []) [] []) (\<lambda>v. returnS (snd v))"

end
