(* ===== verification/Rgl_Simulation.thy ===== *)
theory Rgl_Simulation
  imports Rgl_Semantics
begin

text \<open>
  Emitted code simulates the meaning of the source. For each form of expression and statement, and for function
  calls: when the code of its parts computes what the parts mean, the code of the whole does. The programs on
  both sides stop with the same error, or go on with the same words and the same state of the host; no run
  gets stuck.
\<close>

section \<open>Running emitted code\<close>

lemma exec_basic:
  "exec_code W k (I64Const w # is) L S s = exec_code W k is L (W64 w # S) s"
  "j < length L \<Longrightarrow> exec_code W k (LocalGet j # is) L S s = exec_code W k is L (W64 (L ! j) # S) s"
  "j < length L \<Longrightarrow> exec_code W k (LocalSet j # is) L (W64 w # S) s = exec_code W k is (L[j := w]) S s"
  "exec_code W k (Drop # is) L (v # S) s = exec_code W k is L S s"
  "exec_code W k (I64Eqz # is) L (W64 w # S) s = exec_code W k is L (i32_bool (w = 0) # S) s"
  "exec_code W k (I32Eqz # is) L (W32 c # S) s = exec_code W k is L (i32_bool (c = 0) # S) s"
  "exec_code W k (I64ExtendI32U # is) L (W32 c # S) s = exec_code W k is L (W64 (ucast c) # S) s"
  "exec_code W k (I64Sub # is) L (W64 b # W64 a # S) s = exec_code W k is L (W64 (a - b) # S) s"
  by (simp_all add: exec_code.simps(2) basic_step_def i64_binary_def)

lemma exec_control:
  "exec_code W k (EndI # is) L S s = Inr (Fall L S s)"
  "exec_code W k (Br j # is) L S s = Inr (Jump j L S s)"
  "exec_code W k (BrIf j # is) L (W32 c # S) s = (if c \<noteq> 0 then Inr (Jump j L S s) else exec_code W k is L S s)"
  "exec_code W k (ReturnI # is) L (W64 w # S) s = Inr (Done w s)"
  by (simp_all add: exec_code.simps(2))

lemma i32_bool_zero [simp]: "i32_bool b = W32 c \<Longrightarrow> (c = 0) = (\<not> b)"
  by (auto simp: i32_bool_def split: if_splits)

lemma exec_extend: "exec_code W k (I64ExtendI32U # is) L (i32_bool b # S) s = exec_code W k is L (W64 (truth b) # S) s"
  by (simp add: i32_bool_def exec_basic truth_def)

text \<open>\<open>closed\<close> code opens and closes its own blocks only, so looking for the end of an enclosing block passes over it.\<close>

definition closed_code :: "instr list \<Rightarrow> bool" where
  "closed_code c \<longleftrightarrow> (\<forall>d rest. split_at d (c @ rest) = map_option (\<lambda>(b, j, r). (c @ b, j, r)) (split_at d rest))"

lemma closed_Nil [simp]: "closed_code []"
  by (simp add: closed_code_def map_option_case split: option.split)

lemma closed_append [intro]: "closed_code c \<Longrightarrow> closed_code d \<Longrightarrow> closed_code (c @ d)"
  by (auto simp: closed_code_def map_option_case split: option.split)

lemma closed_Cons: "i \<notin> {BlockI, LoopI, IfI True, IfI False, ElseI, EndI} \<Longrightarrow> closed_code c \<Longrightarrow> closed_code (i # c)"
  by (auto simp: closed_code_def map_option_case split: option.split)

lemma closed_block: "closed_code c \<Longrightarrow> i = BlockI \<or> i = LoopI \<Longrightarrow> closed_code (i # c @ [EndI])"
  by (auto simp: closed_code_def map_option_case split: option.split)

lemma closed_if: "closed_code c \<Longrightarrow> closed_code d \<Longrightarrow> closed_code (IfI b # c @ ElseI # d @ [EndI])"
  by (cases b) (auto simp: closed_code_def map_option_case split: option.split)

lemma split_block_closed: "closed_code c \<Longrightarrow> split_block (c @ EndI # rest) = Some (c, rest)"
  by (simp add: split_block_def closed_code_def)

lemma split_if_closed: "closed_code c \<Longrightarrow> closed_code d \<Longrightarrow> split_if (c @ ElseI # d @ EndI # rest) = Some (c, d, rest)"
  by (simp add: split_if_def split_block_def closed_code_def)

section \<open>Places of literals\<close>

text \<open>The offset of the literal whose code begins here, and the offsets of the literals in emitted code.\<close>

definition at_literal :: "instr list \<Rightarrow> nat option" where
  "at_literal c = (case c of I64Const a # I64Const b # CallFn f # _ \<Rightarrow> if f = 1 then Some (unat a) else None | _ \<Rightarrow> None)"

fun places :: "instr list \<Rightarrow> nat list" where
  "places [] = []"
| "places (i # is) = (case at_literal (i # is) of None \<Rightarrow> places is | Some a \<Rightarrow> a # places is)"

text \<open>Code is \<open>tidy\<close> when it neither splits blocks nor literals: what comes before or after it does not matter.\<close>

definition fresh :: "instr list \<Rightarrow> bool" where
  "fresh d \<longleftrightarrow> (\<forall>c. places (c @ d) = places c @ places d)"

definition tidy :: "instr list \<Rightarrow> bool" where
  "tidy c \<longleftrightarrow> closed_code c \<and> fresh c"

lemma at_literal_short [simp]: "at_literal [] = None" "at_literal [i] = None" "at_literal [i, j] = None"
  by (simp_all add: at_literal_def split: list.split instr.split)

lemma at_literal_three: "at_literal (i # j # l # c @ d) = at_literal (i # j # l # c)"
  by (simp add: at_literal_def split: instr.split)

lemma freshI:
  assumes "\<And>i. at_literal (i # d) = None" and "\<And>i j. at_literal (i # j # d) = None"
  shows "fresh d"
  unfolding fresh_def
proof
  fix c
  show "places (c @ d) = places c @ places d"
  proof (induction c)
    case (Cons i c)
    have "at_literal (i # c @ d) = at_literal (i # c)"
    proof (cases c)
      case (Cons j c')
      then show ?thesis using assms(2) at_literal_three by (cases c') auto
    qed (simp add: assms(1))
    with Cons show ?case by (simp split: option.split)
  qed simp
qed

lemma fresh_append [simp]: "fresh c \<Longrightarrow> fresh d \<Longrightarrow> fresh (c @ d)"
  unfolding fresh_def by (metis append_assoc)

lemma fresh_single [simp]: "i \<noteq> CallFn (Suc 0) \<Longrightarrow> fresh [i]"
  by (rule freshI) (auto simp: at_literal_def split: list.split instr.split)

lemma fresh_Cons [simp]: "i \<noteq> CallFn (Suc 0) \<Longrightarrow> fresh c \<Longrightarrow> fresh (i # c)"
  using fresh_append [OF fresh_single] by fastforce

lemma fresh_Nil [simp]: "fresh []"
  by (simp add: fresh_def)

lemma fresh_literal: "fresh [I64Const a, I64Const b, CallFn (Suc 0)]"
  by (rule freshI) (auto simp: at_literal_def split: list.split instr.split)

lemma places_append [simp]: "fresh d \<Longrightarrow> places (c @ d) = places c @ places d"
  by (simp add: fresh_def)

lemma places_single [simp]: "places [i] = []"
  by simp

lemma places_Cons [simp]: "fresh d \<Longrightarrow> places (i # d) = places d"
  using places_append [of d "[i]"] by simp

lemma places_literal [simp]: "places [I64Const a, I64Const b, CallFn (Suc 0)] = [unat a]"
  by (simp add: at_literal_def)

declare places.simps(2) [simp del]

lemma tidy_Nil [simp]: "tidy []"
  by (simp add: tidy_def)

lemma tidy_append: "tidy c \<Longrightarrow> tidy d \<Longrightarrow> tidy (c @ d)"
  by (auto simp: tidy_def fresh_append)

lemma tidy_Cons: "i \<notin> {BlockI, LoopI, IfI True, IfI False, ElseI, EndI, CallFn (Suc 0)} \<Longrightarrow> tidy c \<Longrightarrow> tidy (i # c)"
  by (simp add: tidy_def closed_Cons fresh_Cons)

lemma tidy_literal: "tidy [I64Const a, I64Const b, CallFn (Suc 0)]"
  by (simp add: tidy_def closed_Cons fresh_literal)

lemma tidy_block: "tidy c \<Longrightarrow> i = BlockI \<or> i = LoopI \<Longrightarrow> tidy (i # c @ [EndI])"
  by (auto simp: tidy_def closed_block intro!: fresh_Cons fresh_append)

lemma tidy_if: "tidy c \<Longrightarrow> tidy d \<Longrightarrow> tidy (IfI b # c @ ElseI # d @ [EndI])"
  by (auto simp: tidy_def closed_if intro!: fresh_Cons fresh_append)

lemma tidyD [dest, simp]: "tidy c \<Longrightarrow> closed_code c" "tidy c \<Longrightarrow> fresh c"
  by (simp_all add: tidy_def)

section \<open>Simulation of expressions\<close>

text \<open>
  At compile time a scope \<open>cs\<close> maps each variable to its local and its type. It is realised by a scope of the
  source and the locals of a frame when they hold the same words, and the types agree on being strings.
\<close>

type_synonym cscope = "(string \<times> nat \<times> ty) list"

definition holds :: "cscope \<Rightarrow> scope \<Rightarrow> 64 word list \<Rightarrow> bool" where
  "holds cs vs L \<longleftrightarrow>
     list_all2 (\<lambda>(x, i, t) (y, u, w). x = y \<and> stringy u = stringy t \<and> i < length L \<and> L ! i = w) cs vs"

abbreviation simulates ::
  "('e stop, 's wout) result \<Rightarrow> ('s, 'e stop, 'a) smethod \<Rightarrow> ('a \<Rightarrow> 's \<Rightarrow> bool) \<Rightarrow> 's \<Rightarrow> bool" where
  "simulates X \<equiv> wp (\<lambda>e. e \<noteq> Stuck \<and> X = Inl e)"

definition computes ::
  "('e, 's) wenv \<Rightarrow> ('e, 's) program \<Rightarrow> cscope \<Rightarrow> expr \<Rightarrow> instr list \<Rightarrow> ty \<Rightarrow> bool" where
  "computes W P cs e c t \<longleftrightarrow>
     (\<forall>k vs L S s rest. holds cs vs L \<longrightarrow>
        simulates (exec_code W k (c @ rest) L S s) (eval_expr P k e (places c) vs)
          (\<lambda>v s'. stringy (fst v) = stringy t
             \<and> exec_code W k (c @ rest) L S s = exec_code W k rest L (W64 (snd v) # S) s') s)"

lemma computesD:
  assumes "computes W P cs e c t" and "holds cs vs L"
    and "\<And>u w s'. stringy u = stringy t \<Longrightarrow> exec_code W k (c @ rest) L S s = exec_code W k rest L (W64 w # S) s' \<Longrightarrow> Q (u, w) s'"
  shows "simulates (exec_code W k (c @ rest) L S s) (eval_expr P k e (places c) vs) Q s"
proof -
  have "simulates (exec_code W k (c @ rest) L S s) (eval_expr P k e (places c) vs)
          (\<lambda>v s'. stringy (fst v) = stringy t
             \<and> exec_code W k (c @ rest) L S s = exec_code W k rest L (W64 (snd v) # S) s') s"
    using assms(1,2) unfolding computes_def by blast
  then show ?thesis by (rule wp_consequence) (auto intro: assms(3))
qed

definition computes_args ::
  "('e, 's) wenv \<Rightarrow> ('e, 's) program \<Rightarrow> cscope \<Rightarrow> expr list \<Rightarrow> instr list \<Rightarrow> ty list \<Rightarrow> bool" where
  "computes_args W P cs es c ts \<longleftrightarrow>
     (\<forall>k vs L S s rest. holds cs vs L \<longrightarrow>
        simulates (exec_code W k (c @ rest) L S s) (eval_args P k es (places c) vs)
          (\<lambda>us s'. list_all2 (\<lambda>u t. stringy (fst u) = stringy t) us ts
             \<and> exec_code W k (c @ rest) L S s = exec_code W k rest L (map (\<lambda>u. W64 (snd u)) (rev us) @ S) s') s)"

lemma computes_const:
  "stringy t = stringy u \<Longrightarrow> (\<And>k vs. eval_expr P k e [] vs = returnS (u, w)) \<Longrightarrow> computes W P cs e [I64Const w] t"
  by (simp add: computes_def exec_basic)

lemma computes_var:
  assumes "map_of cs x = Some (i, t)"
  shows "computes W P cs (EVar x) [LocalGet i] t"
proof -
  have "\<exists>u w. map_of vs x = Some (u, w) \<and> stringy u = stringy t \<and> i < length L \<and> L ! i = w" if "holds cs vs L" for vs L
    using that assms unfolding holds_def by (induction cs vs rule: list_all2_induct) (auto split: if_splits)
  then show ?thesis by (fastforce simp: computes_def exec_basic)
qed

lemma computes_neg: "tidy c \<Longrightarrow> computes W P cs e c TInt \<Longrightarrow> computes W P cs (EUnary ''-'' e) (I64Const 0 # c @ [I64Sub]) TInt"
  by (auto simp: computes_def [of _ _ _ "EUnary _ _"] exec_basic fresh_single intro!: computesD)

lemma computes_not:
  "tidy c \<Longrightarrow> computes W P cs e c TBool \<Longrightarrow> op \<noteq> ''-'' \<Longrightarrow> computes W P cs (EUnary op e) (c @ [I64Eqz, I64ExtendI32U]) TBool"
  by (auto simp: computes_def [of _ _ _ "EUnary _ _"] exec_basic exec_extend fresh_single fresh_Cons intro!: computesD)

text \<open>The host answers both sides, and the builtins are imported under their indices.\<close>

definition host_linked :: "('e, 's) wenv \<Rightarrow> ('e, 's) program \<Rightarrow> bool" where
  "host_linked W P \<longleftrightarrow> pg_host P = wn_host W
     \<and> (\<forall>i < length BUILTINS. wn_func W i = Some (Import (bi_name (BUILTINS ! i)) (length (bi_args (BUILTINS ! i)))))"

lemma words_of_map [simp]: "words_of (map W64 ws) = Some ws"
  by (induction ws) auto

lemma pop_args_map: "pop_args (length ws) (map W64 (rev ws) @ S) = Some (ws, S)"
  by (simp add: pop_args_def rev_map [symmetric])

lemma sim_ask:
  assumes "host_linked W P" and "i < length BUILTINS" and "name = bi_name (BUILTINS ! i)"
    and "length ws = length (bi_args (BUILTINS ! i))" and "T = map W64 (rev ws) @ S"
    and "\<And>w s'. exec_code W k (CallFn i # rest) L T s = exec_code W k rest L (W64 w # S) s' \<Longrightarrow> Q w s'"
  shows "simulates (exec_code W k (CallFn i # rest) L T s) (ask P name ws) Q s"
proof -
  have "exec_code W k (CallFn i # rest) L T s =
      bindR (host_result (pg_host P name ws s)) (\<lambda>(w, s'). exec_code W k rest L (W64 w # S) s')"
    using assms(1-5) by (simp add: exec_code.simps(2) host_linked_def pop_args_map flip: assms(4))
  with assms(6) show ?thesis
    by (auto simp: wp_def ask_def host_result_def split: sum.split)
qed

lemma builtin_facts:
  "length BUILTINS = 37" "bi_name (BUILTINS ! Suc 0) = ''constant''" "bi_name (BUILTINS ! 19) = ''str.concat''" "bi_name (BUILTINS ! 20) = ''str.eq''"
  by (simp_all add: BUILTINS_def)

lemmas sim_asks = sim_ask [where i = "Suc 0", unfolded builtin_facts builtin_positions(2)]
  sim_ask [where i = 19, unfolded builtin_facts builtin_positions(4)]
  sim_ask [where i = 20, unfolded builtin_facts builtin_positions(6)]

lemma computes_literal:
  assumes "host_linked W P" and "unat (of_nat place :: 64 word) = place"
  shows "computes W P cs (EStr v) [I64Const (of_nat place), I64Const (of_nat (length v)), CallFn (Suc 0)] TString"
  unfolding computes_def
  by (auto simp: exec_basic assms(2) intro!: sim_asks(1) [OF assms(1)])

lemma exec_if:
  assumes "closed_code c" and "closed_code d" and "exec_code W k (if b then c else d) L [] s = X"
  shows "exec_code W k (IfI r # c @ ElseI # d @ EndI # rest) L (i32_bool b # S) s =
    bindR X (\<lambda>out.
      case out of
        Fall L' S' s' \<Rightarrow> exec_code W k rest L' (S' @ S) s'
      | Jump 0 L' S' s' \<Rightarrow> exec_code W k rest L' (take (if r then 1 else 0) S' @ S) s'
      | Jump (Suc j) L' S' s' \<Rightarrow> Inr (Jump j L' S' s')
      | Done w s' \<Rightarrow> Inr (Done w s'))"
  using assms(3) by (cases b) (simp_all add: exec_code.simps(2) [of W k "IfI r"] split_if_closed assms(1,2) i32_bool_def)

lemma exec_test: "exec_code W k (I64Eqz # I32Eqz # is) L (W64 w # S) s = exec_code W k is L (i32_bool (w \<noteq> 0) # S) s"
  by (simp add: exec_basic i32_bool_def)

text \<open>A block of code simulates what the source does at that place, and the continuation takes over from its outcome.\<close>

lemma simulates_block:
  assumes "simulates X m (\<lambda>x s'. \<exists>out. X = Inr out \<and> (bindR X F = F out \<longrightarrow> Q x s')) s"
  shows "simulates (bindR X F) m Q s"
  using assms by (auto simp: wp_def split: sum.splits)

lemma wp_known: "wp E m (\<lambda>x s'. m s = Inr (x, s') \<longrightarrow> Q x s') s \<Longrightarrow> wp E m Q s"
  by (auto simp: wp_def split: sum.splits)

lemma computes_arm:
  assumes "computes W P cs e c t" and "holds cs vs L" and "closed_code c" and "closed_code d"
    and "\<And>u w s'. stringy u = stringy t \<Longrightarrow> X = exec_code W k rest L (W64 w # S) s' \<Longrightarrow> Q (u, w) s'"
    and "X = exec_code W k (IfI True # (if b then c else d) @ ElseI # (if b then d else c) @ EndI # rest) L (i32_bool b # S) s"
  shows "simulates X (eval_expr P k e (places c) vs) Q s"
proof -
  have X: "X = bindR (exec_code W k (c @ []) L [] s) (\<lambda>out.
      case out of
        Fall L' S' s' \<Rightarrow> exec_code W k rest L' (S' @ S) s'
      | Jump 0 L' S' s' \<Rightarrow> exec_code W k rest L' (take (if True then 1 else 0) S' @ S) s'
      | Jump (Suc j) L' S' s' \<Rightarrow> Inr (Jump j L' S' s')
      | Done w s' \<Rightarrow> Inr (Done w s'))"
    unfolding assms(6) by (rule exec_if) (simp_all add: assms(3,4))
  show ?thesis
    unfolding X
    by (rule simulates_block, rule computesD [OF assms(1,2)]) (use assms(5) in \<open>auto simp: X\<close>)
qed

lemma computes_if:
  assumes a: "computes W P cs a c ta" "tidy c" and d: "computes W P cs e1 d1 t" "tidy d1" "computes W P cs e2 d2 t" "tidy d2"
    and e: "\<And>k vs. eval_expr P k e (places c @ places d1 @ places d2) vs =
      bindS (eval_expr P k a (places c) vs)
        (\<lambda>v. if snd v \<noteq> 0 then eval_expr P k e1 (places d1) vs else eval_expr P k e2 (places d2) vs)"
  shows "computes W P cs e (c @ [I64Eqz, I32Eqz] @ IfI True # d1 @ ElseI # d2 @ [EndI]) t"
proof -
  let ?code = "c @ [I64Eqz, I32Eqz] @ IfI True # d1 @ ElseI # d2 @ [EndI]"
  have places: "places ?code = places c @ places d1 @ places d2" using a(2) d(2,4) by simp
  have code: "?code @ rest = c @ I64Eqz # I32Eqz # IfI True # d1 @ ElseI # d2 @ EndI # rest" for rest by simp
  show ?thesis
    unfolding computes_def places e code wp_bind
  proof (intro allI impI, rule computesD [OF a(1)])
    fix k vs L S s rest u w s'
    assume h: "holds cs vs L"
      and eq: "exec_code W k (c @ I64Eqz # I32Eqz # IfI True # d1 @ ElseI # d2 @ EndI # rest) L S s =
        exec_code W k (I64Eqz # I32Eqz # IfI True # d1 @ ElseI # d2 @ EndI # rest) L (W64 w # S) s'"
    show "simulates (exec_code W k (c @ I64Eqz # I32Eqz # IfI True # d1 @ ElseI # d2 @ EndI # rest) L S s)
        (if snd (u, w) \<noteq> 0 then eval_expr P k e1 (places d1) vs else eval_expr P k e2 (places d2) vs)
        (\<lambda>v s''. stringy (fst v) = stringy t
          \<and> exec_code W k (c @ I64Eqz # I32Eqz # IfI True # d1 @ ElseI # d2 @ EndI # rest) L S s
            = exec_code W k rest L (W64 (snd v) # S) s'') s'"
    proof (cases "w = 0")
      case True
      then show ?thesis unfolding eq exec_test
        using computes_arm [OF d(3) h tidyD(1) [OF d(4)] tidyD(1) [OF d(2)], of _ k rest S _ False s'] by simp
    next
      case False
      then show ?thesis unfolding eq exec_test
        using computes_arm [OF d(1) h tidyD(1) [OF d(2)] tidyD(1) [OF d(4)], of _ k rest S _ True s'] by simp
    qed
  qed
qed

lemma computes_and:
  assumes "computes W P cs a c TBool" "tidy c" "length (places c) = lits a" "computes W P cs b d TBool" "tidy d"
  shows "computes W P cs (EBinary ''and'' a b) (c @ [I64Eqz, I32Eqz] @ IfI True # d @ ElseI # [I64Const 0] @ [EndI]) TBool"
  by (rule computes_if [OF assms(1,2,4,5) computes_const [of _ TBool _ "EBool False"]])
    (auto simp: truth_def assms(3) [symmetric] tidy_Cons intro!: arg_cong2 [of _ _ _ _ bindS])

lemma computes_or:
  assumes "computes W P cs a c TBool" "tidy c" "length (places c) = lits a" "computes W P cs b d TBool" "tidy d"
  shows "computes W P cs (EBinary ''or'' a b) (c @ [I64Eqz, I32Eqz] @ IfI True # [I64Const 1] @ ElseI # d @ [EndI]) TBool"
  by (rule computes_if [OF assms(1,2) computes_const [of _ TBool _ "EBool True"] _ assms(4,5)])
    (auto simp: truth_def assms(3) [symmetric] tidy_Cons intro!: arg_cong2 [of _ _ _ _ bindS])

text \<open>The instructions of an operator on operands of these types, and the type of its result.\<close>

definition op_code :: "string \<Rightarrow> ty \<Rightarrow> ty \<Rightarrow> (instr list \<times> ty) option" where
  "op_code op l r =
     (if op = ''..'' then (if l = TString \<and> r = TString then Some ([CallFn 19], TString) else None)
      else if op = ''=='' \<or> op = ''~='' then
        (if compatible l r \<or> compatible r l then
           Some (if stringy l \<and> stringy r then CallFn 20 # (if op = ''~='' then [I64Eqz, I64ExtendI32U] else [])
                 else [if op = ''=='' then I64Eq else I64Ne, I64ExtendI32U], TBool)
         else None)
      else if l = TInt \<and> r = TInt then
        map_option (\<lambda>(i, comparison). if comparison then ([i, I64ExtendI32U], TBool) else ([i], TInt)) (binary_instr op)
      else None)"

lemma emit_Inr [result_simps]: "emit c s = Inr (x, s') \<longleftrightarrow> s' = s\<lparr>fc_code := fc_code s @ c\<rparr>"
  by (auto simp: emit_def modifyS_def)

lemma method_Inr [result_simps]:
  "returnS x s = Inr (y, s') \<longleftrightarrow> y = x \<and> s' = s"
  "failS e s \<noteq> Inr r"
  "ensureS b e s = Inr (u, s') \<longleftrightarrow> b \<and> s' = s"
  "getS f s = Inr (y, s') \<longleftrightarrow> y = f s \<and> s' = s"
  "modifyS g s = Inr (u, s') \<longleftrightarrow> s' = g s"
  by (auto simp: returnS_def failS_def ensureS_def getS_def modifyS_def)

lemma call_builtin_Inr:
  "position (\<lambda>b. bi_name b = name) BUILTINS = Some i \<Longrightarrow>
     call_builtin name s = Inr (t, s') \<longleftrightarrow> t = bi_result (BUILTINS ! i) \<and> s' = s\<lparr>fc_code := fc_code s @ [CallFn i]\<rparr>"
  by (auto simp: call_builtin_def result_simps)

lemma builtin_results: "bi_result (BUILTINS ! Suc 0) = TString" "bi_result (BUILTINS ! 19) = TString" "bi_result (BUILTINS ! 20) = TBool"
  by (simp_all add: BUILTINS_def)

lemmas builtin_calls = call_builtin_Inr [OF builtin_positions(1)] call_builtin_Inr [OF builtin_positions(3)]
  call_builtin_Inr [OF builtin_positions(5)] builtin_results

lemma compile_operator_code:
  assumes "compile_operator op l r s = Inr (t, s')"
  obtains c where "op_code op l r = Some (c, t)" and "s' = s\<lparr>fc_code := fc_code s @ c\<rparr>"
proof -
  consider "op = ''..''" | "op = ''=='' \<or> op = ''~=''" | "op \<noteq> ''..''" "\<not> (op = ''=='' \<or> op = ''~='')" by blast
  then have "\<exists>c. op_code op l r = Some (c, t) \<and> s' = s\<lparr>fc_code := fc_code s @ c\<rparr>"
  proof cases
    case 1
    then show ?thesis using assms by (auto simp: compile_operator_def op_code_def result_simps builtin_calls)
  next
    case 2
    then show ?thesis using assms
      by (auto simp: compile_operator_def op_code_def result_simps builtin_calls stringy_def split: if_splits)
  next
    case 3
    then obtain i comparison where "binary_instr op = Some (i, comparison)"
      using assms by (auto simp: compile_operator_def result_simps split: option.splits)
    with 3 assms show ?thesis
      by (cases comparison) (auto simp: compile_operator_def op_code_def result_simps)
  qed
  with that show ?thesis by blast
qed

lemma op_code_tidy: "op_code op l r = Some (c, t) \<Longrightarrow> tidy c \<and> places c = []"
  by (auto simp: op_code_def binary_instr_def tidy_Cons split: if_splits)

lemma exec_binary:
  "binary_instr op = Some (i, comparison) \<Longrightarrow>
     exec_code W k (i # is) L (W64 b # W64 a # S) s = bindR (i64_binary i a b) (\<lambda>v. exec_code W k is L (v # S) s)"
  by (auto simp: binary_instr_def exec_code.simps(2) basic_step_def bindR_assoc split: if_splits)

lemma sim_arithmetic:
  assumes "binary_instr op = Some (i, comparison)"
    and "X = exec_code W k ((if comparison then [i, I64ExtendI32U] else [i]) @ rest) L (W64 b # W64 a # S) s"
  shows "simulates X (liftS (arithmetic op a b))
    (\<lambda>v s'. \<not> stringy (fst v) \<and> X = exec_code W k rest L (W64 (snd v) # S) s') s"
  using assms(1) unfolding assms(2)
  by (auto simp: exec_binary [OF assms(1)] binary_instr_def arithmetic_def i64_binary_def i64_div_def i64_rem_def
      exec_extend stringy_def split: if_splits)

lemma sim_compare:
  assumes "X = exec_code W k ([if op = ''=='' then I64Eq else I64Ne, I64ExtendI32U] @ rest) L (W64 b # W64 a # S) s"
  shows "X = exec_code W k rest L (W64 (truth (if op = ''=='' then a = b else a \<noteq> b)) # S) s"
  unfolding assms by (simp add: exec_code.simps(2) [of _ _ I64Eq] exec_code.simps(2) [of _ _ I64Ne] basic_step_def i64_binary_def exec_extend)

lemma sim_operate:
  assumes W: "host_linked W P" and "op_code op l r = Some (c, t)" and tags: "stringy ta = stringy l" "stringy tb = stringy r"
    and X: "X = exec_code W k (c @ rest) L (W64 b # W64 a # S) s"
  shows "simulates X (operate P op (ta, a) (tb, b))
    (\<lambda>v s'. stringy (fst v) = stringy t \<and> X = exec_code W k rest L (W64 (snd v) # S) s') s"
proof -
  consider (concat) "op = ''..''" "c = [CallFn 19]" "t = TString"
    | (eq) "op = ''=='' \<or> op = ''~=''" "stringy l" "stringy r" "t = TBool"
        "c = CallFn 20 # (if op = ''~='' then [I64Eqz, I64ExtendI32U] else [])"
    | (same) "op = ''=='' \<or> op = ''~=''" "\<not> (stringy l \<and> stringy r)" "t = TBool"
        "c = [if op = ''=='' then I64Eq else I64Ne, I64ExtendI32U]"
    | (arith) i comparison where "op \<noteq> ''..''" "op \<noteq> ''==''" "op \<noteq> ''~=''" "binary_instr op = Some (i, comparison)"
        "c = (if comparison then [i, I64ExtendI32U] else [i])" "t = (if comparison then TBool else TInt)"
    using assms(2) by (auto simp: op_code_def split: if_splits)
  then show ?thesis
  proof cases
    case concat
    then show ?thesis unfolding X
      by (auto simp: operate_def intro!: sim_asks(2) [OF W])
  next
    case eq
    then show ?thesis unfolding X
      by (auto simp: operate_def tags exec_basic exec_extend intro!: sim_asks(3) [OF W])
  next
    case same
    then show ?thesis using sim_compare [OF X [unfolded same(4)]] by (auto simp: operate_def tags)
  next
    case arith
    then show ?thesis using sim_arithmetic [OF arith(4) X [unfolded arith(5)]] by (auto simp: operate_def stringy_def split: sum.splits)
  qed
qed

lemma computes_binary:
  assumes "host_linked W P" and "op \<noteq> ''and''" and "op \<noteq> ''or''" and "op_code op l r = Some (d, t)"
    and a: "computes W P cs a ca l" "tidy ca" "length (places ca) = lits a" and b: "computes W P cs b cb r" "tidy cb"
  shows "computes W P cs (EBinary op a b) (ca @ cb @ d) t"
proof -
  have pl: "places (ca @ cb @ d) = places ca @ places cb" using op_code_tidy [OF assms(4)] b(2) by simp
  show ?thesis
    unfolding computes_def pl
    using assms(2,3) a b
    by (auto simp: a(3) [symmetric] intro!: computesD [OF a(1)] computesD [OF b(1)] sim_operate [OF assms(1,4)])
qed

section \<open>Simulation of calls\<close>

definition user_call :: "('e, 's) program \<Rightarrow> nat \<Rightarrow> string \<Rightarrow> tagged list \<Rightarrow> ('s, 'e stop, tagged) smethod" where
  "user_call P k f args =
     (case pg_function P f of
        None \<Rightarrow> failS Stuck
      | Some fn \<Rightarrow>
          if k = 0 then failS Diverged
          else bindS (perform_all P (k - 1) (fn_body fn) (pg_places P f) (rev (zip (fn_params fn) args))) (\<lambda>out.
               case out of Go _ \<Rightarrow> returnS (TVoid, 0) | Back v \<Rightarrow> returnS v))"

lemma eval_user_call: "find_callee f = None \<Longrightarrow> eval_expr P k (ECall f es) ls vs = bindS (eval_args P k es ls vs) (user_call P k f)"
  by (simp add: user_call_def [abs_def])

text \<open>A function of the program may be called under its index: the call does what the function's body says.\<close>

definition callable :: "('e, 's) wenv \<Rightarrow> ('e, 's) program \<Rightarrow> string \<Rightarrow> nat \<Rightarrow> ty list \<Rightarrow> ty \<Rightarrow> bool" where
  "callable W P f i ts t \<longleftrightarrow>
     (\<forall>k args L S s rest. list_all2 (\<lambda>u t. stringy (fst u) = stringy t) args ts \<longrightarrow>
        simulates (exec_code W k (CallFn i # rest) L (map (\<lambda>u. W64 (snd u)) (rev args) @ S) s) (user_call P k f args)
          (\<lambda>v s'. stringy (fst v) = stringy t
             \<and> exec_code W k (CallFn i # rest) L (map (\<lambda>u. W64 (snd u)) (rev args) @ S) s
               = exec_code W k rest L (W64 (snd v) # S) s') s)"

lemma computes_args_Nil: "computes_args W P cs [] [] []"
  by (simp add: computes_args_def)

lemma computes_argsD:
  assumes "computes_args W P cs es c ts" and "holds cs vs L"
    and "\<And>us s'. list_all2 (\<lambda>u t. stringy (fst u) = stringy t) us ts \<Longrightarrow>
      exec_code W k (c @ rest) L S s = exec_code W k rest L (map (\<lambda>u. W64 (snd u)) (rev us) @ S) s' \<Longrightarrow> Q us s'"
  shows "simulates (exec_code W k (c @ rest) L S s) (eval_args P k es (places c) vs) Q s"
proof -
  have "simulates (exec_code W k (c @ rest) L S s) (eval_args P k es (places c) vs)
          (\<lambda>us s'. list_all2 (\<lambda>u t. stringy (fst u) = stringy t) us ts
             \<and> exec_code W k (c @ rest) L S s = exec_code W k rest L (map (\<lambda>u. W64 (snd u)) (rev us) @ S) s') s"
    using assms(1,2) unfolding computes_args_def by blast
  then show ?thesis by (rule wp_consequence) (auto intro: assms(3))
qed

lemma computes_args_Cons:
  assumes e: "computes W P cs e c t" "length (places c) = lits e" and es: "computes_args W P cs es d ts" "tidy d"
  shows "computes_args W P cs (e # es) (c @ d) (t # ts)"
  using es(2) unfolding computes_args_def
  by (auto simp: e(2) [symmetric] intro!: computesD [OF e(1)] computes_argsD [OF es(1)])

lemma computes_builtin:
  assumes W: "host_linked W P" and "find_callee f = Some i" and es: "computes_args W P cs es c ts"
    and len: "length (bi_args (BUILTINS ! i)) = length ts"
  shows "computes W P cs (ECall f es) (c @ [CallFn i]) (bi_result (BUILTINS ! i))"
proof -
  from assms(2) have i: "i < length BUILTINS" "f = bi_name (BUILTINS ! i)" "i \<noteq> Suc 0"
    by (auto simp: find_callee_def position_Some_iff builtin_facts)
  then have pl: "places (c @ [CallFn i]) = places c" by simp
  show ?thesis
    unfolding computes_def pl append_assoc append_Cons append_Nil
    by (auto simp: assms(2) rev_map len list_all2_lengthD intro!: computes_argsD [OF es] sim_ask [OF W i(1,2)])
qed

lemma computes_user:
  assumes "callable W P f i ts t" and "find_callee f = None" and es: "computes_args W P cs es c ts" and "i \<noteq> Suc 0"
  shows "computes W P cs (ECall f es) (c @ [CallFn i]) t"
proof -
  have pl: "places (c @ [CallFn i]) = places c" using assms(4) by simp
  show ?thesis
    unfolding computes_def pl append_assoc append_Cons append_Nil eval_user_call [OF assms(2)] wp_bind
    using assms(1) by (auto simp: callable_def intro!: computes_argsD [OF es])
qed

section \<open>Simulation of statements\<close>

text \<open>
  Statements run on an empty stack. Either both sides go on, the scope realised by the locals, or both return
  the same word, of a type that agrees with the result type \<open>r\<close>; \<open>m\<close> is the number of locals the code needs.
\<close>

definition continues ::
  "('e, 's) wenv \<Rightarrow> nat \<Rightarrow> instr list \<Rightarrow> nat \<Rightarrow> ty option \<Rightarrow> cscope \<Rightarrow> ('e stop, 's wout) result \<Rightarrow> outcome \<Rightarrow> 's \<Rightarrow> bool" where
  "continues W k rest n r cs X out s \<longleftrightarrow>
     (case out of
        Go vs \<Rightarrow> \<exists>L. length L = n \<and> holds cs vs L \<and> X = exec_code W k rest L [] s
      | Back v \<Rightarrow> (\<exists>t. r = Some t \<and> stringy (fst v) = stringy t) \<and> X = Inr (Done (snd v) s))"

lemma continues_simps [simp]:
  "continues W k rest n r cs X (Go vs) s \<longleftrightarrow> (\<exists>L. length L = n \<and> holds cs vs L \<and> X = exec_code W k rest L [] s)"
  "continues W k rest n r cs X (Back v) s \<longleftrightarrow> (\<exists>t. r = Some t \<and> stringy (fst v) = stringy t) \<and> X = Inr (Done (snd v) s)"
  by (simp_all add: continues_def)

definition runs ::
  "('e, 's) wenv \<Rightarrow> nat \<Rightarrow> ty option \<Rightarrow> cscope \<Rightarrow> (nat \<Rightarrow> scope \<Rightarrow> ('s, 'e stop, outcome) smethod) \<Rightarrow> instr list \<Rightarrow> cscope \<Rightarrow> bool" where
  "runs W m r cs M c cs' \<longleftrightarrow>
     (\<forall>k vs L s rest. holds cs vs L \<longrightarrow> m \<le> length L \<longrightarrow>
        simulates (exec_code W k (c @ rest) L [] s) (M k vs) (continues W k rest (length L) r cs' (exec_code W k (c @ rest) L [] s)) s)"

lemma runsD:
  assumes "runs W m r cs M c cs'" and "holds cs vs L" and "m \<le> length L"
    and "\<And>vs' L' s'. length L' = length L \<Longrightarrow> holds cs' vs' L' \<Longrightarrow>
      exec_code W k (c @ rest) L [] s = exec_code W k rest L' [] s' \<Longrightarrow> Q (Go vs') s'"
    and "\<And>u w s' t. r = Some t \<Longrightarrow> stringy u = stringy t \<Longrightarrow> exec_code W k (c @ rest) L [] s = Inr (Done w s') \<Longrightarrow> Q (Back (u, w)) s'"
  shows "simulates (exec_code W k (c @ rest) L [] s) (M k vs) Q s"
proof -
  have "simulates (exec_code W k (c @ rest) L [] s) (M k vs) (continues W k rest (length L) r cs' (exec_code W k (c @ rest) L [] s)) s"
    using assms(1-3) unfolding runs_def by blast
  then show ?thesis
  proof (rule wp_consequence)
    fix out s'
    assume "continues W k rest (length L) r cs' (exec_code W k (c @ rest) L [] s) out s'"
    then show "Q out s'" by (cases out) (auto intro: assms(4,5))
  qed
qed

lemma runs_mono:
  assumes "runs W m r cs M c cs'" and "m \<le> m'" and "r = None \<or> r' = r"
  shows "runs W m' r' cs M c cs'"
  unfolding runs_def
  using assms(2,3) by (auto intro!: runsD [OF assms(1)])

lemma runs_meaning: "runs W m r cs M c cs' \<Longrightarrow> (\<And>k vs. N k vs = M k vs) \<Longrightarrow> runs W m r cs N c cs'"
  by (simp add: runs_def)

lemma runs_Nil: "runs W m r cs (\<lambda>k vs. returnS (Go vs)) [] cs"
  by (auto simp: runs_def)

lemma runs_seq:
  assumes "runs W m r cs M c cs1" and "runs W m r cs1 N d cs2"
  shows "runs W m r cs (\<lambda>k vs. bindS (M k vs) (\<lambda>out. case out of Back v \<Rightarrow> returnS (Back v) | Go vs' \<Rightarrow> N k vs')) (c @ d) cs2"
  unfolding runs_def append_assoc wp_bind
  by (auto intro!: runsD [OF assms(1)] runsD [OF assms(2)]) blast

lemma holds_length: "holds cs vs L \<Longrightarrow> length vs = length cs"
  by (auto simp: holds_def dest: list_all2_lengthD)

lemma holds_drop: "holds (ds @ cs) vs L \<Longrightarrow> holds cs (drop (length ds) vs) L"
  by (auto simp: holds_def list_all2_append1)

lemma runs_block:
  assumes "runs W m r cs M c (ds @ cs)"
  shows "runs W m r cs (\<lambda>k vs. bindS (M k vs) (\<lambda>out. returnS (leave_block vs out))) c cs"
  unfolding runs_def wp_bind wp_return
  by (auto simp: leave_block_def holds_length intro!: runsD [OF assms]) (blast dest: holds_drop)

lemma holds_update: "holds cs vs L \<Longrightarrow> \<forall>(x, i, t)\<in>set cs. i \<noteq> n \<Longrightarrow> holds cs vs (L[n := w])"
  unfolding holds_def by (erule list.rel_mono_strong) (auto split: prod.splits)

lemma runs_store:
  assumes c: "computes W P cs e c t" and i: "i < m"
    and g: "\<And>vs L u w. holds cs vs L \<Longrightarrow> m \<le> length L \<Longrightarrow> stringy u = stringy t \<Longrightarrow> holds cs' (g (u, w) vs) (L[i := w])"
  shows "runs W m r cs (\<lambda>k vs. bindS (eval_expr P k e (places c) vs) (\<lambda>v. returnS (Go (g v vs)))) (c @ [LocalSet i]) cs'"
  unfolding runs_def append_assoc append_Cons append_Nil wp_bind wp_return
proof (intro allI impI, rule computesD [OF c])
  fix k vs L s rest u w s'
  assume h: "holds cs vs L" "m \<le> length L" "stringy u = stringy t"
    and eq: "exec_code W k (c @ LocalSet i # rest) L [] s = exec_code W k (LocalSet i # rest) L [W64 w] s'"
  have "exec_code W k (c @ LocalSet i # rest) L [] s = exec_code W k rest (L[i := w]) [] s'"
    unfolding eq using h(2) i by (simp add: exec_basic)
  moreover note g [OF h, of w]
  ultimately show "continues W k rest (length L) r cs' (exec_code W k (c @ LocalSet i # rest) L [] s) (Go (g (u, w) vs)) s'"
    unfolding continues_simps by (metis length_list_update)
qed

lemma runs_local:
  assumes "computes W P cs e c t" and "\<forall>(x, i, t)\<in>set cs. i < n"
  shows "runs W (Suc n) r cs (\<lambda>k. perform P k (SLocal x e) (places (c @ [LocalSet n]))) (c @ [LocalSet n]) ((x, n, t) # cs)"
proof -
  have "holds ((x, n, t) # cs) ((x, u, w) # vs) (L[n := w])"
    if "holds cs vs L" "Suc n \<le> length L" "stringy u = stringy t" for vs L u w
    using that assms(2) holds_update [of cs vs L n w] by (fastforce simp: holds_def)
  then show ?thesis
    by (intro runs_meaning [OF runs_store [OF assms(1), of n "Suc n" _ "\<lambda>v vs. (x, v) # vs" r]]) simp_all
qed

lemma holds_assign:
  assumes "holds cs vs L" and "map_of cs x = Some (i, t)" and "stringy u = stringy t" and "distinct (map (\<lambda>(x, i, t). i) cs)"
  shows "holds cs (assign x (u, w) vs) (L[i := w])"
  using assms unfolding holds_def
proof (induction cs vs rule: list_all2_induct)
  case (Cons c cs v vs)
  obtain y j t' where c: "c = (y, j, t')" by (metis prod.exhaust)
  obtain u' w' where v: "v = (y, u', w')" using Cons.hyps(1) by (cases v) (auto simp: c)
  show ?case
  proof (cases "x = y")
    case True
    then have "holds cs vs (L[i := w])"
      using Cons.hyps Cons.prems by (intro holds_update) (force simp: holds_def c)+
    with True Cons show ?thesis by (auto simp: c v holds_def)
  next
    case False
    then have "i \<in> (\<lambda>(x, i, t). i) ` set cs" using Cons.prems(1) by (force simp: c dest: map_of_SomeD)
    moreover have "j \<notin> (\<lambda>(x, i, t). i) ` set cs" using Cons.prems(3) by (simp add: c)
    ultimately have "i \<noteq> j" by blast
    with False Cons show ?thesis by (auto simp: c v)
  qed
qed simp

lemma runs_assign:
  assumes "computes W P cs e c t'" and "map_of cs x = Some (i, t)" and "compatible t t'" and "i < m"
    and "distinct (map (\<lambda>(x, i, t). i) cs)"
  shows "runs W m r cs (\<lambda>k. perform P k (SAssign x e) (places (c @ [LocalSet i]))) (c @ [LocalSet i]) cs"
proof -
  have "stringy t' = stringy t" using assms(3) by (auto simp: compatible_def stringy_def)
  then show ?thesis
    by (intro runs_meaning [OF runs_store [OF assms(1,4), of cs "assign x" r]] holds_assign [OF _ assms(2) _ assms(5)]) simp_all
qed

lemma runs_call:
  "computes W P cs e c t \<Longrightarrow> runs W m r cs (\<lambda>k. perform P k (SCall e) (places (c @ [Drop]))) (c @ [Drop]) cs"
  unfolding runs_def append_assoc append_Cons append_Nil by (auto simp: exec_basic intro!: computesD [of W P cs e c t])

lemma runs_return:
  "computes W P cs e c t \<Longrightarrow> runs W m (Some t) cs (\<lambda>k. perform P k (SReturn (Some e)) (places (c @ [ReturnI]))) (c @ [ReturnI]) cs'"
  unfolding runs_def append_assoc append_Cons append_Nil by (auto simp: exec_control intro!: computesD [of W P cs e c t])

lemma runs_return_None: "runs W m (Some TVoid) cs (\<lambda>k. perform P k (SReturn None) ls) [I64Const 0, ReturnI] cs'"
  by (simp add: runs_def exec_basic exec_control)

lemma runs_if:
  assumes e: "computes W P cs e c t" and M: "runs W m r cs M d cs" "closed_code d" and N: "runs W m r cs N d' cs" "closed_code d'"
  shows "runs W m r cs (\<lambda>k vs. bindS (eval_expr P k e (places c) vs) (\<lambda>v. if snd v \<noteq> 0 then M k vs else N k vs))
    (c @ [I64Eqz, I32Eqz] @ IfI False # d @ ElseI # d' @ [EndI]) cs"
proof -
  have code: "(c @ [I64Eqz, I32Eqz] @ IfI False # d @ ElseI # d' @ [EndI]) @ rest
      = c @ I64Eqz # I32Eqz # IfI False # d @ ElseI # d' @ EndI # rest" for rest by simp
  have arm: "simulates X (M' k vs) (continues W k rest (length L) r cs X) s"
    if "runs W m r cs M' c' cs" "holds cs vs L" "m \<le> length L" "c' = (if b then d else d')"
      "X = exec_code W k (IfI False # d @ ElseI # d' @ EndI # rest) L [i32_bool b] s" for X M' c' k vs L s rest b
  proof -
    have X: "X = bindR (exec_code W k (c' @ []) L [] s) (\<lambda>out.
      case out of
        Fall L' S' s' \<Rightarrow> exec_code W k rest L' (S' @ []) s'
      | Jump 0 L' S' s' \<Rightarrow> exec_code W k rest L' (take (if False then 1 else 0) S' @ []) s'
      | Jump (Suc j) L' S' s' \<Rightarrow> Inr (Jump j L' S' s')
      | Done w s' \<Rightarrow> Inr (Done w s'))"
      unfolding that(5) by (rule exec_if) (simp_all add: M(2) N(2) that(4))
    show ?thesis
      unfolding X by (rule simulates_block, rule runsD [OF that(1-3)]) (auto simp: X)
  qed
  show ?thesis
    unfolding runs_def code wp_bind
    by (auto simp: exec_test intro!: computesD [OF e] arm [OF M(1), where b = True] arm [OF N(1), where b = False])
qed

lemma exec_block:
  "closed_code d \<Longrightarrow> exec_code W k (BlockI # d @ EndI # rest) L S s =
    bindR (exec_code W k d L [] s) (\<lambda>out.
      case out of
        Fall L' S' s' \<Rightarrow> exec_code W k rest L' (S' @ S) s'
      | Jump 0 L' S' s' \<Rightarrow> exec_code W k rest L' S s'
      | Jump (Suc j) L' S' s' \<Rightarrow> Inr (Jump j L' S' s')
      | Done w s' \<Rightarrow> Inr (Done w s'))"
  by (simp add: exec_code.simps(2) [of _ _ BlockI] split_block_closed)

lemma exec_loop:
  "closed_code d \<Longrightarrow> exec_code W k (LoopI # d @ EndI # rest) L S s =
    bindR (exec_code W k d L [] s) (\<lambda>out.
      case out of
        Fall L' S' s' \<Rightarrow> exec_code W k rest L' (S' @ S) s'
      | Jump 0 L' S' s' \<Rightarrow> (if k = 0 then Inl Diverged else exec_code W (k - 1) (LoopI # d @ EndI # rest) L' S s')
      | Jump (Suc j) L' S' s' \<Rightarrow> Inr (Jump j L' S' s')
      | Done w s' \<Rightarrow> Inr (Done w s'))"
  by (simp add: exec_code.simps(2) [of _ _ LoopI] split_block_closed)

definition loop_body :: "instr list \<Rightarrow> instr list \<Rightarrow> instr list" where
  "loop_body c d = c @ [I64Eqz, BrIf 1] @ d @ [Br 0]"

lemma tidy_loop_body: "tidy c \<Longrightarrow> tidy d \<Longrightarrow> tidy (loop_body c d)"
  unfolding loop_body_def by (intro tidy_append tidy_Cons tidy_Nil) auto

lemma places_loop_body: "tidy c \<Longrightarrow> tidy d \<Longrightarrow> places (loop_body c d) = places c @ places d"
  by (simp add: loop_body_def)

text \<open>One round of a loop: the condition fails and the code branches out, or the body returns, or it branches back.\<close>

lemma exec_round:
  assumes e: "computes W P cs e c t" and M: "runs W m r cs M d cs" and h: "holds cs vs L" "m \<le> length L"
    and "\<And>s'. exec_code W k (loop_body c d) L [] s = Inr (Jump 1 L [] s') \<Longrightarrow> Q (Inl ()) s'"
    and "\<And>vs' L' s'. holds cs vs' L' \<Longrightarrow> length L' = length L \<Longrightarrow>
      exec_code W k (loop_body c d) L [] s = Inr (Jump 0 L' [] s') \<Longrightarrow> Q (Inr (Go vs')) s'"
    and "\<And>u w s' t. r = Some t \<Longrightarrow> stringy u = stringy t \<Longrightarrow>
      exec_code W k (loop_body c d) L [] s = Inr (Done w s') \<Longrightarrow> Q (Inr (Back (u, w))) s'"
  shows "simulates (exec_code W k (loop_body c d) L [] s)
    (bindS (eval_expr P k e (places c) vs) (\<lambda>v. if snd v = 0 then returnS (Inl ()) else bindS (M k vs) (\<lambda>out. returnS (Inr out)))) Q s"
  using assms(5-7) unfolding loop_body_def append_assoc append_Cons append_Nil wp_bind
  by (auto simp: exec_basic exec_control i32_bool_def intro!: computesD [OF e h(1)] runsD [OF M h])

definition leaves_loop :: "nat \<Rightarrow> ty option \<Rightarrow> cscope \<Rightarrow> ('e stop, 's wout) result \<Rightarrow> outcome \<Rightarrow> 's \<Rightarrow> bool" where
  "leaves_loop n r cs X out s \<longleftrightarrow>
     (case out of
        Go vs \<Rightarrow> \<exists>L. length L = n \<and> holds cs vs L \<and> X = Inr (Jump 0 L [] s)
      | Back v \<Rightarrow> (\<exists>t. r = Some t \<and> stringy (fst v) = stringy t) \<and> X = Inr (Done (snd v) s))"

lemma leaves_loop_simps [simp]:
  "leaves_loop n r cs X (Go vs) s \<longleftrightarrow> (\<exists>L. length L = n \<and> holds cs vs L \<and> X = Inr (Jump 0 L [] s))"
  "leaves_loop n r cs X (Back v) s \<longleftrightarrow> (\<exists>t. r = Some t \<and> stringy (fst v) = stringy t) \<and> X = Inr (Done (snd v) s)"
  by (simp_all add: leaves_loop_def)

lemma sim_loop:
  assumes e: "computes W P cs e c t" "tidy c" "length (places c) = lits e"
    and M: "runs W m r cs (\<lambda>k vs. bindS (perform_all P k body (places d) vs) (\<lambda>out. returnS (leave_block vs out))) d cs" "tidy d"
    and X: "X = exec_code W k (LoopI # loop_body c d @ [EndI]) L [] s" and h: "holds cs vs L" "m \<le> length L"
  shows "simulates X (perform P k (SWhile e body) (places c @ places d) vs)
    (leaves_loop (length L) r cs X) s"
  using X h
proof (induction k arbitrary: X L vs s rule: less_induct)
  case (less k)
  have closed: "closed_code (loop_body c d)" using tidy_loop_body [OF e(2) M(2)] by simp
  let ?round = "bindS (eval_expr P k e (places c) vs) (\<lambda>v. if snd v = 0 then returnS (Inl ())
      else bindS (bindS (perform_all P k body (places d) vs) (\<lambda>out. returnS (leave_block vs out))) (\<lambda>out. returnS (Inr out)))"
  have meaning: "perform P k (SWhile e body) (places c @ places d) vs = bindS ?round (\<lambda>a.
      case a of Inl _ \<Rightarrow> returnS (Go vs) | Inr (Back u) \<Rightarrow> returnS (Back u)
      | Inr (Go vs') \<Rightarrow> if k = 0 then failS Diverged else perform P (k - 1) (SWhile e body) (places c @ places d) vs')"
    by (subst perform.simps) (auto simp: e(3) bindS_assoc fun_eq_iff returnS_def bindS_def intro!: arg_cong [of _ _ "bindR _"] split: outcome.split)
  note X = trans [OF less.prems(1) exec_loop [OF closed]]
  show ?case
    unfolding meaning wp_bind [of _ ?round]
    unfolding X
  proof (rule simulates_block, rule exec_round [OF e(1) M(1) less.prems(2,3)], goal_cases)
    case (1 s')
    then show ?case using less.prems(2) by auto
  next
    case (2 vs' L' s')
    show ?case
    proof (cases "k = 0")
      case True
      with 2 show ?thesis by simp
    next
      case False
      then have "simulates X' (perform P (k - 1) (SWhile e body) (places c @ places d) vs') (leaves_loop (length L) r cs X') s'"
        if "X' = exec_code W (k - 1) (LoopI # loop_body c d @ [EndI]) L' [] s'" for X'
        using less.IH [of "k - 1" X' L' s' vs'] 2 less.prems(3) that by (simp del: perform.simps)
      with 2(3) False show ?thesis by (simp del: perform.simps)
    qed
  next
    case (3 u w s' t)
    then show ?case by auto
  qed
qed

lemma runs_while:
  assumes "computes W P cs e c t" "tidy c" "length (places c) = lits e"
    and "runs W m r cs (\<lambda>k vs. bindS (perform_all P k body (places d) vs) (\<lambda>out. returnS (leave_block vs out))) d cs" "tidy d"
  shows "runs W m r cs (\<lambda>k. perform P k (SWhile e body) (places c @ places d)) (BlockI # (LoopI # loop_body c d @ [EndI]) @ [EndI]) cs"
proof -
  have closed: "closed_code (LoopI # loop_body c d @ [EndI])"
    using tidy_loop_body [OF assms(2,5)] by (intro closed_block) auto
  have code: "(BlockI # (LoopI # loop_body c d @ [EndI]) @ [EndI]) @ rest = BlockI # (LoopI # loop_body c d @ [EndI]) @ EndI # rest"
    for rest by simp
  show ?thesis
    unfolding runs_def code exec_block [OF closed]
  proof (intro allI impI, rule simulates_block, rule wp_consequence, rule sim_loop [OF assms refl], assumption, assumption, goal_cases)
    case (1 k vs L s rest out s')
    then show ?case by (cases out) auto
  qed
qed

section \<open>Simulation of functions\<close>

lemma leave_block_Back [simp]: "leave_block vs (Back v) = Back v" "(leave_block vs out = Back v) = (out = Back v)"
  by (auto simp: leave_block_def split: outcome.split)

lemma branches_return:
  assumes "\<And>body ls vs s out s'. body \<in> snd ` set bs \<or> body = other \<Longrightarrow> perform_all P k body ls vs s = Inr (out, s') \<Longrightarrow> \<exists>v. out = Back v"
    and "perform_branches P k bs other ls vs s = Inr (out, s')"
  shows "\<exists>v. out = Back v"
  using assms
proof (induction bs arbitrary: ls vs s)
  case Nil
  then show ?case by (fastforce simp: result_simps)
next
  case (Cons b bs)
  obtain e body where b: "b = (e, body)" by (metis prod.exhaust)
  from Cons.prems(2) consider s1 o1 ls1 where "perform_all P k body ls1 vs s1 = Inr (o1, s')" "out = leave_block vs o1"
    | s1 ls1 where "perform_branches P k bs other ls1 vs s1 = Inr (out, s')"
    by (auto simp: b result_simps split: if_splits)
  then show ?case
  proof cases
    case 1
    with Cons.prems(1) [of body ls1 vs s1 o1 s'] show ?thesis by (auto simp: b)
  next
    case 2
    show ?thesis by (rule Cons.IH [OF Cons.prems(1) 2]) (auto simp: b)
  qed
qed

lemma returns_Back:
  "returns ss \<Longrightarrow> perform_all P k ss ls vs s = Inr (out, s') \<Longrightarrow> \<exists>v. out = Back v"
  "returns_stmt st \<Longrightarrow> perform P k st ls vs s = Inr (out, s') \<Longrightarrow> \<exists>v. out = Back v"
proof (induction ss and st arbitrary: ls vs s out s' and ls vs s out s' rule: returns_returns_stmt.induct)
  case (2 st)
  from 2(3) obtain o1 s1 where o1: "perform P k st (take (stmt_lits st) ls) vs s = Inr (o1, s1)"
    and fin: "(case o1 of Back v \<Rightarrow> returnS (Back v) | Go vs' \<Rightarrow> perform_all P k [] (drop (stmt_lits st) ls) vs') s1 = Inr (out, s')"
    by (auto simp: result_simps)
  from 2(1) [OF _ o1] 2(2) fin show ?case by (auto simp: result_simps)
next
  case (3 st st' ss)
  from 3(3) obtain o1 s1 where "(case o1 of Back v \<Rightarrow> returnS (Back v)
      | Go vs' \<Rightarrow> perform_all P k (st' # ss) (drop (stmt_lits st) ls) vs') s1 = Inr (out, s')"
    by (auto simp: perform_all.simps(2) [of _ _ st] result_simps simp del: perform_all.simps(2))
  with 3(1) 3(2) show ?case by (auto simp: result_simps simp del: perform_all.simps split: outcome.splits)
next
  case (4 e)
  then show ?case by (auto simp: result_simps split: option.splits)
next
  case (5 bs other)
  show ?case
  proof (rule branches_return)
    show "perform_branches P k bs other ls vs s = Inr (out, s')" using 5 by simp
    show "\<exists>v. out = Back v" if "body \<in> snd ` set bs \<or> body = other" "perform_all P k body ls vs s = Inr (out, s')"
      for body ls vs s out s'
      using that 5 by (auto simp: list_all_iff)
  qed
qed auto

definition param_scope :: "string list \<Rightarrow> ty list \<Rightarrow> cscope" where
  "param_scope ps ts = rev (map (\<lambda>(i, (x, t)). (x, (i, t))) (zip [0..<length ps] (zip ps ts)))"

lemma holds_params:
  assumes "list_all2 (\<lambda>u t. stringy (fst u) = stringy t) args ts" and "length ps = length ts"
  shows "holds (param_scope ps ts) (rev (zip ps args)) (map snd args @ replicate n 0)"
  using assms unfolding holds_def param_scope_def list_all2_rev
  by (auto simp: list_all2_conv_all_nth nth_append split: prod.splits)

lemma callable_function:
  assumes W: "wn_func W i = Some (Defined (length ts) locals (c @ [I64Const 0, EndI]))"
    and P: "pg_function P f = Some fn" "pg_places P f = places c" "length (fn_params fn) = length ts"
    and body: "runs W m r (param_scope (fn_params fn) ts)
      (\<lambda>k vs. bindS (perform_all P k (fn_body fn) (places c) vs) (\<lambda>out. returnS (leave_block vs out))) c cs"
    and m: "m \<le> length ts + locals" and t: "t = (case r of None \<Rightarrow> TVoid | Some t \<Rightarrow> t)" "returns (fn_body fn) \<or> \<not> stringy t"
  shows "callable W P f i ts t"
  unfolding callable_def
proof (intro allI impI)
  fix k and args :: "tagged list" and L S s rest
  assume args: "list_all2 (\<lambda>u t. stringy (fst u) = stringy t) args ts"
  let ?S = "map (\<lambda>u. W64 (snd u)) (rev args) @ S" and ?L = "map snd args @ replicate locals 0"
  let ?block = "\<lambda>k vs. bindS (perform_all P k (fn_body fn) (places c) vs) (\<lambda>out. returnS (leave_block vs out))"
  let ?X = "exec_code W k (CallFn i # rest) L ?S s"
  have "pop_args (length ts) ?S = Some (map snd args, S)"
    using pop_args_map [of "map snd args" S] list_all2_lengthD [OF args] by (simp add: rev_map comp_def)
  then have X: "?X = (if k = 0 then Inl Diverged
      else bindR (exec_code W (k - 1) (c @ [I64Const 0, EndI]) ?L [] s) (\<lambda>out.
           bindR (function_result out) (\<lambda>(w, s'). exec_code W k rest L (W64 w # S) s')))"
    using W by (simp add: exec_code.simps(2))
  let ?vs = "rev (zip (fn_params fn) args)"
  have meaning: "user_call P k f args = (if k = 0 then failS Diverged else
      bindS (?block (k - 1) ?vs) (\<lambda>out. case out of Go _ \<Rightarrow> returnS (TVoid, 0) | Back v \<Rightarrow> returnS v))"
    by (auto simp: user_call_def P bindS_assoc fun_eq_iff bindS_def returnS_def leave_block_def
        intro!: arg_cong [of _ _ "bindR _"] split: outcome.split)
  have returned: "\<exists>v. out = Back v" if "returns (fn_body fn)" "?block k vs s = Inr (out, s')" for k vs s out s'
    using that(2) returns_Back(1) [OF that(1), of P k "places c" vs s] by (auto simp: result_simps)
  have h: "holds (param_scope (fn_params fn) ts) ?vs ?L" "m \<le> length ?L"
    using holds_params [OF args P(3)] m list_all2_lengthD [OF args] by auto
  show "simulates ?X (user_call P k f args) (\<lambda>v s'. stringy (fst v) = stringy t \<and> ?X = exec_code W k rest L (W64 (snd v) # S) s') s"
  proof (cases "k = 0")
    case False
    show ?thesis
      unfolding meaning X if_not_P [OF False] wp_bind [of _ "?block _ _"]
    proof (rule simulates_block, rule wp_known, rule runsD [OF body h], goal_cases)
      case (1 vs' L' s')
      then show ?case using returned [of "k - 1" ?vs s "Go vs'" s'] t(2) by (auto simp: exec_basic exec_control stringy_def)
    next
      case (2 u w s' t')
      then show ?case using t(1) by auto
    qed
  next
    case True
    show ?thesis unfolding meaning X if_P [OF True] by simp
  qed
qed

end
