(* ===== verification/Wasm_Link.thy ===== *)
theory Wasm_Link
  imports Wasm_Exec
begin

text \<open>
  Running a linked module: its environment, the call of an export, and the lemma that linking, which renumbers
  the calls of the compiled functions, does not change what they do.
\<close>

definition module_env :: "(string \<Rightarrow> 64 word list \<Rightarrow> 's \<Rightarrow> ('e, 64 word \<times> 's) result) \<Rightarrow> wasm_module \<Rightarrow> ('e, 's) wenv" where
  "module_env host m =
     \<lparr>wn_host = host,
      wn_func = (\<lambda>i.
        if i < length (md_imports m) then
          Option.bind (slice_get (md_imports m) i) (\<lambda>(name, t). map_option (Import name) (slice_get (md_types m) t))
        else
          Option.bind (slice_get (zip (md_functions m) (md_code m)) (i - length (md_imports m))) (\<lambda>(t, locals, code).
            map_option (\<lambda>n. Defined n locals code) (slice_get (md_types m) t)))\<rparr>"

definition invoke :: "('e, 's) wenv \<Rightarrow> nat \<Rightarrow> nat \<Rightarrow> 's \<Rightarrow> ('e stop, 64 word \<times> 's) result" where
  "invoke W k i s = bindR (exec_code W k [CallFn i] [] [] s) function_result"

definition run_export ::
  "(string \<Rightarrow> 64 word list \<Rightarrow> 's \<Rightarrow> ('e, 64 word \<times> 's) result) \<Rightarrow> wasm_module \<Rightarrow> nat \<Rightarrow> string \<Rightarrow> 's \<Rightarrow>
   ('e stop, 64 word \<times> 's) result" where
  "run_export host m k name s =
     (case map_of (md_exports m) name of None \<Rightarrow> Inl Stuck | Some i \<Rightarrow> invoke (module_env host m) k i s)"

section \<open>Renumbering\<close>

definition renumbered :: "nat list \<Rightarrow> (nat \<Rightarrow> bool) \<Rightarrow> ('e, 's) wenv \<Rightarrow> ('e, 's) wenv \<Rightarrow> bool" where
  "renumbered ind known W W' \<longleftrightarrow> wn_host W' = wn_host W
     \<and> (\<forall>j. known j \<longrightarrow>
          (case wn_func W j of
             None \<Rightarrow> False
           | Some (Import name n) \<Rightarrow> wn_func W' (ind ! j) = Some (Import name n)
           | Some (Defined n l code) \<Rightarrow> wn_func W' (ind ! j) = Some (Defined n l (map (relocate ind) code))
               \<and> (\<forall>i. CallFn i \<in> set code \<longrightarrow> known i)))"

lemma relocate_simps [simp]:
  "relocate ind i = BlockI \<longleftrightarrow> i = BlockI" "relocate ind i = LoopI \<longleftrightarrow> i = LoopI" "relocate ind i = IfI b \<longleftrightarrow> i = IfI b"
  "relocate ind i = ElseI \<longleftrightarrow> i = ElseI" "relocate ind i = EndI \<longleftrightarrow> i = EndI"
  by (cases i; simp)+

lemma split_at_relocate:
  "split_at d (map (relocate ind) is) =
     map_option (\<lambda>(c, j, r). (map (relocate ind) c, relocate ind j, map (relocate ind) r)) (split_at d is)"
  by (induction d "is" rule: split_at.induct) (auto simp: option.map_comp comp_def case_prod_beta)

lemma split_at_set: "split_at d is = Some (c, j, r) \<Longrightarrow> set c \<union> set r \<subseteq> set is"
  by (induction d "is" arbitrary: c rule: split_at.induct) (fastforce split: if_splits)+

lemma split_at_closer: "split_at d is = Some (c, j, r) \<Longrightarrow> j = EndI \<or> j = ElseI"
  by (induction d "is" arbitrary: c rule: split_at.induct) (auto split: if_splits)

lemma split_block_relocate:
  "split_block (map (relocate ind) is) = map_option (\<lambda>(c, r). (map (relocate ind) c, map (relocate ind) r)) (split_block is)"
  unfolding split_block_def split_at_relocate
  by (cases "split_at 0 is") (auto dest!: split_at_closer)

lemma split_if_relocate:
  "split_if (map (relocate ind) is) =
     map_option (\<lambda>(c, d, r). (map (relocate ind) c, map (relocate ind) d, map (relocate ind) r)) (split_if is)"
  unfolding split_if_def split_at_relocate
  by (cases "split_at 0 is") (auto simp: split_block_relocate option.map_comp comp_def case_prod_beta dest!: split_at_closer)

lemma split_block_set: "split_block is = Some (c, r) \<Longrightarrow> set c \<subseteq> set is \<and> set r \<subseteq> set is"
  by (auto simp: split_block_def dest!: split_at_set split: option.splits instr.splits)

lemma split_if_set: "split_if is = Some (c, d, r) \<Longrightarrow> set c \<subseteq> set is \<and> set d \<subseteq> set is \<and> set r \<subseteq> set is"
  by (fastforce simp: split_if_def dest!: split_at_set split_block_set split: option.splits instr.splits)

lemma exec_relocate:
  assumes ren: "renumbered ind known W W'" and "\<forall>j. CallFn j \<in> set c \<longrightarrow> known j"
  shows "exec_code W' k (map (relocate ind) c) L S s = exec_code W k c L S s"
  using assms(2)
proof (induction k arbitrary: c L S s rule: less_induct)
  case (less k)
  note fewer = less.IH
  show ?case
    using less.prems
  proof (induction c arbitrary: L S s rule: length_induct)
    case (1 c)
    have shorter: "exec_code W' k (map (relocate ind) d) L S s = exec_code W k d L S s"
      if "length d < length c" "set d \<subseteq> set c" for d L S s
      using 1 that by blast
    have hosts: "wn_host W' = wn_host W" using ren by (simp add: renumbered_def)
    show ?case
    proof (cases c)
      case Nil
      then show ?thesis by simp
    next
      case (Cons i "is")
      have here: "exec_code W' k (map (relocate ind) is) L S s = exec_code W k is L S s" for L S s
        by (rule shorter) (auto simp: Cons)
      have block: "exec_code W' k (map (relocate ind) b) L S s = exec_code W k b L S s"
        "exec_code W' k (map (relocate ind) r) L S s = exec_code W k r L S s"
        if "split_block is = Some (b, r)" for b r L S s
        using split_block_length [OF that] split_block_set [OF that] by (auto intro!: shorter simp: Cons)
      have iff: "exec_code W' k (map (relocate ind) b) L S s = exec_code W k b L S s"
        "exec_code W' k (map (relocate ind) d) L S s = exec_code W k d L S s"
        "exec_code W' k (map (relocate ind) r) L S s = exec_code W k r L S s"
        if "split_if is = Some (b, d, r)" for b d r L S s
        using split_if_length [OF that] split_if_set [OF that] by (auto intro!: shorter simp: Cons)
      have again: "exec_code W' (k - Suc 0) (LoopI # map (relocate ind) is) L S s = exec_code W (k - Suc 0) (LoopI # is) L S s"
        if "k \<noteq> 0" "i = LoopI" for L S s
        using fewer [of "k - 1" "LoopI # is" L S s] 1(2) that by (simp add: Cons)
      show ?thesis
      proof (cases i)
        case BlockI
        show ?thesis
          by (cases "split_block is")
            (auto simp: Cons BlockI exec_code.simps(2) split_block_relocate block intro!: bindR_cong split: wout.split nat.split)
      next
        case LoopI
        show ?thesis
          by (cases "split_block is")
            (auto simp: Cons LoopI exec_code.simps(2) [of _ k] split_block_relocate block again [OF _ LoopI]
              intro!: bindR_cong split: wout.split nat.split)
      next
        case (IfI b)
        show ?thesis
          by (cases "split_if is")
            (auto simp: Cons IfI exec_code.simps(2) split_if_relocate iff intro!: bindR_cong split: wout.split nat.split list.split wval.split)
      next
        case (CallFn f)
        then have f: "known f" using 1(2) by (simp add: Cons)
        show ?thesis
        proof (cases "wn_func W f")
          case None
          then show ?thesis using ren f by (auto simp: renumbered_def)
        next
          case (Some callee)
          then show ?thesis
          proof (cases callee)
            case (Import name n)
            then have "wn_func W' (ind ! f) = Some (Import name n)" using ren f Some by (force simp: renumbered_def)
            with Some Import show ?thesis
              by (auto simp: Cons CallFn exec_code.simps(2) here hosts intro!: bindR_cong split: option.split)
          next
            case (Defined n l code)
            then have callee: "wn_func W' (ind ! f) = Some (Defined n l (map (relocate ind) code))" "\<forall>j. CallFn j \<in> set code \<longrightarrow> known j"
              using ren f Some by (force simp: renumbered_def)+
            have "exec_code W' (k - 1) (map (relocate ind) code) L S s = exec_code W (k - 1) code L S s" if "k \<noteq> 0" for L S s
              using fewer [of "k - 1" code] callee(2) that by simp
            with Some Defined callee(1) show ?thesis
              by (auto simp: Cons CallFn exec_code.simps(2) [of _ k] here intro!: bindR_cong split: option.split)
          qed
        qed
      qed (auto simp: Cons exec_code.simps(2) here basic_step_def split: list.split wval.split intro!: bindR_cong)
    qed
  qed
qed

section \<open>Linked modules\<close>

text \<open>The functions as the compiler numbers them: the builtins, then the compiled functions.\<close>

definition compiled_env :: "(string \<Rightarrow> 64 word list \<Rightarrow> 's \<Rightarrow> ('e, 64 word \<times> 's) result) \<Rightarrow> built list \<Rightarrow> ('e, 's) wenv" where
  "compiled_env host fs =
     \<lparr>wn_host = host,
      wn_func = (\<lambda>i.
        if i < length BUILTINS then Some (Import (bi_name (BUILTINS ! i)) (length (bi_args (BUILTINS ! i))))
        else map_option (\<lambda>f. Defined (bf_params f) (bf_locals f) (bf_code f)) (slice_get fs (i - length BUILTINS)))\<rparr>"

definition resolves :: "built list \<Rightarrow> nat \<Rightarrow> bool" where
  "resolves fs i \<longleftrightarrow> (if i < length BUILTINS then used_imports fs ! i else i - length BUILTINS < length fs)"

lemma link_import:
  assumes "i < length BUILTINS" and "used_imports fs ! i"
  defines "j \<equiv> link_indices (used_imports fs) (length fs) ! i"
  shows "j < length (md_imports (link_module fs req resp data))
    \<and> md_imports (link_module fs req resp data) ! j = (bi_name (BUILTINS ! i), j)"
proof -
  define imported where "imported = filter (\<lambda>i. used_imports fs ! i) [0..<length BUILTINS]"
  have "length (used_imports fs) = length BUILTINS" by (simp add: used_imports_def)
  from link_indices_import [OF this assms(1,2)] have j: "j = length (filter (\<lambda>j. used_imports fs ! j) [0..<i])" by (simp add: j_def)
  with filter_upt_nth [OF assms(1), of "\<lambda>j. used_imports fs ! j", OF assms(2)]
  have "j < length imported" "imported ! j = i" by (simp_all add: imported_def)
  then show ?thesis by (simp add: link_module_def Let_def imported_def [symmetric]) (simp add: j_def)
qed

lemma link_imports_length: "length (md_imports (link_module fs req resp data)) = import_count (used_imports fs)"
  by (simp add: link_module_def Let_def import_count_all used_imports_def)

lemma link_renumbered:
  assumes calls: "\<And>f j. f \<in> set fs \<Longrightarrow> CallFn j \<in> set (bf_code f) \<Longrightarrow> resolves fs j"
  shows "renumbered (link_indices (used_imports fs) (length fs)) (resolves fs) (compiled_env host fs)
    (module_env host (link_module fs req resp data))"
proof -
  let ?ind = "link_indices (used_imports fs) (length fs)" and ?m = "link_module fs req resp data"
  have imported: "wn_func (module_env host ?m) (?ind ! i) = Some (Import (bi_name (BUILTINS ! i)) (length (bi_args (BUILTINS ! i))))"
    if "i < length BUILTINS" "used_imports fs ! i" for i
    using link_import [OF that, of req resp data] link_arity(2) [of i fs _ req resp data] that by (simp add: module_env_def)
  have finished: "wn_func (module_env host ?m) (?ind ! (length BUILTINS + j)) =
      Some (Defined (bf_params (fs ! j)) (bf_locals (fs ! j)) (map (relocate ?ind) (bf_code (fs ! j))))" if "j < length fs" for j
  proof -
    have "slice_get (md_types ?m) (import_count (used_imports fs) + j) = Some (bf_params (fs ! j))"
      using link_arity(2) [of "length BUILTINS + j" fs _ req resp data] that by (simp add: link_indices_function)
    then show ?thesis
      using that by (simp add: module_env_def link_indices_function link_imports_length) (simp add: link_module_def Let_def)
  qed
  show ?thesis
    unfolding renumbered_def
  proof (intro conjI allI impI)
    show "wn_host (module_env host ?m) = wn_host (compiled_env host fs)" by (simp add: module_env_def compiled_env_def)
    fix i
    assume i: "resolves fs i"
    show "case wn_func (compiled_env host fs) i of None \<Rightarrow> False
      | Some (Import name n) \<Rightarrow> wn_func (module_env host ?m) (?ind ! i) = Some (Import name n)
      | Some (Defined n l code) \<Rightarrow> wn_func (module_env host ?m) (?ind ! i) = Some (Defined n l (map (relocate ?ind) code))
          \<and> (\<forall>j. CallFn j \<in> set code \<longrightarrow> resolves fs j)"
    proof (cases "i < length BUILTINS")
      case True
      then show ?thesis using imported i by (simp add: compiled_env_def resolves_def)
    next
      case False
      then obtain j where "i = length BUILTINS + j" by (metis le_Suc_ex linorder_not_less)
      moreover from this have "j < length fs" using i by (simp add: resolves_def)
      ultimately show ?thesis using finished [of j] calls [OF nth_mem, of j] by (auto simp: compiled_env_def)
    qed
  qed
qed

end
