(* ===== verification/Rgl_Correct.thy ===== *)
theory Rgl_Correct
  imports Rgl_Simulation Wasm_Link
begin

text \<open>
  The compiler of \<open>Rgl_Codegen\<close> preserves the meaning of programs. Along a compilation the builder only grows, its
  registered functions stay callable with the meaning of their source, and each piece of emitted code simulates
  the piece of source it was emitted for. Linking renumbers calls and does not change what code does.
\<close>

section \<open>The builder along a compilation\<close>

definition placed :: "string \<Rightarrow> string list \<Rightarrow> nat list \<Rightarrow> bool" where
  "placed data vs ls \<longleftrightarrow> list_all2 (\<lambda>v i. i + length v \<le> length data \<and> take (length v) (drop i data) = v) vs ls"

definition grown :: "builder \<Rightarrow> builder \<Rightarrow> bool" where
  "grown b b' \<longleftrightarrow> extends b b' \<and> bt_get (bd_signatures b) \<subseteq>\<^sub>m bt_get (bd_signatures b') \<and> bd_active b' = bd_active b
     \<and> (\<forall>x\<in>set (bd_active b). bt_get (bd_signatures b') x = bt_get (bd_signatures b) x)"

text \<open>Every registered function is a finished function of the program whose literals are in the pool.\<close>

definition settled :: "builder \<Rightarrow> bool" where
  "settled b \<longleftrightarrow>
     (\<forall>f i ts t. bt_get (bd_signatures b) f = Some (i, ts, t) \<longrightarrow>
        (\<exists>g fn. length BUILTINS \<le> i \<and> slice_get (bd_functions b) (i - length BUILTINS) = Some (Some g)
           \<and> bt_get (bd_ast b) f = Some fn \<and> placed (bd_data b) (block_literals (fn_body fn)) (places (bf_code g))))"

text \<open>The environment has the functions the builder has finished, and the source program their literals' places.\<close>

definition linked :: "('e, 's) wenv \<Rightarrow> ('e, 's) program \<Rightarrow> builder \<Rightarrow> bool" where
  "linked W P b \<longleftrightarrow> host_linked W P \<and> pg_function P = bt_get (bd_ast b)
     \<and> (\<forall>f i ts t g. bt_get (bd_signatures b) f = Some (i, ts, t) \<longrightarrow>
          slice_get (bd_functions b) (i - length BUILTINS) = Some (Some g) \<longrightarrow>
          wn_func W i = Some (Defined (bf_params g) (bf_locals g) (bf_code g)) \<and> pg_places P f = places (bf_code g))"

definition ready :: "('e, 's) wenv \<Rightarrow> ('e, 's) program \<Rightarrow> builder \<Rightarrow> bool" where
  "ready W P b \<longleftrightarrow> settled b
     \<and> (linked W P b \<longrightarrow> (\<forall>f i ts t. bt_get (bd_signatures b) f = Some (i, ts, t) \<longrightarrow> callable W P f i ts t))"

text \<open>
  The request entry point may end without returning an action, so a call of it must not be compared as a
  string. It is being compiled, when a call of it is rejected, or the type of its result is known.
\<close>

definition entered :: "builder \<Rightarrow> bool" where
  "entered b \<longleftrightarrow> ''on_request'' \<in> set (bd_active b)
     \<or> (\<exists>i ts t. bt_get (bd_signatures b) ''on_request'' = Some (i, ts, t) \<and> \<not> stringy t)"

lemma placed_Nil [simp]: "placed d [] []"
  by (simp add: placed_def)

lemma placed_append: "placed d vs ls \<Longrightarrow> placed d us ms \<Longrightarrow> placed d (vs @ us) (ls @ ms)"
  by (simp add: placed_def list_all2_appendI)

lemma placed_length: "placed d vs ls \<Longrightarrow> length ls = length vs"
  by (simp add: placed_def list_all2_lengthD)

lemma placed_mono: "placed d vs ls \<Longrightarrow> placed (d @ d') vs ls"
  unfolding placed_def by (erule list_all2_mono) auto

lemma grown_refl [simp]: "grown b b"
  by (simp add: grown_def)

lemma grown_trans: "grown b b' \<Longrightarrow> grown b' b'' \<Longrightarrow> grown b b''"
  by (auto simp: grown_def intro: extends_trans map_le_trans)

lemma placed_grown: "placed (bd_data b) vs ls \<Longrightarrow> grown b b' \<Longrightarrow> placed (bd_data b') vs ls"
  by (auto simp: grown_def extends_def intro: placed_mono)

lemma grown_signature: "grown b b' \<Longrightarrow> bt_get (bd_signatures b) f = Some x \<Longrightarrow> bt_get (bd_signatures b') f = Some x"
  by (cases x) (force simp: grown_def map_le_def dom_def)

lemma grown_slot: "grown b b' \<Longrightarrow> slice_get (bd_functions b) j = Some g \<Longrightarrow> slice_get (bd_functions b') j = Some g"
  by (auto simp: grown_def extends_def slice_get_Some_iff nth_append)

lemma grown_ast: "grown b b' \<Longrightarrow> bd_ast b' = bd_ast b"
  by (simp add: grown_def extends_def)

lemma linked_grown: "linked W P b' \<Longrightarrow> grown b b' \<Longrightarrow> linked W P b"
  using grown_signature [of b b'] grown_slot [of b b'] grown_ast [of b b'] by (simp add: linked_def) blast

lemma entered_grown: "entered b \<Longrightarrow> grown b b' \<Longrightarrow> entered b'"
  unfolding entered_def using grown_signature [of b b' "''on_request''"] by (auto simp: grown_def)

lemma linkedD:
  assumes "linked W P b" and "bt_get (bd_signatures b) f = Some (i, ts, t)" and "slice_get (bd_functions b) (i - length BUILTINS) = Some (Some g)"
  shows "wn_func W i = Some (Defined (bf_params g) (bf_locals g) (bf_code g))" and "pg_places P f = places (bf_code g)"
  using assms unfolding linked_def by blast+

lemma linked_host: "linked W P b \<Longrightarrow> host_linked W P"
  by (simp add: linked_def)

section \<open>Claims on the methods of the compiler\<close>

definition scoped :: "fcomp \<Rightarrow> cscope \<Rightarrow> bool" where
  "scoped s cs \<longleftrightarrow> map_of cs = bt_get (fc_vars s) \<and> distinct (map (\<lambda>(x, i, t). i) cs) \<and> (\<forall>(x, i, t)\<in>set cs. i < fc_next s)"

definition emits :: "('e, 's) wenv \<Rightarrow> ('e, 's) program \<Rightarrow> fcomp \<Rightarrow> fcomp \<Rightarrow> instr list \<Rightarrow> string list \<Rightarrow> bool" where
  "emits W P s s' c vs \<longleftrightarrow>
     fc_code s' = fc_code s @ c \<and> tidy c \<and> placed (bd_data (fc_builder s')) vs (places c)
     \<and> grown (fc_builder s) (fc_builder s') \<and> ready W P (fc_builder s')"

definition starts :: "('e, 's) wenv \<Rightarrow> ('e, 's) program \<Rightarrow> fcomp \<Rightarrow> cscope \<Rightarrow> bool" where
  "starts W P s cs \<longleftrightarrow> ready W P (fc_builder s) \<and> entered (fc_builder s) \<and> scoped s cs"

definition same_frame :: "fcomp \<Rightarrow> fcomp \<Rightarrow> bool" where
  "same_frame s s' \<longleftrightarrow> fc_vars s' = fc_vars s \<and> fc_next s' = fc_next s \<and> fc_result s' = fc_result s"

definition expr_ok :: "('e, 's) wenv \<Rightarrow> ('e, 's) program \<Rightarrow> fcomp \<Rightarrow> cscope \<Rightarrow> expr \<Rightarrow> ty \<Rightarrow> fcomp \<Rightarrow> bool" where
  "expr_ok W P s cs e t s' \<longleftrightarrow>
     (\<exists>c. emits W P s s' c (literals e) \<and> same_frame s s' \<and> (linked W P (fc_builder s') \<longrightarrow> computes W P cs e c t))"

definition args_ok :: "('e, 's) wenv \<Rightarrow> ('e, 's) program \<Rightarrow> fcomp \<Rightarrow> cscope \<Rightarrow> expr list \<Rightarrow> ty list \<Rightarrow> fcomp \<Rightarrow> bool" where
  "args_ok W P s cs es ts s' \<longleftrightarrow>
     (\<exists>c. emits W P s s' c (concat (map literals es)) \<and> same_frame s s'
        \<and> (linked W P (fc_builder s') \<longrightarrow> computes_args W P cs es c ts))"

text \<open>A statement or block with its literals and its meaning, given the places of the literals.\<close>

definition code_ok ::
  "('e, 's) wenv \<Rightarrow> ('e, 's) program \<Rightarrow> fcomp \<Rightarrow> cscope \<Rightarrow> string list \<Rightarrow>
   (nat list \<Rightarrow> nat \<Rightarrow> scope \<Rightarrow> ('s, 'e stop, outcome) smethod) \<Rightarrow> fcomp \<Rightarrow> cscope \<Rightarrow> bool" where
  "code_ok W P s cs vs M s' cs' \<longleftrightarrow>
     (\<exists>c. emits W P s s' c vs \<and> fc_next s \<le> fc_next s' \<and> (fc_result s = None \<or> fc_result s' = fc_result s) \<and> scoped s' cs'
        \<and> (linked W P (fc_builder s') \<longrightarrow> runs W (fc_next s') (fc_result s') cs (M (places c)) c cs'))"

abbreviation block_meaning ::
  "('e, 's) program \<Rightarrow> stmt list \<Rightarrow> nat list \<Rightarrow> nat \<Rightarrow> scope \<Rightarrow> ('s, 'e stop, outcome) smethod" where
  "block_meaning P ss ls k vs \<equiv> bindS (perform_all P k ss ls vs) (\<lambda>out. returnS (leave_block vs out))"

definition preserves :: "('e, 's) wenv \<Rightarrow> ('e, 's) program \<Rightarrow> nat \<Rightarrow> bool" where
  "preserves W P n \<longleftrightarrow>
     (\<forall>e s t s' cs. compile_expr n e s = Inr (t, s') \<longrightarrow> starts W P s cs \<longrightarrow> expr_ok W P s cs e t s')
     \<and> (\<forall>ss s s' cs. compile_block n ss s = Inr ((), s') \<longrightarrow> starts W P s cs \<longrightarrow>
          code_ok W P s cs (block_literals ss) (block_meaning P ss) s' cs)
     \<and> (\<forall>bs other s s' cs. compile_branch n bs other s = Inr ((), s') \<longrightarrow> starts W P s cs \<longrightarrow>
          code_ok W P s cs (stmt_literals (SIf bs other)) (\<lambda>ls k. perform_branches P k bs other ls) s' cs)
     \<and> (\<forall>f ts b i t b'. compile_function n f ts b = Inr ((i, t), b') \<longrightarrow> ready W P b \<longrightarrow>
          entered b \<or> f = ''on_request'' \<longrightarrow>
          grown b b' \<and> bt_get (bd_signatures b') f = Some (i, ts, t) \<and> (f \<noteq> ''on_request'' \<or> \<not> stringy t \<longrightarrow> ready W P b'))"

lemma scoped_code [simp]: "scoped (s\<lparr>fc_code := c\<rparr>) cs = scoped s cs"
  by (simp add: scoped_def)

lemma starts_code [simp]: "starts W P (s\<lparr>fc_code := c\<rparr>) cs = starts W P s cs"
  by (simp add: starts_def)

lemma same_frame_code [simp]:
  "same_frame s (s'\<lparr>fc_code := c\<rparr>) = same_frame s s'" "same_frame (s\<lparr>fc_code := c\<rparr>) s' = same_frame s s'"
  by (simp_all add: same_frame_def)

lemma same_frame_refl [simp]: "same_frame s s"
  by (simp add: same_frame_def)

lemma same_frame_trans: "same_frame s s' \<Longrightarrow> same_frame s' s'' \<Longrightarrow> same_frame s s''"
  by (simp add: same_frame_def)

lemma starts_next:
  "starts W P s cs \<Longrightarrow> emits W P s s' c vs \<Longrightarrow> same_frame s s' \<Longrightarrow> starts W P s' cs"
  by (auto simp: starts_def emits_def scoped_def same_frame_def intro: entered_grown)

lemma emits_linked: "emits W P s s' c vs \<Longrightarrow> linked W P (fc_builder s') \<Longrightarrow> linked W P (fc_builder s)"
  by (auto simp: emits_def intro: linked_grown)

lemma emits_append: "emits W P s s1 c vs \<Longrightarrow> emits W P s1 s' d us \<Longrightarrow> emits W P s s' (c @ d) (vs @ us)"
  by (auto simp: emits_def tidy_append intro: grown_trans placed_append placed_grown)

lemma emits_places: "emits W P s s' c (literals e) \<Longrightarrow> length (places c) = lits e"
  by (auto simp: emits_def lits_def dest: placed_length)

lemma emits_tidy: "emits W P s s' c vs \<Longrightarrow> tidy c"
  by (simp add: emits_def)

text \<open>Instructions around, between or after emitted code do not touch the builder.\<close>

lemma emits_code:
  assumes "ready W P (fc_builder s)" and "tidy c" and "places c = []"
  shows "emits W P s (s\<lparr>fc_code := fc_code s @ c\<rparr>) c []"
  using assms by (simp add: emits_def)

lemma expr_okE:
  assumes "preserves W P n" and "compile_expr n e s = Inr (t, s')" and "starts W P s cs"
  obtains c where "emits W P s s' c (literals e)" and "same_frame s s'" and "starts W P s' cs"
    and "linked W P (fc_builder s') \<Longrightarrow> computes W P cs e c t"
proof -
  have "expr_ok W P s cs e t s'" using assms unfolding preserves_def by blast
  then show ?thesis using that starts_next [OF assms(3)] unfolding expr_ok_def by blast
qed

lemma compile_args_ok:
  assumes "preserves W P n" and "compile_args n es s = Inr (ts, s')" and "starts W P s cs"
  shows "args_ok W P s cs es ts s'"
  using assms(2,3)
proof (induction es arbitrary: s ts)
  case Nil
  then show ?case
    by (auto simp: args_ok_def result_simps emits_def starts_def computes_args_Nil)
next
  case (Cons e es)
  then obtain t s1 us where t: "compile_expr n e s = Inr (t, s1)" and us: "compile_args n es s1 = Inr (us, s')" "ts = t # us"
    by (auto simp: result_simps)
  from expr_okE [OF assms(1) t Cons.prems(2)] obtain c where c: "emits W P s s1 c (literals e)" "same_frame s s1"
    "starts W P s1 cs" "linked W P (fc_builder s1) \<Longrightarrow> computes W P cs e c t" by blast
  from Cons.IH [OF us(1) c(3)] obtain d where d: "emits W P s1 s' d (concat (map literals es))" "same_frame s1 s'"
    "linked W P (fc_builder s') \<longrightarrow> computes_args W P cs es d us" unfolding args_ok_def by blast
  have "computes_args W P cs (e # es) (c @ d) ts" if "linked W P (fc_builder s')"
    unfolding us(2)
    by (rule computes_args_Cons [OF c(4) emits_places [OF c(1)] _ emits_tidy [OF d(1)]])
      (use that d(3) emits_linked [OF d(1)] in auto)
  then show ?case
    unfolding args_ok_def using emits_append [OF c(1) d(1)] same_frame_trans [OF c(2) d(2)] by auto
qed

section \<open>Expressions\<close>

lemma expr_okI:
  assumes "emits W P s s' c (literals e)" and "same_frame s s'" and "linked W P (fc_builder s') \<Longrightarrow> computes W P cs e c t"
  shows "expr_ok W P s cs e t s'"
  using assms unfolding expr_ok_def by blast

lemma emit_ok:
  assumes "starts W P s cs" and "tidy c" and "places c = []" and "literals e = []"
    and "linked W P (fc_builder s) \<Longrightarrow> computes W P cs e c t"
  shows "expr_ok W P s cs e t (s\<lparr>fc_code := fc_code s @ c\<rparr>)"
  by (rule expr_okI [where c = c]) (use assms in \<open>auto simp: starts_def intro!: emits_code\<close>)

lemma ready_data:
  assumes "ready W P b"
  shows "ready W P (b\<lparr>bd_data := bd_data b @ d\<rparr>)"
proof -
  have "linked W P (b\<lparr>bd_data := bd_data b @ d\<rparr>) = linked W P b" by (simp add: linked_def)
  then show ?thesis using assms by (fastforce simp: ready_def settled_def intro: placed_mono)
qed

lemma string_ok:
  assumes "compile_string v s = Inr (t, s')" and "starts W P s cs"
  shows "expr_ok W P s cs (EStr v) t s'"
proof -
  let ?at = "length (bd_data (fc_builder s))" and ?b = "(fc_builder s)\<lparr>bd_data := bd_data (fc_builder s) @ v\<rparr>"
  let ?c = "[I64Const (of_nat ?at), I64Const (of_nat (length v)), CallFn (Suc 0)]"
  from assms(1) have s': "s' = s\<lparr>fc_builder := ?b, fc_code := fc_code s @ ?c\<rparr>" and t: "t = TString"
    and limit: "?at + length v \<le> literal_limit"
    by (auto simp: compile_string_def result_simps builtin_calls)
  have at: "unat (of_nat ?at :: 64 word) = ?at"
    using limit by (simp add: literal_limit_def unat_of_nat)
  have "grown (fc_builder s) ?b" by (auto simp: grown_def extends_def)
  moreover have "ready W P ?b" using assms(2) by (simp add: starts_def ready_data)
  moreover have "placed (bd_data ?b) [v] [?at]" by (simp add: placed_def)
  ultimately have "emits W P s s' ?c (literals (EStr v))" by (simp add: emits_def s' tidy_literal at)
  then show ?thesis
    by (rule expr_okI) (auto simp: s' t same_frame_def intro!: computes_literal [OF linked_host at])
qed

lemma var_ok:
  assumes "compile_var x s = Inr (t, s')" and "starts W P s cs"
  shows "expr_ok W P s cs (EVar x) t s'"
proof -
  from assms obtain i where "map_of cs x = Some (i, t)" "s' = s\<lparr>fc_code := fc_code s @ [LocalGet i]\<rparr>"
    by (auto simp: compile_var_def result_simps starts_def scoped_def split: option.splits)
  then show ?thesis by (auto intro!: emit_ok [OF assms(2)] computes_var tidy_Cons)
qed

lemma unary_ok:
  assumes IH: "preserves W P n" and "compile_expr_inner n (EUnary op e) s = Inr (t, s')" and "starts W P s cs"
  shows "expr_ok W P s cs (EUnary op e) t s'"
proof (cases "op = ''-''")
  case True
  then obtain s1 where s1: "compile_expr n e (s\<lparr>fc_code := fc_code s @ [I64Const 0]\<rparr>) = Inr (TInt, s1)"
    and s': "s' = s1\<lparr>fc_code := fc_code s1 @ [I64Sub]\<rparr>" "t = TInt"
    using assms(2) by (auto simp: result_simps)
  from expr_okE [OF IH s1] assms(3) obtain c where c: "emits W P (s\<lparr>fc_code := fc_code s @ [I64Const 0]\<rparr>) s1 c (literals e)"
    "same_frame s s1" "linked W P (fc_builder s1) \<Longrightarrow> computes W P cs e c TInt" by (metis same_frame_code(2) starts_code)
  have "emits W P s s' (I64Const 0 # c @ [I64Sub]) (literals (EUnary op e))"
    using c(1) by (auto simp: emits_def s' intro!: tidy_Cons tidy_append)
  then show ?thesis
    by (rule expr_okI) (use c in \<open>auto simp: True s' intro!: computes_neg emits_tidy [OF c(1)]\<close>)
next
  case False
  then obtain s1 where s1: "compile_expr n e s = Inr (TBool, s1)"
    and s': "s' = s1\<lparr>fc_code := fc_code s1 @ [I64Eqz, I64ExtendI32U]\<rparr>" "t = TBool"
    using assms(2) by (auto simp: result_simps)
  from expr_okE [OF IH s1 assms(3)] obtain c where c: "emits W P s s1 c (literals e)"
    "same_frame s s1" "linked W P (fc_builder s1) \<Longrightarrow> computes W P cs e c TBool" by metis
  have "emits W P s s' (c @ [I64Eqz, I64ExtendI32U]) (literals (EUnary op e))"
    using c(1) by (auto simp: emits_def s' intro!: tidy_Cons tidy_append)
  then show ?thesis
    by (rule expr_okI) (use c in \<open>auto simp: False s' intro!: computes_not emits_tidy [OF c(1)]\<close>)
qed

lemma logical_ok:
  assumes IH: "preserves W P n" and "compile_expr_inner n (EBinary op a b) s = Inr (t, s')" and "starts W P s cs"
    and op: "op = ''and'' \<or> op = ''or''"
  shows "expr_ok W P s cs (EBinary op a b) t s'"
proof -
  let ?add = "\<lambda>s c. s\<lparr>fc_code := fc_code s @ c\<rparr>"
  define pre where "pre = (if op = ''and'' then [I64Eqz, I32Eqz, IfI True] else [I64Eqz, I32Eqz, IfI True, I64Const 1, ElseI])"
  define post where "post = (if op = ''and'' then [ElseI, I64Const 0, EndI] else [EndI])"
  from assms(2) op obtain s1 s2 where s1: "compile_expr n a s = Inr (TBool, s1)"
    and s2: "compile_expr n b (?add s1 pre) = Inr (TBool, s2)" and s': "s' = ?add s2 post" "t = TBool"
    by (auto simp: result_simps pre_def post_def)
  from expr_okE [OF IH s1 assms(3)] obtain c where c: "emits W P s s1 c (literals a)" "same_frame s s1" "starts W P s1 cs"
    "linked W P (fc_builder s1) \<Longrightarrow> computes W P cs a c TBool" by metis
  from expr_okE [OF IH s2] c(3) obtain d where d: "emits W P (?add s1 pre) s2 d (literals b)" "same_frame s1 s2"
    "linked W P (fc_builder s2) \<Longrightarrow> computes W P cs b d TBool" by (metis same_frame_code(2) starts_code)
  have d': "emits W P s1 (s2\<lparr>fc_code := fc_code s1 @ d\<rparr>) d (literals b)" using d(1) by (simp add: emits_def)
  have tidies: "tidy c" "tidy d" using c(1) d(1) by (auto dest: emits_tidy)
  let ?code = "c @ pre @ d @ post"
  have code: "?code = (if op = ''and'' then c @ [I64Eqz, I32Eqz] @ IfI True # d @ ElseI # [I64Const 0] @ [EndI]
      else c @ [I64Eqz, I32Eqz] @ IfI True # [I64Const 1] @ ElseI # d @ [EndI])"
    using op by (auto simp: pre_def post_def)
  have "tidy ?code" unfolding code
    using tidies by (auto intro!: tidy_append tidy_Cons tidy_if [where c = d and d = "[I64Const 0]", simplified]
        tidy_if [where c = "[I64Const 1]", simplified])
  moreover have "places ?code = places c @ places d" unfolding code using tidies by simp
  moreover have "fc_code s' = fc_code s @ ?code" using c(1) d(1) by (simp add: emits_def s')
  ultimately have "emits W P s s' ?code (literals (EBinary op a b))"
    using emits_append [OF c(1) d'] tidies by (simp add: emits_def s')
  then show ?thesis
  proof (rule expr_okI)
    show "same_frame s s'" using same_frame_trans [OF c(2) d(2)] by (simp add: s')
    assume l: "linked W P (fc_builder s')"
    have ab: "computes W P cs a c TBool" "computes W P cs b d TBool"
      using l c(4) d(3) emits_linked [OF d'] by (auto simp: s')
    note parts = ab(1) tidies(1) emits_places [OF c(1)] ab(2) tidies(2)
    show "computes W P cs (EBinary op a b) ?code t"
      unfolding code s'(2) using op computes_and [OF parts] computes_or [OF parts] by auto
  qed
qed

lemma binary_ok:
  assumes IH: "preserves W P n" and "compile_expr_inner n (EBinary op a b) s = Inr (t, s')" and "starts W P s cs"
    and op: "op \<noteq> ''and''" "op \<noteq> ''or''"
  shows "expr_ok W P s cs (EBinary op a b) t s'"
proof -
  from assms(2) op obtain s1 s2 l r where s1: "compile_expr n a s = Inr (l, s1)" and s2: "compile_expr n b s1 = Inr (r, s2)"
    and fin: "compile_operator op l r s2 = Inr (t, s')"
    by (auto simp: result_simps)
  obtain o' where o': "op_code op l r = Some (o', t)" and s': "s' = s2\<lparr>fc_code := fc_code s2 @ o'\<rparr>"
    using compile_operator_code [OF fin] by blast
  from expr_okE [OF IH s1 assms(3)] obtain c where c: "emits W P s s1 c (literals a)" "same_frame s s1" "starts W P s1 cs"
    "linked W P (fc_builder s1) \<Longrightarrow> computes W P cs a c l" by metis
  from expr_okE [OF IH s2 c(3)] obtain d where d: "emits W P s1 s2 d (literals b)" "same_frame s1 s2"
    "linked W P (fc_builder s2) \<Longrightarrow> computes W P cs b d r" by metis
  have "emits W P s2 s' o' []"
    unfolding s' by (rule emits_code) (use op_code_tidy [OF o'] d(1) in \<open>auto simp: emits_def\<close>)
  from emits_append [OF emits_append [OF c(1) d(1)] this]
  have "emits W P s s' (c @ d @ o') (literals (EBinary op a b))" by simp
  then show ?thesis
  proof (rule expr_okI)
    show "same_frame s s'" using same_frame_trans [OF c(2) d(2)] by (simp add: s')
    assume l: "linked W P (fc_builder s')"
    show "computes W P cs (EBinary op a b) (c @ d @ o') t"
      by (rule computes_binary [OF linked_host [OF l] op o'])
        (use l c(4) d(3) emits_linked [OF d(1)] emits_tidy [OF c(1)] emits_tidy [OF d(1)] emits_places [OF c(1)] in \<open>auto simp: s'\<close>)
  qed
qed

lemma function_okE:
  assumes "preserves W P n" and "compile_function n f ts b = Inr ((i, t), b')" and "ready W P b" and "entered b"
  shows "grown b b'" and "bt_get (bd_signatures b') f = Some (i, ts, t)" and "ready W P b'"
proof -
  from assms have *: "grown b b' \<and> bt_get (bd_signatures b') f = Some (i, ts, t) \<and> (f \<noteq> ''on_request'' \<or> \<not> stringy t \<longrightarrow> ready W P b')"
    unfolding preserves_def by blast
  then show "grown b b'" and "bt_get (bd_signatures b') f = Some (i, ts, t)" by auto
  have "\<not> stringy t" if f: "f = ''on_request''"
  proof -
    obtain m where n: "n = Suc m" using assms(2) by (cases n) (auto simp: result_simps)
    have "''on_request'' \<notin> set (bd_active b)" using assms(2) by (auto simp: n f lookup_function_def result_simps)
    then obtain j us u where "bt_get (bd_signatures b) f = Some (j, us, u)" "\<not> stringy u"
      using assms(4) f by (auto simp: entered_def)
    then show ?thesis using * grown_signature [of b b' f] by auto
  qed
  with * show "ready W P b'" by blast
qed

lemma call_ok:
  assumes IH: "preserves W P n" and "compile_expr_inner n (ECall f es) s = Inr (t, s')" and "starts W P s cs"
  shows "expr_ok W P s cs (ECall f es) t s'"
proof -
  from assms(2) obtain ts s1 where args: "compile_args n es s = Inr (ts, s1)"
    by (auto simp: result_simps)
  from compile_args_ok [OF IH args assms(3)] obtain c where c: "emits W P s s1 c (concat (map literals es))" "same_frame s s1"
    "linked W P (fc_builder s1) \<Longrightarrow> computes_args W P cs es c ts" by (auto simp: args_ok_def)
  note st = starts_next [OF assms(3) c(1,2)]
  show ?thesis
  proof (cases "find_callee f")
    case (Some i)
    then have i: "i < length BUILTINS" "i \<noteq> Suc 0" by (auto simp: find_callee_def position_Some_iff builtin_facts)
    from Some assms(2) args have s': "s' = s1\<lparr>fc_code := fc_code s1 @ [CallFn i]\<rparr>" "t = bi_result (BUILTINS ! i)"
      and len: "length (bi_args (BUILTINS ! i)) = length ts" by (auto simp: result_simps)
    have "emits W P s1 s' [CallFn i] []" unfolding s' by (rule emits_code) (use i st in \<open>auto simp: starts_def tidy_Cons\<close>)
    from emits_append [OF c(1) this] show ?thesis
      by (intro expr_okI [where c = "c @ [CallFn i]"])
        (use c(2,3) in \<open>auto simp: s' intro!: computes_builtin [OF linked_host Some _ len]\<close>)
  next
    case None
    with assms(2) args obtain i b' where call: "compile_function n f ts (fc_builder s1) = Inr ((i, t), b')"
      and s': "s' = s1\<lparr>fc_builder := b', fc_code := fc_code s1 @ [CallFn i]\<rparr>" by (auto simp: result_simps in_builder_def)
    note fn = function_okE [OF IH call]
    have ok: "grown (fc_builder s1) b'" "bt_get (bd_signatures b') f = Some (i, ts, t)" "ready W P b'"
      using fn st by (auto simp: starts_def)
    from ok(2,3) have "length BUILTINS \<le> i" by (auto simp: ready_def settled_def)
    then have i: "i \<noteq> Suc 0" by (simp add: builtin_facts)
    have "emits W P s1 s' [CallFn i] []" using ok i by (simp add: emits_def s' tidy_Cons)
    from emits_append [OF c(1) this] show ?thesis
    proof (intro expr_okI [where c = "c @ [CallFn i]"])
      assume l: "linked W P (fc_builder s')"
      then have "callable W P f i ts t" using ok by (auto simp: ready_def s')
      moreover have "linked W P (fc_builder s1)" using l linked_grown [OF _ ok(1)] by (simp add: s')
      ultimately show "computes W P cs (ECall f es) (c @ [CallFn i]) t" using computes_user None c(3) i by blast
    qed (use c(2) in \<open>auto simp: s' same_frame_def\<close>)
  qed
qed

lemma expr_Suc:
  assumes "preserves W P n" and "compile_expr (Suc n) e s = Inr (t, s')" and "starts W P s cs"
  shows "expr_ok W P s cs e t s'"
proof (cases e)
  case (EInt i)
  with assms(2) show ?thesis by (auto simp: result_simps intro!: emit_ok [OF assms(3)] computes_const tidy_Cons)
next
  case (EBool b)
  with assms(2) show ?thesis
    by (auto simp: result_simps truth_def intro!: emit_ok [OF assms(3)] computes_const tidy_Cons)
next
  case ENil
  with assms(2) show ?thesis by (auto simp: result_simps intro!: emit_ok [OF assms(3)] computes_const tidy_Cons)
next
  case (EStr v)
  with assms(2,3) show ?thesis by (auto intro: string_ok)
next
  case (EVar x)
  with assms(2,3) show ?thesis by (auto intro: var_ok)
next
  case (ECall f es)
  with assms show ?thesis by (auto intro: call_ok simp del: compile_expr_inner.simps)
next
  case (EUnary op a)
  with assms show ?thesis by (auto intro: unary_ok simp del: compile_expr_inner.simps)
next
  case (EBinary op a b)
  with assms show ?thesis
    by (cases "op = ''and'' \<or> op = ''or''") (auto intro: logical_ok binary_ok simp del: compile_expr_inner.simps)
qed

section \<open>Statements\<close>

lemma code_okI:
  assumes "emits W P s s' c vs" and "fc_next s \<le> fc_next s'" and "fc_result s = None \<or> fc_result s' = fc_result s" and "scoped s' cs'"
    and "linked W P (fc_builder s') \<Longrightarrow> runs W (fc_next s') (fc_result s') cs (M (places c)) c cs'"
  shows "code_ok W P s cs vs M s' cs'"
  using assms unfolding code_ok_def by blast

lemma starts_scoped: "starts W P s cs \<Longrightarrow> emits W P s s' c vs \<Longrightarrow> scoped s' cs' \<Longrightarrow> starts W P s' cs'"
  by (auto simp: starts_def emits_def intro: entered_grown)

lemma scoped_frame: "scoped s cs \<Longrightarrow> same_frame s s' \<Longrightarrow> scoped s' cs"
  by (simp add: scoped_def same_frame_def)

text \<open>A statement that evaluates an expression and ends with instructions of its own.\<close>

lemma expr_stmt_ok:
  assumes IH: "preserves W P n" and "compile_expr n e s = Inr (t, s1)" and "starts W P s cs" and d: "tidy d" "places d = []"
    and s': "fc_code s' = fc_code s1 @ d" "fc_builder s' = fc_builder s1" "fc_next s \<le> fc_next s'"
      "fc_result s = None \<or> fc_result s' = fc_result s" "scoped s' cs'"
    and M: "\<And>c. computes W P cs e c t \<Longrightarrow> tidy c \<Longrightarrow> runs W (fc_next s') (fc_result s') cs (M (places (c @ d))) (c @ d) cs'"
  shows "code_ok W P s cs (literals e) M s' cs'"
proof -
  from expr_okE [OF IH assms(2,3)] obtain c where c: "emits W P s s1 c (literals e)"
    "linked W P (fc_builder s1) \<Longrightarrow> computes W P cs e c t" by metis
  have "emits W P s s' (c @ d) (literals e)"
    using c(1) d s' by (auto simp: emits_def intro: tidy_append)
  then show ?thesis
    by (rule code_okI) (use s' c M emits_tidy [OF c(1)] in auto)
qed

lemma local_ok:
  assumes IH: "preserves W P n" and "compile_statement n (SLocal x e) s = Inr ((), s')" and st: "starts W P s cs"
  shows "\<exists>d. code_ok W P s cs (stmt_literals (SLocal x e)) (\<lambda>ls k. perform P k (SLocal x e) ls) s' (d @ cs)"
proof -
  from assms(2) obtain t s1 where s1: "compile_expr n e s = Inr (t, s1)"
    and s': "s' = s1\<lparr>fc_next := fc_next s1 + 1, fc_vars := bt_insert x (fc_next s1, t) (fc_vars s1), fc_code := fc_code s1 @ [LocalSet (fc_next s1)]\<rparr>"
    by (auto simp: result_simps set_local_def)
  have frame: "fc_vars s1 = fc_vars s" "fc_next s1 = fc_next s" "fc_result s1 = fc_result s"
    using expr_okE [OF IH s1 st] by (metis same_frame_def)+
  have sc: "scoped s' ([(x, fc_next s, t)] @ cs)"
    using st by (auto simp: starts_def scoped_def s' frame)
  have "code_ok W P s cs (literals e) (\<lambda>ls k. perform P k (SLocal x e) ls) s' ([(x, fc_next s, t)] @ cs)"
    by (rule expr_stmt_ok [OF IH s1 st _ _ _ _ _ _ sc, of "[LocalSet (fc_next s)]"])
      (use st in \<open>auto simp: s' frame starts_def scoped_def tidy_Cons intro!: runs_local simp del: perform.simps places_append\<close>)
  then show ?thesis unfolding stmt_literals.simps by (rule exI)
qed

lemma assign_ok:
  assumes IH: "preserves W P n" and "compile_statement n (SAssign x e) s = Inr ((), s')" and st: "starts W P s cs"
  shows "code_ok W P s cs (stmt_literals (SAssign x e)) (\<lambda>ls k. perform P k (SAssign x e) ls) s' cs"
proof -
  from assms(2) obtain i t t' s1 where x: "bt_get (fc_vars s) x = Some (i, t)" and s1: "compile_expr n e s = Inr (t', s1)"
    and t': "compatible t t'" and s': "s' = s1\<lparr>fc_code := fc_code s1 @ [LocalSet i]\<rparr>"
    by (auto simp: result_simps split: option.splits)
  have frame: "same_frame s s1" using expr_okE [OF IH s1 st] by metis
  have sc: "scoped s' cs" using st frame by (auto simp: s' starts_def intro: scoped_frame)
  have x': "map_of cs x = Some (i, t)" "distinct (map (\<lambda>(x, i, t). i) cs)" and bound: "\<forall>(x, i, t)\<in>set cs. i < fc_next s"
    using st x by (auto simp: starts_def scoped_def)
  have "i < fc_next s" using map_of_SomeD [OF x'(1)] bound by auto
  show ?thesis
    unfolding stmt_literals.simps
    by (rule expr_stmt_ok [OF IH s1 st _ _ _ _ _ _ sc, of "[LocalSet i]"])
      (use frame x' t' \<open>i < fc_next s\<close> in \<open>auto simp: s' same_frame_def tidy_Cons intro!: runs_assign simp del: perform.simps places_append\<close>)
qed

lemma call_stmt_ok:
  assumes IH: "preserves W P n" and "compile_statement n (SCall e) s = Inr ((), s')" and st: "starts W P s cs"
  shows "code_ok W P s cs (stmt_literals (SCall e)) (\<lambda>ls k. perform P k (SCall e) ls) s' cs"
proof -
  from assms(2) obtain t s1 where s1: "compile_expr n e s = Inr (t, s1)" and s': "s' = s1\<lparr>fc_code := fc_code s1 @ [Drop]\<rparr>"
    by (auto simp: result_simps)
  have frame: "same_frame s s1" using expr_okE [OF IH s1 st] by metis
  have sc: "scoped s' cs" using st frame by (auto simp: s' starts_def intro: scoped_frame)
  show ?thesis
    unfolding stmt_literals.simps
    by (rule expr_stmt_ok [OF IH s1 st _ _ _ _ _ _ sc, of "[Drop]"])
      (use frame in \<open>auto simp: s' same_frame_def tidy_Cons intro!: runs_call simp del: perform.simps places_append\<close>)
qed

lemma return_ok:
  assumes IH: "preserves W P n" and "compile_statement n (SReturn e) s = Inr ((), s')" and st: "starts W P s cs"
  shows "code_ok W P s cs (stmt_literals (SReturn e)) (\<lambda>ls k. perform P k (SReturn e) ls) s' cs"
proof (cases e)
  case None
  then have s': "s' = s\<lparr>fc_code := fc_code s @ [I64Const 0, ReturnI], fc_result := Some TVoid\<rparr>" "is_none_or (fc_result s) (\<lambda>t. t = TVoid)"
    using assms(2) by (auto simp: result_simps set_result_def)
  have "emits W P s s' [I64Const 0, ReturnI] []" using st by (simp add: emits_def s' starts_def tidy_Cons)
  then show ?thesis
    unfolding None stmt_literals.simps option.case
    by (rule code_okI) (use st s'(2) in \<open>auto simp: s' starts_def scoped_def is_none_or_def intro!: runs_return_None simp del: perform.simps split: option.splits\<close>)
next
  case (Some v)
  then obtain t s1 where s1: "compile_expr n v s = Inr (t, s1)" and r: "is_none_or (fc_result s1) (\<lambda>u. u = t)"
    and s': "s' = s1\<lparr>fc_result := Some t, fc_code := fc_code s1 @ [ReturnI]\<rparr>"
    using assms(2) by (auto simp: result_simps set_result_def)
  have frame: "same_frame s s1" using expr_okE [OF IH s1 st] by metis
  have sc: "scoped s' cs" using st frame by (auto simp: s' starts_def scoped_def same_frame_def)
  show ?thesis
    unfolding Some stmt_literals.simps option.case
    by (rule expr_stmt_ok [OF IH s1 st _ _ _ _ _ _ sc, of "[ReturnI]"])
      (use frame r in \<open>auto simp: s' same_frame_def tidy_Cons is_none_or_def intro!: runs_return simp del: perform.simps places_append split: option.splits\<close>)
qed

lemma emits_shift: "emits W P (s\<lparr>fc_code := x\<rparr>) s' c vs \<Longrightarrow> emits W P s (s'\<lparr>fc_code := fc_code s @ c\<rparr>) c vs"
  by (simp add: emits_def)

lemma emits_recode:
  "tidy c' \<Longrightarrow> emits W P s s1 c vs \<Longrightarrow> places c' = places c \<Longrightarrow> fc_builder s' = fc_builder s1 \<Longrightarrow> fc_code s' = fc_code s @ c' \<Longrightarrow>
     emits W P s s' c' vs"
  by (simp add: emits_def)

lemma blockE:
  assumes "preserves W P n" and "compile_block n ss (s\<lparr>fc_code := x\<rparr>) = Inr ((), s')" and "starts W P s cs"
  obtains c where "emits W P s (s'\<lparr>fc_code := fc_code s @ c\<rparr>) c (block_literals ss)" and "fc_code s' = x @ c"
    and "fc_next s \<le> fc_next s'" and "fc_result s = None \<or> fc_result s' = fc_result s" and "scoped s' cs"
    and "linked W P (fc_builder s') \<Longrightarrow> runs W (fc_next s') (fc_result s') cs (block_meaning P ss (places c)) c cs"
proof -
  have st: "starts W P (s\<lparr>fc_code := x\<rparr>) cs" using assms(3) by simp
  have "code_ok W P (s\<lparr>fc_code := x\<rparr>) cs (block_literals ss) (block_meaning P ss) s' cs"
    using assms(1,2) st unfolding preserves_def by blast
  then show ?thesis
    using that emits_shift unfolding code_ok_def
    by (simp add: emits_def) blast
qed

lemma branchE:
  assumes "preserves W P n" and "compile_branch n bs other (s\<lparr>fc_code := x\<rparr>) = Inr ((), s')" and "starts W P s cs"
  obtains c where "emits W P s (s'\<lparr>fc_code := fc_code s @ c\<rparr>) c (stmt_literals (SIf bs other))" and "fc_code s' = x @ c"
    and "fc_next s \<le> fc_next s'" and "fc_result s = None \<or> fc_result s' = fc_result s" and "scoped s' cs"
    and "linked W P (fc_builder s') \<Longrightarrow> runs W (fc_next s') (fc_result s') cs (\<lambda>k. perform_branches P k bs other (places c)) c cs"
proof -
  have st: "starts W P (s\<lparr>fc_code := x\<rparr>) cs" using assms(3) by simp
  have "code_ok W P (s\<lparr>fc_code := x\<rparr>) cs (stmt_literals (SIf bs other)) (\<lambda>ls k. perform_branches P k bs other ls) s' cs"
    using assms(1,2) st unfolding preserves_def by blast
  then show ?thesis
    using that emits_shift unfolding code_ok_def
    by (simp add: emits_def del: stmt_literals.simps) blast
qed

lemma while_ok:
  assumes IH: "preserves W P n" and "compile_statement n (SWhile e body) s = Inr ((), s')" and st: "starts W P s cs"
  shows "code_ok W P s cs (stmt_literals (SWhile e body)) (\<lambda>ls k. perform P k (SWhile e body) ls) s' cs"
proof -
  let ?add = "\<lambda>s c. s\<lparr>fc_code := fc_code s @ c\<rparr>"
  from assms(2) obtain s1 s2 where s1: "compile_expr n e (?add s [BlockI, LoopI]) = Inr (TBool, s1)"
    and s2: "compile_block n body (?add s1 [I64Eqz, BrIf 1]) = Inr ((), s2)"
    and s': "s' = ?add s2 [Br 0, EndI, EndI]"
    by (auto simp: result_simps)
  from expr_okE [OF IH s1] st obtain c where c: "emits W P (?add s [BlockI, LoopI]) s1 c (literals e)" "same_frame s s1"
    "starts W P s1 cs" "linked W P (fc_builder s1) \<Longrightarrow> computes W P cs e c TBool" by (metis same_frame_code(2) starts_code)
  obtain d where d: "emits W P s1 (s2\<lparr>fc_code := fc_code s1 @ d\<rparr>) d (block_literals body)"
    "fc_code s2 = (fc_code s1 @ [I64Eqz, BrIf 1]) @ d" "fc_next s1 \<le> fc_next s2" "fc_result s1 = None \<or> fc_result s2 = fc_result s1"
    "scoped s2 cs" "linked W P (fc_builder s2) \<Longrightarrow> runs W (fc_next s2) (fc_result s2) cs (block_meaning P body (places d)) d cs"
    by (rule blockE [OF IH s2 c(3)]) blast
  have tidies: "tidy c" "tidy d" using c(1) d(1) by (auto dest: emits_tidy)
  let ?code = "BlockI # (LoopI # loop_body c d @ [EndI]) @ [EndI]"
  have places: "places ?code = places c @ places d" using tidy_loop_body [OF tidies] places_loop_body [OF tidies] by simp
  have "tidy ?code" using tidy_loop_body [OF tidies] by (intro tidy_block) auto
  moreover have "emits W P s (s2\<lparr>fc_code := fc_code s @ c @ d\<rparr>) (c @ d) (stmt_literals (SWhile e body))"
    using emits_append [OF emits_shift [OF c(1)], of "s2\<lparr>fc_code := fc_code s @ c @ d\<rparr>" d "block_literals body"] d(1)
    by (simp add: emits_def block_literals_def)
  ultimately have "emits W P s s' ?code (stmt_literals (SWhile e body))"
    by (rule emits_recode) (use c(1) d(2) tidies places in \<open>auto simp: s' emits_def loop_body_def\<close>)
  then show ?thesis
  proof (rule code_okI)
    assume l: "linked W P (fc_builder s')"
    have "computes W P cs e c TBool" using l c(4) emits_linked [OF d(1)] by (simp add: s')
    from runs_while [OF this tidies(1) _ d(6) tidies(2)] l c(1)
    show "runs W (fc_next s') (fc_result s') cs (\<lambda>k. perform P k (SWhile e body) (places ?code)) ?code cs"
      unfolding places by (simp add: s' emits_places del: perform.simps)
  qed (use c(2) d in \<open>auto simp: s' same_frame_def\<close>)
qed

lemma branch_inner_ok:
  assumes IH: "preserves W P n" and "compile_branch_inner n bs other s = Inr ((), s')" and st: "starts W P s cs"
  shows "code_ok W P s cs (stmt_literals (SIf bs other)) (\<lambda>ls k. perform_branches P k bs other ls) s' cs"
proof (cases bs)
  case Nil
  with assms(2) have "compile_block n other s = Inr ((), s')" by simp
  then have "code_ok W P s cs (block_literals other) (block_meaning P other) s' cs"
    using IH st unfolding preserves_def by blast
  moreover have "(\<lambda>ls k. perform_branches P k [] other ls) = block_meaning P other" by (simp add: fun_eq_iff)
  ultimately show ?thesis by (simp add: Nil block_literals_def)
next
  case (Cons b bs')
  obtain e body where b: "b = (e, body)" by (metis prod.exhaust)
  let ?add = "\<lambda>s c. s\<lparr>fc_code := fc_code s @ c\<rparr>"
  from assms(2) obtain s1 s2 s3 where s1: "compile_expr n e s = Inr (TBool, s1)"
    and s2: "compile_block n body (?add s1 [I64Eqz, I32Eqz, IfI False]) = Inr ((), s2)"
    and s3: "compile_branch n bs' other (?add s2 [ElseI]) = Inr ((), s3)" and s': "s' = ?add s3 [EndI]"
    by (auto simp: Cons b result_simps)
  from expr_okE [OF IH s1 st] obtain c where c: "emits W P s s1 c (literals e)" "same_frame s s1"
    "starts W P s1 cs" "linked W P (fc_builder s1) \<Longrightarrow> computes W P cs e c TBool" by metis
  obtain d where d: "emits W P s1 (s2\<lparr>fc_code := fc_code s1 @ d\<rparr>) d (block_literals body)"
    "fc_code s2 = (fc_code s1 @ [I64Eqz, I32Eqz, IfI False]) @ d" "fc_next s1 \<le> fc_next s2"
    "fc_result s1 = None \<or> fc_result s2 = fc_result s1" "scoped s2 cs"
    "linked W P (fc_builder s2) \<Longrightarrow> runs W (fc_next s2) (fc_result s2) cs (block_meaning P body (places d)) d cs"
    by (rule blockE [OF IH s2 c(3)]) blast
  have st2: "starts W P s2 cs"
    using starts_scoped [OF c(3) d(1)] d(5) by (simp add: starts_def scoped_def)
  obtain d' where d': "emits W P s2 (s3\<lparr>fc_code := fc_code s2 @ d'\<rparr>) d' (stmt_literals (SIf bs' other))"
    "fc_code s3 = (fc_code s2 @ [ElseI]) @ d'" "fc_next s2 \<le> fc_next s3"
    "fc_result s2 = None \<or> fc_result s3 = fc_result s2" "scoped s3 cs"
    "linked W P (fc_builder s3) \<Longrightarrow> runs W (fc_next s3) (fc_result s3) cs (\<lambda>k. perform_branches P k bs' other (places d')) d' cs"
    by (rule branchE [OF IH s3 st2]) blast
  have tidies: "tidy c" "tidy d" "tidy d'" using c(1) d(1) d'(1) by (auto dest: emits_tidy)
  let ?code = "c @ [I64Eqz, I32Eqz] @ IfI False # d @ ElseI # d' @ [EndI]"
  have places: "places ?code = places c @ places d @ places d'" using tidies by simp
  have "tidy ?code" using tidies by (intro tidy_append tidy_Cons tidy_if tidy_Nil) auto
  moreover have "emits W P s (s3\<lparr>fc_code := fc_code s @ c @ d @ d'\<rparr>) (c @ d @ d') (stmt_literals (SIf bs other))"
    using emits_append [OF emits_append [OF c(1) d(1)], of "s3\<lparr>fc_code := fc_code s @ c @ d @ d'\<rparr>" d' "stmt_literals (SIf bs' other)"] d'(1) c(1)
    by (simp add: emits_def block_literals_def Cons b)
  ultimately have "emits W P s s' ?code (stmt_literals (SIf bs other))"
    by (rule emits_recode) (use c(1) d(2) d'(2) tidies places in \<open>auto simp: s' emits_def\<close>)
  then show ?thesis
  proof (rule code_okI)
    assume l: "linked W P (fc_builder s')"
    have l2: "linked W P (fc_builder s2)" using l emits_linked [OF d'(1)] by (simp add: s')
    have e: "computes W P cs e c TBool" using l2 c(4) emits_linked [OF d(1)] by simp
    have yes: "runs W (fc_next s') (fc_result s') cs (block_meaning P body (places d)) d cs"
      by (rule runs_mono [OF d(6) [OF l2]]) (use d'(3,4) in \<open>auto simp: s'\<close>)
    have no: "runs W (fc_next s') (fc_result s') cs (\<lambda>k. perform_branches P k bs' other (places d')) d' cs"
      using d'(6) l by (simp add: s')
    have len: "length (places c) = lits e" "length (places d) = block_lits body"
      using c(1) d(1) by (auto simp: emits_def lits_def block_lits_def dest!: placed_length)
    show "runs W (fc_next s') (fc_result s') cs (\<lambda>k. perform_branches P k bs other (places ?code)) ?code cs"
      unfolding places
      by (rule runs_meaning [OF runs_if [OF e yes tidyD(1) [OF tidies(2)] no tidyD(1) [OF tidies(3)]]])
        (auto simp: Cons b len [symmetric] intro!: arg_cong2 [of _ _ _ _ bindS])
  qed (use c(2) d d' in \<open>auto simp: s' same_frame_def scoped_def\<close>)
qed

lemma statement_ok:
  assumes IH: "preserves W P n" and run: "compile_statement n st s = Inr ((), s')" and start: "starts W P s cs"
  shows "\<exists>d. code_ok W P s cs (stmt_literals st) (\<lambda>ls k. perform P k st ls) s' (d @ cs)"
proof -
  note keep = exI [of "\<lambda>d. code_ok W P s cs (stmt_literals st) (\<lambda>ls k. perform P k st ls) s' (d @ cs)" "[]", unfolded append_Nil]
  show ?thesis
  proof (cases st)
    case (SLocal x e)
    then show ?thesis using local_ok [OF IH _ start] run by blast
  next
    case (SAssign x e)
    then show ?thesis using assign_ok [OF IH _ start] run keep by blast
  next
    case (SCall e)
    then show ?thesis using call_stmt_ok [OF IH _ start] run keep by blast
  next
    case (SReturn e)
    then show ?thesis using return_ok [OF IH _ start] run keep by blast
  next
    case (SIf bs other)
    then have "compile_branch n bs other s = Inr ((), s')" using run by simp
    then have "code_ok W P s cs (stmt_literals (SIf bs other)) (\<lambda>ls k. perform_branches P k bs other ls) s' cs"
      using IH start unfolding preserves_def by blast
    moreover have "(\<lambda>ls k. perform P k (SIf bs other) ls) = (\<lambda>ls k. perform_branches P k bs other ls)" by (simp add: fun_eq_iff)
    ultimately show ?thesis using keep unfolding SIf by simp
  next
    case (SWhile e body)
    then show ?thesis using while_ok [OF IH _ start] run keep by blast
  qed
qed

lemma stmts_ok:
  assumes IH: "preserves W P n" and "compile_stmts n ss s = Inr ((), s')" and "starts W P s cs"
  shows "\<exists>d. code_ok W P s cs (block_literals ss) (\<lambda>ls k. perform_all P k ss ls) s' (d @ cs)"
  using assms(2,3)
proof (induction ss arbitrary: s cs)
  case Nil
  then have "code_ok W P s cs (block_literals []) (\<lambda>ls k. perform_all P k [] ls) s' ([] @ cs)"
    by (intro code_okI [where c = "[]"])
      (auto simp: result_simps emits_def starts_def block_literals_def intro!: runs_meaning [OF runs_Nil])
  then show ?case by blast
next
  case (Cons st ss)
  from Cons.prems(1) obtain s1 where s1: "compile_statement n st s = Inr ((), s1)" and s': "compile_stmts n ss s1 = Inr ((), s')"
    by (auto simp: result_simps)
  from statement_ok [OF IH s1 Cons.prems(2)] obtain cs1 c where c: "emits W P s s1 c (stmt_literals st)" "fc_next s \<le> fc_next s1"
    "fc_result s = None \<or> fc_result s1 = fc_result s" "scoped s1 (cs1 @ cs)"
    "linked W P (fc_builder s1) \<Longrightarrow> runs W (fc_next s1) (fc_result s1) cs (\<lambda>k. perform P k st (places c)) c (cs1 @ cs)"
    unfolding code_ok_def by blast
  from Cons.IH [OF s' starts_scoped [OF Cons.prems(2) c(1,4)]] obtain cs2 d where d: "emits W P s1 s' d (block_literals ss)"
    "fc_next s1 \<le> fc_next s'" "fc_result s1 = None \<or> fc_result s' = fc_result s1" "scoped s' (cs2 @ cs1 @ cs)"
    "linked W P (fc_builder s') \<Longrightarrow> runs W (fc_next s') (fc_result s') (cs1 @ cs) (\<lambda>k. perform_all P k ss (places d)) d (cs2 @ cs1 @ cs)"
    unfolding code_ok_def by blast
  have "code_ok W P s cs (block_literals (st # ss)) (\<lambda>ls k. perform_all P k (st # ss) ls) s' ((cs2 @ cs1) @ cs)"
  proof (rule code_okI)
    show "emits W P s s' (c @ d) (block_literals (st # ss))"
      using emits_append [OF c(1) d(1)] by (simp add: block_literals_def)
    assume l: "linked W P (fc_builder s')"
    have first: "runs W (fc_next s') (fc_result s') cs (\<lambda>k. perform P k st (places c)) c (cs1 @ cs)"
      by (rule runs_mono [OF c(5) [OF emits_linked [OF d(1) l]]]) (use d in auto)
    have len: "length (places c) = stmt_lits st" using c(1) by (auto simp: emits_def stmt_lits_def dest: placed_length)
    show "runs W (fc_next s') (fc_result s') cs (\<lambda>k. perform_all P k (st # ss) (places (c @ d))) (c @ d) ((cs2 @ cs1) @ cs)"
      unfolding append_assoc
      by (rule runs_meaning [OF runs_seq [OF first d(5) [OF l]]])
        (use emits_tidy [OF d(1)] in \<open>auto simp: len [symmetric] intro!: arg_cong2 [of _ _ _ _ bindS] split: outcome.split\<close>)
  qed (use c(2,3) d(2-4) in auto)
  then show ?case by blast
qed

lemma block_Suc:
  assumes IH: "preserves W P n" and "compile_block (Suc n) ss s = Inr ((), s')" and st: "starts W P s cs"
  shows "code_ok W P s cs (block_literals ss) (block_meaning P ss) s' cs"
proof -
  from assms(2) obtain s1 where s1: "compile_stmts n ss s = Inr ((), s1)" and s': "s' = s1\<lparr>fc_vars := fc_vars s\<rparr>"
    by (auto simp: result_simps)
  from stmts_ok [OF IH s1 st] obtain d c where c: "emits W P s s1 c (block_literals ss)" "fc_next s \<le> fc_next s1"
    "fc_result s = None \<or> fc_result s1 = fc_result s"
    "linked W P (fc_builder s1) \<Longrightarrow> runs W (fc_next s1) (fc_result s1) cs (\<lambda>k. perform_all P k ss (places c)) c (d @ cs)"
    unfolding code_ok_def by blast
  show ?thesis
    by (rule code_okI [where c = c]) (use c st in \<open>auto simp: s' emits_def starts_def scoped_def intro!: runs_block\<close>)
qed

section \<open>Functions\<close>

lemma begin_function_simps [simp]:
  "bd_signatures (begin_function f b) = bd_signatures b" "bd_ast (begin_function f b) = bd_ast b"
  "bd_data (begin_function f b) = bd_data b" "bd_active (begin_function f b) = f # bd_active b"
  "bd_functions (begin_function f b) = bd_functions b @ [None]"
  by (simp_all add: begin_function_def)

lemma slot_begin: "slice_get (bd_functions (begin_function f b)) j = Some (Some g) \<longleftrightarrow> slice_get (bd_functions b) j = Some (Some g)"
  by (auto simp: slice_get_Some_iff nth_append less_Suc_eq)

lemma ready_begin: "ready W P (begin_function f b) = ready W P b"
  unfolding ready_def settled_def linked_def slot_begin by simp

lemma param_scope_vars:
  assumes "length ps = length ts"
  shows "scoped (new_fcomp b ps ts) (param_scope ps ts)"
proof -
  let ?es = "map (\<lambda>(i, x, t). (x, i, t)) (zip [0..<length ps] (zip ps ts))"
  have "map (\<lambda>(x, i, t). i) ?es = [0..<length ps]"
    using assms by (intro nth_equalityI) (auto split: prod.splits)
  then have "distinct (map (\<lambda>(x, i, t). i) (param_scope ps ts))"
    by (simp add: param_scope_def rev_map [symmetric] del: map_map)
  moreover have "\<forall>(x, i, t)\<in>set (param_scope ps ts). i < length ts"
    using assms by (auto simp: param_scope_def set_zip)
  ultimately show ?thesis by (auto simp: scoped_def new_fcomp_def param_scope_def bt_get_collect fun_eq_iff)
qed

text \<open>A function whose body is compiled: its registration adds one callable function.\<close>

lemma finish_ok:
  assumes new: "f \<notin> set (bd_active b)" "bt_get (bd_signatures b) f = None" "bt_get (bd_ast b) f = Some fn"
      "length (fn_params fn) = length ts"
    and grown: "grown (begin_function f b) (fc_builder s)" and ready: "ready W P (fc_builder s)"
    and code: "tidy (fc_code s)" "placed (bd_data (fc_builder s)) (block_literals (fn_body fn)) (places (fc_code s))"
    and nxt: "length ts \<le> fc_next s"
    and body: "linked W P (fc_builder s) \<Longrightarrow> runs W (fc_next s) (fc_result s) (param_scope (fn_params fn) ts)
      (block_meaning P (fn_body fn) (places (fc_code s))) (fc_code s) (param_scope (fn_params fn) ts)"
    and fin: "finish_function f ts (length (bd_functions b)) fn s = Inr ((i, t), b')"
  shows "grown b b'" and "bt_get (bd_signatures b') f = Some (i, ts, t)" and "f \<noteq> ''on_request'' \<or> \<not> stringy t \<Longrightarrow> ready W P b'"
proof -
  let ?n = "length (bd_functions b)"
  let ?g = "\<lparr>bf_params = length ts, bf_locals = fc_next s - length ts, bf_code = fc_code s @ [I64Const 0, EndI]\<rparr>"
  obtain fs where fs: "bd_functions (fc_builder s) = bd_functions b @ None # fs" "None \<notin> set fs"
    using grown by (auto simp: grown_def extends_def)
  have i: "i = length BUILTINS + ?n" and t: "t = (case fc_result s of None \<Rightarrow> TVoid | Some t \<Rightarrow> t)"
    and ret: "f = ''on_request'' \<or> t = TVoid \<or> returns (fn_body fn)"
    and sig: "bt_get (bd_signatures b') = (bt_get (bd_signatures (fc_builder s)))(f \<mapsto> (i, ts, t))"
    and rest: "bd_ast b' = bd_ast b" "bd_data b' = bd_data (fc_builder s)" "bd_active b' = bd_active b"
    and fns: "bd_functions b' = bd_functions b @ Some ?g # fs"
    using fin grown by (auto simp: finish_function_def Let_def result_simps fs(1) grown_def extends_def)
  have old: "bt_get (bd_signatures (fc_builder s)) f = None"
    using grown new(2) by (simp add: grown_def)
  show "grown b b'"
    using grown old fs(2) new(1) unfolding grown_def extends_def
    by (auto simp: sig rest fns map_le_def) 
  show "bt_get (bd_signatures b') f = Some (i, ts, t)" by (simp add: sig)
  have slot: "slice_get (bd_functions b') ?n = Some (Some ?g)" by (simp add: fns slice_get_def)
  have slots: "slice_get (bd_functions b') j = Some (Some g)" if "slice_get (bd_functions (fc_builder s)) j = Some (Some g)" for j g
    using that by (auto simp: fns fs(1) slice_get_Some_iff nth_append nth_Cons split: nat.splits if_splits)
  have places: "places (bf_code ?g) = places (fc_code s)" by simp
  assume safe: "f \<noteq> ''on_request'' \<or> \<not> stringy t"
  have "settled b'"
    unfolding settled_def
  proof (intro allI impI)
    fix f' i' ts' t'
    assume sig': "bt_get (bd_signatures b') f' = Some (i', ts', t')"
    show "\<exists>g fn. length BUILTINS \<le> i' \<and> slice_get (bd_functions b') (i' - length BUILTINS) = Some (Some g)
           \<and> bt_get (bd_ast b') f' = Some fn \<and> placed (bd_data b') (block_literals (fn_body fn)) (places (bf_code g))"
    proof (cases "f' = f")
      case True
      then show ?thesis using sig' slot new(3) code places by (auto simp: sig i rest)
    next
      case False
      then have "bt_get (bd_signatures (fc_builder s)) f' = Some (i', ts', t')" using sig' by (simp add: sig)
      with ready obtain g fn where "length BUILTINS \<le> i'" "slice_get (bd_functions (fc_builder s)) (i' - length BUILTINS) = Some (Some g)"
        "bt_get (bd_ast (fc_builder s)) f' = Some fn" "placed (bd_data (fc_builder s)) (block_literals (fn_body fn)) (places (bf_code g))"
        unfolding ready_def settled_def by blast
      then show ?thesis using slots [of "i' - length BUILTINS" g] grown_ast [OF grown] by (auto simp: rest)
    qed
  qed
  moreover have "callable W P f' i' ts' t'"
    if l: "linked W P b'" and sig': "bt_get (bd_signatures b') f' = Some (i', ts', t')" for f' i' ts' t'
  proof -
    have ls: "linked W P (fc_builder s)"
      unfolding linked_def
    proof (intro conjI allI impI)
      show "host_linked W P" by (rule linked_host [OF l])
      show "pg_function P = bt_get (bd_ast (fc_builder s))" using l grown_ast [OF grown] by (simp add: linked_def rest)
      fix f2 i2 ts2 t2 g2
      assume 2: "bt_get (bd_signatures (fc_builder s)) f2 = Some (i2, ts2, t2)"
        "slice_get (bd_functions (fc_builder s)) (i2 - length BUILTINS) = Some (Some g2)"
      then have "f2 \<noteq> f" using old by auto
      with 2(1) have "bt_get (bd_signatures b') f2 = Some (i2, ts2, t2)" by (simp add: sig)
      with slots [OF 2(2)] l show "wn_func W i2 = Some (Defined (bf_params g2) (bf_locals g2) (bf_code g2))"
        "pg_places P f2 = places (bf_code g2)" by (auto simp: linked_def)
    qed
    show ?thesis
    proof (cases "f' = f")
      case True
      have w: "wn_func W i = Some (Defined (length ts) (fc_next s - length ts) (fc_code s @ [I64Const 0, EndI]))"
        and pl: "pg_places P f = places (fc_code s)"
        using linkedD [OF l, of f i ts t ?g] slot places by (simp_all add: sig i)
      have "pg_function P f = Some fn" using l new(3) by (simp add: linked_def rest)
      then have "callable W P f i ts t"
        by (rule callable_function [OF w _ pl new(4) body [OF ls] _ t]) (use nxt ret safe in \<open>auto simp: stringy_def\<close>)
      then show ?thesis using True sig' by (simp add: sig)
    next
      case False
      then show ?thesis using sig' ready ls by (auto simp: sig ready_def)
    qed
  qed
  ultimately show "ready W P b'" unfolding ready_def by blast
qed

lemma function_Suc:
  assumes IH: "preserves W P n" and run: "compile_function (Suc n) f ts b = Inr ((i, t), b')" and ready: "ready W P b"
    and entry: "entered b \<or> f = ''on_request''"
  shows "grown b b' \<and> bt_get (bd_signatures b') f = Some (i, ts, t) \<and> (f \<noteq> ''on_request'' \<or> \<not> stringy t \<longrightarrow> ready W P b')"
proof -
  from run obtain found where found: "lookup_function f ts b = Inr found" by (auto simp: result_simps)
  show ?thesis
  proof (cases found)
    case (Inl known)
    then have "known = (i, t)" "b' = b" "bt_get (bd_signatures b) f = Some (i, ts, t)"
      using run found by (auto simp: lookup_function_def result_simps split: option.splits)
    then show ?thesis using ready by simp
  next
    case (Inr fn)
    let ?s = "new_fcomp (begin_function f b) (fn_params fn) ts"
    have new: "f \<notin> set (bd_active b)" "bt_get (bd_signatures b) f = None" "bt_get (bd_ast b) f = Some fn"
      "length (fn_params fn) = length ts"
      using found Inr by (auto simp: lookup_function_def result_simps split: option.splits)
    obtain s where s: "compile_block n (fn_body fn) ?s = Inr ((), s)"
      and fin: "finish_function f ts (length (bd_functions b)) fn s = Inr ((i, t), b')"
      using run found Inr by (auto simp: result_simps)
    have "entered (begin_function f b)" using entry by (auto simp: entered_def)
    then have st: "starts W P ?s (param_scope (fn_params fn) ts)"
      using param_scope_vars [OF new(4)] ready by (simp add: starts_def new_fcomp_def ready_begin)
    have "code_ok W P ?s (param_scope (fn_params fn) ts) (block_literals (fn_body fn)) (block_meaning P (fn_body fn)) s
        (param_scope (fn_params fn) ts)"
      using IH s st unfolding preserves_def by blast
    then obtain c where c: "emits W P ?s s c (block_literals (fn_body fn))" "fc_next ?s \<le> fc_next s"
      "linked W P (fc_builder s) \<Longrightarrow> runs W (fc_next s) (fc_result s) (param_scope (fn_params fn) ts)
        (block_meaning P (fn_body fn) (places c)) c (param_scope (fn_params fn) ts)"
      unfolding code_ok_def by blast
    have code: "fc_code s = c" using c(1) by (simp add: emits_def new_fcomp_def)
    have "grown (begin_function f b) (fc_builder s)" "ready W P (fc_builder s)" "tidy (fc_code s)"
      "placed (bd_data (fc_builder s)) (block_literals (fn_body fn)) (places (fc_code s))" "length ts \<le> fc_next s"
      using c(1,2) by (auto simp: emits_def code new_fcomp_def)
    from finish_ok [OF new this c(3) [folded code] fin] show ?thesis by blast
  qed
qed

theorem preserves: "preserves W P n"
proof (induction n)
  case 0
  show ?case by (simp add: preserves_def result_simps)
next
  case (Suc n)
  note steps = expr_Suc [OF Suc] block_Suc [OF Suc] branch_inner_ok [OF Suc] function_Suc [OF Suc]
  have branch: "code_ok W P s cs (stmt_literals (SIf bs other)) (\<lambda>ls k. perform_branches P k bs other ls) s' cs"
    if "compile_branch (Suc n) bs other s = Inr ((), s')" "starts W P s cs" for bs other s s' cs
    using steps(3) that by simp
  show ?case
    unfolding preserves_def using steps(1,2,4) branch by blast
qed

end
