(* ===== verification/Rgl_Preservation.thy ===== *)
theory Rgl_Preservation
  imports Rgl_Correct
begin

text \<open>
  From the simulation of compiled code to a statement on the whole compiler: what the entry points of a module do
  when it runs, as a function of the source the module was compiled from.
\<close>

lemma vrun_calls: "vrun E c s = Some s' \<Longrightarrow> CallFn j \<in> set c \<Longrightarrow> ve_arity E j \<noteq> None"
  by (induction c arbitrary: s) (auto simp: bind_eq_Some_conv)

lemma validate_calls: "validate_body E c \<Longrightarrow> CallFn j \<in> set c \<Longrightarrow> ve_arity E j \<noteq> None"
  using vrun_calls [of E "butlast c" function_start]
  by (cases c rule: rev_cases) (auto simp: validate_body_def is_some_and_iff)

lemma built_resolves:
  assumes "builder_ok b" and "bd_functions b = map Some fs" and "f \<in> set fs" and "CallFn j \<in> set (bf_code f)"
  shows "resolves fs j"
proof -
  have "validate_body (Rgl_Codegen.built_env b f) (bf_code f)" using assms(1-3) by (auto simp: builder_ok_def)
  from validate_calls [OF this assms(4)] have "arity_of b j \<noteq> None" by (simp add: Rgl_Codegen.built_env_def)
  then show ?thesis
    using assms(3,4) by (auto simp: resolves_def arity_of_map_Some [OF assms(2)] used_imports_def slice_get_def split: if_splits)
qed

section \<open>The two entry points\<close>

text \<open>The builder after both entry points, the compiled functions and the indices of the entry points.\<close>

definition first_builder :: "func list \<Rightarrow> builder" where
  "first_builder fs = \<lparr>bd_ast = bt_collect (map (\<lambda>f. (fn_name f, f)) fs), bd_functions = [], bd_signatures = [],
     bd_active = [], bd_data = []\<rparr>"

lemma compile_program_cases:
  assumes "compile_program fs = Inr m"
  obtains req t b1 resp b2 built where
    "compile_function 128 ''on_request'' [] (first_builder fs) = Inr ((req, t), b1)" and "t \<in> {TAction, TVoid}"
    and "bd_functions b2 = map Some built" and "m = link_module built req resp (bd_data b2)"
    and "resp = None \<and> b2 = b1 \<and> bt_get (bd_ast b1) ''on_response'' = None
      \<or> (\<exists>i. resp = Some i \<and> compile_function 128 ''on_response'' [] b1 = Inr ((i, TVoid), b2))"
  using assms unfolding compile_program_def Let_def first_builder_def [symmetric]
  by (auto simp: result_simps all_some_iff split: prod.splits if_splits)

definition source_program ::
  "(string \<Rightarrow> 64 word list \<Rightarrow> 's \<Rightarrow> ('e, 64 word \<times> 's) result) \<Rightarrow> func list \<Rightarrow> (string \<Rightarrow> nat list) \<Rightarrow> ('e, 's) program" where
  "source_program host fs ls =
     \<lparr>pg_host = host, pg_function = map_of (map (\<lambda>f. (fn_name f, f)) fs), pg_places = ls\<rparr>"

definition final_places :: "builder \<Rightarrow> built list \<Rightarrow> string \<Rightarrow> nat list" where
  "final_places b fs f =
     (case bt_get (bd_signatures b) f of None \<Rightarrow> [] | Some (i, _) \<Rightarrow> places (bf_code (fs ! (i - length BUILTINS))))"

lemma map_of_distinct_rev:
  assumes "distinct (map fst xs)"
  shows "map_of (rev xs) = map_of xs"
proof -
  have "distinct (map fst (rev xs))" using assms by (simp add: rev_map [symmetric])
  then show ?thesis using map_of_inject_set [of "rev xs" xs] assms by simp
qed

lemma linked_final:
  assumes "bd_ast b = bd_ast (first_builder fs)" and "distinct (map fn_name fs)" and fns: "bd_functions b = map Some built"
    and "settled b"
  shows "linked (compiled_env host built) (source_program host fs (final_places b built)) b"
  unfolding linked_def
proof (intro conjI allI impI)
  have "bt_get (bd_ast b) = map_of (map (\<lambda>f. (fn_name f, f)) fs)"
    unfolding assms(1) first_builder_def using assms(2)
    by (auto simp: fun_eq_iff bt_get_collect map_of_distinct_rev comp_def)
  then show "pg_function (source_program host fs (final_places b built)) = bt_get (bd_ast b)" by (simp add: source_program_def)
  show "host_linked (compiled_env host built) (source_program host fs (final_places b built))"
    by (simp add: host_linked_def compiled_env_def source_program_def)
  fix f i ts t g
  assume sig: "bt_get (bd_signatures b) f = Some (i, ts, t)"
    and slot: "slice_get (bd_functions b) (i - length BUILTINS) = Some (Some g)"
  have "length BUILTINS \<le> i" using assms(4) sig unfolding settled_def by blast
  moreover have "i - length BUILTINS < length built" "built ! (i - length BUILTINS) = g"
    using slot by (auto simp: fns slice_get_Some_iff)
  ultimately show "wn_func (compiled_env host built) i = Some (Defined (bf_params g) (bf_locals g) (bf_code g))"
    and "pg_places (source_program host fs (final_places b built)) f = places (bf_code g)"
    using sig by (simp_all add: compiled_env_def source_program_def final_places_def)
qed

lemma entry_correct:
  assumes "callable W P f i [] t" and "find_callee f = None"
  shows "invoke W k i s = call_function P k f s" and "call_function P k f s \<noteq> Inl Stuck"
proof -
  have "simulates (exec_code W k [CallFn i] [] [] s) (user_call P k f [])
      (\<lambda>v s'. exec_code W k [CallFn i] [] [] s = Inr (Fall [] [W64 (snd v)] s')) s"
    by (rule wp_consequence [OF assms(1) [unfolded callable_def, rule_format,
          where args = "[]" and L = "[]" and S = "[]" and rest = "[]", unfolded list.map rev.simps append_Nil]]) auto
  moreover have "call_function P k f s = bindS (user_call P k f []) (\<lambda>v. returnS (snd v)) s"
    unfolding call_function_def eval_user_call [OF assms(2)] by (simp add: bindS_def returnS_def)
  ultimately show "invoke W k i s = call_function P k f s" "call_function P k f s \<noteq> Inl Stuck"
    by (auto simp: invoke_def wp_def bindS_def returnS_def split: sum.splits)
qed

lemma link_export:
  assumes ok: "builder_ok b" and fns: "bd_functions b = map Some built" and "length BUILTINS \<le> i" and "i - length BUILTINS < length built"
  shows "invoke (module_env host (link_module built req resp data)) k (link_indices (used_imports built) (length built) ! i) s
    = invoke (compiled_env host built) k i s"
proof -
  have "resolves built i" using assms(3,4) by (simp add: resolves_def)
  then show ?thesis
    using exec_relocate [OF link_renumbered, of built "[CallFn i]" host req resp data k "[]" "[]" s] built_resolves [OF ok fns]
    by (simp add: invoke_def)
qed

lemma entry_names: "find_callee ''on_request'' = None" "find_callee ''on_response'' = None"
  by (simp_all add: find_callee_def BUILTINS_def)

lemma program_ready:
  fixes W :: "('e, 's) wenv" and P :: "('e, 's) program"
  assumes b1: "compile_function 128 ''on_request'' [] (first_builder fs) = Inr ((req, t), b1)" and t: "t \<in> {TAction, TVoid}"
    and resp: "resp = None \<and> b2 = b1 \<and> bt_get (bd_ast b1) ''on_response'' = None
      \<or> (\<exists>i. resp = Some i \<and> compile_function 128 ''on_response'' [] b1 = Inr ((i, TVoid), b2))"
  shows "ready W P b2" and "grown (first_builder fs) b2" and "builder_ok b2"
    and "bt_get (bd_signatures b2) ''on_request'' = Some (req, [], t)"
    and "case resp of None \<Rightarrow> bt_get (bd_ast (first_builder fs)) ''on_response'' = None
      | Some i \<Rightarrow> bt_get (bd_signatures b2) ''on_response'' = Some (i, [], TVoid)"
proof -
  have start: "ready W P (first_builder fs)" by (simp add: ready_def settled_def first_builder_def)
  have "grown (first_builder fs) b1 \<and> bt_get (bd_signatures b1) ''on_request'' = Some (req, [], t)
      \<and> (''on_request'' \<noteq> ''on_request'' \<or> \<not> stringy t \<longrightarrow> ready W P b1)"
    using preserves [of W P 128] b1 start unfolding preserves_def by blast
  then have one: "grown (first_builder fs) b1" "bt_get (bd_signatures b1) ''on_request'' = Some (req, [], t)" "ready W P b1"
    using t by (auto simp: stringy_def)
  have ok1: "builder_ok b1" by (rule compile_function_ok(2) [OF b1]) (simp add: first_builder_def builder_ok_initial)
  have entered: "entered b1" using one(2) t by (auto simp: entered_def stringy_def)
  show "ready W P b2" "grown (first_builder fs) b2" "builder_ok b2"
    "bt_get (bd_signatures b2) ''on_request'' = Some (req, [], t)"
    "case resp of None \<Rightarrow> bt_get (bd_ast (first_builder fs)) ''on_response'' = None
      | Some i \<Rightarrow> bt_get (bd_signatures b2) ''on_response'' = Some (i, [], TVoid)"
    using resp one ok1 function_okE [OF preserves _ one(3) entered, of 128 "''on_response''" "[]"] grown_ast [OF one(1)]
      compile_function_ok(2) [OF _ ok1, of 128 "''on_response''" "[]"]
    by (auto intro: grown_trans grown_signature)
qed

lemma program_correct:
  assumes m: "compile_program fs = Inr m" and names: "distinct (map fn_name fs)"
  shows "\<exists>ls. (\<forall>f\<in>set fs. ls (fn_name f) = [] \<or> placed (md_constants m) (block_literals (fn_body f)) (ls (fn_name f)))
    \<and> (\<forall>(host :: string \<Rightarrow> 64 word list \<Rightarrow> 's \<Rightarrow> ('e, 64 word \<times> 's) result) k s f.
         f = ''on_request'' \<or> f = ''on_response'' \<and> f \<in> fn_name ` set fs \<longrightarrow>
         run_export host m k f s = call_function (source_program host fs ls) k f s \<and> run_export host m k f s \<noteq> Inl Stuck)"
proof -
  obtain req t b1 resp b2 built where b1: "compile_function 128 ''on_request'' [] (first_builder fs) = Inr ((req, t), b1)"
    and t: "t \<in> {TAction, TVoid}" and fns: "bd_functions b2 = map Some built" and m: "m = link_module built req resp (bd_data b2)"
    and resp: "resp = None \<and> b2 = b1 \<and> bt_get (bd_ast b1) ''on_response'' = None
      \<or> (\<exists>i. resp = Some i \<and> compile_function 128 ''on_response'' [] b1 = Inr ((i, TVoid), b2))"
    by (rule compile_program_cases [OF assms(1)])
  note fin = program_ready [OF b1 t resp]
  let ?ls = "final_places b2 built" and ?ind = "link_indices (used_imports built) (length built)"
  have settled: "settled b2" using fin(1) unfolding ready_def by blast
  have ast: "bd_ast b2 = bd_ast (first_builder fs)" using grown_ast [OF fin(2)] .
  then have ast_get: "bt_get (bd_ast b2) = map_of (map (\<lambda>f. (fn_name f, f)) fs)"
    using names by (auto simp: first_builder_def fun_eq_iff bt_get_collect map_of_distinct_rev comp_def)
  have both: "run_export host m k f s = call_function (source_program host fs ?ls) k f s \<and> run_export host m k f s \<noteq> Inl Stuck"
    if sig: "bt_get (bd_signatures b2) f = Some (i, [], u)" and export: "map_of (md_exports m) f = Some (?ind ! i)"
      and name: "find_callee f = None" for f i u k s and host :: "string \<Rightarrow> 64 word list \<Rightarrow> 's \<Rightarrow> ('e, 64 word \<times> 's) result"
  proof -
    have i: "length BUILTINS \<le> i" "i - length BUILTINS < length built"
      using settled sig fns unfolding settled_def by (fastforce simp: slice_get_Some_iff)+
    have "callable (compiled_env host built) (source_program host fs ?ls) f i [] u"
      using program_ready(1) [OF b1 t resp] linked_final [OF ast names fns settled] sig unfolding ready_def by blast
    from entry_correct [OF this name] show ?thesis
      using link_export [OF fin(3) fns i, of host req resp "bd_data b2" k s] export by (simp add: run_export_def m)
  qed
  have "placed (md_constants m) (block_literals (fn_body f)) (?ls (fn_name f))" if mem: "f \<in> set fs" and ne: "?ls (fn_name f) \<noteq> []" for f
  proof -
    obtain i ts u where sig: "bt_get (bd_signatures b2) (fn_name f) = Some (i, ts, u)"
      using ne by (auto simp: final_places_def split: option.splits)
    then obtain g fn where g: "slice_get (bd_functions b2) (i - length BUILTINS) = Some (Some g)"
      "bt_get (bd_ast b2) (fn_name f) = Some fn" "placed (bd_data b2) (block_literals (fn_body fn)) (places (bf_code g))"
      using settled unfolding settled_def by blast
    have "fn = f" using g(2) names mem by (auto simp: ast_get distinct_map dest!: map_of_SomeD dest: inj_onD)
    with g sig show ?thesis by (auto simp: final_places_def fns slice_get_Some_iff m link_module_def Let_def)
  qed
  moreover have "resp \<noteq> None" if "''on_response'' \<in> fn_name ` set fs"
    using that fin(5) [folded ast, unfolded ast_get] by (cases resp) (auto simp: map_of_eq_None_iff image_image)
  moreover have "map_of (md_exports m) ''on_request'' = Some (?ind ! req)" by (simp add: m link_module_def Let_def)
  moreover have "map_of (md_exports m) ''on_response'' = Some (?ind ! i)" if "resp = Some i" for i
    using that by (simp add: m link_module_def Let_def)
  moreover have "bt_get (bd_signatures b2) ''on_response'' = Some (i, [], TVoid)" if "resp = Some i" for i
    using that fin(5) by simp
  ultimately show ?thesis
    using both [OF fin(4) _ entry_names(1)] both [OF _ _ entry_names(2)] by (intro exI [of _ ?ls]) blast
qed

lemma parse_distinct:
  assumes "parse source = Inr fs"
  shows "distinct (map fn_name fs)"
proof -
  obtain ts s where ts: "lex source = Inr ts"
    and run: "parse_functions (parse_fuel ts) [] \<lparr>ps_rest = ts, ps_depth = 0, ps_locs = []\<rparr> = Inr (fs, s)"
    using assms by (auto simp: parse_def parse_entry_def parse_located_def result_simps)
  have "eof_ok ts" using ts lex_loop_result [of "chars source" 1 1 "[]"] by (simp add: lex_def)
  from wpD [OF functions_of_tokens [OF this] run] show ?thesis by blast
qed

section \<open>Properties\<close>

text \<open>
  C39. The compiler preserves the meaning of scripts. When a source compiles to a module, the literals of its
  functions are in the module's constant pool at the places \<open>ls\<close> (a function that no entry point reaches has none),
  and for every host, every state of it and every bound \<open>k\<close> on loops and calls, running an entry point
  of the linked module ends as the source program does: with the same word and the same state of the host, with the
  same error of a host call, with the trap of a division, or without an answer within the bound. No run gets stuck.
\<close>

theorem rgl_compile_correct:
  assumes "compile_inner source = Inr m"
  shows "\<exists>fs ls. parse source = Inr fs
    \<and> (\<forall>f\<in>set fs. ls (fn_name f) = [] \<or> placed (md_constants m) (block_literals (fn_body f)) (ls (fn_name f)))
    \<and> (\<forall>(host :: string \<Rightarrow> 64 word list \<Rightarrow> 's \<Rightarrow> ('e, 64 word \<times> 's) result) k s f.
         f = ''on_request'' \<or> f = ''on_response'' \<and> f \<in> fn_name ` set fs \<longrightarrow>
         run_export host m k f s = call_function (source_program host fs ls) k f s \<and> run_export host m k f s \<noteq> Inl Stuck)"
proof -
  obtain fs where fs: "parse source = Inr fs" and m: "compile_program fs = Inr m"
    using assms by (auto simp: compile_inner_def split: sum.splits)
  show ?thesis
    by (rule exI [of _ fs]) (simp only: fs simp_thms program_correct [OF m parse_distinct [OF fs]])
qed

definition counting_script :: string where
  "counting_script = ''function f(x) return x .. 'b' end
function on_request() local n = 1 while n < 4 do n = n + n end
if f('a') ~= nil or n % 3 ~= 1 then return route.pass() end return resp.reply(n, 'c') end''"

text \<open>A host that notes the calls and answers with the number of those before.\<close>

definition recorder :: "string \<Rightarrow> 64 word list \<Rightarrow> string list \<Rightarrow> (unit, 64 word \<times> string list) result" where
  "recorder name args s = Inr (of_nat (length s), s @ [name])"

theorem rgl_compile_correct_witness:
  "\<exists>m fs ls. compile_inner counting_script = Inr m \<and> parse counting_script = Inr fs
     \<and> call_function (source_program recorder fs ls) 3 ''on_request'' [] =
         Inr (5, [''constant'', ''constant'', ''str.concat'', ''str.eq'', ''constant'', ''resp.reply''])"
proof -
  let ?out = "Inr (5, [''constant'', ''constant'', ''str.concat'', ''str.eq'', ''constant'', ''resp.reply'']) :: (unit stop, _) result"
  have "case compile_inner counting_script of Inl _ \<Rightarrow> False | Inr m \<Rightarrow>
      run_export recorder m 3 ''on_request'' [] = ?out"
    by code_simp
  then obtain m where m: "compile_inner counting_script = Inr m"
    and run: "run_export recorder m 3 ''on_request'' [] = ?out"
    by (auto split: sum.splits)
  from rgl_compile_correct [OF m] show ?thesis
  proof (elim exE conjE)
    fix fs ls
    assume fs: "parse counting_script = Inr fs"
      and all: "\<forall>(host :: string \<Rightarrow> 64 word list \<Rightarrow> string list \<Rightarrow> (unit, 64 word \<times> string list) result) k s f.
         f = ''on_request'' \<or> f = ''on_response'' \<and> f \<in> fn_name ` set fs \<longrightarrow>
         run_export host m k f s = call_function (source_program host fs ls) k f s \<and> run_export host m k f s \<noteq> Inl Stuck"
    have "call_function (source_program recorder fs ls) 3 ''on_request'' [] = ?out"
      using all [rule_format, of "''on_request''" recorder 3 "[]"] run by simp
    with m fs show ?thesis by blast
  qed
qed

end
