(* ===== verification/Gateway_Policy.thy ===== *)
theory Gateway_Policy
  imports Http_Model Request_Data Weighted_Choice
begin

text \<open>
  Gateway API route policies: the resource types of \<open>src/src/gateway/spec.rs\<close>, the filters of a rule,
  path modifiers, redirects, weighted backends and hostname patterns of \<open>src/src/gateway/routes.rs\<close>,
  and the timeouts of \<open>src/src/gateway/timeouts.rs\<close>.

  The checks of the \<open>http\<close> crate on header names and values and the percent encoding of the
  \<open>percent-encoding\<close> crate are parameters. Unsigned integers are natural numbers; the sums of weights
  and of durations stay below \<open>2 ^ 64\<close> (there are fewer than \<open>2 ^ 32\<close> backends, and
  \<open>gateway_duration_bound\<close> bounds a duration).
\<close>

section \<open>Resource types\<close>

record gw_header =
  hd_name :: string
  hd_value :: string

record gw_headers =
  hs_set :: "gw_header list"
  hs_add :: "gw_header list"
  hs_remove :: "string list"

record path_modifier =
  pm_type :: string
  pm_full :: "string option"
  pm_prefix :: "string option"

record redirect =
  rr_scheme :: "string option"
  rr_hostname :: "string option"
  rr_port :: "nat option"
  rr_path :: "path_modifier option"
  rr_status :: "nat option"

record rewrite =
  rw_hostname :: "string option"
  rw_path :: "path_modifier option"

text \<open>Of a backend reference, \<open>filters\<close> only reads whether it has a weight and filters of its own.\<close>

record backend_ref =
  br_name :: string
  br_weight :: "nat option"
  br_filters :: nat

record gw_mirror =
  mi_backend :: backend_ref
  mi_percent :: "nat option"
  mi_fraction :: "(nat \<times> nat option) option"

record gw_filter =
  fl_type :: string
  fl_request_headers :: "gw_headers option"
  fl_response_headers :: "gw_headers option"
  fl_redirect :: "redirect option"
  fl_rewrite :: "rewrite option"
  fl_mirror :: "gw_mirror option"

record timeouts =
  to_request :: "string option"
  to_backend :: "string option"

record budgets =
  bu_request :: "nat option"
  bu_backend :: "nat option"

record mirror_policy =
  mp_backend :: "string option"
  mp_numerator :: nat
  mp_denominator :: nat

record gw_policy =
  gp_request_headers :: gw_headers
  gp_response_headers :: gw_headers
  gp_redirect :: "redirect option"
  gp_rewrite :: "rewrite option"
  gp_backends :: "(string option \<times> nat) list"
  gp_port :: nat
  gp_mirror :: "mirror_policy option"
  gp_timeouts :: budgets

datatype gateway_error =
    InvalidDuration | MissingUnit | EmptyDuration | BackendTimeout
  | TooManyHeaders | HeaderName string | TransportHeader string | DuplicateHeader | HeaderLength | HeaderValue
  | InvalidModifier | ReplacementPath
  | RepeatedFilter | FilterConfiguration | MissingConfiguration string | MirrorExclusive | MirrorBackend
  | MirrorFraction | UnsupportedFilter string | RedirectAndRewrite | ReplacementHost
  | RedirectScheme | RedirectStatus | RedirectPort
  | TooManyPredicates | PredicateType | GrpcMatch | GrpcMethod | GrpcField | GrpcRegex | GrpcComponent
  | HttpMethod | InvalidPath | RegexPath

section \<open>Timeouts\<close>

definition duration_units :: "(string \<times> nat) list" where
  "duration_units = [(''ms'', 1), (''h'', 3600000), (''m'', 60000), (''s'', 1000)]"

text \<open>The loop of \<open>duration\<close>, with \<open>k\<close> components and \<open>millis\<close> milliseconds read so far.\<close>

function duration_loop :: "string \<Rightarrow> nat \<Rightarrow> nat \<Rightarrow> (gateway_error, nat \<times> nat) result" where
  "duration_loop text k millis =
     (if text = [] then Inr (k, millis)
      else
        let ds = takeWhile is_ascii_digit text; rest = dropWhile is_ascii_digit text in
        if \<not> (1 \<le> length ds \<and> length ds \<le> 5 \<and> k < 4) then Inl InvalidDuration
        else case find (\<lambda>u. starts_with rest (fst u)) duration_units of
            None \<Rightarrow> Inl MissingUnit
          | Some (unit, multiplier) \<Rightarrow>
              duration_loop (drop (length unit) rest) (k + 1) (millis + digits_value ds * multiplier))"
  by pat_completeness auto

termination
proof (relation "measure (\<lambda>(t, _). length t)", goal_cases)
  case (2 t k millis ds rest u w multiplier)
  have "length t = length ds + length rest" using 2 by (metis length_append takeWhile_dropWhile_id)
  then have "length rest < length t" using 2 by auto
  then show ?case by simp
qed simp

declare duration_loop.simps [simp del]

definition gateway_duration :: "string \<Rightarrow> (gateway_error, nat) result" where
  "gateway_duration text =
     bindR (duration_loop text 0 0) (\<lambda>(k, millis).
     bindR (ensure (0 < k) EmptyDuration) (\<lambda>_. Inr millis))"

definition optional :: "('a \<Rightarrow> ('e, 'b) result) \<Rightarrow> 'a option \<Rightarrow> ('e, 'b option) result" where
  "optional f x = (case x of None \<Rightarrow> Inr None | Some a \<Rightarrow> bindR (f a) (\<lambda>b. Inr (Some b)))"

definition nonzero :: "nat option \<Rightarrow> nat option" where
  "nonzero x = (case x of Some v \<Rightarrow> if v = 0 then None else Some v | None \<Rightarrow> None)"

definition timeout_budgets :: "timeouts \<Rightarrow> (gateway_error, budgets) result" where
  "timeout_budgets t =
     bindR (optional gateway_duration (to_request t)) (\<lambda>request.
     bindR (optional gateway_duration (to_backend t)) (\<lambda>backend.
     bindR (case (request, backend) of
              (Some r, Some b) \<Rightarrow> ensure (r = 0 \<or> b \<noteq> 0 \<and> b \<le> r) BackendTimeout
            | _ \<Rightarrow> Inr ()) (\<lambda>_.
     Inr \<lparr>bu_request = nonzero request, bu_backend = nonzero backend\<rparr>)))"

section \<open>Hostname patterns\<close>

definition namespace_name :: "string \<Rightarrow> bool" where
  "namespace_name v \<longleftrightarrow>
     v \<noteq> [] \<and> length v \<le> 63 \<and> \<not> starts_with v ''-'' \<and> \<not> ends_with v ''-''
     \<and> list_all (\<lambda>b. is_ascii_lowercase b \<or> is_ascii_digit b \<or> b = CHR ''-'') v"

definition valid_hostname :: "string \<Rightarrow> bool" where
  "valid_hostname host =
     (let name = (case strip_prefix ''*.'' host of None \<Rightarrow> host | Some n \<Rightarrow> n)
      in name \<noteq> [] \<and> length name \<le> 253 \<and> list_all namespace_name (split_on CHR ''.'' name))"

definition gateway_host_rank :: "string \<Rightarrow> string \<Rightarrow> nat option" where
  "gateway_host_rank pattern host =
     (if pattern = [] then Some 0
      else if pattern = host then Some usize_max
      else
        Option.bind (strip_prefix ''*.'' pattern) (\<lambda>suffix.
        Option.bind (strip_suffix suffix host) (\<lambda>rest.
        Option.bind (strip_suffix ''.'' rest) (\<lambda>p.
        if p = [] then None else Some (length suffix)))))"

definition intersect :: "string \<Rightarrow> string \<Rightarrow> string option" where
  "intersect left right =
     (if left = [] then Some right
      else if right = [] \<or> gateway_host_rank right left \<noteq> None then Some left
      else map_option (\<lambda>_. right) (gateway_host_rank left right))"

section \<open>Header and path modifiers\<close>

definition managed_headers :: "string list" where
  "managed_headers = [''host'', ''content-length'', ''transfer-encoding'', ''connection'', ''upgrade'', ''te'',
     ''trailer'', ''keep-alive'', ''proxy-connection'']"

text \<open>The loop over the names, with the lower-case names seen so far.\<close>

fun check_header_names :: "(string \<Rightarrow> bool) \<Rightarrow> string list \<Rightarrow> string list \<Rightarrow> (gateway_error, unit) result" where
  "check_header_names name_ok [] seen = Inr ()"
| "check_header_names name_ok (n # ns) seen =
     bindR (ensure (name_ok n) (HeaderName n)) (\<lambda>_.
     let l = to_ascii_lowercase n in
     bindR (ensure (l \<notin> set managed_headers) (TransportHeader l)) (\<lambda>_.
     bindR (ensure (l \<notin> set seen) DuplicateHeader) (\<lambda>_.
     check_header_names name_ok ns (l # seen))))"

definition headers_validate :: "(string \<Rightarrow> bool) \<Rightarrow> (string \<Rightarrow> bool) \<Rightarrow> gw_headers \<Rightarrow> (gateway_error, unit) result" where
  "headers_validate name_ok value_ok h =
     bindR (ensure (length (hs_set h) + length (hs_add h) + length (hs_remove h) \<le> 64) TooManyHeaders) (\<lambda>_.
     bindR (check_header_names name_ok (map hd_name (hs_set h @ hs_add h) @ hs_remove h) []) (\<lambda>_.
     for_each (\<lambda>e. bindR (ensure (length (hd_value e) \<le> 8192) HeaderLength) (\<lambda>_.
                    ensure (value_ok (hd_value e)) HeaderValue)) (hs_set h @ hs_add h)))"

text \<open>
  \<open>Headers::request\<close> and \<open>Headers::response\<close>, the same edits on two pingora header types. Both are read as
  the values of each lower-case name: \<open>insert_header\<close> replaces them, \<open>append_header\<close> adds one.
\<close>

type_synonym header_map = "string \<Rightarrow> string list"

definition headers_apply :: "gw_headers \<Rightarrow> header_map \<Rightarrow> header_map" where
  "headers_apply h m =
     fold (\<lambda>e m. m(to_ascii_lowercase (hd_name e) := m (to_ascii_lowercase (hd_name e)) @ [hd_value e])) (hs_add h)
       (fold (\<lambda>e m. m(to_ascii_lowercase (hd_name e) := [hd_value e])) (hs_set h)
         (fold (\<lambda>n m. m(to_ascii_lowercase n := [])) (hs_remove h) m))"

definition path_modifier_validate :: "bool \<Rightarrow> path_modifier \<Rightarrow> (gateway_error, unit) result" where
  "path_modifier_validate is_prefix m =
     bindR (ok_or (if pm_type m = ''ReplaceFullPath'' \<and> pm_prefix m = None then pm_full m
                   else if pm_type m = ''ReplacePrefixMatch'' \<and> is_prefix \<and> pm_full m = None then pm_prefix m
                   else None) InvalidModifier) (\<lambda>path.
     ensure (starts_with path ''/'' \<and> list_all (\<lambda>c. c \<notin> {CHR ''?'', CHR ''#'', CHR 0x0D, CHR 0x0A}) path
             \<and> length path \<le> 1024) ReplacementPath)"

definition path_modifier_apply :: "path_modifier \<Rightarrow> string \<Rightarrow> path_match \<Rightarrow> string" where
  "path_modifier_apply m path matcher =
     (case pm_full m of
        Some full \<Rightarrow> full
      | None \<Rightarrow>
          let prefix = (case pm_prefix m of None \<Rightarrow> ''/'' | Some p \<Rightarrow> p);
              suffix = (case strip_prefix (trim_end_matches CHR ''/'' (path_match_path matcher)) path of
                          None \<Rightarrow> [] | Some s \<Rightarrow> s)
          in if suffix = [] then prefix
             else trim_end_matches CHR ''/'' prefix @ ''/'' @ trim_start_matches CHR ''/'' suffix)"

section \<open>Filters\<close>

definition empty_headers :: gw_headers where
  "empty_headers = \<lparr>hs_set = [], hs_add = [], hs_remove = []\<rparr>"

definition default_policy :: "nat \<Rightarrow> budgets \<Rightarrow> gw_policy" where
  "default_policy port budgets =
     \<lparr>gp_request_headers = empty_headers, gp_response_headers = empty_headers, gp_redirect = None,
      gp_rewrite = None, gp_backends = [], gp_port = port, gp_mirror = None, gp_timeouts = budgets\<rparr>"

definition is_some :: "'a option \<Rightarrow> nat" where
  "is_some x = (if x = None then 0 else 1)"

definition apply_mirror :: "gw_mirror \<Rightarrow> gw_policy \<Rightarrow> (gateway_error, gw_policy) result" where
  "apply_mirror m p =
     bindR (ensure (mi_percent m = None \<or> mi_fraction m = None) MirrorExclusive) (\<lambda>_.
     bindR (ensure (br_weight (mi_backend m) = None \<and> br_filters (mi_backend m) = 0) MirrorBackend) (\<lambda>_.
     let (numerator, denominator) =
           (case mi_fraction m of
              None \<Rightarrow> (case mi_percent m of None \<Rightarrow> 100 | Some k \<Rightarrow> k, 100)
            | Some (n, d) \<Rightarrow> (n, case d of None \<Rightarrow> 100 | Some k \<Rightarrow> k))
     in bindR (ensure (1 \<le> denominator \<and> denominator \<le> 1000000 \<and> numerator \<le> denominator
                 \<and> is_none_or (mi_percent m) (\<lambda>k. k \<le> 100)) MirrorFraction) (\<lambda>_.
        Inr (p\<lparr>gp_mirror := Some \<lparr>mp_backend = None, mp_numerator = numerator, mp_denominator = denominator\<rparr>\<rparr>))))"

definition apply_filter :: "gw_filter \<Rightarrow> gw_policy \<Rightarrow> (gateway_error, gw_policy) result" where
  "apply_filter f p =
     bindR (ensure (is_some (fl_request_headers f) + is_some (fl_response_headers f) + is_some (fl_redirect f)
               + is_some (fl_rewrite f) + is_some (fl_mirror f) = 1) FilterConfiguration) (\<lambda>_.
     if fl_type f = ''RequestHeaderModifier'' then
       bindR (ok_or (fl_request_headers f) (MissingConfiguration ''requestHeaderModifier'')) (\<lambda>h.
       Inr (p\<lparr>gp_request_headers := h\<rparr>))
     else if fl_type f = ''ResponseHeaderModifier'' then
       bindR (ok_or (fl_response_headers f) (MissingConfiguration ''responseHeaderModifier'')) (\<lambda>h.
       Inr (p\<lparr>gp_response_headers := h\<rparr>))
     else if fl_type f = ''RequestRedirect'' then
       bindR (ok_or (fl_redirect f) (MissingConfiguration ''requestRedirect'')) (\<lambda>r. Inr (p\<lparr>gp_redirect := Some r\<rparr>))
     else if fl_type f = ''URLRewrite'' then
       bindR (ok_or (fl_rewrite f) (MissingConfiguration ''urlRewrite'')) (\<lambda>r. Inr (p\<lparr>gp_rewrite := Some r\<rparr>))
     else if fl_type f = ''RequestMirror'' then
       bindR (ok_or (fl_mirror f) (MissingConfiguration ''requestMirror'')) (\<lambda>m. apply_mirror m p)
     else Inl (UnsupportedFilter (fl_type f)))"

fun apply_filters :: "gw_filter list \<Rightarrow> string list \<Rightarrow> gw_policy \<Rightarrow> (gateway_error, gw_policy) result" where
  "apply_filters [] seen p = Inr p"
| "apply_filters (f # fs) seen p =
     bindR (ensure (fl_type f \<notin> set seen) RepeatedFilter) (\<lambda>_.
     bindR (apply_filter f p) (\<lambda>p'.
     apply_filters fs (fl_type f # seen) p'))"

definition redirect_validate :: "redirect \<Rightarrow> (gateway_error, unit) result" where
  "redirect_validate r =
     bindR (ensure (is_none_or (rr_scheme r) (\<lambda>s. s = ''http'' \<or> s = ''https'')) RedirectScheme) (\<lambda>_.
     bindR (ensure ((case rr_status r of None \<Rightarrow> 302 | Some s \<Rightarrow> s) \<in> {301, 302, 303, 307, 308}) RedirectStatus) (\<lambda>_.
     ensure (rr_port r \<noteq> Some 0) RedirectPort))"

definition opt_list :: "'a option \<Rightarrow> 'a list" where
  "opt_list x = (case x of None \<Rightarrow> [] | Some a \<Rightarrow> [a])"

definition policy_paths :: "gw_policy \<Rightarrow> path_modifier list" where
  "policy_paths p = concat (map (\<lambda>r. opt_list (rr_path r)) (opt_list (gp_redirect p)))
     @ concat (map (\<lambda>r. opt_list (rw_path r)) (opt_list (gp_rewrite p)))"

definition policy_hosts :: "gw_policy \<Rightarrow> string list" where
  "policy_hosts p = concat (map (\<lambda>r. opt_list (rr_hostname r)) (opt_list (gp_redirect p)))
     @ concat (map (\<lambda>r. opt_list (rw_hostname r)) (opt_list (gp_rewrite p)))"

text \<open>\<open>filters\<close> reads the timeouts and the filters of a rule.\<close>

definition filters ::
  "(string \<Rightarrow> bool) \<Rightarrow> (string \<Rightarrow> bool) \<Rightarrow> timeouts option \<Rightarrow> gw_filter list \<Rightarrow> nat \<Rightarrow> bool \<Rightarrow> (gateway_error, gw_policy) result" where
  "filters name_ok value_ok limits fs port is_prefix =
     bindR (optional timeout_budgets limits) (\<lambda>budgets.
     bindR (apply_filters fs []
        (default_policy port (case budgets of None \<Rightarrow> \<lparr>bu_request = None, bu_backend = None\<rparr> | Some b \<Rightarrow> b))) (\<lambda>p.
     bindR (ensure (gp_redirect p = None \<or> gp_rewrite p = None) RedirectAndRewrite) (\<lambda>_.
     bindR (headers_validate name_ok value_ok (gp_request_headers p)) (\<lambda>_.
     bindR (headers_validate name_ok value_ok (gp_response_headers p)) (\<lambda>_.
     bindR (for_each (path_modifier_validate is_prefix) (policy_paths p)) (\<lambda>_.
     bindR (for_each (\<lambda>h. ensure (\<not> starts_with h ''*.'' \<and> valid_hostname h) ReplacementHost) (policy_hosts p)) (\<lambda>_.
     bindR (for_each redirect_validate (opt_list (gp_redirect p))) (\<lambda>_.
     Inr p))))))))"

section \<open>Serving a policy\<close>

fun backend_loop :: "(string option \<times> nat) list \<Rightarrow> nat \<Rightarrow> string option" where
  "backend_loop [] draw = None"
| "backend_loop ((backend, weight) # bs) draw = (if draw < weight then backend else backend_loop bs (draw - weight))"

definition gateway_select_at :: "gw_policy \<Rightarrow> nat \<Rightarrow> string option" where
  "gateway_select_at p sample =
     (let total = sum_list (map snd (gp_backends p))
      in if total = 0 then None else backend_loop (gp_backends p) (sample mod total))"

text \<open>\<open>rng\<close> is \<open>thread_rng().gen_range(0..total)\<close>.\<close>

definition gateway_select :: "(nat \<Rightarrow> nat) \<Rightarrow> gw_policy \<Rightarrow> string option" where
  "gateway_select rng p =
     (let total = sum_list (map snd (gp_backends p))
      in if total = 0 then None else gateway_select_at p (rng total))"

definition escaped_bytes :: string where
  "escaped_bytes = map char_of ([0..<32] @ [127]) @ '' '' @ [CHR 0x22] @ ''#%?<>`{}''"

definition encode_path :: "(string \<Rightarrow> string \<Rightarrow> string) \<Rightarrow> string \<Rightarrow> string" where
  "encode_path percent_encode path = percent_encode escaped_bytes path"

definition location ::
  "(string \<Rightarrow> string \<Rightarrow> string) \<Rightarrow> gw_policy \<Rightarrow> request_data \<Rightarrow> path_match \<Rightarrow> bool \<Rightarrow> (nat \<times> string) option" where
  "location percent_encode p request matcher tls =
     Option.bind (gp_redirect p) (\<lambda>r.
     let scheme = (case rr_scheme r of Some s \<Rightarrow> s | None \<Rightarrow> if tls then ''https'' else ''http'');
         host = (case rr_hostname r of Some h \<Rightarrow> h | None \<Rightarrow> rd_host request);
         port = (case rr_port r of Some n \<Rightarrow> n | None \<Rightarrow>
                   if rr_scheme r \<noteq> None then (if scheme = ''https'' then 443 else 80) else gp_port p);
         authority = (if scheme = ''https'' \<and> port = 443 \<or> scheme = ''http'' \<and> port = 80 then host
                      else host @ '':'' @ to_decimal port);
         path = (case rr_path r of None \<Rightarrow> rd_path request | Some m \<Rightarrow> path_modifier_apply m (rd_path request) matcher);
         query = (if rd_query request = [] then [] else ''?'' @ rd_query request)
     in Some (case rr_status r of None \<Rightarrow> 302 | Some s \<Rightarrow> s,
              scheme @ ''://'' @ authority @ encode_path percent_encode path @ query))"

section \<open>Durations\<close>

text \<open>A component as it is written, and what it counts.\<close>

definition duration_text :: "(nat \<times> string) list \<Rightarrow> string" where
  "duration_text cs = concat (map (\<lambda>(v, u). to_decimal v @ u) cs)"

definition duration_millis :: "(nat \<times> string) list \<Rightarrow> nat" where
  "duration_millis cs = sum_list (map (\<lambda>(v, u). v * the (map_of duration_units u)) cs)"

lemma digits_value_bound: "list_all is_ascii_digit s \<Longrightarrow> digits_value s < 10 ^ length s"
proof (induction s rule: rev_induct)
  case (snoc c s)
  have "of_char c \<le> (57 :: nat)" using snoc.prems by (simp add: is_ascii_digit_def less_eq_char_def)
  then show ?case using snoc by (simp add: digits_value_snoc)
qed (simp add: digits_value_def)

lemma duration_loop_bound:
  "duration_loop t k millis = Inr (n, ms) \<Longrightarrow> k \<le> 4
     \<Longrightarrow> k \<le> n \<and> n \<le> 4 \<and> ms \<le> millis + (n - k) * (99999 * 3600000)"
proof (induction t k millis rule: duration_loop.induct)
  case (1 t k millis)
  show ?case
  proof (cases "t = []")
    case True
    with 1 show ?thesis by (simp add: duration_loop.simps [of "[]"])
  next
    case False
    let ?ds = "takeWhile is_ascii_digit t" and ?rest = "dropWhile is_ascii_digit t"
    obtain unit m where u: "find (\<lambda>u. starts_with ?rest (fst u)) duration_units = Some (unit, m)"
      and ok: "1 \<le> length ?ds \<and> length ?ds \<le> 5 \<and> k < 4"
      and rec: "duration_loop (drop (length unit) ?rest) (k + 1) (millis + digits_value ?ds * m) = Inr (n, ms)"
      using "1.prems"(1) False
      by (subst (asm) duration_loop.simps) (auto simp: Let_def split: if_splits option.splits)
    have IH: "k + 1 \<le> n \<and> n \<le> 4 \<and> ms \<le> millis + digits_value ?ds * m + (n - (k + 1)) * (99999 * 3600000)"
      using "1.IH" [OF False refl refl _ u refl rec] ok by auto
    have "(unit, m) \<in> set duration_units" using u by (metis find_Some_iff nth_mem)
    then have m: "m \<le> 3600000" by (auto simp: duration_units_def)
    have "list_all is_ascii_digit ?ds" by (meson list_all_iff set_takeWhileD)
    then have "digits_value ?ds < 10 ^ 5"
      using digits_value_bound [of ?ds] power_increasing [of "length ?ds" 5 "10 :: nat"] ok by simp
    then have "digits_value ?ds * m \<le> 99999 * 3600000" using m by (intro mult_le_mono) auto
    then show ?thesis using IH by (auto simp: algebra_simps Suc_diff_Suc diff_mult_distrib)
  qed
qed

lemma gateway_duration_bound: "gateway_duration t = Inr millis \<Longrightarrow> millis \<le> 4 * (99999 * 3600000)"
  using duration_loop_bound [of t 0 0] by (fastforce simp: gateway_duration_def result_simps)

section \<open>Hostname patterns as sets of hosts\<close>

lemma gateway_host_rank_Some_iff:
  "gateway_host_rank pattern host = Some n \<longleftrightarrow>
     (if pattern = [] then n = 0 else if pattern = host then n = usize_max
      else \<exists>suffix p. pattern = ''*.'' @ suffix \<and> p \<noteq> [] \<and> host = p @ ''.'' @ suffix \<and> n = length suffix)"
  by (auto simp: gateway_host_rank_def bind_eq_Some_conv split: if_splits)

lemma gateway_host_rank_matches:
  "gateway_host_rank pattern host \<noteq> None \<longleftrightarrow>
     pattern = [] \<or> pattern = host \<or> (\<exists>suffix p. pattern = ''*.'' @ suffix \<and> p \<noteq> [] \<and> host = p @ ''.'' @ suffix)"
  unfolding not_None_eq gateway_host_rank_Some_iff by auto

text \<open>The wildcard pattern of a suffix covers the wildcard patterns of longer suffixes.\<close>

lemma wildcard_covers:
  assumes "p @ ''.'' @ a = q @ ''.'' @ b" and "length b < length a"
  shows "\<exists>r. a = r @ ''.'' @ b"
proof -
  obtain us where "us @ ''.'' @ a = ''.'' @ b \<or> ''.'' @ a = us @ ''.'' @ b"
    using append_eq_append_conv2 [THEN iffD1, OF assms(1)] by blast
  then show ?thesis
  proof
    assume "us @ ''.'' @ a = ''.'' @ b"
    from arg_cong [OF this, of length] show ?thesis using assms(2) by simp
  next
    assume "''.'' @ a = us @ ''.'' @ b"
    then show ?thesis using assms(2) by (cases us) auto
  qed
qed

definition host_matches :: "string \<Rightarrow> string \<Rightarrow> bool" where
  "host_matches pattern host \<longleftrightarrow> gateway_host_rank pattern host \<noteq> None"

lemma host_matches_iff:
  "host_matches pattern host \<longleftrightarrow>
     pattern = [] \<or> pattern = host \<or> (\<exists>suffix p. pattern = ''*.'' @ suffix \<and> p \<noteq> [] \<and> host = p @ ''.'' @ suffix)"
  unfolding host_matches_def by (rule gateway_host_rank_matches)

text \<open>A pattern that matches another pattern, read as a host, matches all its hosts.\<close>

lemma host_matches_trans: "host_matches a b \<Longrightarrow> host_matches b host \<Longrightarrow> b \<noteq> [] \<Longrightarrow> host_matches a host"
proof -
  assume ab: "host_matches a b" and bh: "host_matches b host" and b: "b \<noteq> []"
  show ?thesis
  proof (cases "a = [] \<or> a = b \<or> b = host")
    case True
    then show ?thesis using ab bh by (auto simp: host_matches_iff)
  next
    case False
    then obtain s p t q where a: "a = ''*.'' @ s" and p: "p \<noteq> []" "b = p @ ''.'' @ s"
      and bw: "b = ''*.'' @ t" and q: "q \<noteq> []" "host = q @ ''.'' @ t"
      using ab bh b unfolding host_matches_iff by blast
    show ?thesis
    proof (cases "tl p")
      case Nil
      then have "p = ''*''" using p bw by (cases p) auto
      then show ?thesis using p bw False a by simp
    next
      case (Cons c cs)
      then have "p = ''*.'' @ cs" using p bw by (cases p) auto
      then have "host = (q @ ''.'' @ cs) @ ''.'' @ s" using p bw q by simp
      then show ?thesis using a q by (auto simp: host_matches_iff)
    qed
  qed
qed

text \<open>Two patterns with a common host are comparable.\<close>

lemma host_matches_comparable:
  assumes "host_matches a host" and "host_matches b host" and "a \<noteq> []" and "b \<noteq> []"
  shows "host_matches a b \<or> host_matches b a"
proof (cases "a = host \<or> b = host")
  case True
  then show ?thesis using assms by auto
next
  case False
  then obtain s p t q where a: "a = ''*.'' @ s" "host = p @ ''.'' @ s" and b: "b = ''*.'' @ t" "host = q @ ''.'' @ t"
    using assms unfolding host_matches_iff by blast
  have covers: "host_matches (''*.'' @ y) (''*.'' @ x)" if "\<exists>r. x = r @ ''.'' @ y" for x y
    using that by (auto simp: host_matches_iff)
  consider "length s < length t" | "length t < length s" | "length s = length t" by linarith
  then show ?thesis
  proof cases
    case 1
    then show ?thesis using wildcard_covers [of q t p s] covers a b by metis
  next
    case 2
    then show ?thesis using wildcard_covers [of p s q t] covers a b by metis
  next
    case 3
    then have "s = t" using a b by simp
    then show ?thesis using a b by (simp add: host_matches_iff)
  qed
qed

section \<open>Weighted backends\<close>

lemma backend_loop_owner: "n < total_weight ts \<Longrightarrow> interval_owner ts n = Some (backend_loop ts n)"
  by (induction ts n rule: backend_loop.induct) auto

interpretation gateway_draw: weighted_choice "\<lambda>ts n. if n < total_weight ts then Some (backend_loop ts n) else None"
proof
  fix n and ts :: "(string option \<times> nat) list"
  assume "n < total_weight ts"
  then show "\<exists>i<length ts. (if n < total_weight ts then Some (backend_loop ts n) else None) = Some (fst (ts ! i))
      \<and> total_weight (take i ts) \<le> n \<and> n < total_weight (take (Suc i) ts)"
    using interval_owner_interval [of n ts] backend_loop_owner [of n ts] by simp
qed

section \<open>Accepted policies\<close>

definition safe_path :: "string \<Rightarrow> bool" where
  "safe_path path \<longleftrightarrow> starts_with path ''/'' \<and> set path \<inter> {CHR ''?'', CHR ''#'', CHR 0x0D, CHR 0x0A} = {}"

lemma strip_prefix_append [simp]: "strip_prefix p (p @ s) = Some s"
  by simp

lemma set_trim_end: "set (trim_end_matches c s) \<subseteq> set s"
  using set_dropWhileD by (fastforce simp: trim_end_matches_def)

lemma trim_end_starts: "starts_with s [c] \<Longrightarrow> starts_with (trim_end_matches c s @ c # r) [c]"
  using trim_end_matches_decomp [of s c] by (cases "trim_end_matches c s") (auto simp: starts_with_iff Cons_eq_append_conv)

lemma path_modifier_safe:
  assumes "path_modifier_validate is_prefix m = Inr ()" and "safe_path path"
  shows "safe_path (path_modifier_apply m path matcher)"
proof (cases "pm_full m")
  case (Some full)
  then show ?thesis using assms(1)
    by (auto simp: path_modifier_validate_def path_modifier_apply_def safe_path_def list_all_iff result_simps split: if_splits)
next
  case None
  obtain pre where pre: "pm_prefix m = Some pre" "safe_path pre"
    using assms(1) None
    by (auto simp: path_modifier_validate_def safe_path_def list_all_iff result_simps split: if_splits)
  obtain suffix where suffix: "suffix = (case strip_prefix (trim_end_matches CHR ''/'' (path_match_path matcher)) path of
      None \<Rightarrow> [] | Some s \<Rightarrow> s)" by simp
  have sub: "set suffix \<subseteq> set path"
    by (cases "strip_prefix (trim_end_matches CHR ''/'' (path_match_path matcher)) path") (auto simp: suffix)
  have "set (trim_start_matches CHR ''/'' suffix) \<subseteq> set suffix"
    using set_dropWhileD by (fastforce simp: trim_start_matches_def)
  then show ?thesis
    using pre None suffix sub assms(2) set_trim_end [of "CHR ''/''" pre] trim_end_starts [of pre "CHR ''/''"]
    by (auto simp: path_modifier_apply_def safe_path_def Let_def)
qed

lemma check_header_names_ok:
  "check_header_names name_ok ns seen = Inr () \<Longrightarrow> distinct seen
     \<Longrightarrow> distinct (rev seen @ map to_ascii_lowercase ns) \<and> (\<forall>n\<in>set ns. to_ascii_lowercase n \<notin> set managed_headers)"
proof (induction name_ok ns seen rule: check_header_names.induct)
  case (2 name_ok n ns seen)
  then show ?case by (auto simp: Let_def result_simps)
qed simp

lemma fold_update_other:
  "(\<And>x. x \<in> set xs \<Longrightarrow> f x \<noteq> n) \<Longrightarrow> fold (\<lambda>x m. m(f x := g x m)) xs m n = m n"
  by (induction xs arbitrary: m) auto

lemma headers_apply_other:
  "n \<notin> to_ascii_lowercase ` (hd_name ` set (hs_set h) \<union> hd_name ` set (hs_add h) \<union> set (hs_remove h))
     \<Longrightarrow> headers_apply h m n = m n"
  unfolding headers_apply_def
  by (subst fold_update_other, force)+ auto

lemma headers_validate_managed:
  assumes "headers_validate name_ok value_ok h = Inr ()" and "n \<in> set managed_headers"
  shows "headers_apply h m n = m n"
proof (rule headers_apply_other)
  have "check_header_names name_ok (map hd_name (hs_set h @ hs_add h) @ hs_remove h) [] = Inr ()"
    using assms(1) by (auto simp: headers_validate_def result_simps)
  from check_header_names_ok [OF this] assms(2)
  show "n \<notin> to_ascii_lowercase ` (hd_name ` set (hs_set h) \<union> hd_name ` set (hs_add h) \<union> set (hs_remove h))"
    by auto
qed

lemma apply_mirror_ok:
  "apply_mirror m p = Inr p' \<Longrightarrow>
     (\<exists>k. gp_mirror p' = Some k \<and> 0 < mp_denominator k \<and> mp_numerator k \<le> mp_denominator k)"
  by (auto simp: apply_mirror_def result_simps split: option.splits prod.splits)

lemma apply_filters_mirror:
  "apply_filters fs seen p = Inr p' \<Longrightarrow> is_none_or (gp_mirror p) (\<lambda>k. 0 < mp_denominator k \<and> mp_numerator k \<le> mp_denominator k)
     \<Longrightarrow> is_none_or (gp_mirror p') (\<lambda>k. 0 < mp_denominator k \<and> mp_numerator k \<le> mp_denominator k)"
proof (induction fs seen p rule: apply_filters.induct)
  case (2 f fs seen p)
  then obtain q where q: "apply_filter f p = Inr q" "apply_filters fs (fl_type f # seen) q = Inr p'"
    by (auto simp: result_simps)
  have "is_none_or (gp_mirror q) (\<lambda>k. 0 < mp_denominator k \<and> mp_numerator k \<le> mp_denominator k)"
    using q(1) "2.prems"(2)
    by (auto simp: apply_filter_def result_simps split: if_splits dest!: apply_mirror_ok)
  then show ?case using "2.IH" [OF q(2)] by simp
qed simp

lemma location_status:
  assumes "for_each redirect_validate (opt_list (gp_redirect p)) = Inr ()"
    and "location enc p request matcher tls = Some (status, loc)"
  shows "status \<in> {301, 302, 303, 307, 308} \<and> (\<exists>rest. loc = ''http://'' @ rest \<or> loc = ''https://'' @ rest)"
proof -
  obtain r where r: "gp_redirect p = Some r" using assms(2) by (cases "gp_redirect p") (simp_all add: location_def)
  then have "redirect_validate r = Inr ()" using assms(1) by (simp add: opt_list_def bindR_Inr_iff)
  then have ok: "is_none_or (rr_scheme r) (\<lambda>s. s = ''http'' \<or> s = ''https'')"
    "(case rr_status r of None \<Rightarrow> 302 | Some s \<Rightarrow> s) \<in> {301, 302, 303, 307, 308}"
    unfolding redirect_validate_def bindR_Inr_iff ensure_Inr_iff by blast+
  let ?scheme = "case rr_scheme r of Some s \<Rightarrow> s | None \<Rightarrow> if tls then ''https'' else ''http''"
  have "?scheme = ''http'' \<or> ?scheme = ''https''" using ok(1) by (cases "rr_scheme r") auto
  moreover obtain rest where "loc = ?scheme @ ''://'' @ rest" "status = (case rr_status r of None \<Rightarrow> 302 | Some s \<Rightarrow> s)"
    using assms(2) unfolding location_def r Let_def bind.bind_lunit option.inject prod.inject append_assoc by blast
  moreover have "\<exists>rest'. x @ ''://'' @ rest = ''http://'' @ rest' \<or> x @ ''://'' @ rest = ''https://'' @ rest'"
    if "x = ''http'' \<or> x = ''https''" for x rest using that by auto
  ultimately show ?thesis using ok(2) by metis
qed

section \<open>Properties\<close>

text \<open>
  C36. \<open>intersect\<close> computes the intersection of two hostname patterns: the pattern it returns matches
  exactly the hosts that both patterns match, and when it returns none, no host matches both. A
  route attached to a listener is thus served for the hosts that both declare, and no others.
\<close>

theorem gateway_intersection:
  "case intersect left right of
     Some pattern \<Rightarrow> host_matches pattern host = (host_matches left host \<and> host_matches right host)
   | None \<Rightarrow> \<not> (host_matches left host \<and> host_matches right host)"
proof (cases "left = [] \<or> right = []")
  case True
  then show ?thesis by (auto simp: intersect_def host_matches_def gateway_host_rank_def)
next
  case False
  consider "host_matches right left" | "\<not> host_matches right left" "host_matches left right"
    | "\<not> host_matches right left" "\<not> host_matches left right" by blast
  then show ?thesis
  proof cases
    case 1
    then have "intersect left right = Some left" using False by (simp add: intersect_def host_matches_def)
    then show ?thesis using host_matches_trans [OF 1, of host] False by auto
  next
    case 2
    then have "intersect left right = Some right" using False by (auto simp: intersect_def host_matches_def)
    then show ?thesis using host_matches_trans [OF 2(2), of host] False by auto
  next
    case 3
    then have "intersect left right = None" using False by (simp add: intersect_def host_matches_def)
    then show ?thesis using host_matches_comparable [of left host right] 3 False by auto
  qed
qed

text \<open>
  Weighted backends get their exact share: any run of as many consecutive samples as the total
  weight sends each backend (\<open>None\<close> is one that did not resolve) exactly its weight in samples,
  and a random choice falls on a backend of positive weight.
\<close>

lemma gateway_backend_share:
  assumes "0 < total_weight (gp_backends p)"
  shows "card {c. k \<le> c \<and> c < k + total_weight (gp_backends p) \<and> gateway_select_at p c = b} = share b (gp_backends p)
      \<and> (\<exists>w>0. (gateway_select rng p, w) \<in> set (gp_backends p))"
proof
  let ?n = "total_weight (gp_backends p)"
  have at: "gateway_select_at p c = backend_loop (gp_backends p) (c mod ?n)" for c
    using assms(1) by (simp add: gateway_select_at_def Let_def del: sum_list_eq_0_iff)
  show "card {c. k \<le> c \<and> c < k + ?n \<and> gateway_select_at p c = b} = share b (gp_backends p)"
    using gateway_draw.round_robin_share [OF assms(1), of k b] assms(1) by (simp add: at)
  have "rng ?n mod ?n < ?n" using assms(1) by simp
  with gateway_draw.pick_some [of "rng ?n mod ?n" "gp_backends p"] assms(1)
  show "\<exists>w>0. (gateway_select rng p, w) \<in> set (gp_backends p)"
    by (auto simp: gateway_select_def at Let_def)
qed

text \<open>
  C38. An accepted rule gives a policy that cannot damage requests: it never redirects and rewrites at
  once, path modifiers turn absolute paths without query, fragment or line break into such paths, the
  headers the transport manages keep their values, a mirror fraction lies between 0 and 1, and a
  redirect answers with a redirection status and an \<open>http\<close> or \<open>https\<close> location.
\<close>

theorem gateway_filters_safe:
  assumes "filters name_ok value_ok limits fs port is_prefix = Inr p"
  shows "(gp_redirect p = None \<or> gp_rewrite p = None)
    \<and> (\<forall>m\<in>set (policy_paths p). safe_path path \<longrightarrow> safe_path (path_modifier_apply m path matcher))
    \<and> (n \<in> set managed_headers \<longrightarrow>
        headers_apply (gp_request_headers p) hs n = hs n \<and> headers_apply (gp_response_headers p) hs n = hs n)
    \<and> is_none_or (gp_mirror p) (\<lambda>k. 0 < mp_denominator k \<and> mp_numerator k \<le> mp_denominator k)
    \<and> (location enc p request matcher tls = Some (status, loc) \<longrightarrow>
        status \<in> {301, 302, 303, 307, 308} \<and> (\<exists>rest. loc = ''http://'' @ rest \<or> loc = ''https://'' @ rest))"
proof -
  obtain b where
    run: "apply_filters fs [] (default_policy port b) = Inr p" and one: "gp_redirect p = None \<or> gp_rewrite p = None"
    and req: "headers_validate name_ok value_ok (gp_request_headers p) = Inr ()"
    and resp: "headers_validate name_ok value_ok (gp_response_headers p) = Inr ()"
    and paths: "\<forall>m\<in>set (policy_paths p). path_modifier_validate is_prefix m = Inr ()"
    and redirects: "for_each redirect_validate (opt_list (gp_redirect p)) = Inr ()"
    using assms by (auto simp: filters_def result_simps)
  have mirror: "is_none_or (gp_mirror p) (\<lambda>k. 0 < mp_denominator k \<and> mp_numerator k \<le> mp_denominator k)"
    using apply_filters_mirror [OF run] by (simp add: default_policy_def)
  show ?thesis
    using one mirror paths path_modifier_safe headers_validate_managed [OF req] headers_validate_managed [OF resp]
      location_status [OF redirects, of enc request matcher tls status loc] by blast
qed

definition sample_filters :: "gw_filter list" where
  "sample_filters =
     [\<lparr>fl_type = ''RequestRedirect'', fl_request_headers = None, fl_response_headers = None,
       fl_redirect = Some \<lparr>rr_scheme = Some ''https'', rr_hostname = None, rr_port = None,
         rr_path = Some \<lparr>pm_type = ''ReplacePrefixMatch'', pm_full = None, pm_prefix = Some ''/v2/''\<rparr>, rr_status = Some 301\<rparr>,
       fl_rewrite = None, fl_mirror = None\<rparr>,
      \<lparr>fl_type = ''ResponseHeaderModifier'', fl_request_headers = None,
       fl_response_headers = Some \<lparr>hs_set = [\<lparr>hd_name = ''X-Served'', hd_value = ''rgnix''\<rparr>], hs_add = [], hs_remove = [''Server'']\<rparr>,
       fl_redirect = None, fl_rewrite = None, fl_mirror = None\<rparr>]"

theorem gateway_filters_safe_witness:
  "\<exists>p loc. filters (\<lambda>_. True) (\<lambda>_. True) None sample_filters 80 True = Inr p
     \<and> location (\<lambda>_ x. x) p (empty_request\<lparr>rd_host := ''h'', rd_path := ''/v1/x'', rd_query := ''q''\<rparr>) (IngressPrefix ''/v1'') False
         = Some (301, ''https://h/v2/x?q'')
     \<and> headers_apply (gp_response_headers p) (\<lambda>_. [''x'']) ''te'' = [''x'']"
proof -
  let ?r = "empty_request\<lparr>rd_host := ''h'', rd_path := ''/v1/x'', rd_query := ''q''\<rparr>"
  have "case filters (\<lambda>_. True) (\<lambda>_. True) None sample_filters 80 True of Inl _ \<Rightarrow> False
      | Inr p \<Rightarrow> location (\<lambda>_ x. x) p ?r (IngressPrefix ''/v1'') False = Some (301, ''https://h/v2/x?q'')"
    by code_simp
  then obtain p where p: "filters (\<lambda>_. True) (\<lambda>_. True) None sample_filters 80 True = Inr p"
    "location (\<lambda>_ x. x) p ?r (IngressPrefix ''/v1'') False = Some (301, ''https://h/v2/x?q'')"
    by (auto split: sum.splits)
  have "''te'' \<in> set managed_headers" by (simp add: managed_headers_def)
  with gateway_filters_safe [OF p(1), where hs = "\<lambda>_. [''x'']" and n = "''te''"] p show ?thesis by blast
qed

end
