(* ===== verification/Gateway_Routes.thy ===== *)
theory Gateway_Routes
  imports Gateway_Policy "HOL-Library.Code_Target_Nat"
begin

text \<open>
  Gateway API request matching: \<open>Match\<close>, \<open>Entry\<close> and \<open>Routing\<close> of \<open>src/src/gateway/routes.rs\<close> and the index of
  \<open>src/src/gateway/routes/index.rs\<close>. The reference at the end chooses among all listeners and all
  entries by rank, priority and declaration order; the lemmas show that the index gives its answer.

  \<open>form_pairs\<close> is \<open>url::form_urlencoded::parse\<close>, a parameter; the cell that caches its result is left out.
\<close>

section \<open>Matches\<close>

datatype json_value =
    JNull
  | JBool bool
  | JNumber string
  | JString string
  | JArray "json_value list"
  | JObject "(string, json_value) btree"

fun as_str :: "json_value \<Rightarrow> string option" where
  "as_str (JString s) = Some s"
| "as_str _ = None"

fun as_object :: "json_value \<Rightarrow> (string, json_value) btree option" where
  "as_object (JObject m) = Some m"
| "as_object _ = None"

definition json_field :: "json_value \<Rightarrow> string \<Rightarrow> json_value option" where
  "json_field v key = Option.bind (as_object v) (\<lambda>m. bt_get m key)"

record path_spec =
  pt_type :: string
  pt_value :: string

record named_match =
  nm_type :: string
  nm_name :: string
  nm_value :: string

record gw_match =
  mt_path :: "path_spec option"
  mt_method :: "json_value option"
  mt_headers :: "named_match list"
  mt_query :: "named_match list"

record gw_entry =
  en_hostname :: string
  en_matcher :: gw_match
  en_grpc :: bool
  en_order :: "string \<times> string \<times> string \<times> nat \<times> nat"
  en_route_id :: string
  en_route :: route

record listener_routes =
  lr_address :: socket_addr
  lr_hostname :: string
  lr_entries :: "gw_entry list"

definition grpc_method_check :: "json_value \<Rightarrow> (gateway_error, unit) result" where
  "grpc_method_check m =
     bindR (ok_or (as_object m) GrpcMethod) (\<lambda>object.
     bindR (ensure (list_all (\<lambda>k. k \<in> {''type'', ''service'', ''method''}) (bt_keys object)) GrpcField) (\<lambda>_.
     bindR (ensure ((case Option.bind (json_field m ''type'') as_str of None \<Rightarrow> ''Exact'' | Some t \<Rightarrow> t) = ''Exact'') GrpcRegex) (\<lambda>_.
     for_each (\<lambda>key. case bt_get object key of
                       None \<Rightarrow> Inr ()
                     | Some v \<Rightarrow> ensure (is_some_and (as_str v) (\<lambda>s. s \<noteq> [] \<and> CHR ''/'' \<notin> set s)) GrpcComponent)
       [''service'', ''method''])))"

definition match_path ::
  "(string \<Rightarrow> bool) \<Rightarrow> (string \<Rightarrow> bool) \<Rightarrow> gw_match \<Rightarrow> bool \<Rightarrow> (gateway_error, path_match) result" where
  "match_path name_ok method_ok m grpc =
     bindR (ensure (length (mt_headers m) \<le> 16 \<and> length (mt_query m) \<le> 16) TooManyPredicates) (\<lambda>_.
     bindR (for_each (\<lambda>h. ensure (nm_type h = ''Exact'') PredicateType) (mt_headers m @ mt_query m)) (\<lambda>_.
     bindR (for_each (\<lambda>h. ensure (name_ok (nm_name h)) (HeaderName (nm_name h))) (mt_headers m)) (\<lambda>_.
     if grpc then
       bindR (ensure (mt_path m = None \<and> mt_query m = []) GrpcMatch) (\<lambda>_.
       bindR (case mt_method m of None \<Rightarrow> Inr () | Some v \<Rightarrow> grpc_method_check v) (\<lambda>_.
       Inr (IngressPrefix ''/'')))
     else
       bindR (case mt_method m of None \<Rightarrow> Inr ()
              | Some v \<Rightarrow> bindR (ok_or (as_str v) HttpMethod) (\<lambda>s. ensure (method_ok s) HttpMethod)) (\<lambda>_.
       case mt_path m of
         None \<Rightarrow> Inr (IngressPrefix ''/'')
       | Some p \<Rightarrow>
           bindR (ensure (starts_with (pt_value p) ''/'' \<and> CHR ''?'' \<notin> set (pt_value p) \<and> CHR ''#'' \<notin> set (pt_value p)
                     \<and> length (pt_value p) \<le> 1024) InvalidPath) (\<lambda>_.
           if pt_type p = ''Exact'' then Inr (Exact (pt_value p))
           else if pt_type p = ''PathPrefix'' then Inr (IngressPrefix (pt_value p))
           else Inl RegexPath)))))"

definition is_grpc_type :: "string \<Rightarrow> bool" where
  "is_grpc_type v = (let t = hd (split_on CHR '';'' v) in t = ''application/grpc'' \<or> starts_with t ''application/grpc+'')"

definition method_matches :: "gw_match \<Rightarrow> bool \<Rightarrow> request_data \<Rightarrow> bool" where
  "method_matches m grpc request =
     (if grpc then
        rd_method request = ''POST'' \<and> is_some_and (rd_header request ''content-type'') is_grpc_type
        \<and> (case Option.bind (strip_prefix ''/'' (rd_path request)) (split_once CHR ''/'') of
             None \<Rightarrow> False
           | Some (service, rpc) \<Rightarrow>
               is_none_or (mt_method m) (\<lambda>v.
                 is_none_or (Option.bind (json_field v ''service'') as_str) (\<lambda>s. s = service)
                 \<and> is_none_or (Option.bind (json_field v ''method'') as_str) (\<lambda>s. s = rpc)))
      else is_none_or (Option.bind (mt_method m) as_str) (\<lambda>s. s = rd_method request))"

definition match_matches ::
  "(string \<Rightarrow> (string \<times> string) list) \<Rightarrow> gw_entry \<Rightarrow> request_data \<Rightarrow> string list \<Rightarrow> bool" where
  "match_matches form_pairs e request headers \<longleftrightarrow>
     path_match_matches (route_matcher (en_route e)) (rd_path request)
     \<and> method_matches (en_matcher e) (en_grpc e) request
     \<and> list_all (\<lambda>(h, name). rd_header request name = Some (nm_value h)) (zip (mt_headers (en_matcher e)) headers)
     \<and> (mt_query (en_matcher e) = [] \<or>
         list_all (\<lambda>q. is_some_and (find (\<lambda>kv. fst kv = nm_name q) (form_pairs (rd_query request)))
             (\<lambda>kv. snd kv = nm_value q)) (mt_query (en_matcher e)))"

definition entry_priority :: "gw_entry \<Rightarrow> bool \<times> nat \<times> nat \<times> nat \<times> nat" where
  "entry_priority e =
     (let (len, exact) = path_match_rank (route_matcher (en_route e));
          method = (if en_grpc e then
                      (case mt_method (en_matcher e) of
                         None \<Rightarrow> 0
                       | Some m \<Rightarrow> is_some (json_field m ''service'') + is_some (json_field m ''method''))
                    else is_some (mt_method (en_matcher e)))
      in (exact, len, method, length (mt_headers (en_matcher e)), length (mt_query (en_matcher e))))"

section \<open>The index\<close>

record gw_hosts =
  gh_exact :: "(string, nat) btree"
  gh_wildcard :: "(string, nat) btree"
  gh_fallback :: "nat option"

definition no_hosts :: gw_hosts where
  "no_hosts = \<lparr>gh_exact = [], gh_wildcard = [], gh_fallback = None\<rparr>"

definition hosts_insert :: "string \<Rightarrow> nat \<Rightarrow> gw_hosts \<Rightarrow> gw_hosts" where
  "hosts_insert pattern i hs =
     (if pattern = [] then hs\<lparr>gh_fallback := Some i\<rparr>
      else
        let hs' = hs\<lparr>gh_exact := bt_insert pattern i (gh_exact hs)\<rparr> in
        case strip_prefix ''*.'' pattern of
          None \<Rightarrow> hs'
        | Some suffix \<Rightarrow> hs'\<lparr>gh_wildcard := bt_insert suffix i (gh_wildcard hs')\<rparr>)"

definition hosts_matching :: "gw_hosts \<Rightarrow> string \<Rightarrow> nat list" where
  "hosts_matching hs host =
     opt_list (bt_get (gh_exact hs) host)
     @ List.map_filter (\<lambda>dot. if 0 < dot then bt_get (gh_wildcard hs) (drop (dot + 1) host) else None)
         (match_indices host CHR ''.'')
     @ opt_list (gh_fallback hs)"

record gw_paths =
  gx_exact :: "(string, nat list) btree"
  gx_prefix :: "(string, nat list) btree"
  gx_other :: "nat list"

definition no_paths :: gw_paths where
  "no_paths = \<lparr>gx_exact = [], gx_prefix = [], gx_other = []\<rparr>"

record gw_predicate =
  pr_priority :: "bool \<times> nat \<times> nat \<times> nat \<times> nat"
  pr_headers :: "string list"

record listener_index =
  li_hosts :: gw_hosts
  li_paths :: "gw_paths list"
  li_predicates :: "gw_predicate list"

record gw_index =
  gi_addresses :: "(socket_addr, gw_hosts) btree"
  gi_listeners :: "listener_index list"

text \<open>\<open>entry(key).or_default().push(id)\<close>.\<close>

definition bt_push :: "string \<Rightarrow> nat \<Rightarrow> (string, nat list) btree \<Rightarrow> (string, nat list) btree" where
  "bt_push k i m = bt_insert k ((case bt_get m k of None \<Rightarrow> [] | Some xs \<Rightarrow> xs) @ [i]) m"

definition push_entry :: "path_match \<Rightarrow> nat \<Rightarrow> gw_paths \<Rightarrow> gw_paths" where
  "push_entry matcher i ps =
     (case matcher of
        Exact path \<Rightarrow> ps\<lparr>gx_exact := bt_push path i (gx_exact ps)\<rparr>
      | IngressPrefix path \<Rightarrow>
          (let key = trim_end_matches CHR ''/'' path in
           if key \<noteq> [] then ps\<lparr>gx_prefix := bt_push key i (gx_prefix ps)\<rparr> else ps\<lparr>gx_other := gx_other ps @ [i]\<rparr>)
      | _ \<Rightarrow> ps\<lparr>gx_other := gx_other ps @ [i]\<rparr>)"

definition add_entry :: "nat \<times> gw_entry \<Rightarrow> (string, gw_paths) btree \<Rightarrow> (string, gw_paths) btree" where
  "add_entry ie groups =
     (let (i, e) = ie; ps = (case bt_get groups (en_hostname e) of None \<Rightarrow> no_paths | Some ps \<Rightarrow> ps)
      in bt_insert (en_hostname e) (push_entry (route_matcher (en_route e)) i ps) groups)"

definition predicate_of :: "gw_entry \<Rightarrow> gw_predicate" where
  "predicate_of e = \<lparr>pr_priority = entry_priority e,
     pr_headers = map (\<lambda>h. to_ascii_lowercase (nm_name h)) (mt_headers (en_matcher e))\<rparr>"

datatype ordering = Less | Equal | Greater

definition cmp :: "'a::linorder \<Rightarrow> 'a \<Rightarrow> ordering" where
  "cmp a b = (if a < b then Less else if a = b then Equal else Greater)"

definition then_with :: "ordering \<Rightarrow> ordering \<Rightarrow> ordering" where
  "then_with a b = (if a = Equal then b else a)"

definition compare_entries :: "gw_predicate list \<Rightarrow> gw_entry list \<Rightarrow> nat \<Rightarrow> nat \<Rightarrow> ordering" where
  "compare_entries preds entries a b =
     then_with (cmp (pr_priority (preds ! a)) (pr_priority (preds ! b)))
       (then_with (cmp (en_order (entries ! b)) (en_order (entries ! a))) (cmp a b))"

text \<open>
  \<open>sort_unstable_by\<close> with the arguments of the comparison swapped: greatest first. Distinct
  identifiers never compare equal, so the result is determined by the comparison.
\<close>

fun insert_desc :: "(nat \<Rightarrow> nat \<Rightarrow> ordering) \<Rightarrow> nat \<Rightarrow> nat list \<Rightarrow> nat list" where
  "insert_desc c i [] = [i]"
| "insert_desc c i (j # js) = (if c j i = Greater then j # insert_desc c i js else i # j # js)"

definition sort_desc :: "(nat \<Rightarrow> nat \<Rightarrow> ordering) \<Rightarrow> nat list \<Rightarrow> nat list" where
  "sort_desc c ids = foldr (insert_desc c) ids []"

definition sort_paths :: "(nat \<Rightarrow> nat \<Rightarrow> ordering) \<Rightarrow> gw_paths \<Rightarrow> gw_paths" where
  "sort_paths c ps =
     \<lparr>gx_exact = map (\<lambda>(k, ids). (k, sort_desc c ids)) (gx_exact ps),
      gx_prefix = map (\<lambda>(k, ids). (k, sort_desc c ids)) (gx_prefix ps),
      gx_other = sort_desc c (gx_other ps)\<rparr>"

definition listener_build :: "gw_entry list \<Rightarrow> listener_index" where
  "listener_build entries =
     (let groups = fold add_entry (enumerate 0 entries) [];
          preds = map predicate_of entries
      in \<lparr>li_hosts = fold (\<lambda>(i, host). hosts_insert host i) (enumerate 0 (bt_keys groups)) no_hosts,
          li_paths = map (sort_paths (compare_entries preds entries)) (bt_values groups),
          li_predicates = preds\<rparr>)"

definition add_listener :: "nat \<times> listener_routes \<Rightarrow> gw_index \<Rightarrow> gw_index" where
  "add_listener il ix =
     (let (i, l) = il;
          hs = (case bt_get (gi_addresses ix) (lr_address l) of None \<Rightarrow> no_hosts | Some hs \<Rightarrow> hs)
      in \<lparr>gi_addresses = bt_insert (lr_address l) (hosts_insert (lr_hostname l) i hs) (gi_addresses ix),
          gi_listeners = gi_listeners ix @ [listener_build (lr_entries l)]\<rparr>)"

definition gw_build :: "listener_routes list \<Rightarrow> gw_index" where
  "gw_build listeners = fold add_listener (enumerate 0 listeners) \<lparr>gi_addresses = [], gi_listeners = []\<rparr>"

text \<open>
  \<open>ListenerIndex::select\<close> with the test of an entry as \<open>ok\<close>: stop at the first entry that is not better than
  the best so far, or that matches.
\<close>

fun select_ids :: "(nat \<Rightarrow> nat \<Rightarrow> ordering) \<Rightarrow> (nat \<Rightarrow> bool) \<Rightarrow> nat list \<Rightarrow> nat option \<Rightarrow> nat option" where
  "select_ids c ok [] best = best"
| "select_ids c ok (i # ids) best =
     (if is_some_and best (\<lambda>previous. c i previous \<noteq> Greater) then best
      else if ok i then Some i
      else select_ids c ok ids best)"

definition path_prefixes :: "string \<Rightarrow> string list" where
  "path_prefixes path = path # map (\<lambda>slash. take slash path) (filter (\<lambda>slash. 0 < slash) (rev (match_indices path CHR ''/'')))"

text \<open>The identifiers a request path can reach, in the order \<open>Index::route\<close> visits them.\<close>

definition path_candidates :: "gw_paths \<Rightarrow> string \<Rightarrow> nat list list" where
  "path_candidates ps path =
     opt_list (bt_get (gx_exact ps) path)
     @ concat (map (\<lambda>prefix. opt_list (bt_get (gx_prefix ps) prefix)) (path_prefixes path))
     @ [gx_other ps]"

definition group_best ::
  "(string \<Rightarrow> (string \<times> string) list) \<Rightarrow> listener_index \<Rightarrow> gw_entry list \<Rightarrow> request_data \<Rightarrow> nat \<Rightarrow> nat option" where
  "group_best form_pairs l entries request host_id =
     fold (select_ids (compare_entries (li_predicates l) entries)
             (\<lambda>i. match_matches form_pairs (entries ! i) request (pr_headers (li_predicates l ! i))))
       (path_candidates (li_paths l ! host_id) (rd_path request)) None"

definition request_host :: "request_data \<Rightarrow> string" where
  "request_host request =
     (if list_ex is_ascii_uppercase (rd_host request) then to_ascii_lowercase (rd_host request) else rd_host request)"

definition listener_route ::
  "(string \<Rightarrow> (string \<times> string) list) \<Rightarrow> listener_index \<Rightarrow> gw_entry list \<Rightarrow> request_data \<Rightarrow> route option" where
  "listener_route form_pairs l entries request =
     (let host = request_host request in
      case entries of
        [e] \<Rightarrow>
          (if gateway_host_rank (en_hostname e) host \<noteq> None
              \<and> match_matches form_pairs e request (pr_headers (li_predicates l ! 0))
           then Some (en_route e) else None)
      | _ \<Rightarrow>
          map_option (\<lambda>i. en_route (entries ! i))
            (find_map (group_best form_pairs l entries request) (hosts_matching (li_hosts l) host)))"

definition gw_route ::
  "(string \<Rightarrow> (string \<times> string) list) \<Rightarrow> gw_index \<Rightarrow> listener_routes list \<Rightarrow> socket_addr \<Rightarrow> request_data \<Rightarrow> route option" where
  "gw_route form_pairs ix listeners address request =
     Option.bind (bt_get (gi_addresses ix) address) (\<lambda>hs.
     case hosts_matching hs (request_host request) of
       [] \<Rightarrow> None
     | i # _ \<Rightarrow> listener_route form_pairs (gi_listeners ix ! i) (lr_entries (listeners ! i)) request)"

text \<open>\<open>Routing::reindex\<close> and \<open>Routing::route\<close>.\<close>

record routing =
  ro_listeners :: "listener_routes list"
  ro_index :: gw_index

definition reindex :: "routing \<Rightarrow> routing" where
  "reindex r = r\<lparr>ro_index := gw_build (ro_listeners r)\<rparr>"

definition routing_route ::
  "(string \<Rightarrow> (string \<times> string) list) \<Rightarrow> routing \<Rightarrow> socket_addr \<Rightarrow> request_data \<Rightarrow> route option" where
  "routing_route form_pairs r address request = gw_route form_pairs (ro_index r) (ro_listeners r) address request"

section \<open>Reference\<close>

text \<open>\<open>best_by better xs\<close> is the last element of \<open>xs\<close> that no other is better than.\<close>

fun best_by :: "('a \<Rightarrow> 'a \<Rightarrow> bool) \<Rightarrow> 'a list \<Rightarrow> 'a option" where
  "best_by better [] = None"
| "best_by better (x # xs) =
     (case best_by better xs of None \<Rightarrow> Some x | Some y \<Rightarrow> Some (if better x y then x else y))"

text \<open>The listener of the address whose hostname is most specific for the host, the last one among equals.\<close>

definition rank_of :: "string \<Rightarrow> string \<Rightarrow> nat" where
  "rank_of host pattern = (case gateway_host_rank pattern host of None \<Rightarrow> 0 | Some n \<Rightarrow> n)"

definition ref_listener :: "listener_routes list \<Rightarrow> socket_addr \<Rightarrow> string \<Rightarrow> nat option" where
  "ref_listener listeners address host =
     best_by (\<lambda>i j. rank_of host (lr_hostname (listeners ! i)) > rank_of host (lr_hostname (listeners ! j)))
       (filter (\<lambda>i. lr_address (listeners ! i) = address \<and> host_matches (lr_hostname (listeners ! i)) host)
         [0..<length listeners])"

text \<open>An entry outranks another by the hostname, then the priority of its match, then the order of its resource.\<close>

definition outranks :: "string \<Rightarrow> gw_entry \<Rightarrow> gw_entry \<Rightarrow> bool" where
  "outranks host e f \<longleftrightarrow>
     (let ke = (rank_of host (en_hostname e), entry_priority e); kf = (rank_of host (en_hostname f), entry_priority f)
      in ke > kf \<or> ke = kf \<and> en_order e < en_order f)"

definition entry_matches :: "(string \<Rightarrow> (string \<times> string) list) \<Rightarrow> request_data \<Rightarrow> gw_entry \<Rightarrow> bool" where
  "entry_matches form_pairs request e \<longleftrightarrow>
     host_matches (en_hostname e) (request_host request)
     \<and> match_matches form_pairs e request (map (\<lambda>h. to_ascii_lowercase (nm_name h)) (mt_headers (en_matcher e)))"

definition ref_entry :: "(string \<Rightarrow> (string \<times> string) list) \<Rightarrow> gw_entry list \<Rightarrow> request_data \<Rightarrow> nat option" where
  "ref_entry form_pairs entries request =
     best_by (\<lambda>i j. outranks (request_host request) (entries ! i) (entries ! j))
       (filter (\<lambda>i. entry_matches form_pairs request (entries ! i)) [0..<length entries])"

definition ref_gw_route ::
  "(string \<Rightarrow> (string \<times> string) list) \<Rightarrow> listener_routes list \<Rightarrow> socket_addr \<Rightarrow> request_data \<Rightarrow> route option" where
  "ref_gw_route form_pairs listeners address request =
     Option.bind (ref_listener listeners address (request_host request)) (\<lambda>i.
     map_option (\<lambda>j. en_route (lr_entries (listeners ! i) ! j)) (ref_entry form_pairs (lr_entries (listeners ! i)) request))"

section \<open>Selection by a strict total order\<close>

text \<open>
  A comparison that says which of two identifiers is preferred, as \<open>ListenerIndex::compare\<close> promises it:
  a strict total order. Scanning lists in descending order with the early exit of \<open>select\<close> finds the
  most preferred identifier that passes the test.
\<close>

locale preference =
  fixes c :: "nat \<Rightarrow> nat \<Rightarrow> ordering"
  assumes irreflexive: "c i i \<noteq> Greater"
    and transitive: "c i j = Greater \<Longrightarrow> c j k = Greater \<Longrightarrow> c i k = Greater"
    and connected: "i \<noteq> j \<Longrightarrow> c i j = Greater \<or> c j i = Greater"
begin

definition best_of :: "(nat \<Rightarrow> bool) \<Rightarrow> nat set \<Rightarrow> nat option \<Rightarrow> bool" where
  "best_of ok A b =
     (case b of
        None \<Rightarrow> \<forall>j\<in>A. \<not> ok j
      | Some i \<Rightarrow> i \<in> A \<and> ok i \<and> (\<forall>j\<in>A. ok j \<longrightarrow> j \<noteq> i \<longrightarrow> c i j = Greater))"

lemma best_of_extend: "best_of ok A b \<Longrightarrow> A \<subseteq> B \<Longrightarrow> (\<And>i. i \<in> B \<Longrightarrow> ok i \<Longrightarrow> i \<in> A) \<Longrightarrow> best_of ok B b"
  by (cases b) (auto simp: best_of_def)

lemma insert_desc_sorted:
  "sorted_wrt (\<lambda>i j. c i j = Greater) js \<Longrightarrow> i \<notin> set js
     \<Longrightarrow> sorted_wrt (\<lambda>i j. c i j = Greater) (insert_desc c i js) \<and> set (insert_desc c i js) = insert i (set js)"
proof (induction js)
  case (Cons j js)
  then show ?case using connected [of i j] transitive [of i j] by auto
qed simp

lemma sort_desc_sorted:
  "distinct ids \<Longrightarrow> sorted_wrt (\<lambda>i j. c i j = Greater) (sort_desc c ids) \<and> set (sort_desc c ids) = set ids"
  unfolding sort_desc_def by (induction ids) (auto simp: insert_desc_sorted)

lemma select_ids_best:
  "sorted_wrt (\<lambda>i j. c i j = Greater) ids \<Longrightarrow> best_of ok A b \<Longrightarrow> best_of ok (A \<union> set ids) (select_ids c ok ids b)"
proof (induction ids arbitrary: A)
  case (Cons i ids)
  show ?case
  proof (cases "is_some_and b (\<lambda>previous. c i previous \<noteq> Greater)")
    case True
    then obtain p where p: "b = Some p" "c i p \<noteq> Greater" by (auto simp: is_some_and_iff)
    have "c p j = Greater" if "j \<in> set (i # ids)" "j \<noteq> p" for j
      using that p Cons.prems(1) connected [of i p] transitive [of p i j] by auto
    then show ?thesis using p Cons.prems(2) True by (auto simp: best_of_def)
  next
    case False
    show ?thesis
    proof (cases "ok i")
      case True
      have "c i j = Greater" if j: "j \<in> A \<union> set ids" "ok j" "j \<noteq> i" for j
      proof (cases "j \<in> set ids")
        case True
        then show ?thesis using Cons.prems(1) by simp
      next
        case out: False
        then obtain p where p: "b = Some p" "c i p = Greater" "j \<noteq> p \<longrightarrow> c p j = Greater"
          using j False Cons.prems(2) by (auto simp: best_of_def split: option.splits)
        then show ?thesis using transitive [of i p j] by (cases "j = p") auto
      qed
      then show ?thesis using True False by (auto simp: best_of_def)
    next
      case False
      then have "best_of ok (A \<union> {i}) b" using Cons.prems(2) by (auto simp: best_of_def split: option.splits)
      from Cons.IH [OF _ this] Cons.prems(1) False \<open>\<not> is_some_and b _\<close> show ?thesis by simp
    qed
  qed
qed simp

lemma fold_select_best:
  "\<forall>ids\<in>set xss. sorted_wrt (\<lambda>i j. c i j = Greater) ids \<Longrightarrow> best_of ok A b
     \<Longrightarrow> best_of ok (A \<union> \<Union> (set ` set xss)) (fold (select_ids c ok) xss b)"
proof (induction xss arbitrary: A b)
  case (Cons ids xss)
  from Cons.IH [OF _ select_ids_best [OF _ Cons.prems(2), of ids]] Cons.prems(1)
  show ?case by (simp add: Un_assoc)
qed simp

end

lemma cmp_Greater_iff: "cmp a b = Greater \<longleftrightarrow> b < a" and cmp_Equal_iff: "cmp a b = Equal \<longleftrightarrow> a = b"
  by (auto simp: cmp_def)

lemma compare_Greater_iff:
  "compare_entries preds entries i j = Greater \<longleftrightarrow>
     (let p = pr_priority (preds ! i); q = pr_priority (preds ! j); x = en_order (entries ! i); y = en_order (entries ! j)
      in q < p \<or> p = q \<and> (x < y \<or> x = y \<and> j < i))"
  by (auto simp: compare_entries_def then_with_def Let_def cmp_Greater_iff cmp_Equal_iff)

interpretation entry_order: preference "compare_entries preds entries" for preds entries
proof
  show "compare_entries preds entries i i \<noteq> Greater" for i by (simp add: compare_Greater_iff)
  show "compare_entries preds entries i k = Greater"
    if "compare_entries preds entries i j = Greater" "compare_entries preds entries j k = Greater" for i j k
    using that unfolding compare_Greater_iff Let_def by (elim disjE conjE) (simp_all add: less_trans)
  show "compare_entries preds entries i j = Greater \<or> compare_entries preds entries j i = Greater" if "i \<noteq> j" for i j
    using that linorder_less_linear [of i j]
      linorder_less_linear [of "pr_priority (preds ! i)" "pr_priority (preds ! j)"]
      linorder_less_linear [of "en_order (entries ! i)" "en_order (entries ! j)"]
    unfolding compare_Greater_iff Let_def by (elim disjE) simp_all
qed

section \<open>Hostname tables\<close>

definition wild :: "string \<Rightarrow> string" where
  "wild suffix = ''*.'' @ suffix"

lemma strip_prefix_wild [simp]: "strip_prefix ''*.'' (wild suffix) = Some suffix"
  by (simp add: wild_def)

lemma wild_simps [simp]: "wild suffix \<noteq> []" "wild s = wild t \<longleftrightarrow> s = t" "length (wild s) = length s + 2"
  by (simp_all add: wild_def)

lemma strip_prefix_wildD: "strip_prefix ''*.'' q = Some r \<Longrightarrow> q = wild r"
  by (simp add: wild_def)

lemmas wild_matches_iff = host_matches_iff [folded wild_def] and wild_rank_Some_iff = gateway_host_rank_Some_iff [folded wild_def]

text \<open>The patterns that match a host, most specific first.\<close>

definition host_patterns :: "string \<Rightarrow> string list" where
  "host_patterns host =
     (if host = [] then [] else [host])
     @ map (\<lambda>dot. wild (drop (dot + 1) host)) (filter (\<lambda>dot. 0 < dot) (match_indices host CHR ''.''))
     @ [[]]"

abbreviation hosts_table :: "(string \<times> nat) list \<Rightarrow> gw_hosts" where
  "hosts_table ps \<equiv> fold (\<lambda>(p, i). hosts_insert p i) ps no_hosts"

lemma hosts_insert_get:
  "bt_get (gh_exact (hosts_insert q i hs)) p = (if q \<noteq> [] \<and> p = q then Some i else bt_get (gh_exact hs) p)"
  "bt_get (gh_wildcard (hosts_insert q i hs)) suffix = (if q = wild suffix then Some i else bt_get (gh_wildcard hs) suffix)"
  "gh_fallback (hosts_insert q i hs) = (if q = [] then Some i else gh_fallback hs)"
proof -
  show "bt_get (gh_wildcard (hosts_insert q i hs)) suffix = (if q = wild suffix then Some i else bt_get (gh_wildcard hs) suffix)"
    by (cases "strip_prefix ''*.'' q")
      (auto simp: hosts_insert_def Let_def simp del: strip_prefix_Some_iff dest: strip_prefix_wildD)
qed (auto simp: hosts_insert_def Let_def split: option.split)

lemma hosts_table_get:
  "bt_get (gh_exact (hosts_table ps)) p = (if p = [] then None else map_of (rev ps) p)"
  "bt_get (gh_wildcard (hosts_table ps)) suffix = map_of (rev ps) (wild suffix)"
  "gh_fallback (hosts_table ps) = map_of (rev ps) []"
  by (induction ps rule: rev_induct) (auto simp: hosts_insert_get no_hosts_def)

lemma map_filter_append: "List.map_filter f (xs @ ys) = List.map_filter f xs @ List.map_filter f ys"
  by (simp add: List.map_filter_def)

lemma map_filter_filter_map:
  "List.map_filter (\<lambda>x. if P x then f (g x) else None) xs = List.map_filter f (map g (filter P xs))"
  by (induction xs) (auto split: option.split)

lemma hosts_matching_table:
  "hosts_matching (hosts_table ps) host = List.map_filter (map_of (rev ps)) (host_patterns host)"
proof -
  have opt: "opt_list (m p) = List.map_filter m [p]" for m :: "string \<Rightarrow> nat option" and p
    by (simp add: opt_list_def split: option.split)
  show ?thesis
    unfolding hosts_matching_def host_patterns_def hosts_table_get map_filter_append
    by (simp add: opt opt_list_def [of None] map_filter_filter_map [where f = "map_of (rev ps)" and g = "\<lambda>dot. wild (drop (dot + 1) host)"])
qed

definition hostname_ok :: "string \<Rightarrow> bool" where
  "hostname_ok h \<longleftrightarrow> h = [] \<or> valid_hostname h"

lemma hostname_ok_wildcard: "hostname_ok (wild suffix) \<Longrightarrow> suffix \<noteq> [] \<and> length suffix < usize_max"
proof -
  assume "hostname_ok (wild suffix)"
  then have "suffix \<noteq> []" "length suffix \<le> 253" unfolding hostname_ok_def valid_hostname_def Let_def by simp_all
  moreover have "253 < usize_max" by (simp add: usize_max_def)
  ultimately show ?thesis by linarith
qed

lemma drop_match_index:
  "dot \<in> set (match_indices host CHR ''.'') \<Longrightarrow> host = take dot host @ ''.'' @ drop (dot + 1) host"
  using id_take_nth_drop [of dot host] by (simp add: match_indices_iff)

lemma host_patterns_matches: "p \<in> set (host_patterns host) \<longleftrightarrow> host_matches p host"
proof -
  have "(\<exists>dot. dot \<in> set (match_indices host CHR ''.'') \<and> 0 < dot \<and> p = wild (drop (dot + 1) host))
      \<longleftrightarrow> (\<exists>suffix q. p = wild suffix \<and> q \<noteq> [] \<and> host = q @ ''.'' @ suffix)" (is "?l \<longleftrightarrow> ?r")
  proof
    assume ?l
    then obtain dot where dot: "dot \<in> set (match_indices host CHR ''.'')" "0 < dot" "p = wild (drop (dot + 1) host)" by blast
    then have "take dot host \<noteq> []" by (auto simp: match_indices_iff)
    with drop_match_index [OF dot(1)] dot(3) show ?r by blast
  next
    assume ?r
    then obtain suffix q where "p = wild suffix" "q \<noteq> []" "host = q @ ''.'' @ suffix" by blast
    then show ?l by (intro exI [of _ "length q"]) (auto simp: match_indices_iff)
  qed
  then show ?thesis by (auto simp: host_patterns_def wild_matches_iff)
qed

lemma rank_of_wildcard:
  "dot \<in> set (match_indices host CHR ''.'') \<Longrightarrow> 0 < dot \<Longrightarrow> wild (drop (dot + 1) host) \<noteq> host
     \<Longrightarrow> rank_of host (wild (drop (dot + 1) host)) = length host - (dot + 1)"
proof -
  assume *: "dot \<in> set (match_indices host CHR ''.'')" "0 < dot" "wild (drop (dot + 1) host) \<noteq> host"
  have "take dot host \<noteq> []" using * by (auto simp: match_indices_iff)
  with drop_match_index [OF *(1)]
  have "\<exists>suffix q. wild (drop (dot + 1) host) = wild suffix \<and> q \<noteq> [] \<and> host = q @ ''.'' @ suffix
      \<and> length (drop (dot + 1) host) = length suffix" by blast
  then have "gateway_host_rank (wild (drop (dot + 1) host)) host = Some (length (drop (dot + 1) host))"
    unfolding wild_rank_Some_iff using *(3) by simp
  then show ?thesis by (simp add: rank_of_def)
qed

lemma rank_of_simps [simp]: "rank_of host [] = 0" "host \<noteq> [] \<Longrightarrow> rank_of host host = usize_max"
  by (simp_all add: rank_of_def gateway_host_rank_def)

text \<open>Among well-formed patterns, the order of the list is the order of the ranks.\<close>

abbreviation more_specific :: "string \<Rightarrow> string \<Rightarrow> string \<Rightarrow> bool" where
  "more_specific host p q \<equiv> hostname_ok p \<and> hostname_ok q \<longrightarrow> p = q \<or> rank_of host q < rank_of host p"

lemma host_patterns_sorted: "sorted_wrt (more_specific host) (host_patterns host)"
proof -
  let ?w = "\<lambda>dot. wild (drop (dot + 1) host)"
  let ?dots = "filter (\<lambda>dot. 0 < dot) (match_indices host CHR ''.'')"
  have pos: "0 < rank_of host (?w d)" if "d \<in> set ?dots" "hostname_ok (?w d)" for d
  proof (cases "?w d = host")
    case True
    then have "host \<noteq> []" by auto
    then show ?thesis using True by (simp add: usize_max_def)
  next
    case False
    then show ?thesis using that hostname_ok_wildcard [of "drop (d + 1) host"] rank_of_wildcard [of d host] by simp
  qed
  have low: "rank_of host (?w d) < usize_max" if "d \<in> set ?dots" "hostname_ok (?w d)" "?w d \<noteq> host" for d
    using that hostname_ok_wildcard [of "drop (d + 1) host"] rank_of_wildcard [of d host] by simp
  have "sorted_wrt (\<lambda>d e. d < e) ?dots" by (simp add: match_indices_def sorted_wrt_filter)
  then have "sorted_wrt (\<lambda>d e. more_specific host (?w d) (?w e)) ?dots"
  proof (rule sorted_wrt_mono_rel [rotated])
    fix d e
    assume d: "d \<in> set ?dots" and e: "e \<in> set ?dots" and "d < e"
    have "?w e \<noteq> host"
    proof
      assume "?w e = host"
      then have "length host - (e + 1) + 2 = length host" by (metis length_drop wild_simps(3))
      moreover have "e < length host" using e by (simp add: match_indices_iff)
      ultimately have "e = 1" by linarith
      then show False using d \<open>d < e\<close> by simp
    qed
    moreover have "host \<noteq> []" using e by auto
    ultimately show "more_specific host (?w d) (?w e)"
      using d e \<open>d < e\<close> low [of e] rank_of_wildcard [of d host] rank_of_wildcard [of e host]
      by (cases "?w d = host") (auto simp: match_indices_iff)
  qed
  moreover have "host = ?w d \<or> rank_of host (?w d) < usize_max" if "d \<in> set ?dots" "hostname_ok (?w d)" for d
    using low [OF that] by metis
  ultimately show ?thesis
    using pos by (auto simp: host_patterns_def sorted_wrt_append sorted_wrt_map usize_max_def)
qed

lemma find_map_sorted:
  "sorted_wrt R xs \<Longrightarrow> find_map f xs = Some y
     \<Longrightarrow> \<exists>x\<in>set xs. f x = Some y \<and> (\<forall>z\<in>set xs. f z \<noteq> None \<longrightarrow> z = x \<or> R x z)"
  by (induction xs) (auto split: option.splits)

lemma find_map_patterns:
  assumes "find_map f (host_patterns host) = Some y" and "\<And>p. f p \<noteq> None \<Longrightarrow> hostname_ok p"
  shows "\<exists>p. f p = Some y \<and> host_matches p host
    \<and> (\<forall>q. f q \<noteq> None \<longrightarrow> host_matches q host \<longrightarrow> q = p \<or> rank_of host q < rank_of host p)"
proof -
  from find_map_sorted [OF host_patterns_sorted assms(1)] obtain p where p: "p \<in> set (host_patterns host)" "f p = Some y"
    "\<forall>z\<in>set (host_patterns host). f z \<noteq> None \<longrightarrow> z = p \<or> more_specific host p z" by blast
  then show ?thesis using assms(2) by (metis host_patterns_matches option.distinct(1))
qed

lemma hd_map_filter: "(case List.map_filter f xs of [] \<Rightarrow> None | y # _ \<Rightarrow> Some y) = find_map f xs"
  by (induction xs) (auto split: option.split)

lemma find_map_map_filter: "find_map g (List.map_filter f xs) = find_map (\<lambda>x. Option.bind (f x) g) xs"
  by (induction xs) (auto split: option.split)

lemma best_by_in: "best_by better xs = Some y \<Longrightarrow> y \<in> set xs"
  by (induction xs arbitrary: y) (auto split: option.splits if_splits)

lemma best_by_unique:
  assumes "i \<in> set xs" and "sorted_wrt (<) xs"
    and "\<And>j. j \<in> set xs \<Longrightarrow> j < i \<Longrightarrow> \<not> better j i" and "\<And>j. j \<in> set xs \<Longrightarrow> i < j \<Longrightarrow> better i j"
  shows "best_by better xs = Some (i :: nat)"
  using assms
proof (induction xs)
  case (Cons x xs)
  show ?case
  proof (cases "i = x")
    case True
    then show ?thesis using Cons.prems best_by_in [of better xs] by (auto split: option.split)
  next
    case False
    then have "best_by better xs = Some i" using Cons by auto
    moreover have "x < i" using False Cons.prems by auto
    ultimately show ?thesis using Cons.prems(3) by simp
  qed
qed simp

section \<open>What the index holds\<close>

definition listener_pairs :: "listener_routes list \<Rightarrow> socket_addr \<Rightarrow> (string \<times> nat) list" where
  "listener_pairs ls a = map (\<lambda>i. (lr_hostname (ls ! i), i)) (filter (\<lambda>i. lr_address (ls ! i) = a) [0..<length ls])"

lemma listener_pairs_snoc:
  "listener_pairs (ls @ [l]) a = listener_pairs ls a @ (if lr_address l = a then [(lr_hostname l, length ls)] else [])"
proof -
  have "filter (\<lambda>i. lr_address ((ls @ [l]) ! i) = a) [0..<length ls] = filter (\<lambda>i. lr_address (ls ! i) = a) [0..<length ls]"
    by (rule filter_cong) (auto simp: nth_append)
  then show ?thesis by (auto simp: listener_pairs_def nth_append)
qed

lemma gw_build_snoc: "gw_build (ls @ [l]) = add_listener (length ls, l) (gw_build ls)"
  by (simp add: gw_build_def enumerate_append_eq)

lemma gw_build_index:
  "(case bt_get (gi_addresses (gw_build ls)) a of None \<Rightarrow> no_hosts | Some hs \<Rightarrow> hs) = hosts_table (listener_pairs ls a)"
  "gi_listeners (gw_build ls) = map (\<lambda>l. listener_build (lr_entries l)) ls"
proof (induction ls rule: rev_induct)
  case (snoc l ls)
  {
    case 1
    show ?case using snoc(1) by (auto simp: gw_build_snoc add_listener_def Let_def listener_pairs_snoc)
  next
    case 2
    show ?case using snoc(2) by (simp add: gw_build_snoc add_listener_def Let_def)
  }
qed (simp_all add: gw_build_def listener_pairs_def)

lemma map_of_rev_upt:
  "map_of (rev (map (\<lambda>i. (f i, i)) (filter P [0..<n]))) p = Some i \<longleftrightarrow>
     i < n \<and> P i \<and> f i = p \<and> (\<forall>j<n. P j \<longrightarrow> f j = p \<longrightarrow> j \<le> i)"
proof (induction n)
  case (Suc n)
  then show ?case by (auto simp: less_Suc_eq)
qed simp

lemma map_of_rev_upt_None:
  "map_of (rev (map (\<lambda>i. (f i, i)) (filter P [0..<n]))) p = None \<longleftrightarrow> (\<forall>i<n. P i \<longrightarrow> f i \<noteq> p)"
  by (induction n) (auto simp: less_Suc_eq)

lemma index_listener:
  assumes "\<forall>l\<in>set ls. hostname_ok (lr_hostname l)"
  shows "find_map (map_of (rev (listener_pairs ls a))) (host_patterns host) = ref_listener ls a host"
proof -
  let ?m = "map_of (rev (listener_pairs ls a))"
  let ?cs = "filter (\<lambda>i. lr_address (ls ! i) = a \<and> host_matches (lr_hostname (ls ! i)) host) [0..<length ls]"
  note m = map_of_rev_upt [where f = "\<lambda>i. lr_hostname (ls ! i)" and P = "\<lambda>i. lr_address (ls ! i) = a" and n = "length ls",
      folded listener_pairs_def]
  have cand: "?m (lr_hostname (ls ! j)) \<noteq> None" if "j \<in> set ?cs" for j
    using that by (auto simp: listener_pairs_def map_of_rev_upt_None)
  have ok: "hostname_ok p" if "?m p \<noteq> None" for p
    using that assms by (auto simp: m)
  show ?thesis
  proof (cases "find_map ?m (host_patterns host)")
    case None
    then have "j \<notin> set ?cs" for j using cand [of j] by (auto simp: find_map_None_iff host_patterns_matches)
    then have "?cs = []" by (metis list.set_intros(1) neq_Nil_conv)
    then show ?thesis unfolding ref_listener_def None by (simp only: best_by.simps)
  next
    case (Some i)
    from find_map_patterns [OF this ok] obtain p where p: "?m p = Some i" "host_matches p host"
      and best: "\<And>q. ?m q \<noteq> None \<Longrightarrow> host_matches q host \<Longrightarrow> q = p \<or> rank_of host q < rank_of host p" by blast
    have i: "i \<in> set ?cs" "lr_hostname (ls ! i) = p" using p by (auto simp: m)
    have "best_by (\<lambda>i j. rank_of host (lr_hostname (ls ! i)) > rank_of host (lr_hostname (ls ! j))) ?cs = Some i"
    proof (rule best_by_unique [OF i(1)])
      fix j assume j: "j \<in> set ?cs"
      show "rank_of host (lr_hostname (ls ! i)) > rank_of host (lr_hostname (ls ! j))" if "i < j"
        using best [OF cand [OF j]] j i(2) p(1) that by (auto simp: m)
      show "\<not> rank_of host (lr_hostname (ls ! j)) > rank_of host (lr_hostname (ls ! i))" if "j < i"
        using best [OF cand [OF j]] j i(2) by auto
    qed (simp add: sorted_wrt_filter)
    then show ?thesis using Some by (simp add: ref_listener_def)
  qed
qed

text \<open>The groups of entries by hostname: each slot holds the entries of the group with that matcher, in order.\<close>

definition prefix_slot :: "path_match \<Rightarrow> string option" where
  "prefix_slot m =
     (case m of IngressPrefix p \<Rightarrow> (let q = trim_end_matches CHR ''/'' p in if q \<noteq> [] then Some q else None) | _ \<Rightarrow> None)"

definition is_other :: "path_match \<Rightarrow> bool" where
  "is_other m \<longleftrightarrow> prefix_slot m = None \<and> (\<forall>k. m \<noteq> Exact k)"

definition ids_where :: "(gw_entry \<Rightarrow> bool) \<Rightarrow> gw_entry list \<Rightarrow> nat list" where
  "ids_where P es = filter (\<lambda>i. P (es ! i)) [0..<length es]"

definition some_ids :: "nat list \<Rightarrow> nat list option" where
  "some_ids xs = (if xs = [] then None else Some xs)"

lemma ids_where_snoc: "ids_where P (es @ [e]) = ids_where P es @ (if P e then [length es] else [])"
proof -
  have "filter (\<lambda>i. P ((es @ [e]) ! i)) [0..<length es] = ids_where P es"
    unfolding ids_where_def by (rule filter_cong) (auto simp: nth_append)
  then show ?thesis by (simp add: ids_where_def [of P "es @ [e]"])
qed

lemma ids_where_set [simp]: "i \<in> set (ids_where P es) \<longleftrightarrow> i < length es \<and> P (es ! i)"
  by (auto simp: ids_where_def)

lemma ids_where_distinct [simp]: "distinct (ids_where P es)"
  by (simp add: ids_where_def)

lemma some_ids_snoc [simp]:
  "some_ids [] = None" "some_ids (xs @ [i]) = Some (xs @ [i])"
  "(case some_ids xs of None \<Rightarrow> [] | Some ys \<Rightarrow> ys) = xs"
  by (simp_all add: some_ids_def)

definition group_ok :: "gw_entry list \<Rightarrow> string \<Rightarrow> gw_paths \<Rightarrow> bool" where
  "group_ok es h ps \<longleftrightarrow>
     (\<forall>k. bt_get (gx_exact ps) k = some_ids (ids_where (\<lambda>e. en_hostname e = h \<and> route_matcher (en_route e) = Exact k) es))
     \<and> (\<forall>k. bt_get (gx_prefix ps) k = some_ids (ids_where (\<lambda>e. en_hostname e = h \<and> prefix_slot (route_matcher (en_route e)) = Some k) es))
     \<and> gx_other ps = ids_where (\<lambda>e. en_hostname e = h \<and> is_other (route_matcher (en_route e))) es"

lemma push_entry_get:
  "bt_get (gx_exact (push_entry m i ps)) k =
     (if m = Exact k then Some ((case bt_get (gx_exact ps) k of None \<Rightarrow> [] | Some xs \<Rightarrow> xs) @ [i]) else bt_get (gx_exact ps) k)"
  "bt_get (gx_prefix (push_entry m i ps)) k =
     (if prefix_slot m = Some k then Some ((case bt_get (gx_prefix ps) k of None \<Rightarrow> [] | Some xs \<Rightarrow> xs) @ [i])
      else bt_get (gx_prefix ps) k)"
  "gx_other (push_entry m i ps) = gx_other ps @ (if is_other m then [i] else [])"
  by (auto simp: push_entry_def bt_push_def prefix_slot_def is_other_def Let_def split: path_match.splits if_splits)

lemma group_ok_push:
  "group_ok es h ps \<Longrightarrow> en_hostname e = h \<Longrightarrow> group_ok (es @ [e]) h (push_entry (route_matcher (en_route e)) (length es) ps)"
  "group_ok es h ps \<Longrightarrow> en_hostname e \<noteq> h \<Longrightarrow> group_ok (es @ [e]) h ps"
  by (auto simp: group_ok_def push_entry_get ids_where_snoc)

definition entry_groups :: "gw_entry list \<Rightarrow> (string, gw_paths) btree" where
  "entry_groups es = fold add_entry (enumerate 0 es) []"

lemma entry_groups_snoc: "entry_groups (es @ [e]) = add_entry (length es, e) (entry_groups es)"
  by (simp add: entry_groups_def enumerate_append_eq)

lemma entry_groups_ok:
  "bt_sorted (entry_groups es)"
  "bt_get (entry_groups es) h = None \<longleftrightarrow> h \<notin> en_hostname ` set es"
  "group_ok es h (case bt_get (entry_groups es) h of None \<Rightarrow> no_paths | Some ps \<Rightarrow> ps)"
proof (induction es rule: rev_induct)
  case Nil
  {
    case 1 show ?case by (simp add: entry_groups_def)
  next
    case 2 show ?case by (simp add: entry_groups_def)
  next
    case 3 show ?case by (simp add: entry_groups_def group_ok_def no_paths_def ids_where_def)
  }
next
  case (snoc e es)
  {
    case 1 show ?case using snoc(1) by (simp add: entry_groups_snoc add_entry_def Let_def bt_sorted_insert)
  next
    case 2 show ?case using snoc(2) by (auto simp: entry_groups_snoc add_entry_def Let_def)
  next
    case 3 show ?case using snoc(3)
      by (auto simp: entry_groups_snoc add_entry_def Let_def intro: group_ok_push)
  }
qed

lemma nth_groups:
  assumes "i < length (entry_groups es)"
  shows "bt_get (entry_groups es) (bt_keys (entry_groups es) ! i) = Some (bt_values (entry_groups es) ! i)"
proof -
  have "distinct (map fst (entry_groups es))"
    using bt_sorted_distinct [OF entry_groups_ok(1)] by (simp add: bt_keys_def)
  then show ?thesis using assms by (simp add: bt_keys_def bt_values_def)
qed

lemma length_bt_keys [simp]: "length (bt_keys m) = length m"
  by (simp add: bt_keys_def)

lemma enumerate_upt: "enumerate 0 xs = map (\<lambda>i. (i, xs ! i)) [0..<length xs]"
  by (rule nth_equalityI) (simp_all add: nth_enumerate_eq)

lemma group_hosts:
  "li_hosts (listener_build es) = hosts_table (map (\<lambda>i. (bt_keys (entry_groups es) ! i, i)) [0..<length (entry_groups es)])"
  unfolding listener_build_def Let_def entry_groups_def [symmetric] enumerate_upt [of "bt_keys _"] fold_map comp_def
  by simp

definition group_index :: "gw_entry list \<Rightarrow> string \<Rightarrow> nat option" where
  "group_index es = map_of (rev (map (\<lambda>i. (bt_keys (entry_groups es) ! i, i)) [0..<length (entry_groups es)]))"

lemma group_index_Some:
  "group_index es h = Some i \<Longrightarrow> i < length (entry_groups es) \<and> bt_keys (entry_groups es) ! i = h"
  using map_of_rev_upt [where f = "\<lambda>i. bt_keys (entry_groups es) ! i" and P = "\<lambda>_. True"]
  by (simp add: group_index_def)

lemma group_index_None: "group_index es h = None \<longleftrightarrow> h \<notin> en_hostname ` set es"
proof -
  have "group_index es h = None \<longleftrightarrow> h \<notin> set (bt_keys (entry_groups es))"
    using map_of_rev_upt_None [where f = "\<lambda>i. bt_keys (entry_groups es) ! i" and P = "\<lambda>_. True" and n = "length (entry_groups es)"]
    by (auto simp: group_index_def in_set_conv_nth)
  then show ?thesis by (simp add: set_bt_keys dom_def entry_groups_ok(2))
qed

text \<open>The lists a path reaches are sorted, hold entries of the group only, and hold all that match the path.\<close>

lemma map_of_map_snd: "map_of (map (\<lambda>(k, v). (k, f v)) m) k = map_option f (map_of m k)"
  by (induction m) auto

lemma path_prefixes_iff:
  "k \<noteq> [] \<Longrightarrow> k \<in> set (path_prefixes path) \<longleftrightarrow> path = k \<or> (\<exists>r. path = k @ ''/'' @ r)"
proof -
  assume k: "k \<noteq> []"
  have "(\<exists>r. path = k @ ''/'' @ r) \<longleftrightarrow> (\<exists>i. i \<in> set (match_indices path CHR ''/'') \<and> 0 < i \<and> k = take i path)" (is "?l \<longleftrightarrow> ?r")
  proof
    assume ?l
    then show ?r using k by (auto simp: match_indices_iff intro!: exI [of _ "length k"])
  next
    assume ?r
    then obtain i where "i < length path" "path ! i = CHR ''/''" "k = take i path" by (auto simp: match_indices_iff)
    then show ?l using id_take_nth_drop [of i path] by (intro exI [of _ "drop (Suc i) path"]) simp
  qed
  then show ?thesis by (auto simp: path_prefixes_def)
qed

lemma path_matches_slot:
  "path_match_matches m path \<longleftrightarrow>
     (case m of Exact k \<Rightarrow> path = k | NginxPrefix p \<Rightarrow> starts_with path p | IngressDefault \<Rightarrow> True
      | IngressPrefix p \<Rightarrow> is_none_or (prefix_slot m) (\<lambda>k. k \<in> set (path_prefixes path)))"
proof (cases m)
  case (IngressPrefix p)
  let ?q = "trim_end_matches CHR ''/'' p"
  have "(case strip_prefix ?q path of None \<Rightarrow> False | Some s \<Rightarrow> starts_with s ''/'') \<longleftrightarrow> (\<exists>r. path = ?q @ ''/'' @ r)"
  proof (cases "strip_prefix ?q path")
    case None
    then have "path \<noteq> ?q @ r" for r by (metis strip_prefix_append option.distinct(1))
    then show ?thesis by (simp add: None)
  next
    case (Some r)
    then show ?thesis by (auto simp: starts_with_iff)
  qed
  then show ?thesis
    using path_prefixes_iff [of ?q path] by (auto simp: IngressPrefix prefix_slot_def Let_def)
qed simp_all

lemma in_opt_list [simp]: "x \<in> set (opt_list v) \<longleftrightarrow> v = Some x"
  by (cases v) (auto simp: opt_list_def)

lemma sort_paths_get:
  "bt_get (gx_exact (sort_paths c ps)) k = map_option (sort_desc c) (bt_get (gx_exact ps) k)"
  "bt_get (gx_prefix (sort_paths c ps)) k = map_option (sort_desc c) (bt_get (gx_prefix ps) k)"
  "gx_other (sort_paths c ps) = sort_desc c (gx_other ps)"
  by (simp_all add: sort_paths_def map_of_map_snd)

text \<open>The slots a path reaches.\<close>

definition slot_reached :: "string \<Rightarrow> path_match \<Rightarrow> bool" where
  "slot_reached path m \<longleftrightarrow> m = Exact path \<or> is_some_and (prefix_slot m) (\<lambda>k. k \<in> set (path_prefixes path)) \<or> is_other m"

lemma slot_reached_matches: "path_match_matches m path \<Longrightarrow> slot_reached path m"
  by (cases m) (auto simp: path_matches_slot slot_reached_def is_other_def prefix_slot_def Let_def split: if_splits)

lemma some_ids_Some: "some_ids xs = Some ys \<longleftrightarrow> xs = ys \<and> ys \<noteq> []"
  by (auto simp: some_ids_def)

lemma path_candidates_ids:
  assumes "group_ok es h ps" and "ids \<in> set (path_candidates (sort_paths c ps) path)"
  shows "\<exists>P. ids = sort_desc c (ids_where (\<lambda>e. en_hostname e = h \<and> P e) es)"
  using assms by (auto simp: path_candidates_def group_ok_def sort_paths_get some_ids_Some)

lemma path_candidates_reached:
  assumes "group_ok es h ps" and "i < length es" "en_hostname (es ! i) = h" "slot_reached path (route_matcher (en_route (es ! i)))"
  shows "\<exists>P. P (es ! i) \<and> sort_desc c (ids_where (\<lambda>e. en_hostname e = h \<and> P e) es) \<in> set (path_candidates (sort_paths c ps) path)"
proof -
  have some: "some_ids (ids_where (\<lambda>e. en_hostname e = h \<and> P e) es) = Some (ids_where (\<lambda>e. en_hostname e = h \<and> P e) es)"
    if "P (es ! i)" for P
    using assms(2,3) that by (auto simp: some_ids_Some intro!: list.set_sel(1) dest!: arg_cong [of _ _ set])
  let ?m = "\<lambda>e. route_matcher (en_route e)"
  from assms(4) consider "?m (es ! i) = Exact path"
    | k where "prefix_slot (?m (es ! i)) = Some k" "k \<in> set (path_prefixes path)" | "is_other (?m (es ! i))"
    by (auto simp: slot_reached_def is_some_and_iff)
  then show ?thesis
  proof cases
    case 1
    then show ?thesis using assms(1) some [of "\<lambda>e. ?m e = Exact path"]
      by (intro exI [of _ "\<lambda>e. ?m e = Exact path"]) (auto simp: path_candidates_def group_ok_def sort_paths_get)
  next
    case 2
    then show ?thesis using assms(1) some [of "\<lambda>e. prefix_slot (?m e) = Some k"]
      by (intro exI [of _ "\<lambda>e. prefix_slot (?m e) = Some k"])
        (auto simp: path_candidates_def group_ok_def sort_paths_get intro!: bexI [of _ k])
  next
    case 3
    then show ?thesis using assms(1)
      by (intro exI [of _ "\<lambda>e. is_other (?m e)"]) (auto simp: path_candidates_def group_ok_def sort_paths_get)
  qed
qed

text \<open>What a group contributes: its best matching entry.\<close>

definition entry_test :: "(string \<Rightarrow> (string \<times> string) list) \<Rightarrow> gw_entry list \<Rightarrow> request_data \<Rightarrow> nat \<Rightarrow> bool" where
  "entry_test form_pairs es request i =
     match_matches form_pairs (es ! i) request (pr_headers (map predicate_of es ! i))"

lemma group_best_of:
  assumes "group_index es h = Some g"
  shows "entry_order.best_of (map predicate_of es) es (entry_test form_pairs es request)
    {i. i < length es \<and> en_hostname (es ! i) = h} (group_best form_pairs (listener_build es) es request g)"
proof -
  let ?c = "compare_entries (map predicate_of es) es"
  let ?ok = "entry_test form_pairs es request"
  obtain ps where ps: "bt_get (entry_groups es) h = Some ps" "g < length (entry_groups es)" "bt_values (entry_groups es) ! g = ps"
    using group_index_Some [OF assms] nth_groups by auto
  have group: "group_ok es h ps" using entry_groups_ok(3) [of es h] ps(1) by simp
  let ?xss = "path_candidates (sort_paths ?c ps) (rd_path request)"
  have eq: "group_best form_pairs (listener_build es) es request g = fold (select_ids ?c ?ok) ?xss None"
    using ps(2,3)
    by (simp add: group_best_def listener_build_def Let_def entry_groups_def [symmetric] bt_values_def entry_test_def [abs_def])
  have "\<forall>ids\<in>set ?xss. sorted_wrt (\<lambda>i j. ?c i j = Greater) ids \<and> set ids \<subseteq> {i. i < length es \<and> en_hostname (es ! i) = h}"
  proof
    fix ids assume "ids \<in> set ?xss"
    then obtain P where "ids = sort_desc ?c (ids_where (\<lambda>e. en_hostname e = h \<and> P e) es)"
      using path_candidates_ids [OF group] by blast
    then show "sorted_wrt (\<lambda>i j. ?c i j = Greater) ids \<and> set ids \<subseteq> {i. i < length es \<and> en_hostname (es ! i) = h}"
      using entry_order.sort_desc_sorted [OF ids_where_distinct] by auto
  qed
  then have best: "entry_order.best_of (map predicate_of es) es ?ok (\<Union> (set ` set ?xss)) (fold (select_ids ?c ?ok) ?xss None)"
    and sub: "\<Union> (set ` set ?xss) \<subseteq> {i. i < length es \<and> en_hostname (es ! i) = h}"
    using entry_order.fold_select_best [of ?xss "map predicate_of es" es ?ok "{}" None]
    by (auto simp: entry_order.best_of_def)
  have all: "i \<in> \<Union> (set ` set ?xss)" if i: "i < length es" "en_hostname (es ! i) = h" "?ok i" for i
  proof -
    have "slot_reached (rd_path request) (route_matcher (en_route (es ! i)))"
      using i(3) slot_reached_matches by (auto simp: entry_test_def match_matches_def)
    from path_candidates_reached [OF group i(1,2) this, of ?c] obtain P where P: "P (es ! i)"
      "sort_desc ?c (ids_where (\<lambda>e. en_hostname e = h \<and> P e) es) \<in> set ?xss" by blast
    have "set (sort_desc ?c (ids_where (\<lambda>e. en_hostname e = h \<and> P e) es)) = set (ids_where (\<lambda>e. en_hostname e = h \<and> P e) es)"
      using entry_order.sort_desc_sorted [OF ids_where_distinct] by blast
    then have "i \<in> set (sort_desc ?c (ids_where (\<lambda>e. en_hostname e = h \<and> P e) es))" using i P(1) by simp
    then show ?thesis using P(2) by blast
  qed
  show ?thesis unfolding eq by (rule entry_order.best_of_extend [OF best sub]) (use all in auto)
qed

lemma entry_test_matches:
  "i < length es \<Longrightarrow> entry_matches form_pairs request (es ! i) \<longleftrightarrow>
     host_matches (en_hostname (es ! i)) (request_host request) \<and> entry_test form_pairs es request i"
  by (simp add: entry_matches_def entry_test_def predicate_of_def)

lemma compare_outranks:
  assumes "compare_entries (map predicate_of es) es i j = Greater" and "i < length es" and "j < length es"
    and "rank_of host (en_hostname (es ! i)) = rank_of host (en_hostname (es ! j))"
  shows "(i < j \<longrightarrow> outranks host (es ! i) (es ! j)) \<and> \<not> outranks host (es ! j) (es ! i)"
  using assms unfolding compare_Greater_iff Let_def outranks_def
  by (auto simp: predicate_of_def)

lemma index_entry:
  assumes "\<forall>e\<in>set es. hostname_ok (en_hostname e)"
  shows "find_map (group_best form_pairs (listener_build es) es request)
      (hosts_matching (li_hosts (listener_build es)) (request_host request)) = ref_entry form_pairs es request"
proof -
  let ?host = "request_host request" and ?c = "compare_entries (map predicate_of es) es"
  let ?f = "\<lambda>h. Option.bind (group_index es h) (group_best form_pairs (listener_build es) es request)"
  let ?cs = "filter (\<lambda>i. entry_matches form_pairs request (es ! i)) [0..<length es]"
  have eq: "find_map (group_best form_pairs (listener_build es) es request) (hosts_matching (li_hosts (listener_build es)) ?host)
      = find_map ?f (host_patterns ?host)"
    by (simp add: group_hosts hosts_matching_table group_index_def [symmetric] find_map_map_filter)
  have best: "entry_order.best_of (map predicate_of es) es (entry_test form_pairs es request)
      {i. i < length es \<and> en_hostname (es ! i) = h} (?f h)" for h
  proof (cases "group_index es h")
    case None
    then have "{i. i < length es \<and> en_hostname (es ! i) = h} = {}" by (auto simp: group_index_None)
    with None show ?thesis by (auto simp: entry_order.best_of_def)
  next
    case (Some g)
    then show ?thesis using group_best_of by simp
  qed
  have cand: "?f (en_hostname (es ! j)) \<noteq> None \<and> host_matches (en_hostname (es ! j)) ?host" if "j \<in> set ?cs" for j
    using that best [of "en_hostname (es ! j)"] by (auto simp: entry_test_matches entry_order.best_of_def split: option.splits)
  have ok: "hostname_ok h" if "?f h \<noteq> None" for h
    using that assms group_index_None [of es h] by (cases "group_index es h") auto
  show ?thesis
  proof (cases "find_map ?f (host_patterns ?host)")
    case None
    then have "j \<notin> set ?cs" for j using cand [of j] by (auto simp: find_map_None_iff host_patterns_matches)
    then have "?cs = []" by (metis list.set_intros(1) neq_Nil_conv)
    then show ?thesis unfolding ref_entry_def eq None by (simp only: best_by.simps)
  next
    case (Some i)
    from find_map_patterns [OF this ok] obtain h where h: "?f h = Some i" "host_matches h ?host"
      and first: "\<And>q. ?f q \<noteq> None \<Longrightarrow> host_matches q ?host \<Longrightarrow> q = h \<or> rank_of ?host q < rank_of ?host h" by blast
    from best [of h] h have i: "i < length es" "en_hostname (es ! i) = h" "entry_test form_pairs es request i"
      and greatest: "\<And>j. j < length es \<Longrightarrow> en_hostname (es ! j) = h \<Longrightarrow> entry_test form_pairs es request j \<Longrightarrow> j \<noteq> i
        \<Longrightarrow> ?c i j = Greater" by (auto simp: entry_order.best_of_def)
    have "best_by (\<lambda>i j. outranks ?host (es ! i) (es ! j)) ?cs = Some i"
    proof (rule best_by_unique)
      show "i \<in> set ?cs" using i h(2) by (simp add: entry_test_matches)
      fix j assume j: "j \<in> set ?cs"
      have "(i < j \<longrightarrow> outranks ?host (es ! i) (es ! j)) \<and> \<not> outranks ?host (es ! j) (es ! i)" if "j \<noteq> i"
      proof (cases "en_hostname (es ! j) = h")
        case True
        with j that have "?c i j = Greater" by (intro greatest) (auto simp: entry_test_matches)
        then show ?thesis using compare_outranks [of es i j ?host] i j True by auto
      next
        case False
        with first cand [OF j] have "rank_of ?host (en_hostname (es ! j)) < rank_of ?host h" by blast
        then show ?thesis using i(2) by (auto simp: outranks_def)
      qed
      then show "i < j \<Longrightarrow> outranks ?host (es ! i) (es ! j)" and "j < i \<Longrightarrow> \<not> outranks ?host (es ! j) (es ! i)" by auto
    qed (simp add: sorted_wrt_filter)
    then show ?thesis unfolding eq Some by (simp add: ref_entry_def)
  qed
qed

lemma single_entry:
  "ref_entry form_pairs [e] request = (if entry_matches form_pairs request e then Some 0 else None)"
  by (simp add: ref_entry_def)

lemma listener_route_ref:
  assumes "\<forall>e\<in>set es. hostname_ok (en_hostname e)"
  shows "listener_route form_pairs (listener_build es) es request =
    map_option (\<lambda>j. en_route (es ! j)) (ref_entry form_pairs es request)"
proof (cases "\<exists>e. es = [e]")
  case True
  then obtain e where "es = [e]" by blast
  then show ?thesis
    by (simp add: listener_route_def single_entry entry_matches_def host_matches_def listener_build_def predicate_of_def Let_def)
next
  case False
  then show ?thesis
    using index_entry [OF assms, of form_pairs request] by (auto simp: listener_route_def Let_def split: list.split)
qed

section \<open>Properties\<close>

text \<open>
  C35. The Gateway index answers every request as the reference does: the listener of the address whose
  hostname is most specific for the request's host (the last one among equals, without falling back to
  another), and in it the matching entry with the most specific hostname, then the highest priority,
  then the earliest resource. In particular no lookup reads an index out of range. Hostnames are as
  \<open>gateway/build.rs\<close> admits them, empty or valid.
\<close>

theorem gateway_route_equals_scan:
  assumes "\<forall>l\<in>set (ro_listeners r). hostname_ok (lr_hostname l) \<and> (\<forall>e\<in>set (lr_entries l). hostname_ok (en_hostname e))"
  shows "routing_route form_pairs (reindex r) address request = ref_gw_route form_pairs (ro_listeners r) address request"
proof -
  let ?ls = "ro_listeners r" and ?host = "request_host request"
  let ?m = "map_of (rev (listener_pairs ?ls address))"
  let ?serve = "\<lambda>i. listener_route form_pairs (gi_listeners (gw_build ?ls) ! i) (lr_entries (?ls ! i)) request"
  have table: "hosts_matching (case bt_get (gi_addresses (gw_build ?ls)) address of None \<Rightarrow> no_hosts | Some hs \<Rightarrow> hs) ?host
      = List.map_filter ?m (host_patterns ?host)"
    by (simp add: gw_build_index(1) hosts_matching_table)
  have first: "find_map ?m (host_patterns ?host) = ref_listener ?ls address ?host"
    by (rule index_listener) (use assms in auto)
  have "routing_route form_pairs (reindex r) address request
      = Option.bind (case List.map_filter ?m (host_patterns ?host) of [] \<Rightarrow> None | i # _ \<Rightarrow> Some i) ?serve"
  proof (cases "bt_get (gi_addresses (gw_build ?ls)) address")
    case None
    have "hosts_matching no_hosts ?host = []" by (simp add: hosts_matching_def no_hosts_def opt_list_def List.map_filter_def)
    then show ?thesis using table None by (simp add: routing_route_def reindex_def gw_route_def)
  next
    case (Some hs)
    then show ?thesis using table by (simp add: routing_route_def reindex_def gw_route_def split: list.split)
  qed
  also have "\<dots> = Option.bind (ref_listener ?ls address ?host) ?serve" by (simp only: hd_map_filter first)
  also have "\<dots> = ref_gw_route form_pairs ?ls address request"
  proof (cases "ref_listener ?ls address ?host")
    case (Some i)
    then have "i < length ?ls" by (auto simp: ref_listener_def dest!: best_by_in)
    moreover from this have "\<forall>e\<in>set (lr_entries (?ls ! i)). hostname_ok (en_hostname e)" using assms nth_mem by blast
    ultimately show ?thesis by (simp add: Some ref_gw_route_def gw_build_index(2) listener_route_ref)
  qed (simp add: ref_gw_route_def)
  finally show ?thesis .
qed

definition sample_entry :: "string \<Rightarrow> path_match \<Rightarrow> nat \<Rightarrow> gw_entry" where
  "sample_entry h m n =
     \<lparr>en_hostname = h, en_matcher = \<lparr>mt_path = None, mt_method = None, mt_headers = [], mt_query = []\<rparr>, en_grpc = False,
      en_order = (''a'', ''b'', ''c'', n, 0), en_route_id = [],
      en_route = \<lparr>route_id = to_decimal n, route_matcher = m, route_action = Static\<rparr>\<rparr>"

definition sample_routing :: routing where
  "sample_routing =
     \<lparr>ro_listeners =
        [\<lparr>lr_address = SockV4 0 80, lr_hostname = [], lr_entries = [sample_entry [] (IngressPrefix ''/'') 9]\<rparr>,
         \<lparr>lr_address = SockV4 0 80, lr_hostname = ''*.example.com'',
          lr_entries = [sample_entry ''*.example.com'' (Exact ''/a/b'') 1, sample_entry ''x.example.com'' (IngressPrefix ''/'') 2,
            sample_entry ''x.example.com'' (IngressPrefix ''/a/'') 3]\<rparr>],
      ro_index = \<lparr>gi_addresses = [], gi_listeners = []\<rparr>\<rparr>"

theorem gateway_route_equals_scan_witness:
  "map_option route_id (routing_route (\<lambda>_. []) (reindex sample_routing) (SockV4 0 80)
     (empty_request\<lparr>rd_host := ''X.example.com'', rd_path := ''/a/b''\<rparr>)) = Some ''3''"
proof -
  have ok: "\<forall>l\<in>set (ro_listeners sample_routing). hostname_ok (lr_hostname l) \<and> (\<forall>e\<in>set (lr_entries l). hostname_ok (en_hostname e))"
    by code_simp
  have "map_option route_id (ref_gw_route (\<lambda>_. []) (ro_listeners sample_routing) (SockV4 0 80)
         (empty_request\<lparr>rd_host := ''X.example.com'', rd_path := ''/a/b''\<rparr>)) = Some ''3''"
    by code_simp
  then show ?thesis by (simp add: gateway_route_equals_scan [OF ok])
qed

end
