(* ===== verification/Config_Syntax.thy ===== *)
theory Config_Syntax
  imports Result_State
begin

text \<open>
  The syntax of configuration files, \<open>src/src/config/syntax.rs\<close>: tokens, directives and includes.

  \<open>tokenize\<close> reads \<open>input.chars()\<close>, a character being the list of its UTF-8 bytes. \<open>parse\<close> takes the tokens from the
  current index on and returns those after it; its loops take fuel, three units per token, and
  \<open>cfg_parse_progress\<close> shows that this is enough. The file system is the record \<open>files\<close>: canonical paths, contents and
  the matches of a glob pattern.
\<close>

section \<open>Tokens\<close>

record cfg_token =
  ct_text :: string
  ct_punctuation :: bool
  ct_line :: nat
  ct_column :: nat

datatype directive =
  Directive (dr_name: string) (dr_args: "string list") (dr_children: "directive list option") (dr_source: string)

datatype cfg_error =
    IncludeDepth string | ConfigTooLong string | ConfigNotUtf8 | ReadFailed string
  | IncludePath string | IncludeNotFound string | GlobFailed string | NoParent
  | IncompleteEscape nat nat | UnterminatedString nat nat
  | BlockNesting string | UnexpectedBrace string nat nat | ExpectedDirective string | MissingEnd string
  | MissingSemicolon string | UnclosedBlock string
  | ParseFuel

definition cfg_newline :: string where "cfg_newline = [CHR 0x0A]"
definition backslash :: string where "backslash = [CHR 0x5C]"
definition quote_chars :: "string list" where "quote_chars = [[CHR 0x27], [CHR 0x22]]"
definition punctuation_chars :: "string list" where "punctuation_chars = [''{'', ''}'', '';'']"

definition cfg_unescape :: "string \<Rightarrow> string" where
  "cfg_unescape c =
     (if c = ''n'' then [CHR 0x0A] else if c = ''r'' then [CHR 0x0D] else if c = ''t'' then [CHR 0x09] else c)"

definition ends_word :: "string \<Rightarrow> bool" where
  "ends_word c \<longleftrightarrow> is_whitespace c \<or> c \<in> set punctuation_chars \<or> c = ''#''"

text \<open>The loop over a word: its text, the quote that is open, the characters after it, the line and the column.\<close>

fun cfg_word ::
  "string option \<Rightarrow> string list \<Rightarrow> string \<Rightarrow> nat \<Rightarrow> nat \<Rightarrow>
   (cfg_error, string \<times> string option \<times> string list \<times> nat \<times> nat) result" where
  "cfg_word q [] v line col = Inr (v, q, [], line, col)"
| "cfg_word q (c # cs) v line col =
     (if q = None \<and> ends_word c then Inr (v, q, c # cs, line, col)
      else if c = backslash then
        (case cs of
           [] \<Rightarrow> Inl (IncompleteEscape line (col + 1))
         | e # cs' \<Rightarrow> cfg_word q cs' (v @ cfg_unescape e) line (col + 2))
      else
        let closes = (q = Some c); opens = (q = None \<and> c \<in> set quote_chars) in
        cfg_word (if closes then None else if opens then Some c else q) cs (if closes \<or> opens then v else v @ c)
          (if c = cfg_newline then line + 1 else line) (if c = cfg_newline then 1 else col + 1))"

fun cfg_comment :: "string list \<Rightarrow> nat \<Rightarrow> string list \<times> nat" where
  "cfg_comment [] col = ([], col)"
| "cfg_comment (c # cs) col = (if c = cfg_newline then (c # cs, col) else cfg_comment cs (col + 1))"

lemma cfg_comment_length: "length (fst (cfg_comment cs col)) \<le> length cs"
  by (induction cs col rule: cfg_comment.induct) auto

lemma cfg_word_length: "cfg_word q cs v line col = Inr (v', q', cs', line', col') \<Longrightarrow> length cs' \<le> length cs"
  by (induction q cs v line col rule: cfg_word.induct)
    (auto simp: Let_def split: if_splits list.splits intro: le_SucI)

lemma cfg_word_progress:
  "cfg_word None (c # cs) v line col = Inr (v', q', cs', line', col') \<Longrightarrow> \<not> ends_word c \<Longrightarrow> length cs' < length (c # cs)"
  by (auto simp: Let_def less_Suc_eq_le dest!: cfg_word_length split: if_splits list.splits)

function cfg_tokens :: "string list \<Rightarrow> nat \<Rightarrow> nat \<Rightarrow> (cfg_error, cfg_token list) result" where
  "cfg_tokens [] line col = Inr []"
| "cfg_tokens (c # cs) line col =
     (if is_whitespace c then
        (if c = cfg_newline then cfg_tokens cs (line + 1) 1 else cfg_tokens cs line (col + 1))
      else if c = ''#'' then (let (cs', col') = cfg_comment cs (col + 1) in cfg_tokens cs' line col')
      else if c \<in> set punctuation_chars then
        bindR (cfg_tokens cs line (col + 1)) (\<lambda>ts.
        Inr (\<lparr>ct_text = c, ct_punctuation = True, ct_line = line, ct_column = col\<rparr> # ts))
      else
        bindR (cfg_word None (c # cs) [] line col) (\<lambda>(v, q, cs', line', col').
        bindR (ensure (q = None) (UnterminatedString line col)) (\<lambda>_.
        bindR (cfg_tokens cs' line' col') (\<lambda>ts.
        Inr (\<lparr>ct_text = v, ct_punctuation = False, ct_line = line, ct_column = col\<rparr> # ts)))))"
  by pat_completeness auto

termination
proof (relation "measure (\<lambda>(cs, _). length cs)", goal_cases)
  case (4 c cs line col x cs' col')
  then show ?case using cfg_comment_length [of cs "col + 1"] by (simp add: less_Suc_eq_le) (metis fst_conv)
next
  case (6 c cs line col v q cs' line' col')
  then show ?case
    using cfg_word_progress [of c cs "[]" line col] by (auto simp: ends_word_def simp del: cfg_word.simps)
qed auto

definition tokenize :: "string \<Rightarrow> (cfg_error, cfg_token list) result" where
  "tokenize input = cfg_tokens (chars input) 1 1"

section \<open>Directives\<close>

definition located :: "string \<Rightarrow> cfg_token \<Rightarrow> string" where
  "located path t = path @ '':'' @ to_decimal (ct_line t) @ '':'' @ to_decimal (ct_column t)"

text \<open>\<open>cfg_nodes\<close> is the loop over the directives of a block, \<open>cfg_node_args\<close> the loop over the arguments of one.\<close>

fun cfg_parse :: "nat \<Rightarrow> string \<Rightarrow> nat \<Rightarrow> cfg_token list \<Rightarrow> (cfg_error, directive list \<times> cfg_token list) result"
  and cfg_nodes :: "nat \<Rightarrow> string \<Rightarrow> nat \<Rightarrow> cfg_token list \<Rightarrow> (cfg_error, directive list \<times> cfg_token list) result"
  and cfg_node_args ::
    "nat \<Rightarrow> string \<Rightarrow> nat \<Rightarrow> string \<Rightarrow> cfg_token list \<Rightarrow>
     (cfg_error, string list \<times> directive list option \<times> cfg_token list) result" where
  "cfg_parse 0 path depth ts = Inl ParseFuel"
| "cfg_parse (Suc n) path depth ts =
     bindR (ensure (depth \<le> 32) (BlockNesting path)) (\<lambda>_. cfg_nodes n path depth ts)"
| "cfg_nodes 0 path depth ts = Inl ParseFuel"
| "cfg_nodes (Suc n) path depth [] = bindR (ensure (depth = 0) (UnclosedBlock path)) (\<lambda>_. Inr ([], []))"
| "cfg_nodes (Suc n) path depth (t # ts) =
     (if ct_punctuation t \<and> ct_text t = ''}'' then
        bindR (ensure (depth \<noteq> 0) (UnexpectedBrace path (ct_line t) (ct_column t))) (\<lambda>_. Inr ([], ts))
      else if ct_punctuation t then Inl (ExpectedDirective (located path t))
      else
        bindR (cfg_node_args n path depth (located path t) ts) (\<lambda>(args, children, ts').
        bindR (cfg_nodes n path depth ts') (\<lambda>(nodes, rest).
        Inr (Directive (ct_text t) args children (located path t) # nodes, rest))))"
| "cfg_node_args 0 path depth source ts = Inl ParseFuel"
| "cfg_node_args (Suc n) path depth source [] = Inl (MissingEnd source)"
| "cfg_node_args (Suc n) path depth source (t # ts) =
     (if ct_punctuation t then
        (if ct_text t = '';'' then Inr ([], None, ts)
         else if ct_text t = ''{'' then
           bindR (cfg_parse n path (depth + 1) ts) (\<lambda>(children, rest). Inr ([], Some children, rest))
         else Inl (MissingSemicolon source))
      else
        bindR (cfg_node_args n path depth source ts) (\<lambda>(args, children, rest).
        Inr (ct_text t # args, children, rest)))"

definition cfg_fuel :: "cfg_token list \<Rightarrow> nat" where
  "cfg_fuel ts = 3 * length ts + 3"

definition parse_config :: "string \<Rightarrow> cfg_token list \<Rightarrow> (cfg_error, directive list) result" where
  "parse_config path ts = bindR (cfg_parse (cfg_fuel ts) path 0 ts) (\<lambda>(nodes, _). Inr nodes)"

text \<open>Fuel is enough, and the tokens left are fewer than those taken.\<close>

lemma cfg_parse_progress:
  "3 * length ts + 3 \<le> n \<Longrightarrow> cfg_parse n path depth ts \<noteq> Inl ParseFuel
     \<and> (\<forall>nodes rest. cfg_parse n path depth ts = Inr (nodes, rest) \<longrightarrow> length rest \<le> length ts)"
  "3 * length ts + 2 \<le> n \<Longrightarrow> cfg_nodes n path depth ts \<noteq> Inl ParseFuel
     \<and> (\<forall>nodes rest. cfg_nodes n path depth ts = Inr (nodes, rest) \<longrightarrow> length rest \<le> length ts)"
  "3 * length ts + 1 \<le> n \<Longrightarrow> cfg_node_args n path depth source ts \<noteq> Inl ParseFuel
     \<and> (\<forall>args children rest. cfg_node_args n path depth source ts = Inr (args, children, rest) \<longrightarrow> length rest \<le> length ts)"
proof (induction n path depth ts and n path depth ts and n path depth source ts rule: cfg_parse_cfg_nodes_cfg_node_args.induct)
  case (5 n path depth t ts)
  show ?case
  proof (cases "ct_punctuation t")
    case False
    let ?args = "cfg_node_args n path depth (located path t) ts"
    have args: "?args \<noteq> Inl ParseFuel" "\<And>as ch rest. ?args = Inr (as, ch, rest) \<Longrightarrow> length rest \<le> length ts"
      using 5 False by auto
    have "cfg_nodes n path depth rest \<noteq> Inl ParseFuel
        \<and> (\<forall>nodes rest'. cfg_nodes n path depth rest = Inr (nodes, rest') \<longrightarrow> length rest' \<le> length rest)"
      if "?args = Inr (as, ch, rest)" for as ch rest
      using 5(2) [OF _ _ that refl refl] 5(3) False args(2) [OF that] by simp
    with args False show ?thesis by (fastforce simp: result_simps bindR_Inl_iff)
  qed (auto simp: result_simps bindR_Inl_iff ensure_def)
next
  case (8 n path depth source t ts)
  consider (args) "\<not> ct_punctuation t" | (brace) "ct_punctuation t" "ct_text t = ''{''" | (other) "ct_punctuation t" "ct_text t \<noteq> ''{''"
    by blast
  then show ?case
  proof cases
    case args
    then have "cfg_node_args n path depth source ts \<noteq> Inl ParseFuel
        \<and> (\<forall>as ch rest. cfg_node_args n path depth source ts = Inr (as, ch, rest) \<longrightarrow> length rest \<le> length ts)"
      using 8 by simp
    with args show ?thesis by (auto simp: result_simps bindR_Inl_iff intro: le_SucI)
  next
    case brace
    then have "cfg_parse n path (depth + 1) ts \<noteq> Inl ParseFuel
        \<and> (\<forall>nodes rest. cfg_parse n path (depth + 1) ts = Inr (nodes, rest) \<longrightarrow> length rest \<le> length ts)"
      using 8 by simp
    with brace show ?thesis by (auto simp: result_simps bindR_Inl_iff intro: le_SucI)
  qed auto
qed (auto simp: result_simps bindR_Inl_iff ensure_def)

section \<open>Files and includes\<close>

record files =
  fs_canonicalize :: "string \<Rightarrow> string option"
  fs_read :: "string \<Rightarrow> string option"
  fs_glob :: "string \<Rightarrow> string list option"

text \<open>\<open>Path::parent\<close> and \<open>Path::join\<close> of absolute paths without a trailing slash.\<close>

definition path_parent :: "string \<Rightarrow> string option" where
  "path_parent p =
     (if p = ''/'' then None
      else let d = rev (tl (dropWhile (\<lambda>c. c \<noteq> CHR ''/'') (rev p))) in Some (if d = [] then ''/'' else d))"

definition path_join :: "string \<Rightarrow> string \<Rightarrow> string" where
  "path_join base p =
     (if starts_with p ''/'' then p else if base = [] \<or> last base = CHR ''/'' then base @ p else base @ ''/'' @ p)"

text \<open>Paths are ordered by their components.\<close>

definition path_components :: "string \<Rightarrow> string list" where
  "path_components p = filter (\<lambda>s. s \<noteq> [] \<and> s \<noteq> ''.'') (split_on CHR ''/'' p)"

definition parse_file :: "files \<Rightarrow> string \<Rightarrow> (cfg_error, directive list) result" where
  "parse_file fs path =
     bindR (ok_or (fs_read fs path) (ReadFailed path)) (\<lambda>bytes.
     bindR (ensure (length bytes \<le> 4 * 1024 * 1024) (ConfigTooLong path)) (\<lambda>_.
     bindR (ok_or (from_utf8 bytes) ConfigNotUtf8) (\<lambda>input.
     bindR (tokenize input) (\<lambda>tokens.
     parse_config path tokens))))"

definition glob_free :: "string \<Rightarrow> bool" where
  "glob_free p \<longleftrightarrow> CHR ''*'' \<notin> set p \<and> CHR ''?'' \<notin> set p \<and> CHR ''['' \<notin> set p"

definition include_paths :: "files \<Rightarrow> string \<Rightarrow> directive \<Rightarrow> (cfg_error, string list) result" where
  "include_paths fs base node =
     bindR (ensure (dr_children node = None \<and> length (dr_args node) = 1) (IncludePath (dr_source node))) (\<lambda>_.
     bindR (ok_or (fs_glob fs (path_join base (hd (dr_args node)))) (GlobFailed (dr_source node))) (\<lambda>paths.
     bindR (ensure (paths \<noteq> [] \<or> \<not> glob_free (hd (dr_args node))) (IncludeNotFound (dr_source node))) (\<lambda>_.
     Inr (sort_key path_components paths))))"

lemma children_size: "dr_children node = Some children \<Longrightarrow> size_list size children < size node"
  by (cases node) auto

text \<open>
  \<open>load_inner\<close> with its stack of open files, \<open>load_all\<close> the loop over the matches of an include and \<open>expand\<close> the loop
  over directives. The stack never exceeds 32 files, which bounds the recursion.
\<close>

function load_inner :: "files \<Rightarrow> string \<Rightarrow> string list \<Rightarrow> (cfg_error, directive list) result"
  and load_all :: "files \<Rightarrow> string list \<Rightarrow> string list \<Rightarrow> (cfg_error, directive list) result"
  and expand :: "files \<Rightarrow> string \<Rightarrow> directive list \<Rightarrow> string list \<Rightarrow> (cfg_error, directive list) result" where
  "load_inner fs file stack =
     bindR (ok_or (fs_canonicalize fs file) (ReadFailed file)) (\<lambda>path.
     if path \<in> set stack \<or> 32 \<le> length stack then Inl (IncludeDepth path)
     else
       bindR (parse_file fs path) (\<lambda>nodes.
       bindR (ok_or (path_parent (hd (stack @ [path]))) NoParent) (\<lambda>prefix.
       expand fs prefix nodes (stack @ [path]))))"
| "load_all fs [] stack = Inr []"
| "load_all fs (p # ps) stack =
     bindR (load_inner fs p stack) (\<lambda>nodes. bindR (load_all fs ps stack) (\<lambda>rest. Inr (nodes @ rest)))"
| "expand fs base [] stack = Inr []"
| "expand fs base (node # nodes) stack =
     bindR
       (if dr_name node = ''include'' then
          bindR (include_paths fs base node) (\<lambda>paths. load_all fs paths stack)
        else
          (case dr_children node of
             None \<Rightarrow> Inr [node]
           | Some children \<Rightarrow>
               bindR (expand fs base children stack) (\<lambda>children'.
               Inr [Directive (dr_name node) (dr_args node) (Some children') (dr_source node)])))
       (\<lambda>out. bindR (expand fs base nodes stack) (\<lambda>rest. Inr (out @ rest)))"
  by pat_completeness auto

termination
  by (relation "measures
      [case_sum (\<lambda>(_, _, stack). 33 - length stack) (case_sum (\<lambda>(_, _, stack). 33 - length stack) (\<lambda>(_, _, _, stack). 33 - length stack)),
       case_sum (\<lambda>_. 0) (case_sum (\<lambda>_. 0) (\<lambda>(_, _, nodes, _). Suc (size_list size nodes))),
       case_sum (\<lambda>_. 0) (case_sum (\<lambda>(_, ps, _). Suc (length ps)) (\<lambda>_. 0))]")
    (auto dest: children_size)

definition load_config :: "files \<Rightarrow> string \<Rightarrow> (cfg_error, directive list) result" where
  "load_config fs path = load_inner fs path []"

section \<open>Printing\<close>

text \<open>
  A printer for directives, in characters: every word is quoted, with quotes and backslashes escaped, and a space
  follows every token.
\<close>

definition dquote :: string where "dquote = [CHR 0x22]"

definition show_char :: "string \<Rightarrow> string list" where
  "show_char c = (if c = dquote \<or> c = backslash then [backslash, c] else [c])"

definition show_word :: "string \<Rightarrow> string list" where
  "show_word w = dquote # concat (map show_char (chars w)) @ [dquote, '' '']"

fun show_directive :: "directive \<Rightarrow> string list" where
  "show_directive (Directive name args children source) =
     show_word name @ concat (map show_word args)
     @ (case children of
          None \<Rightarrow> ['';'', '' '']
        | Some ds \<Rightarrow> [''{'', '' ''] @ concat (map show_directive ds) @ [''}'', '' ''])"

definition show_config :: "directive list \<Rightarrow> string" where
  "show_config ds = concat (concat (map show_directive ds))"

fun strip_sources :: "directive \<Rightarrow> directive" where
  "strip_sources (Directive name args children source) = Directive name args (map_option (map strip_sources) children) []"

fun block_levels :: "directive \<Rightarrow> nat" where
  "block_levels (Directive name args children source) =
     (case children of None \<Rightarrow> 0 | Some ds \<Rightarrow> Suc (foldr max (map block_levels ds) 0))"

fun words_valid :: "directive \<Rightarrow> bool" where
  "words_valid (Directive name args children source) \<longleftrightarrow>
     utf8_valid name \<and> list_all utf8_valid args
     \<and> (case children of None \<Rightarrow> True | Some ds \<Rightarrow> list_all words_valid ds)"

section \<open>Reading what was printed\<close>

text \<open>The characters of a printed text are the printed characters.\<close>

definition one_char :: "string \<Rightarrow> bool" where
  "one_char x \<longleftrightarrow> x \<noteq> [] \<and> \<not> is_cont (hd x) \<and> list_all is_cont (tl x)"

lemma chars_parts:
  "chars s = d # ds \<Longrightarrow> d \<noteq> [] \<and> hd d = hd s \<and> list_all is_cont (tl d) \<and> list_all one_char ds"
proof (induction s arbitrary: d ds)
  case (Cons c s)
  show ?case
  proof (cases "chars s")
    case (Cons e es)
    note IH = Cons.IH [OF Cons]
    show ?thesis
    proof (cases "is_cont (hd e)")
      case True
      then show ?thesis using Cons.prems Cons IH by (cases e) auto
    next
      case False
      then show ?thesis using Cons.prems IH by (auto simp: Cons one_char_def)
    qed
  qed (use Cons.prems in auto)
qed simp

lemma chars_one_char:
  assumes "s = [] \<or> \<not> is_cont (hd s)"
  shows "list_all one_char (chars s)"
  using assms chars_parts [of s] by (cases "chars s") (auto simp: one_char_def)

lemma chars_Cons_append:
  assumes "one_char x" and s: "s = [] \<or> \<not> is_cont (hd s)"
  shows "chars (x @ s) = x # chars s"
proof -
  have first: "chars s = [] \<or> \<not> is_cont (hd (hd (chars s)))"
    using chars_parts [of s] s by (cases "chars s") auto
  have "chars (k @ s) = (if k = [] then chars s else k # chars s)" if "list_all is_cont k" for k
    using that
  proof (induction k)
    case (Cons c k)
    then show ?case using first by (cases k) (auto split: list.split)
  qed simp
  note tail = this
  obtain c k where x: "x = c # k" "\<not> is_cont c" "list_all is_cont k" using assms(1) by (cases x) (auto simp: one_char_def)
  then show ?thesis using tail [OF x(3)] first by (cases k) (auto split: list.split)
qed

lemma chars_of_chars: "list_all one_char xs \<Longrightarrow> chars (concat xs) = xs"
proof (induction xs)
  case (Cons x xs)
  have "concat xs = [] \<or> \<not> is_cont (hd (concat xs))"
    using Cons.prems by (cases xs) (auto simp: one_char_def)
  with Cons show ?case by (simp add: chars_Cons_append)
qed simp

lemma is_cont_byte: "is_cont c \<longleftrightarrow> 128 \<le> (of_char c :: nat) \<and> of_char c < (192 :: nat)"
  by (simp add: is_cont_def less_eq_char_def less_char_def)

lemma utf8_valid_first: "utf8_valid w \<Longrightarrow> w = [] \<or> \<not> is_cont (hd w)"
proof (cases w)
  case (Cons a s)
  have "\<not> utf8_valid (a # s)" if "is_cont a"
  proof -
    have "\<not> byte_in a 0 0x7F" "\<not> byte_in a 0xC2 0xDF" "\<not> byte_in a 0xE0 0xEF" "\<not> byte_in a 0xF0 0xF4"
      using that by (auto simp: byte_in_def is_cont_byte)
    then show ?thesis by (simp split: list.split)
  qed
  moreover assume "utf8_valid w"
  ultimately show ?thesis using Cons by auto
qed simp

lemma one_char_single [simp]: "one_char [c] \<longleftrightarrow> \<not> is_cont c"
  by (simp add: one_char_def)

lemma show_word_chars: "utf8_valid w \<Longrightarrow> list_all one_char (show_word w)"
proof -
  assume "utf8_valid w"
  then have "list_all one_char (chars w)" by (intro chars_one_char utf8_valid_first)
  then have "list_all one_char (concat (map show_char (chars w)))"
    by (auto simp: list_all_iff show_char_def backslash_def is_cont_def split: if_splits)
  then show ?thesis by (simp add: show_word_def is_cont_def dquote_def)
qed

lemma show_directive_chars: "words_valid d \<Longrightarrow> list_all one_char (show_directive d)"
proof (induction d)
  case (Directive name args children source)
  have "list_all one_char (concat (map show_word args))"
    using Directive.prems show_word_chars by (fastforce simp: list_all_iff)
  moreover have "list_all one_char (concat (map show_directive ds))" if "children = Some ds" for ds
    using Directive that by (fastforce simp: list_all_iff)
  ultimately show ?case
    using Directive.prems by (auto simp: show_word_chars is_cont_def split: option.split)
qed

lemma show_config_chars: "list_all words_valid ds \<Longrightarrow> chars (show_config ds) = concat (map show_directive ds)"
  unfolding show_config_def
  using show_directive_chars by (intro chars_of_chars) (fastforce simp: list_all_iff)

text \<open>The tokens of a printed directive, up to their positions.\<close>

abbreviation token_shape :: "cfg_token \<Rightarrow> string \<times> bool" where
  "token_shape t \<equiv> (ct_text t, ct_punctuation t)"

fun directive_shape :: "directive \<Rightarrow> (string \<times> bool) list" where
  "directive_shape (Directive name args children source) =
     (name, False) # map (\<lambda>a. (a, False)) args
     @ (case children of
          None \<Rightarrow> [('';'', True)]
        | Some ds \<Rightarrow> (''{'', True) # concat (map directive_shape ds) @ [(''}'', True)])"

definition lexes :: "string list \<Rightarrow> (string \<times> bool) list \<Rightarrow> bool" where
  "lexes cs shape \<longleftrightarrow> (\<forall>rest line col. \<exists>ts line' col'. map token_shape ts = shape
     \<and> cfg_tokens (cs @ rest) line col = bindR (cfg_tokens rest line' col') (\<lambda>us. Inr (ts @ us)))"

lemma lexes_Nil: "lexes [] []"
proof -
  have "r = bindR r (\<lambda>us. Inr ([] @ us))" for r :: "(cfg_error, cfg_token list) result" by (cases r) auto
  then show ?thesis unfolding lexes_def by (metis append_Nil list.simps(8))
qed

lemma lexes_append: "lexes cs sh \<Longrightarrow> lexes ds sh' \<Longrightarrow> lexes (cs @ ds) (sh @ sh')"
  unfolding lexes_def
proof (intro allI)
  fix rest line col
  assume "\<forall>rest line col. \<exists>ts line' col'. map token_shape ts = sh
      \<and> cfg_tokens (cs @ rest) line col = bindR (cfg_tokens rest line' col') (\<lambda>us. Inr (ts @ us))"
  then obtain ts l1 c1 where ts: "map token_shape ts = sh"
      "cfg_tokens (cs @ ds @ rest) line col = bindR (cfg_tokens (ds @ rest) l1 c1) (\<lambda>us. Inr (ts @ us))" by blast
  assume "\<forall>rest line col. \<exists>ts line' col'. map token_shape ts = sh'
      \<and> cfg_tokens (ds @ rest) line col = bindR (cfg_tokens rest line' col') (\<lambda>us. Inr (ts @ us))"
  then obtain us l2 c2 where us: "map token_shape us = sh'"
      "cfg_tokens (ds @ rest) l1 c1 = bindR (cfg_tokens rest l2 c2) (\<lambda>vs. Inr (us @ vs))" by blast
  show "\<exists>ts line' col'. map token_shape ts = sh @ sh'
      \<and> cfg_tokens ((cs @ ds) @ rest) line col = bindR (cfg_tokens rest line' col') (\<lambda>us. Inr (ts @ us))"
    by (intro exI [of _ "ts @ us"] exI [of _ l2] exI [of _ c2]) (simp add: ts us bindR_assoc)
qed

lemma cfg_word_quoted:
  "\<exists>line' col'. cfg_word (Some dquote) (concat (map show_char cs) @ dquote # rest) v line col = cfg_word None rest (v @ concat cs) line' col'"
proof (induction cs arbitrary: v line col)
  case Nil
  have "dquote \<noteq> backslash" by (simp add: dquote_def backslash_def)
  then show ?case by (auto simp: Let_def)
next
  case (Cons c cs)
  have plain: "cfg_unescape c = c" if "c = dquote \<or> c = backslash"
    using that by (auto simp: cfg_unescape_def dquote_def backslash_def)
  show ?case
  proof (cases "c = dquote \<or> c = backslash")
    case True
    then have "concat (map show_char (c # cs)) = backslash # c # concat (map show_char cs)" by (simp add: show_char_def)
    then show ?thesis using Cons.IH [of "v @ c" line "col + 2"] plain [OF True] by simp
  next
    case False
    then have "concat (map show_char (c # cs)) = c # concat (map show_char cs)" by (simp add: show_char_def)
    then show ?thesis using Cons.IH [of "v @ c"] False by (auto simp: Let_def)
  qed
qed

lemma lexes_word: "lexes (show_word w) [(w, False)]"
  unfolding lexes_def
proof (intro allI)
  fix rest line col
  let ?cs = "concat (map show_char (chars w)) @ [dquote, '' ''] @ rest"
  have dq: "\<not> is_whitespace dquote" "dquote \<noteq> ''#''" "dquote \<notin> set punctuation_chars" "dquote \<noteq> backslash"
      "dquote \<in> set quote_chars" "dquote \<noteq> cfg_newline"
    by (simp_all add: dquote_def is_whitespace_def whitespace_chars_def punctuation_chars_def backslash_def quote_chars_def cfg_newline_def)
  have sp: "is_whitespace '' ''" "'' '' \<noteq> cfg_newline"
    by (simp_all add: is_whitespace_def whitespace_chars_def cfg_newline_def)
  obtain l c where word: "cfg_word (Some dquote) ?cs [] line (col + 1) = cfg_word None ('' '' # rest) w l c"
    using cfg_word_quoted [of "chars w" "'' '' # rest" "[]" line "col + 1"] by auto
  have "cfg_word None (dquote # ?cs) [] line col = Inr (w, None, '' '' # rest, l, c)"
    using word dq sp by (simp add: Let_def ends_word_def)
  then have "cfg_tokens (show_word w @ rest) line col =
      bindR (cfg_tokens rest l (c + 1)) (\<lambda>us. Inr ([\<lparr>ct_text = w, ct_punctuation = False, ct_line = line, ct_column = col\<rparr>] @ us))"
    using dq sp by (simp add: show_word_def ensure_def del: cfg_word.simps)
  then show "\<exists>ts line' col'. map token_shape ts = [(w, False)]
      \<and> cfg_tokens (show_word w @ rest) line col = bindR (cfg_tokens rest line' col') (\<lambda>us. Inr (ts @ us))"
    by (intro exI [of _ "[\<lparr>ct_text = w, ct_punctuation = False, ct_line = line, ct_column = col\<rparr>]"] exI [of _ l] exI [of _ "c + 1"]) simp
qed

lemma lexes_punctuation:
  assumes "p \<in> set punctuation_chars"
  shows "lexes [p, '' ''] [(p, True)]"
  unfolding lexes_def
proof (intro allI)
  fix rest line col
  have p: "\<not> is_whitespace p" "p \<noteq> ''#''"
    using assms by (auto simp: is_whitespace_def whitespace_chars_def punctuation_chars_def)
  have sp: "is_whitespace '' ''" "'' '' \<noteq> cfg_newline"
    by (simp_all add: is_whitespace_def whitespace_chars_def cfg_newline_def)
  show "\<exists>ts line' col'. map token_shape ts = [(p, True)]
      \<and> cfg_tokens ([p, '' ''] @ rest) line col = bindR (cfg_tokens rest line' col') (\<lambda>us. Inr (ts @ us))"
    by (intro exI [of _ "[\<lparr>ct_text = p, ct_punctuation = True, ct_line = line, ct_column = col\<rparr>]"] exI [of _ line] exI [of _ "col + 2"])
      (use p sp assms in simp)
qed

lemma lexes_concat: "(\<And>x. x \<in> set xs \<Longrightarrow> lexes (f x) (g x)) \<Longrightarrow> lexes (concat (map f xs)) (concat (map g xs))"
  by (induction xs) (auto simp: lexes_Nil intro: lexes_append)

lemma lexes_directive: "lexes (show_directive d) (directive_shape d)"
proof (induction d)
  case (Directive name args children source)
  have args: "lexes (concat (map show_word args)) (map (\<lambda>a. (a, False)) args)"
    using lexes_concat [of args show_word "\<lambda>a. [(a, False)]"] lexes_word by simp
  have close: "lexes ['';'', '' ''] [('';'', True)]" "lexes [''{'', '' ''] [(''{'', True)]" "lexes [''}'', '' ''] [(''}'', True)]"
    by (rule lexes_punctuation, simp add: punctuation_chars_def)+
  show ?case
  proof (cases children)
    case None
    show ?thesis using lexes_append [OF lexes_append [OF lexes_word args] close(1)] by (simp add: None)
  next
    case (Some ds)
    have "lexes (concat (map show_directive ds)) (concat (map directive_shape ds))"
      by (rule lexes_concat) (use Directive Some in auto)
    from lexes_append [OF lexes_append [OF lexes_word args] lexes_append [OF close(2) lexes_append [OF this close(3)]]]
    show ?thesis by (simp add: Some)
  qed
qed

lemma tokenize_printed:
  assumes "list_all words_valid ds"
  obtains ts where "tokenize (show_config ds) = Inr ts" and "map token_shape ts = concat (map directive_shape ds)"
proof -
  have "lexes (concat (map show_directive ds)) (concat (map directive_shape ds))"
    by (rule lexes_concat) (rule lexes_directive)
  then obtain ts l c where "map token_shape ts = concat (map directive_shape ds)"
    "cfg_tokens (concat (map show_directive ds) @ []) 1 1 = bindR (cfg_tokens [] l c) (\<lambda>us. Inr (ts @ us))"
    unfolding lexes_def by blast
  then show ?thesis using that by (simp add: tokenize_def show_config_chars [OF assms])
qed

text \<open>More fuel changes nothing once there was enough.\<close>

lemma cfg_fuel_mono:
  "cfg_parse n path depth ts = r \<Longrightarrow> r \<noteq> Inl ParseFuel \<Longrightarrow> cfg_parse (n + k) path depth ts = r"
  "cfg_nodes n path depth ts = r \<Longrightarrow> r \<noteq> Inl ParseFuel \<Longrightarrow> cfg_nodes (n + k) path depth ts = r"
  "cfg_node_args n path depth source ts = u \<Longrightarrow> u \<noteq> Inl ParseFuel \<Longrightarrow> cfg_node_args (n + k) path depth source ts = u"
proof (induction n path depth ts and n path depth ts and n path depth source ts arbitrary: r and r and u
    rule: cfg_parse_cfg_nodes_cfg_node_args.induct)
  case (2 n path depth ts)
  then show ?case by (cases "depth \<le> 32") (auto simp: ensure_def)
next
  case (5 n path depth t ts)
  show ?case
  proof (cases "ct_punctuation t")
    case True
    then show ?thesis using 5 by (auto simp: ensure_def)
  next
    case False
    let ?args = "cfg_node_args n path depth (located path t) ts"
    show ?thesis
    proof (cases ?args)
      case (Inl e)
      then have "?args \<noteq> Inl ParseFuel" using 5(3,4) False by auto
      with 5(1) [of ?args] Inl 5(3) False show ?thesis by simp
    next
      case (Inr x)
      obtain as ch ts' where x: "x = (as, ch, ts')" by (metis prod.exhaust)
      have "cfg_node_args (n + k) path depth (located path t) ts = Inr x" using 5(1) [of ?args] False Inr by simp
      moreover have "cfg_nodes n path depth ts' \<noteq> Inl ParseFuel" using 5(3,4) False Inr x by auto
      ultimately show ?thesis using 5(2) [OF _ _ Inr, of as "(ch, ts')" ch ts'] 5(3) False Inr x by simp
    qed
  qed
next
  case (8 n path depth source t ts)
  consider (args) "\<not> ct_punctuation t" | (brace) "ct_punctuation t" "ct_text t = ''{''" | (other) "ct_punctuation t" "ct_text t \<noteq> ''{''"
    by blast
  then show ?case
  proof cases
    case args
    then have "cfg_node_args n path depth source ts \<noteq> Inl ParseFuel" using 8(3,4) by auto
    then show ?thesis using 8(2) [of "cfg_node_args n path depth source ts"] 8(3) args by simp
  next
    case brace
    then have "cfg_parse n path (depth + 1) ts \<noteq> Inl ParseFuel" using 8(3,4) by auto
    then show ?thesis using 8(1) [of "cfg_parse n path (depth + 1) ts"] 8(3) brace by simp
  next
    case other
    then show ?thesis using 8(3) by auto
  qed
qed auto

text \<open>Arguments up to the token that ends them, and a directive before others.\<close>

lemma read_args:
  assumes "map token_shape ts = map (\<lambda>a. (a, False)) args" and "cfg_node_args n path depth source end = Inr ([], children, rest)"
  shows "\<exists>m. cfg_node_args m path depth source (ts @ end) = Inr (args, children, rest)"
  using assms(1)
proof (induction args arbitrary: ts)
  case Nil
  then show ?case using assms(2) by auto
next
  case (Cons a args)
  then obtain t us where ts: "ts = t # us" "ct_text t = a" "\<not> ct_punctuation t" "map token_shape us = map (\<lambda>a. (a, False)) args"
    by (cases ts) auto
  from Cons.IH [OF ts(4)] obtain m where "cfg_node_args m path depth source (us @ end) = Inr (args, children, rest)" by blast
  then have "cfg_node_args (Suc m) path depth source (ts @ end) = Inr (a # args, children, rest)" by (simp add: ts)
  then show ?case by blast
qed

lemma cfg_nodes_rise: "cfg_nodes n path depth ts = Inr x \<Longrightarrow> n \<le> m \<Longrightarrow> cfg_nodes m path depth ts = Inr x"
  using cfg_fuel_mono(2) [of n path depth ts "Inr x" "m - n"] by simp

lemma cfg_node_args_rise:
  "cfg_node_args n path depth source ts = Inr x \<Longrightarrow> n \<le> m \<Longrightarrow> cfg_node_args m path depth source ts = Inr x"
  using cfg_fuel_mono(3) [of n path depth source ts "Inr x" "m - n"] by simp

definition reads :: "directive \<Rightarrow> bool" where
  "reads d \<longleftrightarrow> (\<forall>path depth ts tail es rest n.
     map token_shape ts = directive_shape d \<longrightarrow> depth + block_levels d \<le> 32 \<longrightarrow> cfg_nodes n path depth tail = Inr (es, rest) \<longrightarrow>
     (\<exists>m d'. strip_sources d' = strip_sources d \<and> cfg_nodes m path depth (ts @ tail) = Inr (d' # es, rest)))"

lemma reads_all:
  assumes "\<And>d. d \<in> set ds \<Longrightarrow> reads d" and "\<And>d. d \<in> set ds \<Longrightarrow> depth + block_levels d \<le> 32"
    and "map token_shape ts = concat (map directive_shape ds)" and "cfg_nodes n path depth tail = Inr (es, rest)"
  shows "\<exists>m ds'. map strip_sources ds' = map strip_sources ds \<and> cfg_nodes m path depth (ts @ tail) = Inr (ds' @ es, rest)"
  using assms
proof (induction ds arbitrary: ts)
  case Nil
  then show ?case by auto
next
  case (Cons d ds)
  from Cons.prems(3) obtain us vs where ts: "ts = us @ vs" "map token_shape us = directive_shape d"
      "map token_shape vs = concat (map directive_shape ds)"
    by (auto simp: map_eq_append_conv)
  from Cons.IH [OF _ _ ts(3)] Cons.prems obtain m ds' where
    ds': "map strip_sources ds' = map strip_sources ds" "cfg_nodes m path depth (vs @ tail) = Inr (ds' @ es, rest)"
    by auto
  have "reads d" "depth + block_levels d \<le> 32" using Cons.prems by auto
  with ts(2) ds'(2) obtain k d' where "strip_sources d' = strip_sources d" "cfg_nodes k path depth (us @ vs @ tail) = Inr (d' # ds' @ es, rest)"
    unfolding reads_def by blast
  then have "map strip_sources (d' # ds') = map strip_sources (d # ds) \<and> cfg_nodes k path depth (ts @ tail) = Inr ((d' # ds') @ es, rest)"
    by (simp add: ts ds')
  then show ?case by blast
qed

lemma foldr_max_le: "x \<in> set xs \<Longrightarrow> x \<le> foldr max xs (0 :: nat)"
  by (induction xs) auto

lemma reads_directive: "reads d"
proof (induction d)
  case (Directive name args children source)
  let ?d = "Directive name args children source"
  show ?case unfolding reads_def
  proof (intro allI impI)
    fix path depth ts tail es rest n
    assume shape: "map token_shape ts = directive_shape ?d" and levels: "depth + block_levels ?d \<le> 32"
      and tail: "cfg_nodes n path depth tail = Inr (es, rest)"
    from shape obtain t us vs where ts: "ts = t # us @ vs" "ct_text t = name" "\<not> ct_punctuation t"
        "map token_shape us = map (\<lambda>a. (a, False)) args"
        "map token_shape vs = (case children of None \<Rightarrow> [('';'', True)]
          | Some ds \<Rightarrow> (''{'', True) # concat (map directive_shape ds) @ [(''}'', True)])"
      by (auto simp: map_eq_append_conv Cons_eq_map_conv map_eq_Cons_conv)
    have "\<exists>m ch. map_option (map strip_sources) ch = map_option (map strip_sources) children
        \<and> cfg_node_args m path depth (located path t) (vs @ tail) = Inr ([], ch, tail)"
    proof (cases children)
      case None
      then obtain v where "vs = [v]" "ct_text v = '';''" "ct_punctuation v" using ts(5) by auto
      then have "cfg_node_args (Suc 0) path depth (located path t) (vs @ tail) = Inr ([], None, tail)" by simp
      then show ?thesis using None by blast
    next
      case (Some ds)
      from ts(5) obtain v ws w where vs: "vs = v # ws @ [w]" "ct_text v = ''{''" "ct_punctuation v" "ct_text w = ''}''" "ct_punctuation w"
          "map token_shape ws = concat (map directive_shape ds)"
        by (auto simp: Some map_eq_append_conv map_eq_Cons_conv)
      have inner: "depth + 1 + block_levels d \<le> 32" if "d \<in> set ds" for d
        using levels foldr_max_le [of "block_levels d" "map block_levels ds"] that by (simp add: Some)
      have "cfg_nodes (Suc 0) path (depth + 1) ([w] @ tail) = Inr ([], tail)" using vs by (simp add: ensure_def)
      from reads_all [OF _ inner vs(6) this] Directive Some obtain m ds' where
        ds': "map strip_sources ds' = map strip_sources ds" "cfg_nodes m path (depth + 1) (ws @ [w] @ tail) = Inr (ds', tail)"
        by auto
      have "cfg_node_args (Suc (Suc m)) path depth (located path t) (vs @ tail) = Inr ([], Some ds', tail)"
        using ds'(2) levels by (simp add: vs ensure_def Some)
      then show ?thesis using ds'(1) Some by (metis option.map(2))
    qed
    then obtain m ch where ch: "map_option (map strip_sources) ch = map_option (map strip_sources) children"
        "cfg_node_args m path depth (located path t) (vs @ tail) = Inr ([], ch, tail)" by blast
    from read_args [OF ts(4) ch(2)] obtain k where
      k: "cfg_node_args k path depth (located path t) (us @ vs @ tail) = Inr (args, ch, tail)" by blast
    have "cfg_nodes (Suc (max k n)) path depth (ts @ tail) = Inr (Directive name args ch (located path t) # es, rest)"
      using cfg_node_args_rise [OF k, of "max k n"] cfg_nodes_rise [OF tail, of "max k n"] by (simp add: ts)
    moreover have "strip_sources (Directive name args ch (located path t)) = strip_sources ?d" using ch(1) by simp
    ultimately show "\<exists>m d'. strip_sources d' = strip_sources ?d \<and> cfg_nodes m path depth (ts @ tail) = Inr (d' # es, rest)"
      by blast
  qed
qed

lemma parse_config_enough:
  assumes "cfg_nodes m path 0 ts = Inr (ds, [])"
  shows "parse_config path ts = Inr ds"
proof -
  let ?n = "cfg_fuel ts" and ?m = "Suc m"
  have m: "cfg_parse ?m path 0 ts = Inr (ds, [])" using assms by (simp add: ensure_def)
  have n: "cfg_parse ?n path 0 ts \<noteq> Inl ParseFuel" using cfg_parse_progress(1) [of ts ?n path 0] by (simp add: cfg_fuel_def)
  have "cfg_parse (?n + ?m) path 0 ts = cfg_parse ?n path 0 ts" by (rule cfg_fuel_mono(1) [OF refl n])
  moreover have "cfg_parse (?m + ?n) path 0 ts = Inr (ds, [])" by (rule cfg_fuel_mono(1) [OF m]) simp
  ultimately have "cfg_parse ?n path 0 ts = Inr (ds, [])" by (simp add: add.commute)
  then show ?thesis by (simp add: parse_config_def)
qed

text \<open>
  C40. What the printer writes, the parser reads: for directives whose words are valid UTF-8 and whose blocks are nested
  at most 32 deep, tokenizing and parsing the printed text succeeds and gives the same directives back, up to the
  positions recorded in them.
\<close>

theorem config_round_trip:
  assumes "list_all words_valid ds" and "list_all (\<lambda>d. block_levels d \<le> 32) ds"
  shows "\<exists>ts ds'. tokenize (show_config ds) = Inr ts \<and> parse_config path ts = Inr ds'
    \<and> map strip_sources ds' = map strip_sources ds"
proof -
  obtain ts where ts: "tokenize (show_config ds) = Inr ts" "map token_shape ts = concat (map directive_shape ds)"
    using tokenize_printed [OF assms(1)] .
  have "cfg_nodes (Suc 0) path 0 [] = Inr ([], [])" by (simp add: ensure_def)
  from reads_all [OF reads_directive _ ts(2) this] assms(2) obtain m ds' where
    "map strip_sources ds' = map strip_sources ds" "cfg_nodes m path 0 ts = Inr (ds', [])"
    by (auto simp: list_all_iff)
  with ts(1) parse_config_enough show ?thesis by blast
qed

theorem config_round_trip_witness:
  "list_all words_valid [Directive ''http'' [] (Some [Directive ''return'' [''200'', [CHR 0x22, CHR 0x5C]] None []]) []]
   \<and> (\<exists>ts ds'. tokenize (show_config [Directive ''http'' [] (Some [Directive ''return'' [''200'', [CHR 0x22, CHR 0x5C]] None []]) []]) = Inr ts
     \<and> parse_config ''/etc/rgnix.conf'' ts = Inr ds'
     \<and> map strip_sources ds' = [Directive ''http'' [] (Some [Directive ''return'' [''200'', [CHR 0x22, CHR 0x5C]] None []]) []])"
  (is "?valid \<and> _")
proof
  show valid: ?valid by code_simp
  show "\<exists>ts ds'. tokenize (show_config [Directive ''http'' [] (Some [Directive ''return'' [''200'', [CHR 0x22, CHR 0x5C]] None []]) []]) = Inr ts
     \<and> parse_config ''/etc/rgnix.conf'' ts = Inr ds'
     \<and> map strip_sources ds' = [Directive ''http'' [] (Some [Directive ''return'' [''200'', [CHR 0x22, CHR 0x5C]] None []]) []]"
    using config_round_trip [OF valid, of "''/etc/rgnix.conf''"] by simp
qed

end
