(* ===== verification/Client_Identity.thy ===== *)
theory Client_Identity
  imports Net_Addr Request_Data
begin

text \<open>
  Who a request comes from: \<open>src/src/identity.rs\<close> (trusted proxies, the forwarded chain, access rules) and
  \<open>src/src/proxy_protocol.rs\<close> (the PROXY protocol header before a connection's first byte).

  \<open>'n\<close> is the network type of the \<open>ipnet\<close> crate, with \<open>contains\<close> for \<open>IpNet::contains\<close>, \<open>net_parse\<close> for its \<open>FromStr\<close> and
  \<open>net_from\<close> for \<open>IpNet::from\<close>; \<open>to_str\<close> is \<open>HeaderValue::to_str\<close> and \<open>header_name_ok\<close> is
  \<open>HeaderName::from_bytes\<close> succeeding, of the \<open>http\<close> crate.
\<close>

section \<open>Policies\<close>

record 'n access_rule =
  ar_network :: "'n option"
  ar_allow :: bool

record 'n identity_policy =
  id_trusted :: "'n list"
  id_header :: string
  id_recursive :: bool
  id_access :: "'n access_rule list"

definition default_identity :: "'n identity_policy" where
  "default_identity = \<lparr>id_trusted = [], id_header = ''x-real-ip'', id_recursive = False, id_access = []\<rparr>"

datatype identity_error = TooManyRules | IdentityHeader | ProxyNeedsTrusted | NotANetwork string

definition trusts :: "('n \<Rightarrow> ip \<Rightarrow> bool) \<Rightarrow> 'n identity_policy \<Rightarrow> ip \<Rightarrow> bool" where
  "trusts contains p a \<longleftrightarrow> list_ex (\<lambda>net. contains net a) (id_trusted p)"

definition allows :: "('n \<Rightarrow> ip \<Rightarrow> bool) \<Rightarrow> 'n identity_policy \<Rightarrow> ip \<Rightarrow> bool" where
  "allows contains p a \<longleftrightarrow>
     is_none_or (find (\<lambda>r. is_none_or (ar_network r) (\<lambda>net. contains net a)) (id_access p)) ar_allow"

definition identity_validate :: "(string \<Rightarrow> bool) \<Rightarrow> 'n identity_policy \<Rightarrow> (identity_error, unit) result" where
  "identity_validate header_name_ok p =
     bindR (ensure (length (id_trusted p) \<le> 256 \<and> length (id_access p) \<le> 256) TooManyRules) (\<lambda>_.
     ensure (header_name_ok (id_header p)) IdentityHeader)"

record 'n forwarding =
  fw_trusted_proxy :: "'n list"
  fw_real_ip_header :: string
  fw_real_ip_recursive :: bool
  fw_proxy_protocol :: bool

definition forwarding_policy :: "(string \<Rightarrow> bool) \<Rightarrow> 'n forwarding \<Rightarrow> (identity_error, 'n identity_policy) result" where
  "forwarding_policy header_name_ok f =
     (let p = \<lparr>id_trusted = fw_trusted_proxy f, id_header = to_ascii_lowercase (fw_real_ip_header f),
               id_recursive = fw_real_ip_recursive f, id_access = []\<rparr> in
      bindR (identity_validate header_name_ok p) (\<lambda>_.
      bindR (ensure (\<not> fw_proxy_protocol f \<or> fw_trusted_proxy f \<noteq> []) ProxyNeedsTrusted) (\<lambda>_. Inr p)))"

definition parse_address :: "string \<Rightarrow> ip option" where
  "parse_address v =
     or_else (parse_ip_addr v)
       (or_else (map_option socket_addr_ip (parse_socket_addr v))
          (Option.bind (strip_prefix ''['' v) (\<lambda>w. Option.bind (strip_suffix '']'' w) parse_ip_addr)))"

definition network :: "(string \<Rightarrow> 'n option) \<Rightarrow> (ip \<Rightarrow> 'n) \<Rightarrow> string \<Rightarrow> (identity_error, 'n) result" where
  "network net_parse net_from v =
     ok_or (or_else (net_parse v) (map_option net_from (parse_ip_addr v))) (NotANetwork v)"

section \<open>The forwarded chain\<close>

text \<open>Where the loops of \<open>resolve\<close> return the peer early the chain is \<open>None\<close>.\<close>

definition forwarded_for :: "string \<Rightarrow> string option" where
  "forwarded_for hop =
     (case filter (\<lambda>(k, _). to_ascii_lowercase k = ''for'')
             (List.map_filter (\<lambda>p. split_once CHR ''='' (trim p)) (split_on CHR '';'' hop)) of
        [(_, v)] \<Rightarrow> Some (trim v)
      | _ \<Rightarrow> None)"

definition unquote :: "string \<Rightarrow> string" where
  "unquote v =
     (case Option.bind (strip_prefix [CHR 0x22] v) (strip_suffix [CHR 0x22]) of None \<Rightarrow> v | Some w \<Rightarrow> w)"

definition hop_address :: "string \<Rightarrow> string \<Rightarrow> ip option" where
  "hop_address header hop =
     Option.bind (if header = ''forwarded'' then forwarded_for hop else Some (trim hop)) (\<lambda>v. parse_address (unquote v))"

fun push_hops :: "string \<Rightarrow> string list \<Rightarrow> ip list \<Rightarrow> ip list option" where
  "push_hops header [] chain = Some chain"
| "push_hops header (hop # hops) chain =
     Option.bind (hop_address header hop) (\<lambda>a.
     if 64 < length (chain @ [a]) then None else push_hops header hops (chain @ [a]))"

fun push_values :: "(string \<Rightarrow> string option) \<Rightarrow> string \<Rightarrow> string list \<Rightarrow> nat \<Rightarrow> ip list \<Rightarrow> ip list option" where
  "push_values to_str header [] bytes chain = Some chain"
| "push_values to_str header (v # vs) bytes chain =
     (if 8192 < bytes + length v then None
      else
        Option.bind (to_str v) (\<lambda>s.
        Option.bind (push_hops header (split_on CHR '','' s) chain) (\<lambda>chain'.
        push_values to_str header vs (bytes + length v) chain')))"

fun walk_back :: "(ip \<Rightarrow> bool) \<Rightarrow> ip \<Rightarrow> ip list \<Rightarrow> ip" where
  "walk_back trusted selected [] = selected"
| "walk_back trusted selected (a # as) = (if \<not> trusted selected then selected else walk_back trusted a as)"

definition identity_resolve ::
  "('n \<Rightarrow> ip \<Rightarrow> bool) \<Rightarrow> (string \<Rightarrow> string option) \<Rightarrow> 'n identity_policy \<Rightarrow> ip \<Rightarrow> (string \<times> string) list \<Rightarrow> ip option \<Rightarrow> ip" where
  "identity_resolve contains to_str p peer headers proxy =
     (if \<not> trusts contains p peer then peer
      else if id_header p = ''proxy_protocol'' then (case proxy of None \<Rightarrow> peer | Some a \<Rightarrow> a)
      else
        case push_values to_str (id_header p) (get_all headers (id_header p)) 0 [] of
          None \<Rightarrow> peer
        | Some chain \<Rightarrow>
            if \<not> id_recursive p then (if chain = [] then peer else last chain)
            else walk_back (trusts contains p) peer (rev chain))"

definition identity_scheme ::
  "('n \<Rightarrow> ip \<Rightarrow> bool) \<Rightarrow> (string \<Rightarrow> string option) \<Rightarrow> 'n identity_policy \<Rightarrow> ip \<Rightarrow> (string \<times> string) list \<Rightarrow> bool \<Rightarrow> string" where
  "identity_scheme contains to_str p peer headers tls =
     (let own = (if tls then ''https'' else ''http'') in
      if trusts contains p peer then
        (case get_all headers ''x-forwarded-proto'' of
           [v] \<Rightarrow> (case to_str v of
                     Some s \<Rightarrow> if s = ''http'' \<or> s = ''https'' then s else own
                   | None \<Rightarrow> own)
         | _ \<Rightarrow> own)
      else own)"

section \<open>The PROXY protocol\<close>

datatype proxy_error = PpInvalid | PpEof | PpNoSocket | PpNoPeer | PpUntrusted | PpTimeout | PpHeader

definition read_exact :: "nat \<Rightarrow> string \<Rightarrow> (proxy_error, string \<times> string) result" where
  "read_exact n s = (if length s < n then Inl PpEof else Inr (take n s, drop n s))"

definition pp_signature :: string where
  "pp_signature = [CHR 0x0D, CHR 0x0A, CHR 0x0D, CHR 0x0A, CHR 0x00, CHR 0x0D, CHR 0x0A, CHR ''Q'', CHR ''U'', CHR ''I'', CHR ''T'', CHR 0x0A]"

definition crlf :: string where "crlf = [CHR 0x0D, CHR 0x0A]"

definition ip_of_bytes :: "string \<Rightarrow> ip" where
  "ip_of_bytes bs = (if length bs = 4 then IpV4 (of_nat (from_be_bytes bs)) else IpV6 (of_nat (from_be_bytes bs)))"

definition pp_address :: "nat \<Rightarrow> string \<Rightarrow> (proxy_error, socket_addr option) result" where
  "pp_address family payload =
     (if family = 0x11 \<and> 12 \<le> length payload then
        Inr (Some (socket_addr_new (ip_of_bytes (take 4 payload)) (of_nat (from_be_bytes (take 2 (drop 8 payload))))))
      else if family = 0x21 \<and> 36 \<le> length payload then
        Inr (Some (socket_addr_new (ip_of_bytes (take 16 payload)) (of_nat (from_be_bytes (take 2 (drop 32 payload))))))
      else if family = 0 then Inr None
      else Inl PpInvalid)"

definition pp_binary :: "string \<Rightarrow> (proxy_error, socket_addr option \<times> string) result" where
  "pp_binary s =
     bindR (read_exact 4 s) (\<lambda>(tail, s').
     let command = of_char (tail ! 0) :: nat; family = of_char (tail ! 1) :: nat; len = from_be_bytes (drop 2 tail) in
     if command div 16 \<noteq> 2 \<or> 512 < len then Inl PpInvalid
     else
       bindR (read_exact len s') (\<lambda>(payload, rest).
       if command mod 16 = 0 then Inr (None, rest)
       else if command mod 16 \<noteq> 1 then Inl PpInvalid
       else bindR (pp_address family payload) (\<lambda>a. Inr (a, rest))))"

fun pp_line :: "string \<Rightarrow> string \<Rightarrow> (proxy_error, string \<times> string) result" where
  "pp_line line [] = (if ends_with line crlf then Inr (line, []) else if 108 \<le> length line then Inl PpInvalid else Inl PpEof)"
| "pp_line line (b # bs) =
     (if ends_with line crlf then Inr (line, b # bs) else if 108 \<le> length line then Inl PpInvalid else pp_line (line @ [b]) bs)"

definition pp_fields :: "string list \<Rightarrow> (proxy_error, socket_addr option) result" where
  "pp_fields fs =
     (if slice_get fs 1 = Some ''UNKNOWN'' then Inr None
      else
        bindR (ensure (length fs = 6) PpInvalid) (\<lambda>_.
        bindR (ok_or (parse_ip_addr (fs ! 2)) PpInvalid) (\<lambda>src.
        bindR (ok_or (parse_ip_addr (fs ! 3)) PpInvalid) (\<lambda>destination.
        bindR (ok_or (parse_uint 16 (fs ! 4)) PpInvalid) (\<lambda>port.
        bindR (ok_or (parse_uint 16 (fs ! 5)) PpInvalid) (\<lambda>_.
        bindR (ensure (fs ! 1 = ''TCP4'' \<and> is_ipv4 src \<and> is_ipv4 destination
          \<or> fs ! 1 = ''TCP6'' \<and> \<not> is_ipv4 src \<and> \<not> is_ipv4 destination) PpInvalid) (\<lambda>_.
        Inr (Some (socket_addr_new src (of_nat port))))))))))"

definition pp_read :: "string \<Rightarrow> (proxy_error, socket_addr option \<times> string) result" where
  "pp_read s =
     bindR (read_exact 12 s) (\<lambda>(first, s').
     if first = pp_signature then pp_binary s'
     else if \<not> starts_with first ''PROXY '' then Inl PpInvalid
     else
       bindR (pp_line first s') (\<lambda>(line, rest).
       bindR (ok_or (from_utf8 (take (length line - 2) line)) PpInvalid) (\<lambda>txt.
       bindR (pp_fields (split_on CHR '' '' txt)) (\<lambda>a. Inr (a, rest)))))"

text \<open>
  \<open>process\<close>: \<open>socket\<close> is the socket digest with the peer's address in it, \<open>in_time\<close> says whether \<open>read\<close> ended within two
  seconds. The result is the address recorded and the bytes left for the next layer.
\<close>

definition pp_process ::
  "('n \<Rightarrow> ip \<Rightarrow> bool) \<Rightarrow> 'n list \<Rightarrow> socket_addr option option \<Rightarrow> bool \<Rightarrow> string \<Rightarrow>
   (proxy_error, socket_addr option \<times> string) result" where
  "pp_process contains trusted socket in_time s =
     bindR (ok_or socket PpNoSocket) (\<lambda>digest.
     bindR (ok_or digest PpNoPeer) (\<lambda>peer.
     if \<not> list_ex (\<lambda>net. contains net (socket_addr_ip peer)) trusted then Inl PpUntrusted
     else
       bindR (ensure in_time PpTimeout) (\<lambda>_.
       case pp_read s of Inl _ \<Rightarrow> Inl PpHeader | Inr x \<Rightarrow> Inr x)))"

section \<open>Lemmas\<close>

text \<open>Walking back from the peer stops at the first address that is not trusted, or at the far end.\<close>

lemma walk_back_find:
  "walk_back t a as = (case find (\<lambda>x. \<not> t x) (a # as) of Some u \<Rightarrow> u | None \<Rightarrow> last (a # as))"
  by (induction as arbitrary: a) (auto split: option.split)

lemma push_hops_append:
  "push_hops header hops chain = Some chain' \<Longrightarrow>
     \<exists>new. chain' = chain @ new \<and> (\<forall>other. length other \<le> length chain \<longrightarrow> push_hops header hops other = Some (other @ new))"
proof (induction hops arbitrary: chain chain')
  case (Cons hop hops)
  then obtain a where a: "hop_address header hop = Some a" "\<not> 64 < length (chain @ [a])"
    "push_hops header hops (chain @ [a]) = Some chain'"
    by (auto split: if_splits simp: bind_eq_Some_conv)
  from Cons.IH [OF this(3)] obtain new where new: "chain' = (chain @ [a]) @ new"
    "\<And>other. length other \<le> length (chain @ [a]) \<Longrightarrow> push_hops header hops other = Some (other @ new)" by blast
  have "push_hops header (hop # hops) other = Some (other @ a # new)" if "length other \<le> length chain" for other
    using a new(2) [of "other @ [a]"] that by auto
  with new(1) show ?case by (intro exI [of _ "a # new"]) auto
qed simp

lemma push_values_append:
  "push_values to_str header vs bytes chain = Some chain' \<Longrightarrow>
     \<exists>new. chain' = chain @ new \<and>
       (\<forall>other b. length other \<le> length chain \<longrightarrow> b \<le> bytes \<longrightarrow> push_values to_str header vs b other = Some (other @ new))"
proof (induction vs arbitrary: bytes chain chain')
  case (Cons v vs)
  then obtain s mid where s: "\<not> 8192 < bytes + length v" "to_str v = Some s"
    "push_hops header (split_on CHR '','' s) chain = Some mid" "push_values to_str header vs (bytes + length v) mid = Some chain'"
    by (auto split: if_splits simp: bind_eq_Some_conv)
  from push_hops_append [OF s(3)] obtain new1 where new1: "mid = chain @ new1"
    "\<And>other. length other \<le> length chain \<Longrightarrow> push_hops header (split_on CHR '','' s) other = Some (other @ new1)" by blast
  from Cons.IH [OF s(4)] obtain new2 where new2: "chain' = mid @ new2"
    "\<And>other b. length other \<le> length mid \<Longrightarrow> b \<le> bytes + length v \<Longrightarrow> push_values to_str header vs b other = Some (other @ new2)"
    by blast
  have "push_values to_str header (v # vs) b other = Some (other @ new1 @ new2)"
    if "length other \<le> length chain" "b \<le> bytes" for other b
    using s(1,2) new1 new2(2) [of "other @ new1" "b + length v"] that by auto
  with new1(1) new2(1) show ?case by (intro exI [of _ "new1 @ new2"]) auto
qed simp

lemma push_values_split:
  "push_values to_str header (us @ vs) bytes chain =
     Option.bind (push_values to_str header us bytes chain)
       (push_values to_str header vs (bytes + sum_list (map length us)))"
  by (induction us arbitrary: bytes chain) (simp_all add: add.assoc split: bind_split)

text \<open>The whole of \<open>resolve\<close> as one search from the peer outwards.\<close>

lemma identity_resolve_search:
  assumes "id_header p \<noteq> ''proxy_protocol''" and "id_recursive p"
    and "push_values to_str (id_header p) (get_all headers (id_header p)) 0 [] = Some chain"
  shows "identity_resolve contains to_str p peer headers proxy =
    (case find (\<lambda>a. \<not> trusts contains p a) (peer # rev chain) of Some u \<Rightarrow> u | None \<Rightarrow> last (peer # rev chain))"
  using assms by (simp add: identity_resolve_def walk_back_find)

lemma find_append: "find P (xs @ ys) = or_else (find P xs) (find P ys)"
  by (induction xs) (auto simp: or_else_def)

lemma get_all_append: "get_all (us @ vs) name = get_all us name @ get_all vs name"
  by (simp add: get_all_def)

text \<open>Values that parse on their own parse after others while both bounds hold, and give up when one does not.\<close>

lemma push_hops_bounded:
  "push_hops header hops pre = Some (pre @ new) \<Longrightarrow> length chain \<le> 64 \<Longrightarrow>
     push_hops header hops chain = (if length (chain @ new) \<le> 64 then Some (chain @ new) else None)"
proof (induction hops arbitrary: pre chain new)
  case (Cons hop hops)
  then obtain a where a: "hop_address header hop = Some a" "push_hops header hops (pre @ [a]) = Some (pre @ new)"
    by (auto split: if_splits simp: bind_eq_Some_conv)
  from push_hops_append [OF a(2)] obtain tl where new: "new = a # tl" by auto
  show ?case
  proof (cases "length (chain @ [a]) \<le> 64")
    case True
    from Cons.IH [OF _ True, of "pre @ [a]" tl] a new True show ?thesis by simp
  qed (use a new in auto)
qed simp

lemma push_values_bounded:
  "push_values to_str header vs bytes pre = Some (pre @ new) \<Longrightarrow> length chain \<le> 64 \<Longrightarrow> b \<le> 8192 \<Longrightarrow>
     push_values to_str header vs b chain =
       (if b + sum_list (map length vs) \<le> 8192 \<and> length (chain @ new) \<le> 64 then Some (chain @ new) else None)"
proof (induction vs arbitrary: bytes pre chain new b)
  case (Cons v vs)
  then obtain s mid where s: "to_str v = Some s" "push_hops header (split_on CHR '','' s) pre = Some mid"
    "push_values to_str header vs (bytes + length v) mid = Some (pre @ new)"
    by (auto split: if_splits simp: bind_eq_Some_conv)
  from push_hops_append [OF s(2)] obtain new1 where mid: "mid = pre @ new1" by blast
  from push_values_append [OF s(3)] obtain new2 where new: "new = new1 @ new2" by (auto simp: mid)
  have hops: "push_hops header (split_on CHR '','' s) chain = (if length (chain @ new1) \<le> 64 then Some (chain @ new1) else None)"
    using push_hops_bounded [OF s(2) [unfolded mid] Cons.prems(2)] .
  show ?case
  proof (cases "length (chain @ new1) \<le> 64 \<and> b + length v \<le> 8192")
    case True
    then have "length (chain @ new1) \<le> 64" "b + length v \<le> 8192" by simp_all
    from Cons.IH [OF _ this, of "bytes + length v" mid new2] s(1,3) hops True show ?thesis by (simp add: mid new)
  qed (use s(1) hops in \<open>auto simp: new\<close>)
qed simp

definition given_bytes :: "'n identity_policy \<Rightarrow> (string \<times> string) list \<Rightarrow> nat" where
  "given_bytes p headers = sum_list (map length (get_all headers (id_header p)))"

lemma given_chain:
  assumes "push_values to_str (id_header p) (get_all proxied (id_header p)) 0 [] = Some hops"
  shows "push_values to_str (id_header p) (get_all (sent @ proxied) (id_header p)) 0 [] =
    (case push_values to_str (id_header p) (get_all sent (id_header p)) 0 [] of
       Some front \<Rightarrow> if length (front @ hops) \<le> 64 \<and> given_bytes p (sent @ proxied) \<le> 8192 then Some (front @ hops) else None
     | None \<Rightarrow> None)"
proof (cases "push_values to_str (id_header p) (get_all sent (id_header p)) 0 []")
  case None
  then show ?thesis by (simp add: get_all_append push_values_split)
next
  case (Some front)
  have self: "push_values to_str header vs 0 [] = (if sum_list (map length vs) \<le> 8192 \<and> length new \<le> 64 then Some new else None)"
    if "push_values to_str header vs 0 [] = Some new" for header vs new
  proof -
    have "push_values to_str header vs 0 [] = Some ([] @ new)" using that by simp
    from push_values_bounded [OF this, of "[]" 0] show ?thesis by simp
  qed
  have front: "length front \<le> 64" "sum_list (map length (get_all sent (id_header p))) \<le> 8192"
    using self [OF Some] Some by (auto split: if_splits)
  show ?thesis
    using push_values_bounded [OF _ front, of to_str "id_header p" "get_all proxied (id_header p)" 0 "[]" hops] assms Some
    unfolding get_all_append push_values_split given_bytes_def by simp
qed

text \<open>
  C6. No client can claim another identity. A peer that is not a trusted proxy is taken for the client itself, with the
  scheme of its own connection, whatever header fields it sends. Behind trusted proxies, let the fields \<open>proxied\<close> that the
  proxies appended name the client: an address that is not trusted for the recursive search, any address for the other. Then the
  fields \<open>sent\<close> in front of them by the client cannot bring in an address of its choice. If they parse, and the whole chain keeps
  within 64 hops and 8192 bytes, the client is identified as without them; otherwise the whole chain is ignored and the peer is
  taken for the client.
\<close>

theorem client_identity_unspoofable:
  "(\<not> trusts contains p peer \<longrightarrow>
      identity_resolve contains to_str p peer sent proxy = peer
      \<and> identity_scheme contains to_str p peer sent tls = (if tls then ''https'' else ''http''))
   \<and> (id_header p \<noteq> ''proxy_protocol''
      \<and> push_values to_str (id_header p) (get_all proxied (id_header p)) 0 [] = Some hops
      \<and> (if id_recursive p then list_ex (\<lambda>a. \<not> trusts contains p a) hops else hops \<noteq> []) \<longrightarrow>
      identity_resolve contains to_str p peer (sent @ proxied) proxy =
        (case push_values to_str (id_header p) (get_all sent (id_header p)) 0 [] of
           Some front \<Rightarrow>
             if length (front @ hops) \<le> 64 \<and> given_bytes p (sent @ proxied) \<le> 8192
             then identity_resolve contains to_str p peer proxied proxy else peer
         | None \<Rightarrow> peer))"
proof (intro conjI impI)
  assume *: "id_header p \<noteq> ''proxy_protocol''
      \<and> push_values to_str (id_header p) (get_all proxied (id_header p)) 0 [] = Some hops
      \<and> (if id_recursive p then list_ex (\<lambda>a. \<not> trusts contains p a) hops else hops \<noteq> [])"
  let ?chain = "\<lambda>hs. push_values to_str (id_header p) (get_all hs (id_header p)) 0 []"
  have same: "identity_resolve contains to_str p peer (sent @ proxied) proxy = identity_resolve contains to_str p peer proxied proxy"
    if chain: "?chain (sent @ proxied) = Some (front @ hops)" for front
  proof (cases "id_recursive p")
    case True
    with * obtain u where "find (\<lambda>a. \<not> trusts contains p a) (peer # rev hops) = Some u"
      by (cases "find (\<lambda>a. \<not> trusts contains p a) (peer # rev hops)") (auto simp: find_None_iff list_ex_iff split: if_splits)
    then show ?thesis
      using identity_resolve_search [OF _ True chain] identity_resolve_search [OF _ True, of to_str proxied hops] *
        find_append [of "\<lambda>a. \<not> trusts contains p a" "peer # rev hops" "rev front"]
      by (simp add: or_else_def)
  qed (use * chain in \<open>simp add: identity_resolve_def\<close>)
  have ignored: "identity_resolve contains to_str p peer (sent @ proxied) proxy = peer" if "?chain (sent @ proxied) = None"
    using * that by (simp add: identity_resolve_def)
  show "identity_resolve contains to_str p peer (sent @ proxied) proxy =
      (case ?chain sent of
         Some front \<Rightarrow> if length (front @ hops) \<le> 64 \<and> given_bytes p (sent @ proxied) \<le> 8192
           then identity_resolve contains to_str p peer proxied proxy else peer
       | None \<Rightarrow> peer)"
    using given_chain [of to_str p proxied hops sent] * same ignored by (auto split: option.splits if_splits)
qed (auto simp: identity_resolve_def identity_scheme_def)

text \<open>A client that puts a loopback address in front is still known by its own; one that puts a malformed field there loses it.\<close>

definition behind_proxy :: "ip identity_policy" where
  "behind_proxy = \<lparr>id_trusted = [IpV4 0x0A000001], id_header = ''x-forwarded-for'', id_recursive = True, id_access = []\<rparr>"

theorem client_identity_unspoofable_witness:
  "identity_resolve (\<lambda>net a. a = net) Some behind_proxy (IpV4 0x0A000001)
     ([(''x-forwarded-for'', ''127.0.0.1'')] @ [(''x-forwarded-for'', ''9.9.9.9'')]) None = IpV4 0x09090909
   \<and> identity_resolve (\<lambda>net a. a = net) Some behind_proxy (IpV4 0x0A000001)
     ([(''x-forwarded-for'', ''me'')] @ [(''x-forwarded-for'', ''9.9.9.9'')]) None = IpV4 0x0A000001"
proof -
  have chains: "push_values Some (id_header behind_proxy) (get_all [(''x-forwarded-for'', ''9.9.9.9'')] (id_header behind_proxy)) 0 [] =
      Some [IpV4 0x09090909]"
    "push_values Some (id_header behind_proxy) (get_all [(''x-forwarded-for'', ''127.0.0.1'')] (id_header behind_proxy)) 0 [] =
      Some [IpV4 0x7F000001]"
    "push_values Some (id_header behind_proxy) (get_all [(''x-forwarded-for'', ''me'')] (id_header behind_proxy)) 0 [] = None"
    "given_bytes behind_proxy ([(''x-forwarded-for'', ''127.0.0.1'')] @ [(''x-forwarded-for'', ''9.9.9.9'')]) \<le> 8192"
    by code_simp+
  have named: "id_header behind_proxy \<noteq> ''proxy_protocol''" "id_recursive behind_proxy"
    "list_ex (\<lambda>a. \<not> trusts (\<lambda>net a. a = net) behind_proxy a) [IpV4 0x09090909]"
    "identity_resolve (\<lambda>net a. a = net) Some behind_proxy (IpV4 0x0A000001) [(''x-forwarded-for'', ''9.9.9.9'')] None = IpV4 0x09090909"
    using chains(1) by (simp_all add: identity_resolve_search behind_proxy_def trusts_def)
  note claim = client_identity_unspoofable [of "\<lambda>net a. a = net" behind_proxy "IpV4 0x0A000001" Some _ None False
      "[(''x-forwarded-for'', ''9.9.9.9'')]" "[IpV4 0x09090909]", THEN conjunct2, rule_format]
  show ?thesis
    using claim [of "[(''x-forwarded-for'', ''127.0.0.1'')]"] claim [of "[(''x-forwarded-for'', ''me'')]"] chains named by simp
qed

section \<open>Reading the headers of the PROXY protocol\<close>

text \<open>
  The two headers a proxy sends for a forwarded connection, after the protocol's specification: the text line of version
  1, with the addresses in any textual form, and the binary header of version 2 with its type-length-value fields.
\<close>

fun ip_bytes :: "ip \<Rightarrow> string" where
  "ip_bytes (IpV4 a) = to_be_bytes 4 (unat a)"
| "ip_bytes (IpV6 a) = to_be_bytes 16 (unat a)"

definition pp_text :: "string \<Rightarrow> string \<Rightarrow> string \<Rightarrow> 16 word \<Rightarrow> 16 word \<Rightarrow> string" where
  "pp_text family src dst sport dport =
     join '' '' [''PROXY'', family, src, dst, to_decimal (unat sport), to_decimal (unat dport)] @ crlf"

definition pp_v2 :: "ip \<Rightarrow> ip \<Rightarrow> 16 word \<Rightarrow> 16 word \<Rightarrow> string \<Rightarrow> string" where
  "pp_v2 src dst sport dport tlv =
     (let payload = ip_bytes src @ ip_bytes dst @ to_be_bytes 2 (unat sport) @ to_be_bytes 2 (unat dport) @ tlv
      in pp_signature @ [CHR 0x21, if is_ipv4 src then CHR 0x11 else CHR 0x21] @ to_be_bytes 2 (length payload) @ payload)"

lemma ip_of_bytes_bytes: "ip_of_bytes (ip_bytes a) = a"
proof (cases a)
  case (IpV4 w)
  have "unat w < 256 ^ 4" using unsigned_less [of w, where ?'a = nat] by simp
  then show ?thesis by (simp add: IpV4 ip_of_bytes_def from_be_bytes_to_be_bytes)
next
  case (IpV6 w)
  have "unat w < 256 ^ 16" using unsigned_less [of w, where ?'a = nat] by simp
  then show ?thesis by (simp add: IpV6 ip_of_bytes_def from_be_bytes_to_be_bytes)
qed

lemma ip_bytes_length: "length (ip_bytes a) = (if is_ipv4 a then 4 else 16)"
  by (cases a) simp_all

lemma port_of_bytes: "of_nat (from_be_bytes (to_be_bytes 2 (unat (p :: 16 word)))) = p"
  using unsigned_less [of p, where ?'a = nat] by (simp add: from_be_bytes_to_be_bytes)

lemma pp_binary_reads:
  assumes "length payload \<le> 512"
  shows "pp_binary ([CHR 0x21, f] @ to_be_bytes 2 (length payload) @ payload @ rest) =
    bindR (pp_address (of_char f) payload) (\<lambda>a. Inr (a, rest))"
proof -
  let ?tail = "[CHR 0x21, f] @ to_be_bytes 2 (length payload)"
  have "read_exact 4 (?tail @ payload @ rest) = Inr (?tail, payload @ rest)"
    and "read_exact (length payload) (payload @ rest) = Inr (payload, rest)"
    by (simp_all add: read_exact_def)
  moreover have "from_be_bytes (to_be_bytes 2 (length payload)) = length payload"
    using assms by (intro from_be_bytes_to_be_bytes) simp
  ultimately show ?thesis using assms by (simp add: pp_binary_def Let_def)
qed

lemma pp_read_v2:
  assumes "is_ipv4 dst = is_ipv4 src" and "length tlv + (if is_ipv4 src then 12 else 36) \<le> 512"
  shows "pp_read (pp_v2 src dst sport dport tlv @ rest) = Inr (Some (socket_addr_new src sport), rest)"
proof -
  define payload where "payload = ip_bytes src @ ip_bytes dst @ to_be_bytes 2 (unat sport) @ to_be_bytes 2 (unat dport) @ tlv"
  let ?f = "if is_ipv4 src then CHR 0x11 else CHR 0x21"
  have len: "length payload = length tlv + (if is_ipv4 src then 12 else 36)"
    using assms(1) by (simp add: payload_def ip_bytes_length)
  have parts: "take 4 payload = ip_bytes src" "take 2 (drop 8 payload) = to_be_bytes 2 (unat sport)" if "is_ipv4 src"
    using assms(1) that by (simp_all add: payload_def ip_bytes_length)
  have parts': "take 16 payload = ip_bytes src" "take 2 (drop 32 payload) = to_be_bytes 2 (unat sport)" if "\<not> is_ipv4 src"
    using assms(1) that by (simp_all add: payload_def ip_bytes_length)
  have "pp_address (of_char ?f) payload = Inr (Some (socket_addr_new src sport))"
    using len parts parts' by (cases "is_ipv4 src") (simp_all add: pp_address_def ip_of_bytes_bytes port_of_bytes)
  then have "pp_binary ([CHR 0x21, ?f] @ to_be_bytes 2 (length payload) @ payload @ rest) = Inr (Some (socket_addr_new src sport), rest)"
    using pp_binary_reads [of payload ?f rest] len assms(2) by simp
  moreover have "read_exact 12 (pp_v2 src dst sport dport tlv @ rest) =
      Inr (pp_signature, [CHR 0x21, ?f] @ to_be_bytes 2 (length payload) @ payload @ rest)"
    by (simp add: read_exact_def pp_v2_def pp_signature_def Let_def payload_def)
  ultimately show ?thesis by (simp only: pp_read_def bindR_simps prod.case simp_thms if_True)
qed

lemma ascii_utf8: "list_all (\<lambda>c. of_char c < (128 :: nat)) s \<Longrightarrow> utf8_valid s"
  by (induction s) (auto simp: byte_in_def)

lemma ends_with_iff: "ends_with s p \<longleftrightarrow> (\<exists>r. s = r @ p)"
  by (simp add: ends_with_def starts_with_iff) (metis rev_append rev_rev_ident)

lemma pp_line_reads:
  assumes "CHR 0x0D \<notin> set (l @ m)" and "length (l @ m) \<le> 106"
  shows "pp_line l (m @ crlf @ rest) = Inr (l @ m @ crlf, rest)"
  using assms
proof (induction m arbitrary: l)
  case Nil
  have no: "\<not> ends_with l crlf" "\<not> ends_with (l @ [CHR 0x0D]) crlf"
    using Nil by (auto simp: ends_with_iff crlf_def)
  have yes: "ends_with (l @ crlf) crlf" by (auto simp: ends_with_iff)
  have "pp_line (l @ crlf) rest = Inr (l @ crlf, rest)" using yes by (cases rest) auto
  with no show ?case using Nil by (simp add: crlf_def)
next
  case (Cons b m)
  have "\<not> ends_with l crlf" using Cons.prems by (auto simp: ends_with_iff crlf_def)
  then show ?case using Cons by simp
qed

lemma digit_plain: "is_ascii_digit c \<Longrightarrow> address_char c"
  by (simp add: address_char_def is_ascii_alphanumeric_def)

lemma address_char_plain: "address_char c \<Longrightarrow> of_char c < (128 :: nat) \<and> c \<noteq> CHR '' '' \<and> c \<noteq> CHR 0x0D"
  by (auto simp: address_char_def is_ascii_alphanumeric_def is_ascii_alphabetic_def is_ascii_digit_def is_ascii_lowercase_def
      is_ascii_uppercase_def less_eq_char_def)

lemma pp_fields_reads:
  fixes sport dport :: "16 word"
  assumes "parse_ip_addr st = Some src" and "parse_ip_addr dt = Some dst" and "is_ipv4 dst = is_ipv4 src"
  shows "pp_fields [''PROXY'', if is_ipv4 src then ''TCP4'' else ''TCP6'', st, dt, to_decimal (unat sport), to_decimal (unat dport)] =
    Inr (Some (socket_addr_new src sport))"
proof -
  have "unat p < 2 ^ 16" for p :: "16 word" using unsigned_less [of p, where ?'a = nat] by simp
  then have "parse_uint 16 (to_decimal (unat p)) = Some (unat p)" for p :: "16 word" by (rule parse_uint_decimal)
  then show ?thesis using assms by (simp add: pp_fields_def slice_get_def ok_or_def ensure_def)
qed

lemma pp_read_text:
  assumes "parse_ip_addr st = Some src" and "parse_ip_addr dt = Some dst" and "is_ipv4 dst = is_ipv4 src"
    and size: "length (pp_text (if is_ipv4 src then ''TCP4'' else ''TCP6'') st dt sport dport) \<le> 108"
  shows "pp_read (pp_text (if is_ipv4 src then ''TCP4'' else ''TCP6'') st dt sport dport @ rest) =
    Inr (Some (socket_addr_new src sport), rest)"
proof -
  define fs where "fs = [''PROXY'', if is_ipv4 src then ''TCP4'' else ''TCP6'', st, dt, to_decimal (unat sport), to_decimal (unat dport)]"
  define line where "line = join '' '' fs"
  have shown: "pp_text (if is_ipv4 src then ''TCP4'' else ''TCP6'') st dt sport dport = line @ crlf"
    by (simp add: pp_text_def line_def fs_def)
  have digits: "list_all address_char (to_decimal n)" for n
    using to_decimal_digits [of n] by (auto simp: list_all_iff intro: digit_plain)
  have plain: "list_all address_char f" if "f \<in> set fs" for f
    using that parse_ip_addr_chars [OF assms(1)] parse_ip_addr_chars [OF assms(2)] digits
    by (auto simp: fs_def address_char_def is_ascii_alphanumeric_def is_ascii_alphabetic_def is_ascii_uppercase_def is_ascii_digit_def)
  have chars: "of_char c < (128 :: nat) \<and> c \<noteq> CHR 0x0D" if "c \<in> set line" for c
  proof -
    have "set (join [x] xs) \<subseteq> {x} \<union> (\<Union>f\<in>set xs. set f)" for x :: char and xs
      by (induction "[x]" xs rule: join.induct) auto
    then have "c = CHR '' '' \<or> address_char c" using that plain by (fastforce simp: line_def list_all_iff)
    then show ?thesis using address_char_plain by auto
  qed
  have "st \<noteq> []" using assms(1) by (auto simp: parse_ip_addr_def parse_all_def read_ip_def read_ipv4_def read_ipv6_def
        read_number_def read_char_def read_groups.simps or_else_def read_separator_def numeral_eq_Suc split: option.splits)
  then have long: "12 \<le> length line" by (cases st) (auto simp: line_def fs_def)
  have start: "starts_with (take 12 line) ''PROXY ''" "take 12 line \<noteq> pp_signature"
    by (simp_all add: line_def fs_def starts_with_def pp_signature_def)
  have "pp_line (take 12 line) (drop 12 line @ crlf @ rest) = Inr (take 12 line @ drop 12 line @ crlf, rest)"
    using chars size shown by (intro pp_line_reads) (auto simp: crlf_def)
  then have read: "pp_line (take 12 line) (drop 12 line @ crlf @ rest) = Inr (line @ crlf, rest)" by simp
  have cut: "take (length (line @ crlf) - 2) (line @ crlf) = line" by (simp add: crlf_def)
  have utf8: "from_utf8 line = Some line" using chars ascii_utf8 [of line] by (simp add: from_utf8_def list_all_iff)
  have split: "split_on CHR '' '' line = fs"
    unfolding line_def using plain address_char_plain by (intro split_on_join) (auto simp: fs_def list_all_iff)
  have first: "read_exact 12 (line @ crlf @ rest) = Inr (take 12 line, drop 12 line @ crlf @ rest)"
    using long by (simp add: read_exact_def)
  have "pp_fields fs = Inr (Some (socket_addr_new src sport))"
    unfolding fs_def by (rule pp_fields_reads [OF assms(1-3)])
  then show ?thesis
    unfolding shown append_assoc pp_read_def first
    using start read cut utf8 split by (simp add: ok_or_def)
qed

text \<open>
  C28. A PROXY protocol header is read as it was sent: for source and destination of one family, the text line of version
  1 (in any spelling of the addresses, up to its 108 bytes) and the binary header of version 2 (with up to 512 bytes of
  payload) both give the source address and port, and exactly the header is taken from the stream.
\<close>

theorem proxy_protocol_round_trip:
  assumes "is_ipv4 dst = is_ipv4 src"
  shows "(parse_ip_addr st = Some src \<and> parse_ip_addr dt = Some dst
      \<and> length (pp_text (if is_ipv4 src then ''TCP4'' else ''TCP6'') st dt sport dport) \<le> 108 \<longrightarrow>
      pp_read (pp_text (if is_ipv4 src then ''TCP4'' else ''TCP6'') st dt sport dport @ rest) = Inr (Some (socket_addr_new src sport), rest))
    \<and> (length tlv + (if is_ipv4 src then 12 else 36) \<le> 512 \<longrightarrow>
      pp_read (pp_v2 src dst sport dport tlv @ rest) = Inr (Some (socket_addr_new src sport), rest))"
  using pp_read_text pp_read_v2 assms by blast

theorem proxy_protocol_round_trip_witness:
  "pp_read (pp_text ''TCP6'' ''::1'' ''::2'' 80 443 @ ''GET'') = Inr (Some (SockV6 1 80 0 0), ''GET'')
   \<and> pp_read (pp_v2 (IpV6 1) (IpV6 2) 80 443 ''tlv'' @ ''GET'') = Inr (Some (SockV6 1 80 0 0), ''GET'')"
proof -
  have "parse_ip_addr ''::1'' = Some (IpV6 1)" "parse_ip_addr ''::2'' = Some (IpV6 2)" by code_simp+
  moreover have "length (pp_text ''TCP6'' ''::1'' ''::2'' 80 443) \<le> 108" by code_simp
  ultimately show ?thesis
    using proxy_protocol_round_trip [of "IpV6 2" "IpV6 1" "''::1''" "''::2''" 80 443 "''GET''" "''tlv''"] by simp
qed

end
