(* ===== verification/Config_Settings.thy ===== *)
theory Config_Settings
  imports Config_Syntax Client_Identity Backend
begin

text \<open>
  The settings a configuration sets and the functions that read a single value: \<open>Settings\<close> of \<open>src/src/model.rs\<close> with the
  policies it is made of (\<open>body.rs\<close>, \<open>compression.rs\<close>, \<open>upstream.rs\<close>, \<open>logging/access.rs\<close>, \<open>logging/rotation.rs\<close>,
  \<open>security/mod.rs\<close>, \<open>security/mtls.rs\<close>), and \<open>size\<close>, \<open>duration\<close>, \<open>validate_variables\<close>, \<open>validate_host\<close> and
  \<open>parse_listen\<close> of \<open>src/src/config/mod.rs\<close>.

  An \<open>anyhow\<close> error is its message or the error of the part it comes from, with the place added by \<open>with_context\<close>. Numbers
  are natural numbers below the bound of their Rust type. Values of other crates are given by the text they are read
  from: a certificate by its two PEM texts, a client CA store by its PEM text, a JWT verifier by its specification and the
  digest of its key set, a script by its digest. The field \<open>gateway\<close> of \<open>Settings\<close>, set by the Gateway controller only, is
  left out.
\<close>

section \<open>Errors and outside functions\<close>

datatype load_error =
    Msg string
  | Src string load_error
  | Syntax cfg_error
  | TrafficError traffic_error
  | IdentityError identity_error
  | BackendError backend_error

definition map_err :: "('e \<Rightarrow> 'f) \<Rightarrow> ('e, 'a) result \<Rightarrow> ('f, 'a) result" where
  "map_err f r = (case r of Inl e \<Rightarrow> Inl (f e) | Inr x \<Rightarrow> Inr x)"

lemma map_err_Inr_iff [result_simps]: "map_err f r = Inr x \<longleftrightarrow> r = Inr x"
  by (cases r) (simp_all add: map_err_def)

lemma map_err_simps [simp]: "map_err f (Inl e) = Inl (f e)" "map_err f (Inr x) = Inr x"
  by (simp_all add: map_err_def)

record jwt_spec =
  js_source :: string
  js_issuer :: string
  js_audience :: string
  js_algorithm :: string

text \<open>A parsed \<open>url::Url\<close>: its accessors, and \<open>ul_authority\<close> for the slice from \<open>BeforeHost\<close> to \<open>AfterPort\<close>.\<close>

datatype url_host = Domain string | UrlIp ip

record url =
  ul_scheme :: string
  ul_host :: "url_host option"
  ul_host_str :: "string option"
  ul_port :: "16 word option"
  ul_known_port :: "16 word option"
  ul_path :: string
  ul_query :: "string option"
  ul_fragment :: "string option"
  ul_username :: string
  ul_password :: "string option"
  ul_authority :: string

text \<open>
  What the loader calls outside its own code: the \<open>ipnet\<close>, \<open>http\<close> and \<open>url\<close> crates, name resolution (\<open>to_socket_addrs\<close>),
  file contents, OpenSSL (the number of certificates in a PEM text, whether a client store can be built, whether a
  certificate and its key parse and match, whether a certificate covers a name), \<open>Jwt::load\<close>, the script compiler, whether
  a log file opens, \<open>DefaultHasher\<close> on a transport, \<open>Display\<close> of addresses the clock and the
  \<open>http3\<close> build feature.
\<close>

datatype protocol = Http1 | Http2 | ProtocolAuto

record transport_profile =
  tp_protocol :: protocol
  tp_server_name :: "string option"
  tp_ca_pem :: "string option"
  tp_identity :: "(string \<times> string) option"

definition default_profile :: transport_profile where
  "default_profile = \<lparr>tp_protocol = Http1, tp_server_name = None, tp_ca_pem = None, tp_identity = None\<rparr>"

record 'n outside =
  net_parse :: "string \<Rightarrow> 'n option"
  net_from :: "ip \<Rightarrow> 'n"
  header_name_ok :: "string \<Rightarrow> bool"
  header_value_ok :: "string \<Rightarrow> bool"
  url_parse :: "string \<Rightarrow> url option"
  lookup_host :: "string \<Rightarrow> 16 word \<Rightarrow> socket_addr list option"
  read_file :: "string \<Rightarrow> string option"
  pem_count :: "string \<Rightarrow> nat option"
  store_ok :: "string \<Rightarrow> bool"
  certificate_ok :: "string \<Rightarrow> string \<Rightarrow> bool"
  certificate_covers :: "string \<times> string \<Rightarrow> string \<Rightarrow> bool"
  jwt_digest :: "jwt_spec \<Rightarrow> string option"
  compile_script :: "string \<Rightarrow> string option"
  log_opens :: "string \<Rightarrow> bool"
  profile_hash :: "transport_profile \<Rightarrow> 64 word"
  show_ip :: "ip \<Rightarrow> string"
  show_socket :: "socket_addr \<Rightarrow> string"
  clock :: instant
  http3_built :: bool

definition read_text :: "'n outside \<Rightarrow> string \<Rightarrow> (load_error, string) result" where
  "read_text w path =
     bindR (ok_or (read_file w path) (Msg ''read'')) (\<lambda>bytes. ok_or (from_utf8 bytes) (Msg ''utf-8''))"

section \<open>Single values\<close>

definition parse_u :: "nat \<Rightarrow> string \<Rightarrow> (load_error, nat) result" where
  "parse_u bits s = ok_or (parse_uint bits s) (Msg ''number'')"

definition checked_mul64 :: "nat \<Rightarrow> nat \<Rightarrow> nat option" where
  "checked_mul64 a b = (if a * b < 2 ^ 64 then Some (a * b) else None)"

definition size_suffix :: "string \<Rightarrow> string \<times> nat" where
  "size_suffix s =
     (if s = [] then (s, 1)
      else if last s \<in> set ''kK'' then (butlast s, 1024)
      else if last s \<in> set ''mM'' then (butlast s, 1024 * 1024)
      else if last s \<in> set ''gG'' then (butlast s, 1024 * 1024 * 1024)
      else (s, 1))"

definition parse_size :: "string \<Rightarrow> (load_error, nat) result" where
  "parse_size s =
     (let (n, multiplier) = size_suffix s in
      bindR (parse_u 64 n) (\<lambda>v. ok_or (checked_mul64 v multiplier) (Msg ''size overflow'')))"

definition from_millis :: "nat \<Rightarrow> duration" where
  "from_millis n = n * 1000000"

definition parse_duration :: "string \<Rightarrow> (load_error, duration) result" where
  "parse_duration s =
     (let (n, multiplier) =
        (case strip_suffix ''ms'' s of
           Some n \<Rightarrow> (n, 1)
         | None \<Rightarrow>
             (case strip_suffix ''s'' s of
                Some n \<Rightarrow> (n, 1000)
              | None \<Rightarrow> (case strip_suffix ''m'' s of Some n \<Rightarrow> (n, 60000) | None \<Rightarrow> (s, 1000)))) in
      bindR (parse_u 64 n) (\<lambda>v.
      bindR (ok_or (checked_mul64 v multiplier) (Msg ''duration overflow'')) (\<lambda>ms. Inr (from_millis ms))))"

definition switch :: "string \<Rightarrow> (load_error, bool) result" where
  "switch v = (if v = ''on'' then Inr True else if v = ''off'' then Inr False else Inl (Msg ''expected on/off''))"

definition variable_char :: "char \<Rightarrow> bool" where
  "variable_char c \<longleftrightarrow> is_ascii_alphanumeric c \<or> c = CHR ''_''"

definition known_variable :: "string \<Rightarrow> bool" where
  "known_variable v \<longleftrightarrow>
     v \<in> set [''host'', ''http_host'', ''scheme'', ''request_uri'', ''uri'', ''args'', ''request_method'', ''remote_addr'',
       ''realip_remote_addr'', ''proxy_host'', ''proxy_add_x_forwarded_for'']
     \<or> starts_with v ''http_'' \<and> 5 < length v"

lemma split_once_length: "split_once c s = Some (a, b) \<Longrightarrow> length b < length s"
  by (auto simp: split_once_Some_iff)

function validate_variables :: "string \<Rightarrow> (load_error, unit) result" where
  "validate_variables s =
     (case split_once CHR ''$'' s of
        None \<Rightarrow> Inr ()
      | Some (_, rest) \<Rightarrow>
          bindR (ensure (known_variable (takeWhile variable_char rest)) (Msg ''unsupported variable'')) (\<lambda>_.
          validate_variables (dropWhile variable_char rest)))"
  by pat_completeness auto

termination
proof (relation "measure length", goal_cases)
  case (2 s x a rest)
  then show ?case using split_once_length [of _ s a rest] length_dropWhile_le [of variable_char rest]
    by (metis in_measure le_less_trans)
qed simp

declare validate_variables.simps [simp del]

definition validate_host :: "string \<Rightarrow> (load_error, unit) result" where
  "validate_host host =
     (let plain = (case strip_prefix ''*.'' host of None \<Rightarrow> host | Some p \<Rightarrow> p) in
      ensure (plain \<noteq> [] \<and> list_all (\<lambda>c. is_ascii_alphanumeric c \<or> c \<in> set ''-._'') plain) (Msg ''unsupported server_name''))"

section \<open>Body inspection\<close>

datatype inspection = InspectOff | Full nat | Prefix nat

record body_policy =
  bp_inspection :: inspection
  bp_timeout :: duration

definition default_body_policy :: body_policy where
  "default_body_policy = \<lparr>bp_inspection = InspectOff, bp_timeout = from_secs 5\<rparr>"

definition MAX_INSPECT_BYTES :: nat where "MAX_INSPECT_BYTES = 256 * 1024"

fun split_where :: "('a \<Rightarrow> bool) \<Rightarrow> 'a list \<Rightarrow> 'a list list" where
  "split_where P [] = [[]]"
| "split_where P (x # xs) =
     (if P x then [] # split_where P xs
      else case split_where P xs of [] \<Rightarrow> [[x]] | w # ws \<Rightarrow> (x # w) # ws)"

definition split_whitespace :: "string \<Rightarrow> string list" where
  "split_whitespace s = filter (\<lambda>w. w \<noteq> []) (map concat (split_where is_whitespace (chars s)))"

definition inspection_parse :: "string \<Rightarrow> (load_error, inspection) result" where
  "inspection_parse v =
     (let args = split_whitespace v in
      if args = [''off''] then Inr InspectOff
      else
        bindR (ensure (length args = 2) (Msg ''request body expects off, full SIZE or prefix SIZE'')) (\<lambda>_.
        bindR (parse_size (args ! 1)) (\<lambda>limit.
        bindR (ensure (1 \<le> limit \<and> limit \<le> MAX_INSPECT_BYTES) (Msg ''request body inspection size'')) (\<lambda>_.
        if args ! 0 = ''full'' then Inr (Full limit)
        else if args ! 0 = ''prefix'' then Inr (Prefix limit)
        else Inl (Msg ''request body expects off, full SIZE or prefix SIZE'')))))"

definition parse_timeout :: "string \<Rightarrow> (load_error, duration) result" where
  "parse_timeout v =
     bindR (parse_duration v) (\<lambda>t.
     bindR (ensure (t \<noteq> 0 \<and> t \<le> from_secs 60) (Msg ''request body inspection timeout'')) (\<lambda>_. Inr t))"

definition body_policy_validate :: "body_policy \<Rightarrow> bool" where
  "body_policy_validate p \<longleftrightarrow>
     (case bp_inspection p of
        InspectOff \<Rightarrow> True
      | Full n \<Rightarrow> 1 \<le> n \<and> n \<le> MAX_INSPECT_BYTES
      | Prefix n \<Rightarrow> 1 \<le> n \<and> n \<le> MAX_INSPECT_BYTES)
     \<and> bp_timeout p \<noteq> 0 \<and> bp_timeout p \<le> from_secs 60"

definition body_policy_from_annotations :: "(string, string) btree \<Rightarrow> (load_error, body_policy) result" where
  "body_policy_from_annotations annotations =
     bindR (case bt_get annotations ''rgnix.io/request-body'' of
              None \<Rightarrow> Inr InspectOff | Some v \<Rightarrow> inspection_parse v) (\<lambda>i.
     bindR (case bt_get annotations ''rgnix.io/request-body-timeout'' of
              None \<Rightarrow> Inr (from_secs 5) | Some v \<Rightarrow> parse_timeout v) (\<lambda>t.
     Inr \<lparr>bp_inspection = i, bp_timeout = t\<rparr>))"

section \<open>Compression and upstream transport\<close>

record compression =
  cp_gzip :: nat
  cp_brotli :: nat
  cp_min_length :: nat
  cp_types :: "string list"

definition default_compression :: compression where
  "default_compression = \<lparr>cp_gzip = 0, cp_brotli = 0, cp_min_length = 1024,
     cp_types = [''text/html'', ''text/plain'', ''text/css'', ''application/javascript'', ''application/json'', ''image/svg+xml'']\<rparr>"

definition protocol_parse :: "string \<Rightarrow> (load_error, protocol) result" where
  "protocol_parse v =
     (if v = ''1.1'' then Inr Http1
      else if v = ''2'' \<or> v = ''2.0'' then Inr Http2
      else if v = ''auto'' then Inr ProtocolAuto
      else Inl (Msg ''upstream HTTP version expects 1.1, 2 or auto''))"

definition profile_set_identity :: "'n outside \<Rightarrow> string \<Rightarrow> string \<Rightarrow> transport_profile \<Rightarrow> (load_error, transport_profile) result" where
  "profile_set_identity w cert key p =
     bindR (ensure (length cert + length key \<le> 1024 * 1024) (Msg ''upstream identity exceeds 1 MiB'')) (\<lambda>_.
     bindR (ensure (certificate_ok w cert key) (Msg ''certificate'')) (\<lambda>_.
     Inr (p\<lparr>tp_identity := Some (cert, key)\<rparr>)))"

definition profile_set_ca :: "'n outside \<Rightarrow> string \<Rightarrow> transport_profile \<Rightarrow> (load_error, transport_profile) result" where
  "profile_set_ca w pem p =
     bindR (ensure (length pem \<le> 1024 * 1024) (Msg ''upstream CA exceeds 1 MiB'')) (\<lambda>_.
     bindR (ok_or (pem_count w pem) (Msg ''pem'')) (\<lambda>n.
     bindR (ensure (n \<noteq> 0) (Msg ''empty upstream CA bundle'')) (\<lambda>_.
     Inr (p\<lparr>tp_ca_pem := Some pem\<rparr>))))"

section \<open>Access logs and rotation\<close>

record log_policy =
  lp_json :: bool
  lp_query :: bool
  lp_client :: bool
  lp_referer :: bool
  lp_redact :: "string list"
  lp_fields :: "string list"

definition default_log_policy :: log_policy where
  "default_log_policy = \<lparr>lp_json = False, lp_query = True, lp_client = True, lp_referer = True,
     lp_redact = [''access_token'', ''token'', ''api_key'', ''apikey'', ''password'', ''secret'', ''authorization'', ''code''],
     lp_fields = []\<rparr>"

definition log_field_names :: "string list" where
  "log_field_names = [''timestamp'', ''client'', ''method'', ''uri'', ''protocol'', ''status'', ''bytes'', ''referer'', ''user_agent'',
     ''route'', ''backend'', ''upstream'', ''config'', ''trace_id'', ''span_id'', ''parent_span_id'', ''upstream_span_id'',
     ''trace_sampled'', ''grpc_status'']"

definition validate_fields :: "log_policy \<Rightarrow> (load_error, unit) result" where
  "validate_fields p =
     bindR (ensure (length (lp_fields p) \<le> 20 \<and> list_all (\<lambda>f. f \<in> set log_field_names) (lp_fields p))
       (Msg ''unsupported access log field'')) (\<lambda>_.
     ensure (length (lp_redact p) \<le> 64 \<and> list_all (\<lambda>s. s \<noteq> [] \<and> length s \<le> 128) (lp_redact p))
       (Msg ''invalid query redaction keys''))"

record rotation =
  ro_max_bytes :: nat
  ro_interval_seconds :: nat
  ro_keep :: nat
  ro_gzip :: bool

definition default_rotation :: rotation where
  "default_rotation = \<lparr>ro_max_bytes = 0, ro_interval_seconds = 0, ro_keep = 0, ro_gzip = False\<rparr>"

definition interval_suffix :: "string \<Rightarrow> string \<times> nat" where
  "interval_suffix v =
     (if v = [] then (v, 1)
      else if last v = CHR ''s'' then (butlast v, 1)
      else if last v = CHR ''m'' then (butlast v, 60)
      else if last v = CHR ''h'' then (butlast v, 3600)
      else if last v = CHR ''d'' then (butlast v, 86400)
      else (v, 1))"

definition rotation_option :: "string \<Rightarrow> string \<Rightarrow> rotation \<Rightarrow> (load_error, rotation) result" where
  "rotation_option k v p =
     (if k = ''size'' then
        bindR (parse_size v) (\<lambda>n.
        bindR (ensure (1 \<le> n \<and> n \<le> 1024 * 1024 * 1024 * 1024) (Msg ''rotation size must be 1 byte..1 TiB'')) (\<lambda>_.
        Inr (p\<lparr>ro_max_bytes := n\<rparr>)))
      else if k = ''interval'' then
        (let (n, unit) = interval_suffix v in
         bindR (parse_u 64 n) (\<lambda>m.
         bindR (ok_or (checked_mul64 m unit) (Msg ''rotation interval overflow'')) (\<lambda>secs.
         bindR (ensure (1 \<le> secs \<and> secs \<le> 365 * 86400) (Msg ''rotation interval must be 1s..365d'')) (\<lambda>_.
         Inr (p\<lparr>ro_interval_seconds := secs\<rparr>)))))
      else if k = ''keep'' then
        bindR (parse_u 64 v) (\<lambda>n.
        bindR (ensure (1 \<le> n \<and> n \<le> 1000) (Msg ''rotation keep must be 1..1000'')) (\<lambda>_. Inr (p\<lparr>ro_keep := n\<rparr>)))
      else if k = ''gzip'' then
        (if v = ''on'' then Inr (p\<lparr>ro_gzip := True\<rparr>)
         else if v = ''off'' then Inr (p\<lparr>ro_gzip := False\<rparr>)
         else Inl (Msg ''rotation gzip must be on or off''))
      else Inl (Msg ''unsupported rotation option''))"

fun rotation_options :: "string list \<Rightarrow> string list \<Rightarrow> rotation \<Rightarrow> (load_error, rotation) result" where
  "rotation_options seen [] p = Inr p"
| "rotation_options seen (arg # args) p =
     bindR (ok_or (split_once CHR ''='' arg) (Msg ''rotation options require key=value'')) (\<lambda>(k, v).
     bindR (ensure (k \<notin> set seen) (Msg ''duplicate rotation option'')) (\<lambda>_.
     bindR (rotation_option k v p) (rotation_options (k # seen) args)))"

definition rotation_parse :: "string list \<Rightarrow> (load_error, rotation) result" where
  "rotation_parse args =
     (if args = [''off''] then Inr default_rotation
      else
        bindR (ensure (args \<noteq> []) (Msg ''rgnix_log_rotation expects off or options'')) (\<lambda>_.
        bindR (rotation_options [] args (default_rotation\<lparr>ro_keep := 7\<rparr>)) (\<lambda>p.
        bindR (ensure (0 < ro_max_bytes p \<or> 0 < ro_interval_seconds p) (Msg ''rotation requires size or interval'')) (\<lambda>_.
        Inr p))))"

section \<open>Security\<close>

datatype tls_mode = TlsOff | TlsOptional | TlsRequired

record mtls_policy =
  mt_mode :: tls_mode
  mt_ca_pem :: "string option"
  mt_store :: "string option"

definition mtls_set_ca :: "'n outside \<Rightarrow> string \<Rightarrow> mtls_policy \<Rightarrow> (load_error, mtls_policy) result" where
  "mtls_set_ca w pem p =
     bindR (ensure (length pem \<le> 1024 * 1024) (Msg ''client CA exceeds 1 MiB'')) (\<lambda>_.
     bindR (ok_or (pem_count w pem) (Msg ''pem'')) (\<lambda>n.
     bindR (ensure (n \<noteq> 0 \<and> n \<le> 64) (Msg ''client CA requires 1..64 certificates'')) (\<lambda>_.
     bindR (ensure (store_ok w pem) (Msg ''store'')) (\<lambda>_.
     Inr (p\<lparr>mt_ca_pem := Some pem, mt_store := Some pem\<rparr>)))))"

record external_auth =
  ea_url :: string
  ea_timeout :: duration
  ea_response_headers :: "string list"

definition external_validate :: "'n outside \<Rightarrow> external_auth \<Rightarrow> (load_error, unit) result" where
  "external_validate w e =
     bindR (ok_or (url_parse w (ea_url e)) (Msg ''url'')) (\<lambda>u.
     bindR (ensure ((ul_scheme u = ''http'' \<or> ul_scheme u = ''https'') \<and> ul_host_str u \<noteq> None \<and> ul_username u = []
       \<and> ul_password u = None \<and> ul_fragment u = None) (Msg ''auth URL'')) (\<lambda>_.
     bindR (ensure (ea_timeout e \<noteq> 0 \<and> ea_timeout e \<le> from_secs 30 \<and> length (ea_response_headers e) \<le> 16) (Msg ''auth timeout'')) (\<lambda>_.
     for_each (\<lambda>h.
       bindR (ensure (header_name_ok w h) (Msg ''header name'')) (\<lambda>_.
       ensure (starts_with h ''x-'' \<and> \<not> starts_with h ''x-forwarded-'' \<and> h \<noteq> ''x-real-ip'')
         (Msg ''auth identity headers must use a non-forwarding x- prefix''))) (ea_response_headers e))))"

record security =
  se_jwt :: "(jwt_spec \<times> string) option"
  se_external :: "external_auth option"
  se_mtls :: mtls_policy

definition default_security :: security where
  "default_security = \<lparr>se_jwt = None, se_external = None,
     se_mtls = \<lparr>mt_mode = TlsOff, mt_ca_pem = None, mt_store = None\<rparr>\<rparr>"

section \<open>Settings\<close>

record added_header =
  ah_name :: string
  ah_value :: string
  ah_always :: bool

record 'n settings =
  st_root :: string
  st_index :: "string list"
  st_mime :: "(string, string) btree"
  st_default_type :: string
  st_request_headers :: "(string \<times> string) list"
  st_response_headers :: "added_header list"
  st_max_body :: nat
  st_body_policy :: body_policy
  st_connect_timeout :: duration
  st_read_timeout :: duration
  st_write_timeout :: duration
  st_client_header_timeout :: duration
  st_client_body_timeout :: duration
  st_send_timeout :: duration
  st_connect_tunnel :: bool
  st_http3 :: bool
  st_keepalive :: duration
  st_access_log :: "string option"
  st_log_policy :: log_policy
  st_identity :: "'n identity_policy"
  st_traffic :: policy
  st_upstream :: transport_profile
  st_compression :: compression
  st_alias :: "string option"
  st_try_files :: "string list"
  st_security :: security
  st_https_redirect_port :: "16 word option"

definition default_settings :: "'n settings" where
  "default_settings =
     \<lparr>st_root = ''html'', st_index = [''index.html''],
      st_mime = bt_collect [(''html'', ''text/html''), (''css'', ''text/css''), (''js'', ''application/javascript'')],
      st_default_type = ''application/octet-stream'', st_request_headers = [], st_response_headers = [],
      st_max_body = 1024 * 1024, st_body_policy = default_body_policy, st_connect_timeout = from_secs 60,
      st_read_timeout = from_secs 60, st_write_timeout = from_secs 60, st_client_header_timeout = from_secs 60,
      st_client_body_timeout = from_secs 60, st_send_timeout = from_secs 60, st_connect_tunnel = False, st_http3 = False,
      st_keepalive = from_secs 75, st_access_log = Some ''/dev/stdout'', st_log_policy = default_log_policy,
      st_identity = default_identity, st_traffic = \<lparr>pol_rate = None, pol_concurrency = None\<rparr>,
      st_upstream = default_profile, st_compression = default_compression, st_alias = None, st_try_files = [],
      st_security = default_security, st_https_redirect_port = None\<rparr>"

section \<open>Directives with one shape\<close>

definition block :: "directive \<Rightarrow> (load_error, directive list) result" where
  "block n = ok_or (dr_children n) (Src (dr_source n) (Msg ''requires a block''))"

definition leaf :: "directive \<Rightarrow> (load_error, unit) result" where
  "leaf n = ensure (dr_children n = None) (Src (dr_source n) (Msg ''does not take a block''))"

definition one :: "directive \<Rightarrow> (load_error, string) result" where
  "one n = bindR (ensure (length (dr_args n) = 1) (Src (dr_source n) (Msg ''expects one argument''))) (\<lambda>_. Inr (hd (dr_args n)))"

record listen_spec =
  ls_address :: socket_addr
  ls_tls :: bool
  ls_default :: bool
  ls_proxy_protocol :: bool

definition parse_listen :: "directive \<Rightarrow> (load_error, listen_spec) result" where
  "parse_listen n =
     bindR (leaf n) (\<lambda>_.
     bindR (ensure (dr_args n \<noteq> []) (Src (dr_source n) (Msg ''missing listen address''))) (\<lambda>_.
     bindR (case parse_uint 16 (hd (dr_args n)) of
              Some port \<Rightarrow> Inr (SockV4 0 (of_nat port))
            | None \<Rightarrow> ok_or (parse_socket_addr (hd (dr_args n))) (Src (dr_source n) (Msg ''address''))) (\<lambda>address.
     bindR (for_each (\<lambda>option.
              ensure (option \<in> set [''ssl'', ''default_server'', ''proxy_protocol'']) (Src (dr_source n) (Msg ''unsupported listen option'')))
              (tl (dr_args n))) (\<lambda>_.
     Inr \<lparr>ls_address = address, ls_tls = (''ssl'' \<in> set (dr_args n)), ls_default = (''default_server'' \<in> set (dr_args n)),
          ls_proxy_protocol = (''proxy_protocol'' \<in> set (dr_args n))\<rparr>))))"

section \<open>Lemmas\<close>

lemma checked_mul64_bound: "checked_mul64 a b = Some n \<Longrightarrow> n < 2 ^ 64"
  by (auto simp: checked_mul64_def split: if_splits)

lemma inspection_parse_valid:
  "inspection_parse v = Inr i \<Longrightarrow> i = InspectOff \<or> (\<exists>n. (i = Full n \<or> i = Prefix n) \<and> 1 \<le> n \<and> n \<le> MAX_INSPECT_BYTES)"
  by (auto simp: inspection_parse_def Let_def result_simps split: if_splits)

lemma parse_timeout_valid: "parse_timeout v = Inr t \<Longrightarrow> t \<noteq> 0 \<and> t \<le> from_secs 60"
  by (auto simp: parse_timeout_def result_simps)

lemma body_policy_from_annotations_valid:
  "body_policy_from_annotations a = Inr p \<Longrightarrow> body_policy_validate p"
  by (auto simp: body_policy_from_annotations_def body_policy_validate_def result_simps from_secs_def split: option.splits
      dest!: inspection_parse_valid parse_timeout_valid)

end
