(* ===== verification/Config_Apply.thy ===== *)
theory Config_Apply
  imports Config_Settings
begin

text \<open>
  Applying a directive to a scope, \<open>apply\<close> and \<open>proxy_url\<close> of \<open>src/src/config/mod.rs\<close> with \<open>src/src/config/policy.rs\<close> and
  \<open>src/src/config/security.rs\<close>, and named upstream groups, \<open>src/src/config/upstream.rs\<close>.

  A \<open>match\<close> on the directive's name is a table from names to handlers, one definition per directive; the scope is passed
  and returned. \<open>base\<close> is the directory of the configuration file and \<open>context\<close> the block a directive is in.
\<close>

record 'n scope =
  sc_settings :: "'n settings"
  sc_action :: "action option"
  sc_script :: "string option"
  sc_cert :: "string option"
  sc_key :: "string option"
  sc_upstream_cert :: "string option"
  sc_upstream_key :: "string option"
  sc_http2 :: bool
  sc_error_log :: "(string \<times> string) option"
  sc_log_rotation :: rotation

definition default_scope :: "'n scope" where
  "default_scope = \<lparr>sc_settings = default_settings, sc_action = None, sc_script = None, sc_cert = None, sc_key = None,
     sc_upstream_cert = None, sc_upstream_key = None, sc_http2 = False, sc_error_log = None, sc_log_rotation = default_rotation\<rparr>"

type_synonym 'n set_handler = "directive \<Rightarrow> 'n settings \<Rightarrow> (load_error, 'n settings) result"
type_synonym 'n handler = "directive \<Rightarrow> 'n scope \<Rightarrow> (load_error, 'n scope) result"

definition on_settings :: "'n set_handler \<Rightarrow> 'n handler" where
  "on_settings h n s = bindR (h n (sc_settings s)) (\<lambda>st. Inr (s\<lparr>sc_settings := st\<rparr>))"

text \<open>A directive whose handler reads its only argument.\<close>

definition with_one :: "(string \<Rightarrow> 'n settings \<Rightarrow> (load_error, 'n settings) result) \<Rightarrow> 'n set_handler" where
  "with_one h n st = bindR (one n) (\<lambda>v. h v st)"

section \<open>Policies\<close>

definition set_log :: "(log_policy \<Rightarrow> log_policy) \<Rightarrow> 'n settings \<Rightarrow> 'n settings" where
  "set_log f st = st\<lparr>st_log_policy := f (st_log_policy st)\<rparr>"

definition log_switch :: "(bool \<Rightarrow> log_policy \<Rightarrow> log_policy) \<Rightarrow> 'n set_handler" where
  "log_switch f = with_one (\<lambda>v st. bindR (switch v) (\<lambda>b. Inr (set_log (f b) st)))"

definition log_list :: "(string list \<Rightarrow> log_policy \<Rightarrow> log_policy) \<Rightarrow> 'n set_handler" where
  "log_list f n st =
     (let st' = set_log (f (dr_args n)) st in bindR (validate_fields (st_log_policy st')) (\<lambda>_. Inr st'))"

definition set_compression :: "(compression \<Rightarrow> compression) \<Rightarrow> 'n settings \<Rightarrow> 'n settings" where
  "set_compression f st = st\<lparr>st_compression := f (st_compression st)\<rparr>"

definition compress_switch :: "nat \<Rightarrow> (nat \<Rightarrow> compression \<Rightarrow> compression) \<Rightarrow> 'n set_handler" where
  "compress_switch level f = with_one (\<lambda>v st. bindR (switch v) (\<lambda>b. Inr (set_compression (f (if b then level else 0)) st)))"

definition compress_level :: "(nat \<Rightarrow> compression \<Rightarrow> compression) \<Rightarrow> 'n set_handler" where
  "compress_level f = with_one (\<lambda>v st.
     bindR (parse_u 32 v) (\<lambda>level.
     bindR (ensure (1 \<le> level \<and> level \<le> 9) (Msg ''compression level must be 1..9'')) (\<lambda>_.
     Inr (set_compression (f level) st))))"

definition gzip_min_length :: "'n set_handler" where
  "gzip_min_length = with_one (\<lambda>v st. bindR (parse_size v) (\<lambda>n. Inr (set_compression (cp_min_length_update (\<lambda>_. n)) st)))"

definition gzip_types :: "'n set_handler" where
  "gzip_types n st =
     bindR (ensure (dr_args n \<noteq> []) (Msg ''gzip_types expects MIME types'')) (\<lambda>_.
     Inr (set_compression (cp_types_update (\<lambda>_.
       if list_ex (\<lambda>t. t = ''text/html'') (dr_args n) then dr_args n else dr_args n @ [''text/html''])) st))"

definition set_identity :: "('n identity_policy \<Rightarrow> 'n identity_policy) \<Rightarrow> 'n settings \<Rightarrow> 'n settings" where
  "set_identity f st = st\<lparr>st_identity := f (st_identity st)\<rparr>"

definition read_network :: "'n outside \<Rightarrow> string \<Rightarrow> (load_error, 'n) result" where
  "read_network w v = map_err IdentityError (network (net_parse w) (net_from w) v)"

definition set_real_ip_from :: "'n outside \<Rightarrow> 'n set_handler" where
  "set_real_ip_from w = with_one (\<lambda>v st.
     bindR (read_network w v) (\<lambda>net. Inr (set_identity (\<lambda>p. p\<lparr>id_trusted := id_trusted p @ [net]\<rparr>) st)))"

definition real_ip_header :: "'n outside \<Rightarrow> 'n set_handler" where
  "real_ip_header w = with_one (\<lambda>v st.
     bindR (ensure (header_name_ok w v) (Msg ''header name'')) (\<lambda>_.
     Inr (set_identity (\<lambda>p. p\<lparr>id_header := to_ascii_lowercase v\<rparr>) st)))"

definition real_ip_recursive :: "'n set_handler" where
  "real_ip_recursive = with_one (\<lambda>v st. bindR (switch v) (\<lambda>b. Inr (set_identity (\<lambda>p. p\<lparr>id_recursive := b\<rparr>) st)))"

definition access_directive :: "'n outside \<Rightarrow> bool \<Rightarrow> 'n set_handler" where
  "access_directive w allow = with_one (\<lambda>v st.
     bindR (if v = ''all'' then Inr None else bindR (read_network w v) (\<lambda>net. Inr (Some net))) (\<lambda>net.
     Inr (set_identity (\<lambda>p. p\<lparr>id_access := id_access p @ [\<lparr>ar_network = net, ar_allow = allow\<rparr>]\<rparr>) st)))"

definition read_key :: "'n outside \<Rightarrow> string \<Rightarrow> (load_error, key) result" where
  "read_key w v = map_err TrafficError (key_parse (header_name_ok w) v)"

fun rate_options :: "'n outside \<Rightarrow> string list \<Rightarrow> rate \<Rightarrow> (load_error, rate) result" where
  "rate_options w [] r = Inr r"
| "rate_options w (arg # args) r =
     (case strip_prefix ''burst='' arg of
        Some v \<Rightarrow> bindR (parse_u 32 v) (\<lambda>b. rate_options w args (r\<lparr>burst := b\<rparr>))
      | None \<Rightarrow>
          (case strip_prefix ''key='' arg of
             Some v \<Rightarrow> bindR (read_key w v) (\<lambda>k. rate_options w args (r\<lparr>rate_key := k\<rparr>))
           | None \<Rightarrow> Inl (Msg ''unsupported rate option'')))"

definition limit_rate :: "'n outside \<Rightarrow> 'n set_handler" where
  "limit_rate w n st =
     bindR
       (if dr_args n = [''off''] then Inr None
        else
          bindR (ensure (1 \<le> length (dr_args n) \<and> length (dr_args n) \<le> 3) (Msg ''rgnix_limit_rate expects requests-per-second'')) (\<lambda>_.
          bindR (parse_u 32 (hd (dr_args n))) (\<lambda>per.
          bindR (rate_options w (tl (dr_args n)) \<lparr>per_second = per, burst = per, rate_key = Ip\<rparr>) (\<lambda>r. Inr (Some r)))))
       (\<lambda>r. Inr (st\<lparr>st_traffic := (st_traffic st)\<lparr>pol_rate := r\<rparr>\<rparr>))"

definition limit_conn :: "'n outside \<Rightarrow> 'n set_handler" where
  "limit_conn w n st =
     bindR
       (if dr_args n = [''off''] then Inr None
        else
          bindR (ensure (1 \<le> length (dr_args n) \<and> length (dr_args n) \<le> 2) (Msg ''rgnix_limit_conn expects maximum'')) (\<lambda>_.
          bindR (case slice_get (dr_args n) 1 of
                   None \<Rightarrow> Inr Ip
                 | Some v \<Rightarrow> bindR (ok_or (strip_prefix ''key='' v) (Msg ''expected key=...'')) (read_key w)) (\<lambda>k.
          bindR (parse_u 32 (hd (dr_args n))) (\<lambda>limit. Inr (Some \<lparr>conc_limit = limit, conc_key = k\<rparr>)))))
       (\<lambda>c. Inr (st\<lparr>st_traffic := (st_traffic st)\<lparr>pol_concurrency := c\<rparr>\<rparr>))"

definition policy_handlers :: "'n outside \<Rightarrow> (string \<times> 'n set_handler) list" where
  "policy_handlers w =
     [(''rgnix_log_query'', log_switch (\<lambda>b p. p\<lparr>lp_query := b\<rparr>)),
      (''rgnix_log_client'', log_switch (\<lambda>b p. p\<lparr>lp_client := b\<rparr>)),
      (''rgnix_log_referer'', log_switch (\<lambda>b p. p\<lparr>lp_referer := b\<rparr>)),
      (''rgnix_log_redact'', log_list (\<lambda>args p. p\<lparr>lp_redact := args\<rparr>)),
      (''rgnix_log_fields'', log_list (\<lambda>args p. p\<lparr>lp_fields := args\<rparr>)),
      (''gzip'', compress_switch 1 (\<lambda>l p. p\<lparr>cp_gzip := l\<rparr>)),
      (''brotli'', compress_switch 4 (\<lambda>l p. p\<lparr>cp_brotli := l\<rparr>)),
      (''gzip_comp_level'', compress_level (\<lambda>l p. p\<lparr>cp_gzip := l\<rparr>)),
      (''brotli_comp_level'', compress_level (\<lambda>l p. p\<lparr>cp_brotli := l\<rparr>)),
      (''gzip_min_length'', gzip_min_length),
      (''gzip_types'', gzip_types),
      (''set_real_ip_from'', set_real_ip_from w),
      (''real_ip_header'', real_ip_header w),
      (''real_ip_recursive'', real_ip_recursive),
      (''allow'', access_directive w True),
      (''deny'', access_directive w False),
      (''rgnix_limit_rate'', limit_rate w),
      (''rgnix_limit_conn'', limit_conn w)]"

definition policy_apply :: "'n outside \<Rightarrow> directive \<Rightarrow> 'n scope \<Rightarrow> (load_error, 'n scope option) result" where
  "policy_apply w n s =
     (case map_of (policy_handlers w) (dr_name n) of
        None \<Rightarrow> Inr None
      | Some h \<Rightarrow>
          bindR (on_settings h n s) (\<lambda>s'.
          bindR (map_err TrafficError (policy_validate (st_traffic (sc_settings s')))) (\<lambda>_.
          bindR (map_err IdentityError (identity_validate (header_name_ok w) (st_identity (sc_settings s')))) (\<lambda>_.
          Inr (Some s')))))"

section \<open>Security\<close>

definition set_security :: "(security \<Rightarrow> security) \<Rightarrow> 'n settings \<Rightarrow> 'n settings" where
  "set_security f st = st\<lparr>st_security := f (st_security st)\<rparr>"

definition ssl_client_certificate :: "'n outside \<Rightarrow> string \<Rightarrow> string \<Rightarrow> 'n set_handler" where
  "ssl_client_certificate w base context = with_one (\<lambda>v st.
     bindR (ensure (context \<noteq> ''location'') (Msg ''client TLS belongs in http/server'')) (\<lambda>_.
     bindR (read_text w (path_join base v)) (\<lambda>pem.
     bindR (mtls_set_ca w pem (se_mtls (st_security st))) (\<lambda>m. Inr (set_security (se_mtls_update (\<lambda>_. m)) st)))))"

definition tls_mode_parse :: "string \<Rightarrow> (load_error, tls_mode) result" where
  "tls_mode_parse v =
     (if v = ''off'' then Inr TlsOff
      else if v = ''optional'' then Inr TlsOptional
      else if v = ''on'' then Inr TlsRequired
      else Inl (Msg ''ssl_verify_client expects on/off/optional''))"

definition ssl_verify_client :: "string \<Rightarrow> 'n set_handler" where
  "ssl_verify_client context = with_one (\<lambda>v st.
     bindR (ensure (context \<noteq> ''location'') (Msg ''client TLS belongs in http/server'')) (\<lambda>_.
     bindR (tls_mode_parse v) (\<lambda>m. Inr (set_security (se_mtls_update (\<lambda>p. p\<lparr>mt_mode := m\<rparr>)) st))))"

fun jwt_options :: "string \<Rightarrow> string list \<Rightarrow> jwt_spec \<Rightarrow> (load_error, jwt_spec) result" where
  "jwt_options base [] spec = Inr spec"
| "jwt_options base (arg # args) spec =
     bindR (ok_or (split_once CHR ''='' arg) (Msg ''rgnix_jwt expects jwks=FILE_OR_HTTPS_URL'')) (\<lambda>(k, v).
     if k = ''jwks'' then
       jwt_options base args (spec\<lparr>js_source := (if starts_with v ''https://'' then v else path_join base v)\<rparr>)
     else if k = ''issuer'' then jwt_options base args (spec\<lparr>js_issuer := v\<rparr>)
     else if k = ''audience'' then jwt_options base args (spec\<lparr>js_audience := v\<rparr>)
     else if k = ''algorithm'' then jwt_options base args (spec\<lparr>js_algorithm := v\<rparr>)
     else Inl (Msg ''unknown JWT option''))"

definition rgnix_jwt :: "'n outside \<Rightarrow> string \<Rightarrow> 'n set_handler" where
  "rgnix_jwt w base n st =
     (if dr_args n = [''off''] then Inr (set_security (se_jwt_update (\<lambda>_. None)) st)
      else
        bindR (jwt_options base (dr_args n) \<lparr>js_source = [], js_issuer = [], js_audience = [], js_algorithm = ''RS256''\<rparr>) (\<lambda>spec.
        bindR (ok_or (jwt_digest w spec) (Msg ''jwks'')) (\<lambda>digest.
        Inr (set_security (se_jwt_update (\<lambda>_. Some (spec, digest))) st))))"

fun auth_options :: "string list \<Rightarrow> external_auth \<Rightarrow> (load_error, external_auth) result" where
  "auth_options [] a = Inr a"
| "auth_options (arg # args) a =
     (case strip_prefix ''timeout='' arg of
        Some v \<Rightarrow> bindR (parse_duration v) (\<lambda>t. auth_options args (a\<lparr>ea_timeout := t\<rparr>))
      | None \<Rightarrow>
          (case strip_prefix ''headers='' arg of
             Some v \<Rightarrow> auth_options args (a\<lparr>ea_response_headers := map to_ascii_lowercase (split_on CHR '','' v)\<rparr>)
           | None \<Rightarrow> Inl (Msg ''unknown auth option'')))"

definition rgnix_auth_request :: "'n outside \<Rightarrow> 'n set_handler" where
  "rgnix_auth_request w n st =
     (if dr_args n = [''off''] then Inr (set_security (se_external_update (\<lambda>_. None)) st)
      else
        bindR (ensure (1 \<le> length (dr_args n) \<and> length (dr_args n) \<le> 3) (Msg ''auth request expects URL'')) (\<lambda>_.
        bindR (auth_options (tl (dr_args n)) \<lparr>ea_url = hd (dr_args n), ea_timeout = from_secs 3, ea_response_headers = []\<rparr>) (\<lambda>a.
        bindR (external_validate w a) (\<lambda>_.
        Inr (set_security (se_external_update (\<lambda>_. Some a)) st)))))"

definition security_handlers :: "'n outside \<Rightarrow> string \<Rightarrow> string \<Rightarrow> (string \<times> 'n set_handler) list" where
  "security_handlers w base context =
     [(''ssl_client_certificate'', ssl_client_certificate w base context),
      (''ssl_verify_client'', ssl_verify_client context),
      (''rgnix_jwt'', rgnix_jwt w base),
      (''rgnix_auth_request'', rgnix_auth_request w)]"

definition security_apply :: "'n outside \<Rightarrow> string \<Rightarrow> string \<Rightarrow> directive \<Rightarrow> 'n scope \<Rightarrow> (load_error, 'n scope option) result" where
  "security_apply w base context n s =
     (case map_of (security_handlers w base context) (dr_name n) of
        None \<Rightarrow> Inr None
      | Some h \<Rightarrow> bindR (on_settings h n s) (\<lambda>s'. Inr (Some s')))"

section \<open>The other directives\<close>

definition apply_types :: "directive \<Rightarrow> 'n settings \<Rightarrow> (load_error, 'n settings) result" where
  "apply_types n st =
     bindR (ensure (dr_args n = []) (Msg ''types takes no arguments'')) (\<lambda>_.
     bindR (block n) (\<lambda>mappings.
     bindR (for_each (\<lambda>m.
       bindR (leaf m) (\<lambda>_. ensure (dr_args m \<noteq> []) (Msg ''MIME type requires extensions''))) mappings) (\<lambda>_.
     Inr (st\<lparr>st_mime := fold (\<lambda>m mime. fold (\<lambda>ext. bt_insert (to_ascii_lowercase ext) (dr_name m)) (dr_args m) mime) mappings []\<rparr>))))"

definition apply_root :: "string \<Rightarrow> 'n set_handler" where
  "apply_root base = with_one (\<lambda>v st.
     bindR (ensure (CHR ''$'' \<notin> set v) (Msg ''root variables are unsupported'')) (\<lambda>_.
     Inr (st\<lparr>st_root := path_join base v, st_alias := None\<rparr>)))"

definition apply_alias :: "string \<Rightarrow> string \<Rightarrow> 'n set_handler" where
  "apply_alias base context = with_one (\<lambda>v st.
     bindR (ensure (context = ''location'' \<and> CHR ''$'' \<notin> set v) (Msg ''alias requires a literal directory in location'')) (\<lambda>_.
     Inr (st\<lparr>st_alias := Some (path_join base v)\<rparr>)))"

definition literal_path :: "string \<Rightarrow> bool" where
  "literal_path v \<longleftrightarrow> starts_with v ''/'' \<and> set v \<inter> set ''$?#'' = {}"

definition try_candidate :: "bool \<Rightarrow> string \<Rightarrow> (load_error, unit) result" where
  "try_candidate is_last v =
     (if is_last \<and> starts_with v ''='' then
        bindR (parse_u 16 (tl v)) (\<lambda>code. ensure (400 \<le> code \<and> code \<le> 599) (Msg ''try_files fallback status must be 400..599''))
      else ensure (v = ''$uri'' \<or> v = ''$uri/'' \<or> literal_path v) (Msg ''try_files supports $uri, $uri/ and literal absolute paths''))"

definition apply_try_files :: "'n set_handler" where
  "apply_try_files n st =
     (let args = dr_args n in
      bindR (ensure (2 \<le> length args \<and> length args \<le> 8) (Msg ''try_files expects 2..8 candidates'')) (\<lambda>_.
      bindR (for_each (\<lambda>(i, v). try_candidate (i + 1 = length args) v) (enumerate 0 args)) (\<lambda>_.
      bindR (ensure (starts_with (last args) ''/'' \<or> starts_with (last args) ''='') (Msg ''final try_files candidate'')) (\<lambda>_.
      Inr (st\<lparr>st_try_files := args\<rparr>)))))"

definition apply_index :: "'n set_handler" where
  "apply_index n st =
     bindR (ensure (dr_args n \<noteq> [] \<and> list_all (\<lambda>x. CHR ''/'' \<notin> set x \<and> x \<noteq> ''..'') (dr_args n)) (Msg ''index requires file names'')) (\<lambda>_.
     Inr (st\<lparr>st_index := dr_args n\<rparr>))"

definition apply_default_type :: "'n outside \<Rightarrow> 'n set_handler" where
  "apply_default_type w = with_one (\<lambda>v st.
     bindR (ensure (header_value_ok w v) (Msg ''header value'')) (\<lambda>_. Inr (st\<lparr>st_default_type := v\<rparr>)))"

definition set_upstream :: "(transport_profile \<Rightarrow> transport_profile) \<Rightarrow> 'n settings \<Rightarrow> 'n settings" where
  "set_upstream f st = st\<lparr>st_upstream := f (st_upstream st)\<rparr>"

definition apply_proxy_http_version :: "'n set_handler" where
  "apply_proxy_http_version = with_one (\<lambda>v st. bindR (protocol_parse v) (\<lambda>p. Inr (set_upstream (tp_protocol_update (\<lambda>_. p)) st)))"

definition apply_proxy_ssl_name :: "'n set_handler" where
  "apply_proxy_ssl_name = with_one (\<lambda>v st.
     bindR (ensure (CHR ''$'' \<notin> set v \<and> length v \<le> 253) (Msg ''proxy_ssl_name requires a literal host'')) (\<lambda>_.
     Inr (set_upstream (tp_server_name_update (\<lambda>_. Some v)) st)))"

definition apply_proxy_ssl_ca :: "'n outside \<Rightarrow> string \<Rightarrow> 'n set_handler" where
  "apply_proxy_ssl_ca w base = with_one (\<lambda>v st.
     bindR (read_text w (path_join base v)) (\<lambda>pem.
     bindR (profile_set_ca w pem (st_upstream st)) (\<lambda>p. Inr (st\<lparr>st_upstream := p\<rparr>))))"

definition apply_must_be_on :: "'n set_handler" where
  "apply_must_be_on = with_one (\<lambda>v st.
     bindR (ensure (v = ''on'') (Msg ''upstream TLS always verifies certificates and hostnames'')) (\<lambda>_. Inr st))"

definition apply_request_header :: "'n outside \<Rightarrow> 'n set_handler" where
  "apply_request_header w n st =
     bindR (ensure (length (dr_args n) = 2) (Msg ''proxy_set_header expects name value'')) (\<lambda>_.
     bindR (ensure (header_name_ok w (dr_args n ! 0)) (Msg ''header name'')) (\<lambda>_.
     bindR (validate_variables (dr_args n ! 1)) (\<lambda>_.
     Inr (st\<lparr>st_request_headers := st_request_headers st @ [(dr_args n ! 0, dr_args n ! 1)]\<rparr>))))"

definition apply_add_header :: "'n outside \<Rightarrow> 'n set_handler" where
  "apply_add_header w n st =
     bindR (ensure (2 \<le> length (dr_args n) \<and> length (dr_args n) \<le> 3 \<and> is_none_or (slice_get (dr_args n) 2) (\<lambda>x. x = ''always''))
       (Msg ''add_header expects name value [always]'')) (\<lambda>_.
     bindR (ensure (header_name_ok w (dr_args n ! 0)) (Msg ''header name'')) (\<lambda>_.
     bindR (validate_variables (dr_args n ! 1)) (\<lambda>_.
     Inr (st\<lparr>st_response_headers := st_response_headers st @
       [\<lparr>ah_name = dr_args n ! 0, ah_value = dr_args n ! 1, ah_always = (length (dr_args n) = 3)\<rparr>]\<rparr>))))"

definition apply_max_body :: "'n set_handler" where
  "apply_max_body = with_one (\<lambda>v st. bindR (parse_size v) (\<lambda>n. Inr (st\<lparr>st_max_body := n\<rparr>)))"

definition apply_request_body :: "'n set_handler" where
  "apply_request_body n st =
     bindR (inspection_parse (join '' '' (dr_args n))) (\<lambda>i.
     Inr (st\<lparr>st_body_policy := (st_body_policy st)\<lparr>bp_inspection := i\<rparr>\<rparr>))"

definition apply_request_body_timeout :: "'n set_handler" where
  "apply_request_body_timeout = with_one (\<lambda>v st.
     bindR (parse_timeout v) (\<lambda>t. Inr (st\<lparr>st_body_policy := (st_body_policy st)\<lparr>bp_timeout := t\<rparr>\<rparr>)))"

definition apply_duration :: "(duration \<Rightarrow> 'n settings \<Rightarrow> 'n settings) \<Rightarrow> 'n set_handler" where
  "apply_duration f = with_one (\<lambda>v st. bindR (parse_duration v) (\<lambda>d. Inr (f d st)))"

definition apply_client_header_timeout :: "string \<Rightarrow> 'n set_handler" where
  "apply_client_header_timeout context = with_one (\<lambda>v st.
     bindR (ensure (context \<noteq> ''location'') (Msg ''client_header_timeout belongs in http or server'')) (\<lambda>_.
     bindR (parse_duration v) (\<lambda>d. Inr (st\<lparr>st_client_header_timeout := d\<rparr>))))"

definition apply_connect :: "'n set_handler" where
  "apply_connect = with_one (\<lambda>v st. bindR (switch v) (\<lambda>b. Inr (st\<lparr>st_connect_tunnel := b\<rparr>)))"

definition apply_http3 :: "'n outside \<Rightarrow> string \<Rightarrow> 'n set_handler" where
  "apply_http3 w context = with_one (\<lambda>v st.
     bindR (ensure (v \<noteq> ''on'' \<or> http3_built w) (Msg ''HTTP/3 requires the http3 build feature'')) (\<lambda>_.
     bindR (ensure (context \<noteq> ''location'') (Msg ''http3 belongs in http or server'')) (\<lambda>_.
     bindR (switch v) (\<lambda>b. Inr (st\<lparr>st_http3 := b\<rparr>)))))"

definition apply_access_log :: "string \<Rightarrow> 'n set_handler" where
  "apply_access_log base n st =
     (let args = dr_args n in
      bindR (ensure (1 \<le> length args \<and> length args \<le> 2 \<and> is_none_or (slice_get args 1) (\<lambda>v. v = ''combined'' \<or> v = ''json''))
        (Msg ''access_log expects path [combined|json] or off'')) (\<lambda>_.
      Inr ((set_log (\<lambda>p. p\<lparr>lp_json := is_some_and (slice_get args 1) (\<lambda>v. v = ''json'')\<rparr>) st)
        \<lparr>st_access_log := (if hd args = ''off'' then None else Some (path_join base (hd args)))\<rparr>)))"

definition settings_handlers :: "'n outside \<Rightarrow> string \<Rightarrow> string \<Rightarrow> (string \<times> 'n set_handler) list" where
  "settings_handlers w base context =
     [(''root'', apply_root base),
      (''alias'', apply_alias base context),
      (''try_files'', apply_try_files),
      (''index'', apply_index),
      (''default_type'', apply_default_type w),
      (''proxy_http_version'', apply_proxy_http_version),
      (''proxy_ssl_name'', apply_proxy_ssl_name),
      (''proxy_ssl_trusted_certificate'', apply_proxy_ssl_ca w base),
      (''proxy_ssl_verify'', apply_must_be_on),
      (''proxy_ssl_server_name'', apply_must_be_on),
      (''proxy_set_header'', apply_request_header w),
      (''add_header'', apply_add_header w),
      (''client_max_body_size'', apply_max_body),
      (''rgnix_request_body'', apply_request_body),
      (''rgnix_request_body_timeout'', apply_request_body_timeout),
      (''proxy_connect_timeout'', apply_duration (\<lambda>d st. st\<lparr>st_connect_timeout := d\<rparr>)),
      (''proxy_read_timeout'', apply_duration (\<lambda>d st. st\<lparr>st_read_timeout := d\<rparr>)),
      (''proxy_send_timeout'', apply_duration (\<lambda>d st. st\<lparr>st_write_timeout := d\<rparr>)),
      (''keepalive_timeout'', apply_duration (\<lambda>d st. st\<lparr>st_keepalive := d\<rparr>)),
      (''client_header_timeout'', apply_client_header_timeout context),
      (''client_body_timeout'', apply_duration (\<lambda>d st. st\<lparr>st_client_body_timeout := d\<rparr>)),
      (''send_timeout'', apply_duration (\<lambda>d st. st\<lparr>st_send_timeout := d\<rparr>)),
      (''rgnix_connect'', apply_connect),
      (''http3'', apply_http3 w context),
      (''access_log'', apply_access_log base)]"

text \<open>The directives that change the scope outside its settings.\<close>

definition proxy_url :: "'n outside \<Rightarrow> string \<Rightarrow> (load_error, url) result" where
  "proxy_url w v =
     bindR (ensure (starts_with v ''http://'' \<or> starts_with v ''https://'') (Msg ''proxy_pass requires an absolute http/https URL'')) (\<lambda>_.
     bindR (ok_or (url_parse w v) (Msg ''url'')) (\<lambda>u.
     bindR (ensure (ul_query u = None) (Msg ''proxy_pass URLs with query strings are unsupported'')) (\<lambda>_.
     bindR (ensure (ul_host u \<noteq> None \<and> ul_username u = [] \<and> ul_password u = None \<and> ul_fragment u = None)
       (Msg ''proxy_pass requires a host without credentials or fragment'')) (\<lambda>_.
     Inr u))))"

fun is_return :: "action option \<Rightarrow> bool" where
  "is_return (Some (Return _ _)) = True"
| "is_return _ = False"

definition apply_proxy_pass :: "'n outside \<Rightarrow> string \<Rightarrow> 'n handler" where
  "apply_proxy_pass w context n s =
     bindR (one n) (\<lambda>v.
     bindR (ensure (context = ''location'') (Msg ''proxy_pass is only valid in location'')) (\<lambda>_.
     bindR (ensure (CHR ''$'' \<notin> set v) (Msg ''proxy_pass variables are unsupported'')) (\<lambda>_.
     bindR (proxy_url w v) (\<lambda>_.
     Inr (if is_return (sc_action s) then s else s\<lparr>sc_action := Some (Proxy v None)\<rparr>)))))"

definition apply_return :: "string \<Rightarrow> 'n handler" where
  "apply_return context n s =
     bindR (ensure (context \<noteq> ''http'' \<and> 1 \<le> length (dr_args n) \<and> length (dr_args n) \<le> 2)
       (Msg ''return expects status [text] in server or location'')) (\<lambda>_.
     bindR (parse_u 16 (hd (dr_args n))) (\<lambda>status.
     bindR (ensure (200 \<le> status \<and> status \<le> 599) (Msg ''return supports status 200..599'')) (\<lambda>_.
     let txt = (case slice_get (dr_args n) 1 of None \<Rightarrow> [] | Some t \<Rightarrow> t) in
     bindR (validate_variables txt) (\<lambda>_.
     Inr (if is_return (sc_action s) then s else s\<lparr>sc_action := Some (Return (of_nat status) txt)\<rparr>)))))"

definition apply_path :: "(string \<Rightarrow> 'n scope \<Rightarrow> 'n scope) \<Rightarrow> bool \<Rightarrow> string \<Rightarrow> string \<Rightarrow> 'n handler" where
  "apply_path f allowed msg base n s =
     bindR (one n) (\<lambda>v. bindR (ensure allowed (Msg msg)) (\<lambda>_. Inr (f (path_join base v) s)))"

definition apply_http2 :: "string \<Rightarrow> 'n handler" where
  "apply_http2 context n s =
     bindR (one n) (\<lambda>v.
     bindR (ensure (context \<noteq> ''location'') (Msg ''http2 is not valid in location'')) (\<lambda>_.
     bindR (switch v) (\<lambda>b. Inr (s\<lparr>sc_http2 := b\<rparr>))))"

definition apply_log_rotation :: "string \<Rightarrow> 'n handler" where
  "apply_log_rotation context n s =
     bindR (ensure (context = ''http'') (Msg ''rgnix_log_rotation belongs in http'')) (\<lambda>_.
     bindR (rotation_parse (dr_args n)) (\<lambda>r. Inr (s\<lparr>sc_log_rotation := r\<rparr>)))"

definition open_error_log :: "'n outside \<Rightarrow> string \<Rightarrow> string \<Rightarrow> (load_error, string \<times> string) result" where
  "open_error_log w path level =
     (let path' = (if path = ''stderr'' then ''/dev/stderr'' else path) in
      bindR (ensure (log_opens w path') (Msg ''open'')) (\<lambda>_. Inr (path', level)))"

definition apply_error_log :: "'n outside \<Rightarrow> string \<Rightarrow> string \<Rightarrow> 'n handler" where
  "apply_error_log w base context n s =
     (let args = dr_args n; level = (case slice_get args 1 of None \<Rightarrow> ''error'' | Some l \<Rightarrow> l) in
      bindR (ensure (context = ''http'' \<and> 1 \<le> length args \<and> length args \<le> 2) (Msg ''error_log expects path [level] in http'')) (\<lambda>_.
      bindR (ensure (level \<in> set [''error'', ''warn'', ''info'', ''debug'']) (Msg ''error_log level must be error/warn/info/debug'')) (\<lambda>_.
      bindR (open_error_log w (if hd args = ''stderr'' then ''stderr'' else path_join base (hd args)) level) (\<lambda>l.
      Inr (s\<lparr>sc_error_log := Some l\<rparr>)))))"

definition scope_handlers :: "'n outside \<Rightarrow> string \<Rightarrow> string \<Rightarrow> (string \<times> 'n handler) list" where
  "scope_handlers w base context =
     [(''proxy_ssl_certificate'', apply_path (\<lambda>p s. s\<lparr>sc_upstream_cert := Some p\<rparr>) True [] base),
      (''proxy_ssl_certificate_key'', apply_path (\<lambda>p s. s\<lparr>sc_upstream_key := Some p\<rparr>) True [] base),
      (''proxy_pass'', apply_proxy_pass w context),
      (''return'', apply_return context),
      (''ssl_certificate'', apply_path (\<lambda>p s. s\<lparr>sc_cert := Some p\<rparr>) (context \<noteq> ''location'') ''TLS is not valid in location'' base),
      (''ssl_certificate_key'', apply_path (\<lambda>p s. s\<lparr>sc_key := Some p\<rparr>) (context \<noteq> ''location'') ''TLS is not valid in location'' base),
      (''http2'', apply_http2 context),
      (''rgnix_script'', apply_path (\<lambda>p s. s\<lparr>sc_script := Some p\<rparr>) (context \<noteq> ''http'') ''rgnix_script belongs to server or location'' base),
      (''rgnix_log_rotation'', apply_log_rotation context),
      (''error_log'', apply_error_log w base context)]"

definition other_apply :: "'n outside \<Rightarrow> string \<Rightarrow> string \<Rightarrow> 'n handler" where
  "other_apply w base context n s =
     (case map_of (settings_handlers w base context) (dr_name n) of
        Some h \<Rightarrow> on_settings h n s
      | None \<Rightarrow>
          (case map_of (scope_handlers w base context) (dr_name n) of
             Some h \<Rightarrow> h n s
           | None \<Rightarrow> Inl (Msg ''unsupported directive'')))"

definition apply_directive :: "'n outside \<Rightarrow> string \<Rightarrow> string \<Rightarrow> 'n handler" where
  "apply_directive w base context n s =
     map_err (Src (dr_source n))
       (if dr_name n = ''types'' then on_settings apply_types n s
        else
          bindR (leaf n) (\<lambda>_.
          bindR (policy_apply w n s) (\<lambda>done_by_policy. case done_by_policy of
            Some s' \<Rightarrow> Inr s'
          | None \<Rightarrow>
              bindR (security_apply w base context n s) (\<lambda>done_by_security. case done_by_security of
                Some s' \<Rightarrow> Inr s'
              | None \<Rightarrow> other_apply w base context n s))))"

fun apply_all :: "'n outside \<Rightarrow> string \<Rightarrow> string \<Rightarrow> directive list \<Rightarrow> 'n scope \<Rightarrow> (load_error, 'n scope) result" where
  "apply_all w base context [] s = Inr s"
| "apply_all w base context (n # ns) s = bindR (apply_directive w base context n s) (apply_all w base context ns)"

definition mentions :: "string list \<Rightarrow> directive list \<Rightarrow> bool" where
  "mentions names nodes \<longleftrightarrow> list_ex (\<lambda>n. dr_name n \<in> set names) nodes"

definition reset_header_inheritance :: "directive list \<Rightarrow> 'n scope \<Rightarrow> 'n scope" where
  "reset_header_inheritance nodes s =
     (let st = sc_settings s; p = st_identity st;
          p1 = (if mentions [''set_real_ip_from''] nodes then p\<lparr>id_trusted := []\<rparr> else p);
          p2 = (if mentions [''allow'', ''deny''] nodes then p1\<lparr>id_access := []\<rparr> else p1);
          st1 = st\<lparr>st_identity := p2\<rparr>;
          st2 = (if mentions [''proxy_set_header''] nodes then st1\<lparr>st_request_headers := []\<rparr> else st1);
          st3 = (if mentions [''add_header''] nodes then st2\<lparr>st_response_headers := []\<rparr> else st2)
      in s\<lparr>sc_settings := st3\<rparr>)"

section \<open>Upstream groups\<close>

definition trim_brackets :: "string \<Rightarrow> string" where
  "trim_brackets = trim_where (\<lambda>c. c = CHR ''['' \<or> c = CHR '']'')"

definition upstream_server :: "'n outside \<Rightarrow> string list \<Rightarrow> (load_error, origin) result" where
  "upstream_server w args =
     bindR (ensure (1 \<le> length args \<and> length args \<le> 2) (Msg ''server expects address [weight=N]'')) (\<lambda>_.
     bindR (case slice_get args 1 of
              None \<Rightarrow> Inr 1
            | Some v \<Rightarrow> bindR (ok_or (strip_prefix ''weight='' v) (Msg ''only weight=N is supported'')) (parse_u 32)) (\<lambda>weight.
     bindR (ensure (1 \<le> weight \<and> weight \<le> 65535) (Msg ''invalid weight'')) (\<lambda>_.
     bindR (ok_or (url_parse w (''http://'' @ hd args)) (Msg ''url'')) (\<lambda>u.
     bindR (ensure (ul_path u = ''/'' \<and> ul_query u = None \<and> ul_fragment u = None \<and> ul_username u = [] \<and> ul_password u = None)
       (Msg ''server expects a host and optional port'')) (\<lambda>_.
     bindR (ok_or (ul_host_str u) (Msg ''missing upstream host'')) (\<lambda>host.
     bindR (ok_or (ul_known_port u) (Msg ''unwrap'')) (\<lambda>port.
     Inr \<lparr>or_host = trim_brackets host, or_port = port, or_weight = weight\<rparr>)))))))"

definition upstream_balance :: "'n outside \<Rightarrow> string list \<Rightarrow> (load_error, balance) result" where
  "upstream_balance w args =
     (if args = [''round_robin''] then Inr RoundRobin
      else if args = [''least_conn''] then Inr LeastConnections
      else if length args = 2 \<and> args ! 0 = ''hash'' then bindR (read_key w (args ! 1)) (\<lambda>k. Inr (Hash k))
      else if length args = 2 \<and> args ! 0 = ''sticky'' then
        bindR (ensure (header_name_ok w (args ! 1)) (Msg ''header name'')) (\<lambda>_.
        bindR (ensure (length (args ! 1) \<le> 64) (Msg ''affinity cookie name exceeds 64 bytes'')) (\<lambda>_. Inr (Sticky (args ! 1))))
      else Inl (Msg ''rgnix_balance expects round_robin, least_conn, hash key or sticky cookie''))"

fun health_options :: "string list \<Rightarrow> health_check \<Rightarrow> (load_error, health_check) result" where
  "health_options [] c = Inr c"
| "health_options (arg # args) c =
     (case strip_prefix ''interval='' arg of
        Some v \<Rightarrow> bindR (parse_duration v) (\<lambda>d. health_options args (c\<lparr>hc_interval := d\<rparr>))
      | None \<Rightarrow>
          (case strip_prefix ''timeout='' arg of
             Some v \<Rightarrow> bindR (parse_duration v) (\<lambda>d. health_options args (c\<lparr>hc_timeout := d\<rparr>))
           | None \<Rightarrow>
               (case strip_prefix ''status='' arg of
                  Some v \<Rightarrow> bindR (parse_u 16 v) (\<lambda>n. health_options args (c\<lparr>hc_status := n\<rparr>))
                | None \<Rightarrow> Inl (Msg ''unknown health option''))))"

definition upstream_health :: "string list \<Rightarrow> (load_error, health_check) result" where
  "upstream_health args =
     bindR (ensure (1 \<le> length args \<and> length args \<le> 4) (Msg ''health check expects path'')) (\<lambda>_.
     health_options (tl args) \<lparr>hc_path = hd args, hc_interval = from_secs 10, hc_timeout = from_secs 1, hc_status = 200\<rparr>)"

definition upstream_node :: "'n outside \<Rightarrow> directive \<Rightarrow> origin list \<times> options \<Rightarrow> (load_error, origin list \<times> options) result" where
  "upstream_node w node = (\<lambda>(origins, opts).
     map_err (Src (dr_source node))
       (bindR (leaf node) (\<lambda>_.
        if dr_name node = ''server'' then bindR (upstream_server w (dr_args node)) (\<lambda>o'. Inr (origins @ [o'], opts))
        else if dr_name node = ''least_conn'' \<or> dr_name node = ''ip_hash'' then
          bindR (ensure (dr_args node = []) (Msg ''takes no arguments'')) (\<lambda>_.
          Inr (origins, opts\<lparr>op_balance := (if dr_name node = ''least_conn'' then LeastConnections else Hash Ip)\<rparr>))
        else if dr_name node = ''rgnix_balance'' then
          bindR (upstream_balance w (dr_args node)) (\<lambda>b. Inr (origins, opts\<lparr>op_balance := b\<rparr>))
        else if dr_name node = ''rgnix_max_inflight'' then
          bindR (one node) (\<lambda>v. bindR (parse_u 64 v) (\<lambda>n. Inr (origins, opts\<lparr>op_max_inflight := n\<rparr>)))
        else if dr_name node = ''rgnix_health_check'' then
          bindR (upstream_health (dr_args node)) (\<lambda>c. Inr (origins, opts\<lparr>op_health := Some c\<rparr>))
        else Inl (Msg ''unsupported upstream directive''))))"

fun upstream_nodes :: "'n outside \<Rightarrow> directive list \<Rightarrow> origin list \<times> options \<Rightarrow> (load_error, origin list \<times> options) result" where
  "upstream_nodes w [] x = Inr x"
| "upstream_nodes w (n # ns) x = bindR (upstream_node w n x) (upstream_nodes w ns)"

definition origin_endpoints :: "'n outside \<Rightarrow> origin \<Rightarrow> (load_error, endpoint list) result" where
  "origin_endpoints w o' =
     bindR (ok_or (lookup_host w (or_host o') (or_port o')) (Msg ''lookup'')) (\<lambda>as.
     Inr (map (\<lambda>a. \<lparr>ep_address = a, ep_weight = or_weight o'\<rparr>) as))"

definition upstream_load :: "'n outside \<Rightarrow> directive \<Rightarrow> (load_error, string \<times> backend) result" where
  "upstream_load w n =
     bindR (one n) (\<lambda>name.
     bindR (block n) (\<lambda>nodes.
     bindR (upstream_nodes w nodes ([], default_options)) (\<lambda>(origins, opts).
     bindR (map_err BackendError (options_validate opts)) (\<lambda>_.
     bindR (ensure (origins \<noteq> [] \<and> length origins \<le> 1024) (Msg ''upstream requires 1..1024 servers'')) (\<lambda>_.
     bindR (collect_result (origin_endpoints w) origins) (\<lambda>eps.
     bindR (ensure (concat eps \<noteq> []) (Msg ''upstream has no addresses'')) (\<lambda>_.
     Inr (name, (new_backend (show_socket w) (clock w) (concat eps) False name name)
       \<lparr>bk_options := opts, bk_origins := origins\<rparr>))))))))"

section \<open>What every accepted directive keeps\<close>

definition headers_valid :: "'n outside \<Rightarrow> (string \<times> string) list \<Rightarrow> bool" where
  "headers_valid w hs \<longleftrightarrow> (\<forall>(k, v)\<in>set hs. header_name_ok w k \<and> validate_variables v = Inr ())"

definition plain_settings_ok :: "'n outside \<Rightarrow> 'n settings \<Rightarrow> bool" where
  "plain_settings_ok w st \<longleftrightarrow>
     body_policy_validate (st_body_policy st) \<and> validate_fields (st_log_policy st) = Inr ()
     \<and> cp_gzip (st_compression st) \<le> 9 \<and> cp_brotli (st_compression st) \<le> 9
     \<and> headers_valid w (st_request_headers st)
     \<and> headers_valid w (map (\<lambda>h. (ah_name h, ah_value h)) (st_response_headers st))
     \<and> is_none_or (se_external (st_security st)) (\<lambda>e. external_validate w e = Inr ())"

definition settings_ok :: "'n outside \<Rightarrow> 'n settings \<Rightarrow> bool" where
  "settings_ok w st \<longleftrightarrow>
     policy_validate (st_traffic st) = Inr () \<and> identity_validate (header_name_ok w) (st_identity st) = Inr ()
     \<and> plain_settings_ok w st"

fun action_ok :: "'n outside \<Rightarrow> action option \<Rightarrow> bool" where
  "action_ok w (Some (Return status txt)) \<longleftrightarrow> 200 \<le> unat status \<and> unat status \<le> 599 \<and> validate_variables txt = Inr ()"
| "action_ok w (Some (Proxy u uri)) \<longleftrightarrow> is_ok (proxy_url w u) \<and> uri = None"
| "action_ok w (Some Unavailable) \<longleftrightarrow> False"
| "action_ok w _ \<longleftrightarrow> True"

definition scope_ok :: "'n outside \<Rightarrow> 'n scope \<Rightarrow> bool" where
  "scope_ok w s \<longleftrightarrow> settings_ok w (sc_settings s) \<and> action_ok w (sc_action s)"

definition keeps :: "('s \<Rightarrow> bool) \<Rightarrow> (directive \<Rightarrow> 's \<Rightarrow> (load_error, 's) result) \<Rightarrow> bool" where
  "keeps P h \<longleftrightarrow> (\<forall>n s s'. h n s = Inr s' \<longrightarrow> P s \<longrightarrow> P s')"

lemma keepsD: "keeps P h \<Longrightarrow> h n s = Inr s' \<Longrightarrow> P s \<Longrightarrow> P s'"
  unfolding keeps_def by blast

lemma keeps_table: "list_all (\<lambda>(_, h). keeps P h) table \<Longrightarrow> map_of table k = Some h \<Longrightarrow> keeps P h"
  by (auto simp: list_all_iff dest: map_of_SomeD)

lemma with_one_Inr: "with_one h n st = Inr st' \<longleftrightarrow> (\<exists>v. one n = Inr v \<and> h v st = Inr st')"
  by (simp add: with_one_def result_simps)

lemmas settings_defs = settings_ok_def plain_settings_ok_def

lemma policy_handlers_keep: "list_all (\<lambda>(_, h). keeps (plain_settings_ok w) h) (policy_handlers w)"
proof -
  have "keeps (plain_settings_ok w) (log_switch f)"
    if "\<And>b p. lp_fields (f b p) = lp_fields p \<and> lp_redact (f b p) = lp_redact p" for f
    using that by (auto simp: keeps_def log_switch_def with_one_Inr result_simps set_log_def plain_settings_ok_def validate_fields_def)
  moreover have "keeps (plain_settings_ok w) (log_list f)" for f
    by (auto simp: keeps_def log_list_def result_simps set_log_def plain_settings_ok_def Let_def)
  moreover have "keeps (plain_settings_ok w) (compress_switch l f)"
    if "l \<le> 9" "\<And>k p. k \<le> 9 \<Longrightarrow> cp_gzip p \<le> 9 \<Longrightarrow> cp_brotli p \<le> 9 \<Longrightarrow> cp_gzip (f k p) \<le> 9 \<and> cp_brotli (f k p) \<le> 9" for l f
    using that by (auto simp: keeps_def compress_switch_def with_one_Inr result_simps set_compression_def plain_settings_ok_def)
  moreover have "keeps (plain_settings_ok w) (compress_level f)"
    if "\<And>k p. k \<le> 9 \<Longrightarrow> cp_gzip p \<le> 9 \<Longrightarrow> cp_brotli p \<le> 9 \<Longrightarrow> cp_gzip (f k p) \<le> 9 \<and> cp_brotli (f k p) \<le> 9" for f
    using that by (auto simp: keeps_def compress_level_def with_one_Inr result_simps set_compression_def plain_settings_ok_def)
  moreover have "keeps (plain_settings_ok w) gzip_min_length" "keeps (plain_settings_ok w) gzip_types"
    by (auto simp: keeps_def gzip_min_length_def gzip_types_def with_one_Inr result_simps set_compression_def plain_settings_ok_def)
  moreover have "keeps (plain_settings_ok w) (set_real_ip_from w)" "keeps (plain_settings_ok w) (real_ip_header w)"
    "keeps (plain_settings_ok w) real_ip_recursive" "keeps (plain_settings_ok w) (access_directive w b)" for b
    by (auto simp: keeps_def set_real_ip_from_def real_ip_header_def real_ip_recursive_def access_directive_def with_one_Inr result_simps
        set_identity_def plain_settings_ok_def)
  moreover have "keeps (plain_settings_ok w) (limit_rate w)" "keeps (plain_settings_ok w) (limit_conn w)"
    by (auto simp: keeps_def limit_rate_def limit_conn_def result_simps plain_settings_ok_def)
  ultimately show ?thesis unfolding policy_handlers_def by simp
qed

lemma security_handlers_keep: "list_all (\<lambda>(_, h). keeps (settings_ok w) h) (security_handlers w base context)"
proof -
  have "keeps (settings_ok w) (ssl_client_certificate w base context)" "keeps (settings_ok w) (ssl_verify_client context)"
    by (auto simp: keeps_def ssl_client_certificate_def ssl_verify_client_def with_one_Inr result_simps set_security_def settings_defs)
  moreover have "keeps (settings_ok w) (rgnix_jwt w base)" "keeps (settings_ok w) (rgnix_auth_request w)"
    by (auto simp: keeps_def rgnix_jwt_def rgnix_auth_request_def result_simps set_security_def settings_defs is_none_or_def split: if_splits)
  ultimately show ?thesis unfolding security_handlers_def by simp
qed

lemma settings_handlers_keep: "list_all (\<lambda>(_, h). keeps (settings_ok w) h) (settings_handlers w base context)"
proof -
  note defs = keeps_def with_one_Inr result_simps settings_defs
  have "keeps (settings_ok w) (apply_root base)" "keeps (settings_ok w) (apply_alias base context)" "keeps (settings_ok w) apply_try_files"
    "keeps (settings_ok w) apply_index" "keeps (settings_ok w) (apply_default_type w)"
    by (auto simp: defs apply_root_def apply_alias_def apply_try_files_def apply_index_def apply_default_type_def Let_def)
  moreover have "keeps (settings_ok w) apply_proxy_http_version" "keeps (settings_ok w) apply_proxy_ssl_name"
    "keeps (settings_ok w) (apply_proxy_ssl_ca w base)" "keeps (settings_ok w) apply_must_be_on"
    by (auto simp: defs apply_proxy_http_version_def apply_proxy_ssl_name_def apply_proxy_ssl_ca_def apply_must_be_on_def set_upstream_def)
  moreover have "keeps (settings_ok w) (apply_request_header w)" "keeps (settings_ok w) (apply_add_header w)"
    by (auto simp: defs apply_request_header_def apply_add_header_def headers_valid_def)
  moreover have "keeps (settings_ok w) apply_max_body" "keeps (settings_ok w) (apply_client_header_timeout context)"
    "keeps (settings_ok w) apply_connect" "keeps (settings_ok w) (apply_http3 w context)"
    by (auto simp: defs apply_max_body_def apply_client_header_timeout_def apply_connect_def apply_http3_def)
  moreover have "keeps (settings_ok w) apply_request_body" "keeps (settings_ok w) apply_request_body_timeout"
    by (auto simp: defs apply_request_body_def apply_request_body_timeout_def body_policy_validate_def
        dest!: inspection_parse_valid parse_timeout_valid)
  moreover have "keeps (settings_ok w) (apply_duration f)" if "\<And>d st. settings_ok w st \<Longrightarrow> settings_ok w (f d st)" for f
    using that by (auto simp: keeps_def with_one_Inr result_simps apply_duration_def)
  moreover have "keeps (settings_ok w) (apply_access_log base)"
    by (auto simp: defs apply_access_log_def set_log_def validate_fields_def Let_def)
  ultimately show ?thesis unfolding settings_handlers_def by (simp add: settings_defs)
qed

lemma return_status: "200 \<le> n \<Longrightarrow> n \<le> 599 \<Longrightarrow> unat (of_nat n :: 16 word) = n"
  by (simp add: unsigned_of_nat take_bit_nat_eq_self)

lemma scope_handlers_keep: "list_all (\<lambda>(_, h). keeps (scope_ok w) h) (scope_handlers w base context)"
proof -
  have "keeps (scope_ok w) (apply_path f allowed msg base)" if "\<And>p s. scope_ok w s \<Longrightarrow> scope_ok w (f p s)" for f allowed msg
    using that by (auto simp: keeps_def apply_path_def result_simps)
  moreover have "keeps (scope_ok w) (apply_proxy_pass w context)"
    by (auto simp: keeps_def apply_proxy_pass_def scope_ok_def result_simps)
  moreover have "keeps (scope_ok w) (apply_return context)"
    by (auto simp: keeps_def apply_return_def scope_ok_def result_simps Let_def return_status)
  moreover have "keeps (scope_ok w) (apply_http2 context)" "keeps (scope_ok w) (apply_log_rotation context)"
    "keeps (scope_ok w) (apply_error_log w base context)"
    by (auto simp: keeps_def apply_http2_def apply_log_rotation_def apply_error_log_def scope_ok_def result_simps Let_def)
  ultimately show ?thesis unfolding scope_handlers_def by (simp add: scope_ok_def)
qed

lemma on_settings_keep:
  assumes "keeps (settings_ok w) h" and "on_settings h n s = Inr s'" and "scope_ok w s"
  shows "scope_ok w s'"
  using assms by (auto simp: on_settings_def result_simps scope_ok_def dest: keepsD)

lemma policy_apply_keep:
  assumes "policy_apply w n s = Inr (Some s')" and "scope_ok w s"
  shows "scope_ok w s'"
proof -
  from assms obtain h st where h: "map_of (policy_handlers w) (dr_name n) = Some h" and st: "h n (sc_settings s) = Inr st"
    and s': "s' = s\<lparr>sc_settings := st\<rparr>" and ok: "policy_validate (st_traffic st) = Inr ()"
      "identity_validate (header_name_ok w) (st_identity st) = Inr ()"
    by (auto simp: policy_apply_def on_settings_def result_simps split: option.splits)
  have "plain_settings_ok w st"
    using keepsD [OF keeps_table [OF policy_handlers_keep h] st] assms(2) by (simp add: scope_ok_def settings_ok_def)
  with ok s' assms(2) show ?thesis by (simp add: scope_ok_def settings_ok_def)
qed

lemma security_apply_keep:
  assumes "security_apply w base context n s = Inr (Some s')" and "scope_ok w s"
  shows "scope_ok w s'"
  using assms by (auto simp: security_apply_def result_simps split: option.splits
      dest: on_settings_keep [OF keeps_table [OF security_handlers_keep]])

lemma other_apply_keep: "keeps (scope_ok w) (other_apply w base context)"
  by (auto simp: keeps_def other_apply_def split: option.splits
      dest: on_settings_keep [OF keeps_table [OF settings_handlers_keep]] keepsD [OF keeps_table [OF scope_handlers_keep]])

lemma apply_types_keep: "keeps (settings_ok w) apply_types"
  by (auto simp: keeps_def apply_types_def result_simps settings_defs)

lemma apply_directive_keep: "keeps (scope_ok w) (apply_directive w base context)"
proof (unfold keeps_def, intro allI impI)
  fix n s s'
  assume *: "apply_directive w base context n s = Inr s'" and ok: "scope_ok w s"
  show "scope_ok w s'"
  proof (cases "dr_name n = ''types''")
    case True
    then show ?thesis using * ok on_settings_keep [OF apply_types_keep] by (simp add: apply_directive_def result_simps)
  next
    case False
    with * obtain r where r: "policy_apply w n s = Inr r"
      "(case r of Some t \<Rightarrow> Inr t | None \<Rightarrow> bindR (security_apply w base context n s) (\<lambda>q. case q of
          Some t \<Rightarrow> Inr t | None \<Rightarrow> other_apply w base context n s)) = Inr s'"
      by (auto simp: apply_directive_def result_simps)
    then show ?thesis using ok
      by (auto simp: result_simps split: option.splits
          intro: policy_apply_keep security_apply_keep keepsD [OF other_apply_keep])
  qed
qed

lemma apply_all_keep: "apply_all w base context ns s = Inr s' \<Longrightarrow> scope_ok w s \<Longrightarrow> scope_ok w s'"
  by (induction ns arbitrary: s) (auto simp: result_simps dest: keepsD [OF apply_directive_keep])

lemma reset_header_inheritance_keep: "scope_ok w s \<Longrightarrow> scope_ok w (reset_header_inheritance nodes s)"
  by (auto simp: reset_header_inheritance_def scope_ok_def settings_defs headers_valid_def identity_validate_def result_simps Let_def)

lemma default_scope_ok: "header_name_ok w ''x-real-ip'' \<Longrightarrow> scope_ok w (default_scope\<lparr>sc_settings := default_settings\<lparr>st_root := r\<rparr>\<rparr>)"
proof -
  have "validate_fields default_log_policy = Inr ()" "body_policy_validate default_body_policy"
    by (simp_all add: validate_fields_def default_log_policy_def body_policy_validate_def default_body_policy_def from_secs_def ensure_def)
  then show "header_name_ok w ''x-real-ip'' \<Longrightarrow> scope_ok w (default_scope\<lparr>sc_settings := default_settings\<lparr>st_root := r\<rparr>\<rparr>)"
    by (simp add: scope_ok_def settings_defs default_scope_def default_settings_def policy_validate_def identity_validate_def
        default_identity_def default_compression_def default_security_def headers_valid_def ensure_def is_none_or_def)
qed

end
