(* ===== verification/Config_Load.thy ===== *)
theory Config_Load
  imports Config_Apply Routing
begin

text \<open>
  From directives to a runtime snapshot: \<open>load_direct\<close>, \<open>load_nodes\<close> and \<open>build_route\<close> of \<open>src/src/config/mod.rs\<close>, with the
  snapshot of \<open>src/src/model.rs\<close>.

  The loops over servers, listens, locations and routes are recursive functions; what they build together is the record
  \<open>loading\<close>. A route extends the record of \<open>Http_Model\<close> with its settings, script and allowed backends, and a backend is
  paired with its transport profile. \<open>fingerprint\<close> stands for the content hash (SHA-256 of the serialised snapshot).
\<close>

section \<open>Snapshots\<close>

record 'n cfg_route = route +
  rt_settings :: "'n settings"
  rt_script :: "string option"
  rt_allowed :: "(string, string) btree"

record 'n cfg_host =
  ch_listener :: socket_addr
  ch_names :: "string list"
  ch_default :: bool
  ch_ingress :: bool
  ch_routes :: "'n cfg_route list"

record cfg_tls = "(string \<times> string) tls_host" +
  th_client_auth :: mtls_policy

record 'n listener =
  li_address :: socket_addr
  li_tls :: bool
  li_http2 :: bool
  li_proxy_protocol :: bool
  li_proxy_trusted :: "'n list"

type_synonym backend_map = "(string, backend \<times> transport_profile) btree"

record 'n snapshot =
  sn_version :: nat
  sn_content_hash :: string
  sn_index :: index
  sn_listeners :: "'n listener list"
  sn_hosts :: "'n cfg_host list"
  sn_backends :: backend_map
  sn_certificates :: "cfg_tls list"
  sn_error_log :: "(string \<times> string) option"
  sn_log_rotation :: rotation
  sn_default_access_log :: "string option"

definition host_view :: "'n cfg_host \<Rightarrow> virtual_host" where
  "host_view h = \<lparr>vh_listener = ch_listener h, vh_names = ch_names h, vh_default = ch_default h, vh_ingress = ch_ingress h,
     vh_routes = map route.truncate (ch_routes h)\<rparr>"

definition snapshot_reindex :: "'n snapshot \<Rightarrow> 'n snapshot" where
  "snapshot_reindex sn = sn\<lparr>sn_index := build (map host_view (sn_hosts sn))\<rparr>"

definition route_position :: "'n snapshot \<Rightarrow> socket_addr \<Rightarrow> string \<Rightarrow> string \<Rightarrow> (nat \<times> nat) option" where
  "route_position sn listener host path = index_route (sn_index sn) (map host_view (sn_hosts sn)) listener host path"

definition snapshot_certificate :: "'n snapshot \<Rightarrow> socket_addr \<Rightarrow> string \<Rightarrow> (string \<times> string) option" where
  "snapshot_certificate sn = certificate (map tls_host.truncate (sn_certificates sn))"

definition header_timeout :: "'n snapshot \<Rightarrow> socket_addr \<Rightarrow> duration" where
  "header_timeout sn listener =
     (case or_else (find (\<lambda>h. ch_listener h = listener \<and> ch_default h) (sn_hosts sn))
                   (find (\<lambda>h. ch_listener h = listener) (sn_hosts sn)) of
        Some h \<Rightarrow> (case ch_routes h of [] \<Rightarrow> from_secs 60 | r # _ \<Rightarrow> st_client_header_timeout (rt_settings r))
      | None \<Rightarrow> from_secs 60)"

section \<open>Routes\<close>

fun url_host_text :: "'n outside \<Rightarrow> url_host \<Rightarrow> string" where
  "url_host_text w (Domain name) = name"
| "url_host_text w (UrlIp a) = show_ip w a"

text \<open>\<open>proxy_url\<close> has checked that the target starts with its scheme.\<close>

definition after_scheme :: "string \<Rightarrow> string" where
  "after_scheme v = (if starts_with v ''http://'' then drop 7 v else drop 8 v)"

definition target_uri :: "string \<Rightarrow> string option" where
  "target_uri authority = (case dropWhile (\<lambda>c. c \<noteq> CHR ''/'') authority of [] \<Rightarrow> None | u \<Rightarrow> Some u)"

definition target_key :: "string \<Rightarrow> string" where
  "target_key v = join ''/'' (take 3 (split_on CHR ''/'' v))"

definition build_target ::
  "'n outside \<Rightarrow> string \<Rightarrow> backend_map \<Rightarrow> (load_error, action \<times> backend_map) result" where
  "build_target w target backends =
     bindR (proxy_url w target) (\<lambda>u.
     bindR (ok_or (ul_host u) (Msg ''proxy_pass missing host'')) (\<lambda>h.
     let host = url_host_text w h; authority = after_scheme target; key = target_key target; tls = (ul_scheme u = ''https'') in
     bindR (ensure (CHR ''?'' \<in> set authority \<longrightarrow> CHR ''/'' \<in> set (takeWhile (\<lambda>c. c \<noteq> CHR ''?'') authority))
       (Msg ''proxy_pass query requires a URI path'')) (\<lambda>_.
     bindR
       (case bt_get backends host of
          Some (pool, profile) \<Rightarrow>
            bindR (ensure (ul_port u = None) (Msg ''named upstream cannot have an explicit port'')) (\<lambda>_.
            Inr (bt_or_insert key (transport (show_socket w) (clock w) pool tls host host, profile) backends))
        | None \<Rightarrow>
            if bt_get backends key \<noteq> None then Inr backends
            else
              bindR (ok_or (ul_known_port u) (Msg ''missing upstream port'')) (\<lambda>port.
              bindR (ok_or (lookup_host w host port) (Msg ''lookup'')) (\<lambda>addresses.
              bindR (ensure (addresses \<noteq> []) (Msg ''upstream has no resolved addresses'')) (\<lambda>_.
              Inr (bt_insert key
                ((new_backend (show_socket w) (clock w) (map (\<lambda>a. \<lparr>ep_address = a, ep_weight = 1\<rparr>) addresses) tls host (ul_authority u))
                   \<lparr>bk_origins := [\<lparr>or_host = host, or_port = port, or_weight = 1\<rparr>]\<rparr>, default_profile) backends)))))
       (\<lambda>backends'. Inr (Proxy key (target_uri authority), backends')))))"

definition build_route ::
  "'n outside \<Rightarrow> string \<Rightarrow> path_match \<Rightarrow> 'n scope \<Rightarrow> backend_map \<Rightarrow> (load_error, 'n cfg_route \<times> backend_map) result" where
  "build_route w name matcher s backends =
     (let st = sc_settings s; mtls = se_mtls (st_security st) in
      bindR (ensure (mt_mode mtls = TlsOff \<or> mt_store mtls \<noteq> None) (Msg ''ssl_verify_client requires ssl_client_certificate'')) (\<lambda>_.
      bindR (case (sc_upstream_cert s, sc_upstream_key s) of
               (Some cert, Some key) \<Rightarrow>
                 bindR (read_text w cert) (\<lambda>c. bindR (read_text w key) (\<lambda>k. profile_set_identity w c k (st_upstream st)))
             | (None, None) \<Rightarrow> Inr (st_upstream st)
             | _ \<Rightarrow> Inl (Msg ''proxy_ssl_certificate and proxy_ssl_certificate_key must be configured together'')) (\<lambda>profile.
      bindR (case sc_action s of
               Some (Proxy target _) \<Rightarrow> build_target w target backends
             | Some a \<Rightarrow> Inr (a, backends)
             | None \<Rightarrow> Inr (Static, backends)) (\<lambda>(act, backends').
      bindR (case sc_script s of
               None \<Rightarrow> Inr None
             | Some p \<Rightarrow> bindR (ok_or (compile_script w p) (Msg ''script'')) (\<lambda>d. Inr (Some d))) (\<lambda>script.
      Inr (\<lparr>route_id = name, route_matcher = matcher, route_action = act, rt_settings = st\<lparr>st_upstream := profile\<rparr>,
            rt_script = script, rt_allowed = map (\<lambda>k. (k, k)) (bt_keys backends')\<rparr>, backends'))))))"

section \<open>Servers\<close>

record 'n loading =
  ld_backends :: backend_map
  ld_listeners :: "(socket_addr, 'n listener) btree"
  ld_defaults :: "socket_addr list"
  ld_hosts :: "'n cfg_host list"
  ld_certificates :: "cfg_tls list"

fun server_children ::
  "'n outside \<Rightarrow> string \<Rightarrow> directive list \<Rightarrow> 'n scope \<times> string list \<times> listen_spec list \<Rightarrow>
   (load_error, 'n scope \<times> string list \<times> listen_spec list) result" where
  "server_children w base [] x = Inr x"
| "server_children w base (n # ns) (local, names, listens) =
     (if dr_name n = ''server_name'' then
        bindR (leaf n) (\<lambda>_.
        bindR (ensure (dr_args n \<noteq> []) (Src (dr_source n) (Msg ''expected server names''))) (\<lambda>_.
        bindR (map_err (Src (dr_source n)) (for_each validate_host (dr_args n))) (\<lambda>_.
        server_children w base ns (local, names @ map to_ascii_lowercase (dr_args n), listens))))
      else if dr_name n = ''listen'' then
        bindR (parse_listen n) (\<lambda>l. server_children w base ns (local, names, listens @ [l]))
      else if dr_name n = ''location'' then server_children w base ns (local, names, listens)
      else bindR (apply_directive w base ''server'' n local) (\<lambda>local'. server_children w base ns (local', names, listens)))"

definition location_matcher :: "directive \<Rightarrow> (load_error, path_match) result" where
  "location_matcher n =
     (case dr_args n of
        [p] \<Rightarrow> if starts_with p ''/'' then Inr (NginxPrefix p) else Inl (Src (dr_source n) (Msg ''locations''))
      | [eq, p] \<Rightarrow> if eq = ''='' \<and> starts_with p ''/'' then Inr (Exact p) else Inl (Src (dr_source n) (Msg ''locations''))
      | _ \<Rightarrow> Inl (Src (dr_source n) (Msg ''only plain-prefix and exact locations are supported'')))"

definition route_name :: "nat \<Rightarrow> string \<Rightarrow> string" where
  "route_name i p = ''server-'' @ to_decimal i @ '':'' @ p"

fun load_locations ::
  "'n outside \<Rightarrow> string \<Rightarrow> nat \<Rightarrow> 'n scope \<Rightarrow> directive list \<Rightarrow> 'n cfg_route list \<times> backend_map \<Rightarrow>
   (load_error, 'n cfg_route list \<times> backend_map) result" where
  "load_locations w base i local [] x = Inr x"
| "load_locations w base i local (n # ns) (routes, backends) =
     bindR (location_matcher n) (\<lambda>matcher.
     bindR (ensure (\<not> list_ex (\<lambda>r. route_matcher r = matcher) routes) (Src (dr_source n) (Msg ''duplicate location''))) (\<lambda>_.
     bindR (block n) (\<lambda>children.
     bindR (apply_all w base ''location'' children (reset_header_inheritance children local)) (\<lambda>s.
     bindR (map_err (Src (dr_source n)) (build_route w (route_name i (path_match_path matcher)) matcher s backends)) (\<lambda>(r, backends').
     load_locations w base i local ns (routes @ [r], backends'))))))"

abbreviation root_matcher :: path_match where
  "root_matcher \<equiv> NginxPrefix ''/''"

definition early_scope :: "'n scope \<Rightarrow> 'n scope" where
  "early_scope local = local\<lparr>sc_script := None, sc_settings := (sc_settings local)\<lparr>st_max_body := 0\<rparr>\<rparr>"

definition server_routes ::
  "'n outside \<Rightarrow> string \<Rightarrow> nat \<Rightarrow> directive \<Rightarrow> 'n scope \<Rightarrow> directive list \<Rightarrow> backend_map \<Rightarrow>
   (load_error, 'n cfg_route list \<times> backend_map) result" where
  "server_routes w base i server local children backends =
     bindR (load_locations w base i local (filter (\<lambda>n. dr_name n = ''location'') children) ([], backends)) (\<lambda>(routes, backends1).
     bindR (if list_ex (\<lambda>r. route_matcher r = root_matcher) routes then Inr (routes, backends1)
            else bindR (map_err (Src (dr_source server)) (build_route w (route_name i ''/'') root_matcher local backends1))
              (\<lambda>(r, bs). Inr (routes @ [r], bs))) (\<lambda>(routes2, backends2).
     if is_return (sc_action local) then
       bindR (build_route w (route_name i ''return'') root_matcher (early_scope local) backends2) (\<lambda>(r, bs). Inr ([r], bs))
     else Inr (routes2, backends2)))"

definition server_certificate :: "'n outside \<Rightarrow> directive \<Rightarrow> 'n scope \<Rightarrow> (load_error, (string \<times> string) option) result" where
  "server_certificate w server local =
     (case (sc_cert local, sc_key local) of
        (Some cert, Some key) \<Rightarrow>
          bindR (ok_or (read_file w cert) (Msg ''read'')) (\<lambda>c.
          bindR (ok_or (read_file w key) (Msg ''read'')) (\<lambda>k.
          bindR (ensure (certificate_ok w c k) (Msg ''certificate'')) (\<lambda>_. Inr (Some (c, k)))))
      | (None, None) \<Rightarrow> Inr None
      | _ \<Rightarrow> Inl (Src (dr_source server) (Msg ''both ssl_certificate and ssl_certificate_key are required'')))"

definition make_listener :: "'n scope \<Rightarrow> listen_spec \<Rightarrow> 'n listener" where
  "make_listener local l =
     \<lparr>li_address = ls_address l, li_tls = ls_tls l, li_http2 = sc_http2 local, li_proxy_protocol = ls_proxy_protocol l,
      li_proxy_trusted = (if ls_proxy_protocol l then id_trusted (st_identity (sc_settings local)) else [])\<rparr>"

definition tls_entries :: "'n outside \<Rightarrow> (string \<times> string) option \<Rightarrow> 'n scope \<Rightarrow> socket_addr \<Rightarrow> bool \<Rightarrow> string list \<Rightarrow> (load_error, cfg_tls list) result" where
  "tls_entries w cert local address is_default names =
     bindR (ok_or cert (Msg ''TLS listener requires a certificate'')) (\<lambda>c.
     collect_result (\<lambda>name.
       bindR (ensure (certificate_covers w c name) (Msg ''certificate does not cover configured host'')) (\<lambda>_.
       Inr \<lparr>tls_listener = address, tls_name = name, tls_ingress = False, tls_default = is_default, tls_certificate = Some c,
            th_client_auth = se_mtls (st_security (sc_settings local))\<rparr>)) names)"

definition add_listen ::
  "'n outside \<Rightarrow> directive \<Rightarrow> 'n scope \<Rightarrow> string list \<Rightarrow> 'n cfg_route list \<Rightarrow> (string \<times> string) option \<Rightarrow> listen_spec \<Rightarrow> 'n loading \<Rightarrow>
   (load_error, 'n loading) result" where
  "add_listen w server local names routes cert l ld =
     (let address = ls_address l; listener = make_listener local l in
      bindR (ensure (ls_default l \<longrightarrow> address \<notin> set (ld_defaults ld)) (Src (dr_source server) (Msg ''duplicate default_server''))) (\<lambda>_.
      bindR (ensure (\<not> ls_proxy_protocol l \<or> li_proxy_trusted listener \<noteq> [])
        (Src (dr_source server) (Msg ''PROXY protocol requires set_real_ip_from''))) (\<lambda>_.
      bindR (ensure (is_none_or (bt_get (ld_listeners ld) address) (\<lambda>e. e = listener))
        (Src (dr_source server) (Msg ''conflicting TLS/http2 options on listener''))) (\<lambda>_.
      let first = (\<not> list_ex (\<lambda>h. ch_listener h = address) (ld_hosts ld));
          hosts = (if ls_default l then map (\<lambda>h. if ch_listener h = address then h\<lparr>ch_default := False\<rparr> else h) (ld_hosts ld) else ld_hosts ld);
          certs = (if ls_default l then map (\<lambda>c. if tls_listener c = address then c\<lparr>tls_default := False\<rparr> else c) (ld_certificates ld)
                   else ld_certificates ld);
          is_default = (ls_default l \<or> first) in
      bindR (if ls_tls l then tls_entries w cert local address is_default names else Inr []) (\<lambda>entries.
      Inr (ld\<lparr>ld_defaults := (if ls_default l then address # ld_defaults ld else ld_defaults ld),
              ld_listeners := bt_insert address listener (ld_listeners ld),
              ld_certificates := certs @ entries,
              ld_hosts := hosts @ [\<lparr>ch_listener = address, ch_names = names, ch_default = is_default, ch_ingress = False, ch_routes = routes\<rparr>]\<rparr>))))))"

fun add_listens ::
  "'n outside \<Rightarrow> directive \<Rightarrow> 'n scope \<Rightarrow> string list \<Rightarrow> 'n cfg_route list \<Rightarrow> (string \<times> string) option \<Rightarrow> listen_spec list \<Rightarrow> 'n loading \<Rightarrow>
   (load_error, 'n loading) result" where
  "add_listens w server local names routes cert [] ld = Inr ld"
| "add_listens w server local names routes cert (l # ls) ld =
     bindR (add_listen w server local names routes cert l ld) (add_listens w server local names routes cert ls)"

definition default_listen :: listen_spec where
  "default_listen = \<lparr>ls_address = SockV4 0 80, ls_tls = False, ls_default = False, ls_proxy_protocol = False\<rparr>"

definition load_server :: "'n outside \<Rightarrow> string \<Rightarrow> 'n scope \<Rightarrow> nat \<Rightarrow> directive \<Rightarrow> 'n loading \<Rightarrow> (load_error, 'n loading) result" where
  "load_server w base scope i server ld =
     bindR (ensure (dr_args server = []) (Src (dr_source server) (Msg ''server block takes no arguments''))) (\<lambda>_.
     bindR (block server) (\<lambda>children.
     bindR (server_children w base children (reset_header_inheritance children scope, [], [])) (\<lambda>(local, names, listens).
     let names' = (if names = [] then [[]] else names); listens' = (if listens = [] then [default_listen] else listens) in
     bindR (server_routes w base i server local children (ld_backends ld)) (\<lambda>(routes, backends).
     bindR (server_certificate w server local) (\<lambda>cert.
     add_listens w server local names' routes cert listens' (ld\<lparr>ld_backends := backends\<rparr>))))))"

fun load_servers :: "'n outside \<Rightarrow> string \<Rightarrow> 'n scope \<Rightarrow> nat \<Rightarrow> directive list \<Rightarrow> 'n loading \<Rightarrow> (load_error, 'n loading) result" where
  "load_servers w base scope i [] ld = Inr ld"
| "load_servers w base scope i (server # servers) ld =
     bindR (load_server w base scope i server ld) (load_servers w base scope (Suc i) servers)"

section \<open>The whole configuration\<close>

fun http_block :: "directive list \<Rightarrow> directive list option \<Rightarrow> (load_error, directive list option) result" where
  "http_block [] http = Inr http"
| "http_block (n # ns) http =
     (if dr_name n = ''http'' then
        bindR (ensure (http = None) (Src (dr_source n) (Msg ''duplicate http''))) (\<lambda>_.
        bindR (ensure (dr_args n = []) (Src (dr_source n) (Msg ''http takes no arguments''))) (\<lambda>_.
        bindR (block n) (\<lambda>children. http_block ns (Some children))))
      else if dr_name n = ''events'' then
        bindR (if dr_args n = [] then bindR (block n) (\<lambda>children. Inr (children = [])) else Inr False) (\<lambda>empty.
        bindR (ensure empty (Src (dr_source n) (Msg ''only empty events is supported''))) (\<lambda>_. http_block ns http))
      else Inl (Src (dr_source n) (Msg ''unsupported top-level directive'')))"

fun load_upstreams :: "'n outside \<Rightarrow> directive list \<Rightarrow> backend_map \<Rightarrow> (load_error, backend_map) result" where
  "load_upstreams w [] backends = Inr backends"
| "load_upstreams w (n # ns) backends =
     bindR (map_err (Src (dr_source n)) (upstream_load w n)) (\<lambda>(name, b).
     bindR (ensure (bt_get backends name = None) (Src (dr_source n) (Msg ''duplicate upstream''))) (\<lambda>_.
     load_upstreams w ns (bt_insert name (b, default_profile) backends)))"

text \<open>A group's alias is the transport of its name that some route uses, when there is only one.\<close>

definition alias_transports :: "string \<Rightarrow> backend_map \<Rightarrow> (bool, backend \<times> transport_profile) btree" where
  "alias_transports name backends =
     bt_collect (map (\<lambda>(_, x). (bk_tls (fst x), x)) (filter (\<lambda>(k, x). contains_str k ''://'' \<and> bk_hostname (fst x) = name) backends))"

fun bind_aliases :: "bool \<Rightarrow> directive list \<Rightarrow> backend_map \<Rightarrow> (load_error, backend_map) result" where
  "bind_aliases has_scripts [] backends = Inr backends"
| "bind_aliases has_scripts (n # ns) backends =
     (let name = hd (dr_args n); transports = alias_transports name backends in
      bindR (ensure (\<not> has_scripts \<or> length transports \<le> 1) (Src (dr_source n) (Msg ''script backend alias is ambiguous''))) (\<lambda>_.
      bind_aliases has_scripts ns (if length transports = 1 then bt_insert name (snd (hd transports)) backends else backends)))"

definition configured_key :: "'n outside \<Rightarrow> string \<Rightarrow> transport_profile \<Rightarrow> string" where
  "configured_key w key profile = key @ ''#tls-'' @ hex_lower (to_be_bytes 8 (unat (profile_hash w profile)))"

definition retarget :: "string \<Rightarrow> string \<Rightarrow> action \<Rightarrow> action" where
  "retarget key new a = (case a of Proxy b uri \<Rightarrow> if b = key then Proxy new uri else a | _ \<Rightarrow> a)"

fun configure_allowed ::
  "'n outside \<Rightarrow> backend_map \<Rightarrow> transport_profile \<Rightarrow> (string, string) btree \<Rightarrow> action \<Rightarrow> backend_map \<Rightarrow>
   (string, string) btree \<times> action \<times> backend_map" where
  "configure_allowed w base profile [] act backends = ([], act, backends)"
| "configure_allowed w base profile ((name, key) # es) act backends =
     (case bt_get base key of
        Some (b, p) \<Rightarrow>
          if op_health (bk_options b) \<noteq> None then
            let new = configured_key w key profile;
                backends' = bt_or_insert new (transport (show_socket w) (clock w) b (bk_tls b) (bk_hostname b) (bk_host_header b), profile) backends;
                (es', act', backends'') = configure_allowed w base profile es (retarget key new act) backends'
            in ((name, new) # es', act', backends'')
          else let (es', act', backends') = configure_allowed w base profile es act backends in ((name, key) # es', act', backends')
      | None \<Rightarrow> let (es', act', backends') = configure_allowed w base profile es act backends in ((name, key) # es', act', backends'))"

definition configure_route :: "'n outside \<Rightarrow> backend_map \<Rightarrow> 'n cfg_route \<Rightarrow> backend_map \<Rightarrow> 'n cfg_route \<times> backend_map" where
  "configure_route w base r backends =
     (let (es, act, backends') = configure_allowed w base (st_upstream (rt_settings r)) (rt_allowed r) (route_action r) backends
      in (r\<lparr>rt_allowed := es, route_action := act\<rparr>, backends'))"

fun configure_routes :: "'n outside \<Rightarrow> backend_map \<Rightarrow> 'n cfg_route list \<Rightarrow> backend_map \<Rightarrow> 'n cfg_route list \<times> backend_map" where
  "configure_routes w base [] backends = ([], backends)"
| "configure_routes w base (r # rs) backends =
     (let (r', backends1) = configure_route w base r backends; (rs', backends2) = configure_routes w base rs backends1
      in (r' # rs', backends2))"

fun configure_hosts :: "'n outside \<Rightarrow> backend_map \<Rightarrow> 'n cfg_host list \<Rightarrow> backend_map \<Rightarrow> 'n cfg_host list \<times> backend_map" where
  "configure_hosts w base [] backends = ([], backends)"
| "configure_hosts w base (h # hs) backends =
     (let (rs, backends1) = configure_routes w base (ch_routes h) backends; (hs', backends2) = configure_hosts w base hs backends1
      in (h\<lparr>ch_routes := rs\<rparr> # hs', backends2))"

definition named :: "string \<Rightarrow> directive list \<Rightarrow> directive list" where
  "named name nodes = filter (\<lambda>n. dr_name n = name) nodes"

definition load_nodes ::
  "'n outside \<Rightarrow> ('n snapshot \<Rightarrow> string option) \<Rightarrow> directive list \<Rightarrow> string \<Rightarrow> nat \<Rightarrow> (load_error, 'n snapshot) result" where
  "load_nodes w fingerprint nodes base version =
     bindR (http_block nodes None) (\<lambda>found.
     bindR (ok_or found (Msg ''configuration requires an http block'')) (\<lambda>http.
     bindR (apply_all w base ''http'' (filter (\<lambda>n. dr_name n \<noteq> ''server'' \<and> dr_name n \<noteq> ''upstream'') http)
       (default_scope\<lparr>sc_settings := default_settings\<lparr>st_root := path_join base ''html''\<rparr>\<rparr>)) (\<lambda>scope.
     bindR (load_upstreams w (named ''upstream'' http) []) (\<lambda>backends.
     bindR (load_servers w base scope 0 (named ''server'' http)
       \<lparr>ld_backends = backends, ld_listeners = [], ld_defaults = [], ld_hosts = [], ld_certificates = []\<rparr>) (\<lambda>ld.
     bindR (ensure (ld_hosts ld \<noteq> []) (Msg ''http requires at least one server'')) (\<lambda>_.
     bindR (bind_aliases (list_ex (\<lambda>h. list_ex (\<lambda>r. rt_script r \<noteq> None) (ch_routes h)) (ld_hosts ld)) (named ''upstream'' http) (ld_backends ld)) (\<lambda>bound.
     let (hosts, configured) = configure_hosts w bound (ld_hosts ld) bound;
         sn = \<lparr>sn_version = version, sn_content_hash = [], sn_index = empty_index, sn_listeners = bt_values (ld_listeners ld),
               sn_hosts = hosts, sn_backends = configured, sn_certificates = ld_certificates ld, sn_error_log = sc_error_log scope,
               sn_log_rotation = sc_log_rotation scope, sn_default_access_log = st_access_log (sc_settings scope)\<rparr> in
     bindR (ok_or (fingerprint sn) (Msg ''fingerprint'')) (\<lambda>hash.
     Inr (snapshot_reindex (sn\<lparr>sn_content_hash := hash\<rparr>))))))))))"

definition load_direct ::
  "'n outside \<Rightarrow> files \<Rightarrow> ('n snapshot \<Rightarrow> string option) \<Rightarrow> string \<Rightarrow> nat \<Rightarrow> (load_error, 'n snapshot) result" where
  "load_direct w fs fingerprint path version =
     bindR (ok_or (fs_canonicalize fs path) (Msg ''canonicalize'')) (\<lambda>absolute.
     bindR (ok_or (path_parent absolute) (Msg ''unwrap'')) (\<lambda>base.
     bindR (map_err Syntax (load_config fs absolute)) (\<lambda>nodes.
     load_nodes w fingerprint nodes base version)))"

end
