(* ===== verification/Config_Correct.thy ===== *)
theory Config_Correct
  imports Config_Load
begin

text \<open>
  What holds of every configuration the loader accepts: the backends its routes name exist and have endpoints, the
  settings of every route passed their checks, and every listener has a default host and, with TLS, a default
  certificate, so that every request is routed.
\<close>

section \<open>Backends\<close>

definition known :: "backend_map \<Rightarrow> string \<Rightarrow> bool" where
  "known bs k \<longleftrightarrow> bt_get bs k \<noteq> None"

definition backends_ok :: "backend_map \<Rightarrow> bool" where
  "backends_ok bs \<longleftrightarrow> (\<forall>(k, b, p)\<in>set bs. bk_endpoints b \<noteq> [])"

definition grows :: "backend_map \<Rightarrow> backend_map \<Rightarrow> bool" where
  "grows bs bs' \<longleftrightarrow> (\<forall>k. known bs k \<longrightarrow> known bs' k) \<and> (backends_ok bs \<longrightarrow> backends_ok bs')"

lemma grows_refl [simp]: "grows bs bs"
  by (simp add: grows_def)

lemma grows_trans: "grows a b \<Longrightarrow> grows b c \<Longrightarrow> grows a c"
  by (auto simp: grows_def)

lemma grows_insert: "(backends_ok bs \<Longrightarrow> bk_endpoints (fst x) \<noteq> []) \<Longrightarrow> grows bs (bt_insert k x bs)"
  using set_bt_insert [of k x bs] by (cases x) (fastforce simp: grows_def known_def backends_ok_def)

lemma grows_or_insert: "(backends_ok bs \<Longrightarrow> bk_endpoints b \<noteq> []) \<Longrightarrow> grows bs (bt_or_insert k (b, p) bs)"
  using grows_insert [of bs "(b, p)" k] by (auto simp: bt_or_insert_def split: option.split)

lemma known_or_insert [simp]: "known (bt_or_insert k x bs) k"
  by (auto simp: known_def bt_or_insert_def split: option.split)

lemma transport_endpoints [simp]: "bk_endpoints (transport sh now b tls h hh) = bk_endpoints b"
  by (simp add: transport_def new_backend_def)

lemma backends_okD: "backends_ok bs \<Longrightarrow> bt_get bs k = Some (b, p) \<Longrightarrow> bk_endpoints b \<noteq> []"
  unfolding backends_ok_def by (fastforce dest: map_of_SomeD)

lemma build_target_refs:
  assumes "build_target w target bs = Inr (a, bs')"
  shows "grows bs bs'" and "\<exists>k uri. a = Proxy k uri \<and> known bs' k"
proof -
  from assms obtain u h where "proxy_url w target = Inr u" "ul_host u = Some h"
    and a: "a = Proxy (target_key target) (target_uri (after_scheme target))"
    and bs': "(case bt_get bs (url_host_text w h) of
          Some (pool, profile) \<Rightarrow>
            bindR (ensure (ul_port u = None) (Msg ''named upstream cannot have an explicit port'')) (\<lambda>_.
            Inr (bt_or_insert (target_key target)
              (transport (show_socket w) (clock w) pool (ul_scheme u = ''https'') (url_host_text w h) (url_host_text w h), profile) bs))
        | None \<Rightarrow>
            if bt_get bs (target_key target) \<noteq> None then Inr bs
            else
              bindR (ok_or (ul_known_port u) (Msg ''missing upstream port'')) (\<lambda>port.
              bindR (ok_or (lookup_host w (url_host_text w h) port) (Msg ''lookup'')) (\<lambda>addresses.
              bindR (ensure (addresses \<noteq> []) (Msg ''upstream has no resolved addresses'')) (\<lambda>_.
              Inr (bt_insert (target_key target)
                ((new_backend (show_socket w) (clock w) (map (\<lambda>a. \<lparr>ep_address = a, ep_weight = 1\<rparr>) addresses)
                    (ul_scheme u = ''https'') (url_host_text w h) (ul_authority u))
                   \<lparr>bk_origins := [\<lparr>or_host = url_host_text w h, or_port = port, or_weight = 1\<rparr>]\<rparr>, default_profile) bs))))) = Inr bs'"
    by (auto simp: build_target_def Let_def result_simps)
  have "grows bs bs' \<and> known bs' (target_key target)"
  proof (cases "bt_get bs (url_host_text w h)")
    case None
    then show ?thesis using bs' by (auto simp: result_simps known_def new_backend_def intro!: grows_insert split: if_splits)
  next
    case (Some x)
    then show ?thesis using bs' backends_okD [of bs "url_host_text w h"]
      by (cases x) (auto simp: result_simps intro!: grows_or_insert)
  qed
  with a show "grows bs bs'" "\<exists>k uri. a = Proxy k uri \<and> known bs' k" by auto
qed

section \<open>Routes\<close>

definition refs_ok :: "backend_map \<Rightarrow> 'n cfg_route \<Rightarrow> bool" where
  "refs_ok bs r \<longleftrightarrow> (\<forall>k uri. route_action r = Proxy k uri \<longrightarrow> known bs k) \<and> (\<forall>(_, k)\<in>set (rt_allowed r). known bs k)"

definition checked_route :: "'n outside \<Rightarrow> 'n cfg_route \<Rightarrow> bool" where
  "checked_route w r \<longleftrightarrow>
     settings_ok w (rt_settings r)
     \<and> (mt_mode (se_mtls (st_security (rt_settings r))) = TlsOff \<or> mt_store (se_mtls (st_security (rt_settings r))) \<noteq> None)
     \<and> (\<forall>status txt. route_action r = Return status txt \<longrightarrow> 200 \<le> unat status \<and> unat status \<le> 599 \<and> validate_variables txt = Inr ())
     \<and> route_action r \<noteq> Unavailable"

definition plain_matcher :: "path_match \<Rightarrow> bool" where
  "plain_matcher m \<longleftrightarrow> (\<exists>p. (m = NginxPrefix p \<or> m = Exact p) \<and> utf8_shaped p)"

definition routes_ok :: "'n outside \<Rightarrow> backend_map \<Rightarrow> 'n cfg_route list \<Rightarrow> bool" where
  "routes_ok w bs rs \<longleftrightarrow> (\<forall>r\<in>set rs. refs_ok bs r \<and> checked_route w r \<and> plain_matcher (route_matcher r))"

lemma refs_ok_grows: "refs_ok bs r \<Longrightarrow> grows bs bs' \<Longrightarrow> refs_ok bs' r"
  by (auto simp: refs_ok_def grows_def)

lemma routes_ok_grows: "routes_ok w bs rs \<Longrightarrow> grows bs bs' \<Longrightarrow> routes_ok w bs' rs"
  by (auto simp: routes_ok_def refs_ok_grows)

lemma build_route_ok:
  assumes "build_route w name m s bs = Inr (r, bs')" and "scope_ok w s" and "plain_matcher m"
  shows "grows bs bs'" and "routes_ok w bs' [r]" and "route_matcher r = m"
proof -
  from assms(1) obtain profile act script where
    mtls: "mt_mode (se_mtls (st_security (sc_settings s))) = TlsOff \<or> mt_store (se_mtls (st_security (sc_settings s))) \<noteq> None"
    and act: "(case sc_action s of Some (Proxy target _) \<Rightarrow> build_target w target bs | Some a \<Rightarrow> Inr (a, bs) | None \<Rightarrow> Inr (Static, bs)) = Inr (act, bs')"
    and r: "r = \<lparr>route_id = name, route_matcher = m, route_action = act, rt_settings = (sc_settings s)\<lparr>st_upstream := profile\<rparr>,
            rt_script = script, rt_allowed = map (\<lambda>k. (k, k)) (bt_keys bs')\<rparr>"
    by (auto simp: build_route_def Let_def result_simps)
  have "grows bs bs' \<and> (\<forall>k uri. act = Proxy k uri \<longrightarrow> known bs' k) \<and> act \<noteq> Unavailable
      \<and> (\<forall>status txt. act = Return status txt \<longrightarrow> 200 \<le> unat status \<and> unat status \<le> 599 \<and> validate_variables txt = Inr ())"
  proof (cases "sc_action s")
    case None
    then show ?thesis using act by auto
  next
    case (Some a)
    then show ?thesis using act assms(2) build_target_refs [of w _ bs act bs'] by (cases a) (auto simp: scope_ok_def)
  qed
  moreover have "known bs' k" if "k \<in> set (bt_keys bs')" for k using that by (auto simp: set_bt_keys known_def)
  moreover have "settings_ok w ((sc_settings s)\<lparr>st_upstream := profile\<rparr>)"
    using assms(2) by (simp add: scope_ok_def settings_defs)
  ultimately show "grows bs bs'" "routes_ok w bs' [r]" "route_matcher r = m"
    using mtls assms(3) by (auto simp: r routes_ok_def refs_ok_def checked_route_def)
qed

lemma routes_ok_append [simp]: "routes_ok w bs (rs @ rs') \<longleftrightarrow> routes_ok w bs rs \<and> routes_ok w bs rs'"
  by (auto simp: routes_ok_def)

lemma routes_ok_Nil [simp]: "routes_ok w bs []"
  by (simp add: routes_ok_def)

lemma utf8_valid_shaped: "utf8_valid s \<Longrightarrow> utf8_shaped s"
proof (induction s rule: utf8_shaped.induct)
  case (2 c s)
  have cont: "byte_in b 0xA0 0xBF \<or> byte_in b 0x80 0x9F \<or> byte_in b 0x90 0xBF \<or> byte_in b 0x80 0x8F \<Longrightarrow> is_cont b" for b
    by (auto simp: byte_in_def is_cont_byte)
  have w: "byte_in c 0 0x7F \<Longrightarrow> utf8_width c = 1" "byte_in c 0xC2 0xDF \<Longrightarrow> utf8_width c = 2"
    "byte_in c 0xE0 0xEF \<Longrightarrow> utf8_width c = 3" "byte_in c 0xF0 0xF4 \<Longrightarrow> utf8_width c = 4"
    by (auto simp: byte_in_def utf8_width_def less_char_def)
  show ?case
  proof (cases "byte_in c 0 0x7F")
    case True
    then show ?thesis using 2 w by simp
  next
    case False
    with 2(2) obtain b s1 where s: "s = b # s1" by (cases s) auto
    show ?thesis
    proof (cases "byte_in c 0xC2 0xDF")
      case True
      then show ?thesis using 2 w False by (simp add: s)
    next
      case no2: False
      with 2(2) False s obtain d s2 where s1: "s1 = d # s2" by (cases s1) auto
      show ?thesis
      proof (cases "byte_in c 0xE0 0xEF")
        case True
        then show ?thesis using 2 w False no2 cont [of b] by (auto simp: s s1 numeral_eq_Suc split: if_splits)
      next
        case no3: False
        with 2(2) False no2 s s1 obtain e s3 where s2: "s2 = e # s3" by (cases s2) auto
        show ?thesis using 2 w False no2 no3 cont [of b] by (auto simp: s s1 s2 numeral_eq_Suc split: if_splits)
      qed
    qed
  qed
qed simp

lemma location_matcher_plain:
  "location_matcher n = Inr m \<Longrightarrow> words_valid n \<Longrightarrow> plain_matcher m"
  by (cases n) (auto simp: location_matcher_def plain_matcher_def utf8_valid_shaped split: list.splits if_splits)

section \<open>Servers\<close>

definition has_root :: "'n cfg_route list \<Rightarrow> bool" where
  "has_root rs \<longleftrightarrow> (\<exists>r\<in>set rs. route_matcher r = root_matcher)"

lemma root_plain: "plain_matcher root_matcher"
  by (auto simp: plain_matcher_def utf8_width_def less_char_def)

lemma load_locations_ok:
  assumes "load_locations w base i local ns (rs, bs) = Inr (rs', bs')" and "scope_ok w local" and "list_all words_valid ns"
    and "routes_ok w bs rs"
  shows "grows bs bs' \<and> routes_ok w bs' rs'"
  using assms
proof (induction ns arbitrary: rs bs)
  case (Cons n ns)
  from Cons.prems(1) obtain m children s r bs1 where m: "location_matcher n = Inr m"
    and s: "apply_all w base ''location'' children (reset_header_inheritance children local) = Inr s"
    and r: "build_route w (route_name i (path_match_path m)) m s bs = Inr (r, bs1)"
    and rest: "load_locations w base i local ns (rs @ [r], bs1) = Inr (rs', bs')"
    by (auto simp: result_simps)
  have "scope_ok w s" using apply_all_keep [OF s] reset_header_inheritance_keep Cons.prems(2) by blast
  moreover have "plain_matcher m" using location_matcher_plain [OF m] Cons.prems(3) by simp
  ultimately have "grows bs bs1" "routes_ok w bs1 [r]" using build_route_ok [OF r] by blast+
  moreover from this have "grows bs1 bs' \<and> routes_ok w bs' rs'"
    using Cons.IH [OF rest] Cons.prems routes_ok_grows by auto
  ultimately show ?case using grows_trans by blast
qed simp

lemma server_routes_ok:
  assumes "server_routes w base i server local children bs = Inr (rs, bs')" and ok: "scope_ok w local" and "list_all words_valid children"
  shows "grows bs bs'" and "routes_ok w bs' rs" and "has_root rs"
proof -
  let ?ns = "filter (\<lambda>n. dr_name n = ''location'') children"
  from assms(1) obtain rs1 bs1 rs2 bs2 where
    1: "load_locations w base i local ?ns ([], bs) = Inr (rs1, bs1)" and
    2: "(if list_ex (\<lambda>r. route_matcher r = root_matcher) rs1 then Inr (rs1, bs1)
            else bindR (map_err (Src (dr_source server)) (build_route w (route_name i ''/'') root_matcher local bs1))
              (\<lambda>(r, bs). Inr (rs1 @ [r], bs))) = Inr (rs2, bs2)" and
    3: "(if is_return (sc_action local) then
          bindR (build_route w (route_name i ''return'') root_matcher (early_scope local) bs2) (\<lambda>(r, bs). Inr ([r], bs))
        else Inr (rs2, bs2)) = Inr (rs, bs')"
    by (auto simp: server_routes_def result_simps)
  have 1: "grows bs bs1 \<and> routes_ok w bs1 rs1"
    using load_locations_ok [OF 1 ok] assms(3) by (auto simp: list_all_iff)
  have 2: "grows bs1 bs2 \<and> routes_ok w bs2 rs2 \<and> has_root rs2"
  proof (cases "list_ex (\<lambda>r. route_matcher r = root_matcher) rs1")
    case True
    then show ?thesis using 1 2 by (auto simp: has_root_def list_ex_iff)
  next
    case False
    with 2 obtain r where r: "build_route w (route_name i ''/'') root_matcher local bs1 = Inr (r, bs2)" "rs2 = rs1 @ [r]"
      by (auto simp: result_simps)
    with build_route_ok [OF r(1) ok root_plain] 1 routes_ok_grows show ?thesis by (auto simp: has_root_def)
  qed
  have "scope_ok w (early_scope local)" using ok by (auto simp: scope_ok_def settings_defs early_scope_def)
  then have 3: "grows bs2 bs' \<and> routes_ok w bs' rs \<and> has_root rs"
    using 2 3 build_route_ok [OF _ _ root_plain, of w _ "early_scope local" bs2]
    by (auto simp: result_simps has_root_def split: if_splits)
  from 1 2 3 show "grows bs bs'" "routes_ok w bs' rs" "has_root rs" using grows_trans by blast+
qed

lemma server_children_ok:
  "server_children w base ns (local, names, ls) = Inr (local', names', ls') \<Longrightarrow> scope_ok w local \<Longrightarrow> scope_ok w local'"
  by (induction ns arbitrary: local names ls)
    (auto simp: result_simps split: if_splits dest: keepsD [OF apply_directive_keep])

section \<open>Listeners\<close>

definition settled :: "'n cfg_host list \<Rightarrow> cfg_tls list \<Rightarrow> socket_addr \<Rightarrow> 'n listener \<Rightarrow> bool" where
  "settled hosts certs a l \<longleftrightarrow>
     li_address l = a \<and> (li_proxy_protocol l \<longrightarrow> li_proxy_trusted l \<noteq> [])
     \<and> (\<exists>h\<in>set hosts. ch_listener h = a \<and> ch_default h)
     \<and> (li_tls l \<longrightarrow> (\<exists>c\<in>set certs. tls_listener c = a \<and> tls_default c))"

definition host_ok :: "'n outside \<Rightarrow> backend_map \<Rightarrow> 'n cfg_host \<Rightarrow> bool" where
  "host_ok w bs h \<longleftrightarrow> routes_ok w bs (ch_routes h) \<and> has_root (ch_routes h) \<and> \<not> ch_ingress h"

definition loading_ok :: "'n outside \<Rightarrow> 'n loading \<Rightarrow> bool" where
  "loading_ok w ld \<longleftrightarrow>
     bt_sorted (ld_listeners ld) \<and> backends_ok (ld_backends ld)
     \<and> (\<forall>h\<in>set (ld_hosts ld). host_ok w (ld_backends ld) h \<and> bt_get (ld_listeners ld) (ch_listener h) \<noteq> None)
     \<and> (\<forall>c\<in>set (ld_certificates ld). tls_certificate c \<noteq> None)
     \<and> (\<forall>a l. bt_get (ld_listeners ld) a = Some l \<longrightarrow> settled (ld_hosts ld) (ld_certificates ld) a l)"

lemma host_ok_grows: "host_ok w bs h \<Longrightarrow> grows bs bs' \<Longrightarrow> host_ok w bs' h"
  by (auto simp: host_ok_def intro: routes_ok_grows)

lemma tls_entries_made:
  assumes "tls_entries w cert local a d names = Inr es"
  shows "\<forall>e\<in>set es. tls_listener e = a \<and> tls_default e = d \<and> tls_certificate e \<noteq> None" and "length es = length names"
proof -
  have *: "collect_result f names = Inr es \<Longrightarrow> (\<forall>e\<in>set es. \<exists>n. f n = Inr e) \<and> length es = length names"
    for f :: "string \<Rightarrow> (load_error, cfg_tls) result" and names es
    by (induction names arbitrary: es) (auto simp: result_simps)
  from assms obtain c where c: "cert = Some c" by (auto simp: tls_entries_def result_simps)
  with assms * show "\<forall>e\<in>set es. tls_listener e = a \<and> tls_default e = d \<and> tls_certificate e \<noteq> None" "length es = length names"
    by (fastforce simp: tls_entries_def result_simps)+
qed

lemma add_listen_ok:
  assumes step: "add_listen w server local names routes cert l ld = Inr ld'" and ok: "loading_ok w ld" and names: "names \<noteq> []"
    and routes: "routes_ok w (ld_backends ld) routes" "has_root routes"
  shows "loading_ok w ld'" and "ld_backends ld' = ld_backends ld"
proof -
  let ?a = "ls_address l" and ?li = "make_listener local l"
  let ?first = "\<not> list_ex (\<lambda>h. ch_listener h = ?a) (ld_hosts ld)"
  let ?reset = "\<lambda>h. if ch_listener h = ?a then h\<lparr>ch_default := False\<rparr> else h"
  let ?drop = "\<lambda>c. if tls_listener c = ?a then c\<lparr>tls_default := False\<rparr> else c"
  define hosts where "hosts = (if ls_default l then map ?reset (ld_hosts ld) else ld_hosts ld)"
  define certs where "certs = (if ls_default l then map ?drop (ld_certificates ld) else ld_certificates ld)"
  define d where "d = (ls_default l \<or> ?first)"
  define new where "new = \<lparr>ch_listener = ?a, ch_names = names, ch_default = d, ch_ingress = False, ch_routes = routes\<rparr>"
  from step obtain es where
    trusted: "\<not> ls_proxy_protocol l \<or> li_proxy_trusted ?li \<noteq> []"
    and same: "is_none_or (bt_get (ld_listeners ld) ?a) (\<lambda>e. e = ?li)"
    and es: "(if ls_tls l then tls_entries w cert local ?a d names else Inr []) = Inr es"
    and made: "ld\<lparr>ld_defaults := (if ls_default l then ?a # ld_defaults ld else ld_defaults ld),
      ld_listeners := bt_insert ?a ?li (ld_listeners ld), ld_certificates := certs @ es, ld_hosts := hosts @ [new]\<rparr> = ld'"
    unfolding add_listen_def Let_def bindR_Inr_iff ensure_Inr_iff sum.inject hosts_def certs_def d_def new_def by blast
  note ld' = made [symmetric]
  show backends: "ld_backends ld' = ld_backends ld" by (simp add: ld')
  have es': "\<forall>e\<in>set es. tls_listener e = ?a \<and> tls_default e = d \<and> tls_certificate e \<noteq> None" "ls_tls l \<Longrightarrow> es \<noteq> []"
    using es tls_entries_made [of w cert local ?a d names es] names by (auto split: if_splits)
  have keep: "h \<in> set hosts" if "h \<in> set (ld_hosts ld)" "ch_listener h \<noteq> ?a" for h
    using that by (auto simp: hosts_def image_iff intro!: bexI [of _ h])
  have keep': "c \<in> set certs" if "c \<in> set (ld_certificates ld)" "tls_listener c \<noteq> ?a" for c
    using that by (auto simp: certs_def image_iff intro!: bexI [of _ c])
  have old: "settled (hosts @ [new]) (certs @ es) a x" if x: "bt_get (ld_listeners ld) a = Some x" "a \<noteq> ?a" for a x
  proof -
    have "settled (ld_hosts ld) (ld_certificates ld) a x" using ok x(1) by (simp add: loading_ok_def)
    then show ?thesis using x(2) keep keep' unfolding settled_def by auto
  qed
  have known: "settled (ld_hosts ld) (ld_certificates ld) ?a ?li" if "\<not> d"
  proof -
    from that obtain h where "h \<in> set (ld_hosts ld)" "ch_listener h = ?a" by (auto simp: d_def list_ex_iff)
    with ok obtain x where "bt_get (ld_listeners ld) ?a = Some x" by (fastforce simp: loading_ok_def)
    with same ok show ?thesis by (simp add: is_none_or_def loading_ok_def)
  qed
  have now: "settled (hosts @ [new]) (certs @ es) ?a ?li"
  proof (cases d)
    case True
    then show ?thesis using es' trusted by (cases es) (auto simp: settled_def make_listener_def new_def)
  next
    case False
    then show ?thesis using known [OF False] by (auto simp: settled_def hosts_def certs_def d_def)
  qed
  have "host_ok w (ld_backends ld) h \<and> (ch_listener h = ?a \<or> bt_get (ld_listeners ld) (ch_listener h) \<noteq> None)" if "h \<in> set (hosts @ [new])" for h
  proof (cases "h = new")
    case False
    with that obtain g where "g \<in> set (ld_hosts ld)" "ch_routes h = ch_routes g" "ch_ingress h = ch_ingress g" "ch_listener h = ch_listener g"
      by (auto simp: hosts_def split: if_splits)
    with ok show ?thesis by (auto simp: loading_ok_def host_ok_def)
  qed (use routes in \<open>simp add: host_ok_def new_def\<close>)
  moreover have "\<forall>c\<in>set (certs @ es). tls_certificate c \<noteq> None"
    using ok es' by (auto simp: certs_def loading_ok_def)
  moreover have "bt_sorted (ld_listeners ld')" "backends_ok (ld_backends ld)"
    using ok by (simp_all add: ld' loading_ok_def bt_sorted_insert)
  ultimately show "loading_ok w ld'"
    using now old by (auto simp: loading_ok_def ld')
qed

lemma add_listens_ok:
  assumes "add_listens w server local names routes cert ls ld = Inr ld'" and "loading_ok w ld" and "names \<noteq> []"
    and "routes_ok w (ld_backends ld) routes" "has_root routes"
  shows "loading_ok w ld'"
  using assms(1,2,4)
proof (induction ls arbitrary: ld)
  case (Cons l ls)
  from Cons.prems(1) obtain ld1 where ld1: "add_listen w server local names routes cert l ld = Inr ld1"
    "add_listens w server local names routes cert ls ld1 = Inr ld'" by (auto simp: result_simps)
  from add_listen_ok [OF ld1(1) Cons.prems(2) assms(3) Cons.prems(3) assms(5)] Cons.IH [OF ld1(2)] Cons.prems(3)
  show ?case by simp
qed simp

lemma load_server_ok:
  assumes "load_server w base scope i server ld = Inr ld'" and "loading_ok w ld" and "scope_ok w scope" and "words_valid server"
  shows "loading_ok w ld'"
proof -
  from assms(1) obtain children local names listens routes bs cert where
    c: "dr_children server = Some children" and
    local: "server_children w base children (reset_header_inheritance children scope, [], []) = Inr (local, names, listens)" and
    routes: "server_routes w base i server local children (ld_backends ld) = Inr (routes, bs)" and
    rest: "add_listens w server local (if names = [] then [[]] else names) routes cert (if listens = [] then [default_listen] else listens)
      (ld\<lparr>ld_backends := bs\<rparr>) = Inr ld'"
    by (auto simp: load_server_def block_def result_simps Let_def)
  have ok: "scope_ok w local" using server_children_ok [OF local] reset_header_inheritance_keep assms(3) by blast
  have words: "list_all words_valid children" using assms(4) c by (cases server) auto
  note rs = server_routes_ok [OF routes ok words]
  have "loading_ok w (ld\<lparr>ld_backends := bs\<rparr>)"
    using assms(2) rs(1) by (auto simp: loading_ok_def host_ok_def grows_def intro: routes_ok_grows [OF _ rs(1)])
  with add_listens_ok [OF rest] rs(2,3) show ?thesis by simp
qed

lemma load_servers_ok:
  "load_servers w base scope i ss ld = Inr ld' \<Longrightarrow> loading_ok w ld \<Longrightarrow> scope_ok w scope \<Longrightarrow> list_all words_valid ss \<Longrightarrow> loading_ok w ld'"
  by (induction ss arbitrary: i ld) (auto simp: result_simps dest: load_server_ok)

section \<open>Groups, aliases and transports\<close>

lemma upstream_load_endpoints: "upstream_load w n = Inr (name, b) \<Longrightarrow> bk_endpoints b \<noteq> []"
  by (auto simp: upstream_load_def result_simps new_backend_def)

lemma load_upstreams_grows: "load_upstreams w ns bs = Inr bs' \<Longrightarrow> grows bs bs'"
proof (induction ns arbitrary: bs)
  case (Cons n ns)
  from Cons.prems obtain name b where "upstream_load w n = Inr (name, b)" "load_upstreams w ns (bt_insert name (b, default_profile) bs) = Inr bs'"
    by (auto simp: result_simps)
  with Cons.IH upstream_load_endpoints grows_insert [of bs "(b, default_profile)" name] grows_trans show ?case by (metis fst_conv)
qed simp

lemma alias_transports_ok: "backends_ok bs \<Longrightarrow> (t, x) \<in> set (alias_transports name bs) \<Longrightarrow> bk_endpoints (fst x) \<noteq> []"
proof -
  have "set (bt_collect es) \<subseteq> set es" for es :: "(bool \<times> backend \<times> transport_profile) list"
  proof (induction es rule: rev_induct)
    case (snoc e es)
    then show ?case using set_bt_insert [of "fst e" "snd e" "bt_collect es"] bt_collect_snoc [of es "fst e" "snd e"] by auto
  qed (simp add: bt_collect_def)
  then show "backends_ok bs \<Longrightarrow> (t, x) \<in> set (alias_transports name bs) \<Longrightarrow> bk_endpoints (fst x) \<noteq> []"
    unfolding alias_transports_def by (fastforce simp: backends_ok_def)
qed

lemma bind_aliases_grows: "bind_aliases scripts ns bs = Inr bs' \<Longrightarrow> grows bs bs'"
proof (induction ns arbitrary: bs)
  case (Cons n ns)
  let ?ts = "alias_transports (hd (dr_args n)) bs"
  let ?bs = "if length ?ts = 1 then bt_insert (hd (dr_args n)) (snd (hd ?ts)) bs else bs"
  have "grows bs (bt_insert (hd (dr_args n)) (snd (hd ?ts)) bs)" if "length ?ts = 1"
    using that alias_transports_ok [of bs "fst (hd ?ts)" "snd (hd ?ts)" "hd (dr_args n)"] by (cases ?ts) (auto intro!: grows_insert)
  then have "grows bs ?bs" by simp
  moreover have "bind_aliases scripts ns ?bs = Inr bs'" using Cons.prems by (simp add: Let_def result_simps)
  ultimately show ?case using Cons.IH grows_trans by blast
qed simp

definition action_refs :: "backend_map \<Rightarrow> action \<Rightarrow> bool" where
  "action_refs bs a \<longleftrightarrow> (\<forall>k uri. a = Proxy k uri \<longrightarrow> known bs k)"

definition same_kind :: "action \<Rightarrow> action \<Rightarrow> bool" where
  "same_kind a a' \<longleftrightarrow> a' = a \<or> (\<exists>k k' uri. a = Proxy k uri \<and> a' = Proxy k' uri)"

lemma retarget_kind: "same_kind a (retarget k k' a)"
  by (cases a) (auto simp: same_kind_def retarget_def)

lemma retarget_refs: "action_refs bs a \<Longrightarrow> known bs k' \<Longrightarrow> action_refs bs (retarget k k' a)"
  by (cases a) (auto simp: action_refs_def retarget_def)

lemma configure_allowed_ok:
  assumes "configure_allowed w base profile es act bs = (es', act', bs')" and "backends_ok base"
    and "\<forall>(_, k)\<in>set es. known bs k" and "action_refs bs act"
  shows "grows bs bs' \<and> (\<forall>(_, k)\<in>set es'. known bs' k) \<and> action_refs bs' act' \<and> same_kind act act'"
  using assms
proof (induction es arbitrary: es' act bs)
  case Nil
  then show ?case by (auto simp: same_kind_def)
next
  case (Cons e es)
  obtain name key where e: "e = (name, key)" by fastforce
  show ?case
  proof (cases "\<exists>b p. bt_get base key = Some (b, p) \<and> op_health (bk_options b) \<noteq> None")
    case True
    then obtain b p where b: "bt_get base key = Some (b, p)" "op_health (bk_options b) \<noteq> None" by blast
    define new where "new = configured_key w key profile"
    define bs1 where "bs1 = bt_or_insert new (transport (show_socket w) (clock w) b (bk_tls b) (bk_hostname b) (bk_host_header b), profile) bs"
    obtain es1 where rest: "configure_allowed w base profile es (retarget key new act) bs1 = (es1, act', bs')" "es' = (name, new) # es1"
      using Cons.prems(1) b by (auto simp: e new_def bs1_def Let_def split: prod.splits)
    have bs1: "grows bs bs1" "known bs1 new"
      using backends_okD [OF Cons.prems(2) b(1)] by (auto simp: bs1_def intro!: grows_or_insert)
    have "action_refs bs1 act" using Cons.prems(4) bs1(1) by (auto simp: action_refs_def grows_def)
    then have "action_refs bs1 (retarget key new act)" using bs1(2) by (rule retarget_refs)
    moreover have "\<forall>(_, k)\<in>set es. known bs1 k" using Cons.prems(3) bs1(1) by (auto simp: grows_def)
    ultimately have IH: "grows bs1 bs'" "\<forall>(_, k)\<in>set es1. known bs' k" "action_refs bs' act'" "same_kind (retarget key new act) act'"
      using Cons.IH [OF rest(1) Cons.prems(2)] by blast+
    have "same_kind act act'" using IH(4) retarget_kind [of act key new] by (auto simp: same_kind_def)
    moreover have "known bs' new" using bs1(2) IH(1) by (simp add: grows_def)
    ultimately show ?thesis using IH bs1(1) grows_trans rest(2) by auto
  next
    case False
    then obtain es1 where rest: "configure_allowed w base profile es act bs = (es1, act', bs')" "es' = (name, key) # es1"
      using Cons.prems(1) by (auto simp: e Let_def split: option.splits prod.splits if_splits)
    with Cons.IH [OF rest(1) Cons.prems(2)] Cons.prems(3,4) e show ?thesis by (auto simp: grows_def)
  qed
qed

definition same_host :: "'n cfg_host \<Rightarrow> 'n cfg_host \<Rightarrow> bool" where
  "same_host h h' \<longleftrightarrow> ch_listener h' = ch_listener h \<and> ch_default h' = ch_default h \<and> ch_ingress h' = ch_ingress h"

lemma configure_route_ok:
  assumes "configure_route w base r bs = (r', bs')" and "backends_ok base" and "refs_ok bs r" and "checked_route w r"
  shows "grows bs bs'" and "refs_ok bs' r'" and "checked_route w r'" and "route_matcher r' = route_matcher r"
proof -
  obtain es act where c: "configure_allowed w base (st_upstream (rt_settings r)) (rt_allowed r) (route_action r) bs = (es, act, bs')"
    and r': "r' = r\<lparr>rt_allowed := es, route_action := act\<rparr>"
    using assms(1) by (auto simp: configure_route_def Let_def split: prod.splits)
  from configure_allowed_ok [OF c assms(2)] assms(3)
  have *: "grows bs bs'" "\<forall>(_, k)\<in>set es. known bs' k" "action_refs bs' act" "same_kind (route_action r) act"
    by (auto simp: refs_ok_def action_refs_def)
  then show "grows bs bs'" "refs_ok bs' r'" "route_matcher r' = route_matcher r"
    by (simp_all add: r' refs_ok_def action_refs_def)
  show "checked_route w r'" using assms(4) *(4) by (auto simp: r' checked_route_def same_kind_def)
qed

lemma configure_routes_ok:
  "configure_routes w base rs bs = (rs', bs') \<Longrightarrow> backends_ok base \<Longrightarrow> routes_ok w bs rs \<Longrightarrow>
     grows bs bs' \<and> routes_ok w bs' rs' \<and> map route_matcher rs' = map route_matcher rs"
proof (induction rs arbitrary: rs' bs)
  case (Cons r rs)
  then obtain r1 bs1 rs1 where r1: "configure_route w base r bs = (r1, bs1)" and rs1: "configure_routes w base rs bs1 = (rs1, bs')"
    and rs': "rs' = r1 # rs1" by (auto simp: Let_def split: prod.splits)
  have "refs_ok bs r" "checked_route w r" "plain_matcher (route_matcher r)" "routes_ok w bs rs"
    using Cons.prems(3) by (auto simp: routes_ok_def)
  with configure_route_ok [OF r1 Cons.prems(2)] have 1: "grows bs bs1" "refs_ok bs1 r1" "checked_route w r1"
    "route_matcher r1 = route_matcher r" "routes_ok w bs1 rs" "plain_matcher (route_matcher r)" using routes_ok_grows by auto
  from Cons.IH [OF rs1 Cons.prems(2) 1(5)] 1 grows_trans refs_ok_grows show ?case
    by (auto simp: rs' routes_ok_def)
qed simp

lemma configure_hosts_ok:
  "configure_hosts w base hs bs = (hs', bs') \<Longrightarrow> backends_ok base \<Longrightarrow> \<forall>h\<in>set hs. host_ok w bs h \<Longrightarrow>
     grows bs bs' \<and> (\<forall>h\<in>set hs'. host_ok w bs' h) \<and> list_all2 same_host hs hs'"
proof (induction hs arbitrary: hs' bs)
  case (Cons h hs)
  then obtain rs bs1 hs1 where rs: "configure_routes w base (ch_routes h) bs = (rs, bs1)" and hs1: "configure_hosts w base hs bs1 = (hs1, bs')"
    and hs': "hs' = h\<lparr>ch_routes := rs\<rparr> # hs1" by (auto simp: Let_def split: prod.splits)
  have h: "routes_ok w bs (ch_routes h)" "has_root (ch_routes h)" "\<not> ch_ingress h" using Cons.prems(3) by (auto simp: host_ok_def)
  from configure_routes_ok [OF rs Cons.prems(2) h(1)]
  have 1: "grows bs bs1" "routes_ok w bs1 rs" "map route_matcher rs = map route_matcher (ch_routes h)" by blast+
  have "root_matcher \<in> route_matcher ` set (ch_routes h)" using h(2) by (metis has_root_def image_eqI)
  then have "has_root rs" using 1(3) by (metis (no_types, lifting) has_root_def image_iff list.set_map)
  have "\<forall>g\<in>set hs. host_ok w bs1 g" using Cons.prems(3) by (auto intro: host_ok_grows [OF _ 1(1)])
  from Cons.IH [OF hs1 Cons.prems(2) this] 1 h(3) \<open>has_root rs\<close> grows_trans routes_ok_grows show ?case
    by (auto simp: hs' host_ok_def same_host_def)
qed simp

section \<open>Accepted configurations\<close>

definition accepted :: "'n outside \<Rightarrow> 'n snapshot \<Rightarrow> bool" where
  "accepted w sn \<longleftrightarrow>
     sn_index sn = build (map host_view (sn_hosts sn)) \<and> backends_ok (sn_backends sn)
     \<and> (\<forall>h\<in>set (sn_hosts sn). host_ok w (sn_backends sn) h)
     \<and> (\<forall>c\<in>set (sn_certificates sn). tls_certificate c \<noteq> None)
     \<and> (\<forall>l\<in>set (sn_listeners sn). settled (sn_hosts sn) (sn_certificates sn) (li_address l) l)"

lemma http_block_words:
  "http_block ns x = Inr (Some http) \<Longrightarrow> list_all words_valid ns \<Longrightarrow> (\<And>ds. x = Some ds \<Longrightarrow> list_all words_valid ds) \<Longrightarrow> list_all words_valid http"
proof (induction ns arbitrary: x)
  case (Cons n ns)
  have "list_all words_valid ds" if "dr_children n = Some ds" for ds
    using Cons.prems(2) that by (cases n) auto
  with Cons show ?case by (auto simp: result_simps block_def split: if_splits)
qed simp

lemma settled_same:
  assumes "settled hs certs a l" and "list_all2 same_host hs hs'"
  shows "settled hs' certs a l"
proof -
  from assms(1) obtain h where "h \<in> set hs" "ch_listener h = a" "ch_default h" by (auto simp: settled_def)
  with assms(2) obtain h' where "h' \<in> set hs'" "ch_listener h' = a" "ch_default h'"
    by (auto simp: list_all2_conv_all_nth in_set_conv_nth same_host_def) metis
  with assms(1) show ?thesis by (auto simp: settled_def)
qed

lemma load_nodes_accepted:
  assumes load: "load_nodes w fp nodes base version = Inr sn" and words: "list_all words_valid nodes"
    and name: "header_name_ok w ''x-real-ip''"
  shows "accepted w sn"
proof -
  let ?empty = "\<lambda>bs. \<lparr>ld_backends = bs, ld_listeners = [], ld_defaults = [], ld_hosts = [], ld_certificates = []\<rparr>"
  from load obtain http scope bs ld bound where
    http: "http_block nodes None = Inr (Some http)" and
    scope: "apply_all w base ''http'' (filter (\<lambda>n. dr_name n \<noteq> ''server'' \<and> dr_name n \<noteq> ''upstream'') http)
      (default_scope\<lparr>sc_settings := default_settings\<lparr>st_root := path_join base ''html''\<rparr>\<rparr>) = Inr scope" and
    bs: "load_upstreams w (named ''upstream'' http) [] = Inr bs" and
    ld: "load_servers w base scope 0 (named ''server'' http) (?empty bs) = Inr ld" and
    bound: "bind_aliases (list_ex (\<lambda>h. list_ex (\<lambda>r. rt_script r \<noteq> None) (ch_routes h)) (ld_hosts ld)) (named ''upstream'' http) (ld_backends ld) = Inr bound" and
    made: "sn_hosts sn = fst (configure_hosts w bound (ld_hosts ld) bound)" "sn_backends sn = snd (configure_hosts w bound (ld_hosts ld) bound)"
      "sn_listeners sn = bt_values (ld_listeners ld)" "sn_certificates sn = ld_certificates ld" "sn_index sn = build (map host_view (sn_hosts sn))"
    by (auto simp: load_nodes_def result_simps Let_def snapshot_reindex_def case_prod_beta)
  obtain hs configured where hs: "configure_hosts w bound (ld_hosts ld) bound = (hs, configured)" by fastforce
  note sn = made [unfolded hs fst_conv snd_conv]
  have "backends_ok bs" using load_upstreams_grows [OF bs] by (auto simp: grows_def backends_ok_def)
  then have "loading_ok w (?empty bs)" by (simp add: loading_ok_def)
  moreover have "list_all words_valid (named ''server'' http)"
    using http_block_words [OF http words] by (auto simp: named_def list_all_iff)
  moreover have "scope_ok w scope" using apply_all_keep [OF scope] default_scope_ok [OF name] by blast
  ultimately have ok: "loading_ok w ld" using load_servers_ok [OF ld] by blast
  then have bound_ok: "backends_ok bound" "\<forall>h\<in>set (ld_hosts ld). host_ok w bound h"
    using bind_aliases_grows [OF bound] by (auto simp: loading_ok_def grows_def intro: host_ok_grows [OF _ bind_aliases_grows [OF bound]])
  from configure_hosts_ok [OF hs this] have hs': "grows bound configured" "\<forall>h\<in>set hs. host_ok w configured h"
    "list_all2 same_host (ld_hosts ld) hs" by blast+
  have "settled hs (ld_certificates ld) (li_address l) l" if "l \<in> set (bt_values (ld_listeners ld))" for l
  proof -
    from that obtain a where "(a, l) \<in> set (ld_listeners ld)" by (auto simp: bt_values_def)
    moreover have "distinct (map fst (ld_listeners ld))"
      using ok bt_sorted_distinct [of "ld_listeners ld"] by (simp add: loading_ok_def bt_keys_def)
    ultimately have "bt_get (ld_listeners ld) a = Some l" by (simp add: map_of_is_SomeI)
    with ok have "settled (ld_hosts ld) (ld_certificates ld) a l" by (simp add: loading_ok_def)
    then have "settled (ld_hosts ld) (ld_certificates ld) (li_address l) l" by (simp add: settled_def)
    from settled_same [OF this hs'(3)] show ?thesis .
  qed
  with ok bound_ok(1) hs'(1,2) sn show ?thesis by (auto simp: accepted_def loading_ok_def grows_def)
qed

section \<open>Routing through a snapshot\<close>

lemma route_matcher_truncate [simp]: "route_matcher (route.truncate r) = route_matcher r"
  by (simp add: route.truncate_def)

lemma root_found:
  assumes "root_matcher \<in> set ms" and "starts_with path ''/''"
  shows "ref_paths_route ms path \<noteq> None"
proof -
  have "path_match_matches root_matcher path" using assms(2) by simp
  from ref_route_at_found [OF assms(1) _ this assms(2)] have "Suc 0 \<le> length path" "ref_route_at ms path (Suc 0) \<noteq> None" by auto
  then have "find_map (ref_route_at ms path) (rev [0..<Suc (length path)]) \<noteq> None"
    by (auto simp: find_map_None_iff simp del: upt_Suc intro!: bexI [of _ "Suc 0"])
  then show ?thesis by (auto simp: ref_paths_route_def or_else_def split: option.splits)
qed

lemma ref_paths_route_matches:
  assumes "ref_paths_route ms path = Some j"
  shows "j < length ms \<and> path_match_matches (ms ! j) path"
proof -
  consider "position (\<lambda>m. m = Exact path) ms = Some j"
    | "find_map (ref_route_at ms path) (rev [0..<Suc (length path)]) = Some j" | "position (\<lambda>m. m = IngressDefault) ms = Some j"
    using assms unfolding ref_paths_route_def or_else_def by (auto split: option.splits)
  then show ?thesis
  proof cases
    case 2
    then obtain e where "e \<le> length path" "ref_route_at ms path e = Some j"
      by (auto dest!: find_map_SomeD simp: less_Suc_eq_le simp del: upt_Suc)
    then show ?thesis using ref_route_at_SomeD by blast
  qed (auto simp: position_Some_iff)
qed

lemma ref_select_host_listener:
  "ref_select_host vhs a host = Some i \<Longrightarrow> vh_listener (vhs ! i) = a"
  by (auto simp: ref_select_host_def or_else_def ref_wildcard_at_def position_Some_iff bind_eq_Some_conv serves_exact_def serves_def
      serves_default_def dest!: find_map_SomeD split: option.splits if_splits)

definition routed :: "'n snapshot \<Rightarrow> socket_addr \<Rightarrow> string \<Rightarrow> nat \<times> nat \<Rightarrow> bool" where
  "routed sn a path = (\<lambda>(i, j).
     i < length (sn_hosts sn) \<and> ch_listener (sn_hosts sn ! i) = a \<and> j < length (ch_routes (sn_hosts sn ! i))
     \<and> path_match_matches (route_matcher (ch_routes (sn_hosts sn ! i) ! j)) path)"

text \<open>A listener with a default host, whose hosts all have a route for \<open>/\<close>, routes every absolute path.\<close>

lemma snapshot_routes:
  assumes ok: "accepted w sn" and l: "l \<in> set (sn_listeners sn)" and path: "starts_with path ''/''" "utf8_shaped path"
  shows "\<exists>p. route_position sn (li_address l) host path = Some p \<and> routed sn (li_address l) path p"
proof -
  let ?vhs = "map host_view (sn_hosts sn)" and ?a = "li_address l"
  let ?ms = "\<lambda>i. map route_matcher (vh_routes (?vhs ! i))"
  have hosts: "host_ok w (sn_backends sn) h" if "h \<in> set (sn_hosts sn)" for h using ok that by (simp add: accepted_def)
  have ms: "map route_matcher (vh_routes (host_view h)) = map route_matcher (ch_routes h)" for h :: "'a cfg_host"
    by (simp add: host_view_def)
  have "utf8_keys (map route_matcher (vh_routes (host_view h)))" if "h \<in> set (sn_hosts sn)" for h
    using hosts [OF that] unfolding ms utf8_keys_def
    by (auto simp: host_ok_def routes_ok_def plain_matcher_def prefix_key_def ingress_key_def split: path_match.splits)
  then have route: "route_position sn ?a host path = ref_route ?vhs ?a host path"
    using ok path(2) by (auto simp: route_position_def accepted_def intro!: index_route_build)
  from ok l obtain h where h: "h \<in> set (sn_hosts sn)" "ch_listener h = ?a" "ch_default h"
    by (auto simp: accepted_def settled_def)
  then have "position (serves_default ?a) ?vhs \<noteq> None"
    by (auto simp: position_None_iff serves_default_def host_view_def intro!: bexI [of _ h])
  then obtain i where i: "ref_select_host ?vhs ?a (normalize_host host) = Some i"
    by (cases "ref_select_host ?vhs ?a (normalize_host host)") (auto simp: ref_select_host_def or_else_def split: option.splits)
  have "i < length (sn_hosts sn)" using ref_select_host_range [OF i] by simp
  then have "has_root (ch_routes (sn_hosts sn ! i))" using hosts by (simp add: host_ok_def)
  then have "root_matcher \<in> set (?ms i)"
    using \<open>i < length (sn_hosts sn)\<close> by (auto simp: has_root_def host_view_def rev_image_eqI)
  from root_found [OF this path(1)] obtain j where j: "ref_paths_route (?ms i) path = Some j" by blast
  have "routed sn ?a path (i, j)"
    using ref_paths_route_matches [OF j] ref_select_host_listener [OF i] \<open>i < length (sn_hosts sn)\<close>
    by (auto simp: routed_def host_view_def)
  with i j route show ?thesis by (simp add: ref_route_def Let_def or_else_def)
qed

lemma snapshot_certifies:
  assumes ok: "accepted w sn" and l: "l \<in> set (sn_listeners sn)" "li_tls l"
  shows "snapshot_certificate sn (li_address l) host \<noteq> None"
proof -
  let ?cs = "map tls_host.truncate (sn_certificates sn)" and ?a = "li_address l"
  from ok l obtain c where c: "c \<in> set (sn_certificates sn)" "tls_listener c = ?a" "tls_default c"
    by (auto simp: accepted_def settled_def)
  let ?c = "tls_host.truncate c"
  have "?c \<in> set ?cs" using c(1) by simp
  moreover have "tls_listener ?c = ?a" "tls_host_rank host ?c \<noteq> None"
    using c by (auto simp: tls_host.truncate_def tls_host_rank_def or_else_def split: option.splits)
  ultimately obtain d where d: "select_tls_host ?cs ?a host = Some d"
    using ranked_first_best [of ?cs ?a host] by (cases "max_by_key fst (ranked_tls_hosts ?cs ?a host)") (auto simp: select_tls_host_def)
  then obtain pre post where "?cs = pre @ d # post"
    using ranked_first_best [of ?cs ?a host] by (auto simp: select_tls_host_def split: option.splits)
  then have "d \<in> set ?cs" by simp
  then have "tls_certificate d \<noteq> None" using ok by (auto simp: accepted_def tls_host.truncate_def)
  with d show ?thesis by (auto simp: snapshot_certificate_def certificate_def)
qed

text \<open>
  C30. A server that starts never drops a request for want of a route. On every listener of a configuration that loads,
  for every \<open>Host\<close> value and every absolute path, the route table returns a route of a host on that listener whose matcher
  matches the path; and on a TLS listener every server name in the handshake finds a certificate. The hypotheses: the
  directives' words are UTF-8 (they are \<open>String\<close>s), \<open>x-real-ip\<close> is a header name for the \<open>http\<close> crate, and the path is a
  \<open>str\<close>.
\<close>

theorem config_serves_every_request:
  assumes "load_nodes w fingerprint nodes base version = Inr sn" and "list_all words_valid nodes" and "header_name_ok w ''x-real-ip''"
    and "l \<in> set (sn_listeners sn)" and "starts_with path ''/''" and "utf8_shaped path"
  shows "(\<exists>p. route_position sn (li_address l) host path = Some p \<and> routed sn (li_address l) path p)
    \<and> (li_tls l \<longrightarrow> snapshot_certificate sn (li_address l) name \<noteq> None)"
  using snapshot_routes [OF load_nodes_accepted [OF assms(1-3)] assms(4-6)]
    snapshot_certifies [OF load_nodes_accepted [OF assms(1-3)] assms(4)] by blast

text \<open>
  C31. Whatever a loaded configuration refers to exists and was checked. Every route that proxies names a backend of the
  snapshot, as do all the backends its script may choose, and every backend has an endpoint; the settings of every route
  passed the checks on traffic limits, identity, body inspection, access log, compression levels, header edits and
  external authentication; client verification has a CA, and a listener with the PROXY protocol has trusted peers.
\<close>

theorem config_accepted_sound:
  assumes "load_nodes w fingerprint nodes base version = Inr sn" and "list_all words_valid nodes" and "header_name_ok w ''x-real-ip''"
  shows "(\<forall>h\<in>set (sn_hosts sn). \<forall>r\<in>set (ch_routes h).
        (\<forall>k uri. route_action r = Proxy k uri \<longrightarrow> (\<exists>b p. bt_get (sn_backends sn) k = Some (b, p) \<and> bk_endpoints b \<noteq> []))
      \<and> (\<forall>(name, k)\<in>set (rt_allowed r). \<exists>b p. bt_get (sn_backends sn) k = Some (b, p) \<and> bk_endpoints b \<noteq> [])
      \<and> settings_ok w (rt_settings r)
      \<and> (mt_mode (se_mtls (st_security (rt_settings r))) \<noteq> TlsOff \<longrightarrow> mt_store (se_mtls (st_security (rt_settings r))) \<noteq> None))
    \<and> (\<forall>l\<in>set (sn_listeners sn). li_proxy_protocol l \<longrightarrow> li_proxy_trusted l \<noteq> [])"
proof -
  have ok: "accepted w sn" by (rule load_nodes_accepted [OF assms])
  have get: "\<exists>b p. bt_get (sn_backends sn) k = Some (b, p) \<and> bk_endpoints b \<noteq> []" if "known (sn_backends sn) k" for k
  proof -
    from that obtain b p where "bt_get (sn_backends sn) k = Some (b, p)" by (auto simp: known_def)
    with ok backends_okD show ?thesis by (auto simp: accepted_def)
  qed
  have route: "refs_ok (sn_backends sn) r \<and> checked_route w r" if "h \<in> set (sn_hosts sn)" "r \<in> set (ch_routes h)" for h r
    using ok that by (auto simp: accepted_def host_ok_def routes_ok_def)
  show ?thesis using ok route get by (fastforce simp: refs_ok_def checked_route_def accepted_def settled_def)
qed

section \<open>An example\<close>

definition example_url :: "string \<Rightarrow> url option" where
  "example_url s = Some \<lparr>ul_scheme = ''http'', ul_host = Some (Domain ''api''), ul_host_str = Some ''api'', ul_port = None,
     ul_known_port = Some 80, ul_path = ''/'', ul_query = None, ul_fragment = None, ul_username = [], ul_password = None,
     ul_authority = ''api''\<rparr>"

definition example_outside :: "ip outside" where
  "example_outside = \<lparr>net_parse = (\<lambda>_. None), net_from = (\<lambda>a. a), header_name_ok = (\<lambda>s. s \<noteq> []), header_value_ok = (\<lambda>_. True),
     url_parse = example_url, lookup_host = (\<lambda>_ p. Some [SockV4 1 p]), read_file = (\<lambda>_. Some ''pem''), pem_count = (\<lambda>_. Some 1),
     store_ok = (\<lambda>_. True), certificate_ok = (\<lambda>_ _. True), certificate_covers = (\<lambda>_ _. True), jwt_digest = (\<lambda>_. None),
     compile_script = (\<lambda>_. None), log_opens = (\<lambda>_. True), profile_hash = (\<lambda>_. 7), show_ip = (\<lambda>_. ''ip''), show_socket = (\<lambda>_. ''socket''),
     clock = 0, http3_built = False\<rparr>"

definition simple :: "string \<Rightarrow> string list \<Rightarrow> directive" where
  "simple name args = Directive name args None []"

definition example_nodes :: "directive list" where
  "example_nodes =
     [Directive ''http'' [] (Some
       [Directive ''upstream'' [''api''] (Some [simple ''server'' [''api''], simple ''rgnix_health_check'' [''/h'']]) [],
        Directive ''server'' [] (Some
          [simple ''listen'' [''8'', ''ssl''], simple ''server_name'' [''A''], simple ''ssl_certificate'' [''c''], simple ''ssl_certificate_key'' [''k''],
           Directive ''location'' [''/x''] (Some [simple ''proxy_pass'' [''http://api'']]) []]) []]) []]"

lemmas load_eval = load_nodes_def named_def Let_def load_server_def server_routes_def build_route_def build_target_def
  location_matcher_def server_certificate_def add_listen_def tls_entries_def make_listener_def default_scope_def
  block_def leaf_def one_def parse_listen_def validate_host_def apply_directive_def policy_apply_def security_apply_def other_apply_def
  policy_handlers_def security_handlers_def settings_handlers_def scope_handlers_def apply_path_def apply_proxy_pass_def proxy_url_def
  upstream_load_def upstream_node_def upstream_server_def upstream_health_def options_validate_def origin_endpoints_def
  reset_header_inheritance_def mentions_def ensure_def ok_or_def parse_u_def parse_uint_def starts_with_def strip_prefix_def
  slice_get_def is_none_or_def digits_value_def is_ascii_digit_def simple_def example_url_def default_options_def
  to_ascii_lowercase_def route_name_def after_scheme_def is_ascii_alphanumeric_def is_ascii_alphabetic_def is_ascii_uppercase_def
  is_ascii_lowercase_def case_prod_beta

lemma default_mtls_off: "mt_mode (se_mtls (st_security default_settings)) = TlsOff"
  by (simp add: default_settings_def default_security_def)

lemma example_loads:
  "\<exists>sn. load_nodes example_outside (\<lambda>_. Some []) example_nodes ''/etc'' 1 = Inr sn
     \<and> map li_address (sn_listeners sn) = [SockV4 0 8] \<and> map li_tls (sn_listeners sn) = [True]"
  by (simp add: load_eval default_mtls_off example_outside_def as_secs_def from_secs_def example_nodes_def snapshot_reindex_def bt_values_def
      del: configure_hosts.simps)

lemma example_words: "list_all words_valid example_nodes"
  by code_simp

theorem config_serves_every_request_witness:
  "\<exists>sn. load_nodes example_outside (\<lambda>_. Some []) example_nodes ''/etc'' 1 = Inr sn
     \<and> (\<exists>p. route_position sn (SockV4 0 8) ''b'' ''/x/y'' = Some p) \<and> snapshot_certificate sn (SockV4 0 8) ''b'' \<noteq> None"
proof -
  obtain sn where sn: "load_nodes example_outside (\<lambda>_. Some []) example_nodes ''/etc'' 1 = Inr sn"
    "map li_address (sn_listeners sn) = [SockV4 0 8]" "map li_tls (sn_listeners sn) = [True]"
    using example_loads by (elim exE conjE)
  then obtain l where l: "l \<in> set (sn_listeners sn)" "li_address l = SockV4 0 8" "li_tls l" by (cases "sn_listeners sn") auto
  have path: "starts_with ''/x/y'' ''/''" "utf8_shaped ''/x/y''" by code_simp+
  have "header_name_ok example_outside ''x-real-ip''" by (simp add: example_outside_def)
  from config_serves_every_request [OF sn(1) example_words this l(1) path, of "''b''" "''b''"] l(3)
  have "(\<exists>p. route_position sn (SockV4 0 8) ''b'' ''/x/y'' = Some p) \<and> snapshot_certificate sn (SockV4 0 8) ''b'' \<noteq> None"
    unfolding l(2) by blast
  then show ?thesis using sn(1) by (intro exI [of _ sn] conjI) simp_all
qed

theorem config_accepted_sound_witness:
  "\<exists>sn. load_nodes example_outside (\<lambda>_. Some []) example_nodes ''/etc'' 1 = Inr sn
     \<and> list_all (\<lambda>h. list_all (\<lambda>r. settings_ok example_outside (rt_settings r)) (ch_routes h)) (sn_hosts sn)"
proof -
  obtain sn where sn: "load_nodes example_outside (\<lambda>_. Some []) example_nodes ''/etc'' 1 = Inr sn"
    using example_loads by (elim exE conjE)
  have "header_name_ok example_outside ''x-real-ip''" by (simp add: example_outside_def)
  note ok = config_accepted_sound [OF sn example_words this]
  have "settings_ok example_outside (rt_settings r)" if "h \<in> set (sn_hosts sn)" "r \<in> set (ch_routes h)" for h r
    using ok that by simp
  then have "list_all (\<lambda>h. list_all (\<lambda>r. settings_ok example_outside (rt_settings r)) (ch_routes h)) (sn_hosts sn)"
    unfolding list_all_iff by blast
  with sn show ?thesis by (intro exI conjI)
qed

end
