(* ===== verification/Tenancy.thy ===== *)
theory Tenancy
  imports Gateway_Policy Traffic Config_Settings
begin

text \<open>
  Namespaces that share one proxy: \<open>src/src/tenancy.rs\<close> (quotas, the ceilings they put on settings, and permits) and
  \<open>src/src/tenancy/domains.rs\<close> (which namespace may serve a host). A \<open>Tenant\<close>'s \<open>active\<close> array and its limiter are its
  state; the table of \<open>Tenants\<close> maps names to it. Reading the policy file and
  decoding it are outside.

  Permits keep the lease contract of \<open>Leases\<close>. For domains the reference is what a pattern matches: no two namespaces whose
  claims were accepted match the same host, and with explicit grants every grant that matches a host names the namespaces accepted for it;
  \<open>Ingress_Routes\<close> follows the claims to the routes that answer.
\<close>

section \<open>Quotas\<close>

record quota =
  qu_max_ingresses :: nat
  qu_max_routes :: nat
  qu_max_backends :: nat
  qu_max_body_bytes :: nat
  qu_max_timeout_seconds :: nat
  qu_max_script_bytes :: nat
  qu_max_compilations_per_minute :: nat
  qu_max_inflight :: nat
  qu_max_plugins :: nat
  qu_max_auth :: nat
  qu_max_mirrors :: nat
  qu_max_limiter_keys :: nat
  qu_requests_per_second :: nat
  qu_burst :: nat
  qu_allow_scripts :: bool
  qu_allow_mirroring :: bool

definition default_quota :: quota where
  "default_quota =
     \<lparr>qu_max_ingresses = 32, qu_max_routes = 128, qu_max_backends = 64, qu_max_body_bytes = 16 * 1024 * 1024,
      qu_max_timeout_seconds = 60, qu_max_script_bytes = 256 * 1024, qu_max_compilations_per_minute = 60,
      qu_max_inflight = 64, qu_max_plugins = 4, qu_max_auth = 16, qu_max_mirrors = 4, qu_max_limiter_keys = 2048,
      qu_requests_per_second = 1000, qu_burst = 1000, qu_allow_scripts = True, qu_allow_mirroring = False\<rparr>"

datatype tenancy_error =
    InvalidConfigurationQuota | InvalidCeiling | InvalidRuntimeQuota | TooManyNamespaces | InvalidNamespaceName
  | TooManyGrants | InvalidGrant | OverlappingGrants | NotAuthorized string | DomainTaken string

definition in_range :: "nat \<Rightarrow> nat \<Rightarrow> nat \<Rightarrow> bool" where
  "in_range lo hi n \<longleftrightarrow> lo \<le> n \<and> n \<le> hi"

definition quota_validate :: "quota \<Rightarrow> (tenancy_error, unit) result" where
  "quota_validate q =
     bindR (ensure (in_range 1 10000 (qu_max_ingresses q) \<and> in_range 1 100000 (qu_max_routes q)
       \<and> in_range 1 10000 (qu_max_backends q)) InvalidConfigurationQuota) (\<lambda>_.
     bindR (ensure (0 < qu_max_body_bytes q \<and> qu_max_body_bytes q \<le> 1024 * 1024 * 1024
       \<and> in_range 1 3600 (qu_max_timeout_seconds q) \<and> qu_max_script_bytes q \<le> 1024 * 1024
       \<and> in_range 1 600 (qu_max_compilations_per_minute q)) InvalidCeiling) (\<lambda>_.
     ensure (0 < qu_max_inflight q \<and> qu_max_inflight q \<le> 100000 \<and> qu_max_plugins q \<le> qu_max_inflight q
       \<and> qu_max_auth q \<le> qu_max_inflight q \<and> qu_max_mirrors q \<le> qu_max_inflight q
       \<and> in_range 16 16384 (qu_max_limiter_keys q) \<and> in_range 1 1000000 (qu_requests_per_second q)
       \<and> in_range 1 1000000 (qu_burst q)) InvalidRuntimeQuota))"

definition constrain :: "quota \<Rightarrow> 'n settings \<Rightarrow> 'n settings" where
  "constrain q st =
     (let timeout = from_secs (qu_max_timeout_seconds q) in
      st\<lparr>st_max_body := (if st_max_body st = 0 \<or> qu_max_body_bytes q < st_max_body st then qu_max_body_bytes q else st_max_body st),
         st_connect_timeout := min (st_connect_timeout st) timeout, st_read_timeout := min (st_read_timeout st) timeout,
         st_write_timeout := min (st_write_timeout st) timeout,
         st_client_header_timeout := min (st_client_header_timeout st) timeout,
         st_client_body_timeout := min (st_client_body_timeout st) timeout, st_send_timeout := min (st_send_timeout st) timeout,
         st_keepalive := min (st_keepalive st) timeout,
         st_body_policy := (st_body_policy st)\<lparr>bp_timeout := min (bp_timeout (st_body_policy st)) timeout\<rparr>\<rparr>)"

text \<open>A body limit of zero means no limit, so the ceiling replaces it; nothing is ever raised.\<close>

lemma constrain_ceilings:
  assumes "quota_validate q = Inr u"
  shows "0 < st_max_body (constrain q st) \<and> st_max_body (constrain q st) \<le> qu_max_body_bytes q"
    and "list_all (\<lambda>f. f (constrain q st) \<le> from_secs (qu_max_timeout_seconds q) \<and> f (constrain q st) \<le> f st)
      [st_connect_timeout, st_read_timeout, st_write_timeout, st_client_header_timeout, st_client_body_timeout,
       st_send_timeout, st_keepalive, \<lambda>s. bp_timeout (st_body_policy s)]"
    and "constrain q (constrain q st) = constrain q st"
  using assms by (auto simp: constrain_def quota_validate_def result_simps Let_def)

section \<open>Tenants\<close>

datatype resource = RRequest | RPlugin | RAuth | RMirror

fun resource_index :: "resource \<Rightarrow> nat" where
  "resource_index RRequest = 0"
| "resource_index RPlugin = 1"
| "resource_index RAuth = 2"
| "resource_index RMirror = 3"

fun resource_limit :: "resource \<Rightarrow> quota \<Rightarrow> nat" where
  "resource_limit RRequest q = qu_max_inflight q"
| "resource_limit RPlugin q = qu_max_plugins q"
| "resource_limit RAuth q = qu_max_auth q"
| "resource_limit RMirror q = qu_max_mirrors q"

record tenant =
  te_name :: string
  te_quota :: quota
  te_traffic :: limiter
  te_active :: "nat list"

definition new_tenant :: "string \<Rightarrow> quota \<Rightarrow> tenant" where
  "new_tenant name q = \<lparr>te_name = name, te_quota = q, te_traffic = default_limiter, te_active = [0, 0, 0, 0]\<rparr>"

definition tenant_acquire :: "resource \<Rightarrow> tenant \<Rightarrow> (nat, resource) result \<times> tenant" where
  "tenant_acquire r t =
     (let i = resource_index r in
      if resource_limit r (te_quota t) \<le> te_active t ! i then (Inl 503, t)
      else (Inr r, t\<lparr>te_active := (te_active t)[i := te_active t ! i + 1]\<rparr>))"

definition tenant_release :: "resource \<Rightarrow> tenant \<Rightarrow> tenant" where
  "tenant_release r t =
     (let i = resource_index r in t\<lparr>te_active := (te_active t)[i := te_active t ! i - 1]\<rparr>)"

definition namespace_policy :: "quota \<Rightarrow> policy" where
  "namespace_policy q =
     \<lparr>pol_rate = Some \<lparr>per_second = qu_requests_per_second q, burst = qu_burst q, rate_key = Route\<rparr>, pol_concurrency = None\<rparr>"

definition tenant_rate ::
  "(string \<Rightarrow> string) \<Rightarrow> (policy \<Rightarrow> string) \<Rightarrow> (rat \<Rightarrow> rat) \<Rightarrow> instant \<Rightarrow> request_data \<Rightarrow> tenant \<Rightarrow> (nat, unit) result \<times> tenant" where
  "tenant_rate sha256 policy_json rnd now request t =
     (case acquire sha256 policy_json rnd now ''_namespace'' (namespace_policy (te_quota t)) request (rd_claims request) (te_traffic t) of
        (res, l) \<Rightarrow> (bindR res (\<lambda>_. Inr ()), t\<lparr>te_traffic := l\<rparr>))"

definition tenants_tenant :: "string \<Rightarrow> quota \<Rightarrow> (string, tenant) btree \<Rightarrow> tenant \<times> (string, tenant) btree" where
  "tenants_tenant name q states =
     (let t = (case bt_get states name of Some t \<Rightarrow> t | None \<Rightarrow> new_tenant name q);
          t' = t\<lparr>te_quota := q, te_traffic := set_capacity (te_traffic t) (qu_max_limiter_keys q)\<rparr>
      in (t', bt_insert name t' states))"

definition tenants_retain :: "(string \<Rightarrow> bool) \<Rightarrow> string list \<Rightarrow> (string, tenant) btree \<Rightarrow> (string, tenant) btree" where
  "tenants_retain in_use names states = filter (\<lambda>(n, _). n \<in> set names \<or> in_use n) states"

text \<open>A new quota applies to the tenant that is there: the permits it has given out stay counted.\<close>

lemma tenants_tenant_keeps:
  "tenants_tenant name q states = (t, states') \<Longrightarrow>
   te_quota t = q \<and> bt_get states' name = Some t \<and> (\<forall>n. n \<noteq> name \<longrightarrow> bt_get states' n = bt_get states n)
   \<and> (\<forall>old. bt_get states name = Some old \<longrightarrow> te_active t = te_active old \<and> buckets (te_traffic t) = buckets (te_traffic old))"
  by (auto simp: tenants_tenant_def Let_def set_capacity_def new_tenant_def split: option.splits)

text \<open>The contract of \<open>Leases\<close>: an event is an attempt with the quota of that moment.\<close>

definition ten_invar :: "tenant \<Rightarrow> bool" where
  "ten_invar t \<longleftrightarrow> length (te_active t) = 4"

definition ten_active :: "tenant \<Rightarrow> nat \<Rightarrow> nat" where
  "ten_active t i = (if i < 4 then te_active t ! i else 0)"

definition ten_acquire :: "quota \<times> resource \<Rightarrow> tenant \<Rightarrow> resource option \<times> tenant" where
  "ten_acquire a t =
     (case tenant_acquire (snd a) (t\<lparr>te_quota := fst a\<rparr>) of
        (Inl _, t') \<Rightarrow> (None, t')
      | (Inr r, t') \<Rightarrow> (Some r, t'))"

definition ten_release :: "unit \<Rightarrow> resource \<Rightarrow> tenant \<Rightarrow> tenant" where
  "ten_release _ r t = tenant_release r t"

lemma resource_index_less [simp]: "resource_index r < 4"
  by (cases r) simp_all

interpretation ten: lease_accounting ten_invar resource_index ten_active ten_acquire ten_release
  by unfold_locales
    (auto simp: ten_invar_def ten_active_def ten_acquire_def ten_release_def tenant_acquire_def tenant_release_def
      fun_eq_iff nth_list_update Let_def split: if_splits prod.splits)

lemma tenant_acquire_bounded:
  assumes "tenant_acquire r t = (Inr r', t')" "ten_invar t"
  shows "ten_active t' (resource_index r) \<le> resource_limit r (te_quota t)"
  using assms by (auto simp: tenant_acquire_def ten_active_def ten_invar_def Let_def split: if_splits)

text \<open>Over every interleaving the counters of a tenant are the permits it has out.\<close>

lemma tenant_permits_accounted:
  assumes "lease_run ten_acquire ten_release es (new_tenant name q, {#}) = (t, held)"
  shows "te_active t ! resource_index r = count (image_mset resource_index held) (resource_index r)"
proof -
  have init: "ten_invar (new_tenant name q)" "ten_active (new_tenant name q) = count (image_mset resource_index {#})"
    by (auto simp: ten_invar_def new_tenant_def ten_active_def fun_eq_iff less_Suc_eq numeral_eq_Suc)
  have "ten_active t = count (image_mset resource_index held)"
    using ten.run_accounts [OF init assms] by simp
  then show ?thesis by (auto simp: ten_active_def fun_eq_iff dest: spec [of _ "resource_index r"])
qed

section \<open>Domains\<close>

text \<open>\<open>Domains\<close> maps host patterns to the namespaces granted them, a \<open>BTreeSet\<close> as its elements in order.\<close>

type_synonym domains = "(string, string list) btree"

definition valid_host :: "string \<Rightarrow> bool" where
  "valid_host host =
     (let name = (case strip_prefix ''*.'' host of Some n \<Rightarrow> n | None \<Rightarrow> host)
      in host = [] \<or> length name \<le> 253 \<and> list_all namespace_name (split_on CHR ''.'' name))"

definition covers :: "string \<Rightarrow> string \<Rightarrow> bool" where
  "covers pat host \<longleftrightarrow>
     pat = host \<or>
     \<not> starts_with host ''*.'' \<and>
     is_some_and (strip_prefix ''*.'' pat) (\<lambda>suffix.
       is_some_and (Option.bind (strip_suffix suffix host) (strip_suffix ''.'')) (\<lambda>p. p \<noteq> [] \<and> CHR ''.'' \<notin> set p))"

definition overlap :: "string \<Rightarrow> string \<Rightarrow> bool" where
  "overlap left right \<longleftrightarrow> covers left right \<or> covers right left"

definition validate_grant :: "domains \<Rightarrow> string \<times> string list \<Rightarrow> (tenancy_error, unit) result" where
  "validate_grant d g =
     bindR (ensure (valid_host (fst g) \<and> snd g \<noteq> [] \<and> list_all namespace_name (snd g)) InvalidGrant) (\<lambda>_.
     for_each (\<lambda>other. ensure (\<not> overlap (fst g) (fst other) \<or> snd g = snd other) OverlappingGrants)
       (filter (\<lambda>other. fst other < fst g) d))"

definition domains_validate :: "domains \<Rightarrow> (tenancy_error, unit) result" where
  "domains_validate d = bindR (ensure (length d \<le> 4096) TooManyGrants) (\<lambda>_. for_each (validate_grant d) d)"

record tenancy_policy =
  ty_default :: "quota option"
  ty_namespaces :: "(string, quota) btree"
  ty_domains :: "domains option"

text \<open>The checks of \<open>Policy::load\<close> on the decoded file.\<close>

definition tenancy_policy_check :: "tenancy_policy \<Rightarrow> (tenancy_error, tenancy_policy) result" where
  "tenancy_policy_check p =
     bindR (ensure (length (ty_namespaces p) \<le> 1024) TooManyNamespaces) (\<lambda>_.
     bindR (for_each (\<lambda>(name, q).
         bindR (ensure (name \<noteq> [] \<and> length name \<le> 63
           \<and> list_all (\<lambda>b. is_ascii_lowercase b \<or> is_ascii_digit b \<or> b = CHR ''-'') name) InvalidNamespaceName) (\<lambda>_.
         quota_validate q)) (ty_namespaces p)) (\<lambda>_.
     bindR (case ty_default p of Some q \<Rightarrow> quota_validate q | None \<Rightarrow> Inr ()) (\<lambda>_.
     bindR (case ty_domains p of Some d \<Rightarrow> domains_validate d | None \<Rightarrow> Inr ()) (\<lambda>_. Inr p))))"

definition policy_quota :: "tenancy_policy \<Rightarrow> string \<Rightarrow> quota option" where
  "policy_quota p namespace = or_else (bt_get (ty_namespaces p) namespace) (ty_default p)"

text \<open>A policy that loads only hands out quotas that passed their checks.\<close>

lemma policy_quota_valid:
  assumes "tenancy_policy_check p = Inr p'" and "policy_quota p' namespace = Some q"
  shows "quota_validate q = Inr ()"
proof -
  from assms(1) have p: "p' = p" "\<forall>(name, q)\<in>set (ty_namespaces p). quota_validate q = Inr ()"
    "\<forall>q. ty_default p = Some q \<longrightarrow> quota_validate q = Inr ()"
    by (auto simp: tenancy_policy_check_def result_simps split: option.splits)
  from assms(2) show ?thesis
    using p by (cases "bt_get (ty_namespaces p) namespace") (auto simp: policy_quota_def dest: map_of_SomeD)
qed

text \<open>
  Of an \<open>IngressSpec\<close>: the default backend, if there is one, with its service, the rules with their paths, and the hosts of
  the TLS entries. A service reference stands for the alias that \<open>backend_alias\<close> gives it.
\<close>

record ingress_path =
  ip_path :: "string option"
  ip_type :: string
  ip_service :: "string option"

record ingress_rule =
  ir_host :: "string option"
  ir_paths :: "ingress_path list"

record ingress_spec =
  sp_default :: "string option option"
  sp_rules :: "ingress_rule list"
  sp_tls :: "string list"

definition rule_host :: "ingress_rule \<Rightarrow> string" where
  "rule_host r = to_ascii_lowercase (case ir_host r of Some h \<Rightarrow> h | None \<Rightarrow> [])"

definition spec_hosts :: "ingress_spec \<Rightarrow> string list" where
  "spec_hosts spec =
     remdups (map rule_host (sp_rules spec) @ map to_ascii_lowercase (sp_tls spec) @ (if sp_default spec \<noteq> None then [[]] else []))"

definition domains_authorize :: "domains \<Rightarrow> string \<Rightarrow> ingress_spec \<Rightarrow> (tenancy_error, unit) result" where
  "domains_authorize d namespace spec =
     for_each (\<lambda>host. ensure (list_ex (\<lambda>(grant, owners). covers grant host \<and> namespace \<in> set owners) d) (NotAuthorized host))
       (spec_hosts spec)"

definition claim ::
  "string \<Rightarrow> ingress_spec \<Rightarrow> domains option \<Rightarrow> (string, string) btree \<Rightarrow> (tenancy_error, unit) result \<times> (string, string) btree" where
  "claim namespace spec explicit owners =
     (case explicit of
        Some d \<Rightarrow> (domains_authorize d namespace spec, owners)
      | None \<Rightarrow>
          (case for_each (\<lambda>host.
              ensure (\<not> list_ex (\<lambda>(other, owner). owner \<noteq> namespace \<and> overlap host other) owners) (DomainTaken host))
              (spec_hosts spec) of
             Inl e \<Rightarrow> (Inl e, owners)
           | Inr _ \<Rightarrow> (Inr (), fold (\<lambda>host. bt_or_insert host namespace) (spec_hosts spec) owners)))"

text \<open>The loop over the ingresses: one that is refused is skipped. The result is the owners and the claims accepted.\<close>

fun claims ::
  "domains option \<Rightarrow> (string \<times> ingress_spec) list \<Rightarrow> (string, string) btree \<Rightarrow> (string, string) btree \<times> (string \<times> ingress_spec) list" where
  "claims explicit [] owners = (owners, [])"
| "claims explicit ((namespace, spec) # rest) owners =
     (case claim namespace spec explicit owners of
        (Inl _, owners') \<Rightarrow> claims explicit rest owners'
      | (Inr _, owners') \<Rightarrow> (case claims explicit rest owners' of (o', accepted) \<Rightarrow> (o', (namespace, spec) # accepted)))"

text \<open>A pattern with a wildcard matches the hosts with one more label.\<close>

lemma covers_cases:
  assumes "covers pat host"
  obtains (same) "pat = host"
  | (wild) suffix label where "pat = ''*.'' @ suffix" "host = label @ ''.'' @ suffix" "label \<noteq> []" "CHR ''.'' \<notin> set label"
      "\<not> starts_with host ''*.''"
  using assms by (auto simp: covers_def is_some_and_iff bind_eq_Some_conv)

lemma covers_wild:
  "label \<noteq> [] \<Longrightarrow> CHR ''.'' \<notin> set label \<Longrightarrow> \<not> starts_with (label @ ''.'' @ suffix) ''*.'' \<Longrightarrow>
   covers (''*.'' @ suffix) (label @ ''.'' @ suffix)"
  by (simp add: covers_def is_some_and_iff bind_eq_Some_conv)

lemma covers_refl [simp]: "covers p p"
  by (simp add: covers_def)

text \<open>
  What the router matches (\<open>host_rank\<close> of an Ingress host) against what a claim covers. Every pattern but the empty one, which matches
  every host, overlaps each other pattern that matches the same host; and a pattern covers what the patterns it covers match.
\<close>

lemma ranked_cases:
  assumes "host_rank p h True \<noteq> None" "p \<noteq> []"
  obtains (same) "p = h"
  | (wild) suffix pre where "p = ''*.'' @ suffix" "h = pre @ ''.'' @ suffix" "pre \<noteq> []" "CHR ''.'' \<notin> set pre"
  using assms by (auto simp: host_rank_def split: if_splits option.splits)

lemma ranked_covers:
  assumes "host_rank p h True \<noteq> None" "p \<noteq> []"
  shows "covers p h"
  using assms
proof (cases rule: ranked_cases)
  case (wild s l)
  show ?thesis
  proof (cases "starts_with h ''*.''")
    case True
    then obtain t where "l @ CHR ''.'' # s = ''*'' @ CHR ''.'' # t" by (auto simp: wild(2) starts_with_iff)
    then have "l = ''*''" using wild(4) by (auto simp: append_eq_Cons_conv Cons_eq_append_conv)
    with wild show ?thesis by simp
  qed (use wild covers_wild in simp)
qed simp

lemma common_host_overlap:
  assumes "host_rank p h True \<noteq> None" "p \<noteq> []" "host_rank q h True \<noteq> None" "q \<noteq> []"
  shows "overlap p q"
  using assms(1,2)
proof (cases rule: ranked_cases)
  case same
  with ranked_covers [OF assms(3,4)] show ?thesis by (simp add: overlap_def)
next
  case (wild s l)
  note p = wild
  from assms(3,4) show ?thesis
  proof (cases rule: ranked_cases)
    case same
    with ranked_covers [OF assms(1,2)] show ?thesis by (simp add: overlap_def)
  next
    case (wild t k)
    have "l @ CHR ''.'' # s = k @ CHR ''.'' # t" using p(2) wild(2) by simp
    then have "l = k \<and> s = t" using p(4) wild(4) by (metis append_same_eq split_once_Some_iff option.inject prod.inject)
    with p wild have "p = q" by simp
    then show ?thesis by (simp add: overlap_def)
  qed
qed

lemma covers_trans:
  assumes "covers g p" "covers p h"
  shows "covers g h"
  using assms(1)
proof (cases rule: covers_cases)
  case (wild s l)
  from assms(2) show ?thesis
  proof (cases rule: covers_cases)
    case (wild t k)
    then have "starts_with p ''*.''" by (auto simp: starts_with_iff)
    with \<open>\<not> starts_with p ''*.''\<close> show ?thesis by simp
  qed (use assms in simp)
qed (use assms in simp)

lemma fold_or_insert_get:
  "bt_get (fold (\<lambda>host. bt_or_insert host n) hosts owners) h =
     (case bt_get owners h of Some o' \<Rightarrow> Some o' | None \<Rightarrow> if h \<in> set hosts then Some n else None)"
  by (induction hosts arbitrary: owners) (auto simp: bt_get_or_insert split: option.split)

lemma bt_list_ex:
  "bt_sorted m \<Longrightarrow> list_ex (\<lambda>(k, v). P k v) m \<longleftrightarrow> (\<exists>k v. bt_get m k = Some v \<and> P k v)"
  using bt_sorted_distinct [of m] by (auto simp: list_ex_iff bt_keys_def split_beta) (force+)

lemma fold_or_insert_sorted: "bt_sorted owners \<Longrightarrow> bt_sorted (fold (\<lambda>host. bt_or_insert host n) hosts owners)"
  by (induction hosts arbitrary: owners) (simp_all add: bt_sorted_or_insert)

text \<open>The owners of overlapping patterns agree: every claim keeps it, and an accepted one owns all its hosts.\<close>

definition owners_ok :: "(string, string) btree \<Rightarrow> bool" where
  "owners_ok owners \<longleftrightarrow> bt_sorted owners \<and>
     (\<forall>h k n m. bt_get owners h = Some n \<and> bt_get owners k = Some m \<and> overlap h k \<longrightarrow> n = m)"

lemma overlap_sym: "overlap a b = overlap b a"
  by (auto simp: overlap_def)

lemma claim_keeps:
  assumes "claim n spec None owners = (Inr u, owners')" and "owners_ok owners"
  shows "owners_ok owners'" and "\<forall>h\<in>set (spec_hosts spec). bt_get owners' h = Some n"
    and "\<forall>h m. bt_get owners h = Some m \<longrightarrow> bt_get owners' h = Some m"
proof -
  from assms(1) have free: "\<forall>host\<in>set (spec_hosts spec). \<not> list_ex (\<lambda>(other, owner). owner \<noteq> n \<and> overlap host other) owners"
    and owners': "owners' = fold (\<lambda>host. bt_or_insert host n) (spec_hosts spec) owners"
    by (auto simp: claim_def result_simps split: sum.splits)
  have sorted: "bt_sorted owners" using assms(2) by (simp add: owners_ok_def)
  have clear: "m = n" if "h \<in> set (spec_hosts spec)" "bt_get owners k = Some m" "overlap h k" for h k m
    using free that bt_list_ex [OF sorted, of "\<lambda>other owner. owner \<noteq> n \<and> overlap h other"] by auto
  show get: "\<forall>h m. bt_get owners h = Some m \<longrightarrow> bt_get owners' h = Some m"
    by (simp add: owners' fold_or_insert_get)
  show "\<forall>h\<in>set (spec_hosts spec). bt_get owners' h = Some n"
    using clear by (auto simp: owners' fold_or_insert_get overlap_def split: option.split)
  show "owners_ok owners'"
    using assms(2) clear fold_or_insert_sorted [OF sorted] unfolding owners_ok_def owners' fold_or_insert_get
    by (auto split: option.splits if_splits simp: overlap_sym)
qed

lemma claims_keep:
  assumes "claims None reqs owners = (owners', accepted)" and "owners_ok owners"
  shows "owners_ok owners' \<and> (\<forall>h m. bt_get owners h = Some m \<longrightarrow> bt_get owners' h = Some m)
    \<and> (\<forall>(n, spec)\<in>set accepted. \<forall>h\<in>set (spec_hosts spec). bt_get owners' h = Some n)"
  using assms
proof (induction reqs arbitrary: owners accepted)
  case (Cons req reqs)
  obtain n spec where req: "req = (n, spec)" by fastforce
  obtain res owners1 where c: "claim n spec None owners = (res, owners1)" by fastforce
  show ?case
  proof (cases res)
    case (Inl e)
    with c have "owners1 = owners" by (auto simp: claim_def split: sum.splits)
    with Cons Inl c req show ?thesis by auto
  next
    case (Inr u)
    note kept = claim_keeps [OF c [unfolded Inr] Cons.prems(2)]
    obtain acc where acc: "claims None reqs owners1 = (owners', acc)" "accepted = (n, spec) # acc"
      using Cons.prems(1) c Inr req by (auto split: prod.splits)
    from Cons.IH [OF acc(1) kept(1)] kept acc(2) show ?thesis by auto
  qed
qed simp

lemma claims_accepted_authorized:
  assumes "claims (Some d) reqs owners = (owners', accepted)" and "(n, spec) \<in> set accepted"
  shows "domains_authorize d n spec = Inr ()"
  using assms
proof (induction reqs arbitrary: owners accepted)
  case (Cons req reqs)
  then show ?case by (cases req) (auto simp: claim_def split: sum.splits prod.splits)
qed simp

lemma grants_agree:
  assumes valid: "domains_validate d = Inr u" and g: "(g, os) \<in> set d" "(g', os') \<in> set d" and "overlap g g'" "bt_sorted d"
  shows "os = os'"
proof -
  have pair: "a < b \<Longrightarrow> (a, x) \<in> set d \<Longrightarrow> (b, y) \<in> set d \<Longrightarrow> overlap b a \<Longrightarrow> x = y" for a b x y
    using valid by (fastforce simp: domains_validate_def validate_grant_def result_simps)
  consider "g < g'" | "g' < g" | "g = g'" by fastforce
  then show ?thesis
  proof cases
    case 3
    then show ?thesis using bt_sorted_distinct [OF \<open>bt_sorted d\<close>] g by (auto simp: bt_keys_def dest: eq_key_imp_eq_value)
  qed (use pair g \<open>overlap g g'\<close> overlap_sym in blast)+
qed

end
