(* ===== verification/Ingress_Routes.thy ===== *)
theory Ingress_Routes
  imports Routing Tenancy "HOL-Library.Product_Lexorder"
begin

text \<open>
  From the Ingress resources of several namespaces to virtual hosts, the loop of \<open>src/src/ingress/mod.rs\<close> once a resource has been
  read: its hosts are claimed, its services are bound to backends of its namespace, and its rules become routes, grouped by
  listener and host. A resource refused by its claim leaves nothing. Policies, scripts, certificates, rollouts and diagnostics are left out;
  \<open>ig_invalid\<close> says that one of them failed, \<open>ig_policy\<close> that the resource has policy annotations, and \<open>ig_services\<close> gives the
  services of its traffic policy.

  The lemmas follow each route back to the resource that declared it, so that the claims of \<open>Tenancy\<close> bound what the index of
  \<open>Routing\<close> answers.
\<close>

section \<open>Routes of one Ingress\<close>

record ingress =
  ig_namespace :: string
  ig_name :: string
  ig_spec :: ingress_spec
  ig_invalid :: bool
  ig_policy :: bool
  ig_services :: "string list"

definition declared_services :: "ingress \<Rightarrow> string list" where
  "declared_services ig =
     (case sp_default (ig_spec ig) of Some (Some s) \<Rightarrow> [s] | _ \<Rightarrow> [])
       @ concat (map (\<lambda>r. List.map_filter ip_service (ir_paths r)) (sp_rules (ig_spec ig))) @ ig_services ig"

definition service_backend_key :: "ingress \<Rightarrow> string \<Rightarrow> string" where
  "service_backend_key ig alias =
     (if ig_policy ig then ig_namespace ig @ ''/'' @ ig_name ig @ ''/'' @ alias else ig_namespace ig @ ''/'' @ alias)"

definition allowed_backends :: "ingress \<Rightarrow> (string, string) btree" where
  "allowed_backends ig = fold (\<lambda>alias. bt_insert alias (service_backend_key ig alias)) (declared_services ig) []"

definition ingress_matcher :: "ingress_path \<Rightarrow> path_match option" where
  "ingress_matcher p =
     (let value = (case ip_path p of Some v \<Rightarrow> v | None \<Rightarrow> ''/'') in
      if ip_type p = ''Exact'' then Some (Exact value)
      else if ip_type p = ''Prefix'' \<or> ip_type p = ''ImplementationSpecific'' then
        (let trimmed = trim_end_matches CHR ''/'' value in
         Some (IngressPrefix (trimmed @ (if trimmed = [] then ''/'' else []))))
      else None)"

definition route_specs :: "ingress_spec \<Rightarrow> (string \<times> path_match \<times> string option) list" where
  "route_specs spec =
     (case sp_default spec of Some service \<Rightarrow> [([], IngressDefault, service)] | None \<Rightarrow> [])
       @ concat (map (\<lambda>r. List.map_filter (\<lambda>p. map_option (\<lambda>m. (rule_host r, m, ip_service p)) (ingress_matcher p)) (ir_paths r))
           (sp_rules spec))"

definition ingress_route :: "ingress \<Rightarrow> string \<times> path_match \<times> string option \<Rightarrow> route" where
  "ingress_route ig = (\<lambda>(host, matcher, service).
     \<lparr>route_id = ig_namespace ig @ ''/'' @ ig_name ig @ '':'' @ host @ '':''
        @ (if matcher = IngressDefault then ''default'' else path_match_path matcher),
      route_matcher = matcher,
      route_action =
        (if ig_invalid ig then Unavailable
         else case Option.bind service (bt_get (allowed_backends ig)) of
                Some key \<Rightarrow> Proxy key None
              | None \<Rightarrow> Unavailable)\<rparr>)"

section \<open>Assembly\<close>

type_synonym route_groups = "(socket_addr \<times> string, route list) btree"

text \<open>A route whose matcher the group has already belongs to an earlier Ingress.\<close>

definition add_group_route :: "string \<Rightarrow> route \<Rightarrow> socket_addr \<Rightarrow> route_groups \<Rightarrow> route_groups" where
  "add_group_route host route listener groups =
     (let routes = (case bt_get groups (listener, host) of Some rs \<Rightarrow> rs | None \<Rightarrow> []) in
      bt_insert (listener, host)
        (if list_ex (\<lambda>r. route_matcher r = route_matcher route) routes then routes else routes @ [route]) groups)"

definition add_ingress :: "socket_addr list \<Rightarrow> ingress \<Rightarrow> route_groups \<Rightarrow> route_groups" where
  "add_ingress listeners ig =
     fold (\<lambda>spec. fold (add_group_route (fst spec) (ingress_route ig spec)) listeners) (route_specs (ig_spec ig))"

text \<open>The loop: the owners, the groups and the resources accepted.\<close>

fun assemble ::
  "domains option \<Rightarrow> socket_addr list \<Rightarrow> ingress list \<Rightarrow> (string, string) btree \<Rightarrow> route_groups
     \<Rightarrow> (string, string) btree \<times> route_groups \<times> ingress list" where
  "assemble explicit listeners [] owners groups = (owners, groups, [])"
| "assemble explicit listeners (ig # igs) owners groups =
     (case claim (ig_namespace ig) (ig_spec ig) explicit owners of
        (Inl _, owners') \<Rightarrow> assemble explicit listeners igs owners' groups
      | (Inr _, owners') \<Rightarrow>
          (case assemble explicit listeners igs owners' (add_ingress listeners ig groups) of
             (owners2, groups2, accepted) \<Rightarrow> (owners2, groups2, ig # accepted)))"

definition ingress_hosts :: "route_groups \<Rightarrow> virtual_host list" where
  "ingress_hosts groups =
     map (\<lambda>((listener, name), routes).
       \<lparr>vh_listener = listener, vh_names = [name], vh_default = (name = []), vh_ingress = True, vh_routes = routes\<rparr>) groups"

section \<open>Where a route comes from\<close>

definition declared_by :: "ingress \<Rightarrow> string \<Rightarrow> route \<Rightarrow> bool" where
  "declared_by ig name r \<longleftrightarrow> name \<in> set (spec_hosts (ig_spec ig)) \<and> (\<exists>spec. r = ingress_route ig spec)"

definition groups_declared :: "ingress set \<Rightarrow> route_groups \<Rightarrow> bool" where
  "groups_declared igs groups \<longleftrightarrow>
     (\<forall>((listener, name), routes)\<in>set groups. \<forall>r\<in>set routes. \<exists>ig\<in>igs. declared_by ig name r)"

lemma route_specs_hosts: "(host, m, service) \<in> set (route_specs spec) \<Longrightarrow> host \<in> set (spec_hosts spec)"
  by (auto simp: route_specs_def spec_hosts_def List.map_filter_def split: option.splits)

lemma add_group_route_declared:
  assumes "groups_declared igs groups" and "ig \<in> igs" and "declared_by ig host route"
  shows "groups_declared igs (add_group_route host route listener groups)"
proof -
  let ?routes = "case bt_get groups (listener, host) of Some rs \<Rightarrow> rs | None \<Rightarrow> []"
  have "\<exists>ig\<in>igs. declared_by ig host r" if "r \<in> set ?routes" for r
  proof (cases "bt_get groups (listener, host)")
    case (Some rs)
    then have "((listener, host), rs) \<in> set groups" by (rule map_of_SomeD)
    with assms(1) that Some show ?thesis by (fastforce simp: groups_declared_def)
  qed (use that in simp)
  then have new: "\<exists>ig\<in>igs. declared_by ig host r"
    if "r \<in> set (if list_ex (\<lambda>r. route_matcher r = route_matcher route) ?routes then ?routes else ?routes @ [route])" for r
    using that assms(2,3) by (auto split: if_splits)
  show ?thesis
    unfolding groups_declared_def
  proof (intro ballI, clarify)
    fix l name routes r
    assume r: "((l, name), routes) \<in> set (add_group_route host route listener groups)" "r \<in> set routes"
    then consider "((l, name), routes) \<in> set groups"
      | "name = host" "routes = (if list_ex (\<lambda>r. route_matcher r = route_matcher route) ?routes then ?routes else ?routes @ [route])"
      using set_bt_insert unfolding add_group_route_def Let_def by fast
    then show "\<exists>ig\<in>igs. declared_by ig name r"
      using r(2) new assms(1) by cases (auto simp: groups_declared_def)
  qed
qed

lemma add_ingress_declared:
  assumes "groups_declared igs groups" and "ig \<in> igs"
  shows "groups_declared igs (add_ingress listeners ig groups)"
proof -
  have step: "groups_declared igs (fold (add_group_route (fst spec) (ingress_route ig spec)) ls gs)"
    if "groups_declared igs gs" "fst spec \<in> set (spec_hosts (ig_spec ig))" for spec ls gs
  proof -
    have route: "declared_by ig (fst spec) (ingress_route ig spec)" using that(2) unfolding declared_by_def by blast
    show ?thesis
      using that(1) by (induction ls arbitrary: gs) (simp_all add: add_group_route_declared [OF _ assms(2) route])
  qed
  have "groups_declared igs (fold (\<lambda>spec. fold (add_group_route (fst spec) (ingress_route ig spec)) listeners) specs gs)"
    if "groups_declared igs gs" "fst ` set specs \<subseteq> set (spec_hosts (ig_spec ig))" for specs gs
    using that by (induction specs arbitrary: gs) (auto intro: step)
  moreover have "fst ` set (route_specs (ig_spec ig)) \<subseteq> set (spec_hosts (ig_spec ig))"
    using route_specs_hosts by fastforce
  ultimately show ?thesis using assms(1) by (simp add: add_ingress_def)
qed

lemma assemble_declared:
  "assemble explicit listeners igs owners groups = (owners', groups', accepted) \<Longrightarrow> groups_declared earlier groups \<Longrightarrow>
     groups_declared (earlier \<union> set accepted) groups'"
proof (induction igs arbitrary: owners groups earlier accepted)
  case (Cons ig igs)
  obtain res owners1 where c: "claim (ig_namespace ig) (ig_spec ig) explicit owners = (res, owners1)" by fastforce
  show ?case
  proof (cases res)
    case (Inl e)
    with Cons c show ?thesis by simp
  next
    case (Inr u)
    with Cons.prems(1) c obtain acc where acc: "accepted = ig # acc"
      "assemble explicit listeners igs owners1 (add_ingress listeners ig groups) = (owners', groups', acc)"
      by (auto split: prod.splits)
    have "groups_declared (insert ig earlier) groups" using Cons.prems(2) by (fastforce simp: groups_declared_def)
    then have "groups_declared (insert ig earlier) (add_ingress listeners ig groups)" by (rule add_ingress_declared) simp
    from Cons.IH [OF acc(2) this] acc(1) show ?thesis by simp
  qed
qed simp

lemma assemble_claims:
  "assemble explicit listeners igs owners groups = (owners', groups', accepted) \<Longrightarrow>
     claims explicit (map (\<lambda>ig. (ig_namespace ig, ig_spec ig)) igs) owners = (owners', map (\<lambda>ig. (ig_namespace ig, ig_spec ig)) accepted)"
  by (induction explicit listeners igs owners groups arbitrary: accepted rule: assemble.induct)
    (auto split: prod.splits sum.splits)

lemma route_of_namespace:
  assumes "declared_by ig name r"
  shows "starts_with (route_id r) (ig_namespace ig @ ''/'')"
    and "route_action r = Proxy b uri \<Longrightarrow> starts_with b (ig_namespace ig @ ''/'')"
proof -
  have keys: "bt_get (fold (\<lambda>alias. bt_insert alias (service_backend_key ig alias)) as m) a = Some b \<Longrightarrow>
      \<forall>a b. bt_get m a = Some b \<longrightarrow> starts_with b (ig_namespace ig @ ''/'') \<Longrightarrow> starts_with b (ig_namespace ig @ ''/'')" for as m a
    by (induction as arbitrary: m) (auto simp: service_backend_key_def starts_with_iff split: if_splits)
  from assms show "starts_with (route_id r) (ig_namespace ig @ ''/'')"
    by (auto simp: declared_by_def ingress_route_def starts_with_iff split: prod.splits)
  from assms show "route_action r = Proxy b uri \<Longrightarrow> starts_with b (ig_namespace ig @ ''/'')"
    using keys [of _ "[]"] by (auto simp: declared_by_def ingress_route_def allowed_backends_def bind_eq_Some_conv split: prod.splits if_splits option.splits)
qed

text \<open>A grant that covers a claimed pattern matches what the pattern matches.\<close>

lemma covers_ranked:
  assumes "covers g p" "host_rank p h True \<noteq> None" "p \<noteq> []"
  shows "host_rank g h True \<noteq> None \<and> g \<noteq> []"
  using assms(1)
proof (cases rule: covers_cases)
  case (wild s l)
  from assms(2,3) show ?thesis
  proof (cases rule: ranked_cases)
    case same
    with wild host_rank_wildcard [of l s] show ?thesis by auto
  next
    case (wild t k)
    then have "starts_with p ''*.''" by (auto simp: starts_with_iff)
    with \<open>\<not> starts_with p ''*.''\<close> show ?thesis by simp
  qed
qed (use assms in auto)

lemma grants_name_owner:
  assumes "claims (Some d) reqs [] = (owners, accepted)" and "(n, spec) \<in> set accepted" and "p \<in> set (spec_hosts spec)"
    and "host_rank p h True \<noteq> None" "p \<noteq> []" and "domains_validate d = Inr u" "bt_sorted d"
    and "(g, granted) \<in> set d" "host_rank g h True \<noteq> None" "g \<noteq> []"
  shows "n \<in> set granted"
proof -
  have "domains_authorize d n spec = Inr ()" using claims_accepted_authorized assms(1,2) by blast
  with assms(3) obtain g' os where g': "(g', os) \<in> set d" "covers g' p" "n \<in> set os"
    by (fastforce simp: domains_authorize_def result_simps list_ex_iff)
  have "overlap g g'" using assms(9,10) covers_ranked [OF g'(2) assms(4,5)] by (blast intro: common_host_overlap)
  with grants_agree [OF assms(6,8) g'(1) _ assms(7)] g'(3) show ?thesis by blast
qed

lemma claims_one_owner:
  assumes "claims None reqs [] = (owners, accepted)" and "(n, spec) \<in> set accepted" "(m, spec') \<in> set accepted"
    and "p \<in> set (spec_hosts spec)" "q \<in> set (spec_hosts spec')"
    and "host_rank p h True \<noteq> None" "host_rank q h True \<noteq> None" "(p = []) = (q = [])"
  shows "m = n"
proof -
  have "owners_ok []" by (simp add: owners_ok_def)
  from claims_keep [OF assms(1) this]
  have ok: "owners_ok owners" "\<forall>(n, spec)\<in>set accepted. \<forall>h\<in>set (spec_hosts spec). bt_get owners h = Some n" by auto
  have "overlap p q"
    using common_host_overlap [OF assms(6) _ assms(7)] assms(8) by (cases "p = []") (auto simp: overlap_def)
  then show ?thesis using ok assms(2-5) unfolding owners_ok_def by blast
qed

text \<open>
  C13. A namespace cannot take over another's host. Whatever the Ingress resources, their order and the request, the route
  the index answers with was declared by a resource that was accepted, and it proxies only to a backend of that resource's namespace.
  Every pattern but the empty one that the router matches to the host of the request belongs to one namespace: without explicit grants,
  when the answer is not the catch-all host, no other namespace has an accepted pattern for the host, and the catch-all is of one namespace too;
  with validated grants, the namespace is named by every grant for the host, catch-all grants apart.
\<close>

theorem domain_isolation:
  assumes "assemble explicit listeners igs [] [] = (owners, groups, accepted)"
    and "index_route (build (ingress_hosts groups)) (ingress_hosts groups) l host path = Some (i, j)"
    and "vh = ingress_hosts groups ! i" and "r = vh_routes vh ! j"
  shows "\<exists>owner\<in>set accepted. starts_with (route_id r) (ig_namespace owner @ ''/'')
    \<and> (\<forall>b uri. route_action r = Proxy b uri \<longrightarrow> starts_with b (ig_namespace owner @ ''/''))
    \<and> (case explicit of
         None \<Rightarrow> \<forall>ig\<in>set accepted. \<forall>p\<in>set (spec_hosts (ig_spec ig)).
           host_rank p (normalize_host host) True \<noteq> None \<and> (p = []) = (vh_names vh = [[]]) \<longrightarrow> ig_namespace ig = ig_namespace owner
       | Some d \<Rightarrow> domains_validate d = Inr () \<and> bt_sorted d \<and> vh_names vh \<noteq> [[]] \<longrightarrow>
           (\<forall>(g, granted)\<in>set d. g \<noteq> [] \<and> host_rank g (normalize_host host) True \<noteq> None \<longrightarrow> ig_namespace owner \<in> set granted))"
proof -
  let ?vhs = "ingress_hosts groups" and ?h = "normalize_host host"
  let ?claim = "\<lambda>ig. (ig_namespace ig, ig_spec ig)"
  have ingress: "\<forall>vh\<in>set ?vhs. vh_ingress vh \<and> (vh_default vh \<longrightarrow> [] \<in> set (vh_names vh))"
    by (auto simp: ingress_hosts_def)
  have range: "i < length ?vhs" "j < length (vh_routes vh)" using index_route_range [OF assms(2)] assms(3) by simp_all
  then obtain name where name: "((vh_listener vh, name), vh_routes vh) \<in> set groups" "vh_names vh = [name]"
  proof -
    obtain listener name rs where g: "groups ! i = ((listener, name), rs)" by (metis prod.exhaust)
    have "i < length groups" using range(1) by (simp add: ingress_hosts_def)
    then have "((listener, name), rs) \<in> set groups" "vh = \<lparr>vh_listener = listener, vh_names = [name], vh_default = (name = []), vh_ingress = True, vh_routes = rs\<rparr>"
      using assms(3) g nth_mem [of i groups] by (simp_all add: ingress_hosts_def)
    then show thesis by (intro that) simp_all
  qed
  have ranked: "host_rank name ?h True \<noteq> None" using index_route_ranked [OF assms(2) ingress] assms(3) name(2) by simp
  have "groups_declared ({} \<union> set accepted) groups" by (rule assemble_declared [OF assms(1)]) (simp add: groups_declared_def)
  moreover have "r \<in> set (vh_routes vh)" using range(2) assms(4) by simp
  ultimately obtain owner where owner: "owner \<in> set accepted" "declared_by owner name r"
    using name(1) by (fastforce simp: groups_declared_def)
  have claims: "claims explicit (map ?claim igs) [] = (owners, map ?claim accepted)" by (rule assemble_claims [OF assms(1)])
  have mem: "?claim ig \<in> set (map ?claim accepted)" if "ig \<in> set accepted" for ig using that by simp
  have host: "name \<in> set (spec_hosts (ig_spec owner))" using owner(2) by (simp add: declared_by_def)
  have "case explicit of
         None \<Rightarrow> \<forall>ig\<in>set accepted. \<forall>p\<in>set (spec_hosts (ig_spec ig)).
           host_rank p ?h True \<noteq> None \<and> (p = []) = (vh_names vh = [[]]) \<longrightarrow> ig_namespace ig = ig_namespace owner
       | Some d \<Rightarrow> domains_validate d = Inr () \<and> bt_sorted d \<and> vh_names vh \<noteq> [[]] \<longrightarrow>
           (\<forall>(g, granted)\<in>set d. g \<noteq> [] \<and> host_rank g ?h True \<noteq> None \<longrightarrow> ig_namespace owner \<in> set granted)"
  proof (cases explicit)
    case None
    then show ?thesis
      using claims_one_owner [OF claims [unfolded None] mem [OF owner(1)] mem host _ ranked] name(2) by auto
  next
    case (Some d)
    then show ?thesis
      using grants_name_owner [OF claims [unfolded Some] mem [OF owner(1)] host ranked] name(2) by auto
  qed
  with owner(1) route_of_namespace [OF owner(2)] show ?thesis by blast
qed

text \<open>
  Namespace \<open>a\<close> has a wildcard, \<open>b\<close> asks for a host under it and is refused, then gets another host with a default backend. A request
  for the refused host is answered by \<open>a\<close>, although the catch-all of \<open>b\<close> matches it too.
\<close>

definition example_ingress :: "string \<Rightarrow> string \<Rightarrow> bool \<Rightarrow> ingress" where
  "example_ingress namespace host fallback =
     \<lparr>ig_namespace = namespace, ig_name = ''web'',
      ig_spec = \<lparr>sp_default = (if fallback then Some (Some ''s:80'') else None),
        sp_rules = [\<lparr>ir_host = Some host, ir_paths = [\<lparr>ip_path = Some ''/'', ip_type = ''Prefix'', ip_service = Some ''s:80''\<rparr>]\<rparr>], sp_tls = []\<rparr>,
      ig_invalid = False, ig_policy = False, ig_services = []\<rparr>"

theorem domain_isolation_witness:
  "case assemble None [SockV4 0 80] [example_ingress ''a'' ''*.x.io'' False, example_ingress ''b'' ''W.x.io'' False, example_ingress ''b'' ''x.io'' True] [] [] of
     (owners, groups, accepted) \<Rightarrow> map ig_namespace accepted = [''a'', ''b'']
       \<and> (\<exists>i j. index_route (build (ingress_hosts groups)) (ingress_hosts groups) (SockV4 0 80) ''w.x.io'' ''/p'' = Some (i, j)
            \<and> starts_with (route_id (vh_routes (ingress_hosts groups ! i) ! j)) ''a/'')"
proof -
  let ?a = "example_ingress ''a'' ''*.x.io'' False" and ?b = "example_ingress ''b'' ''x.io'' True"
  let ?igs = "[?a, example_ingress ''b'' ''W.x.io'' False, ?b]"
  define owners where "owners = fst (assemble None [SockV4 0 80] ?igs [] [])"
  define groups where "groups = fst (snd (assemble None [SockV4 0 80] ?igs [] []))"
  have run: "assemble None [SockV4 0 80] ?igs [] [] = (owners, groups, [?a, ?b])"
    unfolding owners_def groups_def by code_simp
  have found: "index_route (build (ingress_hosts groups)) (ingress_hosts groups) (SockV4 0 80) ''w.x.io'' ''/p'' = Some (1, 0)"
    unfolding groups_def by code_simp
  have named: "vh_names (ingress_hosts groups ! 1) \<noteq> [[]]" unfolding groups_def by code_simp
  have claimed: "''*.x.io'' \<in> set (spec_hosts (ig_spec ?a))" "host_rank ''*.x.io'' (normalize_host ''w.x.io'') True \<noteq> None"
    and names: "ig_namespace ?a = ''a''" "map ig_namespace [?a, ?b] = [''a'', ''b'']"
    by code_simp+
  from domain_isolation [OF run found refl refl] obtain owner :: ingress where
    owner: "starts_with (route_id (vh_routes (ingress_hosts groups ! 1) ! 0)) (ig_namespace owner @ ''/'')"
    "\<forall>ig\<in>set [?a, ?b]. \<forall>p\<in>set (spec_hosts (ig_spec ig)). host_rank p (normalize_host ''w.x.io'') True \<noteq> None
       \<and> (p = []) = (vh_names (ingress_hosts groups ! 1) = [[]]) \<longrightarrow> ig_namespace ig = ig_namespace owner"
    unfolding option.case by blast
  have "?a \<in> set [?a, ?b]" by simp
  from owner(2) [rule_format, OF this claimed(1)] claimed(2) named have "ig_namespace ?a = ig_namespace owner" by blast
  with owner(1) names(1) have "starts_with (route_id (vh_routes (ingress_hosts groups ! 1) ! 0)) ''a/''" by simp
  with found names(2) show ?thesis unfolding run prod.case by blast
qed

end
