(* ===== verification/Request_Entry.thy ===== *)
theory Request_Entry
  imports Request_Data Http_Model Net_Addr Gateway_Policy Script_Host
begin

text \<open>
  What a request goes through on its way in and out of the proxy, \<open>src/src/proxy/mod.rs\<close>: the normal form of its path
  (\<open>normalized_path_view\<close>, \<open>normalize_decoded_path\<close>), its host (\<open>request_host_parts\<close>), the \<open>Connection\<close> header
  (\<open>validate_connection_header\<close>, \<open>strip_hop_headers\<close>) and \<open>https_redirect\<close>; and \<open>src/src/proxy/planning.rs\<close>: the URI
  sent to a backend (\<open>outbound_uri\<close>) and the variables of header values (\<open>Variables::expand\<close>). The crates
  \<open>percent_encoding\<close> and \<open>http\<close> (header values, authorities and URIs) are arguments.

  The lemmas: a path that is accepted is absolute, free of dot segments, of empty segments and of the bytes that other
  programs read as separators, and denotes the directory walk the request asked for; the walk is refused exactly when it
  leaves the root. The host that routes a request is the one its \<open>Host\<close> header and its authority agree on. No field
  that concerns one connection reaches a backend, and no field that frames the message is lost.
\<close>

datatype entry_error =
    UriTooLong | InvalidEscape | InvalidUtf8 | InvalidPath | EscapesRoot
  | InvalidAuthority | InvalidHostHeader | OneHostHeader | HostDiffers | ConnectionNamesFraming

section \<open>Paths\<close>

definition is_ascii_hexdigit :: "char \<Rightarrow> bool" where
  "is_ascii_hexdigit c \<longleftrightarrow> is_ascii_digit c \<or> CHR ''a'' \<le> c \<and> c \<le> CHR ''f'' \<or> CHR ''A'' \<le> c \<and> c \<le> CHR ''F''"

fun escapes_ok :: "string \<Rightarrow> bool" where
  "escapes_ok [] = True"
| "escapes_ok (c # cs) =
     (if c = CHR ''%'' then
        (case cs of a # b # rest \<Rightarrow> is_ascii_hexdigit a \<and> is_ascii_hexdigit b \<and> escapes_ok rest | _ \<Rightarrow> False)
      else escapes_ok cs)"

definition path_bytes_ok :: "string \<Rightarrow> bool" where
  "path_bytes_ok d \<longleftrightarrow> starts_with d ''/'' \<and> list_all (\<lambda>c. c \<notin> {CHR 0x00, CHR 0x5C, CHR 0x0D, CHR 0x0A}) d"

definition plain_path :: "string \<Rightarrow> bool" where
  "plain_path d \<longleftrightarrow> \<not> contains_str d ''//'' \<and> \<not> list_ex (\<lambda>c. c = ''.'' \<or> c = ''..'') (split_on CHR ''/'' d)"

fun resolve_dots :: "string list \<Rightarrow> string list \<Rightarrow> (entry_error, string list) result" where
  "resolve_dots [] components = Inr components"
| "resolve_dots (c # cs) components =
     (if c = [] \<or> c = ''.'' then resolve_dots cs components
      else if c = ''..'' then
        (if components = [] then Inl EscapesRoot else resolve_dots cs (butlast components))
      else resolve_dots cs (components @ [c]))"

definition normalize_decoded_path :: "string \<Rightarrow> (entry_error, string) result" where
  "normalize_decoded_path d =
     bindR (ensure (path_bytes_ok d) InvalidPath) (\<lambda>_.
     if plain_path d then Inr d
     else
       bindR (resolve_dots (split_on CHR ''/'' d) []) (\<lambda>components.
       let normalized = CHR ''/'' # join ''/'' components in
       Inr (if (ends_with d ''/'' \<or> ends_with d ''/.'' \<or> ends_with d ''/..'') \<and> normalized \<noteq> ''/''
            then normalized @ ''/'' else normalized)))"

definition normalized_path :: "(string \<Rightarrow> string) \<Rightarrow> string \<Rightarrow> (entry_error, string) result" where
  "normalized_path percent_decode path =
     bindR (ensure (length path \<le> 8192) UriTooLong) (\<lambda>_.
     bindR (if CHR ''%'' \<in> set path
            then bindR (ensure (escapes_ok path) InvalidEscape) (\<lambda>_. ok_or (from_utf8 (percent_decode path)) InvalidUtf8)
            else Inr path) (\<lambda>d.
     bindR (ensure (path_bytes_ok d) InvalidPath) (\<lambda>_.
     if plain_path d then Inr d else normalize_decoded_path d)))"

text \<open>The names a path goes through, and paths in normal form.\<close>

definition segments :: "string \<Rightarrow> string list" where
  "segments p = filter (\<lambda>c. c \<noteq> []) (split_on CHR ''/'' p)"

definition clean_path :: "string \<Rightarrow> bool" where
  "clean_path p \<longleftrightarrow> path_bytes_ok p \<and> plain_path p"

lemma split_on_append: "split_on c (a @ c # b) = split_on c a @ split_on c b"
  by (induction a) (auto split: list.split)

lemma resolve_dots_names:
  "resolve_dots cs acc = Inr out \<Longrightarrow> list_all (\<lambda>c. c \<notin> {[], ''.'', ''..''}) acc \<Longrightarrow>
   list_all (\<lambda>c. c \<notin> {[], ''.'', ''..''}) out \<and> set out \<subseteq> set acc \<union> set cs"
  by (induction cs acc rule: resolve_dots.induct)
    (fastforce simp: list_all_iff split: if_splits dest: in_set_butlastD)+

lemma resolve_dots_plain:
  "\<not> list_ex (\<lambda>c. c = ''.'' \<or> c = ''..'') cs \<Longrightarrow> resolve_dots cs acc = Inr (acc @ filter (\<lambda>c. c \<noteq> []) cs)"
  by (induction cs acc rule: resolve_dots.induct) (auto simp: list_ex_iff)

lemma split_rooted:
  assumes "list_all (\<lambda>c. c \<noteq> [] \<and> CHR ''/'' \<notin> set c) cs" "cs \<noteq> []"
  shows "split_on CHR ''/'' (CHR ''/'' # join ''/'' cs) = [] # cs"
    and "split_on CHR ''/'' (CHR ''/'' # join ''/'' cs @ ''/'') = [] # cs @ [[]]"
proof -
  have "split_on CHR ''/'' (join ''/'' cs) = cs"
    using assms by (intro split_on_join) (auto simp: list_all_iff)
  then show "split_on CHR ''/'' (CHR ''/'' # join ''/'' cs) = [] # cs"
    and "split_on CHR ''/'' (CHR ''/'' # join ''/'' cs @ ''/'') = [] # cs @ [[]]"
    using split_on_append [of "CHR ''/''" "join ''/'' cs" "[]"] by simp_all
qed

lemma doubled_slash_split:
  assumes "contains_str p ''//''"
  shows "\<exists>xs ys. split_on CHR ''/'' p = xs @ [] # ys \<and> xs \<noteq> [] \<and> ys \<noteq> []"
proof -
  from assms obtain a b where "p = a @ ''//'' @ b" by (auto simp: contains_str_iff)
  then have "split_on CHR ''/'' p = split_on CHR ''/'' a @ [] # split_on CHR ''/'' b"
    by (simp add: split_on_append)
  then show ?thesis using split_on_nonempty by metis
qed

lemma no_doubled_slash:
  assumes "split_on CHR ''/'' p = [] # cs @ tail" "list_all (\<lambda>c. c \<noteq> []) cs" "tail = [] \<or> tail = [[]]"
  shows "\<not> contains_str p ''//''"
proof
  assume "contains_str p ''//''"
  then obtain xs ys where x: "split_on CHR ''/'' p = xs @ [] # ys" "xs \<noteq> []" "ys \<noteq> []"
    by (blast dest: doubled_slash_split)
  then obtain xs' where "xs = [] # xs'" using assms(1) by (cases xs) auto
  with x assms(1) have eq: "cs @ tail = xs' @ [] # ys" by simp
  from assms(3) show False
  proof
    assume "tail = []"
    with eq assms(2) show False by (auto simp: list_all_iff)
  next
    assume "tail = [[]]"
    with eq x(3) have "cs = xs' @ [] # butlast ys"
      by (metis append_butlast_last_id butlast_append butlast_snoc list.distinct(1) butlast.simps(2))
    with assms(2) show False by (auto simp: list_all_iff)
  qed
qed

lemma set_join: "set (join sep cs) \<subseteq> set sep \<union> (\<Union>c\<in>set cs. set c)"
  by (induction sep cs rule: join.induct) auto

lemma split_on_set: "c \<in> set (split_on s d) \<Longrightarrow> set c \<subseteq> set d"
  by (induction d arbitrary: c) (fastforce split: list.splits if_splits)+

text \<open>What the loop produces is in normal form, with the names it was given.\<close>

lemma rooted_clean:
  assumes names: "list_all (\<lambda>c. c \<notin> {[], ''.'', ''..''} \<and> CHR ''/'' \<notin> set c) cs"
    and bytes: "\<forall>c\<in>set cs. set c \<inter> {CHR 0x00, CHR 0x5C, CHR 0x0D, CHR 0x0A} = {}"
    and p: "p = CHR ''/'' # join ''/'' cs \<or> p = CHR ''/'' # join ''/'' cs @ ''/'' \<and> cs \<noteq> []"
  shows "clean_path p \<and> segments p = cs"
proof -
  have cs: "list_all (\<lambda>c. c \<noteq> [] \<and> CHR ''/'' \<notin> set c) cs" using names by (auto simp: list_all_iff)
  obtain tail where split: "split_on CHR ''/'' p = [] # cs @ tail" and tail: "tail = [] \<or> tail = [[]]"
  proof (cases "cs = []")
    case True
    with p have "p = ''/''" by auto
    with True show ?thesis by (intro that [of "[[]]"]) simp_all
  next
    case False
    with p split_rooted [OF cs False] show ?thesis by (auto intro: that [of "[]"] that [of "[[]]"])
  qed
  have "\<not> contains_str p ''//''"
    using cs by (intro no_doubled_slash [OF split _ tail]) (auto simp: list_all_iff)
  moreover have "\<not> list_ex (\<lambda>c. c = ''.'' \<or> c = ''..'') (split_on CHR ''/'' p)"
  proof -
    have "set (split_on CHR ''/'' p) \<subseteq> insert [] (set cs)" using tail split by auto
    with names show ?thesis by (auto simp: list_ex_iff list_all_iff)
  qed
  moreover have "path_bytes_ok p"
  proof -
    have "set p \<subseteq> {CHR ''/''} \<union> (\<Union>c\<in>set cs. set c)" using p set_join [of "''/''" cs] by auto
    then have "set p \<inter> {CHR 0x00, CHR 0x5C, CHR 0x0D, CHR 0x0A} = {}" using bytes by auto
    with p show ?thesis by (auto simp: path_bytes_ok_def list_all_iff starts_with_def)
  qed
  moreover have "segments p = cs"
    using cs tail unfolding segments_def split by (auto simp: list_all_iff)
  ultimately show ?thesis by (simp add: clean_path_def plain_path_def)
qed

lemma normalize_clean: "clean_path p \<Longrightarrow> normalize_decoded_path p = Inr p"
  by (simp add: normalize_decoded_path_def clean_path_def)

lemma normalize_decoded_path_sound:
  assumes "normalize_decoded_path d = Inr p"
  shows "clean_path p \<and> resolve_dots (split_on CHR ''/'' d) [] = Inr (segments p)"
proof (cases "plain_path d")
  case True
  with assms have "p = d" "clean_path p" by (auto simp: normalize_decoded_path_def clean_path_def result_simps)
  with True show ?thesis by (simp add: resolve_dots_plain plain_path_def segments_def)
next
  case False
  with assms obtain cs where ok: "path_bytes_ok d" and cs: "resolve_dots (split_on CHR ''/'' d) [] = Inr cs"
    and p: "p = CHR ''/'' # join ''/'' cs \<or> p = CHR ''/'' # join ''/'' cs @ ''/'' \<and> CHR ''/'' # join ''/'' cs \<noteq> ''/''"
    by (auto simp: normalize_decoded_path_def result_simps Let_def split: if_splits)
  have names: "list_all (\<lambda>c. c \<notin> {[], ''.'', ''..''}) cs" and sub: "set cs \<subseteq> set (split_on CHR ''/'' d)"
    using resolve_dots_names [OF cs] by auto
  have "clean_path p \<and> segments p = cs"
  proof (rule rooted_clean)
    show "list_all (\<lambda>c. c \<notin> {[], ''.'', ''..''} \<and> CHR ''/'' \<notin> set c) cs"
      using names sub split_on_no_sep by (fastforce simp: list_all_iff)
    show "\<forall>c\<in>set cs. set c \<inter> {CHR 0x00, CHR 0x5C, CHR 0x0D, CHR 0x0A} = {}"
      using ok sub split_on_set [of _ "CHR ''/''" d] by (fastforce simp: path_bytes_ok_def list_all_iff)
    show "p = CHR ''/'' # join ''/'' cs \<or> p = CHR ''/'' # join ''/'' cs @ ''/'' \<and> cs \<noteq> []" using p by auto
  qed
  with cs show ?thesis by simp
qed

text \<open>The walk leaves the root when some prefix of it goes up more often than down.\<close>

definition climb :: "string list \<Rightarrow> int" where
  "climb cs = sum_list (map (\<lambda>c. if c = ''..'' then -1 else if c = [] \<or> c = ''.'' then 0 else 1) cs)"

lemma resolve_dots_escapes:
  "resolve_dots cs acc = Inl e \<longleftrightarrow> e = EscapesRoot \<and> (\<exists>n. climb (take n cs) + int (length acc) < 0)"
proof (induction cs acc rule: resolve_dots.induct)
  case (1 acc)
  then show ?case by (simp add: climb_def)
next
  case (2 c cs acc)
  have step: "(\<exists>n. climb (take n (c # cs)) + int (length acc) < 0) \<longleftrightarrow>
      (\<exists>n. climb [c] + climb (take n cs) + int (length acc) < 0)"
    by (auto simp: climb_def take_Cons' gr0_conv_Suc intro: exI [of _ "Suc _"])
  show ?case
  proof (cases "c = ''..'' \<and> acc = []")
    case True
    then show ?thesis unfolding step by (auto simp: climb_def intro: exI [of _ 0])
  next
    case False
    then show ?thesis unfolding step using 2 by (auto simp: climb_def of_nat_diff Suc_leI algebra_simps)
  qed
qed

section \<open>Hosts\<close>

definition eq_ignore_ascii_case :: "string \<Rightarrow> string \<Rightarrow> bool" where
  "eq_ignore_ascii_case a b \<longleftrightarrow> to_ascii_lowercase a = to_ascii_lowercase b"

definition rsplit_once :: "char \<Rightarrow> string \<Rightarrow> (string \<times> string) option" where
  "rsplit_once c s = map_option (\<lambda>(b, a). (rev a, rev b)) (split_once c (rev s))"

definition reg_name_byte :: "char \<Rightarrow> bool" where
  "reg_name_byte b \<longleftrightarrow> is_ascii_alphanumeric b \<or> b = CHR ''.'' \<or> b = CHR ''-''"

definition parse_host :: "(string \<Rightarrow> string option) \<Rightarrow> string \<Rightarrow> (entry_error, string) result" where
  "parse_host authority_host v =
     (let host = (case rsplit_once CHR '':'' v of
                    Some (h, port) \<Rightarrow> if port \<noteq> [] \<and> list_all is_ascii_digit port then h else []
                  | None \<Rightarrow> v) in
      if host \<noteq> [] \<and> length v \<le> 1024 \<and> list_all reg_name_byte host
      then Inr (if list_ex is_ascii_uppercase host then to_ascii_lowercase host else host)
      else
        bindR (ok_or (authority_host v) InvalidAuthority) (\<lambda>h.
        bindR (ensure (h \<noteq> [] \<and> CHR ''@'' \<notin> set v) InvalidAuthority) (\<lambda>_.
        Inr (to_ascii_lowercase h))))"

text \<open>
  \<open>request_host_parts\<close>: the fields of the request, whether its URI has a scheme, the authority of the URI, and whether it
  is an HTTP/1.1 request.
\<close>

definition request_host ::
  "(string \<Rightarrow> string option) \<Rightarrow> (string \<Rightarrow> string option) \<Rightarrow> (string \<times> string) list \<Rightarrow> bool \<Rightarrow> string option \<Rightarrow> bool
     \<Rightarrow> (entry_error, string) result" where
  "request_host to_str authority_host headers scheme authority http11 =
     (let values = get_all headers ''host'' in
      bindR (case values of
               [] \<Rightarrow> Inr None
             | field # _ \<Rightarrow>
                 bindR (ok_or (to_str field) InvalidHostHeader) (\<lambda>v.
                 bindR (parse_host authority_host v) (\<lambda>h. Inr (Some h)))) (\<lambda>host.
      bindR (ensure (length values \<le> 1 \<and> (http11 \<longrightarrow> host \<noteq> None)) OneHostHeader) (\<lambda>_.
      bindR (case (authority, values) of
               (Some a, field # _) \<Rightarrow> ensure (scheme \<longrightarrow> eq_ignore_ascii_case field a) HostDiffers
             | _ \<Rightarrow> Inr ()) (\<lambda>_.
      case authority of
        Some a \<Rightarrow> parse_host authority_host a
      | None \<Rightarrow> Inr (case host of Some h \<Rightarrow> h | None \<Rightarrow> [])))))"

lemma lowercase_char_fixed:
  "\<not> is_ascii_alphabetic d \<Longrightarrow> to_ascii_lowercase_char c = d \<longleftrightarrow> c = d"
  "is_ascii_digit (to_ascii_lowercase_char c) = is_ascii_digit c"
  "reg_name_byte (to_ascii_lowercase_char c) = reg_name_byte c"
  "to_ascii_lowercase_char (to_ascii_lowercase_char c) = to_ascii_lowercase_char c"
  by (cases "is_ascii_uppercase c"; auto simp: to_ascii_lowercase_char_def is_ascii_alphabetic_def is_ascii_uppercase_def
      is_ascii_lowercase_def is_ascii_digit_def reg_name_byte_def is_ascii_alphanumeric_def less_eq_char_def)+

lemma split_once_lowercase:
  "\<not> is_ascii_alphabetic c \<Longrightarrow>
   split_once c (map to_ascii_lowercase_char s) =
     map_option (map_prod (map to_ascii_lowercase_char) (map to_ascii_lowercase_char)) (split_once c s)"
  by (induction s) (auto simp: lowercase_char_fixed option.map_comp o_def split_beta map_prod_def)

lemma rsplit_once_lowercase:
  "\<not> is_ascii_alphabetic c \<Longrightarrow>
   rsplit_once c (to_ascii_lowercase s) = map_option (map_prod to_ascii_lowercase to_ascii_lowercase) (rsplit_once c s)"
  by (simp add: rsplit_once_def to_ascii_lowercase_def rev_map split_once_lowercase option.map_comp o_def
      split_beta map_prod_def)

lemma lowercase_list_all:
  "list_all reg_name_byte (to_ascii_lowercase s) = list_all reg_name_byte s"
  "list_all is_ascii_digit (to_ascii_lowercase s) = list_all is_ascii_digit s"
  "\<not> is_ascii_alphabetic d \<Longrightarrow> d \<in> set (to_ascii_lowercase s) \<longleftrightarrow> d \<in> set s"
  "to_ascii_lowercase s = [] \<longleftrightarrow> s = []"
proof -
  show "d \<in> set (to_ascii_lowercase s) \<longleftrightarrow> d \<in> set s" if "\<not> is_ascii_alphabetic d"
    using lowercase_char_fixed(1) [OF that] by (force simp: to_ascii_lowercase_def)
qed (auto simp: to_ascii_lowercase_def list_all_iff lowercase_char_fixed)

lemma lower_unless_lower: "(if list_ex is_ascii_uppercase h then to_ascii_lowercase h else h) = to_ascii_lowercase h"
  by (auto simp: list_ex_iff to_ascii_lowercase_id)

lemma parse_host_case:
  assumes "map_option to_ascii_lowercase (authority_host (to_ascii_lowercase v)) =
      map_option to_ascii_lowercase (authority_host v)"
  shows "parse_host authority_host (to_ascii_lowercase v) = parse_host authority_host v"
proof -
  let ?host = "\<lambda>v. case rsplit_once CHR '':'' v of
      Some (h, port) \<Rightarrow> if port \<noteq> [] \<and> list_all is_ascii_digit port then h else [] | None \<Rightarrow> v"
  have colon: "\<not> is_ascii_alphabetic CHR '':''" "\<not> is_ascii_alphabetic CHR ''@''" by code_simp+
  have host: "?host (to_ascii_lowercase v) = to_ascii_lowercase (?host v)"
    by (simp add: rsplit_once_lowercase colon lowercase_list_all split: option.split) (simp_all add: to_ascii_lowercase_def)
  have slow: "bindR (ok_or (authority_host (to_ascii_lowercase v)) InvalidAuthority) (\<lambda>h.
        bindR (ensure (h \<noteq> [] \<and> CHR ''@'' \<notin> set (to_ascii_lowercase v)) InvalidAuthority) (\<lambda>_. Inr (to_ascii_lowercase h))) =
      bindR (ok_or (authority_host v) InvalidAuthority) (\<lambda>h.
        bindR (ensure (h \<noteq> [] \<and> CHR ''@'' \<notin> set v) InvalidAuthority) (\<lambda>_. Inr (to_ascii_lowercase h)))"
  proof (cases "authority_host v")
    case (Some h)
    with assms obtain h' where h': "authority_host (to_ascii_lowercase v) = Some h'" "to_ascii_lowercase h' = to_ascii_lowercase h"
      by auto
    then have "h' = [] \<longleftrightarrow> h = []" using lowercase_list_all(4) by metis
    with Some h' show ?thesis by (simp add: lowercase_list_all(3) colon)
  qed (use assms in simp)
  show ?thesis
    unfolding parse_host_def Let_def host lower_unless_lower slow
    by (simp add: lowercase_list_all)
qed

text \<open>
  A request whose host is accepted carries at most one \<open>Host\<close> field, exactly one in HTTP/1.1; and the host that routes it
  is the host that field names, unless the request target is an authority without a scheme (\<open>CONNECT\<close>) or a
  request of HTTP/2 without the field.
\<close>

lemma request_host_agrees:
  assumes case_free: "\<forall>v. map_option to_ascii_lowercase (authority_host (to_ascii_lowercase v)) =
      map_option to_ascii_lowercase (authority_host v)"
    and str: "\<forall>v w. to_str v = Some w \<longrightarrow> w = v"
    and ok: "request_host to_str authority_host headers scheme authority http11 = Inr h"
  shows "length (get_all headers ''host'') \<le> 1"
    and "http11 \<Longrightarrow> get_all headers ''host'' \<noteq> []"
    and "get_all headers ''host'' = [field] \<Longrightarrow> authority = None \<or> scheme \<Longrightarrow> parse_host authority_host field = Inr h"
    and "authority = Some a \<Longrightarrow> parse_host authority_host a = Inr h"
proof -
  show "length (get_all headers ''host'') \<le> 1"
    using ok by (auto simp: request_host_def Let_def result_simps)
  show "get_all headers ''host'' \<noteq> []" if http11
    using ok that by (auto simp: request_host_def Let_def result_simps)
  show "parse_host authority_host a = Inr h" if "authority = Some a"
    using ok that by (auto simp: request_host_def Let_def result_simps split: list.splits option.splits)
  show "parse_host authority_host field = Inr h" if f: "get_all headers ''host'' = [field]" and a: "authority = None \<or> scheme"
  proof (cases authority)
    case None
    with ok f str show ?thesis by (auto simp: request_host_def Let_def result_simps)
  next
    case (Some w)
    with ok f a have "to_ascii_lowercase field = to_ascii_lowercase w" "parse_host authority_host w = Inr h"
      by (auto simp: request_host_def Let_def result_simps eq_ignore_ascii_case_def)
    then show ?thesis
      using parse_host_case [of authority_host field] parse_host_case [of authority_host w] case_free by metis
  qed
qed

section \<open>Fields of one connection\<close>

definition connection_values :: "(string \<Rightarrow> string option) \<Rightarrow> (string \<times> string) list \<Rightarrow> string list" where
  "connection_values to_str headers =
     concat (map (split_on CHR '','') (List.map_filter to_str (get_all headers ''connection'')))"

definition validate_connection_header :: "(string \<Rightarrow> string option) \<Rightarrow> (string \<times> string) list \<Rightarrow> (entry_error, unit) result" where
  "validate_connection_header to_str headers =
     ensure (\<not> list_ex (\<lambda>v. list_ex (\<lambda>name. eq_ignore_ascii_case (trim v) name)
         [''content-length'', ''transfer-encoding'', ''host'']) (connection_values to_str headers))
       ConnectionNamesFraming"

definition remove_header :: "string \<Rightarrow> (string \<times> string) list \<Rightarrow> (string \<times> string) list" where
  "remove_header name headers = filter (\<lambda>f. fst f \<noteq> to_ascii_lowercase name) headers"

fun insert_header :: "string \<Rightarrow> string \<Rightarrow> (string \<times> string) list \<Rightarrow> (string \<times> string) list" where
  "insert_header name v [] = [(to_ascii_lowercase name, v)]"
| "insert_header name v (f # headers) =
     (if fst f = to_ascii_lowercase name then (fst f, v) # remove_header name headers else f # insert_header name v headers)"

definition append_header :: "string \<Rightarrow> string \<Rightarrow> (string \<times> string) list \<Rightarrow> (string \<times> string) list" where
  "append_header name v headers = headers @ [(to_ascii_lowercase name, v)]"

lemma get_all_update [simp]:
  "get_all (remove_header name headers) k = (if to_ascii_lowercase k = to_ascii_lowercase name then [] else get_all headers k)"
  "get_all (insert_header name v headers) k = (if to_ascii_lowercase k = to_ascii_lowercase name then [v] else get_all headers k)"
  "get_all (append_header name v headers) k = get_all headers k @ (if to_ascii_lowercase k = to_ascii_lowercase name then [v] else [])"
proof -
  show remove: "get_all (remove_header name headers) k =
      (if to_ascii_lowercase k = to_ascii_lowercase name then [] else get_all headers k)" for headers
    by (auto simp: get_all_def remove_header_def intro!: arg_cong [where f = "map snd"] filter_cong)
  show "get_all (insert_header name v headers) k = (if to_ascii_lowercase k = to_ascii_lowercase name then [v] else get_all headers k)"
  proof (induction headers)
    case (Cons f headers)
    have "get_all (f # hs) k = (if fst f = to_ascii_lowercase k then snd f # get_all hs k else get_all hs k)" for f hs
      by (simp add: get_all_def)
    with Cons remove show ?case by auto
  qed (simp add: get_all_def)
qed (simp add: get_all_def append_header_def)

definition hop_headers :: "string list" where
  "hop_headers = [''connection'', ''keep-alive'', ''proxy-connection'', ''proxy-authenticate'', ''proxy-authorization'',
     ''upgrade'', ''te'', ''trailer'']"

definition strip_hop_headers :: "(string \<Rightarrow> string option) \<Rightarrow> (string \<times> string) list \<Rightarrow> (string \<times> string) list" where
  "strip_hop_headers to_str headers =
     (let connection = map (\<lambda>s. to_ascii_lowercase (trim s)) (connection_values to_str headers)
      in fold remove_header hop_headers (fold remove_header connection headers))"

lemma fold_remove_header:
  "fold remove_header names headers = filter (\<lambda>f. fst f \<notin> to_ascii_lowercase ` set names) headers"
  by (induction names arbitrary: headers) (auto simp: remove_header_def intro: filter_cong)

text \<open>
  After the two checks no field that concerns one connection and no field the \<open>Connection\<close> header names is left, every
  other field is kept in order, and the fields that frame and route the message are among those kept.
\<close>

lemma strip_hop_headers_exact:
  assumes "validate_connection_header to_str headers = Inr u"
  shows "strip_hop_headers to_str headers =
      filter (\<lambda>f. fst f \<notin> set hop_headers \<and> fst f \<notin> (\<lambda>s. to_ascii_lowercase (trim s)) ` set (connection_values to_str headers)) headers"
    and "n \<in> {''host'', ''content-length'', ''transfer-encoding''} \<Longrightarrow>
      get_all (strip_hop_headers to_str headers) n = get_all headers n"
proof -
  have hops: "to_ascii_lowercase ` set hop_headers = set hop_headers"
    unfolding hop_headers_def by (simp add: to_ascii_lowercase_def) code_simp
  show eq: "strip_hop_headers to_str headers =
      filter (\<lambda>f. fst f \<notin> set hop_headers \<and> fst f \<notin> (\<lambda>s. to_ascii_lowercase (trim s)) ` set (connection_values to_str headers)) headers"
    by (auto simp: strip_hop_headers_def Let_def fold_remove_header hops image_image intro: filter_cong)
  show "get_all (strip_hop_headers to_str headers) n = get_all headers n"
    if n: "n \<in> {''host'', ''content-length'', ''transfer-encoding''}"
  proof -
    have low: "to_ascii_lowercase n = n" "n \<notin> set hop_headers"
      using n by (auto simp: hop_headers_def) (code_simp+)
    have "n \<notin> (\<lambda>s. to_ascii_lowercase (trim s)) ` set (connection_values to_str headers)"
      using assms n low(1) by (fastforce simp: validate_connection_header_def result_simps list_ex_iff eq_ignore_ascii_case_def)
    then show ?thesis
      unfolding eq get_all_def low(1) using low(2) by (auto intro!: arg_cong [where f = "map snd"] filter_cong simp: )
  qed
qed

section \<open>URIs and variables\<close>

definition outbound_uri ::
  "(string \<Rightarrow> string \<Rightarrow> string) \<Rightarrow> string \<Rightarrow> request_data \<Rightarrow> edits \<Rightarrow> path_match \<Rightarrow> string option \<Rightarrow> string" where
  "outbound_uri percent_encode original req edits matcher proxy_uri =
     (let path =
        (case ed_path edits of
           Some p \<Rightarrow> encode_path percent_encode p
         | None \<Rightarrow>
             (case proxy_uri of
                Some uri \<Rightarrow>
                  (let suffix = (case strip_prefix (path_match_path matcher) (rd_path req) of
                                   Some s \<Rightarrow> s | None \<Rightarrow> rd_path req)
                   in uri @ encode_path percent_encode suffix)
              | None \<Rightarrow>
                  if ed_query edits \<noteq> None
                  then (case split_once CHR ''?'' original of Some (p, _) \<Rightarrow> p | None \<Rightarrow> original)
                  else original))
      in if ed_path edits \<noteq> None \<or> ed_query edits \<noteq> None \<or> proxy_uri \<noteq> None then
           (let query = (case ed_query edits of Some q \<Rightarrow> q | None \<Rightarrow> rd_query req) in
            if query \<noteq> [] \<and> CHR ''?'' \<notin> set path then path @ ''?'' @ query else path)
         else path)"

text \<open>
  The encoder escapes what it is told to: only the percent sign of an escape is left. Then a path that a script or a
  rewrite chose cannot add to the query, and the target splits at its first question mark into the path and the query
  that were meant.
\<close>

definition escapes_given :: "(string \<Rightarrow> string \<Rightarrow> string) \<Rightarrow> bool" where
  "escapes_given percent_encode \<longleftrightarrow> (\<forall>bad s. set (percent_encode bad s) \<inter> set bad \<subseteq> {CHR ''%''})"

lemma outbound_uri_edited:
  assumes "escapes_given percent_encode" and "ed_path edits = Some p"
    and query: "query = (case ed_query edits of Some q \<Rightarrow> q | None \<Rightarrow> rd_query req)"
  shows "outbound_uri percent_encode original req edits matcher proxy_uri =
      encode_path percent_encode p @ (if query = [] then [] else CHR ''?'' # query)"
    and "query \<noteq> [] \<Longrightarrow> split_once CHR ''?'' (outbound_uri percent_encode original req edits matcher proxy_uri) =
      Some (encode_path percent_encode p, query)"
    and "query = [] \<Longrightarrow> split_once CHR ''?'' (outbound_uri percent_encode original req edits matcher proxy_uri) = None"
proof -
  have "CHR ''?'' \<in> set escaped_bytes" by (simp add: escaped_bytes_def)
  then have no: "CHR ''?'' \<notin> set (encode_path percent_encode p)"
    using assms(1) by (auto simp: escapes_given_def encode_path_def)
  show eq: "outbound_uri percent_encode original req edits matcher proxy_uri =
      encode_path percent_encode p @ (if query = [] then [] else CHR ''?'' # query)"
    using no by (simp add: outbound_uri_def assms(2) query Let_def)
  show "split_once CHR ''?'' (outbound_uri percent_encode original req edits matcher proxy_uri) =
      Some (encode_path percent_encode p, query)" if "query \<noteq> []"
    using that no by (simp add: eq split_once_Some_iff)
  show "split_once CHR ''?'' (outbound_uri percent_encode original req edits matcher proxy_uri) = None" if "query = []"
    using that no by (simp add: eq split_once_None_iff)
qed

record variables =
  va_request :: request_data
  va_edits :: edits
  va_original_uri :: string
  va_original_peer :: string
  va_scheme :: string
  va_server_name :: string

definition variable_value :: "variables \<Rightarrow> string \<Rightarrow> string \<Rightarrow> string" where
  "variable_value v proxy_host key =
     (let r = va_request v; header = (\<lambda>n. case rd_header r n of Some x \<Rightarrow> x | None \<Rightarrow> []) in
      if key = ''host'' then (if rd_host r = [] then va_server_name v else rd_host r)
      else if key = ''http_host'' then header ''host''
      else if key = ''scheme'' then (if va_scheme v = [] then ''http'' else va_scheme v)
      else if key = ''request_uri'' then va_original_uri v
      else if key = ''uri'' then (case ed_path (va_edits v) of Some p \<Rightarrow> p | None \<Rightarrow> rd_path r)
      else if key = ''args'' then (case ed_query (va_edits v) of Some q \<Rightarrow> q | None \<Rightarrow> rd_query r)
      else if key = ''request_method'' then rd_method r
      else if key = ''remote_addr'' then rd_remote_addr r
      else if key = ''realip_remote_addr'' then va_original_peer v
      else if key = ''proxy_host'' then proxy_host
      else if key = ''proxy_add_x_forwarded_for'' then
        (case rd_header r ''x-forwarded-for'' of Some x \<Rightarrow> x @ '', '' @ rd_remote_addr r | None \<Rightarrow> rd_remote_addr r)
      else
        (case strip_prefix ''http_'' key of
           Some s \<Rightarrow> header (to_ascii_lowercase (map (\<lambda>c. if c = CHR ''_'' then CHR ''-'' else c) s))
         | None \<Rightarrow> []))"

definition variable_char :: "char \<Rightarrow> bool" where
  "variable_char c \<longleftrightarrow> is_ascii_alphanumeric c \<or> c = CHR ''_''"

function expand :: "variables \<Rightarrow> string \<Rightarrow> string \<Rightarrow> string" where
  "expand v proxy_host input =
     (case split_once CHR ''$'' input of
        None \<Rightarrow> input
      | Some (before, rest) \<Rightarrow>
          before @ variable_value v proxy_host (takeWhile variable_char rest) @ expand v proxy_host (dropWhile variable_char rest))"
  by pat_completeness auto
termination
proof (relation "measure (\<lambda>(_, _, input). length input)")
  fix v :: variables and proxy_host input before rest :: string and x
  assume "split_once CHR ''$'' input = Some x" "(before, rest) = x"
  then have "length rest < length input" by (auto simp: split_once_Some_iff)
  then show "((v, proxy_host, dropWhile variable_char rest), v, proxy_host, input) \<in> measure (\<lambda>(_, _, input). length input)"
    using length_dropWhile_le [of variable_char rest] by simp
qed simp

declare expand.simps [simp del]

text \<open>
  Expansion goes once over the template: it is the concatenation of the template's literal parts and of the values, which
  are not scanned again, so a client's header cannot name a variable.
\<close>

lemma expand_literal: "CHR ''$'' \<notin> set input \<Longrightarrow> expand v proxy_host input = input"
  by (subst expand.simps) (simp add: split_once_None_iff [symmetric])

lemma expand_variable:
  assumes "CHR ''$'' \<notin> set before" and "list_all variable_char key" and "rest = [] \<or> \<not> variable_char (hd rest)"
  shows "expand v proxy_host (before @ CHR ''$'' # key @ rest) =
      before @ variable_value v proxy_host key @ expand v proxy_host rest"
proof -
  have "split_once CHR ''$'' (before @ CHR ''$'' # key @ rest) = Some (before, key @ rest)"
    using assms(1) by (simp add: split_once_Some_iff)
  moreover have "takeWhile variable_char (key @ rest) = key" "dropWhile variable_char (key @ rest) = rest"
    using assms(2,3) by (cases rest; simp add: list_all_iff)+
  ultimately show ?thesis by (subst expand.simps) simp
qed

definition https_redirect :: "(string \<Rightarrow> string option) \<Rightarrow> string \<Rightarrow> string \<Rightarrow> nat \<Rightarrow> string" where
  "https_redirect path_and_query host uri port =
     (let host' = (if parse_all read_ipv6 host \<noteq> None then ''['' @ host @ '']'' else host);
          port' = (if port = 443 then [] else '':'' @ to_decimal port);
          path = (case path_and_query uri of Some p \<Rightarrow> p | None \<Rightarrow> ''/'')
      in ''https://'' @ host' @ port' @ path)"

end
