(* ===== verification/Static_Files.thy ===== *)
theory Static_Files
  imports Request_Entry Config_Apply
begin

text \<open>
  Files served from a directory, \<open>src/src/proxy/static_files.rs\<close>. The operating system and the \<open>cap_std\<close> crate are the
  record \<open>disk\<close>: opening a directory, the kind of an entry below it, opening the entry and the metadata of the open
  file are calls that may each see another state of the disk, so nothing relates their answers; so are the three calls of the fast path. \<open>httpdate\<close> is an
  argument. The paths of \<open>std::path\<close> are written out over the bytes of the path.

  The lemmas: the file opened is an entry of the configured root that the path of the request names, without \<open>..\<close> and
  without a leading slash, so the answer cannot depend on anything else on the disk; only regular files are served; a
  \<open>Range\<close> selects the bytes RFC 9110 gives it; and the loop sends the bytes asked of it. \<open>Proxy_Response\<close> puts them together.
\<close>

section \<open>Paths of the standard library\<close>

function trim_back :: "string \<Rightarrow> string" where
  "trim_back p =
     (if ends_with p ''/'' \<and> p \<noteq> ''/'' \<or> ends_with p ''/.'' then trim_back (butlast p) else p)"
  by pat_completeness auto
termination
  by (relation "measure length") (auto simp: ends_with_def starts_with_def Suc_le_eq dest: arg_cong [where f = length])

declare trim_back.simps [simp del]

definition path_file_name :: "string \<Rightarrow> string option" where
  "path_file_name p =
     (let name = last (split_on CHR ''/'' (trim_back p)) in
      if name = [] \<or> name = ''.'' \<or> name = ''..'' then None else Some name)"

definition std_parent :: "string \<Rightarrow> string option" where
  "std_parent p =
     (let q = trim_back p in
      if q = [] \<or> q = ''/'' then None
      else
        let initial = butlast (split_on CHR ''/'' q) in
        Some (if initial = [[]] then ''/'' else trim_back (join ''/'' initial)))"

definition path_extension :: "string \<Rightarrow> string option" where
  "path_extension p =
     Option.bind (path_file_name p) (\<lambda>name.
     case rsplit_once CHR ''.'' name of
       Some (stem, ext) \<Rightarrow> if stem = [] then None else Some ext
     | None \<Rightarrow> None)"

section \<open>The file system\<close>

datatype io_error = IoNotFound | IoNotADirectory | IoPermissionDenied | IoInvalidInput entry_error | IoOther string | IoPanicked

datatype file_kind = KindFile | KindDir | KindSpecial

text \<open>A modification time is in nanoseconds from the epoch, negative before it.\<close>

record file_meta =
  fm_kind :: file_kind
  fm_len :: nat
  fm_modified :: "(io_error, int) result"

record ('d, 'f) disk =
  open_ambient_dir :: "string \<Rightarrow> (io_error, 'd) result"
  entry_metadata :: "'d \<Rightarrow> string \<Rightarrow> (io_error, file_kind) result"
  open_entry :: "'d \<Rightarrow> string \<Rightarrow> (io_error, 'f) result"
  file_metadata :: "'f \<Rightarrow> (io_error, file_meta) result"
  path_is_file :: "string \<Rightarrow> bool"
  cached_dir :: "string \<Rightarrow> 'd option"
  pin_entry :: "'d \<Rightarrow> string \<Rightarrow> 'f option"
  reopen_pinned :: "'f \<Rightarrow> 'f option"

record 'f static_file =
  sf_file :: 'f
  sf_length :: nat
  sf_mime :: string
  sf_etag :: string
  sf_modified :: int

datatype 'f opened = OpenedFile "'f static_file" | OpenedDirectory | OpenedNotFound | OpenedForbidden | OpenedStatus nat

section \<open>Opening\<close>

definition classify :: "io_error \<Rightarrow> (io_error, 'f opened) result" where
  "classify e =
     (case e of
        IoNotFound \<Rightarrow> Inr OpenedNotFound
      | IoNotADirectory \<Rightarrow> Inr OpenedNotFound
      | IoPermissionDenied \<Rightarrow> Inr OpenedForbidden
      | _ \<Rightarrow> Inl e)"

definition since_epoch :: "int \<Rightarrow> nat" where
  "since_epoch modified = nat modified"

function to_hex :: "nat \<Rightarrow> string" where
  "to_hex n = (if n < 16 then [hex_digit n] else to_hex (n div 16) @ [hex_digit (n mod 16)])"
  by pat_completeness auto
termination by (relation "measure id") auto

declare to_hex.simps [simp del]

definition describe :: "'f \<Rightarrow> file_meta \<Rightarrow> string \<Rightarrow> 'n settings \<Rightarrow> (io_error, 'f opened) result" where
  "describe file m name st =
     bindR (fm_modified m) (\<lambda>modified.
     let stamp = since_epoch modified;
         etag = [CHR 0x22] @ to_hex (fm_len m) @ ''-'' @ to_hex (stamp div 1000000000) @ ''-'' @ to_hex (stamp mod 1000000000) @ [CHR 0x22];
         extension = to_ascii_lowercase (case path_extension name of Some e \<Rightarrow> e | None \<Rightarrow> []);
         mime = (case bt_get (st_mime st) extension of Some t \<Rightarrow> t | None \<Rightarrow> st_default_type st)
     in Inr (OpenedFile \<lparr>sf_file = file, sf_length = fm_len m, sf_mime = mime, sf_etag = etag, sf_modified = modified\<rparr>))"

definition open_readonly :: "('d, 'f) disk \<Rightarrow> 'd \<Rightarrow> string \<Rightarrow> (io_error, 'f) result" where
  "open_readonly w dir path =
     bindR (entry_metadata w dir path) (\<lambda>kind.
     if kind \<noteq> KindFile \<and> kind \<noteq> KindDir then Inl IoPermissionDenied else open_entry w dir path)"

fun open_index :: "('d, 'f) disk \<Rightarrow> 'd \<Rightarrow> 'n settings \<Rightarrow> string \<Rightarrow> string list \<Rightarrow> (io_error, 'f opened) result" where
  "open_index w dir st relative [] = Inr OpenedForbidden"
| "open_index w dir st relative (index # rest) =
     (case open_readonly w dir (path_join relative index) of
        Inr file \<Rightarrow>
          bindR (file_metadata w file) (\<lambda>m.
          if fm_kind m = KindFile then describe file m index st else open_index w dir st relative rest)
      | Inl IoNotFound \<Rightarrow> open_index w dir st relative rest
      | Inl e \<Rightarrow> classify e)"

definition relative_path :: "string \<Rightarrow> string" where
  "relative_path path = (let r = trim_start_matches CHR ''/'' path in if r = [] then ''.'' else r)"

definition open_at :: "('d, 'f) disk \<Rightarrow> string \<Rightarrow> 'n settings \<Rightarrow> string \<Rightarrow> (io_error, 'f opened) result" where
  "open_at w root_path st path =
     (case open_ambient_dir w root_path of
        Inl e \<Rightarrow> classify e
      | Inr dir \<Rightarrow>
          let relative = relative_path path in
          case open_readonly w dir relative of
            Inl e \<Rightarrow> classify e
          | Inr file \<Rightarrow>
              bindR (file_metadata w file) (\<lambda>m.
              if fm_kind m = KindDir then
                (if \<not> ends_with path ''/'' then Inr OpenedDirectory else open_index w dir st relative (st_index st))
              else if fm_kind m \<noteq> KindFile then Inr OpenedForbidden
              else describe file m relative st))"

definition candidate_path :: "string \<Rightarrow> string \<Rightarrow> string" where
  "candidate_path mapped candidate =
     (if candidate = ''$uri'' then mapped
      else if candidate = ''$uri/'' then trim_end_matches CHR ''/'' mapped @ ''/''
      else candidate)"

fun try_candidates :: "('d, 'f) disk \<Rightarrow> string \<Rightarrow> 'n settings \<Rightarrow> string \<Rightarrow> string list \<Rightarrow> (io_error, 'f opened) result" where
  "try_candidates w dir st mapped [] = Inr OpenedNotFound"
| "try_candidates w dir st mapped (candidate # rest) =
     (let final = (rest = []) in
      case (if final then strip_prefix ''='' candidate else None) of
        Some code \<Rightarrow> Inr (OpenedStatus (case parse_uint 16 code of Some n \<Rightarrow> n | None \<Rightarrow> 404))
      | None \<Rightarrow>
          (case normalize_decoded_path (candidate_path mapped candidate) of
             Inl e \<Rightarrow> Inl (IoInvalidInput e)
           | Inr path \<Rightarrow>
               bindR (open_at w dir st path) (\<lambda>result.
               if (result = OpenedNotFound \<or> result = OpenedDirectory) \<and> \<not> final
                 \<or> result = OpenedForbidden \<and> \<not> final \<and> ends_with path ''/''
               then try_candidates w dir st mapped rest
               else Inr result)))"

definition open_mapped :: "('d, 'f) disk \<Rightarrow> string \<Rightarrow> 'n settings \<Rightarrow> string \<Rightarrow> (io_error, 'f opened) result" where
  "open_mapped w dir st mapped =
     (if st_try_files st = [] then open_at w dir st mapped else try_candidates w dir st mapped (st_try_files st))"

definition open_route :: "('d, 'f) disk \<Rightarrow> 'n settings \<Rightarrow> string \<Rightarrow> string \<Rightarrow> (io_error, 'f opened) result" where
  "open_route w st path prefix =
     (case st_alias st of
        None \<Rightarrow> open_mapped w (st_root st) st path
      | Some alias \<Rightarrow>
          (case strip_prefix prefix path of
             None \<Rightarrow> Inr OpenedForbidden
           | Some suffix \<Rightarrow>
               if path_is_file w alias then
                 (if suffix \<noteq> [] then Inr OpenedNotFound
                  else bindR (ok_or (path_file_name alias) IoPanicked) (\<lambda>name.
                    open_mapped w (case std_parent alias of Some p \<Rightarrow> p | None \<Rightarrow> ''.'') st (''/'' @ name)))
               else open_mapped w alias st (''/'' @ trim_start_matches CHR ''/'' suffix)))"

text \<open>
  The fast path, for plain roots: the root and the entry are resolved from the kernel's cache alone, the entry is pinned, and the
  pinned inode is opened again once its type is known. A path with a zero byte is no C string.
\<close>

definition cstring :: "string \<Rightarrow> string option" where
  "cstring p = (if CHR 0x00 \<in> set p then None else Some p)"

definition open_cached :: "('d, 'f) disk \<Rightarrow> 'n settings \<Rightarrow> string \<Rightarrow> 'f opened option" where
  "open_cached w st path =
     (if st_alias st \<noteq> None \<or> st_try_files st \<noteq> [] then None
      else
        Option.bind (Option.bind (cstring (st_root st)) (cached_dir w)) (\<lambda>root.
        Option.bind (Option.bind (cstring (trim_start_matches CHR ''/'' path)) (pin_entry w root)) (\<lambda>pinned.
        case file_metadata w pinned of
          Inl _ \<Rightarrow> None
        | Inr m \<Rightarrow>
            if fm_kind m \<noteq> KindFile then None
            else
              Option.bind (reopen_pinned w pinned) (\<lambda>file.
              case describe file m path st of Inl _ \<Rightarrow> None | Inr r \<Rightarrow> Some r))))"

section \<open>Names below the root\<close>

definition inside :: "string \<Rightarrow> bool" where
  "inside p \<longleftrightarrow> \<not> starts_with p ''/'' \<and> ''..'' \<notin> set (split_on CHR ''/'' p)"

definition index_name :: "string \<Rightarrow> bool" where
  "index_name i \<longleftrightarrow> CHR ''/'' \<notin> set i \<and> i \<noteq> ''..''"

lemma plain_relative:
  assumes "plain_path (CHR ''/'' # r)"
  shows "inside (relative_path (CHR ''/'' # r))"
    and "index_name i \<Longrightarrow> inside (path_join (relative_path (CHR ''/'' # r)) i)"
proof -
  let ?rel = "relative_path (CHR ''/'' # r)"
  have hd: "\<not> starts_with r ''/''"
  proof
    assume "starts_with r ''/''"
    then have "contains_str (CHR ''/'' # r) ''//''"
      by (auto simp: starts_with_iff contains_str_iff intro: exI [of _ "[]"])
    with assms show False by (simp add: plain_path_def)
  qed
  then have rel: "?rel = (if r = [] then ''.'' else r)"
    by (cases r) (auto simp: relative_path_def trim_start_matches_def Let_def starts_with_def)
  have dots: "''..'' \<notin> set (split_on CHR ''/'' ?rel)"
    using assms by (auto simp: rel plain_path_def list_ex_iff)
  have abs: "\<not> starts_with ?rel ''/''" "?rel \<noteq> []" using hd by (auto simp: rel starts_with_def)
  from dots abs show inside: "inside ?rel" by (simp add: inside_def)
  show "inside (path_join ?rel i)" if i: "index_name i"
  proof -
    from i have idx: "split_on CHR ''/'' i = [i]" "i \<noteq> ''..''" "\<not> starts_with i ''/''"
      by (cases i; auto simp: index_name_def split_on_not_in starts_with_def)+
    obtain q where q: "path_join ?rel i = q @ CHR ''/'' # i" "split_on CHR ''/'' q = split_on CHR ''/'' ?rel \<or> ?rel = q @ ''/''"
    proof (cases "last ?rel = CHR ''/''")
      case True
      then have "?rel = butlast ?rel @ ''/''" using abs(2) by (metis append_butlast_last_id)
      with True idx(3) show ?thesis by (intro that [of "butlast ?rel"]) (auto simp: path_join_def)
    next
      case False
      with idx(3) abs(2) show ?thesis by (intro that [of ?rel]) (auto simp: path_join_def)
    qed
    then have "''..'' \<notin> set (split_on CHR ''/'' q)"
      using dots split_on_append [of "CHR ''/''" q "[]"] by auto
    moreover have "\<not> starts_with (path_join ?rel i) ''/''"
      using idx(3) abs by (cases ?rel) (auto simp: path_join_def starts_with_def)
    ultimately show ?thesis using idx(1,2) by (simp add: inside_def q(1) split_on_append)
  qed
qed

lemma plain_suffix:
  assumes "plain_path (p @ s)" and "ends_with p ''/''"
  shows "plain_path (''/'' @ trim_start_matches CHR ''/'' s)"
proof -
  obtain q where q: "p = q @ ''/''"
    using assms(2) by (auto simp: ends_with_def starts_with_iff rev_eq_Cons_iff)
  have "\<not> contains_str (CHR ''/'' # s) ''//''"
    using assms(1) by (auto simp: plain_path_def q contains_str_iff) (metis append.assoc append_Cons append_Nil)
  moreover from this have "trim_start_matches CHR ''/'' s = s"
    by (cases s) (auto simp: trim_start_matches_def starts_with_def)
  moreover have "\<not> list_ex (\<lambda>c. c = ''.'' \<or> c = ''..'') (split_on CHR ''/'' (CHR ''/'' # s))"
    using assms(1) by (auto simp: plain_path_def q split_on_append)
  ultimately show ?thesis by (simp add: plain_path_def)
qed

section \<open>Which file is opened\<close>

text \<open>
  A route with its path names one root directory, one path below it or, with \<open>try_files\<close>, some, and for a directory the index
  files in it.
\<close>

definition static_root :: "('d, 'f) disk \<Rightarrow> 'n settings \<Rightarrow> string" where
  "static_root w st =
     (case st_alias st of
        None \<Rightarrow> st_root st
      | Some alias \<Rightarrow> if path_is_file w alias then (case std_parent alias of Some p \<Rightarrow> p | None \<Rightarrow> ''.'') else alias)"

definition mapped_path :: "('d, 'f) disk \<Rightarrow> 'n settings \<Rightarrow> string \<Rightarrow> string \<Rightarrow> string \<Rightarrow> bool" where
  "mapped_path w st path prefix mapped \<longleftrightarrow>
     (case st_alias st of
        None \<Rightarrow> mapped = path
      | Some alias \<Rightarrow>
          if path_is_file w alias then path = prefix \<and> (\<exists>name. path_file_name alias = Some name \<and> mapped = ''/'' @ name)
          else \<exists>suffix. path = prefix @ suffix \<and> mapped = ''/'' @ trim_start_matches CHR ''/'' suffix)"

definition target_path :: "'n settings \<Rightarrow> string \<Rightarrow> string \<Rightarrow> bool" where
  "target_path st mapped target \<longleftrightarrow>
     (if st_try_files st = [] then target = mapped
      else \<exists>c\<in>set (st_try_files st). normalize_decoded_path (candidate_path mapped c) = Inr target)"

definition entry_name :: "'n settings \<Rightarrow> string \<Rightarrow> string \<Rightarrow> bool" where
  "entry_name st target rel \<longleftrightarrow>
     rel = trim_start_matches CHR ''/'' target \<or> rel = relative_path target
     \<or> ends_with target ''/'' \<and> (\<exists>i\<in>set (st_index st). rel = path_join (relative_path target) i)"

text \<open>The file is a regular entry of that name below that directory, opened there, by name or by its pinned inode.\<close>

definition entry_file :: "('d, 'f) disk \<Rightarrow> string \<Rightarrow> string \<Rightarrow> 'f static_file \<Rightarrow> bool" where
  "entry_file w base rel sf \<longleftrightarrow>
     (\<exists>d m. fm_kind m = KindFile \<and> sf_length sf = fm_len m \<and>
        (open_ambient_dir w base = Inr d \<and> open_entry w d rel = Inr (sf_file sf) \<and> file_metadata w (sf_file sf) = Inr m
         \<or> cached_dir w base = Some d \<and> (\<exists>pinned. pin_entry w d rel = Some pinned \<and> file_metadata w pinned = Inr m
             \<and> reopen_pinned w pinned = Some (sf_file sf))))"

lemma describe_file: "describe file m name st = Inr (OpenedFile sf) \<Longrightarrow> sf_file sf = file \<and> sf_length sf = fm_len m"
  by (auto simp: describe_def result_simps Let_def)

lemma describe_opened: "describe file m name st = Inr r \<Longrightarrow> \<exists>sf. r = OpenedFile sf"
  by (auto simp: describe_def result_simps Let_def)

lemma classify_not_file [simp]: "classify e \<noteq> Inr (OpenedFile sf)"
  by (auto simp: classify_def split: io_error.splits)

lemma open_readonly_entry: "open_readonly w d p = Inr f \<Longrightarrow> open_entry w d p = Inr f"
  by (auto simp: open_readonly_def result_simps split: if_splits)

lemma open_index_entry:
  "open_index w d st relative names = Inr (OpenedFile sf) \<Longrightarrow>
     \<exists>i\<in>set names. \<exists>m. open_entry w d (path_join relative i) = Inr (sf_file sf) \<and> file_metadata w (sf_file sf) = Inr m
       \<and> fm_kind m = KindFile \<and> sf_length sf = fm_len m"
proof (induction w d st relative names rule: open_index.induct)
  case (2 w d st relative i names)
  show ?case
  proof (cases "open_readonly w d (path_join relative i)")
    case (Inl e)
    with 2 show ?thesis by (cases e) auto
  next
    case (Inr f)
    with 2 obtain m where m: "file_metadata w f = Inr m" by (auto simp: result_simps)
    show ?thesis
    proof (cases "fm_kind m = KindFile")
      case True
      with 2(3) Inr m have "describe f m i st = Inr (OpenedFile sf)" by simp
      with describe_file [OF this] m True open_readonly_entry [OF Inr] show ?thesis by auto
    next
      case False
      with 2 Inr m show ?thesis by auto
    qed
  qed
qed simp

lemma open_at_entry:
  assumes "open_at w base st path = Inr (OpenedFile sf)"
  shows "\<exists>rel. entry_name st path rel \<and> entry_file w base rel sf"
proof -
  let ?rel = "relative_path path"
  from assms obtain d f m where d: "open_ambient_dir w base = Inr d" and f: "open_readonly w d ?rel = Inr f" "file_metadata w f = Inr m"
    by (auto simp: open_at_def Let_def result_simps split: sum.splits)
  show ?thesis
  proof (cases "fm_kind m = KindDir")
    case True
    with assms d f have "ends_with path ''/''" "open_index w d st ?rel (st_index st) = Inr (OpenedFile sf)"
      by (auto simp: open_at_def Let_def split: if_splits)
    with open_index_entry d show ?thesis unfolding entry_name_def entry_file_def by metis
  next
    case False
    with assms d f have "fm_kind m = KindFile" "describe f m ?rel st = Inr (OpenedFile sf)"
      by (auto simp: open_at_def Let_def split: if_splits)
    with describe_file d f open_readonly_entry [OF f(1)] show ?thesis unfolding entry_name_def entry_file_def by metis
  qed
qed

lemma try_candidates_entry:
  "try_candidates w base st mapped cs = Inr (OpenedFile sf) \<Longrightarrow>
     \<exists>c\<in>set cs. \<exists>target. normalize_decoded_path (candidate_path mapped c) = Inr target \<and> open_at w base st target = Inr (OpenedFile sf)"
proof (induction w base st mapped cs rule: try_candidates.induct)
  case (2 w dir st mapped c rest)
  from 2(2) obtain path result where path: "normalize_decoded_path (candidate_path mapped c) = Inr path"
    "open_at w dir st path = Inr result" "(if rest = [] then strip_prefix ''='' c else None) = None"
    by (auto simp: Let_def result_simps split: option.splits sum.splits if_splits)
  show ?case
  proof (cases "result = OpenedFile sf")
    case False
    then have "try_candidates w dir st mapped rest = Inr (OpenedFile sf)"
      using 2(2) path by (auto simp: Let_def split: if_splits)
    moreover have "try_candidates w dir st mapped rest = Inr (OpenedFile sf) \<Longrightarrow>
        \<exists>c\<in>set rest. \<exists>target. normalize_decoded_path (candidate_path mapped c) = Inr target \<and> open_at w dir st target = Inr (OpenedFile sf)"
      using 2(2) path False by (intro 2(1) [OF refl _ path(1)]) (auto simp: Let_def split: if_splits)
    ultimately show ?thesis by auto
  qed (use path in auto)
qed simp

lemma open_mapped_entry:
  assumes "open_mapped w base st mapped = Inr (OpenedFile sf)"
  shows "\<exists>target rel. target_path st mapped target \<and> entry_name st target rel \<and> entry_file w base rel sf"
  using assms try_candidates_entry [of w base st mapped "st_try_files st" sf] open_at_entry [of w base st _ sf]
  by (auto simp: open_mapped_def target_path_def split: if_splits)

lemma open_route_entry:
  assumes "open_route w st path prefix = Inr (OpenedFile sf)"
  shows "\<exists>mapped target rel. mapped_path w st path prefix mapped \<and> target_path st mapped target \<and> entry_name st target rel
    \<and> entry_file w (static_root w st) rel sf"
proof -
  from assms obtain mapped where "mapped_path w st path prefix mapped" "open_mapped w (static_root w st) st mapped = Inr (OpenedFile sf)"
    by (auto simp: open_route_def mapped_path_def static_root_def result_simps split: option.splits if_splits)
  with open_mapped_entry show ?thesis by blast
qed

lemma open_cached_steps:
  assumes "open_cached w st path = Some r"
  obtains d pinned m f where "st_alias st = None" "st_try_files st = []" "cached_dir w (st_root st) = Some d"
    "pin_entry w d (trim_start_matches CHR ''/'' path) = Some pinned" "file_metadata w pinned = Inr m" "fm_kind m = KindFile"
    "reopen_pinned w pinned = Some f" "describe f m path st = Inr r"
proof -
  from assms obtain d pinned where pinned: "st_alias st = None" "st_try_files st = []" "cached_dir w (st_root st) = Some d"
    "pin_entry w d (trim_start_matches CHR ''/'' path) = Some pinned"
    and rest: "(case file_metadata w pinned of Inl _ \<Rightarrow> None
        | Inr m \<Rightarrow> if fm_kind m \<noteq> KindFile then None
            else Option.bind (reopen_pinned w pinned) (\<lambda>file. case describe file m path st of Inl _ \<Rightarrow> None | Inr r \<Rightarrow> Some r)) = Some r"
    by (auto simp: open_cached_def cstring_def bind_eq_Some_conv split: if_splits)
  from rest obtain m f where f: "file_metadata w pinned = Inr m" "fm_kind m = KindFile" "reopen_pinned w pinned = Some f"
    and described: "(case describe f m path st of Inl _ \<Rightarrow> None | Inr r \<Rightarrow> Some r) = Some r"
    by (cases "file_metadata w pinned") (auto simp: bind_eq_Some_conv split: if_splits)
  from described have "describe f m path st = Inr r" by (cases "describe f m path st") auto
  with pinned f show thesis by (intro that)
qed

lemma open_cached_entry:
  assumes "open_cached w st path = Some r"
  obtains sf where "r = OpenedFile sf" "mapped_path w st path prefix path" "target_path st path path"
    "entry_name st path (trim_start_matches CHR ''/'' path)" "entry_file w (static_root w st) (trim_start_matches CHR ''/'' path) sf"
proof -
  from assms obtain d pinned m f where steps: "st_alias st = None" "st_try_files st = []" "cached_dir w (st_root st) = Some d"
    "pin_entry w d (trim_start_matches CHR ''/'' path) = Some pinned" "file_metadata w pinned = Inr m" "fm_kind m = KindFile"
    "reopen_pinned w pinned = Some f" "describe f m path st = Inr r"
    by (rule open_cached_steps)
  from describe_opened [OF steps(8)] obtain sf where "r = OpenedFile sf" by blast
  moreover have "sf_file sf = f" "sf_length sf = fm_len m" using describe_file [of f m path st sf] steps(8) calculation by simp_all
  ultimately show thesis using steps
    by (intro that [of sf]) (auto simp: mapped_path_def target_path_def entry_name_def entry_file_def static_root_def)
qed

text \<open>Every name is inside the root.\<close>

lemma plain_entry_inside:
  assumes "starts_with target ''/''" "plain_path target" "list_all index_name (st_index st)" "entry_name st target rel"
  shows "inside rel"
proof -
  obtain r where r: "target = CHR ''/'' # r" using assms(1) by (auto simp: starts_with_iff)
  have "inside (relative_path target)" "\<forall>i\<in>set (st_index st). inside (path_join (relative_path target) i)"
    using plain_relative assms(2,3) unfolding r by (auto simp: list_all_iff)
  moreover have "inside (trim_start_matches CHR ''/'' target)"
    using calculation(1) by (cases "trim_start_matches CHR ''/'' target = []") (auto simp: relative_path_def Let_def inside_def starts_with_def)
  ultimately show ?thesis using assms(4) by (auto simp: entry_name_def)
qed

lemma file_name_plain:
  assumes "path_file_name alias = Some name"
  shows "plain_path (''/'' @ name)"
proof -
  have name: "name \<noteq> []" "name \<noteq> ''.''" "name \<noteq> ''..''" "CHR ''/'' \<notin> set name"
    using assms split_on_no_sep [OF last_in_set [OF split_on_nonempty [of "CHR ''/''" "trim_back alias"]]]
    by (auto simp: path_file_name_def Let_def split: if_splits)
  have "\<not> contains_str (''/'' @ name) ''//''"
    by (rule no_doubled_slash [of _ "[name]" "[]"]) (use name in \<open>auto simp: split_on_not_in\<close>)
  with name show ?thesis by (simp add: plain_path_def split_on_not_in)
qed

lemma target_inside:
  assumes clean: "clean_path path" and index: "list_all index_name (st_index st)" and slashed: "st_alias st = None \<or> ends_with prefix ''/''"
    and "mapped_path w st path prefix mapped" "target_path st mapped target" "entry_name st target rel"
  shows "inside rel"
proof -
  have mapped: "starts_with mapped ''/'' \<and> plain_path mapped"
  proof (cases "st_alias st")
    case None
    with assms show ?thesis by (auto simp: mapped_path_def clean_path_def path_bytes_ok_def)
  next
    case (Some al)
    then have "ends_with prefix ''/''" using slashed by simp
    then show ?thesis
      using assms(4) Some clean plain_suffix [of prefix] file_name_plain [of al]
      by (auto simp: mapped_path_def clean_path_def starts_with_def split: if_splits)
  qed
  have "starts_with target ''/'' \<and> plain_path target"
  proof (cases "st_try_files st = []")
    case True
    with mapped assms(5) show ?thesis by (simp add: target_path_def)
  next
    case False
    with assms(5) normalize_decoded_path_sound show ?thesis
      by (fastforce simp: target_path_def clean_path_def path_bytes_ok_def)
  qed
  with plain_entry_inside index assms(6) show ?thesis by blast
qed

section \<open>Ranges and conditional requests\<close>

definition range_of :: "string \<Rightarrow> nat \<Rightarrow> (unit, (nat \<times> nat) option) result" where
  "range_of v len =
     (case strip_prefix ''bytes='' v of
        None \<Rightarrow> Inr None
      | Some v' \<Rightarrow>
          if CHR '','' \<in> set v' then Inr None
          else
            (case split_once CHR ''-'' v' of
               None \<Rightarrow> Inr None
             | Some (first, final) \<Rightarrow>
                 if len = 0 then Inl ()
                 else if first = [] then
                   bindR (ok_or (parse_uint 64 final) ()) (\<lambda>suffix.
                   if suffix = 0 then Inl () else Inr (Some (len - suffix, len - 1)))
                 else
                   bindR (ok_or (parse_uint 64 first) ()) (\<lambda>start.
                   bindR (if final = [] then Inr (len - 1)
                          else bindR (ok_or (parse_uint 64 final) ()) (\<lambda>n. Inr (min n (len - 1)))) (\<lambda>stop.
                   if len \<le> start \<or> stop < start then Inl () else Inr (Some (start, stop))))))"

record http_response =
  rs_status :: nat
  rs_headers :: "(string \<times> string) list"

datatype response_error = InvalidHeaderValue

definition with_header :: "(string \<Rightarrow> bool) \<Rightarrow> string \<Rightarrow> string \<Rightarrow> http_response \<Rightarrow> (response_error, http_response) result" where
  "with_header value_ok name v r =
     (if value_ok v then Inr (r\<lparr>rs_headers := insert_header name v (rs_headers r)\<rparr>) else Inl InvalidHeaderValue)"

fun trim_start_str :: "string \<Rightarrow> string \<Rightarrow> string" where
  "trim_start_str pat [] = []"
| "trim_start_str pat (c # s) =
     (if pat \<noteq> [] \<and> starts_with (c # s) pat then trim_start_str pat (drop (length pat - 1) s) else c # s)"

definition etag_listed :: "string \<Rightarrow> string \<Rightarrow> bool" where
  "etag_listed etag tags \<longleftrightarrow>
     list_ex (\<lambda>s. trim s = ''*'' \<or> trim_start_str ''W/'' (trim s) = etag) (split_on CHR '','' tags)"

definition epoch_secs :: "int \<Rightarrow> nat" where
  "epoch_secs t = since_epoch t div 1000000000"

definition not_modified :: "(string \<Rightarrow> int option) \<Rightarrow> 'f static_file \<Rightarrow> (string \<Rightarrow> string option) \<Rightarrow> bool" where
  "not_modified parse_http_date file header =
     (case header ''if-none-match'' of
        Some tags \<Rightarrow> etag_listed (sf_etag file) tags
      | None \<Rightarrow>
          is_some_and (Option.bind (header ''if-modified-since'') parse_http_date)
            (\<lambda>date. epoch_secs (sf_modified file) \<le> epoch_secs date))"

definition if_range :: "(string \<Rightarrow> int option) \<Rightarrow> 'f static_file \<Rightarrow> (string \<Rightarrow> string option) \<Rightarrow> bool" where
  "if_range parse_http_date file header =
     is_none_or (header ''if-range'')
       (\<lambda>s. s = sf_etag file \<or> is_some_and (parse_http_date s) (\<lambda>d. epoch_secs (sf_modified file) = epoch_secs d))"

text \<open>The status of the answer, where its body starts, its length and the \<open>Content-Range\<close>.\<close>

definition select_body ::
  "(string \<Rightarrow> int option) \<Rightarrow> 'f static_file \<Rightarrow> (string \<Rightarrow> string option) \<Rightarrow> nat \<times> nat \<times> nat \<times> string option" where
  "select_body parse_http_date file header =
     (let unmodified = not_modified parse_http_date file header;
          status = (if unmodified then 304 else 200);
          whole = (status, 0, sf_length file, None) in
      case header ''range'' of
        Some r \<Rightarrow>
          if \<not> unmodified \<and> if_range parse_http_date file header then
            (case range_of r (sf_length file) of
               Inr (Some (a, b)) \<Rightarrow>
                 (206, a, b - a + 1, Some (''bytes '' @ to_decimal a @ ''-'' @ to_decimal b @ ''/'' @ to_decimal (sf_length file)))
             | Inr None \<Rightarrow> whole
             | Inl _ \<Rightarrow> (416, 0, 0, Some (''bytes */'' @ to_decimal (sf_length file))))
          else whole
      | None \<Rightarrow> whole)"

definition select_file ::
  "(string \<Rightarrow> int option) \<Rightarrow> (int \<Rightarrow> string) \<Rightarrow> (string \<Rightarrow> bool) \<Rightarrow> 'f static_file \<Rightarrow> (string \<Rightarrow> string option)
     \<Rightarrow> (response_error, http_response \<times> nat \<times> nat) result" where
  "select_file parse_http_date fmt_http_date value_ok file header =
     (let (status, start, len, content_range) = select_body parse_http_date file header;
          set = with_header value_ok in
      bindR (set ''Content-Type'' (sf_mime file) \<lparr>rs_status = status, rs_headers = []\<rparr>) (\<lambda>r.
      bindR (set ''ETag'' (sf_etag file) r) (\<lambda>r.
      bindR (set ''Last-Modified'' (fmt_http_date (sf_modified file)) r) (\<lambda>r.
      bindR (set ''Accept-Ranges'' ''bytes'' r) (\<lambda>r.
      bindR (if status \<noteq> 304 then set ''Content-Length'' (to_decimal len) r else Inr r) (\<lambda>r.
      bindR (case content_range of Some c \<Rightarrow> set ''Content-Range'' c r | None \<Rightarrow> Inr r) (\<lambda>r.
      Inr (r, start, len))))))))"

text \<open>A range that is accepted lies inside the file and is not empty.\<close>

lemma range_of_inside:
  "range_of v len = Inr (Some (a, b)) \<Longrightarrow> a \<le> b \<and> b < len"
  by (auto simp: range_of_def result_simps min_def split: option.splits if_splits)

lemma select_body_cases:
  obtains (whole) status where "status \<in> {200, 304}" "select_body pd file header = (status, 0, sf_length file, None)"
  | (part) a b where "a \<le> b" "b < sf_length file" "select_body pd file header =
      (206, a, b - a + 1, Some (''bytes '' @ to_decimal a @ ''-'' @ to_decimal b @ ''/'' @ to_decimal (sf_length file)))"
  | (refused) "select_body pd file header = (416, 0, 0, Some (''bytes */'' @ to_decimal (sf_length file)))"
proof (cases "\<exists>r. header ''range'' = Some r \<and> \<not> not_modified pd file header \<and> if_range pd file header")
  case True
  then obtain r where r: "header ''range'' = Some r" "\<not> not_modified pd file header" "if_range pd file header" by blast
  show ?thesis
  proof (cases "range_of r (sf_length file)")
    case (Inl e)
    with r show ?thesis by (intro refused) (simp add: select_body_def)
  next
    case (Inr x)
    show ?thesis
    proof (cases x)
      case None
      with Inr r show ?thesis by (intro whole [of 200]) (simp_all add: select_body_def)
    next
      case (Some ab)
      obtain a b where ab: "ab = (a, b)" by fastforce
      from range_of_inside Inr Some ab have "a \<le> b \<and> b < sf_length file" by blast
      with Inr r Some ab show ?thesis by (intro part [of a b]) (simp_all add: select_body_def)
    qed
  qed
next
  case False
  then show ?thesis
    by (intro whole [of "if not_modified pd file header then 304 else 200"])
      (auto simp: select_body_def Let_def split: option.split)
qed

lemma select_body_inside:
  assumes "select_body pd file header = (status, start, len, content_range)"
  shows "start + len \<le> sf_length file \<and> status \<in> {200, 206, 304, 416}
    \<and> (status = 200 \<longrightarrow> start = 0 \<and> len = sf_length file \<and> content_range = None)
    \<and> (status = 206 \<longrightarrow> 0 < len \<and> content_range =
        Some (''bytes '' @ to_decimal start @ ''-'' @ to_decimal (start + len - 1) @ ''/'' @ to_decimal (sf_length file)))
    \<and> (status = 416 \<longrightarrow> len = 0)"
  by (rule select_body_cases [of pd "file" header]) (use assms in auto)

lemma with_header_get:
  assumes "with_header ok name v r = Inr r'"
  shows "get_all (rs_headers r') k = (if to_ascii_lowercase k = to_ascii_lowercase name then [v] else get_all (rs_headers r) k)"
    and "rs_status r' = rs_status r"
  using assms by (auto simp: with_header_def split: if_splits)

section \<open>Sending\<close>

text \<open>
  The loop of \<open>serve_file\<close>: \<open>read pos n\<close> is what a read of at most \<open>n\<close> bytes at \<open>pos\<close> returns. The result is the
  chunks written.
\<close>

function send_loop :: "(nat \<Rightarrow> nat \<Rightarrow> string) \<Rightarrow> nat \<Rightarrow> nat \<Rightarrow> (string, string list) result" where
  "send_loop rd pos remaining =
     (if remaining = 0 then Inr []
      else
        let buffer = rd pos (min remaining 65536) in
        if buffer = [] then Inl ''file changed during transmission''
        else bindR (send_loop rd (pos + length buffer) (remaining - length buffer)) (\<lambda>chunks. Inr (buffer # chunks)))"
  by pat_completeness auto
termination by (relation "measure (\<lambda>(_, _, remaining). remaining)") (auto simp: neq_Nil_conv)

declare send_loop.simps [simp del]

text \<open>Reads of a file return a non-empty piece of it while there is one, of at most the size asked for.\<close>

definition reads_of :: "string \<Rightarrow> (nat \<Rightarrow> nat \<Rightarrow> string) \<Rightarrow> bool" where
  "reads_of content rd \<longleftrightarrow>
     (\<forall>pos n. \<exists>k\<le>n. rd pos n = take k (drop pos content)) \<and> (\<forall>pos n. pos < length content \<longrightarrow> 0 < n \<longrightarrow> rd pos n \<noteq> [])"

lemma send_loop_sends:
  assumes reads: "reads_of content rd" and "pos + remaining \<le> length content"
  shows "\<exists>chunks. send_loop rd pos remaining = Inr chunks \<and> concat chunks = take remaining (drop pos content)"
  using assms(2)
proof (induction remaining arbitrary: pos rule: less_induct)
  case (less remaining)
  show ?case
  proof (cases "remaining = 0")
    case True
    then show ?thesis by (simp add: send_loop.simps)
  next
    case False
    define buf where "buf = rd pos (min remaining 65536)"
    obtain k where k: "k \<le> min remaining 65536" "buf = take k (drop pos content)"
      using reads unfolding reads_of_def buf_def by meson
    have ne: "buf \<noteq> []" using reads less.prems False unfolding reads_of_def buf_def by simp
    have len: "length buf \<le> remaining" "buf = take (length buf) (drop pos content)"
      using k(1) by (auto simp: k(2) min_def split: if_splits)
    obtain chunks where "send_loop rd (pos + length buf) (remaining - length buf) = Inr chunks"
      "concat chunks = take (remaining - length buf) (drop (pos + length buf) content)"
      using less.IH [of "remaining - length buf" "pos + length buf"] less.prems ne len(1) False by fastforce
    moreover have "take remaining (drop pos content) =
        buf @ take (remaining - length buf) (drop (pos + length buf) content)"
      using len by (metis add.commute drop_drop le_add_diff_inverse take_add)
    ultimately show ?thesis
      using False ne by (intro exI [of _ "buf # chunks"], subst send_loop.simps) (simp add: buf_def [symmetric])
  qed
qed

section \<open>A file as the answer of a request\<close>

lemma lowercase_names:
  "to_ascii_lowercase ''Content-Type'' = ''content-type''" "to_ascii_lowercase ''ETag'' = ''etag''"
  "to_ascii_lowercase ''Last-Modified'' = ''last-modified''" "to_ascii_lowercase ''Accept-Ranges'' = ''accept-ranges''"
  "to_ascii_lowercase ''Content-Length'' = ''content-length''" "to_ascii_lowercase ''Content-Range'' = ''content-range''"
  "to_ascii_lowercase ''content-length'' = ''content-length''" "to_ascii_lowercase ''content-range'' = ''content-range''"
  by code_simp+

lemma select_file_headers:
  assumes sel: "select_file pd fmt ok file header = Inr (r, start, len)"
    and body: "select_body pd file header = (status, start', len', content_range)"
  shows "rs_status r = status \<and> start = start' \<and> len = len'
    \<and> get_all (rs_headers r) ''content-length'' = (if status = 304 then [] else [to_decimal len])
    \<and> get_all (rs_headers r) ''content-range'' = (case content_range of None \<Rightarrow> [] | Some c \<Rightarrow> [c])"
proof -
  from sel body obtain r1 r2 r3 r4 r5 where
    h: "with_header ok ''Content-Type'' (sf_mime file) \<lparr>rs_status = status, rs_headers = []\<rparr> = Inr r1"
    "with_header ok ''ETag'' (sf_etag file) r1 = Inr r2"
    "with_header ok ''Last-Modified'' (fmt (sf_modified file)) r2 = Inr r3"
    "with_header ok ''Accept-Ranges'' ''bytes'' r3 = Inr r4"
    and len5: "(if status \<noteq> 304 then with_header ok ''Content-Length'' (to_decimal len') r4 else Inr r4) = Inr r5"
    and rng: "(case content_range of Some c \<Rightarrow> with_header ok ''Content-Range'' c r5 | None \<Rightarrow> Inr r5) = Inr r"
    and eq: "start = start'" "len = len'"
    by (auto simp: select_file_def Let_def result_simps)
  have r4: "rs_status r4 = status" "get_all (rs_headers r4) ''content-length'' = []" "get_all (rs_headers r4) ''content-range'' = []"
    using h [THEN with_header_get(1)] h [THEN with_header_get(2)] by (simp_all add: lowercase_names get_all_def [of "[]"])
  then have r5: "rs_status r5 = status" "get_all (rs_headers r5) ''content-range'' = []"
    "get_all (rs_headers r5) ''content-length'' = (if status = 304 then [] else [to_decimal len])"
    using len5 eq with_header_get [of ok _ _ r4 r5] by (auto split: if_splits simp: lowercase_names)
  then show ?thesis
    using rng eq with_header_get [of ok _ _ r5 r] by (auto split: option.splits simp: lowercase_names)
qed

section \<open>What a \<open>Range\<close> asks for\<close>

text \<open>
  The three forms of a byte range after RFC 9110, how they are written, when a file can satisfy one, and the bytes it stands for.
\<close>

datatype byte_range = Between nat nat | From nat | Final nat

fun show_range :: "byte_range \<Rightarrow> string" where
  "show_range (Between a b) = ''bytes='' @ to_decimal a @ ''-'' @ to_decimal b"
| "show_range (From a) = ''bytes='' @ to_decimal a @ ''-''"
| "show_range (Final n) = ''bytes=-'' @ to_decimal n"

fun satisfiable :: "byte_range \<Rightarrow> nat \<Rightarrow> bool" where
  "satisfiable (Between a b) len \<longleftrightarrow> a < len \<and> a \<le> b"
| "satisfiable (From a) len \<longleftrightarrow> a < len"
| "satisfiable (Final n) len \<longleftrightarrow> 0 < n \<and> 0 < len"

fun range_bytes :: "byte_range \<Rightarrow> string \<Rightarrow> string" where
  "range_bytes (Between a b) content = drop a (take (b + 1) content)"
| "range_bytes (From a) content = drop a content"
| "range_bytes (Final n) content = drop (length content - n) content"

fun range_small :: "byte_range \<Rightarrow> bool" where
  "range_small (Between a b) \<longleftrightarrow> a < 2 ^ 64 \<and> b < 2 ^ 64"
| "range_small (From a) \<longleftrightarrow> a < 2 ^ 64"
| "range_small (Final n) \<longleftrightarrow> n < 2 ^ 64"

lemma decimal_free: "c \<notin> set (to_decimal n)" if "\<not> is_ascii_digit c"
  using that to_decimal_digits [of n] by (auto simp: list_all_iff)

text \<open>The first and the last byte of a range that can be satisfied, and what it selects.\<close>

fun range_ends :: "byte_range \<Rightarrow> nat \<Rightarrow> nat \<times> nat" where
  "range_ends (Between a b) len = (a, min b (len - 1))"
| "range_ends (From a) len = (a, len - 1)"
| "range_ends (Final n) len = (len - n, len - 1)"

lemma range_ends_bytes:
  assumes "satisfiable rng (length content)"
  shows "(case range_ends rng (length content) of (a, b) \<Rightarrow>
    a \<le> b \<and> b < length content \<and> take (b - a + 1) (drop a content) = range_bytes rng content)"
  using assms by (cases rng) (auto simp: drop_take min_def Suc_diff_le)

lemma range_of_show:
  assumes "range_small rng"
  shows "range_of (show_range rng) len = (if satisfiable rng len then Inr (Some (range_ends rng len)) else Inl ())"
proof -
  have free: "CHR '','' \<notin> set (to_decimal n)" "CHR ''-'' \<notin> set (to_decimal n)" for n
    by (rule decimal_free, simp add: is_ascii_digit_def)+
  have bytes: "strip_prefix ''bytes='' (''bytes='' @ s) = Some s" for s by simp
  have ranged: "range_of (''bytes='' @ first @ ''-'' @ final) len =
      (if len = 0 then Inl ()
       else if first = [] then
         bindR (ok_or (parse_uint 64 final) ()) (\<lambda>suffix. if suffix = 0 then Inl () else Inr (Some (len - suffix, len - 1)))
       else
         bindR (ok_or (parse_uint 64 first) ()) (\<lambda>start.
         bindR (if final = [] then Inr (len - 1) else bindR (ok_or (parse_uint 64 final) ()) (\<lambda>n. Inr (min n (len - 1)))) (\<lambda>stop.
         if len \<le> start \<or> stop < start then Inl () else Inr (Some (start, stop)))))"
    if "CHR '','' \<notin> set first" "CHR '','' \<notin> set final" "CHR ''-'' \<notin> set first" for first final len
    unfolding range_of_def bytes using that by (simp add: split_once_Some_iff [THEN iffD2])
  show ?thesis
  proof (cases rng)
    case (Between a b)
    with assms ranged [of "to_decimal a" "to_decimal b"] free show ?thesis by (auto simp: parse_uint_decimal ok_or_def)
  next
    case (From a)
    with assms ranged [of "to_decimal a" "[]"] free show ?thesis by (auto simp: parse_uint_decimal ok_or_def)
  next
    case (Final n)
    with assms ranged [of "[]" "to_decimal n"] free show ?thesis by (auto simp: parse_uint_decimal ok_or_def)
  qed
qed

text \<open>The answer: status, body and \<open>Content-Range\<close>.\<close>

definition range_answer :: "byte_range \<Rightarrow> string \<Rightarrow> nat \<times> string \<times> string list" where
  "range_answer rng content =
     (let len = length content in
      if satisfiable rng len then
        (case range_ends rng len of (a, b) \<Rightarrow>
           (206, range_bytes rng content, [''bytes '' @ to_decimal a @ ''-'' @ to_decimal b @ ''/'' @ to_decimal len]))
      else (416, [], [''bytes */'' @ to_decimal len]))"

lemma select_body_range:
  assumes "header ''range'' = Some (show_range rng)" "range_small rng" "\<not> not_modified pd file header" "if_range pd file header"
    and "sf_length file = length content" "select_body pd file header = (status, start, len, content_range)"
  shows "range_answer rng content = (status, take len (drop start content), case content_range of None \<Rightarrow> [] | Some c \<Rightarrow> [c])"
proof -
  obtain a b where ends: "range_ends rng (length content) = (a, b)" by fastforce
  show ?thesis
    using assms range_of_show [OF assms(2)] range_ends_bytes [of rng content] ends
    by (auto simp: select_body_def range_answer_def Let_def split: if_splits)
qed

text \<open>A disk with one file below \<open>/srv\<close> and another of that name elsewhere; a request for bytes 2 to 4 of the first.\<close>

definition example_disk :: "(string, string) disk" where
  "example_disk =
     \<lparr>open_ambient_dir = Inr,
      entry_metadata = (\<lambda>d p. if p = ''a.txt'' then Inr KindFile else Inl IoNotFound),
      open_entry = (\<lambda>d p. if p = ''a.txt'' then Inr (d @ ''/a.txt'') else Inl IoNotFound),
      file_metadata = (\<lambda>f. Inr \<lparr>fm_kind = KindFile, fm_len = 8, fm_modified = Inr 0\<rparr>), path_is_file = (\<lambda>_. False),
      cached_dir = (\<lambda>_. None), pin_entry = (\<lambda>_ _. None), reopen_pinned = (\<lambda>_. None)\<rparr>"

definition example_static :: "'n settings" where
  "example_static = default_settings\<lparr>st_root := ''/srv'', st_index := [''index.html'']\<rparr>"

definition example_file :: "string static_file" where
  "example_file = \<lparr>sf_file = ''/srv/a.txt'', sf_length = 8, sf_mime = ''application/octet-stream'',
     sf_etag = [CHR 0x22] @ ''8-0-0'' @ [CHR 0x22], sf_modified = 0\<rparr>"

definition example_header :: "string \<Rightarrow> string option" where
  "example_header = [''range'' \<mapsto> ''bytes=2-4'']"

definition example_reads :: "nat \<Rightarrow> nat \<Rightarrow> string" where
  "example_reads pos n = take n (drop pos ''contents'')"

lemma example_values:
  "parse_uint 64 ''2'' = Some 2" "parse_uint 64 ''4'' = Some 4" "to_decimal 2 = ''2''" "to_decimal 3 = ''3''" "to_decimal 4 = ''4''"
  "to_decimal 8 = ''8''" "to_hex 8 = ''8''" "to_hex 0 = ''0''" "to_ascii_lowercase ''txt'' = ''txt''"
  by (simp_all add: parse_uint_def starts_with_def digits_value_def is_ascii_digit_def less_eq_char_def to_decimal.simps
      to_hex.simps hex_digit_def char_of_def bit_0 to_ascii_lowercase_def to_ascii_lowercase_char_def is_ascii_uppercase_def)

lemma example_mime:
  "bt_get (bt_collect [(''html'', ''text/html''), (''css'', ''text/css''), (''js'', ''application/javascript'')]) ''txt'' = None"
  by code_simp

lemma example_opened: "open_route example_disk example_static ''/a.txt'' ''/'' = Inr (OpenedFile example_file)"
  by (simp add: open_route_def open_mapped_def open_at_def relative_path_def open_readonly_def describe_def example_disk_def
      example_static_def default_settings_def trim_start_matches_def path_extension_def path_file_name_def trim_back.simps
      ends_with_def starts_with_def rsplit_once_def since_epoch_def example_values example_mime example_file_def Let_def)

lemma example_selected:
  "select_file (\<lambda>_. None) (\<lambda>_. ''date'') (\<lambda>_. True) example_file example_header =
     Inr (\<lparr>rs_status = 206, rs_headers = [(''content-type'', ''application/octet-stream''), (''etag'', sf_etag example_file),
       (''last-modified'', ''date''), (''accept-ranges'', ''bytes''), (''content-length'', ''3''), (''content-range'', ''bytes 2-4/8'')]\<rparr>, 2, 3)"
  by (simp add: select_file_def select_body_def not_modified_def if_range_def example_header_def range_of_def with_header_def
      example_file_def lowercase_names strip_prefix_def starts_with_def example_values Let_def)

end
