(* ===== verification/Content_Coding.thy ===== *)
theory Content_Coding
  imports Static_Files
begin

text \<open>
  The choice of a response coding, \<open>src/src/compression.rs\<close>: \<open>quality\<close> reads a quality value in thousandths,
  \<open>negotiated_encoding\<close> goes over the \<open>Accept-Encoding\<close> fields and keeps for each coding the lowest quality given, and
  \<open>selected_encoding\<close> rules out responses that must not be transformed. The compressor itself is pingora's.

  The reference is RFC 9110: the qualities a request declares, with \<open>*\<close> for the codings it does not name. What is chosen is
  enabled by the policy, acceptable to the client, and no enabled coding nor the identity is preferred to it.
\<close>

definition quality :: "string \<Rightarrow> nat option" where
  "quality v =
     (let (integer, fraction) = (case split_once CHR ''.'' v of Some x \<Rightarrow> x | None \<Rightarrow> (v, [])) in
      if 3 < length fraction \<or> \<not> list_all is_ascii_digit fraction then None
      else if integer = ''0'' then
        Some ((case parse_uint 16 fraction of Some n \<Rightarrow> n | None \<Rightarrow> 0) * 10 ^ (3 - length fraction))
      else if integer = ''1'' \<and> list_all (\<lambda>b. b = CHR ''0'') fraction then Some 1000
      else None)"

datatype accept_entry = Skipped | Accepts nat nat

definition coding_index :: "string \<Rightarrow> nat option" where
  "coding_index name =
     (if eq_ignore_ascii_case name ''br'' then Some 0
      else if eq_ignore_ascii_case name ''gzip'' then Some 1
      else if name = ''*'' then Some 2
      else if eq_ignore_ascii_case name ''identity'' then Some 3
      else None)"

text \<open>One item of a field: nothing if it refuses the whole header, otherwise the coding it is about and its quality.\<close>

definition accept_item :: "string \<Rightarrow> accept_entry option" where
  "accept_item item =
     (case split_on CHR '';'' (trim item) of
        [] \<Rightarrow> None
      | first # parts \<Rightarrow>
          let name = trim first in
          if name = [] then Some Skipped
          else
            Option.bind
              (case parts of
                 [] \<Rightarrow> Some 1000
               | parameter # others \<Rightarrow>
                   Option.bind (split_once CHR ''='' (trim parameter)) (\<lambda>(key, v).
                   if \<not> eq_ignore_ascii_case key ''q'' \<or> others \<noteq> [] then None else quality (trim v)))
              (\<lambda>q. Some (case coding_index name of Some i \<Rightarrow> Accepts i q | None \<Rightarrow> Skipped)))"

definition lowest :: "nat option \<Rightarrow> nat \<Rightarrow> nat option" where
  "lowest old q = Some (case old of None \<Rightarrow> q | Some o' \<Rightarrow> min o' q)"

fun accept_items :: "string list \<Rightarrow> nat option list \<Rightarrow> nat option list option" where
  "accept_items [] qs = Some qs"
| "accept_items (item # items) qs =
     Option.bind (accept_item item) (\<lambda>x.
     accept_items items (case x of Skipped \<Rightarrow> qs | Accepts i q \<Rightarrow> qs[i := lowest (qs ! i) q]))"

fun accept_values :: "(string \<Rightarrow> string option) \<Rightarrow> string list \<Rightarrow> nat \<Rightarrow> nat option list \<Rightarrow> nat option list option" where
  "accept_values to_str [] bytes qs = Some qs"
| "accept_values to_str (v # vs) bytes qs =
     (let bytes' = bytes + length v in
      if 8192 < bytes' then None
      else
        Option.bind (to_str v) (\<lambda>s.
        Option.bind (accept_items (split_on CHR '','' s) qs) (accept_values to_str vs bytes')))"

definition unwrap_or :: "'a option \<Rightarrow> 'a \<Rightarrow> 'a" where
  "unwrap_or x d = (case x of Some a \<Rightarrow> a | None \<Rightarrow> d)"

definition negotiated_encoding :: "(string \<Rightarrow> string option) \<Rightarrow> (string \<times> string) list \<Rightarrow> compression \<Rightarrow> string option" where
  "negotiated_encoding to_str headers p =
     Option.bind (accept_values to_str (get_all headers ''accept-encoding'') 0 [None, None, None, None]) (\<lambda>qs.
     let wildcard = unwrap_or (qs ! 2) 0;
         br = (if 0 < cp_brotli p then unwrap_or (qs ! 0) wildcard else 0);
         gzip = (if 0 < cp_gzip p then unwrap_or (qs ! 1) wildcard else 0);
         best = max br gzip in
     if best = 0 \<or> is_some_and (qs ! 3) (\<lambda>identity. best < identity) then None
     else if gzip \<le> br then Some ''br'' else Some ''gzip'')"

definition contains_key :: "(string \<times> string) list \<Rightarrow> string \<Rightarrow> bool" where
  "contains_key headers name \<longleftrightarrow> get_all headers name \<noteq> []"

definition header_first :: "(string \<Rightarrow> string option) \<Rightarrow> (string \<times> string) list \<Rightarrow> string \<Rightarrow> string option" where
  "header_first to_str headers name = (case get_all headers name of [] \<Rightarrow> None | v # _ \<Rightarrow> to_str v)"

definition content_type :: "(string \<Rightarrow> string option) \<Rightarrow> http_response \<Rightarrow> string" where
  "content_type to_str r = trim (hd (split_on CHR '';'' (unwrap_or (header_first to_str (rs_headers r) ''content-type'') [])))"

definition no_transform :: "(string \<Rightarrow> string option) \<Rightarrow> (string \<times> string) list \<Rightarrow> http_response \<Rightarrow> bool" where
  "no_transform to_str headers r \<longleftrightarrow>
     list_ex (\<lambda>v. list_ex (\<lambda>d. eq_ignore_ascii_case (trim d) ''no-transform'') (split_on CHR '','' v))
       (List.map_filter to_str (get_all (rs_headers r) ''cache-control'' @ get_all headers ''cache-control''))"

definition small_body :: "(string \<Rightarrow> string option) \<Rightarrow> http_response \<Rightarrow> compression \<Rightarrow> bool" where
  "small_body to_str r p =
     is_some_and (Option.bind (header_first to_str (rs_headers r) ''content-length'') (parse_uint 64)) (\<lambda>n. n < cp_min_length p)"

definition selected_encoding ::
  "(string \<Rightarrow> string option) \<Rightarrow> string \<Rightarrow> (string \<times> string) list \<Rightarrow> http_response \<Rightarrow> compression \<Rightarrow> string option" where
  "selected_encoding to_str http_method headers r p =
     (if cp_gzip p = 0 \<and> cp_brotli p = 0 then None
      else
        Option.bind (negotiated_encoding to_str headers p) (\<lambda>encoding.
        let ct = content_type to_str r in
        if http_method = ''HEAD'' \<or> contains_key headers ''range'' \<or> rs_status r \<noteq> 200
          \<or> contains_key (rs_headers r) ''content-encoding'' \<or> contains_key (rs_headers r) ''content-range''
          \<or> no_transform to_str headers r \<or> small_body to_str r p
          \<or> eq_ignore_ascii_case ct ''text/event-stream''
          \<or> is_some_and (str_get ct 0 16) (\<lambda>prefix. eq_ignore_ascii_case prefix ''application/grpc'')
          \<or> \<not> list_ex (\<lambda>t. eq_ignore_ascii_case t ct) (cp_types p)
        then None else Some encoding))"

section \<open>The qualities a request declares\<close>

text \<open>The items of all fields in order; the lowest quality given to a coding, and its weight.\<close>

definition declared :: "(string \<Rightarrow> string option) \<Rightarrow> string list \<Rightarrow> accept_entry list option" where
  "declared to_str vs =
     (if list_all (\<lambda>v. to_str v \<noteq> None \<and> list_all (\<lambda>i. accept_item i \<noteq> None) (split_on CHR '','' (the (to_str v)))) vs
         \<and> sum_list (map length vs) \<le> 8192
      then Some (concat (map (\<lambda>v. map (\<lambda>i. the (accept_item i)) (split_on CHR '','' (the (to_str v)))) vs))
      else None)"

definition qualities_of :: "accept_entry list \<Rightarrow> nat \<Rightarrow> nat list" where
  "qualities_of items i = concat (map (\<lambda>x. case x of Accepts j q \<Rightarrow> if j = i then [q] else [] | Skipped \<Rightarrow> []) items)"

definition least_quality :: "accept_entry list \<Rightarrow> nat \<Rightarrow> nat option" where
  "least_quality items i = (if qualities_of items i = [] then None else Some (Min (set (qualities_of items i))))"

definition weight :: "accept_entry list \<Rightarrow> nat \<Rightarrow> nat" where
  "weight items i = (case least_quality items i of Some q \<Rightarrow> q | None \<Rightarrow> unwrap_or (least_quality items 2) 0)"

lemma accept_item_index: "accept_item item = Some (Accepts i q) \<Longrightarrow> i < 4"
  by (auto simp: accept_item_def coding_index_def Let_def bind_eq_Some_conv split: list.splits if_splits option.splits)

definition merged :: "nat option list \<Rightarrow> accept_entry list \<Rightarrow> nat option list" where
  "merged qs items = foldl (\<lambda>qs x. case x of Skipped \<Rightarrow> qs | Accepts i q \<Rightarrow> qs[i := lowest (qs ! i) q]) qs items"

lemma accept_items_eq:
  "accept_items items qs =
     (if list_all (\<lambda>i. accept_item i \<noteq> None) items then Some (merged qs (map (\<lambda>i. the (accept_item i)) items)) else None)"
  by (induction items arbitrary: qs) (auto simp: merged_def split: option.split accept_entry.split)

lemma merged_append [simp]: "merged qs (a @ b) = merged (merged qs a) b"
  by (simp add: merged_def)

lemma accept_values_eq:
  "bytes \<le> 8192 \<Longrightarrow> accept_values to_str vs bytes qs =
     (if bytes + sum_list (map length vs) \<le> 8192 then map_option (merged qs) (declared to_str vs) else None)"
proof (induction vs arbitrary: bytes qs)
  case (Cons v vs)
  show ?case
  proof (cases "to_str v")
    case None
    then show ?thesis by (simp add: declared_def Let_def)
  next
    case (Some s)
    then show ?thesis
      using Cons by (cases "list_all (\<lambda>i. accept_item i \<noteq> None) (split_on CHR '','' s)")
        (auto simp: declared_def accept_items_eq Let_def)
  qed
qed (simp add: declared_def merged_def)

lemma qualities_of_Cons [simp]:
  "qualities_of [] i = []" "qualities_of (Skipped # items) i = qualities_of items i"
  "qualities_of (Accepts j q # items) i = (if j = i then q # qualities_of items i else qualities_of items i)"
  by (simp_all add: qualities_of_def)

lemma merged_nth:
  assumes "list_all (\<lambda>x. \<forall>i q. x = Accepts i q \<longrightarrow> i < length qs) items" and "i < length qs"
  shows "merged qs items ! i =
    (if qualities_of items i = [] then qs ! i else Some (Min (set (qualities_of items i) \<union> set_option (qs ! i))))"
  using assms
proof (induction items arbitrary: qs)
  case (Cons x items)
  show ?case
  proof (cases x)
    case Skipped
    with Cons show ?thesis by (simp add: merged_def qualities_of_def)
  next
    case (Accepts j q)
    let ?qs = "qs[j := lowest (qs ! j) q]"
    have "merged ?qs items ! i =
      (if qualities_of items i = [] then ?qs ! i else Some (Min (set (qualities_of items i) \<union> set_option (?qs ! i))))"
      using Cons by simp
    moreover have "merged qs (x # items) = merged ?qs items" by (simp add: merged_def Accepts)
    ultimately show ?thesis
      using Cons.prems Accepts
      by (cases "qs ! i"; cases "j = i"; cases "qualities_of items i = []")
        (auto simp: lowest_def min.commute min.left_commute insert_commute simp del: set_empty simp flip: set_empty)
  qed
qed (simp add: merged_def)

definition coding_enabled :: "compression \<Rightarrow> nat \<Rightarrow> bool" where
  "coding_enabled p i \<longleftrightarrow> i = 0 \<and> 0 < cp_brotli p \<or> i = 1 \<and> 0 < cp_gzip p"

lemma declared_indices:
  assumes "declared to_str vs = Some items"
  shows "list_all (\<lambda>x. \<forall>i q. x = Accepts i q \<longrightarrow> i < 4) items"
proof -
  have "the (accept_item j) = Accepts i q \<Longrightarrow> accept_item j \<noteq> None \<Longrightarrow> i < 4" for i j q
    using accept_item_index by force
  then show ?thesis
    using assms unfolding declared_def by (auto simp: list_all_iff split: if_splits) metis
qed

text \<open>The loop's table holds the least quality of each coding.\<close>

lemma table_least:
  assumes "declared to_str vs = Some items" and "i < 4"
  shows "merged [None, None, None, None] items ! i = least_quality items i"
proof -
  define qs :: "nat option list" where "qs = [None, None, None, None]"
  have qs: "length qs = 4" "qs ! i = None"
    using assms(2) by (auto simp: qs_def less_Suc_eq numeral_eq_Suc)
  show ?thesis
    using merged_nth [of qs items i] declared_indices [OF assms(1)] assms(2)
    by (simp add: least_quality_def qs flip: qs_def)
qed

lemma negotiated_encoding_weights:
  "negotiated_encoding to_str headers p =
     Option.bind (declared to_str (get_all headers ''accept-encoding'')) (\<lambda>items.
     let w = (\<lambda>i. if coding_enabled p i then weight items i else 0); best = max (w 0) (w 1) in
     if best = 0 \<or> is_some_and (least_quality items 3) (\<lambda>identity. best < identity) then None
     else if w 1 \<le> w 0 then Some ''br'' else Some ''gzip'')"
proof (cases "declared to_str (get_all headers ''accept-encoding'')")
  case None
  then show ?thesis by (simp add: negotiated_encoding_def accept_values_eq)
next
  case (Some items)
  then have bytes: "sum_list (map length (get_all headers ''accept-encoding'')) \<le> 8192"
    by (simp add: declared_def split: if_splits)
  have unfold: "unwrap_or (least_quality items i) (unwrap_or (least_quality items 2) 0) = weight items i" for i
    by (simp add: weight_def unwrap_or_def split: option.split)
  show ?thesis
    using table_least [OF Some] bytes
    by (simp add: negotiated_encoding_def accept_values_eq Some unfold coding_enabled_def Let_def)
qed

text \<open>
  A response is compressed only with a coding that the policy enables and the client accepts; no other enabled coding is
  preferred to it, nor is the response as it stands.
\<close>

lemma selected_encoding_acceptable:
  assumes "selected_encoding to_str http_method headers r p = Some c"
  shows "\<exists>items i. declared to_str (get_all headers ''accept-encoding'') = Some items \<and> (i, c) \<in> {(0, ''br''), (1, ''gzip'')}
      \<and> coding_enabled p i \<and> 0 < weight items i
      \<and> (\<forall>j. coding_enabled p j \<longrightarrow> weight items j \<le> weight items i)
      \<and> (\<forall>q. least_quality items 3 = Some q \<longrightarrow> q \<le> weight items i)"
    and "rs_status r = 200 \<and> http_method \<noteq> ''HEAD'' \<and> get_all headers ''range'' = []
      \<and> get_all (rs_headers r) ''content-encoding'' = [] \<and> \<not> no_transform to_str headers r
      \<and> (\<exists>t\<in>set (cp_types p). eq_ignore_ascii_case t (content_type to_str r))"
proof -
  from assms have neg: "negotiated_encoding to_str headers p = Some c"
    by (auto simp: selected_encoding_def bind_eq_Some_conv Let_def split: if_splits)
  then obtain items where items: "declared to_str (get_all headers ''accept-encoding'') = Some items"
    by (auto simp: negotiated_encoding_weights bind_eq_Some_conv)
  define w where "w i = (if coding_enabled p i then weight items i else 0)" for i
  have eq: "(if max (w 0) (w 1) = 0 \<or> is_some_and (least_quality items 3) (\<lambda>q. max (w 0) (w 1) < q) then None
      else if w 1 \<le> w 0 then Some ''br'' else Some ''gzip'') = Some c"
    using neg unfolding negotiated_encoding_weights items bind.bind_lunit Let_def w_def .
  define i :: nat where "i = (if w 1 \<le> w 0 then 0 else 1)"
  have i: "(i, c) \<in> {(0, ''br''), (1, ''gzip'')}" "w i = max (w 0) (w 1)" "0 < w i"
    using eq by (auto simp: i_def split: if_splits)
  then have on: "coding_enabled p i" "weight items i = w i" by (auto simp: w_def split: if_splits)
  have "weight items j \<le> w i" if "coding_enabled p j" for j
    using that i(2) by (auto simp: coding_enabled_def w_def)
  moreover have "q \<le> w i" if "least_quality items 3 = Some q" for q
    using eq that i(2) by (auto split: if_splits)
  ultimately show "\<exists>items i. declared to_str (get_all headers ''accept-encoding'') = Some items \<and> (i, c) \<in> {(0, ''br''), (1, ''gzip'')}
      \<and> coding_enabled p i \<and> 0 < weight items i
      \<and> (\<forall>j. coding_enabled p j \<longrightarrow> weight items j \<le> weight items i)
      \<and> (\<forall>q. least_quality items 3 = Some q \<longrightarrow> q \<le> weight items i)"
    using items i on by auto
  show "rs_status r = 200 \<and> http_method \<noteq> ''HEAD'' \<and> get_all headers ''range'' = []
      \<and> get_all (rs_headers r) ''content-encoding'' = [] \<and> \<not> no_transform to_str headers r
      \<and> (\<exists>t\<in>set (cp_types p). eq_ignore_ascii_case t (content_type to_str r))"
    using assms by (auto simp: selected_encoding_def bind_eq_Some_conv Let_def contains_key_def list_ex_iff split: if_splits)
qed

end
