(* ===== verification/Body_Inspection.thy ===== *)
theory Body_Inspection
  imports Static_Files
begin

text \<open>
  Request bodies: \<open>src/src/proxy/body.rs\<close> reads as much of a body as the route's policy lets a script see, before the request
  is forwarded, and \<open>request_body_filter\<close> of \<open>src/src/proxy/mod.rs\<close> counts what is streamed. The body is the list of the
  chunks the connection delivers; pingora's replay buffer holds all chunks read and says when it was cut off
  (\<open>truncated\<close>, of the bytes read).
\<close>

datatype http_error = HttpError nat string | Panicked

record body_stream =
  bs_content_length :: "string option"
  bs_chunks :: "string list"
  bs_buffering :: bool
  bs_truncated :: "nat \<Rightarrow> bool"
  bs_in_time :: bool

fun inspect_loop ::
  "(nat \<Rightarrow> bool) \<Rightarrow> bool \<Rightarrow> nat \<Rightarrow> nat \<Rightarrow> string list \<Rightarrow> string \<Rightarrow> (http_error, string \<times> bool) result" where
  "inspect_loop truncated full limit max_body [] seen = Inr (seen, True)"
| "inspect_loop truncated full limit max_body (chunk # chunks) seen =
     (if \<not> full \<and> limit \<le> length seen then Inr (seen, False)
      else
        let seen' = seen @ chunk in
        if 0 < max_body \<and> max_body < length seen' \<or> full \<and> limit < length seen'
        then Inl (HttpError 413 ''request body exceeds inspection or client body limit'')
        else if truncated (length seen') then Inl (HttpError 500 ''request body replay buffer exceeded'')
        else inspect_loop truncated full limit max_body chunks seen')"

definition inspect :: "body_policy \<Rightarrow> nat \<Rightarrow> body_stream \<Rightarrow> (http_error, body_view option) result" where
  "inspect p max_body s =
     (let read = (\<lambda>full limit.
        if full \<and> is_some_and (Option.bind (bs_content_length s) (parse_uint 64)) (\<lambda>n. limit < n)
        then Inl (HttpError 413 ''request body exceeds full inspection limit'')
        else if bs_chunks s = [] then Inr (Some \<lparr>bv_bytes = [], bv_complete = True\<rparr>)
        else if \<not> bs_buffering s then Inl (HttpError 500 ''cannot initialize request body replay buffer'')
        else if \<not> bs_in_time s then Inl (HttpError 408 ''request body inspection timed out'')
        else
          bindR (inspect_loop (bs_truncated s) full limit max_body (bs_chunks s) []) (\<lambda>(seen, whole).
          Inr (Some \<lparr>bv_bytes = take limit seen, bv_complete = whole \<and> length seen \<le> limit\<rparr>)))
      in case bp_inspection p of
           InspectOff \<Rightarrow> Inr None
         | Full n \<Rightarrow> read True n
         | Prefix n \<Rightarrow> read False n)"

text \<open>What has been read is the start of the body, and all of it when the loop says so.\<close>

lemma inspect_loop_reads:
  assumes "inspect_loop truncated full limit max_body chunks seen = Inr (out, whole)"
  shows "\<exists>k. out = seen @ concat (take k chunks)" and "whole \<Longrightarrow> out = seen @ concat chunks"
    and "full \<Longrightarrow> length seen \<le> limit \<Longrightarrow> whole \<and> length out \<le> limit"
    and "0 < max_body \<Longrightarrow> length seen \<le> max_body \<Longrightarrow> length out \<le> max_body"
    and "\<not> whole \<Longrightarrow> limit \<le> length out"
proof -
  have "(\<exists>k. out = seen @ concat (take k chunks)) \<and> (whole \<longrightarrow> out = seen @ concat chunks)
    \<and> (full \<longrightarrow> length seen \<le> limit \<longrightarrow> whole \<and> length out \<le> limit)
    \<and> (0 < max_body \<longrightarrow> length seen \<le> max_body \<longrightarrow> length out \<le> max_body) \<and> (\<not> whole \<longrightarrow> limit \<le> length out)"
    using assms
  proof (induction truncated full limit max_body chunks seen rule: inspect_loop.induct)
    case (2 truncated full limit max_body chunk chunks seen)
    show ?case
    proof (cases "\<not> full \<and> limit \<le> length seen")
      case True
      with 2 show ?thesis by (auto intro: exI [of _ 0])
    next
      case False
      with 2 have step: "inspect_loop truncated full limit max_body chunks (seen @ chunk) = Inr (out, whole)"
        "\<not> (0 < max_body \<and> max_body < length (seen @ chunk))" "\<not> (full \<and> limit < length (seen @ chunk))"
        by (auto simp: Let_def split: if_splits)
      with False 2 have IH: "\<exists>k. out = (seen @ chunk) @ concat (take k chunks)" "whole \<longrightarrow> out = (seen @ chunk) @ concat chunks"
        "full \<longrightarrow> whole \<and> length out \<le> limit" "0 < max_body \<longrightarrow> length out \<le> max_body" "\<not> whole \<longrightarrow> limit \<le> length out"
        by (auto simp: Let_def not_less split: if_splits)
      from IH(1) obtain k where "out = (seen @ chunk) @ concat (take k chunks)" by blast
      then have "\<exists>k. out = seen @ concat (take k (chunk # chunks))" by (intro exI [of _ "Suc k"]) simp
      moreover have "whole \<longrightarrow> out = seen @ concat (chunk # chunks)" using IH(2) by simp
      ultimately show ?thesis using IH(3-5) by blast
    qed
  qed simp
  then show "\<exists>k. out = seen @ concat (take k chunks)" and "whole \<Longrightarrow> out = seen @ concat chunks"
    and "full \<Longrightarrow> length seen \<le> limit \<Longrightarrow> whole \<and> length out \<le> limit"
    and "0 < max_body \<Longrightarrow> length seen \<le> max_body \<Longrightarrow> length out \<le> max_body"
    and "\<not> whole \<Longrightarrow> limit \<le> length out" by blast+
qed

text \<open>
  A script sees the start of the body, at most as long as the policy allows, and is told that this is all of it exactly when
  it is.
\<close>

fun inspection_limit :: "inspection \<Rightarrow> nat" where
  "inspection_limit InspectOff = 0"
| "inspection_limit (Full n) = n"
| "inspection_limit (Prefix n) = n"

lemma inspect_view:
  assumes "inspect p max_body s = Inr (Some v)"
  shows "bv_bytes v = take (inspection_limit (bp_inspection p)) (concat (bs_chunks s))"
    and "bv_complete v \<Longrightarrow> bv_bytes v = concat (bs_chunks s)"
    and "bp_inspection p = Full n \<Longrightarrow> bv_complete v"
proof -
  let ?limit = "inspection_limit (bp_inspection p)"
  let ?full = "\<exists>n. bp_inspection p = Full n"
  consider (empty) "bs_chunks s = []" "v = \<lparr>bv_bytes = [], bv_complete = True\<rparr>"
  | (read) seen whole where "inspect_loop (bs_truncated s) ?full ?limit max_body (bs_chunks s) [] = Inr (seen, whole)"
      "v = \<lparr>bv_bytes = take ?limit seen, bv_complete = whole \<and> length seen \<le> ?limit\<rparr>"
    using assms by (auto simp: inspect_def Let_def result_simps split: inspection.splits if_splits)
  note cases = this
  show "bv_bytes v = take ?limit (concat (bs_chunks s))"
  proof (rule cases)
    fix seen whole
    assume r: "inspect_loop (bs_truncated s) ?full ?limit max_body (bs_chunks s) [] = Inr (seen, whole)"
      and v: "v = \<lparr>bv_bytes = take ?limit seen, bv_complete = whole \<and> length seen \<le> ?limit\<rparr>"
    obtain k where k: "seen = concat (take k (bs_chunks s))" using inspect_loop_reads(1) [OF r] by auto
    have body: "concat (bs_chunks s) = seen @ concat (drop k (bs_chunks s))"
      by (simp add: k flip: concat_append)
    show ?thesis
      using inspect_loop_reads(2,5) [OF r] body v by (cases whole) auto
  qed auto
  show "bv_bytes v = concat (bs_chunks s)" if "bv_complete v"
    by (rule cases) (use that in \<open>auto dest: inspect_loop_reads(2)\<close>)
  show "bv_complete v" if "bp_inspection p = Full n"
    by (rule cases) (use that in \<open>auto dest: inspect_loop_reads(3)\<close>)
qed

section \<open>Streamed bodies\<close>

definition count_body :: "bool \<Rightarrow> nat option \<Rightarrow> nat \<Rightarrow> string \<Rightarrow> (http_error, nat) result" where
  "count_body upgraded max_body bytes chunk =
     (if upgraded then Inr bytes
      else
        let bytes' = min (bytes + length chunk) (2 ^ 64 - 1) in
        if is_some_and max_body (\<lambda>m. 0 < m \<and> m < bytes') then Inl (HttpError 413 ''request body too large'') else Inr bytes')"

fun stream_body :: "nat option \<Rightarrow> nat \<Rightarrow> string list \<Rightarrow> (http_error, nat) result" where
  "stream_body max_body bytes [] = Inr bytes"
| "stream_body max_body bytes (chunk # chunks) = bindR (count_body False max_body bytes chunk) (\<lambda>b. stream_body max_body b chunks)"

text \<open>A route's body limit holds for what passes through, whatever length the client declared.\<close>

lemma stream_body_limited:
  assumes "stream_body (Some m) bytes chunks = Inr count_out" and "0 < m" and "m < 2 ^ 64 - 1" and "bytes \<le> m"
  shows "count_out = bytes + length (concat chunks)" and "count_out \<le> m"
proof -
  have "count_out = bytes + length (concat chunks) \<and> count_out \<le> m" using assms(1,4)
  proof (induction chunks arbitrary: bytes)
    case (Cons c cs)
    then obtain b where b: "count_body False (Some m) bytes c = Inr b" "stream_body (Some m) b cs = Inr count_out"
      by (auto simp: result_simps)
    from b(1) assms(2,3) have "b = bytes + length c" "b \<le> m"
      by (auto simp: count_body_def Let_def min_def split: if_splits)
    with Cons.IH [OF b(2)] show ?case by simp
  qed simp
  then show "count_out = bytes + length (concat chunks)" "count_out \<le> m" by auto
qed

end
