(* ===== verification/Proxy_Pipeline.thy ===== *)
theory Proxy_Pipeline
  imports Content_Coding Tenancy Body_Inspection Rollout Config_Load
begin

text \<open>
  The way of a request through the proxy, \<open>request_filter\<close> of \<open>src/src/proxy/mod.rs\<close> with the steps of
  \<open>src/src/proxy/policy.rs\<close> (\<open>authorize\<close>, \<open>acquire_plugin\<close>, \<open>request_plugin\<close>, \<open>dispatch\<close>), client certificates of \<open>src/src/security/mtls.rs\<close> and external authentication of
  \<open>src/src/security/mod.rs\<close>. It puts the other components together: the route comes from the index, the client address
  from the identity policy, permits from the limiter and the tenant, the backend from the script, the rollout, the Gateway policy or the
  configuration.

  A step is a function on the shared state and the context of the request that returns a result and the new
  state, so what a failing step has changed stays. Tenants and rollouts are behind an \<open>Arc\<close> in a route, here total maps from
  their names. Assigning a permit to a field of the context drops the permit that was there. \<open>edge\<close> collects what is called outside:
  the crates \<open>http\<close>, \<open>percent_encoding\<close> and OpenSSL, token verification, the answers of the authentication service, random
  numbers and the clock, whose argument counts its readings. Telemetry and tracing are left out.
\<close>

section \<open>State\<close>

record 'n px_route = "'n cfg_route" +
  px_gateway :: "gw_policy option"
  px_rollout :: "string option"
  px_tenant :: "string option"
  px_auth_endpoints :: nat

record shared =
  sh_requests :: nat
  sh_plugins :: nat
  sh_traffic :: limiter
  sh_tenants :: "string \<Rightarrow> tenant"
  sh_rollouts :: "string \<Rightarrow> state"
  sh_backends :: "(string, backend) btree"
  sh_auth_pools :: "string \<Rightarrow> backend option"

text \<open>A permit of a limiter is kept with the tenant whose limiter gave it, if it was not the shared one.\<close>

record 'n request_ctx =
  ct_route :: "'n px_route option"
  ct_request :: request_data
  ct_headers :: request_headers
  ct_server_name :: string
  ct_original_uri :: string
  ct_original_peer :: string
  ct_scheme :: string
  ct_backend :: "string option"
  ct_uri :: "string option"
  ct_edits :: edits
  ct_execution :: "caller option"
  ct_claims :: "(string, string) btree"
  ct_rollout_stage :: nat
  ct_affinity_cookie :: "string option"
  ct_lease :: "(string \<times> lease) option"
  ct_request_permit :: bool
  ct_plugin_permit :: bool
  ct_tenant_request :: "string option"
  ct_tenant_plugin :: "string option"
  ct_pre_auth_permit :: "(string option \<times> string) option"
  ct_traffic_permit :: "(string option \<times> string) option"

definition new_ctx :: "bool \<Rightarrow> 'n request_ctx" where
  "new_ctx tls =
     \<lparr>ct_route = None, ct_request = empty_request, ct_headers = \<lparr>rh_source = None, rh_values = []\<rparr>, ct_server_name = [],
      ct_original_uri = [], ct_original_peer = [], ct_scheme = (if tls then ''https'' else ''http''), ct_backend = None,
      ct_uri = None, ct_edits = \<lparr>ed_path = None, ed_query = None, ed_headers = []\<rparr>, ct_execution = None, ct_claims = [],
      ct_rollout_stage = 0, ct_affinity_cookie = None, ct_lease = None, ct_request_permit = False, ct_plugin_permit = False,
      ct_tenant_request = None, ct_tenant_plugin = None, ct_pre_auth_permit = None, ct_traffic_permit = None\<rparr>"

record ('n, 'p) edge =
  eg_to_str :: "string \<Rightarrow> string option"
  eg_authority_host :: "string \<Rightarrow> string option"
  eg_percent_decode :: "string \<Rightarrow> string"
  eg_percent_encode :: "string \<Rightarrow> string \<Rightarrow> string"
  eg_path_and_query :: "string \<Rightarrow> string option"
  eg_uri_ok :: "string \<Rightarrow> bool"
  eg_name_ok :: "string \<Rightarrow> bool"
  eg_value_ok :: "string \<Rightarrow> bool"
  eg_net_contains :: "'n \<Rightarrow> ip \<Rightarrow> bool"
  eg_show_ip :: "ip \<Rightarrow> string"
  eg_is_ip :: "string \<Rightarrow> bool"
  eg_sha256 :: "string \<Rightarrow> string"
  eg_policy_json :: "policy \<Rightarrow> string"
  eg_round :: "rat \<Rightarrow> rat"
  eg_ln :: "rat \<Rightarrow> rat"
  eg_verify_peer :: "string \<Rightarrow> 'p \<Rightarrow> bool"
  eg_verify_jwt :: "jwt_spec \<times> string \<Rightarrow> string \<Rightarrow> (string, string) btree option"
  eg_auth_url_ok :: "string \<Rightarrow> socket_addr option \<Rightarrow> bool"
  eg_auth_reply :: "nat \<Rightarrow> (nat \<times> (string \<times> string) list) option"
  eg_auth_in_time :: "nat \<Rightarrow> bool"
  eg_api :: api
  eg_script :: "string \<Rightarrow> compiled_script"
  eg_gen_range :: "nat \<Rightarrow> nat"
  eg_random_hex :: string
  eg_now :: "nat \<Rightarrow> instant"

section \<open>Steps\<close>

type_synonym ('n, 'a) step = "shared \<times> 'n request_ctx \<Rightarrow> (http_error, 'a) result \<times> shared \<times> 'n request_ctx"

definition returnH :: "'a \<Rightarrow> ('n, 'a) step" where
  "returnH x s = (Inr x, s)"

definition failH :: "nat \<Rightarrow> string \<Rightarrow> ('n, 'a) step" where
  "failH status message s = (Inl (HttpError status message), s)"

definition bindH :: "('n, 'a) step \<Rightarrow> ('a \<Rightarrow> ('n, 'b) step) \<Rightarrow> ('n, 'b) step" where
  "bindH m f s = (case m s of (Inl e, s') \<Rightarrow> (Inl e, s') | (Inr x, s') \<Rightarrow> f x s')"

definition ensureH :: "bool \<Rightarrow> nat \<Rightarrow> string \<Rightarrow> ('n, unit) step" where
  "ensureH b status message = (if b then returnH () else failH status message)"

definition liftH :: "(http_error, 'a) result \<Rightarrow> ('n, 'a) step" where
  "liftH r s = (r, s)"

definition getC :: "('n request_ctx \<Rightarrow> 'a) \<Rightarrow> ('n, 'a) step" where
  "getC f s = (Inr (f (snd s)), s)"

definition getSh :: "(shared \<Rightarrow> 'a) \<Rightarrow> ('n, 'a) step" where
  "getSh f s = (Inr (f (fst s)), s)"

definition modC :: "('n request_ctx \<Rightarrow> 'n request_ctx) \<Rightarrow> ('n, unit) step" where
  "modC f s = (Inr (), (fst s, f (snd s)))"

definition set_headers :: "(string \<Rightarrow> string option) \<Rightarrow> request_headers \<Rightarrow> 'n request_ctx \<Rightarrow> 'n request_ctx" where
  "set_headers to_str h c =
     c\<lparr>ct_headers := h, ct_request := (ct_request c)\<lparr>rd_header := headers_get to_str h, rd_header_bytes := headers_host_bytes h\<rparr>\<rparr>"

section \<open>Permits\<close>

definition update_tenant :: "string \<Rightarrow> (tenant \<Rightarrow> tenant) \<Rightarrow> shared \<Rightarrow> shared" where
  "update_tenant n f sh = sh\<lparr>sh_tenants := (sh_tenants sh)(n := f (sh_tenants sh n))\<rparr>"

definition limiter_of :: "shared \<Rightarrow> string option \<Rightarrow> limiter" where
  "limiter_of sh o' = (case o' of None \<Rightarrow> sh_traffic sh | Some n \<Rightarrow> te_traffic (sh_tenants sh n))"

definition set_limiter :: "string option \<Rightarrow> limiter \<Rightarrow> shared \<Rightarrow> shared" where
  "set_limiter o' l sh =
     (case o' of None \<Rightarrow> sh\<lparr>sh_traffic := l\<rparr> | Some n \<Rightarrow> update_tenant n (\<lambda>t. t\<lparr>te_traffic := l\<rparr>) sh)"

definition drop_tenant :: "resource \<Rightarrow> string option \<Rightarrow> shared \<Rightarrow> shared" where
  "drop_tenant r p sh = (case p of None \<Rightarrow> sh | Some n \<Rightarrow> update_tenant n (tenant_release r) sh)"

definition drop_traffic :: "instant \<Rightarrow> (string option \<times> string) option \<Rightarrow> shared \<Rightarrow> shared" where
  "drop_traffic now p sh =
     (case p of None \<Rightarrow> sh | Some (o', k) \<Rightarrow> set_limiter o' (permit_drop now k (limiter_of sh o')) sh)"

definition acquire_request :: "('n, unit) step" where
  "acquire_request =
     (\<lambda>(sh, c).
        if sh_requests sh = 0 then (Inl (HttpError 503 ''in-flight request budget exhausted''), sh, c)
        else
          (Inr (), sh\<lparr>sh_requests := sh_requests sh - 1 + (if ct_request_permit c then 1 else 0)\<rparr>, c\<lparr>ct_request_permit := True\<rparr>))"

text \<open>\<open>tenant.acquire\<close> into the context field of the resource.\<close>

definition acquire_tenant_request :: "string \<Rightarrow> ('n, unit) step" where
  "acquire_tenant_request n =
     (\<lambda>(sh, c).
        case tenant_acquire RRequest (sh_tenants sh n) of
          (Inl status, t) \<Rightarrow> (Inl (HttpError status ''namespace request quota exhausted''), update_tenant n (\<lambda>_. t) sh, c)
        | (Inr _, t) \<Rightarrow>
            (Inr (), drop_tenant RRequest (ct_tenant_request c) (update_tenant n (\<lambda>_. t) sh), c\<lparr>ct_tenant_request := Some n\<rparr>))"

definition check_tenant_rate :: "('n, 'p) edge \<Rightarrow> string \<Rightarrow> ('n, unit) step" where
  "check_tenant_rate e n =
     (\<lambda>(sh, c).
        case tenant_rate (eg_sha256 e) (eg_policy_json e) (eg_round e) (eg_now e 0) (ct_request c) (sh_tenants sh n) of
          (Inl status, t) \<Rightarrow> (Inl (HttpError status ''namespace rate quota exhausted''), update_tenant n (\<lambda>_. t) sh, c)
        | (Inr _, t) \<Rightarrow> (Inr (), update_tenant n (\<lambda>_. t) sh, c))"

text \<open>\<open>traffic.acquire\<close> for one phase; the tenant's limiter if the route has a tenant.\<close>

definition acquire_traffic :: "('n, 'p) edge \<Rightarrow> 'n px_route \<Rightarrow> bool \<Rightarrow> ('n, (string option \<times> string) option) step" where
  "acquire_traffic e route before_auth =
     (\<lambda>(sh, c).
        let o' = px_tenant route in
        case acquire (eg_sha256 e) (eg_policy_json e) (eg_round e) (eg_now e (if before_auth then 1 else 2)) (route_id route)
            (policy_phase (st_traffic (rt_settings route)) before_auth) (ct_request c) (ct_claims c) (limiter_of sh o') of
          (Inl status, l) \<Rightarrow>
            (Inl (HttpError status (if before_auth then ''pre-authentication traffic budget exhausted'' else ''route traffic budget exhausted'')),
             set_limiter o' l sh, c)
        | (Inr k, l) \<Rightarrow> (Inr (map_option (\<lambda>k. (o', k)) k), set_limiter o' l sh, c))"

definition keep_pre_auth :: "instant \<Rightarrow> (string option \<times> string) option \<Rightarrow> ('n, unit) step" where
  "keep_pre_auth now p = (\<lambda>(sh, c). (Inr (), drop_traffic now (ct_pre_auth_permit c) sh, c\<lparr>ct_pre_auth_permit := p\<rparr>))"

definition keep_traffic :: "instant \<Rightarrow> (string option \<times> string) option \<Rightarrow> ('n, unit) step" where
  "keep_traffic now p = (\<lambda>(sh, c). (Inr (), drop_traffic now (ct_traffic_permit c) sh, c\<lparr>ct_traffic_permit := p\<rparr>))"

text \<open>Dropping the permits of a plugin, and the context when the request is over.\<close>

definition release_plugin :: "('n, unit) step" where
  "release_plugin =
     (\<lambda>(sh, c).
        (Inr (), drop_tenant RPlugin (ct_tenant_plugin c) (sh\<lparr>sh_plugins := sh_plugins sh + (if ct_plugin_permit c then 1 else 0)\<rparr>),
         c\<lparr>ct_plugin_permit := False, ct_tenant_plugin := None\<rparr>))"

definition drop_lease :: "(string \<times> lease) option \<Rightarrow> shared \<Rightarrow> shared" where
  "drop_lease p sh =
     (case p of
        None \<Rightarrow> sh
      | Some (key, l) \<Rightarrow>
          (case bt_get (sh_backends sh) key of
             None \<Rightarrow> sh
           | Some b \<Rightarrow> sh\<lparr>sh_backends := bt_insert key (lease_drop l b) (sh_backends sh)\<rparr>))"

definition drop_context :: "instant \<Rightarrow> shared \<times> 'n request_ctx \<Rightarrow> shared" where
  "drop_context now s =
     (case s of (sh, c) \<Rightarrow>
        drop_traffic now (ct_traffic_permit c) (drop_traffic now (ct_pre_auth_permit c)
          (drop_tenant RPlugin (ct_tenant_plugin c) (drop_tenant RRequest (ct_tenant_request c)
            (drop_lease (ct_lease c)
              (sh\<lparr>sh_requests := sh_requests sh + (if ct_request_permit c then 1 else 0),
                  sh_plugins := sh_plugins sh + (if ct_plugin_permit c then 1 else 0)\<rparr>))))))"

section \<open>Authentication\<close>

definition mtls_authorize :: "(string \<Rightarrow> 'p \<Rightarrow> bool) \<Rightarrow> mtls_policy \<Rightarrow> 'p option \<Rightarrow> bool" where
  "mtls_authorize verify p peer =
     (if mt_mode p = TlsOff then True
      else
        case peer of
          None \<Rightarrow> mt_mode p = TlsOptional
        | Some x \<Rightarrow> (case mt_store p of None \<Rightarrow> False | Some store \<Rightarrow> verify store x))"

fun auth_headers ::
  "(string \<Rightarrow> string option) \<Rightarrow> (string \<times> string) list \<Rightarrow> string list \<Rightarrow> (string, string) btree \<Rightarrow> (nat, (string, string) btree) result" where
  "auth_headers to_str reply [] hs = Inr hs"
| "auth_headers to_str reply (name # names) hs =
     (case get_all reply name of
        [] \<Rightarrow> auth_headers to_str reply names hs
      | v # _ \<Rightarrow>
          if 4096 < length v then Inl 503
          else (case to_str v of None \<Rightarrow> Inl 503 | Some t \<Rightarrow> auth_headers to_str reply names (bt_insert name t hs)))"

definition release_auth :: "lease option \<Rightarrow> backend option \<Rightarrow> backend option" where
  "release_auth l pool = (case (l, pool) of (Some x, Some b) \<Rightarrow> Some (lease_drop x b) | _ \<Rightarrow> pool)"

definition auth_failed :: "('n, 'p) edge \<Rightarrow> nat \<Rightarrow> lease option \<Rightarrow> backend option \<Rightarrow> backend option" where
  "auth_failed e k l pool =
     (case (l, pool) of
        (Some x, Some b) \<Rightarrow> Some (snd (backend_record_result (eg_now e (20 + k)) (le_address x) True 1 (from_secs 2) b))
      | _ \<Rightarrow> pool)"

definition auth_select :: "('n, 'p) edge \<Rightarrow> nat \<Rightarrow> backend option \<Rightarrow> lease option option \<times> backend option" where
  "auth_select e k pool =
     (case pool of
        None \<Rightarrow> (Some None, None)
      | Some b \<Rightarrow>
          (case backend_select (eg_is_ip e) (eg_sha256 e) (eg_ln e) (eg_round e) (eg_now e (10 + k)) [] b of
             (None, b') \<Rightarrow> (None, Some b')
           | (Some l, b') \<Rightarrow> (Some (Some l), Some b')))"

text \<open>The loop of \<open>External::authorize\<close>: attempts left, the number of this one, and the pool of the service.\<close>

fun auth_attempts ::
  "('n, 'p) edge \<Rightarrow> external_auth \<Rightarrow> request_data \<Rightarrow> nat \<Rightarrow> nat \<Rightarrow> backend option \<Rightarrow> (nat, (string, string) btree) result \<times> backend option" where
  "auth_attempts e x r 0 k pool = (Inl 503, pool)"
| "auth_attempts e x r (Suc n) k pool =
     (case auth_select e k pool of
        (None, pool1) \<Rightarrow> (Inl 503, pool1)
      | (Some l, pool1) \<Rightarrow>
          if \<not> eg_auth_url_ok e (ea_url x) (map_option le_address l) then (Inl 503, release_auth l pool1)
          else if list_ex (\<lambda>name. is_some_and (rd_header r name) (\<lambda>v. 16384 < length v)) [''authorization'', ''cookie'']
          then (Inl 400, release_auth l pool1)
          else
            let again = n \<noteq> 0 \<and> eg_auth_in_time e k in
            (case eg_auth_reply e k of
               None \<Rightarrow>
                 let pool2 = release_auth l (auth_failed e k l pool1) in
                 if again then auth_attempts e x r n (Suc k) pool2 else (Inl 503, pool2)
             | Some (status, reply) \<Rightarrow>
                 if status = 401 then (Inl 401, release_auth l pool1)
                 else if status = 403 then (Inl 403, release_auth l pool1)
                 else if \<not> (200 \<le> status \<and> status < 300) then
                   if 500 \<le> status \<and> status < 600 \<and> l \<noteq> None then
                     let pool2 = release_auth l (auth_failed e k l pool1) in
                     if again then auth_attempts e x r n (Suc k) pool2 else (Inl 503, pool2)
                   else (Inl 503, release_auth l pool1)
                 else (auth_headers (eg_to_str e) reply (ea_response_headers x) [], release_auth l pool1)))"

definition external_authorize ::
  "('n, 'p) edge \<Rightarrow> external_auth \<Rightarrow> nat \<Rightarrow> request_data \<Rightarrow> backend option \<Rightarrow> (nat, (string, string) btree) result \<times> backend option" where
  "external_authorize e x endpoints r pool = auth_attempts e x r (max 1 (min endpoints 3)) 0 pool"

definition with_auth_budget :: "string option \<Rightarrow> ('n, 'a) step \<Rightarrow> ('n, 'a) step" where
  "with_auth_budget o' m =
     (case o' of
        None \<Rightarrow> m
      | Some n \<Rightarrow>
          (\<lambda>(sh, c).
             case tenant_acquire RAuth (sh_tenants sh n) of
               (Inl status, t) \<Rightarrow> (Inl (HttpError status ''namespace authentication quota exhausted''), update_tenant n (\<lambda>_. t) sh, c)
             | (Inr _, t) \<Rightarrow>
                 (case m (update_tenant n (\<lambda>_. t) sh, c) of
                    (r, sh', c') \<Rightarrow> (r, update_tenant n (tenant_release RAuth) sh', c'))))"

definition edit_header :: "string \<Rightarrow> string option \<Rightarrow> 'n request_ctx \<Rightarrow> 'n request_ctx" where
  "edit_header name v c = c\<lparr>ct_edits := (ct_edits c)\<lparr>ed_headers := bt_insert name v (ed_headers (ct_edits c))\<rparr>\<rparr>"

definition forget_header :: "(string \<Rightarrow> string option) \<Rightarrow> string \<Rightarrow> 'n request_ctx \<Rightarrow> 'n request_ctx" where
  "forget_header to_str name c = edit_header name None (set_headers to_str (headers_remove to_str name (ct_headers c)) c)"

definition learn_header :: "(string \<Rightarrow> string option) \<Rightarrow> string \<times> string \<Rightarrow> 'n request_ctx \<Rightarrow> 'n request_ctx" where
  "learn_header to_str h c = edit_header (fst h) (Some (snd h)) (set_headers to_str (headers_insert to_str (fst h) (snd h) (ct_headers c)) c)"

definition authorize_external :: "('n, 'p) edge \<Rightarrow> 'n px_route \<Rightarrow> external_auth \<Rightarrow> ('n, unit) step" where
  "authorize_external e route x =
     bindH (modC (fold (forget_header (eg_to_str e)) (ea_response_headers x))) (\<lambda>_.
     (\<lambda>(sh, c).
        case external_authorize e x (px_auth_endpoints route) (ct_request c) (sh_auth_pools sh (route_id route)) of
          (res, pool) \<Rightarrow>
            let sh' = sh\<lparr>sh_auth_pools := (sh_auth_pools sh)(route_id route := pool)\<rparr> in
            (case res of
               Inl status \<Rightarrow> (Inl (HttpError status ''external authorization rejected''), sh', c)
             | Inr hs \<Rightarrow> (Inr (), sh', fold (learn_header (eg_to_str e)) hs c))))"

definition bearer_token :: "(string \<Rightarrow> string option) \<Rightarrow> (string \<times> string) list \<Rightarrow> string option" where
  "bearer_token to_str headers =
     (case get_all headers ''authorization'' of
        [v] \<Rightarrow> Option.bind (to_str v) (strip_prefix ''Bearer '')
      | _ \<Rightarrow> None)"

definition authorize_jwt :: "('n, 'p) edge \<Rightarrow> (string \<times> string) list \<Rightarrow> jwt_spec \<times> string \<Rightarrow> ('n, unit) step" where
  "authorize_jwt e headers jwt =
     (case bearer_token (eg_to_str e) headers of
        None \<Rightarrow> failH 401 ''bearer token required''
      | Some token \<Rightarrow>
          (case eg_verify_jwt e jwt token of
             None \<Rightarrow> failH 401 ''invalid bearer token''
           | Some cl \<Rightarrow> modC (\<lambda>c. c\<lparr>ct_claims := cl, ct_request := (ct_request c)\<lparr>rd_claims := cl\<rparr>\<rparr>)))"

definition whenH :: "'a option \<Rightarrow> ('a \<Rightarrow> ('n, unit) step) \<Rightarrow> ('n, unit) step" where
  "whenH x f = (case x of None \<Rightarrow> returnH () | Some a \<Rightarrow> f a)"

definition authorize :: "('n, 'p) edge \<Rightarrow> (string \<times> string) list \<Rightarrow> 'p option \<Rightarrow> 'n px_route \<Rightarrow> ('n, unit) step" where
  "authorize e headers cert route =
     (let security = st_security (rt_settings route) in
      bindH (ensureH (mtls_authorize (eg_verify_peer e) (se_mtls security) cert) 403
        ''client certificate required or no longer trusted'') (\<lambda>_.
      bindH (whenH (px_tenant route) (\<lambda>n. bindH (acquire_tenant_request n) (\<lambda>_. check_tenant_rate e n))) (\<lambda>_.
      bindH (acquire_traffic e route True) (\<lambda>p. bindH (keep_pre_auth (eg_now e 3) p) (\<lambda>_.
      bindH (whenH (se_jwt security) (authorize_jwt e headers)) (\<lambda>_.
      bindH (whenH (se_external security) (\<lambda>x. with_auth_budget (px_tenant route) (authorize_external e route x))) (\<lambda>_.
      bindH (acquire_traffic e route False) (keep_traffic (eg_now e 4)))))))))"

section \<open>Scripts and dispatch\<close>

definition acquire_plugin :: "'n px_route \<Rightarrow> ('n, unit) step" where
  "acquire_plugin route =
     bindH (\<lambda>(sh, c).
        case px_tenant route of
          None \<Rightarrow> (Inr (), drop_tenant RPlugin (ct_tenant_plugin c) sh, c\<lparr>ct_tenant_plugin := None\<rparr>)
        | Some n \<Rightarrow>
            (case tenant_acquire RPlugin (sh_tenants sh n) of
               (Inl status, t) \<Rightarrow> (Inl (HttpError status ''namespace plugin quota exhausted''), update_tenant n (\<lambda>_. t) sh, c)
             | (Inr _, t) \<Rightarrow>
                 (Inr (), drop_tenant RPlugin (ct_tenant_plugin c) (update_tenant n (\<lambda>_. t) sh), c\<lparr>ct_tenant_plugin := Some n\<rparr>))) (\<lambda>_.
     (\<lambda>(sh, c).
        if sh_plugins sh = 0 then (Inl (HttpError 503 ''plugin instance budget exhausted''), sh, c)
        else
          (Inr (), sh\<lparr>sh_plugins := sh_plugins sh - 1 + (if ct_plugin_permit c then 1 else 0)\<rparr>, c\<lparr>ct_plugin_permit := True\<rparr>)))"

definition extend_edits :: "edits \<Rightarrow> edits \<Rightarrow> edits" where
  "extend_edits old out =
     \<lparr>ed_path = ed_path out, ed_query = ed_query out, ed_headers = fold (\<lambda>(k, v). bt_insert k v) (ed_headers out) (ed_headers old)\<rparr>"

definition apply_outcome :: "'n px_route \<Rightarrow> request_outcome \<Rightarrow> ('n, (nat \<times> string) option) step" where
  "apply_outcome route out =
     bindH (modC (\<lambda>c. c\<lparr>ct_edits := extend_edits (ct_edits c) (oc_edits out)\<rparr>)) (\<lambda>_.
     case oc_decision out of
       Pass \<Rightarrow> returnH None
     | Proxy_to name \<Rightarrow>
         (case bt_get (rt_allowed route) name of
            None \<Rightarrow> failH 500 ''plugin selected an undeclared backend''
          | Some key \<Rightarrow> bindH (modC (\<lambda>c. c\<lparr>ct_backend := Some key\<rparr>)) (\<lambda>_. returnH None))
     | Reply status body \<Rightarrow> returnH (Some (status, body)))"

definition request_plugin :: "('n, 'p) edge \<Rightarrow> 'n px_route \<Rightarrow> string \<Rightarrow> body_view option \<Rightarrow> ('n, (nat \<times> string) option) step" where
  "request_plugin e route script inspected =
     bindH (getC (\<lambda>c. request (eg_api e) (eg_script e script) ((ct_request c)\<lparr>rd_body := inspected\<rparr>))) (\<lambda>result.
     bindH (modC (\<lambda>c. c\<lparr>ct_request := (ct_request c)\<lparr>rd_body := None\<rparr>\<rparr>)) (\<lambda>_.
     case result of
       Inl _ \<Rightarrow> failH 500 ''plugin execution failed''
     | Inr (execution, out) \<Rightarrow>
         bindH (if cs_on_response (eg_script e script) \<noteq> None then modC (\<lambda>c. c\<lparr>ct_execution := Some execution\<rparr>) else release_plugin) (\<lambda>_.
         apply_outcome route out)))"

datatype dispatched = DProxy | DReply nat string "string option" | DStatic

definition ctx_variables :: "'n request_ctx \<Rightarrow> variables" where
  "ctx_variables c =
     \<lparr>va_request = ct_request c, va_edits = ct_edits c, va_original_uri = ct_original_uri c, va_original_peer = ct_original_peer c,
      va_scheme = ct_scheme c, va_server_name = ct_server_name c\<rparr>"

definition rollout_select :: "('n, 'p) edge \<Rightarrow> string \<Rightarrow> ('n, string) step" where
  "rollout_select e n =
     (\<lambda>(sh, c).
        case select (eg_name_ok e) (eg_sha256 e) (ct_request c) (sh_rollouts sh n) of
          (res, st) \<Rightarrow> (ok_or res Panicked, sh\<lparr>sh_rollouts := (sh_rollouts sh)(n := st)\<rparr>, c))"

definition set_backend :: "string \<Rightarrow> ('n, unit) step" where
  "set_backend b = modC (\<lambda>c. c\<lparr>ct_backend := Some b\<rparr>)"

definition choose_backend :: "('n, 'p) edge \<Rightarrow> 'n px_route \<Rightarrow> string option \<Rightarrow> string \<Rightarrow> ('n, unit) step" where
  "choose_backend e route otherwise message =
     (case px_rollout route of
        Some n \<Rightarrow> bindH (rollout_select e n) set_backend
      | None \<Rightarrow> (case otherwise of Some b \<Rightarrow> set_backend b | None \<Rightarrow> failH 500 message))"

definition dispatch_action :: "('n, 'p) edge \<Rightarrow> 'n px_route \<Rightarrow> ('n, dispatched) step" where
  "dispatch_action e route =
     (case route_action route of
        Proxy backend uri \<Rightarrow>
          bindH (choose_backend e route (Some backend) []) (\<lambda>_.
          bindH (modC (\<lambda>c. c\<lparr>ct_uri := uri\<rparr>)) (\<lambda>_. returnH DProxy))
      | action.Return status txt \<Rightarrow>
          bindH (getC (\<lambda>c. Request_Entry.expand (ctx_variables c) [] txt)) (\<lambda>t.
          if 300 \<le> unat status \<and> unat status < 400 \<and> t \<noteq> []
          then returnH (DReply (unat status) [] (Some t)) else returnH (DReply (unat status) t None))
      | Unavailable \<Rightarrow> failH 503 ''backend unavailable''
      | Static \<Rightarrow> returnH DStatic)"

definition dispatch :: "('n, 'p) edge \<Rightarrow> bool \<Rightarrow> 'n px_route \<Rightarrow> ('n, dispatched) step" where
  "dispatch e tls route =
     bindH (getC ct_backend) (\<lambda>chosen.
     case chosen of
       Some b \<Rightarrow>
         (case px_rollout route of
            None \<Rightarrow> returnH DProxy
          | Some n \<Rightarrow>
              bindH (getSh (\<lambda>sh. enforce (sh_rollouts sh n) b)) (\<lambda>r.
              bindH (liftH (ok_or r Panicked)) (\<lambda>b'. bindH (set_backend b') (\<lambda>_. returnH DProxy))))
     | None \<Rightarrow>
         (case px_gateway route of
            Some policy \<Rightarrow>
              bindH (getC (\<lambda>c. location (eg_percent_encode e) policy (ct_request c) (route_matcher route) tls)) (\<lambda>l.
              case l of
                Some (status, target) \<Rightarrow> returnH (DReply status [] (Some target))
              | None \<Rightarrow>
                  bindH (choose_backend e route (gateway_select (eg_gen_range e) policy) ''Gateway backend reference is invalid or missing'') (\<lambda>_.
                  returnH DProxy))
          | None \<Rightarrow> dispatch_action e route))"

section \<open>The request filter\<close>

record 'p session =
  ss_method :: string
  ss_path :: string
  ss_query :: "string option"
  ss_path_and_query :: "string option"
  ss_scheme :: bool
  ss_authority :: "string option"
  ss_http11 :: bool
  ss_headers :: "(string \<times> string) list"
  ss_peer :: string
  ss_proxy_address :: "ip option"
  ss_certificate :: "'p option"
  ss_body :: body_stream

text \<open>
  The lookups of a snapshot for one listener. For a Gateway snapshot \<open>request_deadline\<close> prepares the request before the filter
  runs: it keeps the first value of each field instead of the last, read with \<open>from_utf8_lossy\<close>, and looks the route up for it; a request with a bad
  path or host is left to the filter, which refuses it. Here the filter does both.
\<close>

record 'n lookups =
  lk_request :: "request_data \<Rightarrow> 'n px_route option"
  lk_path :: "string \<Rightarrow> string \<Rightarrow> 'n px_route option"
  lk_hostless :: string
  lk_lossy :: "(string \<Rightarrow> string) option"

definition session_headers :: "(string \<Rightarrow> string) option \<Rightarrow> (string \<times> string) list \<Rightarrow> request_headers" where
  "session_headers lossy headers =
     (case lossy of
        None \<Rightarrow> headers_from_http headers
      | Some f \<Rightarrow> headers_from_iter (map (\<lambda>n. (n, f (hd (get_all headers n)))) (remdups (map fst headers))))"

definition entry_status :: "(entry_error, 'a) result \<Rightarrow> (http_error, 'a) result" where
  "entry_status r = (case r of Inl _ \<Rightarrow> Inl (HttpError 400 ''bad request'') | Inr x \<Rightarrow> Inr x)"

definition read_request :: "('n, 'p) edge \<Rightarrow> 'n lookups \<Rightarrow> 'p session \<Rightarrow> ('n, unit) step" where
  "read_request e lk s =
     bindH (liftH (entry_status (normalized_path (eg_percent_decode e) (ss_path s)))) (\<lambda>path.
     bindH (liftH (entry_status (request_host (eg_to_str e) (eg_authority_host e) (ss_headers s) (ss_scheme s) (ss_authority s) (ss_http11 s)))) (\<lambda>host.
     modC (\<lambda>c. set_headers (eg_to_str e) (session_headers (lk_lossy lk) (ss_headers s))
       (c\<lparr>ct_request := (ct_request c)\<lparr>rd_path := path, rd_host := host,
           rd_query := (case ss_query s of Some q \<Rightarrow> q | None \<Rightarrow> [])\<rparr>,
          ct_server_name := (if host = [] then lk_hostless lk else ct_server_name c)\<rparr>))))"

text \<open>A prefix route to a proxy whose path only lacks the final slash answers with a redirect to it.\<close>

definition slash_route :: "'n lookups \<Rightarrow> request_data \<Rightarrow> 'n px_route \<Rightarrow> 'n px_route option" where
  "slash_route lk r route =
     (if \<not> ends_with (rd_path r) ''/'' \<and> (case route_matcher route of Exact _ \<Rightarrow> False | _ \<Rightarrow> True) then
        (case lk_path lk (rd_host r) (rd_path r @ ''/'') of
           Some w \<Rightarrow>
             if route_matcher w = NginxPrefix (rd_path r @ ''/'') \<and> (case route_action w of Proxy _ _ \<Rightarrow> True | _ \<Rightarrow> False)
             then Some w else None
         | None \<Rightarrow> None)
      else None)"

definition identify :: "('n, 'p) edge \<Rightarrow> bool \<Rightarrow> 'n px_route \<Rightarrow> 'p session \<Rightarrow> ('n, unit) step" where
  "identify e tls route s =
     bindH (modC (\<lambda>c. c\<lparr>ct_original_peer := rd_remote_addr (ct_request c)\<rparr>)) (\<lambda>_.
     whenH (parse_ip_addr (ss_peer s)) (\<lambda>peer.
       let p = st_identity (rt_settings route);
           client = identity_resolve (eg_net_contains e) (eg_to_str e) p peer (ss_headers s) (ss_proxy_address s) in
       bindH (modC (\<lambda>c. c\<lparr>ct_request := (ct_request c)\<lparr>rd_remote_addr := eg_show_ip e client\<rparr>,
         ct_scheme := identity_scheme (eg_net_contains e) (eg_to_str e) p peer (ss_headers s) tls\<rparr>)) (\<lambda>_.
       ensureH (allows (eg_net_contains e) p client) 403 ''client address denied'')))"

datatype answer = Forward | Answered nat string "string option" | ServeFile

definition declared_length :: "('n, 'p) edge \<Rightarrow> 'p session \<Rightarrow> nat option" where
  "declared_length e s = Option.bind (header_first (eg_to_str e) (ss_headers s) ''content-length'') (parse_uint 64)"

definition run_script :: "('n, 'p) edge \<Rightarrow> 'n px_route \<Rightarrow> 'p session \<Rightarrow> ('n, (nat \<times> string) option) step" where
  "run_script e route s =
     (case rt_script route of
        None \<Rightarrow> returnH None
      | Some script \<Rightarrow>
          bindH (acquire_plugin route) (\<lambda>_.
          bindH (liftH (inspect (st_body_policy (rt_settings route)) (st_max_body (rt_settings route)) (ss_body s))) (\<lambda>inspected.
          request_plugin e route script inspected)))"

definition finish :: "('n, 'p) edge \<Rightarrow> bool \<Rightarrow> 'n px_route \<Rightarrow> 'p session \<Rightarrow> ('n, answer) step" where
  "finish e tls route s =
     bindH (ensureH (\<not> (0 < st_max_body (rt_settings route) \<and> is_some_and (declared_length e s) (\<lambda>n. st_max_body (rt_settings route) < n)))
       413 ''request body too large'') (\<lambda>_.
     bindH (\<lambda>(sh, c). (Inr (), sh, c\<lparr>ct_rollout_stage := (case px_rollout route of None \<Rightarrow> 0 | Some n \<Rightarrow> stage (sh_rollouts sh n))\<rparr>)) (\<lambda>_.
     bindH (run_script e route s) (\<lambda>decided.
     case decided of
       Some (status, body) \<Rightarrow> returnH (Answered status body None)
     | None \<Rightarrow>
         bindH (dispatch e tls route) (\<lambda>d.
         returnH (case d of DProxy \<Rightarrow> Forward | DReply status body target \<Rightarrow> Answered status body target | DStatic \<Rightarrow> ServeFile)))))"

definition serve_route :: "('n, 'p) edge \<Rightarrow> bool \<Rightarrow> 'n px_route \<Rightarrow> bool \<Rightarrow> 'p session \<Rightarrow> ('n, answer) step" where
  "serve_route e tls route redirect s =
     bindH (modC (\<lambda>c. c\<lparr>ct_route := Some route\<rparr>)) (\<lambda>_.
     bindH (identify e tls route s) (\<lambda>_.
     bindH (getC (\<lambda>c. c)) (\<lambda>c.
     if ct_scheme c \<noteq> ''https'' \<and> st_https_redirect_port (rt_settings route) \<noteq> None then
       returnH (Answered 308 [] (Some (https_redirect (eg_path_and_query e) (rd_host (ct_request c)) (ct_original_uri c)
         (unat (the (st_https_redirect_port (rt_settings route)))))))
     else
       bindH (authorize e (ss_headers s) (ss_certificate s) route) (\<lambda>_.
       if redirect then
         bindH (getC ct_request) (\<lambda>r.
         returnH (Answered 301 [] (Some (encode_path (eg_percent_encode e) (rd_path r @ ''/'') @
           (if rd_query r = [] then [] else ''?'' @ rd_query r)))))
       else finish e tls route s))))"

definition request_filter :: "('n, 'p) edge \<Rightarrow> 'n lookups \<Rightarrow> bool \<Rightarrow> 'p session \<Rightarrow> ('n, answer) step" where
  "request_filter e lk tls s =
     bindH (modC (\<lambda>c. c\<lparr>ct_original_uri := (case ss_path_and_query s of Some p \<Rightarrow> p | None \<Rightarrow> ''/''),
       ct_request := (ct_request c)\<lparr>rd_method := ss_method s, rd_remote_addr := ss_peer s\<rparr>\<rparr>)) (\<lambda>_.
     bindH acquire_request (\<lambda>_.
     bindH (liftH (entry_status (validate_connection_header (eg_to_str e) (ss_headers s)))) (\<lambda>_.
     bindH (read_request e lk s) (\<lambda>_.
     bindH (getC ct_request) (\<lambda>r.
     case lk_request lk r of
       None \<Rightarrow> returnH (Answered 404 (''not found'' @ [CHR 0x0A]) None)
     | Some route \<Rightarrow>
         (case slash_route lk r route of
            Some w \<Rightarrow> serve_route e tls w True s
          | None \<Rightarrow> serve_route e tls route False s))))))"

section \<open>Every permit is given back\<close>

text \<open>
  The counters a request leaves behind if it gave back all it holds: free request and plugin slots, the permits of every
  tenant, and the permits of every bucket of every limiter. \<open>counted base s\<close> says that the counters of \<open>s\<close> are those of
  \<open>base\<close> and, on top, exactly what the context holds.
\<close>

type_synonym counts = "nat \<times> nat \<times> (string \<Rightarrow> resource \<Rightarrow> nat) \<times> (string option \<Rightarrow> string \<Rightarrow> nat)"

definition held_tenant :: "'n request_ctx \<Rightarrow> string \<Rightarrow> resource \<Rightarrow> nat" where
  "held_tenant c n r =
     (if ct_tenant_request c = Some n \<and> r = RRequest then 1 else 0) + (if ct_tenant_plugin c = Some n \<and> r = RPlugin then 1 else 0)"

definition held_traffic :: "'n request_ctx \<Rightarrow> string option \<Rightarrow> string \<Rightarrow> nat" where
  "held_traffic c o' k =
     (if ct_pre_auth_permit c = Some (o', k) then 1 else 0) + (if ct_traffic_permit c = Some (o', k) then 1 else 0)"

definition counters :: "shared \<Rightarrow> counts" where
  "counters sh =
     (sh_requests sh, sh_plugins sh, \<lambda>n r. te_active (sh_tenants sh n) ! resource_index r, \<lambda>o' k. active_of (buckets (limiter_of sh o')) k)"

definition shared_ok :: "shared \<Rightarrow> bool" where
  "shared_ok sh \<longleftrightarrow> (\<forall>n. length (te_active (sh_tenants sh n)) = 4) \<and> (\<forall>o'. bt_sorted (buckets (limiter_of sh o')))"

definition counted :: "counts \<Rightarrow> shared \<times> 'n request_ctx \<Rightarrow> bool" where
  "counted base s =
     (case (base, s) of ((requests, plugins, tenants, traffic), (sh, c)) \<Rightarrow>
        shared_ok sh
        \<and> sh_requests sh + (if ct_request_permit c then 1 else 0) = requests
        \<and> sh_plugins sh + (if ct_plugin_permit c then 1 else 0) = plugins
        \<and> (\<forall>n r. te_active (sh_tenants sh n) ! resource_index r = tenants n r + held_tenant c n r)
        \<and> (\<forall>o' k. active_of (buckets (limiter_of sh o')) k = traffic o' k + held_traffic c o' k))"

definition balanced :: "('n, 'a) step \<Rightarrow> bool" where
  "balanced m \<longleftrightarrow> (\<forall>base s r s'. counted base s \<longrightarrow> m s = (r, s') \<longrightarrow> counted base s')"

named_theorems balanced_intros \<open>steps that keep the balance of permits\<close>

lemma balancedI: "(\<And>base sh c r s'. counted base (sh, c) \<Longrightarrow> m (sh, c) = (r, s') \<Longrightarrow> counted base s') \<Longrightarrow> balanced m"
  unfolding balanced_def by fastforce

lemma balancedD: "balanced m \<Longrightarrow> counted base s \<Longrightarrow> m s = (r, s') \<Longrightarrow> counted base s'"
  unfolding balanced_def by blast

lemma balanced_bind [balanced_intros]:
  assumes "balanced m" "\<And>x. balanced (f x)"
  shows "balanced (bindH m f)"
proof (rule balancedI)
  fix base sh and c :: "'a request_ctx" and r s'
  assume cnt: "counted base (sh, c)" and run: "bindH m f (sh, c) = (r, s')"
  obtain x t where x: "m (sh, c) = (x, t)" by (cases "m (sh, c)")
  then have "counted base t" using assms(1) cnt by (blast dest: balancedD)
  with run x assms(2) show "counted base s'" by (cases x) (auto simp: bindH_def dest: balancedD)
qed

lemma balanced_simple [balanced_intros]:
  "balanced (returnH x)" "balanced (failH n msg)" "balanced (ensureH b n msg)" "balanced (liftH r)" "balanced (getC g)" "balanced (getSh h)"
  by (auto simp: balanced_def returnH_def failH_def ensureH_def liftH_def getC_def getSh_def)

lemma balanced_when [balanced_intros]: "(\<And>a. balanced (f a)) \<Longrightarrow> balanced (whenH x f)"
  by (cases x) (auto simp: whenH_def intro: balanced_intros)

definition same_permits :: "'n request_ctx \<Rightarrow> 'n request_ctx \<Rightarrow> bool" where
  "same_permits c d \<longleftrightarrow>
     ct_request_permit c = ct_request_permit d \<and> ct_plugin_permit c = ct_plugin_permit d
     \<and> ct_tenant_request c = ct_tenant_request d \<and> ct_tenant_plugin c = ct_tenant_plugin d
     \<and> ct_pre_auth_permit c = ct_pre_auth_permit d \<and> ct_traffic_permit c = ct_traffic_permit d"

lemma counted_ctx: "same_permits c d \<Longrightarrow> counted base (sh, c) = counted base (sh, d)"
  by (simp add: counted_def same_permits_def held_tenant_def held_traffic_def)

lemma balanced_modC [balanced_intros]: "(\<And>c. same_permits (f c) c) \<Longrightarrow> balanced (modC f)"
  using counted_ctx by (fastforce simp: balanced_def modC_def)

lemma limiter_of_set [simp]: "limiter_of (set_limiter a l sh) b = (if b = a then l else limiter_of sh b)"
  by (auto simp: limiter_of_def set_limiter_def update_tenant_def split: option.splits)

lemma set_limiter_other [simp]:
  "te_active (sh_tenants (set_limiter a l sh) n) = te_active (sh_tenants sh n)"
  "sh_requests (set_limiter a l sh) = sh_requests sh" "sh_plugins (set_limiter a l sh) = sh_plugins sh"
  by (auto simp: set_limiter_def update_tenant_def split: option.splits)

lemma update_tenant_simps [simp]:
  "sh_traffic (update_tenant n f sh) = sh_traffic sh" "sh_requests (update_tenant n f sh) = sh_requests sh" "sh_plugins (update_tenant n f sh) = sh_plugins sh"
  "sh_tenants (update_tenant n f sh) m = (if m = n then f (sh_tenants sh n) else sh_tenants sh m)"
  "(\<And>t. te_traffic (f t) = te_traffic t) \<Longrightarrow> limiter_of (update_tenant n f sh) o' = limiter_of sh o'"
  by (auto simp: update_tenant_def limiter_of_def split: option.splits)

lemma resource_index_inj [simp]: "resource_index a = resource_index b \<longleftrightarrow> a = b"
  by (cases a; cases b) simp_all

lemma tenant_release_simps [simp]:
  "te_traffic (tenant_release r t) = te_traffic t" "length (te_active (tenant_release r t)) = length (te_active t)"
  "length (te_active t) = 4 \<Longrightarrow>
    te_active (tenant_release r t) ! resource_index q = (if q = r then te_active t ! resource_index r - 1 else te_active t ! resource_index q)"
  by (auto simp: tenant_release_def Let_def nth_list_update)

text \<open>What \<open>drop\<close> of a permit does to the counters.\<close>

lemma drop_tenant_simps [simp]:
  "sh_requests (drop_tenant r p sh) = sh_requests sh" "sh_plugins (drop_tenant r p sh) = sh_plugins sh"
  "limiter_of (drop_tenant r p sh) o' = limiter_of sh o'" "shared_ok sh \<Longrightarrow> shared_ok (drop_tenant r p sh)"
  "shared_ok sh \<Longrightarrow> te_active (sh_tenants (drop_tenant r p sh) n) ! resource_index q =
    te_active (sh_tenants sh n) ! resource_index q - (if p = Some n \<and> q = r then 1 else 0)"
proof -
  show lim: "limiter_of (drop_tenant r p sh) o' = limiter_of sh o'" for o'
    by (cases p) (simp_all add: drop_tenant_def)
  show "shared_ok (drop_tenant r p sh)" if "shared_ok sh"
    using that lim by (cases p) (auto simp: shared_ok_def drop_tenant_def)
  show "te_active (sh_tenants (drop_tenant r p sh) n) ! resource_index q =
    te_active (sh_tenants sh n) ! resource_index q - (if p = Some n \<and> q = r then 1 else 0)" if "shared_ok sh"
    using that by (cases p) (auto simp: drop_tenant_def shared_ok_def)
qed (auto simp: drop_tenant_def split: option.split)

lemma drop_traffic_simps [simp]:
  "sh_requests (drop_traffic now p sh) = sh_requests sh" "sh_plugins (drop_traffic now p sh) = sh_plugins sh"
  "te_active (sh_tenants (drop_traffic now p sh) n) = te_active (sh_tenants sh n)"
  "shared_ok sh \<Longrightarrow> shared_ok (drop_traffic now p sh)"
  "shared_ok sh \<Longrightarrow> active_of (buckets (limiter_of (drop_traffic now p sh) o')) k =
    active_of (buckets (limiter_of sh o')) k - (if p = Some (o', k) then 1 else 0)"
proof -
  show "shared_ok (drop_traffic now p sh)" if "shared_ok sh"
    using that by (auto simp: drop_traffic_def shared_ok_def permit_drop_effect split: option.split)
  show "active_of (buckets (limiter_of (drop_traffic now p sh) o')) k =
    active_of (buckets (limiter_of sh o')) k - (if p = Some (o', k) then 1 else 0)" if "shared_ok sh"
  proof (cases p)
    case None
    then show ?thesis by (simp add: drop_traffic_def)
  next
    case (Some x)
    obtain a j where x: "x = (a, j)" by fastforce
    have "active_of (buckets (permit_drop now j (limiter_of sh a))) = (active_of (buckets (limiter_of sh a)))(j := active_of (buckets (limiter_of sh a)) j - 1)"
      using that by (intro permit_drop_effect) (simp add: shared_ok_def)
    then show ?thesis by (auto simp: drop_traffic_def Some x)
  qed
qed (auto simp: drop_traffic_def split: option.split)

lemma tenant_acquire_simps:
  assumes "tenant_acquire r t = (res, t')" "length (te_active t) = 4"
  shows "te_traffic t' = te_traffic t" "length (te_active t') = 4"
    "te_active t' ! resource_index q = te_active t ! resource_index q + (if is_ok res \<and> q = r then 1 else 0)"
  using assms by (auto simp: tenant_acquire_def Let_def nth_list_update split: if_splits)

lemma limiter_of_fields [simp]:
  "limiter_of (sh\<lparr>sh_requests := x\<rparr>) = limiter_of sh" "limiter_of (sh\<lparr>sh_plugins := x\<rparr>) = limiter_of sh"
  "limiter_of (sh\<lparr>sh_rollouts := r\<rparr>) = limiter_of sh" "limiter_of (sh\<lparr>sh_backends := b\<rparr>) = limiter_of sh"
  "limiter_of (sh\<lparr>sh_auth_pools := a\<rparr>) = limiter_of sh"
  by (auto simp: limiter_of_def fun_eq_iff split: option.split)

lemma shared_ok_fields [simp]:
  "shared_ok (sh\<lparr>sh_requests := x\<rparr>) = shared_ok sh" "shared_ok (sh\<lparr>sh_plugins := x\<rparr>) = shared_ok sh"
  "shared_ok (sh\<lparr>sh_rollouts := r\<rparr>) = shared_ok sh" "shared_ok (sh\<lparr>sh_backends := b\<rparr>) = shared_ok sh"
  "shared_ok (sh\<lparr>sh_auth_pools := a\<rparr>) = shared_ok sh"
  by (simp_all add: shared_ok_def)

lemma held_fields [simp]:
  "held_tenant (c\<lparr>ct_request_permit := x\<rparr>) = held_tenant c" "held_traffic (c\<lparr>ct_request_permit := x\<rparr>) = held_traffic c"
  "held_tenant (c\<lparr>ct_plugin_permit := x\<rparr>) = held_tenant c" "held_traffic (c\<lparr>ct_plugin_permit := x\<rparr>) = held_traffic c"
  "held_traffic (c\<lparr>ct_tenant_request := y\<rparr>) = held_traffic c" "held_traffic (c\<lparr>ct_tenant_plugin := y\<rparr>) = held_traffic c"
  "held_tenant (c\<lparr>ct_pre_auth_permit := z\<rparr>) = held_tenant c" "held_tenant (c\<lparr>ct_traffic_permit := z\<rparr>) = held_tenant c"
  by (simp_all add: held_tenant_def held_traffic_def fun_eq_iff)

lemma counted_fields [simp]:
  "counted base (sh\<lparr>sh_rollouts := r\<rparr>, c) = counted base (sh, c)" "counted base (sh\<lparr>sh_backends := b\<rparr>, c) = counted base (sh, c)"
  "counted base (sh\<lparr>sh_auth_pools := a\<rparr>, c) = counted base (sh, c)"
  by (simp_all add: counted_def)

lemma balanced_acquire_request [balanced_intros]: "balanced acquire_request"
  by (rule balancedI) (auto simp: acquire_request_def counted_def split: if_splits)

text \<open>A step that only replaces the state of one tenant, with the same permits or one more.\<close>

lemma counted_tenant:
  assumes "counted (x, y, f, g) (sh, c)" and "te_traffic t = te_traffic (sh_tenants sh n)" and "length (te_active t) = 4"
    and "\<And>q. te_active t ! resource_index q = te_active (sh_tenants sh n) ! resource_index q + d q"
  shows "counted (x, y, \<lambda>m q. f m q + (if m = n then d q else 0), g) (update_tenant n (\<lambda>_. t) sh, c)"
    and "(\<And>q. d q = 0) \<Longrightarrow> counted (x, y, f, g) (update_tenant n (\<lambda>_. t) sh, c)"
proof -
  have "limiter_of (update_tenant n (\<lambda>_. t) sh) o' = limiter_of sh o'" for o'
    using assms(2) by (auto simp: limiter_of_def split: option.split)
  with assms show "counted (x, y, \<lambda>m q. f m q + (if m = n then d q else 0), g) (update_tenant n (\<lambda>_. t) sh, c)"
    by (auto simp: counted_def shared_ok_def)
  then show "counted (x, y, f, g) (update_tenant n (\<lambda>_. t) sh, c)" if "\<And>q. d q = 0"
  proof -
    have "(\<lambda>m q. f m q + (if m = n then d q else 0)) = f" using that by (auto simp: fun_eq_iff)
    with \<open>counted _ (update_tenant n (\<lambda>_. t) sh, c)\<close> show ?thesis by simp
  qed
qed

text \<open>An attempt at a permit of a tenant: refused, nothing has changed; granted, the counter of the resource is one higher.\<close>

lemma counted_acquire:
  assumes cnt: "counted (x, y, f, g) (sh, c)" and t: "tenant_acquire r (sh_tenants sh n) = (res, t)"
  shows "res = Inl e \<Longrightarrow> counted (x, y, f, g) (update_tenant n (\<lambda>_. t) sh, c)"
    and "res = Inr u \<Longrightarrow> counted (x, y, \<lambda>m q. f m q + (if m = n \<and> q = r then 1 else 0), g) (update_tenant n (\<lambda>_. t) sh, c)"
proof -
  have len: "length (te_active (sh_tenants sh n)) = 4" using cnt by (simp add: counted_def shared_ok_def)
  note eff = tenant_acquire_simps [OF t len]
  show "counted (x, y, f, g) (update_tenant n (\<lambda>_. t) sh, c)" if "res = Inl e"
    using counted_tenant(2) [OF cnt eff(1,2), of "\<lambda>_. 0"] eff(3) that by simp
  show "counted (x, y, \<lambda>m q. f m q + (if m = n \<and> q = r then 1 else 0), g) (update_tenant n (\<lambda>_. t) sh, c)" if "res = Inr u"
  proof -
    have "(\<lambda>m q. f m q + (if m = n then if q = r then 1 else 0 else 0)) = (\<lambda>m q. f m q + (if m = n \<and> q = r then 1 else 0))"
      by (auto simp: fun_eq_iff)
    then show ?thesis
      using counted_tenant(1) [OF cnt eff(1,2), of "\<lambda>q. if q = r then 1 else 0"] eff(3) that by simp
  qed
qed

text \<open>A permit that was granted is put into the context, and the one that was there is dropped.\<close>

lemma counted_keep_tenant:
  shows "counted (x, y, \<lambda>m q. f m q + (if m = n \<and> q = RRequest then 1 else 0), g) (sh, c) \<Longrightarrow>
      counted (x, y, f, g) (drop_tenant RRequest (ct_tenant_request c) sh, c\<lparr>ct_tenant_request := Some n\<rparr>)"
    and "counted (x, y, \<lambda>m q. f m q + (if m = n \<and> q = RPlugin then 1 else 0), g) (sh, c) \<Longrightarrow>
      counted (x, y, f, g) (drop_tenant RPlugin (ct_tenant_plugin c) sh, c\<lparr>ct_tenant_plugin := Some n\<rparr>)"
    and "counted (x, y, f, g) (sh, c) \<Longrightarrow> counted (x, y, f, g) (drop_tenant RPlugin (ct_tenant_plugin c) sh, c\<lparr>ct_tenant_plugin := None\<rparr>)"
  by (auto simp: counted_def held_tenant_def simp del: resource_index.simps)

lemma counted_keep_traffic:
  assumes "counted (x, y, f, \<lambda>o' k. g o' k + (if p = Some (o', k) then 1 else 0)) (sh, c)"
  shows "counted (x, y, f, g) (drop_traffic now (ct_pre_auth_permit c) sh, c\<lparr>ct_pre_auth_permit := p\<rparr>)"
    and "counted (x, y, f, g) (drop_traffic now (ct_traffic_permit c) sh, c\<lparr>ct_traffic_permit := p\<rparr>)"
  using assms by (auto simp: counted_def held_traffic_def)

lemma balanced_acquire_tenant_request [balanced_intros]: "balanced (acquire_tenant_request n)"
proof (rule balancedI)
  fix base sh and c :: "'a request_ctx" and r s'
  assume cnt: "counted base (sh, c)" and run: "acquire_tenant_request n (sh, c) = (r, s')"
  obtain x y f g where base: "base = (x, y, f, g)" by (cases base)
  obtain res t where t: "tenant_acquire RRequest (sh_tenants sh n) = (res, t)" by fastforce
  note got = counted_acquire [OF cnt [unfolded base] t]
  show "counted base s'"
    using got run t by (cases res) (auto simp: acquire_tenant_request_def base dest: counted_keep_tenant(1))
qed

lemma balanced_acquire_plugin [balanced_intros]: "balanced (acquire_plugin route)"
proof -
  have "balanced (\<lambda>(sh, c).
        case px_tenant route of
          None \<Rightarrow> (Inr (), drop_tenant RPlugin (ct_tenant_plugin c) sh, c\<lparr>ct_tenant_plugin := None\<rparr>)
        | Some n \<Rightarrow>
            (case tenant_acquire RPlugin (sh_tenants sh n) of
               (Inl status, t) \<Rightarrow> (Inl (HttpError status ''namespace plugin quota exhausted''), update_tenant n (\<lambda>_. t) sh, c)
             | (Inr _, t) \<Rightarrow>
                 (Inr (), drop_tenant RPlugin (ct_tenant_plugin c) (update_tenant n (\<lambda>_. t) sh), c\<lparr>ct_tenant_plugin := Some n\<rparr>)))"
    (is "balanced ?m")
  proof (rule balancedI)
    fix base sh c r s'
    assume cnt: "counted base (sh, c)" and run: "?m (sh, c) = (r, s')"
    obtain x y f g where base: "base = (x, y, f, g)" by (cases base)
    show "counted base s'"
    proof (cases "px_tenant route")
      case None
      with cnt run show ?thesis by (auto simp: base dest: counted_keep_tenant(3))
    next
      case (Some n)
      obtain res t where t: "tenant_acquire RPlugin (sh_tenants sh n) = (res, t)" by fastforce
      note got = counted_acquire [OF cnt [unfolded base] t]
      show ?thesis using got run t Some by (cases res) (auto simp: base dest: counted_keep_tenant(2))
    qed
  qed
  moreover have "balanced (\<lambda>(sh, c).
        if sh_plugins sh = 0 then (Inl (HttpError 503 ''plugin instance budget exhausted''), sh, c)
        else
          (Inr (), sh\<lparr>sh_plugins := sh_plugins sh - 1 + (if ct_plugin_permit c then 1 else 0)\<rparr>, c\<lparr>ct_plugin_permit := True\<rparr>))"
    by (rule balancedI) (auto simp: counted_def split: if_splits)
  ultimately show ?thesis unfolding acquire_plugin_def by (intro balanced_bind)
qed

lemma balanced_release_plugin [balanced_intros]: "balanced release_plugin"
proof (rule balancedI)
  fix base sh and c :: "'a request_ctx" and r s'
  assume cnt: "counted base (sh, c)" and run: "release_plugin (sh, c) = (r, s')"
  obtain x y f g where base: "base = (x, y, f, g)" by (cases base)
  let ?sh = "sh\<lparr>sh_plugins := sh_plugins sh + (if ct_plugin_permit c then 1 else 0)\<rparr>"
  have "counted base (?sh, c\<lparr>ct_plugin_permit := False\<rparr>)" using cnt by (auto simp: counted_def)
  from counted_keep_tenant(3) [OF this [unfolded base]] run show "counted base s'"
    by (auto simp: release_plugin_def base)
qed

lemma counted_limiter:
  assumes "counted (x, y, f, g) (sh, c)" and "bt_sorted (buckets l)"
    and "\<And>k. active_of (buckets l) k = active_of (buckets (limiter_of sh a)) k + d k"
  shows "counted (x, y, f, \<lambda>o' k. g o' k + (if o' = a then d k else 0)) (set_limiter a l sh, c)"
  using assms by (auto simp: counted_def shared_ok_def)

lemma counted_limiter_same:
  assumes "counted base (sh, c)" and "bt_sorted (buckets l)" and "active_of (buckets l) = active_of (buckets (limiter_of sh a))"
  shows "counted base (set_limiter a l sh, c)"
  using assms by (cases base) (auto simp: counted_def shared_ok_def)

lemma counted_sorted: "counted base (sh, c) \<Longrightarrow> bt_sorted (buckets (limiter_of sh a))"
  by (cases base) (auto simp: counted_def shared_ok_def)

lemma balanced_check_tenant_rate [balanced_intros]: "balanced (check_tenant_rate e n)"
proof (rule balancedI)
  fix base sh and c :: "'a request_ctx" and r s'
  assume cnt: "counted base (sh, c)" and run: "check_tenant_rate e n (sh, c) = (r, s')"
  let ?l = "limiter_of sh (Some n)"
  obtain res l where l: "acquire (eg_sha256 e) (eg_policy_json e) (eg_round e) (eg_now e 0) ''_namespace''
      (namespace_policy (te_quota (sh_tenants sh n))) (ct_request c) (rd_claims (ct_request c)) ?l = (res, l)" by fastforce
  have none: "\<nexists>k. res = Inr (Some k)"
    using acquire_effect(4) [OF l counted_sorted [OF cnt]] by (auto simp: namespace_policy_def)
  note eff = acquire_effect(1) [OF l counted_sorted [OF cnt]] acquire_effect(5) [OF l counted_sorted [OF cnt] none]
  have "update_tenant n (\<lambda>_. (sh_tenants sh n)\<lparr>te_traffic := l\<rparr>) sh = set_limiter (Some n) l sh"
    by (simp add: set_limiter_def update_tenant_def)
  then have "s' = (set_limiter (Some n) l sh, c)"
    using run l by (cases res) (auto simp: check_tenant_rate_def tenant_rate_def limiter_of_def)
  with counted_limiter_same [OF cnt eff] show "counted base s'" by simp
qed

text \<open>An acquisition of a limiter with what is done with the permit.\<close>

lemma counted_acquire_traffic:
  assumes cnt: "counted (x, y, f, g) (sh, c)" and run: "acquire_traffic e route before_auth (sh, c) = (r, s')"
  shows "r = Inl err \<Longrightarrow> counted (x, y, f, g) s'"
    and "r = Inr p \<Longrightarrow> counted (x, y, f, \<lambda>o' k. g o' k + (if p = Some (o', k) then 1 else 0)) s'"
proof -
  let ?o = "px_tenant route"
  obtain res l where l: "acquire (eg_sha256 e) (eg_policy_json e) (eg_round e) (eg_now e (if before_auth then 1 else 2)) (route_id route)
      (policy_phase (st_traffic (rt_settings route)) before_auth) (ct_request c) (ct_claims c) (limiter_of sh ?o) = (res, l)" by fastforce
  note sorted = counted_sorted [OF cnt, of ?o]
  have s': "s' = (set_limiter ?o l sh, c)" and r: "r = (case res of Inl n \<Rightarrow> Inl (HttpError n
      (if before_auth then ''pre-authentication traffic budget exhausted'' else ''route traffic budget exhausted''))
      | Inr k \<Rightarrow> Inr (map_option (\<lambda>k. (?o, k)) k))"
    using run l by (auto simp: acquire_traffic_def Let_def split: sum.splits)
  have same: "counted (x, y, f, g) s'" if "\<nexists>k. res = Inr (Some k)"
    using counted_limiter_same [OF cnt acquire_effect(1) [OF l sorted] acquire_effect(5) [OF l sorted that]] s' by simp
  show "counted (x, y, f, g) s'" if "r = Inl err"
    using same r that by (cases res) auto
  show "counted (x, y, f, \<lambda>o' k. g o' k + (if p = Some (o', k) then 1 else 0)) s'" if p: "r = Inr p"
  proof (cases p)
    case None
    then have "\<nexists>k. res = Inr (Some k)" using r p by (cases res) auto
    with same None show ?thesis by simp
  next
    case (Some q)
    then obtain k where k: "res = Inr (Some k)" "q = (?o, k)"
      using r p by (cases res; cases "projr res") (auto split: sum.splits)
    have "counted (x, y, f, \<lambda>o' j. g o' j + (if o' = ?o then if j = k then 1 else 0 else 0)) (set_limiter ?o l sh, c)"
      using acquire_effect(4) [OF l sorted k(1)]
      by (intro counted_limiter [OF cnt acquire_effect(1) [OF l sorted]]) auto
    moreover have "(\<lambda>o' j. g o' j + (if o' = ?o then if j = k then 1 else 0 else 0)) =
        (\<lambda>o' k. g o' k + (if p = Some (o', k) then 1 else 0))"
      using Some k(2) by (auto simp: fun_eq_iff)
    ultimately show ?thesis using s' by simp
  qed
qed

lemma balanced_traffic [balanced_intros]:
  "(\<And>u. balanced (k u)) \<Longrightarrow> balanced (bindH (acquire_traffic e route True) (\<lambda>p. bindH (keep_pre_auth now p) k))"
  "balanced (bindH (acquire_traffic e route False) (keep_traffic now))"
proof -
  have keep: "counted base s'" if "counted base (sh, c)" "bindH (acquire_traffic e route b) (\<lambda>p. m p) (sh, c) = (r, s')"
    "\<And>p x y f g sh c r s'. base = (x, y, f, g) \<Longrightarrow> counted (x, y, f, \<lambda>o' k. g o' k + (if p = Some (o', k) then 1 else 0)) (sh, c) \<Longrightarrow>
        m p (sh, c) = (r, s') \<Longrightarrow> counted (x, y, f, g) s'" for base sh b m r s' and c :: "'a request_ctx"
  proof -
    obtain x y f g where base: "base = (x, y, f, g)" by (cases base)
    obtain res s1 where s1: "acquire_traffic e route b (sh, c) = (res, s1)" by (cases "acquire_traffic e route b (sh, c)")
    show ?thesis
      using counted_acquire_traffic [OF that(1) [unfolded base] s1] that(2,3) base s1
      by (cases res; cases s1) (auto simp: bindH_def)
  qed
  show "balanced (bindH (acquire_traffic e route False) (keep_traffic now))"
    by (rule balancedI, rule keep) (auto simp: keep_traffic_def dest: counted_keep_traffic(2))
  show "balanced (bindH (acquire_traffic e route True) (\<lambda>p. bindH (keep_pre_auth now p) k))"
    if "\<And>u. balanced (k u)"
    using that by (intro balancedI, elim keep) (auto simp: keep_pre_auth_def bindH_def dest: counted_keep_traffic(1) balancedD)
qed

lemma balanced_with_auth_budget [balanced_intros]:
  assumes "balanced m"
  shows "balanced (with_auth_budget o' m)"
proof (cases o')
  case None
  with assms show ?thesis by (simp add: with_auth_budget_def)
next
  case (Some n)
  show ?thesis
  proof (rule balancedI)
    fix base sh and c :: "'a request_ctx" and r s'
    assume cnt: "counted base (sh, c)" and run: "with_auth_budget o' m (sh, c) = (r, s')"
    obtain x y f g where base: "base = (x, y, f, g)" by (cases base)
    obtain res t where t: "tenant_acquire RAuth (sh_tenants sh n) = (res, t)" by fastforce
    note got = counted_acquire [OF cnt [unfolded base] t]
    show "counted base s'"
    proof (cases res)
      case (Inl e)
      with got run t Some show ?thesis by (auto simp: with_auth_budget_def base)
    next
      case (Inr u)
      obtain r1 sh1 c1 where m: "m (update_tenant n (\<lambda>_. t) sh, c) = (r1, sh1, c1)" by (metis prod_cases3)
      have "counted (x, y, \<lambda>m q. f m q + (if m = n \<and> q = RAuth then 1 else 0), g) (sh1, c1)"
        using balancedD [OF assms got(2) [OF Inr] m] .
      then have "counted base (update_tenant n (tenant_release RAuth) sh1, c1)"
        by (auto simp: base counted_def shared_ok_def held_tenant_def simp del: resource_index.simps)
      with run t Some Inr m show ?thesis by (auto simp: with_auth_budget_def)
    qed
  qed
qed

lemma same_permits_fold: "(\<And>x c. same_permits (f x c) c) \<Longrightarrow> same_permits (fold f xs c) c"
proof (induction xs arbitrary: c)
  case (Cons x xs)
  then show ?case unfolding same_permits_def by fastforce
qed (simp add: same_permits_def)

lemma same_permits_edits [simp]:
  "same_permits (forget_header to_str n c) c" "same_permits (learn_header to_str h c) c" "same_permits (set_headers to_str hs c) d = same_permits c d"
  by (simp_all add: same_permits_def forget_header_def learn_header_def edit_header_def set_headers_def)

lemma balanced_authorize_external [balanced_intros]: "balanced (authorize_external e route x)"
proof -
  have "balanced (\<lambda>(sh, c).
        case external_authorize e x (px_auth_endpoints route) (ct_request c) (sh_auth_pools sh (route_id route)) of
          (res, pool) \<Rightarrow>
            let sh' = sh\<lparr>sh_auth_pools := (sh_auth_pools sh)(route_id route := pool)\<rparr> in
            (case res of
               Inl status \<Rightarrow> (Inl (HttpError status ''external authorization rejected''), sh', c)
             | Inr hs \<Rightarrow> (Inr (), sh', fold (learn_header (eg_to_str e)) hs c)))"
    by (rule balancedI)
      (auto simp: Let_def counted_ctx [OF same_permits_fold] split: prod.splits sum.splits)
  then show ?thesis
    unfolding authorize_external_def by (intro balanced_bind balanced_modC same_permits_fold) simp_all
qed

lemma balanced_authorize [balanced_intros]: "balanced (authorize e headers cert route)"
  unfolding authorize_def authorize_jwt_def Let_def
  by (auto intro!: balanced_intros simp: same_permits_def split: option.split)

lemma balanced_script [balanced_intros]: "balanced (run_script e route s)"
  unfolding run_script_def request_plugin_def apply_outcome_def
  by (auto intro!: balanced_intros simp: same_permits_def split: option.split sum.split decision.split)

lemma balanced_rollout [balanced_intros]: "balanced (rollout_select e n)"
  by (rule balancedI) (auto simp: rollout_select_def split: prod.splits)

lemma balanced_dispatch [balanced_intros]: "balanced (dispatch e tls route)"
  unfolding dispatch_def dispatch_action_def choose_backend_def set_backend_def
  by (auto intro!: balanced_intros simp: same_permits_def split: option.split action.split)

lemma balanced_finish [balanced_intros]: "balanced (finish e tls route s)"
proof -
  have "balanced (\<lambda>(sh, c). (Inr (), sh, c\<lparr>ct_rollout_stage := (case px_rollout route of None \<Rightarrow> 0 | Some n \<Rightarrow> stage (sh_rollouts sh n))\<rparr>))"
    by (rule balancedI) (auto simp: counted_def held_tenant_def held_traffic_def)
  then show ?thesis unfolding finish_def by (auto intro!: balanced_intros split: option.split)
qed

lemma balanced_request_filter: "balanced (request_filter e lk tls s)"
  unfolding request_filter_def read_request_def serve_route_def identify_def Let_def
  by (auto intro!: balanced_intros simp: same_permits_def set_headers_def split: option.split)

lemma counted_new: "shared_ok sh \<Longrightarrow> counted (counters sh) (sh, new_ctx tls)"
  by (simp add: counted_def counters_def new_ctx_def held_tenant_def held_traffic_def)

lemma drop_lease_counters [simp]: "shared_ok (drop_lease p sh) = shared_ok sh" "counted base (drop_lease p sh, c) = counted base (sh, c)"
  by (auto simp: drop_lease_def split: option.split)

lemma counters_drop:
  assumes "counted base (sh, c)"
  shows "counters (drop_context now (sh, c)) = base"
proof -
  obtain x y f g where base: "base = (x, y, f, g)" by (cases base)
  define sh0 where "sh0 = sh\<lparr>sh_requests := sh_requests sh + (if ct_request_permit c then 1 else 0),
      sh_plugins := sh_plugins sh + (if ct_plugin_permit c then 1 else 0)\<rparr>"
  have "counted base (sh0, c\<lparr>ct_request_permit := False, ct_plugin_permit := False\<rparr>)"
    using assms by (auto simp: counted_def sh0_def)
  then have "counted base (drop_lease (ct_lease c) sh0, c\<lparr>ct_request_permit := False, ct_plugin_permit := False\<rparr>)" by simp
  then show ?thesis
    by (auto simp: base counted_def counters_def drop_context_def held_tenant_def held_traffic_def fun_eq_iff
        simp del: resource_index.simps simp flip: sh0_def)
qed

text \<open>
  An edge for examples: no escapes, one valid token, one trusted network and scripts that answer nothing; a route of a tenant that asks for a
  token, and a snapshot with this route only.
\<close>

definition example_edge :: "(nat, string) edge" where
  "example_edge =
     \<lparr>eg_to_str = Some, eg_authority_host = Some, eg_percent_decode = (\<lambda>p. p), eg_percent_encode = (\<lambda>_ p. p), eg_path_and_query = Some,
      eg_uri_ok = (\<lambda>_. True), eg_name_ok = (\<lambda>_. True), eg_value_ok = (\<lambda>_. True), eg_net_contains = (\<lambda>n a. n = 0), eg_show_ip = (\<lambda>_. ''10.0.0.1''),
      eg_is_ip = (\<lambda>_. False), eg_sha256 = (\<lambda>p. p), eg_policy_json = (\<lambda>_. ''{}''), eg_round = (\<lambda>x. x), eg_ln = (\<lambda>x. x),
      eg_verify_peer = (\<lambda>store peer. store = peer),
      eg_verify_jwt = (\<lambda>_ token. if token = ''t1'' then Some [(''sub'', ''u1'')] else None),
      eg_auth_url_ok = (\<lambda>_ _. True), eg_auth_reply = (\<lambda>_. None), eg_auth_in_time = (\<lambda>_. False),
      eg_api = \<lparr>api.header_name_ok = (\<lambda>_. True), api.header_value_ok = (\<lambda>_. True), form_parse = (\<lambda>_. []), memmem_find = (\<lambda>_ _. None), api_sha256 = (\<lambda>p. p),
        js_raw = (\<lambda>_. None), js_object = (\<lambda>_. None), js_array = (\<lambda>_. None), js_i64 = (\<lambda>_. None), js_bool = (\<lambda>_. None), js_string = (\<lambda>_. None)\<rparr>,
      eg_script = (\<lambda>_. \<lparr>cs_constants = [], cs_requires_memory = False, cs_memory = None, cs_start = guest.Return 0, cs_on_request = guest.Return 0,
        cs_on_response = None\<rparr>),
      eg_gen_range = (\<lambda>_. 0), eg_random_hex = ''00'', eg_now = (\<lambda>k. k)\<rparr>"

definition example_px_route :: "nat px_route" where
  "example_px_route =
     \<lparr>route_id = ''r'', route_matcher = NginxPrefix ''/'', route_action = Proxy ''app'' None,
      rt_settings = default_settings\<lparr>st_security := default_security\<lparr>se_jwt :=
        Some (\<lparr>js_source = ''k'', js_issuer = ''i'', js_audience = ''a'', js_algorithm = ''RS256''\<rparr>, ''keys'')\<rparr>\<rparr>,
      rt_script = None, rt_allowed = [], px_gateway = None, px_rollout = None, px_tenant = Some ''team'', px_auth_endpoints = 0\<rparr>"

definition example_shared :: shared where
  "example_shared =
     \<lparr>sh_requests = 2, sh_plugins = 1, sh_traffic = default_limiter, sh_tenants = (\<lambda>n. new_tenant n default_quota),
      sh_rollouts = (\<lambda>_. demo_state), sh_backends = [], sh_auth_pools = (\<lambda>_. None)\<rparr>"

definition example_lookups :: "nat lookups" where
  "example_lookups = \<lparr>lk_request = (\<lambda>_. Some example_px_route), lk_path = (\<lambda>_ _. None), lk_hostless = [], lk_lossy = None\<rparr>"

definition example_session :: "string session" where
  "example_session =
     \<lparr>ss_method = ''GET'', ss_path = ''/a'', ss_query = None, ss_path_and_query = Some ''/a'', ss_scheme = False, ss_authority = None,
      ss_http11 = True, ss_headers = [(''host'', ''x''), (''authorization'', ''Bearer t1'')], ss_peer = ''10.0.0.1'',
      ss_proxy_address = None, ss_certificate = None,
      ss_body = \<lparr>bs_content_length = None, bs_chunks = [], bs_buffering = False, bs_truncated = (\<lambda>_. False), bs_in_time = True\<rparr>\<rparr>"

lemma example_shared_ok: "shared_ok example_shared"
  by (auto simp: shared_ok_def example_shared_def new_tenant_def limiter_of_def default_limiter_def bt_sorted_def bt_keys_def split: option.split)

text \<open>
  C37. No path through the request filter leaks a permit: whatever the request, the configuration and the answers of
  scripts and services, and wherever the filter stops, with an answer, an error or a forwarded request, dropping the context
  leaves every counter as it was: the free request and plugin slots, the permits of all tenants and those of all buckets of the limiters.
\<close>

theorem pipeline_releases_permits:
  assumes "shared_ok sh" and "request_filter e lk tls s (sh, new_ctx tls) = (result, after)"
  shows "counters (drop_context now after) = counters sh"
proof -
  have "counted (counters sh) after"
    using balancedD [OF balanced_request_filter counted_new [OF assms(1)] assms(2)] .
  then show ?thesis by (cases after) (simp add: counters_drop)
qed

theorem pipeline_releases_permits_witness:
  "counters (drop_context 9 (snd (request_filter example_edge example_lookups True example_session (example_shared, new_ctx True)))) = counters example_shared"
  by (rule pipeline_releases_permits [OF example_shared_ok prod.collapse [symmetric]])

end
