(* ===== verification/Proxy_Guards.thy ===== *)
theory Proxy_Guards
  imports Proxy_Pipeline
begin

text \<open>
  What a request has passed when the request filter hands it to a backend. A step that succeeds is inverted into the steps
  it is made of, and each step is shown to leave alone the part of the state that an earlier check was about; the theorem at
  the end puts together the path, the client address, authentication, the declared body length and the backend.
\<close>

section \<open>What a forwarded request has passed\<close>

text \<open>Inversion of successful steps, and the parts of the state a step leaves alone.\<close>

lemma bindH_Inr [result_simps]:
  "bindH m f s = (Inr y, s'') \<longleftrightarrow> (\<exists>x s'. m s = (Inr x, s') \<and> f x s' = (Inr y, s''))"
  by (auto simp: bindH_def split: prod.split sum.split)

lemma step_Inr [result_simps]:
  "returnH x s = (Inr y, s') \<longleftrightarrow> y = x \<and> s' = s" "failH n msg s \<noteq> (Inr y, s')" "liftH r s = (Inr y, s') \<longleftrightarrow> r = Inr y \<and> s' = s"
  "getC g s = (Inr z, s') \<longleftrightarrow> z = g (snd s) \<and> s' = s" "getSh h s = (Inr w, s') \<longleftrightarrow> w = h (fst s) \<and> s' = s"
  "ensureH b n msg s = (Inr u, s') \<longleftrightarrow> b \<and> s' = s" "modC k s = (Inr u, s') \<longleftrightarrow> s' = (fst s, k (snd s))"
  by (auto simp: returnH_def failH_def liftH_def getC_def getSh_def ensureH_def modC_def)

definition keeps_part :: "(shared \<times> 'n request_ctx \<Rightarrow> 'v) \<Rightarrow> ('n, 'a) step \<Rightarrow> bool" where
  "keeps_part F m \<longleftrightarrow> (\<forall>s r s'. m s = (r, s') \<longrightarrow> F s' = F s)"

named_theorems part_intros \<open>steps that leave a part of the state alone\<close>

lemma keeps_partI: "(\<And>sh c r s'. m (sh, c) = (r, s') \<Longrightarrow> F s' = F (sh, c)) \<Longrightarrow> keeps_part F m"
  unfolding keeps_part_def by fastforce

lemma keeps_partD: "keeps_part F m \<Longrightarrow> m s = (r, s') \<Longrightarrow> F s' = F s"
  unfolding keeps_part_def by blast

lemma keeps_part_bind [part_intros]:
  assumes "keeps_part F m" "\<And>x. keeps_part F (f x)"
  shows "keeps_part F (bindH m f)"
proof (rule keeps_partI)
  fix sh c r s'
  assume run: "bindH m f (sh, c) = (r, s')"
  obtain x t where x: "m (sh, c) = (x, t)" by (cases "m (sh, c)")
  with run assms show "F s' = F (sh, c)" by (cases x) (auto simp: bindH_def, (metis keeps_partD)+)
qed

lemma keeps_part_simple [part_intros]:
  "keeps_part F (returnH x)" "keeps_part F (failH n msg)" "keeps_part F (ensureH b n msg)" "keeps_part F (liftH r)"
  "keeps_part F (getC g)" "keeps_part F (getSh h)"
  by (auto simp: keeps_part_def returnH_def failH_def ensureH_def liftH_def getC_def getSh_def)

lemma keeps_part_when [part_intros]: "(\<And>a. keeps_part F (f a)) \<Longrightarrow> keeps_part F (whenH x f)"
  by (cases x) (auto simp: whenH_def intro: part_intros)

lemma keeps_part_modC [part_intros]: "(\<And>sh c. F (sh, f c) = F (sh, c)) \<Longrightarrow> keeps_part F (modC f)"
  by (rule keeps_partI) (auto simp: modC_def)

text \<open>Who the request is from and where it goes, as far as it is known; and what the choice of a backend reads.\<close>

definition verdict :: "shared \<times> 'n request_ctx \<Rightarrow> 'n px_route option \<times> string \<times> (string, string) btree \<times> string option" where
  "verdict s = (case s of (sh, c) \<Rightarrow> (ct_route c, ct_scheme c, ct_claims c, ct_tenant_request c))"

definition choice_inputs :: "shared \<times> 'n request_ctx \<Rightarrow> (string \<Rightarrow> state) \<times> string option" where
  "choice_inputs s = (case s of (sh, c) \<Rightarrow> (sh_rollouts sh, ct_backend c))"

lemma sh_rollouts_permits [simp]:
  "sh_rollouts (update_tenant n f sh) = sh_rollouts sh" "sh_rollouts (set_limiter o' l sh) = sh_rollouts sh"
  "sh_rollouts (drop_tenant r p sh) = sh_rollouts sh" "sh_rollouts (drop_traffic now q sh) = sh_rollouts sh"
  by (auto simp: update_tenant_def set_limiter_def drop_tenant_def drop_traffic_def split: option.split)

lemmas part_defs = verdict_def choice_inputs_def

lemma permit_steps_keep [part_intros]:
  "keeps_part choice_inputs acquire_request" "keeps_part choice_inputs (acquire_tenant_request n)"
  "keeps_part choice_inputs (check_tenant_rate e n)" "keeps_part verdict (check_tenant_rate e n)"
  "keeps_part choice_inputs (acquire_traffic e route b)" "keeps_part verdict (acquire_traffic e route b)"
  "keeps_part choice_inputs (keep_pre_auth now p)" "keeps_part verdict (keep_pre_auth now p)"
  "keeps_part choice_inputs (keep_traffic now p)" "keeps_part verdict (keep_traffic now p)"
  "keeps_part choice_inputs release_plugin" "keeps_part verdict release_plugin"
  "keeps_part verdict (rollout_select e n)"
  by (rule keeps_partI; auto simp: part_defs acquire_request_def acquire_tenant_request_def check_tenant_rate_def acquire_traffic_def
      keep_pre_auth_def keep_traffic_def release_plugin_def rollout_select_def Let_def split: if_splits prod.splits sum.splits)+

lemma acquire_plugin_keeps [part_intros]: "keeps_part choice_inputs (acquire_plugin route)" "keeps_part verdict (acquire_plugin route)"
  unfolding acquire_plugin_def
  by (intro keeps_part_bind; rule keeps_partI; auto simp: part_defs split: if_splits prod.splits sum.splits option.splits)+

lemma with_auth_budget_keeps [part_intros]:
  assumes "keeps_part F m" and "\<And>n f sh c. F (update_tenant n f sh, c) = F (sh, c)"
  shows "keeps_part F (with_auth_budget o' m)"
proof (cases o')
  case (Some n)
  show ?thesis
  proof (rule keeps_partI)
    fix sh c r s'
    assume run: "with_auth_budget o' m (sh, c) = (r, s')"
    obtain res t where t: "tenant_acquire RAuth (sh_tenants sh n) = (res, t)" by fastforce
    obtain r1 sh1 c1 where m: "m (update_tenant n (\<lambda>_. t) sh, c) = (r1, sh1, c1)" by (metis prod_cases3)
    from keeps_partD [OF assms(1) m] run t m Some assms(2) show "F s' = F (sh, c)"
      by (cases res) (auto simp: with_auth_budget_def)
  qed
qed (use assms in \<open>simp add: with_auth_budget_def\<close>)

lemma fold_keeps: "(\<And>x c. F (sh, g x c) = F (sh, c)) \<Longrightarrow> F (sh, fold g xs c) = F (sh, c)"
  by (induction xs arbitrary: c) auto

lemma header_steps_part [simp]:
  "verdict (sh, set_headers to_str h c) = verdict (sh, c)" "choice_inputs (sh, set_headers to_str h c) = choice_inputs (sh, c)"
  "verdict (sh, forget_header to_str n c) = verdict (sh, c)" "choice_inputs (sh, forget_header to_str n c) = choice_inputs (sh, c)"
  "verdict (sh, learn_header to_str p c) = verdict (sh, c)" "choice_inputs (sh, learn_header to_str p c) = choice_inputs (sh, c)"
  "verdict (update_tenant n f sh, c) = verdict (sh, c)" "choice_inputs (update_tenant n f sh, c) = choice_inputs (sh, c)"
  by (simp_all add: part_defs set_headers_def forget_header_def learn_header_def edit_header_def)

lemma authorize_external_keeps:
  assumes "\<And>sh x c. F (sh, forget_header (eg_to_str e) x c) = F (sh, c)" "\<And>sh x c. F (sh, learn_header (eg_to_str e) x c) = F (sh, c)"
    and "\<And>sh a c. F (sh\<lparr>sh_auth_pools := a\<rparr>, c) = F (sh, c)"
  shows "keeps_part F (authorize_external e route x)"
  unfolding authorize_external_def
proof (intro keeps_part_bind keeps_part_modC keeps_partI)
  show "F (sh, fold (forget_header (eg_to_str e)) (ea_response_headers x) c) = F (sh, c)" for sh c
    using assms(1) by (rule fold_keeps)
qed (use assms(2,3) in \<open>auto simp: Let_def fold_keeps split: prod.splits sum.splits\<close>)

lemma auth_pools_part [simp]:
  "verdict (sh\<lparr>sh_auth_pools := a\<rparr>, c) = verdict (sh, c)" "choice_inputs (sh\<lparr>sh_auth_pools := a\<rparr>, c) = choice_inputs (sh, c)"
  by (simp_all add: part_defs)

lemma external_steps_keep [part_intros]:
  "keeps_part verdict (with_auth_budget o' (authorize_external e route x))"
  "keeps_part choice_inputs (with_auth_budget o' (authorize_external e route x))"
  by (intro with_auth_budget_keeps authorize_external_keeps; simp)+

lemma authorize_keeps [part_intros]: "keeps_part choice_inputs (authorize e headers cert route)"
  unfolding authorize_def authorize_jwt_def Let_def
  by (auto intro!: part_intros simp: part_defs split: option.split)

lemma run_script_keeps [part_intros]: "keeps_part verdict (run_script e route s)"
  unfolding run_script_def request_plugin_def apply_outcome_def
  by (auto intro!: part_intros simp: verdict_def split: option.split sum.split decision.split)

lemma dispatch_keeps [part_intros]: "keeps_part verdict (dispatch e tls route)"
  unfolding dispatch_def dispatch_action_def choose_backend_def set_backend_def
  by (auto intro!: part_intros simp: verdict_def split: option.split action.split)

lemma finish_keeps: "keeps_part verdict (finish e tls route s)"
proof -
  have "keeps_part verdict (\<lambda>(sh, c). (Inr (), sh, c\<lparr>ct_rollout_stage := (case px_rollout route of None \<Rightarrow> 0 | Some n \<Rightarrow> stage (sh_rollouts sh n))\<rparr>))"
    by (rule keeps_partI) (auto simp: verdict_def)
  then show ?thesis unfolding finish_def by (auto intro!: part_intros split: option.split)
qed

text \<open>What \<open>authorize\<close> has checked when it succeeds.\<close>

definition service_accepts :: "('n, 'p) edge \<Rightarrow> nat \<Rightarrow> bool" where
  "service_accepts e n = list_ex (\<lambda>k. is_some_and (eg_auth_reply e k) (\<lambda>(status, _). 200 \<le> status \<and> status < 300)) [0..<n]"

definition authenticated ::
  "('n, 'p) edge \<Rightarrow> (string \<times> string) list \<Rightarrow> 'p option \<Rightarrow> 'n px_route \<Rightarrow> (string, string) btree \<Rightarrow> string option \<Rightarrow> bool" where
  "authenticated e headers cert route cl tenant_permit \<longleftrightarrow>
     mtls_authorize (eg_verify_peer e) (se_mtls (st_security (rt_settings route))) cert
     \<and> (\<forall>jwt. se_jwt (st_security (rt_settings route)) = Some jwt \<longrightarrow>
          (\<exists>token. bearer_token (eg_to_str e) headers = Some token \<and> eg_verify_jwt e jwt token = Some cl))
     \<and> (\<forall>x. se_external (st_security (rt_settings route)) = Some x \<longrightarrow>
          service_accepts e 3)
     \<and> (\<forall>n. px_tenant route = Some n \<longrightarrow> tenant_permit = Some n)"

lemma acquire_tenant_Inr: "acquire_tenant_request n s = (Inr u, s') \<Longrightarrow> ct_tenant_request (snd s') = Some n"
  by (cases s) (auto simp: acquire_tenant_request_def split: prod.splits sum.splits)

lemma with_auth_budget_Inr:
  "with_auth_budget o' m s = (Inr u, s') \<Longrightarrow> \<exists>s1 s2. m s1 = (Inr u, s2)"
  by (cases o'; cases s; cases s') (auto simp: with_auth_budget_def split: prod.splits sum.splits)

lemma service_acceptsI: "eg_auth_reply e k = Some (status, reply) \<Longrightarrow> 200 \<le> status \<Longrightarrow> status < 300 \<Longrightarrow> k < n \<Longrightarrow> service_accepts e n"
  by (auto simp: service_accepts_def list_ex_iff intro!: bexI [of _ k])

lemma service_accepts_mono: "service_accepts e m \<Longrightarrow> m \<le> n \<Longrightarrow> service_accepts e n"
  by (auto simp: service_accepts_def list_ex_iff)

lemma auth_attempts_Inr: "fst (auth_attempts e x r n k pool) = Inr hs \<Longrightarrow> service_accepts e (k + n)"
proof (induction e x r n k pool rule: auth_attempts.induct)
  case (2 e x r n k pool)
  have "service_accepts e (k + Suc n)" if "eg_auth_reply e k = Some (status, reply)" "200 \<le> status" "status < 300" for status reply
    using that by (rule service_acceptsI) simp
  with 2 show ?case
    by (auto simp: Let_def split: prod.splits option.splits if_splits)
qed simp

lemma authorize_external_Inr:
  assumes "authorize_external e route x s = (Inr u, s')"
  shows "service_accepts e 3"
proof -
  from assms obtain r pool hs where "fst (external_authorize e x (px_auth_endpoints route) r pool) = Inr hs"
    by (auto simp: authorize_external_def result_simps Let_def split: prod.splits sum.splits) (metis fst_conv)
  then have "service_accepts e (0 + max 1 (min (px_auth_endpoints route) 3))"
    unfolding external_authorize_def by (rule auth_attempts_Inr)
  then show ?thesis by (rule service_accepts_mono) simp
qed

lemma authorize_Inr:
  assumes "authorize e headers cert route s = (Inr u, s')"
  shows "authenticated e headers cert route (ct_claims (snd s')) (ct_tenant_request (snd s'))"
    and "ct_route (snd s') = ct_route (snd s)" and "ct_scheme (snd s') = ct_scheme (snd s)"
proof -
  let ?sec = "st_security (rt_settings route)"
  from assms obtain s1 s2 p s3 s4 s5 q where
    mtls: "mtls_authorize (eg_verify_peer e) (se_mtls ?sec) cert"
    and s1: "whenH (px_tenant route) (\<lambda>n. bindH (acquire_tenant_request n) (\<lambda>_. check_tenant_rate e n)) s = (Inr (), s1)"
    and s2: "acquire_traffic e route True s1 = (Inr p, s2)" and s3: "keep_pre_auth (eg_now e 3) p s2 = (Inr (), s3)"
    and s4: "whenH (se_jwt ?sec) (authorize_jwt e headers) s3 = (Inr (), s4)"
    and s5: "whenH (se_external ?sec) (\<lambda>x. with_auth_budget (px_tenant route) (authorize_external e route x)) s4 = (Inr (), s5)"
    and last: "bindH (acquire_traffic e route False) (keep_traffic (eg_now e 4)) s5 = (Inr u, s')"
    by (auto simp: authorize_def Let_def result_simps)
  have "keeps_part verdict (bindH (acquire_traffic e route False) (keep_traffic (eg_now e 4)))"
    "keeps_part verdict (whenH (se_external ?sec) (\<lambda>x. with_auth_budget (px_tenant route) (authorize_external e route x)))"
    by (intro part_intros)+
  then have late: "verdict s' = verdict s4"
    using last s5 by (metis keeps_partD)
  have early: "verdict s3 = verdict s1"
    using keeps_partD [OF permit_steps_keep(6) s2] keeps_partD [OF permit_steps_keep(8) s3] by simp
  have tenant: "\<forall>n. px_tenant route = Some n \<longrightarrow> ct_tenant_request (snd s1) = Some n"
    "ct_route (snd s1) = ct_route (snd s)" "ct_scheme (snd s1) = ct_scheme (snd s)"
    using s1
    by (auto simp: whenH_def result_simps verdict_def split: option.splits prod.splits dest!: keeps_partD [OF permit_steps_keep(4)])
      (auto simp: acquire_tenant_request_def split: prod.splits sum.splits)
  have jwt: "(\<forall>jwt. se_jwt ?sec = Some jwt \<longrightarrow>
      (\<exists>token. bearer_token (eg_to_str e) headers = Some token \<and> eg_verify_jwt e jwt token = Some (ct_claims (snd s4))))"
    "ct_route (snd s4) = ct_route (snd s3)" "ct_scheme (snd s4) = ct_scheme (snd s3)" "ct_tenant_request (snd s4) = ct_tenant_request (snd s3)"
    using s4 by (auto simp: whenH_def authorize_jwt_def result_simps split: option.splits)
  have ext: "\<forall>x. se_external ?sec = Some x \<longrightarrow> service_accepts e 3"
    using s5 by (auto simp: whenH_def dest!: with_auth_budget_Inr authorize_external_Inr)
  show "authenticated e headers cert route (ct_claims (snd s')) (ct_tenant_request (snd s'))"
    and "ct_route (snd s') = ct_route (snd s)" and "ct_scheme (snd s') = ct_scheme (snd s)"
    using mtls tenant jwt ext late early by (auto simp: authenticated_def verdict_def split: prod.splits)
qed

text \<open>The backends a route may send a request to.\<close>

definition permitted :: "'n px_route \<Rightarrow> (string \<Rightarrow> state) \<Rightarrow> string \<Rightarrow> bool" where
  "permitted route rollouts b \<longleftrightarrow>
     (\<exists>name. bt_get (rt_allowed route) name = Some b)
     \<or> (\<exists>uri. route_action route = Proxy b uri)
     \<or> (\<exists>p. px_gateway route = Some p \<and> Some b \<in> fst ` set (gp_backends p))
     \<or> (\<exists>n k. px_rollout route = Some n \<and> bt_get (s_backends (rollouts n)) k = Some b)"

lemma run_script_choice:
  assumes "run_script e route s sc = (Inr None, sc')"
  shows "sh_rollouts (fst sc') = sh_rollouts (fst sc)
    \<and> (ct_backend (snd sc') = ct_backend (snd sc) \<or> (\<exists>b. ct_backend (snd sc') = Some b \<and> permitted route r b))"
proof (cases "rt_script route")
  case None
  with assms show ?thesis by (simp add: run_script_def result_simps)
next
  case (Some script)
  from assms Some obtain s1 v where s1: "acquire_plugin route sc = (Inr (), s1)" and plugin: "request_plugin e route script v s1 = (Inr None, sc')"
    by (auto simp: run_script_def result_simps)
  have hook: "keeps_part choice_inputs (if b then modC (\<lambda>c. c\<lparr>ct_execution := x\<rparr>) else release_plugin)" for b x
    by (auto intro!: part_intros simp: choice_inputs_def)
  let ?s2 = "(fst s1, snd s1\<lparr>ct_request := (ct_request (snd s1))\<lparr>rd_body := None\<rparr>\<rparr>)"
  have s2: "choice_inputs ?s2 = choice_inputs s1" by (simp add: choice_inputs_def split: prod.split)
  let ?result = "request (eg_api e) (eg_script e script) ((ct_request (snd s1))\<lparr>rd_body := v\<rparr>)"
  from plugin obtain execution out where run: "?result = Inr (execution, out)"
    by (cases ?result) (auto simp: request_plugin_def result_simps)
  let ?hook = "if cs_on_response (eg_script e script) \<noteq> None then modC (\<lambda>c. c\<lparr>ct_execution := Some execution\<rparr>) else release_plugin"
  from run have "request_plugin e route script v s1 = bindH ?hook (\<lambda>_. apply_outcome route out) ?s2"
    by (simp add: request_plugin_def bindH_def [of "getC _"] bindH_def [of "modC _"] getC_def modC_def [of "\<lambda>c. c\<lparr>ct_request := _ c\<rparr>"])
  with plugin obtain s3 where s3: "?hook ?s2 = (Inr (), s3)" and out: "apply_outcome route out s3 = (Inr None, sc')"
    by (auto simp only: bindH_Inr)
  have same: "choice_inputs s3 = choice_inputs sc"
    using keeps_partD [OF hook s3] s2 keeps_partD [OF acquire_plugin_keeps(1) s1] by simp
  from out show ?thesis
    using same
    by (cases s3; cases sc; cases "oc_decision out")
      (auto simp: apply_outcome_def result_simps choice_inputs_def permitted_def split: option.splits)
qed

lemma rollout_target:
  "select ok sha r st = (Some b, st') \<Longrightarrow> \<exists>k. bt_get (s_backends st) k = Some b"
  "enforce st x = Some b \<Longrightarrow> b = x \<or> (\<exists>k. bt_get (s_backends st) k = Some b)"
  by (auto simp: select_def select_at_def enforce_def fallback_backend_def bind_eq_Some_conv split: if_splits option.splits list.splits)

lemma gateway_target: "gateway_select rng p = Some b \<Longrightarrow> Some b \<in> fst ` set (gp_backends p)"
proof -
  have "backend_loop bs n = Some b \<Longrightarrow> Some b \<in> fst ` set bs" for bs n
    by (induction bs n rule: backend_loop.induct) (auto split: if_splits)
  then show "gateway_select rng p = Some b \<Longrightarrow> Some b \<in> fst ` set (gp_backends p)"
    by (auto simp: gateway_select_def gateway_select_at_def Let_def split: if_splits)
qed

lemma choose_backend_target:
  assumes "choose_backend e route x msg s = (Inr u, s')" and "\<And>b. x = Some b \<Longrightarrow> permitted route (sh_rollouts (fst s)) b"
  shows "\<exists>b. ct_backend (snd s') = Some b \<and> permitted route (sh_rollouts (fst s)) b"
proof (cases "px_rollout route")
  case None
  with assms show ?thesis by (cases x) (auto simp: choose_backend_def set_backend_def result_simps)
next
  case (Some n)
  with assms(1) obtain b s1 where b: "rollout_select e n s = (Inr b, s1)" "ct_backend (snd s') = Some b"
    by (auto simp: choose_backend_def set_backend_def result_simps)
  then have "\<exists>k. bt_get (s_backends (sh_rollouts (fst s) n)) k = Some b"
    by (cases s) (auto simp: rollout_select_def result_simps split: prod.splits dest: rollout_target(1))
  with b(2) Some show ?thesis by (auto simp: permitted_def)
qed

lemma dispatch_target:
  assumes "dispatch e tls route s = (Inr DProxy, s')"
    and "\<And>b. ct_backend (snd s) = Some b \<Longrightarrow> permitted route (sh_rollouts (fst s)) b"
  shows "\<exists>b. ct_backend (snd s') = Some b \<and> permitted route (sh_rollouts (fst s)) b"
proof (cases "ct_backend (snd s)")
  case (Some b)
  show ?thesis
  proof (cases "px_rollout route")
    case None
    with Some assms show ?thesis by (auto simp: dispatch_def result_simps)
  next
    case (Some n)
    with assms \<open>ct_backend (snd s) = Some b\<close> obtain b' where "enforce (sh_rollouts (fst s) n) b = Some b'" "ct_backend (snd s') = Some b'"
      by (auto simp: dispatch_def set_backend_def result_simps)
    with rollout_target(2) [OF this(1)] assms(2) [OF \<open>ct_backend (snd s) = Some b\<close>] Some show ?thesis by (auto simp: permitted_def)
  qed
next
  case None
  show ?thesis
  proof (cases "px_gateway route")
    case (Some p)
    with None assms(1) obtain msg u where "choose_backend e route (gateway_select (eg_gen_range e) p) msg s = (Inr u, s')"
      by (auto simp: dispatch_def result_simps split: option.splits)
    then show ?thesis by (rule choose_backend_target) (use Some in \<open>auto simp: permitted_def dest: gateway_target\<close>)
  next
    case None
    with \<open>ct_backend (snd s) = None\<close> assms(1) have act: "dispatch_action e route s = (Inr DProxy, s')"
      by (simp add: dispatch_def result_simps)
    then obtain b uri u s1 where b: "route_action route = Proxy b uri" "choose_backend e route (Some b) [] s = (Inr u, s1)"
      "ct_backend (snd s') = ct_backend (snd s1)"
      by (auto simp: dispatch_action_def result_simps split: action.splits if_splits)
    from choose_backend_target [OF b(2)] b(1,3) show ?thesis by (auto simp: permitted_def)
  qed
qed

lemma finish_target:
  assumes "finish e tls route s sc = (Inr Forward, sc')" and "ct_backend (snd sc) = None"
  shows "\<exists>b. ct_backend (snd sc') = Some b \<and> permitted route (sh_rollouts (fst sc)) b"
    and "0 < st_max_body (rt_settings route) \<Longrightarrow> is_none_or (declared_length e s) (\<lambda>n. n \<le> st_max_body (rt_settings route))"
proof -
  obtain sh c where sc: "sc = (sh, c)" by (cases sc)
  let ?s1 = "(sh, c\<lparr>ct_rollout_stage := (case px_rollout route of None \<Rightarrow> 0 | Some n \<Rightarrow> stage (sh_rollouts sh n))\<rparr>)"
  from assms(1) obtain x s2 where x: "run_script e route s ?s1 = (Inr x, s2)"
    and rest: "(case x of Some (status, body) \<Rightarrow> returnH (Answered status body None)
      | None \<Rightarrow> bindH (dispatch e tls route) (\<lambda>d.
         returnH (case d of DProxy \<Rightarrow> Forward | DReply status body target \<Rightarrow> Answered status body target | DStatic \<Rightarrow> ServeFile))) s2 = (Inr Forward, sc')"
    and len: "\<not> (0 < st_max_body (rt_settings route) \<and> is_some_and (declared_length e s) (\<lambda>n. st_max_body (rt_settings route) < n))"
    unfolding finish_def bindH_Inr step_Inr sc by simp blast
  from rest have none: "x = None" by (cases x) (auto simp: result_simps)
  with rest obtain d where d: "dispatch e tls route s2 = (Inr d, sc')"
    and "(case d of DProxy \<Rightarrow> Forward | DReply status body target \<Rightarrow> Answered status body target | DStatic \<Rightarrow> ServeFile) = Forward"
    by (auto simp: result_simps)
  then have "d = DProxy" by (cases d) simp_all
  have s1: "fst ?s1 = fst sc" "ct_backend (snd ?s1) = ct_backend (snd sc)" by (simp_all add: sc)
  note s2 = x [unfolded none]
  note script = run_script_choice [OF s2, of "sh_rollouts (fst s2)"]
  show "\<exists>b. ct_backend (snd sc') = Some b \<and> permitted route (sh_rollouts (fst sc)) b"
    using dispatch_target [OF d [unfolded \<open>d = DProxy\<close>]] script s1 assms(2) by auto
  show "is_none_or (declared_length e s) (\<lambda>n. n \<le> st_max_body (rt_settings route))" if "0 < st_max_body (rt_settings route)"
    using len that by (cases "declared_length e s") auto
qed

lemma request_filter_keeps [part_intros]:
  "keeps_part choice_inputs (identify e tls route s)" "keeps_part choice_inputs (read_request e lk s)"
  unfolding identify_def read_request_def Let_def
  by (auto intro!: part_intros simp: set_headers_def choice_inputs_def)

lemma identify_Inr:
  assumes "identify e tls route s sc = (Inr u, sc')"
  shows "ct_route (snd sc') = ct_route (snd sc)"
    and "parse_ip_addr (ss_peer s) = None \<Longrightarrow> ct_scheme (snd sc') = ct_scheme (snd sc)"
    and "parse_ip_addr (ss_peer s) = Some peer \<Longrightarrow>
      ct_scheme (snd sc') = identity_scheme (eg_net_contains e) (eg_to_str e) (st_identity (rt_settings route)) peer (ss_headers s) tls
      \<and> allows (eg_net_contains e) (st_identity (rt_settings route))
          (identity_resolve (eg_net_contains e) (eg_to_str e) (st_identity (rt_settings route)) peer (ss_headers s) (ss_proxy_address s))"
  using assms by (auto simp: identify_def whenH_def result_simps Let_def split: option.splits)

lemma serve_route_Forward:
  assumes "serve_route e tls route redirect s sc = (Inr Forward, sc')"
  obtains s1 s2 u where "\<not> redirect" "identify e tls route s (fst sc, (snd sc)\<lparr>ct_route := Some route\<rparr>) = (Inr (), s1)"
    "ct_scheme (snd s1) = ''https'' \<or> st_https_redirect_port (rt_settings route) = None"
    "authorize e (ss_headers s) (ss_certificate s) route s1 = (Inr u, s2)" "finish e tls route s s2 = (Inr Forward, sc')"
  using assms by (auto simp: serve_route_def result_simps split: if_splits)

lemma entry_status_Inr [simp]: "entry_status r = Inr x \<longleftrightarrow> r = Inr x"
  by (cases r) (simp_all add: entry_status_def)

lemma acquire_request_Inr:
  "acquire_request sc = (Inr u, sc') \<Longrightarrow>
    sh_rollouts (fst sc') = sh_rollouts (fst sc) \<and> ct_backend (snd sc') = ct_backend (snd sc) \<and> ct_scheme (snd sc') = ct_scheme (snd sc)
    \<and> ct_request (snd sc') = ct_request (snd sc) \<and> ct_edits (snd sc') = ct_edits (snd sc) \<and> sh_backends (fst sc') = sh_backends (fst sc)"
  by (cases sc) (auto simp: acquire_request_def split: if_splits)

lemma read_request_Inr:
  assumes "read_request e lk s sc = (Inr u, sc')"
  shows "normalized_path (eg_percent_decode e) (ss_path s) = Inr (rd_path (ct_request (snd sc')))"
    and "request_host (eg_to_str e) (eg_authority_host e) (ss_headers s) (ss_scheme s) (ss_authority s) (ss_http11 s) = Inr (rd_host (ct_request (snd sc')))"
    and "fst sc' = fst sc" "ct_backend (snd sc') = ct_backend (snd sc)" "ct_scheme (snd sc') = ct_scheme (snd sc)"
    "ct_edits (snd sc') = ct_edits (snd sc)"
  using assms by (auto simp: read_request_def set_headers_def result_simps)

lemma normalized_path_clean: "normalized_path decode p = Inr q \<Longrightarrow> clean_path q"
  by (auto simp: normalized_path_def clean_path_def [of q] result_simps Let_def dest!: normalize_decoded_path_sound [unfolded clean_path_def] split: if_splits)

lemma request_filter_Forward:
  fixes e :: "('n, 'p) edge"
  assumes "request_filter e lk tls s (sh, new_ctx tls) = (Inr Forward, sc')"
  obtains s1 route where "lk_request lk (ct_request (snd s1)) = Some route" "serve_route e tls route False s s1 = (Inr Forward, sc')"
    "normalized_path (eg_percent_decode e) (ss_path s) = Inr (rd_path (ct_request (snd s1)))"
    "request_host (eg_to_str e) (eg_authority_host e) (ss_headers s) (ss_scheme s) (ss_authority s) (ss_http11 s) = Inr (rd_host (ct_request (snd s1)))"
    "sh_rollouts (fst s1) = sh_rollouts sh" "ct_backend (snd s1) = None" "ct_scheme (snd s1) = (if tls then ''https'' else ''http'')"
    "ed_headers (ct_edits (snd s1)) = []" "sh_backends (fst s1) = sh_backends sh"
proof -
  let ?c0 = "(new_ctx tls :: 'n request_ctx)\<lparr>ct_original_uri := (case ss_path_and_query s of Some p \<Rightarrow> p | None \<Rightarrow> ''/''),
    ct_request := (ct_request (new_ctx tls :: 'n request_ctx))\<lparr>rd_method := ss_method s, rd_remote_addr := ss_peer s\<rparr>\<rparr>"
  from assms obtain s0 s1 route where s0: "acquire_request (sh, ?c0) = (Inr (), s0)" and s1: "read_request e lk s s0 = (Inr (), s1)"
    and route: "lk_request lk (ct_request (snd s1)) = Some route" and run: "(case slash_route lk (ct_request (snd s1)) route of
            Some w \<Rightarrow> serve_route e tls w True s
          | None \<Rightarrow> serve_route e tls route False s) s1 = (Inr Forward, sc')"
    by (auto simp: request_filter_def result_simps split: option.splits)
  then have "serve_route e tls route False s s1 = (Inr Forward, sc')"
    by (auto split: option.splits elim: serve_route_Forward)
  with route read_request_Inr [OF s1] acquire_request_Inr [OF s0] show thesis
    by (intro that [of s1 route]) (simp_all add: new_ctx_def)
qed

text \<open>The scheme the request arrived with: the listener's, or that of a trusted forwarding proxy.\<close>

definition arrival_scheme :: "('n, 'p) edge \<Rightarrow> bool \<Rightarrow> 'n px_route \<Rightarrow> 'p session \<Rightarrow> string" where
  "arrival_scheme e tls route s =
     (case parse_ip_addr (ss_peer s) of
        None \<Rightarrow> if tls then ''https'' else ''http''
      | Some peer \<Rightarrow> identity_scheme (eg_net_contains e) (eg_to_str e) (st_identity (rt_settings route)) peer (ss_headers s) tls)"

text \<open>The address the request is from, as far as the transport knows one, may use the route.\<close>

definition client_allowed :: "('n, 'p) edge \<Rightarrow> 'n px_route \<Rightarrow> 'p session \<Rightarrow> bool" where
  "client_allowed e route s =
     is_none_or (parse_ip_addr (ss_peer s)) (\<lambda>peer. allows (eg_net_contains e) (st_identity (rt_settings route))
       (identity_resolve (eg_net_contains e) (eg_to_str e) (st_identity (rt_settings route)) peer (ss_headers s) (ss_proxy_address s)))"


lemmas example_defs = example_edge_def example_lookups_def example_session_def example_px_route_def example_shared_def

lemma example_entry:
  "normalized_path (eg_percent_decode example_edge) (ss_path example_session) = Inr ''/a''"
  "request_host (eg_to_str example_edge) (eg_authority_host example_edge) (ss_headers example_session) (ss_scheme example_session)
    (ss_authority example_session) (ss_http11 example_session) = Inr ''x''"
  "validate_connection_header (eg_to_str example_edge) (ss_headers example_session) = Inr ()"
  by (simp_all add: example_edge_def example_session_def normalized_path_def result_simps; code_simp)+

lemma example_bearer: "bearer_token Some [(''host'', ''x''), (''authorization'', ''Bearer t1'')] = Some ''t1''"
  by code_simp

lemma example_length: "declared_length example_edge example_session = None"
  by code_simp

lemma example_tenant:
  "\<exists>t. tenant_rate (\<lambda>p. p) (\<lambda>_. ''{}'') (\<lambda>x. x) 0 r (new_tenant n default_quota\<lparr>te_active := a\<rparr>) = (Inr (), t)"
  by (simp add: tenant_rate_def acquire_def namespace_policy_def new_tenant_def default_quota_def default_limiter_def check_concurrency_def
      check_rate_def refill_def as_secs_f64_def duration_since_def bt_or_insert_def bt_get_insert sweep_def Let_def)

lemma example_identify:
  "\<exists>c'. identify example_edge True example_px_route example_session (sh, c) = (Inr (), sh, c')
    \<and> ct_route c' = ct_route c \<and> ct_backend c' = ct_backend c \<and> ct_tenant_request c' = ct_tenant_request c
    \<and> (ct_scheme c = ''https'' \<longrightarrow> ct_scheme c' = ''https'')"
  by (cases "parse_ip_addr (ss_peer example_session)")
    (auto simp: identify_def whenH_def bindH_def modC_def ensureH_def returnH_def Let_def example_px_route_def default_settings_def default_identity_def
      allows_def identity_scheme_def trusts_def is_none_or_def)

lemmas step_run = whenH_def bindH_def modC_def getC_def ensureH_def failH_def returnH_def liftH_def

lemma whenH_simps [simp]: "whenH (Some x) f = f x" "whenH None f = returnH ()"
  by (simp_all add: whenH_def)

lemma example_quota:
  assumes "ct_tenant_request c = None"
  shows "\<exists>sh' c'. whenH (px_tenant example_px_route) (\<lambda>n. bindH (acquire_tenant_request n) (\<lambda>_. check_tenant_rate example_edge n))
    (example_shared\<lparr>sh_requests := k\<rparr>, c) = (Inr (), sh', c') \<and> ct_backend c' = ct_backend c"
proof -
  obtain t where "tenant_rate (\<lambda>p. p) (\<lambda>_. ''{}'') (\<lambda>x. x) 0 (ct_request c) (new_tenant ''team'' default_quota\<lparr>te_active := [1, 0, 0, 0]\<rparr>) = (Inr (), t)"
    using example_tenant by blast
  with assms show ?thesis
    by (simp add: step_run acquire_tenant_request_def check_tenant_rate_def example_px_route_def example_shared_def update_tenant_def
        drop_tenant_def tenant_acquire_def new_tenant_def default_quota_def example_edge_def)
qed

lemma example_traffic: "acquire_traffic example_edge example_px_route b (sh, c) = (Inr None, set_limiter (Some ''team'') (limiter_of sh (Some ''team'')) sh, c)"
  by (simp add: acquire_traffic_def acquire_def policy_phase_def example_px_route_def default_settings_def filter_option_def Let_def)

lemma example_authorize:
  assumes "ct_tenant_request c = None"
  shows "\<exists>sh' c'. authorize example_edge (ss_headers example_session) (ss_certificate example_session) example_px_route
      (example_shared\<lparr>sh_requests := k\<rparr>, c) = (Inr (), sh', c')
    \<and> ct_claims c' = [(''sub'', ''u1'')] \<and> ct_backend c' = ct_backend c"
proof -
  obtain sh1 c1 where quota: "whenH (px_tenant example_px_route) (\<lambda>n. bindH (acquire_tenant_request n) (\<lambda>_. check_tenant_rate example_edge n))
      (example_shared\<lparr>sh_requests := k\<rparr>, c) = (Inr (), sh1, c1)" "ct_backend c1 = ct_backend c"
    using example_quota [OF assms] by blast
  have sec: "st_security (rt_settings example_px_route) = default_security\<lparr>se_jwt :=
      Some (\<lparr>js_source = ''k'', js_issuer = ''i'', js_audience = ''a'', js_algorithm = ''RS256''\<rparr>, ''keys'')\<rparr>"
    by (simp add: example_px_route_def)
  have jwt: "authorize_jwt example_edge (ss_headers example_session) j (sh, d) =
      (Inr (), sh, d\<lparr>ct_claims := [(''sub'', ''u1'')], ct_request := (ct_request d)\<lparr>rd_claims := [(''sub'', ''u1'')]\<rparr>\<rparr>)" for j sh and d :: "nat request_ctx"
    using example_bearer by (simp add: authorize_jwt_def example_edge_def example_session_def modC_def)
  show ?thesis
    unfolding authorize_def Let_def sec
    using quota(2)
    by (simp add: bindH_def quota(1) example_traffic keep_pre_auth_def keep_traffic_def ensureH_def returnH_def mtls_authorize_def default_security_def
        jwt)
qed

lemma example_finish:
  assumes "ct_backend c = None"
  shows "\<exists>sh' c'. finish example_edge True example_px_route example_session (sh, c) = (Inr Forward, sh', c')
    \<and> ct_claims c' = ct_claims c \<and> ct_backend c' = Some ''app''"
  using assms
  by (simp add: finish_def step_run example_length is_some_and_def example_px_route_def run_script_def dispatch_def dispatch_action_def
      choose_backend_def set_backend_def)

lemma example_run:
  "\<exists>sh' c'. request_filter example_edge example_lookups True example_session (example_shared, new_ctx True) = (Inr Forward, sh', c')
    \<and> ct_claims c' = [(''sub'', ''u1'')] \<and> ct_backend c' = Some ''app''"
proof -
  let ?filter = "request_filter example_edge example_lookups True example_session (example_shared, new_ctx True)"
  have no_slash: "slash_route example_lookups r example_px_route = None" for r by (simp add: slash_route_def example_lookups_def)
  have "\<exists>c0 :: nat request_ctx. ?filter = serve_route example_edge True example_px_route False example_session (example_shared\<lparr>sh_requests := Suc 0\<rparr>, c0)
    \<and> ct_scheme c0 = ''https'' \<and> ct_tenant_request c0 = None \<and> ct_backend c0 = None"
    by (simp add: request_filter_def step_run acquire_request_def read_request_def example_entry entry_status_def new_ctx_def example_lookups_def
        example_shared_def no_slash [unfolded example_lookups_def] set_headers_def) (rule exI, rule conjI, rule refl, simp)
  then obtain c0 :: "nat request_ctx" where c0: "?filter = serve_route example_edge True example_px_route False example_session (example_shared\<lparr>sh_requests := Suc 0\<rparr>, c0)"
    "ct_scheme c0 = ''https''" "ct_tenant_request c0 = None" "ct_backend c0 = None" by blast
  obtain c1 where c1: "identify example_edge True example_px_route example_session
      (example_shared\<lparr>sh_requests := Suc 0\<rparr>, c0\<lparr>ct_route := Some example_px_route\<rparr>) = (Inr (), example_shared\<lparr>sh_requests := Suc 0\<rparr>, c1)"
    "ct_scheme c1 = ''https''" "ct_tenant_request c1 = None" "ct_backend c1 = None"
    using example_identify [of "example_shared\<lparr>sh_requests := Suc 0\<rparr>" "c0\<lparr>ct_route := Some example_px_route\<rparr>"] c0 by auto
  obtain sh2 c2 where c2: "authorize example_edge (ss_headers example_session) (ss_certificate example_session) example_px_route
      (example_shared\<lparr>sh_requests := Suc 0\<rparr>, c1) = (Inr (), sh2, c2)" "ct_claims c2 = [(''sub'', ''u1'')]" "ct_backend c2 = None"
    using example_authorize [OF c1(3)] c1(4) by metis
  show ?thesis
    using example_finish [OF c2(3), of sh2] c2(2) unfolding c0(1) serve_route_def
    by (simp add: bindH_def modC_def getC_def c1 c2)
qed


end
