(* ===== verification/Proxy_Upstream.thy ===== *)
theory Proxy_Upstream
  imports Proxy_Guards Config_Correct
begin

text \<open>
  The request that goes to a backend: \<open>select_endpoint\<close> and \<open>upstream_headers\<close> of \<open>src/src/proxy/policy.rs\<close>, and the
  lookups of a snapshot that \<open>Config_Load\<close> has built. A header that cannot be inserted fails the request with 500, the status that
  \<open>fail_to_proxy\<close> gives such an error. Trace headers are left out, as all tracing is.
\<close>

section \<open>The endpoint\<close>

definition sticky_value :: "string \<Rightarrow> request_data \<Rightarrow> string option" where
  "sticky_value name r =
     Option.bind (rd_header r ''cookie'') (\<lambda>v.
       map_option snd (find (\<lambda>(k, x). k = name \<and> length x = 32 \<and> list_all is_ascii_hexdigit x)
         (List.map_filter (\<lambda>p. split_once CHR ''='' (trim p)) (split_on CHR '';'' v))))"

definition affinity_key :: "('n, 'p) edge \<Rightarrow> balance \<Rightarrow> 'n request_ctx \<Rightarrow> string \<times> 'n request_ctx" where
  "affinity_key e balance c =
     (case balance of
        Hash key \<Rightarrow> (key_value key (ct_request c) (ct_claims c), c)
      | Sticky name \<Rightarrow>
          (case sticky_value name (ct_request c) of
             Some v \<Rightarrow> (v, c)
           | None \<Rightarrow>
               (eg_random_hex e,
                c\<lparr>ct_affinity_cookie := Some (name @ ''='' @ eg_random_hex e @ ''; Path=/; Max-Age=86400; HttpOnly; SameSite=Lax'' @
                  (if ct_scheme c = ''https'' then ''; Secure'' else []))\<rparr>))
      | _ \<Rightarrow> ([], c))"

definition select_endpoint :: "('n, 'p) edge \<Rightarrow> ('n, socket_addr) step" where
  "select_endpoint e =
     (\<lambda>(sh, c).
        case Option.bind (ct_backend c) (\<lambda>name. map_option (Pair name) (bt_get (sh_backends sh) name)) of
          None \<Rightarrow> (Inl (HttpError 503 ''backend unavailable''), sh, c)
        | Some (name, b) \<Rightarrow>
            (case affinity_key e (op_balance (bk_options b)) c of
               (key, c1) \<Rightarrow>
                 (case backend_select (eg_is_ip e) (eg_sha256 e) (eg_ln e) (eg_round e) (eg_now e 30) key b of
                    (None, b1) \<Rightarrow>
                      (Inl (HttpError 503 ''no ready endpoint or backend budget exhausted''), sh\<lparr>sh_backends := bt_insert name b1 (sh_backends sh)\<rparr>, c1)
                  | (Some l, b1) \<Rightarrow>
                      (Inr (le_address l), drop_lease (ct_lease c) (sh\<lparr>sh_backends := bt_insert name b1 (sh_backends sh)\<rparr>),
                       c1\<lparr>ct_lease := Some (name, l)\<rparr>))))"

section \<open>The headers\<close>

record outbound =
  ob_target :: string
  ob_absolute :: bool
  ob_headers :: "(string \<times> string) list"

definition put_value :: "('n, 'p) edge \<Rightarrow> string \<Rightarrow> string \<Rightarrow> (string \<times> string) list \<Rightarrow> (http_error, (string \<times> string) list) result" where
  "put_value e name v hs = bindR (ensure (eg_value_ok e v) (HttpError 500 ''invalid header'')) (\<lambda>_. Inr (insert_header name v hs))"

definition put_header :: "('n, 'p) edge \<Rightarrow> string \<Rightarrow> string \<Rightarrow> (string \<times> string) list \<Rightarrow> (http_error, (string \<times> string) list) result" where
  "put_header e name v hs = bindR (ensure (eg_name_ok e name) (HttpError 500 ''invalid header'')) (\<lambda>_. put_value e name v hs)"

fun put_all :: "('n, 'p) edge \<Rightarrow> gw_header list \<Rightarrow> (string \<times> string) list \<Rightarrow> (http_error, (string \<times> string) list) result" where
  "put_all e [] hs = Inr hs"
| "put_all e (h # rest) hs = bindR (put_header e (hd_name h) (hd_value h) hs) (put_all e rest)"

fun append_all :: "('n, 'p) edge \<Rightarrow> gw_header list \<Rightarrow> (string \<times> string) list \<Rightarrow> (http_error, (string \<times> string) list) result" where
  "append_all e [] hs = Inr hs"
| "append_all e (h # rest) hs =
     bindR (ensure (eg_name_ok e (hd_name h) \<and> eg_value_ok e (hd_value h)) (HttpError 500 ''invalid header'')) (\<lambda>_.
     append_all e rest (append_header (hd_name h) (hd_value h) hs))"

definition gateway_headers :: "('n, 'p) edge \<Rightarrow> gw_headers \<Rightarrow> (string \<times> string) list \<Rightarrow> (http_error, (string \<times> string) list) result" where
  "gateway_headers e h hs = bindR (put_all e (hs_set h) (fold remove_header (hs_remove h) hs)) (append_all e (hs_add h))"

fun put_request_headers ::
  "('n, 'p) edge \<Rightarrow> variables \<Rightarrow> string \<Rightarrow> (string \<times> string) list \<Rightarrow> (string \<times> string) list \<Rightarrow> (http_error, (string \<times> string) list) result" where
  "put_request_headers e vars proxy_host [] hs = Inr hs"
| "put_request_headers e vars proxy_host ((name, t) # rest) hs =
     (let v = Request_Entry.expand vars proxy_host t in
      if v = [] then put_request_headers e vars proxy_host rest (remove_header name hs)
      else bindR (put_header e name v hs) (put_request_headers e vars proxy_host rest))"

fun put_edits :: "('n, 'p) edge \<Rightarrow> (string, string option) btree \<Rightarrow> (string \<times> string) list \<Rightarrow> (http_error, (string \<times> string) list) result" where
  "put_edits e [] hs = Inr hs"
| "put_edits e ((name, v) # rest) hs =
     (case v of
        Some x \<Rightarrow> bindR (put_header e name x hs) (put_edits e rest)
      | None \<Rightarrow> put_edits e rest (remove_header name hs))"

definition rewritten_edits :: "'n px_route \<Rightarrow> 'n request_ctx \<Rightarrow> edits" where
  "rewritten_edits route c =
     (case (ed_path (ct_edits c), Option.bind (Option.bind (px_gateway route) gp_rewrite) rw_path) of
        (None, Some m) \<Rightarrow> (ct_edits c)\<lparr>ed_path := Some (path_modifier_apply m (rd_path (ct_request c)) (route_matcher route))\<rparr>
      | _ \<Rightarrow> ct_edits c)"

definition upstream_target :: "('n, 'p) edge \<Rightarrow> 'n px_route \<Rightarrow> 'n request_ctx \<Rightarrow> outbound \<Rightarrow> (http_error, string) result" where
  "upstream_target e route c req =
     (let edits = rewritten_edits route c in
      if ed_path edits \<noteq> None \<or> ed_query edits \<noteq> None \<or> ct_uri c \<noteq> None \<or> ob_absolute req then
        (let target = outbound_uri (eg_percent_encode e) (ct_original_uri c) (ct_request c) edits (route_matcher route) (ct_uri c) in
         bindR (ensure (eg_uri_ok e target) (HttpError 500 ''invalid rewritten URI'')) (\<lambda>_. Inr target))
      else Inr (ob_target req))"

definition upstream_host :: "('n, 'p) edge \<Rightarrow> 'n px_route \<Rightarrow> backend \<Rightarrow> request_data \<Rightarrow> (string \<times> string) list \<Rightarrow> (http_error, (string \<times> string) list) result" where
  "upstream_host e route b r hs =
     (case px_gateway route of
        Some p \<Rightarrow>
          bindR (put_value e ''Host''
            (case Option.bind (gp_rewrite p) rw_hostname of
               Some h \<Rightarrow> h
             | None \<Rightarrow> (case rd_header r ''host'' of Some h \<Rightarrow> h | None \<Rightarrow> rd_host r)) hs) (gateway_headers e (gp_request_headers p))
      | None \<Rightarrow> put_value e ''Host'' (bk_host_header b) hs)"

definition keep_trailers :: "request_data \<Rightarrow> (string \<times> string) list \<Rightarrow> (string \<times> string) list" where
  "keep_trailers r hs =
     (if is_some_and (rd_header r ''te'') (\<lambda>v. list_ex (\<lambda>x. eq_ignore_ascii_case (trim x) ''trailers'') (split_on CHR '','' v))
      then insert_header ''TE'' ''trailers'' hs else hs)"

definition keep_upgrade :: "request_data \<Rightarrow> (string \<times> string) list \<Rightarrow> (string \<times> string) list" where
  "keep_upgrade r hs =
     (if is_some_and (rd_header r ''upgrade'') (\<lambda>v. eq_ignore_ascii_case v ''websocket'')
      then insert_header ''Connection'' ''upgrade'' (insert_header ''Upgrade'' ''websocket'' hs) else hs)"

definition upstream_headers :: "('n, 'p) edge \<Rightarrow> shared \<times> 'n request_ctx \<Rightarrow> outbound \<Rightarrow> (http_error, string \<times> (string \<times> string) list) result" where
  "upstream_headers e s req =
     (case s of (sh, c) \<Rightarrow>
        (case (Option.bind (ct_backend c) (bt_get (sh_backends sh)), ct_route c) of
           (Some b, Some route) \<Rightarrow>
             bindR (upstream_target e route c req) (\<lambda>target.
             bindR (upstream_host e route b (ct_request c) (keep_trailers (ct_request c) (strip_hop_headers (eg_to_str e) (ob_headers req)))) (\<lambda>hs1.
             bindR (put_request_headers e (ctx_variables c) (bk_host_header b) (st_request_headers (rt_settings route)) hs1) (\<lambda>hs2.
             bindR (put_edits e (ed_headers (ct_edits c)) hs2) (\<lambda>hs3.
             Inr (target, keep_upgrade (ct_request c) hs3)))))
         | _ \<Rightarrow> Inl Panicked))"

section \<open>Values of the fields\<close>

text \<open>The filter of a Gateway rule does to the list of fields what \<open>headers_apply\<close> does to the values of each name.\<close>

definition field_values :: "(string \<times> string) list \<Rightarrow> header_map" where
  "field_values hs k = map snd (filter (\<lambda>f. fst f = k) hs)"

lemma field_values_update [simp]:
  "field_values (remove_header n hs) = (field_values hs)(to_ascii_lowercase n := [])"
  "field_values (insert_header n v hs) = (field_values hs)(to_ascii_lowercase n := [v])"
  "field_values (append_header n v hs) = (field_values hs)(to_ascii_lowercase n := field_values hs (to_ascii_lowercase n) @ [v])"
proof -
  show remove: "field_values (remove_header n hs) = (field_values hs)(to_ascii_lowercase n := [])" for hs
    by (auto simp: field_values_def remove_header_def fun_eq_iff intro!: arg_cong [where f = "map snd"] filter_cong)
  show "field_values (insert_header n v hs) = (field_values hs)(to_ascii_lowercase n := [v])"
  proof (induction hs)
    case (Cons f hs)
    have "field_values (g # xs) k = (if fst g = k then snd g # field_values xs k else field_values xs k)" for g xs k
      by (simp add: field_values_def)
    with Cons remove show ?case by (auto simp: fun_eq_iff)
  qed (auto simp: field_values_def fun_eq_iff)
qed (auto simp: field_values_def append_header_def fun_eq_iff)

lemma get_all_values: "get_all hs k = field_values hs (to_ascii_lowercase k)"
  by (simp add: get_all_def field_values_def)

lemma put_all_values:
  "put_all e es hs = Inr hs' \<Longrightarrow> field_values hs' = fold (\<lambda>h m. m(to_ascii_lowercase (hd_name h) := [hd_value h])) es (field_values hs)"
  by (induction es arbitrary: hs) (auto simp: put_header_def put_value_def result_simps)

lemma append_all_values:
  "append_all e es hs = Inr hs' \<Longrightarrow> field_values hs' =
    fold (\<lambda>h m. m(to_ascii_lowercase (hd_name h) := m (to_ascii_lowercase (hd_name h)) @ [hd_value h])) es (field_values hs)"
  by (induction es arbitrary: hs) (auto simp: result_simps)

lemma remove_all_values:
  "field_values (fold remove_header ns hs) = fold (\<lambda>n m. m(to_ascii_lowercase n := [])) ns (field_values hs)"
  by (induction ns arbitrary: hs) auto

lemma gateway_headers_refines: "gateway_headers e h hs = Inr hs' \<Longrightarrow> field_values hs' = headers_apply h (field_values hs)"
  by (auto simp: gateway_headers_def headers_apply_def result_simps remove_all_values dest!: put_all_values append_all_values)

text \<open>The edits come last: each name they mention has the value they give it, whatever the fields were.\<close>

lemma put_edits_values:
  assumes "put_edits e es hs = Inr hs'" and "distinct (map fst es)" and "list_all (\<lambda>(k, _). to_ascii_lowercase k = k) es"
  shows "field_values hs' h = (case map_of es h of None \<Rightarrow> field_values hs h | Some None \<Rightarrow> [] | Some (Some v) \<Rightarrow> [v])"
  using assms
proof (induction es arbitrary: hs)
  case (Cons x es)
  obtain k v where x: "x = (k, v)" by (cases x)
  have low: "to_ascii_lowercase k = k" and fresh: "map_of es k = None" using Cons.prems by (auto simp: x map_of_eq_None_iff)
  from Cons.prems obtain hs1 where hs1: "put_edits e es hs1 = Inr hs'"
    "field_values hs1 = (field_values hs)(k := (case v of None \<Rightarrow> [] | Some y \<Rightarrow> [y]))"
    by (auto simp: x low put_header_def put_value_def result_simps split: option.splits)
  then show ?case using Cons.IH [OF hs1(1)] Cons.prems fresh by (auto simp: x split: option.split)
qed simp

lemma keep_upgrade_values: "k \<noteq> ''upgrade'' \<Longrightarrow> k \<noteq> ''connection'' \<Longrightarrow> field_values (keep_upgrade r hs) k = field_values hs k"
proof -
  have "to_ascii_lowercase ''Connection'' = ''connection''" "to_ascii_lowercase ''Upgrade'' = ''upgrade''" by code_simp+
  then show "k \<noteq> ''upgrade'' \<Longrightarrow> k \<noteq> ''connection'' \<Longrightarrow> field_values (keep_upgrade r hs) k = field_values hs k"
    by (simp add: keep_upgrade_def)
qed

lemma upstream_edits_win:
  assumes "upstream_headers e (sh, c) req = Inr (target, hs)" and "bt_sorted (ed_headers (ct_edits c))"
    and "list_all (\<lambda>(k, _). to_ascii_lowercase k = k) (ed_headers (ct_edits c))"
    and "bt_get (ed_headers (ct_edits c)) k = Some v" and "starts_with k ''x-''"
  shows "get_all hs k = (case v of None \<Rightarrow> [] | Some y \<Rightarrow> [y])"
proof -
  from assms(1) obtain hs2 hs3 where edits: "put_edits e (ed_headers (ct_edits c)) hs2 = Inr hs3" and hs: "hs = keep_upgrade (ct_request c) hs3"
    by (auto simp: upstream_headers_def result_simps split: option.splits)
  have dist: "distinct (map fst (ed_headers (ct_edits c)))" using bt_sorted_distinct [OF assms(2)] by (simp add: bt_keys_def)
  have low: "to_ascii_lowercase k = k" using assms(3,4) by (auto simp: list_all_iff dest: map_of_SomeD)
  have "k \<noteq> ''upgrade''" "k \<noteq> ''connection''" using assms(5) by (auto simp: starts_with_def)
  then show ?thesis
    using put_edits_values [OF edits dist assms(3), of k] assms(4) by (auto simp: get_all_values hs low keep_upgrade_values split: option.splits)
qed

section \<open>Identity headers\<close>

definition edits_of :: "shared \<times> 'n request_ctx \<Rightarrow> edits" where
  "edits_of s = ct_edits (snd s)"

definition backends_of :: "shared \<times> 'n request_ctx \<Rightarrow> (string, backend) btree" where
  "backends_of s = sh_backends (fst s)"

lemmas kept_defs = edits_of_def backends_of_def

lemma permits_backends [simp]:
  "sh_backends (update_tenant n f sh) = sh_backends sh" "sh_backends (set_limiter o' l sh) = sh_backends sh"
  "sh_backends (drop_tenant r p sh) = sh_backends sh" "sh_backends (drop_traffic now q sh) = sh_backends sh"
  by (auto simp: update_tenant_def set_limiter_def drop_tenant_def drop_traffic_def split: option.split)

lemma kept_by_permits [part_intros]:
  "keeps_part edits_of acquire_request" "keeps_part backends_of acquire_request"
  "keeps_part edits_of (acquire_tenant_request n)" "keeps_part backends_of (acquire_tenant_request n)"
  "keeps_part edits_of (check_tenant_rate e n)" "keeps_part backends_of (check_tenant_rate e n)"
  "keeps_part edits_of (acquire_traffic e route b)" "keeps_part backends_of (acquire_traffic e route b)"
  "keeps_part edits_of (keep_pre_auth now p)" "keeps_part backends_of (keep_pre_auth now p)"
  "keeps_part edits_of (keep_traffic now p)" "keeps_part backends_of (keep_traffic now p)"
  "keeps_part backends_of release_plugin"
  "keeps_part edits_of (rollout_select e n)" "keeps_part backends_of (rollout_select e n)"
  by (rule keeps_partI; auto simp: kept_defs acquire_request_def acquire_tenant_request_def check_tenant_rate_def acquire_traffic_def
      keep_pre_auth_def keep_traffic_def release_plugin_def rollout_select_def Let_def split: if_splits prod.splits sum.splits)+

lemma kept_by_plugin [part_intros]: "keeps_part backends_of (acquire_plugin route)"
  unfolding acquire_plugin_def
  by (intro keeps_part_bind; rule keeps_partI; auto simp: kept_defs split: if_splits prod.splits sum.splits option.splits)+

lemma kept_by_dispatch [part_intros]: "keeps_part edits_of (dispatch e tls route)" "keeps_part backends_of (dispatch e tls route)"
  unfolding dispatch_def dispatch_action_def choose_backend_def set_backend_def
  by (auto intro!: part_intros simp: kept_defs split: option.split action.split)

lemma kept_by_entry [part_intros]:
  "keeps_part edits_of (identify e tls route s)" "keeps_part backends_of (identify e tls route s)"
  "keeps_part edits_of (read_request e lk s)" "keeps_part backends_of (read_request e lk s)"
  unfolding identify_def read_request_def Let_def
  by (auto intro!: part_intros simp: set_headers_def kept_defs)

lemma stage_step_keeps [part_intros]:
  "keeps_part edits_of (\<lambda>(sh, c). (Inr (), sh, c\<lparr>ct_rollout_stage := f sh\<rparr>))"
  "keeps_part backends_of (\<lambda>(sh, c). (Inr (), sh, c\<lparr>ct_rollout_stage := f sh\<rparr>))"
  by (rule keeps_partI; auto simp: kept_defs)+

lemma backends_kept [part_intros]: "keeps_part backends_of (run_script e route s)" "keeps_part backends_of (finish e tls route s)"
proof -
  show script: "keeps_part backends_of (run_script e route s)"
    unfolding run_script_def request_plugin_def apply_outcome_def
    by (auto intro!: part_intros simp: kept_defs split: option.split sum.split decision.split)
  show "keeps_part backends_of (finish e tls route s)"
    unfolding finish_def by (auto intro!: part_intros script split: option.split)
qed

lemma edits_kept_by_finish: "rt_script route = None \<Longrightarrow> keeps_part edits_of (finish e tls route s)"
  unfolding finish_def run_script_def by (auto intro!: part_intros split: option.split)

lemma header_steps_backends [simp]: "backends_of (sh, c) = sh_backends sh"
  by (simp add: backends_of_def)

lemma backends_kept_by_external [part_intros]: "keeps_part backends_of (with_auth_budget o' (authorize_external e route x))"
  by (intro with_auth_budget_keeps authorize_external_keeps) simp_all

lemma backends_kept_by_authorize [part_intros]: "keeps_part backends_of (authorize e headers cert route)"
  unfolding authorize_def authorize_jwt_def Let_def
  by (auto intro!: part_intros split: option.split)

lemma edits_kept_by_jwt [part_intros]: "keeps_part edits_of (authorize_jwt e headers jwt)"
  unfolding authorize_jwt_def by (auto intro!: part_intros simp: kept_defs split: option.split)

text \<open>What the headers of an accepted reply are, and what the edits are after them.\<close>

lemma auth_headers_get:
  assumes "auth_headers to_str reply names hs0 = Inr hs" and "bt_sorted hs0"
  shows "bt_sorted hs \<and> (\<forall>h. bt_get hs h =
    (if h \<in> set names \<and> get_all reply h \<noteq> [] then to_str (hd (get_all reply h)) else bt_get hs0 h))"
  using assms
proof (induction names arbitrary: hs0)
  case (Cons n names)
  show ?case
  proof (cases "get_all reply n")
    case Nil
    with Cons.prems have "auth_headers to_str reply names hs0 = Inr hs" by simp
    from Cons.IH [OF this Cons.prems(2)] Nil show ?thesis by auto
  next
    case (Cons v vs)
    with Cons.prems obtain t where t: "to_str v = Some t" "auth_headers to_str reply names (bt_insert n t hs0) = Inr hs"
      by (auto split: if_splits option.splits)
    from Cons.IH [OF t(2)] bt_sorted_insert [OF Cons.prems(2)] t(1) Cons show ?thesis by auto
  qed
qed simp

definition answered :: "('n, 'p) edge \<Rightarrow> external_auth \<Rightarrow> nat \<Rightarrow> (string, string) btree \<Rightarrow> bool" where
  "answered e x n hs \<longleftrightarrow> (\<exists>j status reply. j < n \<and> eg_auth_reply e j = Some (status, reply) \<and> 200 \<le> status \<and> status < 300
     \<and> auth_headers (eg_to_str e) reply (ea_response_headers x) [] = Inr hs)"

lemma answeredI:
  "eg_auth_reply e j = Some (status, reply) \<Longrightarrow> 200 \<le> status \<Longrightarrow> status < 300 \<Longrightarrow>
    auth_headers (eg_to_str e) reply (ea_response_headers x) [] = Inr hs \<Longrightarrow> j < n \<Longrightarrow> answered e x n hs"
  unfolding answered_def by blast

lemma answered_mono: "answered e x m hs \<Longrightarrow> m \<le> n \<Longrightarrow> answered e x n hs"
  unfolding answered_def by (meson less_le_trans)

lemma auth_attempts_reply: "fst (auth_attempts e x r n k pool) = Inr hs \<Longrightarrow> answered e x (k + n) hs"
proof (induction e x r n k pool rule: auth_attempts.induct)
  case (2 e x r n k pool)
  have "answered e x (k + Suc n) hs" if "eg_auth_reply e k = Some (status, reply)" "200 \<le> status" "status < 300"
      "auth_headers (eg_to_str e) reply (ea_response_headers x) [] = Inr hs" for status reply
    using that by (rule answeredI) simp
  with 2 show ?case
    by (auto simp: Let_def split: prod.splits option.splits if_splits)
qed simp

lemma forget_edits:
  "ct_edits (fold (forget_header to_str) names c) =
    (ct_edits c)\<lparr>ed_headers := fold (\<lambda>n. bt_insert n None) names (ed_headers (ct_edits c))\<rparr>"
  by (induction names arbitrary: c) (simp_all add: forget_header_def edit_header_def set_headers_def)

lemma learn_edits:
  "ct_edits (fold (learn_header to_str) hs c) =
    (ct_edits c)\<lparr>ed_headers := fold (\<lambda>(k, v). bt_insert k (Some v)) hs (ed_headers (ct_edits c))\<rparr>"
  by (induction hs arbitrary: c) (auto simp: learn_header_def edit_header_def set_headers_def)

lemma fold_forget:
  "bt_sorted m \<Longrightarrow> bt_sorted (fold (\<lambda>n. bt_insert n None) names m)
    \<and> bt_get (fold (\<lambda>n. bt_insert n None) names m) = (\<lambda>h. if h \<in> set names then Some None else bt_get m h)"
  by (induction names arbitrary: m) (auto simp: bt_sorted_insert fun_eq_iff)

lemma fold_learn:
  "bt_sorted m \<Longrightarrow> distinct (map fst hs) \<Longrightarrow> bt_sorted (fold (\<lambda>(k, v). bt_insert k (Some v)) hs m)
    \<and> bt_get (fold (\<lambda>(k, v). bt_insert k (Some v)) hs m) = (\<lambda>h. case map_of hs h of None \<Rightarrow> bt_get m h | Some v \<Rightarrow> Some (Some v))"
proof (induction hs arbitrary: m)
  case (Cons x hs)
  obtain k v where x: "x = (k, v)" by (cases x)
  have "map_of hs k = None" using Cons.prems(2) by (auto simp: x map_of_eq_None_iff)
  with Cons.IH [of "bt_insert k (Some v) m"] Cons.prems show ?case
    by (auto simp: x bt_sorted_insert fun_eq_iff split: option.split)
qed simp

text \<open>The edits that external authentication leaves when there were none: one for each identity header, with the reply's value or none.\<close>

definition identity_edits :: "external_auth \<Rightarrow> (string, string) btree \<Rightarrow> edits \<Rightarrow> bool" where
  "identity_edits x hs es \<longleftrightarrow> bt_sorted (ed_headers es)
     \<and> bt_get (ed_headers es) = (\<lambda>h. if h \<in> set (ea_response_headers x) then Some (bt_get hs h) else None)"

lemma authorize_external_edits:
  assumes "authorize_external e route x s = (Inr u, s')" and "ed_headers (edits_of s) = []"
  shows "\<exists>hs. answered e x 3 hs \<and> identity_edits x hs (edits_of s')"
proof -
  obtain sh c where s: "s = (sh, c)" by (cases s)
  let ?c1 = "fold (forget_header (eg_to_str e)) (ea_response_headers x) c"
  from assms(1) obtain pool hs where
    run: "fst (external_authorize e x (px_auth_endpoints route) (ct_request ?c1) (sh_auth_pools sh (route_id route))) = Inr hs"
    and c': "snd s' = fold (learn_header (eg_to_str e)) hs ?c1"
    by (auto simp: s authorize_external_def result_simps Let_def split: prod.splits sum.splits)
  have "answered e x (0 + max 1 (min (px_auth_endpoints route) 3)) hs"
    using run unfolding external_authorize_def by (rule auth_attempts_reply)
  then have answer: "answered e x 3 hs" by (rule answered_mono) simp
  then obtain reply where "auth_headers (eg_to_str e) reply (ea_response_headers x) [] = Inr hs" by (auto simp: answered_def)
  from auth_headers_get [OF this bt_sorted_Nil] have hs: "bt_sorted hs" "\<And>h. h \<notin> set (ea_response_headers x) \<Longrightarrow> bt_get hs h = None" by auto
  let ?m = "fold (\<lambda>n. bt_insert n None) (ea_response_headers x) [] :: (string, string option) btree"
  have m: "bt_sorted ?m" "bt_get ?m = (\<lambda>h. if h \<in> set (ea_response_headers x) then Some None else None)"
    using fold_forget [of "[] :: (string, string option) btree" "ea_response_headers x"] by (simp_all add: fun_eq_iff)
  have "distinct (map fst hs)" using bt_sorted_distinct [OF hs(1)] by (simp add: bt_keys_def)
  from fold_learn [OF m(1) this] have "identity_edits x hs (edits_of s')"
    using assms(2) hs(2) unfolding identity_edits_def m(2)
    by (auto simp: edits_of_def c' s learn_edits forget_edits fun_eq_iff split: option.split)
  with answer show ?thesis by blast
qed

lemma with_auth_budget_edits:
  assumes "with_auth_budget o' m s = (Inr u, s')"
  shows "\<exists>s1 s2. m s1 = (Inr u, s2) \<and> edits_of s1 = edits_of s \<and> edits_of s' = edits_of s2"
proof (cases o')
  case None
  with assms have "m s = (Inr u, s')" by (simp add: with_auth_budget_def)
  then show ?thesis by blast
next
  case (Some n)
  obtain sh c where s: "s = (sh, c)" by (cases s)
  obtain r t where t: "tenant_acquire RAuth (sh_tenants sh n) = (r, t)" by fastforce
  obtain u' sh' c' where m: "m (update_tenant n (\<lambda>_. t) sh, c) = (u', sh', c')" by (metis prod_cases3)
  have "u' = Inr u" "s' = (update_tenant n (tenant_release RAuth) sh', c')"
    using assms m by (cases r; simp add: with_auth_budget_def Some s t)+
  with m show ?thesis
    by (intro exI [of _ "(update_tenant n (\<lambda>_. t) sh, c)"] exI [of _ "(sh', c')"]) (simp add: edits_of_def s)
qed

lemma authorize_edits:
  assumes "authorize e headers cert route s = (Inr u, s')" and "se_external (st_security (rt_settings route)) = Some x"
    and "ed_headers (edits_of s) = []"
  shows "\<exists>hs. answered e x 3 hs \<and> identity_edits x hs (edits_of s')"
proof -
  let ?sec = "st_security (rt_settings route)"
  from assms(1) obtain s1 s2 p s3 s4 s5 where
    s1: "whenH (px_tenant route) (\<lambda>n. bindH (acquire_tenant_request n) (\<lambda>_. check_tenant_rate e n)) s = (Inr (), s1)"
    and s2: "acquire_traffic e route True s1 = (Inr p, s2)" and s3: "keep_pre_auth (eg_now e 3) p s2 = (Inr (), s3)"
    and s4: "whenH (se_jwt ?sec) (authorize_jwt e headers) s3 = (Inr (), s4)"
    and s5: "with_auth_budget (px_tenant route) (authorize_external e route x) s4 = (Inr (), s5)"
    and last: "bindH (acquire_traffic e route False) (keep_traffic (eg_now e 4)) s5 = (Inr u, s')"
    by (auto simp: authorize_def Let_def result_simps assms(2))
  have "keeps_part edits_of (whenH (px_tenant route) (\<lambda>n. bindH (acquire_tenant_request n) (\<lambda>_. check_tenant_rate e n)))"
    "keeps_part edits_of (whenH (se_jwt ?sec) (authorize_jwt e headers))"
    "keeps_part edits_of (bindH (acquire_traffic e route False) (keep_traffic (eg_now e 4)))"
    "keeps_part edits_of (acquire_traffic e route True)" "keeps_part edits_of (keep_pre_auth (eg_now e 3) p)"
    by (intro part_intros)+
  then have "edits_of s4 = edits_of s" "edits_of s' = edits_of s5"
    using s1 s2 s3 s4 last by (auto dest!: keeps_partD)
  with with_auth_budget_edits [OF s5] authorize_external_edits [of e route x] assms(3) show ?thesis by metis
qed

text \<open>The configuration gives the identity headers of a service in lower case, as C18 assumes.\<close>

lemma auth_options_lowercase:
  "auth_options args a = Inr a' \<Longrightarrow> list_all (\<lambda>h. to_ascii_lowercase h = h) (ea_response_headers a) \<Longrightarrow>
    list_all (\<lambda>h. to_ascii_lowercase h = h) (ea_response_headers a')"
  by (induction args a rule: auth_options.induct) (auto simp: result_simps list_all_iff split: option.splits)

text \<open>
  C18. A client cannot choose the identity headers of a protected route. If a route asks an authentication service and runs no
  script, the request that goes to the backend carries each identity header of the service at most once, with the value of one of
  the service's accepting replies, and not at all if that reply has none, whatever the client, the Gateway filters or the configured request
  headers put into the field.
\<close>

theorem identity_headers_trusted:
  assumes "request_filter e lk tls s (sh, new_ctx tls) = (Inr Forward, sh', c')"
    and "ct_route c' = Some route" and "rt_script route = None" and "se_external (st_security (rt_settings route)) = Some x"
    and "external_validate w x = Inr ()" and "list_all (\<lambda>h. to_ascii_lowercase h = h) (ea_response_headers x)"
    and "upstream_headers e (sh2, c') req = Inr (target, out)"
  shows "\<exists>j status reply. j < 3 \<and> eg_auth_reply e j = Some (status, reply) \<and> 200 \<le> status \<and> status < 300
    \<and> (\<forall>h\<in>set (ea_response_headers x).
        get_all out h = (case get_all reply h of [] \<Rightarrow> [] | v # _ \<Rightarrow> (case eg_to_str e v of None \<Rightarrow> [] | Some t \<Rightarrow> [t])))"
proof -
  from assms(1) obtain s1 route' where run: "serve_route e tls route' False s s1 = (Inr Forward, sh', c')"
    and start: "ed_headers (edits_of s1) = []"
    unfolding edits_of_def by (rule request_filter_Forward) blast
  from run obtain s2 s3 u where s2: "identify e tls route' s (fst s1, (snd s1)\<lparr>ct_route := Some route'\<rparr>) = (Inr (), s2)"
    and s3: "authorize e (ss_headers s) (ss_certificate s) route' s2 = (Inr u, s3)"
    and fin: "finish e tls route' s s3 = (Inr Forward, sh', c')"
    by (rule serve_route_Forward)
  have "ct_route c' = Some route'"
    using keeps_partD [OF finish_keeps fin] authorize_Inr(2) [OF s3] identify_Inr(1) [OF s2] by (auto simp: verdict_def split: prod.splits)
  with assms(2) have route: "route' = route" by simp
  have "ed_headers (edits_of s2) = []"
    using keeps_partD [OF kept_by_entry(1) s2] start by (simp add: edits_of_def)
  from authorize_edits [OF s3 [unfolded route] assms(4) this] obtain hs where hs: "answered e x 3 hs" "identity_edits x hs (edits_of s3)" by blast
  have "edits_of (sh', c') = edits_of s3"
    using keeps_partD [OF edits_kept_by_finish [OF assms(3)] fin [unfolded route]] .
  with hs(2) have ident: "bt_sorted (ed_headers (ct_edits c'))"
    "bt_get (ed_headers (ct_edits c')) = (\<lambda>h. if h \<in> set (ea_response_headers x) then Some (bt_get hs h) else None)"
    by (simp_all add: identity_edits_def edits_of_def)
  have low: "list_all (\<lambda>(k, _). to_ascii_lowercase k = k) (ed_headers (ct_edits c'))"
  proof -
    have "k \<in> set (ea_response_headers x)" if "(k, v) \<in> set (ed_headers (ct_edits c'))" for k v
    proof (rule ccontr)
      assume "k \<notin> set (ea_response_headers x)"
      then have "map_of (ed_headers (ct_edits c')) k = None" by (simp add: ident(2))
      with that show False by (force simp: map_of_eq_None_iff)
    qed
    with assms(6) show ?thesis by (auto simp: list_all_iff)
  qed
  from hs(1) obtain j status reply where reply: "j < 3" "eg_auth_reply e j = Some (status, reply)" "200 \<le> status" "status < 300"
    "auth_headers (eg_to_str e) reply (ea_response_headers x) [] = Inr hs"
    by (auto simp: answered_def)
  have "get_all out h = (case get_all reply h of [] \<Rightarrow> [] | v # _ \<Rightarrow> (case eg_to_str e v of None \<Rightarrow> [] | Some t \<Rightarrow> [t]))"
    if h: "h \<in> set (ea_response_headers x)" for h
  proof -
    have "starts_with h ''x-''" using assms(5) h by (auto simp: external_validate_def result_simps)
    from upstream_edits_win [OF assms(7) ident(1) low _ this, of "bt_get hs h"] ident(2) h
    have "get_all out h = (case bt_get hs h of None \<Rightarrow> [] | Some y \<Rightarrow> [y])" by simp
    then show ?thesis using auth_headers_get [OF reply(5) bt_sorted_Nil] h by (auto split: list.split)
  qed
  with reply(1-4) show ?thesis by blast
qed

section \<open>The lookups of a configuration\<close>

definition px_plain :: "'n cfg_route \<Rightarrow> 'n px_route" where
  "px_plain r = cfg_route.extend r (px_route.fields None None None 0)"

definition snapshot_route :: "'n snapshot \<Rightarrow> socket_addr \<Rightarrow> string \<Rightarrow> string \<Rightarrow> 'n px_route option" where
  "snapshot_route sn a host path = map_option (\<lambda>(i, j). px_plain (ch_routes (sn_hosts sn ! i) ! j)) (route_position sn a host path)"

definition snapshot_lookups :: "'n snapshot \<Rightarrow> socket_addr \<Rightarrow> 'n lookups" where
  "snapshot_lookups sn a =
     \<lparr>lk_request = (\<lambda>r. snapshot_route sn a (rd_host r) (rd_path r)), lk_path = snapshot_route sn a,
      lk_hostless = unwrap_or (hostless_server_name (sn_index sn) (map host_view (sn_hosts sn)) a) [], lk_lossy = None\<rparr>"

definition snapshot_backends :: "'n snapshot \<Rightarrow> (string, backend) btree" where
  "snapshot_backends sn = map (\<lambda>(k, x). (k, fst x)) (sn_backends sn)"

lemma px_plain_fields [simp]:
  "route_action (px_plain r) = route_action r" "rt_allowed (px_plain r) = rt_allowed r"
  "route_matcher (px_plain r) = route_matcher r" "rt_script (px_plain r) = rt_script r" "rt_settings (px_plain r) = rt_settings r"
  "px_gateway (px_plain r) = None" "px_rollout (px_plain r) = None" "px_tenant (px_plain r) = None"
  by (simp_all add: px_plain_def cfg_route.defs px_route.defs)

lemma snapshot_route_known:
  assumes "accepted w sn" and "snapshot_route sn a host path = Some route" and "permitted route rollouts k"
  shows "known (sn_backends sn) k"
proof -
  from assms(2) obtain i j where pos: "route_position sn a host path = Some (i, j)"
    and route: "route = px_plain (ch_routes (sn_hosts sn ! i) ! j)"
    by (auto simp: snapshot_route_def)
  have "i < length (sn_hosts sn)" "j < length (ch_routes (sn_hosts sn ! i))"
    using index_route_range [of "map host_view (sn_hosts sn)" a host path i j] pos assms(1)
    by (auto simp: route_position_def accepted_def host_view_def)
  then have "sn_hosts sn ! i \<in> set (sn_hosts sn)" "ch_routes (sn_hosts sn ! i) ! j \<in> set (ch_routes (sn_hosts sn ! i))" by simp_all
  then have "refs_ok (sn_backends sn) (ch_routes (sn_hosts sn ! i) ! j)"
    using assms(1) unfolding accepted_def host_ok_def routes_ok_def by blast
  then show ?thesis
    using assms(3) by (auto simp: refs_ok_def permitted_def route dest: map_of_SomeD)
qed

lemma forwarded_choice:
  assumes "request_filter e lk tls s (sh, new_ctx tls) = (Inr Forward, sh', c')"
  obtains r route b where "lk_request lk r = Some route" "ct_backend c' = Some b" "permitted route (sh_rollouts sh) b" "sh_backends sh' = sh_backends sh"
proof -
  from assms obtain s1 route where route: "lk_request lk (ct_request (snd s1)) = Some route"
    and run: "serve_route e tls route False s s1 = (Inr Forward, sh', c')"
    and start: "sh_rollouts (fst s1) = sh_rollouts sh" "ct_backend (snd s1) = None" "sh_backends (fst s1) = sh_backends sh"
    by (rule request_filter_Forward) blast
  from run obtain s2 s3 u where s2: "identify e tls route s (fst s1, (snd s1)\<lparr>ct_route := Some route\<rparr>) = (Inr (), s2)"
    and s3: "authorize e (ss_headers s) (ss_certificate s) route s2 = (Inr u, s3)" and fin: "finish e tls route s s3 = (Inr Forward, sh', c')"
    by (rule serve_route_Forward)
  have "choice_inputs s3 = choice_inputs s1"
    using keeps_partD [OF request_filter_keeps(1) s2] keeps_partD [OF authorize_keeps s3] by (cases s1) (simp add: choice_inputs_def)
  then have inputs: "sh_rollouts (fst s3) = sh_rollouts sh" "ct_backend (snd s3) = None"
    using start by (auto simp: choice_inputs_def split: prod.splits)
  have backends: "backends_of s3 = sh_backends sh"
    using keeps_partD [OF kept_by_entry(2) s2] keeps_partD [OF backends_kept_by_authorize s3] start(3) by (simp add: backends_of_def)
  have "sh_backends sh' = sh_backends sh"
    using keeps_partD [OF backends_kept(2) fin] backends by simp
  with route finish_target(1) [OF fin inputs(2)] inputs(1) show thesis using that by auto
qed

section \<open>Runs\<close>

text \<open>A route without tenant, certificates, tokens, address rules, limits, redirection, script, Gateway policy or rollout.\<close>

definition plain_settings :: "'n settings \<Rightarrow> bool" where
  "plain_settings st \<longleftrightarrow> se_mtls (st_security st) = se_mtls default_security \<and> se_jwt (st_security st) = None \<and> st_identity st = default_identity
     \<and> st_traffic st = \<lparr>pol_rate = None, pol_concurrency = None\<rparr> \<and> st_https_redirect_port st = None"

definition plain_route :: "'n px_route \<Rightarrow> bool" where
  "plain_route route \<longleftrightarrow> plain_settings (rt_settings route) \<and> px_tenant route = None \<and> rt_script route = None \<and> px_gateway route = None
     \<and> px_rollout route = None"

lemma plain_default [simp]: "plain_settings default_settings"
  by (simp add: plain_settings_def default_settings_def default_security_def)

lemma plain_root [simp]: "plain_settings (st\<lparr>st_root := r\<rparr>) = plain_settings st"
  by (simp add: plain_settings_def)

lemma plain_identify:
  assumes "plain_route route"
  shows "\<exists>c'. identify e tls route s (sh, c) = (Inr (), sh, c') \<and> ct_route c' = ct_route c \<and> ct_backend c' = ct_backend c
    \<and> ct_headers c' = ct_headers c \<and> ct_pre_auth_permit c' = ct_pre_auth_permit c"
  using assms by (cases "parse_ip_addr (ss_peer s)")
    (auto simp: identify_def plain_route_def plain_settings_def step_run Let_def default_identity_def allows_def)

lemma plain_traffic:
  assumes "plain_route route"
  shows "acquire_traffic e route b (sh, c) = (Inr None, sh, c)"
  using assms by (simp add: plain_route_def plain_settings_def acquire_traffic_def acquire_def policy_phase_def filter_option_def
      set_limiter_def limiter_of_def)

lemma plain_authorize:
  assumes "plain_route route" and "case se_external (st_security (rt_settings route)) of
      None \<Rightarrow> u = (sh, c\<lparr>ct_pre_auth_permit := None\<rparr>)
    | Some x \<Rightarrow> authorize_external e route x (sh, c\<lparr>ct_pre_auth_permit := None\<rparr>) = (Inr (), u)"
    and "ct_pre_auth_permit c = None"
  shows "authorize e hs cert route (sh, c) =
    (Inr (), drop_traffic (eg_now e 4) (ct_traffic_permit (snd u)) (fst u), (snd u)\<lparr>ct_traffic_permit := None\<rparr>)"
  using assms
  by (cases u) (auto simp: authorize_def Let_def bindH_def ensureH_def returnH_def mtls_authorize_def plain_traffic keep_pre_auth_def keep_traffic_def
      drop_traffic_def with_auth_budget_def plain_route_def plain_settings_def default_security_def split: option.splits)

lemma plain_finish:
  assumes "plain_route route" "route_action route = Proxy b uri" "declared_length e s = None" "ct_backend c = None"
  shows "\<exists>c'. finish e tls route s (sh, c) = (Inr Forward, sh, c') \<and> ct_backend c' = Some b \<and> ct_route c' = ct_route c"
  using assms by (simp add: finish_def step_run plain_route_def run_script_def dispatch_def dispatch_action_def choose_backend_def set_backend_def)

lemma plain_entry:
  assumes "sh_requests sh = Suc k" "validate_connection_header (eg_to_str e) (ss_headers s) = Inr ()"
    "normalized_path (eg_percent_decode e) (ss_path s) = Inr p"
    "request_host (eg_to_str e) (eg_authority_host e) (ss_headers s) (ss_scheme s) (ss_authority s) (ss_http11 s) = Inr h"
    "lk_lossy lk = None" "\<And>r. rd_path r = p \<Longrightarrow> rd_host r = h \<Longrightarrow> lk_request lk r = Some route \<and> slash_route lk r route = None"
  shows "\<exists>c :: 'n request_ctx. request_filter e lk tls s (sh, new_ctx tls) = serve_route e tls route False s (sh\<lparr>sh_requests := k\<rparr>, c)
    \<and> ct_backend c = None \<and> ct_pre_auth_permit c = None \<and> ct_traffic_permit c = None
    \<and> ct_headers c = headers_from_http (ss_headers s)"
  using assms(1-5)
  by (simp add: request_filter_def step_run acquire_request_def read_request_def entry_status_def new_ctx_def assms(6) set_headers_def session_headers_def)
    (intro conjI impI; rule exI, rule conjI, rule refl, simp)

definition external_passes :: "('n, 'p) edge \<Rightarrow> 'n px_route \<Rightarrow> (string \<Rightarrow> backend option) \<Rightarrow> (string \<times> string) list \<Rightarrow> bool" where
  "external_passes e route pools hs \<longleftrightarrow> (\<forall>x sh c. se_external (st_security (rt_settings route)) = Some x
     \<and> sh_auth_pools sh = pools \<and> ct_headers c = headers_from_http hs \<longrightarrow>
       (\<exists>u. authorize_external e route x (sh, c) = (Inr (), u) \<and> ct_backend (snd u) = ct_backend c \<and> ct_route (snd u) = ct_route c))"

lemma plain_forward:
  fixes e :: "('n, 'p) edge"
  assumes route: "plain_route route" "route_action route = Proxy b uri" "declared_length e s = None" "external_passes e route (sh_auth_pools sh) (ss_headers s)"
    and entry: "sh_requests sh = Suc k" "validate_connection_header (eg_to_str e) (ss_headers s) = Inr ()"
    "normalized_path (eg_percent_decode e) (ss_path s) = Inr p"
    "request_host (eg_to_str e) (eg_authority_host e) (ss_headers s) (ss_scheme s) (ss_authority s) (ss_http11 s) = Inr h"
    "lk_lossy lk = None" "\<And>r. rd_path r = p \<Longrightarrow> rd_host r = h \<Longrightarrow> lk_request lk r = Some route \<and> slash_route lk r route = None"
  shows "\<exists>sh' c'. request_filter e lk tls s (sh, new_ctx tls) = (Inr Forward, sh', c') \<and> ct_backend c' = Some b \<and> ct_route c' = Some route"
proof -
  obtain c :: "'n request_ctx" where c: "request_filter e lk tls s (sh, new_ctx tls) = serve_route e tls route False s (sh\<lparr>sh_requests := k\<rparr>, c)"
    "ct_backend c = None" "ct_pre_auth_permit c = None" "ct_headers c = headers_from_http (ss_headers s)"
    using plain_entry [OF entry, of tls] by blast
  let ?sh = "sh\<lparr>sh_requests := k\<rparr>"
  obtain c1 where c1: "identify e tls route s (?sh, c\<lparr>ct_route := Some route\<rparr>) = (Inr (), ?sh, c1)"
    "ct_route c1 = Some route" "ct_backend c1 = None" "ct_headers c1 = headers_from_http (ss_headers s)" "ct_pre_auth_permit c1 = None"
    using plain_identify [OF route(1), of e tls s ?sh "c\<lparr>ct_route := Some route\<rparr>"] c by auto
  let ?c1 = "c1\<lparr>ct_pre_auth_permit := None\<rparr>"
  obtain u where u: "case se_external (st_security (rt_settings route)) of
      None \<Rightarrow> u = (?sh, ?c1) | Some x \<Rightarrow> authorize_external e route x (?sh, ?c1) = (Inr (), u)"
    "ct_backend (snd u) = None" "ct_route (snd u) = Some route"
  proof (cases "se_external (st_security (rt_settings route))")
    case None
    with that [of "(?sh, ?c1)"] c1 show ?thesis by simp
  next
    case (Some x)
    have "sh_auth_pools ?sh = sh_auth_pools sh" "ct_headers ?c1 = headers_from_http (ss_headers s)" using c1(4) by simp_all
    with route(4) Some obtain u where u: "authorize_external e route x (?sh, ?c1) = (Inr (), u)"
      "ct_backend (snd u) = ct_backend ?c1" "ct_route (snd u) = ct_route ?c1"
      unfolding external_passes_def by (metis option.simps(5))
    show ?thesis using that [of u] u Some c1 by simp
  qed
  note auth = plain_authorize [OF route(1) u(1) c1(5), of "ss_headers s" "ss_certificate s"]
  obtain sh2 c2 where c2: "authorize e (ss_headers s) (ss_certificate s) route (?sh, c1) = (Inr (), sh2, c2)"
    "ct_backend c2 = None" "ct_route c2 = Some route"
    using auth u(2,3) by simp
  have "st_https_redirect_port (rt_settings route) = None" using route(1) by (simp add: plain_route_def plain_settings_def)
  then show ?thesis
    using plain_finish [OF route(1-3) c2(2), of tls sh2] c2 unfolding c(1) serve_route_def
    by (auto simp: bindH_def modC_def getC_def c1)
qed

text \<open>A client claims to be the administrator; the authentication service says who it is.\<close>

definition identity_service :: external_auth where
  "identity_service = \<lparr>ea_url = ''http://auth'', ea_timeout = from_secs 3, ea_response_headers = [''x-user'']\<rparr>"

definition auth_edge :: "(nat, string) edge" where
  "auth_edge = example_edge\<lparr>eg_auth_reply := (\<lambda>_. Some (200, [(''x-user'', ''u1'')]))\<rparr>"

definition auth_route :: "nat px_route" where
  "auth_route = example_px_route\<lparr>rt_settings := default_settings\<lparr>st_security := default_security\<lparr>se_external := Some identity_service\<rparr>\<rparr>,
     px_tenant := None\<rparr>"

definition auth_session :: "string session" where
  "auth_session = example_session\<lparr>ss_headers := [(''host'', ''x''), (''x-user'', ''admin'')]\<rparr>"

definition auth_lookups :: "nat lookups" where
  "auth_lookups = example_lookups\<lparr>lk_request := (\<lambda>_. Some auth_route)\<rparr>"

lemma auth_passes: "external_passes auth_edge auth_route (\<lambda>_. None) [(''host'', ''x''), (''x-user'', ''admin'')]"
proof -
  have x: "se_external (st_security (rt_settings auth_route)) = Some identity_service" by (simp add: auth_route_def)
  have none: "headers_get Some (headers_from_http [(''host'', ''x''), (''x-user'', ''admin'')]) ''authorization'' = None"
    "headers_get Some (headers_from_http [(''host'', ''x''), (''x-user'', ''admin'')]) ''cookie'' = None"
    by code_simp+
  have names: "list_all (\<lambda>f. to_ascii_lowercase (fst f) = fst f) [(''host'', ''x''), (''x-user'', ''admin'')]" by code_simp
  have ok: "headers_ok (headers_from_http [(''host'', ''x''), (''x-user'', ''admin'')])"
    unfolding headers_ok_def headers_from_http_def using names by (simp add: list_all_iff)
  have low: "to_ascii_lowercase ''authorization'' = ''authorization''" "to_ascii_lowercase ''cookie'' = ''cookie''" by code_simp+
  have reply: "get_all [(''x-user'', ''u1'')] ''x-user'' = [''u1'']" by code_simp
  show ?thesis
    unfolding external_passes_def x
    by (auto simp: authorize_external_def bindH_def modC_def external_authorize_def auth_route_def example_px_route_def auth_select_def auth_edge_def
        example_edge_def identity_service_def forget_header_def edit_header_def set_headers_def headers_update_get [OF ok] low none reply release_auth_def
        learn_header_def Let_def)
qed

lemma auth_run:
  "\<exists>sh' c'. request_filter auth_edge auth_lookups True auth_session (example_shared, new_ctx True) = (Inr Forward, sh', c')
    \<and> ct_backend c' = Some ''app'' \<and> ct_route c' = Some auth_route"
proof (rule plain_forward [where k = 1 and p = "''/a''" and h = "''x''"])
  show "plain_route auth_route"
    by (simp add: plain_route_def plain_settings_def auth_route_def example_px_route_def default_settings_def default_security_def)
  show "external_passes auth_edge auth_route (sh_auth_pools example_shared) (ss_headers auth_session)"
    using auth_passes by (simp add: example_shared_def auth_session_def)
  show "validate_connection_header (eg_to_str auth_edge) (ss_headers auth_session) = Inr ()"
    "request_host (eg_to_str auth_edge) (eg_authority_host auth_edge) (ss_headers auth_session) (ss_scheme auth_session) (ss_authority auth_session)
       (ss_http11 auth_session) = Inr ''x''" "declared_length auth_edge auth_session = None"
    by code_simp+
  show "normalized_path (eg_percent_decode auth_edge) (ss_path auth_session) = Inr ''/a''"
    using example_entry(1) by (simp add: auth_edge_def auth_session_def)
qed (simp_all add: example_shared_def auth_lookups_def example_lookups_def slash_route_def auth_route_def example_px_route_def)

text \<open>An edge that accepts every header builds the request without error.\<close>

lemma upstream_headers_total:
  assumes "\<And>n. eg_name_ok e n" "\<And>v. eg_value_ok e v" "\<And>u. eg_uri_ok e u" "px_gateway route = None"
    and "ct_backend c = Some k" "bt_get (sh_backends sh) k = Some b" "ct_route c = Some route"
  shows "\<exists>target out. upstream_headers e (sh, c) req = Inr (target, out)"
proof -
  have request: "\<exists>hs'. put_request_headers e vars h es hs = Inr hs'" for vars h es hs
    using assms(1,2) by (induction e vars h es hs rule: put_request_headers.induct) (auto simp: Let_def put_header_def put_value_def)
  have edits: "\<exists>hs'. put_edits e es hs = Inr hs'" for es hs
    using assms(1,2) by (induction e es hs rule: put_edits.induct) (auto simp: put_header_def put_value_def split: option.split)
  have "\<exists>target. upstream_target e route c req = Inr target"
    unfolding upstream_target_def Let_def using assms(3) by simp
  then obtain target where target: "upstream_target e route c req = Inr target" ..
  obtain hs1 where hs1: "upstream_host e route b (ct_request c) (keep_trailers (ct_request c) (strip_hop_headers (eg_to_str e) (ob_headers req))) = Inr hs1"
    using assms(2,4) by (simp add: upstream_host_def put_value_def)
  obtain hs2 where hs2: "put_request_headers e (ctx_variables c) (bk_host_header b) (st_request_headers (rt_settings route)) hs1 = Inr hs2"
    using request by blast
  obtain hs3 where "put_edits e (ed_headers (ct_edits c)) hs2 = Inr hs3" using edits by blast
  with assms(5-7) target hs1 hs2 show ?thesis by (simp add: upstream_headers_def)
qed

theorem identity_headers_trusted_witness:
  "\<exists>sh' c' target out. request_filter auth_edge auth_lookups True auth_session (example_shared, new_ctx True) = (Inr Forward, sh', c')
    \<and> upstream_headers auth_edge (example_shared\<lparr>sh_backends := [(''app'', example_backend)]\<rparr>, c')
        \<lparr>ob_target = ''/a'', ob_absolute = False, ob_headers = [(''host'', ''x''), (''x-user'', ''admin'')]\<rparr> = Inr (target, out)
    \<and> get_all out ''x-user'' = [''u1'']"
proof -
  obtain sh' c' where run: "request_filter auth_edge auth_lookups True auth_session (example_shared, new_ctx True) = (Inr Forward, sh', c')"
    "ct_backend c' = Some ''app''" "ct_route c' = Some auth_route" using auth_run by blast
  let ?req = "\<lparr>ob_target = ''/a'', ob_absolute = False, ob_headers = [(''host'', ''x''), (''x-user'', ''admin'')]\<rparr>"
  let ?sh = "example_shared\<lparr>sh_backends := [(''app'', example_backend)]\<rparr>"
  have edge: "eg_name_ok auth_edge n" "eg_value_ok auth_edge n" "eg_uri_ok auth_edge n" "px_gateway auth_route = None" for n
    by (simp_all add: auth_edge_def example_edge_def auth_route_def example_px_route_def)
  have backend: "bt_get (sh_backends ?sh) ''app'' = Some example_backend" by simp
  obtain target out where out: "upstream_headers auth_edge (?sh, c') ?req = Inr (target, out)"
    using upstream_headers_total [OF edge run(2) backend run(3)] by blast
  have route: "rt_script auth_route = None" "se_external (st_security (rt_settings auth_route)) = Some identity_service"
    by (simp_all add: auth_route_def example_px_route_def)
  have valid: "external_validate example_outside identity_service = Inr ()"
    by (simp add: external_validate_def example_outside_def example_url_def identity_service_def from_secs_def starts_with_def ensure_def ok_or_def)
  have "to_ascii_lowercase ''x-user'' = ''x-user''" by code_simp
  then have low: "list_all (\<lambda>h. to_ascii_lowercase h = h) (ea_response_headers identity_service)"
    by (simp add: identity_service_def)
  have reply: "get_all [(''x-user'', ''u1'')] ''x-user'' = [''u1'']" by code_simp
  have service: "eg_auth_reply auth_edge k = Some (200, [(''x-user'', ''u1'')])" "eg_to_str auth_edge = Some"
    "''x-user'' \<in> set (ea_response_headers identity_service)" for k
    by (simp_all add: auth_edge_def example_edge_def identity_service_def)
  from identity_headers_trusted [OF run(1,3) route valid low out] obtain j status fields where
    "eg_auth_reply auth_edge j = Some (status, fields)"
    "\<forall>h\<in>set (ea_response_headers identity_service). get_all out h =
      (case get_all fields h of [] \<Rightarrow> [] | v # _ \<Rightarrow> (case eg_to_str auth_edge v of None \<Rightarrow> [] | Some t \<Rightarrow> [t]))"
    by blast
  then have "get_all out ''x-user'' = [''u1'']" using service reply by fastforce
  with run(1) out show ?thesis by blast
qed

section \<open>From the configuration to the backend\<close>

lemma forwarded_route:
  assumes "request_filter e lk tls s (sh, new_ctx tls) = (Inr Forward, sh', c')"
  shows "ct_route c' \<noteq> None"
proof -
  from assms obtain s1 route where run: "serve_route e tls route False s s1 = (Inr Forward, sh', c')"
    by (rule request_filter_Forward) blast
  from run obtain s2 s3 u where s2: "identify e tls route s (fst s1, (snd s1)\<lparr>ct_route := Some route\<rparr>) = (Inr (), s2)"
    and s3: "authorize e (ss_headers s) (ss_certificate s) route s2 = (Inr u, s3)"
    and fin: "finish e tls route s s3 = (Inr Forward, sh', c')"
    by (rule serve_route_Forward)
  show ?thesis
    using keeps_partD [OF finish_keeps fin] authorize_Inr(2) [OF s3] identify_Inr(1) [OF s2] by (auto simp: verdict_def split: prod.splits)
qed

lemma snapshot_backends_get: "bt_get (snapshot_backends sn) k = map_option fst (bt_get (sn_backends sn) k)"
  by (simp add: snapshot_backends_def map_of_map comp_def case_prod_beta)

lemma put_no_panic [simp]: "put_header e n v hs \<noteq> Inl Panicked" "put_value e n v hs \<noteq> Inl Panicked"
  by (auto simp: put_header_def put_value_def ensure_def)

lemma upstream_headers_indexed:
  assumes "ct_backend c = Some k" "bt_get (sh_backends sh) k = Some b" "ct_route c = Some route"
  shows "upstream_headers e (sh, c) req \<noteq> Inl Panicked"
proof -
  have all: "put_all e es hs \<noteq> Inl Panicked" for es hs
    by (induction es arbitrary: hs) (auto simp: bindR_def split: sum.split)
  have append: "append_all e es hs \<noteq> Inl Panicked" for es hs
    by (induction es arbitrary: hs) (auto simp: ensure_def)
  have gateway: "gateway_headers e g hs \<noteq> Inl Panicked" for g hs
    using all append by (auto simp: gateway_headers_def bindR_def split: sum.split)
  have request: "put_request_headers e vars h es hs \<noteq> Inl Panicked" for vars h es hs
  proof (induction e vars h es hs rule: put_request_headers.induct)
    case (2 e vars h n t es hs)
    show ?case
    proof (cases "Request_Entry.expand vars h t = []")
      case False
      then show ?thesis using 2 put_no_panic(1) [of e n "Request_Entry.expand vars h t" hs]
        by (cases "put_header e n (Request_Entry.expand vars h t) hs") (auto simp: Let_def)
    qed (use 2 in simp)
  qed simp
  have edits: "put_edits e es hs \<noteq> Inl Panicked" for es hs
    by (induction e es hs rule: put_edits.induct) (auto simp: bindR_def split: sum.split option.split)
  have target: "upstream_target e route c req \<noteq> Inl Panicked"
    by (auto simp: upstream_target_def Let_def ensure_def)
  have host: "upstream_host e route b r hs \<noteq> Inl Panicked" for r hs
    by (auto simp: upstream_host_def bindR_def gateway split: option.split sum.split)
  show ?thesis
    using assms target host request edits by (auto simp: upstream_headers_def bindR_def split: sum.split)
qed

text \<open>
  C3. A request that a loaded configuration forwards always has somewhere to go. The backend its context names is one of the snapshot, with an
  endpoint; choosing the endpoint never reports a missing backend, and building the request never indexes the backends of the
  snapshot out of range, whatever the headers of the client are.
\<close>

theorem config_forwards_to_known_backend:
  assumes "load_nodes w fingerprint nodes base version = Inr sn" and "list_all words_valid nodes" and "header_name_ok w ''x-real-ip''"
    and "sh_backends sh = snapshot_backends sn"
    and "request_filter e (snapshot_lookups sn a) tls s (sh, new_ctx tls) = (Inr Forward, sh', c')"
  shows "\<exists>k b p. ct_backend c' = Some k \<and> bt_get (sn_backends sn) k = Some (b, p) \<and> bk_endpoints b \<noteq> []
    \<and> fst (select_endpoint e (sh', c')) \<noteq> Inl (HttpError 503 ''backend unavailable'')
    \<and> upstream_headers e (sh', c') req \<noteq> Inl Panicked"
proof -
  have ok: "accepted w sn" by (rule load_nodes_accepted [OF assms(1-3)])
  from assms(5) obtain r route k where r: "lk_request (snapshot_lookups sn a) r = Some route" and k: "ct_backend c' = Some k"
    "permitted route (sh_rollouts sh) k" "sh_backends sh' = sh_backends sh"
    by (rule forwarded_choice)
  have "known (sn_backends sn) k"
    using snapshot_route_known [OF ok _ k(2)] r by (simp add: snapshot_lookups_def)
  then obtain b p where b: "bt_get (sn_backends sn) k = Some (b, p)" by (auto simp: known_def)
  with ok have "bk_endpoints b \<noteq> []" using backends_okD by (auto simp: accepted_def)
  have get: "bt_get (sh_backends sh') k = Some b" using b k(3) assms(4) by (simp add: snapshot_backends_get)
  have "fst (select_endpoint e (sh', c')) \<noteq> Inl (HttpError 503 ''backend unavailable'')"
    using get k(1) by (auto simp: select_endpoint_def split: prod.split option.split)
  moreover from forwarded_route [OF assms(5)] obtain route' where "ct_route c' = Some route'" by blast
  then have "upstream_headers e (sh', c') req \<noteq> Inl Panicked" by (rule upstream_headers_indexed [OF k(1) get])
  ultimately show ?thesis using k(1) b \<open>bk_endpoints b \<noteq> []\<close> by blast
qed

text \<open>One location that proxies to one target.\<close>

definition proxy_nodes :: "directive list" where
  "proxy_nodes =
     [Directive ''http'' [] (Some
        [Directive ''server'' [] (Some
          [simple ''listen'' [''8''],
           Directive ''location'' [''/''] (Some [simple ''proxy_pass'' [''http://api'']]) []]) []]) []]"

lemma proxy_target_key: "target_key ''http://api'' = ''http://api''"
  by code_simp

lemma default_external_off: "se_external (st_security default_settings) = None"
  by (simp add: default_settings_def default_security_def)

lemma proxy_loads:
  "\<exists>sn r. load_nodes example_outside (\<lambda>_. Some []) proxy_nodes ''/etc'' 1 = Inr sn
     \<and> map li_address (sn_listeners sn) = [SockV4 0 8] \<and> map ch_routes (sn_hosts sn) = [[r]]
     \<and> route_action r = Proxy ''http://api'' None \<and> rt_script r = None \<and> plain_settings (rt_settings r)
     \<and> se_external (st_security (rt_settings r)) = None \<and> route_matcher r = root_matcher"
  by (simp add: load_eval default_mtls_off default_external_off example_outside_def as_secs_def from_secs_def proxy_nodes_def snapshot_reindex_def bt_values_def
      proxy_target_key configure_route_def host_view_def route.defs bt_keys_def new_backend_def target_uri_def)

lemma proxy_routes:
  assumes ok: "accepted w sn" and addresses: "map li_address (sn_listeners sn) = [a]" and routes: "map ch_routes (sn_hosts sn) = [[r]]"
    and path: "starts_with path ''/''" "utf8_shaped path"
  shows "snapshot_route sn a host path = Some (px_plain r)"
proof -
  from addresses obtain l where l: "l \<in> set (sn_listeners sn)" "li_address l = a" by (cases "sn_listeners sn") auto
  from routes obtain h where h: "sn_hosts sn = [h]" "ch_routes h = [r]" by (cases "sn_hosts sn") auto
  from snapshot_routes [OF ok l(1) path, of host] l(2) obtain i j where
    "route_position sn a host path = Some (i, j)" "routed sn a path (i, j)" by auto
  moreover from this(2) have "i = 0" by (simp add: routed_def h)
  ultimately show ?thesis by (simp add: snapshot_route_def routed_def h)
qed

definition config_edge :: "(ip, string) edge" where
  "config_edge =
     \<lparr>eg_to_str = Some, eg_authority_host = Some, eg_percent_decode = (\<lambda>p. p), eg_percent_encode = (\<lambda>_ p. p), eg_path_and_query = Some,
      eg_uri_ok = (\<lambda>_. True), eg_name_ok = (\<lambda>_. True), eg_value_ok = (\<lambda>_. True), eg_net_contains = (\<lambda>_ _. False), eg_show_ip = (\<lambda>_. ''ip''),
      eg_is_ip = (\<lambda>_. False), eg_sha256 = (\<lambda>p. p), eg_policy_json = (\<lambda>_. ''{}''), eg_round = (\<lambda>x. x), eg_ln = (\<lambda>x. x),
      eg_verify_peer = (=), eg_verify_jwt = (\<lambda>_ _. None),
      eg_auth_url_ok = (\<lambda>_ _. True), eg_auth_reply = (\<lambda>_. None), eg_auth_in_time = (\<lambda>_. False), eg_api = eg_api example_edge,
      eg_script = eg_script example_edge, eg_gen_range = (\<lambda>_. 0), eg_random_hex = ''00'', eg_now = (\<lambda>k. k)\<rparr>"

theorem config_forwards_to_known_backend_witness:
  "\<exists>sn sh sh' c'. load_nodes example_outside (\<lambda>_. Some []) proxy_nodes ''/etc'' 1 = Inr sn
    \<and> request_filter config_edge (snapshot_lookups sn (SockV4 0 8)) False example_session (sh, new_ctx False) = (Inr Forward, sh', c')
    \<and> fst (select_endpoint config_edge (sh', c')) \<noteq> Inl (HttpError 503 ''backend unavailable'')"
proof -
  obtain sn r where sn: "load_nodes example_outside (\<lambda>_. Some []) proxy_nodes ''/etc'' 1 = Inr sn"
    "map li_address (sn_listeners sn) = [SockV4 0 8]" "map ch_routes (sn_hosts sn) = [[r]]"
    "route_action r = Proxy ''http://api'' None" "rt_script r = None" "plain_settings (rt_settings r)"
    "se_external (st_security (rt_settings r)) = None" "route_matcher r = root_matcher"
    using proxy_loads by (elim exE conjE)
  have words: "list_all words_valid proxy_nodes" by code_simp
  have name: "header_name_ok example_outside ''x-real-ip''" by (simp add: example_outside_def)
  have paths: "starts_with ''/a'' ''/''" "utf8_shaped ''/a''" "starts_with ''/a/'' ''/''" "utf8_shaped ''/a/''" by code_simp+
  have routes: "snapshot_route sn (SockV4 0 8) ''x'' ''/a'' = Some (px_plain r)" "snapshot_route sn (SockV4 0 8) ''x'' ''/a/'' = Some (px_plain r)"
    by (intro proxy_routes [OF load_nodes_accepted [OF sn(1) words name] sn(2,3)] paths)+
  let ?sh = "example_shared\<lparr>sh_backends := snapshot_backends sn\<rparr>"
  have "\<exists>sh' c'. request_filter config_edge (snapshot_lookups sn (SockV4 0 8)) False example_session (?sh, new_ctx False) = (Inr Forward, sh', c')
      \<and> ct_backend c' = Some ''http://api'' \<and> ct_route c' = Some (px_plain r)"
  proof (rule plain_forward [where k = 1 and p = "''/a''" and h = "''x''" and uri = None])
    show "plain_route (px_plain r)" "route_action (px_plain r) = Proxy ''http://api'' None"
      using sn by (simp_all add: plain_route_def)
    show "external_passes config_edge (px_plain r) (sh_auth_pools ?sh) (ss_headers example_session)"
      using sn(7) by (simp add: external_passes_def)
    show "declared_length config_edge example_session = None"
      "validate_connection_header (eg_to_str config_edge) (ss_headers example_session) = Inr ()"
      "normalized_path (eg_percent_decode config_edge) (ss_path example_session) = Inr ''/a''"
      "request_host (eg_to_str config_edge) (eg_authority_host config_edge) (ss_headers example_session) (ss_scheme example_session)
         (ss_authority example_session) (ss_http11 example_session) = Inr ''x''"
      by code_simp+
  qed (use routes sn(8) in \<open>simp_all add: example_shared_def snapshot_lookups_def slash_route_def\<close>)
  then obtain sh' c' where run: "request_filter config_edge (snapshot_lookups sn (SockV4 0 8)) False example_session (?sh, new_ctx False) = (Inr Forward, sh', c')"
    by (elim exE conjE)
  have "sh_backends ?sh = snapshot_backends sn" by simp
  from config_forwards_to_known_backend [OF sn(1) words name this run]
  have "fst (select_endpoint config_edge (sh', c')) \<noteq> Inl (HttpError 503 ''backend unavailable'')" by blast
  with sn(1) run show ?thesis by blast
qed

end
