(* ===== verification/Proxy_Response.thy ===== *)
theory Proxy_Response
  imports Proxy_Upstream Static_Files
begin

text \<open>
  The answers the proxy writes itself: \<open>response_headers\<close>, \<open>reply\<close> and \<open>serve_file\<close> of \<open>src/src/proxy/responses.rs\<close>. An answer
  is what is handed to the session, its head and the pieces of its body; the compression module of the session and the writes
  themselves are outside. Reading an open file, \<open>write_file_body\<close> of the session, the dates of \<open>httpdate\<close> and the version of the
  connection are the record \<open>file_io\<close>; a read that fails is like one at the end of the file. A header that cannot be inserted fails the request with 500, as in \<open>Proxy_Upstream\<close>.

  The lemmas: an answer keeps the balance of permits, whatever fails; a static answer is a regular entry of the
  root its route names, below that root, whole or in the range asked for, and never truncated.
\<close>

section \<open>The headers of a response\<close>

definition header_map :: "(string \<Rightarrow> string option) \<Rightarrow> (string \<times> string) list \<Rightarrow> (string, string) btree" where
  "header_map to_str hs = bt_collect (List.map_filter (\<lambda>(k, v). map_option (Pair k) (to_str v)) hs)"

fun add_response_headers ::
  "('n, 'p) edge \<Rightarrow> variables \<Rightarrow> nat \<Rightarrow> added_header list \<Rightarrow> (string \<times> string) list \<Rightarrow> (http_error, (string \<times> string) list) result" where
  "add_response_headers e vars status [] hs = Inr hs"
| "add_response_headers e vars status (h # rest) hs =
     (if ah_always h \<or> status \<in> {200, 201, 204, 206, 301, 302, 303, 304, 307, 308} then
        (let v = Request_Entry.expand vars [] (ah_value h) in
         if v = [] then add_response_headers e vars status rest hs
         else
           bindR (ensure (eg_name_ok e (ah_name h) \<and> eg_value_ok e v) (HttpError 500 ''invalid header'')) (\<lambda>_.
           add_response_headers e vars status rest (append_header (ah_name h) v hs)))
      else add_response_headers e vars status rest hs)"

definition route_headers ::
  "('n, 'p) edge \<Rightarrow> nat \<Rightarrow> (string \<times> string) list \<Rightarrow> 'n request_ctx \<Rightarrow> (http_error, (string \<times> string) list) result" where
  "route_headers e status hs c =
     (case ct_route c of
        None \<Rightarrow> Inr hs
      | Some route \<Rightarrow>
          bindR (case px_gateway route of None \<Rightarrow> Inr hs | Some p \<Rightarrow> gateway_headers e (gp_response_headers p) hs)
            (add_response_headers e (ctx_variables c) status (st_response_headers (rt_settings route))))"

text \<open>The execution of the request's script runs the response hook, once, and gives its permits back whatever the hook did.\<close>

definition response_plugin :: "('n, 'p) edge \<Rightarrow> nat \<Rightarrow> (string \<times> string) list \<Rightarrow> ('n, (string \<times> string) list) step" where
  "response_plugin e status hs =
     bindH (getC (\<lambda>c. (ct_execution c, Option.bind (ct_route c) rt_script))) (\<lambda>hook.
     case hook of
       (Some execution, Some script) \<Rightarrow>
         bindH (modC (\<lambda>c. c\<lparr>ct_execution := None\<rparr>)) (\<lambda>_.
         bindH release_plugin (\<lambda>_.
         case response (eg_api e) (eg_script e script) status (header_map (eg_to_str e) hs) execution of
           Inl _ \<Rightarrow> failH 500 ''response plugin failed''
         | Inr (edits, _) \<Rightarrow> liftH (put_edits e edits hs)))
     | _ \<Rightarrow> returnH hs)"

definition affinity_header :: "('n, 'p) edge \<Rightarrow> (string \<times> string) list \<Rightarrow> ('n, (string \<times> string) list) step" where
  "affinity_header e hs =
     bindH (getC ct_affinity_cookie) (\<lambda>x.
     case x of
       None \<Rightarrow> returnH hs
     | Some cookie \<Rightarrow>
         bindH (modC (\<lambda>c. c\<lparr>ct_affinity_cookie := None\<rparr>)) (\<lambda>_.
         bindH (ensureH (eg_value_ok e cookie) 500 ''invalid header'') (\<lambda>_. returnH (append_header ''Set-Cookie'' cookie hs))))"

definition response_headers :: "('n, 'p) edge \<Rightarrow> http_response \<Rightarrow> ('n, http_response) step" where
  "response_headers e resp =
     (if 100 \<le> rs_status resp \<and> rs_status resp < 200 \<and> rs_status resp \<noteq> 101 then returnH resp
      else
        bindH (getC (route_headers e (rs_status resp) (rs_headers resp))) (\<lambda>r.
        bindH (liftH r) (\<lambda>hs1.
        bindH (response_plugin e (rs_status resp) hs1) (\<lambda>hs2.
        bindH (affinity_header e hs2) (\<lambda>hs3.
        returnH (resp\<lparr>rs_headers := hs3\<rparr>))))))"

section \<open>Replies\<close>

definition reply :: "('n, 'p) edge \<Rightarrow> nat \<Rightarrow> string \<Rightarrow> string option \<Rightarrow> ('n, http_response \<times> string list) step" where
  "reply e status body target =
     (let content = (if status \<in> {204, 304} then [] else body);
          typed = insert_header ''Content-Type'' ''text/plain; charset=utf-8'' [];
          sized = (if status \<noteq> 204 \<and> status \<noteq> 304 then insert_header ''Content-Length'' (to_decimal (length content)) typed else typed)
      in bindH (ensureH (100 \<le> status \<and> status \<le> 999) 500 ''invalid status'') (\<lambda>_.
         bindH (liftH (case target of None \<Rightarrow> Inr sized | Some l \<Rightarrow> put_value e ''Location'' l sized)) (\<lambda>hs.
         bindH (response_headers e \<lparr>rs_status = status, rs_headers = hs\<rparr>) (\<lambda>resp.
         bindH (getC (\<lambda>c. rd_method (ct_request c))) (\<lambda>m.
         returnH (resp, if content = [] \<or> m = ''HEAD'' then [] else [content]))))))"

section \<open>Static files\<close>

record ('d, 'f) file_io =
  fi_disk :: "('d, 'f) disk"
  fi_read :: "'f \<Rightarrow> nat \<Rightarrow> nat \<Rightarrow> string"
  fi_sendfile :: "'f \<Rightarrow> nat \<Rightarrow> nat \<Rightarrow> string option"
  fi_parse_date :: "string \<Rightarrow> int option"
  fi_fmt_date :: "int \<Rightarrow> string"
  fi_http2 :: bool

datatype 'f served = Replied http_response "string list" | SentFile "'f static_file" http_response "string list"

definition static_path :: "'n request_ctx \<Rightarrow> (entry_error, string) result" where
  "static_path c = (case ed_path (ct_edits c) of Some p \<Rightarrow> normalize_decoded_path p | None \<Rightarrow> Inr (rd_path (ct_request c)))"

definition plain_transfer :: "('d, 'f) file_io \<Rightarrow> bool \<Rightarrow> 'n settings \<Rightarrow> bool" where
  "plain_transfer io tls st \<longleftrightarrow> \<not> tls \<and> \<not> fi_http2 io \<and> cp_gzip (st_compression st) = 0 \<and> cp_brotli (st_compression st) = 0"

text \<open>Opening: from the cache when the transfer is plain, else by name, reading a small file at once when all of it will be sent.\<close>

definition static_open ::
  "('d, 'f) file_io \<Rightarrow> bool \<Rightarrow> 'n px_route \<Rightarrow> request_data \<Rightarrow> string \<Rightarrow> (http_error, 'f opened \<times> string option) result" where
  "static_open io tls route r path =
     (let st = rt_settings route;
          sendfile = plain_transfer io tls st;
          prefetch = (\<not> sendfile \<and> rd_method r = ''GET''
            \<and> list_all (\<lambda>n. rd_header r n = None) [''range'', ''if-none-match'', ''if-modified-since'']) in
      case (if sendfile then open_cached (fi_disk io) st path else None) of
        Some opened \<Rightarrow> Inr (opened, None)
      | None \<Rightarrow>
          bindR (map_err (\<lambda>_. HttpError 500 ''file access failed'') (open_route (fi_disk io) st path (path_match_path (route_matcher route)))) (\<lambda>opened.
          case opened of
            OpenedFile file \<Rightarrow>
              if prefetch \<and> sf_length file \<le> 65536 then
                bindR (map_err (\<lambda>_. HttpError 500 ''file access failed'') (send_loop (fi_read io (sf_file file)) 0 (sf_length file))) (\<lambda>pieces.
                Inr (opened, Some (concat pieces)))
              else Inr (opened, None)
          | _ \<Rightarrow> Inr (opened, None)))"

text \<open>The pieces of the body that are written: none for \<open>HEAD\<close>, for 304 and for an empty selection.\<close>

definition static_body ::
  "('d, 'f) file_io \<Rightarrow> bool \<Rightarrow> bool \<Rightarrow> 'f \<Rightarrow> string option \<Rightarrow> nat \<Rightarrow> nat \<Rightarrow> (http_error, string list) result" where
  "static_body io sendfile nothing f initial start len =
     (if nothing then Inr []
      else
        case (if sendfile then fi_sendfile io f start len else None) of
          Some bytes \<Rightarrow> Inr [bytes]
        | None \<Rightarrow>
            (case initial of
               Some bytes \<Rightarrow> Inr [bytes]
             | None \<Rightarrow> map_err (HttpError 500) (send_loop (fi_read io f) start len)))"

definition send_static ::
  "('n, 'p) edge \<Rightarrow> ('d, 'f) file_io \<Rightarrow> bool \<Rightarrow> 'n px_route \<Rightarrow> 'f static_file \<Rightarrow> string option \<Rightarrow> ('n, 'f served) step" where
  "send_static e io tls route file initial =
     bindH (getC (\<lambda>c. map_err (\<lambda>_. HttpError 500 ''invalid header'')
       (select_file (fi_parse_date io) (fi_fmt_date io) (eg_value_ok e) file (rd_header (ct_request c))))) (\<lambda>selection.
     bindH (liftH selection) (\<lambda>(selected, start, len).
     bindH (response_headers e selected) (\<lambda>resp.
     bindH (getC (\<lambda>c. rd_method (ct_request c))) (\<lambda>m.
     bindH (liftH (static_body io (plain_transfer io tls (rt_settings route)) (m = ''HEAD'' \<or> rs_status selected = 304 \<or> len = 0)
       (sf_file file) initial start len)) (\<lambda>pieces.
     returnH (SentFile file resp pieces))))))"

definition answer_reply :: "('n, 'p) edge \<Rightarrow> nat \<Rightarrow> string \<Rightarrow> string option \<Rightarrow> ('n, 'f served) step" where
  "answer_reply e status body target = bindH (reply e status body target) (\<lambda>(resp, pieces). returnH (Replied resp pieces))"

definition serve_file :: "('n, 'p) edge \<Rightarrow> ('d, 'f) file_io \<Rightarrow> bool \<Rightarrow> 'n px_route \<Rightarrow> ('n, 'f served) step" where
  "serve_file e io tls route =
     bindH (getC (\<lambda>c. c)) (\<lambda>c.
     if rd_method (ct_request c) \<notin> {''GET'', ''HEAD''} then answer_reply e 405 (''method not allowed'' @ [CHR 0x0A]) None
     else
       bindH (liftH (map_err (\<lambda>_. HttpError 400 ''invalid path'') (static_path c))) (\<lambda>path.
       bindH (liftH (static_open io tls route (ct_request c) path)) (\<lambda>(opened, initial).
       case opened of
         OpenedStatus status \<Rightarrow> answer_reply e status [] None
       | OpenedDirectory \<Rightarrow>
           (let query = (case ed_query (ct_edits c) of Some q \<Rightarrow> q | None \<Rightarrow> rd_query (ct_request c)) in
            answer_reply e 301 [] (Some (encode_path (eg_percent_encode e) path @ ''/'' @ (if query = [] then [] else ''?'' @ query))))
       | OpenedNotFound \<Rightarrow> answer_reply e 404 (''not found'' @ [CHR 0x0A]) None
       | OpenedForbidden \<Rightarrow> answer_reply e 403 (''forbidden'' @ [CHR 0x0A]) None
       | OpenedFile file \<Rightarrow> send_static e io tls route file initial)))"

text \<open>Whatever an answer does, also in its errors, leaves the permits balanced: those of the response hook are given back.\<close>

lemma response_headers_balanced [balanced_intros]: "balanced (response_headers e resp)"
  unfolding response_headers_def response_plugin_def affinity_header_def
  by (auto intro!: balanced_intros simp: same_permits_def split: option.split sum.split)

lemma serve_file_balanced: "balanced (serve_file e io tls route)"
  unfolding serve_file_def send_static_def answer_reply_def reply_def Let_def
  by (auto intro!: balanced_intros split: opened.split prod.split)

section \<open>What a static answer is\<close>

text \<open>
  The file can be read and does not change while it is served: its reads, the transfer by the session, the length in its metadata and the inode
  opened again are all of one content.
\<close>

definition steady :: "('d, 'f) file_io \<Rightarrow> ('f \<Rightarrow> string) \<Rightarrow> bool" where
  "steady io content \<longleftrightarrow>
     (\<forall>f. reads_of (content f) (fi_read io f))
     \<and> (\<forall>f start len bytes. fi_sendfile io f start len = Some bytes \<longrightarrow> bytes = take len (drop start (content f)))
     \<and> (\<forall>f m. file_metadata (fi_disk io) f = Inr m \<longrightarrow> fm_len m = length (content f))
     \<and> (\<forall>p f. reopen_pinned (fi_disk io) p = Some f \<longrightarrow> content f = content p)"

text \<open>Status, body and \<open>Content-Range\<close> that the request asks for: nothing when unmodified, the range it names, else the whole file.\<close>

definition asked_for ::
  "(string \<Rightarrow> int option) \<Rightarrow> 'f static_file \<Rightarrow> (string \<Rightarrow> string option) \<Rightarrow> string \<Rightarrow> nat \<times> string \<times> string list \<Rightarrow> bool" where
  "asked_for parse_http_date file header content answer \<longleftrightarrow>
     (if not_modified parse_http_date file header then answer = (304, [], [])
      else if header ''range'' = None \<or> \<not> if_range parse_http_date file header then answer = (200, content, [])
      else \<forall>rng. range_small rng \<longrightarrow> header ''range'' = Some (show_range rng) \<longrightarrow> answer = range_answer rng content)"

definition static_errors :: "http_error set" where
  "static_errors =
     {HttpError 400 ''invalid path'', HttpError 500 ''file access failed'', HttpError 500 ''invalid header'',
      HttpError 500 ''invalid status'', HttpError 500 ''response plugin failed''}"

definition raises :: "('n, 'a) step \<Rightarrow> bool" where
  "raises m \<longleftrightarrow> (\<forall>s err s'. m s = (Inl err, s') \<longrightarrow> err \<in> static_errors)"

named_theorems raises_intros \<open>steps whose errors are those of a static answer\<close>

lemma raises_bind [raises_intros]: "raises m \<Longrightarrow> (\<And>x. raises (f x)) \<Longrightarrow> raises (bindH m f)"
  unfolding raises_def bindH_def by (fastforce split: prod.splits sum.splits)

lemma raises_simple [raises_intros]:
  "raises (returnH x)" "raises (getC g)" "raises (modC k)" "HttpError n msg \<in> static_errors \<Longrightarrow> raises (failH n msg)"
  "HttpError n msg \<in> static_errors \<Longrightarrow> raises (ensureH b n msg)" "(\<And>err. r = Inl err \<Longrightarrow> err \<in> static_errors) \<Longrightarrow> raises (liftH r)"
  by (auto simp: raises_def returnH_def getC_def modC_def failH_def ensureH_def liftH_def)

lemma raises_release [raises_intros]: "raises release_plugin"
  by (auto simp: raises_def release_plugin_def)

lemma header_errors:
  "put_value e name v hs = Inl err \<Longrightarrow> err = HttpError 500 ''invalid header''"
  "put_header e name v hs = Inl err \<Longrightarrow> err = HttpError 500 ''invalid header''"
  by (auto simp: put_value_def put_header_def bindR_def ensure_def split: if_splits sum.splits)

lemma put_all_error: "put_all e hs fs = Inl err \<Longrightarrow> err = HttpError 500 ''invalid header''"
  by (induction e hs fs rule: put_all.induct) (auto simp: bindR_def dest: header_errors split: sum.splits)

lemma append_all_error: "append_all e hs fs = Inl err \<Longrightarrow> err = HttpError 500 ''invalid header''"
  by (induction e hs fs rule: append_all.induct) (auto simp: bindR_def ensure_def split: sum.splits if_splits)

lemma put_edits_error: "put_edits e hs fs = Inl err \<Longrightarrow> err = HttpError 500 ''invalid header''"
  by (induction e hs fs rule: put_edits.induct) (auto simp: bindR_def dest: header_errors split: sum.splits option.splits)

lemma gateway_headers_error: "gateway_headers e h hs = Inl err \<Longrightarrow> err = HttpError 500 ''invalid header''"
  by (auto simp: gateway_headers_def bindR_def dest: put_all_error append_all_error split: sum.splits)

lemma add_response_headers_error: "add_response_headers e vars status hs fs = Inl err \<Longrightarrow> err = HttpError 500 ''invalid header''"
  by (induction e vars status hs fs rule: add_response_headers.induct) (auto simp: bindR_def ensure_def Let_def split: sum.splits if_splits)

lemma route_headers_error: "route_headers e status hs c = Inl err \<Longrightarrow> err = HttpError 500 ''invalid header''"
  by (auto simp: route_headers_def bindR_def dest: gateway_headers_error add_response_headers_error split: option.splits sum.splits)

lemma static_open_error: "static_open io tls route r path = Inl err \<Longrightarrow> err = HttpError 500 ''file access failed''"
  by (auto simp: static_open_def Let_def bindR_def map_err_def split: option.splits sum.splits opened.splits if_splits)

lemma listed_errors:
  "HttpError 400 ''invalid path'' \<in> static_errors" "HttpError 500 ''file access failed'' \<in> static_errors"
  "HttpError 500 ''invalid header'' \<in> static_errors" "HttpError 500 ''invalid status'' \<in> static_errors"
  "HttpError 500 ''response plugin failed'' \<in> static_errors"
  by (simp_all add: static_errors_def)

lemma raises_lift:
  "(\<And>err. r = Inl err \<Longrightarrow> err \<in> static_errors) \<Longrightarrow> (\<And>x. r = Inr x \<Longrightarrow> raises (f x)) \<Longrightarrow> raises (bindH (liftH r) f)"
  by (cases r) (auto simp: raises_def bindH_def liftH_def)

lemma raises_computed:
  "(\<And>c err. g c = Inl err \<Longrightarrow> err \<in> static_errors) \<Longrightarrow> (\<And>c x. g c = Inr x \<Longrightarrow> raises (f x)) \<Longrightarrow>
     raises (bindH (getC g) (\<lambda>r. bindH (liftH r) f))"
  by (fastforce simp: raises_def bindH_def getC_def liftH_def split: sum.splits)

lemma raises_plugin [raises_intros]: "raises (response_plugin e status hs)" "raises (affinity_header e hs)"
  unfolding response_plugin_def affinity_header_def
  by (auto intro!: raises_intros listed_errors split: option.split sum.split dest!: put_edits_error simp: listed_errors)

lemma raises_response [raises_intros]: "raises (response_headers e resp)"
proof -
  have "raises (bindH (getC (route_headers e status hs)) (\<lambda>r. bindH (liftH r) (\<lambda>hs1.
      bindH (response_plugin e status hs1) (\<lambda>hs2. bindH (affinity_header e hs2) (\<lambda>hs3. returnH (resp\<lparr>rs_headers := hs3\<rparr>))))))" for status hs
    by (intro raises_computed raises_bind raises_plugin raises_simple(1)) (auto dest: route_headers_error simp: listed_errors)
  then show ?thesis by (simp add: response_headers_def raises_simple(1))
qed

lemma raises_reply [raises_intros]: "raises (answer_reply e status body target)"
  unfolding answer_reply_def reply_def Let_def
  by (auto intro!: raises_intros listed_errors split: option.splits dest!: header_errors simp: listed_errors)

section \<open>The file and the bytes\<close>

lemma response_headers_status: "response_headers e resp s = (Inr resp', s') \<Longrightarrow> rs_status resp' = rs_status resp"
  by (auto simp: response_headers_def result_simps split: if_splits)

lemma steady_length: "steady io content \<Longrightarrow> entry_file (fi_disk io) base rel file \<Longrightarrow> sf_length file = length (content (sf_file file))"
  unfolding steady_def entry_file_def by metis

lemma static_open_file:
  assumes "static_open io tls route r path = Inr (OpenedFile file, initial)"
  shows "\<exists>mapped target rel. mapped_path (fi_disk io) (rt_settings route) path (path_match_path (route_matcher route)) mapped
      \<and> target_path (rt_settings route) mapped target \<and> entry_name (rt_settings route) target rel
      \<and> entry_file (fi_disk io) (static_root (fi_disk io) (rt_settings route)) rel file"
    and "initial = Some bytes \<Longrightarrow> rd_header r ''range'' = None \<and> rd_header r ''if-none-match'' = None \<and> rd_header r ''if-modified-since'' = None
      \<and> (\<exists>pieces. send_loop (fi_read io (sf_file file)) 0 (sf_length file) = Inr pieces \<and> bytes = concat pieces)"
proof -
  let ?st = "rt_settings route" and ?prefix = "path_match_path (route_matcher route)"
  consider (cached) opened where "open_cached (fi_disk io) ?st path = Some opened" "opened = OpenedFile file" "initial = None"
    | (named) "open_route (fi_disk io) ?st path ?prefix = Inr (OpenedFile file)"
      "initial = Some bytes \<Longrightarrow> rd_header r ''range'' = None \<and> rd_header r ''if-none-match'' = None \<and> rd_header r ''if-modified-since'' = None
      \<and> (\<exists>pieces. send_loop (fi_read io (sf_file file)) 0 (sf_length file) = Inr pieces \<and> bytes = concat pieces)"
  proof (cases "if plain_transfer io tls ?st then open_cached (fi_disk io) ?st path else None")
    case None
    with assms obtain opened where "open_route (fi_disk io) ?st path ?prefix = Inr opened"
      by (auto simp: static_open_def Let_def result_simps)
    with assms None show ?thesis
      by (cases opened) (auto simp: static_open_def Let_def result_simps split: if_splits intro!: named)
  next
    case (Some opened)
    with assms show ?thesis by (intro cached [of opened]) (auto simp: static_open_def Let_def split: if_splits)
  qed
  note cases = this
  show "\<exists>mapped target rel. mapped_path (fi_disk io) ?st path ?prefix mapped \<and> target_path ?st mapped target \<and> entry_name ?st target rel
      \<and> entry_file (fi_disk io) (static_root (fi_disk io) ?st) rel file"
    by (rule cases) (blast elim: open_cached_entry [where prefix = ?prefix] dest: open_route_entry)+
  show "rd_header r ''range'' = None \<and> rd_header r ''if-none-match'' = None \<and> rd_header r ''if-modified-since'' = None
      \<and> (\<exists>pieces. send_loop (fi_read io (sf_file file)) 0 (sf_length file) = Inr pieces \<and> bytes = concat pieces)" if "initial = Some bytes"
    by (rule cases) (use that in auto)
qed

lemma static_body_sends:
  assumes "steady io content" and "start + len \<le> length (content f)"
    and "\<And>bytes. initial = Some bytes \<Longrightarrow> bytes = take len (drop start (content f))"
  shows "\<exists>pieces. static_body io sendfile nothing f initial start len = Inr pieces
    \<and> concat pieces = (if nothing then [] else take len (drop start (content f)))"
proof -
  have reads: "reads_of (content f) (fi_read io f)"
    and transfer: "fi_sendfile io f start len = Some bytes \<Longrightarrow> bytes = take len (drop start (content f))" for bytes
    using assms(1) by (auto simp: steady_def)
  from send_loop_sends [OF reads assms(2)] transfer assms(3) show ?thesis
    by (cases initial; cases "fi_sendfile io f start len"; auto simp: static_body_def)
qed

lemma static_body_never_fails:
  assumes "steady io content" and "start + len \<le> length (content f)"
  shows "static_body io sendfile nothing f initial start len \<noteq> Inl err"
  using assms send_loop_sends [of "content f" "fi_read io f" start len]
  by (auto simp: static_body_def steady_def split: option.split)

lemma select_body_asked:
  assumes "select_body pd file header = (status, start, len, content_range)" and "sf_length file = length content"
  shows "asked_for pd file header content (status, if status = 304 then [] else take len (drop start content),
    case content_range of None \<Rightarrow> [] | Some c \<Rightarrow> [c])"
proof (cases "not_modified pd file header \<or> header ''range'' = None \<or> \<not> if_range pd file header")
  case True
  then show ?thesis using assms by (auto simp: asked_for_def select_body_def Let_def split: option.splits if_splits)
next
  case False
  then have "range_answer rng content = (status, if status = 304 then [] else take len (drop start content),
      case content_range of None \<Rightarrow> [] | Some c \<Rightarrow> [c])" if "range_small rng" "header ''range'' = Some (show_range rng)" for rng
    using select_body_range [OF that(2,1) _ _ assms(2,1)] by (auto simp: range_answer_def Let_def split: if_splits prod.splits)
  with False show ?thesis by (auto simp: asked_for_def)
qed

lemma send_static_raises:
  assumes "steady io content" and "sf_length file = length (content (sf_file file))"
  shows "raises (send_static e io tls route file initial)"
  unfolding send_static_def
proof (rule raises_computed, goal_cases)
  case (1 c err)
  then show ?case by (auto simp: map_err_def listed_errors split: sum.splits)
next
  case (2 c x)
  obtain selected start len where x: "x = (selected, start, len)" by (cases x)
  with 2 have sel: "select_file (fi_parse_date io) (fi_fmt_date io) (eg_value_ok e) file (rd_header (ct_request c)) = Inr (selected, start, len)"
    by (simp add: result_simps)
  obtain status range where body: "select_body (fi_parse_date io) file (rd_header (ct_request c)) = (status, start, len, range)"
    using select_file_headers [OF sel] by (metis prod_cases4)
  have "static_body io sendfile nothing (sf_file file) initial start len \<noteq> Inl err" for sendfile nothing err
    using select_body_inside [OF body] assms static_body_never_fails by metis
  then show ?case unfolding x prod.case
    by (intro raises_bind raises_response raises_simple) auto
qed

lemma serve_file_raises:
  assumes "steady io content"
  shows "raises (serve_file e io tls route)"
  unfolding serve_file_def
proof (rule raises_bind [OF raises_simple(2)], goal_cases)
  case (1 c)
  have "raises (send_static e io tls route file initial)" if "static_open io tls route r path = Inr (OpenedFile file, initial)" for r path "file" initial
    using static_open_file(1) [OF that] steady_length [OF assms] send_static_raises [OF assms] by blast
  then show ?case
    by (auto intro!: raises_lift raises_reply listed_errors dest!: static_open_error split: opened.split
        simp: listed_errors Let_def map_err_def split: sum.splits)
qed

section \<open>Static responses\<close>

lemma serve_file_sent:
  assumes "serve_file e io tls route (sh, c) = (Inr (SentFile file resp pieces), s')"
  obtains path initial selected start len where
    "rd_method (ct_request c) \<in> {''GET'', ''HEAD''}" "static_path c = Inr path"
    "static_open io tls route (ct_request c) path = Inr (OpenedFile file, initial)"
    "select_file (fi_parse_date io) (fi_fmt_date io) (eg_value_ok e) file (rd_header (ct_request c)) = Inr (selected, start, len)"
    "response_headers e selected (sh, c) = (Inr resp, s')"
    "static_body io (plain_transfer io tls (rt_settings route)) (rd_method (ct_request (snd s')) = ''HEAD'' \<or> rs_status selected = 304 \<or> len = 0)
       (sf_file file) initial start len = Inr pieces"
proof -
  from assms have get: "rd_method (ct_request c) \<in> {''GET'', ''HEAD''}"
    by (auto simp: serve_file_def answer_reply_def result_simps split: if_splits)
  with assms obtain path opened initial where path: "static_path c = Inr path"
    and opened: "static_open io tls route (ct_request c) path = Inr (opened, initial)"
    by (auto simp: serve_file_def result_simps)
  with assms get have sent: "opened = OpenedFile file \<and> send_static e io tls route file initial (sh, c) = (Inr (SentFile file resp pieces), s')"
    by (cases opened) (auto simp: serve_file_def send_static_def answer_reply_def result_simps Let_def)
  then obtain selected start len where
    "select_file (fi_parse_date io) (fi_fmt_date io) (eg_value_ok e) file (rd_header (ct_request c)) = Inr (selected, start, len)"
    "response_headers e selected (sh, c) = (Inr resp, s')"
    "static_body io (plain_transfer io tls (rt_settings route)) (rd_method (ct_request (snd s')) = ''HEAD'' \<or> rs_status selected = 304 \<or> len = 0)
       (sf_file file) initial start len = Inr pieces"
    by (auto simp: send_static_def result_simps)
  with get path opened sent that show thesis by blast
qed

lemma release_keeps_context [part_intros]: "keeps_part (\<lambda>s. ct_request (snd s)) release_plugin"
  by (rule keeps_partI) (auto simp: release_plugin_def)

lemma response_keeps_request: "keeps_part (\<lambda>s. ct_request (snd s)) (response_headers e resp)"
  unfolding response_headers_def response_plugin_def affinity_header_def
  by (auto intro!: part_intros split: option.split sum.split)

lemma static_path_clean: "static_path c = Inr path \<Longrightarrow> clean_path (rd_path (ct_request c)) \<Longrightarrow> clean_path path"
  using normalize_decoded_path_sound by (auto simp: static_path_def split: option.splits)

text \<open>The pieces sent for a selection: those of a small file read at once are the whole file, which is then what is selected.\<close>

lemma static_pieces:
  assumes steady: "steady io content" and len: "sf_length file = length (content (sf_file file))"
    and opened: "static_open io tls route r path = Inr (OpenedFile file, initial)"
    and body: "select_body pd file (rd_header r) = (status, start, len, rng)"
    and sent: "static_body io sendfile nothing (sf_file file) initial start len = Inr pieces"
  shows "concat pieces = (if nothing then [] else take len (drop start (content (sf_file file))))"
proof -
  let ?content = "content (sf_file file)"
  have inside: "start + len \<le> length ?content" using select_body_inside [OF body] len by simp
  have "bytes = take len (drop start ?content)" if read: "initial = Some bytes" for bytes
  proof -
    from static_open_file(2) [OF opened read] obtain parts where plain: "rd_header r ''range'' = None" "rd_header r ''if-none-match'' = None"
      "rd_header r ''if-modified-since'' = None"
      and parts: "send_loop (fi_read io (sf_file file)) 0 (sf_length file) = Inr parts" "bytes = concat parts" by blast
    have "reads_of ?content (fi_read io (sf_file file))" using steady by (simp add: steady_def)
    from send_loop_sends [OF this, of 0 "sf_length file"] parts len have "bytes = ?content" by auto
    moreover have "start = 0" "len = length ?content"
      using body plain len by (auto simp: select_body_def not_modified_def)
    ultimately show ?thesis by simp
  qed
  then have "\<exists>p. static_body io sendfile nothing (sf_file file) initial start len = Inr p
      \<and> concat p = (if nothing then [] else take len (drop start ?content))"
    by (rule static_body_sends [OF steady inside])
  with sent show ?thesis by simp
qed


definition example_io :: "(string, string) file_io" where
  "example_io =
     \<lparr>fi_disk = example_disk, fi_read = (\<lambda>_. example_reads), fi_sendfile = (\<lambda>_ _ _. None), fi_parse_date = (\<lambda>_. None),
      fi_fmt_date = (\<lambda>_. ''date''), fi_http2 = False\<rparr>"

definition static_px_route :: "ip px_route" where
  "static_px_route =
     \<lparr>route_id = ''r'', route_matcher = NginxPrefix ''/'', route_action = Static, rt_settings = example_static, rt_script = None,
      rt_allowed = [], px_gateway = None, px_rollout = None, px_tenant = None, px_auth_endpoints = 0\<rparr>"

definition static_ctx :: "ip request_ctx" where
  "static_ctx = (new_ctx False)\<lparr>ct_route := Some static_px_route,
     ct_request := empty_request\<lparr>rd_method := ''GET'', rd_path := ''/a.txt'', rd_header := example_header\<rparr>\<rparr>"

lemma example_steady: "steady example_io (\<lambda>_. ''contents'')"
proof -
  have "reads_of ''contents'' example_reads" by (auto simp: reads_of_def example_reads_def)
  then show ?thesis by (simp add: steady_def example_io_def example_disk_def)
qed

lemma example_compression: "st_compression example_static = default_compression" "cp_gzip default_compression = 0" "cp_brotli default_compression = 0"
  by (simp_all add: example_static_def default_settings_def default_compression_def)

lemma static_ctx_simps:
  "ct_route static_ctx = Some static_px_route" "ct_execution static_ctx = None" "ct_affinity_cookie static_ctx = None"
  "ct_edits static_ctx = \<lparr>ed_path = None, ed_query = None, ed_headers = []\<rparr>" "rd_method (ct_request static_ctx) = ''GET''"
  "rd_path (ct_request static_ctx) = ''/a.txt''" "rd_header (ct_request static_ctx) = example_header"
  by (simp_all add: static_ctx_def new_ctx_def)

lemma example_head: "100 \<le> status \<Longrightarrow> 200 \<le> status \<Longrightarrow>
    response_headers e \<lparr>rs_status = status, rs_headers = hs\<rparr> (sh, static_ctx) = (Inr \<lparr>rs_status = status, rs_headers = hs\<rparr>, sh, static_ctx)"
  by (simp add: response_headers_def route_headers_def response_plugin_def affinity_header_def result_simps static_ctx_simps
      static_px_route_def example_static_def default_settings_def)

lemma example_served:
  "serve_file config_edge example_io False static_px_route (example_shared, static_ctx) =
     (Inr (SentFile example_file \<lparr>rs_status = 206, rs_headers = [(''content-type'', ''application/octet-stream''), (''etag'', sf_etag example_file),
       (''last-modified'', ''date''), (''accept-ranges'', ''bytes''), (''content-length'', ''3''), (''content-range'', ''bytes 2-4/8'')]\<rparr>
       [''nte'']), example_shared, static_ctx)"
proof -
  have opened: "static_open example_io False static_px_route (ct_request static_ctx) ''/a.txt'' = Inr (OpenedFile example_file, None)"
  proof -
    have "open_cached example_disk (example_static :: ip settings) ''/a.txt'' = None"
      by (simp add: open_cached_def example_disk_def)
    then show ?thesis
      by (simp add: static_open_def Let_def example_io_def static_px_route_def plain_transfer_def example_compression example_opened)
  qed
  have selected: "select_file (fi_parse_date example_io) (fi_fmt_date example_io) (eg_value_ok config_edge) example_file example_header =
      Inr (\<lparr>rs_status = 206, rs_headers = [(''content-type'', ''application/octet-stream''), (''etag'', sf_etag example_file),
       (''last-modified'', ''date''), (''accept-ranges'', ''bytes''), (''content-length'', ''3''), (''content-range'', ''bytes 2-4/8'')]\<rparr>, 2, 3)"
    using example_selected by (simp add: example_io_def config_edge_def)
  have sent: "static_body example_io sendfile False f None 2 3 = Inr [''nte'']" for sendfile f
    by (simp add: static_body_def example_io_def send_loop.simps [of _ 2 3] send_loop.simps [of _ _ 0] example_reads_def)
  show ?thesis
    by (simp add: serve_file_def send_static_def static_path_def static_ctx_simps opened selected sent example_head result_simps)
qed


end
