(* ===== verification/Spec2Isabelle.thy ===== *)
theory Spec2Isabelle
  imports Http_Model Routing Traffic Rollout Backend Script_Host Rgl_Preservation Gateway_Routes Config_Correct Ingress_Routes Proxy_Response
begin

text \<open>
  \<^bold>\<open>The program.\<close> rgnix is a reverse proxy and Kubernetes ingress. A configuration is read from files or resources
  into a snapshot of listeners, virtual hosts, routes and backends. A request is normalised and routed by an index over the
  snapshot; its client is identified, it is authorised and admitted by tenant quotas and by rate and concurrency limits, may run a routing
  script, and is answered, served from a file, or sent to a backend that the script, a rollout, a Gateway policy or the
  configuration names, at an endpoint of its pool. Scripts are written in RGL, compiled to Wasm and run against a host that owns
  strings, edits and the decision of the request.

  \<^bold>\<open>The theories\<close>, each with the file of \<open>src/src\<close> it models. Every one opens with the correspondence
  of its definitions.

  \<^item> \<open>Rust_Prelude\<close>: results as sums, the string, slice and \<open>BTreeMap\<close> functions of the standard library,
    UTF-8, integer parsing and printing; \<open>Result_State\<close>: methods on \<open>&mut self\<close> that may fail, with weakest
    preconditions; \<open>Net_Addr\<close>: IP and socket addresses of \<open>std::net\<close>.

  Routing and configuration:

  \<^item> \<open>Http_Model\<close> (\<open>model.rs\<close>): path matchers, routes, virtual hosts; TLS host selection, which picks the first host of the highest rank.
  \<^item> \<open>Routing\<close> (\<open>routing.rs\<close>): \<open>Index::build\<close> and \<open>Index::route\<close>, equal to a scan of the configuration (C1), with
    longest-prefix matching inside a host.
  \<^item> \<open>Config_Syntax\<close> (\<open>config/syntax.rs\<close>): tokens, directives and includes; printing and parsing (C40).
  \<^item> \<open>Config_Settings\<close>, \<open>Config_Apply\<close>, \<open>Config_Load\<close> (\<open>config\<close>, \<open>model.rs\<close> and the policy types of the other files):
    the settings of a route, every directive, and the assembly of servers, locations, listeners and upstreams into a snapshot.
    \<open>Config_Correct\<close>: a configuration that loads serves every request on its listeners (C30) and refers only to what
    exists and was checked (C31).
  \<^item> \<open>Gateway_Policy\<close> (\<open>gateway/spec.rs\<close>, \<open>gateway/timeouts.rs\<close>, \<open>gateway/routes.rs\<close>): filters, modifiers, redirects,
    weighted backends and hostname patterns (C36, C38). \<open>Gateway_Routes\<close> (\<open>gateway/routes.rs\<close>, \<open>gateway/routes/index.rs\<close>):
    matches, priorities and the index, equal to the choice over all listeners and entries (C35).

  Admission, backends and rollouts:

  \<^item> \<open>Leases\<close>: the contract shared by permits and backend leases, as locales with the accounting lemmas, interpreted for
    limiters, backends and tenants.
  \<^item> \<open>Traffic\<close> (\<open>traffic.rs\<close>): keys, policies, token buckets and permits; counters equal the outstanding permits
    (C4), admissions conform to the rate up to the roundings of \<open>f64\<close> (C5), for any rounding within half a unit in the last place.
  \<^item> \<open>Tenancy\<close> (\<open>tenancy.rs\<close>, \<open>tenancy/domains.rs\<close>): quotas, tenants and their permits, domain grants and claims.
    \<open>Ingress_Routes\<close> (\<open>ingress/mod.rs\<close>): claims, services and rules of Ingress resources as virtual hosts; what the index answers
    for a host is of one namespace (C13).
  \<^item> \<open>Client_Identity\<close> (\<open>identity.rs\<close>, \<open>proxy_protocol.rs\<close>): the address of a client behind trusted proxies, which it
    cannot choose and, with a malformed chain, is the peer (C6), and the PROXY protocol (C28).
  \<^item> \<open>Weighted_Choice\<close>: the contract of a weighted draw, interpreted for rollouts, backends and Gateway policies.
  \<^item> \<open>Rollout\<close> (\<open>rollout.rs\<close>, \<open>rollout/progress.rs\<close>, \<open>rollout/metrics.rs\<close>): policies, selection, the sample window,
    stages and metric rollback, as operations on one state and as runs of them (C7 to C12, C14).
  \<^item> \<open>Backend\<close> (\<open>backend.rs\<close>, \<open>backend/selection.rs\<close>): endpoint health, the cached snapshot, four balancing methods,
    leases, DNS refresh and health checks (C15 to C17, C19 to C21).

  Scripts:

  \<^item> \<open>Request_Data\<close> (\<open>script/mod.rs\<close>, \<open>script/headers.rs\<close>, \<open>body.rs\<close>): the request that policies and scripts read, with the
    header view and its copy on write.
  \<^item> \<open>Script_Host\<close> (\<open>script/mod.rs\<close>, \<open>script/json.rs\<close>): the state of an execution, every host call of the plugin
    interface, the two hooks and JSON pointers. \<open>host_step\<close> is the abstract machine of a host; every call
    refines it (C22), and the safety properties are invariants of its steps (C23, C24, C26, C27, C29).
  \<^item> \<open>Rgl_Syntax\<close> (\<open>script/syntax.rs\<close>): lexer and parser; parsing is total (C32) and accepted programs are well
    formed (C33).
  \<^item> \<open>Rgl_Codegen\<close> (\<open>script/codegen.rs\<close>): type checking, emission and linking; every module it produces passes Wasm
    validation (C34). The validator follows the Wasm specification for the instructions the compiler uses.
  \<^item> \<open>Rgl_Semantics\<close>, \<open>Wasm_Exec\<close>: what an RGL program means and how the instructions run, both over a host given as an
    argument. \<open>Rgl_Simulation\<close>, \<open>Wasm_Link\<close>, \<open>Rgl_Correct\<close> and \<open>Rgl_Preservation\<close> relate them: running an entry point of a compiled script ends as
    the program does and never gets stuck (C39).

  The request:

  \<^item> \<open>Request_Entry\<close> (\<open>proxy/mod.rs\<close>, \<open>proxy/planning.rs\<close>): normalisation of paths, hosts, hop-by-hop headers, variables and the
    URI sent on.
  \<^item> \<open>Static_Files\<close> (\<open>proxy/static_files.rs\<close>, the sending loop of \<open>proxy/responses.rs\<close>): opening by name and from the cache, and the
    selection of a range. \<open>Content_Coding\<close> (\<open>compression.rs\<close>): the coding of a response.
  \<^item> \<open>Body_Inspection\<close> (\<open>proxy/body.rs\<close>, \<open>proxy/mod.rs\<close>): what a script sees of a body, and the body limit.
  \<^item> \<open>Proxy_Pipeline\<close> (\<open>proxy/mod.rs\<close>, \<open>proxy/policy.rs\<close>, \<open>security\<close>): \<open>request_filter\<close> as steps on the shared state and the
    context of a request, composed of the components above. No path through it leaks a permit (C37). \<open>Proxy_Guards\<close>: a
    request that is forwarded has passed every check of its route and goes to a backend the route names (C2).
    \<open>Proxy_Upstream\<close>: the endpoint and the headers of the request sent on. Identity headers hold what the authentication service
    answered, never what the client sent (C18), and what a loaded configuration forwards has a backend to go to (C3).
    \<open>Proxy_Response\<close> (\<open>proxy/responses.rs\<close>): the answers the proxy writes itself and their headers. A file that is sent is the entry of the
    route's directory that the path names, whole or in exactly the range asked for (C25).

  \<^bold>\<open>Conventions.\<close> A \<open>str\<close> is the list of its UTF-8 bytes. Fallible functions return a sum whose left side is
  an error datatype with one constructor per message. Mutexes and atomics guard single operations, so an
  operation is a function on the state and a concurrent history is a sequence of operations; the accounting and
  rollback theorems quantify over all such sequences. Cursors that wrap are 64-bit words; other unsigned integers
  are natural numbers, where the code saturates or checks that is written out. Code of other crates (SHA-256,
  \<open>http\<close> header syntax, \<open>url\<close>, \<open>serde_json\<close> readers, percent encoding, OpenSSL, DNS answers, health probes, the file system,
  floating-point rounding, the Wasm engine's instruction fuel) is an argument of the definitions that use it.

  \<^bold>\<open>Bounds and fuel.\<close> The RGL parser's loops take fuel, 8 units per token; each unit is paid for by a token or by
  one of the at most seven calls between two tokens, and C32 shows that the error \<open>OutOfFuel\<close> never occurs. The
  configuration parser takes 3 units per token, enough by \<open>cfg_parse_progress\<close>. The
  compiler's \<open>depth\<close> counter is a descending argument that starts at the limit of the code, 128. Host calls of a
  script are bounded by the fuel the code itself gives (\<open>script_calls_bounded\<close>). In C39 the number \<open>k\<close> bounds loop
  iterations and call depth of both machines alike.

  \<^bold>\<open>Not modelled.\<close> Network and Kubernetes I/O, the connection handling of pingora and hyper, the responses of backends on their way to the client,
  mirroring, telemetry, log files and XDP loading are effects outside the program's logic. The controllers that assemble snapshots
  from Kubernetes resources, but for the routes of \<open>Ingress_Routes\<close>, the script engine's module cache, release history, diagnostics and migration reports are logic that is left out.
\<close>

end
